(* ===== verification/SSH_Base.thy ===== *)
theory SSH_Base
  imports Main "HOL-Library.Word"
begin

unbundle bit_operations_syntax

text \<open>
  Shared ground of the development: the byte type of the C sources, the error codes of
  \<^verbatim>\<open>ssherr.h\<close>, the big-endian access macros of \<^verbatim>\<open>sshbuf.h\<close>, the model of the C
  allocator, and the list and word lemmas that the component theories share.

  Conventions.  A \<open>size_t\<close> is a \<^typ>\<open>nat\<close>; where the code adds or multiplies sizes the
  component theory proves that the sum stays far below \<open>2 ^ 64\<close>.  A \<open>u_char\<close>,
  \<open>u_int\<close>, \<open>u_int32_t\<close> or \<open>u_int64_t\<close> whose bits matter is a word of that width.
  An \<open>int\<close> return code that is 0 or a negative \<open>SSH_ERR_\<close> constant is an
  \<open>ssh_err option\<close>: \<^term>\<open>None\<close> is the return value 0.
\<close>

section \<open>Types and error codes\<close>

type_synonym byte = "8 word"

datatype ssh_err =
    SSH_ERR_INTERNAL_ERROR
  | SSH_ERR_ALLOC_FAIL
  | SSH_ERR_MESSAGE_INCOMPLETE
  | SSH_ERR_INVALID_FORMAT
  | SSH_ERR_BIGNUM_IS_NEGATIVE
  | SSH_ERR_STRING_TOO_LARGE
  | SSH_ERR_BIGNUM_TOO_LARGE
  | SSH_ERR_ECPOINT_TOO_LARGE
  | SSH_ERR_NO_BUFFER_SPACE
  | SSH_ERR_INVALID_ARGUMENT
  | SSH_ERR_KEY_TYPE_MISMATCH
  | SSH_ERR_KEY_INVALID_EC_VALUE
  | SSH_ERR_SIGNATURE_INVALID
  | SSH_ERR_NO_HOSTKEY_LOADED
  | SSH_ERR_NO_CIPHER_ALG_MATCH
  | SSH_ERR_NO_MAC_ALG_MATCH
  | SSH_ERR_NO_COMPRESS_ALG_MATCH
  | SSH_ERR_NO_KEX_ALG_MATCH
  | SSH_ERR_NO_HOSTKEY_ALG_MATCH
  | SSH_ERR_DISCONNECTED
  | SSH_ERR_BUFFER_READ_ONLY
  | SSH_ERR_LIBCRYPTO_ERROR
  | SSH_ERR_UNEXPECTED_TRAILING_DATA
  | SSH_ERR_MAC_INVALID
  | SSH_ERR_NEED_REKEY
  | SSH_ERR_CONN_CORRUPT
  | SSH_ERR_PROTOCOL_ERROR
  | SSH_ERR_SYSTEM_ERROR
  | SSH_ERR_CONN_CLOSED
  | SSH_ERR_CONN_TIMEOUT

type_synonym rc = "ssh_err option"

section \<open>The C allocator\<close>

text \<open>
  The allocator is a parameter of every operation that allocates: \<^term>\<open>ae_struct\<close> says whether
  the allocation of a structure succeeds, \<^term>\<open>ae_block\<close> gives the identity of the block that
  answers a request for so many bytes (0 is the null pointer) and \<^term>\<open>ae_junk\<close> is the
  indeterminate content of the bytes that \<open>realloc\<close> adds.
\<close>

record alloc_env =
  ae_struct :: bool
  ae_block :: "nat \<Rightarrow> nat"
  ae_junk :: "nat \<Rightarrow> byte"

definition realloc_bytes :: "alloc_env \<Rightarrow> byte list \<Rightarrow> nat \<Rightarrow> byte list" where
  "realloc_bytes e bs n = take n bs @ map (ae_junk e) [length bs..<n]"

lemma length_realloc_bytes [simp]: "length (realloc_bytes e bs n) = n"
  by (simp add: realloc_bytes_def)

lemma take_realloc_bytes [simp]:
  "k \<le> n \<Longrightarrow> k \<le> length bs \<Longrightarrow> take k (realloc_bytes e bs n) = take k bs"
  by (simp add: realloc_bytes_def min_def)

section \<open>Lists used as memory\<close>

text \<open>\<^term>\<open>mem_write\<close> is \<open>memcpy\<close> of \<open>xs\<close> to offset \<open>k\<close> of a block.\<close>

definition mem_write :: "nat \<Rightarrow> 'a list \<Rightarrow> 'a list \<Rightarrow> 'a list" where
  "mem_write k xs m = take k m @ xs @ drop (k + length xs) m"

lemma length_mem_write [simp]:
  "k + length xs \<le> length m \<Longrightarrow> length (mem_write k xs m) = length m"
  by (simp add: mem_write_def)

lemma take_mem_write [simp]:
  "j \<le> k \<Longrightarrow> k \<le> length m \<Longrightarrow> take j (mem_write k xs m) = take j m"
  by (simp add: mem_write_def min_def)

lemma take_mem_write_end:
  "k + length xs \<le> length m \<Longrightarrow> take (k + length xs) (mem_write k xs m) = take k m @ xs"
  by (simp add: mem_write_def)

section \<open>Big-endian access\<close>

definition peek_u64 :: "byte list \<Rightarrow> 64 word" where
  "peek_u64 p =
     push_bit 56 (ucast (p ! 0)) OR push_bit 48 (ucast (p ! 1)) OR
     push_bit 40 (ucast (p ! 2)) OR push_bit 32 (ucast (p ! 3)) OR
     push_bit 24 (ucast (p ! 4)) OR push_bit 16 (ucast (p ! 5)) OR
     push_bit 8 (ucast (p ! 6)) OR ucast (p ! 7)"

definition peek_u32 :: "byte list \<Rightarrow> 32 word" where
  "peek_u32 p =
     push_bit 24 (ucast (p ! 0)) OR push_bit 16 (ucast (p ! 1)) OR
     push_bit 8 (ucast (p ! 2)) OR ucast (p ! 3)"

definition peek_u16 :: "byte list \<Rightarrow> 16 word" where
  "peek_u16 p = push_bit 8 (ucast (p ! 0)) OR ucast (p ! 1)"

definition poke_u64 :: "64 word \<Rightarrow> byte list" where
  "poke_u64 v =
     [ucast (drop_bit 56 v AND 0xff), ucast (drop_bit 48 v AND 0xff),
      ucast (drop_bit 40 v AND 0xff), ucast (drop_bit 32 v AND 0xff),
      ucast (drop_bit 24 v AND 0xff), ucast (drop_bit 16 v AND 0xff),
      ucast (drop_bit 8 v AND 0xff), ucast (v AND 0xff)]"

definition poke_u32 :: "32 word \<Rightarrow> byte list" where
  "poke_u32 v =
     [ucast (drop_bit 24 v AND 0xff), ucast (drop_bit 16 v AND 0xff),
      ucast (drop_bit 8 v AND 0xff), ucast (v AND 0xff)]"

definition poke_u16 :: "16 word \<Rightarrow> byte list" where
  "poke_u16 v = [ucast (drop_bit 8 v AND 0xff), ucast (v AND 0xff)]"

lemma mem_write_append:
  assumes "k + length xs + length ys \<le> length m" "k' = k + length xs"
  shows "mem_write k' ys (mem_write k xs m) = mem_write k (xs @ ys) m"
  using assms by (simp add: mem_write_def ac_simps)

lemma length_poke [simp]:
  "length (poke_u64 v) = 8" "length (poke_u32 w) = 4" "length (poke_u16 x) = 2"
  by (simp_all add: poke_u64_def poke_u32_def poke_u16_def)

lemma mask_255: "(255 :: 'a::len word) = mask 8"
  by (simp add: mask_eq_exp_minus_1)

text \<open>A byte cut out of a word, put back, completes the part of the word above it.\<close>

lemma ucast_byte:
  "8 \<le> LENGTH('a) \<Longrightarrow>
   ucast (ucast (v AND 255 :: 'a::len word) :: byte) = (v AND 255 :: 'a word)"
  by (rule bit_word_eqI) (auto simp: mask_255 bit_simps)

lemma join_byte:
  assumes "k' = k + 8"
  shows "push_bit k' (drop_bit k' v) OR push_bit k (drop_bit k v AND 255) =
    push_bit k (drop_bit k (v :: 'a::len word))"
proof (rule bit_word_eqI)
  fix n assume "n < LENGTH('a)"
  with assms show "bit (push_bit k' (drop_bit k' v) OR push_bit k (drop_bit k v AND 255)) n =
    bit (push_bit k (drop_bit k v)) n"
    by (cases "k' \<le> n") (auto simp: mask_255 bit_simps)
qed

lemma join_low_byte:
  "push_bit 8 (drop_bit 8 v) OR (v AND 255) = (v :: 'a::len word)"
  using join_byte [of 8 0 v] by simp

lemma top_byte:
  "LENGTH('a) = k + 8 \<Longrightarrow>
   push_bit k (drop_bit k v AND 255) = push_bit k (drop_bit k (v :: 'a::len word))"
  by (rule bit_word_eqI) (auto simp: mask_255 bit_simps)

lemmas byte_join_simps =
  ucast_byte top_byte join_byte join_low_byte or.assoc [symmetric]

lemma peek_poke_u16 [simp]: "peek_u16 (poke_u16 v @ xs) = v"
  by (simp add: peek_u16_def poke_u16_def byte_join_simps del: push_bit_and)

lemma peek_poke_u32 [simp]: "peek_u32 (poke_u32 v @ xs) = v"
  by (simp add: peek_u32_def poke_u32_def byte_join_simps del: push_bit_and)

lemma peek_poke_u64 [simp]: "peek_u64 (poke_u64 v @ xs) = v"
  by (simp add: peek_u64_def poke_u64_def byte_join_simps del: push_bit_and)

lemma peek_u32_take [simp]: "4 \<le> n \<Longrightarrow> peek_u32 (take n p) = peek_u32 p"
  by (simp add: peek_u32_def)

lemma bit_byte_high [simp]: "8 \<le> n \<Longrightarrow> \<not> bit (b :: byte) n"
  using bit_imp_le_length [of b n] by auto

lemma poke_peek_u16:
  assumes "2 \<le> length p"
  shows "poke_u16 (peek_u16 p) = take 2 p"
proof -
  from assms have "Suc (Suc 0) \<le> length p" by simp
  then obtain a b ys where "p = a # b # ys" by (auto simp: Suc_le_length_iff)
  moreover have "poke_u16 (peek_u16 (a # b # ys)) = [a, b]"
    by (auto simp: poke_u16_def peek_u16_def mask_255 bit_simps intro!: bit_word_eqI)
  ultimately show ?thesis by simp
qed

lemma poke_peek_u32:
  assumes "4 \<le> length p"
  shows "poke_u32 (peek_u32 p) = take 4 p"
proof -
  from assms have "Suc (Suc (Suc (Suc 0))) \<le> length p" by simp
  then obtain a b c d ys where "p = a # b # c # d # ys" by (auto simp: Suc_le_length_iff)
  moreover have "poke_u32 (peek_u32 (a # b # c # d # ys)) = [a, b, c, d]"
    by (auto simp: poke_u32_def peek_u32_def mask_255 bit_simps intro!: bit_word_eqI)
  ultimately show ?thesis by simp
qed

section \<open>Simulations\<close>

text \<open>
  A component's promise is an abstract machine: the same operations on an abstract state.  A
  concrete machine implements it when every operation returns the same result and commutes with the
  abstraction; then every sequence of operations does.
\<close>

fun run_ops :: "('o \<Rightarrow> 's \<Rightarrow> 'r \<times> 's) \<Rightarrow> 's \<Rightarrow> 'o list \<Rightarrow> 'r list \<times> 's" where
  "run_ops step s [] = ([], s)"
| "run_ops step s (x # xs) =
     (let (r, s') = step x s; (rs, s'') = run_ops step s' xs in (r # rs, s''))"

locale simulation =
  fixes inv :: "'s \<Rightarrow> bool" and abst :: "'s \<Rightarrow> 'a"
    and cstep :: "'o \<Rightarrow> 's \<Rightarrow> 'r \<times> 's" and astep :: "'o \<Rightarrow> 'a \<Rightarrow> 'r \<times> 'a"
  assumes step_inv: "inv s \<Longrightarrow> inv (snd (cstep x s))"
    and step_abst: "inv s \<Longrightarrow> map_prod id abst (cstep x s) = astep x (abst s)"
begin

lemma run_inv: "inv s \<Longrightarrow> inv (snd (run_ops cstep s xs))"
  by (induction xs arbitrary: s)
    (auto simp: Let_def split_beta step_inv)

lemma run_abst: "inv s \<Longrightarrow> map_prod id abst (run_ops cstep s xs) = run_ops astep (abst s) xs"
proof (induction xs arbitrary: s)
  case Nil
  then show ?case by simp
next
  case (Cons x xs)
  from step_abst [OF Cons.prems, of x]
  have "astep x (abst s) = (fst (cstep x s), abst (snd (cstep x s)))"
    by (cases "cstep x s") simp
  with Cons.IH [OF step_inv [OF Cons.prems, of x], symmetric] show ?case
    by (simp add: Let_def split_beta map_prod_def)
qed

end

end
