(* ===== verification/Sshbuf.thy ===== *)
theory Sshbuf
  imports SSH_Base
begin

text \<open>
  The growable byte buffer of \<^verbatim>\<open>src/openssh-7.2p2/sshbuf.c\<close>, one definition per function.

  A \<^verbatim>\<open>struct sshbuf\<close> is the record below.  Pointers are identities of allocated blocks with 0
  for the null pointer; \<open>sb_mem\<close> holds the \<open>alloc\<close> bytes at \<open>cd\<close>, so that a write through
  \<open>d\<close> is an update of \<open>sb_mem\<close>.  A function that may fail after having changed the buffer returns
  the changed buffer beside its code.  \<^verbatim>\<open>sshbuf_check_sanity\<close> raises \<open>SIGSEGV\<close> before it
  returns \<open>SSH_ERR_INTERNAL_ERROR\<close>; the model returns that code, and the invariant lemmas show
  that the branch is unreachable for buffers made and changed by this module, with the one exception
  stated at \<open>sshbuf_reset\<close>.
\<close>

section \<open>Data\<close>

definition SSHBUF_SIZE_MAX :: nat where "SSHBUF_SIZE_MAX = 0x8000000"
definition SSHBUF_REFS_MAX :: nat where "SSHBUF_REFS_MAX = 0x100000"
definition SSHBUF_MAX_BIGNUM :: nat where "SSHBUF_MAX_BIGNUM = 16384 div 8"
definition SSHBUF_SIZE_INIT :: nat where "SSHBUF_SIZE_INIT = 256"
definition SSHBUF_SIZE_INC :: nat where "SSHBUF_SIZE_INC = 256"
definition SSHBUF_PACK_MIN :: nat where "SSHBUF_PACK_MIN = 8192"

lemmas sshbuf_consts =
  SSHBUF_SIZE_MAX_def SSHBUF_REFS_MAX_def SSHBUF_MAX_BIGNUM_def
  SSHBUF_SIZE_INIT_def SSHBUF_SIZE_INC_def SSHBUF_PACK_MIN_def

record sshbuf =
  sb_d :: nat
  sb_cd :: nat
  sb_mem :: "byte list"
  sb_off :: nat
  sb_size :: nat
  sb_max_size :: nat
  sb_alloc :: nat
  sb_readonly :: bool
  sb_dont_free :: bool
  sb_refcount :: nat
  sb_parent :: "nat option"

section \<open>Operations\<close>

fun sshbuf_check_sanity :: "sshbuf option \<Rightarrow> rc" where
  "sshbuf_check_sanity None = Some SSH_ERR_INTERNAL_ERROR"
| "sshbuf_check_sanity (Some b) =
     (if (\<not> sb_readonly b \<and> sb_d b \<noteq> sb_cd b) \<or>
         sb_refcount b < 1 \<or> sb_refcount b > SSHBUF_REFS_MAX \<or>
         sb_cd b = 0 \<or>
         (sb_dont_free b \<and> (sb_readonly b \<or> sb_parent b \<noteq> None)) \<or>
         sb_max_size b > SSHBUF_SIZE_MAX \<or>
         sb_alloc b > sb_max_size b \<or>
         sb_size b > sb_alloc b \<or>
         sb_off b > sb_size b
      then Some SSH_ERR_INTERNAL_ERROR else None)"

definition sshbuf_maybe_pack :: "sshbuf \<Rightarrow> bool \<Rightarrow> sshbuf" where
  "sshbuf_maybe_pack b force =
     (if sb_off b = 0 \<or> sb_readonly b \<or> sb_refcount b > 1 then b
      else if force \<or> (sb_off b \<ge> SSHBUF_PACK_MIN \<and> sb_off b \<ge> sb_size b div 2)
      then b\<lparr>sb_mem := mem_write 0 (take (sb_size b - sb_off b) (drop (sb_off b) (sb_mem b)))
                                  (sb_mem b),
             sb_size := sb_size b - sb_off b,
             sb_off := 0\<rparr>
      else b)"

definition sshbuf_new :: "alloc_env \<Rightarrow> sshbuf option" where
  "sshbuf_new e =
     (if \<not> ae_struct e then None
      else let p = ae_block e SSHBUF_SIZE_INIT
      in if p = 0 then None
         else Some \<lparr>sb_d = p, sb_cd = p, sb_mem = replicate SSHBUF_SIZE_INIT 0,
                    sb_off = 0, sb_size = 0, sb_max_size = SSHBUF_SIZE_MAX,
                    sb_alloc = SSHBUF_SIZE_INIT, sb_readonly = False, sb_dont_free = False,
                    sb_refcount = 1, sb_parent = None\<rparr>)"

text \<open>\<open>sshbuf_from e p blob\<close>: the block \<open>p\<close> holds the \<open>len\<close> bytes \<open>blob\<close>.\<close>

definition sshbuf_from :: "alloc_env \<Rightarrow> nat \<Rightarrow> byte list \<Rightarrow> sshbuf option" where
  "sshbuf_from e p blob =
     (if p = 0 \<or> length blob > SSHBUF_SIZE_MAX \<or> \<not> ae_struct e then None
      else Some \<lparr>sb_d = 0, sb_cd = p, sb_mem = blob, sb_off = 0, sb_size = length blob,
                 sb_max_size = length blob, sb_alloc = length blob, sb_readonly = True,
                 sb_dont_free = False, sb_refcount = 1, sb_parent = None\<rparr>)"

definition sshbuf_init :: "alloc_env \<Rightarrow> sshbuf" where
  "sshbuf_init e =
     (let p = ae_block e SSHBUF_SIZE_INIT
      in \<lparr>sb_d = p, sb_cd = p,
          sb_mem = (if p = 0 then [] else replicate SSHBUF_SIZE_INIT 0),
          sb_off = 0, sb_size = 0, sb_max_size = SSHBUF_SIZE_MAX,
          sb_alloc = (if p = 0 then 0 else SSHBUF_SIZE_INIT),
          sb_readonly = False, sb_dont_free = True, sb_refcount = 1, sb_parent = None\<rparr>)"

text \<open>The pattern \<^verbatim>\<open>if ((dp = realloc(buf->d, n)) != NULL) { buf->cd = buf->d = dp; buf->alloc = n; }\<close>
  that three functions share; \<^term>\<open>None\<close> is the failed \<open>realloc\<close>.\<close>

definition sshbuf_realloc :: "alloc_env \<Rightarrow> sshbuf \<Rightarrow> nat \<Rightarrow> sshbuf option" where
  "sshbuf_realloc e b n =
     (let p = ae_block e n
      in if p = 0 then None
         else Some (b\<lparr>sb_d := p, sb_cd := p, sb_mem := realloc_bytes e (sb_mem b) n,
                      sb_alloc := n\<rparr>))"

definition sshbuf_reset :: "alloc_env \<Rightarrow> sshbuf \<Rightarrow> sshbuf" where
  "sshbuf_reset e b =
     (if sb_readonly b \<or> sb_refcount b > 1 then b\<lparr>sb_off := sb_size b\<rparr>
      else
        let b = (if sshbuf_check_sanity (Some b) = None
                 then b\<lparr>sb_mem := replicate (sb_alloc b) 0\<rparr> else b);
            b = b\<lparr>sb_off := 0, sb_size := 0\<rparr>
        in if sb_alloc b \<noteq> SSHBUF_SIZE_INIT
           then (case sshbuf_realloc e b SSHBUF_SIZE_INIT of Some b' \<Rightarrow> b' | None \<Rightarrow> b)
           else b)"

definition sshbuf_max_size :: "sshbuf \<Rightarrow> nat" where
  "sshbuf_max_size b = sb_max_size b"

definition sshbuf_alloc :: "sshbuf \<Rightarrow> nat" where
  "sshbuf_alloc b = sb_alloc b"

definition sshbuf_refcount :: "sshbuf \<Rightarrow> nat" where
  "sshbuf_refcount b = sb_refcount b"

text \<open>The \<open>roundup\<close> macro of \<^verbatim>\<open>sys/param.h\<close>.\<close>

definition roundup :: "nat \<Rightarrow> nat \<Rightarrow> nat" where
  "roundup x y = ((x + (y - 1)) div y) * y"

text \<open>Lines 249 to 262 of \<^verbatim>\<open>sshbuf_set_max_size\<close>: give memory back if the new limit is below the
  allocation.\<close>

definition sshbuf_shrink :: "alloc_env \<Rightarrow> sshbuf \<Rightarrow> nat \<Rightarrow> rc \<times> sshbuf" where
  "sshbuf_shrink e b max_size =
     (if max_size < sb_alloc b \<and> max_size > sb_size b then
        let rlen = (if sb_size b < SSHBUF_SIZE_INIT then SSHBUF_SIZE_INIT
                    else roundup (sb_size b) SSHBUF_SIZE_INC);
            rlen = (if rlen > max_size then max_size else rlen);
            b = b\<lparr>sb_mem := take (sb_size b) (sb_mem b) @
                            replicate (sb_alloc b - sb_size b) 0\<rparr>
        in (case sshbuf_realloc e b rlen of
              None \<Rightarrow> (Some SSH_ERR_ALLOC_FAIL, b)
            | Some b' \<Rightarrow> (None, b'))
      else (None, b))"

definition sshbuf_set_max_size :: "alloc_env \<Rightarrow> sshbuf \<Rightarrow> nat \<Rightarrow> rc \<times> sshbuf" where
  "sshbuf_set_max_size e b max_size =
     (case sshbuf_check_sanity (Some b) of Some r \<Rightarrow> (Some r, b) | None \<Rightarrow>
      if max_size = sb_max_size b then (None, b)
      else if sb_readonly b \<or> sb_refcount b > 1 then (Some SSH_ERR_BUFFER_READ_ONLY, b)
      else if max_size > SSHBUF_SIZE_MAX then (Some SSH_ERR_NO_BUFFER_SPACE, b)
      else
        (case sshbuf_shrink e (sshbuf_maybe_pack b (max_size < sb_size b)) max_size of
           (Some r, b) \<Rightarrow> (Some r, b)
         | (None, b) \<Rightarrow>
             if max_size < sb_alloc b then (Some SSH_ERR_NO_BUFFER_SPACE, b)
             else (None, b\<lparr>sb_max_size := max_size\<rparr>)))"

definition sshbuf_len :: "sshbuf \<Rightarrow> nat" where
  "sshbuf_len b = (if sshbuf_check_sanity (Some b) \<noteq> None then 0 else sb_size b - sb_off b)"

definition sshbuf_avail :: "sshbuf \<Rightarrow> nat" where
  "sshbuf_avail b =
     (if sshbuf_check_sanity (Some b) \<noteq> None \<or> sb_readonly b \<or> sb_refcount b > 1 then 0
      else sb_max_size b - (sb_size b - sb_off b))"

text \<open>A returned data pointer is the pair of its block and the bytes from there to the end of the
  used part; the null pointer is \<^term>\<open>None\<close>.\<close>

definition sshbuf_ptr :: "sshbuf \<Rightarrow> (nat \<times> byte list) option" where
  "sshbuf_ptr b =
     (if sshbuf_check_sanity (Some b) \<noteq> None then None
      else Some (sb_cd b, take (sb_size b - sb_off b) (drop (sb_off b) (sb_mem b))))"

definition sshbuf_mutable_ptr :: "sshbuf \<Rightarrow> (nat \<times> nat) option" where
  "sshbuf_mutable_ptr b =
     (if sshbuf_check_sanity (Some b) \<noteq> None \<or> sb_readonly b \<or> sb_refcount b > 1 then None
      else Some (sb_d b, sb_off b))"

definition sshbuf_check_reserve :: "sshbuf \<Rightarrow> nat \<Rightarrow> rc" where
  "sshbuf_check_reserve b len =
     (case sshbuf_check_sanity (Some b) of Some r \<Rightarrow> Some r | None \<Rightarrow>
      if sb_readonly b \<or> sb_refcount b > 1 then Some SSH_ERR_BUFFER_READ_ONLY
      else if len > sb_max_size b \<or> sb_max_size b - len < sb_size b - sb_off b
      then Some SSH_ERR_NO_BUFFER_SPACE
      else None)"

text \<open>The size that \<open>sshbuf_allocate\<close> asks \<open>realloc\<close> for.\<close>

definition sshbuf_rlen :: "sshbuf \<Rightarrow> nat \<Rightarrow> nat" where
  "sshbuf_rlen b len =
     (let need = len + sb_size b - sb_alloc b;
          rlen = roundup (sb_alloc b + need) SSHBUF_SIZE_INC
      in if rlen > sb_max_size b then sb_alloc b + need else rlen)"

definition sshbuf_allocate :: "alloc_env \<Rightarrow> sshbuf \<Rightarrow> nat \<Rightarrow> rc \<times> sshbuf" where
  "sshbuf_allocate e b len =
     (case sshbuf_check_reserve b len of Some r \<Rightarrow> (Some r, b) | None \<Rightarrow>
      let b = sshbuf_maybe_pack b (sb_size b + len > sb_max_size b)
      in if len + sb_size b \<le> sb_alloc b then (None, b)
         else (case sshbuf_realloc e b (sshbuf_rlen b len) of
                 None \<Rightarrow> (Some SSH_ERR_ALLOC_FAIL, b)
               | Some b \<Rightarrow> (sshbuf_check_reserve b len, b)))"

text \<open>The pointer handed back by \<open>sshbuf_reserve\<close> is its offset from \<open>d\<close>.\<close>

definition sshbuf_reserve :: "alloc_env \<Rightarrow> sshbuf \<Rightarrow> nat \<Rightarrow> (ssh_err + nat) \<times> sshbuf" where
  "sshbuf_reserve e b len =
     (case sshbuf_allocate e b len of
        (Some r, b) \<Rightarrow> (Inl r, b)
      | (None, b) \<Rightarrow> (Inr (sb_size b), b\<lparr>sb_size := sb_size b + len\<rparr>))"

definition sshbuf_consume :: "sshbuf \<Rightarrow> nat \<Rightarrow> rc \<times> sshbuf" where
  "sshbuf_consume b len =
     (case sshbuf_check_sanity (Some b) of Some r \<Rightarrow> (Some r, b) | None \<Rightarrow>
      if len = 0 then (None, b)
      else if len > sshbuf_len b then (Some SSH_ERR_MESSAGE_INCOMPLETE, b)
      else (None, b\<lparr>sb_off := sb_off b + len\<rparr>))"

definition sshbuf_consume_end :: "sshbuf \<Rightarrow> nat \<Rightarrow> rc \<times> sshbuf" where
  "sshbuf_consume_end b len =
     (case sshbuf_check_sanity (Some b) of Some r \<Rightarrow> (Some r, b) | None \<Rightarrow>
      if len = 0 then (None, b)
      else if len > sshbuf_len b then (Some SSH_ERR_MESSAGE_INCOMPLETE, b)
      else (None, b\<lparr>sb_size := sb_size b - len\<rparr>))"

section \<open>Invariant and abstraction\<close>

text \<open>
  The invariant is the sanity check itself together with the fact that the block at \<open>cd\<close> really has
  \<open>alloc\<close> bytes.  The abstraction is the queue of bytes between \<open>off\<close> and \<open>size\<close>.
\<close>

definition sshbuf_inv :: "sshbuf \<Rightarrow> bool" where
  "sshbuf_inv b \<longleftrightarrow> sshbuf_check_sanity (Some b) = None \<and> length (sb_mem b) = sb_alloc b"

definition contents :: "sshbuf \<Rightarrow> byte list" where
  "contents b = take (sb_size b - sb_off b) (drop (sb_off b) (sb_mem b))"

definition writable :: "sshbuf \<Rightarrow> bool" where
  "writable b \<longleftrightarrow> \<not> sb_readonly b \<and> sb_refcount b \<le> 1"

text \<open>What no operation on a single buffer changes, apart from \<open>sshbuf_set_max_size\<close>.\<close>

definition same_frame :: "sshbuf \<Rightarrow> sshbuf \<Rightarrow> bool" where
  "same_frame b b' \<longleftrightarrow>
     sb_max_size b' = sb_max_size b \<and> sb_readonly b' = sb_readonly b \<and>
     sb_dont_free b' = sb_dont_free b \<and> sb_refcount b' = sb_refcount b \<and>
     sb_parent b' = sb_parent b"

definition alloc_total :: "alloc_env \<Rightarrow> bool" where
  "alloc_total e \<longleftrightarrow> ae_struct e \<and> (\<forall>n. ae_block e n \<noteq> 0)"

lemma alloc_total_block [simp]: "alloc_total e \<Longrightarrow> (ae_block e n = 0) = False"
  by (simp add: alloc_total_def)

lemma same_frame_refl [simp]: "same_frame b b"
  by (simp add: same_frame_def)

lemma same_frame_trans: "same_frame a b \<Longrightarrow> same_frame b c \<Longrightarrow> same_frame a c"
  by (simp add: same_frame_def)

lemma same_frame_writable: "same_frame b b' \<Longrightarrow> writable b' \<longleftrightarrow> writable b"
  by (simp add: same_frame_def writable_def)

lemma sshbuf_inv_iff:
  "sshbuf_inv b \<longleftrightarrow>
     (sb_readonly b \<or> sb_d b = sb_cd b) \<and>
     1 \<le> sb_refcount b \<and> sb_refcount b \<le> SSHBUF_REFS_MAX \<and> sb_cd b \<noteq> 0 \<and>
     (sb_dont_free b \<longrightarrow> \<not> sb_readonly b \<and> sb_parent b = None) \<and>
     sb_max_size b \<le> SSHBUF_SIZE_MAX \<and> sb_alloc b \<le> sb_max_size b \<and>
     sb_size b \<le> sb_alloc b \<and> sb_off b \<le> sb_size b \<and> length (sb_mem b) = sb_alloc b"
  by (auto simp: sshbuf_inv_def)

declare sshbuf_check_sanity.simps(2) [simp del]

lemma sshbuf_inv_sane [simp]: "sshbuf_inv b \<Longrightarrow> sshbuf_check_sanity (Some b) = None"
  by (simp add: sshbuf_inv_def)

lemma length_contents: "sshbuf_inv b \<Longrightarrow> length (contents b) = sb_size b - sb_off b"
  by (auto simp: sshbuf_inv_iff contents_def)

lemma contents_alt: "contents b = drop (sb_off b) (take (sb_size b) (sb_mem b))"
  by (simp add: contents_def drop_take)

lemma sshbuf_len_contents: "sshbuf_inv b \<Longrightarrow> sshbuf_len b = length (contents b)"
  by (simp add: sshbuf_len_def length_contents)

lemma sshbuf_ptr_contents: "sshbuf_inv b \<Longrightarrow> sshbuf_ptr b = Some (sb_cd b, contents b)"
  by (simp add: sshbuf_ptr_def contents_def)

lemma contents_le_max: "sshbuf_inv b \<Longrightarrow> length (contents b) \<le> sb_max_size b"
  by (auto simp: length_contents sshbuf_inv_iff)

lemma contents_bound: "sshbuf_inv b \<Longrightarrow> length (contents b) \<le> SSHBUF_SIZE_MAX"
  using contents_le_max by (force simp: sshbuf_inv_iff)

section \<open>Constructors\<close>

lemma sshbuf_new_inv:
  assumes "sshbuf_new e = Some b"
  shows "sshbuf_inv b" "contents b = []" "writable b" "sb_max_size b = SSHBUF_SIZE_MAX"
  using assms
  by (auto simp: sshbuf_new_def sshbuf_inv_iff contents_def writable_def Let_def sshbuf_consts
      split: if_splits)

lemma sshbuf_new_total: "alloc_total e \<Longrightarrow> \<exists>b. sshbuf_new e = Some b"
  by (simp add: alloc_total_def sshbuf_new_def Let_def)

lemma sshbuf_init_inv:
  assumes "ae_block e SSHBUF_SIZE_INIT \<noteq> 0"
  shows "sshbuf_inv (sshbuf_init e)" "contents (sshbuf_init e) = []" "writable (sshbuf_init e)"
  using assms
  by (auto simp: sshbuf_init_def sshbuf_inv_iff contents_def writable_def Let_def sshbuf_consts)

lemma sshbuf_from_inv:
  assumes "sshbuf_from e p blob = Some b"
  shows "sshbuf_inv b" "contents b = blob" "sb_readonly b" "sb_cd b = p" "sb_parent b = None"
    "sb_refcount b = 1"
  using assms
  by (auto simp: sshbuf_from_def sshbuf_inv_iff contents_def sshbuf_consts split: if_splits)

section \<open>Packing\<close>

lemma pack_frame [simp]: "same_frame b (sshbuf_maybe_pack b force)"
  by (simp add: sshbuf_maybe_pack_def same_frame_def)

lemma pack_fields [simp]:
  "sb_alloc (sshbuf_maybe_pack b force) = sb_alloc b"
  "sb_max_size (sshbuf_maybe_pack b force) = sb_max_size b"
  "writable (sshbuf_maybe_pack b force) = writable b"
  by (simp_all add: sshbuf_maybe_pack_def writable_def)

lemma pack_inv: "sshbuf_inv b \<Longrightarrow> sshbuf_inv (sshbuf_maybe_pack b force)"
  by (auto simp: sshbuf_maybe_pack_def sshbuf_inv_iff)

lemma pack_contents:
  "sshbuf_inv b \<Longrightarrow> contents (sshbuf_maybe_pack b force) = contents b"
  by (auto simp: sshbuf_maybe_pack_def contents_def mem_write_def sshbuf_inv_iff)

lemma pack_forced:
  "writable b \<Longrightarrow> sshbuf_inv b \<Longrightarrow> sb_size (sshbuf_maybe_pack b True) = length (contents b)"
  by (auto simp: sshbuf_maybe_pack_def writable_def length_contents)

lemma pack_size_le: "sb_size (sshbuf_maybe_pack b force) \<le> sb_size b"
  by (simp add: sshbuf_maybe_pack_def)

lemmas pack_keeps = pack_inv pack_contents

section \<open>Reserving space\<close>

lemma check_reserve_iff:
  assumes "sshbuf_inv b"
  shows "sshbuf_check_reserve b len =
    (if \<not> writable b then Some SSH_ERR_BUFFER_READ_ONLY
     else if length (contents b) + len > sb_max_size b then Some SSH_ERR_NO_BUFFER_SPACE
     else None)"
  using assms by (auto simp: sshbuf_check_reserve_def writable_def length_contents)

lemma roundup_ge: "0 < y \<Longrightarrow> x \<le> roundup x y"
proof -
  assume y: "0 < y"
  let ?k = "x + (y - 1)"
  have "?k = ?k div y * y + ?k mod y" by simp
  with mod_less_divisor [OF y, of ?k] y show ?thesis
    unfolding roundup_def by linarith
qed

lemma roundup_le: "0 < y \<Longrightarrow> roundup x y \<le> x + (y - 1)"
  by (simp add: roundup_def)

lemma rlen_bounds:
  assumes "sb_alloc b < len + sb_size b" "len + sb_size b \<le> sb_max_size b"
  shows "len + sb_size b \<le> sshbuf_rlen b len" "sshbuf_rlen b len \<le> sb_max_size b"
  using assms roundup_ge [of SSHBUF_SIZE_INC "len + sb_size b"]
  by (auto simp: sshbuf_rlen_def Let_def SSHBUF_SIZE_INC_def)

text \<open>The buffer as \<open>sshbuf_allocate\<close> sees it after its call of \<open>sshbuf_maybe_pack\<close>: the free part
  then always suffices for what was checked.\<close>

definition packed_for :: "sshbuf \<Rightarrow> nat \<Rightarrow> sshbuf" where
  "packed_for b len = sshbuf_maybe_pack b (sb_size b + len > sb_max_size b)"

lemma packed_for_keeps:
  assumes "sshbuf_inv b"
  shows "sshbuf_inv (packed_for b len)" "contents (packed_for b len) = contents b"
    "same_frame b (packed_for b len)" "writable (packed_for b len) = writable b"
    "sb_max_size (packed_for b len) = sb_max_size b"
  using assms by (simp_all add: packed_for_def pack_keeps)

lemma packed_fits:
  assumes "sshbuf_inv b" "writable b" "length (contents b) + len \<le> sb_max_size b"
  shows "len + sb_size (packed_for b len) \<le> sb_max_size b"
proof (cases "sb_size b + len > sb_max_size b")
  case True
  with assms show ?thesis by (simp add: pack_forced packed_for_def)
next
  case False
  with pack_size_le [of b False] show ?thesis by (simp add: packed_for_def)
qed

lemma realloc_keeps:
  assumes "sshbuf_realloc e b n = Some b'" "sshbuf_inv b" "writable b" "sb_size b \<le> n"
    "n \<le> sb_max_size b"
  shows "sshbuf_inv b'" "contents b' = contents b" "same_frame b b'" "sb_alloc b' = n"
    "sb_size b' = sb_size b" "sb_off b' = sb_off b"
proof -
  have "take (sb_size b) (realloc_bytes e (sb_mem b) n) = take (sb_size b) (sb_mem b)"
    using assms by (simp add: sshbuf_inv_iff)
  with assms show "contents b' = contents b"
    by (auto simp: sshbuf_realloc_def contents_alt Let_def split: if_splits)
qed (use assms in \<open>auto simp: sshbuf_realloc_def sshbuf_inv_iff writable_def same_frame_def Let_def
    split: if_splits\<close>)

lemma grown_keeps:
  assumes inv: "sshbuf_inv b" "writable b" "\<not> length (contents b) + len > sb_max_size b"
    and grow: "\<not> len + sb_size (packed_for b len) \<le> sb_alloc (packed_for b len)"
    and new: "sshbuf_realloc e (packed_for b len) (sshbuf_rlen (packed_for b len) len) = Some b'"
  shows "sshbuf_inv b'" "contents b' = contents b" "same_frame b b'"
    "len + sb_size b' \<le> sb_alloc b'"
proof -
  let ?p = "packed_for b len"
  note p = packed_for_keeps [OF inv(1), of len]
  have n: "len + sb_size ?p \<le> sshbuf_rlen ?p len" "sshbuf_rlen ?p len \<le> sb_max_size ?p"
    using rlen_bounds [of ?p len] grow packed_fits [OF inv(1,2)] inv(3) p(5) by simp_all
  then have "sb_size ?p \<le> sshbuf_rlen ?p len" by simp
  note k = realloc_keeps [OF new p(1) _ this n(2)]
  show "sshbuf_inv b'" "contents b' = contents b" "len + sb_size b' \<le> sb_alloc b'"
    using k inv(2) p n(1) by simp_all
  show "same_frame b b'"
    using k(3) p(3,4) inv(2) by (blast intro: same_frame_trans)
qed

text \<open>The outcomes of \<open>sshbuf_allocate\<close>: refused, already there, allocator failure, grown.  The second
  \<open>sshbuf_check_reserve\<close> never fails, as the comment in the source says.\<close>

lemma allocate_eq:
  assumes inv: "sshbuf_inv b"
  shows "sshbuf_allocate e b len =
    (if \<not> writable b then (Some SSH_ERR_BUFFER_READ_ONLY, b)
     else if length (contents b) + len > sb_max_size b then (Some SSH_ERR_NO_BUFFER_SPACE, b)
     else if len + sb_size (packed_for b len) \<le> sb_alloc (packed_for b len)
     then (None, packed_for b len)
     else case sshbuf_realloc e (packed_for b len) (sshbuf_rlen (packed_for b len) len) of
            None \<Rightarrow> (Some SSH_ERR_ALLOC_FAIL, packed_for b len)
          | Some b' \<Rightarrow> (None, b'))"
proof -
  have "sshbuf_check_reserve b' len = None"
    if "writable b" "\<not> length (contents b) + len > sb_max_size b"
      "\<not> len + sb_size (packed_for b len) \<le> sb_alloc (packed_for b len)"
      "sshbuf_realloc e (packed_for b len) (sshbuf_rlen (packed_for b len) len) = Some b'" for b'
  proof -
    note g = grown_keeps [OF inv that]
    have "writable b'" "sb_max_size b' = sb_max_size b"
      using that(1) g(3) by (simp_all add: writable_def same_frame_def)
    with g that(2) show ?thesis by (simp add: check_reserve_iff)
  qed
  then show ?thesis
    by (auto simp: sshbuf_allocate_def check_reserve_iff [OF inv] packed_for_def [symmetric] Let_def
        split: option.split)
qed

lemma allocate_keeps:
  assumes inv: "sshbuf_inv b" and a: "sshbuf_allocate e b len = (r, b')"
  shows "sshbuf_inv b' \<and> contents b' = contents b \<and> same_frame b b'"
  using a inv by (auto simp: allocate_eq packed_for_keeps split: if_splits option.splits
      dest: grown_keeps)

lemma allocate_success:
  assumes inv: "sshbuf_inv b" and a: "sshbuf_allocate e b len = (None, b')"
  shows "len + sb_size b' \<le> sb_alloc b' \<and> writable b \<and>
    length (contents b) + len \<le> sb_max_size b"
  using a inv by (auto simp: allocate_eq split: if_splits option.splits
      dest: grown_keeps(4))

lemma allocate_error:
  assumes inv: "sshbuf_inv b" and a: "sshbuf_allocate e b len = (Some r, b')"
  shows "r = (if \<not> writable b then SSH_ERR_BUFFER_READ_ONLY
              else if length (contents b) + len > sb_max_size b then SSH_ERR_NO_BUFFER_SPACE
              else SSH_ERR_ALLOC_FAIL)"
  using a inv by (auto simp: allocate_eq split: if_splits option.splits)

lemma realloc_total: "alloc_total e \<Longrightarrow> \<exists>b'. sshbuf_realloc e b n = Some b'"
  by (simp add: sshbuf_realloc_def alloc_total_def Let_def)

lemma allocate_total:
  assumes inv: "sshbuf_inv b" and w: "writable b"
    and fit: "length (contents b) + len \<le> sb_max_size b" and e: "alloc_total e"
  shows "fst (sshbuf_allocate e b len) = None"
  using realloc_total [OF e, of "packed_for b len" "sshbuf_rlen (packed_for b len) len"] w fit
  by (auto simp: allocate_eq [OF inv])

lemma reserve_None:
  "sshbuf_allocate e b len = (None, b1) \<Longrightarrow>
   sshbuf_reserve e b len = (Inr (sb_size b1), b1\<lparr>sb_size := sb_size b1 + len\<rparr>)"
  by (simp add: sshbuf_reserve_def)

lemma reserve_Some:
  "sshbuf_allocate e b len = (Some x, b1) \<Longrightarrow> sshbuf_reserve e b len = (Inl x, b1)"
  by (simp add: sshbuf_reserve_def)

lemma reserve_InrD:
  assumes r: "sshbuf_reserve e b len = (Inr dp, b')"
  obtains b1 where "sshbuf_allocate e b len = (None, b1)" "b' = b1\<lparr>sb_size := sb_size b1 + len\<rparr>"
    "dp = sb_size b1"
proof (cases "sshbuf_allocate e b len")
  case (Pair x b1)
  show thesis
  proof (cases x)
    case None
    with Pair have a: "sshbuf_allocate e b len = (None, b1)" by simp
    from r [unfolded reserve_None [OF a]] a that show thesis by blast
  next
    case (Some y)
    with Pair have "sshbuf_reserve e b len = (Inl y, b1)" by (simp add: reserve_Some)
    with r show thesis by simp
  qed
qed

lemma reserve_InlD:
  assumes "sshbuf_reserve e b len = (Inl x, b')"
  shows "sshbuf_allocate e b len = (Some x, b')"
proof (cases "sshbuf_allocate e b len")
  case (Pair r b1)
  with assms show ?thesis by (cases r) (simp_all add: sshbuf_reserve_def)
qed

lemma reserve_success:
  assumes inv: "sshbuf_inv b" and r: "sshbuf_reserve e b len = (Inr dp, b')"
  shows "sshbuf_inv b'" "same_frame b b'" "writable b" "dp + len = sb_size b'"
    "dp + len \<le> length (sb_mem b')" "sb_off b' \<le> dp"
    "drop (sb_off b') (take dp (sb_mem b')) = contents b"
    "length (contents b) + len \<le> sb_max_size b"
proof -
  from r obtain b1 where a: "sshbuf_allocate e b len = (None, b1)"
    and b': "b' = b1\<lparr>sb_size := sb_size b1 + len\<rparr>" "dp = sb_size b1"
    by (rule reserve_InrD)
  from allocate_keeps [OF inv a]
  have i: "sshbuf_inv b1" and c: "contents b1 = contents b" and f: "same_frame b b1" by simp_all
  from allocate_success [OF inv a] have sz: "len + sb_size b1 \<le> sb_alloc b1"
    and "writable b" "length (contents b) + len \<le> sb_max_size b" by simp_all
  then show "writable b" "length (contents b) + len \<le> sb_max_size b" by simp_all
  show "sshbuf_inv b'" "dp + len \<le> length (sb_mem b')" "sb_off b' \<le> dp"
    using i sz by (auto simp: b' sshbuf_inv_iff)
  show "same_frame b b'" "dp + len = sb_size b'"
    using f by (simp_all add: b' same_frame_def)
  show "drop (sb_off b') (take dp (sb_mem b')) = contents b"
    using c by (simp add: b' contents_alt [of b1])
qed

lemma reserve_error:
  assumes inv: "sshbuf_inv b" and r: "sshbuf_reserve e b len = (Inl x, b')"
  shows "sshbuf_inv b'" "contents b' = contents b" "same_frame b b'"
    "x = (if \<not> writable b then SSH_ERR_BUFFER_READ_ONLY
          else if length (contents b) + len > sb_max_size b then SSH_ERR_NO_BUFFER_SPACE
          else SSH_ERR_ALLOC_FAIL)"
proof -
  from r have a: "sshbuf_allocate e b len = (Some x, b')"
    by (rule reserve_InlD)
  from allocate_keeps [OF inv a]
  show "sshbuf_inv b'" "contents b' = contents b" "same_frame b b'" by simp_all
  from allocate_error [OF inv a]
  show "x = (if \<not> writable b then SSH_ERR_BUFFER_READ_ONLY
          else if length (contents b) + len > sb_max_size b then SSH_ERR_NO_BUFFER_SPACE
          else SSH_ERR_ALLOC_FAIL)" .
qed

text \<open>Writing \<open>len\<close> bytes through the reserved pointer appends them to the contents.\<close>

lemma reserve_write:
  assumes inv: "sshbuf_inv b" and r: "sshbuf_reserve e b (length v) = (Inr dp, b')"
  defines "b2 \<equiv> b'\<lparr>sb_mem := mem_write dp v (sb_mem b')\<rparr>"
  shows "sshbuf_inv b2" "contents b2 = contents b @ v" "same_frame b b2"
proof -
  note s = reserve_success [OF inv r]
  from s(1,2,5) show "sshbuf_inv b2" "same_frame b b2"
    by (auto simp: b2_def sshbuf_inv_iff same_frame_def)
  have "take (sb_size b') (mem_write dp v (sb_mem b')) = take dp (sb_mem b') @ v"
    using s(4,5) take_mem_write_end [of dp v "sb_mem b'"] by simp
  then have "contents b2 = drop (sb_off b') (take dp (sb_mem b') @ v)"
    by (simp add: b2_def contents_alt)
  also have "\<dots> = drop (sb_off b') (take dp (sb_mem b')) @ v"
    using s(5,6) by simp
  finally show "contents b2 = contents b @ v" using s(7) by simp
qed

lemma reserve_total:
  assumes "sshbuf_inv b" "writable b" "length (contents b) + len \<le> sb_max_size b"
    "alloc_total e"
  shows "\<exists>dp b'. sshbuf_reserve e b len = (Inr dp, b')"
  using allocate_total [OF assms]
  by (cases "sshbuf_allocate e b len") (simp add: sshbuf_reserve_def)

section \<open>Consuming\<close>

lemma consume_eq:
  assumes "sshbuf_inv b"
  shows "sshbuf_consume b len =
    (if len \<le> length (contents b) then (None, b\<lparr>sb_off := sb_off b + len\<rparr>)
     else (Some SSH_ERR_MESSAGE_INCOMPLETE, b))"
  using assms by (auto simp: sshbuf_consume_def sshbuf_len_contents)

lemma consume_end_eq:
  assumes "sshbuf_inv b"
  shows "sshbuf_consume_end b len =
    (if len \<le> length (contents b) then (None, b\<lparr>sb_size := sb_size b - len\<rparr>)
     else (Some SSH_ERR_MESSAGE_INCOMPLETE, b))"
  using assms by (auto simp: sshbuf_consume_end_def sshbuf_len_contents)

lemma consume_success:
  assumes inv: "sshbuf_inv b" and c: "sshbuf_consume b len = (None, b')"
  shows "sshbuf_inv b'" "contents b' = drop len (contents b)" "same_frame b b'"
    "len \<le> length (contents b)"
  using inv c length_contents [OF inv]
  by (auto simp: consume_eq sshbuf_inv_iff same_frame_def contents_alt add.commute
      split: if_splits)

lemma consume_end_success:
  assumes inv: "sshbuf_inv b" and c: "sshbuf_consume_end b len = (None, b')"
  shows "sshbuf_inv b'" "contents b' = take (length (contents b) - len) (contents b)"
    "same_frame b b'" "len \<le> length (contents b)"
proof -
  from inv c have l: "len \<le> length (contents b)" and b': "b' = b\<lparr>sb_size := sb_size b - len\<rparr>"
    by (auto simp: consume_end_eq split: if_splits)
  with inv show "sshbuf_inv b'" "same_frame b b'" "len \<le> length (contents b)"
    by (auto simp: sshbuf_inv_iff same_frame_def contents_alt)
  show "contents b' = take (length (contents b) - len) (contents b)"
  proof -
    have "sb_size b - len - sb_off b = sb_size b - sb_off b - len" by simp
    then show ?thesis
      by (simp only: length_contents [OF inv]) (simp add: b' contents_def)
  qed
qed

section \<open>Changing the limit, resetting\<close>

lemma shrink_keeps:
  assumes inv: "sshbuf_inv b" and w: "writable b"
  shows "sshbuf_inv (snd (sshbuf_shrink e b m)) \<and>
    contents (snd (sshbuf_shrink e b m)) = contents b \<and>
    same_frame b (snd (sshbuf_shrink e b m))"
proof (cases "m < sb_alloc b \<and> m > sb_size b")
  case False
  then have "sshbuf_shrink e b m = (None, b)"
    unfolding sshbuf_shrink_def by (rule if_not_P)
  then show ?thesis using inv by simp
next
  case True
  let ?z = "b\<lparr>sb_mem := take (sb_size b) (sb_mem b) @ replicate (sb_alloc b - sb_size b) 0\<rparr>"
  let ?r0 = "if sb_size b < SSHBUF_SIZE_INIT then SSHBUF_SIZE_INIT
             else roundup (sb_size b) SSHBUF_SIZE_INC"
  let ?r = "if ?r0 > m then m else ?r0"
  have z: "sshbuf_inv ?z" "contents ?z = contents b" "same_frame b ?z" "writable ?z"
    using inv w by (auto simp: sshbuf_inv_iff contents_alt same_frame_def writable_def)
  have r: "sb_size ?z \<le> ?r" "?r \<le> sb_max_size ?z"
    using True inv roundup_ge [of SSHBUF_SIZE_INC "sb_size b"]
    by (auto simp: sshbuf_inv_iff SSHBUF_SIZE_INC_def)
  have eq: "sshbuf_shrink e b m =
    (case sshbuf_realloc e ?z ?r of None \<Rightarrow> (Some SSH_ERR_ALLOC_FAIL, ?z) | Some b' \<Rightarrow> (None, b'))"
    using True by (simp only: sshbuf_shrink_def Let_def if_True simp_thms)
  show ?thesis
  proof (cases "sshbuf_realloc e ?z ?r")
    case None
    with z show ?thesis by (simp only: eq) simp
  next
    case (Some b')
    with realloc_keeps [OF Some z(1,4) r] z show ?thesis
      by (simp only: eq) (auto intro: same_frame_trans)
  qed
qed

lemma set_max_size_keeps:
  assumes inv: "sshbuf_inv b" and s: "sshbuf_set_max_size e b m = (r, b')"
  shows "sshbuf_inv b'" "contents b' = contents b"
    "sb_max_size b' = (if r = None then m else sb_max_size b)"
    "sb_readonly b' = sb_readonly b" "sb_refcount b' = sb_refcount b" "sb_parent b' = sb_parent b"
proof -
  let ?p = "sshbuf_maybe_pack b (m < sb_size b)"
  have main: "sshbuf_inv b' \<and> contents b' = contents b \<and>
    sb_max_size b' = (if r = None then m else sb_max_size b) \<and>
    sb_readonly b' = sb_readonly b \<and> sb_refcount b' = sb_refcount b \<and> sb_parent b' = sb_parent b"
    if go: "m \<noteq> sb_max_size b" "\<not> (sb_readonly b \<or> sb_refcount b > 1)" "\<not> m > SSHBUF_SIZE_MAX"
  proof -
    from go(2) have w: "writable ?p" by (simp add: writable_def [of b])
    obtain x b1 where sh: "sshbuf_shrink e ?p m = (x, b1)" by fastforce
    with shrink_keeps [OF pack_inv [OF inv] w, of e m]
    have "sshbuf_inv b1" "contents b1 = contents ?p" "same_frame ?p b1" by simp_all
    with inv have k: "sshbuf_inv b1" "contents b1 = contents b" "same_frame b b1"
      by (simp_all add: pack_contents) (metis pack_frame same_frame_trans)
    from s inv go have d: "(r, b') = (case x of Some y \<Rightarrow> (Some y, b1) | None \<Rightarrow>
        if m < sb_alloc b1 then (Some SSH_ERR_NO_BUFFER_SPACE, b1)
        else (None, b1\<lparr>sb_max_size := m\<rparr>))"
      by (simp add: sshbuf_set_max_size_def sh split: option.split)
    show ?thesis
    proof (cases "x = None \<and> \<not> m < sb_alloc b1")
      case True
      with d have "r = None" "b' = b1\<lparr>sb_max_size := m\<rparr>" by simp_all
      with k go(3) True show ?thesis
        by (simp add: sshbuf_inv_iff contents_def same_frame_def)
    next
      case False
      with d have "r \<noteq> None" "b' = b1" by (auto split: option.splits if_splits)
      with k show ?thesis by (auto simp: same_frame_def)
    qed
  qed
  have "sshbuf_inv b' \<and> contents b' = contents b \<and>
    sb_max_size b' = (if r = None then m else sb_max_size b) \<and>
    sb_readonly b' = sb_readonly b \<and> sb_refcount b' = sb_refcount b \<and> sb_parent b' = sb_parent b"
  proof (cases "m \<noteq> sb_max_size b \<and> \<not> (sb_readonly b \<or> sb_refcount b > 1) \<and> \<not> m > SSHBUF_SIZE_MAX")
    case True
    then show ?thesis using main by blast
  next
    case False
    then show ?thesis using s inv by (auto simp: sshbuf_set_max_size_def split: if_splits)
  qed
  then show "sshbuf_inv b'" "contents b' = contents b"
    "sb_max_size b' = (if r = None then m else sb_max_size b)"
    "sb_readonly b' = sb_readonly b" "sb_refcount b' = sb_refcount b" "sb_parent b' = sb_parent b"
    by blast+
qed

lemma reset_shared: "\<not> writable b \<Longrightarrow> sshbuf_reset e b = b\<lparr>sb_off := sb_size b\<rparr>"
  by (auto simp: sshbuf_reset_def writable_def)

definition wiped :: "sshbuf \<Rightarrow> sshbuf" where
  "wiped b = b\<lparr>sb_mem := replicate (sb_alloc b) 0, sb_off := 0, sb_size := 0\<rparr>"

lemma reset_writable:
  "sshbuf_inv b \<Longrightarrow> writable b \<Longrightarrow> sshbuf_reset e b =
    (if sb_alloc b \<noteq> SSHBUF_SIZE_INIT
     then case sshbuf_realloc e (wiped b) SSHBUF_SIZE_INIT of Some b' \<Rightarrow> b' | None \<Rightarrow> wiped b
     else wiped b)"
  by (auto simp: sshbuf_reset_def writable_def wiped_def Let_def split: option.split)

lemma wiped_keeps:
  assumes "sshbuf_inv b" "writable b"
  shows "sshbuf_inv (wiped b)" "writable (wiped b)" "sb_max_size (wiped b) = sb_max_size b"
    "sb_size (wiped b) = 0"
  using assms by (auto simp: sshbuf_inv_iff writable_def wiped_def)

lemma reset_contents: "sshbuf_inv b \<Longrightarrow> contents (sshbuf_reset e b) = []"
  by (cases "writable b")
    (auto simp: reset_shared reset_writable wiped_def contents_def sshbuf_realloc_def Let_def
      split: option.splits if_splits)

lemma reset_inv:
  assumes inv: "sshbuf_inv b" and big: "SSHBUF_SIZE_INIT \<le> sb_max_size b"
  shows "sshbuf_inv (sshbuf_reset e b)"
proof (cases "writable b")
  case False
  with inv show ?thesis by (simp add: reset_shared sshbuf_inv_iff)
next
  case True
  note z = wiped_keeps [OF inv True]
  have "sshbuf_inv b'" if "sshbuf_realloc e (wiped b) SSHBUF_SIZE_INIT = Some b'" for b'
    using realloc_keeps(1) [OF that z(1,2)] big z(3,4) by simp
  then show ?thesis
    using z(1) by (simp add: reset_writable [OF inv True] split: option.split)
qed

end
