(* ===== verification/Sshbuf_Getput.thy ===== *)
theory Sshbuf_Getput
  imports Sshbuf
begin

text \<open>
  The typed accessors of \<^verbatim>\<open>src/openssh-7.2p2/sshbuf-getput-basic.c\<close>.  Every accessor reports its
  result and the buffer as it leaves it; an optional output argument of the C function is always
  returned, a caller that passes the null pointer ignores it.  The second half proves that every put
  appends exactly the wire encoding of its argument, that every get undoes the put of its type, and
  lifts this to whole messages through the interface \<open>wire_codec\<close>.
\<close>

section \<open>Get operations\<close>

text \<open>The bytes at \<open>sshbuf_ptr(buf)\<close>.\<close>

definition ptr_bytes :: "sshbuf \<Rightarrow> byte list" where
  "ptr_bytes b = (case sshbuf_ptr b of None \<Rightarrow> [] | Some (_, bs) \<Rightarrow> bs)"

definition sshbuf_get :: "sshbuf \<Rightarrow> nat \<Rightarrow> (ssh_err + byte list) \<times> sshbuf" where
  "sshbuf_get b len =
     (let p = ptr_bytes b
      in case sshbuf_consume b len of
           (Some r, b) \<Rightarrow> (Inl r, b)
         | (None, b) \<Rightarrow> (Inr (take len p), b))"

definition sshbuf_get_u64 :: "sshbuf \<Rightarrow> (ssh_err + 64 word) \<times> sshbuf" where
  "sshbuf_get_u64 b =
     (let p = ptr_bytes b
      in case sshbuf_consume b 8 of
           (Some r, b) \<Rightarrow> (Inl r, b)
         | (None, b) \<Rightarrow> (Inr (peek_u64 p), b))"

definition sshbuf_get_u32 :: "sshbuf \<Rightarrow> (ssh_err + 32 word) \<times> sshbuf" where
  "sshbuf_get_u32 b =
     (let p = ptr_bytes b
      in case sshbuf_consume b 4 of
           (Some r, b) \<Rightarrow> (Inl r, b)
         | (None, b) \<Rightarrow> (Inr (peek_u32 p), b))"

definition sshbuf_get_u16 :: "sshbuf \<Rightarrow> (ssh_err + 16 word) \<times> sshbuf" where
  "sshbuf_get_u16 b =
     (let p = ptr_bytes b
      in case sshbuf_consume b 2 of
           (Some r, b) \<Rightarrow> (Inl r, b)
         | (None, b) \<Rightarrow> (Inr (peek_u16 p), b))"

definition sshbuf_get_u8 :: "sshbuf \<Rightarrow> (ssh_err + byte) \<times> sshbuf" where
  "sshbuf_get_u8 b =
     (let p = ptr_bytes b
      in case sshbuf_consume b 1 of
           (Some r, b) \<Rightarrow> (Inl r, b)
         | (None, b) \<Rightarrow> (Inr (p ! 0), b))"

definition sshbuf_peek_string_direct :: "sshbuf \<Rightarrow> ssh_err + byte list" where
  "sshbuf_peek_string_direct b =
     (let p = ptr_bytes b
      in if sshbuf_len b < 4 then Inl SSH_ERR_MESSAGE_INCOMPLETE
         else let len = unat (peek_u32 p)
         in if len > SSHBUF_SIZE_MAX - 4 then Inl SSH_ERR_STRING_TOO_LARGE
            else if sshbuf_len b - 4 < len then Inl SSH_ERR_MESSAGE_INCOMPLETE
            else Inr (take len (drop 4 p)))"

definition sshbuf_get_string_direct :: "sshbuf \<Rightarrow> (ssh_err + byte list) \<times> sshbuf" where
  "sshbuf_get_string_direct b =
     (case sshbuf_peek_string_direct b of
        Inl r \<Rightarrow> (Inl r, b)
      | Inr p \<Rightarrow>
          (case sshbuf_consume b (length p + 4) of
             (Some _, b) \<Rightarrow> (Inl SSH_ERR_INTERNAL_ERROR, b)
           | (None, b) \<Rightarrow> (Inr p, b)))"

text \<open>\<open>sshbuf_get_string\<close> and \<open>sshbuf_get_cstring\<close> copy into \<open>malloc(len + 1)\<close> and append a zero byte,
  which is left out of the result.\<close>

definition sshbuf_get_string :: "alloc_env \<Rightarrow> sshbuf \<Rightarrow> (ssh_err + byte list) \<times> sshbuf" where
  "sshbuf_get_string e b =
     (case sshbuf_get_string_direct b of
        (Inl r, b) \<Rightarrow> (Inl r, b)
      | (Inr val, b) \<Rightarrow>
          if ae_block e (length val + 1) = 0 then (Inl SSH_ERR_ALLOC_FAIL, b)
          else (Inr val, b))"

definition sshbuf_get_cstring :: "alloc_env \<Rightarrow> sshbuf \<Rightarrow> (ssh_err + byte list) \<times> sshbuf" where
  "sshbuf_get_cstring e b =
     (case sshbuf_peek_string_direct b of
        Inl r \<Rightarrow> (Inl r, b)
      | Inr p \<Rightarrow>
          let len = length p; z = length (takeWhile (\<lambda>c. c \<noteq> 0) p)
          in if len > 0 \<and> z < len \<and> z < len - 1 then (Inl SSH_ERR_INVALID_FORMAT, b)
             else
               (case sshbuf_get_string_direct b of
                  (Inl _, b) \<Rightarrow> (Inl SSH_ERR_INTERNAL_ERROR, b)
                | (Inr _, b) \<Rightarrow>
                    if ae_block e (len + 1) = 0 then (Inl SSH_ERR_ALLOC_FAIL, b)
                    else (Inr p, b)))"

text \<open>\<open>sshbuf_get_stringb(buf, v)\<close>, for two different buffers.\<close>

definition sshbuf_get_stringb :: "alloc_env \<Rightarrow> sshbuf \<Rightarrow> sshbuf \<Rightarrow> rc \<times> sshbuf \<times> sshbuf" where
  "sshbuf_get_stringb e b v =
     (case sshbuf_peek_string_direct b of
        Inl r \<Rightarrow> (Some r, b, v)
      | Inr _ \<Rightarrow>
        (case sshbuf_get_u32 b of
           (Inl r, b) \<Rightarrow> (Some r, b, v)
         | (Inr len, b) \<Rightarrow>
           (case sshbuf_reserve e v (unat len) of
              (Inl r, v) \<Rightarrow> (Some r, b, v)
            | (Inr p, v) \<Rightarrow>
              (case sshbuf_get b (unat len) of
                 (Inl r, b) \<Rightarrow> (Some r, b, v)
               | (Inr val, b) \<Rightarrow> (None, b, v\<lparr>sb_mem := mem_write p val (sb_mem v)\<rparr>)))))"

definition sshbuf_get_bignum2_bytes_direct :: "sshbuf \<Rightarrow> (ssh_err + byte list) \<times> sshbuf" where
  "sshbuf_get_bignum2_bytes_direct b =
     (case sshbuf_peek_string_direct b of
        Inl r \<Rightarrow> (Inl r, b)
      | Inr d \<Rightarrow>
          let olen = length d
          in if olen \<noteq> 0 \<and> (d ! 0) AND 0x80 \<noteq> 0 then (Inl SSH_ERR_BIGNUM_IS_NEGATIVE, b)
             else if olen > SSHBUF_MAX_BIGNUM + 1 \<or>
                     (olen = SSHBUF_MAX_BIGNUM + 1 \<and> d ! 0 \<noteq> 0)
             then (Inl SSH_ERR_BIGNUM_TOO_LARGE, b)
             else
               let val = dropWhile (\<lambda>c. c = 0) d
               in (case sshbuf_consume b (olen + 4) of
                     (Some _, b) \<Rightarrow> (Inl SSH_ERR_INTERNAL_ERROR, b)
                   | (None, b) \<Rightarrow> (Inr val, b)))"

section \<open>Put operations\<close>

definition sshbuf_put :: "alloc_env \<Rightarrow> sshbuf \<Rightarrow> byte list \<Rightarrow> rc \<times> sshbuf" where
  "sshbuf_put e b v =
     (case sshbuf_reserve e b (length v) of
        (Inl r, b) \<Rightarrow> (Some r, b)
      | (Inr p, b) \<Rightarrow> (None, b\<lparr>sb_mem := mem_write p v (sb_mem b)\<rparr>))"

definition sshbuf_putb :: "alloc_env \<Rightarrow> sshbuf \<Rightarrow> sshbuf \<Rightarrow> rc \<times> sshbuf" where
  "sshbuf_putb e b v = sshbuf_put e b (take (sshbuf_len v) (ptr_bytes v))"

text \<open>\<open>vsnprintf\<close> is a parameter: its formatted text, or \<^term>\<open>None\<close> where it reports an error.\<close>

definition sshbuf_putfv :: "alloc_env \<Rightarrow> sshbuf \<Rightarrow> byte list option \<Rightarrow> rc \<times> sshbuf" where
  "sshbuf_putfv e b fmt =
     (case fmt of
        None \<Rightarrow> (Some SSH_ERR_INVALID_ARGUMENT, b)
      | Some txt \<Rightarrow>
          let len = length txt
          in if len = 0 then (None, b)
             else
               (case sshbuf_reserve e b (len + 1) of
                  (Inl r, b) \<Rightarrow> (Some r, b)
                | (Inr p, b) \<Rightarrow>
                    sshbuf_consume_end (b\<lparr>sb_mem := mem_write p (txt @ [0]) (sb_mem b)\<rparr>) 1))"

definition sshbuf_put_u64 :: "alloc_env \<Rightarrow> sshbuf \<Rightarrow> 64 word \<Rightarrow> rc \<times> sshbuf" where
  "sshbuf_put_u64 e b val =
     (case sshbuf_reserve e b 8 of
        (Inl r, b) \<Rightarrow> (Some r, b)
      | (Inr p, b) \<Rightarrow> (None, b\<lparr>sb_mem := mem_write p (poke_u64 val) (sb_mem b)\<rparr>))"

definition sshbuf_put_u32 :: "alloc_env \<Rightarrow> sshbuf \<Rightarrow> 32 word \<Rightarrow> rc \<times> sshbuf" where
  "sshbuf_put_u32 e b val =
     (case sshbuf_reserve e b 4 of
        (Inl r, b) \<Rightarrow> (Some r, b)
      | (Inr p, b) \<Rightarrow> (None, b\<lparr>sb_mem := mem_write p (poke_u32 val) (sb_mem b)\<rparr>))"

definition sshbuf_put_u16 :: "alloc_env \<Rightarrow> sshbuf \<Rightarrow> 16 word \<Rightarrow> rc \<times> sshbuf" where
  "sshbuf_put_u16 e b val =
     (case sshbuf_reserve e b 2 of
        (Inl r, b) \<Rightarrow> (Some r, b)
      | (Inr p, b) \<Rightarrow> (None, b\<lparr>sb_mem := mem_write p (poke_u16 val) (sb_mem b)\<rparr>))"

definition sshbuf_put_u8 :: "alloc_env \<Rightarrow> sshbuf \<Rightarrow> byte \<Rightarrow> rc \<times> sshbuf" where
  "sshbuf_put_u8 e b val =
     (case sshbuf_reserve e b 1 of
        (Inl r, b) \<Rightarrow> (Some r, b)
      | (Inr p, b) \<Rightarrow> (None, b\<lparr>sb_mem := mem_write p [val] (sb_mem b)\<rparr>))"

definition sshbuf_put_string :: "alloc_env \<Rightarrow> sshbuf \<Rightarrow> byte list \<Rightarrow> rc \<times> sshbuf" where
  "sshbuf_put_string e b v =
     (let len = length v
      in if len > SSHBUF_SIZE_MAX - 4 then (Some SSH_ERR_NO_BUFFER_SPACE, b)
         else
           (case sshbuf_reserve e b (len + 4) of
              (Inl r, b) \<Rightarrow> (Some r, b)
            | (Inr d, b) \<Rightarrow>
                let b = b\<lparr>sb_mem := mem_write d (poke_u32 (of_nat len)) (sb_mem b)\<rparr>
                in (None, b\<lparr>sb_mem := mem_write (d + 4) v (sb_mem b)\<rparr>)))"

text \<open>A C string argument: \<^term>\<open>None\<close> is the null pointer, otherwise its bytes up to the terminator.\<close>

definition sshbuf_put_cstring :: "alloc_env \<Rightarrow> sshbuf \<Rightarrow> byte list option \<Rightarrow> rc \<times> sshbuf" where
  "sshbuf_put_cstring e b v =
     sshbuf_put_string e b (case v of None \<Rightarrow> [] | Some s \<Rightarrow> takeWhile (\<lambda>c. c \<noteq> 0) s)"

definition sshbuf_put_stringb :: "alloc_env \<Rightarrow> sshbuf \<Rightarrow> sshbuf \<Rightarrow> rc \<times> sshbuf" where
  "sshbuf_put_stringb e b v = sshbuf_put_string e b (take (sshbuf_len v) (ptr_bytes v))"

definition sshbuf_put_bignum2_bytes :: "alloc_env \<Rightarrow> sshbuf \<Rightarrow> byte list \<Rightarrow> rc \<times> sshbuf" where
  "sshbuf_put_bignum2_bytes e b v =
     (if length v > SSHBUF_SIZE_MAX - 5 then (Some SSH_ERR_NO_BUFFER_SPACE, b)
      else
        let s = dropWhile (\<lambda>c. c = 0) v;
            len = length s;
            prepend = (if len > 0 \<and> (s ! 0) AND 0x80 \<noteq> 0 then 1 else 0)
        in (case sshbuf_reserve e b (len + 4 + prepend) of
              (Inl r, b) \<Rightarrow> (Some r, b)
            | (Inr d, b) \<Rightarrow>
                let b = b\<lparr>sb_mem := mem_write d (poke_u32 (of_nat (len + prepend))) (sb_mem b)\<rparr>;
                    b = (if prepend = 1 then b\<lparr>sb_mem := mem_write (d + 4) [0] (sb_mem b)\<rparr> else b)
                in (None, b\<lparr>sb_mem := mem_write (d + 4 + prepend) s (sb_mem b)\<rparr>)))"

section \<open>Every put is an append\<close>

lemma put_success:
  assumes inv: "sshbuf_inv b" and p: "sshbuf_put e b v = (None, b')"
  shows "sshbuf_inv b'" "contents b' = contents b @ v" "same_frame b b'" "writable b"
    "length (contents b) + length v \<le> sb_max_size b"
proof -
  obtain x b1 where r: "sshbuf_reserve e b (length v) = (x, b1)" by fastforce
  with p obtain dp where x: "x = Inr dp" and b': "b' = b1\<lparr>sb_mem := mem_write dp v (sb_mem b1)\<rparr>"
    by (cases x) (simp_all add: sshbuf_put_def)
  show "sshbuf_inv b'" "contents b' = contents b @ v" "same_frame b b'"
    using reserve_write [OF inv r [unfolded x]] by (simp_all only: b')
  show "writable b" "length (contents b) + length v \<le> sb_max_size b"
    using reserve_success [OF inv r [unfolded x]] by simp_all
qed

lemma put_error:
  assumes inv: "sshbuf_inv b" and p: "sshbuf_put e b v = (Some x, b')"
  shows "sshbuf_inv b'" "contents b' = contents b" "same_frame b b'"
    "x = (if \<not> writable b then SSH_ERR_BUFFER_READ_ONLY
          else if length (contents b) + length v > sb_max_size b then SSH_ERR_NO_BUFFER_SPACE
          else SSH_ERR_ALLOC_FAIL)"
proof -
  obtain y b1 where r: "sshbuf_reserve e b (length v) = (y, b1)" by fastforce
  with p have y: "y = Inl x" "b1 = b'" by (cases y; simp add: sshbuf_put_def)+
  from reserve_error [OF inv r [unfolded y]]
  show "sshbuf_inv b'" "contents b' = contents b" "same_frame b b'"
    "x = (if \<not> writable b then SSH_ERR_BUFFER_READ_ONLY
          else if length (contents b) + length v > sb_max_size b then SSH_ERR_NO_BUFFER_SPACE
          else SSH_ERR_ALLOC_FAIL)" by simp_all
qed

lemma put_total:
  assumes "sshbuf_inv b" "writable b" "length (contents b) + length v \<le> sb_max_size b"
    "alloc_total e"
  shows "\<exists>b'. sshbuf_put e b v = (None, b')"
  using reserve_total [OF assms] by (auto simp: sshbuf_put_def)

lemma put_of_reserve:
  "sshbuf_reserve e b n = (Inl r, b1) \<Longrightarrow> n = length v \<Longrightarrow> sshbuf_put e b v = (Some r, b1)"
  "sshbuf_reserve e b n = (Inr d, b1) \<Longrightarrow> n = length v \<Longrightarrow>
   sshbuf_put e b v = (None, b1\<lparr>sb_mem := mem_write d v (sb_mem b1)\<rparr>)"
  by (simp_all add: sshbuf_put_def)

lemma put_u64_eq: "sshbuf_put_u64 e b val = sshbuf_put e b (poke_u64 val)"
  by (simp add: sshbuf_put_u64_def sshbuf_put_def)

lemma put_u32_eq: "sshbuf_put_u32 e b val = sshbuf_put e b (poke_u32 val)"
  by (simp add: sshbuf_put_u32_def sshbuf_put_def)

lemma put_u16_eq: "sshbuf_put_u16 e b val = sshbuf_put e b (poke_u16 val)"
  by (simp add: sshbuf_put_u16_def sshbuf_put_def)

lemma put_u8_eq: "sshbuf_put_u8 e b val = sshbuf_put e b [val]"
  by (simp add: sshbuf_put_u8_def sshbuf_put_def)

definition string_enc :: "byte list \<Rightarrow> byte list" where
  "string_enc v = poke_u32 (of_nat (length v)) @ v"

lemma length_string_enc [simp]: "length (string_enc v) = length v + 4"
  by (simp add: string_enc_def)

lemma put_string_eq:
  assumes "sshbuf_inv b"
  shows "sshbuf_put_string e b v =
    (if length v > SSHBUF_SIZE_MAX - 4 then (Some SSH_ERR_NO_BUFFER_SPACE, b)
     else sshbuf_put e b (string_enc v))"
proof (cases "sshbuf_reserve e b (length v + 4)")
  case (Pair x b1)
  show ?thesis
  proof (cases x)
    case (Inl r)
    with Pair show ?thesis by (simp add: sshbuf_put_string_def put_of_reserve)
  next
    case (Inr d)
    with Pair have r: "sshbuf_reserve e b (length v + 4) = (Inr d, b1)" by simp
    have "d + (length v + 4) \<le> length (sb_mem b1)"
      by (rule reserve_success(5) [OF assms r])
    with r show ?thesis
      by (simp add: sshbuf_put_string_def put_of_reserve)
        (simp add: string_enc_def mem_write_append)
  qed
qed

definition bignum2_body :: "byte list \<Rightarrow> byte list" where
  "bignum2_body v =
     (let s = dropWhile (\<lambda>c. c = 0) v
      in if s \<noteq> [] \<and> (s ! 0) AND 0x80 \<noteq> 0 then 0 # s else s)"

lemma put_bignum2_eq:
  assumes "sshbuf_inv b"
  shows "sshbuf_put_bignum2_bytes e b v =
    (if length v > SSHBUF_SIZE_MAX - 5 then (Some SSH_ERR_NO_BUFFER_SPACE, b)
     else sshbuf_put e b (string_enc (bignum2_body v)))"
proof -
  define s where "s = dropWhile (\<lambda>c. c = 0) v"
  define pre where "pre = (if length s > 0 \<and> (s ! 0) AND 0x80 \<noteq> 0 then 1 else 0 :: nat)"
  obtain x b1 where r: "sshbuf_reserve e b (length s + 4 + pre) = (x, b1)" by fastforce
  have body: "bignum2_body v = (if pre = 1 then 0 # s else s)"
    by (simp add: bignum2_body_def pre_def s_def [symmetric] Let_def)
  have pre01: "pre = 0 \<or> pre = 1" by (simp add: pre_def)
  then have len: "length s + 4 + pre = length (string_enc (bignum2_body v))"
    by (auto simp: body)
  have def: "sshbuf_put_bignum2_bytes e b v =
    (if length v > SSHBUF_SIZE_MAX - 5 then (Some SSH_ERR_NO_BUFFER_SPACE, b)
     else (case x of Inl r \<Rightarrow> (Some r, b1) | Inr d \<Rightarrow>
       let b = b1\<lparr>sb_mem := mem_write d (poke_u32 (of_nat (length s + pre))) (sb_mem b1)\<rparr>;
           b = (if pre = 1 then b\<lparr>sb_mem := mem_write (d + 4) [0] (sb_mem b)\<rparr> else b)
       in (None, b\<lparr>sb_mem := mem_write (d + 4 + pre) s (sb_mem b)\<rparr>)))"
    unfolding sshbuf_put_bignum2_bytes_def s_def [symmetric] Let_def pre_def [symmetric] r
    by (simp split: sum.split)
  show ?thesis
  proof (cases x)
    case (Inl y)
    with r show ?thesis unfolding def by (simp add: put_of_reserve(1) [OF _ len])
  next
    case (Inr d)
    with r have r': "sshbuf_reserve e b (length s + 4 + pre) = (Inr d, b1)" by simp
    have "d + (length s + 4 + pre) \<le> length (sb_mem b1)"
      by (rule reserve_success(5) [OF assms r'])
    with pre01 show ?thesis unfolding def put_of_reserve(2) [OF r' len] Inr
      by (auto simp: string_enc_def body mem_write_append Let_def add.commute [of "1 :: 32 word"])
  qed
qed

section \<open>Every get takes from the front\<close>

definition advance :: "sshbuf \<Rightarrow> nat \<Rightarrow> sshbuf" where
  "advance b n = b\<lparr>sb_off := sb_off b + n\<rparr>"

lemma consume_advance:
  "sshbuf_inv b \<Longrightarrow> sshbuf_consume b n =
    (if n \<le> length (contents b) then (None, advance b n) else (Some SSH_ERR_MESSAGE_INCOMPLETE, b))"
  by (simp add: consume_eq advance_def)

lemma advance_keeps:
  assumes "sshbuf_inv b" "n \<le> length (contents b)"
  shows "sshbuf_inv (advance b n)" "contents (advance b n) = drop n (contents b)"
    "same_frame b (advance b n)"
  using consume_success [OF assms(1), of n "advance b n"] assms by (simp_all add: consume_advance)

lemma ptr_bytes_contents [simp]: "sshbuf_inv b \<Longrightarrow> ptr_bytes b = contents b"
  by (simp add: ptr_bytes_def sshbuf_ptr_contents)

lemma get_eq:
  "sshbuf_inv b \<Longrightarrow> sshbuf_get b n =
    (if n \<le> length (contents b) then (Inr (take n (contents b)), advance b n)
     else (Inl SSH_ERR_MESSAGE_INCOMPLETE, b))"
  by (simp add: sshbuf_get_def consume_advance)

lemma get_word_eq:
  assumes "sshbuf_inv b"
  shows "sshbuf_get_u64 b = (if 8 \<le> length (contents b) then (Inr (peek_u64 (contents b)), advance b 8)
      else (Inl SSH_ERR_MESSAGE_INCOMPLETE, b))"
    "sshbuf_get_u32 b = (if 4 \<le> length (contents b) then (Inr (peek_u32 (contents b)), advance b 4)
      else (Inl SSH_ERR_MESSAGE_INCOMPLETE, b))"
    "sshbuf_get_u16 b = (if 2 \<le> length (contents b) then (Inr (peek_u16 (contents b)), advance b 2)
      else (Inl SSH_ERR_MESSAGE_INCOMPLETE, b))"
    "sshbuf_get_u8 b = (if 1 \<le> length (contents b) then (Inr (contents b ! 0), advance b 1)
      else (Inl SSH_ERR_MESSAGE_INCOMPLETE, b))"
  using assms
  by (simp_all add: sshbuf_get_u64_def sshbuf_get_u32_def sshbuf_get_u16_def sshbuf_get_u8_def
      consume_advance)

lemma peek_string_eq:
  "sshbuf_inv b \<Longrightarrow> sshbuf_peek_string_direct b =
    (let c = contents b; len = unat (peek_u32 c)
     in if length c < 4 then Inl SSH_ERR_MESSAGE_INCOMPLETE
        else if len > SSHBUF_SIZE_MAX - 4 then Inl SSH_ERR_STRING_TOO_LARGE
        else if length c - 4 < len then Inl SSH_ERR_MESSAGE_INCOMPLETE
        else Inr (take len (drop 4 c)))"
  by (simp add: sshbuf_peek_string_direct_def sshbuf_len_contents Let_def)

lemma peek_string_length:
  assumes "sshbuf_inv b" "sshbuf_peek_string_direct b = Inr v"
  shows "length v + 4 \<le> length (contents b)" "length v = unat (peek_u32 (contents b))"
    "v = take (length v) (drop 4 (contents b))" "length v \<le> SSHBUF_SIZE_MAX - 4"
  using assms by (auto simp: peek_string_eq Let_def split: if_splits)

lemma get_string_direct_eq:
  assumes inv: "sshbuf_inv b"
  shows "sshbuf_get_string_direct b =
    (case sshbuf_peek_string_direct b of
       Inl r \<Rightarrow> (Inl r, b) | Inr v \<Rightarrow> (Inr v, advance b (length v + 4)))"
  using peek_string_length(1) [OF inv] inv
  by (auto simp: sshbuf_get_string_direct_def consume_advance split: sum.split)

text \<open>A string is read back from its own encoding, and only from an encoding.\<close>

lemma unat_length_enc: "n \<le> SSHBUF_SIZE_MAX \<Longrightarrow> unat (of_nat n :: 32 word) = n"
  by (simp add: unat_of_nat SSHBUF_SIZE_MAX_def)

lemma peek_string_enc:
  assumes "sshbuf_inv b" "contents b = string_enc v @ rest" "length v \<le> SSHBUF_SIZE_MAX - 4"
  shows "sshbuf_peek_string_direct b = Inr v"
proof -
  from assms(3) have "unat (of_nat (length v) :: 32 word) = length v"
    by (intro unat_length_enc) (simp add: SSHBUF_SIZE_MAX_def)
  with assms show ?thesis
    by (simp add: peek_string_eq Let_def string_enc_def)
qed

lemma peek_string_inv:
  assumes inv: "sshbuf_inv b" and p: "sshbuf_peek_string_direct b = Inr v"
  shows "contents b = string_enc v @ drop (length v + 4) (contents b)"
proof -
  note l = peek_string_length [OF inv p]
  have "of_nat (length v) = peek_u32 (contents b)"
    by (simp add: l(2))
  then have "poke_u32 (of_nat (length v)) = take 4 (contents b)"
    using l(1) by (simp add: poke_peek_u32)
  then have "string_enc v = take 4 (contents b) @ take (length v) (drop 4 (contents b))"
    using l(3) by (simp add: string_enc_def)
  also have "\<dots> = take (4 + length v) (contents b)"
    by (simp add: take_add)
  finally show ?thesis by (simp add: add.commute [of 4])
qed

section \<open>Messages\<close>

text \<open>
  A message is written and read by chains such as
  \<^verbatim>\<open>if ((r = f(b, x)) != 0 || (r = g(b, y)) != 0) return r;\<close>, which stop at the first error.
\<close>

fun put_all :: "('b \<Rightarrow> 'f \<Rightarrow> rc \<times> 'b) \<Rightarrow> 'b \<Rightarrow> 'f list \<Rightarrow> rc \<times> 'b" where
  "put_all put b [] = (None, b)"
| "put_all put b (f # fs) =
     (case put b f of (Some r, b') \<Rightarrow> (Some r, b') | (None, b') \<Rightarrow> put_all put b' fs)"

fun get_all ::
  "('b \<Rightarrow> 't \<Rightarrow> (ssh_err + 'f) \<times> 'b) \<Rightarrow> 'b \<Rightarrow> 't list \<Rightarrow> (ssh_err + 'f list) \<times> 'b" where
  "get_all get b [] = (Inr [], b)"
| "get_all get b (t # ts) =
     (case get b t of
        (Inl r, b') \<Rightarrow> (Inl r, b')
      | (Inr f, b') \<Rightarrow>
          (case get_all get b' ts of (Inl r, b'') \<Rightarrow> (Inl r, b'') | (Inr fs, b'') \<Rightarrow> (Inr (f # fs), b'')))"

text \<open>
  The interface between the typed accessors and their callers: a put appends the encoding of its
  field, a get of the field's type takes the field off the front again.
\<close>

locale wire_codec =
  fixes inv :: "'b \<Rightarrow> bool" and content :: "'b \<Rightarrow> byte list" and room :: "'b \<Rightarrow> nat \<Rightarrow> bool"
    and put :: "'b \<Rightarrow> 'f \<Rightarrow> rc \<times> 'b" and get :: "'b \<Rightarrow> 't \<Rightarrow> (ssh_err + 'f) \<times> 'b"
    and enc :: "'f \<Rightarrow> byte list" and type_of :: "'f \<Rightarrow> 't" and ok :: "'f \<Rightarrow> bool"
  assumes put_law: "inv b \<Longrightarrow> ok f \<Longrightarrow> room b (length (enc f)) \<Longrightarrow>
      \<exists>b'. put b f = (None, b') \<and> inv b' \<and> content b' = content b @ enc f \<and>
           (\<forall>n. room b (length (enc f) + n) \<longrightarrow> room b' n)"
    and get_law: "inv b \<Longrightarrow> ok f \<Longrightarrow> content b = enc f @ rest \<Longrightarrow>
      \<exists>b'. get b (type_of f) = (Inr f, b') \<and> inv b' \<and> content b' = rest"
    and room_mono: "room b (m + n) \<Longrightarrow> room b m"
begin

lemma put_all_law:
  "inv b \<Longrightarrow> \<forall>f \<in> set fs. ok f \<Longrightarrow> room b (length (concat (map enc fs))) \<Longrightarrow>
   \<exists>b'. put_all put b fs = (None, b') \<and> inv b' \<and> content b' = content b @ concat (map enc fs)"
proof (induction fs arbitrary: b)
  case Nil
  then show ?case by simp
next
  case (Cons f fs)
  from Cons.prems(3) have r: "room b (length (enc f) + length (concat (map enc fs)))" by simp
  from put_law [of b f] Cons.prems(1,2) room_mono [OF r] obtain b1
    where b1: "put b f = (None, b1)" "inv b1" "content b1 = content b @ enc f"
      "\<forall>n. room b (length (enc f) + n) \<longrightarrow> room b1 n" by auto
  from Cons.IH [OF b1(2)] Cons.prems(2) b1(4) r show ?case
    by (auto simp: b1)
qed

lemma get_all_law:
  "inv b \<Longrightarrow> \<forall>f \<in> set fs. ok f \<Longrightarrow> content b = concat (map enc fs) @ rest \<Longrightarrow>
   \<exists>b'. get_all get b (map type_of fs) = (Inr fs, b') \<and> inv b' \<and> content b' = rest"
proof (induction fs arbitrary: b)
  case Nil
  then show ?case by simp
next
  case (Cons f fs)
  from get_law [of b f "concat (map enc fs) @ rest"] Cons.prems obtain b1
    where b1: "get b (type_of f) = (Inr f, b1)" "inv b1" "content b1 = concat (map enc fs) @ rest"
    by auto
  from Cons.IH [OF b1(2) _ b1(3)] Cons.prems(2) show ?case
    by (auto simp: b1)
qed

lemma message_roundtrip:
  assumes "inv b" "content b = []" "\<forall>f \<in> set fs. ok f" "room b (length (concat (map enc fs)))"
  shows "\<exists>b' b''. put_all put b fs = (None, b') \<and>
    get_all get b' (map type_of fs) = (Inr fs, b'') \<and> inv b'' \<and> content b'' = []"
proof -
  from put_all_law [OF assms(1,3,4)] assms(2) obtain b'
    where b': "put_all put b fs = (None, b')" "inv b'" "content b' = concat (map enc fs) @ []"
    by auto
  with get_all_law [OF b'(2) assms(3) b'(3)] show ?thesis by auto
qed

end

text \<open>The fields of the SSH wire format that this file reads and writes.\<close>

datatype wire_field =
    F_u8 byte | F_u16 "16 word" | F_u32 "32 word" | F_u64 "64 word"
  | F_string "byte list" | F_cstring "byte list" | F_bignum2 "byte list"

datatype wire_type = T_u8 | T_u16 | T_u32 | T_u64 | T_string | T_cstring | T_bignum2

fun field_type :: "wire_field \<Rightarrow> wire_type" where
  "field_type (F_u8 _) = T_u8" | "field_type (F_u16 _) = T_u16"
| "field_type (F_u32 _) = T_u32" | "field_type (F_u64 _) = T_u64"
| "field_type (F_string _) = T_string" | "field_type (F_cstring _) = T_cstring"
| "field_type (F_bignum2 _) = T_bignum2"

fun field_enc :: "wire_field \<Rightarrow> byte list" where
  "field_enc (F_u8 v) = [v]" | "field_enc (F_u16 v) = poke_u16 v"
| "field_enc (F_u32 v) = poke_u32 v" | "field_enc (F_u64 v) = poke_u64 v"
| "field_enc (F_string v) = string_enc v" | "field_enc (F_cstring v) = string_enc v"
| "field_enc (F_bignum2 v) = string_enc (bignum2_body v)"

text \<open>The values a put followed by a get returns unchanged: strings below the size limit, C strings
  without a zero byte, minimal bignums of at most 16384 bits.\<close>

fun field_ok :: "wire_field \<Rightarrow> bool" where
  "field_ok (F_string v) \<longleftrightarrow> length v \<le> SSHBUF_SIZE_MAX - 4"
| "field_ok (F_cstring v) \<longleftrightarrow> length v \<le> SSHBUF_SIZE_MAX - 4 \<and> 0 \<notin> set v"
| "field_ok (F_bignum2 v) \<longleftrightarrow> length v \<le> SSHBUF_MAX_BIGNUM \<and> (v \<noteq> [] \<longrightarrow> v ! 0 \<noteq> 0)"
| "field_ok _ \<longleftrightarrow> True"

fun sshbuf_put_field :: "alloc_env \<Rightarrow> sshbuf \<Rightarrow> wire_field \<Rightarrow> rc \<times> sshbuf" where
  "sshbuf_put_field e b (F_u8 v) = sshbuf_put_u8 e b v"
| "sshbuf_put_field e b (F_u16 v) = sshbuf_put_u16 e b v"
| "sshbuf_put_field e b (F_u32 v) = sshbuf_put_u32 e b v"
| "sshbuf_put_field e b (F_u64 v) = sshbuf_put_u64 e b v"
| "sshbuf_put_field e b (F_string v) = sshbuf_put_string e b v"
| "sshbuf_put_field e b (F_cstring v) = sshbuf_put_cstring e b (Some v)"
| "sshbuf_put_field e b (F_bignum2 v) = sshbuf_put_bignum2_bytes e b v"

definition map_get :: "('a \<Rightarrow> 'c) \<Rightarrow> (ssh_err + 'a) \<times> 'b \<Rightarrow> (ssh_err + 'c) \<times> 'b" where
  "map_get f = map_prod (map_sum id f) id"

fun sshbuf_get_field :: "alloc_env \<Rightarrow> sshbuf \<Rightarrow> wire_type \<Rightarrow> (ssh_err + wire_field) \<times> sshbuf" where
  "sshbuf_get_field e b T_u8 = map_get F_u8 (sshbuf_get_u8 b)"
| "sshbuf_get_field e b T_u16 = map_get F_u16 (sshbuf_get_u16 b)"
| "sshbuf_get_field e b T_u32 = map_get F_u32 (sshbuf_get_u32 b)"
| "sshbuf_get_field e b T_u64 = map_get F_u64 (sshbuf_get_u64 b)"
| "sshbuf_get_field e b T_string = map_get F_string (sshbuf_get_string e b)"
| "sshbuf_get_field e b T_cstring = map_get F_cstring (sshbuf_get_cstring e b)"
| "sshbuf_get_field e b T_bignum2 = map_get F_bignum2 (sshbuf_get_bignum2_bytes_direct b)"

definition sshbuf_room :: "sshbuf \<Rightarrow> nat \<Rightarrow> bool" where
  "sshbuf_room b n \<longleftrightarrow> writable b \<and> length (contents b) + n \<le> sb_max_size b"

lemma put_field_eq:
  assumes "sshbuf_inv b" "field_ok f"
  shows "sshbuf_put_field e b f = sshbuf_put e b (field_enc f)"
proof (cases f)
  case (F_cstring v)
  with assms have eq: "takeWhile (\<lambda>c. c \<noteq> 0) v = v" by (auto simp: takeWhile_eq_all_conv)
  show ?thesis
    using F_cstring assms by (auto simp: sshbuf_put_cstring_def put_string_eq eq)
next
  case (F_bignum2 v)
  with assms show ?thesis by (auto simp: put_bignum2_eq sshbuf_consts)
qed (use assms in \<open>auto simp: put_u8_eq put_u16_eq put_u32_eq put_u64_eq put_string_eq\<close>)

lemma get_string_eq:
  "sshbuf_inv b \<Longrightarrow> alloc_total e \<Longrightarrow> sshbuf_get_string e b = sshbuf_get_string_direct b"
  by (simp add: sshbuf_get_string_def get_string_direct_eq split: sum.split)

lemma get_cstring_eq:
  assumes "sshbuf_inv b" "alloc_total e"
  shows "sshbuf_get_cstring e b =
    (case sshbuf_peek_string_direct b of
       Inl r \<Rightarrow> (Inl r, b)
     | Inr v \<Rightarrow> if 0 \<in> set (butlast v) then (Inl SSH_ERR_INVALID_FORMAT, b)
               else (Inr v, advance b (length v + 4)))"
proof -
  have nul: "0 \<in> set (butlast v) \<longleftrightarrow>
      length v > 0 \<and> length (takeWhile (\<lambda>c. c \<noteq> 0) v) < length v \<and>
      length (takeWhile (\<lambda>c. c \<noteq> 0) v) < length v - 1" for v :: "byte list"
  proof (cases v rule: rev_cases)
    case (snoc ys y)
    have "length (takeWhile (\<lambda>c. c \<noteq> 0) ys) \<le> length ys" by (rule length_takeWhile_le)
    moreover have "0 \<in> set ys \<longleftrightarrow> length (takeWhile (\<lambda>c. c \<noteq> 0) ys) \<noteq> length ys"
      using takeWhile_eq_all_conv [of "\<lambda>c. c \<noteq> 0" ys] takeWhile_eq_take [of "\<lambda>c. c \<noteq> 0" ys]
      by (metis take_all_iff order_refl)
    ultimately show ?thesis using snoc by (auto simp: takeWhile_tail takeWhile_append)
  qed simp
  show ?thesis using assms
    by (simp add: sshbuf_get_cstring_def get_string_direct_eq nul Let_def
        split: sum.split)
qed

lemma get_bignum2_eq:
  assumes inv: "sshbuf_inv b"
  shows "sshbuf_get_bignum2_bytes_direct b =
    (case sshbuf_peek_string_direct b of
       Inl r \<Rightarrow> (Inl r, b)
     | Inr d \<Rightarrow>
         if d \<noteq> [] \<and> (d ! 0) AND 0x80 \<noteq> 0 then (Inl SSH_ERR_BIGNUM_IS_NEGATIVE, b)
         else if length d > SSHBUF_MAX_BIGNUM + 1 \<or> (length d = SSHBUF_MAX_BIGNUM + 1 \<and> d ! 0 \<noteq> 0)
         then (Inl SSH_ERR_BIGNUM_TOO_LARGE, b)
         else (Inr (dropWhile (\<lambda>c. c = 0) d), advance b (length d + 4)))"
  using peek_string_length(1) [OF inv] inv
  by (auto simp: sshbuf_get_bignum2_bytes_direct_def consume_advance Let_def split: sum.split)

lemma dropWhile_minimal: "v = [] \<or> v ! 0 \<noteq> 0 \<Longrightarrow> dropWhile (\<lambda>c. c = 0) v = v"
  by (cases v) auto

lemma bignum2_body_minimal:
  assumes "v = [] \<or> v ! 0 \<noteq> 0"
  shows "bignum2_body v = (if v \<noteq> [] \<and> (v ! 0) AND 0x80 \<noteq> 0 then 0 # v else v)"
    and "dropWhile (\<lambda>c. c = 0) (bignum2_body v) = v"
  using dropWhile_minimal [OF assms] by (simp_all add: bignum2_body_def Let_def)

lemma get_field_eq:
  assumes inv: "sshbuf_inv b" and e: "alloc_total e" and ok: "field_ok f"
    and c: "contents b = field_enc f @ rest"
  shows "sshbuf_get_field e b (field_type f) = (Inr f, advance b (length (field_enc f)))"
proof (cases f)
  case (F_string v)
  with ok c have "sshbuf_peek_string_direct b = Inr v"
    by (intro peek_string_enc [OF inv]) auto
  with F_string inv e show ?thesis
    by (simp add: map_get_def get_string_eq get_string_direct_eq)
next
  case (F_cstring v)
  with ok c have "sshbuf_peek_string_direct b = Inr v"
    by (intro peek_string_enc [OF inv]) auto
  with F_cstring inv e ok show ?thesis
    by (auto simp: map_get_def get_cstring_eq dest: in_set_butlastD)
next
  case (F_bignum2 v)
  note m = bignum2_body_minimal [of v]
  from F_bignum2 ok have v: "length v \<le> SSHBUF_MAX_BIGNUM" "v = [] \<or> v ! 0 \<noteq> 0" by auto
  with F_bignum2 c m have "sshbuf_peek_string_direct b = Inr (bignum2_body v)"
    by (intro peek_string_enc [OF inv]) (auto simp: sshbuf_consts)
  with F_bignum2 inv v m show ?thesis
    by (auto simp: map_get_def get_bignum2_eq)
qed (use assms in \<open>simp_all add: map_get_def get_word_eq\<close>)

interpretation sshbuf_wire:
  wire_codec "\<lambda>b. sshbuf_inv b \<and> alloc_total e" contents sshbuf_room
    "sshbuf_put_field e" "sshbuf_get_field e" field_enc field_type field_ok for e
proof (unfold_locales, goal_cases)
  case (1 b f)
  then have room: "writable b" "length (contents b) + length (field_enc f) \<le> sb_max_size b"
    by (simp_all add: sshbuf_room_def)
  with 1 obtain b' where p: "sshbuf_put e b (field_enc f) = (None, b')"
    using put_total [of b "field_enc f" e] by auto
  note s = put_success [OF _ p]
  from 1 s show ?case
    by (auto simp: put_field_eq p sshbuf_room_def writable_def same_frame_def)
next
  case (2 b f rest)
  then show ?case
    by (auto simp: get_field_eq advance_keeps)
next
  case (3 b m n)
  then show ?case by (simp add: sshbuf_room_def)
qed

end
