(* ===== verification/Sshbuf_Spec.thy ===== *)
theory Sshbuf_Spec
  imports Sshbuf_Getput
begin

text \<open>
  What the buffer promises its clients: it is a bounded first-in first-out queue of bytes.  The
  abstract machine \<open>queue_step\<close> knows nothing of offsets, packing or allocation; the simulation
  proved here carries every sequence of operations over, including the error codes.
\<close>

section \<open>The abstract queue\<close>

datatype buf_op =
    B_put "byte list" | B_put_u32 "32 word" | B_put_string "byte list" | B_put_bignum2 "byte list"
  | B_get nat | B_get_u32 | B_get_string | B_get_bignum2
  | B_consume nat | B_consume_end nat | B_reset | B_len | B_avail

datatype buf_res = R_unit | R_bytes "byte list" | R_word "32 word" | R_nat nat

record queue =
  q_max :: nat
  q_bytes :: "byte list"

definition queue_put :: "byte list \<Rightarrow> queue \<Rightarrow> (ssh_err + buf_res) \<times> queue" where
  "queue_put v q =
     (if length (q_bytes q) + length v > q_max q then (Inl SSH_ERR_NO_BUFFER_SPACE, q)
      else (Inr R_unit, q\<lparr>q_bytes := q_bytes q @ v\<rparr>))"

definition queue_take :: "nat \<Rightarrow> (byte list \<Rightarrow> buf_res) \<Rightarrow> queue \<Rightarrow> (ssh_err + buf_res) \<times> queue" where
  "queue_take n f q =
     (if n > length (q_bytes q) then (Inl SSH_ERR_MESSAGE_INCOMPLETE, q)
      else (Inr (f (take n (q_bytes q))), q\<lparr>q_bytes := drop n (q_bytes q)\<rparr>))"

definition queue_string :: "queue \<Rightarrow> ssh_err + byte list" where
  "queue_string q =
     (if length (q_bytes q) < 4 then Inl SSH_ERR_MESSAGE_INCOMPLETE
      else let n = unat (peek_u32 (q_bytes q))
      in if n > SSHBUF_SIZE_MAX - 4 then Inl SSH_ERR_STRING_TOO_LARGE
         else if length (q_bytes q) < n + 4 then Inl SSH_ERR_MESSAGE_INCOMPLETE
         else Inr (take n (drop 4 (q_bytes q))))"

fun queue_step :: "buf_op \<Rightarrow> queue \<Rightarrow> (ssh_err + buf_res) \<times> queue" where
  "queue_step (B_put v) q = queue_put v q"
| "queue_step (B_put_u32 v) q = queue_put (poke_u32 v) q"
| "queue_step (B_put_string v) q =
     (if length v > SSHBUF_SIZE_MAX - 4 then (Inl SSH_ERR_NO_BUFFER_SPACE, q)
      else queue_put (string_enc v) q)"
| "queue_step (B_put_bignum2 v) q =
     (if length v > SSHBUF_SIZE_MAX - 5 then (Inl SSH_ERR_NO_BUFFER_SPACE, q)
      else queue_put (string_enc (bignum2_body v)) q)"
| "queue_step (B_get n) q = queue_take n R_bytes q"
| "queue_step B_get_u32 q = queue_take 4 (\<lambda>p. R_word (peek_u32 p)) q"
| "queue_step B_get_string q =
     (case queue_string q of
        Inl r \<Rightarrow> (Inl r, q)
      | Inr v \<Rightarrow> (Inr (R_bytes v), q\<lparr>q_bytes := drop (length v + 4) (q_bytes q)\<rparr>))"
| "queue_step B_get_bignum2 q =
     (case queue_string q of
        Inl r \<Rightarrow> (Inl r, q)
      | Inr d \<Rightarrow>
          if d \<noteq> [] \<and> (d ! 0) AND 0x80 \<noteq> 0 then (Inl SSH_ERR_BIGNUM_IS_NEGATIVE, q)
          else if length d > SSHBUF_MAX_BIGNUM + 1 \<or> (length d = SSHBUF_MAX_BIGNUM + 1 \<and> d ! 0 \<noteq> 0)
          then (Inl SSH_ERR_BIGNUM_TOO_LARGE, q)
          else (Inr (R_bytes (dropWhile (\<lambda>c. c = 0) d)),
                q\<lparr>q_bytes := drop (length d + 4) (q_bytes q)\<rparr>))"
| "queue_step (B_consume n) q = queue_take n (\<lambda>_. R_unit) q"
| "queue_step (B_consume_end n) q =
     (if n > length (q_bytes q) then (Inl SSH_ERR_MESSAGE_INCOMPLETE, q)
      else (Inr R_unit, q\<lparr>q_bytes := take (length (q_bytes q) - n) (q_bytes q)\<rparr>))"
| "queue_step B_reset q = (Inr R_unit, q\<lparr>q_bytes := []\<rparr>)"
| "queue_step B_len q = (Inr (R_nat (length (q_bytes q))), q)"
| "queue_step B_avail q = (Inr (R_nat (q_max q - length (q_bytes q))), q)"

section \<open>The concrete machine\<close>

definition of_rc :: "rc \<times> sshbuf \<Rightarrow> (ssh_err + buf_res) \<times> sshbuf" where
  "of_rc x = (case x of (Some r, b) \<Rightarrow> (Inl r, b) | (None, b) \<Rightarrow> (Inr R_unit, b))"

fun sshbuf_step :: "alloc_env \<Rightarrow> buf_op \<Rightarrow> sshbuf \<Rightarrow> (ssh_err + buf_res) \<times> sshbuf" where
  "sshbuf_step e (B_put v) b = of_rc (sshbuf_put e b v)"
| "sshbuf_step e (B_put_u32 v) b = of_rc (sshbuf_put_u32 e b v)"
| "sshbuf_step e (B_put_string v) b = of_rc (sshbuf_put_string e b v)"
| "sshbuf_step e (B_put_bignum2 v) b = of_rc (sshbuf_put_bignum2_bytes e b v)"
| "sshbuf_step e (B_get n) b = map_get R_bytes (sshbuf_get b n)"
| "sshbuf_step e B_get_u32 b = map_get R_word (sshbuf_get_u32 b)"
| "sshbuf_step e B_get_string b = map_get R_bytes (sshbuf_get_string e b)"
| "sshbuf_step e B_get_bignum2 b = map_get R_bytes (sshbuf_get_bignum2_bytes_direct b)"
| "sshbuf_step e (B_consume n) b = of_rc (sshbuf_consume b n)"
| "sshbuf_step e (B_consume_end n) b = of_rc (sshbuf_consume_end b n)"
| "sshbuf_step e B_reset b = (Inr R_unit, sshbuf_reset e b)"
| "sshbuf_step e B_len b = (Inr (R_nat (sshbuf_len b)), b)"
| "sshbuf_step e B_avail b = (Inr (R_nat (sshbuf_avail b)), b)"

definition sshbuf_queue :: "sshbuf \<Rightarrow> queue" where
  "sshbuf_queue b = \<lparr>q_max = sb_max_size b, q_bytes = contents b\<rparr>"

definition buf_ready :: "alloc_env \<Rightarrow> sshbuf \<Rightarrow> bool" where
  "buf_ready e b \<longleftrightarrow>
     alloc_total e \<and> sshbuf_inv b \<and> writable b \<and> SSHBUF_SIZE_INIT \<le> sb_max_size b"

lemma q_bytes_queue [simp]: "q_bytes (sshbuf_queue b) = contents b"
  by (simp add: sshbuf_queue_def)

text \<open>One lemma per shape of operation: a put, a get that advances, the rest.\<close>

lemma ready_frame:
  "buf_ready e b \<Longrightarrow> sshbuf_inv b' \<Longrightarrow> same_frame b b' \<Longrightarrow> buf_ready e b'"
  by (simp add: buf_ready_def same_frame_def writable_def)

lemma put_step:
  assumes "buf_ready e b"
  shows "buf_ready e (snd (of_rc (sshbuf_put e b v)))"
    "map_prod id sshbuf_queue (of_rc (sshbuf_put e b v)) = queue_put v (sshbuf_queue b)"
proof -
  from assms have inv: "sshbuf_inv b" "writable b" "alloc_total e" by (simp_all add: buf_ready_def)
  obtain x b' where p: "sshbuf_put e b v = (x, b')" by fastforce
  have "buf_ready e b' \<and>
    map_prod id sshbuf_queue (of_rc (x, b')) = queue_put v (sshbuf_queue b)"
  proof (cases x)
    case None
    note s = put_success [OF inv(1) p [unfolded None]]
    with None ready_frame [OF assms s(1,3)] show ?thesis
      by (simp add: of_rc_def sshbuf_queue_def queue_put_def same_frame_def)
  next
    case (Some y)
    note s = put_error [OF inv(1) p [unfolded Some]]
    have "length (contents b) + length v > sb_max_size b"
      using put_total [OF inv(1,2) _ inv(3), of v] p Some by (fastforce simp: not_less)
    with Some s(2-) inv ready_frame [OF assms s(1,3)] show ?thesis
      by (simp add: of_rc_def sshbuf_queue_def queue_put_def same_frame_def)
  qed
  then show "buf_ready e (snd (of_rc (sshbuf_put e b v)))"
    "map_prod id sshbuf_queue (of_rc (sshbuf_put e b v)) = queue_put v (sshbuf_queue b)"
    by (auto simp: p of_rc_def split: option.split)
qed

lemma advance_step:
  assumes "buf_ready e b" "n \<le> length (contents b)"
  shows "buf_ready e (advance b n)"
    "sshbuf_queue (advance b n) = (sshbuf_queue b)\<lparr>q_bytes := drop n (contents b)\<rparr>"
  using assms advance_keeps [of b n] ready_frame [OF assms(1), of "advance b n"]
  by (simp_all add: buf_ready_def sshbuf_queue_def same_frame_def)

lemma advance_string_step:
  assumes "buf_ready e b" "sshbuf_peek_string_direct b = Inr v"
  shows "buf_ready e (advance b (length v + 4))"
    "sshbuf_queue (advance b (length v + 4)) =
      (sshbuf_queue b)\<lparr>q_bytes := drop (length v + 4) (contents b)\<rparr>"
  using advance_step [OF assms(1)] peek_string_length(1) [OF _ assms(2)] assms(1)
  by (auto simp: buf_ready_def)

lemma queue_string_peek:
  "sshbuf_inv b \<Longrightarrow> queue_string (sshbuf_queue b) = sshbuf_peek_string_direct b"
  by (auto simp: queue_string_def peek_string_eq sshbuf_queue_def Let_def)

lemma reset_step:
  assumes "buf_ready e b"
  shows "buf_ready e (sshbuf_reset e b)"
    "sshbuf_queue (sshbuf_reset e b) = (sshbuf_queue b)\<lparr>q_bytes := []\<rparr>"
proof -
  from assms have i: "sshbuf_inv b" "writable b" "SSHBUF_SIZE_INIT \<le> sb_max_size b"
    by (simp_all add: buf_ready_def)
  have f: "same_frame b (sshbuf_reset e b)"
    by (auto simp: reset_writable [OF i(1,2)] sshbuf_realloc_def wiped_def same_frame_def Let_def
        split: option.split)
  from ready_frame [OF assms reset_inv [OF i(1,3)] f] show "buf_ready e (sshbuf_reset e b)" .
  from f show "sshbuf_queue (sshbuf_reset e b) = (sshbuf_queue b)\<lparr>q_bytes := []\<rparr>"
    by (simp add: sshbuf_queue_def reset_contents [OF i(1)] same_frame_def)
qed

lemma of_rc_simps [simp]: "of_rc (None, b) = (Inr R_unit, b)" "of_rc (Some r, b) = (Inl r, b)"
  by (simp_all add: of_rc_def)

lemmas step_simps =
  put_step put_u32_eq put_string_eq put_bignum2_eq map_get_def get_eq get_word_eq get_string_eq
  get_string_direct_eq get_bignum2_eq consume_advance reset_step advance_step queue_string_peek advance_string_step
  queue_take_def sshbuf_len_contents

interpretation sshbuf_fifo:
  simulation "buf_ready e" sshbuf_queue "sshbuf_step e" queue_step for e
proof (unfold_locales, goal_cases)
  case (1 b x)
  then have "sshbuf_inv b" "alloc_total e" by (simp_all add: buf_ready_def)
  with 1 show ?case
  proof (cases x)
    case (B_consume_end n)
    obtain r b' where c: "sshbuf_consume_end b n = (r, b')" by fastforce
    with 1 B_consume_end consume_end_success [of b n b'] ready_frame [of e b b'] show ?thesis
      by (cases r) (auto simp: of_rc_def buf_ready_def consume_end_eq split: if_splits)
  qed (auto simp: step_simps split: sum.split dest: peek_string_length(1))
next
  case (2 b x)
  then have i: "sshbuf_inv b" "alloc_total e" "writable b" by (simp_all add: buf_ready_def)
  with 2 show ?case
  proof (cases x)
    case (B_consume_end n)
    obtain r b' where c: "sshbuf_consume_end b n = (r, b')" by fastforce
    show ?thesis
    proof (cases r)
      case None
      note s = consume_end_success [OF i(1) c [unfolded None]]
      with None c B_consume_end show ?thesis
        by (simp add: of_rc_def sshbuf_queue_def same_frame_def)
    next
      case (Some y)
      with c B_consume_end i show ?thesis
        by (auto simp: of_rc_def consume_end_eq sshbuf_queue_def split: if_splits)
    qed
  next
    case B_avail
    with i show ?thesis
      by (simp add: sshbuf_avail_def sshbuf_queue_def writable_def length_contents)
  qed (auto simp: step_simps split: sum.split dest: peek_string_length(1))
qed

section \<open>Properties\<close>

definition all_alloc :: alloc_env where
  "all_alloc = \<lparr>ae_struct = True, ae_block = (\<lambda>_. 1), ae_junk = (\<lambda>_. 0xaa)\<rparr>"

lemma all_alloc_total [simp]: "alloc_total all_alloc"
  by (simp add: alloc_total_def all_alloc_def)

lemma ready_new:
  "alloc_total e \<Longrightarrow> sshbuf_new e = Some b \<Longrightarrow>
   buf_ready e b \<and> sshbuf_queue b = \<lparr>q_max = SSHBUF_SIZE_MAX, q_bytes = []\<rparr>"
  using sshbuf_new_inv [of e b] by (simp add: buf_ready_def sshbuf_queue_def sshbuf_consts)

text \<open>C10: every sequence of buffer operations on a freshly allocated buffer returns, call by call,
  what a bounded first-in first-out queue of at most \<open>SSHBUF_SIZE_MAX\<close> bytes returns, error codes
  included, leaves the bytes that the queue holds, and never trips the sanity check.\<close>

theorem sshbuf_is_queue:
  assumes "alloc_total e" "sshbuf_new e = Some b"
  shows "case (run_ops (sshbuf_step e) b ops,
           run_ops queue_step \<lparr>q_max = SSHBUF_SIZE_MAX, q_bytes = []\<rparr> ops) of
      ((rs, b'), (rs', q)) \<Rightarrow>
        rs = rs' \<and> contents b' = q_bytes q \<and> sshbuf_check_sanity (Some b') = None"
proof -
  note new = ready_new [OF assms]
  note sim = sshbuf_fifo.run_abst [of e b ops] sshbuf_fifo.run_inv [of e b ops]
  obtain rs b' where r: "run_ops (sshbuf_step e) b ops = (rs, b')" by fastforce
  from sim(1) new r
  have eq: "run_ops queue_step \<lparr>q_max = SSHBUF_SIZE_MAX, q_bytes = []\<rparr> ops = (rs, sshbuf_queue b')"
    by simp
  from sim(2) new r have "buf_ready e b'" by simp
  then show ?thesis
    by (simp only: eq r) (simp add: buf_ready_def)
qed

theorem sshbuf_is_queue_witness:
  "\<exists>b b'. sshbuf_new all_alloc = Some b \<and>
     run_ops (sshbuf_step all_alloc) b
       [B_put_string [1, 2, 3], B_get_u32, B_get 5, B_get 2, B_get_string] =
     ([Inr R_unit, Inr (R_word 3), Inl SSH_ERR_MESSAGE_INCOMPLETE, Inr (R_bytes [1, 2]),
      Inl SSH_ERR_MESSAGE_INCOMPLETE], b') \<and> contents b' = [3]"
proof -
  let ?ops = "[B_put_string [1, 2, 3], B_get_u32, B_get 5, B_get 2, B_get_string]"
  obtain b where b: "sshbuf_new all_alloc = Some b"
    using sshbuf_new_total [OF all_alloc_total] by blast
  have "run_ops queue_step \<lparr>q_max = SSHBUF_SIZE_MAX, q_bytes = []\<rparr> ?ops =
    ([Inr R_unit, Inr (R_word 3), Inl SSH_ERR_MESSAGE_INCOMPLETE, Inr (R_bytes [1, 2]),
      Inl SSH_ERR_MESSAGE_INCOMPLETE], \<lparr>q_max = SSHBUF_SIZE_MAX, q_bytes = [3]\<rparr>)"
    by (simp add: queue_put_def queue_take_def queue_string_def string_enc_def sshbuf_consts
        poke_u32_def peek_u32_def)
  with sshbuf_is_queue [OF all_alloc_total b, of ?ops] b show ?thesis
    by (cases "run_ops (sshbuf_step all_alloc) b ?ops") (simp del: run_ops.simps)
qed

text \<open>C11: a message of typed fields written into an empty buffer with room for it is read back field
  by field, and the buffer is empty again: every put succeeds and every get undoes its put.\<close>

theorem sshbuf_message_roundtrip:
  assumes "alloc_total e" "sshbuf_inv b" "contents b = []" "writable b"
    and "\<forall>f \<in> set fs. field_ok f" "length (concat (map field_enc fs)) \<le> sb_max_size b"
  shows "\<exists>b' b''. put_all (sshbuf_put_field e) b fs = (None, b') \<and>
    get_all (sshbuf_get_field e) b' (map field_type fs) = (Inr fs, b'') \<and>
    sshbuf_inv b'' \<and> contents b'' = []"
  using sshbuf_wire.message_roundtrip [of b e fs] assms by (auto simp: sshbuf_room_def)

theorem sshbuf_message_roundtrip_witness:
  "\<exists>b b' b''. sshbuf_new all_alloc = Some b \<and>
    put_all (sshbuf_put_field all_alloc) b [F_u8 20, F_cstring [0x61], F_bignum2 [0x80, 0]] = (None, b') \<and>
    get_all (sshbuf_get_field all_alloc) b' [T_u8, T_cstring, T_bignum2] =
      (Inr [F_u8 20, F_cstring [0x61], F_bignum2 [0x80, 0]], b'')"
proof -
  obtain b where b: "sshbuf_new all_alloc = Some b"
    using sshbuf_new_total [OF all_alloc_total] by blast
  have "length (concat (map field_enc [F_u8 20, F_cstring [0x61], F_bignum2 [0x80, 0]]))
      \<le> sb_max_size b"
    using sshbuf_new_inv(4) [OF b] by (simp add: bignum2_body_def sshbuf_consts)
  from sshbuf_message_roundtrip [OF all_alloc_total sshbuf_new_inv(1-3) [OF b] _ this] b show ?thesis
    by (auto simp: sshbuf_consts)
qed

text \<open>\<open>sshbuf_put\<close> on a sane buffer either appends exactly the given bytes or reports read-only,
  no space or allocation failure, in that order of precedence, and then changes neither the contents
  nor the limits; in both cases the buffer stays sane.\<close>

lemma sshbuf_put_spec:
  assumes "sshbuf_inv b"
  shows "case sshbuf_put e b v of (r, b') \<Rightarrow>
    sshbuf_inv b' \<and> same_frame b b' \<and>
    contents b' = (if r = None then contents b @ v else contents b) \<and>
    (r = None \<longrightarrow> writable b \<and> length (contents b) + length v \<le> sb_max_size b) \<and>
    (r = Some SSH_ERR_BUFFER_READ_ONLY \<longleftrightarrow> \<not> writable b) \<and>
    (r = Some SSH_ERR_NO_BUFFER_SPACE \<longleftrightarrow>
       writable b \<and> length (contents b) + length v > sb_max_size b) \<and>
    r \<in> {None, Some SSH_ERR_BUFFER_READ_ONLY, Some SSH_ERR_NO_BUFFER_SPACE, Some SSH_ERR_ALLOC_FAIL}"
proof -
  obtain r b' where p: "sshbuf_put e b v = (r, b')" by fastforce
  show ?thesis
  proof (cases r)
    case None
    with put_success [OF assms p [unfolded None]] show ?thesis by (simp add: p)
  next
    case (Some x)
    with put_error [OF assms p [unfolded Some]] show ?thesis by (simp add: p)
  qed
qed

text \<open>\<open>sshbuf_get_string_direct\<close> returns \<open>v\<close> and leaves \<open>rest\<close> exactly when the buffer holds the
  encoding of \<open>v\<close> followed by \<open>rest\<close>: it accepts nothing but an encoding and misses none.\<close>

lemma get_string_direct_exact:
  assumes "sshbuf_inv b"
  shows "(\<exists>b'. sshbuf_get_string_direct b = (Inr v, b') \<and> contents b' = rest) \<longleftrightarrow>
    contents b = string_enc v @ rest \<and> length v \<le> SSHBUF_SIZE_MAX - 4"
proof
  assume "\<exists>b'. sshbuf_get_string_direct b = (Inr v, b') \<and> contents b' = rest"
  then have p: "sshbuf_peek_string_direct b = Inr v" and r: "contents (advance b (length v + 4)) = rest"
    using assms by (auto simp: get_string_direct_eq split: sum.splits)
  note l = peek_string_length [OF assms p]
  with advance_keeps(2) [OF assms l(1)] r peek_string_inv [OF assms p]
  show "contents b = string_enc v @ rest \<and> length v \<le> SSHBUF_SIZE_MAX - 4" by simp
next
  assume c: "contents b = string_enc v @ rest \<and> length v \<le> SSHBUF_SIZE_MAX - 4"
  with peek_string_enc [OF assms] have "sshbuf_peek_string_direct b = Inr v" by blast
  with c advance_keeps(2) [OF assms, of "length v + 4"]
  show "\<exists>b'. sshbuf_get_string_direct b = (Inr v, b') \<and> contents b' = rest"
    by (simp add: get_string_direct_eq [OF assms])
qed

text \<open>Changing the limit of a sane buffer keeps it sane and keeps its contents, whether it succeeds
  or not; the limit becomes the requested one exactly on success, and a limit below the contents or
  above the global maximum is refused.\<close>

lemma set_max_size_spec:
  assumes "sshbuf_inv b"
  shows "case sshbuf_set_max_size e b m of (r, b') \<Rightarrow>
    sshbuf_inv b' \<and> contents b' = contents b \<and>
    sb_max_size b' = (if r = None then m else sb_max_size b) \<and>
    (m < length (contents b) \<or> m > SSHBUF_SIZE_MAX \<longrightarrow> r \<noteq> None)"
proof -
  obtain r b' where s: "sshbuf_set_max_size e b m = (r, b')" by fastforce
  note k = set_max_size_keeps [OF assms s]
  have "r \<noteq> None" if "m < length (contents b) \<or> m > SSHBUF_SIZE_MAX"
  proof
    assume "r = None"
    with k contents_le_max [of b'] have "length (contents b) \<le> m" "sb_max_size b' = m" by simp_all
    with that k(1) show False by (auto simp: sshbuf_inv_iff)
  qed
  with k show ?thesis by (simp add: s)
qed

text \<open>\<open>sshbuf_reset\<close> empties a sane buffer; a buffer that is writable keeps no byte of its old
  contents in memory (every byte of the block is zero or fresh from \<open>realloc\<close>), and the buffer is
  sane afterwards exactly if its limit is at least \<open>SSHBUF_SIZE_INIT\<close>, was not resized, or the
  reallocation failed.\<close>

lemma sshbuf_reset_spec:
  assumes "sshbuf_inv b" "writable b"
  shows "contents (sshbuf_reset e b) = [] \<and>
    sb_mem (sshbuf_reset e b) =
      (if sb_alloc b \<noteq> SSHBUF_SIZE_INIT \<and> ae_block e SSHBUF_SIZE_INIT \<noteq> 0
       then realloc_bytes e (replicate (sb_alloc b) 0) SSHBUF_SIZE_INIT
       else replicate (sb_alloc b) 0) \<and>
    (sshbuf_check_sanity (Some (sshbuf_reset e b)) = None \<longleftrightarrow>
       SSHBUF_SIZE_INIT \<le> sb_max_size b \<or> ae_block e SSHBUF_SIZE_INIT = 0)"
proof -
  have "\<not> SSHBUF_SIZE_INIT \<le> sb_max_size b \<Longrightarrow> sb_alloc b \<noteq> SSHBUF_SIZE_INIT"
    using assms by (auto simp: sshbuf_inv_iff)
  moreover have "sb_alloc b = SSHBUF_SIZE_INIT \<Longrightarrow> SSHBUF_SIZE_INIT \<le> sb_max_size b"
    using assms by (auto simp: sshbuf_inv_iff)
  moreover have "sshbuf_check_sanity (Some b') = None \<longleftrightarrow> sb_alloc b' \<le> sb_max_size b"
    if "sb_cd b' \<noteq> 0" "sb_d b' = sb_cd b'" "sb_readonly b' = sb_readonly b" "sb_refcount b' = sb_refcount b"
      "sb_dont_free b' = sb_dont_free b" "sb_parent b' = sb_parent b" "sb_max_size b' = sb_max_size b"
      "sb_size b' = 0" "sb_off b' = 0" for b'
    using that assms by (auto simp: sshbuf_check_sanity.simps(2) sshbuf_inv_iff writable_def)
  ultimately show ?thesis
    using assms by (auto simp: reset_contents reset_writable sshbuf_realloc_def wiped_def Let_def
        sshbuf_inv_iff writable_def contents_def)
qed

text \<open>A buffer whose limit was lowered below \<open>SSHBUF_SIZE_INIT\<close> fails its next sanity check once it
  has been reset: \<open>sshbuf_reset\<close> reallocates to \<open>SSHBUF_SIZE_INIT\<close> without regard for the limit.\<close>

lemma sshbuf_reset_breaks_small_limit:
  "\<exists>b b'. sshbuf_new all_alloc = Some b \<and> sshbuf_set_max_size all_alloc b 64 = (None, b') \<and>
    sshbuf_inv b' \<and>
    sshbuf_check_sanity (Some (sshbuf_reset all_alloc b')) = Some SSH_ERR_INTERNAL_ERROR"
proof -
  let ?b = "\<lparr>sb_d = 1, sb_cd = 1, sb_mem = replicate 256 0, sb_off = 0, sb_size = 0,
    sb_max_size = SSHBUF_SIZE_MAX, sb_alloc = 256, sb_readonly = False, sb_dont_free = False,
    sb_refcount = 1, sb_parent = None\<rparr>"
  let ?b' = "?b\<lparr>sb_mem := replicate 64 0, sb_alloc := 64, sb_max_size := 64\<rparr>"
  have "sshbuf_new all_alloc = Some ?b"
    by (simp add: sshbuf_new_def all_alloc_def SSHBUF_SIZE_INIT_def)
  moreover have "sshbuf_set_max_size all_alloc ?b 64 = (None, ?b')"
    by (simp add: sshbuf_set_max_size_def sshbuf_check_sanity.simps(2) sshbuf_consts
        sshbuf_maybe_pack_def sshbuf_shrink_def sshbuf_realloc_def realloc_bytes_def all_alloc_def
        take_replicate)
  moreover have "sshbuf_inv ?b'" by (simp add: sshbuf_inv_iff sshbuf_consts)
  moreover have "sshbuf_check_sanity (Some (sshbuf_reset all_alloc ?b')) = Some SSH_ERR_INTERNAL_ERROR"
    by (simp add: sshbuf_reset_def sshbuf_check_sanity.simps(2) sshbuf_consts
        sshbuf_realloc_def all_alloc_def)
  ultimately show ?thesis by blast
qed

end
