(* ===== verification/Sshbuf_Heap.thy ===== *)
theory Sshbuf_Heap
  imports Sshbuf_Spec
begin

text \<open>
  Buffers that share memory: \<open>sshbuf_set_parent\<close>, \<open>sshbuf_fromb\<close>, \<open>sshbuf_froms\<close> and
  \<open>sshbuf_free\<close>.  A child made by \<open>sshbuf_fromb\<close> or \<open>sshbuf_froms\<close> reads the parent's block
  and keeps it alive through the parent's reference count.  The heap below maps the identity of every
  allocated \<^verbatim>\<open>struct sshbuf\<close> to its value and records which data blocks are allocated.

  The theory proves that no buffer ever refers to a released block and that nothing leaks, as long as
  children are made of buffers that are not children themselves, and shows that \<open>sshbuf_free\<close>
  releases a block too early when a child of a child exists.
\<close>

section \<open>Heap and operations\<close>

record sheap =
  sh_buf :: "nat \<Rightarrow> sshbuf option"
  sh_live :: "nat \<Rightarrow> bool"

definition heap_set :: "nat \<Rightarrow> sshbuf \<Rightarrow> sheap \<Rightarrow> sheap" where
  "heap_set i b h = h\<lparr>sh_buf := (sh_buf h)(i := Some b)\<rparr>"

definition heap_block :: "nat \<Rightarrow> bool \<Rightarrow> sheap \<Rightarrow> sheap" where
  "heap_block k v h = h\<lparr>sh_live := (sh_live h)(k := v)\<rparr>"

text \<open>\<open>explicit_bzero(buf, sizeof(*buf))\<close>\<close>

definition zero_sshbuf :: sshbuf where
  "zero_sshbuf = \<lparr>sb_d = 0, sb_cd = 0, sb_mem = [], sb_off = 0, sb_size = 0, sb_max_size = 0,
     sb_alloc = 0, sb_readonly = False, sb_dont_free = False, sb_refcount = 0, sb_parent = None\<rparr>"

text \<open>\<open>sshbuf_new\<close>, \<open>sshbuf_from\<close> and \<open>sshbuf_put\<close> on the heap; \<open>i\<close> is the address that \<open>calloc\<close>
  returns for the structure.\<close>

definition heap_new :: "alloc_env \<Rightarrow> nat \<Rightarrow> sheap \<Rightarrow> sheap option" where
  "heap_new e i h =
     (case sshbuf_new e of None \<Rightarrow> None | Some b \<Rightarrow> Some (heap_block (sb_d b) True (heap_set i b h)))"

definition heap_put :: "alloc_env \<Rightarrow> nat \<Rightarrow> byte list \<Rightarrow> sheap \<Rightarrow> rc \<times> sheap" where
  "heap_put e i v h =
     (case sh_buf h i of
        None \<Rightarrow> (Some SSH_ERR_INTERNAL_ERROR, h)
      | Some b \<Rightarrow>
          (case sshbuf_put e b v of
             (r, b') \<Rightarrow>
               (r, heap_set i b'
                     (if sb_d b' = sb_d b then h
                      else heap_block (sb_d b') True (heap_block (sb_d b) False h)))))"

definition sshbuf_set_parent :: "nat \<Rightarrow> nat \<Rightarrow> sheap \<Rightarrow> rc \<times> sheap" where
  "sshbuf_set_parent child parent h =
     (case sshbuf_check_sanity (sh_buf h child) of Some r \<Rightarrow> (Some r, h) | None \<Rightarrow>
      case sshbuf_check_sanity (sh_buf h parent) of Some r \<Rightarrow> (Some r, h) | None \<Rightarrow>
      let h = heap_set child ((the (sh_buf h child))\<lparr>sb_parent := Some parent\<rparr>) h;
          p = the (sh_buf h parent)
      in (None, heap_set parent (p\<lparr>sb_refcount := sb_refcount p + 1\<rparr>) h))"

text \<open>\<^term>\<open>None\<close> is undefined behaviour (a released structure is read) or a cycle of parents.\<close>

partial_function (option) sshbuf_free :: "nat option \<Rightarrow> sheap \<Rightarrow> sheap option" where
  [code]: "sshbuf_free p h =
     (case p of None \<Rightarrow> Some h | Some i \<Rightarrow>
      (case sh_buf h i of None \<Rightarrow> None | Some b \<Rightarrow>
         if sshbuf_check_sanity (Some b) \<noteq> None then Some h
         else Option.bind (sshbuf_free (sb_parent b) h) (\<lambda>h.
           case sh_buf h i of None \<Rightarrow> None | Some b \<Rightarrow>
             let b = b\<lparr>sb_parent := None, sb_refcount := sb_refcount b - 1\<rparr>
             in if sb_refcount b > 0 then Some (heap_set i b h)
                else
                  let h = (if \<not> sb_readonly b then heap_block (sb_d b) False h else h)
                  in if sb_dont_free b then Some (heap_set i zero_sshbuf h)
                     else Some (h\<lparr>sh_buf := (sh_buf h)(i := None)\<rparr>))))"

definition sshbuf_fromb :: "alloc_env \<Rightarrow> nat \<Rightarrow> nat \<Rightarrow> sheap \<Rightarrow> (bool \<times> sheap) option" where
  "sshbuf_fromb e i buf h =
     (case sh_buf h buf of None \<Rightarrow> Some (False, h) | Some b \<Rightarrow>
      if sshbuf_check_sanity (Some b) \<noteq> None then Some (False, h)
      else
        (case sshbuf_from e (fst (the (sshbuf_ptr b))) (take (sshbuf_len b) (ptr_bytes b)) of
           None \<Rightarrow> Some (False, h)
         | Some ret \<Rightarrow>
             (case sshbuf_set_parent i buf (heap_set i ret h) of
                (Some _, h) \<Rightarrow> map_option (Pair False) (sshbuf_free (Some i) h)
              | (None, h) \<Rightarrow> Some (True, h))))"

definition sshbuf_froms :: "alloc_env \<Rightarrow> nat \<Rightarrow> nat \<Rightarrow> sheap \<Rightarrow> (rc \<times> sheap) option" where
  "sshbuf_froms e i buf h =
     (case sh_buf h buf of None \<Rightarrow> Some (Some SSH_ERR_INVALID_ARGUMENT, h) | Some b \<Rightarrow>
      (case sshbuf_peek_string_direct b of Inl r \<Rightarrow> Some (Some r, h) | Inr p \<Rightarrow>
        (case sshbuf_from e (sb_cd b) p of
           None \<Rightarrow> Some (Some SSH_ERR_ALLOC_FAIL, h)
         | Some ret \<Rightarrow>
             let h = heap_set i ret h
             in (case sshbuf_consume b (length p + 4) of
                   (Some r, b) \<Rightarrow> map_option (Pair (Some r)) (sshbuf_free (Some i) (heap_set buf b h))
                 | (None, b) \<Rightarrow>
                     (case sshbuf_set_parent i buf (heap_set buf b h) of
                        (Some r, h) \<Rightarrow> map_option (Pair (Some r)) (sshbuf_free (Some i) h)
                      | (None, h) \<Rightarrow> Some (None, h))))))"

section \<open>Invariant\<close>

definition kids :: "sheap \<Rightarrow> nat \<Rightarrow> nat set" where
  "kids h i = {j. \<exists>c. sh_buf h j = Some c \<and> sb_parent c = Some i}"

definition root_ok :: "sheap \<Rightarrow> sshbuf \<Rightarrow> bool" where
  "root_ok h b \<longleftrightarrow> \<not> sb_readonly b \<and> sh_live h (sb_cd b)"

text \<open>A child is a window of its parent's block, and the parent is a root.\<close>

definition child_ok :: "sheap \<Rightarrow> sshbuf \<Rightarrow> nat \<Rightarrow> bool" where
  "child_ok h c p \<longleftrightarrow> sb_readonly c \<and>
     (\<exists>b k. sh_buf h p = Some b \<and> sb_parent b = None \<and> sb_cd c = sb_cd b \<and>
            sb_mem c = take (sb_alloc c) (drop k (sb_mem b)))"

text \<open>\<open>x\<close> counts references that are about to be dropped; it is zero between operations.\<close>

definition node_ok :: "sheap \<Rightarrow> nat set \<Rightarrow> (nat \<Rightarrow> nat) \<Rightarrow> nat \<Rightarrow> sshbuf \<Rightarrow> bool" where
  "node_ok h H x i b \<longleftrightarrow>
     sshbuf_inv b \<and> \<not> sb_dont_free b \<and>
     sb_refcount b = (if i \<in> H then 1 else 0) + card (kids h i) + x i \<and>
     (case sb_parent b of None \<Rightarrow> root_ok h b | Some p \<Rightarrow> child_ok h b p \<and> i \<in> H)"

definition roots_distinct :: "sheap \<Rightarrow> bool" where
  "roots_distinct h \<longleftrightarrow>
     (\<forall>i j b c. sh_buf h i = Some b \<longrightarrow> sh_buf h j = Some c \<longrightarrow> sb_parent b = None \<longrightarrow>
        sb_parent c = None \<longrightarrow> sb_cd b = sb_cd c \<longrightarrow> i = j)"

definition no_leak :: "sheap \<Rightarrow> bool" where
  "no_leak h \<longleftrightarrow>
     (\<forall>k. sh_live h k \<longrightarrow> (\<exists>i b. sh_buf h i = Some b \<and> sb_parent b = None \<and> sb_cd b = k))"

definition heap_inv :: "sheap \<Rightarrow> nat set \<Rightarrow> (nat \<Rightarrow> nat) \<Rightarrow> bool" where
  "heap_inv h H x \<longleftrightarrow>
     finite (dom (sh_buf h)) \<and> H \<subseteq> dom (sh_buf h) \<and>
     (\<forall>i b. sh_buf h i = Some b \<longrightarrow> node_ok h H x i b) \<and> roots_distinct h \<and> no_leak h"

lemma heap_set_simps [simp]:
  "sh_buf (heap_set i b h) = (sh_buf h)(i := Some b)" "sh_live (heap_set i b h) = sh_live h"
  "sh_buf (heap_block k v h) = sh_buf h" "sh_live (heap_block k v h) = (sh_live h)(k := v)"
  by (simp_all add: heap_set_def heap_block_def)

lemma kids_finite: "finite (dom (sh_buf h)) \<Longrightarrow> finite (kids h i)"
  by (rule finite_subset [of _ "dom (sh_buf h)"]) (auto simp: kids_def)

lemma heap_inv_node: "heap_inv h H x \<Longrightarrow> sh_buf h i = Some b \<Longrightarrow> node_ok h H x i b"
  by (simp add: heap_inv_def)

lemma heap_inv_child:
  assumes "heap_inv h H x" "sh_buf h i = Some c" "sb_parent c = Some p"
  shows "child_ok h c p" "i \<in> H" "i \<noteq> p"
    using heap_inv_node [OF assms(1,2)] assms(2,3) by (auto simp: node_ok_def child_ok_def)

text \<open>Only roots have children.\<close>

lemma kids_empty:
  assumes "heap_inv h H x" "\<And>b. sh_buf h i = Some b \<Longrightarrow> sb_parent b \<noteq> None"
  shows "kids h i = {}"
  using assms heap_inv_child(1) [OF assms(1)] by (fastforce simp: kids_def child_ok_def)

section \<open>Dropping a reference\<close>

definition drop_ref :: "nat \<Rightarrow> sheap \<Rightarrow> sheap" where
  "drop_ref i h =
     (case sh_buf h i of None \<Rightarrow> h | Some b \<Rightarrow>
        if sb_refcount b > 1
        then heap_set i (b\<lparr>sb_parent := None, sb_refcount := sb_refcount b - 1\<rparr>) h
        else (if sb_readonly b then h else heap_block (sb_d b) False h)
               \<lparr>sh_buf := (sh_buf h)(i := None)\<rparr>)"

lemma free_root:
  assumes "sh_buf h i = Some b" "sshbuf_inv b" "sb_parent b = None" "\<not> sb_dont_free b"
  shows "sshbuf_free (Some i) h = Some (drop_ref i h)"
  using assms by (subst sshbuf_free.simps)
    (auto simp: sshbuf_free.simps [of None] drop_ref_def Let_def sshbuf_inv_iff)

lemma free_child:
  assumes "sh_buf h i = Some c" "sshbuf_inv c" "sb_parent c = Some p" "\<not> sb_dont_free c"
    and "sh_buf h p = Some b" "sshbuf_inv b" "sb_parent b = None" "\<not> sb_dont_free b" "i \<noteq> p"
  shows "sshbuf_free (Some i) h = Some (drop_ref i (drop_ref p h))"
proof -
  have "sh_buf (drop_ref p h) i = Some c" using assms by (auto simp: drop_ref_def)
  then show ?thesis
    using assms free_root [OF assms(5-8)]
    by (subst sshbuf_free.simps) (auto simp: drop_ref_def [of i] Let_def sshbuf_inv_iff)
qed

lemma kids_drop:
  assumes "sh_buf h p = Some b" "sb_parent b = None"
  shows "kids (drop_ref p h) = kids h"
  using assms by (fastforce simp: kids_def drop_ref_def split: if_splits)

text \<open>Changing the reference count or the read position of a root.\<close>

lemma set_root_inv:
  assumes inv: "heap_inv h H x" and p: "sh_buf h p = Some b" "sb_parent b = None"
    and b': "sshbuf_inv b'" "\<not> sb_dont_free b'" "sb_parent b' = None" "sb_cd b' = sb_cd b"
      "sb_readonly b' = sb_readonly b" "sb_mem b' = sb_mem b"
    and n: "sb_refcount b' = (if p \<in> H then 1 else 0) + card (kids h p) + n"
  shows "heap_inv (heap_set p b' h) H (x(p := n))"
proof -
  have k: "kids (heap_set p b' h) = kids h"
    using p b'(3) by (fastforce simp: kids_def split: if_splits)
  have "node_ok (heap_set p b' h) H (x(p := n)) j c" if j: "sh_buf (heap_set p b' h) j = Some c" for j c
  proof (cases "j = p")
    case True
    with j have c: "c = b'" by simp
    from heap_inv_node [OF inv p(1)] p(2) b' n show ?thesis
      by (auto simp: c True node_ok_def k root_ok_def)
  next
    case False
    with j have "sh_buf h j = Some c" by simp
    from heap_inv_node [OF inv this] p False b' show ?thesis
      by (fastforce simp: node_ok_def k root_ok_def child_ok_def split: option.splits)
  qed
  moreover have "roots_distinct (heap_set p b' h)"
    using inv p b' by (auto simp: heap_inv_def roots_distinct_def)
  moreover have "no_leak (heap_set p b' h)"
    using inv p b'(3,4) unfolding heap_inv_def no_leak_def heap_set_simps
    by (metis fun_upd_apply option.inject)
  ultimately show ?thesis using inv by (auto simp: heap_inv_def)
qed

lemma drop_ref_inv:
  assumes inv: "heap_inv h H ((\<lambda>_. 0)(p := 1))" and p: "sh_buf h p = Some b" "sb_parent b = None"
  shows "heap_inv (drop_ref p h) H (\<lambda>_. 0)"
proof (cases "sb_refcount b > 1")
  case True
  let ?b = "b\<lparr>sb_parent := None, sb_refcount := sb_refcount b - 1\<rparr>"
  note np = heap_inv_node [OF inv p(1)]
  have i: "sshbuf_inv ?b" "\<not> sb_dont_free ?b"
    using np True by (auto simp: node_ok_def sshbuf_inv_iff)
  have n: "sb_refcount ?b = (if p \<in> H then 1 else 0) + card (kids h p) + 0"
    using np by (simp add: node_ok_def)
  have z: "((\<lambda>_. 0)(p := 1))(p := 0) = (\<lambda>_. 0 :: nat)" by auto
  from set_root_inv [OF inv p i _ _ _ _ n, unfolded z] True p show ?thesis
    by (simp add: drop_ref_def)
next
  case False
  let ?h = "(heap_block (sb_cd b) False h)\<lparr>sh_buf := (sh_buf h)(p := None)\<rparr>"
  note np = heap_inv_node [OF inv p(1)]
  from np p(2) have b: "\<not> sb_readonly b" "sb_d b = sb_cd b"
    by (auto simp: node_ok_def root_ok_def sshbuf_inv_iff)
  with False p have d: "drop_ref p h = ?h" by (simp add: drop_ref_def)
  have k: "kids ?h = kids h" using kids_drop [OF p] d by simp
  from np False have "p \<notin> H" "kids h p = {}" 
    using inv by (auto simp: node_ok_def heap_inv_def kids_finite split: if_splits)
  have "node_ok ?h H (\<lambda>_. 0) j c" if j: "sh_buf ?h j = Some c" for j c
  proof -
    from j have jp: "j \<noteq> p" "sh_buf h j = Some c" by (auto split: if_splits)
    note n = heap_inv_node [OF inv jp(2)]
    show ?thesis
    proof (cases "sb_parent c")
      case None
      with inv jp p have "sb_cd c \<noteq> sb_cd b"
        unfolding heap_inv_def roots_distinct_def by blast
      with n jp None b show ?thesis by (auto simp: node_ok_def k root_ok_def)
    next
      case (Some q)
      with jp \<open>kids h p = {}\<close> have "q \<noteq> p" by (auto simp: kids_def)
      with n jp Some show ?thesis by (auto simp: node_ok_def k child_ok_def)
    qed
  qed
  moreover have "roots_distinct ?h" using inv by (auto simp: heap_inv_def roots_distinct_def)
  moreover have "no_leak ?h"
    using inv p unfolding heap_inv_def no_leak_def by (auto 0 3) (metis option.inject)
  ultimately show ?thesis using inv \<open>p \<notin> H\<close> by (auto simp: heap_inv_def d)
qed

lemma remove_child_inv:
  assumes inv: "heap_inv h H (\<lambda>_. 0)" and i: "sh_buf h i = Some c" "sb_parent c = Some p"
  shows "heap_inv (h\<lparr>sh_buf := (sh_buf h)(i := None)\<rparr>) (H - {i}) ((\<lambda>_. 0)(p := 1))"
proof -
  let ?h = "h\<lparr>sh_buf := (sh_buf h)(i := None)\<rparr>"
  note ci = heap_inv_child [OF inv i]
  have "kids h i = {}" using kids_empty [OF inv, of i] i by simp
  have k: "kids ?h q = kids h q - {i}" for q by (auto simp: kids_def)
  have kp: "i \<in> kids h p" "\<And>q. q \<noteq> p \<Longrightarrow> i \<notin> kids h q" using i by (auto simp: kids_def)
  have fin: "finite (kids h q)" for q using inv by (simp add: heap_inv_def kids_finite)
  have "node_ok ?h (H - {i}) ((\<lambda>_. 0)(p := 1)) j b" if j: "sh_buf ?h j = Some b" for j b
  proof -
    from j have ji: "j \<noteq> i" "sh_buf h j = Some b" by (auto split: if_splits)
    have cnt: "card (kids ?h j) + ((\<lambda>_. 0)(p := 1)) j = card (kids h j)"
    proof (cases "j = p")
      case True
      have "card (kids h p) \<noteq> 0" using kp(1) fin by auto
      with True kp(1) show ?thesis by (simp add: k del: card_eq_0_iff)
    next
      case False
      with kp(2) show ?thesis by (simp add: k)
    qed
    have "q \<noteq> i" if "sb_parent b = Some q" for q
      using that ji \<open>kids h i = {}\<close> by (auto simp: kids_def)
    with heap_inv_node [OF inv ji(2)] ji cnt show ?thesis
      by (auto simp: node_ok_def root_ok_def child_ok_def split: option.splits)
  qed
  moreover have "roots_distinct ?h" using inv by (auto simp: heap_inv_def roots_distinct_def)
  moreover have "no_leak ?h"
    using inv i unfolding heap_inv_def no_leak_def by (auto 0 3) (metis option.distinct(1) option.inject)
  ultimately show ?thesis using inv by (auto simp: heap_inv_def)
qed

lemma free_inv:
  assumes inv: "heap_inv h H (\<lambda>_. 0)" and i: "i \<in> H"
  shows "\<exists>h'. sshbuf_free (Some i) h = Some h' \<and> heap_inv h' (H - {i}) (\<lambda>_. 0)"
proof -
  from inv i obtain b where b: "sh_buf h i = Some b" by (auto simp: heap_inv_def)
  note n = heap_inv_node [OF inv b]
  show ?thesis
  proof (cases "sb_parent b")
    case None
    have "node_ok h (H - {i}) ((\<lambda>_. 0)(i := 1)) j c" if "sh_buf h j = Some c" for j c
      using heap_inv_node [OF inv that] that i b None
      by (cases "j = i") (auto simp: node_ok_def split: option.splits)
    with inv have "heap_inv h (H - {i}) ((\<lambda>_. 0)(i := 1))"
      by (auto simp: heap_inv_def)
    from drop_ref_inv [OF this b None] free_root [OF b _ None] n show ?thesis
      by (auto simp: node_ok_def)
  next
    case (Some p)
    note c = heap_inv_child [OF inv b Some]
    then obtain pb where p: "sh_buf h p = Some pb" "sb_parent pb = None" by (auto simp: child_ok_def)
    note np = heap_inv_node [OF inv p(1)]
    have "sb_refcount b = 1" using n kids_empty [OF inv, of i] b Some i by (simp add: node_ok_def)
    let ?h = "h\<lparr>sh_buf := (sh_buf h)(i := None)\<rparr>"
    have "drop_ref i (drop_ref p h) = drop_ref p ?h"
      using b p c \<open>sb_refcount b = 1\<close>
      by (auto simp: drop_ref_def child_ok_def heap_set_def heap_block_def fun_upd_twist)
    moreover have "heap_inv (drop_ref p ?h) (H - {i}) (\<lambda>_. 0)"
      by (rule drop_ref_inv [OF remove_child_inv [OF inv b Some]]) (use p c in auto)
    moreover have "sshbuf_free (Some i) h = Some (drop_ref i (drop_ref p h))"
      using n np c by (intro free_child [OF b _ Some _ p(1) _ p(2)]) (auto simp: node_ok_def)
    ultimately show ?thesis by simp
  qed
qed

section \<open>Making buffers\<close>

lemma add_child_inv:
  assumes inv: "heap_inv h H ((\<lambda>_. 0)(p := 1))" and new: "sh_buf h i = None" "p \<noteq> i"
    and c: "sshbuf_inv c" "\<not> sb_dont_free c" "sb_refcount c = 1" "sb_parent c = Some p"
      "child_ok h c p"
  shows "heap_inv (heap_set i c h) (insert i H) (\<lambda>_. 0)"
proof -
  have k: "kids (heap_set i c h) q = (if q = p then insert i (kids h p) else kids h q)" for q
    using new c(4) by (auto simp: kids_def)
  have notin: "i \<notin> kids h q" for q using new by (auto simp: kids_def)
  have fin: "finite (kids h q)" for q using inv by (simp add: heap_inv_def kids_finite)
  have "kids h i = {}" using kids_empty [OF inv, of i] new by simp
  have "node_ok (heap_set i c h) (insert i H) (\<lambda>_. 0) j b"
    if j: "sh_buf (heap_set i c h) j = Some b" for j b
  proof (cases "j = i")
    case True
    with j have "b = c" by simp
    with c new \<open>kids h i = {}\<close> True show ?thesis
      by (auto simp: node_ok_def k child_ok_def)
  next
    case False
    with j have hj: "sh_buf h j = Some b" by simp
    from heap_inv_node [OF inv hj] False new fin notin show ?thesis
      by (fastforce simp: node_ok_def k root_ok_def child_ok_def split: option.splits)
  qed
  moreover have "roots_distinct (heap_set i c h)"
    using inv c(4) by (auto simp: heap_inv_def roots_distinct_def)
  moreover have "no_leak (heap_set i c h)"
    using inv c(4) new unfolding heap_inv_def no_leak_def heap_set_simps
    by (metis fun_upd_apply option.distinct(1))
  ultimately show ?thesis using inv by (auto simp: heap_inv_def)
qed

text \<open>The common end of \<open>sshbuf_fromb\<close> and \<open>sshbuf_froms\<close>: a window of \<open>n\<close> bytes at offset \<open>k\<close> of
  a root becomes its child.\<close>

lemma link_inv:
  assumes inv: "heap_inv h H (\<lambda>_. 0)" and new: "sh_buf h i = None"
    and p: "sh_buf h p = Some b" "sb_parent b = None" "sb_refcount b < SSHBUF_REFS_MAX"
    and b1: "b1 = b\<lparr>sb_off := off\<rparr>" "off \<le> sb_size b"
    and c: "sshbuf_from e (sb_cd b) (take n (drop k (sb_mem b))) = Some c"
  shows "\<exists>h'. sshbuf_set_parent i p (heap_set p b1 (heap_set i c h)) = (None, h') \<and>
    heap_inv h' (insert i H) (\<lambda>_. 0) \<and> sh_buf h' i = Some (c\<lparr>sb_parent := Some p\<rparr>) \<and>
    sh_buf h' p = Some (b1\<lparr>sb_refcount := sb_refcount b + 1\<rparr>)"
proof -
  let ?b = "b1\<lparr>sb_refcount := sb_refcount b + 1\<rparr>" and ?c = "c\<lparr>sb_parent := Some p\<rparr>"
  note n = heap_inv_node [OF inv p(1)]
  from n have bi: "sshbuf_inv b" "\<not> sb_dont_free b" by (simp_all add: node_ok_def)
  from new p(1) have ip: "i \<noteq> p" by auto
  note ci = sshbuf_from_inv [OF c]
  have cd: "\<not> sb_dont_free c" "sb_mem c = take n (drop k (sb_mem b))" "sb_alloc c = length (sb_mem c)"
    using c by (auto simp: sshbuf_from_def split: if_splits)
  have b1i: "sshbuf_inv b1" "sshbuf_inv ?b" using bi(1) b1 p(3) by (auto simp: sshbuf_inv_iff)
  have s: "sshbuf_set_parent i p (heap_set p b1 (heap_set i c h)) =
      (None, heap_set i ?c (heap_set p ?b h))"
    using ip b1i(1) ci(1) b1 by (auto simp: sshbuf_set_parent_def heap_set_def Let_def fun_upd_twist)
  have z: "(\<lambda>_. 0)(p := Suc 0) = (\<lambda>_. 0 :: nat)(p := 1)" by simp
  have "heap_inv (heap_set p ?b h) H ((\<lambda>_. 0)(p := 1))"
    by (rule set_root_inv [OF inv p(1,2) b1i(2)]) (use n bi b1 p in \<open>auto simp: node_ok_def\<close>)
  moreover have "child_ok (heap_set p ?b h) ?c p"
    using ci cd b1 p by (auto simp: child_ok_def min_def intro!: exI [of _ k])
  moreover have "sshbuf_inv ?c" "sb_refcount ?c = 1" using ci cd by (auto simp: sshbuf_inv_iff)
  ultimately have "heap_inv (heap_set i ?c (heap_set p ?b h)) (insert i H) (\<lambda>_. 0)"
    using new ip cd by (intro add_child_inv) auto
  with s ip show ?thesis by simp
qed

lemma from_total:
  "ae_struct e \<Longrightarrow> p \<noteq> 0 \<Longrightarrow> length blob \<le> SSHBUF_SIZE_MAX \<Longrightarrow> \<exists>c. sshbuf_from e p blob = Some c"
  by (simp add: sshbuf_from_def)

lemma fromb_inv:
  assumes inv: "heap_inv h H (\<lambda>_. 0)" and new: "sh_buf h i = None"
    and p: "sh_buf h p = Some b" "sb_parent b = None" "sb_refcount b < SSHBUF_REFS_MAX"
  shows "\<exists>h'. sshbuf_fromb e i p h = Some (ae_struct e, h') \<and>
    heap_inv h' (if ae_struct e then insert i H else H) (\<lambda>_. 0)"
proof -
  from heap_inv_node [OF inv p(1)] have bi: "sshbuf_inv b" by (simp add: node_ok_def)
  then have blob: "take (sshbuf_len b) (ptr_bytes b) = take (sb_size b - sb_off b) (drop (sb_off b) (sb_mem b))"
    "fst (the (sshbuf_ptr b)) = sb_cd b"
    by (simp_all add: sshbuf_len_contents sshbuf_ptr_contents) (simp add: contents_def)
  from bi have sz: "length (take (sb_size b - sb_off b) (drop (sb_off b) (sb_mem b))) \<le> SSHBUF_SIZE_MAX"
    "sb_cd b \<noteq> 0" by (auto simp: sshbuf_inv_iff)
  show ?thesis
  proof (cases "ae_struct e")
    case False
    with p bi inv show ?thesis by (simp add: sshbuf_fromb_def sshbuf_from_def)
  next
    case True
    from from_total [OF True sz(2,1)] obtain c where
      c: "sshbuf_from e (sb_cd b) (take (sb_size b - sb_off b) (drop (sb_off b) (sb_mem b))) = Some c" ..
    have "b = b\<lparr>sb_off := sb_off b\<rparr>" "sb_off b \<le> sb_size b" using bi by (auto simp: sshbuf_inv_iff)
    from link_inv [OF inv new p this c] obtain h'
      where "sshbuf_set_parent i p (heap_set p b (heap_set i c h)) = (None, h')"
        "heap_inv h' (insert i H) (\<lambda>_. 0)" by blast
    moreover have "(sh_buf h)(i \<mapsto> c, p \<mapsto> b) = (sh_buf h)(i \<mapsto> c)"
      using p new by (intro fun_upd_idem) auto
    then have "heap_set p b (heap_set i c h) = heap_set i c h"
      by (simp add: heap_set_def)
    ultimately show ?thesis using p bi c True blob by (simp add: sshbuf_fromb_def)
  qed
qed

lemma froms_inv:
  assumes inv: "heap_inv h H (\<lambda>_. 0)" and new: "sh_buf h i = None"
    and p: "sh_buf h p = Some b" "sb_parent b = None" "sb_refcount b < SSHBUF_REFS_MAX"
    and e: "ae_struct e" and s: "sshbuf_peek_string_direct b = Inr v"
  shows "\<exists>h' c b'. sshbuf_froms e i p h = Some (None, h') \<and>
    heap_inv h' (insert i H) (\<lambda>_. 0) \<and>
    sh_buf h' i = Some c \<and> contents c = v \<and>
    sh_buf h' p = Some b' \<and> contents b' = drop (length v + 4) (contents b)"
proof -
  from heap_inv_node [OF inv p(1)] have bi: "sshbuf_inv b" by (simp add: node_ok_def)
  note l = peek_string_length [OF bi s]
  have v: "v = take (length v) (drop (sb_off b + 4) (sb_mem b))"
  proof -
    have "v = take (length v) (drop 4 (contents b))" by (rule l(3))
    also have "drop 4 (contents b) =
        take (sb_size b - sb_off b - 4) (drop (sb_off b + 4) (sb_mem b))"
      by (simp add: contents_def drop_take add.commute)
    finally show ?thesis
      using l(1) length_contents [OF bi] by (simp add: min_def split: if_splits)
  qed
  from bi have cd0: "sb_cd b \<noteq> 0" by (simp add: sshbuf_inv_iff)
  have vlen: "length v \<le> SSHBUF_SIZE_MAX" using l(4) by simp
  from from_total [OF e cd0 this] obtain c where c: "sshbuf_from e (sb_cd b) v = Some c" ..
  let ?b1 = "b\<lparr>sb_off := sb_off b + (length v + 4)\<rparr>"
  have cons: "sshbuf_consume b (length v + 4) = (None, ?b1)"
    using l(1) bi by (simp add: consume_eq)
  have off: "sb_off b + (length v + 4) \<le> sb_size b"
    using l(1) length_contents [OF bi] by simp
  have "\<exists>h'. sshbuf_set_parent i p (heap_set p ?b1 (heap_set i c h)) = (None, h') \<and>
    heap_inv h' (insert i H) (\<lambda>_. 0) \<and> sh_buf h' i = Some (c\<lparr>sb_parent := Some p\<rparr>) \<and>
    sh_buf h' p = Some (?b1\<lparr>sb_refcount := sb_refcount b + 1\<rparr>)"
    using link_inv [OF inv new p refl off, of e "length v" "sb_off b + 4" c] c v [symmetric] by simp
  moreover have "contents (?b1\<lparr>sb_refcount := sb_refcount b + 1\<rparr>) = drop (length v + 4) (contents b)"
    by (simp add: contents_alt add.commute)
  moreover have "contents (c\<lparr>sb_parent := Some p\<rparr>) = v"
    using sshbuf_from_inv(2) [OF c] by (simp add: contents_def)
  ultimately show ?thesis
    using p s c cons by (fastforce simp: sshbuf_froms_def Let_def)
qed

lemma new_inv:
  assumes inv: "heap_inv h H (\<lambda>_. 0)" and new: "sh_buf h i = None"
    and s: "sshbuf_new e = Some b" "\<not> sh_live h (sb_d b)"
  shows "\<exists>h'. heap_new e i h = Some h' \<and> heap_inv h' (insert i H) (\<lambda>_. 0)"
proof -
  let ?h = "heap_block (sb_cd b) True (heap_set i b h)"
  note n = sshbuf_new_inv [OF s(1)]
  have f: "sb_d b = sb_cd b" "sb_parent b = None" "\<not> sb_dont_free b" "sb_refcount b = 1" "\<not> sb_readonly b"
    using s(1) by (auto simp: sshbuf_new_def Let_def split: if_splits)
  have k: "kids ?h q = kids h q" for q
    using new f by (auto simp: kids_def)
  have "kids h i = {}" using kids_empty [OF inv, of i] new by simp
  have "node_ok ?h (insert i H) (\<lambda>_. 0) j c" if j: "sh_buf ?h j = Some c" for j c
  proof (cases "j = i")
    case True
    with j have "c = b" by simp
    with n f True \<open>kids h i = {}\<close> show ?thesis
      by (simp add: node_ok_def k root_ok_def)
  next
    case False
    with j have "sh_buf h j = Some c" by simp
    from heap_inv_node [OF inv this] False new show ?thesis
      by (fastforce simp: node_ok_def k root_ok_def child_ok_def split: option.splits)
  qed
  moreover have "sb_cd c \<noteq> sb_cd b" if "sh_buf h j = Some c" "sb_parent c = None" for j c
    using heap_inv_node [OF inv that(1)] that s(2) f(1) by (auto simp: node_ok_def root_ok_def)
  then have "roots_distinct ?h"
    using inv unfolding heap_inv_def roots_distinct_def by (auto split: if_splits) (metis)
  moreover have "no_leak ?h"
    using inv f new unfolding heap_inv_def no_leak_def
    by (auto split: if_splits) (metis option.distinct(1))
  ultimately have "heap_inv ?h (insert i H) (\<lambda>_. 0)" using inv by (auto simp: heap_inv_def)
  with s f(1) show ?thesis by (simp add: heap_new_def)
qed

lemma put_shared: "sshbuf_inv b \<Longrightarrow> \<not> writable b \<Longrightarrow> sshbuf_put e b v = (Some SSH_ERR_BUFFER_READ_ONLY, b)"
  by (simp add: sshbuf_put_def sshbuf_reserve_def allocate_eq)

lemma put_heap_inv:
  assumes inv: "heap_inv h H (\<lambda>_. 0)" and i: "i \<in> H" "sh_buf h i = Some b"
    and s: "sshbuf_put e b v = (r, b')" "sb_d b' = sb_d b \<or> \<not> sh_live h (sb_d b')"
  shows "heap_inv (snd (heap_put e i v h)) H (\<lambda>_. 0)"
proof (cases "writable b")
  case False
  from heap_inv_node [OF inv i(2)] have bi: "sshbuf_inv b" by (simp add: node_ok_def)
  have "heap_set i b h = h" using i by (simp add: heap_set_def fun_upd_idem)
  with inv i put_shared [OF bi False] show ?thesis by (simp add: heap_put_def)
next
  case True
  note n = heap_inv_node [OF inv i(2)]
  then have bi: "sshbuf_inv b" by (simp add: node_ok_def)
  have b': "sshbuf_inv b'" "same_frame b b'"
    using put_success [OF bi, of e v b'] put_error [OF bi, of e v _ b'] s by (cases r; simp)+
  have root: "sb_parent b = None"
    using n True by (auto simp: node_ok_def child_ok_def writable_def split: option.splits)
  have fin: "finite (kids h i)" using inv by (simp add: heap_inv_def kids_finite)
  have k0: "kids h i = {}" using n True i fin by (simp add: node_ok_def writable_def)
  let ?h = "snd (heap_put e i v h)"
  have hb: "sh_buf ?h = (sh_buf h)(i := Some b')"
    using i s by (simp add: heap_put_def)
  have d: "sb_d b = sb_cd b" "sb_d b' = sb_cd b'" "sb_parent b' = None" "\<not> sb_readonly b'"
      "\<not> sb_dont_free b'" "sb_refcount b' = sb_refcount b"
    using True n b' root by (auto simp: writable_def node_ok_def sshbuf_inv_iff same_frame_def)
  have hl: "sh_live ?h = (sh_live h)(sb_cd b := False, sb_cd b' := True)"
  proof -
    have "sh_live h (sb_cd b)" using n root by (auto simp: node_ok_def root_ok_def)
    then show ?thesis using i s d by (auto simp: heap_put_def fun_eq_iff)
  qed
  have other: "sb_cd c \<noteq> sb_cd b \<and> sb_cd c \<noteq> sb_cd b'"
    if "sh_buf h j = Some c" "sb_parent c = None" "j \<noteq> i" for j c
  proof -
    have "sh_live h (sb_cd c)" using heap_inv_node [OF inv that(1)] that by (auto simp: node_ok_def root_ok_def)
    moreover have "sb_cd c \<noteq> sb_cd b"
      using inv that i root unfolding heap_inv_def roots_distinct_def by blast
    ultimately show ?thesis using s(2) d by auto
  qed
  have k: "kids ?h q = kids h q" for q
    using i root d by (auto simp: kids_def hb)
  have "node_ok ?h H (\<lambda>_. 0) j c" if j: "sh_buf ?h j = Some c" for j c
  proof (cases "j = i")
    case True
    with j have "c = b'" by (simp add: hb)
    with n b' d True show ?thesis by (simp add: node_ok_def k root_ok_def hl)
  next
    case False
    with j have c: "sh_buf h j = Some c" by (simp add: hb)
    have "q \<noteq> i" if "sb_parent c = Some q" for q using that c k0 by (auto simp: kids_def)
    with heap_inv_node [OF inv c] other [OF c] False show ?thesis
      by (fastforce simp: node_ok_def k root_ok_def child_ok_def hb hl split: option.splits)
  qed
  moreover have "roots_distinct ?h"
    using inv other unfolding heap_inv_def roots_distinct_def hb by (auto split: if_splits) metis
  moreover have "no_leak ?h"
    using inv i d unfolding heap_inv_def no_leak_def hb hl
    by (auto split: if_splits) (metis option.inject)
  ultimately show ?thesis using inv by (auto simp: heap_inv_def hb)
qed

section \<open>Every sequence of operations\<close>

text \<open>
  One step of a program that owns the handles \<open>H\<close>: it makes a buffer, writes to one it owns, makes a
  child of a buffer that is not a child itself, or frees a handle once.  The allocator hands out
  addresses and blocks that are not in use.
\<close>

inductive heap_step :: "sheap \<times> nat set \<Rightarrow> sheap \<times> nat set \<Rightarrow> bool" where
  step_new: "sh_buf h i = None \<Longrightarrow> sshbuf_new e = Some b \<Longrightarrow> \<not> sh_live h (sb_d b) \<Longrightarrow>
    heap_new e i h = Some h' \<Longrightarrow> heap_step (h, H) (h', insert i H)"
| step_put: "i \<in> H \<Longrightarrow> sh_buf h i = Some b \<Longrightarrow> sshbuf_put e b v = (r, b') \<Longrightarrow>
    sb_d b' = sb_d b \<or> \<not> sh_live h (sb_d b') \<Longrightarrow> heap_put e i v h = (r, h') \<Longrightarrow>
    heap_step (h, H) (h', H)"
| step_fromb: "p \<in> H \<Longrightarrow> sh_buf h p = Some b \<Longrightarrow> sb_parent b = None \<Longrightarrow>
    sb_refcount b < SSHBUF_REFS_MAX \<Longrightarrow> sh_buf h i = None \<Longrightarrow>
    sshbuf_fromb e i p h = Some (ok, h') \<Longrightarrow> heap_step (h, H) (h', if ok then insert i H else H)"
| step_froms: "p \<in> H \<Longrightarrow> sh_buf h p = Some b \<Longrightarrow> sb_parent b = None \<Longrightarrow>
    sb_refcount b < SSHBUF_REFS_MAX \<Longrightarrow> sh_buf h i = None \<Longrightarrow>
    sshbuf_froms e i p h = Some (r, h') \<Longrightarrow> heap_step (h, H) (h', if r = None then insert i H else H)"
| step_free: "i \<in> H \<Longrightarrow> sshbuf_free (Some i) h = Some h' \<Longrightarrow> heap_step (h, H) (h', H - {i})"

definition heap_empty :: sheap where
  "heap_empty = \<lparr>sh_buf = (\<lambda>_. None), sh_live = (\<lambda>_. False)\<rparr>"

definition heap_reach :: "sheap \<Rightarrow> nat set \<Rightarrow> bool" where
  "heap_reach h H \<longleftrightarrow> heap_step\<^sup>*\<^sup>* (heap_empty, {}) (h, H)"

lemma froms_other:
  assumes "sh_buf h p = Some b" "sshbuf_inv b" "\<not> (ae_struct e \<and> (\<exists>v. sshbuf_peek_string_direct b = Inr v))"
  shows "\<exists>r. sshbuf_froms e i p h = Some (Some r, h)"
  using assms by (auto simp: sshbuf_froms_def sshbuf_from_def split: sum.splits)

lemma heap_step_inv:
  "heap_step s s' \<Longrightarrow> heap_inv (fst s) (snd s) (\<lambda>_. 0) \<Longrightarrow> heap_inv (fst s') (snd s') (\<lambda>_. 0)"
proof (induction rule: heap_step.induct)
  case (step_new h i e b h' H)
  then show ?case using new_inv [of h H i e b] by auto
next
  case (step_put i H h b e v r b' h')
  then show ?case using put_heap_inv [of h H i b e v r b'] by auto
next
  case (step_fromb p H h b i e ok h')
  then show ?case using fromb_inv [of h H i p b e] by auto
next
  case (step_froms p H h b i e r h')
  then have inv: "heap_inv h H (\<lambda>_. 0)" and "sshbuf_inv b" 
    using heap_inv_node [of h H _ p b] by (auto simp: node_ok_def)
  show ?case
  proof (cases "ae_struct e \<and> (\<exists>v. sshbuf_peek_string_direct b = Inr v)")
    case True
    with froms_inv [OF inv step_froms(5,2,3,4)] step_froms(6) show ?thesis by fastforce
  next
    case False
    with froms_other [OF step_froms(2) \<open>sshbuf_inv b\<close>, of e i] step_froms(6) inv show ?thesis by auto
  qed
next
  case (step_free i H h h')
  then show ?case using free_inv [of h H i] by auto
qed

lemma heap_reach_inv: "heap_reach h H \<Longrightarrow> heap_inv h H (\<lambda>_. 0)"
proof -
  have "heap_inv (fst s) (snd s) (\<lambda>_. 0)" if "heap_step\<^sup>*\<^sup>* (heap_empty, {}) s" for s
    using that
  proof (induction rule: rtranclp_induct)
    case base
    show ?case by (simp add: heap_empty_def heap_inv_def roots_distinct_def no_leak_def)
  next
    case (step s s')
    then show ?case by (blast intro: heap_step_inv)
  qed
  then show "heap_reach h H \<Longrightarrow> heap_inv h H (\<lambda>_. 0)" by (fastforce simp: heap_reach_def)
qed

section \<open>Properties\<close>

lemma reach_new:
  assumes "alloc_total e"
  shows "\<exists>h b. heap_new e 1 heap_empty = Some h \<and> heap_reach h {1} \<and> sh_buf h 1 = Some b \<and>
    sb_parent b = None \<and> sb_refcount b = 1"
proof -
  obtain b where b: "sshbuf_new e = Some b" using sshbuf_new_total [OF assms] by blast
  then have f: "sb_parent b = None" "sb_refcount b = 1"
    by (auto simp: sshbuf_new_def Let_def split: if_splits)
  let ?h = "heap_block (sb_d b) True (heap_set 1 b heap_empty)"
  have n: "heap_new e 1 heap_empty = Some ?h" using b by (simp add: heap_new_def)
  have "heap_step (heap_empty, {}) (?h, insert 1 {})"
    by (rule step_new [OF _ b _ n]) (simp_all add: heap_empty_def)
  with n f show ?thesis by (auto simp: heap_reach_def)
qed

text \<open>C12: in every state reached by making, writing, sharing and freeing buffers, where only buffers
  that are not children get children, every buffer that still exists is sane and its data block is
  still allocated; a child reads a window of its parent's memory, and the parent cannot be written
  while the child exists.\<close>

theorem buffers_never_dangle:
  assumes "heap_reach h H" "sh_buf h i = Some b"
  shows "sshbuf_inv b \<and> sh_live h (sb_cd b) \<and>
    (\<forall>p. sb_parent b = Some p \<longrightarrow>
       (\<exists>pb k. sh_buf h p = Some pb \<and> sb_mem b = take (sb_alloc b) (drop k (sb_mem pb)) \<and>
          (p \<in> H \<longrightarrow> (\<forall>e v. sshbuf_put e pb v = (Some SSH_ERR_BUFFER_READ_ONLY, pb)))))"
proof -
  note inv = heap_reach_inv [OF assms(1)]
  note n = heap_inv_node [OF inv assms(2)]
  show ?thesis
  proof (cases "sb_parent b")
    case None
    with n show ?thesis by (simp add: node_ok_def root_ok_def)
  next
    case (Some p)
    from n Some obtain pb k where pb: "sh_buf h p = Some pb" "sb_parent pb = None" "sb_cd b = sb_cd pb"
      "sb_mem b = take (sb_alloc b) (drop k (sb_mem pb))"
      by (auto simp: node_ok_def child_ok_def)
    note np = heap_inv_node [OF inv pb(1)]
    have "i \<in> kids h p" using assms(2) Some by (auto simp: kids_def)
    moreover have "finite (kids h p)" using inv by (simp add: heap_inv_def kids_finite)
    ultimately have "card (kids h p) \<noteq> 0" by auto
    then have "p \<in> H \<longrightarrow> \<not> writable pb" using np by (auto simp: node_ok_def writable_def)
    with n np pb Some show ?thesis by (auto simp: node_ok_def root_ok_def put_shared)
  qed
qed

theorem buffers_never_dangle_witness:
  "\<exists>h h' b. heap_new all_alloc 1 heap_empty = Some h \<and>
    sshbuf_fromb all_alloc 2 1 h = Some (True, h') \<and>
    sh_buf h' 2 = Some b \<and> sb_parent b = Some 1 \<and> sh_live h' (sb_cd b)"
proof -
  obtain h b where h: "heap_new all_alloc 1 heap_empty = Some h" "heap_reach h {1}"
    "sh_buf h 1 = Some b" "sb_parent b = None" "sb_refcount b = 1"
    using reach_new [OF all_alloc_total] by blast
  have new: "sh_buf h 2 = None"
    using h(1) by (auto simp: heap_new_def heap_empty_def split: option.splits)
  have lt: "sb_refcount b < SSHBUF_REFS_MAX" using h(5) by (simp add: sshbuf_consts)
  from fromb_inv [OF heap_reach_inv [OF h(2)] new h(3,4) lt, of all_alloc]
  obtain h' where h': "sshbuf_fromb all_alloc 2 1 h = Some (True, h')"
    by (auto simp: all_alloc_def)
  have "heap_step (h, {1}) (h', if True then insert 2 {1} else {1})"
    by (rule step_fromb [OF _ h(3,4) lt new h']) simp
  with h(2) have reach: "heap_reach h' {2, 1}" by (auto simp: heap_reach_def)
  have sane: "sshbuf_check_sanity (Some b) = None"
    using heap_inv_node [OF heap_reach_inv [OF h(2)] h(3)] by (simp add: node_ok_def)
  from h' h(3) new sane obtain c where c: "sh_buf h' 2 = Some c" "sb_parent c = Some 1"
    by (auto simp: sshbuf_fromb_def sshbuf_set_parent_def Let_def split: option.splits)
  from buffers_never_dangle [OF reach c(1)] h(1) h' c show ?thesis by auto
qed

text \<open>C13: in every such state \<open>sshbuf_free\<close> of a handle that is held returns and touches no released
  structure, and once every handle has been freed no structure and no data block is left
  allocated.\<close>

theorem buffers_all_released:
  assumes "heap_reach h H"
  shows "(\<forall>i \<in> H. \<exists>h'. sshbuf_free (Some i) h = Some h' \<and> heap_reach h' (H - {i})) \<and>
    (H = {} \<longrightarrow> (\<forall>i. sh_buf h i = None) \<and> (\<forall>k. \<not> sh_live h k))"
proof (intro conjI ballI impI)
  note inv = heap_reach_inv [OF assms]
  fix i assume i: "i \<in> H"
  with free_inv [OF inv i] assms step_free [OF i]
  show "\<exists>h'. sshbuf_free (Some i) h = Some h' \<and> heap_reach h' (H - {i})"
    by (auto simp: heap_reach_def intro: rtranclp.rtrancl_into_rtrancl)
next
  note inv = heap_reach_inv [OF assms]
  assume H: "H = {}"
  have root: "sb_parent b = None" if "sh_buf h i = Some b" for i b
    using heap_inv_node [OF inv that] H by (auto simp: node_ok_def split: option.splits)
  then have k: "kids h i = {}" for i by (auto simp: kids_def)
  show none: "\<forall>i. sh_buf h i = None"
  proof (rule ccontr)
    assume "\<not> ?thesis"
    then obtain i b where "sh_buf h i = Some b" by auto
    from heap_inv_node [OF inv this] H k show False by (auto simp: node_ok_def sshbuf_inv_iff)
  qed
  show "\<forall>k. \<not> sh_live h k" using inv none by (auto simp: heap_inv_def no_leak_def)
qed

theorem buffers_all_released_witness:
  "\<exists>h h'. heap_new all_alloc 1 heap_empty = Some h \<and> sshbuf_free (Some 1) h = Some h' \<and>
    sh_buf h' 1 = None \<and> \<not> sh_live h' 1"
proof -
  obtain h where h: "heap_new all_alloc 1 heap_empty = Some h" "heap_reach h {1}"
    using reach_new [OF all_alloc_total] by blast
  from buffers_all_released [OF h(2)] obtain h' where h': "sshbuf_free (Some 1) h = Some h'"
    "heap_reach h' {}" by auto
  from buffers_all_released [OF h'(2)] h(1) h'(1) show ?thesis by auto
qed

text \<open>With a child of a child the reference counts do not protect the data: after the two older
  handles are freed, the youngest buffer still exists, is sane, and its block has been released.
  \<open>sshbuf_free\<close> drops the reference on the parent before it looks at its own reference count.\<close>

lemma nested_child_dangles:
  "\<exists>h1 h2 h3 h4 h5 c.
    heap_new all_alloc 1 heap_empty = Some h1 \<and>
    sshbuf_fromb all_alloc 2 1 h1 = Some (True, h2) \<and>
    sshbuf_fromb all_alloc 3 2 h2 = Some (True, h3) \<and>
    sshbuf_free (Some 1) h3 = Some h4 \<and> sshbuf_free (Some 2) h4 = Some h5 \<and>
    sh_buf h5 3 = Some c \<and> sshbuf_check_sanity (Some c) = None \<and> \<not> sh_live h5 (sb_cd c)"
proof -
  let ?r = "\<lparr>sb_d = 1, sb_cd = 1, sb_mem = replicate 256 0, sb_off = 0, sb_size = 0,
    sb_max_size = SSHBUF_SIZE_MAX, sb_alloc = 256, sb_readonly = False, sb_dont_free = False,
    sb_refcount = 1, sb_parent = None\<rparr>"
  let ?c = "\<lparr>sb_d = 0, sb_cd = 1, sb_mem = [], sb_off = 0, sb_size = 0,
    sb_max_size = 0, sb_alloc = 0, sb_readonly = True, sb_dont_free = False,
    sb_refcount = 1, sb_parent = None\<rparr>"
  let ?h1 = "heap_block 1 True (heap_set 1 ?r heap_empty)"
  let ?h2 = "heap_set 1 (?r\<lparr>sb_refcount := 2\<rparr>) (heap_set 2 (?c\<lparr>sb_parent := Some 1\<rparr>) ?h1)"
  let ?h3 = "heap_set 2 (?c\<lparr>sb_parent := Some 1, sb_refcount := 2\<rparr>)
     (heap_set 3 (?c\<lparr>sb_parent := Some 2\<rparr>) ?h2)"
  let ?h4 = "heap_set 1 ?r ?h3"
  let ?h5 = "heap_set 2 ?c ((heap_block 1 False ?h4)\<lparr>sh_buf := (sh_buf ?h4)(1 := None)\<rparr>)"
  note eval = sshbuf_check_sanity.simps(2) sshbuf_consts Let_def all_alloc_def
  have "heap_new all_alloc 1 heap_empty = Some ?h1"
    by (simp add: heap_new_def sshbuf_new_def eval)
  moreover have "sshbuf_fromb all_alloc 2 1 ?h1 = Some (True, ?h2)"
    by (simp add: sshbuf_fromb_def sshbuf_from_def sshbuf_ptr_def sshbuf_len_def sshbuf_set_parent_def eval
        numeral_2_eq_2)
  moreover have "sshbuf_fromb all_alloc 3 2 ?h2 = Some (True, ?h3)"
    by (simp add: sshbuf_fromb_def sshbuf_from_def sshbuf_ptr_def sshbuf_len_def sshbuf_set_parent_def eval
        numeral_2_eq_2)
  moreover have "sshbuf_free (Some 1) ?h3 = Some ?h4"
    by (simp add: sshbuf_free.simps eval)
  moreover have "sshbuf_free (Some 2) ?h4 = Some ?h5"
    by (simp add: sshbuf_free.simps eval heap_set_def heap_block_def)
  moreover have "sh_buf ?h5 3 = Some (?c\<lparr>sb_parent := Some 2\<rparr>)" by simp
  moreover have "sshbuf_check_sanity (Some (?c\<lparr>sb_parent := Some 2\<rparr>)) = None" by (simp add: eval)
  moreover have "\<not> sh_live ?h5 (sb_cd (?c\<lparr>sb_parent := Some 2\<rparr>))" by simp
  ultimately show ?thesis by blast
qed

end
