(* ===== verification/C_String.thy ===== *)
theory C_String
  imports SSH_Base "HOL-Library.Sublist"
begin

text \<open>
  C strings and the library functions on them that the components use.  A C string is the list of
  its characters before the terminating zero byte; the null pointer, where it can occur, is
  \<^term>\<open>None\<close>.  Character classes are those of the C locale.
\<close>

section \<open>Characters\<close>

abbreviation code :: "char \<Rightarrow> nat" where "code c \<equiv> of_char c"

definition isupper :: "char \<Rightarrow> bool" where
  "isupper c \<longleftrightarrow> 65 \<le> code c \<and> code c \<le> 90"

definition tolower :: "char \<Rightarrow> char" where
  "tolower c = (if isupper c then char_of (code c + 32) else c)"

definition isdigit :: "char \<Rightarrow> bool" where
  "isdigit c \<longleftrightarrow> 48 \<le> code c \<and> code c \<le> 57"

definition isspace :: "char \<Rightarrow> bool" where
  "isspace c \<longleftrightarrow> code c = 32 \<or> (9 \<le> code c \<and> code c \<le> 13)"

section \<open>Splitting\<close>

text \<open>\<open>strsep(&p, delim)\<close>: the token and the new value of \<open>p\<close>.\<close>

definition strsep :: "(char \<Rightarrow> bool) \<Rightarrow> string option \<Rightarrow> string option \<times> string option" where
  "strsep delim p =
     (case p of None \<Rightarrow> (None, None)
      | Some s \<Rightarrow>
          (Some (takeWhile (\<lambda>c. \<not> delim c) s),
           case dropWhile (\<lambda>c. \<not> delim c) s of [] \<Rightarrow> None | _ # rest \<Rightarrow> Some rest))"

text \<open>How many more times \<open>strsep\<close> can be called before it returns the null pointer, at most.\<close>

definition strsep_size :: "string option \<Rightarrow> nat" where
  "strsep_size p = (case p of None \<Rightarrow> 0 | Some s \<Rightarrow> Suc (length s))"

lemma strsep_decreases:
  "strsep delim p = (Some t, q) \<Longrightarrow> strsep_size q < strsep_size p"
  using length_dropWhile_le [of "\<lambda>c. \<not> delim c" "the p"]
  by (auto simp: strsep_def strsep_size_def split: option.splits list.splits)

lemma strsep_token_size:
  "strsep delim p = (Some t, q) \<Longrightarrow> length t + 1 + strsep_size q = strsep_size p"
proof -
  assume "strsep delim p = (Some t, q)"
  then obtain s where p: "p = Some s" and t: "t = takeWhile (\<lambda>c. \<not> delim c) s"
    and q: "q = (case dropWhile (\<lambda>c. \<not> delim c) s of [] \<Rightarrow> None | _ # rest \<Rightarrow> Some rest)"
    by (auto simp: strsep_def split: option.splits)
  have "length s = length t + length (dropWhile (\<lambda>c. \<not> delim c) s)"
    by (metis t length_append takeWhile_dropWhile_id)
  then show ?thesis by (auto simp: p q strsep_size_def split: list.split)
qed

lemma strsep_None [simp]: "strsep delim None = (None, None)"
  by (simp add: strsep_def)

text \<open>The tokens that repeated calls of \<open>strsep\<close> return.\<close>

function tokens :: "(char \<Rightarrow> bool) \<Rightarrow> string option \<Rightarrow> string list" where
  "tokens delim p =
     (case strsep delim p of (None, _) \<Rightarrow> [] | (Some t, q) \<Rightarrow> t # tokens delim q)"
  by pat_completeness auto
termination
  by (relation "measure (\<lambda>(_, p). strsep_size p)") (auto dest: strsep_decreases [OF sym])

declare tokens.simps [simp del]

lemma tokens_None [simp]: "tokens delim None = []"
  by (subst tokens.simps) simp

lemma tokens_no_delim: "\<forall>c \<in> set s. \<not> delim c \<Longrightarrow> tokens delim (Some s) = [s]"
proof -
  assume "\<forall>c \<in> set s. \<not> delim c"
  then have e: "takeWhile (\<lambda>c. \<not> delim c) s = s" "dropWhile (\<lambda>c. \<not> delim c) s = []"
    by (simp_all add: takeWhile_eq_all_conv)
  show ?thesis by (subst tokens.simps) (simp add: strsep_def e)
qed

lemma tokens_append:
  assumes "\<forall>c \<in> set t. \<not> delim c" "delim d"
  shows "tokens delim (Some (t @ d # s)) = t # tokens delim (Some s)"
proof -
  have "takeWhile (\<lambda>c. \<not> delim c) (t @ d # s) = t" "dropWhile (\<lambda>c. \<not> delim c) (t @ d # s) = d # s"
    using assms by (simp_all add: takeWhile_append2 dropWhile_append2)
  then show ?thesis by (subst tokens.simps) (simp add: strsep_def)
qed

lemma tokens_clean: "t \<in> set (tokens delim p) \<Longrightarrow> c \<in> set t \<Longrightarrow> \<not> delim c"
proof (induction delim p rule: tokens.induct)
  case (1 delim p)
  show ?case
  proof (cases "strsep delim p")
    case (Pair a q)
    show ?thesis
    proof (cases a)
      case None
      with 1 Pair show ?thesis by (simp add: tokens.simps [of delim p])
    next
      case (Some u)
      with Pair have "u = takeWhile (\<lambda>c. \<not> delim c) (the p)"
        by (auto simp: strsep_def split: option.splits)
      with 1 Pair Some show ?thesis
        by (auto simp: tokens.simps [of delim p] dest: set_takeWhileD)
    qed
  qed
qed

text \<open>Joining with commas, the inverse of splitting at commas.\<close>

fun join_comma :: "string list \<Rightarrow> string" where
  "join_comma [] = []"
| "join_comma [t] = t"
| "join_comma (t # u # ts) = t @ CHR '','' # join_comma (u # ts)"

abbreviation is_comma :: "char \<Rightarrow> bool" where "is_comma c \<equiv> c = CHR '',''"

lemma tokens_join:
  "ts \<noteq> [] \<Longrightarrow> \<forall>t \<in> set ts. CHR '','' \<notin> set t \<Longrightarrow> tokens is_comma (Some (join_comma ts)) = ts"
proof (induction ts rule: join_comma.induct)
  case (2 t)
  then show ?case using tokens_no_delim [of t is_comma] by auto
next
  case (3 t u ts)
  then show ?case using tokens_append [of t is_comma "CHR '',''" "join_comma (u # ts)"] by auto
qed simp

section \<open>Numbers\<close>

definition digit_val :: "char \<Rightarrow> nat" where
  "digit_val c = code c - 48"

definition digits_val :: "string \<Rightarrow> nat" where
  "digits_val s = foldl (\<lambda>n c. 10 * n + digit_val c) 0 s"

definition ULONG_MAX :: nat where "ULONG_MAX = 2 ^ 64 - 1"

text \<open>\<open>strtoul(s, &end, 10)\<close>: the value and the rest of the string at \<open>end\<close>.  White space and a sign are
  skipped, a minus sign negates modulo \<open>2 ^ 64\<close>, a value out of range saturates, and without digits
  \<open>end\<close> stays at the start.\<close>

definition strtoul :: "string \<Rightarrow> nat \<times> string" where
  "strtoul s =
     (let s1 = dropWhile isspace s;
          neg = (s1 \<noteq> [] \<and> hd s1 = CHR ''-'');
          s2 = (if s1 \<noteq> [] \<and> (hd s1 = CHR ''-'' \<or> hd s1 = CHR ''+'') then tl s1 else s1);
          ds = takeWhile isdigit s2;
          v = digits_val ds
      in if ds = [] then (0, s)
         else (if v > ULONG_MAX then ULONG_MAX else if neg then (2 ^ 64 - v) mod 2 ^ 64 else v,
               dropWhile isdigit s2))"

text \<open>\<open>strtol(s, &end, 10)\<close> and \<open>atoi\<close>, which truncates the \<open>long\<close> to an \<open>int\<close>.\<close>

definition LONG_MAX :: int where "LONG_MAX = 2 ^ 63 - 1"
definition LONG_MIN :: int where "LONG_MIN = - (2 ^ 63)"

definition strtol :: "string \<Rightarrow> int \<times> string" where
  "strtol s =
     (let s1 = dropWhile isspace s;
          neg = (s1 \<noteq> [] \<and> hd s1 = CHR ''-'');
          s2 = (if s1 \<noteq> [] \<and> (hd s1 = CHR ''-'' \<or> hd s1 = CHR ''+'') then tl s1 else s1);
          ds = takeWhile isdigit s2;
          v = (if neg then - int (digits_val ds) else int (digits_val ds))
      in if ds = [] then (0, s)
         else (if v > LONG_MAX then LONG_MAX else if v < LONG_MIN then LONG_MIN else v,
               dropWhile isdigit s2))"

definition to_int32 :: "int \<Rightarrow> int" where
  "to_int32 v = (v + 2 ^ 31) mod 2 ^ 32 - 2 ^ 31"

definition atoi :: "string \<Rightarrow> int" where
  "atoi s = to_int32 (fst (strtol s))"

section \<open>Fatal errors\<close>

text \<open>A call of \<open>fatal\<close> ends the process with a message; the functions that may call it return a sum.\<close>

type_synonym 'a or_fatal = "string + 'a"

end
