(* ===== verification/Match.thy ===== *)
theory Match
  imports C_String
begin

text \<open>
  Pattern matching and list matching of \<^verbatim>\<open>src/openssh-7.2p2/match.c\<close>.  \<open>match_host_and_ip\<close> and
  \<open>match_user\<close>, which also call \<^verbatim>\<open>addrmatch.c\<close>, are in the theory \<open>Addrmatch\<close>.
\<close>

section \<open>\<open>match_pattern\<close>\<close>

text \<open>\<open>match_known\<close> and \<open>match_each\<close> are the two inner loops.\<close>

function (sequential) match_pattern :: "string \<Rightarrow> string \<Rightarrow> bool"
  and match_known :: "string \<Rightarrow> char \<Rightarrow> string \<Rightarrow> bool"
  and match_each :: "string \<Rightarrow> string \<Rightarrow> bool" where
  "match_pattern s [] = (s = [])"
| "match_pattern s (p # ps) =
     (if p = CHR ''*'' then
        (case ps of
           [] \<Rightarrow> True
         | q # qs \<Rightarrow> if q \<noteq> CHR ''?'' \<and> q \<noteq> CHR ''*'' then match_known s q qs else match_each s ps)
      else
        (case s of
           [] \<Rightarrow> False
         | c # cs \<Rightarrow> if p \<noteq> CHR ''?'' \<and> p \<noteq> c then False else match_pattern cs ps))"
| "match_known [] q qs = False"
| "match_known (c # cs) q qs = (if c = q \<and> match_pattern cs qs then True else match_known cs q qs)"
| "match_each [] ps = False"
| "match_each (c # cs) ps = (if match_pattern (c # cs) ps then True else match_each cs ps)"
  by pat_completeness auto
termination
  by (relation "measures
      [\<lambda>x. case x of Inl (s, p) \<Rightarrow> 2 * length p
             | Inr (Inl (s, q, qs)) \<Rightarrow> 2 * length qs + 1
             | Inr (Inr (s, ps)) \<Rightarrow> 2 * length ps + 1,
       \<lambda>x. case x of Inl (s, p) \<Rightarrow> length s
             | Inr (Inl (s, q, qs)) \<Rightarrow> length s
             | Inr (Inr (s, ps)) \<Rightarrow> length s]") auto

text \<open>What the comment promises: \<open>?\<close> stands for one character, \<open>*\<close> for any number.\<close>

fun glob :: "string \<Rightarrow> string \<Rightarrow> bool" where
  "glob [] s \<longleftrightarrow> s = []"
| "glob (p # ps) s \<longleftrightarrow>
     (if p = CHR ''*'' then \<exists>k \<le> length s. glob ps (drop k s)
      else s \<noteq> [] \<and> (p = CHR ''?'' \<or> p = hd s) \<and> glob ps (tl s))"

lemma match_known_iff:
  "match_known s q qs \<longleftrightarrow> (\<exists>k < length s. s ! k = q \<and> match_pattern (drop (Suc k) s) qs)"
proof (induction s)
  case (Cons c cs)
  have "(\<exists>k < length (c # cs). (c # cs) ! k = q \<and> match_pattern (drop (Suc k) (c # cs)) qs) \<longleftrightarrow>
    c = q \<and> match_pattern cs qs \<or> (\<exists>k < length cs. cs ! k = q \<and> match_pattern (drop (Suc k) cs) qs)"
    by (auto simp: less_Suc_eq_0_disj)
  with Cons show ?case by auto
qed simp

lemma match_each_iff:
  "match_each s ps \<longleftrightarrow> (\<exists>k < length s. match_pattern (drop k s) ps)"
proof (induction s)
  case (Cons c cs)
  have "(\<exists>k < length (c # cs). match_pattern (drop k (c # cs)) ps) \<longleftrightarrow>
    match_pattern (c # cs) ps \<or> (\<exists>k < length cs. match_pattern (drop k cs) ps)"
    by (auto simp: less_Suc_eq_0_disj)
  with Cons show ?case by (simp del: match_pattern.simps)
qed simp

text \<open>Both loops try the rest of the pattern at every position, and the optimisation for a known
  character changes nothing.\<close>

lemma match_plain:
  "p \<noteq> CHR ''*'' \<Longrightarrow> match_pattern s (p # ps) \<longleftrightarrow>
     s \<noteq> [] \<and> (p = CHR ''?'' \<or> p = hd s) \<and> match_pattern (tl s) ps"
  by (cases s) auto

lemma match_star:
  "match_pattern s (CHR ''*'' # q # qs) \<longleftrightarrow> (\<exists>k < length s. match_pattern (drop k s) (q # qs))"
proof (cases "q \<noteq> CHR ''?'' \<and> q \<noteq> CHR ''*''")
  case True
  then have "match_pattern s (CHR ''*'' # q # qs) = match_known s q qs" by simp
  also have "\<dots> \<longleftrightarrow> (\<exists>k < length s. s ! k = q \<and> match_pattern (drop (Suc k) s) qs)"
    by (rule match_known_iff)
  also have "\<dots> \<longleftrightarrow> (\<exists>k < length s. match_pattern (drop k s) (q # qs))"
    using True by (auto simp: match_plain hd_drop_conv_nth tl_drop drop_Suc simp del: match_pattern.simps(2))
  finally show ?thesis .
next
  case False
  then have "match_pattern s (CHR ''*'' # q # qs) = match_each s (q # qs)" by auto
  then show ?thesis by (simp only: match_each_iff)
qed

lemma match_last_star: "match_pattern s ''*''" by simp

lemma glob_plain:
  "p \<noteq> CHR ''*'' \<Longrightarrow> glob (p # ps) s \<longleftrightarrow> s \<noteq> [] \<and> (p = CHR ''?'' \<or> p = hd s) \<and> glob ps (tl s)"
  by simp

lemma glob_star: "glob (CHR ''*'' # ps) s \<longleftrightarrow> (\<exists>k \<le> length s. glob ps (drop k s))"
  by simp

lemma glob_all_stars: "glob p [] \<longleftrightarrow> set p \<subseteq> {CHR ''*''}"
  by (induction p) auto

declare match_pattern.simps(2) [simp del] match_known.simps [simp del] match_each.simps [simp del]
  glob.simps(2) [simp del]

lemma match_pattern_sound: "match_pattern s p \<Longrightarrow> glob p s"
proof (induction p arbitrary: s)
  case (Cons a ps)
  show ?case
  proof (cases "a = CHR ''*'' \<and> ps \<noteq> []")
    case True
    then obtain q qs where ps: "ps = q # qs" by (cases ps) auto
    with Cons True obtain k where "k < length s" "glob ps (drop k s)" by (auto simp: match_star)
    then have "k \<le> length s \<and> glob ps (drop k s)" by simp
    with True show ?thesis by (auto simp: glob_star)
  next
    case False
    with Cons show ?thesis
      by (cases "a = CHR ''*''") (auto simp: match_plain glob_plain glob_star)
  qed
qed simp

text \<open>The converse fails only where the pattern ends in two asterisks.\<close>

abbreviation two_stars :: string where "two_stars \<equiv> ''**''"

lemma stars_suffix: "set qs \<subseteq> {CHR ''*''} \<Longrightarrow> suffix two_stars (CHR ''*'' # CHR ''*'' # qs)"
proof (induction qs)
  case (Cons a qs)
  then show ?case by (auto simp: suffix_Cons)
qed (simp add: suffix_def)

lemma match_pattern_complete: "glob p s \<Longrightarrow> \<not> suffix two_stars p \<Longrightarrow> match_pattern s p"
proof (induction p arbitrary: s)
  case (Cons a ps)
  then have ns: "\<not> suffix two_stars ps" by (simp add: suffix_Cons)
  show ?case
  proof (cases "a = CHR ''*'' \<and> ps \<noteq> []")
    case True
    then obtain q qs where ps: "ps = q # qs" by (cases ps) auto
    from Cons.prems(1) True obtain k where k: "k \<le> length s" "glob ps (drop k s)"
      by (auto simp: glob_star)
    have "k \<noteq> length s"
    proof
      assume "k = length s"
      with k have "set ps \<subseteq> {CHR ''*''}" by (simp add: glob_all_stars)
      with ps stars_suffix [of qs] Cons.prems(2) True show False by simp
    qed
    with k Cons.IH [OF _ ns] have "k < length s" "match_pattern (drop k s) ps" by auto
    with True ps show ?thesis by (auto simp: match_star)
  next
    case False
    with Cons.IH [OF _ ns] Cons.prems(1) show ?thesis
      by (cases "a = CHR ''*''") (auto simp: match_plain glob_plain match_last_star)
  qed
qed simp

section \<open>\<open>match_pattern_list\<close>\<close>

text \<open>\<^verbatim>\<open>sizeof(sub) - 1\<close>\<close>

definition sub_max :: nat where "sub_max = 1023"

text \<open>The loop of \<open>match_pattern_list\<close> over the rest of the pattern.\<close>

definition take_sub :: "bool \<Rightarrow> string \<Rightarrow> string" where
  "take_sub dolower p =
     map (\<lambda>c. if dolower \<and> isupper c then tolower c else c) (take sub_max (takeWhile (\<lambda>c. c \<noteq> CHR '','') p))"

definition skip_sub :: "string \<Rightarrow> nat \<Rightarrow> string" where
  "skip_sub p subi = (case drop subi p of [] \<Rightarrow> [] | c # cs \<Rightarrow> if c = CHR '','' then cs else c # cs)"

lemma skip_sub_le: "length (skip_sub p n) \<le> length p - n"
  by (auto simp: skip_sub_def split: list.splits dest: arg_cong [of _ _ length])

lemma skip_sub_less: "p \<noteq> [] \<Longrightarrow> n = length (take_sub d p) \<Longrightarrow> n < sub_max \<Longrightarrow> length (skip_sub p n) < length p"
proof (cases "n = 0")
  case True
  assume "p \<noteq> []" "n = length (take_sub d p)"
  with True obtain cs where "p = CHR '','' # cs"
    by (cases p) (auto simp: take_sub_def sub_max_def split: if_splits)
  with True show ?thesis by (simp add: skip_sub_def)
next
  case False
  assume "p \<noteq> []"
  with False skip_sub_le [of p n] show ?thesis by (cases p) auto
qed

function match_items :: "string \<Rightarrow> bool \<Rightarrow> int \<Rightarrow> string \<Rightarrow> int" where
  "match_items str dolower got_positive pattern =
     (if pattern = [] then got_positive
      else
        let negated = (hd pattern = CHR ''!'');
            p = (if negated then tl pattern else pattern);
            sub = take_sub dolower p
        in if length sub \<ge> sub_max then 0
           else
             let rest = skip_sub p (length sub)
             in if match_pattern str sub
                then (if negated then -1 else match_items str dolower 1 rest)
                else match_items str dolower got_positive rest)"
  by pat_completeness auto
termination
proof (relation "measure (\<lambda>(_, _, _, p). length p)", goal_cases)
  case 1
  show ?case by simp
next
  case (2 str dolower got pattern neg p sub rest)
  then show ?case using skip_sub_less [of p _ dolower] by (auto simp: not_le)
next
  case (3 str dolower got pattern neg p sub rest)
  then show ?case
    using skip_sub_less [of p _ dolower] skip_sub_le [of p "length sub"]
    by (cases neg; cases pattern; cases "p = []") (auto simp: not_le)
qed

declare match_items.simps [simp del]

definition match_pattern_list :: "string \<Rightarrow> string \<Rightarrow> bool \<Rightarrow> int" where
  "match_pattern_list str pattern dolower = match_items str dolower 0 pattern"

definition match_hostname :: "string \<Rightarrow> string \<Rightarrow> int" where
  "match_hostname host pattern = match_pattern_list host pattern True"

text \<open>The abstract reading of a pattern list: its comma-separated items, each positive or negated.\<close>

function list_items :: "string \<Rightarrow> string list" where
  "list_items p =
     (if p = [] then []
      else takeWhile (\<lambda>c. c \<noteq> CHR '','') p # list_items (tl (dropWhile (\<lambda>c. c \<noteq> CHR '','') p)))"
  by pat_completeness auto
termination
proof (relation "measure length", goal_cases)
  case (2 p)
  then show ?case
    using length_dropWhile_le [of "\<lambda>c. c \<noteq> CHR '',''" p]
    by (cases p) (auto simp: Suc_le_eq split: if_splits)
qed simp

declare list_items.simps [simp del]

definition item_neg :: "string \<Rightarrow> bool" where
  "item_neg t \<longleftrightarrow> t \<noteq> [] \<and> hd t = CHR ''!''"

definition item_body :: "bool \<Rightarrow> string \<Rightarrow> string" where
  "item_body dolower t =
     map (\<lambda>c. if dolower \<and> isupper c then tolower c else c) (if item_neg t then tl t else t)"

lemma skip_sub_takeWhile:
  "skip_sub p (length (takeWhile (\<lambda>c. c \<noteq> CHR '','') p)) = tl (dropWhile (\<lambda>c. c \<noteq> CHR '','') p)"
  by (induction p) (auto simp: skip_sub_def)

lemma match_items_step:
  assumes "pattern \<noteq> []" "length (item_body d (takeWhile (\<lambda>c. c \<noteq> CHR '','') pattern)) < sub_max"
  shows "match_items str d got pattern =
    (let t = takeWhile (\<lambda>c. c \<noteq> CHR '','') pattern; rest = tl (dropWhile (\<lambda>c. c \<noteq> CHR '','') pattern)
     in if match_pattern str (item_body d t)
        then (if item_neg t then -1 else match_items str d 1 rest)
        else match_items str d got rest)"
proof -
  let ?P = "\<lambda>c. c \<noteq> CHR '',''"
  define neg where "neg \<longleftrightarrow> hd pattern = CHR ''!''"
  define p where "p = (if neg then tl pattern else pattern)"
  from assms(1) obtain c cs where pat: "pattern = c # cs" by (cases pattern) auto
  have n: "item_neg (takeWhile ?P pattern) \<longleftrightarrow> neg" by (auto simp: item_neg_def neg_def pat)
  have p: "takeWhile ?P p = (if neg then tl (takeWhile ?P pattern) else takeWhile ?P pattern)"
    "tl (dropWhile ?P p) = tl (dropWhile ?P pattern)"
    by (auto simp: p_def neg_def pat)
  have len: "length (takeWhile ?P p) < sub_max"
    using assms(2) by (simp add: item_body_def n p split: if_splits)
  then have sub: "take_sub d p = item_body d (takeWhile ?P pattern)"
    by (simp add: take_sub_def item_body_def n p)
  have rest: "skip_sub p (length (item_body d (takeWhile ?P pattern))) = tl (dropWhile ?P pattern)"
  proof -
    have "length (item_body d (takeWhile ?P pattern)) = length (takeWhile ?P p)"
      by (simp add: item_body_def n p(1))
    with skip_sub_takeWhile [of p] show ?thesis by (simp add: p(2))
  qed
  have short: "\<not> sub_max \<le> length (item_body d (takeWhile ?P pattern))"
    using assms(2) by simp
  have "match_items str d got pattern =
    (let sub = take_sub d p
     in if length sub \<ge> sub_max then 0
        else let rest = skip_sub p (length sub)
        in if match_pattern str sub then (if neg then -1 else match_items str d 1 rest)
           else match_items str d got rest)"
    unfolding match_items.simps [of str d got pattern] p_def neg_def Let_def
    using assms(1) by (simp only: if_False)
  then show ?thesis by (simp only: Let_def sub rest n short if_False)
qed

lemma match_items_spec:
  "\<forall>t \<in> set (list_items pattern). length (item_body d t) < sub_max \<Longrightarrow>
   match_items str d got pattern =
     (if \<exists>t \<in> set (list_items pattern). item_neg t \<and> match_pattern str (item_body d t) then -1
      else if \<exists>t \<in> set (list_items pattern). \<not> item_neg t \<and> match_pattern str (item_body d t) then 1
      else got)"
proof (induction pattern arbitrary: got rule: list_items.induct)
  case (1 p)
  show ?case
  proof (cases "p = []")
    case True
    then show ?thesis by (simp add: match_items.simps list_items.simps)
  next
    case False
    note items = list_items.simps [of p]
    from False 1(2) items
    have "length (item_body d (takeWhile (\<lambda>c. c \<noteq> CHR '','') p)) < sub_max" by simp
    note step = match_items_step [OF False this, of str got, unfolded Let_def]
    from 1(2) False items have "\<forall>t \<in> set (list_items (tl (dropWhile (\<lambda>c. c \<noteq> CHR '','') p))).
        length (item_body d t) < sub_max" by simp
    note ih = 1(1) [OF False this]
    from items False show ?thesis
      by (subst step, simp only: ih if_False) auto
  qed
qed

section \<open>\<open>match_list\<close>\<close>

definition MAX_PROP :: nat where "MAX_PROP = 40"

text \<open>The first loop: collect the server's proposals up to the first empty item.\<close>

function collect_props :: "string option \<Rightarrow> nat \<Rightarrow> string list" where
  "collect_props sp i =
     (case strsep is_comma sp of
        (None, _) \<Rightarrow> []
      | (Some p, sp') \<Rightarrow>
          if p = [] then []
          else if i < MAX_PROP then p # collect_props sp' (i + 1) else [])"
  by pat_completeness auto
termination
  by (relation "measure (\<lambda>(p, _). strsep_size p)") (auto dest: strsep_decreases [OF sym])

text \<open>The second loop; the position is \<open>cp - c\<close> when tokens remain.  After \<open>strsep\<close> has cut the copy
  of the client list, \<open>strlen(c)\<close> is the length of its first token.\<close>

function search_props :: "string \<Rightarrow> string list \<Rightarrow> string option \<Rightarrow> string option \<times> nat" where
  "search_props client sproposals cp =
     (let strlen_c = length (takeWhile (\<lambda>c. \<not> is_comma c) client)
      in case strsep is_comma cp of
           (None, _) \<Rightarrow> (None, strlen_c)
         | (Some p, cp') \<Rightarrow>
             if p = [] then (None, strlen_c)
             else if p \<in> set sproposals
             then (Some p, case cp' of None \<Rightarrow> strlen_c | Some q \<Rightarrow> length client - length q)
             else search_props client sproposals cp')"
  by pat_completeness auto
termination
  by (relation "measure (\<lambda>(_, _, p). strsep_size p)") (auto dest: strsep_decreases [OF sym])

declare collect_props.simps [simp del] search_props.simps [simp del]

definition match_list :: "string \<Rightarrow> string \<Rightarrow> string option \<times> nat" where
  "match_list client server = search_props client (collect_props (Some server) 0) (Some client)"

text \<open>The items of a name list: the tokens before the first empty one.\<close>

definition names :: "string \<Rightarrow> string list" where
  "names s = takeWhile (\<lambda>t. t \<noteq> []) (tokens is_comma (Some s))"

lemma collect_props_eq:
  "i \<le> MAX_PROP \<Longrightarrow> collect_props sp i = take (MAX_PROP - i) (takeWhile (\<lambda>t. t \<noteq> []) (tokens is_comma sp))"
proof (induction sp i rule: collect_props.induct)
  case (1 sp i)
  show ?case
  proof (cases "strsep is_comma sp")
    case (Pair a q)
    show ?thesis
    proof (cases a)
      case None
      with Pair show ?thesis by (simp add: collect_props.simps [of sp] tokens.simps [of is_comma sp])
    next
      case (Some p)
      with 1 Pair show ?thesis
        by (cases "MAX_PROP - i")
          (auto simp: collect_props.simps [of sp] tokens.simps [of is_comma sp] Suc_diff_Suc
            intro!: arg_cong2 [of _ _ _ _ take])
    qed
  qed
qed

lemma search_props_eq:
  "fst (search_props c ps cp) = find (\<lambda>t. t \<in> set ps) (takeWhile (\<lambda>t. t \<noteq> []) (tokens is_comma cp))"
proof (induction c ps cp rule: search_props.induct)
  case (1 c ps cp)
  show ?case
  proof (cases "strsep is_comma cp")
    case (Pair a q)
    with 1 show ?thesis
      by (cases a) (auto simp: search_props.simps [of c ps cp] tokens.simps [of is_comma cp])
  qed
qed

lemma match_list_eq:
  "fst (match_list client server) = find (\<lambda>t. t \<in> set (take MAX_PROP (names server))) (names client)"
  by (simp add: match_list_def search_props_eq collect_props_eq names_def)

lemma find_first:
  "find P ts = Some x \<longleftrightarrow> (\<exists>pre post. ts = pre @ x # post \<and> P x \<and> (\<forall>y \<in> set pre. \<not> P y))"
proof (induction ts)
  case (Cons t ts)
  show ?case
  proof (cases "P t")
    case True
    then show ?thesis by (auto simp: Cons_eq_append_conv)
  next
    case False
    then have "(\<exists>pre post. t # ts = pre @ x # post \<and> P x \<and> (\<forall>y \<in> set pre. \<not> P y)) \<longleftrightarrow>
        (\<exists>pre post. ts = pre @ x # post \<and> P x \<and> (\<forall>y \<in> set pre. \<not> P y))"
      by (auto simp: Cons_eq_append_conv) (metis set_ConsD)
    with Cons False show ?thesis by simp
  qed
qed simp

lemma names_join:
  assumes "\<forall>t \<in> set ts. t \<noteq> [] \<and> CHR '','' \<notin> set t"
  shows "names (join_comma ts) = ts"
proof (cases "ts = []")
  case True
  then show ?thesis by (simp add: names_def tokens_no_delim)
next
  case False
  with assms have "takeWhile (\<lambda>t. t \<noteq> []) ts = ts" by (simp add: takeWhile_eq_all_conv)
  with False assms show ?thesis by (simp add: names_def tokens_join)
qed

lemma names_nonempty: "t \<in> set (names s) \<Longrightarrow> t \<noteq> []"
  by (auto simp: names_def dest: set_takeWhileD)

section \<open>Properties\<close>

text \<open>C16: \<open>match_pattern\<close> accepts a string only if the string matches the pattern with \<open>?\<close> for any
  one character and \<open>*\<close> for any number of characters, and accepts every such string unless the
  pattern ends in two asterisks.\<close>

theorem match_pattern_glob:
  "(match_pattern s p \<longrightarrow> glob p s) \<and>
   (\<not> suffix two_stars p \<longrightarrow> (match_pattern s p \<longleftrightarrow> glob p s))"
  using match_pattern_sound match_pattern_complete by blast

theorem match_pattern_glob_witness:
  "match_pattern ''host.example'' ''h*.e?ample'' \<and> \<not> match_pattern ''host'' ''h*x'' \<and>
   glob ''h*.e?ample'' ''host.example''"
proof -
  have "match_pattern ''host.example'' ''h*.e?ample''" "\<not> match_pattern ''host'' ''h*x''" by code_simp+
  then show ?thesis using match_pattern_glob [of "''host.example''" "''h*.e?ample''"] by simp
qed

text \<open>A pattern that ends in two asterisks does not match the string that ends where they begin,
  although each asterisk stands for any number of characters: the loop for an asterisk followed by
  another one gives up at the end of the string.\<close>

lemma match_pattern_double_star:
  "\<not> match_pattern ''ab'' ''ab**'' \<and> glob ''ab**'' ''ab'' \<and> match_pattern ''ab'' ''ab*''"
proof -
  have "\<not> match_pattern ''ab'' ''ab**''" "match_pattern ''ab'' ''ab*''" by code_simp+
  then show ?thesis by (simp add: glob_plain glob_star)
qed

text \<open>\<open>match_pattern_list\<close> returns -1 if some negated item matches, 1 if none does and some
  positive item matches, and 0 otherwise, whatever the order of the items, provided every item
  fits the 1023 characters of the local buffer.\<close>

lemma match_pattern_list_spec:
  assumes "\<forall>t \<in> set (list_items pattern). length (item_body dolower t) < sub_max"
  shows "match_pattern_list str pattern dolower =
     (if \<exists>t \<in> set (list_items pattern). item_neg t \<and> match_pattern str (item_body dolower t) then -1
      else if \<exists>t \<in> set (list_items pattern). \<not> item_neg t \<and> match_pattern str (item_body dolower t)
      then 1 else 0)"
  by (simp add: match_pattern_list_def match_items_spec [OF assms])

text \<open>\<open>match_list\<close> returns \<open>x\<close> exactly if \<open>x\<close> is the first name of the client's list that is among
  the first 40 names of the server's list; a list ends at its first empty name.\<close>

lemma match_list_first_common:
  "fst (match_list client server) = Some x \<longleftrightarrow>
   (\<exists>pre post. names client = pre @ x # post \<and> x \<in> set (take MAX_PROP (names server)) \<and>
      (\<forall>y \<in> set pre. y \<notin> set (take MAX_PROP (names server))))"
  by (simp only: match_list_eq find_first)

end
