(* ===== verification/Addrmatch.thy ===== *)
theory Addrmatch
  imports Match
begin

unbundle bit_operations_syntax

text \<open>
  Network address matching: \<^verbatim>\<open>src/openssh-7.2p2/addrmatch.c\<close> and the two functions of
  \<^verbatim>\<open>match.c\<close> that use it.  The numeric address parser \<open>getaddrinfo\<close> is a parameter \<open>gai\<close>: the
  socket address and its length that it returns for a string, or \<^term>\<open>None\<close> for an error.  The words
  of an address are kept in host byte order, the value that \<open>ntohl\<close> gives; masks are built with
  \<open>htonl\<close> in the source, so that the bitwise operations agree.
\<close>

section \<open>Data\<close>

datatype family = AF_INET | AF_INET6 | AF_OTHER nat

record xaddr =
  xa_af :: family
  xa_32 :: "32 word list"
  xa_scope :: "32 word"

record sockaddr =
  sa_fam :: family
  sin_addr :: "32 word"
  sin6_addr :: "32 word list"
  sin6_scope_id :: "32 word"

type_synonym gai = "string \<Rightarrow> (sockaddr \<times> nat) option"

definition zero_xaddr :: xaddr where
  "zero_xaddr = \<lparr>xa_af = AF_OTHER 0, xa_32 = [0, 0, 0, 0], xa_scope = 0\<rparr>"

section \<open>Operations\<close>

fun addr_unicast_masklen :: "family \<Rightarrow> int" where
  "addr_unicast_masklen AF_INET = 32"
| "addr_unicast_masklen AF_INET6 = 128"
| "addr_unicast_masklen (AF_OTHER _) = -1"

fun masklen_valid :: "family \<Rightarrow> nat \<Rightarrow> bool" where
  "masklen_valid AF_INET l \<longleftrightarrow> l \<le> 32"
| "masklen_valid AF_INET6 l \<longleftrightarrow> l \<le> 128"
| "masklen_valid (AF_OTHER _) l \<longleftrightarrow> False"

text \<open>\<open>sizeof(struct sockaddr_in)\<close> and \<open>sizeof(struct sockaddr_in6)\<close>\<close>

definition sizeof_in4 :: nat where "sizeof_in4 = 16"
definition sizeof_in6 :: nat where "sizeof_in6 = 28"

definition addr_sa_to_xaddr :: "sockaddr \<Rightarrow> nat \<Rightarrow> xaddr option" where
  "addr_sa_to_xaddr sa slen =
     (case sa_fam sa of
        AF_INET \<Rightarrow>
          if slen < sizeof_in4 then None
          else Some (zero_xaddr\<lparr>xa_af := AF_INET, xa_32 := [sin_addr sa, 0, 0, 0]\<rparr>)
      | AF_INET6 \<Rightarrow>
          if slen < sizeof_in6 then None
          else Some (zero_xaddr\<lparr>xa_af := AF_INET6, xa_32 := sin6_addr sa, xa_scope := sin6_scope_id sa\<rparr>)
      | AF_OTHER _ \<Rightarrow> None)"

text \<open>\<^verbatim>\<open>(0xffffffff << (32 - l)) & 0xffffffff\<close>\<close>

definition mask_word :: "nat \<Rightarrow> 32 word" where
  "mask_word l = push_bit (32 - l) 0xffffffff AND 0xffffffff"

fun netmask_words :: "nat \<Rightarrow> nat \<Rightarrow> 32 word list" where
  "netmask_words 0 l = []"
| "netmask_words (Suc n) l =
     (if l \<ge> 32 then 0xffffffff # netmask_words n (l - 32)
      else (if l \<noteq> 0 then mask_word l else 0) # replicate n 0)"

definition addr_netmask :: "family \<Rightarrow> nat \<Rightarrow> xaddr option" where
  "addr_netmask af l =
     (if \<not> masklen_valid af l then None
      else case af of
        AF_INET \<Rightarrow>
          Some (if l = 0 then zero_xaddr\<lparr>xa_af := AF_INET\<rparr>
                else zero_xaddr\<lparr>xa_af := AF_INET, xa_32 := [mask_word l, 0, 0, 0]\<rparr>)
      | AF_INET6 \<Rightarrow> Some (zero_xaddr\<lparr>xa_af := AF_INET6, xa_32 := netmask_words 4 l\<rparr>)
      | AF_OTHER _ \<Rightarrow> None)"

definition addr_and :: "xaddr \<Rightarrow> xaddr \<Rightarrow> xaddr option" where
  "addr_and a b =
     (if xa_af a \<noteq> xa_af b then None
      else case xa_af a of
        AF_INET \<Rightarrow> Some (a\<lparr>xa_32 := (xa_32 a)[0 := xa_32 a ! 0 AND xa_32 b ! 0]\<rparr>)
      | AF_INET6 \<Rightarrow> Some (a\<lparr>xa_scope := xa_scope a, xa_32 := map2 (AND) (xa_32 a) (xa_32 b)\<rparr>)
      | AF_OTHER _ \<Rightarrow> None)"

text \<open>The byte loop of \<open>addr_cmp\<close>, most significant byte first, is the comparison word by word.\<close>

fun cmp_words :: "32 word list \<Rightarrow> 32 word list \<Rightarrow> int" where
  "cmp_words (a # as) (b # bs) =
     (if a \<noteq> b then (if a > b then 1 else -1) else cmp_words as bs)"
| "cmp_words _ _ = 0"

definition addr_cmp :: "xaddr \<Rightarrow> xaddr \<Rightarrow> int" where
  "addr_cmp a b =
     (if xa_af a \<noteq> xa_af b then (if xa_af a = AF_INET6 then 1 else -1)
      else case xa_af a of
        AF_INET \<Rightarrow>
          if xa_32 a ! 0 = xa_32 b ! 0 then 0 else if xa_32 a ! 0 > xa_32 b ! 0 then 1 else -1
      | AF_INET6 \<Rightarrow>
          if cmp_words (xa_32 a) (xa_32 b) \<noteq> 0 then cmp_words (xa_32 a) (xa_32 b)
          else if xa_scope a = xa_scope b then 0 else if xa_scope a > xa_scope b then 1 else -1
      | AF_OTHER _ \<Rightarrow> -1)"

definition addr_pton :: "gai \<Rightarrow> string \<Rightarrow> xaddr option" where
  "addr_pton gai p =
     (case gai p of None \<Rightarrow> None | Some (sa, slen) \<Rightarrow> addr_sa_to_xaddr sa slen)"

definition addr_invert :: "xaddr \<Rightarrow> xaddr option" where
  "addr_invert n =
     (case xa_af n of
        AF_INET \<Rightarrow> Some (n\<lparr>xa_32 := (xa_32 n)[0 := NOT (xa_32 n ! 0)]\<rparr>)
      | AF_INET6 \<Rightarrow> Some (n\<lparr>xa_32 := map NOT (xa_32 n)\<rparr>)
      | AF_OTHER _ \<Rightarrow> None)"

definition addr_hostmask :: "family \<Rightarrow> nat \<Rightarrow> xaddr option" where
  "addr_hostmask af l =
     (case addr_netmask af l of None \<Rightarrow> None | Some n \<Rightarrow> addr_invert n)"

definition addr_is_all0s :: "xaddr \<Rightarrow> bool" where
  "addr_is_all0s a =
     (case xa_af a of
        AF_INET \<Rightarrow> xa_32 a ! 0 = 0
      | AF_INET6 \<Rightarrow> list_all (\<lambda>w. w = 0) (xa_32 a)
      | AF_OTHER _ \<Rightarrow> False)"

definition addr_host_is_all0s :: "xaddr \<Rightarrow> nat \<Rightarrow> bool" where
  "addr_host_is_all0s a masklen =
     (case addr_hostmask (xa_af a) masklen of None \<Rightarrow> False | Some m \<Rightarrow>
      case addr_and a m of None \<Rightarrow> False | Some r \<Rightarrow> addr_is_all0s r)"

datatype cidr = Cidr_error | Cidr_inconsistent | Cidr xaddr nat

text \<open>The conversion of \<open>masklen\<close> from \<open>int\<close> to \<open>unsigned long\<close> for an unknown family gives a huge
  number, which is no valid length; \<^verbatim>\<open>nat\<close> of -1 is 0 and is refused for such a family too.\<close>

definition addr_pton_cidr :: "gai \<Rightarrow> string \<Rightarrow> cidr" where
  "addr_pton_cidr gai p =
     (if length p \<ge> 64 then Cidr_error
      else
        let addrbuf = takeWhile (\<lambda>c. c \<noteq> CHR ''/'') p;
            mp = (case dropWhile (\<lambda>c. c \<noteq> CHR ''/'') p of [] \<Rightarrow> None | _ # m \<Rightarrow> Some m)
        in if (case mp of None \<Rightarrow> False
               | Some m \<Rightarrow> m = [] \<or> snd (strtoul m) \<noteq> [] \<or> fst (strtoul m) > 128)
           then Cidr_error
           else
             (case addr_pton gai addrbuf of
                None \<Rightarrow> Cidr_error
              | Some tmp \<Rightarrow>
                  let masklen = (case mp of None \<Rightarrow> nat (addr_unicast_masklen (xa_af tmp))
                                 | Some m \<Rightarrow> fst (strtoul m))
                  in if \<not> masklen_valid (xa_af tmp) masklen then Cidr_inconsistent
                     else if \<not> addr_host_is_all0s tmp masklen then Cidr_inconsistent
                     else Cidr tmp masklen))"

definition addr_netmatch :: "xaddr \<Rightarrow> xaddr \<Rightarrow> nat \<Rightarrow> int" where
  "addr_netmatch host net masklen =
     (if xa_af host \<noteq> xa_af net then -1
      else case addr_netmask (xa_af host) masklen of None \<Rightarrow> -1 | Some tmp_mask \<Rightarrow>
      case addr_and host tmp_mask of None \<Rightarrow> -1 | Some r \<Rightarrow> addr_cmp r net)"

text \<open>One entry of a list against the address, if there is one: does it match?\<close>

definition entry_found :: "gai \<Rightarrow> (string \<times> xaddr) option \<Rightarrow> string \<Rightarrow> bool" where
  "entry_found gai tried cp =
     (case tried of None \<Rightarrow> False | Some (addr, try_addr) \<Rightarrow>
      case addr_pton_cidr gai cp of
        Cidr match_addr masklen \<Rightarrow> addr_netmatch try_addr match_addr masklen = 0
      | _ \<Rightarrow> match_pattern addr cp)"

function addr_list_loop :: "gai \<Rightarrow> (string \<times> xaddr) option \<Rightarrow> string option \<Rightarrow> int \<Rightarrow> int" where
  "addr_list_loop gai tried list ret =
     (case strsep is_comma list of (None, _) \<Rightarrow> ret | (Some cp, list') \<Rightarrow>
        let neg = (cp \<noteq> [] \<and> hd cp = CHR ''!'');
            cp = (if neg then tl cp else cp)
        in if cp = [] then -2
           else if addr_pton_cidr gai cp = Cidr_inconsistent then -2
           else if entry_found gai tried cp
           then (if neg then -1 else addr_list_loop gai tried list' 1)
           else addr_list_loop gai tried list' ret)"
  by pat_completeness auto
termination
  by (relation "measure (\<lambda>(_, _, l, _). strsep_size l)") (auto dest: strsep_decreases [OF sym])

declare addr_list_loop.simps [simp del]

text \<open>\<open>dup\<close> says whether \<open>strdup\<close> succeeds.  A null \<open>addr\<close> asks for a check of the list only.\<close>

definition addr_match_list :: "gai \<Rightarrow> bool \<Rightarrow> string option \<Rightarrow> string \<Rightarrow> int" where
  "addr_match_list gai dup addr lst =
     (case addr of
        None \<Rightarrow> if dup then addr_list_loop gai None (Some lst) 0 else -1
      | Some a \<Rightarrow>
          (case addr_pton gai a of
             None \<Rightarrow> 0
           | Some x \<Rightarrow> if dup then addr_list_loop gai (Some (a, x)) (Some lst) 0 else -1))"

definition INET6_ADDRSTRLEN :: nat where "INET6_ADDRSTRLEN = 46"

definition VALID_CIDR_CHARS :: string where
  "VALID_CIDR_CHARS = ''0123456789abcdefABCDEF.:/''"

function cidr_list_loop :: "gai \<Rightarrow> xaddr option \<Rightarrow> string option \<Rightarrow> int \<Rightarrow> int" where
  "cidr_list_loop gai tried list ret =
     (case strsep is_comma list of (None, _) \<Rightarrow> ret | (Some cp, list') \<Rightarrow>
        if cp = [] then -1
        else if length cp > INET6_ADDRSTRLEN + 3 then -1
        else
          let ret = (if \<not> set cp \<subseteq> set VALID_CIDR_CHARS then -1 else ret)
          in (case addr_pton_cidr gai cp of
                Cidr_error \<Rightarrow> -1
              | Cidr_inconsistent \<Rightarrow> -1
              | Cidr match_addr masklen \<Rightarrow>
                  (case tried of
                     None \<Rightarrow> cidr_list_loop gai tried list' ret
                   | Some try_addr \<Rightarrow>
                       cidr_list_loop gai tried list'
                         (if addr_netmatch try_addr match_addr masklen = 0 then 1 else ret))))"
  by pat_completeness auto
termination
  by (relation "measure (\<lambda>(_, _, l, _). strsep_size l)") (auto dest: strsep_decreases [OF sym])

declare cidr_list_loop.simps [simp del]

definition addr_match_cidr_list :: "gai \<Rightarrow> bool \<Rightarrow> string option \<Rightarrow> string \<Rightarrow> int" where
  "addr_match_cidr_list gai dup addr lst =
     (case addr of
        None \<Rightarrow> if dup then cidr_list_loop gai None (Some lst) 0 else -1
      | Some a \<Rightarrow>
          (case addr_pton gai a of
             None \<Rightarrow> 0
           | Some x \<Rightarrow> if dup then cidr_list_loop gai (Some x) (Some lst) 0 else -1))"

text \<open>The callers in \<^verbatim>\<open>match.c\<close>.\<close>

definition match_host_and_ip :: "gai \<Rightarrow> bool \<Rightarrow> string \<Rightarrow> string \<Rightarrow> string \<Rightarrow> int" where
  "match_host_and_ip gai dup host ipaddr patterns =
     (let mip = addr_match_list gai dup (Some ipaddr) patterns
      in if mip = -2 then -1
         else if mip = -1 then 0
         else
           let mhost = match_hostname host patterns
           in if mhost = -1 then 0
              else if mhost = 0 \<and> mip = 0 then 0
              else 1)"

definition match_user :: "gai \<Rightarrow> bool \<Rightarrow> string \<Rightarrow> string \<Rightarrow> string \<Rightarrow> string \<Rightarrow> int" where
  "match_user gai dup user host ipaddr pattern =
     (case dropWhile (\<lambda>c. c \<noteq> CHR ''@'') pattern of
        [] \<Rightarrow> if match_pattern user pattern then 1 else 0
      | _ # p \<Rightarrow>
          if match_pattern user (takeWhile (\<lambda>c. c \<noteq> CHR ''@'') pattern)
          then match_host_and_ip gai dup host ipaddr p
          else 0)"

section \<open>Addresses as bit strings\<close>

text \<open>Bit \<open>n\<close> of an address counts from the most significant bit of its first byte.\<close>

definition words_bit :: "32 word list \<Rightarrow> nat \<Rightarrow> bool" where
  "words_bit ws n = bit (ws ! (n div 32)) (31 - n mod 32)"

abbreviation addr_bit :: "xaddr \<Rightarrow> nat \<Rightarrow> bool" where
  "addr_bit x n \<equiv> words_bit (xa_32 x) n"

fun addr_len :: "family \<Rightarrow> nat" where
  "addr_len AF_INET = 32"
| "addr_len AF_INET6 = 128"
| "addr_len (AF_OTHER _) = 0"

definition xaddr_wf :: "xaddr \<Rightarrow> bool" where
  "xaddr_wf x \<longleftrightarrow> length (xa_32 x) = 4 \<and> (xa_af x = AF_INET \<or> xa_af x = AF_INET6)"

lemma masklen_valid_le: "masklen_valid af l \<Longrightarrow> l \<le> addr_len af"
  by (cases af) simp_all

lemma words_bit_Cons:
  "words_bit (w # ws) n = (if n < 32 then bit w (31 - n) else words_bit ws (n - 32))"
proof (cases "n < 32")
  case False
  then have "n div 32 = Suc ((n - 32) div 32)" "n mod 32 = (n - 32) mod 32"
    by (simp_all add: le_div_geq le_mod_geq)
  with False show ?thesis by (simp add: words_bit_def)
qed (simp add: words_bit_def)

lemma bit_mask_word: "0 < l \<Longrightarrow> l \<le> 32 \<Longrightarrow> n < 32 \<Longrightarrow> bit (mask_word l) (31 - n) \<longleftrightarrow> n < l"
proof -
  assume l: "0 < l" "l \<le> 32" and n: "n < 32"
  have ones: "(0xffffffff :: 32 word) = - 1" by simp
  show ?thesis
    using l n unfolding mask_word_def ones by (auto simp: bit_simps)
qed

lemma netmask_words_bit:
  "l \<le> 32 * n \<Longrightarrow> m < 32 * n \<Longrightarrow> words_bit (netmask_words n l) m \<longleftrightarrow> m < l"
proof (induction n arbitrary: l m)
  case (Suc n)
  have ones: "(0xffffffff :: 32 word) = - 1" by simp
  have zeros: "k < 32 * n \<Longrightarrow> \<not> words_bit (replicate n 0) k" for k
    by (simp add: words_bit_def less_mult_imp_div_less mult.commute)
  show ?case
  proof (cases "l \<ge> 32")
    case True
    with Suc.IH [of "l - 32" "m - 32"] Suc.prems show ?thesis
      unfolding netmask_words.simps if_P [OF True] ones by (auto simp: words_bit_Cons)
  next
    case False
    with bit_mask_word [of l m] zeros [of "m - 32"] Suc.prems show ?thesis
      by (auto simp: words_bit_Cons)
  qed
qed simp

lemma length_netmask_words [simp]: "length (netmask_words n l) = n"
  by (induction n arbitrary: l) auto

lemma netmask_words_4: "length (netmask_words 4 l) = 4" by (rule length_netmask_words)

lemma addr_netmask_bits:
  assumes "addr_netmask af l = Some m"
  shows "xa_af m = af" "xaddr_wf m" "n < addr_len af \<Longrightarrow> addr_bit m n \<longleftrightarrow> n < l"
proof -
  have v: "masklen_valid af l" using assms by (auto simp: addr_netmask_def split: if_splits)
  show "xa_af m = af" "xaddr_wf m"
    using assms netmask_words_4 [of l]
    by (auto simp: addr_netmask_def zero_xaddr_def xaddr_wf_def split: if_splits family.splits)
  show "addr_bit m n \<longleftrightarrow> n < l" if n: "n < addr_len af"
  proof (cases af)
    case AF_INET
    with assms v n bit_mask_word [of l n] show ?thesis
      by (auto simp: addr_netmask_def zero_xaddr_def words_bit_Cons split: if_splits)
  next
    case AF_INET6
    with assms v n netmask_words_bit [of l 4 n] show ?thesis
      by (auto simp: addr_netmask_def zero_xaddr_def split: if_splits)
  qed (use n in simp)
qed

lemma addr_netmask_total: "masklen_valid af l \<Longrightarrow> \<exists>m. addr_netmask af l = Some m"
  by (cases af) (auto simp: addr_netmask_def)

lemma words_bit_map2:
  "length as = length bs \<Longrightarrow> n < 32 * length as \<Longrightarrow>
   words_bit (map2 (AND) as bs) n \<longleftrightarrow> words_bit as n \<and> words_bit bs n"
  by (auto simp: words_bit_def bit_and_iff less_mult_imp_div_less mult.commute)

lemma addr_and_bits:
  assumes "xaddr_wf a" "xaddr_wf b" "xa_af a = xa_af b"
  shows "\<exists>r. addr_and a b = Some r \<and> xa_af r = xa_af a \<and> xaddr_wf r \<and> xa_scope r = xa_scope a \<and>
    (\<forall>n < addr_len (xa_af a). addr_bit r n \<longleftrightarrow> addr_bit a n \<and> addr_bit b n)"
proof (cases "xa_af a")
  case AF_INET
  with assms show ?thesis
    by (auto simp: addr_and_def xaddr_wf_def words_bit_def bit_and_iff)
next
  case AF_INET6
  with assms words_bit_map2 [of "xa_32 a" "xa_32 b"] show ?thesis
    by (auto simp: addr_and_def xaddr_wf_def)
qed (use assms in \<open>auto simp: xaddr_wf_def\<close>)

lemma word_eq_msb: "(\<forall>n < 32. bit (a :: 32 word) (31 - n) = bit b (31 - n)) \<longleftrightarrow> a = b"
proof
  assume h: "\<forall>n < 32. bit a (31 - n) = bit b (31 - n)"
  show "a = b"
  proof (rule bit_word_eqI)
    fix n assume "n < LENGTH(32)"
    with h [rule_format, of "31 - n"] show "bit a n = bit b n" by simp
  qed
qed simp

lemma words_eq_bits:
  "length as = length bs \<Longrightarrow> (\<forall>n < 32 * length as. words_bit as n = words_bit bs n) \<longleftrightarrow> as = bs"
proof (induction as bs rule: list_induct2)
  case (Cons a as b bs)
  have split: "(\<forall>n < 32 * length (a # as). P n) \<longleftrightarrow> (\<forall>n < 32. P n) \<and> (\<forall>n < 32 * length as. P (n + 32))"
    for P :: "nat \<Rightarrow> bool"
  proof -
    have "P n" if "\<forall>n < 32. P n" "\<forall>n < 32 * length as. P (n + 32)" "n < 32 * length (a # as)" for n
      using that(1) that(2)[rule_format, of "n - 32"] that(3) by (cases "n < 32") auto
    then show ?thesis by auto
  qed
  show ?case
    unfolding split using Cons.IH word_eq_msb [of a b] by (simp add: words_bit_Cons)
qed simp

lemma cmp_words_zero: "length as = length bs \<Longrightarrow> cmp_words as bs = 0 \<longleftrightarrow> as = bs"
  by (induction as bs rule: list_induct2) auto

lemma addr_cmp_zero:
  assumes "xaddr_wf a" "xaddr_wf b" "xa_af a = xa_af b"
  shows "addr_cmp a b = 0 \<longleftrightarrow> (\<forall>n < addr_len (xa_af a). addr_bit a n = addr_bit b n) \<and>
    (xa_af a = AF_INET6 \<longrightarrow> xa_scope a = xa_scope b)"
proof (cases "xa_af a")
  case AF_INET
  with assms word_eq_msb [of "xa_32 a ! 0" "xa_32 b ! 0"] show ?thesis
    by (simp add: addr_cmp_def words_bit_def)
next
  case AF_INET6
  with assms words_eq_bits [of "xa_32 a" "xa_32 b"] cmp_words_zero [of "xa_32 a" "xa_32 b"]
  show ?thesis by (auto simp: addr_cmp_def xaddr_wf_def)
qed (use assms in \<open>auto simp: xaddr_wf_def\<close>)

section \<open>Prefix matching\<close>

lemma netmatch_bits:
  assumes "xaddr_wf host" "xaddr_wf net" "xa_af host = xa_af net" "masklen_valid (xa_af net) l"
  shows "addr_netmatch host net l = 0 \<longleftrightarrow>
    (\<forall>n < addr_len (xa_af net). addr_bit net n \<longleftrightarrow> n < l \<and> addr_bit host n) \<and>
    (xa_af net = AF_INET6 \<longrightarrow> xa_scope host = xa_scope net)"
proof -
  obtain m where m: "addr_netmask (xa_af host) l = Some m"
    using addr_netmask_total assms by metis
  note mb = addr_netmask_bits [OF m]
  obtain r where r: "addr_and host m = Some r" "xa_af r = xa_af host" "xaddr_wf r"
    "xa_scope r = xa_scope host"
    "\<forall>n < addr_len (xa_af host). addr_bit r n \<longleftrightarrow> addr_bit host n \<and> addr_bit m n"
    using addr_and_bits [OF assms(1) mb(2)] mb(1) by auto
  have "addr_netmatch host net l = addr_cmp r net"
    using assms(3) m r(1) by (simp add: addr_netmatch_def)
  with addr_cmp_zero [OF r(3) assms(2)] r mb(3) assms(3) show ?thesis by auto
qed

lemma addr_invert_bits:
  assumes "xaddr_wf m"
  shows "\<exists>r. addr_invert m = Some r \<and> xa_af r = xa_af m \<and> xaddr_wf r \<and>
    (\<forall>n < addr_len (xa_af m). addr_bit r n \<longleftrightarrow> \<not> addr_bit m n)"
  using assms
  by (cases "xa_af m") (auto simp: addr_invert_def xaddr_wf_def words_bit_def bit_not_iff)

lemma all0s_bits:
  assumes "xaddr_wf r"
  shows "addr_is_all0s r \<longleftrightarrow> (\<forall>n < addr_len (xa_af r). \<not> addr_bit r n)"
proof (cases "xa_af r")
  case AF_INET
  with word_eq_msb [of "xa_32 r ! 0" 0] show ?thesis by (simp add: addr_is_all0s_def words_bit_def)
next
  case AF_INET6
  let ?z = "replicate 4 0 :: 32 word list"
  have "words_bit ?z n = False" if "n < 128" for n
    using that less_mult_imp_div_less [of n 4 32] by (simp add: words_bit_def)
  moreover have "list_all (\<lambda>w. w = 0) (xa_32 r) \<longleftrightarrow> xa_32 r = ?z"
    using assms replicate_eqI [of "xa_32 r" 4 0] by (auto simp: xaddr_wf_def list_all_iff)
  ultimately show ?thesis
    using AF_INET6 assms words_eq_bits [of "xa_32 r" ?z] by (simp add: addr_is_all0s_def xaddr_wf_def)
qed (use assms in \<open>auto simp: xaddr_wf_def\<close>)

lemma host_all0s_bits:
  assumes "xaddr_wf a" "masklen_valid (xa_af a) l"
  shows "addr_host_is_all0s a l \<longleftrightarrow> (\<forall>n < addr_len (xa_af a). l \<le> n \<longrightarrow> \<not> addr_bit a n)"
proof -
  obtain m where m: "addr_netmask (xa_af a) l = Some m" using addr_netmask_total assms by metis
  note mb = addr_netmask_bits [OF m]
  obtain i where i: "addr_invert m = Some i" "xa_af i = xa_af m" "xaddr_wf i"
    "\<forall>n < addr_len (xa_af m). addr_bit i n \<longleftrightarrow> \<not> addr_bit m n"
    using addr_invert_bits [OF mb(2)] by auto
  obtain r where r: "addr_and a i = Some r" "xa_af r = xa_af a" "xaddr_wf r"
    "\<forall>n < addr_len (xa_af a). addr_bit r n \<longleftrightarrow> addr_bit a n \<and> addr_bit i n"
    using addr_and_bits [OF assms(1) i(3)] i(2) mb(1) by auto
  have "addr_host_is_all0s a l = addr_is_all0s r"
    using m i(1) r(1) by (simp add: addr_host_is_all0s_def addr_hostmask_def)
  with all0s_bits [OF r(3)] r i mb show ?thesis by (auto simp: not_less)
qed

text \<open>What the code relies on from \<open>getaddrinfo\<close>: an IPv6 address has four words.\<close>

definition gai_wf :: "gai \<Rightarrow> bool" where
  "gai_wf gai \<longleftrightarrow> (\<forall>p sa n. gai p = Some (sa, n) \<longrightarrow> length (sin6_addr sa) = 4)"

lemma gai_wfD: "gai_wf gai \<Longrightarrow> gai p = Some (sa, n) \<Longrightarrow> length (sin6_addr sa) = 4"
  unfolding gai_wf_def by blast

lemma addr_pton_wf: "gai_wf gai \<Longrightarrow> addr_pton gai p = Some x \<Longrightarrow> xaddr_wf x"
  by (cases "gai p") (auto simp: addr_pton_def addr_sa_to_xaddr_def gai_wfD zero_xaddr_def xaddr_wf_def
      split: family.splits if_splits)

lemma addr_pton_cidr_wf:
  assumes "gai_wf gai" "addr_pton_cidr gai p = Cidr net l"
  shows "xaddr_wf net" "masklen_valid (xa_af net) l" "addr_host_is_all0s net l"
  using assms addr_pton_wf [OF assms(1)]
  by (auto simp: addr_pton_cidr_def Let_def split: if_splits option.splits)

section \<open>Lists of networks\<close>

definition entry_body :: "string \<Rightarrow> string" where
  "entry_body t = (if item_neg t then tl t else t)"

definition entry_bad :: "gai \<Rightarrow> string \<Rightarrow> bool" where
  "entry_bad gai t \<longleftrightarrow> entry_body t = [] \<or> addr_pton_cidr gai (entry_body t) = Cidr_inconsistent"

abbreviation entry_hit :: "gai \<Rightarrow> (string \<times> xaddr) option \<Rightarrow> string \<Rightarrow> bool" where
  "entry_hit gai tried t \<equiv> entry_found gai tried (entry_body t)"

lemma addr_list_loop_eq:
  "addr_list_loop gai tried list ret =
     (case find (\<lambda>t. entry_bad gai t \<or> item_neg t \<and> entry_hit gai tried t) (tokens is_comma list) of
        Some t \<Rightarrow> if entry_bad gai t then -2 else -1
      | None \<Rightarrow> if \<exists>t \<in> set (tokens is_comma list). entry_hit gai tried t then 1 else ret)"
proof (induction list arbitrary: ret rule: measure_induct_rule [of strsep_size])
  case (less list)
  obtain a q where s: "strsep is_comma list = (a, q)" by fastforce
  show ?case
  proof (cases a)
    case None
    with s show ?thesis by (simp add: addr_list_loop.simps [of gai tried list] tokens.simps [of is_comma list])
  next
    case (Some t)
    have tok: "tokens is_comma list = t # tokens is_comma q"
      using s Some by (subst tokens.simps) simp
    have step: "addr_list_loop gai tried list ret =
      (if entry_bad gai t then -2
       else if entry_hit gai tried t then (if item_neg t then -1 else addr_list_loop gai tried q 1)
       else addr_list_loop gai tried q ret)"
      using s Some
      by (simp add: addr_list_loop.simps [of gai tried list] entry_bad_def entry_body_def item_neg_def
          Let_def)
    from s Some have "strsep_size q < strsep_size list" by (simp add: strsep_decreases)
    from less [OF this] show ?thesis
      by (auto simp: step tok split: option.split)
  qed
qed

section \<open>Properties\<close>

text \<open>A concrete numeric parser for the witnesses: a few literals of either family.\<close>

definition sample_gai :: gai where
  "sample_gai p =
     (if p = ''10.0.0.0'' then Some (\<lparr>sa_fam = AF_INET, sin_addr = 0x0a000000, sin6_addr = [0, 0, 0, 0], sin6_scope_id = 0\<rparr>, 16)
      else if p = ''10.1.2.3'' then Some (\<lparr>sa_fam = AF_INET, sin_addr = 0x0a010203, sin6_addr = [0, 0, 0, 0], sin6_scope_id = 0\<rparr>, 16)
      else if p = ''fe80::%1'' then Some (\<lparr>sa_fam = AF_INET6, sin_addr = 0, sin6_addr = [0xfe800000, 0, 0, 0], sin6_scope_id = 1\<rparr>, 28)
      else if p = ''fe80::5%1'' then Some (\<lparr>sa_fam = AF_INET6, sin_addr = 0, sin6_addr = [0xfe800000, 0, 0, 5], sin6_scope_id = 1\<rparr>, 28)
      else None)"

lemma sample_gai_wf: "gai_wf sample_gai"
  by (auto simp: gai_wf_def sample_gai_def split: if_splits)

lemmas cidr_eval =
  addr_pton_cidr_def addr_pton_def sample_gai_def strtoul_def isspace_def isdigit_def digits_val_def
  digit_val_def ULONG_MAX_def addr_sa_to_xaddr_def sizeof_in4_def sizeof_in6_def zero_xaddr_def
  addr_host_is_all0s_def addr_hostmask_def addr_netmask_def addr_invert_def addr_and_def
  addr_is_all0s_def mask_word_def Let_def

lemmas entry_eval =
  entry_bad_def entry_body_def item_neg_def entry_found_def addr_netmatch_def addr_cmp_def cidr_eval

text \<open>C17: for a network \<open>net/l\<close> accepted by \<open>addr_pton_cidr\<close>, the length is valid for the family and
  all bits beyond it are zero; an address matches it exactly if it is of the same family, its first
  \<open>l\<close> bits are those of the network, and, for IPv6, its scope is the network's.\<close>

theorem cidr_prefix_match:
  assumes "gai_wf gai" "addr_pton_cidr gai p = Cidr net l" "xaddr_wf host"
  shows "l \<le> addr_len (xa_af net) \<and> (\<forall>n < addr_len (xa_af net). l \<le> n \<longrightarrow> \<not> addr_bit net n) \<and>
    (addr_netmatch host net l = 0 \<longleftrightarrow>
       xa_af host = xa_af net \<and> (\<forall>n < l. addr_bit host n = addr_bit net n) \<and>
       (xa_af net = AF_INET6 \<longrightarrow> xa_scope host = xa_scope net))"
proof -
  note w = addr_pton_cidr_wf [OF assms(1,2)]
  have le: "l \<le> addr_len (xa_af net)" using w(2) by (rule masklen_valid_le)
  have zero: "\<forall>n < addr_len (xa_af net). l \<le> n \<longrightarrow> \<not> addr_bit net n"
    using host_all0s_bits [OF w(1,2)] w(3) by blast
  show ?thesis
  proof (cases "xa_af host = xa_af net")
    case True
    have "(\<forall>n < addr_len (xa_af net). addr_bit net n \<longleftrightarrow> n < l \<and> addr_bit host n) \<longleftrightarrow>
        (\<forall>n < l. addr_bit host n = addr_bit net n)"
      using le zero by (auto simp: not_less)
    with netmatch_bits [OF assms(3) w(1) True w(2)] le zero True show ?thesis by simp
  next
    case False
    with le zero show ?thesis by (simp add: addr_netmatch_def)
  qed
qed

theorem cidr_prefix_match_witness:
  "addr_pton_cidr sample_gai ''10.0.0.0/8'' = Cidr \<lparr>xa_af = AF_INET, xa_32 = [0x0a000000, 0, 0, 0], xa_scope = 0\<rparr> 8 \<and>
   addr_netmatch \<lparr>xa_af = AF_INET, xa_32 = [0x0a010203, 0, 0, 0], xa_scope = 0\<rparr>
     \<lparr>xa_af = AF_INET, xa_32 = [0x0a000000, 0, 0, 0], xa_scope = 0\<rparr> 8 = 0"
proof -
  let ?net = "\<lparr>xa_af = AF_INET, xa_32 = [0x0a000000, 0, 0, 0], xa_scope = 0\<rparr>"
  let ?host = "\<lparr>xa_af = AF_INET, xa_32 = [0x0a010203, 0, 0, 0], xa_scope = 0\<rparr>"
  have c: "addr_pton_cidr sample_gai ''10.0.0.0/8'' = Cidr ?net 8"
    by (simp add: cidr_eval)
  have "\<forall>n < 8. addr_bit ?host n = addr_bit ?net n"
  proof (intro allI impI)
    fix n :: nat assume "n < 8"
    then have "n \<in> {0, 1, 2, 3, 4, 5, 6, 7}" by auto
    then show "addr_bit ?host n = addr_bit ?net n" by (auto simp: words_bit_def)
  qed
  with cidr_prefix_match [OF sample_gai_wf c, of ?host] c show ?thesis by (simp add: xaddr_wf_def)
qed

text \<open>\<open>addr_match_list\<close> reports the first malformed entry (-2) or matching negated entry (-1),
  whichever comes first; without either it returns 1 if some entry matches the address and 0
  otherwise.  An address that does not parse matches nothing.\<close>

lemma addr_match_list_spec:
  "addr_match_list gai True (Some a) lst =
     (case addr_pton gai a of
        None \<Rightarrow> 0
      | Some x \<Rightarrow>
          let ts = tokens is_comma (Some lst)
          in case find (\<lambda>t. entry_bad gai t \<or> item_neg t \<and> entry_hit gai (Some (a, x)) t) ts of
               Some t \<Rightarrow> if entry_bad gai t then -2 else -1
             | None \<Rightarrow> if \<exists>t \<in> set ts. entry_hit gai (Some (a, x)) t then 1 else 0)"
  by (simp add: addr_match_list_def addr_list_loop_eq Let_def split: option.split)

text \<open>\<open>addr_match_cidr_list\<close> returns 1 for a list whose only entry contains characters that it
  reports as invalid: the error is recorded without leaving the loop and the match that follows
  overwrites it.\<close>

lemma cidr_list_invalid_entry_matches:
  "\<not> set ''fe80::%1/64'' \<subseteq> set VALID_CIDR_CHARS \<and>
   addr_match_cidr_list sample_gai True (Some ''fe80::5%1'') ''fe80::%1/64'' = 1 \<and>
   addr_match_cidr_list sample_gai True None ''fe80::%1/64'' = -1"
proof -
  have "(4 :: nat) = Suc (Suc (Suc (Suc 0)))" by simp
  then have mask: "netmask_words 4 64 = [0xffffffff, 0xffffffff, 0, 0]"
    by (simp only: netmask_words.simps) simp
  have net: "addr_pton_cidr sample_gai ''fe80::%1/64'' =
      Cidr \<lparr>xa_af = AF_INET6, xa_32 = [0xfe800000, 0, 0, 0], xa_scope = 1\<rparr> 64"
    by (simp add: cidr_eval mask)
  have sep: "strsep is_comma (Some ''fe80::%1/64'') = (Some ''fe80::%1/64'', None)"
    by (simp add: strsep_def)
  have bad: "\<not> set ''fe80::%1/64'' \<subseteq> set VALID_CIDR_CHARS"
    by (simp add: VALID_CIDR_CHARS_def)
  have stop: "cidr_list_loop sample_gai x None r = r" for x r
    by (simp add: cidr_list_loop.simps)
  have addr: "addr_pton sample_gai ''fe80::5%1'' =
      Some \<lparr>xa_af = AF_INET6, xa_32 = [0xfe800000, 0, 0, 5], xa_scope = 1\<rparr>"
    by (simp add: cidr_eval)
  have match: "addr_netmatch \<lparr>xa_af = AF_INET6, xa_32 = [0xfe800000, 0, 0, 5], xa_scope = 1\<rparr>
      \<lparr>xa_af = AF_INET6, xa_32 = [0xfe800000, 0, 0, 0], xa_scope = 1\<rparr> 64 = 0"
    by (simp add: entry_eval mask)
  have "cidr_list_loop sample_gai (Some \<lparr>xa_af = AF_INET6, xa_32 = [0xfe800000, 0, 0, 5], xa_scope = 1\<rparr>)
      (Some ''fe80::%1/64'') 0 = 1"
    by (subst cidr_list_loop.simps) (simp add: sep net match stop INET6_ADDRSTRLEN_def)
  moreover have "cidr_list_loop sample_gai None (Some ''fe80::%1/64'') 0 = -1"
    using bad by (subst cidr_list_loop.simps) (simp add: sep net stop INET6_ADDRSTRLEN_def Let_def)
  ultimately show ?thesis using bad by (simp add: addr_match_cidr_list_def addr)
qed

text \<open>A pattern list with an item that is too long for the array of \<open>match_pattern_list\<close>: the function gives up there and returns 0, so
  negated items behind it are not looked at.\<close>

abbreviation item_fits :: "string \<Rightarrow> bool" where
  "item_fits t \<equiv> length (item_body True t) < sub_max"

lemma match_items_stops:
  assumes "pattern \<noteq> []" "\<not> item_fits (takeWhile (\<lambda>c. c \<noteq> CHR '','') pattern)"
  shows "match_items str True got pattern = 0"
proof -
  let ?P = "\<lambda>c. c \<noteq> CHR '',''"
  define p where "p = (if hd pattern = CHR ''!'' then tl pattern else pattern)"
  from assms(1) obtain c cs where pat: "pattern = c # cs" by (cases pattern) auto
  have "length (takeWhile ?P p) \<ge> sub_max"
    using assms(2) by (auto simp: item_body_def item_neg_def p_def pat split: if_splits)
  then have "length (take_sub True p) \<ge> sub_max" by (simp add: take_sub_def)
  with assms(1) show ?thesis by (subst match_items.simps) (simp add: Let_def p_def)
qed

lemma match_items_cases:
  "match_items str True got pattern =
     (if \<exists>t \<in> set (takeWhile item_fits (list_items pattern)). item_neg t \<and> match_pattern str (item_body True t) then -1
      else if \<exists>t \<in> set (list_items pattern). \<not> item_fits t then 0
      else if \<exists>t \<in> set (list_items pattern). \<not> item_neg t \<and> match_pattern str (item_body True t) then 1
      else got)"
proof (induction pattern arbitrary: got rule: list_items.induct)
  case (1 p)
  show ?case
  proof (cases "p = []")
    case True
    then show ?thesis by (simp add: match_items.simps list_items.simps)
  next
    case False
    note items = list_items.simps [of p]
    show ?thesis
    proof (cases "item_fits (takeWhile (\<lambda>c. c \<noteq> CHR '','') p)")
      case True
      from items False True show ?thesis
        by (subst match_items_step [OF False True, of str got, unfolded Let_def], simp only: 1 [OF False] if_False) auto
    next
      case long: False
      with match_items_stops [OF False long] items False show ?thesis by simp
    qed
  qed
qed

text \<open>C18: a pattern \<open>user@hosts\<close> admits a user only for good reason, whatever the memory and the address are.  The user name matches.  If the address of
  the client can be parsed, no entry of the list is malformed and no negated entry matches the address.  No negated entry matches the
  host name, except that entries from the first one of 1023 characters or more on are not compared with it.  And some entry that is not
  negated matches: the address, if it can be parsed, or the host name, if all entries are shorter than 1023 characters.\<close>

theorem match_user_admits:
  assumes one: "match_user gai dup user host ipaddr (u @ CHR ''@'' # hosts) = 1" and u: "CHR ''@'' \<notin> set u"
  shows "glob u user \<and>
    (\<forall>x. addr_pton gai ipaddr = Some x \<longrightarrow> (\<forall>t \<in> set (tokens is_comma (Some hosts)).
       \<not> entry_bad gai t \<and> (item_neg t \<longrightarrow> \<not> entry_hit gai (Some (ipaddr, x)) t))) \<and>
    (\<forall>t \<in> set (takeWhile item_fits (list_items hosts)). item_neg t \<longrightarrow> \<not> match_pattern host (item_body True t)) \<and>
    ((\<exists>x. addr_pton gai ipaddr = Some x \<and> (\<exists>t \<in> set (tokens is_comma (Some hosts)). \<not> item_neg t \<and> entry_hit gai (Some (ipaddr, x)) t)) \<or>
     (\<forall>t \<in> set (list_items hosts). item_fits t) \<and> (\<exists>t \<in> set (list_items hosts). \<not> item_neg t \<and> match_pattern host (item_body True t)))"
proof -
  let ?ts = "tokens is_comma (Some hosts)"
  have "takeWhile (\<lambda>c. c \<noteq> CHR ''@'') (u @ CHR ''@'' # hosts) = u"
    "dropWhile (\<lambda>c. c \<noteq> CHR ''@'') (u @ CHR ''@'' # hosts) = CHR ''@'' # hosts"
    using u by (induction u) auto
  with one have "match_pattern user u" and m: "match_host_and_ip gai dup host ipaddr hosts = 1"
    by (auto simp: match_user_def split: if_splits)
  then have user: "glob u user" by (intro match_pattern_sound)
  let ?mip = "addr_match_list gai dup (Some ipaddr) hosts"
  have ipc: "?mip \<noteq> -2" "?mip \<noteq> -1" and hostc: "match_hostname host hosts \<noteq> -1"
    and some: "match_hostname host hosts \<noteq> 0 \<or> ?mip \<noteq> 0"
    using m by (auto simp: match_host_and_ip_def Let_def split: if_splits)
  have find: "find (\<lambda>t. entry_bad gai t \<or> item_neg t \<and> entry_hit gai (Some (ipaddr, x)) t) ?ts = None" if "addr_pton gai ipaddr = Some x" for x
    using ipc that by (auto simp: addr_match_list_def addr_list_loop_eq split: option.splits if_splits)
  then have t1: "\<forall>t \<in> set ?ts. \<not> entry_bad gai t \<and> (item_neg t \<longrightarrow> \<not> entry_hit gai (Some (ipaddr, x)) t)" if "addr_pton gai ipaddr = Some x" for x
    using that by (auto simp: find_None_iff)
  note h = match_items_cases [of host 0 hosts, folded match_pattern_list_def, folded match_hostname_def]
  have "\<exists>x. addr_pton gai ipaddr = Some x \<and> (\<exists>t \<in> set ?ts. entry_hit gai (Some (ipaddr, x)) t)" if "?mip \<noteq> 0"
  proof (cases "addr_pton gai ipaddr")
    case None
    with that show ?thesis by (simp add: addr_match_list_def)
  next
    case (Some x)
    with that ipc find [OF Some] show ?thesis by (auto simp: addr_match_list_def addr_list_loop_eq split: if_splits)
  qed
  with some t1 have "(\<exists>x. addr_pton gai ipaddr = Some x \<and> (\<exists>t \<in> set ?ts. \<not> item_neg t \<and> entry_hit gai (Some (ipaddr, x)) t)) \<or> match_hostname host hosts \<noteq> 0"
    by blast
  with user t1 hostc h show ?thesis by (auto split: if_splits)
qed

theorem match_user_admits_witness:
  "match_user sample_gai True ''bob'' ''h'' ''10.1.2.3'' ''b*@10.0.0.0/8'' = 1 \<and> glob ''b*'' ''bob''"
proof -
  have a: "addr_pton sample_gai ''10.1.2.3'' = Some \<lparr>xa_af = AF_INET, xa_32 = [0x0a010203, 0, 0, 0], xa_scope = 0\<rparr>"
    by (simp add: cidr_eval)
  have i: "list_items ''10.0.0.0/8'' = [''10.0.0.0/8'']" by code_simp
  have t: "tokens is_comma (Some ''10.0.0.0/8'') = [''10.0.0.0/8'']" by (simp add: tokens.simps strsep_def)
  have short: "\<forall>t \<in> set (list_items ''10.0.0.0/8''). length (item_body True t) < sub_max"
    by (simp add: i item_body_def item_neg_def sub_max_def)
  have mip: "addr_match_list sample_gai True (Some ''10.1.2.3'') ''10.0.0.0/8'' = 1"
    by (simp add: addr_match_list_def a addr_list_loop_eq t entry_eval)
  have m: "match_pattern ''bob'' ''b*''" "\<not> match_pattern ''h'' ''10.0.0.0/8''" by code_simp+
  have "item_body True ''10.0.0.0/8'' = ''10.0.0.0/8''" by code_simp
  then have "match_hostname ''h'' ''10.0.0.0/8'' = 0"
    using match_items_spec [OF short, of "''h''" 0]
    by (simp add: match_hostname_def match_pattern_list_def i m item_neg_def)
  then have "match_user sample_gai True ''bob'' ''h'' ''10.1.2.3'' (''b*'' @ CHR ''@'' # ''10.0.0.0/8'') = 1"
    by (simp add: match_user_def match_host_and_ip_def mip m)
  from match_user_admits [OF this] this show ?thesis by simp
qed

end
