(* ===== verification/Compat.thy ===== *)
theory Compat
  imports Match
begin

unbundle bit_operations_syntax

text \<open>
  Compatibility with other implementations, \<^verbatim>\<open>src/openssh-7.2p2/compat.c\<close>: the table of known
  peers, the protocol specification, and the filtering of algorithm proposals.  The three global
  variables are the record \<open>compat_state\<close>.
\<close>

section \<open>Flags\<close>

definition SSH_BUG_SIGBLOB :: "32 word" where "SSH_BUG_SIGBLOB = 0x00000001"
definition SSH_BUG_PKSERVICE :: "32 word" where "SSH_BUG_PKSERVICE = 0x00000002"
definition SSH_BUG_HMAC :: "32 word" where "SSH_BUG_HMAC = 0x00000004"
definition SSH_BUG_X11FWD :: "32 word" where "SSH_BUG_X11FWD = 0x00000008"
definition SSH_OLD_SESSIONID :: "32 word" where "SSH_OLD_SESSIONID = 0x00000010"
definition SSH_BUG_PKAUTH :: "32 word" where "SSH_BUG_PKAUTH = 0x00000020"
definition SSH_BUG_DEBUG :: "32 word" where "SSH_BUG_DEBUG = 0x00000040"
definition SSH_BUG_BANNER :: "32 word" where "SSH_BUG_BANNER = 0x00000080"
definition SSH_BUG_IGNOREMSG :: "32 word" where "SSH_BUG_IGNOREMSG = 0x00000100"
definition SSH_BUG_PKOK :: "32 word" where "SSH_BUG_PKOK = 0x00000200"
definition SSH_BUG_PASSWORDPAD :: "32 word" where "SSH_BUG_PASSWORDPAD = 0x00000400"
definition SSH_BUG_SCANNER :: "32 word" where "SSH_BUG_SCANNER = 0x00000800"
definition SSH_BUG_BIGENDIANAES :: "32 word" where "SSH_BUG_BIGENDIANAES = 0x00001000"
definition SSH_BUG_RSASIGMD5 :: "32 word" where "SSH_BUG_RSASIGMD5 = 0x00002000"
definition SSH_OLD_DHGEX :: "32 word" where "SSH_OLD_DHGEX = 0x00004000"
definition SSH_BUG_NOREKEY :: "32 word" where "SSH_BUG_NOREKEY = 0x00008000"
definition SSH_BUG_HBSERVICE :: "32 word" where "SSH_BUG_HBSERVICE = 0x00010000"
definition SSH_BUG_OPENFAILURE :: "32 word" where "SSH_BUG_OPENFAILURE = 0x00020000"
definition SSH_BUG_DERIVEKEY :: "32 word" where "SSH_BUG_DERIVEKEY = 0x00040000"
definition SSH_BUG_DUMMYCHAN :: "32 word" where "SSH_BUG_DUMMYCHAN = 0x00100000"
definition SSH_BUG_EXTEOF :: "32 word" where "SSH_BUG_EXTEOF = 0x00200000"
definition SSH_BUG_PROBE :: "32 word" where "SSH_BUG_PROBE = 0x00400000"
definition SSH_BUG_FIRSTKEX :: "32 word" where "SSH_BUG_FIRSTKEX = 0x00800000"
definition SSH_OLD_FORWARD_ADDR :: "32 word" where "SSH_OLD_FORWARD_ADDR = 0x01000000"
definition SSH_BUG_RFWD_ADDR :: "32 word" where "SSH_BUG_RFWD_ADDR = 0x02000000"
definition SSH_NEW_OPENSSH :: "32 word" where "SSH_NEW_OPENSSH = 0x04000000"
definition SSH_BUG_DYNAMIC_RPORT :: "32 word" where "SSH_BUG_DYNAMIC_RPORT = 0x08000000"
definition SSH_BUG_CURVE25519PAD :: "32 word" where "SSH_BUG_CURVE25519PAD = 0x10000000"
definition SSH_BUG_HOSTKEYS :: "32 word" where "SSH_BUG_HOSTKEYS = 0x20000000"
definition SSH_BUG_DHGEX_LARGE :: "32 word" where "SSH_BUG_DHGEX_LARGE = 0x40000000"

definition SSH_PROTO_UNKNOWN :: "32 word" where "SSH_PROTO_UNKNOWN = 0x00"
definition SSH_PROTO_1 :: "32 word" where "SSH_PROTO_1 = 0x01"
definition SSH_PROTO_1_PREFERRED :: "32 word" where "SSH_PROTO_1_PREFERRED = 0x02"
definition SSH_PROTO_2 :: "32 word" where "SSH_PROTO_2 = 0x04"

lemmas proto_defs = SSH_PROTO_UNKNOWN_def SSH_PROTO_1_def SSH_PROTO_1_PREFERRED_def SSH_PROTO_2_def

record compat_state =
  compat13 :: bool
  compat20 :: bool
  datafellows :: "32 word"

section \<open>Operations\<close>

definition enable_compat20 :: "compat_state \<Rightarrow> compat_state" where
  "enable_compat20 st = (if compat20 st then st else st\<lparr>compat20 := True\<rparr>)"

definition enable_compat13 :: "compat_state \<Rightarrow> compat_state" where
  "enable_compat13 st = st\<lparr>compat13 := True\<rparr>"

definition compat_check :: "(string \<times> 32 word) list" where
  "compat_check =
    [(''OpenSSH-2.0*,''
      @ ''OpenSSH-2.1*,''
      @ ''OpenSSH_2.1*,''
      @ ''OpenSSH_2.2*'',
      SSH_OLD_SESSIONID OR SSH_BUG_BANNER OR SSH_OLD_DHGEX OR SSH_BUG_NOREKEY OR SSH_BUG_EXTEOF OR SSH_OLD_FORWARD_ADDR),
     (''OpenSSH_2.3.0*'',
      SSH_BUG_BANNER OR SSH_BUG_BIGENDIANAES OR SSH_OLD_DHGEX OR SSH_BUG_NOREKEY OR SSH_BUG_EXTEOF OR SSH_OLD_FORWARD_ADDR),
     (''OpenSSH_2.3.*'',
      SSH_BUG_BIGENDIANAES OR SSH_OLD_DHGEX OR SSH_BUG_NOREKEY OR SSH_BUG_EXTEOF OR SSH_OLD_FORWARD_ADDR),
     (''OpenSSH_2.5.0p1*,''
      @ ''OpenSSH_2.5.1p1*'',
      SSH_BUG_BIGENDIANAES OR SSH_OLD_DHGEX OR SSH_BUG_NOREKEY OR SSH_BUG_EXTEOF OR SSH_OLD_FORWARD_ADDR),
     (''OpenSSH_2.5.0*,''
      @ ''OpenSSH_2.5.1*,''
      @ ''OpenSSH_2.5.2*'',
      SSH_OLD_DHGEX OR SSH_BUG_NOREKEY OR SSH_BUG_EXTEOF OR SSH_OLD_FORWARD_ADDR),
     (''OpenSSH_2.5.3*'',
      SSH_BUG_NOREKEY OR SSH_BUG_EXTEOF OR SSH_OLD_FORWARD_ADDR),
     (''OpenSSH_2.*,''
      @ ''OpenSSH_3.0*,''
      @ ''OpenSSH_3.1*'',
      SSH_BUG_EXTEOF OR SSH_OLD_FORWARD_ADDR),
     (''OpenSSH_3.*'',
      SSH_OLD_FORWARD_ADDR),
     (''Sun_SSH_1.0*'',
      SSH_BUG_NOREKEY OR SSH_BUG_EXTEOF),
     (''OpenSSH_4*'',
      0),
     (''OpenSSH_5*'',
      SSH_NEW_OPENSSH OR SSH_BUG_DYNAMIC_RPORT),
     (''OpenSSH_6.6.1*'',
      SSH_NEW_OPENSSH),
     (''OpenSSH_6.5*,''
      @ ''OpenSSH_6.6*'',
      SSH_NEW_OPENSSH OR SSH_BUG_CURVE25519PAD),
     (''OpenSSH*'',
      SSH_NEW_OPENSSH),
     (''*MindTerm*'',
      0),
     (''2.1.0*'',
      SSH_BUG_SIGBLOB OR SSH_BUG_HMAC OR SSH_OLD_SESSIONID OR SSH_BUG_DEBUG OR SSH_BUG_RSASIGMD5 OR SSH_BUG_HBSERVICE OR SSH_BUG_FIRSTKEX),
     (''2.1 *'',
      SSH_BUG_SIGBLOB OR SSH_BUG_HMAC OR SSH_OLD_SESSIONID OR SSH_BUG_DEBUG OR SSH_BUG_RSASIGMD5 OR SSH_BUG_HBSERVICE OR SSH_BUG_FIRSTKEX),
     (''2.0.13*,''
      @ ''2.0.14*,''
      @ ''2.0.15*,''
      @ ''2.0.16*,''
      @ ''2.0.17*,''
      @ ''2.0.18*,''
      @ ''2.0.19*'',
      SSH_BUG_SIGBLOB OR SSH_BUG_HMAC OR SSH_OLD_SESSIONID OR SSH_BUG_DEBUG OR SSH_BUG_PKSERVICE OR SSH_BUG_X11FWD OR SSH_BUG_PKOK OR SSH_BUG_RSASIGMD5 OR SSH_BUG_HBSERVICE OR SSH_BUG_OPENFAILURE OR SSH_BUG_DUMMYCHAN OR SSH_BUG_FIRSTKEX),
     (''2.0.11*,''
      @ ''2.0.12*'',
      SSH_BUG_SIGBLOB OR SSH_BUG_HMAC OR SSH_OLD_SESSIONID OR SSH_BUG_DEBUG OR SSH_BUG_PKSERVICE OR SSH_BUG_X11FWD OR SSH_BUG_PKAUTH OR SSH_BUG_PKOK OR SSH_BUG_RSASIGMD5 OR SSH_BUG_OPENFAILURE OR SSH_BUG_DUMMYCHAN OR SSH_BUG_FIRSTKEX),
     (''2.0.*'',
      SSH_BUG_SIGBLOB OR SSH_BUG_HMAC OR SSH_OLD_SESSIONID OR SSH_BUG_DEBUG OR SSH_BUG_PKSERVICE OR SSH_BUG_X11FWD OR SSH_BUG_PKAUTH OR SSH_BUG_PKOK OR SSH_BUG_RSASIGMD5 OR SSH_BUG_OPENFAILURE OR SSH_BUG_DERIVEKEY OR SSH_BUG_DUMMYCHAN OR SSH_BUG_FIRSTKEX),
     (''2.2.0*,''
      @ ''2.3.0*'',
      SSH_BUG_HMAC OR SSH_BUG_DEBUG OR SSH_BUG_RSASIGMD5 OR SSH_BUG_FIRSTKEX),
     (''2.3.*'',
      SSH_BUG_DEBUG OR SSH_BUG_RSASIGMD5 OR SSH_BUG_FIRSTKEX),
     (''2.4'',
      SSH_OLD_SESSIONID),
     (''2.*'',
      SSH_BUG_DEBUG OR SSH_BUG_FIRSTKEX OR SSH_BUG_RFWD_ADDR),
     (''3.0.*'',
      SSH_BUG_DEBUG),
     (''3.0 SecureCRT*'',
      SSH_OLD_SESSIONID),
     (''1.7 SecureFX*'',
      SSH_OLD_SESSIONID),
     (''1.2.18*,''
      @ ''1.2.19*,''
      @ ''1.2.20*,''
      @ ''1.2.21*,''
      @ ''1.2.22*'',
      SSH_BUG_IGNOREMSG),
     (''1.3.2*'',
      SSH_BUG_IGNOREMSG),
     (''Cisco-1.*'',
      SSH_BUG_DHGEX_LARGE OR SSH_BUG_HOSTKEYS),
     (''*SSH Compatible Server*'',
      SSH_BUG_PASSWORDPAD),
     (''*OSU_0*,''
      @ ''OSU_1.0*,''
      @ ''OSU_1.1*,''
      @ ''OSU_1.2*,''
      @ ''OSU_1.3*,''
      @ ''OSU_1.4*,''
      @ ''OSU_1.5alpha1*,''
      @ ''OSU_1.5alpha2*,''
      @ ''OSU_1.5alpha3*'',
      SSH_BUG_PASSWORDPAD),
     (''*SSH_Version_Mapper*'',
      SSH_BUG_SCANNER),
     (''PuTTY_Local:*,''
      @ ''PuTTY-Release-0.5*,''
      @ ''PuTTY_Release_0.5*,''
      @ ''PuTTY_Release_0.60*,''
      @ ''PuTTY_Release_0.61*,''
      @ ''PuTTY_Release_0.62*,''
      @ ''PuTTY_Release_0.63*,''
      @ ''PuTTY_Release_0.64*'',
      SSH_OLD_DHGEX),
     (''FuTTY*'',
      SSH_OLD_DHGEX),
     (''Probe-*'',
      SSH_BUG_PROBE),
     (''TeraTerm SSH*,''
      @ ''TTSSH/1.5.*,''
      @ ''TTSSH/2.1*,''
      @ ''TTSSH/2.2*,''
      @ ''TTSSH/2.3*,''
      @ ''TTSSH/2.4*,''
      @ ''TTSSH/2.5*,''
      @ ''TTSSH/2.6*,''
      @ ''TTSSH/2.70*,''
      @ ''TTSSH/2.71*,''
      @ ''TTSSH/2.72*'',
      SSH_BUG_HOSTKEYS),
     (''WinSCP_release_4*,''
      @ ''WinSCP_release_5.0*,''
      @ ''WinSCP_release_5.1*,''
      @ ''WinSCP_release_5.5*,''
      @ ''WinSCP_release_5.6*,''
      @ ''WinSCP_release_5.7,''
      @ ''WinSCP_release_5.7.1,''
      @ ''WinSCP_release_5.7.2,''
      @ ''WinSCP_release_5.7.3,''
      @ ''WinSCP_release_5.7.4'',
      SSH_OLD_DHGEX)]"

text \<open>The loop over the table: the first entry whose pattern list matches.\<close>

fun compat_lookup :: "string \<Rightarrow> (string \<times> 32 word) list \<Rightarrow> 32 word option" where
  "compat_lookup version [] = None"
| "compat_lookup version ((pat, bugs) # check) =
     (if match_pattern_list version pat False = 1 then Some bugs else compat_lookup version check)"

definition compat_datafellows :: "string \<Rightarrow> compat_state \<Rightarrow> 32 word \<times> compat_state" where
  "compat_datafellows version st =
     (case compat_lookup version compat_check of
        Some bugs \<Rightarrow> (bugs, st\<lparr>datafellows := bugs\<rparr>)
      | None \<Rightarrow> (0, st))"

text \<open>\<open>ssh1\<close> is the build option \<^verbatim>\<open>WITH_SSH1\<close>, \<open>dup\<close> the success of \<open>strdup\<close>.\<close>

function proto_loop :: "bool \<Rightarrow> string option \<Rightarrow> 32 word \<Rightarrow> 32 word" where
  "proto_loop ssh1 q ret =
     (case strsep is_comma q of (None, _) \<Rightarrow> ret | (Some p, q') \<Rightarrow>
        if p = [] then ret
        else
          let ret =
            (if atoi p = 1 then
               (if ssh1 then
                  (if ret = SSH_PROTO_UNKNOWN then ret OR SSH_PROTO_1_PREFERRED else ret) OR SSH_PROTO_1
                else ret)
             else if atoi p = 2 then ret OR SSH_PROTO_2
             else ret)
          in proto_loop ssh1 q' ret)"
  by pat_completeness auto
termination
  by (relation "measure (\<lambda>(_, q, _). strsep_size q)") (auto dest: strsep_decreases [OF sym])

declare proto_loop.simps [simp del]

definition proto_spec :: "bool \<Rightarrow> bool \<Rightarrow> string option \<Rightarrow> 32 word" where
  "proto_spec ssh1 dup spec =
     (case spec of
        None \<Rightarrow> SSH_PROTO_UNKNOWN
      | Some s \<Rightarrow> if dup then proto_loop ssh1 (Some s) SSH_PROTO_UNKNOWN else SSH_PROTO_UNKNOWN)"

function filter_loop :: "string \<Rightarrow> string option \<Rightarrow> string \<Rightarrow> string" where
  "filter_loop flt tmp b =
     (case strsep is_comma tmp of (None, _) \<Rightarrow> b | (Some cp, tmp') \<Rightarrow>
        if match_pattern_list cp flt False \<noteq> 1
        then filter_loop flt tmp' ((if length b > 0 then b @ '','' else b) @ cp)
        else filter_loop flt tmp' b)"
  by pat_completeness auto
termination
  by (relation "measure (\<lambda>(_, q, _). strsep_size q)") (auto dest: strsep_decreases [OF sym])

declare filter_loop.simps [simp del]

definition filter_proposal :: "string \<Rightarrow> string \<Rightarrow> string" where
  "filter_proposal proposal flt = filter_loop flt (Some proposal) []"

definition compat_cipher_proposal :: "compat_state \<Rightarrow> string \<Rightarrow> string or_fatal" where
  "compat_cipher_proposal st cipher_prop =
     (if datafellows st AND SSH_BUG_BIGENDIANAES = 0 then Inr cipher_prop
      else
        let p = filter_proposal cipher_prop ''aes*''
        in if p = [] then Inl ''No supported ciphers found'' else Inr p)"

definition compat_pkalg_proposal :: "compat_state \<Rightarrow> string \<Rightarrow> string or_fatal" where
  "compat_pkalg_proposal st pkalg_prop =
     (if datafellows st AND SSH_BUG_RSASIGMD5 = 0 then Inr pkalg_prop
      else
        let p = filter_proposal pkalg_prop ''ssh-rsa''
        in if p = [] then Inl ''No supported PK algorithms found'' else Inr p)"

definition compat_kex_proposal :: "compat_state \<Rightarrow> string \<Rightarrow> string or_fatal" where
  "compat_kex_proposal st p =
     (if datafellows st AND (SSH_BUG_CURVE25519PAD OR SSH_OLD_DHGEX) = 0 then Inr p
      else
        let p = (if datafellows st AND SSH_BUG_CURVE25519PAD \<noteq> 0
                 then filter_proposal p ''curve25519-sha256@libssh.org'' else p);
            p = (if datafellows st AND SSH_OLD_DHGEX \<noteq> 0
                 then filter_proposal (filter_proposal p ''diffie-hellman-group-exchange-sha256'')
                        ''diffie-hellman-group-exchange-sha1'' else p)
        in if p = [] then Inl ''No supported key exchange algorithms found'' else Inr p)"

section \<open>Filtering\<close>

lemma filter_loop_tokens:
  "filter_loop flt tmp b =
     foldl (\<lambda>b cp. (if length b > 0 then b @ '','' else b) @ cp) b
       (filter (\<lambda>cp. match_pattern_list cp flt False \<noteq> 1) (tokens is_comma tmp))"
proof (induction tmp arbitrary: b rule: measure_induct_rule [of strsep_size])
  case (less tmp)
  obtain a q where s: "strsep is_comma tmp = (a, q)" by fastforce
  show ?case
  proof (cases a)
    case None
    with s show ?thesis by (simp add: filter_loop.simps [of flt tmp] tokens.simps [of is_comma tmp])
  next
    case (Some cp)
    with s have "strsep_size q < strsep_size tmp" by (simp add: strsep_decreases)
    from less [OF this] s Some show ?thesis
      by (simp add: filter_loop.simps [of flt tmp] tokens.simps [of is_comma tmp])
  qed
qed

lemma foldl_join:
  "\<forall>t \<in> set ts. t \<noteq> [] \<Longrightarrow> b \<noteq> [] \<Longrightarrow>
   foldl (\<lambda>b cp. (if length b > 0 then b @ '','' else b) @ cp) b ts =
     (if ts = [] then b else b @ CHR '','' # join_comma ts)"
proof (induction ts arbitrary: b)
  case (Cons t ts)
  then show ?case using Cons.IH [of "b @ CHR '','' # t"] by (cases ts) auto
qed simp

lemma filter_proposal_empty: "filter_proposal [] flt = []"
  by (simp add: filter_proposal_def filter_loop_tokens tokens_no_delim)

lemma filter_proposal_join:
  assumes "\<forall>t \<in> set ts. t \<noteq> [] \<and> CHR '','' \<notin> set t"
  shows "filter_proposal (join_comma ts) flt =
    join_comma (filter (\<lambda>t. match_pattern_list t flt False \<noteq> 1) ts)"
proof -
  let ?fs = "filter (\<lambda>t. match_pattern_list t flt False \<noteq> 1) ts"
  have "foldl (\<lambda>b cp. (if length b > 0 then b @ '','' else b) @ cp) [] ?fs = join_comma ?fs"
  proof (cases ?fs)
    case (Cons u us)
    with filter_is_subset [of "\<lambda>t. match_pattern_list t flt False \<noteq> 1" ts]
    have "set (u # us) \<subseteq> set ts" by simp
    with assms have "u \<noteq> []" "\<forall>t \<in> set us. t \<noteq> []" by auto
    with Cons foldl_join [of us u] show ?thesis by (cases us) auto
  qed simp
  with assms show ?thesis
    by (cases "ts = []")
      (simp_all add: filter_proposal_empty, simp add: filter_proposal_def filter_loop_tokens tokens_join)
qed

lemma match_literal:
  "CHR ''*'' \<notin> set p \<Longrightarrow> CHR ''?'' \<notin> set p \<Longrightarrow> match_pattern s p \<longleftrightarrow> s = p"
proof (induction p arbitrary: s)
  case (Cons a p)
  then have a: "a \<noteq> CHR ''*''" "a \<noteq> CHR ''?''" by auto
  have "match_pattern (tl s) p \<longleftrightarrow> tl s = p" using Cons.IH [of "tl s"] Cons.prems by simp
  then show ?case unfolding match_plain [OF a(1)] using a(2) by (cases s) auto
qed simp

lemma list_items_single: "p \<noteq> [] \<Longrightarrow> CHR '','' \<notin> set p \<Longrightarrow> list_items p = [p]"
proof -
  assume p: "p \<noteq> []" "CHR '','' \<notin> set p"
  then have e: "takeWhile (\<lambda>c. c \<noteq> CHR '','') p = p" "dropWhile (\<lambda>c. c \<noteq> CHR '','') p = []"
    by (auto simp: takeWhile_eq_all_conv)
  show ?thesis using p(1) by (simp add: list_items.simps [of p] list_items.simps [of "[]"] e)
qed

text \<open>A filter without wildcards excludes exactly the algorithm of that name.\<close>

lemma match_literal_list:
  assumes "p \<noteq> []" "set p \<inter> {CHR '','', CHR ''*'', CHR ''?'', CHR ''!''} = {}" "length p < sub_max"
  shows "match_pattern_list t p False = 1 \<longleftrightarrow> t = p"
proof -
  have "\<not> item_neg p" using assms(1,2) by (cases p) (auto simp: item_neg_def)
  moreover from this have "item_body False p = p" by (simp add: item_body_def)
  moreover have "list_items p = [p]" using assms(1,2) by (intro list_items_single) auto
  moreover have "match_pattern t p \<longleftrightarrow> t = p" using assms(2) by (intro match_literal) auto
  ultimately show ?thesis
    using match_items_spec [of p False t 0] assms(3) by (simp add: match_pattern_list_def)
qed

section \<open>The table of peers\<close>

definition plain_item :: "string \<Rightarrow> bool" where
  "plain_item t \<longleftrightarrow> \<not> item_neg t \<and> length t < sub_max \<and> take 2 (rev t) \<noteq> two_stars"

lemma compat_check_plain: "list_all (\<lambda>(pat, _). list_all plain_item (list_items pat)) compat_check"
  by code_simp

lemma plain_item_match:
  assumes "list_all plain_item (list_items pat)"
  shows "match_pattern_list v pat False = 1 \<longleftrightarrow> (\<exists>t \<in> set (list_items pat). glob t v)"
proof -
  have body: "item_body False t = t \<and> \<not> item_neg t \<and> length t < sub_max \<and> (match_pattern v t \<longleftrightarrow> glob t v)"
    if "t \<in> set (list_items pat)" for t
  proof -
    from assms that have p: "plain_item t" by (auto simp: list_all_iff)
    have "\<not> suffix two_stars t"
    proof
      assume "suffix two_stars t"
      then obtain u where "t = u @ two_stars" by (auto simp: suffix_def)
      with p show False by (simp add: plain_item_def)
    qed
    with p match_pattern_sound match_pattern_complete show ?thesis
      by (auto simp: plain_item_def item_body_def)
  qed
  then have "\<forall>t \<in> set (list_items pat). length (item_body False t) < sub_max" by simp
  from match_items_spec [OF this, of v 0] body show ?thesis
    by (auto simp: match_pattern_list_def)
qed

lemma compat_lookup_find:
  "list_all (\<lambda>(pat, _). list_all plain_item (list_items pat)) check \<Longrightarrow>
   compat_lookup v check =
     map_option snd (find (\<lambda>(pat, _). \<exists>t \<in> set (list_items pat). glob t v) check)"
  by (induction v check rule: compat_lookup.induct) (auto simp: plain_item_match)

section \<open>Protocol specifications\<close>

lemma proto_loop_bits:
  "proto_loop ssh1 q ret AND SSH_PROTO_2 \<noteq> 0 \<longleftrightarrow>
     ret AND SSH_PROTO_2 \<noteq> 0 \<or> (\<exists>p \<in> set (takeWhile (\<lambda>t. t \<noteq> []) (tokens is_comma q)). atoi p = 2)"
  "proto_loop ssh1 q ret AND SSH_PROTO_1 \<noteq> 0 \<longleftrightarrow>
     ret AND SSH_PROTO_1 \<noteq> 0 \<or>
     ssh1 \<and> (\<exists>p \<in> set (takeWhile (\<lambda>t. t \<noteq> []) (tokens is_comma q)). atoi p = 1)"
proof (induction q arbitrary: ret rule: measure_induct_rule [of strsep_size])
  case (less q)
  obtain a q' where s: "strsep is_comma q = (a, q')" by fastforce
  have bits: "(r OR SSH_PROTO_2) AND SSH_PROTO_2 \<noteq> 0" "(r OR SSH_PROTO_1) AND SSH_PROTO_1 \<noteq> 0"
    "(r OR SSH_PROTO_2) AND SSH_PROTO_1 = r AND SSH_PROTO_1"
    "(r OR SSH_PROTO_1) AND SSH_PROTO_2 = r AND SSH_PROTO_2"
    "(r OR SSH_PROTO_1_PREFERRED) AND SSH_PROTO_2 = r AND SSH_PROTO_2" for r
    by (simp_all add: proto_defs bit.conj_disj_distrib2)
  {
    case 1
    show ?case
    proof (cases a)
      case None
      with s show ?thesis by (simp add: proto_loop.simps [of ssh1 q] tokens.simps [of is_comma q])
    next
      case (Some p)
      with s have "strsep_size q' < strsep_size q" by (simp add: strsep_decreases)
      from less(1) [OF this] s Some bits show ?thesis
        by (auto simp: proto_loop.simps [of ssh1 q] tokens.simps [of is_comma q] Let_def)
    qed
  next
    case 2
    show ?case
    proof (cases a)
      case None
      with s show ?thesis by (simp add: proto_loop.simps [of ssh1 q] tokens.simps [of is_comma q])
    next
      case (Some p)
      with s have "strsep_size q' < strsep_size q" by (simp add: strsep_decreases)
      from less(2) [OF this] s Some bits show ?thesis
        by (auto simp: proto_loop.simps [of ssh1 q] tokens.simps [of is_comma q] Let_def)
    qed
  }
qed

section \<open>Properties\<close>

text \<open>A peer gets the bugs of the first entry of the table one of whose patterns its version string
  matches, with \<open>?\<close> and \<open>*\<close> as wildcards, and the global flags are set to them; a peer that no entry
  matches gets none, and the global flags are left as they were.\<close>

lemma compat_datafellows_first:
  "compat_datafellows v st =
     (case find (\<lambda>(pat, _). \<exists>t \<in> set (list_items pat). glob t v) compat_check of
        Some (_, bugs) \<Rightarrow> (bugs, st\<lparr>datafellows := bugs\<rparr>)
      | None \<Rightarrow> (0, st))"
  unfolding compat_datafellows_def compat_lookup_find [OF compat_check_plain]
  by (simp split: option.split prod.split)

text \<open>The protocol versions that \<open>proto_spec\<close> returns are those named by the items before the
  first empty one; version 1 is never returned by a build without it.\<close>

lemma proto_spec_versions:
  "(proto_spec ssh1 True (Some s) AND SSH_PROTO_2 \<noteq> 0 \<longleftrightarrow> (\<exists>p \<in> set (names s). atoi p = 2)) \<and>
   (proto_spec ssh1 True (Some s) AND SSH_PROTO_1 \<noteq> 0 \<longleftrightarrow> ssh1 \<and> (\<exists>p \<in> set (names s). atoi p = 1))"
  using proto_loop_bits [of ssh1 "Some s" SSH_PROTO_UNKNOWN]
  by (simp add: proto_spec_def names_def SSH_PROTO_UNKNOWN_def)

text \<open>The key exchange proposal sent to a peer with known defects is the given one without the
  algorithms that fail with such a peer, in the same order; if nothing is left the program ends with
  an error instead of sending an empty proposal.\<close>

lemma compat_kex_proposal_spec:
  assumes "\<forall>t \<in> set ts. t \<noteq> [] \<and> CHR '','' \<notin> set t" "ts \<noteq> []"
  shows "compat_kex_proposal st (join_comma ts) =
    (let keep = filter (\<lambda>t.
           \<not> (datafellows st AND SSH_BUG_CURVE25519PAD \<noteq> 0 \<and> t = ''curve25519-sha256@libssh.org'') \<and>
           \<not> (datafellows st AND SSH_OLD_DHGEX \<noteq> 0 \<and>
               (t = ''diffie-hellman-group-exchange-sha256'' \<or>
                t = ''diffie-hellman-group-exchange-sha1''))) ts
     in if keep = [] then Inl ''No supported key exchange algorithms found''
        else Inr (join_comma keep))"
proof -
  have lit: "match_pattern_list t ''curve25519-sha256@libssh.org'' False = 1 \<longleftrightarrow> t = ''curve25519-sha256@libssh.org''"
    "match_pattern_list t ''diffie-hellman-group-exchange-sha256'' False = 1 \<longleftrightarrow> t = ''diffie-hellman-group-exchange-sha256''"
    "match_pattern_list t ''diffie-hellman-group-exchange-sha1'' False = 1 \<longleftrightarrow> t = ''diffie-hellman-group-exchange-sha1''"
    for t by (rule match_literal_list; simp add: sub_max_def)+
  have flt: "filter_proposal (join_comma (filter P ts)) flt =
      join_comma (filter (\<lambda>t. P t \<and> match_pattern_list t flt False \<noteq> 1) ts)" for P flt
    using filter_proposal_join [of "filter P ts" flt] assms(1) by (simp add: conj_commute)
  have flt1: "filter_proposal (join_comma ts) flt =
      join_comma (filter (\<lambda>t. match_pattern_list t flt False \<noteq> 1) ts)" for flt
    using filter_proposal_join [OF assms(1)] .
  have empty: "join_comma us = [] \<longleftrightarrow> us = []" if "set us \<subseteq> set ts" for us
    using that assms(1) by (cases us rule: join_comma.cases) auto
  have zero: "(a :: 32 word) AND (b OR c) = 0 \<longleftrightarrow> a AND b = 0 \<and> a AND c = 0" for a b c
    by (auto simp: bit_eq_iff bit_simps)
  show ?thesis
    using assms(2)
    by (auto simp: compat_kex_proposal_def zero Let_def flt flt1 lit empty conj_assoc)
qed

end
