(* ===== verification/Algs.thy ===== *)
theory Algs
  imports Match
begin

unbundle bit_operations_syntax

text \<open>
  The tables of algorithms and the functions that look names up in them: digests
  (\<^verbatim>\<open>digest-openssl.c\<close>), ciphers (\<^verbatim>\<open>cipher.c\<close>), message authentication codes
  (\<^verbatim>\<open>mac.c\<close>), key types (\<^verbatim>\<open>sshkey.c\<close>) and key exchange methods (\<^verbatim>\<open>kex.c\<close>).  The
  preprocessor symbols that the tables depend on are the record \<open>build\<close>, so that every statement
  holds for every configuration of the package.
\<close>

record build =
  with_openssl :: bool
  with_ssh1 :: bool
  have_sha256 :: bool
  has_ecc :: bool
  has_p521 :: bool
  have_gcm :: bool
  gssapi :: bool

section \<open>Shared loops\<close>

text \<open>The loop of the functions that list the names of a table: \<open>mem\<close> says whether \<open>realloc\<close> to so
  many bytes succeeds.\<close>

fun alg_list_loop :: "char \<Rightarrow> (nat \<Rightarrow> bool) \<Rightarrow> string option \<Rightarrow> string list \<Rightarrow> string option" where
  "alg_list_loop sep mem ret [] = ret"
| "alg_list_loop sep mem ret (n # ns) =
     (let r = (case ret of None \<Rightarrow> [] | Some s \<Rightarrow> s @ [sep])
      in if \<not> mem (length r + length n + 2) then None
         else alg_list_loop sep mem (Some (r @ n)) ns)"

text \<open>The loop of the functions that validate a name list: it stops at the first empty name.\<close>

function names_loop :: "(string \<Rightarrow> bool) \<Rightarrow> string option \<Rightarrow> bool" where
  "names_loop ok cp =
     (case strsep is_comma cp of (None, _) \<Rightarrow> True | (Some p, cp') \<Rightarrow>
        if p = [] then True else if \<not> ok p then False else names_loop ok cp')"
  by pat_completeness auto
termination
  by (relation "measure (\<lambda>(_, q). strsep_size q)") (auto dest: strsep_decreases [OF sym])

declare names_loop.simps [simp del]

text \<open>The frame of the validation functions; \<open>dup\<close> is the success of \<open>strdup\<close>.\<close>

definition names_valid :: "(string \<Rightarrow> bool) \<Rightarrow> bool \<Rightarrow> string option \<Rightarrow> bool" where
  "names_valid ok dup ns =
     (case ns of
        None \<Rightarrow> False
      | Some s \<Rightarrow> if s = [] then False else if \<not> dup then False else names_loop ok (Some s))"

definition strcasecmp_eq :: "string \<Rightarrow> string \<Rightarrow> bool" where
  "strcasecmp_eq a b \<longleftrightarrow> map tolower a = map tolower b"

section \<open>Digests\<close>

datatype digest =
  SSH_DIGEST_MD5 | SSH_DIGEST_RIPEMD160 | SSH_DIGEST_SHA1 | SSH_DIGEST_SHA256 | SSH_DIGEST_SHA384
  | SSH_DIGEST_SHA512

definition SSH_DIGEST_MAX_LENGTH :: nat where "SSH_DIGEST_MAX_LENGTH = 64"

text \<open>The table \<open>digests\<close>: identifier, name, length, and whether \<open>mdfunc\<close> is there.\<close>

definition digests :: "build \<Rightarrow> (digest \<times> string \<times> nat \<times> bool) list" where
  "digests bl =
     [(SSH_DIGEST_MD5, ''MD5'', 16, True), (SSH_DIGEST_RIPEMD160, ''RIPEMD160'', 20, True),
      (SSH_DIGEST_SHA1, ''SHA1'', 20, True), (SSH_DIGEST_SHA256, ''SHA256'', 32, have_sha256 bl),
      (SSH_DIGEST_SHA384, ''SHA384'', 48, have_sha256 bl),
      (SSH_DIGEST_SHA512, ''SHA512'', 64, have_sha256 bl)]"

definition ssh_digest_by_alg :: "build \<Rightarrow> digest \<Rightarrow> (digest \<times> string \<times> nat \<times> bool) option" where
  "ssh_digest_by_alg bl alg =
     (case find (\<lambda>(i, _). i = alg) (digests bl) of
        Some (i, n, l, True) \<Rightarrow> Some (i, n, l, True) | _ \<Rightarrow> None)"

definition ssh_digest_alg_by_name :: "build \<Rightarrow> string \<Rightarrow> digest option" where
  "ssh_digest_alg_by_name bl name =
     map_option fst (find (\<lambda>(_, n, _). strcasecmp_eq name n) (digests bl))"

definition ssh_digest_alg_name :: "build \<Rightarrow> digest \<Rightarrow> string option" where
  "ssh_digest_alg_name bl alg = map_option (\<lambda>(_, n, _). n) (ssh_digest_by_alg bl alg)"

definition ssh_digest_bytes :: "build \<Rightarrow> digest \<Rightarrow> nat" where
  "ssh_digest_bytes bl alg =
     (case ssh_digest_by_alg bl alg of None \<Rightarrow> 0 | Some (_, _, l, _) \<Rightarrow> l)"

section \<open>Ciphers\<close>

definition SSH_CIPHER_SSH2 :: int where "SSH_CIPHER_SSH2 = -3"
definition SSH_CIPHER_NONE :: int where "SSH_CIPHER_NONE = 0"
definition SSH_CIPHER_DES :: int where "SSH_CIPHER_DES = 2"
definition SSH_CIPHER_3DES :: int where "SSH_CIPHER_3DES = 3"
definition SSH_CIPHER_BLOWFISH :: int where "SSH_CIPHER_BLOWFISH = 6"
definition CFLAG_CBC :: "32 word" where "CFLAG_CBC = 1"
definition CFLAG_CHACHAPOLY :: "32 word" where "CFLAG_CHACHAPOLY = 2"
definition CFLAG_AESCTR :: "32 word" where "CFLAG_AESCTR = 4"
definition CFLAG_NONE :: "32 word" where "CFLAG_NONE = 8"

lemmas cipher_consts =
  SSH_CIPHER_SSH2_def SSH_CIPHER_NONE_def SSH_CIPHER_DES_def SSH_CIPHER_3DES_def
  SSH_CIPHER_BLOWFISH_def CFLAG_CBC_def CFLAG_CHACHAPOLY_def CFLAG_AESCTR_def CFLAG_NONE_def

record sshcipher =
  c_name :: string
  c_number :: int
  c_block_size :: nat
  c_key_len :: nat
  c_iv_len :: nat
  c_auth_len :: nat
  c_discard_len :: nat
  c_flags :: "32 word"

definition mk_cipher :: "string \<Rightarrow> int \<Rightarrow> nat \<Rightarrow> nat \<Rightarrow> nat \<Rightarrow> nat \<Rightarrow> nat \<Rightarrow> 32 word \<Rightarrow> sshcipher" where
  "mk_cipher n num bs kl il al dl fl =
     \<lparr>c_name = n, c_number = num, c_block_size = bs, c_key_len = kl, c_iv_len = il, c_auth_len = al,
      c_discard_len = dl, c_flags = fl\<rparr>"

definition ciphers :: "build \<Rightarrow> sshcipher list" where
  "ciphers bl =
     (if with_ssh1 bl then
       [mk_cipher ''des'' SSH_CIPHER_DES 8 8 0 0 0 1,
        mk_cipher ''3des'' SSH_CIPHER_3DES 8 16 0 0 0 1,
        mk_cipher ''blowfish'' SSH_CIPHER_BLOWFISH 8 32 0 0 0 1]
      else []) @
     (if with_openssl bl then
       [mk_cipher ''none'' SSH_CIPHER_NONE 8 0 0 0 0 0,
        mk_cipher ''3des-cbc'' SSH_CIPHER_SSH2 8 24 0 0 0 1,
        mk_cipher ''blowfish-cbc'' SSH_CIPHER_SSH2 8 16 0 0 0 1,
        mk_cipher ''cast128-cbc'' SSH_CIPHER_SSH2 8 16 0 0 0 1,
        mk_cipher ''arcfour'' SSH_CIPHER_SSH2 8 16 0 0 0 0,
        mk_cipher ''arcfour128'' SSH_CIPHER_SSH2 8 16 0 0 1536 0,
        mk_cipher ''arcfour256'' SSH_CIPHER_SSH2 8 32 0 0 1536 0,
        mk_cipher ''aes128-cbc'' SSH_CIPHER_SSH2 16 16 0 0 0 1,
        mk_cipher ''aes192-cbc'' SSH_CIPHER_SSH2 16 24 0 0 0 1,
        mk_cipher ''aes256-cbc'' SSH_CIPHER_SSH2 16 32 0 0 0 1,
        mk_cipher ''rijndael-cbc@lysator.liu.se'' SSH_CIPHER_SSH2 16 32 0 0 0 1,
        mk_cipher ''aes128-ctr'' SSH_CIPHER_SSH2 16 16 0 0 0 0,
        mk_cipher ''aes192-ctr'' SSH_CIPHER_SSH2 16 24 0 0 0 0,
        mk_cipher ''aes256-ctr'' SSH_CIPHER_SSH2 16 32 0 0 0 0]
      else []) @
     (if with_openssl bl \<and> have_gcm bl then
       [mk_cipher ''aes128-gcm@openssh.com'' SSH_CIPHER_SSH2 16 16 12 16 0 0,
        mk_cipher ''aes256-gcm@openssh.com'' SSH_CIPHER_SSH2 16 32 12 16 0 0]
      else []) @
     (if \<not> with_openssl bl then
       [mk_cipher ''aes128-ctr'' SSH_CIPHER_SSH2 16 16 0 0 0 CFLAG_AESCTR,
        mk_cipher ''aes192-ctr'' SSH_CIPHER_SSH2 16 24 0 0 0 CFLAG_AESCTR,
        mk_cipher ''aes256-ctr'' SSH_CIPHER_SSH2 16 32 0 0 0 CFLAG_AESCTR,
        mk_cipher ''none'' SSH_CIPHER_NONE 8 0 0 0 0 CFLAG_NONE]
      else []) @
     [mk_cipher ''chacha20-poly1305@openssh.com'' SSH_CIPHER_SSH2 8 64 0 16 0 CFLAG_CHACHAPOLY]"

definition cipher_alg_list :: "build \<Rightarrow> (nat \<Rightarrow> bool) \<Rightarrow> char \<Rightarrow> bool \<Rightarrow> string option" where
  "cipher_alg_list bl mem sep auth_only =
     alg_list_loop sep mem None
       (map c_name (filter (\<lambda>c. c_number c = SSH_CIPHER_SSH2 \<and> \<not> (auth_only \<and> c_auth_len c = 0))
                     (ciphers bl)))"

definition cipher_blocksize :: "sshcipher \<Rightarrow> nat" where "cipher_blocksize c = c_block_size c"

definition cipher_keylen :: "sshcipher \<Rightarrow> nat" where "cipher_keylen c = c_key_len c"

definition cipher_seclen :: "sshcipher \<Rightarrow> nat" where
  "cipher_seclen c = (if c_name c = ''3des-cbc'' then 14 else cipher_keylen c)"

definition cipher_authlen :: "sshcipher \<Rightarrow> nat" where "cipher_authlen c = c_auth_len c"

definition cipher_ivlen :: "sshcipher \<Rightarrow> nat" where
  "cipher_ivlen c =
     (if c_iv_len c \<noteq> 0 \<or> c_flags c AND CFLAG_CHACHAPOLY \<noteq> 0 then c_iv_len c else c_block_size c)"

definition cipher_get_number :: "sshcipher \<Rightarrow> int" where "cipher_get_number c = c_number c"

definition cipher_is_cbc :: "sshcipher \<Rightarrow> bool" where
  "cipher_is_cbc c \<longleftrightarrow> c_flags c AND CFLAG_CBC \<noteq> 0"

definition cipher_mask_ssh1 :: "bool \<Rightarrow> 32 word" where
  "cipher_mask_ssh1 client =
     (let m = push_bit (nat SSH_CIPHER_3DES) 1 OR push_bit (nat SSH_CIPHER_BLOWFISH) 1
      in if client then m OR push_bit (nat SSH_CIPHER_DES) 1 else m)"

definition cipher_by_name :: "build \<Rightarrow> string \<Rightarrow> sshcipher option" where
  "cipher_by_name bl name = find (\<lambda>c. c_name c = name) (ciphers bl)"

definition cipher_by_number :: "build \<Rightarrow> int \<Rightarrow> sshcipher option" where
  "cipher_by_number bl i = find (\<lambda>c. c_number c = i) (ciphers bl)"

definition ciphers_valid :: "build \<Rightarrow> bool \<Rightarrow> string option \<Rightarrow> bool" where
  "ciphers_valid bl dup ns =
     names_valid (\<lambda>p. case cipher_by_name bl p of None \<Rightarrow> False | Some c \<Rightarrow> c_number c = SSH_CIPHER_SSH2)
       dup ns"

definition cipher_number :: "build \<Rightarrow> string option \<Rightarrow> int" where
  "cipher_number bl name =
     (case name of None \<Rightarrow> -1 | Some n \<Rightarrow>
      case find (\<lambda>c. strcasecmp_eq (c_name c) n) (ciphers bl) of None \<Rightarrow> -1 | Some c \<Rightarrow> c_number c)"

definition cipher_name :: "build \<Rightarrow> int \<Rightarrow> string" where
  "cipher_name bl i = (case cipher_by_number bl i of None \<Rightarrow> ''<unknown>'' | Some c \<Rightarrow> c_name c)"

section \<open>Message authentication codes\<close>

datatype mac_type = SSH_DIGEST digest | SSH_UMAC | SSH_UMAC128

record macalg =
  ma_name :: string
  ma_type :: mac_type
  ma_truncatebits :: nat
  ma_key_len :: nat
  ma_len :: nat
  ma_etm :: bool

definition mk_mac :: "string \<Rightarrow> mac_type \<Rightarrow> nat \<Rightarrow> nat \<Rightarrow> nat \<Rightarrow> bool \<Rightarrow> macalg" where
  "mk_mac n ty tr kl l e =
     \<lparr>ma_name = n, ma_type = ty, ma_truncatebits = tr, ma_key_len = kl, ma_len = l, ma_etm = e\<rparr>"

definition macs :: "build \<Rightarrow> macalg list" where
  "macs bl =
     [mk_mac ''hmac-sha1'' (SSH_DIGEST SSH_DIGEST_SHA1) 0 0 0 False,
        mk_mac ''hmac-sha1-96'' (SSH_DIGEST SSH_DIGEST_SHA1) 96 0 0 False] @
     (if have_sha256 bl then
       [mk_mac ''hmac-sha2-256'' (SSH_DIGEST SSH_DIGEST_SHA256) 0 0 0 False,
        mk_mac ''hmac-sha2-512'' (SSH_DIGEST SSH_DIGEST_SHA512) 0 0 0 False]
      else []) @
     [mk_mac ''hmac-md5'' (SSH_DIGEST SSH_DIGEST_MD5) 0 0 0 False,
        mk_mac ''hmac-md5-96'' (SSH_DIGEST SSH_DIGEST_MD5) 96 0 0 False,
        mk_mac ''hmac-ripemd160'' (SSH_DIGEST SSH_DIGEST_RIPEMD160) 0 0 0 False,
        mk_mac ''hmac-ripemd160@openssh.com'' (SSH_DIGEST SSH_DIGEST_RIPEMD160) 0 0 0 False,
        mk_mac ''umac-64@openssh.com'' SSH_UMAC 0 128 64 False,
        mk_mac ''umac-128@openssh.com'' SSH_UMAC128 0 128 128 False,
        mk_mac ''hmac-sha1-etm@openssh.com'' (SSH_DIGEST SSH_DIGEST_SHA1) 0 0 0 True,
        mk_mac ''hmac-sha1-96-etm@openssh.com'' (SSH_DIGEST SSH_DIGEST_SHA1) 96 0 0 True] @
     (if have_sha256 bl then
       [mk_mac ''hmac-sha2-256-etm@openssh.com'' (SSH_DIGEST SSH_DIGEST_SHA256) 0 0 0 True,
        mk_mac ''hmac-sha2-512-etm@openssh.com'' (SSH_DIGEST SSH_DIGEST_SHA512) 0 0 0 True]
      else []) @
     [mk_mac ''hmac-md5-etm@openssh.com'' (SSH_DIGEST SSH_DIGEST_MD5) 0 0 0 True,
        mk_mac ''hmac-md5-96-etm@openssh.com'' (SSH_DIGEST SSH_DIGEST_MD5) 96 0 0 True,
        mk_mac ''hmac-ripemd160-etm@openssh.com'' (SSH_DIGEST SSH_DIGEST_RIPEMD160) 0 0 0 True,
        mk_mac ''umac-64-etm@openssh.com'' SSH_UMAC 0 128 64 True,
        mk_mac ''umac-128-etm@openssh.com'' SSH_UMAC128 0 128 128 True]"

record sshmac =
  m_name :: "string option"
  m_type :: "mac_type option"
  m_mac_len :: nat
  m_key_len :: nat
  m_etm :: bool
  m_enabled :: bool
  m_key :: "byte list option"

definition mac_alg_list :: "build \<Rightarrow> (nat \<Rightarrow> bool) \<Rightarrow> char \<Rightarrow> string option" where
  "mac_alg_list bl mem sep = alg_list_loop sep mem None (map ma_name (macs bl))"

text \<open>\<open>hmac\<close> says whether \<open>ssh_hmac_start\<close> succeeds for the digest.\<close>

definition mac_setup_by_alg :: "build \<Rightarrow> (digest \<Rightarrow> bool) \<Rightarrow> sshmac \<Rightarrow> macalg \<Rightarrow> rc \<times> sshmac" where
  "mac_setup_by_alg bl hmac mac macalg =
     (let mac = mac\<lparr>m_type := Some (ma_type macalg)\<rparr>;
          fin = (\<lambda>mac. (None, (if ma_truncatebits macalg \<noteq> 0
                              then mac\<lparr>m_mac_len := ma_truncatebits macalg div 8\<rparr> else mac)
                            \<lparr>m_etm := ma_etm macalg\<rparr>))
      in case ma_type macalg of
           SSH_DIGEST alg \<Rightarrow>
             if \<not> hmac alg then (Some SSH_ERR_ALLOC_FAIL, mac)
             else fin (mac\<lparr>m_key_len := ssh_digest_bytes bl alg, m_mac_len := ssh_digest_bytes bl alg\<rparr>)
         | _ \<Rightarrow> fin (mac\<lparr>m_mac_len := ma_len macalg div 8, m_key_len := ma_key_len macalg div 8\<rparr>))"

definition mac_setup :: "build \<Rightarrow> (digest \<Rightarrow> bool) \<Rightarrow> sshmac \<Rightarrow> string \<Rightarrow> rc \<times> sshmac" where
  "mac_setup bl hmac mac name =
     (case find (\<lambda>m. ma_name m = name) (macs bl) of
        None \<Rightarrow> (Some SSH_ERR_INVALID_ARGUMENT, mac)
      | Some m \<Rightarrow> mac_setup_by_alg bl hmac mac m)"

text \<open>\<open>mac_setup(NULL, p) < 0\<close> only looks the name up.\<close>

definition mac_valid :: "build \<Rightarrow> bool \<Rightarrow> string option \<Rightarrow> bool" where
  "mac_valid bl dup ns = names_valid (\<lambda>p. find (\<lambda>m. ma_name m = p) (macs bl) \<noteq> None) dup ns"

section \<open>Key types\<close>

datatype key_type =
  KEY_RSA1 | KEY_RSA | KEY_DSA | KEY_ECDSA | KEY_ED25519 | KEY_RSA_CERT | KEY_DSA_CERT
  | KEY_ECDSA_CERT | KEY_ED25519_CERT | KEY_NULL | KEY_UNSPEC

text \<open>Curve identifiers of OpenSSL; \<open>NID_0\<close> is 0 and \<open>NID_bad\<close> is -1.\<close>

datatype nid = NID_0 | NID_bad | NID_X9_62_prime256v1 | NID_secp384r1 | NID_secp521r1

record keytype =
  kt_name :: "string option"
  kt_shortname :: string
  kt_type :: key_type
  kt_nid :: nid
  kt_cert :: bool
  kt_sigonly :: bool

definition mk_keytype :: "string option \<Rightarrow> string \<Rightarrow> key_type \<Rightarrow> nid \<Rightarrow> bool \<Rightarrow> bool \<Rightarrow> keytype" where
  "mk_keytype n sn ty ni ce so =
     \<lparr>kt_name = n, kt_shortname = sn, kt_type = ty, kt_nid = ni, kt_cert = ce, kt_sigonly = so\<rparr>"

definition keytypes :: "build \<Rightarrow> keytype list" where
  "keytypes bl =
     [mk_keytype (Some ''ssh-ed25519'') ''ED25519'' KEY_ED25519 NID_0 False False,
        mk_keytype (Some ''ssh-ed25519-cert-v01@openssh.com'') ''ED25519-CERT'' KEY_ED25519_CERT NID_0 True False] @
     (if with_openssl bl then
       [mk_keytype None ''RSA1'' KEY_RSA1 NID_0 False False,
        mk_keytype (Some ''ssh-rsa'') ''RSA'' KEY_RSA NID_0 False False,
        mk_keytype (Some ''rsa-sha2-256'') ''RSA'' KEY_RSA NID_0 False True,
        mk_keytype (Some ''rsa-sha2-512'') ''RSA'' KEY_RSA NID_0 False True,
        mk_keytype (Some ''ssh-dss'') ''DSA'' KEY_DSA NID_0 False False]
      else []) @
     (if with_openssl bl \<and> has_ecc bl then
       [mk_keytype (Some ''ecdsa-sha2-nistp256'') ''ECDSA'' KEY_ECDSA NID_X9_62_prime256v1 False False,
        mk_keytype (Some ''ecdsa-sha2-nistp384'') ''ECDSA'' KEY_ECDSA NID_secp384r1 False False]
      else []) @
     (if with_openssl bl \<and> has_ecc bl \<and> has_p521 bl then
       [mk_keytype (Some ''ecdsa-sha2-nistp521'') ''ECDSA'' KEY_ECDSA NID_secp521r1 False False]
      else []) @
     (if with_openssl bl then
       [mk_keytype (Some ''ssh-rsa-cert-v01@openssh.com'') ''RSA-CERT'' KEY_RSA_CERT NID_0 True False,
        mk_keytype (Some ''ssh-dss-cert-v01@openssh.com'') ''DSA-CERT'' KEY_DSA_CERT NID_0 True False]
      else []) @
     (if with_openssl bl \<and> has_ecc bl then
       [mk_keytype (Some ''ecdsa-sha2-nistp256-cert-v01@openssh.com'') ''ECDSA-CERT'' KEY_ECDSA_CERT NID_X9_62_prime256v1 True False,
        mk_keytype (Some ''ecdsa-sha2-nistp384-cert-v01@openssh.com'') ''ECDSA-CERT'' KEY_ECDSA_CERT NID_secp384r1 True False]
      else []) @
     (if with_openssl bl \<and> has_ecc bl \<and> has_p521 bl then
       [mk_keytype (Some ''ecdsa-sha2-nistp521-cert-v01@openssh.com'') ''ECDSA-CERT'' KEY_ECDSA_CERT NID_secp521r1 True False]
      else []) @
     [mk_keytype (Some ''null'') ''null'' KEY_NULL NID_0 False False]"

definition sshkey_type :: "build \<Rightarrow> key_type \<Rightarrow> string" where
  "sshkey_type bl ty =
     (case find (\<lambda>k. kt_type k = ty) (keytypes bl) of Some k \<Rightarrow> kt_shortname k | None \<Rightarrow> ''unknown'')"

text \<open>The name of an RSA1 key is the null pointer.\<close>

definition sshkey_ssh_name_from_type_nid :: "build \<Rightarrow> key_type \<Rightarrow> nid \<Rightarrow> string option" where
  "sshkey_ssh_name_from_type_nid bl ty nd =
     (case find (\<lambda>k. kt_type k = ty \<and> (kt_nid k = NID_0 \<or> kt_nid k = nd)) (keytypes bl) of
        Some k \<Rightarrow> kt_name k | None \<Rightarrow> Some ''ssh-unknown'')"

definition sshkey_type_is_cert :: "build \<Rightarrow> key_type \<Rightarrow> bool" where
  "sshkey_type_is_cert bl ty =
     (case find (\<lambda>k. kt_type k = ty) (keytypes bl) of Some k \<Rightarrow> kt_cert k | None \<Rightarrow> False)"

definition sshkey_type_from_name :: "build \<Rightarrow> string \<Rightarrow> key_type" where
  "sshkey_type_from_name bl name =
     (case find (\<lambda>k. kt_name k = Some name \<or> (\<not> kt_cert k \<and> strcasecmp_eq (kt_shortname k) name))
             (keytypes bl) of
        Some k \<Rightarrow> kt_type k | None \<Rightarrow> KEY_UNSPEC)"

definition sshkey_ecdsa_nid_from_name :: "build \<Rightarrow> string \<Rightarrow> nid" where
  "sshkey_ecdsa_nid_from_name bl name =
     (case find (\<lambda>k. (kt_type k = KEY_ECDSA \<or> kt_type k = KEY_ECDSA_CERT) \<and> kt_name k = Some name)
             (keytypes bl) of
        Some k \<Rightarrow> kt_nid k | None \<Rightarrow> NID_bad)"

definition key_alg_list :: "build \<Rightarrow> (nat \<Rightarrow> bool) \<Rightarrow> bool \<Rightarrow> bool \<Rightarrow> string option" where
  "key_alg_list bl mem certs_only plain_only =
     alg_list_loop (CHR 0x0A) mem None
       (map (the \<circ> kt_name)
          (filter (\<lambda>k. kt_name k \<noteq> None \<and> \<not> kt_sigonly k \<and> kt_type k \<noteq> KEY_NULL \<and>
                       \<not> (certs_only \<and> \<not> kt_cert k \<or> plain_only \<and> kt_cert k))
             (keytypes bl)))"

definition key_name_ok :: "build \<Rightarrow> bool \<Rightarrow> string \<Rightarrow> bool" where
  "key_name_ok bl allow_wildcard p =
     (let ty = sshkey_type_from_name bl p
      in if ty = KEY_RSA1 then False
         else if ty = KEY_UNSPEC then
           allow_wildcard \<and>
           (\<exists>k \<in> set (keytypes bl). kt_type k \<noteq> KEY_RSA1 \<and> match_pattern_list (the (kt_name k)) p False \<noteq> 0)
         else True)"

definition sshkey_names_valid2 :: "build \<Rightarrow> bool \<Rightarrow> bool \<Rightarrow> string option \<Rightarrow> bool" where
  "sshkey_names_valid2 bl allow_wildcard dup ns = names_valid (key_name_ok bl allow_wildcard) dup ns"

fun sshkey_type_is_valid_ca :: "key_type \<Rightarrow> bool" where
  "sshkey_type_is_valid_ca KEY_RSA = True"
| "sshkey_type_is_valid_ca KEY_DSA = True"
| "sshkey_type_is_valid_ca KEY_ECDSA = True"
| "sshkey_type_is_valid_ca KEY_ED25519 = True"
| "sshkey_type_is_valid_ca _ = False"

fun sshkey_type_plain :: "key_type \<Rightarrow> key_type" where
  "sshkey_type_plain KEY_RSA_CERT = KEY_RSA"
| "sshkey_type_plain KEY_DSA_CERT = KEY_DSA"
| "sshkey_type_plain KEY_ECDSA_CERT = KEY_ECDSA"
| "sshkey_type_plain KEY_ED25519_CERT = KEY_ED25519"
| "sshkey_type_plain ty = ty"

definition sshkey_curve_name_to_nid :: "build \<Rightarrow> string \<Rightarrow> nid" where
  "sshkey_curve_name_to_nid bl name =
     (if name = ''nistp256'' then NID_X9_62_prime256v1
      else if name = ''nistp384'' then NID_secp384r1
      else if has_p521 bl \<and> name = ''nistp521'' then NID_secp521r1
      else NID_bad)"

fun sshkey_curve_nid_to_bits :: "build \<Rightarrow> nid \<Rightarrow> nat" where
  "sshkey_curve_nid_to_bits bl NID_X9_62_prime256v1 = 256"
| "sshkey_curve_nid_to_bits bl NID_secp384r1 = 384"
| "sshkey_curve_nid_to_bits bl NID_secp521r1 = (if has_p521 bl then 521 else 0)"
| "sshkey_curve_nid_to_bits bl _ = 0"

definition sshkey_ecdsa_bits_to_nid :: "build \<Rightarrow> int \<Rightarrow> nid" where
  "sshkey_ecdsa_bits_to_nid bl bits =
     (if bits = 256 then NID_X9_62_prime256v1
      else if bits = 384 then NID_secp384r1
      else if has_p521 bl \<and> bits = 521 then NID_secp521r1
      else NID_bad)"

fun sshkey_curve_nid_to_name :: "build \<Rightarrow> nid \<Rightarrow> string option" where
  "sshkey_curve_nid_to_name bl NID_X9_62_prime256v1 = Some ''nistp256''"
| "sshkey_curve_nid_to_name bl NID_secp384r1 = Some ''nistp384''"
| "sshkey_curve_nid_to_name bl NID_secp521r1 = (if has_p521 bl then Some ''nistp521'' else None)"
| "sshkey_curve_nid_to_name bl _ = None"

definition sshkey_ec_nid_to_hash_alg :: "build \<Rightarrow> nid \<Rightarrow> digest option" where
  "sshkey_ec_nid_to_hash_alg bl nd =
     (let kbits = sshkey_curve_nid_to_bits bl nd
      in if kbits \<le> 0 then None
         else if kbits \<le> 256 then Some SSH_DIGEST_SHA256
         else if kbits \<le> 384 then Some SSH_DIGEST_SHA384
         else Some SSH_DIGEST_SHA512)"

section \<open>Key exchange methods\<close>

definition KEX_DH1 :: string where "KEX_DH1 = ''diffie-hellman-group1-sha1''"
definition KEX_DH14 :: string where "KEX_DH14 = ''diffie-hellman-group14-sha1''"
definition KEX_DHGEX_SHA1 :: string where "KEX_DHGEX_SHA1 = ''diffie-hellman-group-exchange-sha1''"
definition KEX_DHGEX_SHA256 :: string where "KEX_DHGEX_SHA256 = ''diffie-hellman-group-exchange-sha256''"
definition KEX_ECDH_SHA2_NISTP256 :: string where "KEX_ECDH_SHA2_NISTP256 = ''ecdh-sha2-nistp256''"
definition KEX_ECDH_SHA2_NISTP384 :: string where "KEX_ECDH_SHA2_NISTP384 = ''ecdh-sha2-nistp384''"
definition KEX_ECDH_SHA2_NISTP521 :: string where "KEX_ECDH_SHA2_NISTP521 = ''ecdh-sha2-nistp521''"
definition KEX_CURVE25519_SHA256 :: string where "KEX_CURVE25519_SHA256 = ''curve25519-sha256@libssh.org''"
definition KEX_GSS_GRP1_SHA1_ID :: string where "KEX_GSS_GRP1_SHA1_ID = ''gss-group1-sha1-''"
definition KEX_GSS_GRP14_SHA1_ID :: string where "KEX_GSS_GRP14_SHA1_ID = ''gss-group14-sha1-''"
definition KEX_GSS_GEX_SHA1_ID :: string where "KEX_GSS_GEX_SHA1_ID = ''gss-gex-sha1-''"

datatype kex_exchange =
  KEX_DH_GRP1_SHA1 | KEX_DH_GRP14_SHA1 | KEX_DH_GEX_SHA1 | KEX_DH_GEX_SHA256 | KEX_ECDH_SHA2
  | KEX_C25519_SHA256 | KEX_GSS_GRP1_SHA1 | KEX_GSS_GRP14_SHA1 | KEX_GSS_GEX_SHA1

record kexalg =
  ka_name :: string
  ka_type :: kex_exchange
  ka_ec_nid :: nid
  ka_hash_alg :: digest

definition mk_kexalg :: "string \<Rightarrow> kex_exchange \<Rightarrow> nid \<Rightarrow> digest \<Rightarrow> kexalg" where
  "mk_kexalg n ty ni h = \<lparr>ka_name = n, ka_type = ty, ka_ec_nid = ni, ka_hash_alg = h\<rparr>"

definition kexalgs :: "build \<Rightarrow> kexalg list" where
  "kexalgs bl =
     (if with_openssl bl then
       [mk_kexalg KEX_DH1 KEX_DH_GRP1_SHA1 NID_0 SSH_DIGEST_SHA1,
        mk_kexalg KEX_DH14 KEX_DH_GRP14_SHA1 NID_0 SSH_DIGEST_SHA1,
        mk_kexalg KEX_DHGEX_SHA1 KEX_DH_GEX_SHA1 NID_0 SSH_DIGEST_SHA1]
      else []) @
     (if with_openssl bl \<and> have_sha256 bl then
       [mk_kexalg KEX_DHGEX_SHA256 KEX_DH_GEX_SHA256 NID_0 SSH_DIGEST_SHA256]
      else []) @
     (if with_openssl bl \<and> has_ecc bl then
       [mk_kexalg KEX_ECDH_SHA2_NISTP256 KEX_ECDH_SHA2 NID_X9_62_prime256v1 SSH_DIGEST_SHA256,
        mk_kexalg KEX_ECDH_SHA2_NISTP384 KEX_ECDH_SHA2 NID_secp384r1 SSH_DIGEST_SHA384]
      else []) @
     (if with_openssl bl \<and> has_ecc bl \<and> has_p521 bl then
       [mk_kexalg KEX_ECDH_SHA2_NISTP521 KEX_ECDH_SHA2 NID_secp521r1 SSH_DIGEST_SHA512]
      else []) @
     (if (have_sha256 bl \<or> \<not> with_openssl bl) then
       [mk_kexalg KEX_CURVE25519_SHA256 KEX_C25519_SHA256 NID_0 SSH_DIGEST_SHA256]
      else [])"

definition kexalg_prefixes :: "build \<Rightarrow> kexalg list" where
  "kexalg_prefixes bl =
     (if gssapi bl then
       [mk_kexalg KEX_GSS_GEX_SHA1_ID KEX_GSS_GEX_SHA1 NID_0 SSH_DIGEST_SHA1,
        mk_kexalg KEX_GSS_GRP1_SHA1_ID KEX_GSS_GRP1_SHA1 NID_0 SSH_DIGEST_SHA1,
        mk_kexalg KEX_GSS_GRP14_SHA1_ID KEX_GSS_GRP14_SHA1 NID_0 SSH_DIGEST_SHA1]
      else [])"

definition kex_alg_list :: "build \<Rightarrow> (nat \<Rightarrow> bool) \<Rightarrow> char \<Rightarrow> string option" where
  "kex_alg_list bl mem sep = alg_list_loop sep mem None (map ka_name (kexalgs bl))"

definition kex_alg_by_name :: "build \<Rightarrow> string \<Rightarrow> kexalg option" where
  "kex_alg_by_name bl name =
     (case find (\<lambda>k. ka_name k = name) (kexalgs bl) of
        Some k \<Rightarrow> Some k
      | None \<Rightarrow> find (\<lambda>k. ka_name k = take (length (ka_name k)) name) (kexalg_prefixes bl))"

definition kex_names_valid :: "build \<Rightarrow> bool \<Rightarrow> string option \<Rightarrow> bool" where
  "kex_names_valid bl dup ns = names_valid (\<lambda>p. kex_alg_by_name bl p \<noteq> None) dup ns"

section \<open>Listing and validating\<close>

lemma names_loop_eq:
  "names_loop ok cp \<longleftrightarrow> (\<forall>p \<in> set (takeWhile (\<lambda>t. t \<noteq> []) (tokens is_comma cp)). ok p)"
proof (induction cp rule: measure_induct_rule [of strsep_size])
  case (less cp)
  obtain a q where s: "strsep is_comma cp = (a, q)" by fastforce
  show ?case
  proof (cases a)
    case None
    with s show ?thesis by (simp add: names_loop.simps [of ok cp] tokens.simps [of is_comma cp])
  next
    case (Some p)
    with s have "strsep_size q < strsep_size cp" by (simp add: strsep_decreases)
    from less [OF this] s Some show ?thesis
      by (auto simp: names_loop.simps [of ok cp] tokens.simps [of is_comma cp])
  qed
qed

lemma names_valid_eq:
  "names_valid ok True (Some s) \<longleftrightarrow> s \<noteq> [] \<and> (\<forall>p \<in> set (names s). ok p)"
  by (simp add: names_valid_def names_loop_eq names_def)

lemma alg_list_loop_Some:
  "(\<And>n. mem n) \<Longrightarrow> alg_list_loop (CHR '','') mem (Some r) ns = Some (join_comma (r # ns))"
proof (induction ns arbitrary: r)
  case (Cons n ns)
  have "join_comma ((r @ CHR '','' # n) # ns) = join_comma (r # n # ns)" by (cases ns) simp_all
  with Cons show ?case by (simp add: Let_def)
qed simp

lemma alg_list_loop_join:
  "(\<And>n. mem n) \<Longrightarrow> ns \<noteq> [] \<Longrightarrow> alg_list_loop (CHR '','') mem None ns = Some (join_comma ns)"
  by (cases ns) (simp_all add: Let_def alg_list_loop_Some)

definition clean_name :: "string \<Rightarrow> bool" where
  "clean_name t \<longleftrightarrow> t \<noteq> [] \<and> CHR '','' \<notin> set t"

text \<open>What a table lists, its validator accepts.\<close>

lemma listed_valid:
  assumes "ns \<noteq> []" "\<forall>n \<in> set ns. clean_name n \<and> ok n" "\<And>n. mem n"
  shows "\<exists>s. alg_list_loop (CHR '','') mem None ns = Some s \<and> names s = ns \<and> names_valid ok True (Some s)"
proof -
  from assms(2) have clean: "\<forall>t \<in> set ns. t \<noteq> [] \<and> CHR '','' \<notin> set t" by (simp add: clean_name_def)
  have "join_comma ns \<noteq> []" using assms(1) clean by (cases ns rule: join_comma.cases) auto
  with names_join [OF clean] assms show ?thesis
    by (simp add: alg_list_loop_join names_valid_eq)
qed

text \<open>No two entries of a table share a name, so that a lookup by name finds the entry itself.\<close>

lemma find_by_key:
  "distinct (map f xs) \<Longrightarrow> x \<in> set xs \<Longrightarrow> find (\<lambda>y. f y = f x) xs = Some x"
  by (induction xs) (auto simp: image_iff)

lemma ciphers_distinct: "distinct (map c_name (ciphers bl)) \<and> (\<forall>c \<in> set (ciphers bl). clean_name (c_name c))"
  by (cases "with_openssl bl"; cases "with_ssh1 bl"; cases "have_gcm bl")
    (simp_all add: ciphers_def mk_cipher_def clean_name_def)

lemma macs_distinct: "distinct (map ma_name (macs bl)) \<and> (\<forall>m \<in> set (macs bl). clean_name (ma_name m))"
  by (cases "have_sha256 bl") (simp_all add: macs_def mk_mac_def clean_name_def)

lemmas kex_names =
  KEX_DH1_def KEX_DH14_def KEX_DHGEX_SHA1_def KEX_DHGEX_SHA256_def KEX_ECDH_SHA2_NISTP256_def
  KEX_ECDH_SHA2_NISTP384_def KEX_ECDH_SHA2_NISTP521_def KEX_CURVE25519_SHA256_def
  KEX_GSS_GRP1_SHA1_ID_def KEX_GSS_GRP14_SHA1_ID_def KEX_GSS_GEX_SHA1_ID_def

lemma kexalgs_distinct: "distinct (map ka_name (kexalgs bl)) \<and> (\<forall>k \<in> set (kexalgs bl). clean_name (ka_name k))"
  by (cases "with_openssl bl"; cases "have_sha256 bl"; cases "has_ecc bl"; cases "has_p521 bl")
    (simp_all add: kexalgs_def mk_kexalg_def clean_name_def kex_names)

section \<open>Properties\<close>

text \<open>In every build configuration the comma-separated lists of supported ciphers, MACs and key
  exchange methods name exactly the entries of their tables and are accepted by the functions that
  validate such lists.\<close>

lemma listed_algorithms_valid:
  assumes "\<forall>n. mem n"
  shows "(\<exists>s. cipher_alg_list bl mem (CHR '','') auth_only = Some s \<and> ciphers_valid bl True (Some s) \<and>
       names s = map c_name (filter (\<lambda>c. c_number c = SSH_CIPHER_SSH2 \<and> \<not> (auth_only \<and> c_auth_len c = 0))
                               (ciphers bl))) \<and>
    (\<exists>s. mac_alg_list bl mem (CHR '','') = Some s \<and> mac_valid bl True (Some s) \<and>
       names s = map ma_name (macs bl)) \<and>
    (\<exists>s. kex_alg_list bl mem (CHR '','') = Some s \<and> kex_names_valid bl True (Some s) \<and>
       names s = map ka_name (kexalgs bl))"
proof (intro conjI)
  let ?cs = "filter (\<lambda>c. c_number c = SSH_CIPHER_SSH2 \<and> \<not> (auth_only \<and> c_auth_len c = 0)) (ciphers bl)"
  have "?cs \<noteq> []"
    by (simp add: ciphers_def mk_cipher_def filter_empty_conv cipher_consts)
  moreover have "cipher_by_name bl (c_name c) = Some c" if "c \<in> set (ciphers bl)" for c
    using find_by_key [of c_name "ciphers bl" c] ciphers_distinct that by (simp add: cipher_by_name_def)
  ultimately show "\<exists>s. cipher_alg_list bl mem (CHR '','') auth_only = Some s \<and> ciphers_valid bl True (Some s) \<and>
      names s = map c_name ?cs"
    using listed_valid [of "map c_name ?cs" "\<lambda>p. case cipher_by_name bl p of None \<Rightarrow> False
        | Some c \<Rightarrow> c_number c = SSH_CIPHER_SSH2" mem] ciphers_distinct assms
    by (simp add: cipher_alg_list_def ciphers_valid_def) blast
  have "macs bl \<noteq> []" by (simp add: macs_def)
  moreover have "find (\<lambda>y. ma_name y = ma_name m) (macs bl) = Some m" if "m \<in> set (macs bl)" for m
    using find_by_key [of ma_name "macs bl" m] macs_distinct that by simp
  ultimately show "\<exists>s. mac_alg_list bl mem (CHR '','') = Some s \<and> mac_valid bl True (Some s) \<and>
      names s = map ma_name (macs bl)"
    using listed_valid [of "map ma_name (macs bl)" "\<lambda>p. find (\<lambda>m. ma_name m = p) (macs bl) \<noteq> None" mem]
      macs_distinct assms
    by (simp add: mac_alg_list_def mac_valid_def) blast
  have "kexalgs bl \<noteq> []" by (simp add: kexalgs_def)
  moreover have "kex_alg_by_name bl (ka_name k) = Some k" if "k \<in> set (kexalgs bl)" for k
    using find_by_key [of ka_name "kexalgs bl" k] kexalgs_distinct that by (simp add: kex_alg_by_name_def)
  ultimately show "\<exists>s. kex_alg_list bl mem (CHR '','') = Some s \<and> kex_names_valid bl True (Some s) \<and>
      names s = map ka_name (kexalgs bl)"
    using listed_valid [of "map ka_name (kexalgs bl)" "\<lambda>p. kex_alg_by_name bl p \<noteq> None" mem]
      kexalgs_distinct assms
    by (simp add: kex_alg_list_def kex_names_valid_def) blast
qed

definition full_build :: build where
  "full_build = \<lparr>with_openssl = True, with_ssh1 = False, have_sha256 = True, has_ecc = True,
     has_p521 = True, have_gcm = True, gssapi = False\<rparr>"

text \<open>The functions that validate a name list accept lists that name no algorithm and lists with
  unknown names after an empty one, because they stop at the first empty name.\<close>

lemma validators_stop_at_empty_name:
  "ciphers_valid bl True (Some '','') \<and> kex_names_valid bl True (Some '',no-such-kex'') \<and>
   mac_valid bl True (Some ''hmac-md5,,no-such-mac'')"
proof -
  have "names '','' = []" "names '',no-such-kex'' = []" "names ''hmac-md5,,no-such-mac'' = [''hmac-md5'']"
    by (simp_all add: names_def tokens.simps strsep_def)
  moreover have "find (\<lambda>m. ma_name m = ''hmac-md5'') (macs bl) \<noteq> None"
    by (cases "have_sha256 bl") (simp_all add: macs_def mk_mac_def)
  ultimately show ?thesis
    by (simp add: ciphers_valid_def kex_names_valid_def mac_valid_def names_valid_eq)
qed

end
