(* ===== verification/Kex.thy ===== *)
theory Kex
  imports Sshbuf_Spec Compat Algs
begin

unbundle bit_operations_syntax

text \<open>
  Algorithm negotiation and key derivation of \<^verbatim>\<open>src/openssh-7.2p2/kex.c\<close>: assembling name lists,
  encoding and decoding proposals, choosing the algorithms of both directions, and expanding the
  shared secret into keys.  The digest function of the crypto library is a parameter.
\<close>

section \<open>Name lists\<close>

text \<open>\<open>dup\<close> and \<open>cal\<close> say whether \<open>strdup\<close> and \<open>calloc\<close> succeed.\<close>

function cat_loop :: "nat \<Rightarrow> string \<Rightarrow> string option \<Rightarrow> string option" where
  "cat_loop len ret cp =
     (case strsep is_comma cp of (None, _) \<Rightarrow> Some ret | (Some p, cp') \<Rightarrow>
        if p = [] then Some ret
        else if fst (match_list ret p) \<noteq> None then cat_loop len ret cp'
        else if length ret + 1 \<ge> len \<or> length ret + 1 + length p \<ge> len then None
        else cat_loop len (ret @ '','' @ p) cp')"
  by pat_completeness auto
termination
  by (relation "measure (\<lambda>(_, _, q). strsep_size q)") (auto dest: strsep_decreases [OF sym])

declare cat_loop.simps [simp del]

definition kex_names_cat :: "bool \<Rightarrow> bool \<Rightarrow> string option \<Rightarrow> string option \<Rightarrow> string option" where
  "kex_names_cat dup cal a b =
     (case a of None \<Rightarrow> None | Some a \<Rightarrow>
      if a = [] then None
      else case b of None \<Rightarrow> if dup then Some a else None | Some b \<Rightarrow>
      if b = [] then (if dup then Some a else None)
      else if length b > 1024 * 1024 then None
      else if \<not> dup \<or> \<not> cal then None
      else cat_loop (length a + length b + 2) a (Some b))"

text \<open>The argument \<^verbatim>\<open>char **list\<close> is a variable that holds a string or the null pointer; the
  result is the code and its new value.\<close>

definition kex_assemble_names :: "bool \<Rightarrow> bool \<Rightarrow> string \<Rightarrow> string option \<Rightarrow> rc \<times> string option" where
  "kex_assemble_names dup cal def lst =
     (case lst of
        None \<Rightarrow> (None, if dup then Some def else None)
      | Some l \<Rightarrow>
          if l = [] then (None, if dup then Some def else None)
          else if hd l \<noteq> CHR ''+'' then (None, lst)
          else (case kex_names_cat dup cal (Some def) (Some (tl l)) of
                  None \<Rightarrow> (Some SSH_ERR_ALLOC_FAIL, lst)
                | Some r \<Rightarrow> (None, Some r)))"

section \<open>Proposals on the wire\<close>

definition KEX_COOKIE_LEN :: nat where "KEX_COOKIE_LEN = 16"
definition PROPOSAL_MAX :: nat where "PROPOSAL_MAX = 10"
definition PROPOSAL_KEX_ALGS :: nat where "PROPOSAL_KEX_ALGS = 0"
definition PROPOSAL_SERVER_HOST_KEY_ALGS :: nat where "PROPOSAL_SERVER_HOST_KEY_ALGS = 1"
definition PROPOSAL_ENC_ALGS_CTOS :: nat where "PROPOSAL_ENC_ALGS_CTOS = 2"
definition PROPOSAL_ENC_ALGS_STOC :: nat where "PROPOSAL_ENC_ALGS_STOC = 3"
definition PROPOSAL_MAC_ALGS_CTOS :: nat where "PROPOSAL_MAC_ALGS_CTOS = 4"
definition PROPOSAL_MAC_ALGS_STOC :: nat where "PROPOSAL_MAC_ALGS_STOC = 5"
definition PROPOSAL_COMP_ALGS_CTOS :: nat where "PROPOSAL_COMP_ALGS_CTOS = 6"
definition PROPOSAL_COMP_ALGS_STOC :: nat where "PROPOSAL_COMP_ALGS_STOC = 7"

definition bytes_of :: "string \<Rightarrow> byte list" where
  "bytes_of s = map (\<lambda>c. of_nat (code c)) s"

definition cstr_of :: "byte list \<Rightarrow> string" where
  "cstr_of bs = map (\<lambda>b. char_of (unat b)) (takeWhile (\<lambda>b. b \<noteq> 0) bs)"

definition proposal_fields :: "string list \<Rightarrow> wire_field list" where
  "proposal_fields proposal =
     replicate KEX_COOKIE_LEN (F_u8 0) @ map (\<lambda>p. F_cstring (bytes_of p)) proposal @ [F_u8 0, F_u32 0]"

definition kex_prop2buf :: "alloc_env \<Rightarrow> sshbuf \<Rightarrow> string list \<Rightarrow> rc \<times> sshbuf" where
  "kex_prop2buf e b proposal = put_all (sshbuf_put_field e) (sshbuf_reset e b) (proposal_fields proposal)"

fun field_bytes :: "wire_field \<Rightarrow> byte list" where
  "field_bytes (F_cstring v) = v"
| "field_bytes (F_u8 v) = [v]"
| "field_bytes _ = []"

text \<open>\<open>sshbuf_fromb\<close> gives a read-only view of the bytes of \<open>raw\<close>, which is freed at the end and
  leaves \<open>raw\<close> as it was.\<close>

definition kex_buf2prop :: "alloc_env \<Rightarrow> sshbuf \<Rightarrow> ssh_err + (byte \<times> string list)" where
  "kex_buf2prop e raw =
     (if \<not> ae_struct e then Inl SSH_ERR_ALLOC_FAIL
      else case sshbuf_from e (sb_cd raw) (ptr_bytes raw) of
        None \<Rightarrow> Inl SSH_ERR_ALLOC_FAIL
      | Some b \<Rightarrow>
          (case sshbuf_consume b KEX_COOKIE_LEN of
             (Some r, b) \<Rightarrow> Inl r
           | (None, b) \<Rightarrow>
               (case get_all (sshbuf_get_field e) b (replicate PROPOSAL_MAX T_cstring @ [T_u8, T_u32]) of
                  (Inl r, _) \<Rightarrow> Inl r
                | (Inr fs, _) \<Rightarrow>
                    Inr (field_bytes (fs ! PROPOSAL_MAX) ! 0,
                         map (cstr_of \<circ> field_bytes) (take PROPOSAL_MAX fs)))))"

section \<open>Choosing algorithms\<close>

datatype comp_type = COMP_NONE | COMP_ZLIB | COMP_DELAYED

record sshenc =
  e_name :: string
  e_cipher :: sshcipher
  e_enabled :: bool
  e_key_len :: nat
  e_iv_len :: nat
  e_block_size :: nat
  e_key :: "byte list option"
  e_iv :: "byte list option"

text \<open>The structure as \<open>calloc\<close> leaves it: no name, no type, no key.\<close>

definition zero_mac :: sshmac where
  "zero_mac = \<lparr>m_name = None, m_type = None, m_mac_len = 0, m_key_len = 0, m_etm = False,
     m_enabled = False, m_key = None\<rparr>"

record newkeys =
  nk_enc :: "sshenc option"
  nk_mac :: sshmac
  nk_comp :: "(comp_type \<times> string) option"
  nk_comp_enabled :: bool

definition zero_newkeys :: newkeys where
  "zero_newkeys = \<lparr>nk_enc = None, nk_mac = zero_mac, nk_comp = None, nk_comp_enabled = False\<rparr>"

record kex =
  kx_server :: bool
  kx_name :: "string option"
  kx_hostkey_alg :: "string option"
  kx_hostkey_type :: key_type
  kx_hostkey_nid :: nid
  kx_type :: "kex_exchange option"
  kx_hash_alg :: "digest option"
  kx_ec_nid :: nid
  kx_in :: "newkeys option"
  kx_out :: "newkeys option"
  kx_we_need :: nat
  kx_dh_need :: nat
  kx_ext_info_c :: bool
  kx_failed_choice :: "string option"
  kx_my :: sshbuf
  kx_peer :: sshbuf
  kx_session_id :: "byte list"
  kx_done :: bool
  kx_init_sent :: bool  \<comment> \<open>\<open>KEX_INIT_SENT\<close> in \<open>flags\<close>\<close>
  kx_rsa_sha2 :: nat

definition choose_enc :: "build \<Rightarrow> string \<Rightarrow> string \<Rightarrow> ssh_err + sshenc" where
  "choose_enc bl client server =
     (case fst (match_list client server) of None \<Rightarrow> Inl SSH_ERR_NO_CIPHER_ALG_MATCH | Some name \<Rightarrow>
      case cipher_by_name bl name of None \<Rightarrow> Inl SSH_ERR_INTERNAL_ERROR | Some c \<Rightarrow>
      Inr \<lparr>e_name = name, e_cipher = c, e_enabled = False, e_key_len = cipher_keylen c,
           e_iv_len = cipher_ivlen c, e_block_size = cipher_blocksize c, e_key = None, e_iv = None\<rparr>)"

definition choose_mac ::
  "build \<Rightarrow> (digest \<Rightarrow> bool) \<Rightarrow> 32 word \<Rightarrow> sshmac \<Rightarrow> string \<Rightarrow> string \<Rightarrow> rc \<times> sshmac" where
  "choose_mac bl hmac bugs mac client server =
     (case fst (match_list client server) of None \<Rightarrow> (Some SSH_ERR_NO_MAC_ALG_MATCH, mac) | Some name \<Rightarrow>
      case mac_setup bl hmac mac name of
        (Some _, mac) \<Rightarrow> (Some SSH_ERR_INTERNAL_ERROR, mac)
      | (None, mac) \<Rightarrow>
          let mac = (if bugs AND SSH_BUG_HMAC \<noteq> 0 then mac\<lparr>m_key_len := 16\<rparr> else mac)
          in (None, mac\<lparr>m_name := Some name, m_key := None, m_enabled := False\<rparr>))"

definition choose_comp :: "string \<Rightarrow> string \<Rightarrow> ssh_err + (comp_type \<times> string)" where
  "choose_comp client server =
     (case fst (match_list client server) of None \<Rightarrow> Inl SSH_ERR_NO_COMPRESS_ALG_MATCH | Some name \<Rightarrow>
      if name = ''zlib@openssh.com'' then Inr (COMP_DELAYED, name)
      else if name = ''zlib'' then Inr (COMP_ZLIB, name)
      else if name = ''none'' then Inr (COMP_NONE, name)
      else Inl SSH_ERR_INTERNAL_ERROR)"

definition choose_kex :: "build \<Rightarrow> kex \<Rightarrow> string \<Rightarrow> string \<Rightarrow> rc \<times> kex" where
  "choose_kex bl k client server =
     (let k = k\<lparr>kx_name := fst (match_list client server)\<rparr>
      in case kx_name k of None \<Rightarrow> (Some SSH_ERR_NO_KEX_ALG_MATCH, k) | Some name \<Rightarrow>
         case kex_alg_by_name bl name of None \<Rightarrow> (Some SSH_ERR_INTERNAL_ERROR, k) | Some a \<Rightarrow>
         (None, k\<lparr>kx_type := Some (ka_type a), kx_hash_alg := Some (ka_hash_alg a),
                  kx_ec_nid := ka_ec_nid a\<rparr>))"

definition choose_hostkeyalg :: "build \<Rightarrow> kex \<Rightarrow> string \<Rightarrow> string \<Rightarrow> rc \<times> kex" where
  "choose_hostkeyalg bl k client server =
     (let k = k\<lparr>kx_hostkey_alg := fst (match_list client server)\<rparr>
      in case kx_hostkey_alg k of None \<Rightarrow> (Some SSH_ERR_NO_HOSTKEY_ALG_MATCH, k) | Some name \<Rightarrow>
         let k = k\<lparr>kx_hostkey_type := sshkey_type_from_name bl name\<rparr>
         in if kx_hostkey_type k = KEY_UNSPEC then (Some SSH_ERR_INTERNAL_ERROR, k)
            else (None, k\<lparr>kx_hostkey_nid := sshkey_ecdsa_nid_from_name bl name\<rparr>))"

text \<open>The two indices that are compared after cutting both lists at their first comma.\<close>

definition first_name :: "string \<Rightarrow> string" where
  "first_name s = takeWhile (\<lambda>c. c \<noteq> CHR '','') s"

definition proposals_match :: "string list \<Rightarrow> string list \<Rightarrow> bool" where
  "proposals_match my peer \<longleftrightarrow>
     first_name (my ! PROPOSAL_KEX_ALGS) = first_name (peer ! PROPOSAL_KEX_ALGS) \<and>
     first_name (my ! PROPOSAL_SERVER_HOST_KEY_ALGS) = first_name (peer ! PROPOSAL_SERVER_HOST_KEY_ALGS)"

text \<open>The body of the first loop over the modes: the error with the index of the proposal that failed,
  and the keys as far as they were filled.\<close>

definition choose_newkeys ::
  "build \<Rightarrow> (digest \<Rightarrow> bool) \<Rightarrow> 32 word \<Rightarrow> bool \<Rightarrow> string list \<Rightarrow> string list \<Rightarrow>
   (ssh_err \<times> nat) option \<times> newkeys" where
  "choose_newkeys bl hmac bugs ctos cprop sprop =
     (let nenc = (if ctos then PROPOSAL_ENC_ALGS_CTOS else PROPOSAL_ENC_ALGS_STOC);
          nmac = (if ctos then PROPOSAL_MAC_ALGS_CTOS else PROPOSAL_MAC_ALGS_STOC);
          ncomp = (if ctos then PROPOSAL_COMP_ALGS_CTOS else PROPOSAL_COMP_ALGS_STOC);
          nk = zero_newkeys
      in case choose_enc bl (cprop ! nenc) (sprop ! nenc) of
           Inl r \<Rightarrow> (Some (r, nenc), nk)
         | Inr enc \<Rightarrow>
             let nk = nk\<lparr>nk_enc := Some enc\<rparr>;
                 authlen = cipher_authlen (e_cipher enc);
                 m = (if authlen = 0 then choose_mac bl hmac bugs (nk_mac nk) (cprop ! nmac) (sprop ! nmac)
                      else (None, nk_mac nk));
                 nk = nk\<lparr>nk_mac := snd m\<rparr>
             in (case fst m of
                   Some r \<Rightarrow> (Some (r, nmac), nk)
                 | None \<Rightarrow>
                     (case choose_comp (cprop ! ncomp) (sprop ! ncomp) of
                        Inl r \<Rightarrow> (Some (r, ncomp), nk)
                      | Inr cmp \<Rightarrow> (None, nk\<lparr>nk_comp := Some cmp\<rparr>))))"

datatype kex_mode = MODE_IN | MODE_OUT

definition set_newkeys :: "kex_mode \<Rightarrow> newkeys \<Rightarrow> kex \<Rightarrow> kex" where
  "set_newkeys mode nk k = (case mode of MODE_IN \<Rightarrow> k\<lparr>kx_in := Some nk\<rparr> | MODE_OUT \<Rightarrow> k\<lparr>kx_out := Some nk\<rparr>)"

definition mode_ctos :: "kex \<Rightarrow> kex_mode \<Rightarrow> bool" where
  "mode_ctos k mode \<longleftrightarrow> (\<not> kx_server k \<and> mode = MODE_OUT) \<or> (kx_server k \<and> mode = MODE_IN)"

fun choose_modes ::
  "build \<Rightarrow> (digest \<Rightarrow> bool) \<Rightarrow> 32 word \<Rightarrow> bool \<Rightarrow> string list \<Rightarrow> string list \<Rightarrow> string list \<Rightarrow>
   kex_mode list \<Rightarrow> kex \<Rightarrow> rc \<times> kex" where
  "choose_modes bl hmac bugs cal peer cprop sprop [] k = (None, k)"
| "choose_modes bl hmac bugs cal peer cprop sprop (mode # modes) k =
     (if \<not> cal then (Some SSH_ERR_ALLOC_FAIL, k)
      else case choose_newkeys bl hmac bugs (mode_ctos k mode) cprop sprop of
        (Some (r, i), nk) \<Rightarrow> (Some r, (set_newkeys mode nk k)\<lparr>kx_failed_choice := Some (peer ! i)\<rparr>)
      | (None, nk) \<Rightarrow>
          choose_modes bl hmac bugs cal peer cprop sprop modes (set_newkeys mode nk k))"

text \<open>The second loop over the modes: how many bytes of key material one direction needs.\<close>

definition need_of :: "newkeys \<Rightarrow> nat \<Rightarrow> nat" where
  "need_of nk need =
     (case nk_enc nk of None \<Rightarrow> need | Some enc \<Rightarrow>
      max (max (max (max need (e_key_len enc)) (e_block_size enc)) (e_iv_len enc)) (m_key_len (nk_mac nk)))"

definition dh_need_of :: "newkeys \<Rightarrow> nat \<Rightarrow> nat" where
  "dh_need_of nk need =
     (case nk_enc nk of None \<Rightarrow> need | Some enc \<Rightarrow>
      max (max (max (max need (cipher_seclen (e_cipher enc))) (e_block_size enc)) (e_iv_len enc))
        (m_key_len (nk_mac nk)))"

text \<open>The result is the code, whether \<open>dispatch_skip_packets\<close> is set, and the new state.\<close>

definition kex_choose_conf ::
  "build \<Rightarrow> alloc_env \<Rightarrow> (digest \<Rightarrow> bool) \<Rightarrow> 32 word \<Rightarrow> bool \<Rightarrow> kex \<Rightarrow> rc \<times> bool \<times> kex" where
  "kex_choose_conf bl e hmac bugs cal k =
     (case kex_buf2prop e (kx_my k) of Inl r \<Rightarrow> (Some r, False, k) | Inr (_, my) \<Rightarrow>
      case kex_buf2prop e (kx_peer k) of Inl r \<Rightarrow> (Some r, False, k) | Inr (first_kex_follows, peer) \<Rightarrow>
      let cprop = (if kx_server k then peer else my);
          sprop = (if kx_server k then my else peer);
          k = (if kx_server k \<and> fst (match_list ''ext-info-c'' (peer ! PROPOSAL_KEX_ALGS)) \<noteq> None
               then k\<lparr>kx_ext_info_c := True\<rparr> else k)
      in case choose_kex bl k (cprop ! PROPOSAL_KEX_ALGS) (sprop ! PROPOSAL_KEX_ALGS) of
           (Some r, k) \<Rightarrow> (Some r, False, k\<lparr>kx_failed_choice := Some (peer ! PROPOSAL_KEX_ALGS)\<rparr>)
         | (None, k) \<Rightarrow>
         case choose_hostkeyalg bl k (cprop ! PROPOSAL_SERVER_HOST_KEY_ALGS)
                (sprop ! PROPOSAL_SERVER_HOST_KEY_ALGS) of
           (Some r, k) \<Rightarrow>
             (Some r, False, k\<lparr>kx_failed_choice := Some (peer ! PROPOSAL_SERVER_HOST_KEY_ALGS)\<rparr>)
         | (None, k) \<Rightarrow>
         case choose_modes bl hmac bugs cal peer cprop sprop [MODE_IN, MODE_OUT] k of
           (Some r, k) \<Rightarrow> (Some r, False, k)
         | (None, k) \<Rightarrow>
             let nin = the (kx_in k); nout = the (kx_out k);
                 k = k\<lparr>kx_we_need := need_of nout (need_of nin 0),
                       kx_dh_need := dh_need_of nout (dh_need_of nin 0)\<rparr>
             in (None,
                 first_kex_follows \<noteq> 0 \<and> \<not> proposals_match my peer \<and> bugs AND SSH_BUG_FIRSTKEX = 0,
                 k))"

section \<open>Deriving keys\<close>

text \<open>\<open>hash\<close> is the digest of the chosen algorithm: its value, or \<^term>\<open>None\<close> where the library reports
  an error.\<close>

function derive_loop ::
  "(byte list \<Rightarrow> byte list option) \<Rightarrow> nat \<Rightarrow> nat \<Rightarrow> byte list \<Rightarrow> byte list \<Rightarrow> byte list \<Rightarrow> nat \<Rightarrow> byte list option"
where
  "derive_loop hash mdsz need secret h digest have =
     (if need > have \<and> mdsz > 0 then
        (case hash (secret @ h @ take have digest) of
           None \<Rightarrow> None
         | Some kn \<Rightarrow> derive_loop hash mdsz need secret h (digest @ kn) (have + mdsz))
      else Some digest)"
  by pat_completeness auto
termination
  by (relation "measure (\<lambda>(_, _, need, _, _, _, have). need - have)") auto

declare derive_loop.simps [simp del]

definition derive_key ::
  "(byte list \<Rightarrow> byte list option) \<Rightarrow> nat \<Rightarrow> bool \<Rightarrow> byte \<Rightarrow> nat \<Rightarrow> byte list \<Rightarrow> byte list \<Rightarrow> byte list \<Rightarrow>
   ssh_err + byte list" where
  "derive_key hash mdsz cal c need h secret sid =
     (if mdsz = 0 then Inl SSH_ERR_INVALID_ARGUMENT
      else if \<not> cal then Inl SSH_ERR_ALLOC_FAIL
      else case hash (secret @ h @ [c] @ sid) of
             None \<Rightarrow> Inl SSH_ERR_LIBCRYPTO_ERROR
           | Some k1 \<Rightarrow>
               (case derive_loop hash mdsz need secret h k1 mdsz of
                  None \<Rightarrow> Inl SSH_ERR_LIBCRYPTO_ERROR
                | Some key \<Rightarrow> Inr key))"

definition NKEYS :: nat where "NKEYS = 6"

fun derive_all :: "(byte \<Rightarrow> ssh_err + byte list) \<Rightarrow> byte list \<Rightarrow> ssh_err + byte list list" where
  "derive_all f [] = Inr []"
| "derive_all f (c # cs) =
     (case f c of Inl r \<Rightarrow> Inl r | Inr k \<Rightarrow>
      case derive_all f cs of Inl r \<Rightarrow> Inl r | Inr ks \<Rightarrow> Inr (k # ks))"

definition install_keys :: "byte list list \<Rightarrow> bool \<Rightarrow> newkeys \<Rightarrow> newkeys" where
  "install_keys keys ctos nk =
     nk\<lparr>nk_enc := map_option (\<lambda>enc. enc\<lparr>e_iv := Some (keys ! (if ctos then 0 else 1)),
                                        e_key := Some (keys ! (if ctos then 2 else 3))\<rparr>) (nk_enc nk),
        nk_mac := (nk_mac nk)\<lparr>m_key := Some (keys ! (if ctos then 4 else 5))\<rparr>\<rparr>"

definition kex_derive_keys ::
  "(byte list \<Rightarrow> byte list option) \<Rightarrow> nat \<Rightarrow> bool \<Rightarrow> byte list \<Rightarrow> byte list \<Rightarrow> kex \<Rightarrow> rc \<times> kex" where
  "kex_derive_keys hash mdsz cal h secret k =
     (case derive_all (\<lambda>c. derive_key hash mdsz cal c (kx_we_need k) h secret (kx_session_id k))
             (map (\<lambda>i. 0x41 + of_nat i) [0..<NKEYS]) of
        Inl r \<Rightarrow> (Some r, k)
      | Inr keys \<Rightarrow>
          (None, k\<lparr>kx_in := map_option (install_keys keys (mode_ctos k MODE_IN)) (kx_in k),
                   kx_out := map_option (install_keys keys (mode_ctos k MODE_OUT)) (kx_out k)\<rparr>))"

section \<open>Concatenating name lists\<close>

definition add_name :: "string \<Rightarrow> string list \<Rightarrow> string list" where
  "add_name p rs = (if p \<in> set rs then rs else rs @ [p])"

lemma join_comma_snoc: "rs \<noteq> [] \<Longrightarrow> join_comma (rs @ [p]) = join_comma rs @ '','' @ p"
  by (induction rs rule: join_comma.induct) auto

lemma names_single: "p \<noteq> [] \<Longrightarrow> CHR '','' \<notin> set p \<Longrightarrow> names p = [p]"
  using names_join [of "[p]"] by simp

lemma names_clean: "t \<in> set (names s) \<Longrightarrow> t \<noteq> [] \<and> CHR '','' \<notin> set t"
  using names_nonempty [of t s] tokens_clean [of t is_comma "Some s" "CHR '',''"]
  by (auto simp: names_def dest: set_takeWhileD)

lemma match_list_single:
  assumes "\<forall>t \<in> set rs. t \<noteq> [] \<and> CHR '','' \<notin> set t" "p \<noteq> []" "CHR '','' \<notin> set p"
  shows "fst (match_list (join_comma rs) p) = None \<longleftrightarrow> p \<notin> set rs"
  using assms by (simp add: match_list_eq names_join names_single MAX_PROP_def find_None_iff)

lemma cat_loop_eq:
  assumes "length (join_comma rs) + strsep_size cp < len" "rs \<noteq> []"
    "\<forall>t \<in> set rs. t \<noteq> [] \<and> CHR '','' \<notin> set t"
  shows "cat_loop len (join_comma rs) cp =
    Some (join_comma (fold add_name (takeWhile (\<lambda>t. t \<noteq> []) (tokens is_comma cp)) rs))"
  using assms
proof (induction cp arbitrary: rs rule: measure_induct_rule [of strsep_size])
  case (less cp)
  obtain a q where s: "strsep is_comma cp = (a, q)" by fastforce
  show ?case
  proof (cases a)
    case None
    with s show ?thesis by (simp add: cat_loop.simps [of _ _ cp] tokens.simps [of is_comma cp])
  next
    case (Some p)
    have tok: "tokens is_comma cp = p # tokens is_comma q"
      using s Some by (subst tokens.simps) simp
    from strsep_token_size [OF s [unfolded Some]]
    have sz: "length p + 1 + strsep_size q = strsep_size cp" .
    show ?thesis
    proof (cases "p = []")
      case True
      with s Some tok show ?thesis by (simp add: cat_loop.simps [of _ _ cp])
    next
      case False
      have "CHR '','' \<notin> set p" using tokens_clean [of p is_comma cp] tok by auto
      note ml = match_list_single [OF less.prems(3) False this]
      have q: "strsep_size q < strsep_size cp" using sz by simp
      have "cat_loop len (join_comma rs) cp = cat_loop len (join_comma (add_name p rs)) q"
        using s Some False ml less.prems(1,2) sz
        by (simp add: cat_loop.simps [of _ _ cp] add_name_def join_comma_snoc)
      moreover have "cat_loop len (join_comma (add_name p rs)) q =
          Some (join_comma (fold add_name (takeWhile (\<lambda>t. t \<noteq> []) (tokens is_comma q)) (add_name p rs)))"
        using less.prems sz False \<open>CHR '','' \<notin> set p\<close>
        by (intro less.IH [OF q]) (auto simp: add_name_def join_comma_snoc)
      ultimately show ?thesis using False tok by simp
    qed
  qed
qed

lemma add_name_set: "set (fold add_name ps rs) = set rs \<union> set ps"
  by (induction ps arbitrary: rs) (auto simp: add_name_def)

lemma add_name_distinct: "distinct rs \<Longrightarrow> distinct (fold add_name ps rs)"
  by (induction ps arbitrary: rs) (auto simp: add_name_def)

lemma add_name_prefix: "prefix rs (fold add_name ps rs)"
proof (induction ps arbitrary: rs)
  case (Cons p ps)
  have "prefix rs (add_name p rs)" by (simp add: add_name_def)
  with Cons [of "add_name p rs"] show ?case by (auto intro: prefix_order.trans)
qed simp

section \<open>Proposals round trip\<close>

lemma unat_code: "unat (of_nat (code c) :: byte) = code c"
  by (simp add: unat_of_nat)

lemma cstr_of_bytes_of:
  assumes "CHR 0x00 \<notin> set s"
  shows "cstr_of (bytes_of s) = s" "0 \<notin> set (bytes_of s)"
proof -
  have nz: "(of_nat (code c) :: byte) \<noteq> 0" if "c \<in> set s" for c
  proof
    assume "(of_nat (code c) :: byte) = 0"
    then have "code c = code CHR 0x00" using unat_code [of c] by simp
    then have "c = CHR 0x00" by (simp only: of_char_eq_iff)
    with assms that show False by simp
  qed
  then show "0 \<notin> set (bytes_of s)" by (auto simp: bytes_of_def)
  with nz have tw: "takeWhile (\<lambda>b. b \<noteq> 0) (bytes_of s) = bytes_of s" by (auto simp: takeWhile_eq_all_conv)
  show "cstr_of (bytes_of s) = s"
    unfolding cstr_of_def tw by (simp add: bytes_of_def unat_code comp_def)
qed

definition proposal_ok :: "string list \<Rightarrow> bool" where
  "proposal_ok ps \<longleftrightarrow> length ps = PROPOSAL_MAX \<and>
     (\<forall>p \<in> set ps. CHR 0x00 \<notin> set p \<and> length p \<le> SSHBUF_SIZE_MAX - 4)"

lemma proposal_field_ok:
  assumes "proposal_ok ps" "p \<in> set ps"
  shows "field_ok (F_cstring (bytes_of p))" "cstr_of (bytes_of p) = p"
  using assms cstr_of_bytes_of [of p] by (auto simp: proposal_ok_def bytes_of_def)

text \<open>Decoding a proposal, whatever the cookie, the flag and the reserved word.\<close>

lemma buf2prop_decodes:
  assumes e: "alloc_total e" and inv: "sshbuf_inv raw" and ps: "proposal_ok ps"
    and cookie: "length cookie = KEX_COOKIE_LEN"
    and c: "contents raw = cookie @ concat (map field_enc (map (\<lambda>p. F_cstring (bytes_of p)) ps @ [F_u8 f, F_u32 w])) @ rest"
  shows "kex_buf2prop e raw = Inr (f, ps)"
proof -
  let ?fs = "map (\<lambda>p. F_cstring (bytes_of p)) ps @ [F_u8 f, F_u32 w]"
  from e inv obtain b where b: "sshbuf_from e (sb_cd raw) (contents raw) = Some b"
    using contents_bound [OF inv] by (auto simp: sshbuf_from_def alloc_total_def sshbuf_inv_iff)
  note bi = sshbuf_from_inv [OF b]
  from c cookie have le: "KEX_COOKIE_LEN \<le> length (contents b)" by (simp add: bi(2))
  note adv = advance_keeps [OF bi(1) le]
  have cons: "sshbuf_consume b KEX_COOKIE_LEN = (None, advance b KEX_COOKIE_LEN)"
    using le by (simp add: consume_advance [OF bi(1)])
  have c1: "contents (advance b KEX_COOKIE_LEN) = concat (map field_enc ?fs) @ rest"
    using adv(2) c cookie by (simp add: bi(2))
  have ok: "\<forall>f \<in> set ?fs. field_ok f" using proposal_field_ok [OF ps] by auto
  have types: "map field_type ?fs = replicate PROPOSAL_MAX T_cstring @ [T_u8, T_u32]"
  proof -
    have "map (field_type \<circ> (\<lambda>p. F_cstring (bytes_of p))) ps = replicate (length ps) T_cstring"
      by (induction ps) auto
    with ps show ?thesis by (simp add: proposal_ok_def)
  qed
  obtain b2 where g: "get_all (sshbuf_get_field e) (advance b KEX_COOKIE_LEN)
      (replicate PROPOSAL_MAX T_cstring @ [T_u8, T_u32]) = (Inr ?fs, b2)"
    using sshbuf_wire.get_all_law [of "advance b KEX_COOKIE_LEN" e ?fs rest] adv(1) e ok c1 types by auto
  have len: "length ps = PROPOSAL_MAX" using ps by (simp add: proposal_ok_def)
  have dec: "map ((cstr_of \<circ> field_bytes) \<circ> (\<lambda>p. F_cstring (bytes_of p))) ps = ps"
    using proposal_field_ok(2) [OF ps] by (induction ps) (auto simp: map_idI)
  show ?thesis
    using e inv b cons g len dec by (simp add: kex_buf2prop_def alloc_total_def nth_append)
qed

lemma prop2buf_encodes:
  assumes r: "buf_ready e b" and ps: "proposal_ok ps"
    and fit: "length (concat (map field_enc (proposal_fields ps))) \<le> sb_max_size b"
  shows "\<exists>b'. kex_prop2buf e b ps = (None, b') \<and> sshbuf_inv b' \<and>
    contents b' = concat (map field_enc (proposal_fields ps))"
proof -
  note rs = reset_step [OF r]
  from rs have inv: "sshbuf_inv (sshbuf_reset e b)" and w: "writable (sshbuf_reset e b)"
    and e: "alloc_total e" by (simp_all add: buf_ready_def)
  have q: "contents (sshbuf_reset e b) = []" "sb_max_size (sshbuf_reset e b) = sb_max_size b"
    using arg_cong [OF rs(2), of q_bytes] arg_cong [OF rs(2), of q_max]
    by (simp_all add: sshbuf_queue_def)
  have ok: "\<forall>f \<in> set (proposal_fields ps). field_ok f"
    using proposal_field_ok(1) [OF ps] by (auto simp: proposal_fields_def)
  have "sshbuf_room (sshbuf_reset e b) (length (concat (map field_enc (proposal_fields ps))))"
    using w q fit by (simp add: sshbuf_room_def)
  with sshbuf_wire.put_all_law [of "sshbuf_reset e b" e "proposal_fields ps"] inv e ok q
  show ?thesis by (auto simp: kex_prop2buf_def)
qed

lemma cookie_fields:
  "concat (map field_enc (proposal_fields ps)) =
     replicate KEX_COOKIE_LEN 0 @
     concat (map field_enc (map (\<lambda>p. F_cstring (bytes_of p)) ps @ [F_u8 0, F_u32 0])) @ []"
proof -
  have "concat (map field_enc (replicate n (F_u8 0))) = replicate n 0" for n
    by (induction n) auto
  then show ?thesis by (simp add: proposal_fields_def)
qed

section \<open>Negotiation\<close>

text \<open>What a successful \<open>kex_choose_conf\<close> has chosen, as a function of the two proposals.\<close>

lemma choose_modes_two:
  "choose_modes bl hmac bugs cal peer cprop sprop [MODE_IN, MODE_OUT] k = (None, k') \<longleftrightarrow>
   cal \<and> fst (choose_newkeys bl hmac bugs (kx_server k) cprop sprop) = None \<and>
   fst (choose_newkeys bl hmac bugs (\<not> kx_server k) cprop sprop) = None \<and>
   k' = k\<lparr>kx_in := Some (snd (choose_newkeys bl hmac bugs (kx_server k) cprop sprop)),
          kx_out := Some (snd (choose_newkeys bl hmac bugs (\<not> kx_server k) cprop sprop))\<rparr>"
  by (auto simp: mode_ctos_def set_newkeys_def split: prod.splits option.splits)

text \<open>An error return leaves at once; success goes on.\<close>

lemma rc_chain:
  "(case x of (Some r, k) \<Rightarrow> (Some r, False, f r k) | (None, k) \<Rightarrow> g k) = (None, s, k') \<longleftrightarrow>
   (\<exists>k1. x = (None, k1) \<and> g k1 = (None, s, k'))"
  by (auto split: prod.splits option.splits)

lemma choose_kex_None:
  "choose_kex bl k c s = (None, k') \<longleftrightarrow>
   (\<exists>n a. fst (match_list c s) = Some n \<and> kex_alg_by_name bl n = Some a \<and>
      k' = k\<lparr>kx_name := Some n, kx_type := Some (ka_type a), kx_hash_alg := Some (ka_hash_alg a),
             kx_ec_nid := ka_ec_nid a\<rparr>)"
  by (auto simp: choose_kex_def Let_def split: option.splits)

lemma choose_hostkeyalg_None:
  "choose_hostkeyalg bl k c s = (None, k') \<longleftrightarrow>
   (\<exists>n. fst (match_list c s) = Some n \<and> sshkey_type_from_name bl n \<noteq> KEY_UNSPEC \<and>
      k' = k\<lparr>kx_hostkey_alg := Some n, kx_hostkey_type := sshkey_type_from_name bl n,
             kx_hostkey_nid := sshkey_ecdsa_nid_from_name bl n\<rparr>)"
  by (auto simp: choose_hostkeyalg_def Let_def split: option.splits if_splits)

text \<open>The outcome of a negotiation, without the state of either side: the method, the host key
  algorithm, and the keys from client to server and back.\<close>

record agreement =
  ag_kex :: string
  ag_alg :: kexalg
  ag_hostkey :: string
  ag_ctos :: newkeys
  ag_stoc :: newkeys

definition negotiate :: "build \<Rightarrow> (digest \<Rightarrow> bool) \<Rightarrow> 32 word \<Rightarrow> string list \<Rightarrow> string list \<Rightarrow> agreement option" where
  "negotiate bl hmac bugs cprop sprop =
     (case fst (match_list (cprop ! PROPOSAL_KEX_ALGS) (sprop ! PROPOSAL_KEX_ALGS)) of None \<Rightarrow> None | Some n \<Rightarrow>
      case kex_alg_by_name bl n of None \<Rightarrow> None | Some a \<Rightarrow>
      case fst (match_list (cprop ! PROPOSAL_SERVER_HOST_KEY_ALGS) (sprop ! PROPOSAL_SERVER_HOST_KEY_ALGS)) of
        None \<Rightarrow> None | Some hk \<Rightarrow>
      if sshkey_type_from_name bl hk = KEY_UNSPEC then None
      else case choose_newkeys bl hmac bugs True cprop sprop of (Some _, _) \<Rightarrow> None | (None, c) \<Rightarrow>
      case choose_newkeys bl hmac bugs False cprop sprop of (Some _, _) \<Rightarrow> None | (None, s) \<Rightarrow>
      Some \<lparr>ag_kex = n, ag_alg = a, ag_hostkey = hk, ag_ctos = c, ag_stoc = s\<rparr>)"

definition kex_agrees :: "build \<Rightarrow> kex \<Rightarrow> agreement \<Rightarrow> bool" where
  "kex_agrees bl k ag \<longleftrightarrow>
     kx_name k = Some (ag_kex ag) \<and> kx_type k = Some (ka_type (ag_alg ag)) \<and>
     kx_hash_alg k = Some (ka_hash_alg (ag_alg ag)) \<and> kx_ec_nid k = ka_ec_nid (ag_alg ag) \<and>
     kx_hostkey_alg k = Some (ag_hostkey ag) \<and>
     kx_hostkey_type k = sshkey_type_from_name bl (ag_hostkey ag) \<and>
     kx_hostkey_nid k = sshkey_ecdsa_nid_from_name bl (ag_hostkey ag) \<and>
     kx_in k = Some (if kx_server k then ag_ctos ag else ag_stoc ag) \<and>
     kx_out k = Some (if kx_server k then ag_stoc ag else ag_ctos ag) \<and>
     kx_we_need k = need_of (ag_stoc ag) (need_of (ag_ctos ag) 0) \<and>
     kx_dh_need k = dh_need_of (ag_stoc ag) (dh_need_of (ag_ctos ag) 0)"

lemma need_of_max:
  "need_of nk n = max n (need_of nk 0)" "dh_need_of nk n = max n (dh_need_of nk 0)"
  by (simp_all add: need_of_def dh_need_of_def max.assoc split: option.split)

lemma need_of_comm:
  "need_of a (need_of b 0) = need_of b (need_of a 0)"
  "dh_need_of a (dh_need_of b 0) = dh_need_of b (dh_need_of a 0)"
  by (metis max.commute need_of_max(1)) (metis max.commute need_of_max(2))

lemma negotiate_Some:
  "negotiate bl hmac bugs cprop sprop = Some ag \<longleftrightarrow>
   fst (match_list (cprop ! PROPOSAL_KEX_ALGS) (sprop ! PROPOSAL_KEX_ALGS)) = Some (ag_kex ag) \<and>
   kex_alg_by_name bl (ag_kex ag) = Some (ag_alg ag) \<and>
   fst (match_list (cprop ! PROPOSAL_SERVER_HOST_KEY_ALGS) (sprop ! PROPOSAL_SERVER_HOST_KEY_ALGS)) =
     Some (ag_hostkey ag) \<and>
   sshkey_type_from_name bl (ag_hostkey ag) \<noteq> KEY_UNSPEC \<and>
   choose_newkeys bl hmac bugs True cprop sprop = (None, ag_ctos ag) \<and>
   choose_newkeys bl hmac bugs False cprop sprop = (None, ag_stoc ag)"
  unfolding negotiate_def by (cases ag) (auto split: option.splits prod.splits)

lemma choose_conf_agrees:
  assumes my: "kex_buf2prop e (kx_my k) = Inr (f1, my)" and peer: "kex_buf2prop e (kx_peer k) = Inr (f2, peer)"
    and c: "cprop = (if kx_server k then peer else my)" and s: "sprop = (if kx_server k then my else peer)"
    and conf: "kex_choose_conf bl e hmac bugs cal k = (None, skip, k')"
  shows "\<exists>ag. negotiate bl hmac bugs cprop sprop = Some ag \<and> kex_agrees bl k' ag \<and> kx_server k' = kx_server k"
proof -
  define k0 where "k0 = (if kx_server k \<and> fst (match_list ''ext-info-c'' (peer ! PROPOSAL_KEX_ALGS)) \<noteq> None
      then k\<lparr>kx_ext_info_c := True\<rparr> else k)"
  have srv: "kx_server k0 = kx_server k" by (simp add: k0_def)
  from conf obtain k1 k2 k3 where
    1: "choose_kex bl k0 (cprop ! PROPOSAL_KEX_ALGS) (sprop ! PROPOSAL_KEX_ALGS) = (None, k1)" and
    2: "choose_hostkeyalg bl k1 (cprop ! PROPOSAL_SERVER_HOST_KEY_ALGS) (sprop ! PROPOSAL_SERVER_HOST_KEY_ALGS) = (None, k2)" and
    3: "choose_modes bl hmac bugs cal peer cprop sprop [MODE_IN, MODE_OUT] k2 = (None, k3)" and
    4: "k' = k3\<lparr>kx_we_need := need_of (the (kx_out k3)) (need_of (the (kx_in k3)) 0),
             kx_dh_need := dh_need_of (the (kx_out k3)) (dh_need_of (the (kx_in k3)) 0)\<rparr>"
    unfolding kex_choose_conf_def my peer sum.case prod.case Let_def rc_chain
      k0_def [symmetric] c [symmetric] s [symmetric]
    by (auto simp del: choose_modes.simps)
  from 1 2 srv have srv2: "kx_server k2 = kx_server k"
    by (auto simp: choose_kex_None choose_hostkeyalg_None)
  note m3 = 3 [unfolded choose_modes_two]
  let ?ct = "choose_newkeys bl hmac bugs True cprop sprop" and ?st = "choose_newkeys bl hmac bugs False cprop sprop"
  have nk: "fst ?ct = None" "fst ?st = None"
    using m3 by (cases "kx_server k2"; simp)+
  from 1 obtain n a where na: "fst (match_list (cprop ! PROPOSAL_KEX_ALGS) (sprop ! PROPOSAL_KEX_ALGS)) = Some n"
    "kex_alg_by_name bl n = Some a" by (auto simp: choose_kex_None)
  from 2 obtain hk where hk: "fst (match_list (cprop ! PROPOSAL_SERVER_HOST_KEY_ALGS) (sprop ! PROPOSAL_SERVER_HOST_KEY_ALGS)) = Some hk"
    "sshkey_type_from_name bl hk \<noteq> KEY_UNSPEC" by (auto simp: choose_hostkeyalg_None)
  let ?ag = "\<lparr>ag_kex = n, ag_alg = a, ag_hostkey = hk, ag_ctos = snd ?ct, ag_stoc = snd ?st\<rparr>"
  have "negotiate bl hmac bugs cprop sprop = Some ?ag"
    using na hk nk by (simp add: negotiate_Some prod_eq_iff)
  moreover have "kex_agrees bl k' ?ag \<and> kx_server k' = kx_server k"
    using 1 2 m3 4 na hk srv srv2
    by (auto simp: kex_agrees_def choose_kex_None choose_hostkeyalg_None need_of_comm)
  ultimately show ?thesis by blast
qed

lemma choose_conf_total:
  assumes my: "kex_buf2prop e (kx_my k) = Inr (f1, my)" and peer: "kex_buf2prop e (kx_peer k) = Inr (f2, peer)"
    and c: "cprop = (if kx_server k then peer else my)" and s: "sprop = (if kx_server k then my else peer)"
    and n: "negotiate bl hmac bugs cprop sprop = Some ag"
  shows "\<exists>skip k'. kex_choose_conf bl e hmac bugs True k = (None, skip, k')"
proof -
  define k0 where "k0 = (if kx_server k \<and> fst (match_list ''ext-info-c'' (peer ! PROPOSAL_KEX_ALGS)) \<noteq> None
      then k\<lparr>kx_ext_info_c := True\<rparr> else k)"
  note n' = n [unfolded negotiate_Some]
  from n' obtain k1 where 1: "choose_kex bl k0 (cprop ! PROPOSAL_KEX_ALGS) (sprop ! PROPOSAL_KEX_ALGS) = (None, k1)"
    by (auto simp: choose_kex_None)
  from n' obtain k2 where 2: "choose_hostkeyalg bl k1 (cprop ! PROPOSAL_SERVER_HOST_KEY_ALGS) (sprop ! PROPOSAL_SERVER_HOST_KEY_ALGS) = (None, k2)"
    by (auto simp: choose_hostkeyalg_None)
  from n' have "\<exists>k3. choose_modes bl hmac bugs True peer cprop sprop [MODE_IN, MODE_OUT] k2 = (None, k3)"
    unfolding choose_modes_two by (cases "kx_server k2") simp_all
  with 1 2 show ?thesis
    unfolding kex_choose_conf_def my peer sum.case prod.case Let_def rc_chain
      k0_def [symmetric] c [symmetric] s [symmetric]
    by (auto simp del: choose_modes.simps)
qed

lemma negotiate_newkeys:
  assumes "choose_newkeys bl hmac bugs ctos cprop sprop = (None, nk)"
  shows "\<exists>enc. nk_enc nk = Some enc \<and> e_key enc = None \<and>
    (if cipher_authlen (e_cipher enc) = 0 then m_name (nk_mac nk) \<noteq> None else nk_mac nk = zero_mac)"
  using assms unfolding choose_newkeys_def Let_def
  by (auto simp: choose_enc_def choose_mac_def Let_def zero_newkeys_def split: sum.splits option.splits if_splits prod.splits)

lemma choose_conf_iff:
  assumes "kex_buf2prop e (kx_my k) = Inr (f1, my)" "kex_buf2prop e (kx_peer k) = Inr (f2, peer)"
    and "cprop = (if kx_server k then peer else my)" "sprop = (if kx_server k then my else peer)"
  shows "fst (kex_choose_conf bl e hmac bugs True k) = None \<longleftrightarrow> negotiate bl hmac bugs cprop sprop \<noteq> None"
    and "negotiate bl hmac bugs cprop sprop = Some ag \<Longrightarrow>
      kex_agrees bl (snd (snd (kex_choose_conf bl e hmac bugs True k))) ag \<and>
      kx_server (snd (snd (kex_choose_conf bl e hmac bugs True k))) = kx_server k"
proof -
  obtain r skip k' where k': "kex_choose_conf bl e hmac bugs True k = (r, skip, k')" by (metis prod_cases3)
  note tot = choose_conf_total [OF assms] and agr = choose_conf_agrees [OF assms]
  show "fst (kex_choose_conf bl e hmac bugs True k) = None \<longleftrightarrow> negotiate bl hmac bugs cprop sprop \<noteq> None"
  proof (cases r)
    case None
    with agr [of bl hmac bugs True skip k'] k' show ?thesis by auto
  next
    case (Some a)
    with tot [of bl hmac bugs] k' show ?thesis by (cases "negotiate bl hmac bugs cprop sprop") auto
  qed
  show "kex_agrees bl (snd (snd (kex_choose_conf bl e hmac bugs True k))) ag \<and>
      kx_server (snd (snd (kex_choose_conf bl e hmac bugs True k))) = kx_server k"
    if n: "negotiate bl hmac bugs cprop sprop = Some ag"
    using tot [OF n] agr [of bl hmac bugs True skip k'] k' n by auto
qed

section \<open>Key derivation\<close>

text \<open>What the crypto library provides: a digest of \<open>mdsz\<close> bytes for every input.\<close>

definition hash_total :: "(byte list \<Rightarrow> byte list option) \<Rightarrow> nat \<Rightarrow> bool" where
  "hash_total hash mdsz \<longleftrightarrow> mdsz > 0 \<and> (\<forall>x. \<exists>y. hash x = Some y \<and> length y = mdsz)"

text \<open>The key material of RFC 4253, section 7.2: \<open>K1\<close> to \<open>K(n+1)\<close>.\<close>

fun key_blocks :: "(byte list \<Rightarrow> byte list option) \<Rightarrow> byte list \<Rightarrow> byte list \<Rightarrow> byte list \<Rightarrow> nat \<Rightarrow> byte list" where
  "key_blocks hash secret h k1 0 = k1"
| "key_blocks hash secret h k1 (Suc n) =
     key_blocks hash secret h k1 n @ the (hash (secret @ h @ key_blocks hash secret h k1 n))"

lemma hash_totalE:
  assumes "hash_total hash mdsz" obtains y where "hash x = Some y" "length y = mdsz"
  using assms unfolding hash_total_def by blast

lemma length_key_blocks:
  assumes "hash_total hash mdsz" "length k1 = mdsz"
  shows "length (key_blocks hash secret h k1 n) = Suc n * mdsz"
proof (induction n)
  case (Suc n)
  obtain y where "hash (secret @ h @ key_blocks hash secret h k1 n) = Some y" "length y = mdsz"
    using hash_totalE [OF assms(1)] .
  with Suc show ?case by simp
qed (simp add: assms)

lemma key_blocks_prefix: "m \<le> n \<Longrightarrow> prefix (key_blocks hash secret h k1 m) (key_blocks hash secret h k1 n)"
proof (induction n)
  case (Suc n)
  show ?case
  proof (cases "m = Suc n")
    case False
    with Suc have "prefix (key_blocks hash secret h k1 m) (key_blocks hash secret h k1 n)" by simp
    moreover have "prefix (key_blocks hash secret h k1 n) (key_blocks hash secret h k1 (Suc n))"
      by (simp add: prefixI)
    ultimately show ?thesis by (rule prefix_order.trans)
  qed (simp only: prefix_order.refl)
qed simp

lemma derive_loop_blocks:
  assumes tot: "hash_total hash mdsz" and k1: "length k1 = mdsz"
  shows "\<exists>m \<ge> j. derive_loop hash mdsz need secret h (key_blocks hash secret h k1 j) (Suc j * mdsz) =
      Some (key_blocks hash secret h k1 m) \<and> need \<le> Suc m * mdsz \<and> (j < m \<longrightarrow> m * mdsz < need)"
proof (induction "need - Suc j * mdsz" arbitrary: j rule: less_induct)
  case less
  have pos: "mdsz > 0" using tot by (simp add: hash_total_def)
  show ?case
  proof (cases "need > Suc j * mdsz")
    case False
    then show ?thesis by (intro exI [of _ j]) (simp add: derive_loop.simps)
  next
    case True
    let ?ks = "key_blocks hash secret h k1"
    have step: "derive_loop hash mdsz need secret h (?ks j) (Suc j * mdsz) =
        derive_loop hash mdsz need secret h (?ks (Suc j)) (Suc (Suc j) * mdsz)"
    proof -
      obtain y where y: "hash (secret @ h @ ?ks j) = Some y" "length y = mdsz" using hash_totalE [OF tot] .
      have "take (Suc j * mdsz) (?ks j) = ?ks j" using length_key_blocks [OF tot k1] by simp
      with y show ?thesis
        using True pos by (subst derive_loop.simps) (simp add: add.commute [of _ mdsz])
    qed
    have "need - Suc (Suc j) * mdsz < need - Suc j * mdsz" using True pos by simp
    from less [OF this] obtain m where m: "m \<ge> Suc j"
      "derive_loop hash mdsz need secret h (?ks (Suc j)) (Suc (Suc j) * mdsz) = Some (?ks m)"
      "need \<le> Suc m * mdsz" "Suc j < m \<longrightarrow> m * mdsz < need" by blast
    have "m * mdsz < need" using m(1,4) True by (cases "m = Suc j") auto
    with m step show ?thesis by (intro exI [of _ m]) simp
  qed
qed

lemma derive_key_blocks:
  assumes tot: "hash_total hash mdsz"
  shows "\<exists>k1 m. hash (secret @ h @ [c] @ sid) = Some k1 \<and> length k1 = mdsz \<and>
      derive_key hash mdsz True c need h secret sid = Inr (key_blocks hash secret h k1 m) \<and>
      need \<le> Suc m * mdsz \<and> (0 < m \<longrightarrow> m * mdsz < need)"
proof -
  obtain k1 where k1: "hash (secret @ h @ [c] @ sid) = Some k1" "length k1 = mdsz"
    using hash_totalE [OF tot] .
  from derive_loop_blocks [OF tot k1(2), of 0 need secret h] obtain m where
    "derive_loop hash mdsz need secret h k1 mdsz = Some (key_blocks hash secret h k1 m)"
    "need \<le> Suc m * mdsz" "0 < m \<longrightarrow> m * mdsz < need" by auto
  moreover have "mdsz \<noteq> 0" using tot by (simp add: hash_total_def)
  ultimately show ?thesis using k1 by (auto simp: derive_key_def)
qed

lemma derive_all_total:
  "(\<And>c. \<exists>k. f c = Inr k \<and> P k) \<Longrightarrow> \<exists>ks. derive_all f cs = Inr ks \<and> length ks = length cs \<and> (\<forall>k \<in> set ks. P k)"
proof (induction cs)
  case (Cons c cs)
  from Cons.prems [of c] obtain k where "f c = Inr k" "P k" by blast
  moreover from Cons obtain ks where "derive_all f cs = Inr ks" "length ks = length cs" "\<forall>k \<in> set ks. P k"
    by blast
  ultimately show ?case by auto
qed simp

lemma derive_keys_total:
  fixes sid :: "byte list"
  assumes "hash_total hash mdsz"
  shows "\<exists>keys. derive_all (\<lambda>c. derive_key hash mdsz True c need h secret sid) cs = Inr keys \<and>
      length keys = length cs \<and> (\<forall>k \<in> set keys. need \<le> length k)"
proof (rule derive_all_total)
  fix c
  from derive_key_blocks [OF assms, of secret h c sid need] obtain k1 m where
    m: "length k1 = mdsz" "derive_key hash mdsz True c need h secret sid = Inr (key_blocks hash secret h k1 m)"
       "need \<le> Suc m * mdsz" by blast
  with length_key_blocks [OF assms m(1), of secret h m]
  show "\<exists>k. derive_key hash mdsz True c need h secret sid = Inr k \<and> need \<le> length k" by auto
qed

definition keys_sufficient :: "sshenc \<Rightarrow> sshmac \<Rightarrow> bool" where
  "keys_sufficient enc mac \<longleftrightarrow>
     (\<exists>iv key mk. e_iv enc = Some iv \<and> e_key enc = Some key \<and> m_key mac = Some mk \<and>
        e_iv_len enc \<le> length iv \<and> e_key_len enc \<le> length key \<and> m_key_len mac \<le> length mk)"

lemma install_sufficient:
  assumes "choose_newkeys bl hmac bugs d cprop sprop = (None, nk)" "need_of nk 0 \<le> need"
    and "\<And>i. i < 6 \<Longrightarrow> need \<le> length (keys ! i)"
  shows "\<exists>enc. nk_enc (install_keys keys ctos nk) = Some enc \<and> keys_sufficient enc (nk_mac (install_keys keys ctos nk))"
proof -
  from negotiate_newkeys [OF assms(1)] obtain enc where enc: "nk_enc nk = Some enc" by blast
  with assms(2) have "e_key_len enc \<le> need" "e_iv_len enc \<le> need" "m_key_len (nk_mac nk) \<le> need"
    by (simp_all add: need_of_def)
  with enc show ?thesis
    using assms(3) [of 0] assms(3) [of 1] assms(3) [of 2] assms(3) [of 3] assms(3) [of 4] assms(3) [of 5]
    by (auto simp: install_keys_def keys_sufficient_def)
qed

lemma choose_conf_session:
  assumes "kex_choose_conf bl e hmac bugs cal k = (None, skip, k')"
  shows "kx_session_id k' = kx_session_id k"
  using assms unfolding kex_choose_conf_def
  by (auto simp: Let_def rc_chain choose_kex_None choose_hostkeyalg_None choose_modes_two
      simp del: choose_modes.simps split: sum.splits prod.splits if_splits)

text \<open>A proposal and a state for concrete instances.\<close>

definition demo_proposal :: "string list" where
  "demo_proposal = [''curve25519-sha256@libssh.org'', ''ssh-ed25519'', ''aes128-ctr'', ''aes128-ctr'',
     ''hmac-sha1'', ''hmac-sha1'', ''none'', ''none'', [], []]"

definition demo_kex :: "bool \<Rightarrow> sshbuf \<Rightarrow> sshbuf \<Rightarrow> kex" where
  "demo_kex server my peer = \<lparr>kx_server = server, kx_name = None, kx_hostkey_alg = None, kx_hostkey_type = KEY_UNSPEC,
     kx_hostkey_nid = NID_0, kx_type = None, kx_hash_alg = None, kx_ec_nid = NID_0, kx_in = None, kx_out = None,
     kx_we_need = 0, kx_dh_need = 0, kx_ext_info_c = False, kx_failed_choice = None, kx_my = my, kx_peer = peer,
     kx_session_id = [], kx_done = False, kx_init_sent = False, kx_rsa_sha2 = 0\<rparr>"

lemma demo_negotiates: "\<exists>ag. negotiate full_build (\<lambda>_. True) 0 demo_proposal demo_proposal = Some ag"
proof -
  have "(case negotiate full_build (\<lambda>_. True) 0 demo_proposal demo_proposal of None \<Rightarrow> False | Some _ \<Rightarrow> True) = True"
    by code_simp
  then show ?thesis by (auto split: option.splits)
qed

lemma demo_buffer: "\<exists>b. kex_buf2prop all_alloc b = Inr (0, demo_proposal)"
proof -
  obtain b where b: "sshbuf_new all_alloc = Some b" using sshbuf_new_total [OF all_alloc_total] by blast
  have r: "buf_ready all_alloc b" using ready_new [OF all_alloc_total b] by simp
  have ok: "proposal_ok demo_proposal"
    by (simp add: proposal_ok_def demo_proposal_def PROPOSAL_MAX_def sshbuf_consts)
  have "length (concat (map field_enc (proposal_fields demo_proposal))) \<le> sb_max_size b"
    using sshbuf_new_inv(4) [OF b]
    by (simp add: proposal_fields_def demo_proposal_def bytes_of_def sshbuf_consts KEX_COOKIE_LEN_def length_concat sum_list_replicate)
  from prop2buf_encodes [OF r ok this] obtain b' where "sshbuf_inv b'"
    "contents b' = concat (map field_enc (proposal_fields demo_proposal))" by blast
  from buf2prop_decodes [OF all_alloc_total this(1) ok _ this(2) [unfolded cookie_fields]] show ?thesis by auto
qed

section \<open>Properties\<close>

text \<open>\<open>kex_names_cat\<close> returns the names of the first list followed by those of the second that are
  not there yet, each once and in order; its space computation is right, so the branch marked
  \<^verbatim>\<open>Shouldn't happen\<close> is not reached.\<close>

lemma kex_names_cat_spec:
  assumes "\<forall>t \<in> set as. t \<noteq> [] \<and> CHR '','' \<notin> set t" "as \<noteq> []" "b \<noteq> []" "length b \<le> 1024 * 1024"
  shows "\<exists>s. kex_names_cat True True (Some (join_comma as)) (Some b) = Some s \<and>
    names s = fold add_name (names b) as \<and> set (names s) = set as \<union> set (names b) \<and>
    prefix as (names s) \<and> (distinct as \<longrightarrow> distinct (names s))"
proof -
  let ?r = "fold add_name (names b) as"
  have "join_comma as \<noteq> []" using assms(1,2) by (cases as rule: join_comma.cases) auto
  then have "kex_names_cat True True (Some (join_comma as)) (Some b) = Some (join_comma ?r)"
    using assms cat_loop_eq [of as "Some b" "length (join_comma as) + length b + 2"]
    by (simp add: kex_names_cat_def strsep_size_def names_def)
  moreover have "\<forall>t \<in> set ?r. t \<noteq> [] \<and> CHR '','' \<notin> set t"
    using assms(1) names_clean [of _ b] unfolding add_name_set by blast
  then have "names (join_comma ?r) = ?r" by (rule names_join)
  ultimately show ?thesis
    by (simp add: add_name_set add_name_prefix add_name_distinct)
qed

text \<open>A proposal of ten name lists written by \<open>kex_prop2buf\<close> is read back unchanged by
  \<open>kex_buf2prop\<close>, with \<open>first_kex_packet_follows\<close> clear.\<close>

lemma kex_proposal_roundtrip:
  assumes "buf_ready e b" "proposal_ok ps"
    and "length (concat (map field_enc (proposal_fields ps))) \<le> sb_max_size b"
  shows "\<exists>b'. kex_prop2buf e b ps = (None, b') \<and> kex_buf2prop e b' = Inr (0, ps)"
proof -
  from prop2buf_encodes [OF assms] obtain b' where b': "kex_prop2buf e b ps = (None, b')" "sshbuf_inv b'"
    "contents b' = concat (map field_enc (proposal_fields ps))" by blast
  have "alloc_total e" using assms(1) by (simp add: buf_ready_def)
  from buf2prop_decodes [OF this b'(2) assms(2) _ b'(3) [unfolded cookie_fields]] b'(1) show ?thesis by simp
qed

text \<open>C14: a client and a server that hold the same two proposals either both fail or both succeed in
  \<open>kex_choose_conf\<close>.  When they succeed they agree on the key exchange (the first name of the
  client's list that is among the first \<open>MAX_PROP\<close> of the server's), its digest, the host key algorithm, the keys of each
  direction - what the client sends with is what the server receives with - and on the amount of key
  material; a direction with an authenticated cipher has no MAC, any other direction has one.\<close>

theorem kex_negotiation_agrees:
  assumes "\<not> kx_server kc" "kx_server ks"
    and "kex_buf2prop e (kx_my kc) = Inr (fc1, cprop)" "kex_buf2prop e (kx_peer kc) = Inr (fc2, sprop)"
    and "kex_buf2prop e (kx_my ks) = Inr (fs1, sprop)" "kex_buf2prop e (kx_peer ks) = Inr (fs2, cprop)"
    and "kex_choose_conf bl e hmac bugs True kc = (rc, skipc, kc')"
    and "kex_choose_conf bl e hmac bugs True ks = (rs, skips, ks')"
  shows "(rc = None \<longleftrightarrow> rs = None) \<and>
    (rc = None \<longrightarrow>
      kx_name kc' = List.find (\<lambda>n. n \<in> set (take MAX_PROP (names (sprop ! PROPOSAL_KEX_ALGS)))) (names (cprop ! PROPOSAL_KEX_ALGS)) \<and>
      kx_name kc' = kx_name ks' \<and> kx_name kc' \<noteq> None \<and>
      kx_type kc' = kx_type ks' \<and> kx_hash_alg kc' = kx_hash_alg ks' \<and>
      kx_hostkey_alg kc' = kx_hostkey_alg ks' \<and> kx_hostkey_type kc' = kx_hostkey_type ks' \<and>
      kx_out kc' = kx_in ks' \<and> kx_in kc' = kx_out ks' \<and>
      kx_we_need kc' = kx_we_need ks' \<and> kx_dh_need kc' = kx_dh_need ks' \<and>
      (\<forall>d \<in> {kx_in kc', kx_out kc'}. \<exists>nk enc. d = Some nk \<and> nk_enc nk = Some enc \<and>
         (if cipher_authlen (e_cipher enc) = 0 then m_name (nk_mac nk) \<noteq> None else nk_mac nk = zero_mac)))"
proof -
  note C = choose_conf_iff [OF assms(3,4), of cprop sprop bl hmac bugs]
  note S = choose_conf_iff [OF assms(5,6), of cprop sprop bl hmac bugs]
  show ?thesis
  proof (cases "negotiate bl hmac bugs cprop sprop")
    case None
    then show ?thesis using C(1) S(1) assms(1,2,7,8) by auto
  next
    case (Some ag)
    note n = Some [unfolded negotiate_Some]
    have ag: "kex_agrees bl kc' ag" "kex_agrees bl ks' ag" "\<not> kx_server kc'" "kx_server ks'" "rc = None" "rs = None"
      using C S Some assms(1,2,7,8) by auto
    note a = ag(1,2) [unfolded kex_agrees_def]
    have nk: "\<forall>nk \<in> {ag_ctos ag, ag_stoc ag}. \<exists>enc. nk_enc nk = Some enc \<and>
       (if cipher_authlen (e_cipher enc) = 0 then m_name (nk_mac nk) \<noteq> None else nk_mac nk = zero_mac)"
      using n negotiate_newkeys by blast
    have name: "kx_name kc' = List.find (\<lambda>n. n \<in> set (take MAX_PROP (names (sprop ! PROPOSAL_KEX_ALGS)))) (names (cprop ! PROPOSAL_KEX_ALGS))"
      using a(1) n by (simp add: match_list_eq)
    have d: "kx_in kc' = Some (ag_stoc ag)" "kx_out kc' = Some (ag_ctos ag)"
      using a(1) ag(3) by simp_all
    have "\<forall>d \<in> {kx_in kc', kx_out kc'}. \<exists>nk enc. d = Some nk \<and> nk_enc nk = Some enc \<and>
         (if cipher_authlen (e_cipher enc) = 0 then m_name (nk_mac nk) \<noteq> None else nk_mac nk = zero_mac)"
      using nk unfolding d by blast
    moreover have "kx_name kc' = Some (ag_kex ag)" "kx_name ks' = Some (ag_kex ag)" using a by simp_all
    moreover have "kx_type kc' = kx_type ks'" "kx_hash_alg kc' = kx_hash_alg ks'"
      "kx_hostkey_alg kc' = kx_hostkey_alg ks'" "kx_hostkey_type kc' = kx_hostkey_type ks'"
      "kx_we_need kc' = kx_we_need ks'" "kx_dh_need kc' = kx_dh_need ks'"
      using a by simp_all
    moreover have "kx_out kc' = kx_in ks'" "kx_in kc' = kx_out ks'" using a ag(3,4) by simp_all
    ultimately show ?thesis using name ag(5,6) by simp
  qed
qed

theorem kex_negotiation_agrees_witness:
  "\<exists>kc ks rc skipc kc' rs skips ks'.
     kex_choose_conf full_build all_alloc (\<lambda>_. True) 0 True kc = (rc, skipc, kc') \<and>
     kex_choose_conf full_build all_alloc (\<lambda>_. True) 0 True ks = (rs, skips, ks') \<and>
     rc = None \<and> rs = None \<and> kx_name kc' = kx_name ks' \<and> kx_out kc' = kx_in ks' \<and> kx_in kc' = kx_out ks'"
proof -
  obtain b where b: "kex_buf2prop all_alloc b = Inr (0, demo_proposal)" using demo_buffer by blast
  let ?kc = "demo_kex False b b" and ?ks = "demo_kex True b b"
  obtain rc skipc kc' where c: "kex_choose_conf full_build all_alloc (\<lambda>_. True) 0 True ?kc = (rc, skipc, kc')"
    by (metis prod_cases3)
  obtain rs skips ks' where s: "kex_choose_conf full_build all_alloc (\<lambda>_. True) 0 True ?ks = (rs, skips, ks')"
    by (metis prod_cases3)
  have p: "\<not> kx_server ?kc" "kx_server ?ks" "kex_buf2prop all_alloc (kx_my ?kc) = Inr (0, demo_proposal)"
    "kex_buf2prop all_alloc (kx_peer ?kc) = Inr (0, demo_proposal)"
    "kex_buf2prop all_alloc (kx_my ?ks) = Inr (0, demo_proposal)"
    "kex_buf2prop all_alloc (kx_peer ?ks) = Inr (0, demo_proposal)" using b by (simp_all add: demo_kex_def)
  have "rc = None"
    using choose_conf_iff(1) [OF p(3,4), of demo_proposal demo_proposal full_build "\<lambda>_. True" 0] p(1) c demo_negotiates
    by auto
  with kex_negotiation_agrees [OF p c s]
  have "rs = None" "kx_name kc' = kx_name ks'" "kx_out kc' = kx_in ks'" "kx_in kc' = kx_out ks'" by blast+
  with \<open>rc = None\<close> c s show ?thesis by blast
qed

text \<open>C15: \<open>derive_key\<close> returns the blocks of RFC 4253, section 7.2: the digest of secret, exchange hash,
  letter and session id, extended by digests of secret, exchange hash and all blocks so far, up to the
  first block count that gives \<open>need\<close> bytes.  For a positive \<open>need\<close> the bytes written are exactly the
  \<open>roundup(need, mdsz)\<close> bytes that were allocated, and asking for more bytes only appends.\<close>

theorem derive_key_rfc4253:
  assumes "hash_total hash mdsz" "0 < need" "need \<le> need'"
  shows "\<exists>k1 m key key'. hash (secret @ h @ [c] @ sid) = Some k1 \<and>
    derive_key hash mdsz True c need h secret sid = Inr key \<and>
    key = key_blocks hash secret h k1 m \<and> length key = ((need + (mdsz - 1)) div mdsz) * mdsz \<and>
    derive_key hash mdsz True c need' h secret sid = Inr key' \<and> prefix key key'"
proof -
  have pos: "mdsz > 0" using assms(1) by (simp add: hash_total_def)
  from derive_key_blocks [OF assms(1), of secret h c sid need] obtain k1 m where
    k1: "hash (secret @ h @ [c] @ sid) = Some k1" "length k1 = mdsz" and
    m: "derive_key hash mdsz True c need h secret sid = Inr (key_blocks hash secret h k1 m)"
       "need \<le> Suc m * mdsz" "0 < m \<longrightarrow> m * mdsz < need" by blast
  from derive_key_blocks [OF assms(1), of secret h c sid need'] k1 obtain m' where
    m': "derive_key hash mdsz True c need' h secret sid = Inr (key_blocks hash secret h k1 m')"
       "need' \<le> Suc m' * mdsz" by auto
  have mz: "m * mdsz < need" using m(3) assms(2) by (cases m) auto
  have "m * mdsz < Suc m' * mdsz" using mz assms(3) m'(2) by linarith
  then have "m \<le> m'" by (simp add: less_Suc_eq_le del: mult_Suc)
  then have "prefix (key_blocks hash secret h k1 m) (key_blocks hash secret h k1 m')" by (rule key_blocks_prefix)
  moreover have "(need + (mdsz - 1)) div mdsz = Suc m"
  proof (rule div_nat_eqI)
    show "mdsz * Suc m \<le> need + (mdsz - 1)" using pos mz by (simp add: mult.commute)
    show "need + (mdsz - 1) < mdsz * Suc (Suc m)" using pos m(2) by (simp add: mult.commute)
  qed
  ultimately show ?thesis
    using k1 m m' length_key_blocks [OF assms(1) k1(2), of secret h m] by auto
qed

theorem derive_key_rfc4253_witness:
  "\<exists>key key'. derive_key (\<lambda>x. Some [of_nat (length x), 0]) 2 True 0x41 3 [1] [2] [3] = Inr key \<and>
    length key = 4 \<and> derive_key (\<lambda>x. Some [of_nat (length x), 0]) 2 True 0x41 5 [1] [2] [3] = Inr key' \<and> prefix key key'"
proof -
  have "hash_total (\<lambda>x. Some [of_nat (length x), 0]) 2" by (simp add: hash_total_def)
  from derive_key_rfc4253 [OF this, where need = 3 and need' = 5 and secret = "[2]" and h = "[1]" and c = "0x41" and sid = "[3]"]
  show ?thesis by auto
qed

text \<open>Two sides that have agreed, with opposite roles and the same session id, derive the same keys.\<close>

lemma derive_agreed:
  assumes n: "negotiate bl hmac bugs cprop sprop = Some ag"
    and c: "kex_agrees bl kc ag" "\<not> kx_server kc" and s: "kex_agrees bl ks ag" "kx_server ks"
    and sid: "kx_session_id kc = kx_session_id ks" and tot: "hash_total hash mdsz"
  shows "\<exists>kc2 ks2. kex_derive_keys hash mdsz True h secret kc = (None, kc2) \<and>
    kex_derive_keys hash mdsz True h secret ks = (None, ks2) \<and>
    kx_out kc2 = kx_in ks2 \<and> kx_in kc2 = kx_out ks2 \<and>
    (\<forall>d \<in> {kx_in kc2, kx_out kc2}. \<exists>nk enc. d = Some nk \<and> nk_enc nk = Some enc \<and> keys_sufficient enc (nk_mac nk))"
proof -
  have need: "kx_we_need kc = kx_we_need ks" using c(1) s(1) by (simp add: kex_agrees_def)
  from derive_keys_total [OF tot, of "kx_we_need kc" h secret "kx_session_id kc" "map (\<lambda>i. 0x41 + of_nat i) [0..<NKEYS]"]
  obtain keys where keys: "derive_all (\<lambda>c. derive_key hash mdsz True c (kx_we_need kc) h secret (kx_session_id kc))
      (map (\<lambda>i. 0x41 + of_nat i) [0..<NKEYS]) = Inr keys" "length keys = NKEYS" "\<forall>k \<in> set keys. kx_we_need kc \<le> length k"
    by auto
  have len: "kx_we_need kc \<le> length (keys ! i)" if "i < 6" for i
    using keys(2,3) that by (simp add: NKEYS_def)
  define nc where "nc = install_keys keys True (ag_ctos ag)"
  define ns where "ns = install_keys keys False (ag_stoc ag)"
  obtain kc2 where c2: "kex_derive_keys hash mdsz True h secret kc = (None, kc2)" "kx_in kc2 = Some ns" "kx_out kc2 = Some nc"
    using keys(1) c by (simp add: kex_derive_keys_def mode_ctos_def kex_agrees_def nc_def ns_def)
  obtain ks2 where s2: "kex_derive_keys hash mdsz True h secret ks = (None, ks2)" "kx_in ks2 = Some nc" "kx_out ks2 = Some ns"
    using keys(1) sid need s by (simp add: kex_derive_keys_def mode_ctos_def kex_agrees_def nc_def ns_def)
  have wn: "need_of (ag_ctos ag) 0 \<le> kx_we_need kc" "need_of (ag_stoc ag) 0 \<le> kx_we_need kc"
    using c(1) need_of_max(1) [of "ag_stoc ag" "need_of (ag_ctos ag) 0"] by (simp_all add: kex_agrees_def)
  note n' = n [unfolded negotiate_Some]
  have "\<exists>enc. nk_enc nc = Some enc \<and> keys_sufficient enc (nk_mac nc)" "\<exists>enc. nk_enc ns = Some enc \<and> keys_sufficient enc (nk_mac ns)"
    unfolding nc_def ns_def using n' wn len by (blast intro: install_sufficient)+
  with c2 s2 show ?thesis by auto
qed

text \<open>After a successful negotiation on both sides, \<open>kex_derive_keys\<close> with the same secret, exchange
  hash and session id succeeds on both sides and gives them the same keys for each direction; every
  cipher key, IV and MAC key is at least as long as its algorithm needs.\<close>

lemma derived_keys_agree:
  assumes "\<not> kx_server kc" "kx_server ks" "kx_session_id kc = kx_session_id ks"
    and "kex_buf2prop e (kx_my kc) = Inr (fc1, cprop)" "kex_buf2prop e (kx_peer kc) = Inr (fc2, sprop)"
    and "kex_buf2prop e (kx_my ks) = Inr (fs1, sprop)" "kex_buf2prop e (kx_peer ks) = Inr (fs2, cprop)"
    and "kex_choose_conf bl e hmac bugs True kc = (None, skipc, kc')"
    and "kex_choose_conf bl e hmac bugs True ks = (None, skips, ks')"
    and "hash_total hash mdsz"
  shows "\<exists>kc2 ks2. kex_derive_keys hash mdsz True h secret kc' = (None, kc2) \<and>
    kex_derive_keys hash mdsz True h secret ks' = (None, ks2) \<and>
    kx_out kc2 = kx_in ks2 \<and> kx_in kc2 = kx_out ks2 \<and>
    (\<forall>d \<in> {kx_in kc2, kx_out kc2}. \<exists>nk enc. d = Some nk \<and> nk_enc nk = Some enc \<and> keys_sufficient enc (nk_mac nk))"
proof -
  from choose_conf_agrees [OF assms(4,5) _ _ assms(8), of cprop sprop] assms(1) obtain ag where
    ag: "negotiate bl hmac bugs cprop sprop = Some ag" "kex_agrees bl kc' ag" "\<not> kx_server kc'" by auto
  from choose_conf_agrees [OF assms(6,7) _ _ assms(9), of cprop sprop] assms(2) ag(1) have
    ag': "kex_agrees bl ks' ag" "kx_server ks'" by auto
  have sid: "kx_session_id kc' = kx_session_id ks'"
    using choose_conf_session [OF assms(8)] choose_conf_session [OF assms(9)] assms(3) by simp
  show ?thesis by (rule derive_agreed [OF ag ag' sid assms(10)])
qed

end
