(* ===== verification/Cipher.thy ===== *)
theory Cipher
  imports Kex
begin

unbundle bit_operations_syntax

text \<open>
  The use of ciphers and message authentication codes: the parts of \<^verbatim>\<open>src/openssh-7.2p2/cipher.c\<close> and
  \<^verbatim>\<open>mac.c\<close> that set up and run an algorithm, and \<^verbatim>\<open>cipher-chachapoly.c\<close>, in the build with OpenSSL.  The
  functions of OpenSSL and the primitives (ChaCha, Poly1305, HMAC, UMAC) are the record \<open>crypto\<close>; a
  primitive that fails returns \<^term>\<open>None\<close>.  A context is not kept after an error, since its owner gives
  up the connection.
\<close>

section \<open>Primitives\<close>

record 'e crypto =
  cr_init :: "sshcipher \<Rightarrow> byte list option \<Rightarrow> bool \<Rightarrow> 'e option"  \<comment> \<open>\<open>EVP_CipherInit\<close> with type and iv\<close>
  cr_set_iv_fixed :: "byte list option \<Rightarrow> 'e \<Rightarrow> 'e option"  \<comment> \<open>\<open>EVP_CTRL_GCM_SET_IV_FIXED\<close>\<close>
  cr_key_length :: "'e \<Rightarrow> int"
  cr_set_key_length :: "nat \<Rightarrow> 'e \<Rightarrow> 'e option"
  cr_set_key :: "byte list option \<Rightarrow> 'e \<Rightarrow> 'e option"  \<comment> \<open>\<open>EVP_CipherInit\<close> with the key\<close>
  cr_cipher :: "byte list \<Rightarrow> 'e \<Rightarrow> (byte list \<times> 'e) option"  \<comment> \<open>\<open>EVP_Cipher\<close>\<close>
  cr_aad :: "byte list \<Rightarrow> 'e \<Rightarrow> 'e option"  \<comment> \<open>\<open>EVP_Cipher\<close> without output\<close>
  cr_final :: "'e \<Rightarrow> 'e option"  \<comment> \<open>\<open>EVP_Cipher\<close> without input and output\<close>
  cr_iv_gen :: "'e \<Rightarrow> 'e option"
  cr_set_tag :: "byte list \<Rightarrow> 'e \<Rightarrow> 'e option"
  cr_get_tag :: "nat \<Rightarrow> 'e \<Rightarrow> byte list option"
  cr_cleanup :: "'e \<Rightarrow> bool"
  cr_chacha :: "byte list \<Rightarrow> byte list \<Rightarrow> byte list option \<Rightarrow> byte list \<Rightarrow> byte list"
    \<comment> \<open>\<open>chacha_ivsetup\<close> with iv and counter, then \<open>chacha_encrypt_bytes\<close>\<close>
  cr_poly1305 :: "byte list \<Rightarrow> byte list \<Rightarrow> byte list"
  cr_hmac :: "digest \<Rightarrow> byte list \<Rightarrow> byte list \<Rightarrow> byte list option"
  cr_umac :: "byte list \<Rightarrow> byte list \<Rightarrow> byte list \<Rightarrow> byte list"  \<comment> \<open>key, nonce, data\<close>
  cr_umac128 :: "byte list \<Rightarrow> byte list \<Rightarrow> byte list \<Rightarrow> byte list"

record 'e sshcipher_ctx =
  cc_plaintext :: bool
  cc_encrypt :: bool
  cc_evp :: 'e
  cc_cp :: "byte list \<times> byte list"  \<comment> \<open>the keys of \<open>main_ctx\<close> and \<open>header_ctx\<close>\<close>
  cc_cipher :: sshcipher

section \<open>ChaCha20 and Poly1305\<close>

definition chachapoly_init :: "byte list \<Rightarrow> nat \<Rightarrow> 'e sshcipher_ctx \<Rightarrow> rc \<times> 'e sshcipher_ctx" where
  "chachapoly_init key keylen cc =
     (if keylen \<noteq> 32 + 32 then (Some SSH_ERR_INVALID_ARGUMENT, cc)
      else (None, cc\<lparr>cc_cp := (take 32 key, take 32 (drop 32 key))\<rparr>))"

definition POLY1305_KEYLEN :: nat where "POLY1305_KEYLEN = 32"
definition POLY1305_TAGLEN :: nat where "POLY1305_TAGLEN = 16"

definition chachapoly_crypt ::
  "'e crypto \<Rightarrow> byte list \<times> byte list \<Rightarrow> 32 word \<Rightarrow> byte list \<Rightarrow> nat \<Rightarrow> nat \<Rightarrow> nat \<Rightarrow> bool \<Rightarrow> ssh_err + byte list" where
  "chachapoly_crypt C ctx seqnr src len aadlen authlen do_encrypt =
     (let seqbuf = poke_u64 (ucast seqnr);
          poly_key = cr_chacha C (fst ctx) seqbuf None (replicate POLY1305_KEYLEN 0);
          tag = take POLY1305_TAGLEN (drop (aadlen + len) src);
          expected_tag = cr_poly1305 C (take (aadlen + len) src) poly_key
      in if \<not> do_encrypt \<and> expected_tag \<noteq> tag then Inl SSH_ERR_MAC_INVALID
         else
           let dest = (if aadlen > 0 then cr_chacha C (snd ctx) seqbuf None (take aadlen src) else []) @
                 cr_chacha C (fst ctx) seqbuf (Some [1, 0, 0, 0, 0, 0, 0, 0]) (take len (drop aadlen src))
           in Inr (if do_encrypt then dest @ cr_poly1305 C dest poly_key else dest))"

definition chachapoly_get_length ::
  "'e crypto \<Rightarrow> byte list \<times> byte list \<Rightarrow> 32 word \<Rightarrow> byte list \<Rightarrow> ssh_err + 32 word" where
  "chachapoly_get_length C ctx seqnr cp =
     (if length cp < 4 then Inl SSH_ERR_MESSAGE_INCOMPLETE
      else Inr (peek_u32 (cr_chacha C (snd ctx) (poke_u64 (ucast seqnr)) None (take 4 cp))))"

section \<open>Ciphers\<close>

definition is_chachapoly :: "sshcipher \<Rightarrow> bool" where
  "is_chachapoly c \<longleftrightarrow> c_flags c AND CFLAG_CHACHAPOLY \<noteq> 0"

text \<open>The calls of OpenSSL in \<open>cipher_init\<close> up to the key.\<close>

definition evp_setup :: "'e crypto \<Rightarrow> sshcipher \<Rightarrow> byte list option \<Rightarrow> nat \<Rightarrow> byte list option \<Rightarrow> bool \<Rightarrow> 'e option" where
  "evp_setup C c key keylen iv do_encrypt =
     (case cr_init C c iv do_encrypt of None \<Rightarrow> None | Some ev \<Rightarrow>
      case (if cipher_authlen c \<noteq> 0 then cr_set_iv_fixed C iv ev else Some ev) of None \<Rightarrow> None | Some ev \<Rightarrow>
      case (if cr_key_length C ev > 0 \<and> int keylen \<noteq> cr_key_length C ev then cr_set_key_length C keylen ev
            else Some ev) of None \<Rightarrow> None | Some ev \<Rightarrow>
      cr_set_key C (map_option (take keylen) key) ev)"

text \<open>\<open>mem\<close> says whether the two blocks for discarded key stream can be allocated, \<open>junk\<close> is what the first
  one holds.  A null key is followed by ChaCha only: \<^term>\<open>None\<close>.\<close>

definition cipher_init ::
  "'e crypto \<Rightarrow> bool \<Rightarrow> byte list \<Rightarrow> 'e sshcipher_ctx \<Rightarrow> sshcipher \<Rightarrow> byte list option \<Rightarrow> nat \<Rightarrow> byte list option \<Rightarrow> nat \<Rightarrow> bool \<Rightarrow>
   (rc \<times> 'e sshcipher_ctx) option" where
  "cipher_init C mem junk cc c key keylen iv ivlen do_encrypt =
     (let keylen = (if c_number c = SSH_CIPHER_DES \<and> keylen > 8 then 8 else keylen);
          cc = cc\<lparr>cc_plaintext := (c_number c = SSH_CIPHER_NONE), cc_encrypt := do_encrypt\<rparr>
      in if keylen < c_key_len c \<or> (iv \<noteq> None \<and> ivlen < cipher_ivlen c) then Some (Some SSH_ERR_INVALID_ARGUMENT, cc)
         else
           let cc = cc\<lparr>cc_cipher := c\<rparr>
           in if is_chachapoly c then map_option (\<lambda>key. chachapoly_init key keylen cc) key
              else
                (case evp_setup C c key keylen iv do_encrypt of None \<Rightarrow> Some (Some SSH_ERR_LIBCRYPTO_ERROR, cc)
                 | Some ev \<Rightarrow>
                     if c_discard_len c > 0 then
                       (if \<not> mem then Some (Some SSH_ERR_ALLOC_FAIL, cc)
                        else case cr_cipher C (take (c_discard_len c) junk) ev of
                               None \<Rightarrow> Some (Some SSH_ERR_LIBCRYPTO_ERROR, cc)
                             | Some (_, ev) \<Rightarrow> Some (None, cc\<lparr>cc_evp := ev\<rparr>))
                     else Some (None, cc\<lparr>cc_evp := ev\<rparr>)))"

text \<open>\<open>src\<close> is the memory from the source pointer on; the result is what is written to the destination.\<close>

definition cipher_crypt ::
  "'e crypto \<Rightarrow> 'e sshcipher_ctx \<Rightarrow> 32 word \<Rightarrow> byte list \<Rightarrow> nat \<Rightarrow> nat \<Rightarrow> nat \<Rightarrow> ssh_err + (byte list \<times> 'e sshcipher_ctx)" where
  "cipher_crypt C cc seqnr src len aadlen authlen =
     (if is_chachapoly (cc_cipher cc) then
        (case chachapoly_crypt C (cc_cp cc) seqnr src len aadlen authlen (cc_encrypt cc) of
           Inl r \<Rightarrow> Inl r | Inr dest \<Rightarrow> Inr (dest, cc))
      else if authlen \<noteq> 0 \<and> authlen \<noteq> cipher_authlen (cc_cipher cc) then Inl SSH_ERR_INVALID_ARGUMENT
      else
       (case (if authlen \<noteq> 0 then cr_iv_gen C (cc_evp cc) else Some (cc_evp cc)) of
          None \<Rightarrow> Inl SSH_ERR_LIBCRYPTO_ERROR | Some ev \<Rightarrow>
        case (if authlen \<noteq> 0 \<and> \<not> cc_encrypt cc
              then cr_set_tag C (take authlen (drop (aadlen + len) src)) ev else Some ev) of
          None \<Rightarrow> Inl SSH_ERR_LIBCRYPTO_ERROR | Some ev \<Rightarrow>
        case (if aadlen \<noteq> 0 \<and> authlen \<noteq> 0 then cr_aad C (take aadlen src) ev else Some ev) of
          None \<Rightarrow> Inl SSH_ERR_LIBCRYPTO_ERROR | Some ev \<Rightarrow>
        if len mod c_block_size (cc_cipher cc) \<noteq> 0 then Inl SSH_ERR_INVALID_ARGUMENT
        else
         (case cr_cipher C (take len (drop aadlen src)) ev of
            None \<Rightarrow> Inl SSH_ERR_LIBCRYPTO_ERROR | Some (out, ev) \<Rightarrow>
          let dest = take aadlen src @ out
          in if authlen = 0 then Inr (dest, cc\<lparr>cc_evp := ev\<rparr>)
             else
              (case cr_final C ev of
                 None \<Rightarrow> Inl (if cc_encrypt cc then SSH_ERR_LIBCRYPTO_ERROR else SSH_ERR_MAC_INVALID)
               | Some ev \<Rightarrow>
                   if \<not> cc_encrypt cc then Inr (dest, cc\<lparr>cc_evp := ev\<rparr>)
                   else
                    (case cr_get_tag C authlen ev of
                       None \<Rightarrow> Inl SSH_ERR_LIBCRYPTO_ERROR
                     | Some tag \<Rightarrow> Inr (dest @ tag, cc\<lparr>cc_evp := ev\<rparr>))))))"

definition cipher_get_length :: "'e crypto \<Rightarrow> 'e sshcipher_ctx \<Rightarrow> 32 word \<Rightarrow> byte list \<Rightarrow> ssh_err + 32 word" where
  "cipher_get_length C cc seqnr cp =
     (if is_chachapoly (cc_cipher cc) then chachapoly_get_length C (cc_cp cc) seqnr cp
      else if length cp < 4 then Inl SSH_ERR_MESSAGE_INCOMPLETE
      else Inr (peek_u32 cp))"

definition cipher_cleanup :: "'e crypto \<Rightarrow> 'e sshcipher_ctx \<Rightarrow> rc \<times> 'e sshcipher_ctx" where
  "cipher_cleanup C cc =
     (if is_chachapoly (cc_cipher cc) then (None, cc\<lparr>cc_cp := ([], [])\<rparr>)
      else if c_flags (cc_cipher cc) AND CFLAG_AESCTR \<noteq> 0 then (None, cc)
      else if \<not> cr_cleanup C (cc_evp cc) then (Some SSH_ERR_LIBCRYPTO_ERROR, cc)
      else (None, cc))"

section \<open>Message authentication codes\<close>

text \<open>\<open>hmac\<close> and \<open>umac\<close> say whether the context can be set up with the key.\<close>

definition mac_init :: "(digest \<Rightarrow> bool) \<Rightarrow> bool \<Rightarrow> sshmac \<Rightarrow> rc" where
  "mac_init hmac umac mac =
     (if m_key mac = None then Some SSH_ERR_INVALID_ARGUMENT
      else case m_type mac of
        Some (SSH_DIGEST d) \<Rightarrow> if hmac d then None else Some SSH_ERR_INVALID_ARGUMENT
      | Some SSH_UMAC \<Rightarrow> if umac then None else Some SSH_ERR_ALLOC_FAIL
      | Some SSH_UMAC128 \<Rightarrow> if umac then None else Some SSH_ERR_ALLOC_FAIL
      | None \<Rightarrow> Some SSH_ERR_INVALID_ARGUMENT)"

text \<open>The key of the context is the one \<open>mac_init\<close> was called with.\<close>

definition mac_compute :: "'e crypto \<Rightarrow> sshmac \<Rightarrow> 32 word \<Rightarrow> byte list \<Rightarrow> ssh_err + byte list" where
  "mac_compute C mac seqno data =
     (if m_mac_len mac > SSH_DIGEST_MAX_LENGTH then Inl SSH_ERR_INTERNAL_ERROR
      else
        let key = (case m_key mac of None \<Rightarrow> [] | Some k \<Rightarrow> k)
        in case m_type mac of
             Some (SSH_DIGEST d) \<Rightarrow>
               (case cr_hmac C d (take (m_key_len mac) key) (poke_u32 seqno @ data) of
                  None \<Rightarrow> Inl SSH_ERR_LIBCRYPTO_ERROR
                | Some u \<Rightarrow> Inr (take (m_mac_len mac) u))
           | Some SSH_UMAC \<Rightarrow> Inr (take (m_mac_len mac) (cr_umac C key (poke_u64 (ucast seqno)) data))
           | Some SSH_UMAC128 \<Rightarrow> Inr (take (m_mac_len mac) (cr_umac128 C key (poke_u64 (ucast seqno)) data))
           | None \<Rightarrow> Inl SSH_ERR_INVALID_ARGUMENT)"

section \<open>What the libraries promise\<close>

text \<open>\<open>P c e d\<close>: the contexts \<open>e\<close> and \<open>d\<close> encrypt and decrypt the same stream with the cipher \<open>c\<close>.  A decryption gives
  back what was encrypted and the contexts go on together; encrypting in two calls is encrypting the
  concatenation in one.  With an authentication tag, the tag that the encryption computes is accepted.\<close>

definition evp_stream :: "'e crypto \<Rightarrow> nat \<Rightarrow> ('e \<Rightarrow> 'e \<Rightarrow> bool) \<Rightarrow> bool" where
  "evp_stream C bs P \<longleftrightarrow>
     (\<forall>e d x. P e d \<longrightarrow> length x mod bs = 0 \<longrightarrow>
        (\<exists>y e' d'. cr_cipher C x e = Some (y, e') \<and> length y = length x \<and> cr_cipher C y d = Some (x, d') \<and> P e' d')) \<and>
     (\<forall>e d x x' y e1 y' e2. P e d \<longrightarrow> length x mod bs = 0 \<longrightarrow> cr_cipher C x e = Some (y, e1) \<longrightarrow>
        cr_cipher C x' e1 = Some (y', e2) \<longrightarrow> cr_cipher C (x @ x') e = Some (y @ y', e2))"

definition evp_aead :: "'e crypto \<Rightarrow> nat \<Rightarrow> nat \<Rightarrow> ('e \<Rightarrow> 'e \<Rightarrow> bool) \<Rightarrow> bool" where
  "evp_aead C bs n P \<longleftrightarrow>
     (\<forall>e d a x. P e d \<longrightarrow> length x mod bs = 0 \<longrightarrow>
        (\<exists>e1 e2 y e3 e4 tag d1 d2 d3 d4 d5. cr_iv_gen C e = Some e1 \<and> cr_aad C a e1 = Some e2 \<and>
           cr_cipher C x e2 = Some (y, e3) \<and> length y = length x \<and> cr_final C e3 = Some e4 \<and>
           cr_get_tag C n e4 = Some tag \<and> length tag = n \<and>
           cr_iv_gen C d = Some d1 \<and> cr_set_tag C tag d1 = Some d2 \<and> cr_aad C a d2 = Some d3 \<and>
           cr_cipher C y d3 = Some (x, d4) \<and> cr_final C d4 = Some d5 \<and> P e4 d5))"

text \<open>ChaCha adds a key stream, and a tag has sixteen bytes.\<close>

definition chacha_laws :: "'e crypto \<Rightarrow> bool" where
  "chacha_laws C \<longleftrightarrow>
     (\<forall>k iv n x. length (cr_chacha C k iv n x) = length x \<and> cr_chacha C k iv n (cr_chacha C k iv n x) = x) \<and>
     (\<forall>m k. length (cr_poly1305 C m k) = POLY1305_TAGLEN)"

definition crypto_laws :: "'e crypto \<Rightarrow> (sshcipher \<Rightarrow> 'e \<Rightarrow> 'e \<Rightarrow> bool) \<Rightarrow> bool" where
  "crypto_laws C P \<longleftrightarrow> chacha_laws C \<and>
     (\<forall>c. if c_auth_len c = 0 then evp_stream C (c_block_size c) (P c)
          else evp_aead C (c_block_size c) (c_auth_len c) (P c))"

section \<open>The two ends of a direction\<close>

text \<open>What the entries of the table of ciphers have in common.\<close>

definition cipher_sane :: "sshcipher \<Rightarrow> bool" where
  "cipher_sane c \<longleftrightarrow> c_block_size c \<in> {8, 16} \<and> c_auth_len c \<le> 16 \<and> (is_chachapoly c \<longrightarrow> c_auth_len c = POLY1305_TAGLEN)"

definition ctx_pair :: "(sshcipher \<Rightarrow> 'e \<Rightarrow> 'e \<Rightarrow> bool) \<Rightarrow> 'e sshcipher_ctx \<Rightarrow> 'e sshcipher_ctx \<Rightarrow> bool" where
  "ctx_pair P es ds \<longleftrightarrow> cc_cipher ds = cc_cipher es \<and> cc_encrypt es \<and> \<not> cc_encrypt ds \<and> cipher_sane (cc_cipher es) \<and>
     (if is_chachapoly (cc_cipher es) then cc_cp ds = cc_cp es else P (cc_cipher es) (cc_evp es) (cc_evp ds))"

lemma chachapoly_roundtrip:
  assumes "chacha_laws C" "aadlen + len \<le> length src"
  shows "\<exists>out. chachapoly_crypt C k seqnr src len aadlen authlen True = Inr out \<and> length out = aadlen + len + POLY1305_TAGLEN \<and>
    (\<forall>rest. chachapoly_crypt C k seqnr (out @ rest) len aadlen authlen False = Inr (take (aadlen + len) src) \<and>
       (aadlen = 4 \<longrightarrow> chachapoly_get_length C k seqnr (take 4 out @ rest) = Inr (peek_u32 src)))"
proof -
  let ?iv = "poke_u64 (ucast seqnr)"
  define hdr where "hdr = cr_chacha C (snd k) ?iv None (take aadlen src)"
  define body where "body = cr_chacha C (fst k) ?iv (Some [1, 0, 0, 0, 0, 0, 0, 0]) (take len (drop aadlen src))"
  define tag where "tag = cr_poly1305 C (hdr @ body) (cr_chacha C (fst k) ?iv None (replicate POLY1305_KEYLEN 0))"
  have l: "length hdr = aadlen" "length body = len" "length tag = POLY1305_TAGLEN"
    using assms by (simp_all add: hdr_def body_def tag_def chacha_laws_def)
  have inv: "cr_chacha C (snd k) ?iv None hdr = take aadlen src"
    "cr_chacha C (fst k) ?iv (Some [1, 0, 0, 0, 0, 0, 0, 0]) body = take len (drop aadlen src)"
    using assms(1) by (simp_all add: hdr_def body_def chacha_laws_def)
  have hd0: "(if aadlen > 0 then hdr else []) = hdr" using l(1) by auto
  have src: "take aadlen src @ take len (drop aadlen src) = take (aadlen + len) src" by (simp add: take_add)
  have enc: "chachapoly_crypt C k seqnr src len aadlen authlen True = Inr (hdr @ body @ tag)"
  proof -
    have "chachapoly_crypt C k seqnr src len aadlen authlen True =
        Inr (let dest = (if aadlen > 0 then hdr else []) @ body
             in dest @ cr_poly1305 C dest (cr_chacha C (fst k) ?iv None (replicate POLY1305_KEYLEN 0)))"
      by (simp add: chachapoly_crypt_def Let_def hdr_def body_def)
    then show ?thesis by (simp add: hd0 tag_def Let_def)
  qed
  have "chachapoly_crypt C k seqnr ((hdr @ body @ tag) @ rest) len aadlen authlen False = Inr (take (aadlen + len) src)" for rest
  proof -
    have t: "take (aadlen + len) ((hdr @ body @ tag) @ rest) = hdr @ body" "take POLY1305_TAGLEN (drop (aadlen + len) ((hdr @ body @ tag) @ rest)) = tag"
      "take aadlen ((hdr @ body @ tag) @ rest) = hdr" "take len (drop aadlen ((hdr @ body @ tag) @ rest)) = body"
      using l by simp_all
    have "(if aadlen > 0 then take aadlen src else []) = take aadlen src" by auto
    then show ?thesis unfolding chachapoly_crypt_def Let_def t using src by (simp add: inv tag_def)
  qed
  moreover have "chachapoly_get_length C k seqnr (take 4 (hdr @ body @ tag) @ rest) = Inr (peek_u32 src)" if "aadlen = 4" for rest
    using l inv(1) that by (simp add: chachapoly_get_length_def)
  ultimately show ?thesis using enc l by (intro exI [of _ "hdr @ body @ tag"]) simp
qed

text \<open>One call at each end, with additional data or with a tag.\<close>

lemma crypt_roundtrip:
  assumes "crypto_laws C P" "ctx_pair P es ds" "aadlen + len \<le> length src" "len mod c_block_size (cc_cipher es) = 0"
    and "authlen = cipher_authlen (cc_cipher es)" "authlen \<noteq> 0 \<longrightarrow> aadlen \<noteq> 0"
  shows "\<exists>out es' ds'. cipher_crypt C es seqnr src len aadlen authlen = Inr (out, es') \<and> length out = aadlen + len + authlen \<and>
    ctx_pair P es' ds' \<and>
    (\<forall>rest. cipher_crypt C ds seqnr (out @ rest) len aadlen authlen = Inr (take (aadlen + len) src, ds') \<and>
       (aadlen = 4 \<longrightarrow> cipher_get_length C ds seqnr (take 4 out @ rest) = Inr (peek_u32 src)))"
proof -
  let ?c = "cc_cipher es"
  have pr: "cc_cipher ds = ?c" "cc_encrypt es" "\<not> cc_encrypt ds" "cipher_sane ?c" using assms(2) by (auto simp: ctx_pair_def)
  have src: "take aadlen src @ take len (drop aadlen src) = take (aadlen + len) src" by (simp add: take_add)
  have a: "length (take aadlen src) = aadlen" "length (take len (drop aadlen src)) = len" using assms(3) by simp_all
  have pk: "peek_u32 (take aadlen src @ z) = peek_u32 src" if "aadlen = 4" for z
  proof -
    have "take 4 (take aadlen src @ z) = take 4 src" using that a by simp
    then show ?thesis by (metis order_refl peek_u32_take)
  qed
  show ?thesis
  proof (cases "is_chachapoly ?c")
    case True
    then have k: "cc_cp ds = cc_cp es" "authlen = POLY1305_TAGLEN" "chacha_laws C"
      using assms(1,2,5) pr(4) by (auto simp: ctx_pair_def cipher_sane_def cipher_authlen_def crypto_laws_def)
    obtain out where out: "chachapoly_crypt C (cc_cp es) seqnr src len aadlen authlen True = Inr out"
      "length out = aadlen + len + POLY1305_TAGLEN"
      "\<forall>rest. chachapoly_crypt C (cc_cp es) seqnr (out @ rest) len aadlen authlen False = Inr (take (aadlen + len) src) \<and>
         (aadlen = 4 \<longrightarrow> chachapoly_get_length C (cc_cp es) seqnr (take 4 out @ rest) = Inr (peek_u32 src))"
      using chachapoly_roundtrip [OF k(3) assms(3)] by blast
    then show ?thesis using True k pr assms(2)
      by (intro exI [of _ out] exI [of _ es] exI [of _ ds]) (simp add: cipher_crypt_def cipher_get_length_def)
  next
    case False
    then have P: "P ?c (cc_evp es) (cc_evp ds)" using assms(2) by (simp add: ctx_pair_def)
    show ?thesis
    proof (cases "authlen = 0")
      case True
      then have "evp_stream C (c_block_size ?c) (P ?c)" using assms(1,5) by (simp add: crypto_laws_def cipher_authlen_def)
      then obtain y e' d' where y: "cr_cipher C (take len (drop aadlen src)) (cc_evp es) = Some (y, e')" "length y = len"
        "cr_cipher C y (cc_evp ds) = Some (take len (drop aadlen src), d')" "P ?c e' d'"
        using P a(2) assms(4) unfolding evp_stream_def by metis
      let ?out = "take aadlen src @ y"
      have enc: "cipher_crypt C es seqnr src len aadlen authlen = Inr (?out, es\<lparr>cc_evp := e'\<rparr>)"
        using False True y(1) assms(4) by (simp add: cipher_crypt_def)
      have t: "take aadlen (?out @ rest) = take aadlen src" "take len (drop aadlen (?out @ rest)) = y" for rest using a y(2) by simp_all
      have "cipher_crypt C ds seqnr (?out @ rest) len aadlen authlen = Inr (take (aadlen + len) src, ds\<lparr>cc_evp := d'\<rparr>)" for rest
        unfolding cipher_crypt_def pr(1) t using False True y(3) assms(4) src by simp
      moreover have "ctx_pair P (es\<lparr>cc_evp := e'\<rparr>) (ds\<lparr>cc_evp := d'\<rparr>)" using assms(2) y(4) False by (simp add: ctx_pair_def)
      moreover have "aadlen = 4 \<longrightarrow> cipher_get_length C ds seqnr (take 4 ?out @ rest) = Inr (peek_u32 src)" for rest
        using False pr(1) a pk [of rest] by (simp add: cipher_get_length_def)
      ultimately show ?thesis using enc a y(2) True
        by (intro exI [of _ ?out] exI [of _ "es\<lparr>cc_evp := e'\<rparr>"] exI [of _ "ds\<lparr>cc_evp := d'\<rparr>"]) simp
    next
      case auth: False
      then have "evp_aead C (c_block_size ?c) authlen (P ?c)" using assms(1,5) by (simp add: crypto_laws_def cipher_authlen_def)
      from this [unfolded evp_aead_def, rule_format, OF P, of "take len (drop aadlen src)" "take aadlen src"] a(2) assms(4)
      obtain e1 e2 y e3 e4 tag d1 d2 d3 d4 d5 where
        e: "cr_iv_gen C (cc_evp es) = Some e1" "cr_aad C (take aadlen src) e1 = Some e2"
          "cr_cipher C (take len (drop aadlen src)) e2 = Some (y, e3)" "length y = len" "cr_final C e3 = Some e4"
          "cr_get_tag C authlen e4 = Some tag" "length tag = authlen"
        and d: "cr_iv_gen C (cc_evp ds) = Some d1" "cr_set_tag C tag d1 = Some d2" "cr_aad C (take aadlen src) d2 = Some d3"
          "cr_cipher C y d3 = Some (take len (drop aadlen src), d4)" "cr_final C d4 = Some d5" "P ?c e4 d5"
        by auto
      let ?out = "take aadlen src @ y @ tag"
      have aad: "aadlen \<noteq> 0" using auth assms(6) by simp
      have enc: "cipher_crypt C es seqnr src len aadlen authlen = Inr (?out, es\<lparr>cc_evp := e4\<rparr>)"
        using False auth aad e assms(4,5) pr(2) by (simp add: cipher_crypt_def)
      have t: "take aadlen (?out @ rest) = take aadlen src" "take len (drop aadlen (?out @ rest)) = y"
        "take authlen (drop (aadlen + len) (?out @ rest)) = tag" for rest using a e(4,7) by simp_all
      have "cipher_crypt C ds seqnr (?out @ rest) len aadlen authlen = Inr (take (aadlen + len) src, ds\<lparr>cc_evp := d5\<rparr>)" for rest
        unfolding cipher_crypt_def pr(1) t using False auth aad d assms(4,5) src pr(3) by simp
      moreover have "ctx_pair P (es\<lparr>cc_evp := e4\<rparr>) (ds\<lparr>cc_evp := d5\<rparr>)" using assms(2) d(6) False by (simp add: ctx_pair_def)
      moreover have "aadlen = 4 \<longrightarrow> cipher_get_length C ds seqnr (take 4 ?out @ rest) = Inr (peek_u32 src)" for rest
        using False pr(1) a pk [of rest] by (simp add: cipher_get_length_def)
      ultimately show ?thesis using enc a e(4,7)
        by (intro exI [of _ ?out] exI [of _ "es\<lparr>cc_evp := e4\<rparr>"] exI [of _ "ds\<lparr>cc_evp := d5\<rparr>"]) simp
    qed
  qed
qed

text \<open>A receiver that decrypts the first block on its own.\<close>

lemma crypt_split:
  assumes "crypto_laws C P" "ctx_pair P es ds" "cipher_authlen (cc_cipher es) = 0"
    and "length src = k + m" "k mod c_block_size (cc_cipher es) = 0" "m mod c_block_size (cc_cipher es) = 0"
  shows "\<exists>out es' ds1 ds'. cipher_crypt C es seqnr src (k + m) 0 0 = Inr (out, es') \<and> length out = k + m \<and> ctx_pair P es' ds' \<and>
    (\<forall>rest s1. cipher_crypt C ds s1 (take k out @ rest) k 0 0 = Inr (take k src, ds1)) \<and>
    (\<forall>rest s2. cipher_crypt C ds1 s2 (drop k out @ rest) m 0 0 = Inr (drop k src, ds'))"
proof -
  let ?c = "cc_cipher es"
  have pr: "cc_cipher ds = ?c" "cc_encrypt es" "\<not> cc_encrypt ds" "cipher_sane ?c" using assms(2) by (auto simp: ctx_pair_def)
  have ch: "\<not> is_chachapoly ?c" using pr(4) assms(3) by (auto simp: cipher_sane_def cipher_authlen_def POLY1305_TAGLEN_def)
  then have P: "P ?c (cc_evp es) (cc_evp ds)" using assms(2) by (simp add: ctx_pair_def)
  have st: "evp_stream C (c_block_size ?c) (P ?c)" using assms(1,3) by (simp add: crypto_laws_def cipher_authlen_def)
  have l: "length (take k src) = k" "length (drop k src) = m" using assms(4) by simp_all
  obtain y e1 d1 where y: "cr_cipher C (take k src) (cc_evp es) = Some (y, e1)" "length y = k"
    "cr_cipher C y (cc_evp ds) = Some (take k src, d1)" "P ?c e1 d1"
    using st P l(1) assms(5) unfolding evp_stream_def by metis
  obtain z e2 d2 where z: "cr_cipher C (drop k src) e1 = Some (z, e2)" "length z = m"
    "cr_cipher C z d1 = Some (drop k src, d2)" "P ?c e2 d2"
    using st y(4) l(2) assms(6) unfolding evp_stream_def by metis
  have "cr_cipher C (take k src @ drop k src) (cc_evp es) = Some (y @ z, e2)"
    using st P y(1) z(1) l(1) assms(5) unfolding evp_stream_def by metis
  then have yz: "cr_cipher C src (cc_evp es) = Some (y @ z, e2)" by simp
  have b: "(k + m) mod c_block_size ?c = 0" using assms(5,6) by (metis mod_add_eq add_0 mod_0)
  have enc: "cipher_crypt C es seqnr src (k + m) 0 0 = Inr (y @ z, es\<lparr>cc_evp := e2\<rparr>)"
    using ch yz b assms(4) by (simp add: cipher_crypt_def)
  have "cipher_crypt C ds s1 (take k (y @ z) @ rest) k 0 0 = Inr (take k src, ds\<lparr>cc_evp := d1\<rparr>)" for rest s1
    using ch y(2,3) assms(5) pr(1) by (simp add: cipher_crypt_def)
  moreover have "cipher_crypt C (ds\<lparr>cc_evp := d1\<rparr>) s2 (drop k (y @ z) @ rest) m 0 0 = Inr (drop k src, ds\<lparr>cc_evp := d2\<rparr>)" for rest s2
    using ch y(2) z(2,3) assms(6) pr(1) by (simp add: cipher_crypt_def)
  moreover have "ctx_pair P (es\<lparr>cc_evp := e2\<rparr>) (ds\<lparr>cc_evp := d2\<rparr>)" using assms(2) z(4) ch by (simp add: ctx_pair_def)
  ultimately show ?thesis using enc y(2) z(2)
    by (intro exI [of _ "y @ z"] exI [of _ "es\<lparr>cc_evp := e2\<rparr>"] exI [of _ "ds\<lparr>cc_evp := d1\<rparr>"] exI [of _ "ds\<lparr>cc_evp := d2\<rparr>"]) simp
qed

lemma ciphers_sane: "c \<in> set (ciphers bl) \<Longrightarrow> cipher_sane c"
  by (auto simp: ciphers_def cipher_sane_def is_chachapoly_def mk_cipher_def CFLAG_CHACHAPOLY_def CFLAG_AESCTR_def
      CFLAG_NONE_def POLY1305_TAGLEN_def split: if_splits)

end
