(* ===== verification/Packet.thy ===== *)
theory Packet
  imports Cipher
begin

unbundle bit_operations_syntax

text \<open>
  The transport of protocol 2, \<^verbatim>\<open>src/openssh-7.2p2/packet.c\<close>: building, compressing, padding, authenticating and
  encrypting a packet, the queue of packets during a key exchange, the decision to exchange keys again,
  and the reassembly of packets from the bytes of the connection, with the two functions of \<^verbatim>\<open>kex.c\<close> that send
  the first message of a key exchange.  Functions with a branch for protocol 1 have the branch of protocol 2
  (\<open>compat20\<close> is set).  A result is the return code with the new state; \<^term>\<open>None\<close> is an access through a null
  pointer or outside of a buffer, a division by zero, or a loop that does not end.
\<close>

section \<open>Constants and state\<close>

definition PACKET_MAX_SIZE :: nat where "PACKET_MAX_SIZE = 256 * 1024"
definition MAX_PACKETS :: "32 word" where "MAX_PACKETS = 0x80000000"

definition SSH_MSG_NONE :: byte where "SSH_MSG_NONE = 0"
definition SSH2_MSG_TRANSPORT_MIN :: byte where "SSH2_MSG_TRANSPORT_MIN = 1"
definition SSH2_MSG_TRANSPORT_MAX :: byte where "SSH2_MSG_TRANSPORT_MAX = 49"
definition SSH2_MSG_LOCAL_MIN :: byte where "SSH2_MSG_LOCAL_MIN = 192"
definition SSH2_MSG_MIN :: byte where "SSH2_MSG_MIN = 1"
definition SSH2_MSG_DISCONNECT :: byte where "SSH2_MSG_DISCONNECT = 1"
definition SSH2_MSG_IGNORE :: byte where "SSH2_MSG_IGNORE = 2"
definition SSH2_MSG_UNIMPLEMENTED :: byte where "SSH2_MSG_UNIMPLEMENTED = 3"
definition SSH2_MSG_DEBUG :: byte where "SSH2_MSG_DEBUG = 4"
definition SSH2_MSG_SERVICE_REQUEST :: byte where "SSH2_MSG_SERVICE_REQUEST = 5"
definition SSH2_MSG_SERVICE_ACCEPT :: byte where "SSH2_MSG_SERVICE_ACCEPT = 6"
definition SSH2_MSG_EXT_INFO :: byte where "SSH2_MSG_EXT_INFO = 7"
definition SSH2_MSG_KEXINIT :: byte where "SSH2_MSG_KEXINIT = 20"
definition SSH2_MSG_NEWKEYS :: byte where "SSH2_MSG_NEWKEYS = 21"
definition SSH2_MSG_USERAUTH_SUCCESS :: byte where "SSH2_MSG_USERAUTH_SUCCESS = 52"
definition SSH2_DISCONNECT_PROTOCOL_ERROR :: "32 word" where "SSH2_DISCONNECT_PROTOCOL_ERROR = 2"

lemmas msg_defs =
  SSH_MSG_NONE_def SSH2_MSG_TRANSPORT_MIN_def SSH2_MSG_TRANSPORT_MAX_def SSH2_MSG_LOCAL_MIN_def SSH2_MSG_MIN_def
  SSH2_MSG_DISCONNECT_def SSH2_MSG_IGNORE_def SSH2_MSG_UNIMPLEMENTED_def SSH2_MSG_DEBUG_def
  SSH2_MSG_SERVICE_REQUEST_def SSH2_MSG_SERVICE_ACCEPT_def SSH2_MSG_EXT_INFO_def SSH2_MSG_KEXINIT_def
  SSH2_MSG_NEWKEYS_def SSH2_MSG_USERAUTH_SUCCESS_def

record packet_state =
  ps_seqnr :: "32 word"
  ps_packets :: "32 word"
  ps_blocks :: "64 word"
  ps_bytes :: "64 word"

text \<open>One direction of compression: the stream of zlib, \<open>compression_out_started\<close> and
  \<open>compression_out_failures\<close>, or the same for the input.\<close>

record 'z compression =
  z_stream :: 'z
  z_started :: bool
  z_failures :: int

record packet =
  pk_type :: byte
  pk_payload :: sshbuf

record ('e, 'z) session_state =
  ss_receive_context :: "'e sshcipher_ctx"
  ss_send_context :: "'e sshcipher_ctx"
  ss_input :: sshbuf
  ss_output :: sshbuf
  ss_outgoing_packet :: sshbuf
  ss_incoming_packet :: sshbuf
  ss_compression_buffer :: "sshbuf option"
  ss_compression_in :: "'z compression"
  ss_compression_out :: "'z compression"
  ss_interactive_mode :: bool
  ss_server_side :: bool
  ss_after_authentication :: bool
  ss_keep_alive_timeouts :: int
  ss_packet_timeout_ms :: int
  ss_newkeys_in :: "newkeys option"
  ss_newkeys_out :: "newkeys option"
  ss_p_read :: packet_state
  ss_p_send :: packet_state
  ss_max_blocks_in :: "64 word"
  ss_max_blocks_out :: "64 word"
  ss_rekey_limit :: "64 word"
  ss_rekey_interval :: "32 word"
  ss_rekey_time :: int
  ss_extra_pad :: byte
  ss_packet_discard :: "32 word"
  ss_packet_discard_mac :: "sshmac option"
  ss_packlen :: "32 word"
  ss_rekeying :: bool
  ss_outgoing :: "packet list"

record ('e, 'z) ssh = "('e, 'z) session_state" +
  sh_kex :: "kex option"
  sh_compat :: "32 word"

text \<open>What the libraries and the system return: allocation, the cryptographic primitives, the blocks and the
  content of fresh memory in \<open>cipher_init\<close>, the set-up of MAC contexts, random padding by number of the packet,
  the random cookie, the clock, zlib, and the results of \<open>select\<close> and \<open>write\<close> in the order of the calls.
  \<open>deflate\<close> and \<open>inflate\<close> take the input that is left and give the status, the bytes for the buffer of
  4096 bytes, and the input that is left then.\<close>

datatype zret = Z_OK | Z_MEM_ERROR | Z_STREAM_ERROR | Z_BUF_ERROR | Z_DATA_ERROR | Z_VERSION_ERROR | Z_STREAM_END | Z_NEED_DICT

datatype write_result = W_again | W_error | W_written nat

record ('e, 'z) packet_env =
  pe_alloc :: alloc_env
  pe_crypto :: "'e crypto"
  pe_mem :: bool
  pe_junk :: "byte list"
  pe_hmac :: "digest \<Rightarrow> bool"
  pe_umac :: bool
  pe_random :: "32 word \<Rightarrow> nat \<Rightarrow> byte"
  pe_cookie :: "nat \<Rightarrow> byte"
  pe_now :: int
  pe_deflateInit :: "nat \<Rightarrow> zret \<times> 'z"
  pe_inflateInit :: "zret \<times> 'z"
  pe_deflate :: "byte list \<Rightarrow> 'z \<Rightarrow> zret \<times> byte list \<times> byte list \<times> 'z"
  pe_inflate :: "byte list \<Rightarrow> 'z \<Rightarrow> zret \<times> byte list \<times> byte list \<times> 'z"
  pe_writes :: "(bool \<times> write_result) list"

type_synonym 's res = "(rc \<times> 's) option"

text \<open>The idiom \<^verbatim>\<open>if ((r = f(...)) != 0) return r;\<close> and a chain of them.\<close>

definition then_ok :: "'s res \<Rightarrow> ('s \<Rightarrow> 's res) \<Rightarrow> 's res" where
  "then_ok m k = (case m of None \<Rightarrow> None | Some (Some r, s) \<Rightarrow> Some (Some r, s) | Some (None, s) \<Rightarrow> k s)"

lemma then_ok_simps [simp]:
  "then_ok None k = None" "then_ok (Some (Some r, s)) k = Some (Some r, s)" "then_ok (Some (None, s)) k = k s"
  by (simp_all add: then_ok_def)

text \<open>An operation on one of the buffers of the state.\<close>

definition on_outgoing :: "rc \<times> sshbuf \<Rightarrow> ('e, 'z) ssh \<Rightarrow> ('e, 'z) ssh res" where
  "on_outgoing rb s = Some (fst rb, s\<lparr>ss_outgoing_packet := snd rb\<rparr>)"

definition on_output :: "rc \<times> sshbuf \<Rightarrow> ('e, 'z) ssh \<Rightarrow> ('e, 'z) ssh res" where
  "on_output rb s = Some (fst rb, s\<lparr>ss_output := snd rb\<rparr>)"

definition on_input :: "rc \<times> sshbuf \<Rightarrow> ('e, 'z) ssh \<Rightarrow> ('e, 'z) ssh res" where
  "on_input rb s = Some (fst rb, s\<lparr>ss_input := snd rb\<rparr>)"

definition on_incoming :: "rc \<times> sshbuf \<Rightarrow> ('e, 'z) ssh \<Rightarrow> ('e, 'z) ssh res" where
  "on_incoming rb s = Some (fst rb, s\<lparr>ss_incoming_packet := snd rb\<rparr>)"

text \<open>Bytes written through a pointer into a buffer.\<close>

definition buf_poke :: "nat \<Rightarrow> byte list \<Rightarrow> sshbuf \<Rightarrow> sshbuf" where
  "buf_poke p v b = b\<lparr>sb_mem := mem_write p v (sb_mem b)\<rparr>"

section \<open>Compression\<close>

definition ssh_packet_init_compression :: "('e, 'z) packet_env \<Rightarrow> ('e, 'z) ssh \<Rightarrow> ('e, 'z) ssh res" where
  "ssh_packet_init_compression E s =
     (if ss_compression_buffer s \<noteq> None then Some (None, s)
      else case sshbuf_new (pe_alloc E) of
        None \<Rightarrow> Some (Some SSH_ERR_ALLOC_FAIL, s)
      | Some b \<Rightarrow> Some (None, s\<lparr>ss_compression_buffer := Some b\<rparr>))"

definition zinit_rc :: "zret \<Rightarrow> rc" where
  "zinit_rc st = (case st of Z_OK \<Rightarrow> None | Z_MEM_ERROR \<Rightarrow> Some SSH_ERR_ALLOC_FAIL | _ \<Rightarrow> Some SSH_ERR_INTERNAL_ERROR)"

definition zinit :: "zret \<times> 'z \<Rightarrow> 'z compression \<Rightarrow> rc \<times> 'z compression" where
  "zinit r c = (zinit_rc (fst r), c\<lparr>z_stream := snd r, z_started := (z_started c \<or> fst r = Z_OK)\<rparr>)"

definition start_compression_out :: "('e, 'z) packet_env \<Rightarrow> nat \<Rightarrow> ('e, 'z) ssh \<Rightarrow> ('e, 'z) ssh res" where
  "start_compression_out E level s =
     (if level < 1 \<or> level > 9 then Some (Some SSH_ERR_INVALID_ARGUMENT, s)
      else let (r, c) = zinit (pe_deflateInit E level) (ss_compression_out s)
           in Some (r, s\<lparr>ss_compression_out := c\<rparr>))"

definition start_compression_in :: "('e, 'z) packet_env \<Rightarrow> ('e, 'z) ssh \<Rightarrow> ('e, 'z) ssh res" where
  "start_compression_in E s =
     (let (r, c) = zinit (pe_inflateInit E) (ss_compression_in s) in Some (r, s\<lparr>ss_compression_in := c\<rparr>))"

definition ZBUF :: nat where "ZBUF = 4096"

partial_function (option) deflate_loop ::
  "('e, 'z) packet_env \<Rightarrow> byte list \<Rightarrow> sshbuf \<Rightarrow> 'z compression \<Rightarrow> (rc \<times> sshbuf \<times> 'z compression) option" where
  "deflate_loop E inp out c =
     (case pe_deflate E inp (z_stream c) of (status, chunk, inp, z) \<Rightarrow>
        (let c = c\<lparr>z_stream := z\<rparr>
         in if status = Z_MEM_ERROR then Some (Some SSH_ERR_ALLOC_FAIL, out, c)
            else if status = Z_OK then
              (case sshbuf_put (pe_alloc E) out chunk of (r, out) \<Rightarrow>
                 if r \<noteq> None then Some (r, out, c)
                 else if ZBUF - length chunk = 0 then deflate_loop E inp out c
                 else Some (None, out, c))
            else Some (Some SSH_ERR_INVALID_FORMAT, out, c\<lparr>z_failures := z_failures c + 1\<rparr>)))"

declare deflate_loop.simps [code]

definition compress_buffer ::
  "('e, 'z) packet_env \<Rightarrow> sshbuf \<Rightarrow> sshbuf \<Rightarrow> 'z compression \<Rightarrow> (rc \<times> sshbuf \<times> 'z compression) option" where
  "compress_buffer E inb out c =
     (if \<not> z_started c then Some (Some SSH_ERR_INTERNAL_ERROR, out, c)
      else if sshbuf_len inb = 0 then Some (None, out, c)
      else if sshbuf_mutable_ptr inb = None then Some (Some SSH_ERR_INTERNAL_ERROR, out, c)
      else deflate_loop E (ptr_bytes inb) out c)"

partial_function (option) inflate_loop ::
  "('e, 'z) packet_env \<Rightarrow> byte list \<Rightarrow> sshbuf \<Rightarrow> 'z compression \<Rightarrow> (rc \<times> sshbuf \<times> 'z compression) option" where
  "inflate_loop E inp out c =
     (case pe_inflate E inp (z_stream c) of (status, chunk, inp, z) \<Rightarrow>
        (let c = c\<lparr>z_stream := z\<rparr>
         in if status = Z_OK then
              (case sshbuf_put (pe_alloc E) out chunk of (r, out) \<Rightarrow>
                 if r \<noteq> None then Some (r, out, c) else inflate_loop E inp out c)
            else if status = Z_BUF_ERROR then Some (None, out, c)
            else if status = Z_DATA_ERROR then Some (Some SSH_ERR_INVALID_FORMAT, out, c)
            else if status = Z_MEM_ERROR then Some (Some SSH_ERR_ALLOC_FAIL, out, c)
            else Some (Some SSH_ERR_INTERNAL_ERROR, out, c\<lparr>z_failures := z_failures c + 1\<rparr>)))"

declare inflate_loop.simps [code]

definition uncompress_buffer ::
  "('e, 'z) packet_env \<Rightarrow> sshbuf \<Rightarrow> sshbuf \<Rightarrow> 'z compression \<Rightarrow> (rc \<times> sshbuf \<times> 'z compression) option" where
  "uncompress_buffer E inb out c =
     (if \<not> z_started c then Some (Some SSH_ERR_INTERNAL_ERROR, out, c)
      else if sshbuf_mutable_ptr inb = None then Some (Some SSH_ERR_INTERNAL_ERROR, out, c)
      else inflate_loop E (ptr_bytes inb) out c)"

section \<open>Keys\<close>

definition newkeys_of :: "kex_mode \<Rightarrow> ('e, 'z) ssh \<Rightarrow> newkeys option" where
  "newkeys_of mode s = (case mode of MODE_IN \<Rightarrow> ss_newkeys_in s | MODE_OUT \<Rightarrow> ss_newkeys_out s)"

definition put_newkeys :: "kex_mode \<Rightarrow> newkeys option \<Rightarrow> ('e, 'z) ssh \<Rightarrow> ('e, 'z) ssh" where
  "put_newkeys mode nk s = (case mode of MODE_IN \<Rightarrow> s\<lparr>ss_newkeys_in := nk\<rparr> | MODE_OUT \<Rightarrow> s\<lparr>ss_newkeys_out := nk\<rparr>)"

definition context_of :: "kex_mode \<Rightarrow> ('e, 'z) ssh \<Rightarrow> 'e sshcipher_ctx" where
  "context_of mode s = (case mode of MODE_IN \<Rightarrow> ss_receive_context s | MODE_OUT \<Rightarrow> ss_send_context s)"

definition put_context :: "kex_mode \<Rightarrow> 'e sshcipher_ctx \<Rightarrow> ('e, 'z) ssh \<Rightarrow> ('e, 'z) ssh" where
  "put_context mode cc s =
     (case mode of MODE_IN \<Rightarrow> s\<lparr>ss_receive_context := cc\<rparr> | MODE_OUT \<Rightarrow> s\<lparr>ss_send_context := cc\<rparr>)"

definition start_compression :: "('e, 'z) packet_env \<Rightarrow> kex_mode \<Rightarrow> ('e, 'z) ssh \<Rightarrow> ('e, 'z) ssh res" where
  "start_compression E mode s =
     then_ok (ssh_packet_init_compression E s) (\<lambda>s.
       if mode = MODE_OUT then start_compression_out E 6 s else start_compression_in E s)"

text \<open>The counters of the direction start again.\<close>

definition reset_counts :: "kex_mode \<Rightarrow> ('e, 'z) ssh \<Rightarrow> ('e, 'z) ssh" where
  "reset_counts mode s =
     (case mode of
        MODE_IN \<Rightarrow> s\<lparr>ss_p_read := (ss_p_read s)\<lparr>ps_packets := 0, ps_blocks := 0\<rparr>\<rparr>
      | MODE_OUT \<Rightarrow> s\<lparr>ss_p_send := (ss_p_send s)\<lparr>ps_packets := 0, ps_blocks := 0\<rparr>\<rparr>)"

definition max_blocks_for :: "64 word \<Rightarrow> nat \<Rightarrow> 64 word" where
  "max_blocks_for rekey_limit block_size =
     (let m = (if block_size \<ge> 16 then push_bit (block_size * 2) 1 else push_bit 30 1 div of_nat block_size)
      in if rekey_limit \<noteq> 0 then min m (rekey_limit div of_nat block_size) else m)"

definition set_max_blocks :: "kex_mode \<Rightarrow> 64 word \<Rightarrow> ('e, 'z) ssh \<Rightarrow> ('e, 'z) ssh" where
  "set_max_blocks mode m s =
     (case mode of MODE_IN \<Rightarrow> s\<lparr>ss_max_blocks_in := m\<rparr> | MODE_OUT \<Rightarrow> s\<lparr>ss_max_blocks_out := m\<rparr>)"

text \<open>The compression of one direction is switched on if it is chosen and not yet on.\<close>

definition enable_compression :: "('e, 'z) packet_env \<Rightarrow> kex_mode \<Rightarrow> (comp_type \<Rightarrow> bool) \<Rightarrow> newkeys \<Rightarrow> ('e, 'z) ssh \<Rightarrow> ('e, 'z) ssh res" where
  "enable_compression E mode wanted nk s =
     (case nk_comp nk of None \<Rightarrow> Some (None, s) | Some (t, _) \<Rightarrow>
      if wanted t \<and> \<not> nk_comp_enabled nk then
        then_ok (start_compression E mode s) (\<lambda>s. Some (None, put_newkeys mode (Some (nk\<lparr>nk_comp_enabled := True\<rparr>)) s))
      else Some (None, s))"

definition install_newkeys :: "('e, 'z) packet_env \<Rightarrow> kex_mode \<Rightarrow> newkeys \<Rightarrow> ('e, 'z) ssh \<Rightarrow> ('e, 'z) ssh res" where
  "install_newkeys E mode nk s =
     (case nk_enc nk of None \<Rightarrow> None | Some enc \<Rightarrow>
      then_ok (Some (if cipher_authlen (e_cipher enc) = 0 then mac_init (pe_hmac E) (pe_umac E) (nk_mac nk) else None, s)) (\<lambda>s.
      let nk = nk\<lparr>nk_mac := (nk_mac nk)\<lparr>m_enabled := True\<rparr>\<rparr>;
          s = put_newkeys mode (Some nk) s
      in then_ok (map_option (map_prod id (\<lambda>cc. put_context mode cc s))
           (cipher_init (pe_crypto E) (pe_mem E) (pe_junk E) (context_of mode s) (e_cipher enc) (e_key enc) (e_key_len enc)
              (e_iv enc) (e_iv_len enc) (mode = MODE_OUT))) (\<lambda>s.
         then_ok (enable_compression E mode (\<lambda>t. t = COMP_ZLIB \<or> (t = COMP_DELAYED \<and> ss_after_authentication s)) nk s) (\<lambda>s.
         Some (None, set_max_blocks mode (max_blocks_for (ss_rekey_limit s) (e_block_size enc)) s)))))"

definition take_newkeys :: "kex_mode \<Rightarrow> kex \<Rightarrow> newkeys option \<times> kex" where
  "take_newkeys mode k =
     (case mode of MODE_IN \<Rightarrow> (kx_in k, k\<lparr>kx_in := None\<rparr>) | MODE_OUT \<Rightarrow> (kx_out k, k\<lparr>kx_out := None\<rparr>))"

definition ssh_set_newkeys :: "('e, 'z) packet_env \<Rightarrow> kex_mode \<Rightarrow> ('e, 'z) ssh \<Rightarrow> ('e, 'z) ssh res" where
  "ssh_set_newkeys E mode s =
     (let s = reset_counts mode s
      in then_ok (if newkeys_of mode s = None then Some (None, s)
            else let (r, cc) = cipher_cleanup (pe_crypto E) (context_of mode s) in Some (r, put_context mode cc s)) (\<lambda>s.
         case sh_kex s of None \<Rightarrow> None | Some k \<Rightarrow>
         let (nk, k) = take_newkeys mode k;
             s = put_newkeys mode nk s
         in case nk of None \<Rightarrow> Some (Some SSH_ERR_INTERNAL_ERROR, s)
            | Some nk \<Rightarrow> install_newkeys E mode nk (s\<lparr>sh_kex := Some k\<rparr>)))"

section \<open>When keys are exchanged again\<close>

definition ssh_packet_is_rekeying :: "('e, 'z) ssh \<Rightarrow> bool" where
  "ssh_packet_is_rekeying s \<longleftrightarrow> ss_rekeying s \<or> (case sh_kex s of None \<Rightarrow> False | Some k \<Rightarrow> \<not> kx_done k)"

definition ssh_packet_need_rekeying :: "('e, 'z) packet_env \<Rightarrow> ('e, 'z) ssh \<Rightarrow> nat \<Rightarrow> bool option" where
  "ssh_packet_need_rekeying E s outbound_packet_len =
     (if \<not> ss_after_authentication s then Some False
      else if sh_kex s = None \<or> ssh_packet_is_rekeying s then Some False
      else if sh_compat s AND SSH_BUG_NOREKEY \<noteq> 0 then Some False
      else if ps_packets (ss_p_send s) = 0 \<and> ps_packets (ss_p_read s) = 0 then Some False
      else if ss_rekey_interval s \<noteq> 0 \<and> ss_rekey_time s + int (unat (ss_rekey_interval s)) \<le> pe_now E then Some True
      else if ps_packets (ss_p_send s) > MAX_PACKETS \<or> ps_packets (ss_p_read s) > MAX_PACKETS then Some True
      else
        (case ss_newkeys_out s of None \<Rightarrow> None | Some nk \<Rightarrow>
         case nk_enc nk of None \<Rightarrow> None | Some enc \<Rightarrow>
         let out_blocks = of_nat (roundup outbound_packet_len (e_block_size enc))
         in Some ((ss_max_blocks_out s \<noteq> 0 \<and> ps_blocks (ss_p_send s) + out_blocks > ss_max_blocks_out s) \<or>
                  (ss_max_blocks_in s \<noteq> 0 \<and> ps_blocks (ss_p_read s) > ss_max_blocks_in s))))"

definition enable_delayed :: "('e, 'z) packet_env \<Rightarrow> kex_mode \<Rightarrow> ('e, 'z) ssh \<Rightarrow> ('e, 'z) ssh res" where
  "enable_delayed E mode s =
     (case newkeys_of mode s of None \<Rightarrow> Some (None, s)
      | Some nk \<Rightarrow> enable_compression E mode (\<lambda>t. t = COMP_DELAYED) nk s)"

definition ssh_packet_enable_delayed_compress :: "('e, 'z) packet_env \<Rightarrow> ('e, 'z) ssh \<Rightarrow> ('e, 'z) ssh res" where
  "ssh_packet_enable_delayed_compress E s =
     then_ok (enable_delayed E MODE_IN (s\<lparr>ss_after_authentication := True\<rparr>)) (enable_delayed E MODE_OUT)"

section \<open>Sending\<close>

text \<open>What the keys of a direction mean for the format of a packet: \<open>enc\<close>, \<open>mac\<close>, \<open>comp\<close> and the sizes that both
  \<open>ssh_packet_send2_wrapped\<close> and \<open>ssh_packet_read_poll2\<close> compute first.\<close>

record framing =
  fr_enc :: "sshenc option"
  fr_mac :: "sshmac option"
  fr_comp :: bool
  fr_block_size :: nat
  fr_authlen :: nat
  fr_aadlen :: nat

definition enabled_mac :: "sshmac option \<Rightarrow> sshmac option" where
  "enabled_mac mac = (case mac of None \<Rightarrow> None | Some m \<Rightarrow> if m_enabled m then Some m else None)"

definition framing_of :: "newkeys option \<Rightarrow> framing option" where
  "framing_of keys =
     (case keys of
        None \<Rightarrow> Some \<lparr>fr_enc = None, fr_mac = None, fr_comp = False, fr_block_size = 8, fr_authlen = 0, fr_aadlen = 0\<rparr>
      | Some nk \<Rightarrow>
          (case nk_enc nk of None \<Rightarrow> None | Some enc \<Rightarrow>
           let authlen = cipher_authlen (e_cipher enc);
               mac = (if authlen \<noteq> 0 then None else Some (nk_mac nk))
           in Some \<lparr>fr_enc = Some enc, fr_mac = mac, fr_comp = nk_comp_enabled nk, fr_block_size = e_block_size enc,
                fr_authlen = authlen,
                fr_aadlen = (if (case enabled_mac mac of None \<Rightarrow> False | Some m \<Rightarrow> m_etm m) \<or> authlen \<noteq> 0 then 4 else 0)\<rparr>))"

abbreviation fr_macon :: "framing \<Rightarrow> sshmac option" where "fr_macon f \<equiv> enabled_mac (fr_mac f)"

definition mac_etm :: "framing \<Rightarrow> bool" where
  "mac_etm f = (case fr_macon f of None \<Rightarrow> False | Some m \<Rightarrow> m_etm m)"

definition send_compress :: "('e, 'z) packet_env \<Rightarrow> framing \<Rightarrow> ('e, 'z) ssh \<Rightarrow> ('e, 'z) ssh res" where
  "send_compress E f s =
     (if \<not> fr_comp f then Some (None, s)
      else
        then_ok (on_outgoing (sshbuf_consume (ss_outgoing_packet s) 5) s) (\<lambda>s.
        case ss_compression_buffer s of None \<Rightarrow> None | Some cb \<Rightarrow>
        then_ok (case compress_buffer E (ss_outgoing_packet s) (sshbuf_reset (pe_alloc E) cb) (ss_compression_out s) of
            None \<Rightarrow> None
          | Some (r, cb, c) \<Rightarrow> Some (r, s\<lparr>ss_compression_buffer := Some cb, ss_compression_out := c\<rparr>)) (\<lambda>s.
        case ss_compression_buffer s of None \<Rightarrow> None | Some cb \<Rightarrow>
        then_ok (on_outgoing (sshbuf_put (pe_alloc E) (sshbuf_reset (pe_alloc E) (ss_outgoing_packet s)) [0, 0, 0, 0, 0]) s) (\<lambda>s.
        on_outgoing (sshbuf_putb (pe_alloc E) (ss_outgoing_packet s) cb) s))))"

text \<open>The length of the padding is an unsigned byte, and so are \<open>extra_pad\<close> and \<open>pad\<close>; \<open>len\<close> is without the bytes
  that are not encrypted.  \<open>extra_pad\<close> rounded up can wrap to 0.\<close>

definition base_padlen :: "nat \<Rightarrow> nat \<Rightarrow> byte" where
  "base_padlen block_size len =
     (let padlen = of_nat (block_size - len mod block_size)
      in if padlen < 4 then padlen + of_nat block_size else padlen)"

definition send_padlen :: "nat \<Rightarrow> nat \<Rightarrow> byte \<Rightarrow> byte option" where
  "send_padlen block_size len extra_pad =
     (let padlen = base_padlen block_size len
      in if extra_pad = 0 then Some padlen
         else let extra_pad = (of_nat (roundup (unat extra_pad) block_size) :: byte)
              in if extra_pad = 0 then None
                 else Some (padlen + (extra_pad - of_nat ((len + unat padlen) mod unat extra_pad))))"

definition padding_bytes :: "('e, 'z) packet_env \<Rightarrow> framing \<Rightarrow> ('e, 'z) ssh \<Rightarrow> nat \<Rightarrow> byte list" where
  "padding_bytes E f s n =
     (if fr_enc f \<noteq> None \<and> \<not> cc_plaintext (ss_send_context s) then map (pe_random E (ps_seqnr (ss_p_send s))) [0..<n]
      else replicate n 0)"

definition send_pad :: "('e, 'z) packet_env \<Rightarrow> framing \<Rightarrow> ('e, 'z) ssh \<Rightarrow> ('e, 'z) ssh res" where
  "send_pad E f s =
     (case send_padlen (fr_block_size f) (sshbuf_len (ss_outgoing_packet s) - fr_aadlen f) (ss_extra_pad s) of
        None \<Rightarrow> None
      | Some padlen \<Rightarrow>
          let s = s\<lparr>ss_extra_pad := 0\<rparr>
          in case sshbuf_reserve (pe_alloc E) (ss_outgoing_packet s) (unat padlen) of
               (Inl r, b) \<Rightarrow> Some (Some r, s\<lparr>ss_outgoing_packet := b\<rparr>)
             | (Inr cp, b) \<Rightarrow>
                 let b = buf_poke cp (padding_bytes E f s (unat padlen)) b;
                     len = sshbuf_len b
                 in (case sshbuf_mutable_ptr b of
                       None \<Rightarrow> Some (Some SSH_ERR_INTERNAL_ERROR, s\<lparr>ss_outgoing_packet := b\<rparr>)
                     | Some (_, cp) \<Rightarrow>
                         Some (None, s\<lparr>ss_outgoing_packet := buf_poke cp (poke_u32 (of_nat (len - 4)) @ [padlen]) b\<rparr>)))"

text \<open>The MAC of the packet in the clear is computed before the encryption, the MAC of the encrypted packet after
  it; \<open>macbuf\<close> holds either.\<close>

definition plain_mac :: "('e, 'z) packet_env \<Rightarrow> framing \<Rightarrow> 32 word \<Rightarrow> byte list \<Rightarrow> ssh_err + byte list" where
  "plain_mac E f seqnr data =
     (case fr_macon f of None \<Rightarrow> Inr [] | Some m \<Rightarrow> if m_etm m then Inr [] else mac_compute (pe_crypto E) m seqnr data)"

definition send_mac :: "('e, 'z) packet_env \<Rightarrow> framing \<Rightarrow> byte list \<Rightarrow> byte list \<Rightarrow> ('e, 'z) ssh \<Rightarrow> ('e, 'z) ssh res" where
  "send_mac E f macbuf encrypted s =
     (case fr_macon f of None \<Rightarrow> Some (None, s) | Some m \<Rightarrow>
      case (if m_etm m then mac_compute (pe_crypto E) m (ps_seqnr (ss_p_send s)) encrypted else Inr macbuf) of
        Inl r \<Rightarrow> Some (Some r, s)
      | Inr macbuf \<Rightarrow> on_output (sshbuf_put (pe_alloc E) (ss_output s) (take (m_mac_len m) macbuf)) s)"

definition send_encrypt :: "('e, 'z) packet_env \<Rightarrow> framing \<Rightarrow> ('e, 'z) ssh \<Rightarrow> ('e, 'z) ssh res" where
  "send_encrypt E f s =
     (let len = sshbuf_len (ss_outgoing_packet s);
          seqnr = ps_seqnr (ss_p_send s)
      in case plain_mac E f seqnr (ptr_bytes (ss_outgoing_packet s)) of
           Inl r \<Rightarrow> Some (Some r, s)
         | Inr macbuf \<Rightarrow>
             (case sshbuf_reserve (pe_alloc E) (ss_output s) (len + fr_authlen f) of
                (Inl r, b) \<Rightarrow> Some (Some r, s\<lparr>ss_output := b\<rparr>)
              | (Inr cp, b) \<Rightarrow>
                  (case cipher_crypt (pe_crypto E) (ss_send_context s) seqnr (ptr_bytes (ss_outgoing_packet s))
                          (len - fr_aadlen f) (fr_aadlen f) (fr_authlen f) of
                     Inl r \<Rightarrow> Some (Some r, s\<lparr>ss_output := b\<rparr>)
                   | Inr (out, cc) \<Rightarrow>
                       send_mac E f macbuf (take len out) (s\<lparr>ss_send_context := cc, ss_output := buf_poke cp out b\<rparr>))))"

text \<open>Counting, and what follows after a message that changes the keys or the compression; \<open>len\<close> is the length of
  the packet.\<close>

definition count_packet :: "nat \<Rightarrow> nat \<Rightarrow> packet_state \<Rightarrow> packet_state" where
  "count_packet len block_size p =
     p\<lparr>ps_blocks := ps_blocks p + of_nat (len div block_size), ps_bytes := ps_bytes p + of_nat len\<rparr>"

definition next_packet :: "packet_state \<Rightarrow> packet_state" where
  "next_packet p = p\<lparr>ps_seqnr := ps_seqnr p + 1, ps_packets := ps_packets p + 1\<rparr>"

definition send_done :: "('e, 'z) packet_env \<Rightarrow> framing \<Rightarrow> byte \<Rightarrow> ('e, 'z) ssh \<Rightarrow> ('e, 'z) ssh res" where
  "send_done E f type s =
     (let len = sshbuf_len (ss_outgoing_packet s);
          s = s\<lparr>ss_p_send := next_packet (ss_p_send s)\<rparr>
      in if ps_packets (ss_p_send s) = 0 \<and> sh_compat s AND SSH_BUG_NOREKEY = 0 then Some (Some SSH_ERR_NEED_REKEY, s)
         else
           let s = s\<lparr>ss_p_send := count_packet len (fr_block_size f) (ss_p_send s),
                     ss_outgoing_packet := sshbuf_reset (pe_alloc E) (ss_outgoing_packet s)\<rparr>
           in if type = SSH2_MSG_NEWKEYS then ssh_set_newkeys E MODE_OUT s
              else if type = SSH2_MSG_USERAUTH_SUCCESS \<and> ss_server_side s then ssh_packet_enable_delayed_compress E s
              else Some (None, s))"

text \<open>The type of the packet, the byte behind the length fields.\<close>

definition packet_type :: "sshbuf \<Rightarrow> byte option" where
  "packet_type b = (if length (ptr_bytes b) > 5 then Some (ptr_bytes b ! 5) else None)"

definition ssh_packet_send2_wrapped :: "('e, 'z) packet_env \<Rightarrow> ('e, 'z) ssh \<Rightarrow> ('e, 'z) ssh res" where
  "ssh_packet_send2_wrapped E s =
     (case framing_of (ss_newkeys_out s) of None \<Rightarrow> None | Some f \<Rightarrow>
      case packet_type (ss_outgoing_packet s) of None \<Rightarrow> None | Some type \<Rightarrow>
      then_ok (send_compress E f s) (\<lambda>s. then_ok (send_pad E f s) (\<lambda>s.
      then_ok (send_encrypt E f s) (send_done E f type))))"

definition ssh_packet_type_is_kex :: "byte \<Rightarrow> bool" where
  "ssh_packet_type_is_kex type \<longleftrightarrow>
     type \<ge> SSH2_MSG_TRANSPORT_MIN \<and> type \<le> SSH2_MSG_TRANSPORT_MAX \<and> type \<noteq> SSH2_MSG_SERVICE_REQUEST \<and>
     type \<noteq> SSH2_MSG_SERVICE_ACCEPT \<and> type \<noteq> SSH2_MSG_EXT_INFO"

text \<open>The queue after a message that installs new keys.  \<open>rekex\<close> is \<open>kex_start_rekex\<close>, which calls back.\<close>

fun send_queue ::
  "('e, 'z) packet_env \<Rightarrow> (('e, 'z) ssh \<Rightarrow> ('e, 'z) ssh res) \<Rightarrow> packet list \<Rightarrow> ('e, 'z) ssh \<Rightarrow> ('e, 'z) ssh res" where
  "send_queue E rekex [] s = Some (None, s)"
| "send_queue E rekex (p # ps) s =
     (case ssh_packet_need_rekeying E s (sshbuf_len (pk_payload p)) of
        None \<Rightarrow> None
      | Some True \<Rightarrow> rekex s
      | Some False \<Rightarrow>
          then_ok (ssh_packet_send2_wrapped E (s\<lparr>ss_outgoing_packet := pk_payload p, ss_outgoing := ps\<rparr>)) (send_queue E rekex ps))"

definition enqueue_packet :: "('e, 'z) packet_env \<Rightarrow> byte \<Rightarrow> ('e, 'z) ssh \<Rightarrow> ('e, 'z) ssh res" where
  "enqueue_packet E type s =
     (if \<not> ae_struct (pe_alloc E) then Some (Some SSH_ERR_ALLOC_FAIL, s)
      else
        let s = s\<lparr>ss_outgoing := ss_outgoing s @ [\<lparr>pk_type = type, pk_payload = ss_outgoing_packet s\<rparr>]\<rparr>
        in case sshbuf_new (pe_alloc E) of
             None \<Rightarrow> Some (Some SSH_ERR_ALLOC_FAIL, s)
           | Some b \<Rightarrow> Some (None, s\<lparr>ss_outgoing_packet := b\<rparr>))"

definition ssh_packet_send2_with ::
  "('e, 'z) packet_env \<Rightarrow> (('e, 'z) ssh \<Rightarrow> ('e, 'z) ssh res) \<Rightarrow> ('e, 'z) ssh \<Rightarrow> ('e, 'z) ssh res" where
  "ssh_packet_send2_with E rekex s =
     (if sshbuf_len (ss_outgoing_packet s) < 6 then Some (Some SSH_ERR_INTERNAL_ERROR, s)
      else
        case packet_type (ss_outgoing_packet s) of None \<Rightarrow> None | Some type \<Rightarrow>
        case (if ssh_packet_type_is_kex type then Some False
              else ssh_packet_need_rekeying E s (sshbuf_len (ss_outgoing_packet s))) of
          None \<Rightarrow> None
        | Some need_rekey \<Rightarrow>
            if (need_rekey \<or> ss_rekeying s) \<and> \<not> ssh_packet_type_is_kex type then
              then_ok (enqueue_packet E type s) (\<lambda>s. if need_rekey then rekex s else Some (None, s))
            else
              let s = (if type = SSH2_MSG_KEXINIT then s\<lparr>ss_rekeying := True\<rparr> else s)
              in then_ok (ssh_packet_send2_wrapped E s) (\<lambda>s.
                   if type = SSH2_MSG_NEWKEYS then
                     let s = s\<lparr>ss_rekeying := False, ss_rekey_time := pe_now E\<rparr>
                     in send_queue E rekex (ss_outgoing s) s
                   else Some (None, s)))"

section \<open>The interface for whole messages\<close>

definition sshpkt_put :: "('e, 'z) packet_env \<Rightarrow> byte list \<Rightarrow> ('e, 'z) ssh \<Rightarrow> ('e, 'z) ssh res" where
  "sshpkt_put E v s = on_outgoing (sshbuf_put (pe_alloc E) (ss_outgoing_packet s) v) s"

definition sshpkt_putb :: "('e, 'z) packet_env \<Rightarrow> sshbuf \<Rightarrow> ('e, 'z) ssh \<Rightarrow> ('e, 'z) ssh res" where
  "sshpkt_putb E b s = on_outgoing (sshbuf_putb (pe_alloc E) (ss_outgoing_packet s) b) s"

definition sshpkt_put_u8 :: "('e, 'z) packet_env \<Rightarrow> byte \<Rightarrow> ('e, 'z) ssh \<Rightarrow> ('e, 'z) ssh res" where
  "sshpkt_put_u8 E v s = on_outgoing (sshbuf_put_u8 (pe_alloc E) (ss_outgoing_packet s) v) s"

definition sshpkt_put_u32 :: "('e, 'z) packet_env \<Rightarrow> 32 word \<Rightarrow> ('e, 'z) ssh \<Rightarrow> ('e, 'z) ssh res" where
  "sshpkt_put_u32 E v s = on_outgoing (sshbuf_put_u32 (pe_alloc E) (ss_outgoing_packet s) v) s"

definition sshpkt_put_u64 :: "('e, 'z) packet_env \<Rightarrow> 64 word \<Rightarrow> ('e, 'z) ssh \<Rightarrow> ('e, 'z) ssh res" where
  "sshpkt_put_u64 E v s = on_outgoing (sshbuf_put_u64 (pe_alloc E) (ss_outgoing_packet s) v) s"

definition sshpkt_put_string :: "('e, 'z) packet_env \<Rightarrow> byte list \<Rightarrow> ('e, 'z) ssh \<Rightarrow> ('e, 'z) ssh res" where
  "sshpkt_put_string E v s = on_outgoing (sshbuf_put_string (pe_alloc E) (ss_outgoing_packet s) v) s"

definition sshpkt_put_cstring :: "('e, 'z) packet_env \<Rightarrow> byte list option \<Rightarrow> ('e, 'z) ssh \<Rightarrow> ('e, 'z) ssh res" where
  "sshpkt_put_cstring E v s = on_outgoing (sshbuf_put_cstring (pe_alloc E) (ss_outgoing_packet s) v) s"

definition sshpkt_put_stringb :: "('e, 'z) packet_env \<Rightarrow> sshbuf \<Rightarrow> ('e, 'z) ssh \<Rightarrow> ('e, 'z) ssh res" where
  "sshpkt_put_stringb E b s = on_outgoing (sshbuf_put_stringb (pe_alloc E) (ss_outgoing_packet s) b) s"

text \<open>The functions that fetch from the incoming packet.\<close>

definition get_incoming :: "(ssh_err + 'v) \<times> sshbuf \<Rightarrow> ('e, 'z) ssh \<Rightarrow> (ssh_err + 'v) \<times> ('e, 'z) ssh" where
  "get_incoming vb s = (fst vb, s\<lparr>ss_incoming_packet := snd vb\<rparr>)"

definition sshpkt_get :: "nat \<Rightarrow> ('e, 'z) ssh \<Rightarrow> (ssh_err + byte list) \<times> ('e, 'z) ssh" where
  "sshpkt_get n s = get_incoming (sshbuf_get (ss_incoming_packet s) n) s"

definition sshpkt_get_u8 :: "('e, 'z) ssh \<Rightarrow> (ssh_err + byte) \<times> ('e, 'z) ssh" where
  "sshpkt_get_u8 s = get_incoming (sshbuf_get_u8 (ss_incoming_packet s)) s"

definition sshpkt_get_u32 :: "('e, 'z) ssh \<Rightarrow> (ssh_err + 32 word) \<times> ('e, 'z) ssh" where
  "sshpkt_get_u32 s = get_incoming (sshbuf_get_u32 (ss_incoming_packet s)) s"

definition sshpkt_get_u64 :: "('e, 'z) ssh \<Rightarrow> (ssh_err + 64 word) \<times> ('e, 'z) ssh" where
  "sshpkt_get_u64 s = get_incoming (sshbuf_get_u64 (ss_incoming_packet s)) s"

definition sshpkt_get_string :: "('e, 'z) packet_env \<Rightarrow> ('e, 'z) ssh \<Rightarrow> (ssh_err + byte list) \<times> ('e, 'z) ssh" where
  "sshpkt_get_string E s = get_incoming (sshbuf_get_string (pe_alloc E) (ss_incoming_packet s)) s"

definition sshpkt_get_string_direct :: "('e, 'z) ssh \<Rightarrow> (ssh_err + byte list) \<times> ('e, 'z) ssh" where
  "sshpkt_get_string_direct s = get_incoming (sshbuf_get_string_direct (ss_incoming_packet s)) s"

definition sshpkt_get_cstring :: "('e, 'z) packet_env \<Rightarrow> ('e, 'z) ssh \<Rightarrow> (ssh_err + byte list) \<times> ('e, 'z) ssh" where
  "sshpkt_get_cstring E s = get_incoming (sshbuf_get_cstring (pe_alloc E) (ss_incoming_packet s)) s"

definition sshpkt_get_end :: "('e, 'z) ssh \<Rightarrow> rc" where
  "sshpkt_get_end s = (if sshbuf_len (ss_incoming_packet s) > 0 then Some SSH_ERR_UNEXPECTED_TRAILING_DATA else None)"

definition sshpkt_ptr :: "('e, 'z) ssh \<Rightarrow> byte list" where
  "sshpkt_ptr s = ptr_bytes (ss_incoming_packet s)"

definition sshpkt_start :: "('e, 'z) packet_env \<Rightarrow> byte \<Rightarrow> ('e, 'z) ssh \<Rightarrow> ('e, 'z) ssh res" where
  "sshpkt_start E type s =
     on_outgoing (sshbuf_put (pe_alloc E) (sshbuf_reset (pe_alloc E) (ss_outgoing_packet s)) [0, 0, 0, 0, 0, type]) s"

definition sshpkt_add_padding :: "byte \<Rightarrow> ('e, 'z) ssh \<Rightarrow> ('e, 'z) ssh" where
  "sshpkt_add_padding pad s = s\<lparr>ss_extra_pad := pad\<rparr>"

section \<open>Starting a key exchange\<close>

text \<open>A packet that belongs to the key exchange and does not end it never starts another one, so the function
  that would do so is not called.\<close>

definition no_rekex :: "('e, 'z) ssh \<Rightarrow> ('e, 'z) ssh res" where
  "no_rekex s = None"

definition with_kex :: "(kex \<Rightarrow> kex) \<Rightarrow> ('e, 'z) ssh \<Rightarrow> ('e, 'z) ssh" where
  "with_kex f s = s\<lparr>sh_kex := map_option f (sh_kex s)\<rparr>"

definition kex_send_kexinit :: "('e, 'z) packet_env \<Rightarrow> ('e, 'z) ssh \<Rightarrow> ('e, 'z) ssh res" where
  "kex_send_kexinit E s =
     (case sh_kex s of None \<Rightarrow> Some (Some SSH_ERR_INTERNAL_ERROR, s) | Some k \<Rightarrow>
      if kx_init_sent k then Some (None, s)
      else
        let k = k\<lparr>kx_done := False\<rparr>; s = s\<lparr>sh_kex := Some k\<rparr>
        in if sshbuf_len (kx_my k) < KEX_COOKIE_LEN then Some (Some SSH_ERR_INVALID_FORMAT, s)
           else case sshbuf_mutable_ptr (kx_my k) of None \<Rightarrow> Some (Some SSH_ERR_INTERNAL_ERROR, s) | Some (_, cookie) \<Rightarrow>
             let k = k\<lparr>kx_my := buf_poke cookie (map (pe_cookie E) [0..<KEX_COOKIE_LEN]) (kx_my k)\<rparr>;
                 s = s\<lparr>sh_kex := Some k\<rparr>
             in then_ok (sshpkt_start E SSH2_MSG_KEXINIT s) (\<lambda>s. then_ok (sshpkt_putb E (kx_my k) s) (\<lambda>s.
                  then_ok (ssh_packet_send2_with E no_rekex s) (\<lambda>s.
                  Some (None, with_kex (\<lambda>k. k\<lparr>kx_init_sent := True\<rparr>) s)))))"

definition kex_start_rekex :: "('e, 'z) packet_env \<Rightarrow> ('e, 'z) ssh \<Rightarrow> ('e, 'z) ssh res" where
  "kex_start_rekex E s =
     (case sh_kex s of None \<Rightarrow> Some (Some SSH_ERR_INTERNAL_ERROR, s) | Some k \<Rightarrow>
      if \<not> kx_done k then Some (Some SSH_ERR_INTERNAL_ERROR, s)
      else kex_send_kexinit E (s\<lparr>sh_kex := Some (k\<lparr>kx_done := False\<rparr>)\<rparr>))"

definition ssh_packet_send2 :: "('e, 'z) packet_env \<Rightarrow> ('e, 'z) ssh \<Rightarrow> ('e, 'z) ssh res" where
  "ssh_packet_send2 E s = ssh_packet_send2_with E (kex_start_rekex E) s"

definition sshpkt_send :: "('e, 'z) packet_env \<Rightarrow> ('e, 'z) ssh \<Rightarrow> ('e, 'z) ssh res" where
  "sshpkt_send E s = ssh_packet_send2 E s"

text \<open>The text as \<open>vsnprintf\<close> formats it, cut to the array of 1024 bytes.\<close>

definition sshpkt_disconnect :: "('e, 'z) packet_env \<Rightarrow> byte list \<Rightarrow> ('e, 'z) ssh \<Rightarrow> ('e, 'z) ssh res" where
  "sshpkt_disconnect E txt s =
     then_ok (sshpkt_start E SSH2_MSG_DISCONNECT s) (\<lambda>s.
     then_ok (sshpkt_put_u32 E SSH2_DISCONNECT_PROTOCOL_ERROR s) (\<lambda>s.
     then_ok (sshpkt_put_cstring E (Some (take 1023 txt)) s) (\<lambda>s.
     then_ok (sshpkt_put_cstring E (Some []) s) (sshpkt_send E))))"

section \<open>Writing to the connection\<close>

definition ssh_packet_write_poll :: "write_result \<Rightarrow> ('e, 'z) ssh \<Rightarrow> ('e, 'z) ssh res" where
  "ssh_packet_write_poll w s =
     (if sshbuf_len (ss_output s) > 0 then
        (case w of
           W_again \<Rightarrow> Some (None, s)
         | W_error \<Rightarrow> Some (Some SSH_ERR_SYSTEM_ERROR, s)
         | W_written n \<Rightarrow> if n = 0 then Some (Some SSH_ERR_CONN_CLOSED, s) else on_output (sshbuf_consume (ss_output s) n) s)
      else Some (None, s))"

definition ssh_packet_have_data_to_write :: "('e, 'z) ssh \<Rightarrow> bool" where
  "ssh_packet_have_data_to_write s \<longleftrightarrow> sshbuf_len (ss_output s) \<noteq> 0"

definition ssh_packet_not_very_much_data_to_write :: "('e, 'z) ssh \<Rightarrow> bool" where
  "ssh_packet_not_very_much_data_to_write s \<longleftrightarrow>
     sshbuf_len (ss_output s) < (if ss_interactive_mode s then 16384 else 128 * 1024)"

text \<open>Each round has the outcome of waiting (whether it timed out) and of the write; where the list ends, the
  function still waits.\<close>

fun write_wait_loop :: "(bool \<times> write_result) list \<Rightarrow> ('e, 'z) ssh \<Rightarrow> ('e, 'z) ssh res" where
  "write_wait_loop ws s =
     (if \<not> ssh_packet_have_data_to_write s then Some (None, s)
      else case ws of [] \<Rightarrow> None | (timeout, w) # ws \<Rightarrow>
        if timeout then Some (Some SSH_ERR_CONN_TIMEOUT, s)
        else then_ok (ssh_packet_write_poll w s) (write_wait_loop ws))"

declare write_wait_loop.simps [simp del]

definition ssh_packet_write_wait :: "('e, 'z) packet_env \<Rightarrow> ('e, 'z) ssh \<Rightarrow> ('e, 'z) ssh res" where
  "ssh_packet_write_wait E s =
     (if \<not> ae_struct (pe_alloc E) then Some (Some SSH_ERR_ALLOC_FAIL, s)
      else if \<not> ssh_packet_have_data_to_write s then Some (None, s)
      else case pe_writes E of [] \<Rightarrow> None | (_, w) # ws \<Rightarrow>
        then_ok (ssh_packet_write_poll w s) (write_wait_loop ws))"

section \<open>Discarding\<close>

definition fail_with :: "ssh_err \<Rightarrow> ('e, 'z) ssh \<Rightarrow> ('e, 'z) ssh res" where
  "fail_with r s = Some (Some r, s)"

text \<open>The loop that fills the packet with 1024 bytes at a time up to \<open>PACKET_MAX_SIZE\<close>.\<close>

partial_function (option) fill_incoming :: "alloc_env \<Rightarrow> sshbuf \<Rightarrow> (rc \<times> sshbuf) option" where
  "fill_incoming e b =
     (if sshbuf_len b < PACKET_MAX_SIZE then
        (case sshbuf_put e b (replicate 1024 0x61) of (r, b) \<Rightarrow> if r \<noteq> None then Some (r, b) else fill_incoming e b)
      else Some (None, b))"

declare fill_incoming.simps [code]

definition ssh_packet_stop_discard :: "('e, 'z) packet_env \<Rightarrow> ('e, 'z) ssh \<Rightarrow> ('e, 'z) ssh res" where
  "ssh_packet_stop_discard E s =
     then_ok (if ss_packet_discard_mac s \<noteq> None
         then map_option (map_prod id (\<lambda>b. s\<lparr>ss_incoming_packet := b\<rparr>)) (fill_incoming (pe_alloc E) (ss_incoming_packet s))
         else Some (None, s)) (fail_with SSH_ERR_MAC_INVALID)"

definition ssh_packet_start_discard ::
  "('e, 'z) packet_env \<Rightarrow> framing \<Rightarrow> 32 word \<Rightarrow> nat \<Rightarrow> ('e, 'z) ssh \<Rightarrow> ('e, 'z) ssh res" where
  "ssh_packet_start_discard E f packet_length discard s =
     (if (case fr_enc f of None \<Rightarrow> True | Some enc \<Rightarrow> \<not> cipher_is_cbc (e_cipher enc)) \<or>
         (case fr_mac f of None \<Rightarrow> False | Some m \<Rightarrow> m_etm m)
      then then_ok (sshpkt_disconnect E (bytes_of ''Packet corrupt'') s) (fail_with SSH_ERR_MAC_INVALID)
      else
        let s = (if unat packet_length \<noteq> PACKET_MAX_SIZE \<and> fr_macon f \<noteq> None
                 then s\<lparr>ss_packet_discard_mac := fr_mac f\<rparr> else s)
        in then_ok (if sshbuf_len (ss_input s) \<ge> discard then ssh_packet_stop_discard E s else Some (None, s))
             (\<lambda>s. Some (None, s\<lparr>ss_packet_discard := of_nat discard - of_nat (sshbuf_len (ss_input s))\<rparr>)))"

section \<open>Receiving\<close>

text \<open>The result of a step that may already return from \<open>ssh_packet_read_poll2\<close>: \<^term>\<open>Inl\<close> is the return, with the
  code, \<^term>\<open>Inr\<close> goes on.\<close>

type_synonym 's step = "((rc \<times> 's) + 's) option"

definition stop_here :: "'s res \<Rightarrow> 's step" where
  "stop_here m = map_option Inl m"

definition go_on :: "'s res \<Rightarrow> 's step" where
  "go_on m = (case m of None \<Rightarrow> None | Some (Some r, s) \<Rightarrow> Some (Inl (Some r, s)) | Some (None, s) \<Rightarrow> Some (Inr s))"

definition bind_step :: "'s step \<Rightarrow> ('s \<Rightarrow> 's step) \<Rightarrow> 's step" where
  "bind_step m k = (case m of None \<Rightarrow> None | Some (Inl x) \<Rightarrow> Some (Inl x) | Some (Inr s) \<Rightarrow> k s)"

lemma step_simps [simp]:
  "stop_here (Some x) = Some (Inl x)" "stop_here None = None"
  "go_on None = None" "go_on (Some (Some r, s)) = Some (Inl (Some r, s))" "go_on (Some (None, s)) = Some (Inr s)"
  "bind_step None k = None" "bind_step (Some (Inl x)) k = Some (Inl x)" "bind_step (Some (Inr s)) k = k s"
  by (simp_all add: stop_here_def go_on_def bind_step_def)

definition bad_length :: "32 word \<Rightarrow> bool" where
  "bad_length n \<longleftrightarrow> n < 1 + 4 \<or> unat n > PACKET_MAX_SIZE"

text \<open>The length of the next packet, unless it is known from an earlier call.\<close>

definition read_length_aad :: "('e, 'z) packet_env \<Rightarrow> ('e, 'z) ssh \<Rightarrow> ('e, 'z) ssh step" where
  "read_length_aad E s =
     (case cipher_get_length (pe_crypto E) (ss_receive_context s) (ps_seqnr (ss_p_read s)) (ptr_bytes (ss_input s)) of
        Inl _ \<Rightarrow> Some (Inl (None, s))
      | Inr n \<Rightarrow>
          let s = s\<lparr>ss_packlen := n\<rparr>
          in if bad_length n then
               stop_here (then_ok (sshpkt_disconnect E (bytes_of ''Packet corrupt'') s) (fail_with SSH_ERR_CONN_CORRUPT))
             else Some (Inr (s\<lparr>ss_incoming_packet := sshbuf_reset (pe_alloc E) (ss_incoming_packet s)\<rparr>)))"

definition read_first_block :: "('e, 'z) packet_env \<Rightarrow> framing \<Rightarrow> ('e, 'z) ssh \<Rightarrow> ('e, 'z) ssh step" where
  "read_first_block E f s =
     (if sshbuf_len (ss_input s) < fr_block_size f then Some (Inl (None, s))
      else
        case sshbuf_reserve (pe_alloc E) (sshbuf_reset (pe_alloc E) (ss_incoming_packet s)) (fr_block_size f) of
          (Inl r, b) \<Rightarrow> Some (Inl (Some r, s\<lparr>ss_incoming_packet := b\<rparr>))
        | (Inr cp, b) \<Rightarrow>
            (case cipher_crypt (pe_crypto E) (ss_receive_context s) (ps_seqnr (ss_p_send s)) (ptr_bytes (ss_input s))
                    (fr_block_size f) 0 0 of
               Inl r \<Rightarrow> Some (Inl (Some r, s\<lparr>ss_incoming_packet := b\<rparr>))
             | Inr (out, cc) \<Rightarrow>
                 let b = buf_poke cp out b;
                     n = peek_u32 (ptr_bytes b);
                     s = s\<lparr>ss_packlen := n, ss_receive_context := cc, ss_incoming_packet := b\<rparr>
                 in if bad_length n then stop_here (ssh_packet_start_discard E f n PACKET_MAX_SIZE s)
                    else go_on (on_input (sshbuf_consume (ss_input s) (fr_block_size f)) s)))"

definition read_length :: "('e, 'z) packet_env \<Rightarrow> framing \<Rightarrow> ('e, 'z) ssh \<Rightarrow> ('e, 'z) ssh step" where
  "read_length E f s =
     (if fr_aadlen f \<noteq> 0 \<and> ss_packlen s = 0 then read_length_aad E s
      else if ss_packlen s = 0 then read_first_block E f s
      else Some (Inr s))"

text \<open>The bytes that are still to be decrypted, an unsigned int.\<close>

definition read_need :: "framing \<Rightarrow> 32 word \<Rightarrow> 32 word" where
  "read_need f packlen = (if fr_aadlen f \<noteq> 0 then packlen else 4 + packlen - of_nat (fr_block_size f))"

definition etm_mac :: "('e, 'z) packet_env \<Rightarrow> framing \<Rightarrow> 32 word \<Rightarrow> byte list \<Rightarrow> ssh_err + byte list" where
  "etm_mac E f seqnr data =
     (case fr_macon f of None \<Rightarrow> Inr [] | Some m \<Rightarrow> if m_etm m then mac_compute (pe_crypto E) m seqnr data else Inr [])"

definition read_decrypt :: "('e, 'z) packet_env \<Rightarrow> framing \<Rightarrow> nat \<Rightarrow> ('e, 'z) ssh \<Rightarrow> ('e, 'z) ssh res" where
  "read_decrypt E f need s =
     (case sshbuf_reserve (pe_alloc E) (ss_incoming_packet s) (fr_aadlen f + need) of
        (Inl r, b) \<Rightarrow> Some (Some r, s\<lparr>ss_incoming_packet := b\<rparr>)
      | (Inr cp, b) \<Rightarrow>
          (case cipher_crypt (pe_crypto E) (ss_receive_context s) (ps_seqnr (ss_p_read s)) (ptr_bytes (ss_input s))
                  need (fr_aadlen f) (fr_authlen f) of
             Inl r \<Rightarrow> Some (Some r, s\<lparr>ss_incoming_packet := b\<rparr>)
           | Inr (out, cc) \<Rightarrow>
               let s = s\<lparr>ss_receive_context := cc, ss_incoming_packet := buf_poke cp out b\<rparr>
               in on_input (sshbuf_consume (ss_input s) (fr_aadlen f + need + fr_authlen f)) s))"

definition read_verify :: "('e, 'z) packet_env \<Rightarrow> framing \<Rightarrow> nat \<Rightarrow> byte list \<Rightarrow> ('e, 'z) ssh \<Rightarrow> ('e, 'z) ssh step" where
  "read_verify E f need macbuf s =
     (case fr_macon f of None \<Rightarrow> Some (Inr s) | Some m \<Rightarrow>
      case (if m_etm m then Inr macbuf
            else mac_compute (pe_crypto E) m (ps_seqnr (ss_p_read s)) (ptr_bytes (ss_incoming_packet s))) of
        Inl r \<Rightarrow> Some (Inl (Some r, s))
      | Inr macbuf \<Rightarrow>
          if take (m_mac_len m) macbuf \<noteq> take (m_mac_len m) (ptr_bytes (ss_input s)) then
            (if need > PACKET_MAX_SIZE then Some (Inl (Some SSH_ERR_INTERNAL_ERROR, s))
             else stop_here (ssh_packet_start_discard E f (ss_packlen s) (PACKET_MAX_SIZE - need) s))
          else go_on (on_input (sshbuf_consume (ss_input s) (m_mac_len m)) s))"

text \<open>From the length on: wait for the whole packet, decrypt and verify it.\<close>

definition read_packet :: "('e, 'z) packet_env \<Rightarrow> framing \<Rightarrow> ('e, 'z) ssh \<Rightarrow> ('e, 'z) ssh step" where
  "read_packet E f s =
     (let need = unat (read_need f (ss_packlen s));
          maclen = (case fr_macon f of None \<Rightarrow> 0 | Some m \<Rightarrow> m_mac_len m)
      in if need mod fr_block_size f \<noteq> 0 then
           stop_here (ssh_packet_start_discard E f (ss_packlen s) (PACKET_MAX_SIZE - fr_block_size f) s)
         else if sshbuf_len (ss_input s) < fr_aadlen f + need + fr_authlen f + maclen then Some (Inl (None, s))
         else
           case etm_mac E f (ps_seqnr (ss_p_read s)) (take (fr_aadlen f + need) (ptr_bytes (ss_input s))) of
             Inl r \<Rightarrow> Some (Inl (Some r, s))
           | Inr macbuf \<Rightarrow> bind_step (go_on (read_decrypt E f need s)) (read_verify E f need macbuf))"

text \<open>\<^verbatim>\<open>sshpkt_disconnect\<close> with a text, \<^verbatim>\<open>ssh_packet_write_wait\<close>, and then the error.\<close>

definition disconnect_with :: "('e, 'z) packet_env \<Rightarrow> string \<Rightarrow> ssh_err \<Rightarrow> ('e, 'z) ssh \<Rightarrow> ('e, 'z) ssh res" where
  "disconnect_with E txt r s =
     then_ok (sshpkt_disconnect E (bytes_of txt) s) (\<lambda>s. then_ok (ssh_packet_write_wait E s) (fail_with r))"

text \<open>Decimal digits, as \<open>vsnprintf\<close> prints a byte.\<close>

definition digit_char :: "nat \<Rightarrow> char" where
  "digit_char n = char_of (48 + n)"

definition show_byte :: "byte \<Rightarrow> string" where
  "show_byte w =
     (let n = unat w
      in (if n \<ge> 100 then [digit_char (n div 100)] else []) @ (if n \<ge> 10 then [digit_char (n div 10 mod 10)] else []) @
         [digit_char (n mod 10)])"

definition read_count :: "framing \<Rightarrow> ('e, 'z) ssh \<Rightarrow> ('e, 'z) ssh res" where
  "read_count f s =
     (let s = s\<lparr>ss_p_read := next_packet (ss_p_read s)\<rparr>
      in if ps_packets (ss_p_read s) = 0 \<and> sh_compat s AND SSH_BUG_NOREKEY = 0 then Some (Some SSH_ERR_NEED_REKEY, s)
         else Some (None, s\<lparr>ss_p_read := count_packet (unat (ss_packlen s) + 4) (fr_block_size f) (ss_p_read s)\<rparr>))"

definition read_unpad :: "('e, 'z) packet_env \<Rightarrow> ('e, 'z) ssh \<Rightarrow> ('e, 'z) ssh res" where
  "read_unpad E s =
     (if length (ptr_bytes (ss_incoming_packet s)) \<le> 4 then None
      else
        let padlen = ptr_bytes (ss_incoming_packet s) ! 4
        in if padlen < 4 then disconnect_with E (''Corrupted padlen '' @ show_byte padlen @ '' on input.'') SSH_ERR_CONN_CORRUPT s
           else then_ok (on_incoming (sshbuf_consume (ss_incoming_packet s) (4 + 1)) s) (\<lambda>s.
             on_incoming (sshbuf_consume_end (ss_incoming_packet s) (unat padlen)) s))"

definition read_uncompress :: "('e, 'z) packet_env \<Rightarrow> framing \<Rightarrow> ('e, 'z) ssh \<Rightarrow> ('e, 'z) ssh res" where
  "read_uncompress E f s =
     (if \<not> fr_comp f then Some (None, s)
      else
        case ss_compression_buffer s of None \<Rightarrow> None | Some cb \<Rightarrow>
        then_ok (case uncompress_buffer E (ss_incoming_packet s) (sshbuf_reset (pe_alloc E) cb) (ss_compression_in s) of
            None \<Rightarrow> None
          | Some (r, cb, c) \<Rightarrow> Some (r, s\<lparr>ss_compression_buffer := Some cb, ss_compression_in := c\<rparr>)) (\<lambda>s.
        case ss_compression_buffer s of None \<Rightarrow> None | Some cb \<Rightarrow>
        on_incoming (sshbuf_putb (pe_alloc E) (sshbuf_reset (pe_alloc E) (ss_incoming_packet s)) cb) s))"

text \<open>The last part, with the type of the packet: an error of \<open>ssh_set_newkeys\<close> is kept in \<open>r\<close>, but a key exchange that
  starts replaces it.\<close>

definition read_finish :: "('e, 'z) packet_env \<Rightarrow> byte \<Rightarrow> ('e, 'z) ssh \<Rightarrow> ('e, 'z) ssh res" where
  "read_finish E type s =
     (if type < SSH2_MSG_MIN \<or> type \<ge> SSH2_MSG_LOCAL_MIN then
        disconnect_with E (''Invalid ssh2 packet type: '' @ show_byte type) SSH_ERR_PROTOCOL_ERROR s
      else
        case (if type = SSH2_MSG_NEWKEYS then ssh_set_newkeys E MODE_IN s
              else if type = SSH2_MSG_USERAUTH_SUCCESS \<and> \<not> ss_server_side s then ssh_packet_enable_delayed_compress E s
              else Some (None, s)) of
          None \<Rightarrow> None
        | Some (r, s) \<Rightarrow>
            let s = s\<lparr>ss_packlen := 0\<rparr>
            in (case ssh_packet_need_rekeying E s 0 of
                  None \<Rightarrow> None
                | Some True \<Rightarrow> kex_start_rekex E s
                | Some False \<Rightarrow> Some (r, s)))"

text \<open>The result has the code, the type (\<open>*typep\<close>), the sequence number if it was stored (\<open>*seqnr_p\<close>) and the state.\<close>

type_synonym ('e, 'z) read_res = "(rc \<times> byte \<times> 32 word option \<times> ('e, 'z) ssh) option"

definition read_result :: "byte \<Rightarrow> 32 word option \<Rightarrow> ('e, 'z) ssh res \<Rightarrow> ('e, 'z) read_res" where
  "read_result type seqnr m = map_option (\<lambda>(r, s). (r, type, seqnr, s)) m"

definition read_payload :: "('e, 'z) packet_env \<Rightarrow> framing \<Rightarrow> ('e, 'z) ssh \<Rightarrow> ('e, 'z) read_res" where
  "read_payload E f s =
     (let seqnr = Some (ps_seqnr (ss_p_read s))
      in case then_ok (read_count f s) (\<lambda>s. then_ok (read_unpad E s) (read_uncompress E f)) of
           None \<Rightarrow> None
         | Some (Some r, s) \<Rightarrow> Some (Some r, SSH_MSG_NONE, seqnr, s)
         | Some (None, s) \<Rightarrow>
             (case sshbuf_get_u8 (ss_incoming_packet s) of
                (Inl r, b) \<Rightarrow> Some (Some r, SSH_MSG_NONE, seqnr, s\<lparr>ss_incoming_packet := b\<rparr>)
              | (Inr type, b) \<Rightarrow> read_result type seqnr (read_finish E type (s\<lparr>ss_incoming_packet := b\<rparr>))))"

definition ssh_packet_read_poll2 :: "('e, 'z) packet_env \<Rightarrow> ('e, 'z) ssh \<Rightarrow> ('e, 'z) read_res" where
  "ssh_packet_read_poll2 E s =
     (if ss_packet_discard s \<noteq> 0 then Some (None, SSH_MSG_NONE, None, s)
      else
        case framing_of (ss_newkeys_in s) of None \<Rightarrow> None | Some f \<Rightarrow>
        case bind_step (read_length E f s) (read_packet E f) of
          None \<Rightarrow> None
        | Some (Inl (r, s)) \<Rightarrow> Some (r, SSH_MSG_NONE, None, s)
        | Some (Inr s) \<Rightarrow> read_payload E f s)"

text \<open>The body of the loop of \<open>ssh_packet_read_poll_seqnr\<close> after a packet: messages that the transport handles itself
  (\<^term>\<open>None\<close>: go on), or the code to return.\<close>

definition get_seq :: "((ssh_err + 'v) \<times> 's) \<Rightarrow> ('s \<Rightarrow> rc option \<times> 's) \<Rightarrow> rc option \<times> 's" where
  "get_seq m k = (case m of (Inl r, s) \<Rightarrow> (Some (Some r), s) | (Inr _, s) \<Rightarrow> k s)"

definition transport_message :: "('e, 'z) packet_env \<Rightarrow> byte \<Rightarrow> ('e, 'z) ssh \<Rightarrow> rc option \<times> ('e, 'z) ssh" where
  "transport_message E type s =
     (if type = SSH2_MSG_IGNORE then (None, s)
      else if type = SSH2_MSG_DEBUG then
        get_seq (sshpkt_get_u8 s) (\<lambda>s. get_seq (sshpkt_get_string E s) (\<lambda>s. get_seq (sshpkt_get_string E s) (\<lambda>s. (None, s))))
      else if type = SSH2_MSG_DISCONNECT then
        get_seq (sshpkt_get_u32 s) (\<lambda>s. get_seq (sshpkt_get_string E s) (\<lambda>s. (Some (Some SSH_ERR_DISCONNECTED), s)))
      else if type = SSH2_MSG_UNIMPLEMENTED then get_seq (sshpkt_get_u32 s) (\<lambda>s. (None, s))
      else (Some None, s))"

partial_function (option) ssh_packet_read_poll_seqnr ::
  "('e, 'z) packet_env \<Rightarrow> ('e, 'z) ssh \<Rightarrow> (rc \<times> byte \<times> 32 word option \<times> ('e, 'z) ssh) option" where
  "ssh_packet_read_poll_seqnr E s =
     Option.bind (ssh_packet_read_poll2 E s) (\<lambda>(r, type, seqnr, s).
       if r \<noteq> None then Some (r, type, seqnr, s)
       else
         let s = (if type \<noteq> SSH_MSG_NONE then s\<lparr>ss_keep_alive_timeouts := 0\<rparr> else s)
         in case transport_message E type s of (x, s) \<Rightarrow>
              (case x of Some r \<Rightarrow> Some (r, type, seqnr, s) | None \<Rightarrow> ssh_packet_read_poll_seqnr E s))"

declare ssh_packet_read_poll_seqnr.simps [code]

definition ssh_packet_process_incoming :: "('e, 'z) packet_env \<Rightarrow> byte list \<Rightarrow> ('e, 'z) ssh \<Rightarrow> ('e, 'z) ssh res" where
  "ssh_packet_process_incoming E buf s =
     (if ss_packet_discard s \<noteq> 0 then
        let s = s\<lparr>ss_keep_alive_timeouts := 0\<rparr>
        in then_ok (if length buf \<ge> unat (ss_packet_discard s) then ssh_packet_stop_discard E s else Some (None, s))
             (\<lambda>s. Some (None, s\<lparr>ss_packet_discard := ss_packet_discard s - of_nat (length buf)\<rparr>))
      else on_input (sshbuf_put (pe_alloc E) (ss_input s) buf) s)"

end
