(* ===== verification/Transport.thy ===== *)
theory Transport
  imports Packet
begin

unbundle bit_operations_syntax

text \<open>
  What the transport of \<open>Packet\<close> guarantees: the padding, the round trip of packets between two ends whose keys
  agree, however the bytes are split on the way, the change of keys, the order of packets around a key
  exchange, and that nothing is delivered whose MAC is wrong.
\<close>

section \<open>Buffers of the transport\<close>

text \<open>A buffer that can be written, with the limit of a new buffer and these bytes.\<close>

definition holds :: "alloc_env \<Rightarrow> sshbuf \<Rightarrow> byte list \<Rightarrow> bool" where
  "holds e b bs \<longleftrightarrow> buf_ready e b \<and> sb_max_size b = SSHBUF_SIZE_MAX \<and> contents b = bs"

lemma holds_read:
  assumes "holds e b bs"
  shows "sshbuf_len b = length bs" "ptr_bytes b = bs" "sshbuf_inv b" "writable b" "alloc_total e"
  using assms by (auto simp: holds_def buf_ready_def sshbuf_len_contents)

lemma holds_frame: "holds e b bs \<Longrightarrow> sshbuf_inv b' \<Longrightarrow> same_frame b b' \<Longrightarrow> contents b' = cs \<Longrightarrow> holds e b' cs"
  using ready_frame [of e b b'] by (auto simp: holds_def same_frame_def)

lemma holds_new: "alloc_total e \<Longrightarrow> \<exists>b. sshbuf_new e = Some b \<and> holds e b []"
  using sshbuf_new_total [of e] ready_new [of e] by (auto simp: holds_def sshbuf_queue_def)

lemma holds_reset: "holds e b bs \<Longrightarrow> holds e (sshbuf_reset e b) []"
  using reset_step [of e b] by (auto simp: holds_def sshbuf_queue_def)

lemma holds_put:
  assumes "holds e b bs" "length bs + length v \<le> SSHBUF_SIZE_MAX"
  shows "\<exists>b'. sshbuf_put e b v = (None, b') \<and> holds e b' (bs @ v)"
proof -
  note r = holds_read [OF assms(1)]
  have fit: "length (contents b) + length v \<le> sb_max_size b" using assms by (auto simp: holds_def)
  from put_total [OF r(3,4) fit r(5)] obtain b' where p: "sshbuf_put e b v = (None, b')" by blast
  note s = put_success [OF r(3) p]
  have "contents b' = bs @ v" using s(2) assms(1) by (simp add: holds_def)
  with holds_frame [OF assms(1) s(1,3)] p show ?thesis by blast
qed

lemma holds_reserve:
  assumes "holds e b bs" "length bs + n \<le> SSHBUF_SIZE_MAX"
  shows "\<exists>cp b'. sshbuf_reserve e b n = (Inr cp, b') \<and> (\<forall>v. length v = n \<longrightarrow> holds e (buf_poke cp v b') (bs @ v))"
proof -
  note r = holds_read [OF assms(1)]
  have fit: "length (contents b) + n \<le> sb_max_size b" using assms by (auto simp: holds_def)
  from reserve_total [OF r(3,4) fit r(5)] obtain cp b' where p: "sshbuf_reserve e b n = (Inr cp, b')" by blast
  have "holds e (buf_poke cp v b') (bs @ v)" if "length v = n" for v
  proof -
    note w = reserve_write [OF r(3), of e v cp b']
    have "sshbuf_reserve e b (length v) = (Inr cp, b')" using p that by simp
    from w [OF this] have i: "sshbuf_inv (buf_poke cp v b')" "contents (buf_poke cp v b') = contents b @ v" "same_frame b (buf_poke cp v b')"
      by (simp_all add: buf_poke_def)
    have "contents (buf_poke cp v b') = bs @ v" using i(2) assms(1) by (simp add: holds_def)
    with holds_frame [OF assms(1) i(1,3)] show ?thesis by blast
  qed
  with p show ?thesis by blast
qed

lemma holds_poke:
  assumes "holds e b bs" "length v \<le> length bs"
  shows "\<exists>d cp. sshbuf_mutable_ptr b = Some (d, cp) \<and> holds e (buf_poke cp v b) (v @ drop (length v) bs)"
proof -
  note r = holds_read [OF assms(1)]
  have m: "sshbuf_mutable_ptr b = Some (sb_d b, sb_off b)" using r(3,4) by (auto simp: sshbuf_mutable_ptr_def writable_def)
  have c: "contents b = bs" using assms(1) by (simp add: holds_def)
  have sz: "sb_off b \<le> sb_size b" "sb_size b \<le> length (sb_mem b)" "length bs = sb_size b - sb_off b"
    using r(3) c length_contents [OF r(3)] by (auto simp: sshbuf_inv_iff)
  have fit: "sb_off b + length v \<le> length (sb_mem b)" "sb_off b + length v \<le> sb_size b" using sz assms(2) by auto
  let ?b = "buf_poke (sb_off b) v b"
  have i: "sshbuf_inv ?b" "same_frame b ?b" using r(3) fit by (auto simp: buf_poke_def sshbuf_inv_iff same_frame_def)
  have "contents ?b = take (sb_size b - sb_off b) (v @ drop (sb_off b + length v) (sb_mem b))"
    using fit by (simp add: contents_def buf_poke_def mem_write_def)
  also have "\<dots> = v @ take (sb_size b - sb_off b - length v) (drop (sb_off b + length v) (sb_mem b))"
    using fit sz assms(2) by simp
  also have "take (sb_size b - sb_off b - length v) (drop (sb_off b + length v) (sb_mem b)) = drop (length v) bs"
    unfolding c [symmetric] contents_def by (simp add: drop_take add.commute)
  finally show ?thesis using holds_frame [OF assms(1) i] m by blast
qed

lemma holds_consume:
  assumes "holds e b bs" "n \<le> length bs"
  shows "\<exists>b'. sshbuf_consume b n = (None, b') \<and> holds e b' (drop n bs)"
proof -
  note r = holds_read [OF assms(1)]
  have c: "contents b = bs" using assms(1) by (simp add: holds_def)
  have p: "sshbuf_consume b n = (None, advance b n)" using r(3) c assms(2) by (simp add: consume_advance)
  from advance_keeps [OF r(3), of n] c assms(2) holds_frame [OF assms(1)] p show ?thesis by auto
qed

lemma holds_consume_end:
  assumes "holds e b bs" "n \<le> length bs"
  shows "\<exists>b'. sshbuf_consume_end b n = (None, b') \<and> holds e b' (take (length bs - n) bs)"
proof -
  note r = holds_read [OF assms(1)]
  have c: "contents b = bs" using assms(1) by (simp add: holds_def)
  obtain b' where p: "sshbuf_consume_end b n = (None, b')" using r(3) c assms(2) by (simp add: consume_end_eq)
  from consume_end_success [OF r(3) p] c holds_frame [OF assms(1)] p show ?thesis by auto
qed

lemma holds_get_u8:
  assumes "holds e b (x # bs)"
  shows "\<exists>b'. sshbuf_get_u8 b = (Inr x, b') \<and> holds e b' bs"
proof -
  note r = holds_read [OF assms(1)]
  have c: "contents b = x # bs" using assms(1) by (simp add: holds_def)
  have "sshbuf_get_u8 b = (Inr x, advance b 1)" using get_word_eq(4) [OF r(3)] c by simp
  moreover have "holds e (advance b 1) bs" using advance_keeps [OF r(3), of 1] c holds_frame [OF assms] by simp
  ultimately show ?thesis by blast
qed

section \<open>Padding\<close>

lemma base_padlen_unat:
  assumes "bs \<in> {8, 16}"
  shows "unat (base_padlen bs len) = (let q = bs - len mod bs in if q < 4 then q + bs else q)"
proof -
  let ?q = "bs - len mod bs"
  have m: "len mod bs < bs" using assms by auto
  then have q: "?q \<le> 16" "0 < ?q" using assms by auto
  have u: "unat (of_nat k :: byte) = k" if "k < 256" for k using that by (simp add: unat_of_nat)
  have lt: "(of_nat ?q :: byte) < 4 \<longleftrightarrow> ?q < 4" using u [of ?q] q by (simp add: word_less_nat_alt)
  have "unat (of_nat ?q + of_nat bs :: byte) = ?q + bs"
    using u [of "?q + bs"] q assms by (auto simp flip: of_nat_add)
  with lt u [of ?q] q show ?thesis by (simp add: base_padlen_def Let_def)
qed

lemma base_padlen_ok:
  assumes "bs \<in> {8, 16}"
  shows "4 \<le> unat (base_padlen bs len)" "unat (base_padlen bs len) \<le> 19" "(len + unat (base_padlen bs len)) mod bs = 0"
proof -
  let ?q = "bs - len mod bs"
  have m: "len mod bs < bs" using assms by auto
  have d: "(len + ?q) mod bs = 0"
  proof -
    have "len + ?q = bs * (len div bs) + bs" using m mult_div_mod_eq [of bs len] by linarith
    then show ?thesis by simp
  qed
  then have d2: "(len + (?q + bs)) mod bs = 0" by (metis add.assoc mod_add_self2)
  have "?q \<le> 16" using m assms by auto
  with m assms d d2 show "4 \<le> unat (base_padlen bs len)" "unat (base_padlen bs len) \<le> 19" "(len + unat (base_padlen bs len)) mod bs = 0"
    by (auto simp: base_padlen_unat Let_def)
qed

lemma roundup_block: "roundup n b mod b = 0"
  by (simp add: roundup_def)

lemma send_padlen_ok:
  assumes "bs \<in> {8, 16}" "unat extra \<le> 224"
  shows "\<exists>p. send_padlen bs len extra = Some p \<and> 4 \<le> unat p \<and> (len + unat p) mod bs = 0"
proof (cases "extra = 0")
  case True
  with base_padlen_ok [OF assms(1), of len] show ?thesis by (simp add: send_padlen_def Let_def)
next
  case False
  define x where "x = roundup (unat extra) bs"
  define p where "p = base_padlen bs len"
  note b = base_padlen_ok [OF assms(1), of len, folded p_def]
  have x: "x mod bs = 0" "unat extra \<le> x" "x < 240"
    using assms roundup_ge [of bs "unat extra"] roundup_le [of bs "unat extra"] roundup_block [of "unat extra" bs] by (auto simp: x_def)
  have x224: "x \<le> 232"
  proof -
    have "bs = 8 \<or> bs = 16" using assms(1) by simp
    with x(1,3) show ?thesis by (elim disjE; presburger)
  qed
  have pos: "0 < x" using False x(2) by (metis gr_zeroI le_zero_eq unat_eq_zero)
  have ux: "unat (of_nat x :: byte) = x" using x(3) by (simp add: unat_of_nat)
  then have nz: "(of_nat x :: byte) \<noteq> 0" using pos by auto
  define y where "y = x - (len + unat p) mod x"
  have y: "0 < y" "y \<le> x" "(len + unat p + y) mod x = 0"
  proof -
    have m: "(len + unat p) mod x < x" using pos by simp
    then show "0 < y" "y \<le> x" by (simp_all add: y_def)
    have "len + unat p + y = x * ((len + unat p) div x) + x"
      using m mult_div_mod_eq [of x "len + unat p"] unfolding y_def by linarith
    then show "(len + unat p + y) mod x = 0" by simp
  qed
  have sub: "of_nat x - of_nat ((len + unat p) mod x) = (of_nat y :: byte)"
    using pos by (simp add: y_def of_nat_diff less_imp_le)
  have s: "send_padlen bs len extra = Some (p + of_nat y)"
    using False nz by (simp add: send_padlen_def Let_def flip: x_def p_def) (simp add: ux sub)
  have uy: "unat (of_nat y :: byte) = y" using y x224 by (simp add: unat_of_nat)
  have u: "unat (p + of_nat y) = unat p + y"
    using b(2) y(2) x224 uy by (subst unat_add_lem [THEN iffD1]) auto
  have "bs dvd x" using x(1) by auto
  then have "(len + unat p + y) mod bs = 0" using y(3) by (meson dvd_trans mod_0_imp_dvd dvd_imp_mod_0)
  then show ?thesis using s u b(1) by (simp add: add.assoc)
qed

text \<open>The packet in the clear: length, length of the padding, payload, padding.\<close>

definition packet_bytes :: "byte list \<Rightarrow> byte list \<Rightarrow> byte list" where
  "packet_bytes payload pad = poke_u32 (of_nat (1 + length payload + length pad)) @ [of_nat (length pad)] @ payload @ pad"

lemma length_packet_bytes [simp]: "length (packet_bytes payload pad) = 5 + length payload + length pad"
  by (simp add: packet_bytes_def)

lemma send_pad_eq:
  assumes h: "holds (pe_alloc E) (ss_outgoing_packet s) (h @ payload)" "length h = 5"
    and p: "send_padlen (fr_block_size f) (5 + length payload - fr_aadlen f) (ss_extra_pad s) = Some p"
    and l: "length payload + 256 \<le> PACKET_MAX_SIZE"
  shows "\<exists>b pad. send_pad E f s = Some (None, s\<lparr>ss_extra_pad := 0, ss_outgoing_packet := b\<rparr>) \<and>
    holds (pe_alloc E) b (packet_bytes payload pad) \<and> length pad = unat p"
proof -
  have pl: "unat p < 256" using unsigned_less [of p, where ?'a = nat] by simp
  have fit: "length (h @ payload) + unat p \<le> SSHBUF_SIZE_MAX" using pl l h(2) by (simp add: PACKET_MAX_SIZE_def sshbuf_consts)
  from holds_reserve [OF h(1) fit] obtain cp b1 where r: "sshbuf_reserve (pe_alloc E) (ss_outgoing_packet s) (unat p) = (Inr cp, b1)"
    and w: "\<forall>v. length v = unat p \<longrightarrow> holds (pe_alloc E) (buf_poke cp v b1) ((h @ payload) @ v)" by blast
  define pad where "pad = padding_bytes E f s (unat p)"
  have lp: "length pad = unat p" by (simp add: pad_def padding_bytes_def)
  let ?b = "buf_poke cp pad b1"
  have hb: "holds (pe_alloc E) ?b ((h @ payload) @ pad)" using w lp by blast
  have len: "sshbuf_len ?b - 4 = 1 + length payload + length pad" using holds_read(1) [OF hb] h(2) by simp
  let ?v = "poke_u32 (of_nat (sshbuf_len ?b - 4)) @ [p]"
  have "length ?v \<le> length ((h @ payload) @ pad)" using h(2) by simp
  from holds_poke [OF hb this] obtain d cq where m: "sshbuf_mutable_ptr ?b = Some (d, cq)"
    and hq: "holds (pe_alloc E) (buf_poke cq ?v ?b) (?v @ drop (length ?v) ((h @ payload) @ pad))" by blast
  have "p = of_nat (length pad)" using lp by simp
  then have eq: "?v @ drop (length ?v) ((h @ payload) @ pad) = packet_bytes payload pad"
    using h(2) len by (simp add: packet_bytes_def)
  have n: "sshbuf_len (ss_outgoing_packet s) = 5 + length payload" using holds_read(1) [OF h(1)] h(2) by simp
  have "send_pad E f s = Some (None, s\<lparr>ss_extra_pad := 0, ss_outgoing_packet := buf_poke cq ?v ?b\<rparr>)"
  proof -
    have "padding_bytes E f (s\<lparr>ss_extra_pad := 0\<rparr>) (unat p) = pad" by (simp add: pad_def padding_bytes_def)
    then show ?thesis using p n r m by (simp add: send_pad_def Let_def)
  qed
  with hq eq lp show ?thesis by auto
qed

section \<open>Packets on the wire\<close>

text \<open>What a receiver with this context makes of the bytes \<open>w\<close>: in one step, when the length is known and the bytes
  \<open>have\<close> are already decrypted, and from the start.\<close>

definition body_image ::
  "'e crypto \<Rightarrow> framing \<Rightarrow> 'e sshcipher_ctx \<Rightarrow> 32 word \<Rightarrow> byte list \<Rightarrow> byte list \<Rightarrow> byte list \<Rightarrow> 'e sshcipher_ctx \<Rightarrow> bool" where
  "body_image C f cc seqnr pkt have w cc' \<longleftrightarrow>
     (let need = unat (read_need f (peek_u32 pkt))
      in need mod fr_block_size f = 0 \<and> length have + fr_aadlen f + need = length pkt \<and> have = take (length have) pkt \<and>
         (\<exists>out mac. w = out @ mac \<and> length out = fr_aadlen f + need + fr_authlen f \<and>
            (\<forall>rest. cipher_crypt C cc seqnr (out @ rest) need (fr_aadlen f) (fr_authlen f) = Inr (drop (length have) pkt, cc')) \<and>
            (case fr_macon f of None \<Rightarrow> mac = [] | Some m \<Rightarrow> length mac = m_mac_len m \<and>
               mac_compute C m seqnr (if m_etm m then take (fr_aadlen f + need) out else pkt) = Inr mac)))"

definition wire_image ::
  "'e crypto \<Rightarrow> framing \<Rightarrow> 'e sshcipher_ctx \<Rightarrow> 32 word \<Rightarrow> byte list \<Rightarrow> byte list \<Rightarrow> 'e sshcipher_ctx \<Rightarrow> bool" where
  "wire_image C f cc seqnr pkt w cc' \<longleftrightarrow> \<not> bad_length (peek_u32 pkt) \<and>
     (if fr_aadlen f \<noteq> 0 then
        4 \<le> length w \<and> (\<forall>rest. cipher_get_length C cc seqnr (take 4 w @ rest) = Inr (peek_u32 pkt)) \<and> body_image C f cc seqnr pkt [] w cc'
      else fr_block_size f \<le> length w \<and>
        (\<exists>cc1. (\<forall>rest q. cipher_crypt C cc q (take (fr_block_size f) w @ rest) (fr_block_size f) 0 0 = Inr (take (fr_block_size f) pkt, cc1)) \<and>
           body_image C f cc1 seqnr pkt (take (fr_block_size f) pkt) (drop (fr_block_size f) w) cc'))"

text \<open>A MAC has the length of its algorithm, and computing it does not fail.\<close>

definition mac_total :: "'e crypto \<Rightarrow> sshmac option \<Rightarrow> bool" where
  "mac_total C mac \<longleftrightarrow> (\<forall>m. mac = Some m \<longrightarrow> (\<forall>seqnr data. \<exists>t. mac_compute C m seqnr data = Inr t \<and> length t = m_mac_len m))"

text \<open>The format that goes with the keys of a context.\<close>

definition framing_fits :: "framing \<Rightarrow> 'e sshcipher_ctx \<Rightarrow> bool" where
  "framing_fits f cc \<longleftrightarrow> fr_block_size f = c_block_size (cc_cipher cc) \<and> fr_authlen f = cipher_authlen (cc_cipher cc) \<and>
     (fr_authlen f \<noteq> 0 \<longrightarrow> fr_mac f = None) \<and> fr_aadlen f = (if mac_etm f \<or> fr_authlen f \<noteq> 0 then 4 else 0)"

lemma packet_length_word:
  assumes "length payload + 256 \<le> PACKET_MAX_SIZE" "length pad < 256"
  shows "unat (of_nat (1 + length payload + length pad) :: 32 word) = 1 + length payload + length pad"
  unfolding unat_of_nat using assms by (simp add: PACKET_MAX_SIZE_def)

lemma peek_packet [simp]: "peek_u32 (packet_bytes payload pad) = of_nat (1 + length payload + length pad)"
  by (simp add: packet_bytes_def del: of_nat_add of_nat_Suc)

lemma packet_length_ok:
  assumes "length payload + 256 \<le> PACKET_MAX_SIZE" "length pad < 256" "4 \<le> length pad"
  shows "\<not> bad_length (peek_u32 (packet_bytes payload pad))"
  using packet_length_word [OF assms(1,2)] assms by (simp add: bad_length_def word_less_nat_alt del: of_nat_add of_nat_Suc)

lemma crypt_keeps_cipher: "cipher_crypt C cc seqnr src len aadlen authlen = Inr (out, cc') \<Longrightarrow> cc_cipher cc' = cc_cipher cc"
  unfolding cipher_crypt_def by (auto simp: Let_def split: sum.splits option.splits if_splits prod.splits)

lemma read_need_eq:
  assumes "length payload + 256 \<le> PACKET_MAX_SIZE" "length pad < 256" "fr_aadlen f \<noteq> 0 \<or> fr_block_size f \<le> 5 + length payload + length pad"
  shows "unat (read_need f (peek_u32 (packet_bytes payload pad))) =
    (if fr_aadlen f \<noteq> 0 then 1 + length payload + length pad else 5 + length payload + length pad - fr_block_size f)"
proof (cases "fr_aadlen f \<noteq> 0")
  case True
  then show ?thesis using packet_length_word [OF assms(1,2)] by (simp add: read_need_def del: of_nat_add of_nat_Suc)
next
  case False
  define n where "n = 5 + length payload + length pad"
  have n: "fr_block_size f \<le> n" "n < 2 ^ 32" using assms False by (auto simp: n_def PACKET_MAX_SIZE_def)
  have "4 + of_nat (1 + length payload + length pad) = (of_nat n :: 32 word)" by (simp add: n_def)
  then have "read_need f (peek_u32 (packet_bytes payload pad)) = of_nat (n - fr_block_size f)"
    using False n(1) by (simp add: read_need_def of_nat_diff del: of_nat_add of_nat_Suc)
  moreover have "unat (of_nat (n - fr_block_size f) :: 32 word) = n - fr_block_size f" using n by (simp only: unat_of_nat) simp
  ultimately show ?thesis using False unfolding n_def [symmetric] by simp
qed

lemma send_mac_eq:
  assumes "mac_total (pe_crypto E) (fr_macon f)" "holds (pe_alloc E) (ss_output s) bs"
    and "length bs + (case fr_macon f of None \<Rightarrow> 0 | Some m \<Rightarrow> m_mac_len m) \<le> SSHBUF_SIZE_MAX"
    and "plain_mac E f (ps_seqnr (ss_p_send s)) pkt = Inr macbuf"
  shows "\<exists>b mac. send_mac E f macbuf enc s = Some (None, s\<lparr>ss_output := b\<rparr>) \<and> holds (pe_alloc E) b (bs @ mac) \<and>
    (case fr_macon f of None \<Rightarrow> mac = [] | Some m \<Rightarrow> length mac = m_mac_len m \<and>
       mac_compute (pe_crypto E) m (ps_seqnr (ss_p_send s)) (if m_etm m then enc else pkt) = Inr mac)"
proof (cases "fr_macon f")
  case None
  then show ?thesis using assms(2) by (intro exI [of _ "ss_output s"] exI [of _ "[]"]) (simp add: send_mac_def)
next
  case (Some m)
  then obtain mac where m: "mac_compute (pe_crypto E) m (ps_seqnr (ss_p_send s)) (if m_etm m then enc else pkt) = Inr mac"
    "length mac = m_mac_len m" using assms(1) unfolding mac_total_def by metis
  from holds_put [OF assms(2), of mac] assms(3) Some m(2) obtain b where
    b: "sshbuf_put (pe_alloc E) (ss_output s) mac = (None, b)" "holds (pe_alloc E) b (bs @ mac)" by auto
  have "\<not> m_etm m \<Longrightarrow> macbuf = mac" using assms(4) m(1) Some by (simp add: plain_mac_def)
  with Some m b show ?thesis by (intro exI [of _ b] exI [of _ mac]) (auto simp: send_mac_def on_output_def)
qed

lemma plain_mac_total: "mac_total (pe_crypto E) (fr_macon f) \<Longrightarrow> \<exists>macbuf. plain_mac E f q pkt = Inr macbuf"
  by (cases "fr_macon f") (auto simp: plain_mac_def mac_total_def)

lemma send_encrypt_eq:
  assumes "holds (pe_alloc E) (ss_outgoing_packet s) pkt" "holds (pe_alloc E) (ss_output s) bs" "mac_total (pe_crypto E) (fr_macon f)"
    and "cipher_crypt (pe_crypto E) (ss_send_context s) (ps_seqnr (ss_p_send s)) pkt (length pkt - fr_aadlen f) (fr_aadlen f) (fr_authlen f)
      = Inr (out, es')" "length out = length pkt + fr_authlen f"
    and "length bs + length pkt + fr_authlen f + (case fr_macon f of None \<Rightarrow> 0 | Some m \<Rightarrow> m_mac_len m) \<le> SSHBUF_SIZE_MAX"
  shows "\<exists>b mac. send_encrypt E f s = Some (None, s\<lparr>ss_send_context := es', ss_output := b\<rparr>) \<and>
    holds (pe_alloc E) b (bs @ out @ mac) \<and>
    (case fr_macon f of None \<Rightarrow> mac = [] | Some m \<Rightarrow> length mac = m_mac_len m \<and>
       mac_compute (pe_crypto E) m (ps_seqnr (ss_p_send s)) (if m_etm m then take (length pkt) out else pkt) = Inr mac)"
proof -
  note r = holds_read [OF assms(1)]
  from plain_mac_total [OF assms(3)] obtain macbuf where pm: "plain_mac E f (ps_seqnr (ss_p_send s)) pkt = Inr macbuf" by blast
  have fit: "length bs + (length pkt + fr_authlen f) \<le> SSHBUF_SIZE_MAX" using assms(6) by simp
  from holds_reserve [OF assms(2) fit] obtain cp b1 where rs: "sshbuf_reserve (pe_alloc E) (ss_output s) (length pkt + fr_authlen f) = (Inr cp, b1)"
    and h1: "holds (pe_alloc E) (buf_poke cp out b1) (bs @ out)" using assms(5) by blast
  let ?s = "s\<lparr>ss_send_context := es', ss_output := buf_poke cp out b1\<rparr>"
  have h2: "holds (pe_alloc E) (ss_output ?s) (bs @ out)" using h1 by simp
  have l2: "length (bs @ out) + (case fr_macon f of None \<Rightarrow> 0 | Some m \<Rightarrow> m_mac_len m) \<le> SSHBUF_SIZE_MAX" using assms(5,6) by simp
  have pm2: "plain_mac E f (ps_seqnr (ss_p_send ?s)) pkt = Inr macbuf" using pm by simp
  have q: "ss_p_send ?s = ss_p_send s" by simp
  from send_mac_eq [OF assms(3) h2 l2 pm2, of "take (length pkt) out", unfolded q] obtain b mac where
    b: "send_mac E f macbuf (take (length pkt) out) ?s = Some (None, ?s\<lparr>ss_output := b\<rparr>)"
      "holds (pe_alloc E) b ((bs @ out) @ mac)"
      "case fr_macon f of None \<Rightarrow> mac = [] | Some m \<Rightarrow> length mac = m_mac_len m \<and>
         mac_compute (pe_crypto E) m (ps_seqnr (ss_p_send s)) (if m_etm m then take (length pkt) out else pkt) = Inr mac" by blast
  have "send_encrypt E f s = send_mac E f macbuf (take (length pkt) out) ?s"
    unfolding send_encrypt_def r(1,2) Let_def pm using rs assms(4) by simp
  with b show ?thesis by (intro exI [of _ b] exI [of _ mac]) simp
qed

lemma body_imageI:
  assumes "need = unat (read_need f (peek_u32 pkt))" "need mod fr_block_size f = 0" "k + fr_aadlen f + need = length pkt"
    and "length out = fr_aadlen f + need + fr_authlen f"
    and "\<forall>rest. cipher_crypt C cc seqnr (out @ rest) need (fr_aadlen f) (fr_authlen f) = Inr (drop k pkt, cc')"
    and "case fr_macon f of None \<Rightarrow> mac = [] | Some m \<Rightarrow> length mac = m_mac_len m \<and>
               mac_compute C m seqnr (if m_etm m then take (fr_aadlen f + need) out else pkt) = Inr mac"
  shows "body_image C f cc seqnr pkt (take k pkt) (out @ mac) cc'"
proof -
  have "length (take k pkt) = k" using assms(3) by simp
  then show ?thesis unfolding body_image_def Let_def assms(1) [symmetric] using assms(2-6)
    by (simp only: simp_thms) (intro conjI exI [of _ out] exI [of _ mac]; simp)
qed

lemma send_image_aad:
  assumes laws: "crypto_laws (pe_crypto E) P" "mac_total (pe_crypto E) (fr_macon f)"
    and pair: "ctx_pair P (ss_send_context s) ds" "framing_fits f (ss_send_context s)" "fr_aadlen f \<noteq> 0"
    and pkt: "pkt = packet_bytes payload pad" "length payload + 256 \<le> PACKET_MAX_SIZE" "length pad < 256"
      "(length pkt - fr_aadlen f) mod fr_block_size f = 0"
    and h: "holds (pe_alloc E) (ss_outgoing_packet s) pkt" "holds (pe_alloc E) (ss_output s) bs"
      "length bs + length pkt + fr_authlen f + (case fr_macon f of None \<Rightarrow> 0 | Some m \<Rightarrow> m_mac_len m) \<le> SSHBUF_SIZE_MAX"
  shows "\<exists>b w es' ds'. send_encrypt E f s = Some (None, s\<lparr>ss_send_context := es', ss_output := b\<rparr>) \<and> holds (pe_alloc E) b (bs @ w) \<and>
    ctx_pair P es' ds' \<and> cc_cipher es' = cc_cipher (ss_send_context s) \<and> 4 \<le> length w \<and>
    (\<forall>rest. cipher_get_length (pe_crypto E) ds (ps_seqnr (ss_p_send s)) (take 4 w @ rest) = Inr (peek_u32 pkt)) \<and>
    body_image (pe_crypto E) f ds (ps_seqnr (ss_p_send s)) pkt [] w ds'"
proof -
  let ?C = "pe_crypto E" and ?q = "ps_seqnr (ss_p_send s)" and ?n = "length pkt - 4"
  have a4: "fr_aadlen f = 4" using pair(2,3) by (auto simp: framing_fits_def split: if_splits)
  have lp: "length pkt = 5 + length payload + length pad" using pkt(1) by simp
  have fit: "fr_block_size f = c_block_size (cc_cipher (ss_send_context s))" "fr_authlen f = cipher_authlen (cc_cipher (ss_send_context s))"
    using pair(2) by (simp_all add: framing_fits_def)
  have need: "unat (read_need f (peek_u32 pkt)) = ?n" unfolding pkt(1) using read_need_eq [OF pkt(2,3), of f] pair(3) by simp
  from crypt_roundtrip [OF laws(1) pair(1), of 4 ?n pkt "fr_authlen f" ?q] lp pkt(4) a4 fit obtain out es' ds' where
    o: "cipher_crypt ?C (ss_send_context s) ?q pkt ?n 4 (fr_authlen f) = Inr (out, es')" "length out = 4 + ?n + fr_authlen f" "ctx_pair P es' ds'"
      "\<forall>rest. cipher_crypt ?C ds ?q (out @ rest) ?n 4 (fr_authlen f) = Inr (take (4 + ?n) pkt, ds')"
      "\<forall>rest. cipher_get_length ?C ds ?q (take 4 out @ rest) = Inr (peek_u32 pkt)" by auto
  have lo: "length out = length pkt + fr_authlen f" "4 \<le> length out" using o(2) lp by simp_all
  from send_encrypt_eq [OF h(1,2) laws(2), of out es'] o(1) a4 lo h(3) obtain b mac where
    e: "send_encrypt E f s = Some (None, s\<lparr>ss_send_context := es', ss_output := b\<rparr>)" "holds (pe_alloc E) b (bs @ out @ mac)"
      "case fr_macon f of None \<Rightarrow> mac = [] | Some m \<Rightarrow> length mac = m_mac_len m \<and>
         mac_compute ?C m ?q (if m_etm m then take (length pkt) out else pkt) = Inr mac" by auto
  have "body_image ?C f ds ?q pkt (take 0 pkt) (out @ mac) ds'"
  proof (rule body_imageI [OF need [symmetric]])
    show "?n mod fr_block_size f = 0" using pkt(4) a4 by simp
    show "0 + fr_aadlen f + ?n = length pkt" "length out = fr_aadlen f + ?n + fr_authlen f" using a4 lp o(2) by simp_all
    show "\<forall>rest. cipher_crypt ?C ds ?q (out @ rest) ?n (fr_aadlen f) (fr_authlen f) = Inr (drop 0 pkt, ds')" using o(4) a4 lp by simp
    have n: "fr_aadlen f + ?n = length pkt" using a4 lp by simp
    show "case fr_macon f of None \<Rightarrow> mac = [] | Some m \<Rightarrow> length mac = m_mac_len m \<and>
         mac_compute ?C m ?q (if m_etm m then take (fr_aadlen f + ?n) out else pkt) = Inr mac" unfolding n by (rule e(3))
  qed
  moreover have "cc_cipher es' = cc_cipher (ss_send_context s)" using crypt_keeps_cipher [OF o(1)] .
  moreover have "take 4 (out @ mac) = take 4 out" using lo by simp
  ultimately show ?thesis using e o(3,5) lo by (intro exI [of _ b] exI [of _ "out @ mac"] exI [of _ es'] exI [of _ ds']) simp
qed

lemma send_image_split:
  assumes laws: "crypto_laws (pe_crypto E) P" "mac_total (pe_crypto E) (fr_macon f)"
    and pair: "ctx_pair P (ss_send_context s) ds" "framing_fits f (ss_send_context s)" "fr_aadlen f = 0"
    and pkt: "pkt = packet_bytes payload pad" "length payload + 256 \<le> PACKET_MAX_SIZE" "length pad < 256"
      "length pkt mod fr_block_size f = 0"
    and h: "holds (pe_alloc E) (ss_outgoing_packet s) pkt" "holds (pe_alloc E) (ss_output s) bs"
      "length bs + length pkt + fr_authlen f + (case fr_macon f of None \<Rightarrow> 0 | Some m \<Rightarrow> m_mac_len m) \<le> SSHBUF_SIZE_MAX"
  shows "\<exists>b w es' ds1 ds'. send_encrypt E f s = Some (None, s\<lparr>ss_send_context := es', ss_output := b\<rparr>) \<and> holds (pe_alloc E) b (bs @ w) \<and>
    ctx_pair P es' ds' \<and> cc_cipher es' = cc_cipher (ss_send_context s) \<and> fr_block_size f \<le> length w \<and>
    (\<forall>rest q. cipher_crypt (pe_crypto E) ds q (take (fr_block_size f) w @ rest) (fr_block_size f) 0 0 = Inr (take (fr_block_size f) pkt, ds1)) \<and>
    body_image (pe_crypto E) f ds1 (ps_seqnr (ss_p_send s)) pkt (take (fr_block_size f) pkt) (drop (fr_block_size f) w) ds'"
proof -
  let ?C = "pe_crypto E" and ?q = "ps_seqnr (ss_p_send s)" and ?k = "fr_block_size f" and ?c = "cc_cipher (ss_send_context s)"
  have lp: "length pkt = 5 + length payload + length pad" using pkt(1) by simp
  have fit: "?k = c_block_size ?c" "fr_authlen f = 0" "cipher_authlen ?c = 0" "\<not> mac_etm f"
    using pair(2,3) by (auto simp: framing_fits_def split: if_splits)
  have "?k > 0" using pair(1) fit(1) by (auto simp: ctx_pair_def cipher_sane_def)
  then have kp: "?k \<le> length pkt" using pkt(4) lp by (metis add_is_0 mod_less not_le numeral_neq_zero)
  let ?m = "length pkt - ?k"
  have km: "length pkt = ?k + ?m" "?k mod c_block_size ?c = 0" "?m mod c_block_size ?c = 0"
    using kp pkt(4) fit(1) by (simp_all add: le_mod_geq [symmetric])
  from crypt_split [OF laws(1) pair(1) fit(3) km, of ?q] obtain out es' ds1 ds' where
    o: "cipher_crypt ?C (ss_send_context s) ?q pkt (?k + ?m) 0 0 = Inr (out, es')" "length out = ?k + ?m" "ctx_pair P es' ds'"
      "\<forall>rest s1. cipher_crypt ?C ds s1 (take ?k out @ rest) ?k 0 0 = Inr (take ?k pkt, ds1)"
      "\<forall>rest s2. cipher_crypt ?C ds1 s2 (drop ?k out @ rest) ?m 0 0 = Inr (drop ?k pkt, ds')" by blast
  have lo: "length out = length pkt" using o(2) kp by simp
  from send_encrypt_eq [OF h(1,2) laws(2), of out es'] o(1) pair(3) fit(2) lo kp h(3) obtain b mac where
    e: "send_encrypt E f s = Some (None, s\<lparr>ss_send_context := es', ss_output := b\<rparr>)" "holds (pe_alloc E) b (bs @ out @ mac)"
      "case fr_macon f of None \<Rightarrow> mac = [] | Some m \<Rightarrow> length mac = m_mac_len m \<and>
         mac_compute ?C m ?q (if m_etm m then take (length pkt) out else pkt) = Inr mac" by auto
  have need: "unat (read_need f (peek_u32 pkt)) = ?m"
    unfolding pkt(1) using read_need_eq [OF pkt(2,3), of f] pair(3) kp lp by simp
  have "body_image ?C f ds1 ?q pkt (take ?k pkt) (drop ?k out @ mac) ds'"
  proof (rule body_imageI [OF need [symmetric]])
    show "?m mod ?k = 0" using km(3) fit(1) by simp
    show "?k + fr_aadlen f + ?m = length pkt" "length (drop ?k out) = fr_aadlen f + ?m + fr_authlen f" using pair(3) kp lo fit(2) by simp_all
    show "\<forall>rest. cipher_crypt ?C ds1 ?q (drop ?k out @ rest) ?m (fr_aadlen f) (fr_authlen f) = Inr (drop ?k pkt, ds')"
      using o(5) pair(3) fit(2) by simp
    show "case fr_macon f of None \<Rightarrow> mac = [] | Some m \<Rightarrow> length mac = m_mac_len m \<and>
         mac_compute ?C m ?q (if m_etm m then take (fr_aadlen f + ?m) (drop ?k out) else pkt) = Inr mac"
      using e(3) fit(4) by (cases "fr_macon f") (simp_all add: mac_etm_def)
  qed
  moreover have "cc_cipher es' = cc_cipher (ss_send_context s)" using crypt_keeps_cipher [OF o(1)] .
  moreover have "take ?k (out @ mac) = take ?k out" "drop ?k (out @ mac) = drop ?k out @ mac" "?k \<le> length (out @ mac)" using lo kp by simp_all
  ultimately show ?thesis using e o(3,4)
    by (intro exI [of _ b] exI [of _ "out @ mac"] exI [of _ es'] exI [of _ ds1] exI [of _ ds']) simp
qed

lemma send_image:
  assumes laws: "crypto_laws (pe_crypto E) P" "mac_total (pe_crypto E) (fr_macon f)"
    and pair: "ctx_pair P (ss_send_context s) ds" "framing_fits f (ss_send_context s)"
    and pkt: "pkt = packet_bytes payload pad" "length payload + 256 \<le> PACKET_MAX_SIZE" "length pad < 256" "4 \<le> length pad"
      "(length pkt - fr_aadlen f) mod fr_block_size f = 0"
    and h: "holds (pe_alloc E) (ss_outgoing_packet s) pkt" "holds (pe_alloc E) (ss_output s) bs"
      "length bs + length pkt + fr_authlen f + (case fr_macon f of None \<Rightarrow> 0 | Some m \<Rightarrow> m_mac_len m) \<le> SSHBUF_SIZE_MAX"
  shows "\<exists>b w es' ds'. send_encrypt E f s = Some (None, s\<lparr>ss_send_context := es', ss_output := b\<rparr>) \<and> holds (pe_alloc E) b (bs @ w) \<and>
    ctx_pair P es' ds' \<and> cc_cipher es' = cc_cipher (ss_send_context s) \<and>
    wire_image (pe_crypto E) f ds (ps_seqnr (ss_p_send s)) pkt w ds'"
proof -
  have good: "\<not> bad_length (peek_u32 pkt)" using packet_length_ok [OF pkt(2-4)] pkt(1) by simp
  show ?thesis
  proof (cases "fr_aadlen f = 0")
    case True
    then have "length pkt mod fr_block_size f = 0" using pkt(5) by simp
    from send_image_split [OF laws pair True pkt(1-3) this h] obtain b w es' ds1 ds' where
      "send_encrypt E f s = Some (None, s\<lparr>ss_send_context := es', ss_output := b\<rparr>)" "holds (pe_alloc E) b (bs @ w)"
      "ctx_pair P es' ds'" "cc_cipher es' = cc_cipher (ss_send_context s)" "fr_block_size f \<le> length w"
      "\<forall>rest q. cipher_crypt (pe_crypto E) ds q (take (fr_block_size f) w @ rest) (fr_block_size f) 0 0 = Inr (take (fr_block_size f) pkt, ds1)"
      "body_image (pe_crypto E) f ds1 (ps_seqnr (ss_p_send s)) pkt (take (fr_block_size f) pkt) (drop (fr_block_size f) w) ds'" by metis
    with good True show ?thesis unfolding wire_image_def
      by (intro exI [of _ b] exI [of _ w] exI [of _ es'] exI [of _ ds']) auto
  next
    case False
    from send_image_aad [OF laws pair False pkt(1-3,5) h] obtain b w es' ds' where
      "send_encrypt E f s = Some (None, s\<lparr>ss_send_context := es', ss_output := b\<rparr>)" "holds (pe_alloc E) b (bs @ w)"
      "ctx_pair P es' ds'" "cc_cipher es' = cc_cipher (ss_send_context s)" "4 \<le> length w"
      "\<forall>rest. cipher_get_length (pe_crypto E) ds (ps_seqnr (ss_p_send s)) (take 4 w @ rest) = Inr (peek_u32 pkt)"
      "body_image (pe_crypto E) f ds (ps_seqnr (ss_p_send s)) pkt [] w ds'" by metis
    with good False show ?thesis unfolding wire_image_def
      by (intro exI [of _ b] exI [of _ w] exI [of _ es'] exI [of _ ds']) simp
  qed
qed

section \<open>Receiving a packet\<close>

lemma body_imageE:
  assumes "body_image C f cc seqnr pkt have w cc'"
  obtains need out mac where "need = unat (read_need f (peek_u32 pkt))" "need mod fr_block_size f = 0"
    "length have + fr_aadlen f + need = length pkt" "have = take (length have) pkt" "w = out @ mac"
    "length out = fr_aadlen f + need + fr_authlen f"
    "\<forall>rest. cipher_crypt C cc seqnr (out @ rest) need (fr_aadlen f) (fr_authlen f) = Inr (drop (length have) pkt, cc')"
    "case fr_macon f of None \<Rightarrow> mac = [] | Some m \<Rightarrow> length mac = m_mac_len m \<and>
               mac_compute C m seqnr (if m_etm m then take (fr_aadlen f + need) out else pkt) = Inr mac"
    "length mac = (case fr_macon f of None \<Rightarrow> 0 | Some m \<Rightarrow> m_mac_len m)"
proof -
  let ?need = "unat (read_need f (peek_u32 pkt))"
  note a = assms [unfolded body_image_def Let_def]
  note a1 = a [THEN conjunct1] and a2 = a [THEN conjunct2, THEN conjunct1]
    and a3 = a [THEN conjunct2, THEN conjunct2, THEN conjunct1] and a4 = a [THEN conjunct2, THEN conjunct2, THEN conjunct2]
  from a4 obtain out mac where o: "w = out @ mac" "length out = fr_aadlen f + ?need + fr_authlen f"
      "\<forall>rest. cipher_crypt C cc seqnr (out @ rest) ?need (fr_aadlen f) (fr_authlen f) = Inr (drop (length have) pkt, cc')"
      "case fr_macon f of None \<Rightarrow> mac = [] | Some m \<Rightarrow> length mac = m_mac_len m \<and>
         mac_compute C m seqnr (if m_etm m then take (fr_aadlen f + ?need) out else pkt) = Inr mac" by (elim conjE exE)
  have "length mac = (case fr_macon f of None \<Rightarrow> 0 | Some m \<Rightarrow> m_mac_len m)" using o(4) by (cases "fr_macon f") auto
  with a1 a2 a3 o show thesis by (rule that [OF refl])
qed

lemma read_decrypt_image:
  assumes crypt: "\<forall>rest. cipher_crypt (pe_crypto E) (ss_receive_context r) (ps_seqnr (ss_p_read r)) (out @ rest) need (fr_aadlen f) (fr_authlen f)
      = Inr (drop (length have) pkt, ds')"
    and l: "length out = fr_aadlen f + need + fr_authlen f" "length have + fr_aadlen f + need = length pkt" "have = take (length have) pkt"
      "length pkt \<le> SSHBUF_SIZE_MAX"
    and h: "holds (pe_alloc E) (ss_incoming_packet r) have" "holds (pe_alloc E) (ss_input r) (out @ rest)"
  shows "\<exists>b b2. read_decrypt E f need r = Some (None, r\<lparr>ss_receive_context := ds', ss_incoming_packet := b, ss_input := b2\<rparr>) \<and>
    holds (pe_alloc E) b pkt \<and> holds (pe_alloc E) b2 rest"
proof -
  have fit: "length have + (fr_aadlen f + need) \<le> SSHBUF_SIZE_MAX" using l by simp
  from holds_reserve [OF h(1) fit] obtain cp b1 where rs: "sshbuf_reserve (pe_alloc E) (ss_incoming_packet r) (fr_aadlen f + need) = (Inr cp, b1)"
    and w: "\<forall>v. length v = fr_aadlen f + need \<longrightarrow> holds (pe_alloc E) (buf_poke cp v b1) (have @ v)" by blast
  let ?v = "drop (length have) pkt"
  have "have @ ?v = pkt" using l(3) by (metis append_take_drop_id)
  then have hb: "holds (pe_alloc E) (buf_poke cp ?v b1) pkt" using w l(2) by (metis add.assoc add_diff_cancel_left' length_drop)
  from holds_consume [OF h(2), of "fr_aadlen f + need + fr_authlen f"] l(1) obtain b2 where
    b2: "sshbuf_consume (ss_input r) (fr_aadlen f + need + fr_authlen f) = (None, b2)" "holds (pe_alloc E) b2 rest" by auto
  have "read_decrypt E f need r = Some (None, r\<lparr>ss_receive_context := ds', ss_incoming_packet := buf_poke cp ?v b1, ss_input := b2\<rparr>)"
    unfolding read_decrypt_def holds_read(2) [OF h(2)] rs using crypt b2(1) by (simp add: Let_def on_input_def)
  with hb b2(2) show ?thesis by blast
qed

lemma read_verify_ok:
  assumes "case fr_macon f of None \<Rightarrow> mac = [] | Some m \<Rightarrow> length mac = m_mac_len m \<and>
      (if m_etm m then Inr macbuf else mac_compute (pe_crypto E) m (ps_seqnr (ss_p_read r)) pkt) = Inr mac"
    and h: "holds (pe_alloc E) (ss_incoming_packet r) pkt" "holds (pe_alloc E) (ss_input r) (mac @ rest)"
  shows "\<exists>b. read_verify E f need macbuf r = Some (Inr (r\<lparr>ss_input := b\<rparr>)) \<and> holds (pe_alloc E) b rest"
proof (cases "fr_macon f")
  case None
  with assms show ?thesis by (intro exI [of _ "ss_input r"]) (simp add: read_verify_def)
next
  case (Some m)
  with assms(1) have m: "length mac = m_mac_len m"
    "(if m_etm m then Inr macbuf else mac_compute (pe_crypto E) m (ps_seqnr (ss_p_read r)) pkt) = Inr mac" by auto
  from holds_consume [OF h(2), of "m_mac_len m"] m(1) obtain b where
    b: "sshbuf_consume (ss_input r) (m_mac_len m) = (None, b)" "holds (pe_alloc E) b rest" by auto
  have "read_verify E f need macbuf r = Some (Inr (r\<lparr>ss_input := b\<rparr>))"
    unfolding read_verify_def holds_read(2) [OF h(1)] holds_read(2) [OF h(2)] Some using m b(1) by (simp add: on_input_def)
  with b(2) show ?thesis by blast
qed

lemma read_packet_image:
  assumes w: "body_image (pe_crypto E) f (ss_receive_context r) (ps_seqnr (ss_p_read r)) pkt have w ds'"
    and n: "ss_packlen r = peek_u32 pkt" "length pkt \<le> SSHBUF_SIZE_MAX"
    and h: "holds (pe_alloc E) (ss_incoming_packet r) have" "holds (pe_alloc E) (ss_input r) (w @ rest)"
  shows "\<exists>b b2. read_packet E f r = Some (Inr (r\<lparr>ss_receive_context := ds', ss_incoming_packet := b, ss_input := b2\<rparr>)) \<and>
    holds (pe_alloc E) b pkt \<and> holds (pe_alloc E) b2 rest"
proof -
  let ?C = "pe_crypto E" and ?q = "ps_seqnr (ss_p_read r)"
  from w obtain need out mac where need: "need = unat (read_need f (peek_u32 pkt))" "need mod fr_block_size f = 0"
    and l: "length have + fr_aadlen f + need = length pkt" "have = take (length have) pkt" "w = out @ mac"
      "length out = fr_aadlen f + need + fr_authlen f"
    and c: "\<forall>rest. cipher_crypt ?C (ss_receive_context r) ?q (out @ rest) need (fr_aadlen f) (fr_authlen f) = Inr (drop (length have) pkt, ds')"
    and m: "case fr_macon f of None \<Rightarrow> mac = [] | Some m \<Rightarrow> length mac = m_mac_len m \<and>
               mac_compute ?C m ?q (if m_etm m then take (fr_aadlen f + need) out else pkt) = Inr mac"
      "length mac = (case fr_macon f of None \<Rightarrow> 0 | Some m \<Rightarrow> m_mac_len m)"
    by (rule body_imageE)
  have h2: "holds (pe_alloc E) (ss_input r) (out @ mac @ rest)" using h(2) l(3) by simp
  have tk: "take (fr_aadlen f + need) (out @ mac @ rest) = take (fr_aadlen f + need) out" using l(4) by simp
  obtain macbuf where mb: "etm_mac E f ?q (take (fr_aadlen f + need) out) = Inr macbuf"
    "case fr_macon f of None \<Rightarrow> mac = [] | Some m \<Rightarrow> length mac = m_mac_len m \<and>
      (if m_etm m then Inr macbuf else mac_compute ?C m ?q pkt) = Inr mac"
    using m(1) by (cases "fr_macon f") (auto simp: etm_mac_def split: if_splits)
  from read_decrypt_image [OF c l(4) l(1,2) n(2) h(1) h2] obtain b b1 where
    d: "read_decrypt E f need r = Some (None, r\<lparr>ss_receive_context := ds', ss_incoming_packet := b, ss_input := b1\<rparr>)"
      "holds (pe_alloc E) b pkt" "holds (pe_alloc E) b1 (mac @ rest)" by blast
  let ?r = "r\<lparr>ss_receive_context := ds', ss_incoming_packet := b, ss_input := b1\<rparr>"
  have h3: "holds (pe_alloc E) (ss_incoming_packet ?r) pkt" "holds (pe_alloc E) (ss_input ?r) (mac @ rest)" using d(2,3) by simp_all
  have q: "?q = ps_seqnr (ss_p_read ?r)" by simp
  from read_verify_ok [OF mb(2) [unfolded q] h3] obtain b2 where
    v: "read_verify E f need macbuf ?r = Some (Inr (?r\<lparr>ss_input := b2\<rparr>))" "holds (pe_alloc E) b2 rest" by blast
  have len: "\<not> sshbuf_len (ss_input r) < fr_aadlen f + need + fr_authlen f + (case fr_macon f of None \<Rightarrow> 0 | Some m \<Rightarrow> m_mac_len m)"
    using holds_read(1) [OF h2] l(4) m(2) by simp
  have "read_packet E f r = read_verify E f need macbuf ?r"
    unfolding read_packet_def Let_def n(1) need(1) [symmetric] holds_read(2) [OF h2] tk mb(1) d(1) using len need(2) by simp
  with v d(2) show ?thesis by (intro exI [of _ b] exI [of _ b2]) simp
qed

lemma read_packet_short:
  assumes w: "body_image (pe_crypto E) f cc seqnr pkt have w ds'" "ss_packlen r = peek_u32 pkt"
    and h: "holds (pe_alloc E) (ss_input r) i" "length i < length w"
  shows "read_packet E f r = Some (Inl (None, r))"
proof -
  from w(1) obtain need out mac where "need = unat (read_need f (peek_u32 pkt))" "need mod fr_block_size f = 0" "w = out @ mac"
      "length out = fr_aadlen f + need + fr_authlen f" "length mac = (case fr_macon f of None \<Rightarrow> 0 | Some m \<Rightarrow> m_mac_len m)"
    by (rule body_imageE)
  with w(2) h holds_read(1) [OF h(1)] show ?thesis by (simp add: read_packet_def Let_def)
qed

text \<open>The parts of the state that a receiver changes while it waits for a packet.\<close>

definition rx_upd :: "32 word \<Rightarrow> 'e sshcipher_ctx \<Rightarrow> sshbuf \<Rightarrow> sshbuf \<Rightarrow> ('e, 'z) ssh \<Rightarrow> ('e, 'z) ssh" where
  "rx_upd n cc inc inp r = r\<lparr>ss_packlen := n, ss_receive_context := cc, ss_incoming_packet := inc, ss_input := inp\<rparr>"

lemma rx_upd_self: "rx_upd (ss_packlen r) (ss_receive_context r) (ss_incoming_packet r) (ss_input r) r = r"
  by (simp add: rx_upd_def)

lemma rx_upd_upd: "rx_upd n cc inc inp (rx_upd n' cc' inc' inp' r) = rx_upd n cc inc inp r"
  by (simp add: rx_upd_def)

lemma rx_upd_fields [simp]:
  "ss_packlen (rx_upd n cc inc inp r) = n" "ss_receive_context (rx_upd n cc inc inp r) = cc"
  "ss_incoming_packet (rx_upd n cc inc inp r) = inc" "ss_input (rx_upd n cc inc inp r) = inp"
  "ss_p_read (rx_upd n cc inc inp r) = ss_p_read r" "ss_p_send (rx_upd n cc inc inp r) = ss_p_send r"
  "ss_newkeys_in (rx_upd n cc inc inp r) = ss_newkeys_in r" "ss_packet_discard (rx_upd n cc inc inp r) = ss_packet_discard r"
  "ss_compression_in (rx_upd n cc inc inp r) = ss_compression_in r" "ss_compression_buffer (rx_upd n cc inc inp r) = ss_compression_buffer r"
  by (simp_all add: rx_upd_def)

lemma get_length_short: "length cp < 4 \<Longrightarrow> \<exists>x. cipher_get_length C cc seqnr cp = Inl x"
  by (simp add: cipher_get_length_def chachapoly_get_length_def)

lemma read_length_aad_ok:
  assumes "\<forall>rest. cipher_get_length (pe_crypto E) (ss_receive_context r) (ps_seqnr (ss_p_read r)) (take 4 w @ rest) = Inr n"
    and "holds (pe_alloc E) (ss_input r) i" "take 4 i = take 4 w" "\<not> bad_length n" "holds (pe_alloc E) (ss_incoming_packet r) bs"
  shows "\<exists>b. read_length_aad E r = Some (Inr (rx_upd n (ss_receive_context r) b (ss_input r) r)) \<and> holds (pe_alloc E) b []"
proof -
  have "i = take 4 w @ drop 4 i" using assms(3) by (metis append_take_drop_id)
  then have "cipher_get_length (pe_crypto E) (ss_receive_context r) (ps_seqnr (ss_p_read r)) i = Inr n" using assms(1) by metis
  then have "read_length_aad E r = Some (Inr (r\<lparr>ss_packlen := n, ss_incoming_packet := sshbuf_reset (pe_alloc E) (ss_incoming_packet r)\<rparr>))"
    unfolding read_length_aad_def holds_read(2) [OF assms(2)] using assms(4) by simp
  moreover have "r\<lparr>ss_packlen := n, ss_incoming_packet := b\<rparr> = rx_upd n (ss_receive_context r) b (ss_input r) r" for b by (simp add: rx_upd_def)
  ultimately show ?thesis using holds_reset [OF assms(5)] by auto
qed

lemma read_first_block_ok:
  assumes c: "\<forall>rest q. cipher_crypt (pe_crypto E) (ss_receive_context r) q (take (fr_block_size f) w @ rest) (fr_block_size f) 0 0 =
      Inr (take (fr_block_size f) pkt, cc1)"
    and i: "holds (pe_alloc E) (ss_input r) i" "take (fr_block_size f) i = take (fr_block_size f) w" "fr_block_size f \<le> length i"
    and p: "\<not> bad_length (peek_u32 pkt)" "fr_block_size f \<in> {8, 16}" "fr_block_size f \<le> length pkt" "holds (pe_alloc E) (ss_incoming_packet r) bs"
  shows "\<exists>b b2. read_first_block E f r = Some (Inr (rx_upd (peek_u32 pkt) cc1 b b2 r)) \<and>
    holds (pe_alloc E) b (take (fr_block_size f) pkt) \<and> holds (pe_alloc E) b2 (drop (fr_block_size f) i)"
proof -
  let ?k = "fr_block_size f"
  have fit: "length ([] :: byte list) + ?k \<le> SSHBUF_SIZE_MAX" using p(2) by (auto simp: sshbuf_consts)
  from holds_reserve [OF holds_reset [OF p(4)] fit] obtain cp b1 where
    rs: "sshbuf_reserve (pe_alloc E) (sshbuf_reset (pe_alloc E) (ss_incoming_packet r)) ?k = (Inr cp, b1)"
    and hb: "\<forall>v. length v = ?k \<longrightarrow> holds (pe_alloc E) (buf_poke cp v b1) ([] @ v)" by blast
  let ?b = "buf_poke cp (take ?k pkt) b1"
  have hb: "holds (pe_alloc E) ?b (take ?k pkt)" using hb p(3) by simp
  have n: "peek_u32 (ptr_bytes ?b) = peek_u32 pkt" using holds_read(2) [OF hb] p(2) by auto
  have "i = take ?k w @ drop ?k i" using i(2) by (metis append_take_drop_id)
  then have cr: "cipher_crypt (pe_crypto E) (ss_receive_context r) q i ?k 0 0 = Inr (take ?k pkt, cc1)" for q using c by metis
  from holds_consume [OF i(1,3)] obtain b2 where b2: "sshbuf_consume (ss_input r) ?k = (None, b2)" "holds (pe_alloc E) b2 (drop ?k i)" by blast
  have "read_first_block E f r = Some (Inr (rx_upd (peek_u32 pkt) cc1 ?b b2 r))"
    unfolding read_first_block_def holds_read(1,2) [OF i(1)] rs
    using i(3) cr n p(1) b2(1) by (simp add: Let_def on_input_def rx_upd_def)
  with hb b2(2) show ?thesis by blast
qed

text \<open>The receiver waits for the packet \<open>pkt\<close>, of which the bytes \<open>w\<close> are still to be taken from the input.\<close>

definition awaits :: "('e, 'z) packet_env \<Rightarrow> framing \<Rightarrow> ('e, 'z) ssh \<Rightarrow> byte list \<Rightarrow> byte list \<Rightarrow> 'e sshcipher_ctx \<Rightarrow> bool" where
  "awaits E f r pkt w ds' \<longleftrightarrow> \<not> bad_length (peek_u32 pkt) \<and> fr_block_size f \<in> {8, 16} \<and> fr_block_size f \<le> length pkt \<and> length pkt \<le> SSHBUF_SIZE_MAX \<and>
     (\<exists>have. holds (pe_alloc E) (ss_incoming_packet r) have \<and>
        (ss_packlen r = 0 \<and> wire_image (pe_crypto E) f (ss_receive_context r) (ps_seqnr (ss_p_read r)) pkt w ds' \<or>
         ss_packlen r = peek_u32 pkt \<and> body_image (pe_crypto E) f (ss_receive_context r) (ps_seqnr (ss_p_read r)) pkt have w ds'))"

text \<open>\<open>poll_packet\<close> is the part of \<open>ssh_packet_read_poll2\<close> up to the verified packet.\<close>

definition poll_packet :: "('e, 'z) packet_env \<Rightarrow> framing \<Rightarrow> ('e, 'z) ssh \<Rightarrow> ('e, 'z) ssh step" where
  "poll_packet E f r = bind_step (read_length E f r) (read_packet E f)"

text \<open>The length is read as soon as it is there; then the receiver is in the second situation.\<close>

lemma read_length_cases:
  assumes aw: "awaits E f r pkt w ds'" and h: "holds (pe_alloc E) (ss_input r) i" "prefix i w \<or> prefix w i"
  shows "read_length E f r = Some (Inl (None, r)) \<and> length i < length w \<or>
    (\<exists>cc b b2 k have. read_length E f r = Some (Inr (rx_upd (peek_u32 pkt) cc b b2 r)) \<and> k \<le> length i \<and> k \<le> length w \<and>
       holds (pe_alloc E) b2 (drop k i) \<and> holds (pe_alloc E) b have \<and>
       body_image (pe_crypto E) f cc (ps_seqnr (ss_p_read r)) pkt have (drop k w) ds')"
proof -
  from aw obtain have0 where p: "\<not> bad_length (peek_u32 pkt)" "fr_block_size f \<in> {8, 16}" "fr_block_size f \<le> length pkt"
    and h0: "holds (pe_alloc E) (ss_incoming_packet r) have0" by (auto simp: awaits_def)
  have pre: "take n i = take n w" if "n \<le> length i" "n \<le> length w" for n
    using h(2) that by (auto simp: prefix_def)
  have nz: "peek_u32 pkt \<noteq> 0" using p(1) by (auto simp: bad_length_def)
  consider (start) "ss_packlen r = 0" "wire_image (pe_crypto E) f (ss_receive_context r) (ps_seqnr (ss_p_read r)) pkt w ds'"
    | (mid) have1 where "ss_packlen r = peek_u32 pkt" "holds (pe_alloc E) (ss_incoming_packet r) have1"
        "body_image (pe_crypto E) f (ss_receive_context r) (ps_seqnr (ss_p_read r)) pkt have1 w ds'"
    using aw by (auto simp: awaits_def)
  then show ?thesis
  proof cases
    case mid
    then have "read_length E f r = Some (Inr (rx_upd (peek_u32 pkt) (ss_receive_context r) (ss_incoming_packet r) (ss_input r) r))"
      using nz rx_upd_self [of r] by (simp add: read_length_def)
    moreover have "holds (pe_alloc E) (ss_input r) (drop 0 i)" "body_image (pe_crypto E) f (ss_receive_context r) (ps_seqnr (ss_p_read r)) pkt have1 (drop 0 w) ds'"
      using h(1) mid(3) by simp_all
    ultimately show ?thesis using mid(2) by (intro disjI2 exI [of _ "ss_receive_context r"] exI [of _ "ss_incoming_packet r"]
        exI [of _ "ss_input r"] exI [of _ 0] exI [of _ have1]) simp
  next
    case start
    show ?thesis
    proof (cases "fr_aadlen f = 0")
      case True
      with start(2) obtain cc1 where w: "fr_block_size f \<le> length w"
        "\<forall>rest q. cipher_crypt (pe_crypto E) (ss_receive_context r) q (take (fr_block_size f) w @ rest) (fr_block_size f) 0 0 =
           Inr (take (fr_block_size f) pkt, cc1)"
        "body_image (pe_crypto E) f cc1 (ps_seqnr (ss_p_read r)) pkt (take (fr_block_size f) pkt) (drop (fr_block_size f) w) ds'"
        by (auto simp: wire_image_def)
      have rl: "read_length E f r = read_first_block E f r" using True start(1) by (simp add: read_length_def)
      show ?thesis
      proof (cases "length i < fr_block_size f")
        case True
        then show ?thesis using rl w(1) holds_read(1) [OF h(1)] by (simp add: read_first_block_def)
      next
        case False
        then have "take (fr_block_size f) i = take (fr_block_size f) w" "fr_block_size f \<le> length i" using pre w(1) by auto
        from read_first_block_ok [OF w(2) h(1) this p h0] obtain b b2 where
          "read_first_block E f r = Some (Inr (rx_upd (peek_u32 pkt) cc1 b b2 r))"
          "holds (pe_alloc E) b (take (fr_block_size f) pkt)" "holds (pe_alloc E) b2 (drop (fr_block_size f) i)" by blast
        with rl w(1,3) False show ?thesis by (intro disjI2 exI [of _ cc1] exI [of _ b] exI [of _ b2] exI [of _ "fr_block_size f"]
            exI [of _ "take (fr_block_size f) pkt"]) simp
      qed
    next
      case False
      with start(2) have w: "4 \<le> length w" "body_image (pe_crypto E) f (ss_receive_context r) (ps_seqnr (ss_p_read r)) pkt [] w ds'"
        "\<forall>rest. cipher_get_length (pe_crypto E) (ss_receive_context r) (ps_seqnr (ss_p_read r)) (take 4 w @ rest) = Inr (peek_u32 pkt)"
        by (auto simp: wire_image_def)
      have rl: "read_length E f r = read_length_aad E r" using False start(1) by (simp add: read_length_def)
      show ?thesis
      proof (cases "length i < 4")
        case True
        from get_length_short [OF True] obtain x where
          "cipher_get_length (pe_crypto E) (ss_receive_context r) (ps_seqnr (ss_p_read r)) i = Inl x" by blast
        then have "read_length_aad E r = Some (Inl (None, r))" unfolding read_length_aad_def holds_read(2) [OF h(1)] by simp
        with rl True w(1) show ?thesis by simp
      next
        case long: False
        then have "take 4 i = take 4 w" using pre w(1) by simp
        from read_length_aad_ok [OF w(3) h(1) this p(1) h0] obtain b where
          b: "read_length E f r = Some (Inr (rx_upd (peek_u32 pkt) (ss_receive_context r) b (ss_input r) r))" "holds (pe_alloc E) b []"
          using rl by auto
        have "holds (pe_alloc E) (ss_input r) (drop 0 i)" "body_image (pe_crypto E) f (ss_receive_context r) (ps_seqnr (ss_p_read r)) pkt [] (drop 0 w) ds'"
          using h(1) w(2) by simp_all
        with b show ?thesis by (intro disjI2 exI [of _ "ss_receive_context r"] exI [of _ b] exI [of _ "ss_input r"]
            exI [of _ 0] exI [of _ "[]"]) simp
      qed
    qed
  qed
qed

lemma poll_complete:
  assumes aw: "awaits E f r pkt w ds'" and h: "holds (pe_alloc E) (ss_input r) (w @ rest)"
  shows "\<exists>b b2. poll_packet E f r = Some (Inr (rx_upd (peek_u32 pkt) ds' b b2 r)) \<and> holds (pe_alloc E) b pkt \<and> holds (pe_alloc E) b2 rest"
proof -
  have "prefix (w @ rest) w \<or> prefix w (w @ rest)" by simp
  from read_length_cases [OF aw h this] obtain cc b b2 k "have" where
    l: "read_length E f r = Some (Inr (rx_upd (peek_u32 pkt) cc b b2 r))" "k \<le> length w"
      "holds (pe_alloc E) b2 (drop k (w @ rest))" "holds (pe_alloc E) b have"
      "body_image (pe_crypto E) f cc (ps_seqnr (ss_p_read r)) pkt have (drop k w) ds'" by fastforce
  let ?r = "rx_upd (peek_u32 pkt) cc b b2 r"
  have "length pkt \<le> SSHBUF_SIZE_MAX" using aw by (simp add: awaits_def)
  from read_packet_image [of E f ?r pkt "have" "drop k w" ds' rest] this l obtain b' b2' where
    "read_packet E f ?r = Some (Inr (?r\<lparr>ss_receive_context := ds', ss_incoming_packet := b', ss_input := b2'\<rparr>))"
    "holds (pe_alloc E) b' pkt" "holds (pe_alloc E) b2' rest" by auto
  with l(1) show ?thesis by (intro exI [of _ b'] exI [of _ b2']) (simp add: poll_packet_def rx_upd_def)
qed

lemma poll_short:
  assumes aw: "awaits E f r pkt w ds'" and h: "holds (pe_alloc E) (ss_input r) i" "prefix i w" "length i < length w"
  shows "\<exists>k r'. poll_packet E f r = Some (Inl (None, r')) \<and> (\<exists>n cc b b2. r' = rx_upd n cc b b2 r) \<and>
    awaits E f r' pkt (drop k w) ds' \<and> holds (pe_alloc E) (ss_input r') (drop k i) \<and> k \<le> length i"
proof -
  have "prefix i w \<or> prefix w i" using h(2) by simp
  from read_length_cases [OF aw h(1) this] consider (wait) "read_length E f r = Some (Inl (None, r))"
    | (go) cc b b2 k "have" where "read_length E f r = Some (Inr (rx_upd (peek_u32 pkt) cc b b2 r))" "k \<le> length i"
      "holds (pe_alloc E) b2 (drop k i)" "holds (pe_alloc E) b have"
      "body_image (pe_crypto E) f cc (ps_seqnr (ss_p_read r)) pkt have (drop k w) ds'" by fastforce
  then show ?thesis
  proof cases
    case wait
    have "\<exists>n cc b b2. r = rx_upd n cc b b2 r" using rx_upd_self [of r] by metis
    with wait aw h(1) show ?thesis by (intro exI [of _ 0] exI [of _ r]) (simp add: poll_packet_def)
  next
    case go
    let ?r = "rx_upd (peek_u32 pkt) cc b b2 r"
    have "length (drop k i) < length (drop k w)" using h(3) go(2) by (simp add: diff_less_mono)
    then have "read_packet E f ?r = Some (Inl (None, ?r))"
      using read_packet_short [OF go(5), of ?r] go(3) by simp
    moreover have "awaits E f ?r pkt (drop k w) ds'" using aw go(4,5) by (auto simp: awaits_def)
    moreover have "\<exists>n cc b b2. ?r = rx_upd n cc b b2 r" by blast
    ultimately show ?thesis using go(1-3) by (intro exI [of _ k] exI [of _ ?r]) (simp add: poll_packet_def)
  qed
qed

section \<open>The payload\<close>

lemma read_unpad_ok:
  assumes h: "holds (pe_alloc E) (ss_incoming_packet r) (packet_bytes payload pad)" and p: "4 \<le> length pad" "length pad < 256"
  shows "\<exists>b. read_unpad E r = Some (None, r\<lparr>ss_incoming_packet := b\<rparr>) \<and> holds (pe_alloc E) b payload"
proof -
  have l: "ptr_bytes (ss_incoming_packet r) ! 4 = of_nat (length pad)" "length (ptr_bytes (ss_incoming_packet r)) > 4"
    using holds_read(2) [OF h] by (simp_all add: packet_bytes_def nth_append)
  have u: "unat (of_nat (length pad) :: byte) = length pad" using p(2) by (simp add: unat_of_nat)
  then have n4: "\<not> (of_nat (length pad) :: byte) < 4" using p(1) by (simp add: word_less_nat_alt)
  from holds_consume [OF h, of 5] obtain b1 where b1: "sshbuf_consume (ss_incoming_packet r) 5 = (None, b1)"
    "holds (pe_alloc E) b1 (payload @ pad)" by (auto simp: packet_bytes_def)
  from holds_consume_end [OF b1(2), of "length pad"] obtain b2 where b2: "sshbuf_consume_end b1 (length pad) = (None, b2)"
    "holds (pe_alloc E) b2 payload" by auto
  have "read_unpad E r = Some (None, r\<lparr>ss_incoming_packet := b2\<rparr>)"
    unfolding read_unpad_def l(1) Let_def u using l(2) n4 b1(1) b2(1) by (simp add: on_incoming_def)
  with b2(2) show ?thesis by blast
qed

section \<open>Compression\<close>

text \<open>What the two loops compute, apart from the buffers: all output that \<open>deflate\<close> gives for an input, and all that
  \<open>inflate\<close> gives until it needs more.\<close>

inductive deflates :: "('e, 'z) packet_env \<Rightarrow> byte list \<Rightarrow> 'z \<Rightarrow> byte list \<Rightarrow> 'z \<Rightarrow> bool" for E where
  last_chunk: "pe_deflate E inp z = (Z_OK, chunk, inp', z') \<Longrightarrow> length chunk < ZBUF \<Longrightarrow> deflates E inp z chunk z'"
| full_chunk: "pe_deflate E inp z = (Z_OK, chunk, inp', z1) \<Longrightarrow> \<not> length chunk < ZBUF \<Longrightarrow> deflates E inp' z1 out z' \<Longrightarrow>
    deflates E inp z (chunk @ out) z'"

inductive inflates :: "('e, 'z) packet_env \<Rightarrow> byte list \<Rightarrow> 'z \<Rightarrow> byte list \<Rightarrow> 'z \<Rightarrow> bool" for E where
  no_more: "pe_inflate E inp z = (Z_BUF_ERROR, chunk, inp', z') \<Longrightarrow> inflates E inp z [] z'"
| some_chunk: "pe_inflate E inp z = (Z_OK, chunk, inp', z1) \<Longrightarrow> inflates E inp' z1 out z' \<Longrightarrow> inflates E inp z (chunk @ out) z'"

lemma deflate_loop_ok:
  assumes "deflates E inp z y z'" "holds (pe_alloc E) out bs" "length bs + length y \<le> SSHBUF_SIZE_MAX" "z_stream c = z"
  shows "\<exists>out'. deflate_loop E inp out c = Some (None, out', c\<lparr>z_stream := z'\<rparr>) \<and> holds (pe_alloc E) out' (bs @ y)"
  using assms
proof (induction arbitrary: out bs c rule: deflates.induct)
  case (last_chunk inp z chunk inp' z')
  from holds_put [OF last_chunk.prems(1), of chunk] last_chunk.prems(2) obtain out' where
    "sshbuf_put (pe_alloc E) out chunk = (None, out')" "holds (pe_alloc E) out' (bs @ chunk)" by auto
  with last_chunk.hyps last_chunk.prems(3) show ?case by (subst deflate_loop.simps) (simp add: Let_def)
next
  case (full_chunk inp z chunk inp' z1 y z')
  from holds_put [OF full_chunk.prems(1), of chunk] full_chunk.prems(2) obtain out1 where
    p: "sshbuf_put (pe_alloc E) out chunk = (None, out1)" "holds (pe_alloc E) out1 (bs @ chunk)" by auto
  from full_chunk.IH [OF p(2), of "c\<lparr>z_stream := z1\<rparr>"] full_chunk.prems(2) obtain out' where
    "deflate_loop E inp' out1 (c\<lparr>z_stream := z1\<rparr>) = Some (None, out', c\<lparr>z_stream := z'\<rparr>)" "holds (pe_alloc E) out' (bs @ chunk @ y)" by auto
  with full_chunk.hyps(1,2) full_chunk.prems(3) p(1) show ?case by (subst deflate_loop.simps) (simp add: Let_def)
qed

lemma inflate_loop_ok:
  assumes "inflates E inp z y z'" "holds (pe_alloc E) out bs" "length bs + length y \<le> SSHBUF_SIZE_MAX" "z_stream c = z"
  shows "\<exists>out'. inflate_loop E inp out c = Some (None, out', c\<lparr>z_stream := z'\<rparr>) \<and> holds (pe_alloc E) out' (bs @ y)"
  using assms
proof (induction arbitrary: out bs c rule: inflates.induct)
  case (no_more inp z chunk inp' z')
  then show ?case by (subst inflate_loop.simps) (simp add: Let_def)
next
  case (some_chunk inp z chunk inp' z1 y z')
  from holds_put [OF some_chunk.prems(1), of chunk] some_chunk.prems(2) obtain out1 where
    p: "sshbuf_put (pe_alloc E) out chunk = (None, out1)" "holds (pe_alloc E) out1 (bs @ chunk)" by auto
  from some_chunk.IH [OF p(2), of "c\<lparr>z_stream := z1\<rparr>"] some_chunk.prems(2) obtain out' where
    "inflate_loop E inp' out1 (c\<lparr>z_stream := z1\<rparr>) = Some (None, out', c\<lparr>z_stream := z'\<rparr>)" "holds (pe_alloc E) out' (bs @ chunk @ y)" by auto
  with some_chunk.hyps(1) some_chunk.prems(3) p(1) show ?case by (subst inflate_loop.simps) (simp add: Let_def)
qed

definition has_buffer :: "('e, 'z) packet_env \<Rightarrow> ('e, 'z) ssh \<Rightarrow> bool" where
  "has_buffer E s \<longleftrightarrow> (\<exists>cb bs. ss_compression_buffer s = Some cb \<and> holds (pe_alloc E) cb bs)"

lemma send_compress_ok:
  assumes c: "fr_comp f" "z_started (ss_compression_out s)" "has_buffer E s"
    and h: "holds (pe_alloc E) (ss_outgoing_packet s) (h @ payload)" "length h = 5" "payload \<noteq> []"
    and d: "deflates E payload (z_stream (ss_compression_out s)) y z'" "length y + 5 \<le> SSHBUF_SIZE_MAX"
  shows "\<exists>cb b. send_compress E f s = Some (None, s\<lparr>ss_compression_buffer := Some cb,
      ss_compression_out := (ss_compression_out s)\<lparr>z_stream := z'\<rparr>, ss_outgoing_packet := b\<rparr>) \<and>
    holds (pe_alloc E) b ([0, 0, 0, 0, 0] @ y) \<and> holds (pe_alloc E) cb y"
proof -
  from c(3) obtain cb0 bs0 where cb0: "ss_compression_buffer s = Some cb0" "holds (pe_alloc E) cb0 bs0" by (auto simp: has_buffer_def)
  from holds_consume [OF h(1), of 5] h(2) obtain b1 where b1: "sshbuf_consume (ss_outgoing_packet s) 5 = (None, b1)"
    "holds (pe_alloc E) b1 payload" by auto
  from deflate_loop_ok [OF d(1) holds_reset [OF cb0(2)], of "ss_compression_out s"] d(2) obtain cb where
    cb: "deflate_loop E payload (sshbuf_reset (pe_alloc E) cb0) (ss_compression_out s) = Some (None, cb, (ss_compression_out s)\<lparr>z_stream := z'\<rparr>)"
      "holds (pe_alloc E) cb y" by auto
  have cmp: "compress_buffer E b1 (sshbuf_reset (pe_alloc E) cb0) (ss_compression_out s) = Some (None, cb, (ss_compression_out s)\<lparr>z_stream := z'\<rparr>)"
    unfolding compress_buffer_def holds_read(1,2) [OF b1(2)]
    using c(2) h(3) cb(1) holds_poke [OF b1(2), of "[]"] by auto
  from holds_put [OF holds_reset [OF b1(2)], of "[0, 0, 0, 0, 0]"] d(2) obtain b2 where
    b2: "sshbuf_put (pe_alloc E) (sshbuf_reset (pe_alloc E) b1) [0, 0, 0, 0, 0] = (None, b2)" "holds (pe_alloc E) b2 [0, 0, 0, 0, 0]" by auto
  from holds_put [OF b2(2), of y] d(2) obtain b where
    b: "sshbuf_put (pe_alloc E) b2 y = (None, b)" "holds (pe_alloc E) b ([0, 0, 0, 0, 0] @ y)" by auto
  have pb: "sshbuf_putb (pe_alloc E) b2 cb = (None, b)" using b(1) holds_read(1,2) [OF cb(2)] by (simp add: sshbuf_putb_def)
  have "send_compress E f s = Some (None, s\<lparr>ss_compression_buffer := Some cb,
      ss_compression_out := (ss_compression_out s)\<lparr>z_stream := z'\<rparr>, ss_outgoing_packet := b\<rparr>)"
    unfolding send_compress_def using c(1) cb0(1) b1(1) cmp b2(1) pb by (simp add: on_outgoing_def)
  with b(2) cb(2) show ?thesis by blast
qed

lemma read_uncompress_ok:
  assumes c: "fr_comp f" "z_started (ss_compression_in r)" "has_buffer E r"
    and h: "holds (pe_alloc E) (ss_incoming_packet r) y"
    and d: "inflates E y (z_stream (ss_compression_in r)) payload z'" "length payload \<le> SSHBUF_SIZE_MAX"
  shows "\<exists>cb b. read_uncompress E f r = Some (None, r\<lparr>ss_compression_buffer := Some cb,
      ss_compression_in := (ss_compression_in r)\<lparr>z_stream := z'\<rparr>, ss_incoming_packet := b\<rparr>) \<and>
    holds (pe_alloc E) b payload \<and> holds (pe_alloc E) cb payload"
proof -
  from c(3) obtain cb0 bs0 where cb0: "ss_compression_buffer r = Some cb0" "holds (pe_alloc E) cb0 bs0" by (auto simp: has_buffer_def)
  from inflate_loop_ok [OF d(1) holds_reset [OF cb0(2)], of "ss_compression_in r"] d(2) obtain cb where
    cb: "inflate_loop E y (sshbuf_reset (pe_alloc E) cb0) (ss_compression_in r) = Some (None, cb, (ss_compression_in r)\<lparr>z_stream := z'\<rparr>)"
      "holds (pe_alloc E) cb payload" by auto
  have cmp: "uncompress_buffer E (ss_incoming_packet r) (sshbuf_reset (pe_alloc E) cb0) (ss_compression_in r) =
      Some (None, cb, (ss_compression_in r)\<lparr>z_stream := z'\<rparr>)"
    unfolding uncompress_buffer_def holds_read(2) [OF h] using c(2) cb(1) holds_poke [OF h, of "[]"] by auto
  from holds_put [OF holds_reset [OF h], of payload] d(2) obtain b where
    b: "sshbuf_put (pe_alloc E) (sshbuf_reset (pe_alloc E) (ss_incoming_packet r)) payload = (None, b)" "holds (pe_alloc E) b payload" by auto
  have pb: "sshbuf_putb (pe_alloc E) (sshbuf_reset (pe_alloc E) (ss_incoming_packet r)) cb = (None, b)"
    using b(1) holds_read(1,2) [OF cb(2)] by (simp add: sshbuf_putb_def)
  have "read_uncompress E f r = Some (None, r\<lparr>ss_compression_buffer := Some cb,
      ss_compression_in := (ss_compression_in r)\<lparr>z_stream := z'\<rparr>, ss_incoming_packet := b\<rparr>)"
    unfolding read_uncompress_def using c(1) cb0(1) cmp pb by (simp add: on_incoming_def)
  with b(2) cb(2) show ?thesis by blast
qed

section \<open>Two ends\<close>

text \<open>\<open>Z\<close> relates a stream that compresses to one that decompresses what it gave.  Data of a packet comes back, and is at
  most a little longer when it is compressed.\<close>

definition zlib_laws :: "('e, 'z) packet_env \<Rightarrow> ('e, 'z) packet_env \<Rightarrow> ('z \<Rightarrow> 'z \<Rightarrow> bool) \<Rightarrow> bool" where
  "zlib_laws Es Er Z \<longleftrightarrow>
     (\<forall>zo zi x. Z zo zi \<longrightarrow> x \<noteq> [] \<longrightarrow>
        (\<exists>y zo' zi'. deflates Es x zo y zo' \<and> inflates Er y zi x zi' \<and> Z zo' zi' \<and> length y \<le> length x + 4096))"

definition comp_linked :: "('e, 'z) packet_env \<Rightarrow> ('e, 'z) packet_env \<Rightarrow> ('z \<Rightarrow> 'z \<Rightarrow> bool) \<Rightarrow> framing \<Rightarrow> ('e, 'z) ssh \<Rightarrow> ('e, 'z) ssh \<Rightarrow> bool" where
  "comp_linked Es Er Z f s r \<longleftrightarrow>
     (fr_comp f \<longrightarrow> z_started (ss_compression_out s) \<and> z_started (ss_compression_in r) \<and> has_buffer Es s \<and> has_buffer Er r \<and>
        Z (z_stream (ss_compression_out s)) (z_stream (ss_compression_in r)))"

text \<open>What the ends of one direction have in common between two packets: keys, counters, contexts, compression.\<close>

definition linked ::
  "('e, 'z) packet_env \<Rightarrow> ('e, 'z) packet_env \<Rightarrow> (sshcipher \<Rightarrow> 'e \<Rightarrow> 'e \<Rightarrow> bool) \<Rightarrow> ('z \<Rightarrow> 'z \<Rightarrow> bool) \<Rightarrow> ('e, 'z) ssh \<Rightarrow> ('e, 'z) ssh \<Rightarrow> bool" where
  "linked Es Er P Z s r \<longleftrightarrow>
     ss_newkeys_in r = ss_newkeys_out s \<and> ss_p_read r = ss_p_send s \<and> ctx_pair P (ss_send_context s) (ss_receive_context r) \<and>
     (\<exists>f. framing_of (ss_newkeys_out s) = Some f \<and> framing_fits f (ss_send_context s) \<and> mac_total (pe_crypto Es) (fr_macon f) \<and>
        comp_linked Es Er Z f s r) \<and>
     (\<exists>bs. holds (pe_alloc Es) (ss_outgoing_packet s) bs) \<and> (\<exists>bs. holds (pe_alloc Er) (ss_incoming_packet r) bs) \<and>
     ss_packlen r = 0 \<and> ss_packet_discard r = 0"

text \<open>What the sender changes, up to the counters.\<close>

definition tx_upd ::
  "sshbuf option \<Rightarrow> 'z compression \<Rightarrow> 'e sshcipher_ctx \<Rightarrow> sshbuf \<Rightarrow> sshbuf \<Rightarrow> ('e, 'z) ssh \<Rightarrow> ('e, 'z) ssh" where
  "tx_upd cb c cc out b s = s\<lparr>ss_compression_buffer := cb, ss_compression_out := c, ss_extra_pad := 0, ss_send_context := cc, ss_output := out,
     ss_outgoing_packet := b\<rparr>"

lemma tx_upd_fields [simp]:
  "ss_compression_buffer (tx_upd cb c cc out b s) = cb" "ss_compression_out (tx_upd cb c cc out b s) = c"
  "ss_send_context (tx_upd cb c cc out b s) = cc" "ss_output (tx_upd cb c cc out b s) = out" "ss_outgoing_packet (tx_upd cb c cc out b s) = b"
  "ss_p_send (tx_upd cb c cc out b s) = ss_p_send s" "ss_newkeys_out (tx_upd cb c cc out b s) = ss_newkeys_out s"
  "sh_compat (tx_upd cb c cc out b s) = sh_compat s" "ss_extra_pad (tx_upd cb c cc out b s) = 0"
  "ss_outgoing (tx_upd cb c cc out b s) = ss_outgoing s" "ss_rekeying (tx_upd cb c cc out b s) = ss_rekeying s"
  "sh_kex (tx_upd cb c cc out b s) = sh_kex s" "ss_server_side (tx_upd cb c cc out b s) = ss_server_side s"
  by (simp_all add: tx_upd_def)

text \<open>What the receiver needs to know to undo the compression of one packet.\<close>

definition unpacks ::
  "('e, 'z) packet_env \<Rightarrow> ('z \<Rightarrow> 'z \<Rightarrow> bool) \<Rightarrow> framing \<Rightarrow> 'z compression \<Rightarrow> 'z compression \<Rightarrow> byte list \<Rightarrow> byte list \<Rightarrow> bool" where
  "unpacks Er Z f c ci data payload \<longleftrightarrow>
     (if fr_comp f then \<exists>zi'. inflates Er data (z_stream ci) payload zi' \<and> Z (z_stream c) zi' else data = payload)"

definition keeps_buffer :: "('e, 'z) packet_env \<Rightarrow> sshbuf option \<Rightarrow> sshbuf option \<Rightarrow> bool" where
  "keeps_buffer E cb cb' \<longleftrightarrow> cb' = cb \<or> (\<exists>b bs. cb' = Some b \<and> holds (pe_alloc E) b bs)"

lemma send_compress_any:
  assumes z: "zlib_laws Es Er Z" "comp_linked Es Er Z f s r"
    and h: "holds (pe_alloc Es) (ss_outgoing_packet s) (h @ payload)" "length h = 5" "payload \<noteq> []" "length payload + 4352 \<le> PACKET_MAX_SIZE"
  shows "\<exists>cb c b h' data. send_compress Es f s = Some (None, s\<lparr>ss_compression_buffer := cb, ss_compression_out := c, ss_outgoing_packet := b\<rparr>) \<and>
    holds (pe_alloc Es) b (h' @ data) \<and> length h' = 5 \<and> length data + 256 \<le> PACKET_MAX_SIZE \<and>
    unpacks Er Z f c (ss_compression_in r) data payload \<and>
    (fr_comp f \<longrightarrow> z_started c \<and> (\<exists>cb1 bs. cb = Some cb1 \<and> holds (pe_alloc Es) cb1 bs)) \<and> keeps_buffer Es (ss_compression_buffer s) cb"
proof (cases "fr_comp f")
  case False
  then show ?thesis using h
    by (intro exI [of _ "ss_compression_buffer s"] exI [of _ "ss_compression_out s"] exI [of _ "ss_outgoing_packet s"] exI [of _ h] exI [of _ payload])
      (simp add: send_compress_def unpacks_def keeps_buffer_def)
next
  case True
  with z(2) have c: "z_started (ss_compression_out s)" "has_buffer Es s" "Z (z_stream (ss_compression_out s)) (z_stream (ss_compression_in r))"
    by (simp_all add: comp_linked_def)
  from z(1) c(3) h(3) obtain y zo' zi' where y: "deflates Es payload (z_stream (ss_compression_out s)) y zo'"
    "inflates Er y (z_stream (ss_compression_in r)) payload zi'" "Z zo' zi'" "length y \<le> length payload + 4096"
    unfolding zlib_laws_def by metis
  have "length y + 5 \<le> SSHBUF_SIZE_MAX" using y(4) h(4) by (simp add: PACKET_MAX_SIZE_def sshbuf_consts)
  from send_compress_ok [OF True c(1,2) h(1-3) y(1) this] obtain cb b where
    "send_compress Es f s = Some (None, s\<lparr>ss_compression_buffer := Some cb,
      ss_compression_out := (ss_compression_out s)\<lparr>z_stream := zo'\<rparr>, ss_outgoing_packet := b\<rparr>)"
    "holds (pe_alloc Es) b ([0, 0, 0, 0, 0] @ y)" "holds (pe_alloc Es) cb y" by blast
  with True y h(4) c(1) show ?thesis
    by (intro exI [of _ "Some cb"] exI [of _ "(ss_compression_out s)\<lparr>z_stream := zo'\<rparr>"] exI [of _ b] exI [of _ "[0, 0, 0, 0, 0]"] exI [of _ y])
      (auto simp: unpacks_def keeps_buffer_def)
qed

lemma then_ok_assoc: "then_ok (then_ok m k) l = then_ok m (\<lambda>s. then_ok (k s) l)"
  by (auto simp: then_ok_def split: option.splits)

lemma tx_upd_chain:
  "s\<lparr>ss_compression_buffer := cb, ss_compression_out := c, ss_outgoing_packet := b0\<rparr>\<lparr>ss_extra_pad := 0, ss_outgoing_packet := b\<rparr>
    \<lparr>ss_send_context := cc, ss_output := out\<rparr> = tx_upd cb c cc out b s"
  unfolding tx_upd_def by (rule ssh.equality) simp_all

lemma mac_total_length: "mac_total C (Some m) \<Longrightarrow> m_mac_len m \<le> SSH_DIGEST_MAX_LENGTH"
proof -
  assume "mac_total C (Some m)"
  then obtain t where "mac_compute C m 0 [] = Inr t" unfolding mac_total_def by blast
  then show ?thesis by (simp add: mac_compute_def Let_def split: if_splits)
qed

lemma body_image_length:
  assumes "body_image C f cc seqnr pkt have w cc'"
  shows "length have + length w = length pkt + fr_authlen f + (case fr_macon f of None \<Rightarrow> 0 | Some m \<Rightarrow> m_mac_len m)"
  using assms by (rule body_imageE) auto

lemma wire_image_length:
  assumes "wire_image C f cc seqnr pkt w cc'" "fr_block_size f \<le> length pkt"
  shows "length w = length pkt + fr_authlen f + (case fr_macon f of None \<Rightarrow> 0 | Some m \<Rightarrow> m_mac_len m)"
proof (cases "fr_aadlen f = 0")
  case True
  with assms(1) obtain cc1 where "fr_block_size f \<le> length w"
    "body_image C f cc1 seqnr pkt (take (fr_block_size f) pkt) (drop (fr_block_size f) w) cc'" by (auto simp: wire_image_def)
  with body_image_length [OF this(2)] assms(2) show ?thesis by simp
next
  case False
  with assms(1) have "body_image C f cc seqnr pkt [] w cc'" by (auto simp: wire_image_def)
  from body_image_length [OF this] show ?thesis by simp
qed

text \<open>The rest of the limits: what a packet adds to the output.\<close>

definition packet_room :: nat where "packet_room = PACKET_MAX_SIZE + 128"

lemma send_core:
  assumes laws: "crypto_laws (pe_crypto Es) P" "zlib_laws Es Er Z" "pe_crypto Er = pe_crypto Es"
    and ln: "linked Es Er P Z s r" "framing_of (ss_newkeys_out s) = Some f"
    and h: "holds (pe_alloc Es) (ss_outgoing_packet s) (h @ payload)" "length h = 5" "payload \<noteq> []" "length payload + 4352 \<le> PACKET_MAX_SIZE"
    and o: "holds (pe_alloc Es) (ss_output s) bs" "length bs + packet_room \<le> SSHBUF_SIZE_MAX" "unat (ss_extra_pad s) \<le> 224"
  shows "\<exists>cb c cc out b w data pad ds'.
    then_ok (send_compress Es f s) (\<lambda>s. then_ok (send_pad Es f s) (send_encrypt Es f)) = Some (None, tx_upd cb c cc out b s) \<and>
    holds (pe_alloc Es) out (bs @ w) \<and> length w \<le> packet_room \<and> holds (pe_alloc Es) b (packet_bytes data pad) \<and>
    awaits Er f r (packet_bytes data pad) w ds' \<and> ctx_pair P cc ds' \<and> cc_cipher cc = cc_cipher (ss_send_context s) \<and>
    unpacks Er Z f c (ss_compression_in r) data payload \<and> 4 \<le> length pad \<and> length pad < 256 \<and> length data + 256 \<le> PACKET_MAX_SIZE \<and>
    (fr_comp f \<longrightarrow> z_started c \<and> (\<exists>cb1 bs. cb = Some cb1 \<and> holds (pe_alloc Es) cb1 bs)) \<and> keeps_buffer Es (ss_compression_buffer s) cb"
proof -
  from ln have l: "ss_p_read r = ss_p_send s" "ctx_pair P (ss_send_context s) (ss_receive_context r)" "framing_fits f (ss_send_context s)"
      "mac_total (pe_crypto Es) (fr_macon f)" "comp_linked Es Er Z f s r" "ss_packlen r = 0"
    and inc: "\<exists>bs. holds (pe_alloc Er) (ss_incoming_packet r) bs" by (auto simp: linked_def)
  have bsz: "fr_block_size f \<in> {8, 16}" "fr_authlen f \<le> 16"
    using l(2,3) by (auto simp: ctx_pair_def cipher_sane_def framing_fits_def cipher_authlen_def)
  have ml: "(case fr_macon f of None \<Rightarrow> 0 | Some m \<Rightarrow> m_mac_len m) \<le> 64"
    using l(4) mac_total_length by (auto simp: SSH_DIGEST_MAX_LENGTH_def split: option.split)
  have aad: "fr_aadlen f \<le> 4" using l(3) by (auto simp: framing_fits_def)
  from send_compress_any [OF laws(2) l(5) h] obtain cb c b0 h' data where
    sc: "send_compress Es f s = Some (None, s\<lparr>ss_compression_buffer := cb, ss_compression_out := c, ss_outgoing_packet := b0\<rparr>)"
      "holds (pe_alloc Es) b0 (h' @ data)" "length h' = 5" "length data + 256 \<le> PACKET_MAX_SIZE" "unpacks Er Z f c (ss_compression_in r) data payload"
      "fr_comp f \<longrightarrow> z_started c \<and> (\<exists>cb1 bs. cb = Some cb1 \<and> holds (pe_alloc Es) cb1 bs)" "keeps_buffer Es (ss_compression_buffer s) cb" by blast
  let ?s1 = "s\<lparr>ss_compression_buffer := cb, ss_compression_out := c, ss_outgoing_packet := b0\<rparr>"
  from send_padlen_ok [OF bsz(1) o(3), of "5 + length data - fr_aadlen f"] obtain p where
    p: "send_padlen (fr_block_size f) (5 + length data - fr_aadlen f) (ss_extra_pad ?s1) = Some p" "4 \<le> unat p"
      "(5 + length data - fr_aadlen f + unat p) mod fr_block_size f = 0" by auto
  have h1: "holds (pe_alloc Es) (ss_outgoing_packet ?s1) (h' @ data)" using sc(2) by simp
  from send_pad_eq [OF h1 sc(3) p(1) sc(4)] obtain b pad where
    sp: "send_pad Es f ?s1 = Some (None, ?s1\<lparr>ss_extra_pad := 0, ss_outgoing_packet := b\<rparr>)"
      "holds (pe_alloc Es) b (packet_bytes data pad)" "length pad = unat p" by blast
  let ?s2 = "?s1\<lparr>ss_extra_pad := 0, ss_outgoing_packet := b\<rparr>" and ?pkt = "packet_bytes data pad"
  have pl: "length pad < 256" "4 \<le> length pad" using sp(3) p(2) unsigned_less [of p, where ?'a = nat] by simp_all
  have md: "(length ?pkt - fr_aadlen f) mod fr_block_size f = 0" using p(3) sp(3) aad by (simp add: add.commute add.left_commute)
  have h2: "holds (pe_alloc Es) (ss_outgoing_packet ?s2) ?pkt" "holds (pe_alloc Es) (ss_output ?s2) bs" using sp(2) o(1) by simp_all
  have fit: "length bs + length ?pkt + fr_authlen f + (case fr_macon f of None \<Rightarrow> 0 | Some m \<Rightarrow> m_mac_len m) \<le> SSHBUF_SIZE_MAX"
    using o(2) bsz(2) ml pl(1) sc(4) by (simp add: packet_room_def)
  have cx: "ctx_pair P (ss_send_context ?s2) (ss_receive_context r)" "framing_fits f (ss_send_context ?s2)" using l(2,3) by simp_all
  from send_image [OF laws(1) l(4) cx refl sc(4) pl md h2 fit] obtain out w cc ds' where
    si: "send_encrypt Es f ?s2 = Some (None, ?s2\<lparr>ss_send_context := cc, ss_output := out\<rparr>)" "holds (pe_alloc Es) out (bs @ w)"
      "ctx_pair P cc ds'" "cc_cipher cc = cc_cipher (ss_send_context s)"
      "wire_image (pe_crypto Es) f (ss_receive_context r) (ps_seqnr (ss_p_send s)) ?pkt w ds'" by auto
  have "fr_block_size f \<le> length ?pkt"
    using md bsz(1) pl(2) aad by (auto dest!: mod_0_imp_dvd dvd_imp_le)
  note big = this
  from wire_image_length [OF si(5) this] bsz(2) ml pl(1) sc(4) have lw: "length w \<le> packet_room" by (simp add: packet_room_def)
  have "length ?pkt \<le> SSHBUF_SIZE_MAX" using fit by simp
  then have "awaits Er f r ?pkt w ds'"
    using packet_length_ok [OF sc(4) pl] bsz(1) big inc l(1,6) si(5) laws(3) by (auto simp: awaits_def)
  moreover have "then_ok (send_compress Es f s) (\<lambda>s. then_ok (send_pad Es f s) (send_encrypt Es f)) = Some (None, tx_upd cb c cc out b s)"
    unfolding sc(1) then_ok_simps sp(1) si(1) tx_upd_chain by (rule refl)
  ultimately show ?thesis using si(2-4) lw sp(2) sc(4-7) pl
    by (intro exI [of _ cb] exI [of _ c] exI [of _ cc] exI [of _ out] exI [of _ b] exI [of _ w] exI [of _ data] exI [of _ pad] exI [of _ ds']) simp
qed

text \<open>The receiver \<open>r\<close> has still to take the bytes \<open>w\<close> of the packet with this payload; the sender is already in the state
  \<open>s'\<close> behind it.\<close>

definition expects ::
  "('e, 'z) packet_env \<Rightarrow> ('e, 'z) packet_env \<Rightarrow> (sshcipher \<Rightarrow> 'e \<Rightarrow> 'e \<Rightarrow> bool) \<Rightarrow> ('z \<Rightarrow> 'z \<Rightarrow> bool) \<Rightarrow> ('e, 'z) ssh \<Rightarrow> ('e, 'z) ssh \<Rightarrow>
   byte list \<Rightarrow> byte list \<Rightarrow> bool" where
  "expects Es Er P Z s' r payload w \<longleftrightarrow> ss_packet_discard r = 0 \<and> (\<exists>bs. holds (pe_alloc Es) (ss_outgoing_packet s') bs) \<and>
     ss_newkeys_out s' = ss_newkeys_in r \<and> length payload + 4352 \<le> PACKET_MAX_SIZE \<and>
     (\<exists>f data pad ds'. framing_of (ss_newkeys_in r) = Some f \<and> awaits Er f r (packet_bytes data pad) w ds' \<and>
        4 \<le> length pad \<and> length pad < 256 \<and> length data + 256 \<le> PACKET_MAX_SIZE \<and>
        ctx_pair P (ss_send_context s') ds' \<and> framing_fits f (ss_send_context s') \<and> mac_total (pe_crypto Es) (fr_macon f) \<and>
        ss_p_send s' = count_packet (length (packet_bytes data pad)) (fr_block_size f) (next_packet (ss_p_read r)) \<and>
        unpacks Er Z f (ss_compression_out s') (ss_compression_in r) data payload \<and>
        (fr_comp f \<longrightarrow> z_started (ss_compression_out s') \<and> z_started (ss_compression_in r) \<and> has_buffer Es s' \<and> has_buffer Er r))"

definition after_send :: "('e, 'z) packet_env \<Rightarrow> byte \<Rightarrow> ('e, 'z) ssh \<Rightarrow> ('e, 'z) ssh res" where
  "after_send E type s =
     (if type = SSH2_MSG_NEWKEYS then ssh_set_newkeys E MODE_OUT s
      else if type = SSH2_MSG_USERAUTH_SUCCESS \<and> ss_server_side s then ssh_packet_enable_delayed_compress E s
      else Some (None, s))"

lemma send_done_eq:
  assumes "ps_packets (ss_p_send s) + 1 \<noteq> 0" "sshbuf_len (ss_outgoing_packet s) = n"
  shows "send_done E f type s = after_send E type (s\<lparr>ss_p_send := count_packet n (fr_block_size f) (next_packet (ss_p_send s)),
    ss_outgoing_packet := sshbuf_reset (pe_alloc E) (ss_outgoing_packet s)\<rparr>)"
  using assms by (simp add: send_done_def Let_def after_send_def next_packet_def)

text \<open>What the sender changes in one packet, before a change of keys.\<close>

definition tx_same :: "('e, 'z) ssh \<Rightarrow> ('e, 'z) ssh \<Rightarrow> bool" where
  "tx_same s s' \<longleftrightarrow> (\<exists>cb c cc out b p. s' = s\<lparr>ss_compression_buffer := cb, ss_compression_out := c, ss_extra_pad := 0, ss_send_context := cc,
     ss_output := out, ss_outgoing_packet := b, ss_p_send := p\<rparr>)"

lemma send_step:
  assumes laws: "crypto_laws (pe_crypto Es) P" "zlib_laws Es Er Z" "pe_crypto Er = pe_crypto Es"
    and ln: "linked Es Er P Z s r"
    and h: "holds (pe_alloc Es) (ss_outgoing_packet s) (h @ payload)" "length h = 5" "payload = type # rest" "length payload + 4352 \<le> PACKET_MAX_SIZE"
    and o: "holds (pe_alloc Es) (ss_output s) bs" "length bs + packet_room \<le> SSHBUF_SIZE_MAX" "unat (ss_extra_pad s) \<le> 224"
    and n: "ps_packets (ss_p_send s) + 1 \<noteq> 0"
  shows "\<exists>s' w. ssh_packet_send2_wrapped Es s = after_send Es type s' \<and> tx_same s s' \<and> holds (pe_alloc Es) (ss_output s') (bs @ w) \<and>
    length w \<le> packet_room \<and> expects Es Er P Z s' r payload w \<and> ps_packets (ss_p_send s') = ps_packets (ss_p_send s) + 1 \<and>
    keeps_buffer Es (ss_compression_buffer s) (ss_compression_buffer s')"
proof -
  from ln obtain f where f: "framing_of (ss_newkeys_out s) = Some f" by (auto simp: linked_def)
  with ln have l: "ss_p_read r = ss_p_send s" "framing_fits f (ss_send_context s)" "ss_newkeys_in r = ss_newkeys_out s"
      "mac_total (pe_crypto Es) (fr_macon f)" "comp_linked Es Er Z f s r" "ss_packet_discard r = 0" by (auto simp: linked_def)
  have ne: "payload \<noteq> []" using h(3) by simp
  from send_core [OF laws ln f h(1,2) ne h(4) o] obtain cb c cc out b w data pad ds' where
    sc: "then_ok (send_compress Es f s) (\<lambda>s. then_ok (send_pad Es f s) (send_encrypt Es f)) = Some (None, tx_upd cb c cc out b s)"
      "holds (pe_alloc Es) out (bs @ w)" "length w \<le> packet_room" "holds (pe_alloc Es) b (packet_bytes data pad)"
      "awaits Er f r (packet_bytes data pad) w ds'" "ctx_pair P cc ds'" "cc_cipher cc = cc_cipher (ss_send_context s)"
      "unpacks Er Z f c (ss_compression_in r) data payload" "4 \<le> length pad" "length pad < 256" "length data + 256 \<le> PACKET_MAX_SIZE"
      "fr_comp f \<longrightarrow> z_started c \<and> (\<exists>cb1 bs. cb = Some cb1 \<and> holds (pe_alloc Es) cb1 bs)" "keeps_buffer Es (ss_compression_buffer s) cb" by blast
  let ?pkt = "packet_bytes data pad" and ?s1 = "tx_upd cb c cc out b s"
  let ?p = "count_packet (length ?pkt) (fr_block_size f) (next_packet (ss_p_send s))"
  let ?s = "?s1\<lparr>ss_p_send := ?p, ss_outgoing_packet := sshbuf_reset (pe_alloc Es) b\<rparr>"
  have ty: "packet_type (ss_outgoing_packet s) = Some type" using holds_read(2) [OF h(1)] h(2,3) by (simp add: packet_type_def nth_append)
  have "ssh_packet_send2_wrapped Es s = then_ok (Some (None, ?s1)) (send_done Es f type)"
    unfolding ssh_packet_send2_wrapped_def f ty option.case sc(1) [symmetric] then_ok_assoc by (rule refl)
  also have "\<dots> = after_send Es type ?s"
    using send_done_eq [of ?s1 "length ?pkt" Es f type] n holds_read(1) [OF sc(4)] by simp
  finally have snd: "ssh_packet_send2_wrapped Es s = after_send Es type ?s" .
  have same: "tx_same s ?s" unfolding tx_same_def tx_upd_def
    by (intro exI [of _ cb] exI [of _ c] exI [of _ cc] exI [of _ out] exI [of _ "sshbuf_reset (pe_alloc Es) b"] exI [of _ ?p], rule ssh.equality) simp_all
  have ff: "framing_fits f cc" using l(2) sc(7) by (simp add: framing_fits_def)
  have "expects Es Er P Z ?s r payload w"
    unfolding expects_def
  proof (intro conjI)
    show "ss_packet_discard r = 0" "ss_newkeys_out ?s = ss_newkeys_in r" "length payload + 4352 \<le> PACKET_MAX_SIZE"
      using l(3,6) h(4) by simp_all
    show "\<exists>bs. holds (pe_alloc Es) (ss_outgoing_packet ?s) bs" using holds_reset [OF sc(4)] by auto
    have "fr_comp f \<longrightarrow> z_started (ss_compression_out ?s) \<and> z_started (ss_compression_in r) \<and> has_buffer Es ?s \<and> has_buffer Er r"
      using sc(12) l(5) by (auto simp: has_buffer_def comp_linked_def)
    then show "\<exists>f data pad ds'. framing_of (ss_newkeys_in r) = Some f \<and> awaits Er f r (packet_bytes data pad) w ds' \<and>
        4 \<le> length pad \<and> length pad < 256 \<and> length data + 256 \<le> PACKET_MAX_SIZE \<and>
        ctx_pair P (ss_send_context ?s) ds' \<and> framing_fits f (ss_send_context ?s) \<and> mac_total (pe_crypto Es) (fr_macon f) \<and>
        ss_p_send ?s = count_packet (length (packet_bytes data pad)) (fr_block_size f) (next_packet (ss_p_read r)) \<and>
        unpacks Er Z f (ss_compression_out ?s) (ss_compression_in r) data payload \<and>
        (fr_comp f \<longrightarrow> z_started (ss_compression_out ?s) \<and> z_started (ss_compression_in r) \<and> has_buffer Es ?s \<and> has_buffer Er r)"
      using l(1,3,4) f sc(5,6,8-11) ff by (intro exI [of _ f] exI [of _ data] exI [of _ pad] exI [of _ ds']) simp
  qed
  with snd same sc(2,3,13) show ?thesis
    by (intro exI [of _ ?s] exI [of _ w]) (simp add: count_packet_def next_packet_def)
qed

section \<open>Delivering a packet\<close>

definition rx_done :: "packet_state \<Rightarrow> sshbuf option \<Rightarrow> 'z compression \<Rightarrow> sshbuf \<Rightarrow> ('e, 'z) ssh \<Rightarrow> ('e, 'z) ssh" where
  "rx_done p cb c b r = r\<lparr>ss_p_read := p, ss_compression_buffer := cb, ss_compression_in := c, ss_incoming_packet := b\<rparr>"

lemma rx_done_fields [simp]:
  "ss_p_read (rx_done p cb c b r) = p" "ss_compression_buffer (rx_done p cb c b r) = cb" "ss_compression_in (rx_done p cb c b r) = c"
  "ss_incoming_packet (rx_done p cb c b r) = b" "ss_receive_context (rx_done p cb c b r) = ss_receive_context r"
  "ss_input (rx_done p cb c b r) = ss_input r" "ss_newkeys_in (rx_done p cb c b r) = ss_newkeys_in r"
  "ss_packlen (rx_done p cb c b r) = ss_packlen r" "ss_packet_discard (rx_done p cb c b r) = ss_packet_discard r"
  by (simp_all add: rx_done_def)

lemma uncompress_any:
  assumes u: "unpacks E Z f c' (ss_compression_in r) data payload" "fr_comp f \<longrightarrow> z_started (ss_compression_in r) \<and> has_buffer E r"
    and h: "holds (pe_alloc E) (ss_incoming_packet r) data" "length payload \<le> SSHBUF_SIZE_MAX"
  shows "\<exists>cb c b. read_uncompress E f r = Some (None, r\<lparr>ss_compression_buffer := cb, ss_compression_in := c, ss_incoming_packet := b\<rparr>) \<and>
    holds (pe_alloc E) b payload \<and>
    (fr_comp f \<longrightarrow> z_started c \<and> (\<exists>cb1 bs. cb = Some cb1 \<and> holds (pe_alloc E) cb1 bs) \<and> Z (z_stream c') (z_stream c)) \<and>
    keeps_buffer E (ss_compression_buffer r) cb"
proof (cases "fr_comp f")
  case False
  with u(1) h(1) show ?thesis
    by (intro exI [of _ "ss_compression_buffer r"] exI [of _ "ss_compression_in r"] exI [of _ "ss_incoming_packet r"])
      (simp add: read_uncompress_def unpacks_def keeps_buffer_def)
next
  case True
  with u obtain zi' where z: "inflates E data (z_stream (ss_compression_in r)) payload zi'" "Z (z_stream c') zi'"
    "z_started (ss_compression_in r)" "has_buffer E r" by (auto simp: unpacks_def)
  from read_uncompress_ok [OF True z(3,4) h(1) z(1) h(2)] obtain cb b where
    "read_uncompress E f r = Some (None, r\<lparr>ss_compression_buffer := Some cb,
      ss_compression_in := (ss_compression_in r)\<lparr>z_stream := zi'\<rparr>, ss_incoming_packet := b\<rparr>)"
    "holds (pe_alloc E) b payload" "holds (pe_alloc E) cb payload" by blast
  with z show ?thesis
    by (intro exI [of _ "Some cb"] exI [of _ "(ss_compression_in r)\<lparr>z_stream := zi'\<rparr>"] exI [of _ b]) (auto simp: keeps_buffer_def)
qed

lemma read_payload_ok:
  assumes h: "holds (pe_alloc E) (ss_incoming_packet r) (packet_bytes data pad)" "ss_packlen r = peek_u32 (packet_bytes data pad)"
    and p: "4 \<le> length pad" "length pad < 256" "length data + 256 \<le> PACKET_MAX_SIZE" "ps_packets (ss_p_read r) + 1 \<noteq> 0"
    and u: "unpacks E Z f c' (ss_compression_in r) data (type # payload)" "fr_comp f \<longrightarrow> z_started (ss_compression_in r) \<and> has_buffer E r"
      "length payload + 4352 \<le> PACKET_MAX_SIZE"
  shows "\<exists>cb c b. read_payload E f r = read_result type (Some (ps_seqnr (ss_p_read r))) (read_finish E type
      (rx_done (count_packet (length (packet_bytes data pad)) (fr_block_size f) (next_packet (ss_p_read r))) cb c b r)) \<and>
    holds (pe_alloc E) b payload \<and>
    (fr_comp f \<longrightarrow> z_started c \<and> (\<exists>cb1 bs. cb = Some cb1 \<and> holds (pe_alloc E) cb1 bs) \<and> Z (z_stream c') (z_stream c)) \<and>
    keeps_buffer E (ss_compression_buffer r) cb"
proof -
  let ?p = "count_packet (length (packet_bytes data pad)) (fr_block_size f) (next_packet (ss_p_read r))"
  have n: "unat (ss_packlen r) + 4 = length (packet_bytes data pad)" using packet_length_word [OF p(3,2)] h(2) by (simp del: of_nat_add of_nat_Suc)
  have rc: "read_count f r = Some (None, r\<lparr>ss_p_read := ?p\<rparr>)"
    using p(4) n by (simp add: read_count_def Let_def next_packet_def del: length_packet_bytes)
  let ?r1 = "r\<lparr>ss_p_read := ?p\<rparr>"
  have h1: "holds (pe_alloc E) (ss_incoming_packet ?r1) (packet_bytes data pad)" using h(1) by simp
  from read_unpad_ok [OF h1 p(1,2)] obtain b1 where ru: "read_unpad E ?r1 = Some (None, ?r1\<lparr>ss_incoming_packet := b1\<rparr>)"
    "holds (pe_alloc E) b1 data" by blast
  let ?r2 = "?r1\<lparr>ss_incoming_packet := b1\<rparr>"
  have u2: "unpacks E Z f c' (ss_compression_in ?r2) data (type # payload)" "fr_comp f \<longrightarrow> z_started (ss_compression_in ?r2) \<and> has_buffer E ?r2"
    "holds (pe_alloc E) (ss_incoming_packet ?r2) data" "length (type # payload) \<le> SSHBUF_SIZE_MAX"
    using u ru(2) by (simp_all add: has_buffer_def PACKET_MAX_SIZE_def sshbuf_consts)
  from uncompress_any [OF u2] obtain cb c b2 where
    uc: "read_uncompress E f ?r2 = Some (None, ?r2\<lparr>ss_compression_buffer := cb, ss_compression_in := c, ss_incoming_packet := b2\<rparr>)"
      "holds (pe_alloc E) b2 (type # payload)"
      "fr_comp f \<longrightarrow> z_started c \<and> (\<exists>cb1 bs. cb = Some cb1 \<and> holds (pe_alloc E) cb1 bs) \<and> Z (z_stream c') (z_stream c)"
      "keeps_buffer E (ss_compression_buffer ?r2) cb" by blast
  from holds_get_u8 [OF uc(2)] obtain b where g: "sshbuf_get_u8 b2 = (Inr type, b)" "holds (pe_alloc E) b payload" by blast
  have chain: "then_ok (read_count f r) (\<lambda>s. then_ok (read_unpad E s) (read_uncompress E f)) =
      Some (None, ?r2\<lparr>ss_compression_buffer := cb, ss_compression_in := c, ss_incoming_packet := b2\<rparr>)"
    unfolding rc then_ok_simps ru(1) uc(1) by (rule refl)
  have "read_payload E f r = read_result type (Some (ps_seqnr (ss_p_read r))) (read_finish E type (rx_done ?p cb c b r))"
    unfolding read_payload_def Let_def chain using g(1) by (simp add: rx_done_def)
  with g(2) uc(3,4) show ?thesis by (intro exI [of _ cb] exI [of _ c] exI [of _ b]) simp
qed

text \<open>A part of the packet: the call reports no packet, and the receiver waits for the rest.\<close>

lemma expects_short:
  assumes ex: "expects Es Er P Z s' r payload w" and h: "holds (pe_alloc Er) (ss_input r) i" "prefix i w" "length i < length w"
  shows "\<exists>k r'. ssh_packet_read_poll2 Er r = Some (None, SSH_MSG_NONE, None, r') \<and> (\<exists>n cc b b2. r' = rx_upd n cc b b2 r) \<and>
    expects Es Er P Z s' r' payload (drop k w) \<and> holds (pe_alloc Er) (ss_input r') (drop k i) \<and> k \<le> length i"
proof -
  from ex obtain f data pad ds' where f: "framing_of (ss_newkeys_in r) = Some f" "awaits Er f r (packet_bytes data pad) w ds'"
    and facts: "4 \<le> length pad" "length pad < 256" "length data + 256 \<le> PACKET_MAX_SIZE"
      "ctx_pair P (ss_send_context s') ds'" "framing_fits f (ss_send_context s')" "mac_total (pe_crypto Es) (fr_macon f)"
      "ss_p_send s' = count_packet (length (packet_bytes data pad)) (fr_block_size f) (next_packet (ss_p_read r))"
      "unpacks Er Z f (ss_compression_out s') (ss_compression_in r) data payload"
      "fr_comp f \<longrightarrow> z_started (ss_compression_out s') \<and> z_started (ss_compression_in r) \<and> has_buffer Es s' \<and> has_buffer Er r"
    unfolding expects_def by blast
  from poll_short [OF f(2) h] obtain k r' n cc b b2 where
    p: "poll_packet Er f r = Some (Inl (None, r'))" "r' = rx_upd n cc b b2 r" "awaits Er f r' (packet_bytes data pad) (drop k w) ds'"
      "holds (pe_alloc Er) (ss_input r') (drop k i)" "k \<le> length i" by blast
  have "ssh_packet_read_poll2 Er r = Some (None, SSH_MSG_NONE, None, r')"
    using ex f(1) p(1) by (simp add: ssh_packet_read_poll2_def expects_def poll_packet_def)
  moreover have "expects Es Er P Z s' r' payload (drop k w)" 
  proof -
    have "has_buffer Er r' = has_buffer Er r" using p(2) by (simp add: has_buffer_def)
    with f facts p(2,3) have "framing_of (ss_newkeys_in r') = Some f \<and> awaits Er f r' (packet_bytes data pad) (drop k w) ds' \<and>
        4 \<le> length pad \<and> length pad < 256 \<and> length data + 256 \<le> PACKET_MAX_SIZE \<and>
        ctx_pair P (ss_send_context s') ds' \<and> framing_fits f (ss_send_context s') \<and> mac_total (pe_crypto Es) (fr_macon f) \<and>
        ss_p_send s' = count_packet (length (packet_bytes data pad)) (fr_block_size f) (next_packet (ss_p_read r')) \<and>
        unpacks Er Z f (ss_compression_out s') (ss_compression_in r') data payload \<and>
        (fr_comp f \<longrightarrow> z_started (ss_compression_out s') \<and> z_started (ss_compression_in r') \<and> has_buffer Es s' \<and> has_buffer Er r')" by simp
    moreover have "ss_packet_discard r' = 0 \<and> (\<exists>bs. holds (pe_alloc Es) (ss_outgoing_packet s') bs) \<and>
        ss_newkeys_out s' = ss_newkeys_in r' \<and> length payload + 4352 \<le> PACKET_MAX_SIZE" using ex p(2) by (simp add: expects_def)
    ultimately show ?thesis unfolding expects_def by blast
  qed
  ultimately show ?thesis using p(2,4,5) by blast
qed

definition rx_same :: "('e, 'z) ssh \<Rightarrow> ('e, 'z) ssh \<Rightarrow> bool" where
  "rx_same r r' \<longleftrightarrow> (\<exists>p cb c b n cc b0 b2. r' = rx_done p cb c b (rx_upd n cc b0 b2 r))"

lemma need_rekeying_cong:
  assumes "ss_after_authentication r' = ss_after_authentication r" "sh_kex r' = sh_kex r" "ss_rekeying r' = ss_rekeying r" "sh_compat r' = sh_compat r"
    "ss_p_send r' = ss_p_send r" "ss_p_read r' = ss_p_read r" "ss_rekey_interval r' = ss_rekey_interval r" "ss_rekey_time r' = ss_rekey_time r"
    "ss_newkeys_out r' = ss_newkeys_out r" "ss_max_blocks_out r' = ss_max_blocks_out r" "ss_max_blocks_in r' = ss_max_blocks_in r"
  shows "ssh_packet_need_rekeying E r' m = ssh_packet_need_rekeying E r m"
  unfolding ssh_packet_need_rekeying_def ssh_packet_is_rekeying_def assms by (rule refl)

lemma rx_same_fields:
  assumes "rx_same r r'"
  shows "ssh_packet_need_rekeying E r' m = ssh_packet_need_rekeying E (r\<lparr>ss_p_read := ss_p_read r'\<rparr>) m" "ss_server_side r' = ss_server_side r"
    "sh_kex r' = sh_kex r" "ss_after_authentication r' = ss_after_authentication r" "ss_output r' = ss_output r"
proof -
  from assms obtain p cb c b n cc b0 b2 where r': "r' = rx_done p cb c b (rx_upd n cc b0 b2 r)" by (auto simp: rx_same_def)
  show "ssh_packet_need_rekeying E r' m = ssh_packet_need_rekeying E (r\<lparr>ss_p_read := ss_p_read r'\<rparr>) m"
    by (rule need_rekeying_cong) (simp_all add: r' rx_done_def rx_upd_def)
  show "ss_server_side r' = ss_server_side r" "sh_kex r' = sh_kex r" "ss_after_authentication r' = ss_after_authentication r"
    "ss_output r' = ss_output r" by (simp_all add: r' rx_done_def rx_upd_def)
qed

lemma rx_same_upd: "rx_same (rx_upd n cc b b2 r) r' \<Longrightarrow> rx_same r r'"
  unfolding rx_same_def rx_upd_upd .

lemma expects_full:
  assumes ex: "expects Es Er P Z s' r (type # body) w" and h: "holds (pe_alloc Er) (ss_input r) (w @ rest)"
    and n: "ps_packets (ss_p_read r) + 1 \<noteq> 0"
  shows "\<exists>r'. ssh_packet_read_poll2 Er r = read_result type (Some (ps_seqnr (ss_p_read r))) (read_finish Er type r') \<and> rx_same r r' \<and>
    holds (pe_alloc Er) (ss_incoming_packet r') body \<and> holds (pe_alloc Er) (ss_input r') rest \<and> ss_p_read r' = ss_p_send s' \<and>
    linked Es Er P Z s' (r'\<lparr>ss_packlen := 0\<rparr>) \<and> keeps_buffer Er (ss_compression_buffer r) (ss_compression_buffer r')"
proof -
  from ex obtain f data pad ds' where f: "framing_of (ss_newkeys_in r) = Some f" "awaits Er f r (packet_bytes data pad) w ds'"
    and facts: "4 \<le> length pad" "length pad < 256" "length data + 256 \<le> PACKET_MAX_SIZE"
      "ctx_pair P (ss_send_context s') ds'" "framing_fits f (ss_send_context s')" "mac_total (pe_crypto Es) (fr_macon f)"
      "ss_p_send s' = count_packet (length (packet_bytes data pad)) (fr_block_size f) (next_packet (ss_p_read r))"
      "unpacks Er Z f (ss_compression_out s') (ss_compression_in r) data (type # body)"
      "fr_comp f \<longrightarrow> z_started (ss_compression_out s') \<and> z_started (ss_compression_in r) \<and> has_buffer Es s' \<and> has_buffer Er r"
    unfolding expects_def by blast
  have e: "ss_packet_discard r = 0" "\<exists>bs. holds (pe_alloc Es) (ss_outgoing_packet s') bs" "ss_newkeys_out s' = ss_newkeys_in r"
    "length (type # body) + 4352 \<le> PACKET_MAX_SIZE" using ex by (simp_all add: expects_def)
  from poll_complete [OF f(2) h] obtain b b2 where
    p: "poll_packet Er f r = Some (Inr (rx_upd (peek_u32 (packet_bytes data pad)) ds' b b2 r))"
      "holds (pe_alloc Er) b (packet_bytes data pad)" "holds (pe_alloc Er) b2 rest" by blast
  let ?r1 = "rx_upd (peek_u32 (packet_bytes data pad)) ds' b b2 r"
  have h1: "holds (pe_alloc Er) (ss_incoming_packet ?r1) (packet_bytes data pad)" "ss_packlen ?r1 = peek_u32 (packet_bytes data pad)"
    "ps_packets (ss_p_read ?r1) + 1 \<noteq> 0" "unpacks Er Z f (ss_compression_out s') (ss_compression_in ?r1) data (type # body)"
    "fr_comp f \<longrightarrow> z_started (ss_compression_in ?r1) \<and> has_buffer Er ?r1" "length body + 4352 \<le> PACKET_MAX_SIZE"
    using p(2) n facts(8,9) e(4) by (simp_all add: has_buffer_def)
  have sq: "ss_p_read ?r1 = ss_p_read r" by simp
  from read_payload_ok [OF h1(1,2) facts(1-3) h1(3-6), unfolded sq facts(7) [symmetric]] obtain cb c b3 where
    rp: "read_payload Er f ?r1 = read_result type (Some (ps_seqnr (ss_p_read r))) (read_finish Er type (rx_done (ss_p_send s') cb c b3 ?r1))"
      "holds (pe_alloc Er) b3 body"
      "fr_comp f \<longrightarrow> z_started c \<and> (\<exists>cb1 bs. cb = Some cb1 \<and> holds (pe_alloc Er) cb1 bs) \<and> Z (z_stream (ss_compression_out s')) (z_stream c)"
      "keeps_buffer Er (ss_compression_buffer ?r1) cb" by blast
  let ?r = "rx_done (ss_p_send s') cb c b3 ?r1"
  have "ssh_packet_read_poll2 Er r = read_payload Er f ?r1"
    using e(1) f(1) p(1) by (simp add: ssh_packet_read_poll2_def poll_packet_def)
  moreover have "rx_same r ?r" unfolding rx_same_def by blast
  moreover have "linked Es Er P Z s' (?r\<lparr>ss_packlen := 0\<rparr>)"
  proof -
    have "comp_linked Es Er Z f s' (?r\<lparr>ss_packlen := 0\<rparr>)" using facts(9) rp(3) by (auto simp: comp_linked_def has_buffer_def)
    moreover have "holds (pe_alloc Er) (ss_incoming_packet (?r\<lparr>ss_packlen := 0\<rparr>)) body" using rp(2) by simp
    ultimately show ?thesis unfolding linked_def using e f(1) facts(4-6) by auto
  qed
  moreover have "keeps_buffer Er (ss_compression_buffer r) (ss_compression_buffer ?r)" using rp(4) by (simp add: rx_upd_def)
  ultimately show ?thesis using rp(1,2) p(3) by (intro exI [of _ ?r]) simp
qed

section \<open>A sequence of packets, in pieces of any size\<close>

text \<open>An ordinary packet: the receiver does nothing but deliver it.\<close>

definition ordinary :: "byte \<Rightarrow> bool" where
  "ordinary type \<longleftrightarrow> SSH2_MSG_MIN \<le> type \<and> type < SSH2_MSG_LOCAL_MIN \<and> type \<noteq> SSH2_MSG_NEWKEYS \<and> type \<noteq> SSH2_MSG_USERAUTH_SUCCESS"

lemma after_send_ordinary: "ordinary type \<Longrightarrow> after_send E type s = Some (None, s)"
  by (simp add: after_send_def ordinary_def)

lemma read_finish_ordinary:
  assumes "ordinary type" "ssh_packet_need_rekeying E (r\<lparr>ss_packlen := 0\<rparr>) 0 = Some False"
  shows "read_finish E type r = Some (None, r\<lparr>ss_packlen := 0\<rparr>)"
proof -
  have "\<not> (type < SSH2_MSG_MIN \<or> type \<ge> SSH2_MSG_LOCAL_MIN)" using assms(1) by (simp add: ordinary_def not_less not_le)
  then show ?thesis unfolding read_finish_def using assms by (simp add: ordinary_def)
qed

lemma need_rekeying_packlen [simp]: "ssh_packet_need_rekeying E (r\<lparr>ss_packlen := n\<rparr>) m = ssh_packet_need_rekeying E r m"
  by (rule need_rekeying_cong) simp_all

lemma deliver_ordinary:
  assumes ex: "expects Es Er P Z s' r (type # body) w" and h: "holds (pe_alloc Er) (ss_input r) (w @ rest)"
    and n: "ps_packets (ss_p_read r) + 1 \<noteq> 0" "ordinary type" "ssh_packet_need_rekeying Er (r\<lparr>ss_p_read := ss_p_send s'\<rparr>) 0 = Some False"
  shows "\<exists>r'. ssh_packet_read_poll2 Er r = Some (None, type, Some (ps_seqnr (ss_p_read r)), r') \<and>
    holds (pe_alloc Er) (ss_incoming_packet r') body \<and> holds (pe_alloc Er) (ss_input r') rest \<and> linked Es Er P Z s' r' \<and>
    (\<exists>r1. rx_same r r1 \<and> r' = r1\<lparr>ss_packlen := 0\<rparr>)"
proof -
  from expects_full [OF ex h n(1)] obtain r1 where
    r1: "ssh_packet_read_poll2 Er r = read_result type (Some (ps_seqnr (ss_p_read r))) (read_finish Er type r1)" "rx_same r r1"
      "holds (pe_alloc Er) (ss_incoming_packet r1) body" "holds (pe_alloc Er) (ss_input r1) rest" "ss_p_read r1 = ss_p_send s'"
      "linked Es Er P Z s' (r1\<lparr>ss_packlen := 0\<rparr>)" by blast
  have "ssh_packet_need_rekeying Er (r1\<lparr>ss_packlen := 0\<rparr>) 0 = Some False"
    using n(3) rx_same_fields(1) [OF r1(2), of Er 0] r1(5) by simp
  from read_finish_ordinary [OF n(2) this] r1 show ?thesis
    by (intro exI [of _ "r1\<lparr>ss_packlen := 0\<rparr>"]) (auto simp: read_result_def)
qed

text \<open>A packet as the callers build it, and a list of packets.\<close>

definition send_packet :: "('e, 'z) packet_env \<Rightarrow> byte list \<Rightarrow> ('e, 'z) ssh \<Rightarrow> ('e, 'z) ssh res" where
  "send_packet E p s = then_ok (sshpkt_start E (hd p) s) (\<lambda>s. then_ok (sshpkt_put E (tl p) s) (ssh_packet_send2_wrapped E))"

fun send_all :: "('e, 'z) packet_env \<Rightarrow> byte list list \<Rightarrow> ('e, 'z) ssh \<Rightarrow> ('e, 'z) ssh res" where
  "send_all E [] s = Some (None, s)"
| "send_all E (p # ps) s = then_ok (send_packet E p s) (send_all E ps)"

text \<open>The receiver polls until there is no packet; every piece of input is followed by such a round.\<close>

inductive drains :: "('e, 'z) packet_env \<Rightarrow> ('e, 'z) ssh \<Rightarrow> byte list list \<Rightarrow> ('e, 'z) ssh \<Rightarrow> bool" for E where
  no_packet: "ssh_packet_read_poll2 E r = Some (None, SSH_MSG_NONE, q, r') \<Longrightarrow> drains E r [] r'"
| a_packet: "ssh_packet_read_poll2 E r = Some (None, type, q, r1) \<Longrightarrow> type \<noteq> SSH_MSG_NONE \<Longrightarrow> drains E r1 ps r' \<Longrightarrow>
    drains E r ((type # sshpkt_ptr r1) # ps) r'"

inductive receives :: "('e, 'z) packet_env \<Rightarrow> byte list list \<Rightarrow> ('e, 'z) ssh \<Rightarrow> byte list list \<Rightarrow> ('e, 'z) ssh \<Rightarrow> bool" for E where
  no_input: "receives E [] r [] r"
| a_piece: "ssh_packet_process_incoming E c r = Some (None, r1) \<Longrightarrow> drains E r1 ps r2 \<Longrightarrow> receives E cs r2 qs r' \<Longrightarrow>
    receives E (c # cs) r (ps @ qs) r'"

lemma linked_outgoing: "linked Es Er P Z s r \<Longrightarrow> linked Es Er P Z (s\<lparr>ss_outgoing_packet := b\<rparr>) r \<longleftrightarrow> (\<exists>bs. holds (pe_alloc Es) b bs)"
  by (auto simp: linked_def comp_linked_def has_buffer_def)

lemma linked_input [simp]: "linked Es Er P Z s (r\<lparr>ss_input := b\<rparr>) = linked Es Er P Z s r"
  by (simp add: linked_def comp_linked_def has_buffer_def)

lemma expects_input [simp]: "expects Es Er P Z s (r\<lparr>ss_input := b\<rparr>) p w = expects Es Er P Z s r p w"
  by (simp add: expects_def awaits_def has_buffer_def)

text \<open>What is asked of one packet: its size and type, and that counters and buffers have room.\<close>

definition packet_ok :: "('e, 'z) packet_env \<Rightarrow> ('e, 'z) ssh \<Rightarrow> byte list \<Rightarrow> bool" where
  "packet_ok E s p \<longleftrightarrow> p \<noteq> [] \<and> ordinary (hd p) \<and> length p + 4352 \<le> PACKET_MAX_SIZE \<and> ps_packets (ss_p_send s) + 1 \<noteq> 0 \<and>
     (\<exists>bs. holds (pe_alloc E) (ss_output s) bs \<and> length bs + packet_room \<le> SSHBUF_SIZE_MAX) \<and> unat (ss_extra_pad s) \<le> 224"

lemma build_packet:
  assumes "linked Es Er P Z s r" "p \<noteq> []" "length p + 4352 \<le> PACKET_MAX_SIZE"
  shows "\<exists>b. (\<forall>k. then_ok (sshpkt_start Es (hd p) s) (\<lambda>s. then_ok (sshpkt_put Es (tl p) s) k) = k (s\<lparr>ss_outgoing_packet := b\<rparr>)) \<and>
    holds (pe_alloc Es) b ([0, 0, 0, 0, 0] @ p)"
proof -
  obtain type body where p: "p = type # body" using assms(2) by (cases p) auto
  from assms(1) obtain bs0 where "holds (pe_alloc Es) (ss_outgoing_packet s) bs0" by (auto simp: linked_def)
  from holds_put [OF holds_reset [OF this], of "[0, 0, 0, 0, 0, type]"] obtain b1 where
    b1: "sshbuf_put (pe_alloc Es) (sshbuf_reset (pe_alloc Es) (ss_outgoing_packet s)) [0, 0, 0, 0, 0, type] = (None, b1)"
      "holds (pe_alloc Es) b1 [0, 0, 0, 0, 0, type]" by (auto simp: sshbuf_consts)
  from holds_put [OF b1(2), of body] p assms(3) obtain b2 where
    b2: "sshbuf_put (pe_alloc Es) b1 body = (None, b2)" "holds (pe_alloc Es) b2 ([0, 0, 0, 0, 0] @ p)"
    by (auto simp: sshbuf_consts PACKET_MAX_SIZE_def)
  with b1(1) p show ?thesis by (intro exI [of _ b2]) (simp add: sshpkt_start_def sshpkt_put_def on_outgoing_def)
qed

lemma send_packet_eq:
  assumes "linked Es Er P Z s r" "p \<noteq> []" "length p + 4352 \<le> PACKET_MAX_SIZE"
  shows "\<exists>b. send_packet Es p s = ssh_packet_send2_wrapped Es (s\<lparr>ss_outgoing_packet := b\<rparr>) \<and> holds (pe_alloc Es) b ([0, 0, 0, 0, 0] @ p) \<and>
    linked Es Er P Z (s\<lparr>ss_outgoing_packet := b\<rparr>) r"
  using build_packet [OF assms] linked_outgoing [OF assms(1)] unfolding send_packet_def by metis

text \<open>A packet with room for its header goes to the wire, from the packet in progress or from the queue.\<close>

definition wire_send :: "('e, 'z) packet_env \<Rightarrow> byte list \<Rightarrow> ('e, 'z) ssh \<Rightarrow> ('e, 'z) ssh \<Rightarrow> bool" where
  "wire_send E p s s' \<longleftrightarrow> (\<exists>b q. holds (pe_alloc E) b ([0, 0, 0, 0, 0] @ p) \<and>
     ssh_packet_send2_wrapped E (s\<lparr>ss_outgoing_packet := b, ss_outgoing := q\<rparr>) = Some (None, s'))"

lemma linked_queue [simp]: "linked Es Er P Z (s\<lparr>ss_outgoing := q\<rparr>) r = linked Es Er P Z s r"
  by (simp add: linked_def comp_linked_def has_buffer_def)

lemma linked_outgoing_queue: "linked Es Er P Z s r \<Longrightarrow> holds (pe_alloc Es) b bs \<Longrightarrow> linked Es Er P Z (s\<lparr>ss_outgoing_packet := b, ss_outgoing := q\<rparr>) r"
  using linked_outgoing [of Es Er P Z s r b] by (metis linked_queue)

lemma wire_step:
  assumes laws: "crypto_laws (pe_crypto Es) P" "zlib_laws Es Er Z" "pe_crypto Er = pe_crypto Es"
    and ln: "linked Es Er P Z s r" and ok: "packet_ok Es s p" and b: "holds (pe_alloc Es) b ([0, 0, 0, 0, 0] @ p)"
  shows "\<exists>s' w. ssh_packet_send2_wrapped Es (s\<lparr>ss_outgoing_packet := b, ss_outgoing := q\<rparr>) = Some (None, s') \<and>
    contents (ss_output s') = contents (ss_output s) @ w \<and> holds (pe_alloc Es) (ss_output s') (contents (ss_output s) @ w) \<and> length w \<le> packet_room \<and>
    expects Es Er P Z s' r p w \<and> ps_packets (ss_p_send s') = ps_packets (ss_p_send s) + 1 \<and> ss_extra_pad s' = 0 \<and>
    tx_same (s\<lparr>ss_outgoing_packet := b, ss_outgoing := q\<rparr>) s'"
proof -
  from ok obtain type body where p: "p = type # body" "ordinary type" "length p + 4352 \<le> PACKET_MAX_SIZE"
    by (cases p) (auto simp: packet_ok_def)
  from ok obtain bs where o: "holds (pe_alloc Es) (ss_output s) bs" "length bs + packet_room \<le> SSHBUF_SIZE_MAX" by (auto simp: packet_ok_def)
  then have bs: "contents (ss_output s) = bs" by (simp add: holds_def)
  let ?s = "s\<lparr>ss_outgoing_packet := b, ss_outgoing := q\<rparr>"
  note l2 = linked_outgoing_queue [OF ln b, of q]
  have h: "holds (pe_alloc Es) (ss_outgoing_packet ?s) ([0, 0, 0, 0, 0] @ p)" "holds (pe_alloc Es) (ss_output ?s) bs"
    "unat (ss_extra_pad ?s) \<le> 224" "ps_packets (ss_p_send ?s) + 1 \<noteq> 0" using b o ok by (simp_all add: packet_ok_def)
  from send_step [OF laws l2 h(1) _ p(1) p(3) h(2) o(2) h(3,4)] obtain s' w where
    s': "ssh_packet_send2_wrapped Es ?s = after_send Es type s'" "tx_same ?s s'" "holds (pe_alloc Es) (ss_output s') (bs @ w)" "length w \<le> packet_room"
      "expects Es Er P Z s' r p w" "ps_packets (ss_p_send s') = ps_packets (ss_p_send ?s) + 1" by auto
  have "contents (ss_output s') = bs @ w" using s'(3) by (simp add: holds_def)
  moreover have "ss_extra_pad s' = 0" using s'(2) by (auto simp: tx_same_def)
  ultimately show ?thesis using s' bs after_send_ordinary [OF p(2)] by (intro exI [of _ s'] exI [of _ w]) simp
qed

lemma send_packet_step:
  assumes laws: "crypto_laws (pe_crypto Es) P" "zlib_laws Es Er Z" "pe_crypto Er = pe_crypto Es"
    and ln: "linked Es Er P Z s r" and ok: "packet_ok Es s p"
  shows "\<exists>s' w. send_packet Es p s = Some (None, s') \<and> wire_send Es p s s' \<and> contents (ss_output s') = contents (ss_output s) @ w \<and>
    holds (pe_alloc Es) (ss_output s') (contents (ss_output s) @ w) \<and> length w \<le> packet_room \<and> expects Es Er P Z s' r p w \<and>
    ps_packets (ss_p_send s') = ps_packets (ss_p_send s) + 1 \<and> ss_extra_pad s' = 0"
proof -
  have "p \<noteq> []" "length p + 4352 \<le> PACKET_MAX_SIZE" using ok by (auto simp: packet_ok_def)
  from send_packet_eq [OF ln this] obtain b where
    b: "send_packet Es p s = ssh_packet_send2_wrapped Es (s\<lparr>ss_outgoing_packet := b\<rparr>)" "holds (pe_alloc Es) b ([0, 0, 0, 0, 0] @ p)" by blast
  have q: "s\<lparr>ss_outgoing_packet := b, ss_outgoing := ss_outgoing s\<rparr> = s\<lparr>ss_outgoing_packet := b\<rparr>" by simp
  from wire_step [OF laws ln ok b(2), of "ss_outgoing s", unfolded q] b show ?thesis
    unfolding wire_send_def by (metis q)
qed

text \<open>A run of the sender with what each packet put on the wire; \<open>K\<close> holds of the counters after each packet.\<close>

inductive sent :: "('e, 'z) packet_env \<Rightarrow> (packet_state \<Rightarrow> bool) \<Rightarrow> ('e, 'z) ssh \<Rightarrow> byte list list \<Rightarrow> byte list list \<Rightarrow> ('e, 'z) ssh \<Rightarrow> bool" for E K where
  sent_none: "sent E K s [] [] s"
| sent_one: "wire_send E p s s1 \<Longrightarrow> contents (ss_output s1) = contents (ss_output s) @ w \<Longrightarrow> packet_ok E s p \<Longrightarrow>
    K (ss_p_send s1) \<Longrightarrow> sent E K s1 ps ws s' \<Longrightarrow> sent E K s (p # ps) (w # ws) s'"

inductive_cases sent_NilE: "sent E K s [] ws s'"
inductive_cases sent_ConsE: "sent E K s (p # ps) ws s'"

lemma sent_expects:
  assumes laws: "crypto_laws (pe_crypto Es) P" "zlib_laws Es Er Z" "pe_crypto Er = pe_crypto Es"
    and ln: "linked Es Er P Z s r" and se: "sent Es K s (p # ps) ws s'"
  obtains s1 w ws' where "expects Es Er P Z s1 r p w" "sent Es K s1 ps ws' s'" "ws = w # ws'" "K (ss_p_send s1)" "packet_ok Es s p"
proof -
  from se obtain s1 w ws' where a: "wire_send Es p s s1" "contents (ss_output s1) = contents (ss_output s) @ w" "packet_ok Es s p"
    "K (ss_p_send s1)" "sent Es K s1 ps ws' s'" "ws = w # ws'" by (rule sent_ConsE)
  from a(1) obtain b q where "holds (pe_alloc Es) b ([0, 0, 0, 0, 0] @ p)"
    "ssh_packet_send2_wrapped Es (s\<lparr>ss_outgoing_packet := b, ss_outgoing := q\<rparr>) = Some (None, s1)" by (auto simp: wire_send_def)
  with wire_step [OF laws ln a(3) this(1), of q] a(2) have "expects Es Er P Z s1 r p w" by auto
  with a that show thesis by blast
qed

text \<open>The receiver has no reason to exchange keys at these counters.\<close>

definition calm :: "('e, 'z) packet_env \<Rightarrow> ('e, 'z) ssh \<Rightarrow> packet_state \<Rightarrow> bool" where
  "calm E r p \<longleftrightarrow> ssh_packet_need_rekeying E (r\<lparr>ss_p_read := p\<rparr>) 0 = Some False"

lemma calm_same: "rx_same r r' \<Longrightarrow> calm E (r'\<lparr>ss_packlen := n\<rparr>) = calm E r"
  unfolding calm_def fun_eq_iff
  by (auto simp: rx_same_def rx_done_def rx_upd_def intro!: arg_cong [where f = "\<lambda>x. x = Some False"] need_rekeying_cong)

lemma calm_upd [simp]: "calm E (rx_upd n cc b b2 r) = calm E r" "calm E (r\<lparr>ss_input := b\<rparr>) = calm E r"
  unfolding calm_def fun_eq_iff
  by (auto simp: rx_upd_def intro!: arg_cong [where f = "\<lambda>x. x = Some False"] need_rekeying_cong)

text \<open>The receiver \<open>r\<close> is to deliver the packets \<open>ps\<close> from the bytes \<open>rem\<close>, and then meets the sender in \<open>s'\<close>.\<close>

fun flow ::
  "('e, 'z) packet_env \<Rightarrow> ('e, 'z) packet_env \<Rightarrow> (sshcipher \<Rightarrow> 'e \<Rightarrow> 'e \<Rightarrow> bool) \<Rightarrow> ('z \<Rightarrow> 'z \<Rightarrow> bool) \<Rightarrow> ('e, 'z) ssh \<Rightarrow> byte list list \<Rightarrow>
   byte list \<Rightarrow> ('e, 'z) ssh \<Rightarrow> bool" where
  "flow Es Er P Z r [] rem s' \<longleftrightarrow> linked Es Er P Z s' r \<and> rem = []"
| "flow Es Er P Z r (p # ps) rem s' \<longleftrightarrow>
     (\<exists>s1 w ws. expects Es Er P Z s1 r p w \<and> sent Es (calm Er r) s1 ps ws s' \<and> rem = w @ concat ws \<and> p \<noteq> [] \<and> ordinary (hd p) \<and>
        calm Er r (ss_p_send s1) \<and> ps_packets (ss_p_read r) + 1 \<noteq> 0)"

lemma flow_input [simp]: "flow Es Er P Z (r\<lparr>ss_input := b\<rparr>) ps rem s' = flow Es Er P Z r ps rem s'"
  by (cases ps) simp_all

lemma flow_start:
  assumes laws: "crypto_laws (pe_crypto Es) P" "zlib_laws Es Er Z" "pe_crypto Er = pe_crypto Es"
    and ln: "linked Es Er P Z s r" and se: "sent Es (calm Er r) s ps ws s'"
  shows "flow Es Er P Z r ps (concat ws) s'"
proof (cases ps)
  case Nil
  with se have "ws = []" "s' = s" by (auto elim: sent_NilE)
  with Nil ln show ?thesis by simp
next
  case (Cons p qs)
  from sent_expects [OF laws ln se [unfolded Cons]] obtain s1 w ws' where
    a: "expects Es Er P Z s1 r p w" "sent Es (calm Er r) s1 qs ws' s'" "ws = w # ws'" "calm Er r (ss_p_send s1)" "packet_ok Es s p" .
  have "ss_p_read r = ss_p_send s" using ln by (simp add: linked_def)
  with a Cons show ?thesis by (auto simp: packet_ok_def)
qed

lemma poll_nothing:
  assumes "linked Es Er P Z s r" "holds (pe_alloc Er) (ss_input r) []"
  shows "ssh_packet_read_poll2 Er r = Some (None, SSH_MSG_NONE, None, r)"
proof -
  from assms(1) obtain f where f: "framing_of (ss_newkeys_in r) = Some f" "framing_fits f (ss_send_context s)"
    "ctx_pair P (ss_send_context s) (ss_receive_context r)" "ss_packlen r = 0" "ss_packet_discard r = 0" by (auto simp: linked_def)
  have bs: "0 < fr_block_size f" using f(2,3) by (auto simp: framing_fits_def ctx_pair_def cipher_sane_def)
  obtain x where x: "cipher_get_length (pe_crypto Er) (ss_receive_context r) (ps_seqnr (ss_p_read r)) [] = Inl x"
    using get_length_short [of "[]" "pe_crypto Er" "ss_receive_context r" "ps_seqnr (ss_p_read r)"] by auto
  have "read_length Er f r = Some (Inl (None, r))"
    using bs x f(4) holds_read(1,2) [OF assms(2)] by (simp add: read_length_def read_length_aad_def read_first_block_def)
  with f show ?thesis by (simp add: ssh_packet_read_poll2_def)
qed

lemma drain_flow:
  assumes laws: "crypto_laws (pe_crypto Es) P" "zlib_laws Es Er Z" "pe_crypto Er = pe_crypto Es"
    and fl: "flow Es Er P Z r ps rem s'" and h: "holds (pe_alloc Er) (ss_input r) i" "prefix i rem"
  shows "\<exists>ds qs r' k. ps = ds @ qs \<and> drains Er r ds r' \<and> flow Es Er P Z r' qs (drop k rem) s' \<and> k \<le> length i \<and>
    holds (pe_alloc Er) (ss_input r') (drop k i) \<and> (qs = [] \<or> length i < length rem)"
  using fl h
proof (induction ps arbitrary: r rem i)
  case Nil
  then have "linked Es Er P Z s' r" "rem = []" "i = []" by simp_all
  moreover have "drains Er r [] r"
    by (rule drains.no_packet, rule poll_nothing) (use calculation Nil.prems(2) in simp_all)
  ultimately show ?case using Nil.prems(2) by (intro exI [of _ "[]"] exI [of _ r] exI [of _ 0]) simp
next
  case (Cons p ps)
  from Cons.prems(1) obtain s1 w ws where f: "expects Es Er P Z s1 r p w" "sent Es (calm Er r) s1 ps ws s'" "rem = w @ concat ws"
    "p \<noteq> []" "ordinary (hd p)" "calm Er r (ss_p_send s1)" "ps_packets (ss_p_read r) + 1 \<noteq> 0" by auto
  show ?case
  proof (cases "length i < length w")
    case True
    have "prefix i w" using Cons.prems(3) f(3) True by (metis prefix_length_prefix less_imp_le prefixI)
    from expects_short [OF f(1) Cons.prems(2) this True] obtain k r' n cc b b2 where
      e: "ssh_packet_read_poll2 Er r = Some (None, SSH_MSG_NONE, None, r')" "r' = rx_upd n cc b b2 r"
        "expects Es Er P Z s1 r' p (drop k w)" "holds (pe_alloc Er) (ss_input r') (drop k i)" "k \<le> length i" by blast
    have "flow Es Er P Z r' (p # ps) (drop k rem) s'" using f e(2,3,5) True by (auto simp: less_imp_le intro!: exI [of _ s1] exI [of _ "drop k w"] exI [of _ ws])
    moreover have "drains Er r [] r'" using e(1) by (rule drains.no_packet)
    moreover have "length i < length rem" using True f(3) by simp
    ultimately show ?thesis using e(4,5) by (intro exI [of _ "[]"] exI [of _ "p # ps"] exI [of _ r'] exI [of _ k]) simp
  next
    case False
    then have "prefix w i" using Cons.prems(3) f(3) by (metis not_less prefix_length_prefix prefixI)
    then obtain rest where i: "i = w @ rest" by (auto simp: prefix_def)
    obtain type body where p: "p = type # body" using f(4) by (cases p) auto
    have nk: "ssh_packet_need_rekeying Er (r\<lparr>ss_p_read := ss_p_send s1\<rparr>) 0 = Some False" using f(6) by (simp add: calm_def)
    from deliver_ordinary [OF f(1) [unfolded p] Cons.prems(2) [unfolded i] f(7) _ nk] f(5) p obtain r1 where
      d: "ssh_packet_read_poll2 Er r = Some (None, type, Some (ps_seqnr (ss_p_read r)), r1)" "holds (pe_alloc Er) (ss_incoming_packet r1) body"
        "holds (pe_alloc Er) (ss_input r1) rest" "linked Es Er P Z s1 r1" "\<exists>r0. rx_same r r0 \<and> r1 = r0\<lparr>ss_packlen := 0\<rparr>" by auto
    have cl: "calm Er r1 = calm Er r" using d(5) calm_same by blast
    have "flow Es Er P Z r1 ps (concat ws) s'" using flow_start [OF laws d(4)] f(2) cl by simp
    moreover have "prefix rest (concat ws)" using Cons.prems(3) i f(3) by simp
    ultimately obtain ds qs r' k where ih: "ps = ds @ qs" "drains Er r1 ds r'" "flow Es Er P Z r' qs (drop k (concat ws)) s'" "k \<le> length rest"
      "holds (pe_alloc Er) (ss_input r') (drop k rest)" "qs = [] \<or> length rest < length (concat ws)"
      using Cons.IH d(3) by blast
    have "type \<noteq> SSH_MSG_NONE" using f(5) p by (auto simp: ordinary_def msg_defs)
    moreover have "sshpkt_ptr r1 = body" using holds_read(2) [OF d(2)] by (simp add: sshpkt_ptr_def)
    ultimately have "drains Er r (p # ds) r'" using drains.a_packet [OF d(1) _ ih(2)] p by simp
    moreover have "drop (length w + k) rem = drop k (concat ws)" "drop (length w + k) i = drop k rest" using f(3) i by simp_all
    moreover have "qs = [] \<or> length i < length rem" using ih(6) f(3) i by simp
    ultimately show ?thesis using ih(1,3-5) i
      by (intro exI [of _ "p # ds"] exI [of _ qs] exI [of _ r'] exI [of _ "length w + k"]) simp
  qed
qed

text \<open>The whole run of the sender: nothing fails, and every packet adds its image to the output.\<close>

definition batch_ok :: "('e, 'z) packet_env \<Rightarrow> byte list list \<Rightarrow> ('e, 'z) ssh \<Rightarrow> bool" where
  "batch_ok E ps s \<longleftrightarrow> (\<forall>p \<in> set ps. p \<noteq> [] \<and> ordinary (hd p) \<and> length p + 4352 \<le> PACKET_MAX_SIZE) \<and>
     unat (ps_packets (ss_p_send s)) + length ps < 2 ^ 32 \<and> unat (ss_extra_pad s) \<le> 224 \<and>
     (\<exists>bs. holds (pe_alloc E) (ss_output s) bs \<and> length bs + length ps * packet_room \<le> SSHBUF_SIZE_MAX)"

lemma unat_Suc_word: "unat n + 1 < 2 ^ 32 \<Longrightarrow> unat (n + 1 :: 32 word) = unat n + 1"
  by (simp add: unat_word_ariths)

lemma batch_ok_ConsD: "batch_ok E (p # ps) s \<Longrightarrow> packet_ok E s p"
proof -
  assume a: "batch_ok E (p # ps) s"
  then have "unat (ps_packets (ss_p_send s)) + 1 < 2 ^ 32" by (simp add: batch_ok_def)
  then have "ps_packets (ss_p_send s) + 1 \<noteq> 0" using unat_Suc_word by (metis add_is_0 unat_0 one_neq_zero)
  with a show ?thesis by (auto simp: batch_ok_def packet_ok_def)
qed

lemma batch_ok_step:
  assumes "batch_ok E (p # ps) s" "holds (pe_alloc E) (ss_output s1) (contents (ss_output s) @ w)" "length w \<le> packet_room"
    and "ps_packets (ss_p_send s1) = ps_packets (ss_p_send s) + 1" "ss_extra_pad s1 = 0"
  shows "batch_ok E ps s1"
proof -
  have "unat (ps_packets (ss_p_send s)) + length (p # ps) < 2 ^ 32" using assms(1) by (simp add: batch_ok_def)
  then have "unat (ps_packets (ss_p_send s1)) + length ps < 2 ^ 32" using unat_Suc_word [of "ps_packets (ss_p_send s)"] assms(4) by simp
  moreover from assms(1) obtain bs where bs: "holds (pe_alloc E) (ss_output s) bs" "length bs + length (p # ps) * packet_room \<le> SSHBUF_SIZE_MAX"
    by (auto simp: batch_ok_def)
  moreover from bs(1) have "contents (ss_output s) = bs" by (simp add: holds_def)
  ultimately show ?thesis using assms by (auto simp: batch_ok_def intro!: exI [of _ "bs @ w"])
qed

text \<open>The receiver that takes this packet: the sender can go on against it.\<close>

lemma sent_advance:
  assumes ln: "linked Es Er P Z s r" "holds (pe_alloc Er) (ss_input r) []" "packet_ok Es s p"
    and ex: "expects Es Er P Z s1 r p w" "length w \<le> packet_room" "calm Er r (ss_p_send s1)"
  shows "\<exists>r1 r0. linked Es Er P Z s1 r1 \<and> holds (pe_alloc Er) (ss_input r1) [] \<and> calm Er r1 = calm Er r \<and>
    rx_same (r\<lparr>ss_input := ss_input r0\<rparr>) r0 \<and> r1 = r0\<lparr>ss_packlen := 0\<rparr>"
proof -
  obtain type body where p: "p = type # body" "ordinary type" using ln(3) by (cases p) (auto simp: packet_ok_def)
  have "length w \<le> SSHBUF_SIZE_MAX" using ex(2) by (simp add: packet_room_def PACKET_MAX_SIZE_def sshbuf_consts)
  with holds_put [OF ln(2), of w] obtain b where b: "holds (pe_alloc Er) b (w @ [])" by auto
  let ?r = "r\<lparr>ss_input := b\<rparr>"
  have e: "expects Es Er P Z s1 ?r (type # body) w" "ps_packets (ss_p_read ?r) + 1 \<noteq> 0"
    using ex(1) p(1) ln(1,3) by (simp_all add: packet_ok_def linked_def)
  have "calm Er ?r (ss_p_send s1)" using ex(3) by simp
  note dl = deliver_ordinary [OF e(1) _ e(2) p(2) this [unfolded calm_def], of "[]"]
  from dl b obtain r0 where d: "holds (pe_alloc Er) (ss_input (r0\<lparr>ss_packlen := 0\<rparr>)) []" "linked Es Er P Z s1 (r0\<lparr>ss_packlen := 0\<rparr>)" "rx_same ?r r0" by auto
  moreover have "calm Er (r0\<lparr>ss_packlen := 0\<rparr>) = calm Er r" using calm_same [OF d(3)] calm_upd(2) by metis
  moreover have "rx_same (r\<lparr>ss_input := ss_input r0\<rparr>) r0"
    using d(3) by (auto simp: rx_same_def rx_done_def rx_upd_def intro!: exI ssh.equality)
  ultimately show ?thesis by blast
qed

lemma send_all_sent:
  assumes laws: "crypto_laws (pe_crypto Es) P" "zlib_laws Es Er Z" "pe_crypto Er = pe_crypto Es"
    and "linked Es Er P Z s r" "holds (pe_alloc Er) (ss_input r) []" "batch_ok Es ps s"
    and "\<forall>k s1. send_all Es (take k ps) s = Some (None, s1) \<longrightarrow> calm Er r (ss_p_send s1)"
  shows "\<exists>s' ws. send_all Es ps s = Some (None, s') \<and> sent Es (calm Er r) s ps ws s' \<and>
    contents (ss_output s') = contents (ss_output s) @ concat ws \<and> length (concat ws) \<le> length ps * packet_room"
  using assms(4-7)
proof (induction ps arbitrary: s r)
  case Nil
  show ?case by (intro exI [of _ s] exI [of _ "[]"]) (simp add: sent_none)
next
  case (Cons p ps)
  note ok = batch_ok_ConsD [OF Cons.prems(3)]
  from send_packet_step [OF laws Cons.prems(1) ok] obtain s1 w where
    s1: "send_packet Es p s = Some (None, s1)" "contents (ss_output s1) = contents (ss_output s) @ w"
      "holds (pe_alloc Es) (ss_output s1) (contents (ss_output s) @ w)" "length w \<le> packet_room" "expects Es Er P Z s1 r p w"
      "ps_packets (ss_p_send s1) = ps_packets (ss_p_send s) + 1" "ss_extra_pad s1 = 0" "wire_send Es p s s1" by blast
  have cl: "calm Er r (ss_p_send s1)" using Cons.prems(4) [rule_format, of 1] s1(1) by simp
  from sent_advance [OF Cons.prems(1,2) ok s1(5,4) cl] obtain r1 where
    d: "holds (pe_alloc Er) (ss_input r1) []" "linked Es Er P Z s1 r1" "calm Er r1 = calm Er r" by blast
  note cr = d(3) and bt = batch_ok_step [OF Cons.prems(3) s1(3,4,6,7)]
  have "\<forall>k s2. send_all Es (take k ps) s1 = Some (None, s2) \<longrightarrow> calm Er r1 (ss_p_send s2)"
    using Cons.prems(4) [rule_format, of "Suc k" for k] s1(1) cr by simp
  from Cons.IH [OF d(2,1) bt this] obtain s' ws where
    ih: "send_all Es ps s1 = Some (None, s')" "sent Es (calm Er r1) s1 ps ws s'" "contents (ss_output s') = contents (ss_output s1) @ concat ws"
      "length (concat ws) \<le> length ps * packet_room" by blast
  have "sent Es (calm Er r) s (p # ps) (w # ws) s'" using sent_one [where K = "calm Er r", OF s1(8,2) ok cl] ih(2) cr by simp
  with ih s1(1,2,4) show ?case by (intro exI [of _ s'] exI [of _ "w # ws"]) simp
qed

text \<open>The whole run of the receiver: the pieces are cut from the output in any way.\<close>

lemma receive_flow:
  assumes laws: "crypto_laws (pe_crypto Es) P" "zlib_laws Es Er Z" "pe_crypto Er = pe_crypto Es"
    and "flow Es Er P Z r ps rem s'" "holds (pe_alloc Er) (ss_input r) i" "rem = i @ concat cs" "length rem \<le> SSHBUF_SIZE_MAX"
      "ps = [] \<or> length i < length rem"
  shows "\<exists>r'. receives Er cs r ps r' \<and> linked Es Er P Z s' r' \<and> holds (pe_alloc Er) (ss_input r') []"
  using assms(4-8)
proof (induction cs arbitrary: r ps rem i)
  case Nil
  then have "ps = []" by simp
  with Nil show ?case by (intro exI [of _ r]) (simp add: no_input)
next
  case (Cons c cs)
  have dc: "ss_packet_discard r = 0" using Cons.prems(1) by (cases ps) (auto simp: linked_def expects_def)
  from holds_put [OF Cons.prems(2), of c] Cons.prems(3,4) obtain b where
    b: "sshbuf_put (pe_alloc Er) (ss_input r) c = (None, b)" "holds (pe_alloc Er) b (i @ c)" by auto
  let ?r = "r\<lparr>ss_input := b\<rparr>"
  have pi: "ssh_packet_process_incoming Er c r = Some (None, ?r)" using dc b(1) by (simp add: ssh_packet_process_incoming_def on_input_def)
  have h: "flow Es Er P Z ?r ps rem s'" "holds (pe_alloc Er) (ss_input ?r) (i @ c)" "prefix (i @ c) rem" using Cons.prems b(2) by simp_all
  from drain_flow [OF laws h] obtain ds qs r1 k where
    d: "ps = ds @ qs" "drains Er ?r ds r1" "flow Es Er P Z r1 qs (drop k rem) s'" "k \<le> length (i @ c)"
      "holds (pe_alloc Er) (ss_input r1) (drop k (i @ c))" "qs = [] \<or> length (i @ c) < length rem" by blast
  have "drop k rem = drop k (i @ c) @ concat cs" using Cons.prems(3) d(4) by simp
  moreover have "length (drop k rem) \<le> SSHBUF_SIZE_MAX" using Cons.prems(4) by simp
  moreover have "qs = [] \<or> length (drop k (i @ c)) < length (drop k rem)" using d(4,6) by auto
  ultimately obtain r' where r': "receives Er cs r1 qs r'" "linked Es Er P Z s' r'" "holds (pe_alloc Er) (ss_input r') []"
    using Cons.IH [OF d(3,5)] by blast
  have "receives Er (c # cs) r (ds @ qs) r'" using pi d(2) r'(1) by (rule a_piece)
  with d(1) r' show ?case by blast
qed

lemma expects_nonempty:
  assumes "expects Es Er P Z s1 r p w" "ss_packlen r = 0"
  shows "w \<noteq> []"
proof -
  from assms(1) obtain f pkt ds' where "awaits Er f r pkt w ds'" by (auto simp: expects_def)
  then have aw: "\<not> bad_length (peek_u32 pkt)" "fr_block_size f \<in> {8, 16}" "fr_block_size f \<le> length pkt"
    "wire_image (pe_crypto Er) f (ss_receive_context r) (ps_seqnr (ss_p_read r)) pkt w ds' \<or> ss_packlen r = peek_u32 pkt"
    by (auto simp: awaits_def)
  with assms(2) have "wire_image (pe_crypto Er) f (ss_receive_context r) (ps_seqnr (ss_p_read r)) pkt w ds'" by (auto simp: bad_length_def)
  from wire_image_length [OF this aw(3)] aw(2,3) show ?thesis by (cases w) auto
qed

text \<open>C1: Packets sent over a connection arrive.  Let the two ends agree on keys, counters and compression (\<open>linked\<close>), and let the
  cryptographic primitives and zlib invert each other (\<open>crypto_laws\<close>, \<open>zlib_laws\<close>).  Then sending a list of packets
  succeeds and adds some bytes to the output of the sender; and however the network cuts these bytes into pieces, the
  receiver that takes a piece and polls until there is no packet gets exactly these packets in this order, with type
  and payload, for every cipher, MAC (also encrypt-then-MAC), padding and compression, and afterwards the two ends
  agree again.  The packets are of ordinary types and sizes, the counters do not wrap and the receiver has no reason
  to start a key exchange.\<close>

theorem transport_roundtrip:
  assumes "crypto_laws (pe_crypto Es) P" "zlib_laws Es Er Z" "pe_crypto Er = pe_crypto Es"
    and "linked Es Er P Z s r" "holds (pe_alloc Er) (ss_input r) []" "batch_ok Es ps s"
    and "\<forall>k s1. send_all Es (take k ps) s = Some (None, s1) \<longrightarrow> calm Er r (ss_p_send s1)"
  shows "\<exists>s' w. send_all Es ps s = Some (None, s') \<and> contents (ss_output s') = contents (ss_output s) @ w \<and>
    (\<forall>pieces. concat pieces = w \<longrightarrow>
       (\<exists>r'. receives Er pieces r ps r' \<and> linked Es Er P Z s' r' \<and> holds (pe_alloc Er) (ss_input r') []))"
proof -
  from send_all_sent [OF assms] obtain s' ws where
    s': "send_all Es ps s = Some (None, s')" "sent Es (calm Er r) s ps ws s'" "contents (ss_output s') = contents (ss_output s) @ concat ws"
      "length (concat ws) \<le> length ps * packet_room" by blast
  have "length (concat ws) \<le> SSHBUF_SIZE_MAX" using s'(4) assms(6) by (auto simp: batch_ok_def)
  moreover have "ps = [] \<or> concat ws \<noteq> []"
  proof (cases ps)
    case (Cons p qs)
    from sent_expects [OF assms(1-4) s'(2) [unfolded Cons]] obtain s1 w ws' where "expects Es Er P Z s1 r p w" "ws = w # ws'" .
    with expects_nonempty [OF this(1)] assms(4) show ?thesis by (auto simp: linked_def)
  qed simp
  ultimately have "\<exists>r'. receives Er pieces r ps r' \<and> linked Es Er P Z s' r' \<and> holds (pe_alloc Er) (ss_input r') []"
    if "concat pieces = concat ws" for pieces
    using receive_flow [OF assms(1-3) flow_start [OF assms(1-4) s'(2)] assms(5), of pieces] that
    by (simp del: concat_eq_Nil_conv length_concat)
  with s'(1,3) show ?thesis by blast
qed

section \<open>An instance of the libraries\<close>

text \<open>A key stream that repeats one byte, a constant tag, and a compression that stores its input: the laws hold for them.\<close>

definition demo_crypto :: "byte crypto" where
  "demo_crypto = \<lparr>cr_init = (\<lambda>c iv enc. Some 42), cr_set_iv_fixed = (\<lambda>iv e. Some e), cr_key_length = (\<lambda>e. 0), cr_set_key_length = (\<lambda>n e. Some e),
     cr_set_key = (\<lambda>k e. case k of Some (b # bs) \<Rightarrow> Some b | _ \<Rightarrow> Some e), cr_cipher = (\<lambda>x e. Some (map (\<lambda>b. b XOR e) x, e)), cr_aad = (\<lambda>x e. Some e),
     cr_final = (\<lambda>e. Some e), cr_iv_gen = (\<lambda>e. Some e), cr_set_tag = (\<lambda>t e. Some e), cr_get_tag = (\<lambda>n e. Some (replicate n 0)), cr_cleanup = (\<lambda>e. True),
     cr_chacha = (\<lambda>k iv n x. map (\<lambda>b. b XOR 42) x), cr_poly1305 = (\<lambda>m k. replicate POLY1305_TAGLEN 7),
     cr_hmac = (\<lambda>d k x. Some (replicate 64 (foldr (+) x 0))), cr_umac = (\<lambda>k n x. replicate 8 0), cr_umac128 = (\<lambda>k n x. replicate 16 0)\<rparr>"

definition demo_env :: "(byte, unit) packet_env" where
  "demo_env = \<lparr>pe_alloc = all_alloc, pe_crypto = demo_crypto, pe_mem = True, pe_junk = [], pe_hmac = (\<lambda>d. True), pe_umac = True,
     pe_random = (\<lambda>n i. of_nat i), pe_cookie = (\<lambda>i. 0), pe_now = 0, pe_deflateInit = (\<lambda>l. (Z_OK, ())), pe_inflateInit = (Z_OK, ()),
     pe_deflate = (\<lambda>x z. (Z_OK, take ZBUF x, drop ZBUF x, z)),
     pe_inflate = (\<lambda>x z. (if x = [] then Z_BUF_ERROR else Z_OK, take ZBUF x, drop ZBUF x, z)), pe_writes = []\<rparr>"

lemma demo_env_sel [simp]: "pe_alloc demo_env = all_alloc" "pe_crypto demo_env = demo_crypto"
  by (simp_all add: demo_env_def)

lemma xor_list [simp]: "map ((\<lambda>b. b XOR e) \<circ> (\<lambda>b. b XOR e)) x = (x :: byte list)"
  by (rule map_idI) (simp add: xor.assoc)

lemma demo_crypto_laws: "crypto_laws demo_crypto (\<lambda>c. (=))"
  by (auto simp: crypto_laws_def chacha_laws_def evp_stream_def evp_aead_def demo_crypto_def)

lemma demo_deflates: "deflates demo_env x z x z"
proof (induction "length x" arbitrary: x rule: less_induct)
  case less
  show ?case
  proof (cases "length x < ZBUF")
    case True
    then show ?thesis by (intro last_chunk [where inp' = "[]"]) (simp_all add: demo_env_def)
  next
    case False
    have "deflates demo_env (drop ZBUF x) z (drop ZBUF x) z" using less False by (simp add: ZBUF_def)
    from full_chunk [OF _ _ this, of x z "take ZBUF x"] False show ?thesis by (simp add: demo_env_def)
  qed
qed

lemma demo_inflates: "inflates demo_env x z x z"
proof (induction "length x" arbitrary: x rule: less_induct)
  case less
  show ?case
  proof (cases "x = []")
    case True
    then show ?thesis using no_more [of demo_env x z "[]" "[]" z] by (simp add: demo_env_def)
  next
    case False
    have "inflates demo_env (drop ZBUF x) z (drop ZBUF x) z" using less False by (simp add: ZBUF_def)
    from some_chunk [OF _ this, of x z "take ZBUF x"] False show ?thesis by (simp add: demo_env_def)
  qed
qed

lemma demo_zlib_laws: "zlib_laws demo_env demo_env (\<lambda>_ _. True)"
  unfolding zlib_laws_def using demo_deflates demo_inflates le_add1 by blast

text \<open>A connection with \<^verbatim>\<open>aes128-ctr\<close>, a MAC over the encrypted packet and compression.\<close>

definition demo_keys :: newkeys where
  "demo_keys = \<lparr>nk_enc = Some \<lparr>e_name = ''aes128-ctr'', e_cipher = mk_cipher ''aes128-ctr'' SSH_CIPHER_SSH2 16 16 0 0 0 0, e_enabled = True,
       e_key_len = 16, e_iv_len = 16, e_block_size = 16, e_key = Some (replicate 16 1), e_iv = Some (replicate 16 2)\<rparr>,
     nk_mac = \<lparr>m_name = Some ''hmac-sha2-256-etm@openssh.com'', m_type = Some (SSH_DIGEST SSH_DIGEST_SHA256), m_mac_len = 32, m_key_len = 32, m_etm = True,
       m_enabled = True, m_key = Some (replicate 32 3)\<rparr>,
     nk_comp = Some (COMP_ZLIB, ''zlib''), nk_comp_enabled = True\<rparr>"

definition demo_ctx :: "bool \<Rightarrow> byte sshcipher_ctx" where
  "demo_ctx enc = \<lparr>cc_plaintext = False, cc_encrypt = enc, cc_evp = 1, cc_cp = ([], []), cc_cipher = mk_cipher ''aes128-ctr'' SSH_CIPHER_SSH2 16 16 0 0 0 0\<rparr>"

definition demo_buf :: sshbuf where "demo_buf = the (sshbuf_new all_alloc)"

definition demo_ssh :: "(byte, unit) ssh" where
  "demo_ssh =
     \<lparr>ss_receive_context = demo_ctx False, ss_send_context = demo_ctx True, ss_input = demo_buf, ss_output = demo_buf,
      ss_outgoing_packet = demo_buf, ss_incoming_packet = demo_buf, ss_compression_buffer = Some demo_buf,
      ss_compression_in = \<lparr>z_stream = (), z_started = True, z_failures = 0\<rparr>, ss_compression_out = \<lparr>z_stream = (), z_started = True, z_failures = 0\<rparr>,
      ss_interactive_mode = False, ss_server_side = False, ss_after_authentication = False, ss_keep_alive_timeouts = 0, ss_packet_timeout_ms = -1,
      ss_newkeys_in = Some demo_keys, ss_newkeys_out = Some demo_keys,
      ss_p_read = \<lparr>ps_seqnr = 3, ps_packets = 3, ps_blocks = 7, ps_bytes = 56\<rparr>, ss_p_send = \<lparr>ps_seqnr = 3, ps_packets = 3, ps_blocks = 7, ps_bytes = 56\<rparr>,
      ss_max_blocks_in = 0, ss_max_blocks_out = 0, ss_rekey_limit = 0, ss_rekey_interval = 0, ss_rekey_time = 0, ss_extra_pad = 0,
      ss_packet_discard = 0, ss_packet_discard_mac = None, ss_packlen = 0, ss_rekeying = False, ss_outgoing = [], sh_kex = None, sh_compat = 0\<rparr>"

lemma demo_buf_holds [simp]: "holds all_alloc demo_buf []"
  using holds_new [OF all_alloc_total] by (auto simp: demo_buf_def)

lemma demo_linked: "linked demo_env demo_env (\<lambda>c. (=)) (\<lambda>_ _. True) demo_ssh demo_ssh"
proof -
  have "ctx_pair (\<lambda>c. (=)) (demo_ctx True) (demo_ctx False)"
    by (simp add: ctx_pair_def demo_ctx_def cipher_sane_def mk_cipher_def is_chachapoly_def)
  moreover have "\<exists>f. framing_of (Some demo_keys) = Some f \<and> framing_fits f (demo_ctx True) \<and> mac_total demo_crypto (fr_macon f)"
    by (simp add: framing_of_def demo_keys_def framing_fits_def demo_ctx_def mk_cipher_def cipher_authlen_def mac_etm_def enabled_mac_def mac_total_def
        mac_compute_def demo_crypto_def SSH_DIGEST_MAX_LENGTH_def)
  ultimately show ?thesis using demo_buf_holds by (auto simp: linked_def demo_ssh_def comp_linked_def has_buffer_def intro!: exI [of _ "[]"])
qed

theorem transport_roundtrip_witness:
  "\<exists>s' w. send_all demo_env [[90, 1, 2, 3], 91 # replicate 5000 7, [98]] demo_ssh = Some (None, s') \<and> contents (ss_output s') = w \<and>
    (\<forall>pieces. concat pieces = w \<longrightarrow> (\<exists>r'. receives demo_env pieces demo_ssh [[90, 1, 2, 3], 91 # replicate 5000 7, [98]] r'))"
proof -
  have b: "batch_ok demo_env [[90, 1, 2, 3], 91 # replicate 5000 7, [98]] demo_ssh"
    using demo_buf_holds by (auto simp: batch_ok_def demo_ssh_def packet_room_def PACKET_MAX_SIZE_def sshbuf_consts ordinary_def msg_defs
        intro!: exI [of _ "[]"])
  have c: "calm demo_env demo_ssh p" for p by (simp add: calm_def ssh_packet_need_rekeying_def demo_ssh_def)
  have i: "holds (pe_alloc demo_env) (ss_input demo_ssh) []" and o: "contents (ss_output demo_ssh) = []"
    using demo_buf_holds by (simp_all add: demo_ssh_def holds_def)
  have l: "crypto_laws (pe_crypto demo_env) (\<lambda>c. (=))" using demo_crypto_laws by simp
  from transport_roundtrip [OF l demo_zlib_laws refl demo_linked i b] c show ?thesis unfolding o append_Nil by blast
qed

text \<open>Extra padding above 240 bytes rounds up to 256, which is 0 in a byte, and the remainder is taken by it.\<close>

lemma extra_pad_wraps: "send_padlen 16 len 241 = None"
  by (simp add: send_padlen_def roundup_def)

end
