(* ===== verification/Rekey.thy ===== *)
theory Rekey
  imports Transport
begin

unbundle bit_operations_syntax

text \<open>
  Key changes in the transport of \<open>Packet\<close>: both ends of a direction install the same new keys at the same place of the
  byte stream and agree again, packets that are sent during a key exchange wait and leave in order, and nothing
  is delivered unless its MAC or tag is right.
\<close>

section \<open>New keys at both ends\<close>

text \<open>Keys that both ends can install: the key and the iv have the lengths of the cipher, the set-up of the two contexts
  gives a pair, and the MAC can be computed.\<close>

definition keys_fit :: "('e, 'z) packet_env \<Rightarrow> ('e, 'z) packet_env \<Rightarrow> (sshcipher \<Rightarrow> 'e \<Rightarrow> 'e \<Rightarrow> bool) \<Rightarrow> newkeys \<Rightarrow> sshenc \<Rightarrow> bool" where
  "keys_fit Es Er P nk enc \<longleftrightarrow> nk_enc nk = Some enc \<and> \<not> nk_comp_enabled nk \<and> e_key enc \<noteq> None \<and>
     (let c = e_cipher enc
      in cipher_sane c \<and> e_block_size enc = c_block_size c \<and> c_discard_len c = 0 \<and> c_number c \<noteq> SSH_CIPHER_DES \<and>
         c_key_len c \<le> e_key_len enc \<and> (is_chachapoly c \<longrightarrow> e_key_len enc = 64) \<and> (e_iv enc = None \<or> cipher_ivlen c \<le> e_iv_len enc) \<and>
         (\<not> is_chachapoly c \<longrightarrow>
            (\<exists>e d. evp_setup (pe_crypto Es) c (e_key enc) (e_key_len enc) (e_iv enc) True = Some e \<and>
                   evp_setup (pe_crypto Es) c (e_key enc) (e_key_len enc) (e_iv enc) False = Some d \<and> P c e d)) \<and>
         (cipher_authlen c = 0 \<longrightarrow> mac_init (pe_hmac Es) (pe_umac Es) (nk_mac nk) = None \<and>
            mac_init (pe_hmac Er) (pe_umac Er) (nk_mac nk) = None \<and> mac_total (pe_crypto Es) (Some (nk_mac nk))))"

lemma cipher_init_pair:
  assumes "keys_fit Es Er P nk enc"
  shows "\<exists>e d. cipher_init (pe_crypto Es) mem junk cc (e_cipher enc) (e_key enc) (e_key_len enc) (e_iv enc) (e_iv_len enc) True = Some (None, e) \<and>
    cipher_init (pe_crypto Es) mem' junk' cc' (e_cipher enc) (e_key enc) (e_key_len enc) (e_iv enc) (e_iv_len enc) False = Some (None, d) \<and>
    ctx_pair P e d \<and> cc_cipher e = e_cipher enc"
  using assms unfolding keys_fit_def cipher_init_def ctx_pair_def
  by (cases "is_chachapoly (e_cipher enc)") (auto simp: Let_def chachapoly_init_def)

text \<open>Compression starts with the new keys if it is chosen and, for delayed compression, the user is authenticated.\<close>

definition comp_starts :: "newkeys \<Rightarrow> bool \<Rightarrow> bool" where
  "comp_starts nk auth = (case nk_comp nk of None \<Rightarrow> False | Some (t, _) \<Rightarrow> t = COMP_ZLIB \<or> (t = COMP_DELAYED \<and> auth))"

definition installed :: "newkeys \<Rightarrow> bool \<Rightarrow> newkeys" where
  "installed nk auth = nk\<lparr>nk_mac := (nk_mac nk)\<lparr>m_enabled := True\<rparr>, nk_comp_enabled := comp_starts nk auth\<rparr>"

definition buffer_room :: "('e, 'z) packet_env \<Rightarrow> ('e, 'z) ssh \<Rightarrow> bool" where
  "buffer_room E s \<longleftrightarrow> alloc_total (pe_alloc E) \<and> (ss_compression_buffer s = None \<or> has_buffer E s)"

lemma init_compression_ok:
  assumes "buffer_room E s"
  shows "\<exists>cb bs. ssh_packet_init_compression E s = Some (None, s\<lparr>ss_compression_buffer := Some cb\<rparr>) \<and> holds (pe_alloc E) cb bs"
proof (cases "ss_compression_buffer s")
  case None
  from assms holds_new obtain b where "sshbuf_new (pe_alloc E) = Some b" "holds (pe_alloc E) b []" by (auto simp: buffer_room_def)
  with None show ?thesis by (auto simp: ssh_packet_init_compression_def)
next
  case (Some cb)
  then have "s\<lparr>ss_compression_buffer := Some cb\<rparr> = s" by simp
  moreover from Some assms obtain bs where "holds (pe_alloc E) cb bs" by (auto simp: buffer_room_def has_buffer_def)
  ultimately show ?thesis using Some by (intro exI [of _ cb] exI [of _ bs]) (simp add: ssh_packet_init_compression_def)
qed

lemma compression_stays_off:
  assumes "nk_comp nk' = nk_comp nk" "\<not> comp_starts nk auth"
  shows "enable_compression E mode (\<lambda>t. t = COMP_ZLIB \<or> (t = COMP_DELAYED \<and> auth)) nk' s = Some (None, s)"
  using assms unfolding enable_compression_def comp_starts_def
  by (cases "nk_comp nk") (auto split: prod.splits)

lemma room_for_packet:
  assumes "buffer_room E s" "length w \<le> packet_room"
  shows "\<exists>b. holds (pe_alloc E) b w"
proof -
  from assms(1) holds_new obtain b where "holds (pe_alloc E) b []" by (auto simp: buffer_room_def)
  from holds_put [OF this, of w] assms(2) show ?thesis by (auto simp: packet_room_def PACKET_MAX_SIZE_def sshbuf_consts)
qed

definition started :: "('e, 'z) packet_env \<Rightarrow> 'z \<Rightarrow> 'z compression \<Rightarrow> ('e, 'z) ssh \<Rightarrow> bool" where
  "started E z c s \<longleftrightarrow> has_buffer E s \<and> z_started c \<and> z_stream c = z"

text \<open>What the installation changes at the sending end, and at the receiving end.\<close>

lemma install_out:
  assumes fit: "keys_fit Es Er P nk enc" and room: "buffer_room Es s" "pe_deflateInit Es 6 = (Z_OK, zo)"
    and ci: "cipher_init (pe_crypto Es) (pe_mem Es) (pe_junk Es) (ss_send_context s) (e_cipher enc) (e_key enc) (e_key_len enc) (e_iv enc)
      (e_iv_len enc) True = Some (None, e)"
  shows "\<exists>s'. install_newkeys Es MODE_OUT nk s = Some (None, s') \<and> ss_newkeys_out s' = Some (installed nk (ss_after_authentication s)) \<and>
    ss_send_context s' = e \<and> (comp_starts nk (ss_after_authentication s) \<longrightarrow> started Es zo (ss_compression_out s') s') \<and>
    ss_p_send s' = ss_p_send s \<and> ss_outgoing_packet s' = ss_outgoing_packet s \<and> ss_output s' = ss_output s \<and> sh_kex s' = sh_kex s \<and>
    ss_rekeying s' = ss_rekeying s \<and> ss_outgoing s' = ss_outgoing s \<and> ss_extra_pad s' = ss_extra_pad s"
proof -
  have k: "nk_enc nk = Some enc" "\<not> nk_comp_enabled nk"
    "cipher_authlen (e_cipher enc) = 0 \<longrightarrow> mac_init (pe_hmac Es) (pe_umac Es) (nk_mac nk) = None" using fit by (auto simp: keys_fit_def Let_def)
  let ?nk = "nk\<lparr>nk_mac := (nk_mac nk)\<lparr>m_enabled := True\<rparr>\<rparr>"
  let ?s = "s\<lparr>ss_newkeys_out := Some ?nk, ss_send_context := e\<rparr>"
  have m: "install_newkeys Es MODE_OUT nk s =
    then_ok (enable_compression Es MODE_OUT (\<lambda>t. t = COMP_ZLIB \<or> (t = COMP_DELAYED \<and> ss_after_authentication s)) ?nk ?s) (\<lambda>s.
         Some (None, set_max_blocks MODE_OUT (max_blocks_for (ss_rekey_limit s) (e_block_size enc)) s))"
    using k ci by (simp add: install_newkeys_def Let_def put_newkeys_def context_of_def put_context_def)
  show ?thesis
  proof (cases "comp_starts nk (ss_after_authentication s)")
    case True
    have "buffer_room Es ?s" using room(1) by (simp add: buffer_room_def has_buffer_def)
    from init_compression_ok [OF this] obtain cb bs where
      cb: "ssh_packet_init_compression Es ?s = Some (None, ?s\<lparr>ss_compression_buffer := Some cb\<rparr>)" "holds (pe_alloc Es) cb bs" by blast
    from True k(2) obtain t n where "nk_comp nk = Some (t, n)" "t = COMP_ZLIB \<or> (t = COMP_DELAYED \<and> ss_after_authentication s)"
      by (auto simp: comp_starts_def split: option.splits)
    with cb room(2) k(2) True m show ?thesis
      by (auto simp: enable_compression_def start_compression_def start_compression_out_def zinit_def zinit_rc_def put_newkeys_def set_max_blocks_def
          installed_def started_def has_buffer_def)
  next
    case False
    note off = compression_stays_off [of ?nk nk "ss_after_authentication s" Es MODE_OUT ?s]
    with m False k(2) off show ?thesis by (simp add: set_max_blocks_def installed_def)
  qed
qed

lemma install_in:
  assumes fit: "keys_fit Es Er P nk enc" and room: "buffer_room Er r" "pe_inflateInit Er = (Z_OK, zi)"
    and ci: "cipher_init (pe_crypto Er) (pe_mem Er) (pe_junk Er) (ss_receive_context r) (e_cipher enc) (e_key enc) (e_key_len enc) (e_iv enc)
      (e_iv_len enc) False = Some (None, d)"
  shows "\<exists>r'. install_newkeys Er MODE_IN nk r = Some (None, r') \<and> ss_newkeys_in r' = Some (installed nk (ss_after_authentication r)) \<and>
    ss_receive_context r' = d \<and> (comp_starts nk (ss_after_authentication r) \<longrightarrow> started Er zi (ss_compression_in r') r') \<and>
    ss_p_read r' = ss_p_read r \<and> ss_incoming_packet r' = ss_incoming_packet r \<and> ss_input r' = ss_input r \<and> sh_kex r' = sh_kex r \<and>
    ss_rekeying r' = ss_rekeying r \<and> ss_packet_discard r' = ss_packet_discard r"
proof -
  have k: "nk_enc nk = Some enc" "\<not> nk_comp_enabled nk"
    "cipher_authlen (e_cipher enc) = 0 \<longrightarrow> mac_init (pe_hmac Er) (pe_umac Er) (nk_mac nk) = None" using fit by (auto simp: keys_fit_def Let_def)
  let ?nk = "nk\<lparr>nk_mac := (nk_mac nk)\<lparr>m_enabled := True\<rparr>\<rparr>"
  let ?r = "r\<lparr>ss_newkeys_in := Some ?nk, ss_receive_context := d\<rparr>"
  have m: "install_newkeys Er MODE_IN nk r =
    then_ok (enable_compression Er MODE_IN (\<lambda>t. t = COMP_ZLIB \<or> (t = COMP_DELAYED \<and> ss_after_authentication r)) ?nk ?r) (\<lambda>s.
         Some (None, set_max_blocks MODE_IN (max_blocks_for (ss_rekey_limit s) (e_block_size enc)) s))"
    using k ci by (simp add: install_newkeys_def Let_def put_newkeys_def context_of_def put_context_def)
  show ?thesis
  proof (cases "comp_starts nk (ss_after_authentication r)")
    case True
    have "buffer_room Er ?r" using room(1) by (simp add: buffer_room_def has_buffer_def)
    from init_compression_ok [OF this] obtain cb bs where
      cb: "ssh_packet_init_compression Er ?r = Some (None, ?r\<lparr>ss_compression_buffer := Some cb\<rparr>)" "holds (pe_alloc Er) cb bs" by blast
    from True k(2) obtain t n where "nk_comp nk = Some (t, n)" "t = COMP_ZLIB \<or> (t = COMP_DELAYED \<and> ss_after_authentication r)"
      by (auto simp: comp_starts_def split: option.splits)
    with cb room(2) k(2) True m show ?thesis
      by (auto simp: enable_compression_def start_compression_def start_compression_in_def zinit_def zinit_rc_def put_newkeys_def set_max_blocks_def
          installed_def started_def has_buffer_def)
  next
    case False
    note off = compression_stays_off [of ?nk nk "ss_after_authentication r" Er MODE_IN ?r]
    with m False k(2) off show ?thesis by (simp add: set_max_blocks_def installed_def)
  qed
qed

text \<open>The switch at each end: the counters of the direction start again, but not the sequence number.\<close>

definition restart :: "packet_state \<Rightarrow> packet_state" where
  "restart p = p\<lparr>ps_packets := 0, ps_blocks := 0\<rparr>"

definition cleans :: "'e crypto \<Rightarrow> bool" where
  "cleans C \<longleftrightarrow> (\<forall>e. cr_cleanup C e)"

lemma cleanup_ok: "cleans C \<Longrightarrow> \<exists>cc'. cipher_cleanup C cc = (None, cc')"
  by (simp add: cipher_cleanup_def cleans_def)

lemma set_newkeys_out_eq:
  assumes "cleans (pe_crypto E)" "sh_kex s = Some k" "kx_out k = Some nk"
  shows "\<exists>cc. ssh_set_newkeys E MODE_OUT s = install_newkeys E MODE_OUT nk
    (s\<lparr>ss_p_send := restart (ss_p_send s), ss_send_context := cc, ss_newkeys_out := Some nk, sh_kex := Some (k\<lparr>kx_out := None\<rparr>)\<rparr>)"
proof -
  obtain cc where cc: "cipher_cleanup (pe_crypto E) (ss_send_context s) = (None, cc)" using cleanup_ok [OF assms(1)] by blast
  show ?thesis using assms(2,3) cc
    by (cases "ss_newkeys_out s")
      (auto simp: ssh_set_newkeys_def Let_def reset_counts_def newkeys_of_def context_of_def put_context_def take_newkeys_def put_newkeys_def restart_def
        intro: exI [of _ "ss_send_context s"] exI [of _ cc])
qed

lemma set_newkeys_in_eq:
  assumes "cleans (pe_crypto E)" "sh_kex s = Some k" "kx_in k = Some nk"
  shows "\<exists>cc. ssh_set_newkeys E MODE_IN s = install_newkeys E MODE_IN nk
    (s\<lparr>ss_p_read := restart (ss_p_read s), ss_receive_context := cc, ss_newkeys_in := Some nk, sh_kex := Some (k\<lparr>kx_in := None\<rparr>)\<rparr>)"
proof -
  obtain cc where cc: "cipher_cleanup (pe_crypto E) (ss_receive_context s) = (None, cc)" using cleanup_ok [OF assms(1)] by blast
  show ?thesis using assms(2,3) cc
    by (cases "ss_newkeys_in s")
      (auto simp: ssh_set_newkeys_def Let_def reset_counts_def newkeys_of_def context_of_def put_context_def take_newkeys_def put_newkeys_def restart_def
        intro: exI [of _ "ss_receive_context s"] exI [of _ cc])
qed

text \<open>The two streams of zlib start together.\<close>

definition zlib_starts :: "('e, 'z) packet_env \<Rightarrow> ('e, 'z) packet_env \<Rightarrow> ('z \<Rightarrow> 'z \<Rightarrow> bool) \<Rightarrow> bool" where
  "zlib_starts Es Er Z \<longleftrightarrow> (\<exists>zo zi. pe_deflateInit Es 6 = (Z_OK, zo) \<and> pe_inflateInit Er = (Z_OK, zi) \<and> Z zo zi)"

lemma mac_compute_enabled [simp]: "mac_compute C (m\<lparr>m_enabled := b\<rparr>) = mac_compute C m"
  by (intro ext) (simp add: mac_compute_def Let_def split: option.split mac_type.split)

lemma installed_framing:
  assumes "keys_fit Es Er P nk enc" "cc_cipher e = e_cipher enc"
  shows "\<exists>f. framing_of (Some (installed nk auth)) = Some f \<and> framing_fits f e \<and> mac_total (pe_crypto Es) (fr_macon f) \<and> fr_comp f = comp_starts nk auth"
  using assms unfolding keys_fit_def
  by (auto simp: Let_def framing_of_def installed_def framing_fits_def enabled_mac_def mac_etm_def mac_total_def)

text \<open>Both ends change the keys of one direction.\<close>

definition pending :: "newkeys \<Rightarrow> ('e, 'z) ssh \<Rightarrow> ('e, 'z) ssh \<Rightarrow> bool" where
  "pending nk s r \<longleftrightarrow> (\<exists>k. sh_kex s = Some k \<and> kx_out k = Some nk) \<and> (\<exists>k. sh_kex r = Some k \<and> kx_in k = Some nk)"

lemma set_newkeys_linked:
  assumes laws: "pe_crypto Er = pe_crypto Es" "cleans (pe_crypto Es)" "zlib_starts Es Er Z" "keys_fit Es Er P nk enc"
    and ln: "linked Es Er P Z s (r\<lparr>ss_packlen := 0\<rparr>)" and pn: "pending nk s r"
    and room: "buffer_room Es s" "buffer_room Er r" "ss_after_authentication r = ss_after_authentication s"
  shows "\<exists>s' r'. ssh_set_newkeys Es MODE_OUT s = Some (None, s') \<and> ssh_set_newkeys Er MODE_IN r = Some (None, r') \<and>
    linked Es Er P Z s' (r'\<lparr>ss_packlen := 0\<rparr>) \<and> ss_newkeys_out s' = Some (installed nk (ss_after_authentication s)) \<and>
    ss_p_send s' = restart (ss_p_send s) \<and> ss_output s' = ss_output s \<and> ss_outgoing s' = ss_outgoing s \<and> ss_extra_pad s' = ss_extra_pad s \<and>
    ss_input r' = ss_input r \<and> ss_incoming_packet r' = ss_incoming_packet r \<and> ss_rekeying r' = ss_rekeying r \<and>
    sh_kex r' = map_option (\<lambda>k. k\<lparr>kx_in := None\<rparr>) (sh_kex r) \<and> sh_kex s' = map_option (\<lambda>k. k\<lparr>kx_out := None\<rparr>) (sh_kex s)"
proof -
  from pn obtain ks kr where k: "sh_kex s = Some ks" "kx_out ks = Some nk" "sh_kex r = Some kr" "kx_in kr = Some nk" by (auto simp: pending_def)
  from laws(3) obtain zo zi where z: "pe_deflateInit Es 6 = (Z_OK, zo)" "pe_inflateInit Er = (Z_OK, zi)" "Z zo zi" by (auto simp: zlib_starts_def)
  obtain cs where cs: "ssh_set_newkeys Es MODE_OUT s = install_newkeys Es MODE_OUT nk
      (s\<lparr>ss_p_send := restart (ss_p_send s), ss_send_context := cs, ss_newkeys_out := Some nk, sh_kex := Some (ks\<lparr>kx_out := None\<rparr>)\<rparr>)" (is "_ = install_newkeys _ _ _ ?s")
    using set_newkeys_out_eq [OF laws(2) k(1,2)] by blast
  obtain cr where cr: "ssh_set_newkeys Er MODE_IN r = install_newkeys Er MODE_IN nk
      (r\<lparr>ss_p_read := restart (ss_p_read r), ss_receive_context := cr, ss_newkeys_in := Some nk, sh_kex := Some (kr\<lparr>kx_in := None\<rparr>)\<rparr>)" (is "_ = install_newkeys _ _ _ ?r")
    using set_newkeys_in_eq [of Er, unfolded laws(1), OF laws(2) k(3,4)] by blast
  from cipher_init_pair [OF laws(4), of "pe_mem Es" "pe_junk Es" cs "pe_mem Er" "pe_junk Er" cr] obtain e d where
    ci: "cipher_init (pe_crypto Es) (pe_mem Es) (pe_junk Es) (ss_send_context ?s) (e_cipher enc) (e_key enc) (e_key_len enc) (e_iv enc) (e_iv_len enc) True = Some (None, e)"
      "cipher_init (pe_crypto Er) (pe_mem Er) (pe_junk Er) (ss_receive_context ?r) (e_cipher enc) (e_key enc) (e_key_len enc) (e_iv enc) (e_iv_len enc) False = Some (None, d)"
      "ctx_pair P e d" "cc_cipher e = e_cipher enc" using laws(1) by auto
  have rm: "buffer_room Es ?s" "buffer_room Er ?r" using room(1,2) by (simp_all add: buffer_room_def has_buffer_def)
  from install_out [OF laws(4) rm(1) z(1) ci(1)] obtain s' where
    s': "install_newkeys Es MODE_OUT nk ?s = Some (None, s')" "ss_newkeys_out s' = Some (installed nk (ss_after_authentication s))" "ss_send_context s' = e"
      "comp_starts nk (ss_after_authentication s) \<longrightarrow> started Es zo (ss_compression_out s') s'" "ss_p_send s' = restart (ss_p_send s)"
      "ss_outgoing_packet s' = ss_outgoing_packet s" "ss_output s' = ss_output s" "ss_outgoing s' = ss_outgoing s" "ss_extra_pad s' = ss_extra_pad s"
      "sh_kex s' = Some (ks\<lparr>kx_out := None\<rparr>)" by auto
  from install_in [OF laws(4) rm(2) z(2) ci(2)] obtain r' where
    r': "install_newkeys Er MODE_IN nk ?r = Some (None, r')" "ss_newkeys_in r' = Some (installed nk (ss_after_authentication r))" "ss_receive_context r' = d"
      "comp_starts nk (ss_after_authentication r) \<longrightarrow> started Er zi (ss_compression_in r') r'" "ss_p_read r' = restart (ss_p_read r)"
      "ss_incoming_packet r' = ss_incoming_packet r" "ss_input r' = ss_input r" "sh_kex r' = Some (kr\<lparr>kx_in := None\<rparr>)" "ss_rekeying r' = ss_rekeying r"
      "ss_packet_discard r' = ss_packet_discard r" by auto
  obtain f where f: "framing_of (Some (installed nk (ss_after_authentication s))) = Some f" "framing_fits f e" "mac_total (pe_crypto Es) (fr_macon f)"
    "fr_comp f = comp_starts nk (ss_after_authentication s)" using installed_framing [OF laws(4) ci(4)] by blast
  have c: "comp_linked Es Er Z f s' (r'\<lparr>ss_packlen := 0\<rparr>)"
    using s'(4) r'(4) f(4) z(3) room(3) by (auto simp: comp_linked_def started_def has_buffer_def)
  have "linked Es Er P Z s' (r'\<lparr>ss_packlen := 0\<rparr>)"
    using ln s' r' f c ci(3) room(3) by (auto simp: linked_def)
  with cs cr s' r' k(1,3) show ?thesis by (intro exI [of _ s'] exI [of _ r']) simp
qed

text \<open>A key change as one packet.\<close>

definition change_ok :: "('e, 'z) packet_env \<Rightarrow> ('e, 'z) packet_env \<Rightarrow> ('e, 'z) ssh \<Rightarrow> ('e, 'z) ssh \<Rightarrow> bool" where
  "change_ok Es Er s r \<longleftrightarrow> buffer_room Es s \<and> buffer_room Er r \<and> ss_after_authentication r = ss_after_authentication s \<and> ssh_packet_is_rekeying r \<and>
     ps_packets (ss_p_send s) + 1 \<noteq> 0 \<and> unat (ss_extra_pad s) \<le> 224 \<and>
     (\<exists>bs. holds (pe_alloc Es) (ss_output s) bs \<and> length bs + packet_room \<le> SSHBUF_SIZE_MAX)"

lemma room_kept: "buffer_room E s \<Longrightarrow> keeps_buffer E (ss_compression_buffer s) (ss_compression_buffer s') \<Longrightarrow> buffer_room E s'"
  by (auto simp: buffer_room_def keeps_buffer_def has_buffer_def)

lemma rx_same_kept: "rx_same r r' \<Longrightarrow> sh_kex r' = sh_kex r \<and> ss_after_authentication r' = ss_after_authentication r \<and> ss_rekeying r' = ss_rekeying r"
  by (auto simp: rx_same_def rx_done_def rx_upd_def)

lemma newkeys_received:
  assumes laws: "pe_crypto Er = pe_crypto Es" "cleans (pe_crypto Es)" "zlib_starts Es Er Z" "keys_fit Es Er P nk enc"
    and ex: "expects Es Er P Z s1 r [SSH2_MSG_NEWKEYS] w" and pn: "pending nk s1 r" and rk: "ssh_packet_is_rekeying r"
    and room: "buffer_room Es s1" "buffer_room Er r" "ss_after_authentication r = ss_after_authentication s1" "ps_packets (ss_p_read r) + 1 \<noteq> 0"
    and h: "holds (pe_alloc Er) (ss_input r) (w @ rest)"
  shows "\<exists>s' r'. ssh_set_newkeys Es MODE_OUT s1 = Some (None, s') \<and> ss_output s' = ss_output s1 \<and>
    ss_newkeys_out s' = Some (installed nk (ss_after_authentication s1)) \<and> ps_seqnr (ss_p_send s') = ps_seqnr (ss_p_send s1) \<and>
    ps_packets (ss_p_send s') = 0 \<and> ss_outgoing s' = ss_outgoing s1 \<and> ss_extra_pad s' = ss_extra_pad s1 \<and>
    sh_kex s' = map_option (\<lambda>k. k\<lparr>kx_out := None\<rparr>) (sh_kex s1) \<and>
    ssh_packet_read_poll2 Er r = Some (None, SSH2_MSG_NEWKEYS, Some (ps_seqnr (ss_p_read r)), r') \<and> linked Es Er P Z s' r' \<and>
    holds (pe_alloc Er) (ss_input r') rest \<and> ssh_packet_is_rekeying r' \<and> sshpkt_ptr r' = []"
proof -
  from expects_full [OF ex h room(4)] obtain r1 where
    r1: "ssh_packet_read_poll2 Er r = read_result SSH2_MSG_NEWKEYS (Some (ps_seqnr (ss_p_read r))) (read_finish Er SSH2_MSG_NEWKEYS r1)" "rx_same r r1"
      "holds (pe_alloc Er) (ss_input r1) rest" "linked Es Er P Z s1 (r1\<lparr>ss_packlen := 0\<rparr>)"
      "keeps_buffer Er (ss_compression_buffer r) (ss_compression_buffer r1)" "holds (pe_alloc Er) (ss_incoming_packet r1) []" by blast
  note same = rx_same_kept [OF r1(2)]
  have pr: "pending nk s1 r1" "buffer_room Er r1" "ss_after_authentication r1 = ss_after_authentication s1" "ssh_packet_is_rekeying r1"
    using pn room(3) rk same room_kept [OF room(2) r1(5)] by (simp_all add: pending_def ssh_packet_is_rekeying_def)
  from set_newkeys_linked [OF laws r1(4) pr(1) room(1) pr(2,3)] obtain s' r' where
    n: "ssh_set_newkeys Es MODE_OUT s1 = Some (None, s')" "ssh_set_newkeys Er MODE_IN r1 = Some (None, r')" "linked Es Er P Z s' (r'\<lparr>ss_packlen := 0\<rparr>)"
      "ss_newkeys_out s' = Some (installed nk (ss_after_authentication s1))" "ss_p_send s' = restart (ss_p_send s1)" "ss_output s' = ss_output s1"
      "ss_input r' = ss_input r1" "ss_rekeying r' = ss_rekeying r1" "ss_incoming_packet r' = ss_incoming_packet r1" "sh_kex r' = map_option (\<lambda>k. k\<lparr>kx_in := None\<rparr>) (sh_kex r1)"
      "ss_outgoing s' = ss_outgoing s1" "ss_extra_pad s' = ss_extra_pad s1" "sh_kex s' = map_option (\<lambda>k. k\<lparr>kx_out := None\<rparr>) (sh_kex s1)" by blast
  have rk': "ssh_packet_is_rekeying (r'\<lparr>ss_packlen := 0\<rparr>)"
    using pr(4) n(8,10) by (auto simp: ssh_packet_is_rekeying_def split: option.splits)
  then have "ssh_packet_need_rekeying Er (r'\<lparr>ss_packlen := 0\<rparr>) 0 = Some False" by (simp add: ssh_packet_need_rekeying_def)
  with n(2) have "read_finish Er SSH2_MSG_NEWKEYS r1 = Some (None, r'\<lparr>ss_packlen := 0\<rparr>)" by (simp add: read_finish_def msg_defs)
  moreover have "sshpkt_ptr r' = []" using holds_read(2) [OF r1(6)] n(9) by (simp add: sshpkt_ptr_def)
  ultimately show ?thesis using n r1(1,3) rk'
    by (intro exI [of _ s'] exI [of _ "r'\<lparr>ss_packlen := 0\<rparr>"]) (simp add: read_result_def restart_def sshpkt_ptr_def)
qed

lemma newkeys_sent:
  assumes laws: "crypto_laws (pe_crypto Es) P" "zlib_laws Es Er Z" "pe_crypto Er = pe_crypto Es"
    and ends: "linked Es Er P Z s r" "pending nk s r" "change_ok Es Er s r"
  shows "\<exists>s1 w. send_packet Es [SSH2_MSG_NEWKEYS] s = ssh_set_newkeys Es MODE_OUT s1 \<and> contents (ss_output s1) = contents (ss_output s) @ w \<and>
    length w \<le> packet_room \<and> ps_seqnr (ss_p_send s1) = ps_seqnr (ss_p_send s) + 1 \<and> expects Es Er P Z s1 r [SSH2_MSG_NEWKEYS] w \<and>
    pending nk s1 r \<and> ss_after_authentication s1 = ss_after_authentication s \<and> buffer_room Es s1 \<and>
    holds (pe_alloc Es) (ss_output s1) (contents (ss_output s) @ w) \<and> ss_outgoing s1 = ss_outgoing s \<and> ss_extra_pad s1 = 0 \<and> sh_kex s1 = sh_kex s"
proof -
  from ends(3) obtain bs where ok: "holds (pe_alloc Es) (ss_output s) bs" "length bs + packet_room \<le> SSHBUF_SIZE_MAX" "unat (ss_extra_pad s) \<le> 224"
    "ps_packets (ss_p_send s) + 1 \<noteq> 0" "buffer_room Es s" "buffer_room Er r" "ss_after_authentication r = ss_after_authentication s"
    "ssh_packet_is_rekeying r" by (auto simp: change_ok_def)
  have bs: "contents (ss_output s) = bs" and pr: "ss_p_read r = ss_p_send s" using ok(1) ends(1) by (auto simp: holds_def linked_def)
  have sz: "length [SSH2_MSG_NEWKEYS] + 4352 \<le> PACKET_MAX_SIZE" by (simp add: PACKET_MAX_SIZE_def)
  from send_packet_eq [OF ends(1) _ sz] obtain b0 where
    b0: "send_packet Es [SSH2_MSG_NEWKEYS] s = ssh_packet_send2_wrapped Es (s\<lparr>ss_outgoing_packet := b0\<rparr>)"
      "holds (pe_alloc Es) (ss_outgoing_packet (s\<lparr>ss_outgoing_packet := b0\<rparr>)) ([0, 0, 0, 0, 0] @ [SSH2_MSG_NEWKEYS])"
      "linked Es Er P Z (s\<lparr>ss_outgoing_packet := b0\<rparr>) r" (is "linked _ _ _ _ ?s _") by auto
  have o: "holds (pe_alloc Es) (ss_output ?s) bs" "unat (ss_extra_pad ?s) \<le> 224" "ps_packets (ss_p_send ?s) + 1 \<noteq> 0" using ok by simp_all
  from send_step [OF laws b0(3,2) _ refl sz o(1) ok(2) o(2,3)] obtain s1 w where
    s1: "ssh_packet_send2_wrapped Es ?s = after_send Es SSH2_MSG_NEWKEYS s1" "tx_same ?s s1" "holds (pe_alloc Es) (ss_output s1) (bs @ w)"
      "length w \<le> packet_room" "expects Es Er P Z s1 r [SSH2_MSG_NEWKEYS] w" "keeps_buffer Es (ss_compression_buffer ?s) (ss_compression_buffer s1)" by auto
  have sn: "send_packet Es [SSH2_MSG_NEWKEYS] s = ssh_set_newkeys Es MODE_OUT s1" using b0(1) s1(1) by (simp add: after_send_def)
  have sq: "ps_seqnr (ss_p_send s1) = ps_seqnr (ss_p_send s) + 1" using s1(5) pr by (auto simp: expects_def count_packet_def next_packet_def)
  have k: "pending nk s1 r" "ss_after_authentication s1 = ss_after_authentication s" using s1(2) ends(2) by (auto simp: tx_same_def pending_def)
  have rs: "buffer_room Es s1" using room_kept [of Es ?s s1] ok(5) s1(6) by (simp add: buffer_room_def has_buffer_def)
  from s1(3) have "contents (ss_output s1) = bs @ w" by (simp add: holds_def)
  moreover have "ss_outgoing s1 = ss_outgoing s" "ss_extra_pad s1 = 0" "sh_kex s1 = sh_kex s" using s1(2) by (auto simp: tx_same_def)
  ultimately show ?thesis using sn s1(3-5) sq k rs bs by (intro exI [of _ s1] exI [of _ w]) simp
qed

lemma newkeys_agree:
  assumes laws: "crypto_laws (pe_crypto Es) P" "zlib_laws Es Er Z" "pe_crypto Er = pe_crypto Es"
    and new: "cleans (pe_crypto Es)" "zlib_starts Es Er Z" "keys_fit Es Er P nk enc"
    and ends: "linked Es Er P Z s r" "pending nk s r" "change_ok Es Er s r"
  shows "\<exists>s' w. send_packet Es [SSH2_MSG_NEWKEYS] s = Some (None, s') \<and> contents (ss_output s') = contents (ss_output s) @ w \<and>
    holds (pe_alloc Es) (ss_output s') (contents (ss_output s) @ w) \<and> length w \<le> packet_room \<and>
    ss_newkeys_out s' = Some (installed nk (ss_after_authentication s)) \<and> ps_seqnr (ss_p_send s') = ps_seqnr (ss_p_send s) + 1 \<and>
    ps_packets (ss_p_send s') = 0 \<and> ss_outgoing s' = ss_outgoing s \<and> ss_extra_pad s' = 0 \<and> sh_kex s' = map_option (\<lambda>k. k\<lparr>kx_out := None\<rparr>) (sh_kex s) \<and>
    (\<forall>b rest. holds (pe_alloc Er) b (w @ rest) \<longrightarrow>
       (\<exists>r'. ssh_packet_read_poll2 Er (r\<lparr>ss_input := b\<rparr>) = Some (None, SSH2_MSG_NEWKEYS, Some (ps_seqnr (ss_p_read r)), r') \<and>
          linked Es Er P Z s' r' \<and> holds (pe_alloc Er) (ss_input r') rest \<and> ssh_packet_is_rekeying r' \<and> sshpkt_ptr r' = []))"
proof -
  from newkeys_sent [OF laws ends] obtain s1 w where
    s1: "send_packet Es [SSH2_MSG_NEWKEYS] s = ssh_set_newkeys Es MODE_OUT s1" "contents (ss_output s1) = contents (ss_output s) @ w"
      "length w \<le> packet_room" "ps_seqnr (ss_p_send s1) = ps_seqnr (ss_p_send s) + 1" "expects Es Er P Z s1 r [SSH2_MSG_NEWKEYS] w"
      "pending nk s1 r" "ss_after_authentication s1 = ss_after_authentication s" "buffer_room Es s1"
      "holds (pe_alloc Es) (ss_output s1) (contents (ss_output s) @ w)" "ss_outgoing s1 = ss_outgoing s" "ss_extra_pad s1 = 0" "sh_kex s1 = sh_kex s" by blast
  have ok: "ps_packets (ss_p_read r) + 1 \<noteq> 0" "buffer_room Er r" "ss_after_authentication r = ss_after_authentication s" "ssh_packet_is_rekeying r"
    using ends(1,3) by (auto simp: change_ok_def linked_def)
  have ready: "expects Es Er P Z s1 (r\<lparr>ss_input := b\<rparr>) [SSH2_MSG_NEWKEYS] w" "pending nk s1 (r\<lparr>ss_input := b\<rparr>)"
      "ssh_packet_is_rekeying (r\<lparr>ss_input := b\<rparr>)" "buffer_room Er (r\<lparr>ss_input := b\<rparr>)"
      "ss_after_authentication (r\<lparr>ss_input := b\<rparr>) = ss_after_authentication s1" "ps_packets (ss_p_read (r\<lparr>ss_input := b\<rparr>)) + 1 \<noteq> 0" for b
    using s1(5-7) ok by (simp_all add: pending_def ssh_packet_is_rekeying_def buffer_room_def has_buffer_def)
  have rcv: "\<exists>s' r'. ssh_set_newkeys Es MODE_OUT s1 = Some (None, s') \<and> ss_output s' = ss_output s1 \<and>
    ss_newkeys_out s' = Some (installed nk (ss_after_authentication s1)) \<and> ps_seqnr (ss_p_send s') = ps_seqnr (ss_p_send s1) \<and>
    ps_packets (ss_p_send s') = 0 \<and> ss_outgoing s' = ss_outgoing s1 \<and> ss_extra_pad s' = ss_extra_pad s1 \<and>
    sh_kex s' = map_option (\<lambda>k. k\<lparr>kx_out := None\<rparr>) (sh_kex s1) \<and>
    ssh_packet_read_poll2 Er (r\<lparr>ss_input := b\<rparr>) = Some (None, SSH2_MSG_NEWKEYS, Some (ps_seqnr (ss_p_read r)), r') \<and> linked Es Er P Z s' r' \<and>
    holds (pe_alloc Er) (ss_input r') rest \<and> ssh_packet_is_rekeying r' \<and> sshpkt_ptr r' = []" if b: "holds (pe_alloc Er) b (w @ rest)" for b rest
    using newkeys_received [OF laws(3) new ready(1-3) s1(8) ready(4-6), of b rest] b by simp
  obtain b where "holds (pe_alloc Er) b (w @ [])" using room_for_packet [OF ok(2) s1(3)] by auto
  from rcv [OF this] obtain s' where s': "ssh_set_newkeys Es MODE_OUT s1 = Some (None, s')" "ss_output s' = ss_output s1"
    "ss_newkeys_out s' = Some (installed nk (ss_after_authentication s))" "ps_seqnr (ss_p_send s') = ps_seqnr (ss_p_send s1)"
    "ps_packets (ss_p_send s') = 0" "ss_outgoing s' = ss_outgoing s1" "ss_extra_pad s' = ss_extra_pad s1"
    "sh_kex s' = map_option (\<lambda>k. k\<lparr>kx_out := None\<rparr>) (sh_kex s1)" using s1(7) by auto
  have "\<exists>r'. ssh_packet_read_poll2 Er (r\<lparr>ss_input := b\<rparr>) = Some (None, SSH2_MSG_NEWKEYS, Some (ps_seqnr (ss_p_read r)), r') \<and>
      linked Es Er P Z s' r' \<and> holds (pe_alloc Er) (ss_input r') rest \<and> ssh_packet_is_rekeying r' \<and> sshpkt_ptr r' = []" if "holds (pe_alloc Er) b (w @ rest)" for b rest
    using rcv [OF that] s'(1) by auto
  with s1 s' show ?thesis by (intro exI [of _ s'] exI [of _ w]) simp
qed

text \<open>C6: The two ends change keys at the same place of the stream.  When the sender sends \<^verbatim>\<open>SSH2_MSG_NEWKEYS\<close> under
  the old keys it switches to the keys that the exchange left for it (and starts compression if they say so); the
  receiver that reads these bytes, whatever follows them in its buffer, delivers the message with its sequence number,
  switches to the same keys in the same call, leaves the bytes behind it for the new keys, and the two ends agree
  again: cipher, MAC, counters and compression.  The sequence number goes on, it is not reset.\<close>

theorem newkeys_switch:
  assumes laws: "crypto_laws (pe_crypto Es) P" "zlib_laws Es Er Z" "pe_crypto Er = pe_crypto Es"
    and new: "cleans (pe_crypto Es)" "zlib_starts Es Er Z" "keys_fit Es Er P nk enc"
    and ends: "linked Es Er P Z s r" "pending nk s r" "change_ok Es Er s r"
  shows "\<exists>s' w. send_packet Es [SSH2_MSG_NEWKEYS] s = Some (None, s') \<and> contents (ss_output s') = contents (ss_output s) @ w \<and>
    ss_newkeys_out s' = Some (installed nk (ss_after_authentication s)) \<and> ps_seqnr (ss_p_send s') = ps_seqnr (ss_p_send s) + 1 \<and>
    (\<forall>b rest. holds (pe_alloc Er) b (w @ rest) \<longrightarrow>
       (\<exists>r'. ssh_packet_read_poll2 Er (r\<lparr>ss_input := b\<rparr>) = Some (None, SSH2_MSG_NEWKEYS, Some (ps_seqnr (ss_p_read r)), r') \<and>
          linked Es Er P Z s' r' \<and> holds (pe_alloc Er) (ss_input r') rest))"
  using newkeys_agree [OF assms] by blast

definition demo_new_keys :: newkeys where
  "demo_new_keys = demo_keys\<lparr>nk_mac := (nk_mac demo_keys)\<lparr>m_enabled := False\<rparr>, nk_comp_enabled := False\<rparr>"

definition demo_exchange :: kex where
  "demo_exchange = (demo_kex False demo_buf demo_buf)\<lparr>kx_in := Some demo_new_keys, kx_out := Some demo_new_keys, kx_done := False\<rparr>"

definition demo_end :: "(byte, unit) ssh" where
  "demo_end = demo_ssh\<lparr>ss_rekeying := True, sh_kex := Some demo_exchange\<rparr>"

lemma demo_fit: "keys_fit demo_env demo_env (\<lambda>c. (=)) demo_new_keys (the (nk_enc demo_keys))"
  by (simp add: keys_fit_def demo_new_keys_def demo_keys_def Let_def cipher_sane_def mk_cipher_def is_chachapoly_def evp_setup_def demo_crypto_def
      demo_env_def cipher_authlen_def cipher_ivlen_def mac_init_def mac_total_def mac_compute_def SSH_DIGEST_MAX_LENGTH_def SSH_CIPHER_SSH2_def SSH_CIPHER_DES_def
      split: list.split)

lemma demo_ends:
  "crypto_laws (pe_crypto demo_env) (\<lambda>c. (=))" "cleans (pe_crypto demo_env)" "zlib_starts demo_env demo_env (\<lambda>_ _. True)"
  "linked demo_env demo_env (\<lambda>c. (=)) (\<lambda>_ _. True) demo_end demo_end" "pending demo_new_keys demo_end demo_end" "change_ok demo_env demo_env demo_end demo_end"
  "contents (ss_output demo_end) = []" "ps_seqnr (ss_p_read demo_end) = 3"
proof -
  show "crypto_laws (pe_crypto demo_env) (\<lambda>c. (=))" "cleans (pe_crypto demo_env)" "zlib_starts demo_env demo_env (\<lambda>_ _. True)"
    using demo_crypto_laws by (simp_all add: cleans_def demo_crypto_def zlib_starts_def demo_env_def)
  show "linked demo_env demo_env (\<lambda>c. (=)) (\<lambda>_ _. True) demo_end demo_end"
    using demo_linked by (simp add: demo_end_def linked_def comp_linked_def has_buffer_def)
  show "pending demo_new_keys demo_end demo_end" by (simp add: pending_def demo_end_def demo_exchange_def)
  show "change_ok demo_env demo_env demo_end demo_end"
    using demo_buf_holds all_alloc_total by (auto simp: change_ok_def buffer_room_def has_buffer_def demo_end_def demo_ssh_def ssh_packet_is_rekeying_def
        packet_room_def PACKET_MAX_SIZE_def sshbuf_consts intro!: exI [of _ "[]"])
  show "contents (ss_output demo_end) = []" "ps_seqnr (ss_p_read demo_end) = 3" using demo_buf_holds by (simp_all add: demo_end_def demo_ssh_def holds_def)
qed

theorem newkeys_switch_witness:
  "\<exists>s' w. send_packet demo_env [SSH2_MSG_NEWKEYS] demo_end = Some (None, s') \<and> contents (ss_output s') = w \<and>
    (\<forall>b rest. holds all_alloc b (w @ rest) \<longrightarrow>
       (\<exists>r'. ssh_packet_read_poll2 demo_env (demo_end\<lparr>ss_input := b\<rparr>) = Some (None, SSH2_MSG_NEWKEYS, Some 3, r') \<and>
          holds all_alloc (ss_input r') rest))"
  using newkeys_switch [OF demo_ends(1) demo_zlib_laws refl demo_ends(2,3) demo_fit demo_ends(4-6)]
  unfolding demo_ends(7,8) append_Nil demo_env_sel by blast

section \<open>Packets that wait for the end of a key exchange\<close>

text \<open>A packet as the callers build and send it.\<close>

definition full_send :: "('e, 'z) packet_env \<Rightarrow> byte list \<Rightarrow> ('e, 'z) ssh \<Rightarrow> ('e, 'z) ssh res" where
  "full_send E p s = then_ok (sshpkt_start E (hd p) s) (\<lambda>s. then_ok (sshpkt_put E (tl p) s) (sshpkt_send E))"

fun send_each :: "('e, 'z) packet_env \<Rightarrow> byte list list \<Rightarrow> ('e, 'z) ssh \<Rightarrow> ('e, 'z) ssh res" where
  "send_each E [] s = Some (None, s)"
| "send_each E (p # ps) s = then_ok (full_send E p s) (send_each E ps)"

lemma full_send_eq:
  assumes "linked Es Er P Z s r" "p \<noteq> []" "length p + 4352 \<le> PACKET_MAX_SIZE"
  shows "\<exists>b. full_send Es p s = ssh_packet_send2 Es (s\<lparr>ss_outgoing_packet := b\<rparr>) \<and> send_packet Es p s = ssh_packet_send2_wrapped Es (s\<lparr>ss_outgoing_packet := b\<rparr>) \<and>
    holds (pe_alloc Es) b ([0, 0, 0, 0, 0] @ p)"
  using build_packet [OF assms] unfolding full_send_def send_packet_def sshpkt_send_def by metis

text \<open>A packet of a layer above the transport, and a queue that holds these packets.\<close>

definition user_packet :: "byte list \<Rightarrow> bool" where
  "user_packet p \<longleftrightarrow> p \<noteq> [] \<and> ordinary (hd p) \<and> \<not> ssh_packet_type_is_kex (hd p) \<and> length p + 4352 \<le> PACKET_MAX_SIZE"

definition queue_holds :: "('e, 'z) packet_env \<Rightarrow> packet list \<Rightarrow> byte list list \<Rightarrow> bool" where
  "queue_holds E = list_all2 (\<lambda>pk p. holds (pe_alloc E) (pk_payload pk) ([0, 0, 0, 0, 0] @ p))"

lemma holds_type: "holds e b ([0, 0, 0, 0, 0] @ p) \<Longrightarrow> p \<noteq> [] \<Longrightarrow> packet_type b = Some (hd p) \<and> \<not> sshbuf_len b < 6"
  using holds_read(1,2) [of e b "[0, 0, 0, 0, 0] @ p"] by (cases p) (auto simp: packet_type_def nth_append)

lemma send_queued:
  assumes ln: "linked Es Er P Z s r" and u: "user_packet p" "ss_rekeying s"
  shows "\<exists>b pk. full_send Es p s = Some (None, s\<lparr>ss_outgoing_packet := b, ss_outgoing := ss_outgoing s @ [pk]\<rparr>) \<and>
    holds (pe_alloc Es) b [] \<and> holds (pe_alloc Es) (pk_payload pk) ([0, 0, 0, 0, 0] @ p)"
proof -
  have p: "p \<noteq> []" "length p + 4352 \<le> PACKET_MAX_SIZE" "\<not> ssh_packet_type_is_kex (hd p)" using u(1) by (auto simp: user_packet_def)
  from full_send_eq [OF ln p(1,2)] obtain b where
    b: "full_send Es p s = ssh_packet_send2 Es (s\<lparr>ss_outgoing_packet := b\<rparr>)" "holds (pe_alloc Es) b ([0, 0, 0, 0, 0] @ p)" by blast
  have at: "alloc_total (pe_alloc Es)" using holds_read(5) [OF b(2)] .
  from holds_new [OF at] obtain b1 where b1: "sshbuf_new (pe_alloc Es) = Some b1" "holds (pe_alloc Es) b1 []" by blast
  have ae: "ae_struct (pe_alloc Es)" using at by (simp add: alloc_total_def)
  have nr: "ssh_packet_need_rekeying Es (s\<lparr>ss_outgoing_packet := b\<rparr>) n = Some False" for n
    using u(2) by (simp add: ssh_packet_need_rekeying_def ssh_packet_is_rekeying_def)
  let ?pk = "\<lparr>pk_type = hd p, pk_payload = b\<rparr>"
  have "full_send Es p s = Some (None, s\<lparr>ss_outgoing_packet := b1, ss_outgoing := ss_outgoing s @ [?pk]\<rparr>)"
    using b(1) holds_type [OF b(2) p(1)] nr p(3) u(2) ae b1(1)
    by (simp add: ssh_packet_send2_def ssh_packet_send2_with_def enqueue_packet_def Let_def)
  with b(2) b1(2) show ?thesis by (intro exI [of _ b1] exI [of _ ?pk]) simp
qed

lemma send_each_queued:
  assumes "linked Es Er P Z s r" "\<forall>p \<in> set ps. user_packet p" "ss_rekeying s"
  shows "\<exists>b q. send_each Es ps s = Some (None, s\<lparr>ss_outgoing_packet := b, ss_outgoing := ss_outgoing s @ q\<rparr>) \<and>
    queue_holds Es q ps \<and> (\<exists>bs. holds (pe_alloc Es) b bs)"
  using assms
proof (induction ps arbitrary: s)
  case Nil
  then show ?case by (intro exI [of _ "ss_outgoing_packet s"] exI [of _ "[]"]) (auto simp: queue_holds_def linked_def)
next
  case (Cons p ps)
  from send_queued [OF Cons.prems(1) _ Cons.prems(3), of p] Cons.prems(2) obtain b pk where
    b: "full_send Es p s = Some (None, s\<lparr>ss_outgoing_packet := b, ss_outgoing := ss_outgoing s @ [pk]\<rparr>)" "holds (pe_alloc Es) b []"
      "holds (pe_alloc Es) (pk_payload pk) ([0, 0, 0, 0, 0] @ p)" by auto
  let ?s = "s\<lparr>ss_outgoing_packet := b, ss_outgoing := ss_outgoing s @ [pk]\<rparr>"
  have "linked Es Er P Z ?s r" by (rule linked_outgoing_queue [OF Cons.prems(1) b(2)])
  from Cons.IH [OF this] Cons.prems(2,3) obtain b2 q where
    q: "send_each Es ps ?s = Some (None, ?s\<lparr>ss_outgoing_packet := b2, ss_outgoing := ss_outgoing ?s @ q\<rparr>)" "queue_holds Es q ps"
      "\<exists>bs. holds (pe_alloc Es) b2 bs" by auto
  have "?s\<lparr>ss_outgoing_packet := b2, ss_outgoing := ss_outgoing ?s @ q\<rparr> = s\<lparr>ss_outgoing_packet := b2, ss_outgoing := ss_outgoing s @ pk # q\<rparr>"
    by (rule ssh.equality) simp_all
  with b q show ?case by (intro exI [of _ b2] exI [of _ "pk # q"]) (simp add: queue_holds_def)
qed

text \<open>The queue leaves in its order.\<close>

lemma send_queue_sent:
  assumes laws: "crypto_laws (pe_crypto Es) P" "zlib_laws Es Er Z" "pe_crypto Er = pe_crypto Es"
    and "linked Es Er P Z s r" "holds (pe_alloc Er) (ss_input r) []" "queue_holds Es q ps" "batch_ok Es ps s"
    and "ss_outgoing s = q" "ssh_packet_is_rekeying s" "\<not> ss_rekeying s" "ssh_packet_is_rekeying r"
  shows "\<exists>s' ws. send_queue Es rekex q s = Some (None, s') \<and> sent Es (calm Er r) s ps ws s' \<and>
    contents (ss_output s') = contents (ss_output s) @ concat ws \<and> length (concat ws) \<le> length ps * packet_room \<and> ss_outgoing s' = []"
  using assms(4-11)
proof (induction q arbitrary: ps s r)
  case Nil
  then show ?case by (intro exI [of _ s] exI [of _ "[]"]) (simp add: sent_none queue_holds_def)
next
  case (Cons pk q)
  from Cons.prems(3) obtain p ps' where ps: "ps = p # ps'" "holds (pe_alloc Es) (pk_payload pk) ([0, 0, 0, 0, 0] @ p)" "queue_holds Es q ps'"
    by (auto simp: queue_holds_def list_all2_Cons1)
  note ok = batch_ok_ConsD [OF Cons.prems(4) [unfolded ps(1)]]
  let ?s = "s\<lparr>ss_outgoing_packet := pk_payload pk, ss_outgoing := q\<rparr>"
  from wire_step [OF laws Cons.prems(1) ok ps(2), of q] obtain s1 w where
    s1: "ssh_packet_send2_wrapped Es ?s = Some (None, s1)" "contents (ss_output s1) = contents (ss_output s) @ w"
      "holds (pe_alloc Es) (ss_output s1) (contents (ss_output s) @ w)" "length w \<le> packet_room" "expects Es Er P Z s1 r p w"
      "ps_packets (ss_p_send s1) = ps_packets (ss_p_send s) + 1" "ss_extra_pad s1 = 0" "tx_same ?s s1" by blast
  have cl: "calm Er r (ss_p_send s1)" using Cons.prems(8) by (simp add: calm_def ssh_packet_need_rekeying_def ssh_packet_is_rekeying_def)
  from sent_advance [OF Cons.prems(1,2) ok s1(5,4) cl] obtain r1 r0 where
    d: "linked Es Er P Z s1 r1" "holds (pe_alloc Er) (ss_input r1) []" "calm Er r1 = calm Er r" "rx_same (r\<lparr>ss_input := ss_input r0\<rparr>) r0"
      "r1 = r0\<lparr>ss_packlen := 0\<rparr>" by blast
  have k: "ssh_packet_is_rekeying r1" "ssh_packet_is_rekeying s1" "ss_outgoing s1 = q" "\<not> ss_rekeying s1"
    using rx_same_kept [OF d(4)] d(5) Cons.prems(6-8) s1(8) by (auto simp: ssh_packet_is_rekeying_def tx_same_def)
  from Cons.IH [OF d(1,2) ps(3) batch_ok_step [OF Cons.prems(4) [unfolded ps(1)] s1(3,4,6,7)] k(3,2,4,1)] obtain s' ws where
    ih: "send_queue Es rekex q s1 = Some (None, s')" "sent Es (calm Er r1) s1 ps' ws s'" "contents (ss_output s') = contents (ss_output s1) @ concat ws"
      "length (concat ws) \<le> length ps' * packet_room" "ss_outgoing s' = []" by blast
  have nr: "ssh_packet_need_rekeying Es s n = Some False" for n using Cons.prems(6) by (simp add: ssh_packet_need_rekeying_def)
  have "wire_send Es p s s1" using ps(2) s1(1) by (auto simp: wire_send_def)
  from sent_one [where K = "calm Er r", OF this s1(2) ok cl] ih(2) d(3) ps(1) have "sent Es (calm Er r) s ps (w # ws) s'" by simp
  with ih s1(1,2,4) nr ps(1) show ?case by (intro exI [of _ s'] exI [of _ "w # ws"]) simp
qed

lemma calm_rekeying: "ssh_packet_is_rekeying r \<Longrightarrow> calm E r = (\<lambda>_. True)"
  by (auto simp: calm_def ssh_packet_need_rekeying_def ssh_packet_is_rekeying_def)

lemma drain_all:
  assumes laws: "crypto_laws (pe_crypto Es) P" "zlib_laws Es Er Z" "pe_crypto Er = pe_crypto Es"
    and "linked Es Er P Z s r" "sent Es (calm Er r) s ps ws s'" "holds (pe_alloc Er) (ss_input r) (concat ws)"
  shows "\<exists>r'. drains Er r ps r' \<and> linked Es Er P Z s' r'"
  using drain_flow [OF laws flow_start [OF laws assms(4,5)] assms(6)] by auto

lemma change_ok_queue: "change_ok Es Er (s\<lparr>ss_outgoing_packet := b, ss_outgoing := q\<rparr>) r = change_ok Es Er s r"
  by (simp add: change_ok_def buffer_room_def has_buffer_def)

lemma full_send_newkeys:
  assumes "linked Es Er P Z s r" "send_packet Es [SSH2_MSG_NEWKEYS] s = Some (None, s')"
  shows "full_send Es [SSH2_MSG_NEWKEYS] s =
    send_queue Es (kex_start_rekex Es) (ss_outgoing s') (s'\<lparr>ss_rekeying := False, ss_rekey_time := pe_now Es\<rparr>)"
proof -
  have sz: "length [SSH2_MSG_NEWKEYS] + 4352 \<le> PACKET_MAX_SIZE" by (simp add: PACKET_MAX_SIZE_def)
  from full_send_eq [OF assms(1) _ sz] obtain b where
    b: "full_send Es [SSH2_MSG_NEWKEYS] s = ssh_packet_send2 Es (s\<lparr>ss_outgoing_packet := b\<rparr>)"
      "send_packet Es [SSH2_MSG_NEWKEYS] s = ssh_packet_send2_wrapped Es (s\<lparr>ss_outgoing_packet := b\<rparr>)"
      "holds (pe_alloc Es) b ([0, 0, 0, 0, 0] @ [SSH2_MSG_NEWKEYS])" by auto
  have "ssh_packet_type_is_kex SSH2_MSG_NEWKEYS" "SSH2_MSG_NEWKEYS \<noteq> SSH2_MSG_KEXINIT" by (simp_all add: ssh_packet_type_is_kex_def msg_defs)
  moreover have "ssh_packet_send2_wrapped Es (s\<lparr>ss_outgoing_packet := b\<rparr>) = Some (None, s')" using b(2) assms(2) by simp
  ultimately show ?thesis using b(1) holds_type [OF b(3)] by (simp add: ssh_packet_send2_def ssh_packet_send2_with_def Let_def)
qed

text \<open>What the sender needs for the packets that wait.\<close>

definition waiting_ok :: "('e, 'z) packet_env \<Rightarrow> byte list list \<Rightarrow> ('e, 'z) ssh \<Rightarrow> bool" where
  "waiting_ok E ps s \<longleftrightarrow> (\<forall>p \<in> set ps. user_packet p) \<and> ss_rekeying s \<and> ss_outgoing s = [] \<and> (\<exists>k. sh_kex s = Some k \<and> \<not> kx_done k) \<and>
     (\<exists>bs. holds (pe_alloc E) (ss_output s) bs \<and> length bs + (1 + length ps) * packet_room \<le> SSHBUF_SIZE_MAX)"

lemma waiting_batch:
  assumes "waiting_ok E ps s" "holds (pe_alloc E) (ss_output s') (contents (ss_output s) @ w)" "length w \<le> packet_room"
    and "ps_packets (ss_p_send s') = 0" "ss_extra_pad s' = 0"
  shows "batch_ok E ps s'"
proof -
  from assms(1) obtain bs where bs: "holds (pe_alloc E) (ss_output s) bs" "length bs + (1 + length ps) * packet_room \<le> SSHBUF_SIZE_MAX"
    by (auto simp: waiting_ok_def)
  have "length ps < 2 ^ 32" using bs(2) by (simp add: packet_room_def PACKET_MAX_SIZE_def sshbuf_consts)
  moreover have "contents (ss_output s) = bs" using bs(1) by (simp add: holds_def)
  ultimately show ?thesis using assms bs(2)
    by (auto simp: batch_ok_def waiting_ok_def user_packet_def intro!: exI [of _ "bs @ w"])
qed

text \<open>C5: Data and key changes are not mixed up.  While a key exchange is going on, the packets of the layers above are
  queued and nothing of them reaches the output.  When the new keys are announced, \<^verbatim>\<open>SSH2_MSG_NEWKEYS\<close> is sent under
  the old keys and then the whole queue under the new ones; a receiver with these bytes delivers
  \<^verbatim>\<open>SSH2_MSG_NEWKEYS\<close> and then exactly the queued packets in the order in which they were sent, and the two ends
  agree again.\<close>

theorem queue_follows_newkeys:
  assumes laws: "crypto_laws (pe_crypto Es) P" "zlib_laws Es Er Z" "pe_crypto Er = pe_crypto Es"
    and new: "cleans (pe_crypto Es)" "zlib_starts Es Er Z" "keys_fit Es Er P nk enc"
    and ends: "linked Es Er P Z s r" "pending nk s r" "change_ok Es Er s r" "waiting_ok Es ps s"
  shows "\<exists>s1 s' w. send_each Es ps s = Some (None, s1) \<and> ss_output s1 = ss_output s \<and>
    full_send Es [SSH2_MSG_NEWKEYS] s1 = Some (None, s') \<and> contents (ss_output s') = contents (ss_output s) @ w \<and> ss_outgoing s' = [] \<and>
    (\<forall>b. holds (pe_alloc Er) b w \<longrightarrow> (\<exists>r'. drains Er (r\<lparr>ss_input := b\<rparr>) ([SSH2_MSG_NEWKEYS] # ps) r' \<and> linked Es Er P Z s' r'))"
proof -
  from ends(4) have wt: "\<forall>p \<in> set ps. user_packet p" "ss_rekeying s" "ss_outgoing s = []" "\<exists>k. sh_kex s = Some k \<and> \<not> kx_done k" by (auto simp: waiting_ok_def)
  from send_each_queued [OF ends(1) wt(1,2)] wt(3) obtain b0 q bs0 where
    se: "send_each Es ps s = Some (None, s\<lparr>ss_outgoing_packet := b0, ss_outgoing := q\<rparr>)" "queue_holds Es q ps" "holds (pe_alloc Es) b0 bs0" by auto
  let ?s1 = "s\<lparr>ss_outgoing_packet := b0, ss_outgoing := q\<rparr>"
  have l1: "linked Es Er P Z ?s1 r" by (rule linked_outgoing_queue [OF ends(1) se(3)])
  have e1: "pending nk ?s1 r" "change_ok Es Er ?s1 r" using ends(2,3) by (simp_all add: pending_def change_ok_queue)
  from newkeys_agree [OF laws new l1 e1] obtain s2 w1 where
    n: "send_packet Es [SSH2_MSG_NEWKEYS] ?s1 = Some (None, s2)" "contents (ss_output s2) = contents (ss_output s) @ w1"
      "holds (pe_alloc Es) (ss_output s2) (contents (ss_output s) @ w1)" "length w1 \<le> packet_room" "ps_packets (ss_p_send s2) = 0"
      "ss_outgoing s2 = q" "ss_extra_pad s2 = 0" "sh_kex s2 = map_option (\<lambda>k. k\<lparr>kx_out := None\<rparr>) (sh_kex s)"
    and rcv: "\<And>b rest. holds (pe_alloc Er) b (w1 @ rest) \<Longrightarrow>
       (\<exists>r'. ssh_packet_read_poll2 Er (r\<lparr>ss_input := b\<rparr>) = Some (None, SSH2_MSG_NEWKEYS, Some (ps_seqnr (ss_p_read r)), r') \<and>
          linked Es Er P Z s2 r' \<and> holds (pe_alloc Er) (ss_input r') rest \<and> ssh_packet_is_rekeying r' \<and> sshpkt_ptr r' = [])" by auto
  let ?s2 = "s2\<lparr>ss_rekeying := False, ss_rekey_time := pe_now Es\<rparr>"
  have k2: "batch_ok Es ps ?s2" "ss_outgoing ?s2 = q" "ssh_packet_is_rekeying ?s2" "\<not> ss_rekeying ?s2"
    using waiting_batch [OF ends(4) n(3,4,5,7)] n(6,8) wt(4) by (auto simp: batch_ok_def ssh_packet_is_rekeying_def)
  have l2: "linked Es Er P Z ?s2 r1" if "linked Es Er P Z s2 r1" for r1 using that by (simp add: linked_def comp_linked_def has_buffer_def)
  obtain b1 where "holds (pe_alloc Er) b1 (w1 @ [])"
    using room_for_packet [OF _ n(4), of Er] ends(3) by (auto simp: change_ok_def)
  from rcv [OF this] obtain r0 where r0: "linked Es Er P Z s2 r0" "holds (pe_alloc Er) (ss_input r0) []" "ssh_packet_is_rekeying r0" by blast
  from send_queue_sent [OF laws l2 [OF r0(1)] r0(2) se(2) k2 r0(3), of "kex_start_rekex Es"] obtain s' ws where
    q: "send_queue Es (kex_start_rekex Es) q ?s2 = Some (None, s')" "sent Es (calm Er r0) ?s2 ps ws s'"
      "contents (ss_output s') = contents (ss_output ?s2) @ concat ws" "ss_outgoing s' = []" by blast
  have fs: "full_send Es [SSH2_MSG_NEWKEYS] ?s1 = Some (None, s')" using full_send_newkeys [OF l1 n(1)] n(6) q(1) by simp
  have "\<exists>r'. drains Er (r\<lparr>ss_input := b\<rparr>) ([SSH2_MSG_NEWKEYS] # ps) r' \<and> linked Es Er P Z s' r'" if b: "holds (pe_alloc Er) b (w1 @ concat ws)" for b
  proof -
    from rcv [OF b] obtain r1 where r1: "ssh_packet_read_poll2 Er (r\<lparr>ss_input := b\<rparr>) = Some (None, SSH2_MSG_NEWKEYS, Some (ps_seqnr (ss_p_read r)), r1)"
      "linked Es Er P Z s2 r1" "holds (pe_alloc Er) (ss_input r1) (concat ws)" "ssh_packet_is_rekeying r1" "sshpkt_ptr r1 = []" by blast
    have "sent Es (calm Er r1) ?s2 ps ws s'" using q(2) calm_rekeying [OF r0(3)] calm_rekeying [OF r1(4)] by simp
    from drain_all [OF laws l2 [OF r1(2)] this r1(3)] obtain r' where "drains Er r1 ps r'" "linked Es Er P Z s' r'" by blast
    with drains.a_packet [OF r1(1) _ this(1)] r1(5) show ?thesis by (auto simp: msg_defs)
  qed
  with se(1) fs q(3,4) n(2) show ?thesis by (intro exI [of _ ?s1] exI [of _ s'] exI [of _ "w1 @ concat ws"]) simp
qed

theorem queue_follows_newkeys_witness:
  "\<exists>s1 s' w. send_each demo_env [[90, 1, 2, 3], 91 # replicate 5000 7, [98]] demo_end = Some (None, s1) \<and> ss_output s1 = ss_output demo_end \<and>
    full_send demo_env [SSH2_MSG_NEWKEYS] s1 = Some (None, s') \<and> contents (ss_output s') = w \<and>
    (\<forall>b. holds all_alloc b w \<longrightarrow>
       (\<exists>r'. drains demo_env (demo_end\<lparr>ss_input := b\<rparr>) [[SSH2_MSG_NEWKEYS], [90, 1, 2, 3], 91 # replicate 5000 7, [98]] r'))"
proof -
  have "waiting_ok demo_env [[90, 1, 2, 3], 91 # replicate 5000 7, [98]] demo_end"
    using demo_buf_holds by (auto simp: waiting_ok_def user_packet_def ordinary_def ssh_packet_type_is_kex_def msg_defs demo_end_def demo_ssh_def demo_exchange_def
        packet_room_def PACKET_MAX_SIZE_def sshbuf_consts intro!: exI [of _ "[]"])
  from queue_follows_newkeys [OF demo_ends(1) demo_zlib_laws refl demo_ends(2,3) demo_fit demo_ends(4-6) this] show ?thesis
    unfolding demo_ends(7) append_Nil demo_env_sel by blast
qed

end
