(* ===== verification/Packet_Frame.thy ===== *)
theory Packet_Frame
  imports Packet
begin

text \<open>
  What the operations of the transport leave alone.  A part of the state that the functions of the sending side do not
  write is described by the locale \<open>send_blind\<close>, one that the end of \<open>ssh_packet_read_poll2\<close> does not write either by
  \<open>finish_blind\<close> and, with the packet, \<open>read_blind\<close>; the lemmas are proved once for each and used for the fields of the receiving side.
\<close>

definition keeps :: "(('e, 'z) ssh \<Rightarrow> 'a) \<Rightarrow> ('e, 'z) ssh \<Rightarrow> ('e, 'z) ssh res \<Rightarrow> bool" where
  "keeps part s m \<longleftrightarrow> (\<forall>r s'. m = Some (r, s') \<longrightarrow> part s' = part s)"

lemma keeps_simps [simp]: "keeps part s None" "keeps part s (Some (r, s')) \<longleftrightarrow> part s' = part s"
  by (simp_all add: keeps_def)

lemma keeps_then:
  assumes "keeps part s m" "\<And>s'. part s' = part s \<Longrightarrow> keeps part s (k s')"
  shows "keeps part s (then_ok m k)"
proof (cases m)
  case (Some x)
  obtain r s1 where x: "x = (r, s1)" by (cases x)
  with Some assms(1) have "part s1 = part s" by simp
  with assms(2) [of s1] Some x show ?thesis by (cases r) simp_all
qed simp

lemma keeps_map: "(\<And>x. part (g x) = part s) \<Longrightarrow> keeps part s (map_option (map_prod id g) m)"
  by (cases m) (auto simp: keeps_def)

lemma keepsD: "keeps part s m \<Longrightarrow> m = Some (r, s') \<Longrightarrow> part s' = part s"
  by (simp add: keeps_def)

locale send_blind =
  fixes part :: "('e, 'z) ssh \<Rightarrow> 'a"
  assumes blind [simp]:
    "part (s\<lparr>ss_outgoing_packet := b\<rparr>) = part s" "part (s\<lparr>ss_output := b\<rparr>) = part s" "part (s\<lparr>ss_compression_buffer := cb\<rparr>) = part s"
    "part (s\<lparr>ss_compression_out := c\<rparr>) = part s" "part (s\<lparr>ss_compression_in := c\<rparr>) = part s" "part (s\<lparr>ss_extra_pad := n\<rparr>) = part s"
    "part (s\<lparr>ss_send_context := cc\<rparr>) = part s" "part (s\<lparr>ss_p_send := p\<rparr>) = part s" "part (s\<lparr>ss_newkeys_out := nk\<rparr>) = part s"
    "part (s\<lparr>ss_newkeys_in := nk\<rparr>) = part s" "part (s\<lparr>ss_after_authentication := a\<rparr>) = part s" "part (s\<lparr>ss_max_blocks_out := m\<rparr>) = part s"
    "part (s\<lparr>sh_kex := k\<rparr>) = part s" "part (s\<lparr>ss_rekeying := a\<rparr>) = part s" "part (s\<lparr>ss_rekey_time := i\<rparr>) = part s"
    "part (s\<lparr>ss_outgoing := ps\<rparr>) = part s"
begin

lemma on_buffers [simp]: "part s' = part s \<Longrightarrow> keeps part s (on_outgoing rb s')" "part s' = part s \<Longrightarrow> keeps part s (on_output rb s')"
  by (simp_all add: on_outgoing_def on_output_def)

lemma compress_keeps [simp]: "part s' = part s \<Longrightarrow> keeps part s (send_compress E f s')"
  by (auto simp: send_compress_def intro!: keeps_then split: option.split)

lemma pad_keeps [simp]: "part s' = part s \<Longrightarrow> keeps part s (send_pad E f s')"
  by (simp add: send_pad_def Let_def split: option.split sum.split prod.split)

lemma encrypt_keeps [simp]: "part s' = part s \<Longrightarrow> keeps part s (send_encrypt E f s')"
  by (simp add: send_encrypt_def send_mac_def Let_def split: option.split sum.split prod.split)

lemma start_compression_keeps [simp]: "part s' = part s \<Longrightarrow> keeps part s (start_compression E mode s')"
  by (auto simp: start_compression_def ssh_packet_init_compression_def start_compression_out_def start_compression_in_def zinit_def
      intro!: keeps_then split: option.split)

lemma put_newkeys_blind [simp]: "part (put_newkeys mode nk s) = part s"
  by (simp add: put_newkeys_def split: kex_mode.split)

lemma enable_keeps [simp]: "part s' = part s \<Longrightarrow> keeps part s (enable_compression E mode w nk s')"
  by (auto simp: enable_compression_def intro!: keeps_then split: option.split prod.split)

lemma delayed_keeps [simp]: "part s' = part s \<Longrightarrow> keeps part s (ssh_packet_enable_delayed_compress E s')"
  by (auto simp: ssh_packet_enable_delayed_compress_def enable_delayed_def intro!: keeps_then split: option.split)

lemma out_blind [simp]:
  "part (put_context MODE_OUT cc s) = part s" "part (set_max_blocks MODE_OUT m s) = part s" "part (reset_counts MODE_OUT s) = part s"
  by (simp_all add: put_context_def set_max_blocks_def reset_counts_def)

lemma install_keeps [simp]: "part s' = part s \<Longrightarrow> keeps part s (install_newkeys E MODE_OUT nk s')"
  by (auto simp: install_newkeys_def Let_def intro!: keeps_then keeps_map split: option.split)

lemma newkeys_out_keeps [simp]: "part s' = part s \<Longrightarrow> keeps part s (ssh_set_newkeys E MODE_OUT s')"
  by (auto simp: ssh_set_newkeys_def Let_def intro!: keeps_then split: option.split prod.split)

lemma done_keeps [simp]: "part s' = part s \<Longrightarrow> keeps part s (send_done E f type s')"
  by (simp add: send_done_def Let_def)

lemma wrapped_keeps [simp]: "part s' = part s \<Longrightarrow> keeps part s (ssh_packet_send2_wrapped E s')"
  by (auto simp: ssh_packet_send2_wrapped_def intro!: keeps_then split: option.split)

lemma queue_keeps:
  assumes "\<And>s'. part s' = part s \<Longrightarrow> keeps part s (rekex s')" "part s' = part s"
  shows "keeps part s (send_queue E rekex ps s')"
  using assms(2) by (induction ps arbitrary: s') (auto simp: assms(1) intro!: keeps_then split: option.split bool.split)

lemma enqueue_keeps [simp]: "part s' = part s \<Longrightarrow> keeps part s (enqueue_packet E type s')"
  by (simp add: enqueue_packet_def Let_def split: option.split)

lemma send2_with_keeps:
  assumes "\<And>s'. part s' = part s \<Longrightarrow> keeps part s (rekex s')" "part s' = part s"
  shows "keeps part s (ssh_packet_send2_with E rekex s')"
  using assms by (auto simp: ssh_packet_send2_with_def Let_def intro!: keeps_then queue_keeps split: option.split)

lemma put_keeps [simp]:
  assumes "part s' = part s"
  shows "keeps part s (sshpkt_start E type s')" "keeps part s (sshpkt_put E v s')" "keeps part s (sshpkt_putb E b s')"
    "keeps part s (sshpkt_put_u8 E u8 s')" "keeps part s (sshpkt_put_u32 E u32 s')" "keeps part s (sshpkt_put_string E v s')"
    "keeps part s (sshpkt_put_cstring E vo s')"
  using assms by (simp_all add: sshpkt_start_def sshpkt_put_def sshpkt_putb_def sshpkt_put_u8_def sshpkt_put_u32_def sshpkt_put_string_def
      sshpkt_put_cstring_def)

lemma kexinit_keeps [simp]: "part s' = part s \<Longrightarrow> keeps part s (kex_send_kexinit E s')"
  by (auto simp: kex_send_kexinit_def Let_def with_kex_def no_rekex_def intro!: keeps_then send2_with_keeps split: option.split prod.split)

lemma rekex_keeps [simp]: "part s' = part s \<Longrightarrow> keeps part s (kex_start_rekex E s')"
  by (simp add: kex_start_rekex_def split: option.split)

lemma send2_keeps [simp]: "part s' = part s \<Longrightarrow> keeps part s (ssh_packet_send2 E s')"
  unfolding ssh_packet_send2_def by (rule send2_with_keeps) simp_all

lemma disconnect_keeps [simp]: "part s' = part s \<Longrightarrow> keeps part s (sshpkt_disconnect E txt s')"
  by (auto simp: sshpkt_disconnect_def sshpkt_send_def intro!: keeps_then)

lemma write_poll_keeps [simp]: "part s' = part s \<Longrightarrow> keeps part s (ssh_packet_write_poll w s')"
  by (simp add: ssh_packet_write_poll_def split: write_result.split)

lemma write_loop_keeps [simp]: "part s' = part s \<Longrightarrow> keeps part s (write_wait_loop ws s')"
  by (induction ws arbitrary: s') (subst write_wait_loop.simps, auto intro!: keeps_then)+

lemma write_wait_keeps [simp]: "part s' = part s \<Longrightarrow> keeps part s (ssh_packet_write_wait E s')"
  by (auto simp: ssh_packet_write_wait_def intro!: keeps_then split: list.split prod.split)

lemma disconnect_with_keeps [simp]: "part s' = part s \<Longrightarrow> keeps part s (disconnect_with E txt r s')"
  by (auto simp: disconnect_with_def fail_with_def intro!: keeps_then)

end

text \<open>The last part of a read: counting, unpacking, the change of keys.\<close>

locale finish_blind = send_blind +
  assumes blind_in [simp]:
    "part (s\<lparr>ss_p_read := p\<rparr>) = part s" "part (s\<lparr>ss_receive_context := cc\<rparr>) = part s"
    "part (s\<lparr>ss_packlen := n\<rparr>) = part s" "part (s\<lparr>ss_max_blocks_in := m\<rparr>) = part s"
begin

lemma any_mode_blind [simp]:
  "part (put_context mode cc s) = part s" "part (set_max_blocks mode m s) = part s" "part (reset_counts mode s) = part s"
  by (simp_all add: put_context_def set_max_blocks_def reset_counts_def split: kex_mode.split)

lemma install_any_keeps [simp]: "part s' = part s \<Longrightarrow> keeps part s (install_newkeys E mode nk s')"
  by (auto simp: install_newkeys_def Let_def intro!: keeps_then keeps_map split: option.split)

lemma newkeys_keeps [simp]: "part s' = part s \<Longrightarrow> keeps part s (ssh_set_newkeys E mode s')"
  by (auto simp: ssh_set_newkeys_def Let_def intro!: keeps_then split: option.split prod.split)

lemma finish_keeps [simp]:
  assumes "part s' = part s"
  shows "keeps part s (read_finish E type s')"
proof -
  let ?m = "if type = SSH2_MSG_NEWKEYS then ssh_set_newkeys E MODE_IN s'
              else if type = SSH2_MSG_USERAUTH_SUCCESS \<and> \<not> ss_server_side s' then ssh_packet_enable_delayed_compress E s'
              else Some (None, s')"
  have "keeps part s ?m" using assms by simp
  then have "\<And>r s1. ?m = Some (r, s1) \<Longrightarrow> part s1 = part s" by (rule keepsD)
  then show ?thesis using assms unfolding read_finish_def
    by (simp add: Let_def split: option.split prod.split bool.split)
qed

end

locale read_blind = finish_blind +
  assumes blind_packet [simp]: "part (s\<lparr>ss_incoming_packet := b\<rparr>) = part s"
begin

lemma on_incoming_keeps [simp]: "part s' = part s \<Longrightarrow> keeps part s (on_incoming rb s')"
  by (simp add: on_incoming_def)

lemma count_keeps [simp]: "part s' = part s \<Longrightarrow> keeps part s (read_count f s')"
  by (simp add: read_count_def Let_def)

lemma unpad_keeps [simp]: "part s' = part s \<Longrightarrow> keeps part s (read_unpad E s')"
  by (auto simp: read_unpad_def Let_def intro!: keeps_then)

lemma uncompress_keeps [simp]: "part s' = part s \<Longrightarrow> keeps part s (read_uncompress E f s')"
  by (auto simp: read_uncompress_def intro!: keeps_then split: option.split)

lemma payload_keeps:
  assumes "read_payload E f s = Some (r, type, q, s')"
  shows "part s' = part s"
proof -
  let ?m = "then_ok (read_count f s) (\<lambda>s. then_ok (read_unpad E s) (read_uncompress E f))"
  have k: "keeps part s ?m" by (auto intro!: keeps_then)
  show ?thesis
  proof (cases ?m)
    case (Some x)
    obtain r1 s1 where x: "x = (r1, s1)" by (cases x)
    with Some k have p: "part s1 = part s" by simp
    have fin: "part s2 = part s" if "read_finish E t (s1\<lparr>ss_incoming_packet := b\<rparr>) = Some (r2, s2)" for t b r2 s2
      using that by (rule keepsD [OF finish_keeps, rotated]) (simp add: p)
    with assms Some x p show ?thesis
      by (auto simp: read_payload_def Let_def read_result_def split: option.splits sum.splits prod.splits)
  qed (use assms in \<open>simp add: read_payload_def\<close>)
qed

end

interpretation input_part: read_blind ss_input
  by unfold_locales simp_all

interpretation discard_part: read_blind ss_packet_discard
  by unfold_locales simp_all

interpretation read_count_part: send_blind ss_p_read
  by unfold_locales simp_all

interpretation receive_context_part: send_blind ss_receive_context
  by unfold_locales simp_all

interpretation incoming_part: finish_blind ss_incoming_packet
  by unfold_locales simp_all

interpretation packlen_part: send_blind ss_packlen
  by unfold_locales simp_all

text \<open>C9: The two directions of a connection do not disturb each other.  Whatever a call of \<open>ssh_packet_send2\<close> does (send a
  packet, queue it, start a key exchange, change keys and send the queue) and however it ends, the receiving side is
  as before: the bytes not yet read, the packet that is being read and its length, the decryption context, the
  counters and the discard state.\<close>

theorem send_keeps_receiving:
  "case ssh_packet_send2 E s of
     None \<Rightarrow> True
   | Some (r, s') \<Rightarrow> ss_input s' = ss_input s \<and> ss_incoming_packet s' = ss_incoming_packet s \<and> ss_packlen s' = ss_packlen s \<and>
       ss_receive_context s' = ss_receive_context s \<and> ss_p_read s' = ss_p_read s \<and> ss_packet_discard s' = ss_packet_discard s"
proof (cases "ssh_packet_send2 E s")
  case (Some x)
  obtain r s' where x: "x = (r, s')" by (cases x)
  note d = keepsD [OF _ Some [unfolded x]]
  show ?thesis unfolding Some x
    by (simp add: d [OF input_part.send2_keeps] d [OF incoming_part.send2_keeps] d [OF packlen_part.send2_keeps]
        d [OF receive_context_part.send2_keeps] d [OF read_count_part.send2_keeps] d [OF discard_part.send2_keeps])
qed simp

end
