(* ===== verification/Receive.thy ===== *)
theory Receive
  imports Rekey Packet_Frame
begin

unbundle bit_operations_syntax

text \<open>
  What the receiving side of the transport guarantees against a peer that sends anything: a packet is delivered only
  with a right MAC, after a wrong one the connection ends without another packet, and the loop that handles the
  messages of the transport itself terminates.
\<close>

section \<open>A packet that is accepted\<close>

text \<open>The primitives keep the length of the data.\<close>

definition crypto_lengths :: "'e crypto \<Rightarrow> bool" where
  "crypto_lengths C \<longleftrightarrow> (\<forall>x e y e'. cr_cipher C x e = Some (y, e') \<longrightarrow> length y = length x) \<and> (\<forall>k iv n x. length (cr_chacha C k iv n x) = length x)"

lemma decrypt_length:
  assumes "crypto_lengths C" "\<not> cc_encrypt cc" "aadlen + len \<le> length src" "cipher_crypt C cc seqnr src len aadlen authlen = Inr (out, cc')"
  shows "length out = aadlen + len"
proof (cases "is_chachapoly (cc_cipher cc)")
  case True
  with assms show ?thesis
    by (auto simp: cipher_crypt_def chachapoly_crypt_def crypto_lengths_def Let_def split: sum.splits if_splits)
next
  case False
  with assms obtain ev out1 ev' where "cr_cipher C (take len (drop aadlen src)) ev = Some (out1, ev')" "out = take aadlen src @ out1"
    by (auto simp: cipher_crypt_def Let_def split: option.splits if_splits prod.splits)
  moreover from this(1) assms(1) have "length out1 = length (take len (drop aadlen src))" unfolding crypto_lengths_def by blast
  ultimately show ?thesis using assms(3) by simp
qed

lemma holds_reserve_poke:
  assumes "holds e b bs" "sshbuf_reserve e b (length v) = (Inr cp, b')"
  shows "holds e (buf_poke cp v b') (bs @ v)"
proof -
  note w = reserve_write [OF holds_read(3) [OF assms(1)] assms(2)]
  then have "sshbuf_inv (buf_poke cp v b')" "contents (buf_poke cp v b') = bs @ v" "same_frame b (buf_poke cp v b')"
    using assms(1) by (simp_all add: buf_poke_def holds_def)
  with holds_frame [OF assms(1)] show ?thesis by blast
qed

definition mac_matches :: "'e crypto \<Rightarrow> sshmac \<Rightarrow> 32 word \<Rightarrow> byte list \<Rightarrow> byte list \<Rightarrow> bool" where
  "mac_matches C m seqnr data tag \<longleftrightarrow> (\<exists>t. mac_compute C m seqnr data = Inr t \<and> take (m_mac_len m) t = tag)"

lemma decrypt_accepts:
  assumes d: "read_decrypt E f need r = Some (None, r1)" and C: "crypto_lengths (pe_crypto E)" "\<not> cc_encrypt (ss_receive_context r)"
    and h: "holds (pe_alloc E) (ss_incoming_packet r) have" "holds (pe_alloc E) (ss_input r) i" "fr_aadlen f + need + fr_authlen f \<le> length i"
  shows "\<exists>out cc b b2. cipher_crypt (pe_crypto E) (ss_receive_context r) (ps_seqnr (ss_p_read r)) i need (fr_aadlen f) (fr_authlen f) = Inr (out, cc) \<and>
    length out = fr_aadlen f + need \<and> r1 = r\<lparr>ss_receive_context := cc, ss_incoming_packet := b, ss_input := b2\<rparr> \<and>
    holds (pe_alloc E) b (have @ out) \<and> holds (pe_alloc E) b2 (drop (fr_aadlen f + need + fr_authlen f) i)"
proof -
  from d holds_read(2) [OF h(2)] obtain cp b0 out cc where
    o: "sshbuf_reserve (pe_alloc E) (ss_incoming_packet r) (fr_aadlen f + need) = (Inr cp, b0)"
      "cipher_crypt (pe_crypto E) (ss_receive_context r) (ps_seqnr (ss_p_read r)) i need (fr_aadlen f) (fr_authlen f) = Inr (out, cc)"
    by (auto simp: read_decrypt_def split: prod.splits sum.splits)
  have l: "length out = fr_aadlen f + need" using decrypt_length [OF C _ o(2)] h(3) by simp
  from holds_consume [OF h(2,3)] obtain b2 where
    b2: "sshbuf_consume (ss_input r) (fr_aadlen f + need + fr_authlen f) = (None, b2)" "holds (pe_alloc E) b2 (drop (fr_aadlen f + need + fr_authlen f) i)" by blast
  have "r1 = r\<lparr>ss_receive_context := cc, ss_incoming_packet := buf_poke cp out b0, ss_input := b2\<rparr>"
    using d o b2(1) holds_read(2) [OF h(2)] by (simp add: read_decrypt_def Let_def on_input_def)
  with o(2) l b2(2) holds_reserve_poke [OF h(1), of out cp b0] o(1) show ?thesis by metis
qed

lemma verify_accepts:
  assumes v: "read_verify E f need macbuf r = Some (Inr r1)" "fr_macon f = Some m" and h: "holds (pe_alloc E) (ss_input r) i"
  shows "\<exists>t b2. (if m_etm m then Inr macbuf else mac_compute (pe_crypto E) m (ps_seqnr (ss_p_read r)) (ptr_bytes (ss_incoming_packet r))) = Inr t \<and>
    take (m_mac_len m) t = take (m_mac_len m) i \<and> m_mac_len m \<le> length i \<and> r1 = r\<lparr>ss_input := b2\<rparr> \<and> holds (pe_alloc E) b2 (drop (m_mac_len m) i)"
proof -
  from v holds_read(2) [OF h] obtain t where
    t: "(if m_etm m then Inr macbuf else mac_compute (pe_crypto E) m (ps_seqnr (ss_p_read r)) (ptr_bytes (ss_incoming_packet r))) = Inr t"
      "take (m_mac_len m) t = take (m_mac_len m) i" "go_on (on_input (sshbuf_consume (ss_input r) (m_mac_len m)) r) = Some (Inr r1)"
    by (auto simp: read_verify_def stop_here_def split: sum.splits if_splits)
  from t(3) have c: "fst (sshbuf_consume (ss_input r) (m_mac_len m)) = None" "r1 = r\<lparr>ss_input := snd (sshbuf_consume (ss_input r) (m_mac_len m))\<rparr>"
    by (auto simp: on_input_def go_on_def split: option.splits)
  then obtain b2 where b2: "sshbuf_consume (ss_input r) (m_mac_len m) = (None, b2)" by (metis prod.collapse)
  have ci: "contents (ss_input r) = i" using h by (simp add: holds_def)
  note s = consume_success [OF holds_read(3) [OF h] b2, unfolded ci]
  with holds_frame [OF h s(1,3,2)] t(1,2) c(2) b2 show ?thesis by auto
qed

lemma packet_accepts:
  assumes p: "read_packet E f r = Some (Inr r1)" "fr_macon f = Some m" "fr_authlen f = 0"
    and C: "crypto_lengths (pe_crypto E)" "\<not> cc_encrypt (ss_receive_context r)"
    and h: "holds (pe_alloc E) (ss_incoming_packet r) have" "holds (pe_alloc E) (ss_input r) i"
  shows "\<exists>need out cc b b2. cipher_crypt (pe_crypto E) (ss_receive_context r) (ps_seqnr (ss_p_read r)) i need (fr_aadlen f) 0 = Inr (out, cc) \<and>
    length out = fr_aadlen f + need \<and> fr_aadlen f + need + m_mac_len m \<le> length i \<and>
    mac_matches (pe_crypto E) m (ps_seqnr (ss_p_read r)) (if m_etm m then take (fr_aadlen f + need) i else have @ out)
      (take (m_mac_len m) (drop (fr_aadlen f + need) i)) \<and>
    r1 = r\<lparr>ss_receive_context := cc, ss_incoming_packet := b, ss_input := b2\<rparr> \<and> holds (pe_alloc E) b (have @ out) \<and>
    holds (pe_alloc E) b2 (drop (fr_aadlen f + need + m_mac_len m) i)"
proof -
  define need where "need = unat (read_need f (ss_packlen r))"
  from p holds_read(1,2) [OF h(2)] obtain macbuf r2 where
    o: "fr_aadlen f + need + m_mac_len m \<le> length i" "etm_mac E f (ps_seqnr (ss_p_read r)) (take (fr_aadlen f + need) i) = Inr macbuf"
      "read_decrypt E f need r = Some (None, r2)" "read_verify E f need macbuf r2 = Some (Inr r1)"
    by (auto simp: read_packet_def Let_def need_def [symmetric] stop_here_def go_on_def bind_step_def not_less split: if_splits sum.splits option.splits)
  from decrypt_accepts [OF o(3) C h] o(1) p(3) obtain out cc b b2 where
    d: "cipher_crypt (pe_crypto E) (ss_receive_context r) (ps_seqnr (ss_p_read r)) i need (fr_aadlen f) 0 = Inr (out, cc)" "length out = fr_aadlen f + need"
      "r2 = r\<lparr>ss_receive_context := cc, ss_incoming_packet := b, ss_input := b2\<rparr>" "holds (pe_alloc E) b (have @ out)"
      "holds (pe_alloc E) b2 (drop (fr_aadlen f + need) i)" by auto
  have h2: "holds (pe_alloc E) (ss_input r2) (drop (fr_aadlen f + need) i)" using d(3,5) by simp
  have pb: "ptr_bytes (ss_incoming_packet r2) = have @ out" "ps_seqnr (ss_p_read r2) = ps_seqnr (ss_p_read r)" using holds_read(2) [OF d(4)] d(3) by simp_all
  from verify_accepts [OF o(4) p(2) h2, unfolded pb] obtain t b3 where
    v: "(if m_etm m then Inr macbuf else mac_compute (pe_crypto E) m (ps_seqnr (ss_p_read r)) (have @ out)) = Inr t"
      "take (m_mac_len m) t = take (m_mac_len m) (drop (fr_aadlen f + need) i)" "r1 = r2\<lparr>ss_input := b3\<rparr>"
      "holds (pe_alloc E) b3 (drop (m_mac_len m) (drop (fr_aadlen f + need) i))" by blast
  have "mac_matches (pe_crypto E) m (ps_seqnr (ss_p_read r)) (if m_etm m then take (fr_aadlen f + need) i else have @ out)
      (take (m_mac_len m) (drop (fr_aadlen f + need) i))"
    using v(1,2) o(2) p(2) by (auto simp: mac_matches_def etm_mac_def split: if_splits)
  with d v(3,4) o(1) show ?thesis
    by (intro exI [of _ need] exI [of _ out] exI [of _ cc] exI [of _ b] exI [of _ b3]) (simp add: add.commute add.left_commute)
qed

text \<open>The length: it is known, or read from the front of the packet, or the first block is decrypted for it.\<close>

lemma length_accepts:
  assumes l: "read_length E f r = Some (Inr r1)" and C: "crypto_lengths (pe_crypto E)" "\<not> cc_encrypt (ss_receive_context r)"
    and h: "holds (pe_alloc E) (ss_incoming_packet r) have" "holds (pe_alloc E) (ss_input r) i"
  shows "\<exists>k n cc b b2 have1. r1 = rx_upd n cc b b2 r \<and> k \<le> length i \<and> holds (pe_alloc E) b have1 \<and> holds (pe_alloc E) b2 (drop k i) \<and>
    \<not> cc_encrypt cc \<and> (ss_packlen r = 0 \<longrightarrow> fr_aadlen f = 0 \<longrightarrow> k = fr_block_size f) \<and>
    (fr_aadlen f \<noteq> 0 \<longrightarrow> k = 0 \<and> cc = ss_receive_context r \<and> have1 = (if ss_packlen r = 0 then [] else have)) \<and>
    (ss_packlen r \<noteq> 0 \<longrightarrow> have1 = have \<and> k = 0)"
proof -
  consider (known) "ss_packlen r \<noteq> 0" | (aad) "ss_packlen r = 0" "fr_aadlen f \<noteq> 0" | (block) "ss_packlen r = 0" "fr_aadlen f = 0" by blast
  then show ?thesis
  proof cases
    case known
    with l have "r1 = rx_upd (ss_packlen r) (ss_receive_context r) (ss_incoming_packet r) (ss_input r) r" by (auto simp: read_length_def rx_upd_def)
    with known h C(2) show ?thesis
      by (intro exI [of _ 0] exI [of _ "ss_packlen r"] exI [of _ "ss_receive_context r"] exI [of _ "ss_incoming_packet r"] exI [of _ "ss_input r"] exI [of _ "have"]) simp
  next
    case aad
    with l obtain n where "r1 = r\<lparr>ss_packlen := n, ss_incoming_packet := sshbuf_reset (pe_alloc E) (ss_incoming_packet r)\<rparr>"
      by (auto simp: read_length_def read_length_aad_def Let_def stop_here_def split: sum.splits if_splits)
    then have "r1 = rx_upd n (ss_receive_context r) (sshbuf_reset (pe_alloc E) (ss_incoming_packet r)) (ss_input r) r"
      by (auto simp: rx_upd_def intro!: ssh.equality)
    with aad h holds_reset [OF h(1)] C(2) show ?thesis
      by (intro exI [of _ 0] exI [of _ n] exI [of _ "ss_receive_context r"] exI [of _ "sshbuf_reset (pe_alloc E) (ss_incoming_packet r)"]
          exI [of _ "ss_input r"] exI [of _ "[]"]) simp
  next
    case block
    let ?n = "fr_block_size f"
    from block l holds_read(1,2) [OF h(2)] obtain cp b0 out cc where
      o: "?n \<le> length i" "sshbuf_reserve (pe_alloc E) (sshbuf_reset (pe_alloc E) (ss_incoming_packet r)) ?n = (Inr cp, b0)"
        "cipher_crypt (pe_crypto E) (ss_receive_context r) (ps_seqnr (ss_p_send r)) i ?n 0 0 = Inr (out, cc)"
      by (auto simp: read_length_def read_first_block_def split: prod.splits sum.splits if_splits)
    have lo: "length out = ?n" using decrypt_length [OF C _ o(3)] o(1) by simp
    have ce: "\<not> cc_encrypt cc" using o(3) C(2) by (auto simp: cipher_crypt_def Let_def split: sum.splits option.splits if_splits prod.splits)
    from holds_consume [OF h(2) o(1)] obtain b2 where b2: "sshbuf_consume (ss_input r) ?n = (None, b2)" "holds (pe_alloc E) b2 (drop ?n i)" by blast
    let ?b = "buf_poke cp out b0"
    have hb: "holds (pe_alloc E) ?b ([] @ out)" using holds_reserve_poke [OF holds_reset [OF h(1)], of out cp b0] o(2) lo by simp
    have "r1 = rx_upd (peek_u32 (ptr_bytes ?b)) cc ?b b2 r"
      using block l o b2(1) holds_read(1,2) [OF h(2)]
      by (auto simp: read_length_def read_first_block_def Let_def stop_here_def on_input_def go_on_def rx_upd_def split: if_splits option.splits intro!: ssh.equality)
    with block o(1) hb b2(2) ce show ?thesis
      by (intro exI [of _ ?n] exI [of _ "peek_u32 (ptr_bytes ?b)"] exI [of _ cc] exI [of _ ?b] exI [of _ b2] exI [of _ out]) simp
  qed
qed

text \<open>What is left of a packet without length, padding and the byte that counts the padding.\<close>

definition unpadded :: "byte list \<Rightarrow> byte list" where
  "unpadded pkt = take (length pkt - 5 - unat (pkt ! 4)) (drop 5 pkt)"

lemma payload_accepts:
  assumes p: "read_payload E f r = Some (None, type, q, r')" and h: "holds (pe_alloc E) (ss_incoming_packet r) pkt"
  shows "q = Some (ps_seqnr (ss_p_read r))" "\<not> fr_comp f \<Longrightarrow> type # sshpkt_ptr r' = unpadded pkt"
proof -
  show "q = Some (ps_seqnr (ss_p_read r))"
    using p by (auto simp: read_payload_def Let_def read_result_def split: option.splits sum.splits prod.splits)
  assume nc: "\<not> fr_comp f"
  from p nc obtain r1 r2 b where
    c: "read_count f r = Some (None, r1)" "read_unpad E r1 = Some (None, r2)" "sshbuf_get_u8 (ss_incoming_packet r2) = (Inr type, b)"
      "read_finish E type (r2\<lparr>ss_incoming_packet := b\<rparr>) = Some (None, r')"
    by (auto simp: read_payload_def Let_def read_result_def then_ok_def read_uncompress_def split: option.splits sum.splits prod.splits)
  have h1: "holds (pe_alloc E) (ss_incoming_packet r1) pkt" using c(1) h by (auto simp: read_count_def Let_def split: if_splits)
  have pb: "ptr_bytes (ss_incoming_packet r1) = pkt" by (rule holds_read(2) [OF h1])
  have no: "disconnect_with E t x s0 \<noteq> Some (None, s1)" for t x s0 s1
    by (simp add: disconnect_with_def then_ok_def fail_with_def split: option.split)
  from c(2) no have u: "4 < length pkt" "then_ok (on_incoming (sshbuf_consume (ss_incoming_packet r1) 5) r1) (\<lambda>s.
      on_incoming (sshbuf_consume_end (ss_incoming_packet s) (unat (pkt ! 4))) s) = Some (None, r2)"
    by (auto simp: read_unpad_def pb Let_def split: if_splits)
  from holds_consume [OF h1, of 5] u(1) obtain b1 where
    b1: "sshbuf_consume (ss_incoming_packet r1) 5 = (None, b1)" "holds (pe_alloc E) b1 (drop 5 pkt)" by auto
  then obtain b2 where b2: "sshbuf_consume_end b1 (unat (pkt ! 4)) = (None, b2)" "ss_incoming_packet r2 = b2"
    using u(2) by (auto simp: on_incoming_def) (metis prod.collapse)
  have cb: "contents b1 = drop 5 pkt" using b1(2) by (simp add: holds_def)
  note ce = consume_end_success [OF holds_read(3) [OF b1(2)] b2(1), unfolded cb]
  have h2: "holds (pe_alloc E) b2 (unpadded pkt)" using holds_frame [OF b1(2) ce(1,3,2)] by (simp add: unpadded_def)
  have "unpadded pkt \<noteq> []"
  proof
    assume "unpadded pkt = []"
    with h2 holds_read(3) [OF h2] get_word_eq(4) [of b2] c(3) b2(2) show False by (auto simp: holds_def)
  qed
  then obtain t us where tu: "unpadded pkt = t # us" by (cases "unpadded pkt") auto
  from holds_get_u8 [OF h2 [unfolded tu]] c(3) b2(2) have g: "t = type" "holds (pe_alloc E) b us" by auto
  have "ss_incoming_packet r' = b" using keepsD [OF incoming_part.finish_keeps c(4), of "r2\<lparr>ss_incoming_packet := b\<rparr>"] by simp
  with g tu holds_read(2) [OF g(2)] show "type # sshpkt_ptr r' = unpadded pkt" by (simp add: sshpkt_ptr_def)
qed

lemma framing_mac:
  assumes "framing_of nk = Some f" "fr_macon f = Some m"
  shows "fr_authlen f = 0" "fr_aadlen f = (if m_etm m then 4 else 0)"
  using assms by (auto simp: framing_of_def enabled_mac_def Let_def split: option.splits if_splits)

lemma poll_accepts:
  assumes "ssh_packet_read_poll2 E r = Some (rc, type, Some q, r')"
  obtains f r1 r2 where "framing_of (ss_newkeys_in r) = Some f" "read_length E f r = Some (Inr r1)" "read_packet E f r1 = Some (Inr r2)"
    "read_payload E f r2 = Some (rc, type, Some q, r')" "ss_packet_discard r = 0"
  using assms by (auto simp: ssh_packet_read_poll2_def bind_step_def split: if_splits option.splits sum.splits)

text \<open>C2: With a MAC, only authentic packets are delivered.  When \<open>ssh_packet_read_poll2\<close> delivers a packet, the bytes of the
  connection were \<open>ct\<close>, then a tag of the length of the MAC, then the rest, which stays in the buffer; and the MAC of
  the expected sequence number and the packet equals this tag.  The MAC is that of the encrypted bytes with
  encrypt-then-MAC, and then the packet is their decryption; otherwise it is that of the decrypted packet.  Without
  compression the type and the payload that the caller sees are those of this packet without padding.\<close>

theorem delivered_authentic:
  assumes poll: "ssh_packet_read_poll2 E r = Some (None, type, Some q, r')"
    and mac: "framing_of (ss_newkeys_in r) = Some f" "fr_macon f = Some m"
    and C: "crypto_lengths (pe_crypto E)" "\<not> cc_encrypt (ss_receive_context r)"
    and h: "holds (pe_alloc E) (ss_incoming_packet r) have" "holds (pe_alloc E) (ss_input r) i" "m_etm m \<and> ss_packlen r \<noteq> 0 \<longrightarrow> have = []"
  shows "\<exists>ct tag rest pkt. i = ct @ tag @ rest \<and> length tag = m_mac_len m \<and> contents (ss_input r') = rest \<and> q = ps_seqnr (ss_p_read r) \<and>
    mac_matches (pe_crypto E) m q (if m_etm m then ct else pkt) tag \<and>
    (m_etm m \<longrightarrow> (\<exists>cc. cipher_crypt (pe_crypto E) (ss_receive_context r) q i (length ct - 4) 4 0 = Inr (pkt, cc))) \<and>
    (\<not> fr_comp f \<longrightarrow> type # sshpkt_ptr r' = unpadded pkt)"
proof -
  from poll obtain r1 r2 where
    s: "read_length E f r = Some (Inr r1)" "read_packet E f r1 = Some (Inr r2)" "read_payload E f r2 = Some (None, type, Some q, r')"
    by (rule poll_accepts) (use mac(1) in simp)
  note fm = framing_mac [OF mac]
  from length_accepts [OF s(1) C h(1,2)] obtain k n cc b b2 have1 where
    l: "r1 = rx_upd n cc b b2 r" "k \<le> length i" "holds (pe_alloc E) b have1" "holds (pe_alloc E) b2 (drop k i)" "\<not> cc_encrypt cc"
      "fr_aadlen f \<noteq> 0 \<longrightarrow> k = 0 \<and> cc = ss_receive_context r \<and> have1 = (if ss_packlen r = 0 then [] else have)" by blast
  have sel: "ss_receive_context r1 = cc" "ss_p_read r1 = ss_p_read r" "ss_incoming_packet r1 = b" "ss_input r1 = b2" using l(1) by (simp_all add: rx_upd_def)
  from packet_accepts [OF s(2) mac(2) fm(1) C(1), unfolded sel, OF l(5,3,4)] obtain need out cc2 b3 b4 where
    p: "cipher_crypt (pe_crypto E) cc (ps_seqnr (ss_p_read r)) (drop k i) need (fr_aadlen f) 0 = Inr (out, cc2)" "length out = fr_aadlen f + need"
      "fr_aadlen f + need + m_mac_len m \<le> length (drop k i)"
      "mac_matches (pe_crypto E) m (ps_seqnr (ss_p_read r)) (if m_etm m then take (fr_aadlen f + need) (drop k i) else have1 @ out)
        (take (m_mac_len m) (drop (fr_aadlen f + need) (drop k i)))"
      "r2 = r1\<lparr>ss_receive_context := cc2, ss_incoming_packet := b3, ss_input := b4\<rparr>" "holds (pe_alloc E) b3 (have1 @ out)"
      "holds (pe_alloc E) b4 (drop (fr_aadlen f + need + m_mac_len m) (drop k i))" by blast
  have h2: "holds (pe_alloc E) (ss_incoming_packet r2) (have1 @ out)" using p(5,6) by simp
  have q: "q = ps_seqnr (ss_p_read r)" using payload_accepts(1) [OF s(3) h2] p(5) sel(2) by simp
  have i': "contents (ss_input r') = drop (fr_aadlen f + need + m_mac_len m) (drop k i)"
    using input_part.payload_keeps [OF s(3)] p(5,7) by (simp add: holds_def)
  define ct where "ct = take (k + (fr_aadlen f + need)) i"
  define tag where "tag = take (m_mac_len m) (drop (fr_aadlen f + need) (drop k i))"
  define rest where "rest = drop (fr_aadlen f + need + m_mac_len m) (drop k i)"
  have "tag @ rest = drop (k + (fr_aadlen f + need)) i"
    using append_take_drop_id [of "m_mac_len m" "drop (k + (fr_aadlen f + need)) i"] by (simp add: tag_def rest_def add.commute add.left_commute)
  then have cut: "i = ct @ tag @ rest" using append_take_drop_id [of "k + (fr_aadlen f + need)" i] by (simp add: ct_def)
  have tl: "length tag = m_mac_len m" using p(3) by (simp add: tag_def)
  have etm: "take (fr_aadlen f + need) (drop k i) = ct" "length ct - 4 = need" "k = 0" "cc = ss_receive_context r" "have1 = []" if "m_etm m"
    using l(6) fm(2) p(3) h(3) that by (auto simp: ct_def)
  have mm: "mac_matches (pe_crypto E) m q (if m_etm m then ct else have1 @ out) tag"
    using p(4) etm(1) unfolding q tag_def by (cases "m_etm m") simp_all
  have cr: "\<exists>cc. cipher_crypt (pe_crypto E) (ss_receive_context r) q i (length ct - 4) 4 0 = Inr (have1 @ out, cc)" if "m_etm m"
    using p(1) etm [OF that] fm(2) that unfolding q by auto
  have "contents (ss_input r') = rest" using i' by (simp add: rest_def)
  with cut tl q mm cr payload_accepts(2) [OF s(3) h2] show ?thesis
    by (intro exI [of _ ct] exI [of _ tag] exI [of _ rest] exI [of _ "have1 @ out"]) blast
qed

text \<open>A packet on its way over the connection of the example.\<close>

lemma demo_delivery:
  assumes "ordinary type" "length body \<le> 1000"
  shows "\<exists>b w r'. holds all_alloc b w \<and> ssh_packet_read_poll2 demo_env (demo_ssh\<lparr>ss_input := b\<rparr>) = Some (None, type, Some 3, r') \<and>
    holds all_alloc (ss_incoming_packet r') body \<and> holds all_alloc (ss_input r') [] \<and>
    (\<exists>s'. linked demo_env demo_env (\<lambda>c. (=)) (\<lambda>_ _. True) s' r')"
proof -
  have l: "crypto_laws (pe_crypto demo_env) (\<lambda>c. (=))" using demo_crypto_laws by simp
  have "packet_ok demo_env demo_ssh (type # body)"
    using assms demo_buf_holds by (auto simp: packet_ok_def demo_ssh_def packet_room_def PACKET_MAX_SIZE_def sshbuf_consts intro!: exI [of _ "[]"])
  from send_packet_step [OF l demo_zlib_laws refl demo_linked this] obtain s' w where
    s': "expects demo_env demo_env (\<lambda>c. (=)) (\<lambda>_ _. True) s' demo_ssh (type # body) w" "length w \<le> packet_room" by blast
  from holds_put [OF demo_buf_holds, of w] s'(2) obtain b where b: "holds all_alloc b (w @ [])"
    by (auto simp: packet_room_def PACKET_MAX_SIZE_def sshbuf_consts)
  let ?r = "demo_ssh\<lparr>ss_input := b\<rparr>"
  have r: "expects demo_env demo_env (\<lambda>c. (=)) (\<lambda>_ _. True) s' ?r (type # body) w" "holds (pe_alloc demo_env) (ss_input ?r) (w @ [])"
    using s'(1) b by simp_all
  have n: "ps_packets (ss_p_read ?r) + 1 \<noteq> 0" "ssh_packet_need_rekeying demo_env (?r\<lparr>ss_p_read := ss_p_send s'\<rparr>) 0 = Some False"
    by (simp_all add: demo_ssh_def ssh_packet_need_rekeying_def)
  from deliver_ordinary [OF r n(1) assms(1) n(2)] obtain r' where
    r': "ssh_packet_read_poll2 demo_env ?r = Some (None, type, Some (ps_seqnr (ss_p_read ?r)), r')" "holds (pe_alloc demo_env) (ss_incoming_packet r') body"
      "holds (pe_alloc demo_env) (ss_input r') []" "linked demo_env demo_env (\<lambda>c. (=)) (\<lambda>_ _. True) s' r'" by blast
  have "ps_seqnr (ss_p_read ?r) = 3" by (simp add: demo_ssh_def)
  with r' b show ?thesis by (intro exI [of _ b] exI [of _ "w @ []"] exI [of _ r']) auto
qed

theorem delivered_authentic_witness:
  "\<exists>b i r' ct tag rest. holds all_alloc b i \<and> ssh_packet_read_poll2 demo_env (demo_ssh\<lparr>ss_input := b\<rparr>) = Some (None, 90, Some 3, r') \<and>
     sshpkt_ptr r' = [1, 2, 3] \<and> i = ct @ tag @ rest \<and> mac_matches demo_crypto (nk_mac demo_keys) 3 ct tag"
proof -
  have "ordinary 90" by (simp add: ordinary_def msg_defs)
  from demo_delivery [OF this, of "[1, 2, 3]"] obtain b i r' where
    d: "holds all_alloc b i" "ssh_packet_read_poll2 demo_env (demo_ssh\<lparr>ss_input := b\<rparr>) = Some (None, 90, Some 3, r')"
      "holds all_alloc (ss_incoming_packet r') [1, 2, 3]" by auto
  let ?r = "demo_ssh\<lparr>ss_input := b\<rparr>"
  obtain f where f: "framing_of (ss_newkeys_in ?r) = Some f" "fr_macon f = Some (nk_mac demo_keys)"
    by (simp add: framing_of_def demo_ssh_def demo_keys_def cipher_authlen_def mk_cipher_def enabled_mac_def)
  have C: "crypto_lengths (pe_crypto demo_env)" "\<not> cc_encrypt (ss_receive_context ?r)"
    by (auto simp: crypto_lengths_def demo_crypto_def demo_ssh_def demo_ctx_def)
  have h: "holds (pe_alloc demo_env) (ss_incoming_packet ?r) []" "holds (pe_alloc demo_env) (ss_input ?r) i"
    "m_etm (nk_mac demo_keys) \<and> ss_packlen ?r \<noteq> 0 \<longrightarrow> [] = []" using d(1) demo_buf_holds by (simp_all add: demo_ssh_def)
  have "m_etm (nk_mac demo_keys)" by (simp add: demo_keys_def)
  with delivered_authentic [OF d(2) f C h] obtain ct tag rest where
    "i = ct @ tag @ rest" "mac_matches demo_crypto (nk_mac demo_keys) 3 ct tag" by auto
  moreover have "sshpkt_ptr r' = [1, 2, 3]" using holds_read(2) [OF d(3)] by (simp add: sshpkt_ptr_def)
  ultimately show ?thesis using d(1,2) by blast
qed

section \<open>After a corrupt packet\<close>

lemma fill_incoming_ok:
  assumes "holds e b bs"
  shows "\<exists>b' bs'. fill_incoming e b = Some (None, b') \<and> holds e b' bs'"
  using assms
proof (induction "PACKET_MAX_SIZE - length bs" arbitrary: b bs rule: less_induct)
  case less
  note l = holds_read(1) [OF less.prems]
  show ?case
  proof (cases "length bs < PACKET_MAX_SIZE")
    case True
    then have "length bs + length (replicate 1024 (0x61 :: byte)) \<le> SSHBUF_SIZE_MAX" by (simp add: PACKET_MAX_SIZE_def sshbuf_consts)
    from holds_put [OF less.prems this] obtain b1 where
      b1: "sshbuf_put e b (replicate 1024 0x61) = (None, b1)" "holds e b1 (bs @ replicate 1024 0x61)" by blast
    have "PACKET_MAX_SIZE - length (bs @ replicate 1024 (0x61 :: byte)) < PACKET_MAX_SIZE - length bs" using True by simp
    from less.hyps [OF this b1(2)] obtain b' bs' where "fill_incoming e b1 = Some (None, b')" "holds e b' bs'" by blast
    with b1(1) True l show ?thesis by (subst fill_incoming.simps) auto
  next
    case False
    with l less.prems show ?thesis by (subst fill_incoming.simps) auto
  qed
qed

lemma stop_discard_ok:
  assumes "holds (pe_alloc E) (ss_incoming_packet s) bs"
  shows "\<exists>s'. ssh_packet_stop_discard E s = Some (Some SSH_ERR_MAC_INVALID, s')"
  using fill_incoming_ok [OF assms] by (auto simp: ssh_packet_stop_discard_def fail_with_def)

lemma discard_no_success:
  "then_ok x (fail_with r) \<noteq> Some (None, y)" "then_ok (ssh_packet_stop_discard E s) k \<noteq> Some (None, y)"
  by (auto simp: then_ok_def fail_with_def ssh_packet_stop_discard_def split: option.splits)

text \<open>Pieces of input, one after the other.\<close>

fun take_input :: "('e, 'z) packet_env \<Rightarrow> byte list list \<Rightarrow> ('e, 'z) ssh \<Rightarrow> ('e, 'z) ssh res" where
  "take_input E [] s = Some (None, s)"
| "take_input E (c # cs) s = then_ok (ssh_packet_process_incoming E c s) (take_input E cs)"

lemma take_input_discard:
  assumes "ss_packet_discard s \<noteq> 0" "holds (pe_alloc E) (ss_incoming_packet s) bs"
  shows "if length (concat cs) < unat (ss_packet_discard s)
    then \<exists>s'. take_input E cs s = Some (None, s') \<and> ss_packet_discard s' \<noteq> 0
    else \<exists>s'. take_input E cs s = Some (Some SSH_ERR_MAC_INVALID, s')"
  using assms
proof (induction cs arbitrary: s)
  case Nil
  then show ?case by (auto simp: unat_gt_0)
next
  case (Cons c cs)
  let ?n = "unat (ss_packet_discard s)"
  let ?s = "s\<lparr>ss_keep_alive_timeouts := 0\<rparr>"
  show ?case
  proof (cases "?n \<le> length c")
    case True
    from stop_discard_ok [of E ?s bs] Cons.prems(2) obtain s' where "ssh_packet_stop_discard E ?s = Some (Some SSH_ERR_MAC_INVALID, s')" by auto
    with True Cons.prems(1) show ?thesis by (simp add: ssh_packet_process_incoming_def)
  next
    case False
    let ?s1 = "?s\<lparr>ss_packet_discard := ss_packet_discard s - of_nat (length c)\<rparr>"
    have pi: "ssh_packet_process_incoming E c s = Some (None, ?s1)"
      using False Cons.prems(1) by (simp add: ssh_packet_process_incoming_def)
    have "?n < 2 ^ 32" using unsigned_less [of "ss_packet_discard s", where ?'a = nat] by simp
    then have c: "unat (of_nat (length c) :: 32 word) = length c" using False by (simp add: unat_of_nat)
    then have n: "unat (ss_packet_discard s - of_nat (length c)) = ?n - length c" using False by (simp add: unat_sub_if')
    then have "ss_packet_discard ?s1 \<noteq> 0" using False by (auto simp: unat_eq_0 [symmetric] simp del: unat_eq_zero)
    from Cons.IH [OF this] Cons.prems(2) n pi False show ?thesis by (auto split: if_splits)
  qed
qed

lemma start_discard_begins:
  assumes "ssh_packet_start_discard E f n discard s = Some (None, s1)" "discard < 2 ^ 32"
    and "holds (pe_alloc E) (ss_incoming_packet s) bs" "holds (pe_alloc E) (ss_input s) i"
  shows "length i < discard" "ss_packlen s1 = ss_packlen s" "case fr_mac f of None \<Rightarrow> True | Some m \<Rightarrow> \<not> m_etm m"
    "if length i + length (concat cs) < discard
     then \<exists>s'. take_input E cs s1 = Some (None, s') \<and> ssh_packet_read_poll2 E s' = Some (None, SSH_MSG_NONE, None, s')
     else \<exists>s'. take_input E cs s1 = Some (Some SSH_ERR_MAC_INVALID, s')"
proof -
  have l: "sshbuf_len (ss_input s) = length i" by (rule holds_read(1) [OF assms(4)])
  from assms(1) l show s1: "length i < discard" "ss_packlen s1 = ss_packlen s" "case fr_mac f of None \<Rightarrow> True | Some m \<Rightarrow> \<not> m_etm m"
    by (auto simp: ssh_packet_start_discard_def discard_no_success Let_def not_le split: if_splits option.splits)
  from assms(1) l have d: "ss_packet_discard s1 = of_nat discard - of_nat (length i)" "ss_incoming_packet s1 = ss_incoming_packet s"
    by (auto simp: ssh_packet_start_discard_def discard_no_success Let_def not_le split: if_splits)
  have u: "unat (of_nat discard :: 32 word) = discard" "unat (of_nat (length i) :: 32 word) = length i"
    using assms(2) s1(1) by (simp_all add: unat_of_nat)
  then have n: "unat (ss_packet_discard s1) = discard - length i" using s1(1) d(1) by (simp add: unat_sub_if')
  then have "ss_packet_discard s1 \<noteq> 0" using s1(1) by (auto simp: unat_eq_0 [symmetric] simp del: unat_eq_zero)
  from take_input_discard [OF this, of E bs cs] assms(3) s1(1) d(2) n
  show "if length i + length (concat cs) < discard
     then \<exists>s'. take_input E cs s1 = Some (None, s') \<and> ssh_packet_read_poll2 E s' = Some (None, SSH_MSG_NONE, None, s')
     else \<exists>s'. take_input E cs s1 = Some (Some SSH_ERR_MAC_INVALID, s')"
    by (auto simp: ssh_packet_read_poll2_def split: if_splits)
qed

text \<open>The three places that begin to discard.\<close>

lemma length_begins:
  assumes l: "read_length E f s = Some (Inl (None, s1))" "ss_packet_discard s = 0" "ss_packet_discard s1 \<noteq> 0"
    and C: "crypto_lengths (pe_crypto E)" "\<not> cc_encrypt (ss_receive_context s)"
    and h: "holds (pe_alloc E) (ss_incoming_packet s) have" "holds (pe_alloc E) (ss_input s) i"
  obtains s0 bs where "ssh_packet_start_discard E f (ss_packlen s0) PACKET_MAX_SIZE s0 = Some (None, s1)" "bad_length (ss_packlen s0)"
    "holds (pe_alloc E) (ss_incoming_packet s0) bs" "holds (pe_alloc E) (ss_input s0) i" "ss_packlen s = 0"
proof -
  have no: "read_length_aad E s \<noteq> Some (Inl (None, s1))"
    using l(2,3) by (auto simp: read_length_aad_def Let_def stop_here_def then_ok_def fail_with_def split: sum.splits option.splits if_splits)
  let ?n = "fr_block_size f"
  from l no have z: "ss_packlen s = 0" "read_first_block E f s = Some (Inl (None, s1))" by (auto simp: read_length_def split: if_splits)
  from z(2) l(2,3) holds_read(1,2) [OF h(2)] obtain cp b0 out cc where
    o: "?n \<le> length i" "sshbuf_reserve (pe_alloc E) (sshbuf_reset (pe_alloc E) (ss_incoming_packet s)) ?n = (Inr cp, b0)"
      "cipher_crypt (pe_crypto E) (ss_receive_context s) (ps_seqnr (ss_p_send s)) i ?n 0 0 = Inr (out, cc)"
    by (auto simp: read_first_block_def split: prod.splits sum.splits if_splits)
  have lo: "length out = ?n" using decrypt_length [OF C _ o(3)] o(1) by simp
  let ?b = "buf_poke cp out b0"
  have hb: "holds (pe_alloc E) ?b ([] @ out)" using holds_reserve_poke [OF holds_reset [OF h(1)], of out cp b0] o(2) lo by simp
  let ?s0 = "s\<lparr>ss_packlen := peek_u32 (ptr_bytes ?b), ss_receive_context := cc, ss_incoming_packet := ?b\<rparr>"
  have "ssh_packet_start_discard E f (ss_packlen ?s0) PACKET_MAX_SIZE ?s0 = Some (None, s1) \<and> bad_length (ss_packlen ?s0)"
    using z(2) o holds_read(1,2) [OF h(2)]
    by (auto simp: read_first_block_def Let_def stop_here_def on_input_def go_on_def split: if_splits option.splits)
  with that [of ?s0 "[] @ out"] hb h(2) z(1) show ?thesis by simp
qed

lemma packet_begins:
  assumes p: "read_packet E f s = Some (Inl (None, s1))" "ss_packet_discard s = 0" "ss_packet_discard s1 \<noteq> 0" "fr_authlen f = 0"
    and C: "crypto_lengths (pe_crypto E)" "\<not> cc_encrypt (ss_receive_context s)"
    and h: "holds (pe_alloc E) (ss_incoming_packet s) have" "holds (pe_alloc E) (ss_input s) i"
  obtains (padding) "unat (read_need f (ss_packlen s)) mod fr_block_size f \<noteq> 0"
      "ssh_packet_start_discard E f (ss_packlen s) (PACKET_MAX_SIZE - fr_block_size f) s = Some (None, s1)"
  | (mac) need s0 bs where "need = unat (read_need f (ss_packlen s))" "need mod fr_block_size f = 0" "need \<le> PACKET_MAX_SIZE"
      "ssh_packet_start_discard E f (ss_packlen s) (PACKET_MAX_SIZE - need) s0 = Some (None, s1)" "ss_packlen s0 = ss_packlen s"
      "holds (pe_alloc E) (ss_incoming_packet s0) bs" "holds (pe_alloc E) (ss_input s0) (drop (fr_aadlen f + need) i)" "fr_aadlen f + need \<le> length i"
proof (cases "unat (read_need f (ss_packlen s)) mod fr_block_size f = 0")
  case False
  with p(1) padding show ?thesis by (simp add: read_packet_def stop_here_def Let_def)
next
  case True
  define need where "need = unat (read_need f (ss_packlen s))"
  from True p holds_read(1,2) [OF h(2)] obtain macbuf s0 where
    o: "fr_aadlen f + need \<le> length i" "read_decrypt E f need s = Some (None, s0)" "read_verify E f need macbuf s0 = Some (Inl (None, s1))"
    by (auto simp: read_packet_def Let_def need_def [symmetric] stop_here_def go_on_def bind_step_def not_less split: if_splits sum.splits option.splits)
  from decrypt_accepts [OF o(2) C h] o(1) p(4) obtain out cc b b2 where
    d: "s0 = s\<lparr>ss_receive_context := cc, ss_incoming_packet := b, ss_input := b2\<rparr>" "holds (pe_alloc E) b (have @ out)"
      "holds (pe_alloc E) b2 (drop (fr_aadlen f + need) i)" by auto
  have "need \<le> PACKET_MAX_SIZE \<and> ssh_packet_start_discard E f (ss_packlen s0) (PACKET_MAX_SIZE - need) s0 = Some (None, s1)"
    using o(3) by (auto simp: read_verify_def stop_here_def go_on_def not_less split: option.splits sum.splits if_splits)
  with d o(1) True mac [OF need_def, of s0 "have @ out"] show ?thesis by (simp add: need_def)
qed

lemma length_not_bad:
  assumes "read_length E f s = Some (Inr s1)" "ss_packlen s \<noteq> 0 \<longrightarrow> \<not> bad_length (ss_packlen s)"
  shows "\<not> bad_length (ss_packlen s1)"
  using assms by (auto simp: read_length_def read_length_aad_def read_first_block_def Let_def stop_here_def on_input_def go_on_def
      split: if_splits sum.splits prod.splits option.splits)

text \<open>C8: After a corrupt packet under a CBC cipher, the connection ends after a number of bytes that depends on what was found corrupt, but not on the
  contents of the packet or on how the bytes arrive.  Consider a receiver with a cipher without authentication of its own, whose length
  field was accepted if it was decrypted before.  If a poll begins to discard, no packet is delivered any more: every call waits, until
  \<^verbatim>\<open>PACKET_MAX_SIZE\<close> bytes have arrived since the start of the packet if its length was out of bounds or no multiple of the block size,
  and one block more if its MAC was wrong, whatever its length was; then the call that takes the last of these bytes, in whatever
  pieces they come, ends with \<^verbatim>\<open>SSH_ERR_MAC_INVALID\<close>.\<close>

theorem discard_totals:
  assumes poll: "ssh_packet_read_poll2 E s = Some (None, SSH_MSG_NONE, None, s1)" "ss_packet_discard s = 0" "ss_packet_discard s1 \<noteq> 0"
    and f: "framing_of (ss_newkeys_in s) = Some f" "fr_authlen f = 0" "fr_block_size f < PACKET_MAX_SIZE"
    and len: "ss_packlen s \<noteq> 0 \<longrightarrow> \<not> bad_length (ss_packlen s)"
    and C: "crypto_lengths (pe_crypto E)" "\<not> cc_encrypt (ss_receive_context s)"
    and h: "holds (pe_alloc E) (ss_incoming_packet s) have" "holds (pe_alloc E) (ss_input s) i"
    and arrived: "n = (if ss_packlen s = 0 then 0 else fr_block_size f) + length i + length (concat cs)"
    and limit: "limit = (if bad_length (ss_packlen s1) \<or> unat (read_need f (ss_packlen s1)) mod fr_block_size f \<noteq> 0
      then PACKET_MAX_SIZE else PACKET_MAX_SIZE + fr_block_size f)"
  shows "if n < limit
    then \<exists>s'. take_input E cs s1 = Some (None, s') \<and> ssh_packet_read_poll2 E s' = Some (None, SSH_MSG_NONE, None, s')
    else \<exists>s'. take_input E cs s1 = Some (Some SSH_ERR_MAC_INVALID, s')"
proof -
  have P: "PACKET_MAX_SIZE < 2 ^ 32" by (simp add: PACKET_MAX_SIZE_def)
  have "bind_step (read_length E f s) (read_packet E f) = Some (Inl (None, s1))"
    using poll f(1) by (auto simp: ssh_packet_read_poll2_def read_payload_def Let_def read_result_def
        split: option.splits sum.splits prod.splits)
  then consider (length) "read_length E f s = Some (Inl (None, s1))"
    | (packet) r where "read_length E f s = Some (Inr r)" "read_packet E f r = Some (Inl (None, s1))"
    by (auto simp: bind_step_def split: option.splits sum.splits)
  then show ?thesis
  proof cases
    case length
    from length_begins [OF length poll(2,3) C h] obtain s0 bs where
      b: "ssh_packet_start_discard E f (ss_packlen s0) PACKET_MAX_SIZE s0 = Some (None, s1)" "bad_length (ss_packlen s0)"
        "holds (pe_alloc E) (ss_incoming_packet s0) bs" "holds (pe_alloc E) (ss_input s0) i" "ss_packlen s = 0" by blast
    from start_discard_begins(2) [OF b(1) P b(3,4)] start_discard_begins(4) [OF b(1) P b(3,4), of cs] b(2,5) arrived limit show ?thesis by simp
  next
    case packet
    from length_accepts [OF packet(1) C h] obtain k m cc b b2 have1 where
      l: "r = rx_upd m cc b b2 s" "k \<le> length i" "holds (pe_alloc E) b have1" "holds (pe_alloc E) b2 (drop k i)" "\<not> cc_encrypt cc"
        "ss_packlen s = 0 \<longrightarrow> fr_aadlen f = 0 \<longrightarrow> k = fr_block_size f" "ss_packlen s \<noteq> 0 \<longrightarrow> have1 = have \<and> k = 0" by (elim exE conjE) (rule that; assumption)
    have sel: "ss_receive_context r = cc" "ss_incoming_packet r = b" "ss_input r = b2" "ss_packet_discard r = 0"
      using l(1) poll(2) by (simp_all add: rx_upd_def)
    have aad: "fr_aadlen f = 0" if "case fr_mac f of None \<Rightarrow> True | Some m \<Rightarrow> \<not> m_etm m"
      using that f(1,2) by (auto simp: framing_of_def enabled_mac_def Let_def split: option.splits if_splits)
    note nb = length_not_bad [OF packet(1) len]
    show ?thesis
    proof (rule packet_begins [OF packet(2) sel(4) poll(3) f(2) C(1), unfolded sel, OF l(5,3,4)])
      assume d: "unat (read_need f (ss_packlen r)) mod fr_block_size f \<noteq> 0"
        "ssh_packet_start_discard E f (ss_packlen r) (PACKET_MAX_SIZE - fr_block_size f) r = Some (None, s1)"
      have hr: "holds (pe_alloc E) (ss_incoming_packet r) have1" "holds (pe_alloc E) (ss_input r) (drop k i)" "PACKET_MAX_SIZE - fr_block_size f < 2 ^ 32"
        using l(3,4) sel P by simp_all
      note g = start_discard_begins(1-3) [OF d(2) hr(3,1,2)] start_discard_begins(4) [OF d(2) hr(3,1,2), of cs]
      have "n < limit \<longleftrightarrow> length (drop k i) + length (concat cs) < PACKET_MAX_SIZE - fr_block_size f"
        using arrived limit g(2) d(1) l(2,6,7) aad [OF g(3)] f(3) by (auto split: if_splits)
      with g(4) show ?thesis by simp
    next
      fix need s0 bs
      assume d: "need = unat (read_need f (ss_packlen r))" "need mod fr_block_size f = 0" "need \<le> PACKET_MAX_SIZE"
        "ssh_packet_start_discard E f (ss_packlen r) (PACKET_MAX_SIZE - need) s0 = Some (None, s1)" "ss_packlen s0 = ss_packlen r"
        "holds (pe_alloc E) (ss_incoming_packet s0) bs" "holds (pe_alloc E) (ss_input s0) (drop (fr_aadlen f + need) (drop k i))"
        "fr_aadlen f + need \<le> length (drop k i)"
      have "PACKET_MAX_SIZE - need < 2 ^ 32" using P by simp
      note g = start_discard_begins(1-3) [OF d(4) this d(6,7)] start_discard_begins(4) [OF d(4) this d(6,7), of cs]
      have "n < limit \<longleftrightarrow> length (drop (fr_aadlen f + need) (drop k i)) + length (concat cs) < PACKET_MAX_SIZE - need"
        using arrived limit g(2) d(1,2,3,5,8) nb l(2,6,7) aad [OF g(3)] f(3) by (auto split: if_splits)
      with g(4) show ?thesis by simp
    qed
  qed
qed

text \<open>A connection with \<^verbatim>\<open>3des-cbc\<close> and a MAC over the plain packet.\<close>

definition demo_cbc_keys :: newkeys where
  "demo_cbc_keys = demo_keys\<lparr>nk_enc := map_option (\<lambda>e. e\<lparr>e_cipher := mk_cipher ''3des-cbc'' SSH_CIPHER_SSH2 8 24 0 0 0 1, e_block_size := 8\<rparr>) (nk_enc demo_keys),
     nk_mac := (nk_mac demo_keys)\<lparr>m_etm := False\<rparr>\<rparr>"

definition demo_cbc :: "sshbuf \<Rightarrow> (byte, unit) ssh" where
  "demo_cbc b = demo_ssh\<lparr>ss_newkeys_in := Some demo_cbc_keys, ss_input := b,
     ss_receive_context := (demo_ctx False)\<lparr>cc_cipher := mk_cipher ''3des-cbc'' SSH_CIPHER_SSH2 8 24 0 0 0 1\<rparr>\<rparr>"

lemma demo_cbc_sel:
  "ss_packet_discard (demo_cbc b) = 0" "ss_packlen (demo_cbc b) = 0" "ss_input (demo_cbc b) = b" "ss_incoming_packet (demo_cbc b) = demo_buf"
  "\<not> cc_encrypt (ss_receive_context (demo_cbc b))"
  by (simp_all add: demo_cbc_def demo_ssh_def demo_ctx_def)

lemma demo_cbc_framing:
  obtains f where "framing_of (ss_newkeys_in (demo_cbc b)) = Some f" "fr_authlen f = 0" "fr_block_size f = 8" "fr_aadlen f = 0"
    "fr_enc f = Some (the (nk_enc demo_cbc_keys))" "fr_mac f = Some (nk_mac demo_cbc_keys)" "cipher_is_cbc (e_cipher (the (nk_enc demo_cbc_keys)))"
    "\<not> m_etm (nk_mac demo_cbc_keys)"
  by (simp add: demo_cbc_def demo_cbc_keys_def demo_keys_def framing_of_def cipher_authlen_def mk_cipher_def enabled_mac_def Let_def cipher_is_cbc_def
      CFLAG_CBC_def)

text \<open>Eight bytes that decrypt to a length of 0 begin to discard.\<close>

lemma demo_cbc_begins:
  assumes b: "holds all_alloc b (replicate 8 1)"
  obtains s1 where "ssh_packet_read_poll2 demo_env (demo_cbc b) = Some (None, SSH_MSG_NONE, None, s1)" "ss_packet_discard s1 \<noteq> 0" "bad_length (ss_packlen s1)"
proof (rule demo_cbc_framing [of b])
  fix f
  assume f: "framing_of (ss_newkeys_in (demo_cbc b)) = Some f" "fr_authlen f = 0" "fr_block_size f = 8" "fr_aadlen f = 0"
    "fr_enc f = Some (the (nk_enc demo_cbc_keys))" "fr_mac f = Some (nk_mac demo_cbc_keys)" "cipher_is_cbc (e_cipher (the (nk_enc demo_cbc_keys)))"
    "\<not> m_etm (nk_mac demo_cbc_keys)"
  note sel = demo_cbc_sel [of b]
  from holds_reserve [OF holds_reset [OF demo_buf_holds], of 8] obtain cp b0 where
    r: "sshbuf_reserve all_alloc (sshbuf_reset all_alloc demo_buf) 8 = (Inr cp, b0)" "\<And>v. length v = 8 \<Longrightarrow> holds all_alloc (buf_poke cp v b0) v"
    by (auto simp: sshbuf_consts)
  obtain cc where c: "cipher_crypt demo_crypto (ss_receive_context (demo_cbc b)) (ps_seqnr (ss_p_send (demo_cbc b))) (replicate 8 1) 8 0 0 = Inr (replicate 8 0, cc)"
    by (simp add: cipher_crypt_def demo_cbc_def demo_ctx_def demo_ssh_def demo_crypto_def mk_cipher_def is_chachapoly_def CFLAG_CHACHAPOLY_def Let_def)
  let ?b = "buf_poke cp (replicate 8 0) b0"
  let ?s = "(demo_cbc b)\<lparr>ss_packlen := 0, ss_receive_context := cc, ss_incoming_packet := ?b\<rparr>"
  have p: "peek_u32 (ptr_bytes ?b) = 0" using holds_read(2) [OF r(2) [of "replicate 8 0"]] by (simp add: peek_u32_def eval_nat_numeral)
  have l: "sshbuf_len (ss_input ?s) = 8" using holds_read(1) [OF b] sel(3) by simp
  have len: "read_length demo_env f (demo_cbc b) = stop_here (ssh_packet_start_discard demo_env f 0 PACKET_MAX_SIZE ?s)"
    using f sel r(1) c p holds_read(1,2) [OF b] by (simp add: read_length_def read_first_block_def Let_def bad_length_def)
  let ?s1 = "?s\<lparr>ss_packet_discard_mac := (if fr_macon f \<noteq> None then fr_mac f else ss_packet_discard_mac ?s)\<rparr>"
  have st: "ssh_packet_start_discard demo_env f 0 PACKET_MAX_SIZE ?s = Some (None, ?s1\<lparr>ss_packet_discard := of_nat PACKET_MAX_SIZE - 8\<rparr>)"
    using f(5-8) l by (simp add: ssh_packet_start_discard_def Let_def PACKET_MAX_SIZE_def)
  show ?thesis
    by (rule that [of "?s1\<lparr>ss_packet_discard := of_nat PACKET_MAX_SIZE - 8\<rparr>"])
      (use f(1) sel(1) len st in \<open>simp_all add: ssh_packet_read_poll2_def PACKET_MAX_SIZE_def bad_length_def\<close>)
qed

theorem discard_totals_witness:
  "\<exists>b s1. holds all_alloc b (replicate 8 1) \<and> ssh_packet_read_poll2 demo_env (demo_cbc b) = Some (None, SSH_MSG_NONE, None, s1) \<and>
     (\<exists>s'. take_input demo_env [replicate 1000 0, replicate 2000 1] s1 = Some (None, s') \<and> ssh_packet_read_poll2 demo_env s' = Some (None, SSH_MSG_NONE, None, s')) \<and>
     (\<exists>s'. take_input demo_env [replicate 1000 0, replicate PACKET_MAX_SIZE 1] s1 = Some (Some SSH_ERR_MAC_INVALID, s'))"
proof -
  from holds_put [OF demo_buf_holds, of "replicate 8 1"] obtain b where b: "holds all_alloc b (replicate 8 1)" by (auto simp: sshbuf_consts)
  note sel = demo_cbc_sel [of b]
  obtain f where f: "framing_of (ss_newkeys_in (demo_cbc b)) = Some f" "fr_authlen f = 0" "fr_block_size f = 8" by (rule demo_cbc_framing [of b])
  obtain s1 where s1: "ssh_packet_read_poll2 demo_env (demo_cbc b) = Some (None, SSH_MSG_NONE, None, s1)" "ss_packet_discard s1 \<noteq> 0" "bad_length (ss_packlen s1)"
    by (rule demo_cbc_begins [OF b])
  have C: "crypto_lengths (pe_crypto demo_env)" by (auto simp: crypto_lengths_def demo_crypto_def)
  have h: "holds (pe_alloc demo_env) (ss_incoming_packet (demo_cbc b)) []" "holds (pe_alloc demo_env) (ss_input (demo_cbc b)) (replicate 8 1)"
    using b sel demo_buf_holds by simp_all
  have k: "fr_block_size f < PACKET_MAX_SIZE" using f(3) by (simp add: PACKET_MAX_SIZE_def)
  have z: "ss_packlen (demo_cbc b) \<noteq> 0 \<longrightarrow> \<not> bad_length (ss_packlen (demo_cbc b))" using sel(2) by simp
  note d = discard_totals [OF s1(1) sel(1) s1(2) f(1,2) k z C sel(5) h refl refl]
  have "\<exists>s'. take_input demo_env [replicate 1000 0, replicate 2000 1] s1 = Some (None, s') \<and> ssh_packet_read_poll2 demo_env s' = Some (None, SSH_MSG_NONE, None, s')"
    using d [of "[replicate 1000 0, replicate 2000 1]"] s1(3) sel(2) by (simp add: PACKET_MAX_SIZE_def del: take_input.simps)
  moreover have "\<exists>s'. take_input demo_env [replicate 1000 0, replicate PACKET_MAX_SIZE 1] s1 = Some (Some SSH_ERR_MAC_INVALID, s')"
    using d [of "[replicate 1000 0, replicate PACKET_MAX_SIZE 1]"] s1(3) sel(2) by (simp del: take_input.simps)
  ultimately show ?thesis using b s1(1) by blast
qed

section \<open>The loop over messages of the transport\<close>

text \<open>One round of \<open>ssh_packet_read_poll_seqnr\<close> that is followed by another.\<close>

definition goes_on :: "('e, 'z) packet_env \<Rightarrow> ('e, 'z) ssh \<Rightarrow> ('e, 'z) ssh \<Rightarrow> bool" where
  "goes_on E s s' \<longleftrightarrow> (\<exists>type q s1. ssh_packet_read_poll2 E s = Some (None, type, q, s1) \<and>
     transport_message E type (if type \<noteq> SSH_MSG_NONE then s1\<lparr>ss_keep_alive_timeouts := 0\<rparr> else s1) = (None, s'))"

definition unread :: "('e, 'z) ssh \<Rightarrow> nat" where
  "unread s = length (contents (ss_input s)) + (if ss_packlen s = 0 then 0 else 1)"

lemma input_consumed:
  assumes "on_input (sshbuf_consume (ss_input s) n) s = Some (None, s')" "sshbuf_inv (ss_input s)"
  shows "sshbuf_inv (ss_input s') \<and> length (contents (ss_input s')) + n = length (contents (ss_input s)) \<and> (\<exists>b. s' = s\<lparr>ss_input := b\<rparr>)"
proof -
  obtain b where b: "sshbuf_consume (ss_input s) n = (None, b)" "s' = s\<lparr>ss_input := b\<rparr>" using assms(1) by (auto simp: on_input_def) (metis prod.collapse)
  from consume_success [OF assms(2) b(1)] b(2) show ?thesis by auto
qed

lemma go_on_Inr: "go_on m = Some (Inr s) \<longleftrightarrow> m = Some (None, s)"
  by (auto simp: go_on_def split: option.splits)

lemma stop_here_Inr: "stop_here m \<noteq> Some (Inr s)"
  by (simp add: stop_here_def)

lemma packet_consumes:
  assumes "read_packet E f s = Some (Inr s')" "sshbuf_inv (ss_input s)"
  shows "sshbuf_inv (ss_input s') \<and> length (contents (ss_input s')) + fr_aadlen f \<le> length (contents (ss_input s))"
proof -
  from assms(1) obtain need macbuf s1 where
    d: "read_decrypt E f need s = Some (None, s1)" "read_verify E f need macbuf s1 = Some (Inr s')"
    by (auto simp: read_packet_def Let_def stop_here_Inr bind_step_def go_on_Inr split: if_splits sum.splits option.splits)
  from d(1) obtain cc b s0 where "s0 = s\<lparr>ss_receive_context := cc, ss_incoming_packet := b\<rparr>"
    "on_input (sshbuf_consume (ss_input s0) (fr_aadlen f + need + fr_authlen f)) s0 = Some (None, s1)"
    by (auto simp: read_decrypt_def Let_def split: prod.splits sum.splits)
  from input_consumed [OF this(2)] this(1) assms(2) have
    c: "sshbuf_inv (ss_input s1)" "length (contents (ss_input s1)) + fr_aadlen f \<le> length (contents (ss_input s))" by auto
  show ?thesis
  proof (cases "fr_macon f")
    case None
    with d(2) c show ?thesis by (simp add: read_verify_def)
  next
    case (Some m)
    with d(2) have "on_input (sshbuf_consume (ss_input s1) (m_mac_len m)) s1 = Some (None, s')"
      by (auto simp: read_verify_def stop_here_Inr go_on_Inr split: sum.splits if_splits)
    from input_consumed [OF this c(1)] c(2) show ?thesis by auto
  qed
qed

lemma length_consumes:
  assumes "read_length E f s = Some (Inr s')" "sshbuf_inv (ss_input s)" "0 < fr_block_size f"
  shows "sshbuf_inv (ss_input s') \<and> length (contents (ss_input s')) \<le> length (contents (ss_input s)) \<and>
    (ss_packlen s = 0 \<longrightarrow> fr_aadlen f = 0 \<longrightarrow> length (contents (ss_input s')) < length (contents (ss_input s)))"
proof (cases "ss_packlen s = 0 \<and> fr_aadlen f = 0")
  case True
  with assms(1) obtain n cc b s0 where "s0 = s\<lparr>ss_packlen := n, ss_receive_context := cc, ss_incoming_packet := b\<rparr>"
    "on_input (sshbuf_consume (ss_input s0) (fr_block_size f)) s0 = Some (None, s')"
    by (auto simp: read_length_def read_first_block_def Let_def stop_here_Inr go_on_Inr split: prod.splits sum.splits if_splits)
  from input_consumed [OF this(2)] this(1) assms(2,3) show ?thesis by auto
next
  case False
  with assms(1) have "ss_input s' = ss_input s"
    by (auto simp: read_length_def read_length_aad_def Let_def stop_here_Inr split: sum.splits if_splits)
  with assms(2) False show ?thesis by auto
qed

lemma finish_resets:
  assumes "read_finish E type s = Some (None, s')"
  shows "ss_packlen s' = 0"
proof -
  have no: "disconnect_with E t x s0 \<noteq> Some (None, s1)" for t x s0 s1
    by (simp add: disconnect_with_def discard_no_success then_ok_def fail_with_def split: option.split)
  have rk: "ss_packlen s' = 0" if "kex_start_rekex E (s1\<lparr>ss_packlen := 0\<rparr>) = Some (None, s')" for s1
    using keepsD [OF packlen_part.rekex_keeps [OF refl] that] by simp
  from assms no show ?thesis
    by (auto simp: read_finish_def Let_def split: if_splits option.splits bool.splits dest: rk)
qed

lemma payload_resets: "read_payload E f s = Some (None, type, q, s') \<Longrightarrow> ss_packlen s' = 0"
  by (auto simp: read_payload_def Let_def read_result_def split: option.splits sum.splits prod.splits dest: finish_resets)

text \<open>Every packet that is read takes bytes from the input, or it was begun before.\<close>

lemma poll_consumes:
  assumes "ssh_packet_read_poll2 E s = Some (None, type, Some q, s')" "sshbuf_inv (ss_input s)"
    and "\<And>f. framing_of (ss_newkeys_in s) = Some f \<Longrightarrow> 0 < fr_block_size f"
  shows "sshbuf_inv (ss_input s') \<and> unread s' < unread s"
proof -
  from assms(1) obtain f s1 s2 where p: "framing_of (ss_newkeys_in s) = Some f" "read_length E f s = Some (Inr s1)" "read_packet E f s1 = Some (Inr s2)"
    "read_payload E f s2 = Some (None, type, Some q, s')" by (rule poll_accepts)
  note l = length_consumes [OF p(2) assms(2) assms(3) [OF p(1)]]
  note k = packet_consumes [OF p(3) conjunct1 [OF l]]
  have "ss_input s' = ss_input s2" using input_part.payload_keeps [OF p(4)] .
  with k l payload_resets [OF p(4)] show ?thesis by (auto simp: unread_def)
qed

lemma message_keeps:
  assumes "transport_message E type s = (x, s')"
  shows "ss_input s' = ss_input s \<and> ss_packlen s' = ss_packlen s"
  using assms by (auto simp: transport_message_def get_seq_def sshpkt_get_u8_def sshpkt_get_u32_def sshpkt_get_string_def get_incoming_def
      split: if_splits prod.splits sum.splits)

lemma goes_on_consumes:
  assumes "goes_on E s s'" "sshbuf_inv (ss_input s)" "\<And>f. framing_of (ss_newkeys_in s) = Some f \<Longrightarrow> 0 < fr_block_size f"
  shows "sshbuf_inv (ss_input s') \<and> unread s' < unread s"
proof -
  from assms(1) obtain type q s1 where
    g: "ssh_packet_read_poll2 E s = Some (None, type, q, s1)" "transport_message E type (if type \<noteq> SSH_MSG_NONE then s1\<lparr>ss_keep_alive_timeouts := 0\<rparr> else s1) = (None, s')"
    by (auto simp: goes_on_def)
  have "type \<noteq> SSH_MSG_NONE" using g(2) by (auto simp: transport_message_def msg_defs)
  then obtain q' where "q = Some q'"
    using g(1) by (cases q) (auto simp: ssh_packet_read_poll2_def read_payload_def Let_def read_result_def split: if_splits option.splits sum.splits prod.splits)
  with poll_consumes [OF _ assms(2,3), of E type q' s1] g(1) message_keeps [OF g(2)] show ?thesis by (auto simp: unread_def split: if_splits)
qed

text \<open>C7: The loop over the messages of the transport ends.  \<open>ssh_packet_read_poll_seqnr\<close> goes on after each \<^verbatim>\<open>SSH2_MSG_IGNORE\<close>,
  \<^verbatim>\<open>SSH2_MSG_DEBUG\<close> and \<^verbatim>\<open>SSH2_MSG_UNIMPLEMENTED\<close>, so a peer chooses how many rounds it makes; but each round takes bytes
  from the input buffer, and the loop returns whenever the single polls return.\<close>

theorem read_poll_terminates:
  assumes "sshbuf_inv (ss_input s)"
    and "\<And>s'. (goes_on E)\<^sup>*\<^sup>* s s' \<Longrightarrow> ssh_packet_read_poll2 E s' \<noteq> None"
    and "\<And>s' f. (goes_on E)\<^sup>*\<^sup>* s s' \<Longrightarrow> framing_of (ss_newkeys_in s') = Some f \<Longrightarrow> 0 < fr_block_size f"
  shows "\<exists>result. ssh_packet_read_poll_seqnr E s = Some result"
  using assms
proof (induction "unread s" arbitrary: s rule: less_induct)
  case less
  obtain r type q s1 where p: "ssh_packet_read_poll2 E s = Some (r, type, q, s1)" using less.prems(2) [of s] by auto
  let ?s = "if type \<noteq> SSH_MSG_NONE then s1\<lparr>ss_keep_alive_timeouts := 0\<rparr> else s1"
  obtain x s' where m: "transport_message E type ?s = (x, s')" by (cases "transport_message E type ?s")
  show ?case
  proof (cases "r = None \<and> x = None")
    case True
    with p m have g: "goes_on E s s'" unfolding goes_on_def by blast
    note c = goes_on_consumes [OF g less.prems(1)]
    have "0 < fr_block_size f" if "framing_of (ss_newkeys_in s) = Some f" for f using less.prems(3) [of s f] that by simp
    with c have c: "sshbuf_inv (ss_input s')" "unread s' < unread s" by auto
    have "\<exists>result. ssh_packet_read_poll_seqnr E s' = Some result"
      by (rule less.hyps [OF c(2,1)]) (use g less.prems(2,3) converse_rtranclp_into_rtranclp [of "goes_on E" s s'] in blast)+
    with p m True show ?thesis by (subst ssh_packet_read_poll_seqnr.simps) (simp add: Let_def)
  next
    case False
    with p m show ?thesis by (subst ssh_packet_read_poll_seqnr.simps) (auto simp: Let_def split: option.split)
  qed
qed

text \<open>A packet \<^verbatim>\<open>SSH2_MSG_IGNORE\<close> waits in the buffer: there is one round more.\<close>

theorem read_poll_terminates_witness:
  "\<exists>b i result s'. holds all_alloc b i \<and> goes_on demo_env (demo_ssh\<lparr>ss_input := b\<rparr>) s' \<and>
     ssh_packet_read_poll_seqnr demo_env (demo_ssh\<lparr>ss_input := b\<rparr>) = Some result"
proof -
  have "ordinary SSH2_MSG_IGNORE" by (simp add: ordinary_def msg_defs)
  from demo_delivery [OF this, of "[]"] obtain b i r' s' where
    d: "holds all_alloc b i" "ssh_packet_read_poll2 demo_env (demo_ssh\<lparr>ss_input := b\<rparr>) = Some (None, SSH2_MSG_IGNORE, Some 3, r')"
      "holds all_alloc (ss_input r') []" "linked demo_env demo_env (\<lambda>c. (=)) (\<lambda>_ _. True) s' r'" by auto
  let ?s = "demo_ssh\<lparr>ss_input := b\<rparr>" and ?r = "r'\<lparr>ss_keep_alive_timeouts := 0\<rparr>"
  have step: "goes_on demo_env ?s x \<longleftrightarrow> x = ?r" for x
    using d(2) by (auto simp: goes_on_def transport_message_def msg_defs)
  have ln: "linked demo_env demo_env (\<lambda>c. (=)) (\<lambda>_ _. True) s' ?r" using d(4) by (simp add: linked_def comp_linked_def has_buffer_def)
  have "holds (pe_alloc demo_env) (ss_input ?r) []" using d(3) by simp
  note last = poll_nothing [OF ln this]
  have stop: "\<not> goes_on demo_env ?r x" for x using last by (auto simp: goes_on_def transport_message_def msg_defs)
  have reach: "x = ?s \<or> x = ?r" if "(goes_on demo_env)\<^sup>*\<^sup>* ?s x" for x
    using that by (induction rule: rtranclp_induct) (use step stop in auto)
  have fr: "0 < fr_block_size f" if "framing_of (ss_newkeys_in x) = Some f" "x = ?s \<or> x = ?r" for x f
    using that ln by (auto simp: linked_def framing_fits_def ctx_pair_def cipher_sane_def demo_ssh_def demo_keys_def framing_of_def Let_def)
  have "\<exists>result. ssh_packet_read_poll_seqnr demo_env ?s = Some result"
  proof (rule read_poll_terminates)
    show "sshbuf_inv (ss_input ?s)" using holds_read(3) [OF d(1)] by simp
    show "ssh_packet_read_poll2 demo_env x \<noteq> None" if "(goes_on demo_env)\<^sup>*\<^sup>* ?s x" for x using reach [OF that] d(2) last by auto
    show "0 < fr_block_size f" if "(goes_on demo_env)\<^sup>*\<^sup>* ?s x" "framing_of (ss_newkeys_in x) = Some f" for x f
      using fr [OF that(2) reach [OF that(1)]] .
  qed
  with d(1) step show ?thesis by blast
qed

end
