(* ===== verification/Kex_Proto.thy ===== *)
theory Kex_Proto
  imports Packet
begin

unbundle bit_operations_syntax

text \<open>
  The messages of a key exchange: the handlers of \<^verbatim>\<open>src/openssh-7.2p2/kex.c\<close>, the exchange over Curve25519 of
  \<^verbatim>\<open>kexc25519.c\<close>, \<^verbatim>\<open>kexc25519c.c\<close> and \<^verbatim>\<open>kexc25519s.c\<close>, and the table of handlers of \<^verbatim>\<open>dispatch.c\<close>.  A handler in the
  table is named by a constructor; those of other modules and the other methods of exchange are parameters.  Host
  keys, digests, the multiplication on the curve and random numbers are parameters too.
\<close>

section \<open>State\<close>

definition DISPATCH_MAX :: nat where "DISPATCH_MAX = 255"
definition CURVE25519_SIZE :: nat where "CURVE25519_SIZE = 32"
definition SSH2_MSG_KEX_ECDH_INIT :: byte where "SSH2_MSG_KEX_ECDH_INIT = 30"
definition SSH2_MSG_KEX_ECDH_REPLY :: byte where "SSH2_MSG_KEX_ECDH_REPLY = 31"

datatype dispatch_fn =
  Kex_protocol_error | Kex_input_kexinit | Kex_input_newkeys | Kex_input_ext_info | Input_kex_c25519_init | Input_kex_c25519_reply
  | Dispatch_protocol_error | Dispatch_protocol_ignore | Other_handler nat

text \<open>What waiting for input and reading it give, in the order of the calls.\<close>

datatype read_result = R_timeout | R_closed | R_failed | R_data "byte list"

text \<open>The connection with its table of handlers, the input that is still to come, and the members of \<open>struct kex\<close> that only the exchange uses.  A session
  id of length 0 stands for the null pointer.\<close>

record ('e, 'z) conn =
  cn_ssh :: "('e, 'z) ssh"
  cn_dispatch :: "nat \<Rightarrow> dispatch_fn option"
  cn_skip :: int
  cn_reads :: "read_result list"
  cn_client_version :: "byte list"
  cn_server_version :: "byte list"
  cn_c25519_key :: "byte list"
  cn_c25519_pub :: "byte list"

text \<open>Host keys and what they can do, for keys of type \<open>'k\<close>; the callbacks may be null.\<close>

record ('k, 'e, 'z) kex_env =
  ke_packet :: "('e, 'z) packet_env"
  ke_build :: build
  ke_random :: "byte list"
  ke_scalarmult :: "byte list \<Rightarrow> byte list \<Rightarrow> byte list"
  ke_digest :: "digest \<Rightarrow> byte list \<Rightarrow> byte list option"
  ke_from_blob :: "byte list \<Rightarrow> ssh_err + 'k"
  ke_to_blob :: "'k \<Rightarrow> ssh_err + byte list"
  ke_key_type :: "'k \<Rightarrow> key_type"
  ke_key_nid :: "'k \<Rightarrow> nid"
  ke_verify_host_key :: "('k \<Rightarrow> bool) option"  \<comment> \<open>whether the callback does not return -1\<close>
  ke_key_verify :: "'k \<Rightarrow> byte list \<Rightarrow> byte list \<Rightarrow> 32 word \<Rightarrow> rc"
  ke_load_public :: "(key_type \<Rightarrow> nid \<Rightarrow> 'k option) option"
  ke_load_private :: "(key_type \<Rightarrow> nid \<Rightarrow> 'k option) option"
  ke_sign :: "'k option \<Rightarrow> 'k \<Rightarrow> byte list \<Rightarrow> string option \<Rightarrow> 32 word \<Rightarrow> ssh_err + byte list"
  ke_methods :: "kex_exchange \<Rightarrow> (('e, 'z) conn \<Rightarrow> ('e, 'z) conn res) option"  \<comment> \<open>the entries of \<open>kex->kex\<close> other than Curve25519\<close>
  ke_c25519 :: "bool option"  \<comment> \<open>the entry for Curve25519: null, server or client\<close>
  ke_handlers :: "nat \<Rightarrow> byte \<Rightarrow> 32 word \<Rightarrow> ('e, 'z) conn \<Rightarrow> ('e, 'z) conn res"

abbreviation ke_alloc :: "('k, 'e, 'z) kex_env \<Rightarrow> alloc_env" where "ke_alloc K \<equiv> pe_alloc (ke_packet K)"

definition on_ssh :: "(('e, 'z) ssh \<Rightarrow> ('e, 'z) ssh res) \<Rightarrow> ('e, 'z) conn \<Rightarrow> ('e, 'z) conn res" where
  "on_ssh f c = map_option (map_prod id (\<lambda>s. c\<lparr>cn_ssh := s\<rparr>)) (f (cn_ssh c))"

text \<open>A value from the incoming packet, or an error that ends the handler.\<close>

definition get_then ::
  "(('e, 'z) ssh \<Rightarrow> (ssh_err + 'v) \<times> ('e, 'z) ssh) \<Rightarrow> ('e, 'z) conn \<Rightarrow> ('v \<Rightarrow> ('e, 'z) conn \<Rightarrow> ('e, 'z) conn res) \<Rightarrow> ('e, 'z) conn res" where
  "get_then g c k =
     (case g (cn_ssh c) of (Inl r, s) \<Rightarrow> Some (Some r, c\<lparr>cn_ssh := s\<rparr>) | (Inr v, s) \<Rightarrow> k v (c\<lparr>cn_ssh := s\<rparr>))"

definition at_end :: "('e, 'z) conn \<Rightarrow> (('e, 'z) conn \<Rightarrow> ('e, 'z) conn res) \<Rightarrow> ('e, 'z) conn res" where
  "at_end c k = (case sshpkt_get_end (cn_ssh c) of Some r \<Rightarrow> Some (Some r, c) | None \<Rightarrow> k c)"

definition cn_kex :: "('e, 'z) conn \<Rightarrow> kex option" where
  "cn_kex c = sh_kex (cn_ssh c)"

definition put_kex :: "kex \<Rightarrow> ('e, 'z) conn \<Rightarrow> ('e, 'z) conn" where
  "put_kex k c = c\<lparr>cn_ssh := (cn_ssh c)\<lparr>sh_kex := Some k\<rparr>\<rparr>"

section \<open>The table of handlers\<close>

definition ssh_dispatch_init :: "dispatch_fn option \<Rightarrow> ('e, 'z) conn \<Rightarrow> ('e, 'z) conn" where
  "ssh_dispatch_init dflt c = c\<lparr>cn_dispatch := (\<lambda>i. if i < DISPATCH_MAX then dflt else cn_dispatch c i)\<rparr>"

definition ssh_dispatch_range :: "byte \<Rightarrow> byte \<Rightarrow> dispatch_fn option \<Rightarrow> ('e, 'z) conn \<Rightarrow> ('e, 'z) conn" where
  "ssh_dispatch_range lo hi fn c =
     c\<lparr>cn_dispatch := (\<lambda>i. if unat lo \<le> i \<and> i \<le> unat hi \<and> i < DISPATCH_MAX then fn else cn_dispatch c i)\<rparr>"

definition ssh_dispatch_set :: "byte \<Rightarrow> dispatch_fn option \<Rightarrow> ('e, 'z) conn \<Rightarrow> ('e, 'z) conn" where
  "ssh_dispatch_set type fn c = c\<lparr>cn_dispatch := (cn_dispatch c)(unat type := fn)\<rparr>"

definition send_unimplemented :: "('e, 'z) packet_env \<Rightarrow> 32 word \<Rightarrow> ('e, 'z) ssh \<Rightarrow> ('e, 'z) ssh res" where
  "send_unimplemented E seq s =
     then_ok (sshpkt_start E SSH2_MSG_UNIMPLEMENTED s) (\<lambda>s. then_ok (sshpkt_put_u32 E seq s) (sshpkt_send E))"

text \<open>An error in \<open>dispatch_protocol_error\<close> ends the program with \<open>sshpkt_fatal\<close>, which is no result.\<close>

definition dispatch_protocol_error :: "('e, 'z) packet_env \<Rightarrow> 32 word \<Rightarrow> ('e, 'z) conn \<Rightarrow> ('e, 'z) conn res" where
  "dispatch_protocol_error E seq c =
     (case on_ssh (\<lambda>s. then_ok (send_unimplemented E seq s) (ssh_packet_write_wait E)) c of
        Some (None, c) \<Rightarrow> Some (None, c) | _ \<Rightarrow> None)"

definition dispatch_protocol_ignore :: "('e, 'z) conn \<Rightarrow> ('e, 'z) conn res" where
  "dispatch_protocol_ignore c = Some (None, c)"

section \<open>Messages of every exchange\<close>

definition kex_protocol_error :: "('e, 'z) packet_env \<Rightarrow> 32 word \<Rightarrow> ('e, 'z) conn \<Rightarrow> ('e, 'z) conn res" where
  "kex_protocol_error E seq c = on_ssh (send_unimplemented E seq) c"

definition kex_reset_dispatch :: "('e, 'z) conn \<Rightarrow> ('e, 'z) conn" where
  "kex_reset_dispatch c =
     ssh_dispatch_set SSH2_MSG_KEXINIT (Some Kex_input_kexinit)
       (ssh_dispatch_range SSH2_MSG_TRANSPORT_MIN SSH2_MSG_TRANSPORT_MAX (Some Kex_protocol_error) c)"

definition kex_send_ext_info :: "('e, 'z) packet_env \<Rightarrow> ('e, 'z) ssh \<Rightarrow> ('e, 'z) ssh res" where
  "kex_send_ext_info E s =
     then_ok (sshpkt_start E SSH2_MSG_EXT_INFO s) (\<lambda>s. then_ok (sshpkt_put_u32 E 1 s) (\<lambda>s.
     then_ok (sshpkt_put_cstring E (Some (bytes_of ''server-sig-algs'')) s) (\<lambda>s.
     then_ok (sshpkt_put_cstring E (Some (bytes_of ''rsa-sha2-256,rsa-sha2-512'')) s) (sshpkt_send E))))"

definition kex_send_newkeys :: "('e, 'z) packet_env \<Rightarrow> ('e, 'z) conn \<Rightarrow> ('e, 'z) conn res" where
  "kex_send_newkeys E c =
     then_ok (on_ssh (\<lambda>s. then_ok (sshpkt_start E SSH2_MSG_NEWKEYS s) (sshpkt_send E)) (kex_reset_dispatch c)) (\<lambda>c.
     let c = ssh_dispatch_set SSH2_MSG_NEWKEYS (Some Kex_input_newkeys) c
     in case cn_kex c of None \<Rightarrow> None | Some k \<Rightarrow>
          if kx_ext_info_c k then on_ssh (kex_send_ext_info E) c else Some (None, c))"

text \<open>The hash algorithm for signatures that one pair of name and value announces; the later of the two wins.\<close>

definition sig_algs_found :: "string \<Rightarrow> string \<Rightarrow> nat option" where
  "sig_algs_found name val =
     (if name \<noteq> ''server-sig-algs'' then None
      else if fst (match_list ''rsa-sha2-512'' val) \<noteq> None then Some 512
      else if fst (match_list ''rsa-sha2-256'' val) \<noteq> None then Some 256
      else None)"

fun ext_info_loop :: "('e, 'z) packet_env \<Rightarrow> nat \<Rightarrow> ('e, 'z) conn \<Rightarrow> ('e, 'z) conn res" where
  "ext_info_loop E 0 c = at_end c (\<lambda>c. Some (None, c))"
| "ext_info_loop E (Suc n) c =
     get_then (sshpkt_get_cstring E) c (\<lambda>name c. get_then (sshpkt_get_cstring E) c (\<lambda>val c.
       case sig_algs_found (cstr_of name) (cstr_of val) of
         None \<Rightarrow> ext_info_loop E n c
       | Some bits \<Rightarrow>
           (case cn_kex c of None \<Rightarrow> None | Some k \<Rightarrow> ext_info_loop E n (put_kex (k\<lparr>kx_rsa_sha2 := bits\<rparr>) c))))"

definition kex_input_ext_info :: "('e, 'z) packet_env \<Rightarrow> ('e, 'z) conn \<Rightarrow> ('e, 'z) conn res" where
  "kex_input_ext_info E c =
     get_then sshpkt_get_u32 (ssh_dispatch_set SSH2_MSG_EXT_INFO (Some Kex_protocol_error) c) (\<lambda>ninfo c.
       ext_info_loop E (unat ninfo) c)"

definition kex_input_newkeys :: "('e, 'z) packet_env \<Rightarrow> ('e, 'z) conn \<Rightarrow> ('e, 'z) conn res" where
  "kex_input_newkeys E c =
     at_end (ssh_dispatch_set SSH2_MSG_NEWKEYS (Some Kex_protocol_error) c) (\<lambda>c.
       case cn_kex c of None \<Rightarrow> None | Some k \<Rightarrow>
         Some (None, put_kex (k\<lparr>kx_done := True, kx_peer := sshbuf_reset (pe_alloc E) (kx_peer k), kx_init_sent := False, kx_name := None\<rparr>) c))"

section \<open>Exchange over Curve25519\<close>

definition basepoint :: "byte list" where "basepoint = 9 # replicate (CURVE25519_SIZE - 1) 0"

definition kexc25519_keygen :: "('k, 'e, 'z) kex_env \<Rightarrow> byte list \<times> byte list" where
  "kexc25519_keygen K = (take CURVE25519_SIZE (ke_random K), ke_scalarmult K (take CURVE25519_SIZE (ke_random K)) basepoint)"

text \<open>The secret is written to a fresh buffer.\<close>

definition kexc25519_shared_key :: "('k, 'e, 'z) kex_env \<Rightarrow> byte list \<Rightarrow> byte list \<Rightarrow> sshbuf \<Rightarrow> rc \<times> sshbuf" where
  "kexc25519_shared_key K key pub out =
     (if take CURVE25519_SIZE pub = replicate CURVE25519_SIZE 0 then (Some SSH_ERR_KEY_INVALID_EC_VALUE, out)
      else sshbuf_put_bignum2_bytes (ke_alloc K) (sshbuf_reset (ke_alloc K) out) (ke_scalarmult K key (take CURVE25519_SIZE pub)))"

definition hash_fields ::
  "byte list \<Rightarrow> byte list \<Rightarrow> byte list \<Rightarrow> byte list \<Rightarrow> byte list \<Rightarrow> byte list \<Rightarrow> byte list \<Rightarrow> (alloc_env \<Rightarrow> sshbuf \<Rightarrow> rc \<times> sshbuf) list" where
  "hash_fields cversion sversion ckexinit skexinit blob cpub spub =
     [\<lambda>e b. sshbuf_put_cstring e b (Some cversion), \<lambda>e b. sshbuf_put_cstring e b (Some sversion),
      \<lambda>e b. sshbuf_put_u32 e b (of_nat (length ckexinit + 1)), \<lambda>e b. sshbuf_put_u8 e b SSH2_MSG_KEXINIT, \<lambda>e b. sshbuf_put e b ckexinit,
      \<lambda>e b. sshbuf_put_u32 e b (of_nat (length skexinit + 1)), \<lambda>e b. sshbuf_put_u8 e b SSH2_MSG_KEXINIT, \<lambda>e b. sshbuf_put e b skexinit,
      \<lambda>e b. sshbuf_put_string e b blob, \<lambda>e b. sshbuf_put_string e b (take CURVE25519_SIZE cpub), \<lambda>e b. sshbuf_put_string e b (take CURVE25519_SIZE spub)]"

fun put_chain :: "alloc_env \<Rightarrow> (alloc_env \<Rightarrow> sshbuf \<Rightarrow> rc \<times> sshbuf) list \<Rightarrow> sshbuf \<Rightarrow> rc \<times> sshbuf" where
  "put_chain e [] b = (None, b)"
| "put_chain e (f # fs) b = (case f e b of (Some r, b) \<Rightarrow> (Some r, b) | (None, b) \<Rightarrow> put_chain e fs b)"

definition kex_c25519_hash ::
  "('k, 'e, 'z) kex_env \<Rightarrow> digest \<Rightarrow> byte list \<Rightarrow> byte list \<Rightarrow> byte list \<Rightarrow> byte list \<Rightarrow> byte list \<Rightarrow> byte list \<Rightarrow> byte list \<Rightarrow> byte list \<Rightarrow>
   ssh_err + byte list" where
  "kex_c25519_hash K hash_alg cversion sversion ckexinit skexinit blob cpub spub shared_secret =
     (if SSH_DIGEST_MAX_LENGTH < ssh_digest_bytes (ke_build K) hash_alg then Inl SSH_ERR_INVALID_ARGUMENT
      else
        case sshbuf_new (ke_alloc K) of None \<Rightarrow> Inl SSH_ERR_ALLOC_FAIL | Some b \<Rightarrow>
        case put_chain (ke_alloc K) (hash_fields cversion sversion ckexinit skexinit blob cpub spub @ [\<lambda>e b. sshbuf_put e b shared_secret]) b of
          (Some r, b) \<Rightarrow> Inl r
        | (None, b) \<Rightarrow>
            (case ke_digest K hash_alg (ptr_bytes b) of None \<Rightarrow> Inl SSH_ERR_LIBCRYPTO_ERROR
             | Some h \<Rightarrow> Inr (take (ssh_digest_bytes (ke_build K) hash_alg) h)))"

text \<open>The part that both sides end with: the session id of the first exchange is kept, the keys are derived and
  announced.  The digest of a null algorithm is not called, since \<open>kex_choose_conf\<close> has set it.\<close>

definition save_session_id :: "('k, 'e, 'z) kex_env \<Rightarrow> byte list \<Rightarrow> kex \<Rightarrow> rc \<times> kex" where
  "save_session_id K h k =
     (if kx_session_id k \<noteq> [] then (None, k)
      else if \<not> pe_mem (ke_packet K) then (Some SSH_ERR_ALLOC_FAIL, k)
      else (None, k\<lparr>kx_session_id := h\<rparr>))"

definition derive_and_announce :: "('k, 'e, 'z) kex_env \<Rightarrow> digest \<Rightarrow> byte list \<Rightarrow> byte list \<Rightarrow> ('e, 'z) conn \<Rightarrow> ('e, 'z) conn res" where
  "derive_and_announce K alg h secret c =
     (case cn_kex c of None \<Rightarrow> None | Some k \<Rightarrow>
      case kex_derive_keys (ke_digest K alg) (ssh_digest_bytes (ke_build K) alg) (pe_mem (ke_packet K)) h secret k of (r, k) \<Rightarrow>
        then_ok (Some (r, put_kex k c)) (kex_send_newkeys (ke_packet K)))"

definition kexc25519_client :: "('k, 'e, 'z) kex_env \<Rightarrow> ('e, 'z) conn \<Rightarrow> ('e, 'z) conn res" where
  "kexc25519_client K c =
     (case kexc25519_keygen K of (key, pub) \<Rightarrow>
      let c = c\<lparr>cn_c25519_key := key, cn_c25519_pub := pub\<rparr>
      in then_ok (on_ssh (\<lambda>s. then_ok (sshpkt_start (ke_packet K) SSH2_MSG_KEX_ECDH_INIT s) (\<lambda>s.
           then_ok (sshpkt_put_string (ke_packet K) pub s) (sshpkt_send (ke_packet K)))) c) (\<lambda>c.
         Some (None, ssh_dispatch_set SSH2_MSG_KEX_ECDH_REPLY (Some Input_kex_c25519_reply) c)))"

definition kexc25519_server :: "('e, 'z) conn \<Rightarrow> ('e, 'z) conn res" where
  "kexc25519_server c = Some (None, ssh_dispatch_set SSH2_MSG_KEX_ECDH_INIT (Some Input_kex_c25519_init) c)"

text \<open>The private key is cleared on every way out.\<close>

definition clear_key :: "('e, 'z) conn res \<Rightarrow> ('e, 'z) conn res" where
  "clear_key m = map_option (map_prod id (\<lambda>c. c\<lparr>cn_c25519_key := replicate CURVE25519_SIZE 0\<rparr>)) m"

definition reply_keys :: "('k, 'e, 'z) kex_env \<Rightarrow> byte list \<Rightarrow> byte list \<Rightarrow> byte list \<Rightarrow> 'k \<Rightarrow> ('e, 'z) conn \<Rightarrow> ('e, 'z) conn res" where
  "reply_keys K blob server_pubkey signature hostkey c =
     (case cn_kex c of None \<Rightarrow> None | Some k \<Rightarrow>
      if length server_pubkey \<noteq> CURVE25519_SIZE then Some (Some SSH_ERR_SIGNATURE_INVALID, c)
      else case sshbuf_new (ke_alloc K) of None \<Rightarrow> Some (Some SSH_ERR_ALLOC_FAIL, c) | Some shared_secret \<Rightarrow>
      case kexc25519_shared_key K (cn_c25519_key c) server_pubkey shared_secret of
        (Some r, _) \<Rightarrow> Some (Some r, c)
      | (None, shared_secret) \<Rightarrow>
      case kx_hash_alg k of None \<Rightarrow> None | Some alg \<Rightarrow>
      case kex_c25519_hash K alg (cn_client_version c) (cn_server_version c) (ptr_bytes (kx_my k)) (ptr_bytes (kx_peer k)) blob (cn_c25519_pub c)
             server_pubkey (ptr_bytes shared_secret) of
        Inl r \<Rightarrow> Some (Some r, c)
      | Inr h \<Rightarrow>
      case ke_key_verify K hostkey signature h (sh_compat (cn_ssh c)) of
        Some r \<Rightarrow> Some (Some r, c)
      | None \<Rightarrow>
      case save_session_id K h k of (r, k) \<Rightarrow>
        then_ok (Some (r, put_kex k c)) (derive_and_announce K alg h (ptr_bytes shared_secret)))"

definition input_kex_c25519_reply :: "('k, 'e, 'z) kex_env \<Rightarrow> ('e, 'z) conn \<Rightarrow> ('e, 'z) conn res" where
  "input_kex_c25519_reply K c =
     (case cn_kex c of None \<Rightarrow> None | Some k \<Rightarrow>
      clear_key
       (case ke_verify_host_key K of None \<Rightarrow> Some (Some SSH_ERR_INVALID_ARGUMENT, c) | Some verify \<Rightarrow>
        get_then (sshpkt_get_string (ke_packet K)) c (\<lambda>blob c.
        case ke_from_blob K blob of Inl r \<Rightarrow> Some (Some r, c) | Inr hostkey \<Rightarrow>
        if ke_key_type K hostkey \<noteq> kx_hostkey_type k \<or> (kx_hostkey_type k = KEY_ECDSA \<and> ke_key_nid K hostkey \<noteq> kx_hostkey_nid k) then
          Some (Some SSH_ERR_KEY_TYPE_MISMATCH, c)
        else if \<not> verify hostkey then Some (Some SSH_ERR_SIGNATURE_INVALID, c)
        else
          get_then (sshpkt_get_string (ke_packet K)) c (\<lambda>server_pubkey c.
          get_then (sshpkt_get_string (ke_packet K)) c (\<lambda>signature c.
          at_end c (reply_keys K blob server_pubkey signature hostkey))))))"

text \<open>The server's side, with its key pair of this exchange.\<close>

definition send_c25519_reply :: "('e, 'z) packet_env \<Rightarrow> byte list \<Rightarrow> byte list \<Rightarrow> byte list \<Rightarrow> ('e, 'z) ssh \<Rightarrow> ('e, 'z) ssh res" where
  "send_c25519_reply E blob server_pubkey signature s =
     then_ok (sshpkt_start E SSH2_MSG_KEX_ECDH_REPLY s) (\<lambda>s.
     then_ok (sshpkt_put_string E blob s) (\<lambda>s. then_ok (sshpkt_put_string E server_pubkey s) (\<lambda>s.
     then_ok (sshpkt_put_string E signature s) (sshpkt_send E))))"

definition init_keys ::
  "('k, 'e, 'z) kex_env \<Rightarrow> 'k \<Rightarrow> 'k option \<Rightarrow> byte list \<times> byte list \<Rightarrow> byte list \<Rightarrow> ('e, 'z) conn \<Rightarrow> ('e, 'z) conn res" where
  "init_keys K public private server_pair client_pubkey c =
     (case cn_kex c of None \<Rightarrow> None | Some k \<Rightarrow>
      if length client_pubkey \<noteq> CURVE25519_SIZE then Some (Some SSH_ERR_SIGNATURE_INVALID, c)
      else case sshbuf_new (ke_alloc K) of None \<Rightarrow> Some (Some SSH_ERR_ALLOC_FAIL, c) | Some shared_secret \<Rightarrow>
      case kexc25519_shared_key K (fst server_pair) client_pubkey shared_secret of
        (Some r, _) \<Rightarrow> Some (Some r, c)
      | (None, shared_secret) \<Rightarrow>
      case ke_to_blob K public of Inl r \<Rightarrow> Some (Some r, c) | Inr blob \<Rightarrow>
      case kx_hash_alg k of None \<Rightarrow> None | Some alg \<Rightarrow>
      case kex_c25519_hash K alg (cn_client_version c) (cn_server_version c) (ptr_bytes (kx_peer k)) (ptr_bytes (kx_my k)) blob client_pubkey
             (snd server_pair) (ptr_bytes shared_secret) of
        Inl r \<Rightarrow> Some (Some r, c)
      | Inr h \<Rightarrow>
      case save_session_id K h k of (r, k) \<Rightarrow>
      then_ok (Some (r, put_kex k c)) (\<lambda>c.
      case ke_sign K private public h (kx_hostkey_alg k) (sh_compat (cn_ssh c)) of Inl r \<Rightarrow> Some (Some r, c) | Inr signature \<Rightarrow>
      then_ok (on_ssh (send_c25519_reply (ke_packet K) blob (take CURVE25519_SIZE (snd server_pair)) signature) c) (\<lambda>c.
      derive_and_announce K alg h (ptr_bytes shared_secret) c)))"

definition input_kex_c25519_init :: "('k, 'e, 'z) kex_env \<Rightarrow> ('e, 'z) conn \<Rightarrow> ('e, 'z) conn res" where
  "input_kex_c25519_init K c =
     (let server_pair = kexc25519_keygen K
      in case cn_kex c of None \<Rightarrow> None | Some k \<Rightarrow>
      case (ke_load_public K, ke_load_private K) of
        (Some load_public, Some load_private) \<Rightarrow>
          (case load_public (kx_hostkey_type k) (kx_hostkey_nid k) of
             None \<Rightarrow> Some (Some SSH_ERR_NO_HOSTKEY_LOADED, c)
           | Some public \<Rightarrow>
               get_then (sshpkt_get_string (ke_packet K)) c (\<lambda>client_pubkey c.
               at_end c (init_keys K public (load_private (kx_hostkey_type k) (kx_hostkey_nid k)) server_pair client_pubkey)))
      | _ \<Rightarrow> Some (Some SSH_ERR_INVALID_ARGUMENT, c))"

section \<open>The first message\<close>

fun skip_values :: "(('e, 'z) ssh \<Rightarrow> (ssh_err + 'v) \<times> ('e, 'z) ssh) \<Rightarrow> nat \<Rightarrow> ('e, 'z) conn \<Rightarrow> ('e, 'z) conn res" where
  "skip_values g 0 c = Some (None, c)"
| "skip_values g (Suc n) c = get_then g c (\<lambda>_ c. skip_values g n c)"

definition start_method :: "('k, 'e, 'z) kex_env \<Rightarrow> kex_exchange \<Rightarrow> ('e, 'z) conn \<Rightarrow> ('e, 'z) conn res" where
  "start_method K type c =
     (if type = KEX_C25519_SHA256 then
        (case ke_c25519 K of None \<Rightarrow> Some (Some SSH_ERR_INTERNAL_ERROR, c)
         | Some server \<Rightarrow> if server then kexc25519_server c else kexc25519_client K c)
      else case ke_methods K type of None \<Rightarrow> Some (Some SSH_ERR_INTERNAL_ERROR, c) | Some f \<Rightarrow> f c)"

definition conf_and_start :: "('k, 'e, 'z) kex_env \<Rightarrow> ('e, 'z) conn \<Rightarrow> ('e, 'z) conn res" where
  "conf_and_start K c =
     (case cn_kex c of None \<Rightarrow> None | Some k \<Rightarrow>
      case kex_choose_conf (ke_build K) (ke_alloc K) (pe_hmac (ke_packet K)) (sh_compat (cn_ssh c)) (pe_mem (ke_packet K)) k of (r, skip, k) \<Rightarrow>
        then_ok (Some (r, (put_kex k c)\<lparr>cn_skip := (if skip then 1 else cn_skip c)\<rparr>)) (\<lambda>c.
          case kx_type k of None \<Rightarrow> Some (Some SSH_ERR_INTERNAL_ERROR, c) | Some type \<Rightarrow> start_method K type c))"

definition kex_input_kexinit :: "('k, 'e, 'z) kex_env \<Rightarrow> ('e, 'z) conn \<Rightarrow> ('e, 'z) conn res" where
  "kex_input_kexinit K c =
     (case cn_kex c of None \<Rightarrow> Some (Some SSH_ERR_INVALID_ARGUMENT, c) | Some k \<Rightarrow>
      case sshbuf_put (ke_alloc K) (kx_peer k) (sshpkt_ptr (cn_ssh c)) of (r, peer) \<Rightarrow>
      then_ok (Some (r, put_kex (k\<lparr>kx_peer := peer\<rparr>) c)) (\<lambda>c.
      then_ok (skip_values sshpkt_get_u8 KEX_COOKIE_LEN c) (\<lambda>c.
      then_ok (skip_values (sshpkt_get_string (ke_packet K)) PROPOSAL_MAX c) (\<lambda>c.
      get_then sshpkt_get_u8 c (\<lambda>_ c. get_then sshpkt_get_u32 c (\<lambda>_ c. at_end c (\<lambda>c.
      then_ok (if kx_init_sent k then Some (None, c) else on_ssh (kex_send_kexinit (ke_packet K)) c) (conf_and_start K))))))))"

definition zero_kex :: "sshbuf \<Rightarrow> sshbuf \<Rightarrow> kex" where
  "zero_kex my peer = \<lparr>kx_server = False, kx_name = None, kx_hostkey_alg = None, kx_hostkey_type = KEY_UNSPEC, kx_hostkey_nid = NID_0, kx_type = None,
     kx_hash_alg = None, kx_ec_nid = NID_0, kx_in = None, kx_out = None, kx_we_need = 0, kx_dh_need = 0, kx_ext_info_c = False, kx_failed_choice = None,
     kx_my = my, kx_peer = peer, kx_session_id = [], kx_done = False, kx_init_sent = False, kx_rsa_sha2 = 0\<rparr>"

text \<open>On an error \<open>*kexp\<close> is null.\<close>

definition kex_new :: "('e, 'z) packet_env \<Rightarrow> string list \<Rightarrow> ('e, 'z) conn \<Rightarrow> ('e, 'z) conn res" where
  "kex_new E proposal c =
     (let c = c\<lparr>cn_ssh := (cn_ssh c)\<lparr>sh_kex := None\<rparr>\<rparr>
      in if \<not> pe_mem E then Some (Some SSH_ERR_ALLOC_FAIL, c)
         else case (sshbuf_new (pe_alloc E), sshbuf_new (pe_alloc E)) of
           (Some peer, Some my) \<Rightarrow>
             (case kex_prop2buf (pe_alloc E) my proposal of
                (Some r, _) \<Rightarrow> Some (Some r, c)
              | (None, my) \<Rightarrow> Some (None, put_kex (zero_kex my peer) (kex_reset_dispatch c)))
         | _ \<Rightarrow> Some (Some SSH_ERR_ALLOC_FAIL, c))"

definition kex_setup :: "('e, 'z) packet_env \<Rightarrow> string list \<Rightarrow> ('e, 'z) conn \<Rightarrow> ('e, 'z) conn res" where
  "kex_setup E proposal c =
     then_ok (kex_new E proposal c) (\<lambda>c.
       case on_ssh (kex_send_kexinit E) c of
         None \<Rightarrow> None
       | Some (None, c) \<Rightarrow> Some (None, c)
       | Some (Some r, c) \<Rightarrow> Some (Some r, c\<lparr>cn_ssh := (cn_ssh c)\<lparr>sh_kex := None\<rparr>\<rparr>))"

section \<open>Reading and dispatching\<close>

fun read_wait_loop :: "('e, 'z) packet_env \<Rightarrow> read_result list \<Rightarrow> ('e, 'z) ssh \<Rightarrow> (rc \<times> byte \<times> 32 word option \<times> read_result list \<times> ('e, 'z) ssh) option" where
  "read_wait_loop E rs s =
     (case ssh_packet_read_poll_seqnr E s of None \<Rightarrow> None | Some (r, type, q, s) \<Rightarrow>
      if r \<noteq> None \<or> type \<noteq> SSH_MSG_NONE then Some (r, type, q, rs, s)
      else case rs of
        [] \<Rightarrow> None
      | R_timeout # rs \<Rightarrow> Some (Some SSH_ERR_CONN_TIMEOUT, type, q, rs, s)
      | R_closed # rs \<Rightarrow> Some (Some SSH_ERR_CONN_CLOSED, type, q, rs, s)
      | R_failed # rs \<Rightarrow> Some (Some SSH_ERR_SYSTEM_ERROR, type, q, rs, s)
      | R_data buf # rs \<Rightarrow>
          (case ssh_packet_process_incoming E buf s of
             None \<Rightarrow> None
           | Some (Some r, s) \<Rightarrow> Some (Some r, type, q, rs, s)
           | Some (None, s) \<Rightarrow> read_wait_loop E rs s))"

declare read_wait_loop.simps [simp del]

definition ssh_packet_read_seqnr ::
  "('e, 'z) packet_env \<Rightarrow> read_result list \<Rightarrow> ('e, 'z) ssh \<Rightarrow> (rc \<times> byte \<times> 32 word option \<times> read_result list \<times> ('e, 'z) ssh) option" where
  "ssh_packet_read_seqnr E rs s =
     (if \<not> ae_struct (pe_alloc E) then Some (Some SSH_ERR_ALLOC_FAIL, SSH_MSG_NONE, None, rs, s)
      else case ssh_packet_write_wait E s of
        None \<Rightarrow> None
      | Some (Some r, s) \<Rightarrow> Some (Some r, SSH_MSG_NONE, None, rs, s)
      | Some (None, s) \<Rightarrow> read_wait_loop E rs s)"

definition call_handler :: "('k, 'e, 'z) kex_env \<Rightarrow> dispatch_fn \<Rightarrow> byte \<Rightarrow> 32 word \<Rightarrow> ('e, 'z) conn \<Rightarrow> ('e, 'z) conn res" where
  "call_handler K fn type seq c =
     (case fn of
        Kex_protocol_error \<Rightarrow> kex_protocol_error (ke_packet K) seq c
      | Kex_input_kexinit \<Rightarrow> kex_input_kexinit K c
      | Kex_input_newkeys \<Rightarrow> kex_input_newkeys (ke_packet K) c
      | Kex_input_ext_info \<Rightarrow> kex_input_ext_info (ke_packet K) c
      | Input_kex_c25519_init \<Rightarrow> input_kex_c25519_init K c
      | Input_kex_c25519_reply \<Rightarrow> input_kex_c25519_reply K c
      | Dispatch_protocol_error \<Rightarrow> dispatch_protocol_error (ke_packet K) seq c
      | Dispatch_protocol_ignore \<Rightarrow> dispatch_protocol_ignore c
      | Other_handler n \<Rightarrow> ke_handlers K n type seq c)"

datatype dispatch_mode = DISPATCH_BLOCK | DISPATCH_NONBLOCK

definition dispatch_read :: "('k, 'e, 'z) kex_env \<Rightarrow> dispatch_mode \<Rightarrow> ('e, 'z) conn \<Rightarrow> (rc \<times> byte \<times> 32 word option \<times> ('e, 'z) conn) option" where
  "dispatch_read K mode c =
     (case mode of
        DISPATCH_BLOCK \<Rightarrow> map_option (\<lambda>(r, type, q, rs, s). (r, type, q, c\<lparr>cn_ssh := s, cn_reads := rs\<rparr>))
          (ssh_packet_read_seqnr (ke_packet K) (cn_reads c) (cn_ssh c))
      | DISPATCH_NONBLOCK \<Rightarrow> map_option (\<lambda>(r, type, q, s). (r, type, q, c\<lparr>cn_ssh := s\<rparr>)) (ssh_packet_read_poll_seqnr (ke_packet K) (cn_ssh c)))"

text \<open>One packet: whether the loop goes on, and the result so far.\<close>

definition dispatch_one :: "('k, 'e, 'z) kex_env \<Rightarrow> dispatch_mode \<Rightarrow> (('e, 'z) conn \<Rightarrow> bool) \<Rightarrow> ('e, 'z) conn \<Rightarrow> (bool \<times> rc \<times> ('e, 'z) conn) option" where
  "dispatch_one K mode dn c =
     (case dispatch_read K mode c of None \<Rightarrow> None | Some (r, type, q, c) \<Rightarrow>
      if r \<noteq> None then Some (False, r, c)
      else if mode = DISPATCH_NONBLOCK \<and> type = SSH_MSG_NONE then Some (False, None, c)
      else case (if type > 0 \<and> unat type < DISPATCH_MAX then cn_dispatch c (unat type) else None) of
        Some fn \<Rightarrow>
          if cn_skip c \<noteq> 0 then Some (True, None, c\<lparr>cn_skip := cn_skip c - 1\<rparr>)
          else map_option (\<lambda>(r, c). (r = None \<and> \<not> dn c, r, c)) (call_handler K fn type (case q of None \<Rightarrow> 0 | Some n \<Rightarrow> n) c)
      | None \<Rightarrow>
          map_option (\<lambda>(r, c). (False, (case r of None \<Rightarrow> Some SSH_ERR_DISCONNECTED | Some _ \<Rightarrow> r), c))
            (on_ssh (sshpkt_disconnect (ke_packet K) (bytes_of (''protocol error: rcvd type '' @ show_byte type))) c))"

partial_function (option) ssh_dispatch_run ::
  "('k, 'e, 'z) kex_env \<Rightarrow> dispatch_mode \<Rightarrow> (('e, 'z) conn \<Rightarrow> bool) \<Rightarrow> ('e, 'z) conn \<Rightarrow> (rc \<times> ('e, 'z) conn) option" where
  "ssh_dispatch_run K mode dn c =
     Option.bind (dispatch_one K mode dn c) (\<lambda>(more_to_do, r, c). if more_to_do then ssh_dispatch_run K mode dn c else Some (r, c))"

declare ssh_dispatch_run.simps [code]

end
