(* ===== verification/Handshake.thy ===== *)
theory Handshake
  imports Kex_Proto Rekey
begin

unbundle bit_operations_syntax

text \<open>
  What the exchange over Curve25519 of \<open>Kex_Proto\<close> achieves: the hash that the server signs covers the fields of RFC 4253,
  section 8, a client goes on only with a host key that has the negotiated type, was accepted and signed this very
  hash, and both sides of an honest run derive the same keys.
\<close>

section \<open>The exchange hash\<close>

text \<open>The hashed text as the RFC has it: the strings of both versions, both KEXINIT packets, the host key and
  both public keys, and the secret as an mpint.\<close>

definition exchange_transcript ::
  "byte list \<Rightarrow> byte list \<Rightarrow> byte list \<Rightarrow> byte list \<Rightarrow> byte list \<Rightarrow> byte list \<Rightarrow> byte list \<Rightarrow> byte list \<Rightarrow> byte list" where
  "exchange_transcript cversion sversion ckexinit skexinit blob cpub spub secret =
     concat (map string_enc [cversion, sversion, SSH2_MSG_KEXINIT # ckexinit, SSH2_MSG_KEXINIT # skexinit, blob, cpub, spub]) @ secret"

text \<open>A version is a C string: what is hashed ends before the first NUL.\<close>

definition c_str :: "byte list \<Rightarrow> byte list" where "c_str v = takeWhile (\<lambda>c. c \<noteq> 0) v"

definition mpint :: "byte list \<Rightarrow> byte list" where "mpint v = string_enc (bignum2_body v)"

text \<open>A step of the chain is one \<open>sshbuf_put\<close>, but for strings that no buffer can hold.\<close>

definition appends :: "(alloc_env \<Rightarrow> sshbuf \<Rightarrow> rc \<times> sshbuf) \<Rightarrow> byte list \<Rightarrow> bool" where
  "appends f v \<longleftrightarrow> (\<forall>e b. sshbuf_inv b \<longrightarrow> f e b = sshbuf_put e b v \<or> (fst (f e b) \<noteq> None \<and> SSHBUF_SIZE_MAX < length v))"

lemma appends_string: "appends (\<lambda>e b. sshbuf_put_string e b v) (string_enc v)" "appends (\<lambda>e b. sshbuf_put_cstring e b (Some v)) (string_enc (c_str v))"
  by (auto simp: appends_def put_string_eq sshbuf_put_cstring_def c_str_def sshbuf_consts)

lemma appends_put: "appends (\<lambda>e b. sshbuf_put e b v) v" "appends (\<lambda>e b. sshbuf_put_u8 e b x) [x]" "appends (\<lambda>e b. sshbuf_put_u32 e b w) (poke_u32 w)"
  by (simp_all add: appends_def put_u8_eq put_u32_eq)

lemma chain_success:
  assumes "list_all2 appends fs vs" "sshbuf_inv b" "put_chain e fs b = (None, b')"
  shows "sshbuf_inv b' \<and> contents b' = contents b @ concat vs"
  using assms
proof (induction fs vs arbitrary: b rule: list_all2_induct)
  case (Cons f fs v vs)
  from Cons.prems(2) obtain b1 where b1: "f e b = (None, b1)" "put_chain e fs b1 = (None, b')" by (auto split: prod.splits option.splits)
  from Cons.hyps(1) Cons.prems(1) have "f e b = sshbuf_put e b v \<or> fst (f e b) \<noteq> None" unfolding appends_def by blast
  with b1(1) have "sshbuf_put e b v = (None, b1)" by simp
  from put_success [OF Cons.prems(1) this] Cons.IH [OF _ b1(2)] show ?case by simp
qed simp

lemma chain_total:
  assumes "list_all2 appends fs vs" "holds e b bs" "length bs + length (concat vs) \<le> SSHBUF_SIZE_MAX"
  shows "\<exists>b'. put_chain e fs b = (None, b') \<and> holds e b' (bs @ concat vs)"
  using assms
proof (induction fs vs arbitrary: b bs rule: list_all2_induct)
  case (Cons f fs v vs)
  have fit: "length bs + length v \<le> SSHBUF_SIZE_MAX" "length (bs @ v) + length (concat vs) \<le> SSHBUF_SIZE_MAX" using Cons.prems(2) by simp_all
  from holds_put [OF Cons.prems(1) fit(1)] obtain b1 where b1: "sshbuf_put e b v = (None, b1)" "holds e b1 (bs @ v)" by blast
  have "f e b = sshbuf_put e b v \<or> SSHBUF_SIZE_MAX < length v" using Cons.hyps(1) holds_read(3) [OF Cons.prems(1)] unfolding appends_def by blast
  with fit(1) b1(1) have "f e b = (None, b1)" by simp
  with Cons.IH [OF b1(2) fit(2)] show ?case by simp
qed simp

text \<open>The made-up header of length and type makes the stored proposal the string of the whole packet.\<close>

definition hash_parts ::
  "byte list \<Rightarrow> byte list \<Rightarrow> byte list \<Rightarrow> byte list \<Rightarrow> byte list \<Rightarrow> byte list \<Rightarrow> byte list \<Rightarrow> byte list \<Rightarrow> byte list list" where
  "hash_parts cversion sversion ckexinit skexinit blob cpub spub secret =
     [string_enc (c_str cversion), string_enc (c_str sversion), poke_u32 (of_nat (length ckexinit + 1)), [SSH2_MSG_KEXINIT], ckexinit,
      poke_u32 (of_nat (length skexinit + 1)), [SSH2_MSG_KEXINIT], skexinit, string_enc blob, string_enc (take CURVE25519_SIZE cpub),
      string_enc (take CURVE25519_SIZE spub), secret]"

lemma hash_parts_appends:
  "list_all2 appends (hash_fields cversion sversion ckexinit skexinit blob cpub spub @ [\<lambda>e b. sshbuf_put e b secret])
     (hash_parts cversion sversion ckexinit skexinit blob cpub spub secret)"
  unfolding hash_fields_def hash_parts_def by (simp add: appends_string appends_put)

lemma hash_parts_transcript:
  "concat (hash_parts cversion sversion ckexinit skexinit blob cpub spub secret) =
     exchange_transcript (c_str cversion) (c_str sversion) ckexinit skexinit blob (take CURVE25519_SIZE cpub) (take CURVE25519_SIZE spub) secret"
  by (simp add: hash_parts_def exchange_transcript_def string_enc_def)

lemma hash_success:
  assumes "kex_c25519_hash K alg cversion sversion ckexinit skexinit blob cpub spub secret = Inr h"
  shows "\<exists>d. ke_digest K alg (exchange_transcript (c_str cversion) (c_str sversion) ckexinit skexinit blob (take CURVE25519_SIZE cpub) (take CURVE25519_SIZE spub) secret) = Some d \<and>
    h = take (ssh_digest_bytes (ke_build K) alg) d"
proof -
  from assms obtain b b' d where b: "sshbuf_new (ke_alloc K) = Some b"
    "put_chain (ke_alloc K) (hash_fields cversion sversion ckexinit skexinit blob cpub spub @ [\<lambda>e b. sshbuf_put e b secret]) b = (None, b')"
    "ke_digest K alg (ptr_bytes b') = Some d" "h = take (ssh_digest_bytes (ke_build K) alg) d"
    by (auto simp: kex_c25519_hash_def split: if_splits option.splits prod.splits)
  note n = sshbuf_new_inv [OF b(1)]
  from chain_success [OF hash_parts_appends n(1) b(2)] n(2) have "ptr_bytes b' = concat (hash_parts cversion sversion ckexinit skexinit blob cpub spub secret)"
    by simp
  with b(3,4) show ?thesis by (simp only: hash_parts_transcript) blast
qed

lemma digest_bytes_max: "ssh_digest_bytes bl alg \<le> SSH_DIGEST_MAX_LENGTH"
  by (cases alg) (auto simp: ssh_digest_bytes_def ssh_digest_by_alg_def digests_def SSH_DIGEST_MAX_LENGTH_def split: bool.split)

lemma hash_total_run:
  assumes "alloc_total (ke_alloc K)" "hash_total (ke_digest K alg) (ssh_digest_bytes (ke_build K) alg)"
    and "length (exchange_transcript (c_str cversion) (c_str sversion) ckexinit skexinit blob (take CURVE25519_SIZE cpub) (take CURVE25519_SIZE spub) secret) \<le> SSHBUF_SIZE_MAX"
  shows "kex_c25519_hash K alg cversion sversion ckexinit skexinit blob cpub spub secret =
    Inr (the (ke_digest K alg (exchange_transcript (c_str cversion) (c_str sversion) ckexinit skexinit blob (take CURVE25519_SIZE cpub) (take CURVE25519_SIZE spub) secret)))"
proof -
  from holds_new [OF assms(1)] obtain b where b: "sshbuf_new (ke_alloc K) = Some b" "holds (ke_alloc K) b []" by blast
  from chain_total [OF hash_parts_appends b(2), of cversion sversion ckexinit skexinit blob cpub spub secret] assms(3)
  obtain b' where b': "put_chain (ke_alloc K) (hash_fields cversion sversion ckexinit skexinit blob cpub spub @ [\<lambda>e b. sshbuf_put e b secret]) b = (None, b')"
    "ptr_bytes b' = exchange_transcript (c_str cversion) (c_str sversion) ckexinit skexinit blob (take CURVE25519_SIZE cpub) (take CURVE25519_SIZE spub) secret"
    by (auto simp: hash_parts_transcript dest: holds_read(2))
  from hash_totalE [OF assms(2)] obtain d where
    d: "ke_digest K alg (exchange_transcript (c_str cversion) (c_str sversion) ckexinit skexinit blob (take CURVE25519_SIZE cpub) (take CURVE25519_SIZE spub) secret) = Some d"
      "length d = ssh_digest_bytes (ke_build K) alg" .
  with b(1) b' digest_bytes_max show ?thesis by (simp add: kex_c25519_hash_def not_less)
qed

section \<open>What a client has checked\<close>

lemma get_string_taken:
  assumes "sshbuf_inv b" "sshbuf_get_string e b = (Inr v, b')"
  shows "sshbuf_inv b' \<and> contents b = string_enc v @ contents b'"
proof -
  from assms(2) have g: "sshbuf_get_string_direct b = (Inr v, b')" by (auto simp: sshbuf_get_string_def split: sum.splits prod.splits if_splits)
  with get_string_direct_eq [OF assms(1)] have p: "sshbuf_peek_string_direct b = Inr v" "b' = advance b (length v + 4)"
    by (auto split: sum.splits)
  have le: "length v + 4 \<le> length (contents b)" by (rule peek_string_length(1) [OF assms(1) p(1)])
  from peek_string_inv [OF assms(1) p(1)] advance_keeps [OF assms(1) le] p(2) show ?thesis by metis
qed

definition with_in :: "sshbuf \<Rightarrow> ('e, 'z) conn \<Rightarrow> ('e, 'z) conn" where
  "with_in b c = c\<lparr>cn_ssh := (cn_ssh c)\<lparr>ss_incoming_packet := b\<rparr>\<rparr>"

lemma with_in_sel [simp]:
  "ss_incoming_packet (cn_ssh (with_in b c)) = b" "cn_kex (with_in b c) = cn_kex c" "with_in b (with_in b' c) = with_in b c"
  "cn_client_version (with_in b c) = cn_client_version c" "cn_server_version (with_in b c) = cn_server_version c"
  "cn_c25519_key (with_in b c) = cn_c25519_key c" "cn_c25519_pub (with_in b c) = cn_c25519_pub c"
  "sh_compat (cn_ssh (with_in b c)) = sh_compat (cn_ssh c)"
  by (simp_all add: with_in_def cn_kex_def)

lemma get_then_string:
  assumes "sshbuf_inv (ss_incoming_packet (cn_ssh c))" "get_then (sshpkt_get_string E) c k = Some (None, c')"
  obtains v b where "contents (ss_incoming_packet (cn_ssh c)) = string_enc v @ contents b" "sshbuf_inv b" "k v (with_in b c) = Some (None, c')"
proof -
  obtain x b where g: "sshbuf_get_string (pe_alloc E) (ss_incoming_packet (cn_ssh c)) = (x, b)" by fastforce
  with assms(2) obtain v where "x = Inr v" "k v (with_in b c) = Some (None, c')"
    by (cases x) (simp_all add: get_then_def sshpkt_get_string_def get_incoming_def with_in_def)
  with g get_string_taken [OF assms(1)] that show ?thesis by blast
qed

lemma shared_key_eq:
  assumes "sshbuf_new e = Some out" "kexc25519_shared_key K key pub out = (None, out')" "length pub = CURVE25519_SIZE"
  shows "ptr_bytes out' = mpint (ke_scalarmult K key pub) \<and> pub \<noteq> replicate CURVE25519_SIZE 0"
proof -
  note n = sshbuf_new_inv [OF assms(1)]
  have "SSHBUF_SIZE_INIT \<le> sb_max_size out" using assms(1) by (auto simp: sshbuf_new_def Let_def sshbuf_consts split: if_splits)
  note r = reset_inv [OF n(1) this, of "ke_alloc K"] reset_contents [OF n(1), of "ke_alloc K"]
  show ?thesis
    using assms(2,3) r put_success(1,2) [OF r(1)]
    by (auto simp: kexc25519_shared_key_def put_bignum2_eq mpint_def split: if_splits)
qed

text \<open>A session keeps the hash of its first exchange as its identifier.\<close>

definition session_of :: "kex \<Rightarrow> byte list \<Rightarrow> kex" where
  "session_of k h = (if kx_session_id k = [] then k\<lparr>kx_session_id := h\<rparr> else k)"

lemma save_session_ok: "save_session_id K h k = (None, k') \<Longrightarrow> k' = session_of k h"
  by (auto simp: save_session_id_def session_of_def split: if_splits)

definition reply_hash :: "('k, 'e, 'z) kex_env \<Rightarrow> ('e, 'z) conn \<Rightarrow> kex \<Rightarrow> byte list \<Rightarrow> byte list \<Rightarrow> digest \<Rightarrow> byte list option" where
  "reply_hash K c k blob spub alg =
     map_option (take (ssh_digest_bytes (ke_build K) alg)) (ke_digest K alg (exchange_transcript (c_str (cn_client_version c)) (c_str (cn_server_version c))
       (ptr_bytes (kx_my k)) (ptr_bytes (kx_peer k)) blob (take CURVE25519_SIZE (cn_c25519_pub c)) spub (mpint (ke_scalarmult K (cn_c25519_key c) spub))))"

lemma reply_hash_in [simp]: "reply_hash K (with_in b c) = reply_hash K c"
  by (intro ext) (simp add: reply_hash_def)

lemma reply_keys_ok:
  assumes "reply_keys K blob spub sig hostkey c = Some (None, c')" "cn_kex c = Some k"
  obtains alg h k2 where "kx_hash_alg k = Some alg" "reply_hash K c k blob spub alg = Some h" "length spub = CURVE25519_SIZE"
    "spub \<noteq> replicate CURVE25519_SIZE 0" "ke_key_verify K hostkey sig h (sh_compat (cn_ssh c)) = None"
    "kex_derive_keys (ke_digest K alg) (ssh_digest_bytes (ke_build K) alg) (pe_mem (ke_packet K)) h (mpint (ke_scalarmult K (cn_c25519_key c) spub)) (session_of k h) = (None, k2)"
    "kex_send_newkeys (ke_packet K) (put_kex k2 c) = Some (None, c')"
proof -
  from assms obtain b b' alg h k1 where
    len: "length spub = CURVE25519_SIZE" and b: "sshbuf_new (ke_alloc K) = Some b" "kexc25519_shared_key K (cn_c25519_key c) spub b = (None, b')" and
    alg: "kx_hash_alg k = Some alg" and
    h: "kex_c25519_hash K alg (cn_client_version c) (cn_server_version c) (ptr_bytes (kx_my k)) (ptr_bytes (kx_peer k)) blob (cn_c25519_pub c) spub (ptr_bytes b') = Inr h" and
    v: "ke_key_verify K hostkey sig h (sh_compat (cn_ssh c)) = None" and k1: "save_session_id K h k = (None, k1)" and
    d: "derive_and_announce K alg h (ptr_bytes b') (put_kex k1 c) = Some (None, c')"
    by (auto simp: reply_keys_def then_ok_def split: if_splits option.splits prod.splits sum.splits)
  note sec = shared_key_eq [OF b len]
  have hash: "reply_hash K c k blob spub alg = Some h"
    using hash_success [OF h] sec len by (auto simp: reply_hash_def)
  have k: "k1 = session_of k h" "cn_kex (put_kex k1 c) = Some k1" "put_kex k2 (put_kex k1 c) = put_kex k2 c" for k2
    using save_session_ok [OF k1] by (simp_all add: cn_kex_def put_kex_def)
  from d obtain k2 where "kex_derive_keys (ke_digest K alg) (ssh_digest_bytes (ke_build K) alg) (pe_mem (ke_packet K)) h (ptr_bytes b') k1 = (None, k2)"
    "kex_send_newkeys (ke_packet K) (put_kex k2 c) = Some (None, c')"
    by (auto simp: derive_and_announce_def k(2,3) then_ok_def split: option.splits prod.splits)
  with that [OF alg hash len _ v] sec k(1) show ?thesis by simp
qed

text \<open>The host key of a reply: it decodes, has the type (and for ECDSA the curve) that was negotiated, and the client's
  callback accepts it.\<close>

definition hostkey_accepted :: "('k, 'e, 'z) kex_env \<Rightarrow> kex \<Rightarrow> byte list \<Rightarrow> 'k \<Rightarrow> bool" where
  "hostkey_accepted K k blob hostkey \<longleftrightarrow> ke_from_blob K blob = Inr hostkey \<and> ke_key_type K hostkey = kx_hostkey_type k \<and>
     (kx_hostkey_type k = KEY_ECDSA \<longrightarrow> ke_key_nid K hostkey = kx_hostkey_nid k) \<and> (\<exists>verify. ke_verify_host_key K = Some verify \<and> verify hostkey)"

lemma reply_checked:
  assumes "cn_kex c = Some k" "sshbuf_inv (ss_incoming_packet (cn_ssh c))" "input_kex_c25519_reply K c = Some (None, c')"
  obtains blob hostkey spub sig b c2 where "contents (ss_incoming_packet (cn_ssh c)) = string_enc blob @ string_enc spub @ string_enc sig"
    "hostkey_accepted K k blob hostkey" "reply_keys K blob spub sig hostkey (with_in b c) = Some (None, c2)"
    "c' = c2\<lparr>cn_c25519_key := replicate CURVE25519_SIZE 0\<rparr>"
proof -
  from assms(1,3) obtain verify c2 where v: "ke_verify_host_key K = Some verify" "c' = c2\<lparr>cn_c25519_key := replicate CURVE25519_SIZE 0\<rparr>" and
    g: "get_then (sshpkt_get_string (ke_packet K)) c (\<lambda>blob c.
        case ke_from_blob K blob of Inl r \<Rightarrow> Some (Some r, c) | Inr hostkey \<Rightarrow>
        if ke_key_type K hostkey \<noteq> kx_hostkey_type k \<or> (kx_hostkey_type k = KEY_ECDSA \<and> ke_key_nid K hostkey \<noteq> kx_hostkey_nid k) then
          Some (Some SSH_ERR_KEY_TYPE_MISMATCH, c)
        else if \<not> verify hostkey then Some (Some SSH_ERR_SIGNATURE_INVALID, c)
        else
          get_then (sshpkt_get_string (ke_packet K)) c (\<lambda>server_pubkey c.
          get_then (sshpkt_get_string (ke_packet K)) c (\<lambda>signature c.
          at_end c (reply_keys K blob server_pubkey signature hostkey)))) = Some (None, c2)"
    by (auto simp: input_kex_c25519_reply_def clear_key_def split: option.splits)
  from get_then_string [OF assms(2) g] obtain blob b1 where
    b1: "contents (ss_incoming_packet (cn_ssh c)) = string_enc blob @ contents b1" "sshbuf_inv b1" and
    g1: "(case ke_from_blob K blob of Inl r \<Rightarrow> Some (Some r, with_in b1 c) | Inr hostkey \<Rightarrow>
        if ke_key_type K hostkey \<noteq> kx_hostkey_type k \<or> (kx_hostkey_type k = KEY_ECDSA \<and> ke_key_nid K hostkey \<noteq> kx_hostkey_nid k) then
          Some (Some SSH_ERR_KEY_TYPE_MISMATCH, with_in b1 c)
        else if \<not> verify hostkey then Some (Some SSH_ERR_SIGNATURE_INVALID, with_in b1 c)
        else
          get_then (sshpkt_get_string (ke_packet K)) (with_in b1 c) (\<lambda>server_pubkey c.
          get_then (sshpkt_get_string (ke_packet K)) c (\<lambda>signature c.
          at_end c (reply_keys K blob server_pubkey signature hostkey)))) = Some (None, c2)" by blast
  from g1 v(1) obtain hostkey where hk: "hostkey_accepted K k blob hostkey" and
    g2: "get_then (sshpkt_get_string (ke_packet K)) (with_in b1 c) (\<lambda>server_pubkey c.
          get_then (sshpkt_get_string (ke_packet K)) c (\<lambda>signature c.
          at_end c (reply_keys K blob server_pubkey signature hostkey))) = Some (None, c2)"
    by (auto simp: hostkey_accepted_def split: sum.splits if_splits)
  have i1: "sshbuf_inv (ss_incoming_packet (cn_ssh (with_in b1 c)))" using b1(2) by simp
  from get_then_string [OF i1 g2] obtain spub b2 where
    b2: "contents b1 = string_enc spub @ contents b2" "sshbuf_inv b2" and
    g3: "get_then (sshpkt_get_string (ke_packet K)) (with_in b2 c) (\<lambda>signature c.
          at_end c (reply_keys K blob spub signature hostkey)) = Some (None, c2)" by auto
  have i2: "sshbuf_inv (ss_incoming_packet (cn_ssh (with_in b2 c)))" using b2(2) by simp
  from get_then_string [OF i2 g3] obtain sig b3 where
    b3: "contents b2 = string_enc sig @ contents b3" "sshbuf_inv b3" and
    g4: "at_end (with_in b3 c) (reply_keys K blob spub sig hostkey) = Some (None, c2)" by auto
  from g4 b3(2) have "contents b3 = []" "reply_keys K blob spub sig hostkey (with_in b3 c) = Some (None, c2)"
    by (auto simp: at_end_def sshpkt_get_end_def sshbuf_len_contents split: option.splits if_splits)
  with that [OF _ hk _ v(2)] b1(1) b2(1) b3(1) show ?thesis by simp
qed

text \<open>C3: when \<open>input_kex_c25519_reply\<close> of a client succeeds, the packet was exactly the strings of a host key, a public key and a
  signature; the key is of the negotiated type and was accepted; the public key has 32 bytes that are not all zero;
  the signature is right for the digest of both versions, both KEXINIT packets, the host key, both public keys and
  the secret; the new keys are derived from that digest and announced only then, the session keeps the digest of
  its first exchange as its identifier, and the private key is cleared.\<close>

theorem client_authenticates_server:
  assumes "cn_kex c = Some k" "sshbuf_inv (ss_incoming_packet (cn_ssh c))" "input_kex_c25519_reply K c = Some (None, c')"
  shows "\<exists>blob hostkey spub sig alg h k2 b c2.
    contents (ss_incoming_packet (cn_ssh c)) = string_enc blob @ string_enc spub @ string_enc sig \<and>
    hostkey_accepted K k blob hostkey \<and> length spub = CURVE25519_SIZE \<and> spub \<noteq> replicate CURVE25519_SIZE 0 \<and>
    kx_hash_alg k = Some alg \<and> reply_hash K c k blob spub alg = Some h \<and> ke_key_verify K hostkey sig h (sh_compat (cn_ssh c)) = None \<and>
    kex_derive_keys (ke_digest K alg) (ssh_digest_bytes (ke_build K) alg) (pe_mem (ke_packet K)) h (mpint (ke_scalarmult K (cn_c25519_key c) spub))
      (session_of k h) = (None, k2) \<and>
    kex_send_newkeys (ke_packet K) (put_kex k2 (with_in b c)) = Some (None, c2) \<and> c' = c2\<lparr>cn_c25519_key := replicate CURVE25519_SIZE 0\<rparr>"
proof -
  from reply_checked [OF assms] obtain blob hostkey spub sig b c2 where
    r: "contents (ss_incoming_packet (cn_ssh c)) = string_enc blob @ string_enc spub @ string_enc sig" "hostkey_accepted K k blob hostkey"
      "reply_keys K blob spub sig hostkey (with_in b c) = Some (None, c2)" "c' = c2\<lparr>cn_c25519_key := replicate CURVE25519_SIZE 0\<rparr>" .
  have "cn_kex (with_in b c) = Some k" using assms(1) by simp
  from reply_keys_ok [OF r(3) this] obtain alg h k2 where
    "kx_hash_alg k = Some alg" "reply_hash K c k blob spub alg = Some h" "length spub = CURVE25519_SIZE"
    "spub \<noteq> replicate CURVE25519_SIZE 0" "ke_key_verify K hostkey sig h (sh_compat (cn_ssh c)) = None"
    "kex_derive_keys (ke_digest K alg) (ssh_digest_bytes (ke_build K) alg) (pe_mem (ke_packet K)) h (mpint (ke_scalarmult K (cn_c25519_key c) spub)) (session_of k h) = (None, k2)"
    "kex_send_newkeys (ke_packet K) (put_kex k2 (with_in b c)) = Some (None, c2)" unfolding with_in_sel reply_hash_in by blast
  with r(1,2,4) show ?thesis by blast
qed

section \<open>An honest run\<close>

text \<open>Diffie and Hellman: both orders of multiplication give the same point.\<close>

definition curve_laws :: "(byte list \<Rightarrow> byte list \<Rightarrow> byte list) \<Rightarrow> bool" where
  "curve_laws mult \<longleftrightarrow> (\<forall>a b. length a = CURVE25519_SIZE \<and> length b = CURVE25519_SIZE \<longrightarrow>
     length (mult a b) = CURVE25519_SIZE \<and> mult a (mult b basepoint) = mult b (mult a basepoint))"

text \<open>Two programs with the same algorithms and enough memory.\<close>

definition same_primitives :: "('k, 'e, 'z) kex_env \<Rightarrow> ('k, 'e, 'z) kex_env \<Rightarrow> bool" where
  "same_primitives Kc Ks \<longleftrightarrow> ke_build Kc = ke_build Ks \<and> ke_digest Kc = ke_digest Ks \<and> ke_scalarmult Kc = ke_scalarmult Ks \<and>
     alloc_total (ke_alloc Kc) \<and> alloc_total (ke_alloc Ks) \<and> pe_mem (ke_packet Kc) \<and> pe_mem (ke_packet Ks) \<and> curve_laws (ke_scalarmult Ks) \<and>
     CURVE25519_SIZE \<le> length (ke_random Kc) \<and> CURVE25519_SIZE \<le> length (ke_random Ks)"

text \<open>The server's host key: its signatures verify with the key that the client decodes.\<close>

definition host_signs ::
  "('k, 'e, 'z) kex_env \<Rightarrow> ('k, 'e, 'z) kex_env \<Rightarrow> 'k \<Rightarrow> 'k option \<Rightarrow> byte list \<Rightarrow> 'k \<Rightarrow> string option \<Rightarrow> 32 word \<Rightarrow> 32 word \<Rightarrow> bool" where
  "host_signs Kc Ks public private blob hostkey name cbugs sbugs \<longleftrightarrow> ke_to_blob Ks public = Inr blob \<and>
     (\<forall>h. \<exists>sig. ke_sign Ks private public h name sbugs = Inr sig \<and> ke_key_verify Kc hostkey sig h cbugs = None)"

text \<open>The two connections after both KEXINIT packets: what one side sent the other has received.\<close>

definition mirrored :: "('e, 'z) conn \<Rightarrow> kex \<Rightarrow> ('e, 'z) conn \<Rightarrow> kex \<Rightarrow> bool" where
  "mirrored c kc s ks \<longleftrightarrow> cn_kex c = Some kc \<and> cn_kex s = Some ks \<and> cn_client_version c = cn_client_version s \<and> cn_server_version c = cn_server_version s \<and>
     ptr_bytes (kx_my kc) = ptr_bytes (kx_peer ks) \<and> ptr_bytes (kx_peer kc) = ptr_bytes (kx_my ks) \<and> kx_session_id kc = kx_session_id ks"

lemma length_bignum2_body: "length (bignum2_body v) \<le> length v + 1"
  using length_dropWhile_le [of "\<lambda>c. c = 0" v] by (simp add: bignum2_body_def Let_def)

lemma shared_key_total:
  assumes "alloc_total (ke_alloc K)" "length pub = CURVE25519_SIZE" "pub \<noteq> replicate CURVE25519_SIZE 0"
    "length (ke_scalarmult K key pub) = CURVE25519_SIZE"
  shows "\<exists>b b'. sshbuf_new (ke_alloc K) = Some b \<and> kexc25519_shared_key K key pub b = (None, b') \<and> ptr_bytes b' = mpint (ke_scalarmult K key pub)"
proof -
  from holds_new [OF assms(1)] obtain b where b: "sshbuf_new (ke_alloc K) = Some b" "holds (ke_alloc K) b []" by blast
  note r = holds_reset [OF b(2)]
  have "length (mpint (ke_scalarmult K key pub)) \<le> CURVE25519_SIZE + 5"
    using length_bignum2_body [of "ke_scalarmult K key pub"] assms(4) by (simp add: mpint_def)
  with holds_put [OF r, of "mpint (ke_scalarmult K key pub)"] obtain b' where
    b': "sshbuf_put (ke_alloc K) (sshbuf_reset (ke_alloc K) b) (mpint (ke_scalarmult K key pub)) = (None, b')" "holds (ke_alloc K) b' (mpint (ke_scalarmult K key pub))"
    by (auto simp: CURVE25519_SIZE_def sshbuf_consts)
  have "kexc25519_shared_key K key pub b = (None, b')"
    using assms(2-4) b'(1) holds_read(3) [OF r]
    by (simp add: kexc25519_shared_key_def put_bignum2_eq mpint_def CURVE25519_SIZE_def sshbuf_consts)
  with b(1) holds_read(2) [OF b'(2)] show ?thesis by blast
qed

lemma save_session_total: "pe_mem (ke_packet K) \<Longrightarrow> save_session_id K h k = (None, session_of k h)"
  by (simp add: save_session_id_def session_of_def)

lemma session_of_sel [simp]:
  "kx_hostkey_alg (session_of k h) = kx_hostkey_alg k" "kx_server (session_of k h) = kx_server k"
  "kex_agrees bl (session_of k h) ag = kex_agrees bl k ag"
  by (simp_all add: session_of_def kex_agrees_def)

lemma put_kex_sel [simp]: "cn_kex (put_kex k c) = Some k" "put_kex k (put_kex k' c) = put_kex k c" "sh_compat (cn_ssh (put_kex k c)) = sh_compat (cn_ssh c)"
  by (simp_all add: put_kex_def cn_kex_def)

lemma init_keys_run:
  assumes env: "alloc_total (ke_alloc K)" "pe_mem (ke_packet K)" "hash_total (ke_digest K alg) (ssh_digest_bytes (ke_build K) alg)"
    and st: "cn_kex s = Some k" "kx_hash_alg k = Some alg" "ke_to_blob K public = Inr blob"
    and pub: "length cpub = CURVE25519_SIZE" "cpub \<noteq> replicate CURVE25519_SIZE 0" "length spub = CURVE25519_SIZE"
    and sec: "length (ke_scalarmult K key cpub) = CURVE25519_SIZE" "secret = mpint (ke_scalarmult K key cpub)"
    and tr: "tr = exchange_transcript (c_str (cn_client_version s)) (c_str (cn_server_version s)) (ptr_bytes (kx_peer k)) (ptr_bytes (kx_my k)) blob cpub spub secret"
      "length tr \<le> SSHBUF_SIZE_MAX" "h = the (ke_digest K alg tr)"
    and sign: "ke_sign K private public h (kx_hostkey_alg k) (sh_compat (cn_ssh s)) = Inr sig"
  shows "init_keys K public private (key, spub) cpub s =
    then_ok (on_ssh (send_c25519_reply (ke_packet K) blob spub sig) (put_kex (session_of k h) s)) (derive_and_announce K alg h secret)"
proof -
  from shared_key_total [OF env(1) pub(1,2) sec(1)] obtain b b' where
    b: "sshbuf_new (ke_alloc K) = Some b" "kexc25519_shared_key K key cpub b = (None, b')" "ptr_bytes b' = secret" using sec(2) by blast
  have "kex_c25519_hash K alg (cn_client_version s) (cn_server_version s) (ptr_bytes (kx_peer k)) (ptr_bytes (kx_my k)) blob cpub spub secret = Inr h"
    using hash_total_run [OF env(1,3), of "cn_client_version s" "cn_server_version s" "ptr_bytes (kx_peer k)" "ptr_bytes (kx_my k)" blob cpub spub secret] pub tr by simp
  with b st pub sign save_session_total [OF env(2), of h k] show ?thesis by (simp add: init_keys_def)
qed

lemma reply_keys_run:
  assumes env: "alloc_total (ke_alloc K)" "pe_mem (ke_packet K)" "hash_total (ke_digest K alg) (ssh_digest_bytes (ke_build K) alg)"
    and st: "cn_kex c = Some k" "kx_hash_alg k = Some alg"
    and pub: "length spub = CURVE25519_SIZE" "spub \<noteq> replicate CURVE25519_SIZE 0" "length (cn_c25519_pub c) = CURVE25519_SIZE"
    and sec: "length (ke_scalarmult K (cn_c25519_key c) spub) = CURVE25519_SIZE" "secret = mpint (ke_scalarmult K (cn_c25519_key c) spub)"
    and tr: "tr = exchange_transcript (c_str (cn_client_version c)) (c_str (cn_server_version c)) (ptr_bytes (kx_my k)) (ptr_bytes (kx_peer k)) blob (cn_c25519_pub c) spub secret"
      "length tr \<le> SSHBUF_SIZE_MAX" "h = the (ke_digest K alg tr)"
    and verify: "ke_key_verify K hostkey sig h (sh_compat (cn_ssh c)) = None"
  shows "reply_keys K blob spub sig hostkey c = derive_and_announce K alg h secret (put_kex (session_of k h) c)"
proof -
  from shared_key_total [OF env(1) pub(1,2) sec(1)] obtain b b' where
    b: "sshbuf_new (ke_alloc K) = Some b" "kexc25519_shared_key K (cn_c25519_key c) spub b = (None, b')" "ptr_bytes b' = secret" using sec(2) by blast
  have "kex_c25519_hash K alg (cn_client_version c) (cn_server_version c) (ptr_bytes (kx_my k)) (ptr_bytes (kx_peer k)) blob (cn_c25519_pub c) spub secret = Inr h"
    using hash_total_run [OF env(1,3), of "cn_client_version c" "cn_server_version c" "ptr_bytes (kx_my k)" "ptr_bytes (kx_peer k)" blob "cn_c25519_pub c" spub secret] pub tr by simp
  with b st pub verify save_session_total [OF env(2), of h k] show ?thesis by (simp add: reply_keys_def)
qed

lemma keygen_lengths:
  assumes "curve_laws (ke_scalarmult K)" "CURVE25519_SIZE \<le> length (ke_random K)" "kexc25519_keygen K = (key, pub)"
  shows "length key = CURVE25519_SIZE" "length pub = CURVE25519_SIZE" "pub = ke_scalarmult K key basepoint"
proof -
  have "length basepoint = CURVE25519_SIZE" by (simp add: basepoint_def CURVE25519_SIZE_def)
  with assms show "length key = CURVE25519_SIZE" "length pub = CURVE25519_SIZE" "pub = ke_scalarmult K key basepoint"
    by (auto simp: kexc25519_keygen_def curve_laws_def)
qed

lemma derive_keeps_session: "kex_derive_keys hash mdsz mem h secret k = (r, k') \<Longrightarrow> kx_session_id k' = kx_session_id k"
  by (auto simp: kex_derive_keys_def split: sum.splits)

lemma transcript_length:
  assumes "length cversion + length sversion + length sinit + length cinit + length blob \<le> PACKET_MAX_SIZE"
    and "length cpub = CURVE25519_SIZE" "length spub = CURVE25519_SIZE" "length sec = CURVE25519_SIZE"
  shows "length (exchange_transcript (c_str cversion) (c_str sversion) cinit sinit blob cpub spub (mpint sec)) \<le> SSHBUF_SIZE_MAX"
proof -
  have "length (c_str cversion) \<le> length cversion" "length (c_str sversion) \<le> length sversion" by (simp_all add: c_str_def length_takeWhile_le)
  with assms length_bignum2_body [of sec] show ?thesis
    by (simp add: exchange_transcript_def mpint_def PACKET_MAX_SIZE_def CURVE25519_SIZE_def sshbuf_consts)
qed

text \<open>After the packets are read: both sides come to the same secret and hash.\<close>

lemma keys_agree_run:
  assumes prim: "same_primitives Kc Ks" and mir: "mirrored c kc s ks"
    and neg: "negotiate (ke_build Ks) hmac bugs cprop sprop = Some ag" "kex_agrees (ke_build Ks) kc ag" "\<not> kx_server kc" "kex_agrees (ke_build Ks) ks ag" "kx_server ks"
    and hash: "alg = ka_hash_alg (ag_alg ag)" "hash_total (ke_digest Ks alg) (ssh_digest_bytes (ke_build Ks) alg)"
    and gen: "kexc25519_keygen Kc = (cn_c25519_key c, cn_c25519_pub c)" "kexc25519_keygen Ks = (key, spub)"
    and nz: "cn_c25519_pub c \<noteq> replicate CURVE25519_SIZE 0" "spub \<noteq> replicate CURVE25519_SIZE 0"
    and host: "host_signs Kc Ks public private blob hostkey (Some (ag_hostkey ag)) (sh_compat (cn_ssh c)) (sh_compat (cn_ssh s))"
    and size: "length (cn_client_version s) + length (cn_server_version s) + length (ptr_bytes (kx_my ks)) + length (ptr_bytes (kx_peer ks)) + length blob \<le> PACKET_MAX_SIZE"
  obtains h secret sig kc2 ks2 where
    "\<And>b. init_keys Ks public private (key, spub) (cn_c25519_pub c) (with_in b s) =
      then_ok (on_ssh (send_c25519_reply (ke_packet Ks) blob spub sig) (put_kex (session_of ks h) (with_in b s))) (derive_and_announce Ks alg h secret)"
    "\<And>b. reply_keys Kc blob spub sig hostkey (with_in b c) = kex_send_newkeys (ke_packet Kc) (put_kex kc2 (with_in b c))"
    "\<And>x. cn_kex x = Some (session_of ks h) \<Longrightarrow> derive_and_announce Ks alg h secret x = kex_send_newkeys (ke_packet Ks) (put_kex ks2 x)"
    "kx_out kc2 = kx_in ks2" "kx_in kc2 = kx_out ks2" "kx_session_id kc2 = kx_session_id ks2"
    "\<forall>d \<in> {kx_in kc2, kx_out kc2}. \<exists>nk enc. d = Some nk \<and> nk_enc nk = Some enc \<and> keys_sufficient enc (nk_mac nk)"
proof -
  from prim have env: "ke_build Kc = ke_build Ks" "ke_digest Kc = ke_digest Ks" "ke_scalarmult Kc = ke_scalarmult Ks" "alloc_total (ke_alloc Kc)"
    "alloc_total (ke_alloc Ks)" "pe_mem (ke_packet Kc)" "pe_mem (ke_packet Ks)" "curve_laws (ke_scalarmult Ks)"
    "CURVE25519_SIZE \<le> length (ke_random Kc)" "CURVE25519_SIZE \<le> length (ke_random Ks)" by (simp_all add: same_primitives_def)
  from mir have m: "cn_kex c = Some kc" "cn_kex s = Some ks" "cn_client_version c = cn_client_version s" "cn_server_version c = cn_server_version s"
    "ptr_bytes (kx_my kc) = ptr_bytes (kx_peer ks)" "ptr_bytes (kx_peer kc) = ptr_bytes (kx_my ks)" "kx_session_id kc = kx_session_id ks" by (simp_all add: mirrored_def)
  from neg(2,4) hash(1) have alg: "kx_hash_alg kc = Some alg" "kx_hash_alg ks = Some alg" "kx_hostkey_alg ks = Some (ag_hostkey ag)" by (simp_all add: kex_agrees_def)
  note g = keygen_lengths [OF _ env(9) gen(1), unfolded env(3), OF env(8)] keygen_lengths [OF env(8,10) gen(2)]
  define sec where "sec = ke_scalarmult Ks key (cn_c25519_pub c)"
  have sec: "ke_scalarmult Ks (cn_c25519_key c) spub = sec" "length sec = CURVE25519_SIZE"
    using env(8) g unfolding sec_def curve_laws_def by metis+
  define tr where "tr = exchange_transcript (c_str (cn_client_version s)) (c_str (cn_server_version s)) (ptr_bytes (kx_peer ks)) (ptr_bytes (kx_my ks)) blob (cn_c25519_pub c) spub (mpint sec)"
  define h where "h = the (ke_digest Ks alg tr)"
  have tr: "length tr \<le> SSHBUF_SIZE_MAX" unfolding tr_def by (rule transcript_length [OF size g(2,5) sec(2)])
  from host obtain sig where sig: "ke_to_blob Ks public = Inr blob" "ke_sign Ks private public h (Some (ag_hostkey ag)) (sh_compat (cn_ssh s)) = Inr sig"
    "ke_key_verify Kc hostkey sig h (sh_compat (cn_ssh c)) = None" unfolding host_signs_def by blast
  have i: "init_keys Ks public private (key, spub) (cn_c25519_pub c) (with_in b s) =
      then_ok (on_ssh (send_c25519_reply (ke_packet Ks) blob spub sig) (put_kex (session_of ks h) (with_in b s))) (derive_and_announce Ks alg h (mpint sec))" for b
    by (rule init_keys_run [OF env(5,7) hash(2) _ alg(2) sig(1) g(2) nz(1) g(5) sec(2) [unfolded sec_def] _ _ tr h_def])
      (simp_all add: sec_def alg(3) sig(2) m(2) tr_def)
  have r: "reply_keys Kc blob spub sig hostkey (with_in b c) = derive_and_announce Kc alg h (mpint sec) (put_kex (session_of kc h) (with_in b c))" for b
    by (rule reply_keys_run [OF env(4,6) _ _ alg(1) g(5) nz(2) _ _ _ _ tr])
      (simp_all add: env hash(2) sec tr_def m h_def g(2) sig(3) [unfolded h_def tr_def])
  have sid: "kx_session_id (session_of kc h) = kx_session_id (session_of ks h)" using m(7) by (simp add: session_of_def)
  have a: "kex_agrees (ke_build Ks) (session_of kc h) ag" "\<not> kx_server (session_of kc h)" "kex_agrees (ke_build Ks) (session_of ks h) ag" "kx_server (session_of ks h)"
    using neg by simp_all
  from derive_agreed [OF neg(1) a sid hash(2), of h "mpint sec"] obtain kc2 ks2 where
    k: "kex_derive_keys (ke_digest Ks alg) (ssh_digest_bytes (ke_build Ks) alg) True h (mpint sec) (session_of kc h) = (None, kc2)"
      "kex_derive_keys (ke_digest Ks alg) (ssh_digest_bytes (ke_build Ks) alg) True h (mpint sec) (session_of ks h) = (None, ks2)"
      "kx_out kc2 = kx_in ks2" "kx_in kc2 = kx_out ks2"
      "\<forall>d \<in> {kx_in kc2, kx_out kc2}. \<exists>nk enc. d = Some nk \<and> nk_enc nk = Some enc \<and> keys_sufficient enc (nk_mac nk)" by blast
  have dc: "derive_and_announce Kc alg h (mpint sec) (put_kex (session_of kc h) x) = kex_send_newkeys (ke_packet Kc) (put_kex kc2 x)" for x
    using k(1) env by (simp add: derive_and_announce_def)
  have ds: "derive_and_announce Ks alg h (mpint sec) x = kex_send_newkeys (ke_packet Ks) (put_kex ks2 x)" if "cn_kex x = Some (session_of ks h)" for x
    using k(2) env that by (simp add: derive_and_announce_def)
  have sid2: "kx_session_id kc2 = kx_session_id ks2" using derive_keeps_session [OF k(1)] derive_keeps_session [OF k(2)] sid by simp
  from r have r2: "reply_keys Kc blob spub sig hostkey (with_in b c) = kex_send_newkeys (ke_packet Kc) (put_kex kc2 (with_in b c))" for b
    by (simp only: dc)
  show ?thesis by (rule that [OF i r2 ds k(3,4) sid2 k(5)])
qed

lemma get_then_run:
  assumes "holds (pe_alloc E) (ss_incoming_packet (cn_ssh c)) (string_enc v @ rest)"
  obtains b where "\<And>k. get_then (sshpkt_get_string E) c k = k v (with_in b c)" "holds (pe_alloc E) b rest"
proof -
  let ?b = "ss_incoming_packet (cn_ssh c)"
  note r = holds_read [OF assms]
  have co: "contents ?b = string_enc v @ rest" "sb_max_size ?b = SSHBUF_SIZE_MAX" using assms by (simp_all add: holds_def)
  have v: "length v \<le> SSHBUF_SIZE_MAX - 4" using contents_bound [OF r(3)] co by simp
  note p = peek_string_enc [OF r(3) co(1) v]
  have "sshbuf_get_string (pe_alloc E) ?b = (Inr v, advance ?b (length v + 4))"
    using get_string_eq [OF r(3,5)] get_string_direct_eq [OF r(3)] p by simp
  moreover have "holds (pe_alloc E) (advance ?b (length v + 4)) rest"
    using advance_keeps [OF r(3), of "length v + 4"] co holds_frame [OF assms] by simp
  ultimately show ?thesis by (intro that [of "advance ?b (length v + 4)"]) (simp_all add: get_then_def sshpkt_get_string_def get_incoming_def with_in_def)
qed

lemma at_end_run: "holds e (ss_incoming_packet (cn_ssh c)) [] \<Longrightarrow> at_end c k = k c"
  using holds_read(1) [of e "ss_incoming_packet (cn_ssh c)" "[]"] by (simp add: at_end_def sshpkt_get_end_def)

lemma input_init_run:
  assumes "cn_kex s = Some k" "ke_load_public K = Some lp" "ke_load_private K = Some lq" "lp (kx_hostkey_type k) (kx_hostkey_nid k) = Some public"
    "holds (ke_alloc K) (ss_incoming_packet (cn_ssh s)) (string_enc cpub)"
  shows "\<exists>b. input_kex_c25519_init K s = init_keys K public (lq (kx_hostkey_type k) (kx_hostkey_nid k)) (kexc25519_keygen K) cpub (with_in b s)"
proof -
  from get_then_run [of "ke_packet K" s cpub "[]"] assms(5) obtain b where
    b: "\<And>f. get_then (sshpkt_get_string (ke_packet K)) s f = f cpub (with_in b s)" "holds (ke_alloc K) b []" by auto
  have "at_end (with_in b s) f = f (with_in b s)" for f using b(2) by (simp add: at_end_run)
  with b(1) assms(1-4) show ?thesis by (auto simp: input_kex_c25519_init_def Let_def)
qed

lemma input_reply_run:
  assumes "cn_kex c = Some k" "hostkey_accepted K k blob hostkey"
    "holds (ke_alloc K) (ss_incoming_packet (cn_ssh c)) (string_enc blob @ string_enc spub @ string_enc sig)"
  shows "\<exists>b. input_kex_c25519_reply K c = clear_key (reply_keys K blob spub sig hostkey (with_in b c))"
proof -
  let ?get = "\<lambda>c f. get_then (sshpkt_get_string (ke_packet K)) c f"
  from get_then_run [OF assms(3)] obtain b1 where b1: "\<And>f. ?get c f = f blob (with_in b1 c)" "holds (ke_alloc K) b1 (string_enc spub @ string_enc sig)" by blast
  from get_then_run [of "ke_packet K" "with_in b1 c" spub "string_enc sig"] b1(2) obtain b2 where
    b2: "\<And>f. ?get (with_in b1 c) f = f spub (with_in b2 c)" "holds (ke_alloc K) b2 (string_enc sig)" by auto
  from get_then_run [of "ke_packet K" "with_in b2 c" sig "[]"] b2(2) obtain b3 where
    b3: "\<And>f. ?get (with_in b2 c) f = f sig (with_in b3 c)" "holds (ke_alloc K) b3 []" by auto
  have "at_end (with_in b3 c) f = f (with_in b3 c)" for f using b3(2) by (simp add: at_end_run)
  with b1(1) b2(1) b3(1) assms(1,2) show ?thesis by (auto simp: input_kex_c25519_reply_def hostkey_accepted_def)
qed

text \<open>C4: in an honest run over Curve25519 the server answers a client's public key with its host key, its own public key and
  a signature, and a client that is given exactly these three accepts them; both then derive their keys from the
  same secret, hash and session id, so that each direction has the same keys at both ends, long enough for their
  algorithms, and announce them.\<close>

theorem exchange_agrees:
  assumes prim: "same_primitives Kc Ks" and mir: "mirrored c kc s ks"
    and neg: "negotiate (ke_build Ks) hmac bugs cprop sprop = Some ag" "kex_agrees (ke_build Ks) kc ag" "\<not> kx_server kc" "kex_agrees (ke_build Ks) ks ag" "kx_server ks"
    and hash: "alg = ka_hash_alg (ag_alg ag)" "hash_total (ke_digest Ks alg) (ssh_digest_bytes (ke_build Ks) alg)"
    and gen: "kexc25519_keygen Kc = (cn_c25519_key c, cn_c25519_pub c)" "kexc25519_keygen Ks = (key, spub)"
    and nz: "cn_c25519_pub c \<noteq> replicate CURVE25519_SIZE 0" "spub \<noteq> replicate CURVE25519_SIZE 0"
    and load: "ke_load_public Ks = Some lp" "lp (kx_hostkey_type ks) (kx_hostkey_nid ks) = Some public"
      "ke_load_private Ks = Some lq" "lq (kx_hostkey_type ks) (kx_hostkey_nid ks) = private"
    and host: "host_signs Kc Ks public private blob hostkey (Some (ag_hostkey ag)) (sh_compat (cn_ssh c)) (sh_compat (cn_ssh s))" "hostkey_accepted Kc kc blob hostkey"
    and size: "length (cn_client_version s) + length (cn_server_version s) + length (ptr_bytes (kx_my ks)) + length (ptr_bytes (kx_peer ks)) + length blob \<le> PACKET_MAX_SIZE"
    and init: "holds (ke_alloc Ks) (ss_incoming_packet (cn_ssh s)) (string_enc (cn_c25519_pub c))"
  shows "\<exists>h secret sig kc2 ks2 b.
    input_kex_c25519_init Ks s =
      then_ok (on_ssh (send_c25519_reply (ke_packet Ks) blob spub sig) (put_kex (session_of ks h) (with_in b s))) (derive_and_announce Ks alg h secret) \<and>
    (\<forall>x. cn_kex x = Some (session_of ks h) \<longrightarrow> derive_and_announce Ks alg h secret x = kex_send_newkeys (ke_packet Ks) (put_kex ks2 x)) \<and>
    (\<forall>b. holds (ke_alloc Kc) b (string_enc blob @ string_enc spub @ string_enc sig) \<longrightarrow>
       (\<exists>b'. input_kex_c25519_reply Kc (with_in b c) = clear_key (kex_send_newkeys (ke_packet Kc) (put_kex kc2 (with_in b' c))))) \<and>
    kx_out kc2 = kx_in ks2 \<and> kx_in kc2 = kx_out ks2 \<and> kx_session_id kc2 = kx_session_id ks2 \<and>
    (\<forall>d \<in> {kx_in kc2, kx_out kc2}. \<exists>nk enc. d = Some nk \<and> nk_enc nk = Some enc \<and> keys_sufficient enc (nk_mac nk))"
proof -
  have sk: "cn_kex s = Some ks" using mir by (simp add: mirrored_def)
  from input_init_run [OF sk load(1,3,2) init] obtain b where
    b: "input_kex_c25519_init Ks s = init_keys Ks public private (key, spub) (cn_c25519_pub c) (with_in b s)" using load(4) gen(2) by auto
  show ?thesis
  proof (rule keys_agree_run [OF prim mir neg hash gen nz host(1) size])
    fix h secret sig kc2 ks2
    assume i: "\<And>b. init_keys Ks public private (key, spub) (cn_c25519_pub c) (with_in b s) =
      then_ok (on_ssh (send_c25519_reply (ke_packet Ks) blob spub sig) (put_kex (session_of ks h) (with_in b s))) (derive_and_announce Ks alg h secret)" and
    r: "\<And>b. reply_keys Kc blob spub sig hostkey (with_in b c) = kex_send_newkeys (ke_packet Kc) (put_kex kc2 (with_in b c))" and
    k: "\<And>x. cn_kex x = Some (session_of ks h) \<Longrightarrow> derive_and_announce Ks alg h secret x = kex_send_newkeys (ke_packet Ks) (put_kex ks2 x)"
      "kx_out kc2 = kx_in ks2" "kx_in kc2 = kx_out ks2" "kx_session_id kc2 = kx_session_id ks2"
      "\<forall>d \<in> {kx_in kc2, kx_out kc2}. \<exists>nk enc. d = Some nk \<and> nk_enc nk = Some enc \<and> keys_sufficient enc (nk_mac nk)"
    have c: "\<exists>b'. input_kex_c25519_reply Kc (with_in b c) = clear_key (kex_send_newkeys (ke_packet Kc) (put_kex kc2 (with_in b' c)))"
      if "holds (ke_alloc Kc) b (string_enc blob @ string_enc spub @ string_enc sig)" for b
      using input_reply_run [OF _ host(2), of "with_in b c" spub sig] that mir by (simp add: mirrored_def r)
    show ?thesis
      by (rule exI [of _ h], rule exI [of _ secret], rule exI [of _ sig], rule exI [of _ kc2], rule exI [of _ ks2], rule exI [of _ b])
        (intro conjI allI impI k c, simp only: b i)
  qed
qed

section \<open>The announcement on the wire\<close>

lemma put_nothing: "sshbuf_inv b \<Longrightarrow> writable b \<Longrightarrow> sb_off b = 0 \<Longrightarrow> sshbuf_put e b [] = (None, b)"
  by (auto simp: sshbuf_put_def sshbuf_reserve_def sshbuf_allocate_def sshbuf_check_reserve_def sshbuf_maybe_pack_def writable_def sshbuf_inv_iff mem_write_def)

lemma reset_offset: "sshbuf_inv b \<Longrightarrow> writable b \<Longrightarrow> sb_off (sshbuf_reset e b) = 0"
  by (auto simp: reset_writable wiped_def sshbuf_realloc_def Let_def split: option.splits)

lemma put_offset: "sshbuf_put e b v = (None, b') \<Longrightarrow> sb_off b = 0 \<Longrightarrow> sb_off b' = 0"
  by (auto simp: sshbuf_put_def sshbuf_reserve_def sshbuf_allocate_def sshbuf_maybe_pack_def sshbuf_realloc_def Let_def
      split: option.splits prod.splits sum.splits if_splits)

text \<open>A packet of its type alone.\<close>

lemma full_send_type:
  assumes "holds (pe_alloc E) (ss_outgoing_packet s) bs"
  shows "then_ok (sshpkt_start E type s) (sshpkt_send E) = full_send E [type] s"
proof -
  note r = holds_reset [OF assms]
  from holds_put [OF r, of "[0, 0, 0, 0, 0, type]"] obtain b where
    b: "sshbuf_put (pe_alloc E) (sshbuf_reset (pe_alloc E) (ss_outgoing_packet s)) [0, 0, 0, 0, 0, type] = (None, b)" "holds (pe_alloc E) b [0, 0, 0, 0, 0, type]"
    by (auto simp: sshbuf_consts)
  have "sb_off b = 0" by (rule put_offset [OF b(1) reset_offset [OF holds_read(3,4) [OF assms]]])
  from put_nothing [OF holds_read(3,4) [OF b(2)] this] have "sshbuf_put (pe_alloc E) b [] = (None, b)" .
  with b(1) show ?thesis by (simp add: full_send_def sshpkt_start_def sshpkt_put_def on_outgoing_def)
qed

lemma send_newkeys_run:
  assumes laws: "crypto_laws (pe_crypto Es) P" "zlib_laws Es Er Z" "pe_crypto Er = pe_crypto Es"
    and new: "cleans (pe_crypto Es)" "zlib_starts Es Er Z" "keys_fit Es Er P nk enc"
    and ends: "linked Es Er P Z (cn_ssh c) r" "pending nk (cn_ssh c) r" "change_ok Es Er (cn_ssh c) r"
    and st: "ss_outgoing (cn_ssh c) = []" "cn_kex c = Some k" "\<not> kx_ext_info_c k"
  shows "\<exists>s'. send_packet Es [SSH2_MSG_NEWKEYS] (cn_ssh c) = Some (None, s') \<and>
    kex_send_newkeys Es c = Some (None, ssh_dispatch_set SSH2_MSG_NEWKEYS (Some Kex_input_newkeys)
      ((kex_reset_dispatch c)\<lparr>cn_ssh := s'\<lparr>ss_rekeying := False, ss_rekey_time := pe_now Es\<rparr>\<rparr>))"
proof -
  from newkeys_agree [OF laws new ends] obtain s' where
    s': "send_packet Es [SSH2_MSG_NEWKEYS] (cn_ssh c) = Some (None, s')" "ss_outgoing s' = ss_outgoing (cn_ssh c)"
      "sh_kex s' = map_option (\<lambda>k. k\<lparr>kx_out := None\<rparr>) (sh_kex (cn_ssh c))" by blast
  obtain bs where "holds (pe_alloc Es) (ss_outgoing_packet (cn_ssh c)) bs" using ends(1) by (auto simp: linked_def)
  note f = full_send_type [OF this, of SSH2_MSG_NEWKEYS]
  have "full_send Es [SSH2_MSG_NEWKEYS] (cn_ssh c) = Some (None, s'\<lparr>ss_rekeying := False, ss_rekey_time := pe_now Es\<rparr>)"
    using full_send_newkeys [OF ends(1) s'(1)] s'(2) st(1) by simp
  moreover have "cn_ssh (kex_reset_dispatch c) = cn_ssh c" by (simp add: kex_reset_dispatch_def ssh_dispatch_set_def ssh_dispatch_range_def)
  moreover have "cn_kex (ssh_dispatch_set SSH2_MSG_NEWKEYS (Some Kex_input_newkeys) ((kex_reset_dispatch c)\<lparr>cn_ssh := s'\<lparr>ss_rekeying := False, ss_rekey_time := pe_now Es\<rparr>\<rparr>)) =
      Some (k\<lparr>kx_out := None\<rparr>)" using s'(3) st(2) by (simp add: cn_kex_def ssh_dispatch_set_def)
  ultimately show ?thesis using s'(1) st(3) f by (simp add: kex_send_newkeys_def on_ssh_def)
qed

section \<open>Instances\<close>

text \<open>A group whose operation is the exclusive or, a constant digest, and signatures that are the hash itself.\<close>

definition demo_kex_env :: "byte \<Rightarrow> (unit, byte, unit) kex_env" where
  "demo_kex_env r = \<lparr>ke_packet = demo_env, ke_build = full_build, ke_random = replicate CURVE25519_SIZE r, ke_scalarmult = map2 (XOR),
     ke_digest = (\<lambda>alg x. Some (replicate (ssh_digest_bytes full_build alg) 7)), ke_from_blob = (\<lambda>_. Inr ()), ke_to_blob = (\<lambda>_. Inr [1]),
     ke_key_type = (\<lambda>_. KEY_ED25519), ke_key_nid = (\<lambda>_. NID_0), ke_verify_host_key = Some (\<lambda>_. True),
     ke_key_verify = (\<lambda>_ sig h _. if sig = h then None else Some SSH_ERR_SIGNATURE_INVALID), ke_load_public = Some (\<lambda>_ _. Some ()),
     ke_load_private = Some (\<lambda>_ _. Some ()), ke_sign = (\<lambda>_ _ h _ _. Inr h), ke_methods = (\<lambda>_. None), ke_c25519 = Some False,
     ke_handlers = (\<lambda>_ _ _ c. Some (None, c))\<rparr>"

definition demo_conn :: "kex \<Rightarrow> sshbuf \<Rightarrow> (byte, unit) conn" where
  "demo_conn k incoming = \<lparr>cn_ssh = demo_ssh\<lparr>ss_rekeying := True, sh_kex := Some k, ss_incoming_packet := incoming\<rparr>, cn_dispatch = (\<lambda>_. None), cn_skip = 0,
     cn_reads = [], cn_client_version = bytes_of ''SSH-2.0-a'', cn_server_version = bytes_of ''SSH-2.0-b'', cn_c25519_key = replicate CURVE25519_SIZE 1,
     cn_c25519_pub = map2 (XOR) (replicate CURVE25519_SIZE 1) basepoint\<rparr>"

lemma length_basepoint [simp]: "length basepoint = CURVE25519_SIZE"
  by (simp add: basepoint_def CURVE25519_SIZE_def)

lemma demo_curve: "curve_laws (map2 (XOR))"
proof -
  have "map2 (XOR) a (map2 (XOR) b p) = map2 (XOR) b (map2 (XOR) a p)" for a b p :: "byte list"
    by (rule nth_equalityI) (auto simp: ac_simps)
  then show ?thesis by (auto simp: curve_laws_def)
qed

lemma demo_digest: "hash_total (\<lambda>x. Some (replicate (ssh_digest_bytes full_build alg) 7)) (ssh_digest_bytes full_build alg)"
  by (cases alg) (simp_all add: hash_total_def ssh_digest_bytes_def ssh_digest_by_alg_def digests_def full_build_def)

lemma demo_primitives: "same_primitives (demo_kex_env r) (demo_kex_env r')"
  using demo_curve all_alloc_total by (simp add: same_primitives_def demo_kex_env_def demo_env_def)

text \<open>The state of one side after a negotiation.\<close>

definition demo_agreed :: "bool \<Rightarrow> agreement \<Rightarrow> kex" where
  "demo_agreed server ag = (demo_kex server demo_buf demo_buf)\<lparr>kx_name := Some (ag_kex ag), kx_hostkey_alg := Some (ag_hostkey ag),
     kx_hostkey_type := sshkey_type_from_name full_build (ag_hostkey ag), kx_hostkey_nid := sshkey_ecdsa_nid_from_name full_build (ag_hostkey ag),
     kx_type := Some (ka_type (ag_alg ag)), kx_hash_alg := Some (ka_hash_alg (ag_alg ag)), kx_ec_nid := ka_ec_nid (ag_alg ag),
     kx_in := Some (if server then ag_ctos ag else ag_stoc ag), kx_out := Some (if server then ag_stoc ag else ag_ctos ag),
     kx_we_need := need_of (ag_stoc ag) (need_of (ag_ctos ag) 0), kx_dh_need := dh_need_of (ag_stoc ag) (dh_need_of (ag_ctos ag) 0)\<rparr>"

lemma demo_agrees: "kex_agrees full_build (demo_agreed server ag) ag" "kx_server (demo_agreed server ag) = server"
  by (simp_all add: kex_agrees_def demo_agreed_def demo_kex_def)

lemma demo_hostkey:
  assumes "negotiate full_build (\<lambda>_. True) 0 demo_proposal demo_proposal = Some ag"
  shows "sshkey_type_from_name full_build (ag_hostkey ag) = KEY_ED25519"
proof -
  have "fst (match_list (demo_proposal ! PROPOSAL_SERVER_HOST_KEY_ALGS) (demo_proposal ! PROPOSAL_SERVER_HOST_KEY_ALGS)) = Some ''ssh-ed25519''" by code_simp
  with assms have "ag_hostkey ag = ''ssh-ed25519''" by (simp add: negotiate_Some)
  moreover have "sshkey_type_from_name full_build ''ssh-ed25519'' = KEY_ED25519" by code_simp
  ultimately show ?thesis by simp
qed

lemma demo_points:
  "map2 (XOR) (replicate CURVE25519_SIZE 1) basepoint \<noteq> replicate CURVE25519_SIZE 0" "map2 (XOR) (replicate CURVE25519_SIZE 2) basepoint \<noteq> replicate CURVE25519_SIZE 0"
proof -
  obtain n where n: "CURVE25519_SIZE = Suc n" using CURVE25519_SIZE_def by (cases CURVE25519_SIZE) auto
  show "map2 (XOR) (replicate CURVE25519_SIZE 1) basepoint \<noteq> replicate CURVE25519_SIZE 0" "map2 (XOR) (replicate CURVE25519_SIZE 2) basepoint \<noteq> replicate CURVE25519_SIZE 0"
    by (simp_all add: basepoint_def n)
qed

lemma demo_incoming: "length v \<le> PACKET_MAX_SIZE \<Longrightarrow> \<exists>b. holds all_alloc b v"
  using holds_put [OF demo_buf_holds, of v] by (auto simp: PACKET_MAX_SIZE_def sshbuf_consts)

theorem exchange_agrees_witness:
  "\<exists>ag b0 sig kc2. (\<exists>nk. kx_out kc2 = Some nk) \<and>
    (\<exists>s' f. input_kex_c25519_init (demo_kex_env 2) (demo_conn (demo_agreed True ag) b0) =
       then_ok (on_ssh (send_c25519_reply demo_env [1] (map2 (XOR) (replicate CURVE25519_SIZE 2) basepoint) sig) s') f) \<and>
    (\<forall>b. holds all_alloc b (string_enc [1] @ string_enc (map2 (XOR) (replicate CURVE25519_SIZE 2) basepoint) @ string_enc sig) \<longrightarrow>
       (\<exists>b'. input_kex_c25519_reply (demo_kex_env 1) (with_in b (demo_conn (demo_agreed False ag) demo_buf)) =
          clear_key (kex_send_newkeys demo_env (put_kex kc2 (with_in b' (demo_conn (demo_agreed False ag) demo_buf))))))"
proof -
  obtain ag where ag: "negotiate full_build (\<lambda>_. True) 0 demo_proposal demo_proposal = Some ag" using demo_negotiates by blast
  obtain b0 where b0: "holds all_alloc b0 (string_enc (map2 (XOR) (replicate CURVE25519_SIZE 1) basepoint))"
    using demo_incoming [of "string_enc (map2 (XOR) (replicate CURVE25519_SIZE 1) basepoint)"] by (auto simp: CURVE25519_SIZE_def PACKET_MAX_SIZE_def)
  let ?c = "demo_conn (demo_agreed False ag) demo_buf" and ?s = "demo_conn (demo_agreed True ag) b0"
  let ?Kc = "demo_kex_env 1" and ?Ks = "demo_kex_env 2" and ?spub = "map2 (XOR) (replicate CURVE25519_SIZE 2) basepoint"
  have mir: "mirrored ?c (demo_agreed False ag) ?s (demo_agreed True ag)"
    by (simp add: mirrored_def demo_conn_def cn_kex_def demo_agreed_def demo_kex_def)
  have neg: "negotiate (ke_build ?Ks) (\<lambda>_. True) 0 demo_proposal demo_proposal = Some ag" "kex_agrees (ke_build ?Ks) (demo_agreed False ag) ag" "\<not> kx_server (demo_agreed False ag)"
    "kex_agrees (ke_build ?Ks) (demo_agreed True ag) ag" "kx_server (demo_agreed True ag)" using ag demo_agrees by (simp_all add: demo_kex_env_def)
  have hash: "hash_total (ke_digest ?Ks (ka_hash_alg (ag_alg ag))) (ssh_digest_bytes (ke_build ?Ks) (ka_hash_alg (ag_alg ag)))"
    using demo_digest by (simp add: demo_kex_env_def)
  have gen: "kexc25519_keygen ?Kc = (cn_c25519_key ?c, cn_c25519_pub ?c)" "kexc25519_keygen ?Ks = (replicate CURVE25519_SIZE 2, ?spub)"
    by (simp_all add: kexc25519_keygen_def demo_kex_env_def demo_conn_def)
  have nz: "cn_c25519_pub ?c \<noteq> replicate CURVE25519_SIZE 0" using demo_points(1) by (simp add: demo_conn_def)
  have load: "ke_load_public ?Ks = Some (\<lambda>_ _. Some ())" "(\<lambda>_ _. Some ()) (kx_hostkey_type (demo_agreed True ag)) (kx_hostkey_nid (demo_agreed True ag)) = Some ()"
    "ke_load_private ?Ks = Some (\<lambda>_ _. Some ())" "(\<lambda>_ _. Some ()) (kx_hostkey_type (demo_agreed True ag)) (kx_hostkey_nid (demo_agreed True ag)) = Some ()"
    by (simp_all add: demo_kex_env_def)
  have host: "host_signs ?Kc ?Ks () (Some ()) [1] () (Some (ag_hostkey ag)) (sh_compat (cn_ssh ?c)) (sh_compat (cn_ssh ?s))" "hostkey_accepted ?Kc (demo_agreed False ag) [1] ()"
    using demo_hostkey [OF ag] by (simp_all add: host_signs_def hostkey_accepted_def demo_kex_env_def demo_agreed_def)
  have size: "length (cn_client_version ?s) + length (cn_server_version ?s) + length (ptr_bytes (kx_my (demo_agreed True ag))) + length (ptr_bytes (kx_peer (demo_agreed True ag)))
      + length [1 :: byte] \<le> PACKET_MAX_SIZE"
    using holds_read(2) [OF demo_buf_holds] by (simp add: demo_conn_def demo_agreed_def demo_kex_def bytes_of_def PACKET_MAX_SIZE_def)
  have init: "holds (ke_alloc ?Ks) (ss_incoming_packet (cn_ssh ?s)) (string_enc (cn_c25519_pub ?c))" using b0 by (simp add: demo_kex_env_def demo_conn_def)
  note run = exchange_agrees [OF demo_primitives mir neg refl hash gen nz demo_points(2) load host size init]
  from run obtain h sig kc2 ks2 b1 and secret :: "byte list" where
    r: "input_kex_c25519_init ?Ks ?s = then_ok (on_ssh (send_c25519_reply (ke_packet ?Ks) [1] ?spub sig)
        (put_kex (session_of (demo_agreed True ag) h) (with_in b1 ?s))) (derive_and_announce ?Ks (ka_hash_alg (ag_alg ag)) h secret)"
      "\<forall>b. holds (ke_alloc ?Kc) b (string_enc [1] @ string_enc ?spub @ string_enc sig) \<longrightarrow>
        (\<exists>b'. input_kex_c25519_reply ?Kc (with_in b ?c) = clear_key (kex_send_newkeys (ke_packet ?Kc) (put_kex kc2 (with_in b' ?c))))"
      "\<forall>d \<in> {kx_in kc2, kx_out kc2}. \<exists>nk enc. d = Some nk \<and> nk_enc nk = Some enc \<and> keys_sufficient enc (nk_mac nk)" by blast
  have e: "ke_packet ?Kc = demo_env" "ke_packet ?Ks = demo_env" "pe_alloc demo_env = all_alloc" by (simp_all add: demo_kex_env_def)
  have "\<exists>nk. kx_out kc2 = Some nk" using r(3) by blast
  with r(1,2) show ?thesis unfolding e by blast
qed

text \<open>A client that has agreed on the keys of \<open>demo_new_keys\<close> accepts a reply.\<close>

definition demo_client :: kex where
  "demo_client = demo_exchange\<lparr>kx_hash_alg := Some SSH_DIGEST_SHA256, kx_hostkey_type := KEY_ED25519\<rparr>"

lemma demo_fit_installed:
  "\<exists>enc. keys_fit demo_env demo_env (\<lambda>c. (=)) (install_keys keys ctos demo_new_keys) enc"
  using demo_fit by (auto simp: keys_fit_def install_keys_def demo_new_keys_def demo_keys_def Let_def cipher_sane_def mk_cipher_def is_chachapoly_def evp_setup_def
      demo_crypto_def demo_env_def cipher_authlen_def cipher_ivlen_def mac_init_def mac_total_def mac_compute_def SSH_DIGEST_MAX_LENGTH_def SSH_CIPHER_SSH2_def
      SSH_CIPHER_DES_def split: list.split)

lemma demo_announces:
  assumes "kx_out k = Some (install_keys keys ctos demo_new_keys)" "\<not> kx_ext_info_c k"
  shows "\<exists>c'. kex_send_newkeys demo_env (put_kex k (demo_conn k0 b)) = Some (None, c')"
proof -
  obtain enc where fit: "keys_fit demo_env demo_env (\<lambda>c. (=)) (install_keys keys ctos demo_new_keys) enc" using demo_fit_installed by blast
  let ?c = "put_kex k (demo_conn k0 b)"
  let ?r = "demo_end\<lparr>sh_kex := Some (demo_exchange\<lparr>kx_in := Some (install_keys keys ctos demo_new_keys)\<rparr>)\<rparr>"
  have ends: "linked demo_env demo_env (\<lambda>c. (=)) (\<lambda>_ _. True) (cn_ssh ?c) ?r" "pending (install_keys keys ctos demo_new_keys) (cn_ssh ?c) ?r"
    "change_ok demo_env demo_env (cn_ssh ?c) ?r"
    using demo_ends(4,6) assms(1) by (simp_all add: linked_def comp_linked_def has_buffer_def pending_def change_ok_def buffer_room_def put_kex_def demo_conn_def
        demo_end_def demo_exchange_def ssh_packet_is_rekeying_def)
  have st: "ss_outgoing (cn_ssh ?c) = []" "cn_kex ?c = Some k" by (simp_all add: put_kex_def demo_conn_def demo_ssh_def cn_kex_def)
  from send_newkeys_run [OF demo_ends(1) demo_zlib_laws refl demo_ends(2,3) fit ends st assms(2)] show ?thesis by blast
qed

lemma demo_accepts:
  "\<exists>b c'. sshbuf_inv (ss_incoming_packet (cn_ssh (demo_conn demo_client b))) \<and> cn_kex (demo_conn demo_client b) = Some demo_client \<and>
    input_kex_c25519_reply (demo_kex_env 1) (demo_conn demo_client b) = Some (None, c')"
proof -
  let ?K = "demo_kex_env 1" and ?spub = "replicate CURVE25519_SIZE 2 :: byte list" and ?sig = "replicate 32 7 :: byte list"
  let ?enc = "string_enc [1] @ string_enc ?spub @ string_enc ?sig"
  obtain b where b: "holds all_alloc b ?enc" using demo_incoming [of ?enc] by (auto simp: CURVE25519_SIZE_def PACKET_MAX_SIZE_def)
  let ?c = "demo_conn demo_client b"
  have k: "cn_kex ?c = Some demo_client" by (simp add: cn_kex_def demo_conn_def)
  have acc: "hostkey_accepted ?K demo_client [1] ()" by (simp add: hostkey_accepted_def demo_kex_env_def demo_client_def)
  have "holds (ke_alloc ?K) (ss_incoming_packet (cn_ssh ?c)) ?enc" using b by (simp add: demo_kex_env_def demo_conn_def)
  from input_reply_run [OF k acc this] obtain b1 where b1: "input_kex_c25519_reply ?K ?c = clear_key (reply_keys ?K [1] ?spub ?sig () (with_in b1 ?c))" by blast
  define sec where "sec = map2 (XOR) (replicate CURVE25519_SIZE (1 :: byte)) ?spub"
  have len: "ssh_digest_bytes full_build SSH_DIGEST_SHA256 = 32" by code_simp
  have cp: "length (map2 (XOR) (replicate CURVE25519_SIZE (1 :: byte)) basepoint) = CURVE25519_SIZE" "length sec = CURVE25519_SIZE" by (simp_all add: sec_def)
  have bufs: "ptr_bytes (kx_my demo_client) = []" "ptr_bytes (kx_peer demo_client) = []"
    using holds_read(2) [OF demo_buf_holds] by (simp_all add: demo_client_def demo_exchange_def demo_kex_def)
  have tr: "length (exchange_transcript (c_str (bytes_of ''SSH-2.0-a'')) (c_str (bytes_of ''SSH-2.0-b'')) [] [] [1] (map2 (XOR) (replicate CURVE25519_SIZE 1) basepoint) ?spub (mpint sec)) \<le> SSHBUF_SIZE_MAX"
    by (rule transcript_length [OF _ cp(1) _ cp(2)]) (simp_all add: bytes_of_def PACKET_MAX_SIZE_def)
  have nz: "?spub \<noteq> replicate CURVE25519_SIZE 0" by (simp add: CURVE25519_SIZE_def)
  have r: "reply_keys ?K [1] ?spub ?sig () (with_in b1 ?c) = derive_and_announce ?K SSH_DIGEST_SHA256 ?sig (mpint sec) (put_kex (session_of demo_client ?sig) (with_in b1 ?c))"
    by (rule reply_keys_run [OF _ _ _ _ _ _ nz _ _ _ refl])
      (use tr bufs demo_digest [of SSH_DIGEST_SHA256] all_alloc_total in \<open>simp_all add: demo_kex_env_def demo_env_def k len demo_conn_def sec_def demo_client_def cn_kex_def with_in_def\<close>)
  from derive_keys_total [OF demo_digest [of SSH_DIGEST_SHA256], of 0 ?sig "mpint sec" ?sig "map (\<lambda>i. 0x41 + of_nat i) [0..<NKEYS]"] obtain keys where
    keys: "derive_all (\<lambda>c. derive_key (\<lambda>x. Some (replicate (ssh_digest_bytes full_build SSH_DIGEST_SHA256) 7)) (ssh_digest_bytes full_build SSH_DIGEST_SHA256) True c 0 ?sig (mpint sec) ?sig)
      (map (\<lambda>i. 0x41 + of_nat i) [0..<NKEYS]) = Inr keys" by blast
  define k2 where "k2 = (session_of demo_client ?sig)\<lparr>kx_in := Some (install_keys keys False demo_new_keys), kx_out := Some (install_keys keys True demo_new_keys)\<rparr>"
  have "derive_and_announce ?K SSH_DIGEST_SHA256 ?sig (mpint sec) (put_kex (session_of demo_client ?sig) (with_in b1 ?c)) = kex_send_newkeys demo_env (put_kex k2 (demo_conn demo_client b1))"
    using keys by (simp add: derive_and_announce_def kex_derive_keys_def demo_kex_env_def demo_env_def k2_def session_of_def demo_client_def demo_exchange_def demo_kex_def
        mode_ctos_def with_in_def demo_conn_def)
  moreover obtain c' where "kex_send_newkeys demo_env (put_kex k2 (demo_conn demo_client b1)) = Some (None, c')"
    using demo_announces [of k2 keys True demo_client b1] by (auto simp: k2_def session_of_def demo_client_def demo_exchange_def demo_kex_def)
  ultimately have "input_kex_c25519_reply ?K ?c = Some (None, c'\<lparr>cn_c25519_key := replicate CURVE25519_SIZE 0\<rparr>)" by (simp add: b1 r clear_key_def)
  moreover have "sshbuf_inv (ss_incoming_packet (cn_ssh ?c))" using holds_read(3) [OF b] by (simp add: demo_conn_def)
  ultimately show ?thesis using k by blast
qed

theorem client_authenticates_server_witness:
  "\<exists>b blob spub sig hostkey alg h. contents (ss_incoming_packet (cn_ssh (demo_conn demo_client b))) = string_enc blob @ string_enc spub @ string_enc sig \<and>
    hostkey_accepted (demo_kex_env 1) demo_client blob hostkey \<and> length spub = CURVE25519_SIZE \<and> spub \<noteq> replicate CURVE25519_SIZE 0 \<and>
    reply_hash (demo_kex_env 1) (demo_conn demo_client b) demo_client blob spub alg = Some h \<and>
    ke_key_verify (demo_kex_env 1) hostkey sig h (sh_compat (cn_ssh (demo_conn demo_client b))) = None"
proof -
  obtain b c' where b: "sshbuf_inv (ss_incoming_packet (cn_ssh (demo_conn demo_client b)))" "cn_kex (demo_conn demo_client b) = Some demo_client"
    "input_kex_c25519_reply (demo_kex_env 1) (demo_conn demo_client b) = Some (None, c')" using demo_accepts by blast
  from client_authenticates_server [OF b(2,1,3)] show ?thesis by blast
qed

section \<open>The handler of KEXINIT\<close>

text \<open>A result after which an entry of the table is what it was.\<close>

definition entry_kept :: "byte \<Rightarrow> ('e, 'z) conn \<Rightarrow> ('e, 'z) conn res \<Rightarrow> bool" where
  "entry_kept type c m \<longleftrightarrow> (\<forall>r c'. m = Some (r, c') \<longrightarrow> cn_dispatch c' (unat type) = cn_dispatch c (unat type))"

lemma entry_kept_result: "cn_dispatch c' (unat t) = cn_dispatch c (unat t) \<Longrightarrow> entry_kept t c (Some (r, c'))"
  by (simp add: entry_kept_def)

lemma entry_kept_ssh: "entry_kept t c (on_ssh f c)"
  by (auto simp: entry_kept_def on_ssh_def)

lemma entry_kept_then:
  assumes "entry_kept t c m" "\<And>c'. cn_dispatch c' (unat t) = cn_dispatch c (unat t) \<Longrightarrow> entry_kept t c (k c')"
  shows "entry_kept t c (then_ok m k)"
proof (cases m)
  case (Some p)
  obtain r c' where p: "p = (r, c')" by fastforce
  with assms(1) Some have "cn_dispatch c' (unat t) = cn_dispatch c (unat t)" by (simp add: entry_kept_def)
  with assms(2) Some p show ?thesis by (cases r) (simp_all add: entry_kept_result)
qed (simp add: entry_kept_def)

lemma entry_kept_get:
  assumes "\<And>v s. entry_kept t c (k v (c\<lparr>cn_ssh := s\<rparr>))"
  shows "entry_kept t c (get_then g c k)"
proof -
  obtain x s where "g (cn_ssh c) = (x, s)" by fastforce
  with assms show ?thesis by (cases x) (simp_all add: get_then_def entry_kept_result)
qed

lemma entry_kept_end: "entry_kept t c (k c) \<Longrightarrow> entry_kept t c (at_end c k)"
  by (cases "sshpkt_get_end (cn_ssh c)") (simp_all add: at_end_def entry_kept_result)

lemma entry_kept_from: "entry_kept t c' m \<Longrightarrow> cn_dispatch c' (unat t) = cn_dispatch c (unat t) \<Longrightarrow> entry_kept t c m"
  by (simp add: entry_kept_def)

lemma skip_values_kept: "entry_kept t c (skip_values g n c)"
proof (induction n arbitrary: c)
  case (Suc n)
  show ?case by (simp, rule entry_kept_get, rule entry_kept_from [OF Suc]) simp
qed (simp add: entry_kept_def)

definition methods_keep :: "byte \<Rightarrow> ('k, 'e, 'z) kex_env \<Rightarrow> bool" where
  "methods_keep t K \<longleftrightarrow> (\<forall>type f c. ke_methods K type = Some f \<longrightarrow> entry_kept t c (f c))"

lemma start_method_kept:
  assumes "methods_keep SSH2_MSG_KEXINIT K"
  shows "entry_kept SSH2_MSG_KEXINIT c (start_method K type c)"
proof -
  have s: "cn_dispatch (ssh_dispatch_set t f c) (unat SSH2_MSG_KEXINIT) = cn_dispatch c (unat SSH2_MSG_KEXINIT)"
    if "t = SSH2_MSG_KEX_ECDH_INIT \<or> t = SSH2_MSG_KEX_ECDH_REPLY" for t f and c :: "('b, 'c) conn"
    using that by (auto simp: ssh_dispatch_set_def SSH2_MSG_KEXINIT_def SSH2_MSG_KEX_ECDH_INIT_def SSH2_MSG_KEX_ECDH_REPLY_def)
  have "entry_kept SSH2_MSG_KEXINIT c (kexc25519_client K c)"
    unfolding kexc25519_client_def Let_def prod.case kexc25519_keygen_def
    by (rule entry_kept_then, rule entry_kept_from [OF entry_kept_ssh]) (simp_all add: entry_kept_result s)
  moreover have "entry_kept SSH2_MSG_KEXINIT c (kexc25519_server c)" by (simp add: kexc25519_server_def entry_kept_result s)
  ultimately show ?thesis using assms by (auto simp: start_method_def methods_keep_def entry_kept_result split: option.split)
qed

lemma conf_and_start_kept:
  assumes "methods_keep SSH2_MSG_KEXINIT K"
  shows "entry_kept SSH2_MSG_KEXINIT c (conf_and_start K c)"
proof (cases "cn_kex c")
  case (Some k)
  obtain r skip k' where "kex_choose_conf (ke_build K) (ke_alloc K) (pe_hmac (ke_packet K)) (sh_compat (cn_ssh c)) (pe_mem (ke_packet K)) k = (r, skip, k')" by (metis prod_cases3)
  with Some show ?thesis
    by (auto simp: conf_and_start_def put_kex_def split: option.split intro!: entry_kept_then entry_kept_result intro: entry_kept_from [OF start_method_kept [OF assms]])
qed (simp add: conf_and_start_def entry_kept_def)

text \<open>\<open>kex_input_kexinit\<close> leaves its own entry in the table.  A peer can send KEXINIT again, before the exchange is over, and each one is
  appended to \<open>kex->peer\<close>.\<close>

lemma kexinit_stays_registered:
  assumes "methods_keep SSH2_MSG_KEXINIT K" "kex_input_kexinit K c = Some (r, c')"
  shows "cn_dispatch c' (unat SSH2_MSG_KEXINIT) = cn_dispatch c (unat SSH2_MSG_KEXINIT)"
proof -
  have last: "entry_kept SSH2_MSG_KEXINIT c (then_ok (if sent_before then Some (None, c) else on_ssh (kex_send_kexinit (ke_packet K)) c) (conf_and_start K))" for sent_before c
    by (rule entry_kept_then) (auto intro: entry_kept_ssh entry_kept_result entry_kept_from [OF conf_and_start_kept [OF assms(1)]])
  have tail: "entry_kept SSH2_MSG_KEXINIT c (get_then sshpkt_get_u8 c (\<lambda>_ c. get_then sshpkt_get_u32 c (\<lambda>_ c. at_end c (\<lambda>c.
      then_ok (if sent_before then Some (None, c) else on_ssh (kex_send_kexinit (ke_packet K)) c) (conf_and_start K)))))" for sent_before c
    by (rule entry_kept_get, rule entry_kept_from, rule entry_kept_get, rule entry_kept_from [OF entry_kept_end [OF last]]) simp_all
  have "entry_kept SSH2_MSG_KEXINIT c (kex_input_kexinit K c)"
  proof (cases "cn_kex c")
    case (Some k)
    obtain r peer where p: "sshbuf_put (ke_alloc K) (kx_peer k) (sshpkt_ptr (cn_ssh c)) = (r, peer)" by fastforce
    have put: "entry_kept SSH2_MSG_KEXINIT c (Some (r, put_kex (k\<lparr>kx_peer := peer\<rparr>) c))" by (simp add: entry_kept_result put_kex_def)
    show ?thesis unfolding kex_input_kexinit_def Some option.case p prod.case
      by (rule entry_kept_then [OF put], rule entry_kept_then, erule entry_kept_from [OF skip_values_kept],
          rule entry_kept_then, erule entry_kept_from [OF skip_values_kept], erule entry_kept_from [OF tail])
  qed (simp add: kex_input_kexinit_def entry_kept_result)
  with assms(2) show ?thesis by (simp add: entry_kept_def)
qed

text \<open>The table after \<open>kex_send_newkeys\<close>: KEXINIT starts the next exchange, NEWKEYS ends this one, and every other message of the transport is an error.\<close>

lemma newkeys_table:
  assumes "kex_send_newkeys E c = Some (None, c')" "unat t \<in> {1..49}"
  shows "cn_dispatch c' (unat t) = Some (if t = SSH2_MSG_KEXINIT then Kex_input_kexinit else if t = SSH2_MSG_NEWKEYS then Kex_input_newkeys else Kex_protocol_error)"
proof -
  from assms(1) obtain s where "cn_dispatch c' = cn_dispatch (ssh_dispatch_set SSH2_MSG_NEWKEYS (Some Kex_input_newkeys) ((kex_reset_dispatch c)\<lparr>cn_ssh := s\<rparr>))"
    by (auto simp: kex_send_newkeys_def Let_def then_ok_def on_ssh_def split: option.splits if_splits)
  moreover have "unat t = 20 \<longleftrightarrow> t = 20" "unat t = 21 \<longleftrightarrow> t = 21" by (auto simp: word_unat_eq_iff)
  ultimately show ?thesis using assms(2)
    by (simp add: ssh_dispatch_set_def kex_reset_dispatch_def ssh_dispatch_range_def SSH2_MSG_KEXINIT_def SSH2_MSG_NEWKEYS_def SSH2_MSG_TRANSPORT_MIN_def
        SSH2_MSG_TRANSPORT_MAX_def DISPATCH_MAX_def)
qed

end
