(* ===== verification/Bitmap.thy ===== *)
theory Bitmap
  imports SSH_Base
begin

unbundle bit_operations_syntax

text \<open>
  The growable bit set of \<^verbatim>\<open>src/openssh-7.2p2/bitmap.c\<close>, which the key revocation lists use.  Words are
  32 bits (\<open>u_int\<close>).  The arguments of type \<open>u_int\<close> are natural numbers: every operation rejects or
  bounds them before it computes with them, so nothing wraps.  The allocation functions succeed or
  fail as a boolean argument says.
\<close>

section \<open>Operations\<close>

record bitmap =
  bm_d :: "32 word list"
  bm_len :: nat
  bm_top :: nat

definition BITMAP_MAX :: nat where "BITMAP_MAX = 2 ^ 24"
definition BITMAP_BYTES :: nat where "BITMAP_BYTES = 4"
definition BITMAP_BITS :: nat where "BITMAP_BITS = 32"

lemmas bitmap_consts = BITMAP_MAX_def BITMAP_BYTES_def BITMAP_BITS_def

definition bitmap_new :: "bool \<Rightarrow> bool \<Rightarrow> bitmap option" where
  "bitmap_new cal1 cal2 =
     (if \<not> cal1 then None else if \<not> cal2 then None
      else Some \<lparr>bm_d = [0], bm_len = 1, bm_top = 0\<rparr>)"

definition bitmap_zero :: "bitmap \<Rightarrow> bitmap" where
  "bitmap_zero b = b\<lparr>bm_d := replicate (bm_len b) 0 @ drop (bm_len b) (bm_d b), bm_top := 0\<rparr>"

definition bitmap_test_bit :: "bitmap \<Rightarrow> nat \<Rightarrow> bool" where
  "bitmap_test_bit b n =
     (if bm_top b \<ge> bm_len b then False
      else if bm_len b = 0 \<or> n div BITMAP_BITS > bm_top b then False
      else drop_bit (n mod BITMAP_BITS) (bm_d b ! (n div BITMAP_BITS)) AND 1 = 1)"

text \<open>\<open>re\<close> says whether \<open>reallocarray\<close> succeeds; the result is true for the return value 0.\<close>

definition reserve :: "bool \<Rightarrow> bitmap \<Rightarrow> nat \<Rightarrow> bool \<times> bitmap" where
  "reserve re b n =
     (if bm_top b \<ge> bm_len b \<or> n > BITMAP_MAX then (False, b)
      else let nlen = n div BITMAP_BITS + 1
           in if bm_len b < nlen then
                (if \<not> re then (False, b)
                 else (True, b\<lparr>bm_d := take (bm_len b) (bm_d b) @ replicate (nlen - bm_len b) 0,
                               bm_len := nlen\<rparr>))
              else (True, b))"

definition bitmap_set_bit :: "bool \<Rightarrow> bitmap \<Rightarrow> nat \<Rightarrow> bool \<times> bitmap" where
  "bitmap_set_bit re b n =
     (case reserve re b n of
        (False, b) \<Rightarrow> (False, b)
      | (True, b) \<Rightarrow>
          let offset = n div BITMAP_BITS;
              b = (if offset > bm_top b then b\<lparr>bm_top := offset\<rparr> else b)
          in (True, b\<lparr>bm_d := (bm_d b)[offset := bm_d b ! offset OR push_bit (n mod BITMAP_BITS) 1]\<rparr>))"

fun retop_loop :: "32 word list \<Rightarrow> nat \<Rightarrow> nat" where
  "retop_loop d 0 = 0"
| "retop_loop d (Suc t) = (if d ! Suc t = 0 then retop_loop d t else Suc t)"

definition retop :: "bitmap \<Rightarrow> bitmap" where
  "retop b = (if bm_top b \<ge> bm_len b then b else b\<lparr>bm_top := retop_loop (bm_d b) (bm_top b)\<rparr>)"

definition bitmap_clear_bit :: "bitmap \<Rightarrow> nat \<Rightarrow> bitmap" where
  "bitmap_clear_bit b n =
     (if bm_top b \<ge> bm_len b \<or> n > BITMAP_MAX then b
      else let offset = n div BITMAP_BITS
           in if offset > bm_top b then b
              else retop (b\<lparr>bm_d := (bm_d b)[offset := bm_d b ! offset AND NOT (push_bit (n mod BITMAP_BITS) 1)]\<rparr>))"

text \<open>The search for the most significant bit does not end on a zero word: \<^term>\<open>None\<close>.\<close>

partial_function (option) msb_loop :: "32 word \<Rightarrow> nat \<Rightarrow> nat option" where
  "msb_loop w bits =
     (if w AND push_bit (BITMAP_BITS - 1) 1 = 0 then msb_loop (push_bit 1 w) (bits - 1) else Some bits)"

definition bitmap_nbits :: "bitmap \<Rightarrow> (nat \<times> bitmap) option" where
  "bitmap_nbits b =
     (let b = retop b
      in if bm_top b \<ge> bm_len b then Some (0, b)
         else if bm_len b = 0 \<or> (bm_top b = 0 \<and> bm_d b ! 0 = 0) then Some (0, b)
         else map_option (\<lambda>bits. (bits, b)) (msb_loop (bm_d b ! bm_top b) ((bm_top b + 1) * BITMAP_BITS)))"

definition bitmap_nbytes :: "bitmap \<Rightarrow> (nat \<times> bitmap) option" where
  "bitmap_nbytes b = map_option (\<lambda>(n, b). ((n + 7) div 8, b)) (bitmap_nbits b)"

text \<open>One pass of the inner loop of \<open>bitmap_to_string\<close>: once \<open>k\<close> has reached \<open>l\<close> every further pass
  leaves at once.\<close>

definition to_string_pass :: "32 word list \<Rightarrow> nat \<Rightarrow> nat \<Rightarrow> nat \<times> nat \<Rightarrow> nat \<times> byte list \<Rightarrow> nat \<times> byte list" where
  "to_string_pass d need l ij ks =
     (case ij of (i, j) \<Rightarrow> case ks of (k, s) \<Rightarrow>
        if k \<ge> l then (k, s)
        else (k + 1, s[need - 1 - k := ucast (drop_bit (j * 8) (d ! i) AND 0xff)]))"

text \<open>The buffer \<open>p\<close> of \<open>l\<close> bytes is a list; the result is its new contents.\<close>

definition bitmap_to_string :: "bitmap \<Rightarrow> byte list \<Rightarrow> (bool \<times> byte list \<times> bitmap) option" where
  "bitmap_to_string b p =
     map_option (\<lambda>(need, b).
       let l = length p
       in if l < need \<or> bm_top b \<ge> bm_len b then (False, p, b)
          else let l = (if l > need then need else l)
               in (True,
                   snd (fold (to_string_pass (bm_d b) need l)
                         (List.product [0..<bm_top b + 1] [0..<BITMAP_BYTES]) (0, p)), b))
       (bitmap_nbytes b)"

text \<open>After the last byte \<open>offset\<close> may be decremented below zero; it is not used any more.\<close>

fun from_string_loop :: "32 word list \<Rightarrow> nat \<Rightarrow> nat \<Rightarrow> byte list \<Rightarrow> 32 word list" where
  "from_string_loop d offset shift [] = d"
| "from_string_loop d offset shift (x # xs) =
     (let d = d[offset := d ! offset OR push_bit shift (ucast x)]
      in if shift = 0 then from_string_loop d (offset - 1) (BITMAP_BITS - 8) xs
         else from_string_loop d offset (shift - 8) xs)"

definition bitmap_from_string :: "bool \<Rightarrow> bitmap \<Rightarrow> byte list \<Rightarrow> bool \<times> bitmap" where
  "bitmap_from_string re b s =
     (let l = length s
      in if l > BITMAP_MAX div 8 then (False, b)
         else case reserve re b (l * 8) of
           (False, b) \<Rightarrow> (False, b)
         | (True, b) \<Rightarrow>
             let b = bitmap_zero b
             in if l = 0 then (True, b)
                else let offset = (l + (BITMAP_BYTES - 1)) div BITMAP_BYTES - 1;
                         shift = ((l + (BITMAP_BYTES - 1)) mod BITMAP_BYTES) * 8
                     in (True, retop (b\<lparr>bm_top := offset,
                                       bm_d := from_string_loop (bm_d b) offset shift s\<rparr>)))"

text \<open>\<open>explicit_bzero(b->d, b->len)\<close> clears \<open>len\<close> bytes of the array of \<open>len\<close> words.  The result is the
  array as it is handed to \<open>free\<close>, byte by byte; \<open>enc\<close> is the byte order of the machine.\<close>

definition bitmap_free :: "(32 word \<Rightarrow> byte list) \<Rightarrow> bitmap option \<Rightarrow> byte list option" where
  "bitmap_free enc bo =
     map_option (\<lambda>b. let m = concat (map enc (bm_d b)) in replicate (bm_len b) 0 @ drop (bm_len b) m) bo"

section \<open>Invariant and abstraction\<close>

text \<open>No word above \<open>top\<close> has a bit; the abstraction is the set of bit numbers.\<close>

definition bitmap_inv :: "bitmap \<Rightarrow> bool" where
  "bitmap_inv b \<longleftrightarrow> length (bm_d b) = bm_len b \<and> bm_top b < bm_len b \<and>
     (\<forall>i < bm_len b. bm_top b < i \<longrightarrow> bm_d b ! i = 0)"

definition wbit :: "32 word list \<Rightarrow> nat \<Rightarrow> bool" where
  "wbit d n \<longleftrightarrow> n div 32 < length d \<and> bit (d ! (n div 32)) (n mod 32)"

definition bits_of :: "bitmap \<Rightarrow> nat set" where
  "bits_of b = {n. wbit (bm_d b) n}"

lemma bitmap_invD:
  assumes "bitmap_inv b"
  shows "length (bm_d b) = bm_len b" "bm_top b < bm_len b"
    "i < bm_len b \<Longrightarrow> bm_top b < i \<Longrightarrow> bm_d b ! i = 0"
  using assms by (auto simp: bitmap_inv_def)

lemma wbit_update:
  assumes "i < length d"
  shows "wbit (d[i := w]) n \<longleftrightarrow> (if n div 32 = i then bit w (n mod 32) else wbit d n)"
  using assms by (auto simp: wbit_def nth_list_update)

lemma wbit_zeros: "wbit (replicate k 0) n \<longleftrightarrow> False"
  by (simp add: wbit_def)

lemma wbit_append_zeros: "wbit (d @ replicate k 0) n \<longleftrightarrow> wbit d n"
  by (auto simp: wbit_def nth_append)

lemma word_zero_wbit:
  "i < length d \<Longrightarrow> d ! i = 0 \<longleftrightarrow> (\<forall>n. n div 32 = i \<longrightarrow> \<not> wbit d n)"
proof
  assume i: "i < length d" and none: "\<forall>n. n div 32 = i \<longrightarrow> \<not> wbit d n"
  show "d ! i = 0"
  proof (rule bit_word_eqI)
    fix j :: nat assume "j < LENGTH(32)"
    with none [rule_format, of "32 * i + j"] i show "bit (d ! i) j \<longleftrightarrow> bit (0 :: 32 word) j"
      by (simp add: wbit_def)
  qed
qed (auto simp: wbit_def)

lemma div_mod_32_eq: "n div 32 = m div 32 \<Longrightarrow> n mod 32 = m mod 32 \<Longrightarrow> n = (m :: nat)"
  by (metis div_mult_mod_eq)

lemma test_bit_bits_of:
  assumes "bitmap_inv b"
  shows "bitmap_test_bit b n \<longleftrightarrow> n \<in> bits_of b"
proof -
  note inv = bitmap_invD [OF assms]
  have "bit (bm_d b ! (n div 32)) (n mod 32) \<Longrightarrow> n div 32 < bm_len b \<Longrightarrow> n div 32 \<le> bm_top b"
    using inv(3) [of "n div 32"] by (cases "n div 32 \<le> bm_top b") auto
  then show ?thesis
    using inv(1,2)
    by (auto simp: bitmap_test_bit_def bits_of_def wbit_def bitmap_consts simp flip: bit_iff_and_drop_bit_eq_1)
qed

lemma new_bits: "bitmap_new True True = Some b \<Longrightarrow> bitmap_inv b \<and> bits_of b = {}"
  by (auto simp: bitmap_new_def bitmap_inv_def bits_of_def wbit_def)

lemma zero_bits:
  "bitmap_inv b \<Longrightarrow> bitmap_inv (bitmap_zero b) \<and> bits_of (bitmap_zero b) = {} \<and> bm_len (bitmap_zero b) = bm_len b"
  by (auto simp: bitmap_zero_def bitmap_inv_def bits_of_def wbit_zeros)

text \<open>\<open>reserve\<close> succeeds exactly when the number is in range, and changes no bit.\<close>

lemma reserve_bits:
  assumes "bitmap_inv b" "reserve True b n = (r, b')"
  shows "bitmap_inv b'" "bits_of b' = bits_of b" "bm_top b' = bm_top b" "r \<longleftrightarrow> n \<le> BITMAP_MAX"
    "r \<Longrightarrow> n div 32 < bm_len b'"
  using assms
  by (auto simp: reserve_def Let_def bitmap_inv_def bitmap_consts bits_of_def wbit_append_zeros nth_append
      split: if_splits)

lemma set_bit_bits:
  assumes "bitmap_inv b" "bitmap_set_bit True b n = (r, b')"
  shows "bitmap_inv b' \<and> (r \<longleftrightarrow> n \<le> BITMAP_MAX) \<and> bits_of b' = (if r then insert n (bits_of b) else bits_of b)"
proof -
  obtain r1 b1 where res: "reserve True b n = (r1, b1)" by fastforce
  note rb = reserve_bits [OF assms(1) res]
  show ?thesis
  proof (cases r1)
    case False
    with assms(2) res rb show ?thesis by (simp add: bitmap_set_bit_def)
  next
    case True
    define t where "t = max (bm_top b1) (n div 32)"
    let ?d = "(bm_d b1)[n div 32 := bm_d b1 ! (n div 32) OR push_bit (n mod 32) 1]"
    from True assms(2) res have b': "b' = b1\<lparr>bm_top := t, bm_d := ?d\<rparr>" and r: "r"
      by (auto simp: bitmap_set_bit_def Let_def bitmap_consts t_def split: if_splits)
    note inv1 = bitmap_invD [OF rb(1)]
    have lt: "n div 32 < length (bm_d b1)" using rb(5) True inv1(1) by simp
    have "wbit ?d m \<longleftrightarrow> m = n \<or> wbit (bm_d b1) m" for m
      using lt div_mod_32_eq [of m n] by (auto simp: wbit_update bit_simps) (auto simp: wbit_def)
    then have "bits_of b' = insert n (bits_of b)" using rb(2) by (auto simp: b' bits_of_def)
    moreover have "bitmap_inv b'"
      using inv1 lt by (auto simp: b' bitmap_inv_def t_def nth_list_update)
    ultimately show ?thesis using r rb(4) True by simp
  qed
qed

lemma retop_loop_le: "retop_loop d t \<le> t"
  by (induction t) auto

lemma retop_loop_zeros: "retop_loop d t < i \<Longrightarrow> i \<le> t \<Longrightarrow> d ! i = 0"
  by (induction t) (auto simp: le_Suc_eq split: if_splits)

lemma retop_loop_top: "retop_loop d t \<noteq> 0 \<Longrightarrow> d ! retop_loop d t \<noteq> 0"
  by (induction t) auto

lemma retop_bits:
  assumes "bitmap_inv b"
  shows "bitmap_inv (retop b)" "bits_of (retop b) = bits_of b" "bm_d (retop b) = bm_d b"
    "bm_len (retop b) = bm_len b" "bm_top (retop b) \<noteq> 0 \<Longrightarrow> bm_d b ! bm_top (retop b) \<noteq> 0"
  using assms retop_loop_le [of "bm_d b" "bm_top b"] retop_loop_zeros [of "bm_d b" "bm_top b"]
    retop_loop_top [of "bm_d b" "bm_top b"]
  by (auto simp: retop_def bitmap_inv_def bits_of_def not_less)

lemma clear_bit_bits:
  assumes "bitmap_inv b" "n \<le> BITMAP_MAX"
  shows "bitmap_inv (bitmap_clear_bit b n) \<and> bits_of (bitmap_clear_bit b n) = bits_of b - {n}"
proof (cases "n div 32 > bm_top b")
  case True
  then have "n \<notin> bits_of b"
    using test_bit_bits_of [OF assms(1)] by (simp add: bitmap_test_bit_def bitmap_consts flip: test_bit_bits_of [OF assms(1)])
  with True assms show ?thesis by (simp add: bitmap_clear_bit_def bitmap_consts)
next
  case False
  note inv = bitmap_invD [OF assms(1)]
  define b1 where "b1 = b\<lparr>bm_d := (bm_d b)[n div 32 := bm_d b ! (n div 32) AND NOT (push_bit (n mod 32) 1)]\<rparr>"
  have lt: "n div 32 < length (bm_d b)" using False inv by simp
  have "wbit (bm_d b1) m \<longleftrightarrow> wbit (bm_d b) m \<and> m \<noteq> n" for m
    using lt div_mod_32_eq [of m n] by (auto simp: b1_def wbit_update bit_simps) (auto simp: wbit_def)
  then have "bits_of b1 = bits_of b - {n}" by (auto simp: bits_of_def)
  moreover have "bitmap_inv b1" using inv False by (auto simp: b1_def bitmap_inv_def nth_list_update)
  moreover have "bitmap_clear_bit b n = retop b1"
    using False inv(2) assms(2) by (simp add: bitmap_clear_bit_def bitmap_consts b1_def Let_def)
  ultimately show ?thesis using retop_bits(1,2) [of b1] by simp
qed

section \<open>The number of bits\<close>

lemma msb_step: "msb_loop w bits = (if bit w 31 then Some bits else msb_loop (push_bit 1 w) (bits - 1))"
proof -
  have "w AND push_bit 31 1 = 0 \<longleftrightarrow> \<not> bit w 31"
    by (simp flip: and_exp_eq_0_iff_not_bit add: push_bit_eq_mult)
  then show ?thesis by (subst msb_loop.simps) (simp only: BITMAP_BITS_def if_not_P diff_Suc_1 split: if_split, simp)
qed

text \<open>On a word that is not zero the loop ends, and stops at its most significant bit.\<close>

lemma msb_loop_ends:
  assumes "bit w m" "m < 32" "\<forall>j. m < j \<longrightarrow> \<not> bit w j" "32 \<le> bits + m"
  shows "msb_loop w bits = Some (bits - (31 - m))"
  using assms
proof (induction "31 - m" arbitrary: w m bits)
  case 0
  then have "m = 31" by simp
  with 0 show ?case by (simp add: msb_step [of w])
next
  case (Suc k)
  then have m: "m < 31" by simp
  with Suc.prems have "msb_loop w bits = msb_loop (push_bit 1 w) (bits - 1)"
    by (simp add: msb_step [of w] del: push_bit_Suc push_bit_numeral_minus_1)
  also have "\<dots> = Some (bits - 1 - (31 - Suc m))"
  proof (rule Suc.hyps(1))
    show "bit (push_bit 1 w) (Suc m)" "\<forall>j. Suc m < j \<longrightarrow> \<not> bit (push_bit 1 w) j"
      unfolding bit_push_bit_iff using Suc.prems(1,3) m by auto
  qed (use Suc m in auto)
  finally show ?case using m by simp
qed

lemma word_msb:
  fixes w :: "32 word"
  assumes "w \<noteq> 0"
  obtains m where "bit w m" "m < 32" "\<forall>j. m < j \<longrightarrow> \<not> bit w j"
proof -
  let ?S = "{j. bit w j}"
  have sub: "?S \<subseteq> {..<32}" by (auto dest: bit_imp_le_length)
  then have fin: "finite ?S" by (rule finite_subset) simp
  moreover have "?S \<noteq> {}"
  proof
    assume "?S = {}"
    then have "w = 0" by (intro bit_word_eqI) simp
    with assms show False by simp
  qed
  ultimately have "Max ?S \<in> ?S" by (rule Max_in)
  moreover have "\<forall>j. Max ?S < j \<longrightarrow> \<not> bit w j" using Max_ge [OF fin] by (meson mem_Collect_eq not_le)
  moreover from calculation have "Max ?S < 32" using sub by blast
  ultimately show ?thesis using that by blast
qed

text \<open>\<open>bitmap_nbits\<close> always returns: one more than the greatest bit, or 0.\<close>

lemma nbits_bits:
  assumes "bitmap_inv b"
  shows "\<exists>n b'. bitmap_nbits b = Some (n, b') \<and> bitmap_inv b' \<and> bits_of b' = bits_of b \<and>
    bm_d b' = bm_d b \<and> (\<forall>i \<in> bits_of b. i < n) \<and> (0 < n \<longrightarrow> n - 1 \<in> bits_of b) \<and> n \<le> 32 * (bm_top b' + 1)"
proof -
  define c where "c = retop b"
  note rt = retop_bits [OF assms, folded c_def]
  note inv = bitmap_invD [OF rt(1)]
  show ?thesis
  proof (cases "bm_d c ! bm_top c = 0")
    case True
    then have top: "bm_top c = 0" using rt(3,5) by fastforce
    have "bm_d c ! i = 0" if "i < bm_len c" for i using inv(3) [of i] that True top by (cases i) auto
    then have "bits_of c = {}" using inv(1) by (auto simp: bits_of_def wbit_def)
    moreover have "bitmap_nbits b = Some (0, c)"
      using True top inv(2) by (simp add: bitmap_nbits_def Let_def flip: c_def)
    ultimately show ?thesis using rt by simp
  next
    case False
    then obtain m where m: "bit (bm_d c ! bm_top c) m" "m < 32" "\<forall>j. m < j \<longrightarrow> \<not> bit (bm_d c ! bm_top c) j"
      using word_msb by blast
    have n: "bitmap_nbits b = Some (32 * bm_top c + m + 1, c)"
      using False inv(2) msb_loop_ends [OF m, of "(bm_top c + 1) * 32"] m(2)
      by (auto simp: bitmap_nbits_def Let_def bitmap_consts simp flip: c_def)
    have "i < 32 * bm_top c + m + 1" if "i \<in> bits_of c" for i
    proof (rule ccontr)
      assume i: "\<not> i < 32 * bm_top c + m + 1"
      have bi: "i div 32 < bm_len c" "bit (bm_d c ! (i div 32)) (i mod 32)"
        using that inv(1) by (auto simp: bits_of_def wbit_def)
      have "i div 32 \<le> bm_top c" using bi inv(3) [of "i div 32"] by (cases "i div 32 \<le> bm_top c") auto
      moreover have "bm_top c \<le> i div 32" using i by (simp add: less_eq_div_iff_mult_less_eq)
      ultimately have "i div 32 = bm_top c" by simp
      moreover from this have "m < i mod 32" using i by (simp add: modulo_nat_def) 
      ultimately show False using m(3) bi(2) by simp
    qed
    moreover have "32 * bm_top c + m \<in> bits_of c" using m(1,2) inv(1,2) by (simp add: bits_of_def wbit_def)
    ultimately show ?thesis using n rt m(2) by auto
  qed
qed

section \<open>Byte strings\<close>

lemma dropWhile_at:
  "\<forall>i < k. P (xs ! i) \<Longrightarrow> k \<le> length xs \<Longrightarrow> (k < length xs \<Longrightarrow> \<not> P (xs ! k)) \<Longrightarrow> dropWhile P xs = drop k xs"
proof (induction k arbitrary: xs)
  case 0
  then show ?case by (cases xs) auto
next
  case (Suc k)
  then obtain x ys where "xs = x # ys" by (cases xs) auto
  moreover have "P x" "\<forall>i < k. P (ys ! i)" using Suc.prems(1) \<open>xs = x # ys\<close> by auto
  ultimately show ?case using Suc.IH [of ys] Suc.prems by simp
qed

definition byte_at :: "32 word list \<Rightarrow> nat \<Rightarrow> byte" where
  "byte_at d k = (if k div 4 < length d then ucast (drop_bit (8 * (k mod 4)) (d ! (k div 4))) else 0)"

lemma split_32: "n div 32 = n div 8 div 4" "n mod 32 = 8 * (n div 8 mod 4) + n mod (8 :: nat)"
  using div_mult2_eq [of n 8 4] mod_mult2_eq [of n 8 4] by simp_all

lemma byte_index: "j < 8 \<Longrightarrow> (8 * k + j) div 32 = k div 4 \<and> (8 * k + j) mod 32 = 8 * (k mod 4) + (j :: nat)"
  by (simp add: split_32)

lemma pred_div_4:
  fixes k :: nat
  assumes "0 < k"
  shows "(k - 1) div 4 = (if k mod 4 = 0 then k div 4 - 1 else k div 4)"
    "(k - 1) mod 4 = (if k mod 4 = 0 then 3 else k mod 4 - 1)"
    "(k + 3) div 4 = (k - 1) div 4 + 1" "(k + 3) mod 4 = (k - 1) mod 4"
proof -
  obtain q r where k: "k = 4 * q + r" "r < 4" by (metis mod_less_divisor mult_div_mod_eq zero_less_numeral)
  have "(k - 1) div 4 = (if r = 0 then q - 1 else q) \<and> (k - 1) mod 4 = (if r = 0 then 3 else r - 1)"
  proof (cases "r = 0")
    case True
    then obtain q' where "q = Suc q'" using k assms by (cases q) auto
    then have "k - 1 = 4 * q' + 3" using k True by simp
    with \<open>q = Suc q'\<close> True show ?thesis by simp
  next
    case False
    then obtain r' where "r = Suc r'" by (cases r) auto
    then have "k - 1 = 4 * q + r'" "r' < 4" using k by simp_all
    with \<open>r = Suc r'\<close> show ?thesis by simp
  qed
  then show "(k - 1) div 4 = (if k mod 4 = 0 then k div 4 - 1 else k div 4)"
    "(k - 1) mod 4 = (if k mod 4 = 0 then 3 else k mod 4 - 1)" using k by simp_all
  have "k + 3 = (k - 1) + 4" using assms by simp
  then show "(k + 3) div 4 = (k - 1) div 4 + 1" "(k + 3) mod 4 = (k - 1) mod 4"
    by (simp_all only: div_add_self2 mod_add_self2)
qed

lemma bit_byte_at: "j < 8 \<Longrightarrow> bit (byte_at d k) j \<longleftrightarrow> wbit d (8 * k + j)"
  by (simp add: byte_at_def wbit_def byte_index bit_ucast_iff bit_drop_bit_eq)

lemma byte_at_zero: "byte_at d k = 0 \<longleftrightarrow> (\<forall>j < 8. \<not> wbit d (8 * k + j))"
proof
  assume "\<forall>j < 8. \<not> wbit d (8 * k + j)"
  then show "byte_at d k = 0" by (intro bit_word_eqI) (simp add: bit_byte_at)
next
  assume "byte_at d k = 0"
  then show "\<forall>j < 8. \<not> wbit d (8 * k + j)" by (auto simp flip: bit_byte_at)
qed

subsection \<open>\<open>bitmap_from_string\<close>\<close>

lemma or_byte_wbit:
  fixes x :: byte
  assumes "k div 4 < length d"
  shows "wbit (d[k div 4 := d ! (k div 4) OR push_bit (8 * (k mod 4)) (ucast x)]) n \<longleftrightarrow>
    wbit d n \<or> (n div 8 = k \<and> bit x (n mod 8))"
proof -
  have eq: "n div 8 div 4 = k div 4 \<Longrightarrow> n div 8 mod 4 = k mod 4 \<longleftrightarrow> n div 8 = k"
    by (metis div_mult_mod_eq)
  have lt: "n div 8 mod 4 < 4" "k mod 4 < 4" "n mod 8 < 8" by simp_all
  have "8 * (k mod 4) \<le> n mod 32 \<and> bit x (n mod 32 - 8 * (k mod 4)) \<longleftrightarrow>
      n div 8 mod 4 = k mod 4 \<and> bit x (n mod 8)"
  proof (cases "n div 8 mod 4 = k mod 4")
    case True
    then show ?thesis by (simp add: split_32(2))
  next
    case False
    have "8 * (k mod 4) \<le> n mod 32 \<Longrightarrow> 8 \<le> n mod 32 - 8 * (k mod 4)"
      using False lt unfolding split_32(2) by linarith
    then show ?thesis using False bit_imp_le_length [of x "n mod 32 - 8 * (k mod 4)"] by auto
  qed
  then show ?thesis
    using assms eq by (simp add: wbit_update split_32(1) bit_or_iff bit_push_bit_iff bit_ucast_iff)
      (auto simp: wbit_def split_32(1) intro: less_imp_diff_less)
qed

lemma from_string_loop_step:
  assumes "0 < length xs"
  shows "from_string_loop d (length xs div 4) (8 * (length xs mod 4)) (x # xs) =
    from_string_loop (d[length xs div 4 := d ! (length xs div 4) OR push_bit (8 * (length xs mod 4)) (ucast x)])
      ((length xs - 1) div 4) (8 * ((length xs - 1) mod 4)) xs"
proof (cases "length xs mod 4 = 0")
  case True
  then show ?thesis unfolding pred_div_4 [OF assms] by (simp add: Let_def bitmap_consts)
next
  case False
  then show ?thesis unfolding pred_div_4 [OF assms] by (simp add: Let_def right_diff_distrib')
qed

lemma from_string_loop_bits:
  assumes "xs \<noteq> []" "(length xs - 1) div 4 < length d"
  shows "length (from_string_loop d ((length xs - 1) div 4) (8 * ((length xs - 1) mod 4)) xs) = length d \<and>
    (wbit (from_string_loop d ((length xs - 1) div 4) (8 * ((length xs - 1) mod 4)) xs) n \<longleftrightarrow>
     wbit d n \<or> (n div 8 < length xs \<and> bit (xs ! (length xs - 1 - n div 8)) (n mod 8)))"
  using assms
proof (induction xs arbitrary: d)
  case (Cons x xs)
  let ?k = "length xs" and ?q = "n div 8"
  let ?d = "d[?k div 4 := d ! (?k div 4) OR push_bit (8 * (?k mod 4)) (ucast x)]"
  have k: "?k div 4 < length d" using Cons.prems by simp
  note ob = or_byte_wbit [OF k, of x n]
  have len: "length (x # xs) - 1 = ?k" by simp
  show ?case
  proof (cases "xs = []")
    case True
    with ob show ?thesis by (auto simp: Let_def)
  next
    case False
    then have pos: "0 < ?k" by simp
    have "(length xs - 1) div 4 < length ?d" using k le_less_trans [OF div_le_mono [OF diff_le_self [of ?k 1], of 4] k] by (simp only: length_list_update)
    note IH = Cons.IH [OF False this]
    have "?q < ?k \<Longrightarrow> (x # xs) ! (?k - ?q) = xs ! (?k - 1 - ?q)" by (simp add: nth_Cons')
    then have "(?q < length (x # xs) \<and> bit ((x # xs) ! (?k - ?q)) (n mod 8)) \<longleftrightarrow>
        (?q = ?k \<and> bit x (n mod 8)) \<or> (?q < ?k \<and> bit (xs ! (?k - 1 - ?q)) (n mod 8))"
      by (cases "?q = ?k") auto
    with IH ob show ?thesis unfolding len from_string_loop_step [OF pos] by simp
  qed
qed simp

lemma from_string_bits:
  assumes inv: "bitmap_inv b" and len: "length s \<le> BITMAP_MAX div 8"
  obtains b' where "bitmap_from_string True b s = (True, b')" "bitmap_inv b'"
    "bits_of b' = {n. n div 8 < length s \<and> bit (s ! (length s - 1 - n div 8)) (n mod 8)}"
proof -
  obtain r b1 where res: "reserve True b (length s * 8) = (r, b1)" by fastforce
  note rb = reserve_bits [OF inv res]
  have r: "r" using rb(4) len by (simp add: BITMAP_MAX_def)
  note z = zero_bits [OF rb(1)]
  note zi = bitmap_invD [OF z [THEN conjunct1]]
  show ?thesis
  proof (cases "s = []")
    case True
    with res r z that show ?thesis by (simp add: bitmap_from_string_def)
  next
    case False
    let ?m = "length s - 1" and ?b0 = "bitmap_zero b1"
    define b2 where "b2 = ?b0\<lparr>bm_top := ?m div 4, bm_d := from_string_loop (bm_d ?b0) (?m div 4) (8 * (?m mod 4)) s\<rparr>"
    have "0 < length s" using False by simp
    then have ix: "(length s + 3) div 4 - 1 = ?m div 4" "(length s + 3) mod 4 * 8 = 8 * (?m mod 4)"
      by (simp_all only: pred_div_4(3,4) mult.commute diff_add_inverse2)
    have lt: "?m div 4 < length (bm_d ?b0)"
    proof -
      have "?m div 4 \<le> length s * 8 div 32" by (simp add: split_32(1) div_le_mono)
      then show ?thesis using rb(5) [OF r] z zi(1) by simp
    qed
    note fs = from_string_loop_bits [OF False lt]
    have bits: "wbit (bm_d b2) n \<longleftrightarrow> n div 8 < length s \<and> bit (s ! (?m - n div 8)) (n mod 8)" for n
      using fs [of n] z by (auto simp: b2_def bits_of_def)
    have "bitmap_inv b2"
      unfolding bitmap_inv_def
    proof (intro conjI allI impI)
      show "length (bm_d b2) = bm_len b2" "bm_top b2 < bm_len b2" using fs lt zi by (simp_all add: b2_def)
      fix i assume i: "i < bm_len b2" "bm_top b2 < i"
      have "\<not> wbit (bm_d b2) n" if "n div 32 = i" for n
      proof -
        have "?m div 4 < n div 8 div 4" using i(2) that by (simp add: b2_def split_32(1))
        then have "?m < n div 8" by (meson div_le_mono not_le)
        then show ?thesis by (simp add: bits)
      qed
      then show "bm_d b2 ! i = 0" using i(1) fs zi by (subst word_zero_wbit) (auto simp: b2_def)
    qed
    moreover have "bitmap_from_string True b s = (True, retop b2)"
      using len res r False ix by (simp add: bitmap_from_string_def bitmap_consts b2_def Let_def mult.commute [of _ 8])
    ultimately show ?thesis using that [of "retop b2"] retop_bits(1,2) [of b2] bits by (simp add: bits_of_def)
  qed
qed

subsection \<open>\<open>bitmap_to_string\<close>\<close>

lemma product_snoc: "List.product (xs @ [x]) ys = List.product xs ys @ map (Pair x) ys"
  by (induction xs) simp_all

lemma product_div_mod: "List.product [0..<t] [0..<4] = map (\<lambda>k. (k div 4, k mod 4)) [0..<4 * t]"
proof (induction t)
  case (Suc t)
  have "map (\<lambda>k. (k div 4, k mod 4)) [4 * t..<4 * t + 4] = map (Pair t) [0..<4]"
    by (intro nth_equalityI) simp_all
  moreover have "[0..<4 * Suc t] = [0..<4 * t] @ [4 * t..<4 * t + 4]"
    using upt_add_eq_append [of 0 "4 * t" 4] by (simp add: add.commute)
  ultimately show ?case using Suc by (simp only: map_append upt_Suc_append product_snoc le0)
qed simp

lemma pass_byte_at:
  assumes "k div 4 < length d" "k < l"
  shows "to_string_pass d need l (k div 4, k mod 4) (k, s) = (Suc k, s[need - 1 - k := byte_at d k])"
proof -
  have "ucast (drop_bit (k mod 4 * 8) (d ! (k div 4)) AND 0xff) = byte_at d k"
  proof (rule bit_word_eqI)
    fix j :: nat assume j: "j < LENGTH(8)"
    have m: "(0xff :: 32 word) = mask 8" by (simp add: mask_eq_exp_minus_1)
    show "bit (ucast (drop_bit (k mod 4 * 8) (d ! (k div 4)) AND 0xff) :: byte) j = bit (byte_at d k) j"
      using j assms(1) unfolding m
      by (simp add: byte_at_def bit_ucast_iff bit_and_iff bit_mask_iff bit_drop_bit_eq mult.commute)
  qed
  with assms(2) show ?thesis by (simp add: to_string_pass_def)
qed

lemma to_string_fold:
  assumes "need \<le> length p" "need \<le> 4 * length d" "K \<le> 4 * length d"
  shows "fold (to_string_pass d need need) (map (\<lambda>k. (k div 4, k mod 4)) [0..<K]) (0, p) =
    (min K need, map (\<lambda>i. if i < need \<and> need - 1 - i < K then byte_at d (need - 1 - i) else p ! i) [0..<length p])"
  using assms(3)
proof (induction K)
  case 0
  show ?case by (simp add: map_nth)
next
  case (Suc K)
  let ?f = "\<lambda>K. map (\<lambda>i. if i < need \<and> need - 1 - i < K then byte_at d (need - 1 - i) else p ! i) [0..<length p]"
  have IH: "fold (to_string_pass d need need) (map (\<lambda>k. (k div 4, k mod 4)) [0..<K]) (0, p) = (min K need, ?f K)"
    using Suc by simp
  show ?case
  proof (cases "K < need")
    case False
    then have "?f (Suc K) = ?f K" by (intro map_cong) auto
    moreover have "to_string_pass d need need (K div 4, K mod 4) (need, ?f K) = (need, ?f K)"
      by (simp add: to_string_pass_def)
    ultimately show ?thesis using IH False by simp
  next
    case True
    have "(?f K)[need - 1 - K := byte_at d K] = ?f (Suc K)"
      using True assms(1) by (intro nth_equalityI) (auto simp: nth_list_update less_Suc_eq)
    moreover have "K div 4 < length d" using Suc.prems by (simp add: less_mult_imp_div_less)
    ultimately show ?thesis using IH True pass_byte_at [of K d need need] by simp
  qed
qed

lemma to_string_bits:
  assumes inv: "bitmap_inv b" and nb: "bitmap_nbytes b = Some (need, b')" and len: "need \<le> length p"
  shows "bitmap_to_string b p = Some (True, rev (map (byte_at (bm_d b)) [0..<need]) @ drop need p, b')"
proof -
  from nbits_bits [OF inv] obtain n where n: "bitmap_nbits b = Some (n, b')" "bitmap_inv b'" "bm_d b' = bm_d b"
    "n \<le> 32 * (bm_top b' + 1)" "need = (n + 7) div 8"
    using nb by (auto simp: bitmap_nbytes_def)
  let ?d = "bm_d b" and ?K = "4 * (bm_top b' + 1)"
  note inv' = bitmap_invD [OF n(2)]
  have "n + 7 < 32 * (bm_top b' + 1) + 8" using n(4) by simp
  then have needK: "need \<le> ?K" unfolding n(5) by (simp add: less_mult_imp_div_less less_Suc_eq_le [symmetric])
  have K: "?K \<le> 4 * length ?d" using inv'(1,2) n(3) by simp
  have f: "fold (to_string_pass ?d need need) (List.product [0..<bm_top b' + 1] [0..<4]) (0, p) =
    (min ?K need, map (\<lambda>i. if i < need \<and> need - 1 - i < ?K then byte_at ?d (need - 1 - i) else p ! i) [0..<length p])"
    unfolding product_div_mod using to_string_fold [OF len _ K] needK K by simp
  have "map (\<lambda>i. if i < need \<and> need - 1 - i < ?K then byte_at ?d (need - 1 - i) else p ! i) [0..<length p] =
      rev (map (byte_at ?d) [0..<need]) @ drop need p"
    using len needK by (intro nth_equalityI) (auto simp: nth_append rev_nth)
  with f have f': "snd (fold (to_string_pass ?d need need) (List.product [0..<bm_top b' + 1] [0..<4]) (0, p)) =
      rev (map (byte_at ?d) [0..<need]) @ drop need p" by simp
  have "(if length p > need then need else length p) = need" using len by simp
  with f' nb len n(3) inv'(2) show ?thesis
    by (simp add: bitmap_to_string_def Let_def BITMAP_BYTES_def del: upt_Suc if_split)
qed

lemma nbytes_bytes:
  assumes "bitmap_inv b"
  obtains need b' where "bitmap_nbytes b = Some (need, b')" "bitmap_inv b'" "bits_of b' = bits_of b"
    "\<And>k. need \<le> k \<Longrightarrow> byte_at (bm_d b) k = 0" "0 < need \<Longrightarrow> byte_at (bm_d b) (need - 1) \<noteq> 0"
proof -
  from nbits_bits [OF assms] obtain n b' where n: "bitmap_nbits b = Some (n, b')" "bitmap_inv b'"
    "bits_of b' = bits_of b" "\<forall>i \<in> bits_of b. i < n" "0 < n \<longrightarrow> n - 1 \<in> bits_of b" by blast
  let ?need = "(n + 7) div 8"
  have "byte_at (bm_d b) k = 0" if "?need \<le> k" for k
  proof -
    have "n \<le> 8 * k" using that by simp
    then have "8 * k + j \<notin> bits_of b" for j using n(4) by force
    then show ?thesis by (simp add: byte_at_zero bits_of_def)
  qed
  moreover have "byte_at (bm_d b) (?need - 1) \<noteq> 0" if "0 < ?need"
  proof -
    have "0 < n" using that by (cases n) auto
    moreover from this have "?need - 1 = (n - 1) div 8" by (cases n) simp_all
    ultimately show ?thesis using n(5) mod_less_divisor [of 8 "n - 1"]
      by (auto simp: byte_at_zero bits_of_def intro!: exI [of _ "(n - 1) mod 8"])
  qed
  ultimately show ?thesis using that [of ?need b'] n by (simp add: bitmap_nbytes_def)
qed

section \<open>Refinement of a set of numbers\<close>

datatype bitmap_op = BM_set nat | BM_clear nat | BM_test nat | BM_zero | BM_nbits | BM_from_string "byte list"

text \<open>The return values as C integers: 0 and -1 for success and failure, 0 and 1 for a test.  The value
  -2 of \<open>BM_nbits\<close> stands for a loop that does not end.\<close>

fun bitmap_step :: "bitmap_op \<Rightarrow> bitmap \<Rightarrow> int \<times> bitmap" where
  "bitmap_step (BM_set n) b = (case bitmap_set_bit True b n of (r, b) \<Rightarrow> (if r then 0 else -1, b))"
| "bitmap_step (BM_clear n) b = (0, bitmap_clear_bit b n)"
| "bitmap_step (BM_test n) b = (if bitmap_test_bit b n then 1 else 0, b)"
| "bitmap_step BM_zero b = (0, bitmap_zero b)"
| "bitmap_step BM_nbits b = (case bitmap_nbits b of None \<Rightarrow> (-2, b) | Some (n, b) \<Rightarrow> (int n, b))"
| "bitmap_step (BM_from_string s) b = (case bitmap_from_string True b s of (r, b) \<Rightarrow> (if r then 0 else -1, b))"

definition string_bits :: "byte list \<Rightarrow> nat set" where
  "string_bits s = {n. n div 8 < length s \<and> bit (s ! (length s - 1 - n div 8)) (n mod 8)}"

fun set_step :: "bitmap_op \<Rightarrow> nat set \<Rightarrow> int \<times> nat set" where
  "set_step (BM_set n) S = (if n \<le> BITMAP_MAX then (0, insert n S) else (-1, S))"
| "set_step (BM_clear n) S = (0, S - {n})"
| "set_step (BM_test n) S = (if n \<in> S then 1 else 0, S)"
| "set_step BM_zero S = (0, {})"
| "set_step BM_nbits S = (if S = {} then 0 else int (Max S) + 1, S)"
| "set_step (BM_from_string s) S = (if length s \<le> BITMAP_MAX div 8 then (0, string_bits s) else (-1, S))"

definition bitmap_ok :: "bitmap \<Rightarrow> bool" where
  "bitmap_ok b \<longleftrightarrow> bitmap_inv b \<and> bits_of b \<subseteq> {..BITMAP_MAX}"

lemma string_bits_bound: "length s \<le> BITMAP_MAX div 8 \<Longrightarrow> string_bits s \<subseteq> {..BITMAP_MAX}"
  by (auto simp: string_bits_def BITMAP_MAX_def)

lemma nbits_Max:
  assumes "bitmap_ok b"
  shows "\<exists>b'. bitmap_nbits b = Some (if bits_of b = {} then 0 else Max (bits_of b) + 1, b') \<and>
    bitmap_ok b' \<and> bits_of b' = bits_of b"
proof -
  have inv: "bitmap_inv b" and fin: "finite (bits_of b)"
    using assms finite_subset [of "bits_of b" "{..BITMAP_MAX}"] by (auto simp: bitmap_ok_def)
  from nbits_bits [OF inv] obtain n b' where n: "bitmap_nbits b = Some (n, b')" "bitmap_inv b'"
    "bits_of b' = bits_of b" "\<forall>i \<in> bits_of b. i < n" "0 < n \<longrightarrow> n - 1 \<in> bits_of b" by blast
  have "n = (if bits_of b = {} then 0 else Max (bits_of b) + 1)"
  proof (cases "bits_of b = {}")
    case False
    then have "0 < n" using n(4) by fastforce
    moreover from this have "Max (bits_of b) = n - 1"
      using n(4,5) fin by (intro Max_eqI) (auto simp: Suc_le_eq less_Suc_eq_le [symmetric])
    ultimately show ?thesis using False by simp
  qed (use n(5) in auto)
  with n assms show ?thesis by (auto simp: bitmap_ok_def)
qed

lemma bitmap_step_set:
  assumes "bitmap_ok b"
  shows "bitmap_ok (snd (bitmap_step x b)) \<and> map_prod id bits_of (bitmap_step x b) = set_step x (bits_of b)"
proof -
  have inv: "bitmap_inv b" and bound: "bits_of b \<subseteq> {..BITMAP_MAX}" using assms by (auto simp: bitmap_ok_def)
  show ?thesis
  proof (cases x)
    case (BM_set n)
    obtain r b' where "bitmap_set_bit True b n = (r, b')" by fastforce
    with BM_set set_bit_bits [OF inv this] bound show ?thesis by (auto simp: bitmap_ok_def)
  next
    case (BM_clear n)
    show ?thesis
    proof (cases "n \<le> BITMAP_MAX")
      case True
      with BM_clear clear_bit_bits [OF inv True] bound show ?thesis by (auto simp: bitmap_ok_def)
    next
      case False
      then have "n \<notin> bits_of b" "bitmap_clear_bit b n = b" using bound by (auto simp: bitmap_clear_bit_def)
      with BM_clear assms show ?thesis by simp
    qed
  next
    case (BM_from_string s)
    show ?thesis
    proof (cases "length s \<le> BITMAP_MAX div 8")
      case True
      obtain b' where "bitmap_from_string True b s = (True, b')" "bitmap_inv b'" "bits_of b' = string_bits s"
        unfolding string_bits_def using from_string_bits [OF inv True] .
      with BM_from_string True string_bits_bound [OF True] show ?thesis by (simp add: bitmap_ok_def)
    next
      case False
      with BM_from_string assms show ?thesis by (simp add: bitmap_from_string_def)
    qed
  qed (use assms test_bit_bits_of [OF inv] zero_bits [OF inv] nbits_Max [OF assms] in \<open>auto simp: bitmap_ok_def\<close>)
qed

interpretation bitset: simulation bitmap_ok bits_of bitmap_step set_step
  by unfold_locales (simp_all add: bitmap_step_set)

section \<open>Properties\<close>

text \<open>C28: from a new bitmap, every sequence of set, clear, test, zero, size and load operations returns what
  the same operations on a set of numbers return, and ends in that set; in particular the search for
  the top bit always ends.\<close>

theorem bitmap_is_set:
  assumes "bitmap_new True True = Some b"
  shows "map_prod id bits_of (run_ops bitmap_step b xs) = run_ops set_step {} xs"
  using bitset.run_abst [of b xs] new_bits [OF assms] by (simp add: bitmap_ok_def)

theorem bitmap_is_set_witness:
  "\<exists>b. bitmap_new True True = Some b \<and>
     fst (run_ops bitmap_step b [BM_set 40, BM_set 3, BM_nbits, BM_clear 40, BM_test 40, BM_nbits]) = [0, 0, 41, 0, 0, 4]"
proof -
  obtain b where b: "bitmap_new True True = Some b" by (simp add: bitmap_new_def)
  have "fst (run_ops set_step {} [BM_set 40, BM_set 3, BM_nbits, BM_clear 40, BM_test 40, BM_nbits]) = [0, 0, 41, 0, 0, 4]"
    by (simp add: BITMAP_MAX_def insert_Diff_if)
  with bitmap_is_set [OF b, of "[BM_set 40, BM_set 3, BM_nbits, BM_clear 40, BM_test 40, BM_nbits]", symmetric] b
  show ?thesis by simp
qed

text \<open>A big-endian string loaded by \<open>bitmap_from_string\<close> is written back by \<open>bitmap_to_string\<close> without its
  leading zero bytes, at the start of the caller's buffer, and the rest of the buffer is not touched.\<close>

lemma bitmap_string_roundtrip:
  assumes "bitmap_ok b" "length s \<le> BITMAP_MAX div 8" "length s \<le> length p"
  shows "\<exists>b1 b2. bitmap_from_string True b s = (True, b1) \<and>
    bitmap_to_string b1 p = Some (True, dropWhile (\<lambda>x. x = 0) s @ drop (length (dropWhile (\<lambda>x. x = 0) s)) p, b2) \<and>
    bits_of b2 = string_bits s"
proof -
  have inv: "bitmap_inv b" using assms(1) by (simp add: bitmap_ok_def)
  obtain b1 where b1: "bitmap_from_string True b s = (True, b1)" "bitmap_inv b1" "bits_of b1 = string_bits s"
    unfolding string_bits_def using from_string_bits [OF inv assms(2)] .
  obtain need b2 where nb: "bitmap_nbytes b1 = Some (need, b2)" "bits_of b2 = bits_of b1"
    and hi: "\<And>k. need \<le> k \<Longrightarrow> byte_at (bm_d b1) k = 0" and top: "0 < need \<Longrightarrow> byte_at (bm_d b1) (need - 1) \<noteq> 0"
    using nbytes_bytes [OF b1(2)] by metis
  have ba: "byte_at (bm_d b1) k = (if k < length s then s ! (length s - 1 - k) else 0)" for k
  proof (rule bit_word_eqI)
    fix j :: nat assume "j < LENGTH(8)"
    moreover have "wbit (bm_d b1) n \<longleftrightarrow> n \<in> string_bits s" for n using b1(3) by (auto simp: bits_of_def)
    ultimately show "bit (byte_at (bm_d b1) k) j \<longleftrightarrow> bit (if k < length s then s ! (length s - 1 - k) else 0) j"
      by (simp add: bit_byte_at string_bits_def)
  qed
  have le: "need \<le> length s" using top ba [of "need - 1"] by (cases "need = 0") (auto split: if_splits)
  have "rev (map (byte_at (bm_d b1)) [0..<need]) = drop (length s - need) s"
    using le by (intro nth_equalityI) (auto simp: rev_nth ba)
  moreover have "dropWhile (\<lambda>x. x = 0) s = drop (length s - need) s"
  proof (rule dropWhile_at)
    show "\<forall>i < length s - need. s ! i = 0"
    proof (intro allI impI)
      fix i assume i: "i < length s - need"
      define k where "k = length s - 1 - i"
      have k: "need \<le> k" "k < length s" "length s - 1 - k = i" using i by (auto simp: k_def)
      then show "s ! i = 0" using hi [OF k(1)] ba [of k] by simp
    qed
    show "length s - need \<le> length s" by simp
    show "s ! (length s - need) \<noteq> 0" if "length s - need < length s"
    proof -
      have "0 < need" "need - 1 < length s" "length s - 1 - (need - 1) = length s - need" using that le by auto
      then show ?thesis using top ba [of "need - 1"] by simp
    qed
  qed
  moreover note to_string_bits [OF b1(2) nb(1), of p]
  ultimately show ?thesis using b1 nb(2) le assms(3) by auto
qed

end
