(* ===== verification/Nchan.thy ===== *)
theory Nchan
  imports Compat
begin

unbundle bit_operations_syntax

text \<open>
  The closing protocol of a channel, \<^verbatim>\<open>src/openssh-7.2p2/nchan.c\<close>: the states of the two halves, the events
  that change them, and the messages and system calls that each event causes.  The fields of
  \<open>struct Channel\<close> that this file reads or writes are the record; \<open>ch_trace\<close> holds the packets sent and
  the descriptors shut down or closed, oldest first.  The global flags \<open>compat20\<close> and \<open>datafellows\<close> are
  those of the theory \<open>Compat\<close>.  The two state fields are enumerations, so the test for an unknown state
  number in \<open>chan_set_istate\<close> and \<open>chan_set_ostate\<close> always passes.  Log messages are left out.
\<close>

section \<open>Channels\<close>

datatype chan_istate = CHAN_INPUT_OPEN | CHAN_INPUT_WAIT_DRAIN | CHAN_INPUT_WAIT_OCLOSE | CHAN_INPUT_CLOSED
datatype chan_ostate = CHAN_OUTPUT_OPEN | CHAN_OUTPUT_WAIT_DRAIN | CHAN_OUTPUT_WAIT_IEOF | CHAN_OUTPUT_CLOSED

datatype chan_extended = CHAN_EXTENDED_IGNORE | CHAN_EXTENDED_READ | CHAN_EXTENDED_WRITE

datatype chan_type =
    SSH_CHANNEL_X11_LISTENER | SSH_CHANNEL_PORT_LISTENER | SSH_CHANNEL_OPENING | SSH_CHANNEL_OPEN | SSH_CHANNEL_CLOSED
  | SSH_CHANNEL_AUTH_SOCKET | SSH_CHANNEL_X11_OPEN | SSH_CHANNEL_INPUT_DRAINING | SSH_CHANNEL_OUTPUT_DRAINING
  | SSH_CHANNEL_LARVAL | SSH_CHANNEL_RPORT_LISTENER | SSH_CHANNEL_CONNECTING | SSH_CHANNEL_DYNAMIC | SSH_CHANNEL_ZOMBIE
  | SSH_CHANNEL_MUX_LISTENER | SSH_CHANNEL_MUX_CLIENT | SSH_CHANNEL_ABANDONED | SSH_CHANNEL_UNIX_LISTENER | SSH_CHANNEL_RUNIX_LISTENER

definition CHAN_CLOSE_SENT :: "32 word" where "CHAN_CLOSE_SENT = 0x01"
definition CHAN_CLOSE_RCVD :: "32 word" where "CHAN_CLOSE_RCVD = 0x02"
definition CHAN_EOF_SENT :: "32 word" where "CHAN_EOF_SENT = 0x04"
definition CHAN_EOF_RCVD :: "32 word" where "CHAN_EOF_RCVD = 0x08"
definition CHAN_LOCAL :: "32 word" where "CHAN_LOCAL = 0x10"

lemmas chan_flags = CHAN_CLOSE_SENT_def CHAN_CLOSE_RCVD_def CHAN_EOF_SENT_def CHAN_EOF_RCVD_def CHAN_LOCAL_def

datatype chan_msg =
    SSH_MSG_CHANNEL_INPUT_EOF | SSH_MSG_CHANNEL_OUTPUT_CLOSE
  | SSH2_MSG_CHANNEL_EOF | SSH2_MSG_CHANNEL_CLOSE | SSH2_MSG_CHANNEL_REQUEST string bool
  | SSH_MSG_CHANNEL_DATA "byte list" | SSH_MSG_CHANNEL_CLOSE | SSH_MSG_CHANNEL_CLOSE_CONFIRMATION
  | SSH2_MSG_CHANNEL_OPEN string "32 word" "32 word" "32 word"
  | SSH2_MSG_CHANNEL_DATA "byte list" | SSH2_MSG_CHANNEL_EXTENDED_DATA "32 word" "byte list" | SSH2_MSG_CHANNEL_WINDOW_ADJUST "32 word"

datatype chan_event =
    Sent int chan_msg  \<comment> \<open>remote channel number\<close>
  | Shutdown_WR int | Shutdown_RD int | Shutdown_RDWR int | Close int
  | Sent_ignore nat  \<comment> \<open>length of the data of a message that is to be ignored\<close>

record channel =
  ch_type :: chan_type
  ch_remote_id :: int
  ch_istate :: chan_istate
  ch_ostate :: chan_ostate
  ch_flags :: "32 word"
  ch_rfd :: int
  ch_wfd :: int
  ch_efd :: int
  ch_sock :: int
  ch_input :: "byte list"
  ch_output :: "byte list"
  ch_extended :: "byte list"
  ch_extended_usage :: chan_extended
  ch_ctype :: string
  ch_trace :: "chan_event list"

definition has_flag :: "32 word \<Rightarrow> channel \<Rightarrow> bool" where
  "has_flag f c \<longleftrightarrow> ch_flags c AND f \<noteq> 0"

definition event :: "chan_event \<Rightarrow> channel \<Rightarrow> channel" where
  "event x c = c\<lparr>ch_trace := ch_trace c @ [x]\<rparr>"

definition packet_send :: "chan_msg \<Rightarrow> channel \<Rightarrow> channel" where
  "packet_send m c = event (Sent (ch_remote_id c) m) c"

definition chan_set_istate :: "channel \<Rightarrow> chan_istate \<Rightarrow> channel" where
  "chan_set_istate c next = c\<lparr>ch_istate := next\<rparr>"

definition chan_set_ostate :: "channel \<Rightarrow> chan_ostate \<Rightarrow> channel" where
  "chan_set_ostate c next = c\<lparr>ch_ostate := next\<rparr>"

text \<open>\<open>channel_close_fd\<close> of \<^verbatim>\<open>channels.c\<close> on the two descriptors; the maximum descriptor number of the
  process is not part of a channel.\<close>

definition close_wfd :: "channel \<Rightarrow> channel" where
  "close_wfd c = (if ch_wfd c \<noteq> -1 then event (Close (ch_wfd c)) (c\<lparr>ch_wfd := -1\<rparr>) else c)"

definition close_rfd :: "channel \<Rightarrow> channel" where
  "close_rfd c = (if ch_rfd c \<noteq> -1 then event (Close (ch_rfd c)) (c\<lparr>ch_rfd := -1\<rparr>) else c)"

definition chan_shutdown_write :: "compat_state \<Rightarrow> channel \<Rightarrow> channel" where
  "chan_shutdown_write st c =
     (let c = c\<lparr>ch_output := []\<rparr>
      in if compat20 st \<and> ch_type c = SSH_CHANNEL_LARVAL then c
         else if ch_sock c \<noteq> -1 then event (Shutdown_WR (ch_sock c)) c
         else close_wfd c)"

definition chan_shutdown_read :: "compat_state \<Rightarrow> channel \<Rightarrow> channel" where
  "chan_shutdown_read st c =
     (if compat20 st \<and> ch_type c = SSH_CHANNEL_LARVAL then c
      else if ch_sock c \<noteq> -1 then event (Shutdown_RD (ch_sock c)) c
      else close_rfd c)"

section \<open>Actions\<close>

definition chan_send_ieof1 :: "channel \<Rightarrow> channel" where
  "chan_send_ieof1 c =
     (case ch_istate c of
        CHAN_INPUT_OPEN \<Rightarrow> packet_send SSH_MSG_CHANNEL_INPUT_EOF c
      | CHAN_INPUT_WAIT_DRAIN \<Rightarrow> packet_send SSH_MSG_CHANNEL_INPUT_EOF c
      | _ \<Rightarrow> c)"

definition chan_send_oclose1 :: "channel \<Rightarrow> channel" where
  "chan_send_oclose1 c =
     (case ch_ostate c of
        CHAN_OUTPUT_OPEN \<Rightarrow> packet_send SSH_MSG_CHANNEL_OUTPUT_CLOSE (c\<lparr>ch_output := []\<rparr>)
      | CHAN_OUTPUT_WAIT_DRAIN \<Rightarrow> packet_send SSH_MSG_CHANNEL_OUTPUT_CLOSE (c\<lparr>ch_output := []\<rparr>)
      | _ \<Rightarrow> c)"

definition chan_send_eof2 :: "channel \<Rightarrow> channel" where
  "chan_send_eof2 c =
     (case ch_istate c of
        CHAN_INPUT_WAIT_DRAIN \<Rightarrow>
          (packet_send SSH2_MSG_CHANNEL_EOF c)\<lparr>ch_flags := ch_flags c OR CHAN_EOF_SENT\<rparr>
      | _ \<Rightarrow> c)"

definition chan_send_close2 :: "channel \<Rightarrow> channel" where
  "chan_send_close2 c =
     (if ch_ostate c \<noteq> CHAN_OUTPUT_CLOSED \<or> ch_istate c \<noteq> CHAN_INPUT_CLOSED then c
      else if has_flag CHAN_CLOSE_SENT c then c
      else (packet_send SSH2_MSG_CHANNEL_CLOSE c)\<lparr>ch_flags := ch_flags c OR CHAN_CLOSE_SENT\<rparr>)"

definition chan_send_eow2 :: "compat_state \<Rightarrow> channel \<Rightarrow> channel" where
  "chan_send_eow2 st c =
     (if ch_ostate c = CHAN_OUTPUT_CLOSED then c
      else if datafellows st AND SSH_NEW_OPENSSH = 0 then c
      else packet_send (SSH2_MSG_CHANNEL_REQUEST ''eow@openssh.com'' False) c)"

section \<open>Events, protocol 1\<close>

definition chan_rcvd_oclose1 :: "compat_state \<Rightarrow> channel \<Rightarrow> channel" where
  "chan_rcvd_oclose1 st c =
     (case ch_istate c of
        CHAN_INPUT_WAIT_OCLOSE \<Rightarrow> chan_set_istate c CHAN_INPUT_CLOSED
      | CHAN_INPUT_OPEN \<Rightarrow> chan_set_istate (chan_send_ieof1 (chan_shutdown_read st c)) CHAN_INPUT_CLOSED
      | CHAN_INPUT_WAIT_DRAIN \<Rightarrow> chan_set_istate (chan_send_ieof1 c) CHAN_INPUT_CLOSED
      | CHAN_INPUT_CLOSED \<Rightarrow> c)"

definition chan_read_failed :: "compat_state \<Rightarrow> channel \<Rightarrow> channel" where
  "chan_read_failed st c =
     (case ch_istate c of
        CHAN_INPUT_OPEN \<Rightarrow> chan_set_istate (chan_shutdown_read st c) CHAN_INPUT_WAIT_DRAIN
      | _ \<Rightarrow> c)"

definition chan_ibuf_empty :: "compat_state \<Rightarrow> channel \<Rightarrow> channel" where
  "chan_ibuf_empty st c =
     (if ch_input c \<noteq> [] then c
      else case ch_istate c of
        CHAN_INPUT_WAIT_DRAIN \<Rightarrow>
          if compat20 st then
            chan_set_istate
              (if \<not> has_flag (CHAN_CLOSE_SENT OR CHAN_LOCAL) c then chan_send_eof2 c else c)
              CHAN_INPUT_CLOSED
          else chan_set_istate (chan_send_ieof1 c) CHAN_INPUT_WAIT_OCLOSE
      | _ \<Rightarrow> c)"

definition chan_rcvd_ieof1 :: "channel \<Rightarrow> channel" where
  "chan_rcvd_ieof1 c =
     (case ch_ostate c of
        CHAN_OUTPUT_OPEN \<Rightarrow> chan_set_ostate c CHAN_OUTPUT_WAIT_DRAIN
      | CHAN_OUTPUT_WAIT_IEOF \<Rightarrow> chan_set_ostate c CHAN_OUTPUT_CLOSED
      | _ \<Rightarrow> c)"

definition chan_write_failed1 :: "compat_state \<Rightarrow> channel \<Rightarrow> channel" where
  "chan_write_failed1 st c =
     (case ch_ostate c of
        CHAN_OUTPUT_OPEN \<Rightarrow>
          chan_set_ostate (chan_send_oclose1 (chan_shutdown_write st c)) CHAN_OUTPUT_WAIT_IEOF
      | CHAN_OUTPUT_WAIT_DRAIN \<Rightarrow>
          chan_set_ostate (chan_send_oclose1 (chan_shutdown_write st c)) CHAN_OUTPUT_CLOSED
      | _ \<Rightarrow> c)"

definition chan_obuf_empty :: "compat_state \<Rightarrow> channel \<Rightarrow> channel" where
  "chan_obuf_empty st c =
     (if ch_output c \<noteq> [] then c
      else case ch_ostate c of
        CHAN_OUTPUT_WAIT_DRAIN \<Rightarrow>
          let c = chan_shutdown_write st c;
              c = (if \<not> compat20 st then chan_send_oclose1 c else c)
          in chan_set_ostate c CHAN_OUTPUT_CLOSED
      | _ \<Rightarrow> c)"

section \<open>Events, protocol 2\<close>

definition chan_rcvd_close2 :: "compat_state \<Rightarrow> channel \<Rightarrow> channel" where
  "chan_rcvd_close2 st c =
     (let c = (if \<not> has_flag CHAN_LOCAL c then c\<lparr>ch_flags := ch_flags c OR CHAN_CLOSE_RCVD\<rparr> else c)
      in if ch_type c = SSH_CHANNEL_LARVAL then
           chan_set_istate (chan_set_ostate c CHAN_OUTPUT_CLOSED) CHAN_INPUT_CLOSED
         else
           let c = (if ch_ostate c = CHAN_OUTPUT_OPEN then chan_set_ostate c CHAN_OUTPUT_WAIT_DRAIN else c)
           in case ch_istate c of
                CHAN_INPUT_OPEN \<Rightarrow> chan_set_istate (chan_shutdown_read st c) CHAN_INPUT_CLOSED
              | CHAN_INPUT_WAIT_DRAIN \<Rightarrow>
                  chan_set_istate (if \<not> has_flag CHAN_LOCAL c then chan_send_eof2 c else c) CHAN_INPUT_CLOSED
              | _ \<Rightarrow> c)"

definition chan_rcvd_eow :: "compat_state \<Rightarrow> channel \<Rightarrow> channel" where
  "chan_rcvd_eow st c =
     (case ch_istate c of
        CHAN_INPUT_OPEN \<Rightarrow> chan_set_istate (chan_shutdown_read st c) CHAN_INPUT_CLOSED
      | _ \<Rightarrow> c)"

definition chan_rcvd_eof2 :: "channel \<Rightarrow> channel" where
  "chan_rcvd_eof2 c =
     (let c = c\<lparr>ch_flags := ch_flags c OR CHAN_EOF_RCVD\<rparr>
      in if ch_ostate c = CHAN_OUTPUT_OPEN then chan_set_ostate c CHAN_OUTPUT_WAIT_DRAIN else c)"

definition chan_write_failed2 :: "compat_state \<Rightarrow> channel \<Rightarrow> channel" where
  "chan_write_failed2 st c =
     (if ch_ostate c \<in> {CHAN_OUTPUT_OPEN, CHAN_OUTPUT_WAIT_DRAIN} then
        let c = chan_shutdown_write st c;
            c = (if ch_ctype c = ''session'' then chan_send_eow2 st c else c)
        in chan_set_ostate c CHAN_OUTPUT_CLOSED
      else c)"

section \<open>Events, both protocols\<close>

definition CHANNEL_EFD_OUTPUT_ACTIVE :: "compat_state \<Rightarrow> channel \<Rightarrow> bool" where
  "CHANNEL_EFD_OUTPUT_ACTIVE st c \<longleftrightarrow>
     compat20 st \<and> ch_extended_usage c = CHAN_EXTENDED_WRITE \<and> ch_efd c \<noteq> -1 \<and>
     (\<not> has_flag (CHAN_EOF_RCVD OR CHAN_CLOSE_RCVD) c \<or> length (ch_extended c) > 0)"

definition chan_rcvd_ieof :: "compat_state \<Rightarrow> channel \<Rightarrow> channel" where
  "chan_rcvd_ieof st c =
     (let c = (if compat20 st then chan_rcvd_eof2 c else chan_rcvd_ieof1 c)
      in if ch_ostate c = CHAN_OUTPUT_WAIT_DRAIN \<and> length (ch_output c) = 0 \<and> \<not> CHANNEL_EFD_OUTPUT_ACTIVE st c
         then chan_obuf_empty st c else c)"

definition chan_rcvd_oclose :: "compat_state \<Rightarrow> channel \<Rightarrow> channel" where
  "chan_rcvd_oclose st c = (if compat20 st then chan_rcvd_close2 st c else chan_rcvd_oclose1 st c)"

definition chan_write_failed :: "compat_state \<Rightarrow> channel \<Rightarrow> channel" where
  "chan_write_failed st c = (if compat20 st then chan_write_failed2 st c else chan_write_failed1 st c)"

definition chan_mark_dead :: "channel \<Rightarrow> channel" where
  "chan_mark_dead c = c\<lparr>ch_type := SSH_CHANNEL_ZOMBIE\<rparr>"

definition chan_is_dead :: "compat_state \<Rightarrow> channel \<Rightarrow> bool \<Rightarrow> bool \<times> channel" where
  "chan_is_dead st c do_send =
     (if ch_type c = SSH_CHANNEL_ZOMBIE then (True, c)
      else if ch_istate c \<noteq> CHAN_INPUT_CLOSED \<or> ch_ostate c \<noteq> CHAN_OUTPUT_CLOSED then (False, c)
      else if \<not> compat20 st then (True, c)
      else if datafellows st AND SSH_BUG_EXTEOF \<noteq> 0 \<and> ch_extended_usage c = CHAN_EXTENDED_WRITE \<and>
              ch_efd c \<noteq> -1 \<and> length (ch_extended c) > 0 then (False, c)
      else if has_flag CHAN_LOCAL c then (True, c)
      else if \<not> has_flag CHAN_CLOSE_SENT c \<and> \<not> do_send \<and> has_flag CHAN_CLOSE_RCVD c then (True, c)
      else let c = (if \<not> has_flag CHAN_CLOSE_SENT c \<and> do_send then chan_send_close2 c else c)
           in (has_flag CHAN_CLOSE_SENT c \<and> has_flag CHAN_CLOSE_RCVD c, c))"

section \<open>Steps of a channel\<close>

text \<open>The events of \<^verbatim>\<open>nchan.c\<close> in any order, interleaved with what \<^verbatim>\<open>channels.c\<close> does to the buffers, the
  extended descriptor and the type of a channel.  Requests (\<open>eow@openssh.com\<close>) exist in protocol 2 only.\<close>

inductive chan_step :: "compat_state \<Rightarrow> channel \<Rightarrow> channel \<Rightarrow> bool" for st where
  read_failed: "chan_step st c (chan_read_failed st c)"
| ibuf_empty: "chan_step st c (chan_ibuf_empty st c)"
| rcvd_ieof: "chan_step st c (chan_rcvd_ieof st c)"
| rcvd_oclose: "chan_step st c (chan_rcvd_oclose st c)"
| write_failed: "chan_step st c (chan_write_failed st c)"
| obuf_empty: "chan_step st c (chan_obuf_empty st c)"
| rcvd_eow: "compat20 st \<Longrightarrow> chan_step st c (chan_rcvd_eow st c)"
| is_dead: "chan_step st c (snd (chan_is_dead st c do_send))"
| mark_dead: "chan_step st c (chan_mark_dead c)"
| io: "chan_step st c (c\<lparr>ch_input := i, ch_output := out, ch_extended := x, ch_efd := efd\<rparr>)"
| retype: "chan_step st c (c\<lparr>ch_type := ty\<rparr>)"

text \<open>A channel as \<open>channel_new\<close> makes it: both halves open, nothing sent; \<open>CHAN_LOCAL\<close> may be set.\<close>

definition chan_fresh :: "channel \<Rightarrow> bool" where
  "chan_fresh c \<longleftrightarrow> ch_istate c = CHAN_INPUT_OPEN \<and> ch_ostate c = CHAN_OUTPUT_OPEN \<and>
     ch_flags c \<in> {0, CHAN_LOCAL} \<and> ch_trace c = []"

inductive chan_reach :: "compat_state \<Rightarrow> channel \<Rightarrow> bool" for st where
  fresh: "chan_fresh c \<Longrightarrow> chan_reach st c"
| step: "chan_reach st c \<Longrightarrow> chan_step st c c' \<Longrightarrow> chan_reach st c'"

lemmas reach_steps =
  chan_reach.step [OF _ chan_step.read_failed] chan_reach.step [OF _ chan_step.ibuf_empty]
  chan_reach.step [OF _ chan_step.rcvd_ieof] chan_reach.step [OF _ chan_step.rcvd_oclose]
  chan_reach.step [OF _ chan_step.write_failed] chan_reach.step [OF _ chan_step.obuf_empty]
  chan_reach.step [OF _ chan_step.is_dead]

text \<open>The messages sent, oldest first.\<close>

fun msg_of :: "chan_event \<Rightarrow> chan_msg list" where
  "msg_of (Sent r m) = [m]"
| "msg_of _ = []"

definition msgs :: "channel \<Rightarrow> chan_msg list" where
  "msgs c = concat (map msg_of (ch_trace c))"

definition EOW :: chan_msg where "EOW = SSH2_MSG_CHANNEL_REQUEST ''eow@openssh.com'' False"

lemma event_simps [simp]:
  "ch_istate (event x c) = ch_istate c" "ch_ostate (event x c) = ch_ostate c" "ch_flags (event x c) = ch_flags c"
  "ch_type (event x c) = ch_type c" "ch_ctype (event x c) = ch_ctype c" "ch_input (event x c) = ch_input c"
  "ch_output (event x c) = ch_output c" "ch_extended (event x c) = ch_extended c" "ch_efd (event x c) = ch_efd c"
  "ch_extended_usage (event x c) = ch_extended_usage c" "msgs (event x c) = msgs c @ msg_of x"
  by (simp_all add: event_def msgs_def)

lemma close_fd_simps [simp]:
  "ch_istate (close_rfd c) = ch_istate c" "ch_ostate (close_rfd c) = ch_ostate c" "ch_flags (close_rfd c) = ch_flags c"
  "ch_type (close_rfd c) = ch_type c" "msgs (close_rfd c) = msgs c" "ch_output (close_rfd c) = ch_output c"
  "ch_istate (close_wfd c) = ch_istate c" "ch_ostate (close_wfd c) = ch_ostate c" "ch_flags (close_wfd c) = ch_flags c"
  "ch_type (close_wfd c) = ch_type c" "ch_ctype (close_wfd c) = ch_ctype c" "msgs (close_wfd c) = msgs c"
  "ch_output (close_wfd c) = ch_output c"
  by (simp_all add: close_rfd_def close_wfd_def) (simp_all add: msgs_def)

lemma packet_send_simps [simp]:
  "ch_istate (packet_send m c) = ch_istate c" "ch_ostate (packet_send m c) = ch_ostate c"
  "ch_flags (packet_send m c) = ch_flags c" "ch_type (packet_send m c) = ch_type c"
  "ch_output (packet_send m c) = ch_output c" "msgs (packet_send m c) = msgs c @ [m]"
  by (simp_all add: packet_send_def)

lemma shutdown_simps [simp]:
  "ch_istate (chan_shutdown_read st c) = ch_istate c" "ch_ostate (chan_shutdown_read st c) = ch_ostate c"
  "ch_flags (chan_shutdown_read st c) = ch_flags c" "ch_type (chan_shutdown_read st c) = ch_type c"
  "msgs (chan_shutdown_read st c) = msgs c" "ch_output (chan_shutdown_read st c) = ch_output c"
  "ch_istate (chan_shutdown_write st c) = ch_istate c" "ch_ostate (chan_shutdown_write st c) = ch_ostate c"
  "ch_flags (chan_shutdown_write st c) = ch_flags c" "ch_type (chan_shutdown_write st c) = ch_type c"
  "msgs (chan_shutdown_write st c) = msgs c" "ch_ctype (chan_shutdown_write st c) = ch_ctype c"
  "ch_output (chan_shutdown_write st c) = []"
  by (simp_all add: chan_shutdown_read_def chan_shutdown_write_def Let_def) (simp_all add: msgs_def)

lemma field_simps [simp]:
  "msgs (ch_flags_update f c) = msgs c" "msgs (ch_istate_update g c) = msgs c" "msgs (ch_ostate_update h c) = msgs c"
  "msgs (ch_output_update k c) = msgs c" "msgs (ch_type_update l c) = msgs c" "msgs (ch_input_update k c) = msgs c"
  "msgs (ch_extended_update k c) = msgs c" "msgs (ch_efd_update e c) = msgs c"
  by (simp_all add: msgs_def)

lemma flag_or: "((f OR a) AND b) = 0 \<longleftrightarrow> (f AND b) = 0 \<and> (a AND b) = (0 :: 32 word)"
  by (simp add: bit.conj_disj_distrib2 or_eq_0_iff)

lemma flag_and_or: "(f AND (a OR b)) = 0 \<longleftrightarrow> (f AND a) = 0 \<and> (f AND b) = (0 :: 32 word)"
  by (simp add: bit.conj_disj_distrib or_eq_0_iff)

lemma flags_17: "(f AND 17) = 0 \<longleftrightarrow> (f AND 1) = 0 \<and> (f AND 16) = (0 :: 32 word)"
  using flag_and_or [of f 1 16] by simp

lemmas chan_defs = chan_set_istate_def chan_set_ostate_def has_flag_def chan_flags flag_or flag_and_or Let_def
  chan_send_ieof1_def chan_send_oclose1_def chan_send_eof2_def chan_send_close2_def chan_send_eow2_def
  chan_rcvd_oclose1_def chan_read_failed_def chan_ibuf_empty_def chan_rcvd_ieof1_def chan_write_failed1_def
  chan_obuf_empty_def chan_rcvd_close2_def chan_rcvd_eow_def chan_rcvd_eof2_def chan_write_failed2_def
  chan_rcvd_ieof_def chan_rcvd_oclose_def chan_write_failed_def chan_mark_dead_def chan_is_dead_def

section \<open>Invariants\<close>

text \<open>Protocol 2: which messages were sent, read off the state.\<close>

definition chan_inv2 :: "channel \<Rightarrow> bool" where
  "chan_inv2 c \<longleftrightarrow>
     ch_istate c \<noteq> CHAN_INPUT_WAIT_OCLOSE \<and> ch_ostate c \<noteq> CHAN_OUTPUT_WAIT_IEOF \<and>
     (has_flag CHAN_EOF_SENT c \<longrightarrow> ch_istate c = CHAN_INPUT_CLOSED) \<and>
     (has_flag CHAN_CLOSE_SENT c \<longrightarrow> ch_istate c = CHAN_INPUT_CLOSED \<and> ch_ostate c = CHAN_OUTPUT_CLOSED) \<and>
     (has_flag CHAN_LOCAL c \<longrightarrow> \<not> has_flag CHAN_EOF_SENT c \<and> \<not> has_flag CHAN_CLOSE_SENT c) \<and>
     set (msgs c) \<subseteq> {SSH2_MSG_CHANNEL_EOF, EOW, SSH2_MSG_CHANNEL_CLOSE} \<and>
     count_list (msgs c) SSH2_MSG_CHANNEL_EOF = (if has_flag CHAN_EOF_SENT c then 1 else 0) \<and>
     count_list (msgs c) SSH2_MSG_CHANNEL_CLOSE = (if has_flag CHAN_CLOSE_SENT c then 1 else 0) \<and>
     count_list (msgs c) EOW \<le> (if ch_ostate c = CHAN_OUTPUT_CLOSED then 1 else 0) \<and>
     (has_flag CHAN_CLOSE_SENT c \<longrightarrow> msgs c \<noteq> [] \<and> last (msgs c) = SSH2_MSG_CHANNEL_CLOSE)"

text \<open>Protocol 1.\<close>

definition chan_inv1 :: "channel \<Rightarrow> bool" where
  "chan_inv1 c \<longleftrightarrow>
     set (msgs c) \<subseteq> {SSH_MSG_CHANNEL_INPUT_EOF, SSH_MSG_CHANNEL_OUTPUT_CLOSE} \<and>
     count_list (msgs c) SSH_MSG_CHANNEL_INPUT_EOF =
       (if ch_istate c \<in> {CHAN_INPUT_OPEN, CHAN_INPUT_WAIT_DRAIN} then 0 else 1) \<and>
     count_list (msgs c) SSH_MSG_CHANNEL_OUTPUT_CLOSE =
       (if ch_ostate c \<in> {CHAN_OUTPUT_OPEN, CHAN_OUTPUT_WAIT_DRAIN} then 0 else 1)"

lemma count_list_snoc: "count_list (xs @ [x]) y = count_list xs y + (if x = y then 1 else 0)"
  by simp

lemma chan_step_inv1:
  assumes "\<not> compat20 st" "chan_step st c c'" "chan_inv1 c"
  shows "chan_inv1 c'"
  using assms(2)
proof (cases rule: chan_step.cases)
  case rcvd_ieof
  with assms show ?thesis
    by (cases "ch_ostate c") (auto simp: chan_inv1_def chan_defs)
qed (use assms in \<open>auto simp: chan_inv1_def chan_defs split: chan_istate.splits chan_ostate.splits\<close>)

text \<open>\<open>chan_rcvd_close2\<close> as three updates: the flag, the output half, the input half.\<close>

lemma flag_rcvd_inv: "chan_inv2 c \<Longrightarrow> chan_inv2 (c\<lparr>ch_flags := ch_flags c OR CHAN_CLOSE_RCVD\<rparr>)"
  by (simp add: chan_inv2_def has_flag_def chan_flags flag_or)

lemma output_drain_inv:
  "chan_inv2 c \<Longrightarrow> ch_ostate c = CHAN_OUTPUT_OPEN \<Longrightarrow> chan_inv2 (chan_set_ostate c CHAN_OUTPUT_WAIT_DRAIN)"
  by (simp add: chan_inv2_def has_flag_def chan_set_ostate_def)

lemma input_close_inv:
  "chan_inv2 c \<Longrightarrow> chan_inv2 (chan_set_istate (chan_shutdown_read st c) CHAN_INPUT_CLOSED)"
  "chan_inv2 c \<Longrightarrow> chan_inv2 (chan_set_istate c CHAN_INPUT_CLOSED)"
  by (auto simp: chan_inv2_def has_flag_def chan_set_istate_def)

lemma input_eof_inv:
  assumes "chan_inv2 c" "ch_istate c = CHAN_INPUT_WAIT_DRAIN" "\<not> has_flag CHAN_LOCAL c"
  shows "chan_inv2 (chan_set_istate (chan_send_eof2 c) CHAN_INPUT_CLOSED)"
  using assms by (simp add: chan_inv2_def has_flag_def chan_set_istate_def chan_send_eof2_def chan_flags flag_or EOW_def)

lemma both_close_inv: "chan_inv2 c \<Longrightarrow> chan_inv2 (chan_set_istate (chan_set_ostate c CHAN_OUTPUT_CLOSED) CHAN_INPUT_CLOSED)"
  by (auto simp: chan_inv2_def has_flag_def chan_set_istate_def chan_set_ostate_def split: if_splits)

lemma close2_inv:
  assumes "chan_inv2 c" shows "chan_inv2 (chan_rcvd_close2 st c)"
proof -
  define c1 where "c1 = (if \<not> has_flag CHAN_LOCAL c then c\<lparr>ch_flags := ch_flags c OR CHAN_CLOSE_RCVD\<rparr> else c)"
  define c2 where "c2 = (if ch_ostate c1 = CHAN_OUTPUT_OPEN then chan_set_ostate c1 CHAN_OUTPUT_WAIT_DRAIN else c1)"
  have 1: "chan_inv2 c1" using assms flag_rcvd_inv by (simp add: c1_def)
  have 2: "chan_inv2 c2" using 1 output_drain_inv by (simp add: c2_def)
  have "chan_rcvd_close2 st c =
      (if ch_type c1 = SSH_CHANNEL_LARVAL then chan_set_istate (chan_set_ostate c1 CHAN_OUTPUT_CLOSED) CHAN_INPUT_CLOSED
       else case ch_istate c2 of
          CHAN_INPUT_OPEN \<Rightarrow> chan_set_istate (chan_shutdown_read st c2) CHAN_INPUT_CLOSED
        | CHAN_INPUT_WAIT_DRAIN \<Rightarrow> chan_set_istate (if \<not> has_flag CHAN_LOCAL c2 then chan_send_eof2 c2 else c2) CHAN_INPUT_CLOSED
        | _ \<Rightarrow> c2)"
    unfolding chan_rcvd_close2_def Let_def c2_def c1_def by (rule refl)
  then show ?thesis
    using both_close_inv [OF 1] input_close_inv [OF 2] input_eof_inv [OF 2] 2
    by (cases "ch_istate c2") simp_all
qed

lemma send_close2_inv:
  assumes "chan_inv2 c" "\<not> has_flag CHAN_LOCAL c" shows "chan_inv2 (chan_send_close2 c)"
  using assms by (auto simp: chan_inv2_def chan_send_close2_def has_flag_def chan_flags flag_or EOW_def)

lemma chan_step_inv2:
  assumes st: "compat20 st" and "chan_step st c c'" and inv: "chan_inv2 c"
  shows "chan_inv2 c'"
  using assms(2)
proof (cases rule: chan_step.cases)
  case read_failed
  with st inv show ?thesis
    by (cases "ch_istate c") (auto simp: chan_inv2_def chan_read_failed_def chan_set_istate_def has_flag_def)
next
  case ibuf_empty
  with st inv show ?thesis
    by (cases "ch_istate c") (auto simp: chan_inv2_def chan_ibuf_empty_def chan_set_istate_def has_flag_def
        chan_send_eof2_def EOW_def chan_flags flag_or flags_17)
next
  case rcvd_ieof
  show ?thesis unfolding rcvd_ieof
    using st inv by (cases "ch_ostate c") (auto simp: chan_inv2_def chan_rcvd_ieof_def chan_rcvd_eof2_def
        chan_obuf_empty_def chan_set_ostate_def has_flag_def EOW_def chan_flags flag_or flag_and_or Let_def)
next
  case rcvd_oclose
  with st close2_inv [OF inv] show ?thesis by (simp add: chan_rcvd_oclose_def)
next
  case write_failed
  show ?thesis unfolding write_failed
    using st inv by (cases "ch_ostate c") (auto simp: chan_inv2_def chan_write_failed_def chan_write_failed2_def
        chan_send_eow2_def chan_set_ostate_def has_flag_def EOW_def Let_def)
next
  case obuf_empty
  show ?thesis unfolding obuf_empty
    using st inv by (cases "ch_ostate c") (auto simp: chan_inv2_def chan_obuf_empty_def chan_set_ostate_def
        has_flag_def EOW_def Let_def)
next
  case rcvd_eow
  show ?thesis unfolding rcvd_eow(1)
    using st inv by (cases "ch_istate c") (auto simp: chan_inv2_def chan_rcvd_eow_def chan_set_istate_def has_flag_def)
next
  case (is_dead d)
  with send_close2_inv [OF inv] inv show ?thesis by (auto simp: chan_is_dead_def Let_def)
next
  case mark_dead
  with inv show ?thesis by (simp add: chan_inv2_def chan_mark_dead_def has_flag_def)
next
  case io
  with inv show ?thesis by (simp add: chan_inv2_def has_flag_def)
next
  case retype
  with inv show ?thesis by (simp add: chan_inv2_def has_flag_def)
qed

lemma fresh_inv: "chan_fresh c \<Longrightarrow> chan_inv1 c \<and> chan_inv2 c"
  by (auto simp: chan_fresh_def chan_inv1_def chan_inv2_def msgs_def has_flag_def chan_flags)

lemma chan_reach_inv: "chan_reach st c \<Longrightarrow> if compat20 st then chan_inv2 c else chan_inv1 c"
  by (induction rule: chan_reach.induct) (auto simp: fresh_inv dest: chan_step_inv1 chan_step_inv2 split: if_splits)

text \<open>Both halves only move forward.\<close>

fun irank :: "chan_istate \<Rightarrow> nat" where
  "irank CHAN_INPUT_OPEN = 0" | "irank CHAN_INPUT_WAIT_DRAIN = 1"
| "irank CHAN_INPUT_WAIT_OCLOSE = 2" | "irank CHAN_INPUT_CLOSED = 3"

fun orank :: "chan_ostate \<Rightarrow> nat" where
  "orank CHAN_OUTPUT_OPEN = 0" | "orank CHAN_OUTPUT_WAIT_DRAIN = 1"
| "orank CHAN_OUTPUT_WAIT_IEOF = 2" | "orank CHAN_OUTPUT_CLOSED = 3"

lemma rank_bound: "irank i \<le> 3" "orank d \<le> 3" by (cases i; simp) (cases d; simp)

text \<open>A channel and the two protocols for concrete runs.\<close>

definition demo1 :: compat_state where "demo1 = \<lparr>compat13 = False, compat20 = False, datafellows = 0\<rparr>"
definition demo2 :: compat_state where "demo2 = \<lparr>compat13 = False, compat20 = True, datafellows = 0\<rparr>"

definition demo_chan :: channel where
  "demo_chan = \<lparr>ch_type = SSH_CHANNEL_OPEN, ch_remote_id = 7, ch_istate = CHAN_INPUT_OPEN,
     ch_ostate = CHAN_OUTPUT_OPEN, ch_flags = 0, ch_rfd = 3, ch_wfd = 4, ch_efd = -1, ch_sock = -1, ch_input = [],
     ch_output = [], ch_extended = [], ch_extended_usage = CHAN_EXTENDED_IGNORE, ch_ctype = ''session'', ch_trace = []\<rparr>"

lemma demo_fresh: "chan_fresh demo_chan" by (simp add: chan_fresh_def demo_chan_def)

section \<open>Properties\<close>

text \<open>C26: in protocol 2, whatever the order of local failures, received messages and liveness checks, a
  channel sends at most one EOF, at most one CLOSE and at most one end-of-write request; EOF is sent
  only when the input half has closed, CLOSE only when both halves have closed and as the last message
  of the channel, and a local channel sends neither.\<close>

theorem channel_close_protocol2:
  assumes "compat20 st" "chan_reach st c"
  shows "count_list (msgs c) SSH2_MSG_CHANNEL_EOF = (if has_flag CHAN_EOF_SENT c then 1 else 0) \<and>
    count_list (msgs c) SSH2_MSG_CHANNEL_CLOSE = (if has_flag CHAN_CLOSE_SENT c then 1 else 0) \<and>
    count_list (msgs c) EOW \<le> 1 \<and>
    (SSH2_MSG_CHANNEL_EOF \<in> set (msgs c) \<longrightarrow> ch_istate c = CHAN_INPUT_CLOSED) \<and>
    (SSH2_MSG_CHANNEL_CLOSE \<in> set (msgs c) \<longrightarrow> last (msgs c) = SSH2_MSG_CHANNEL_CLOSE \<and>
       ch_istate c = CHAN_INPUT_CLOSED \<and> ch_ostate c = CHAN_OUTPUT_CLOSED) \<and>
    (has_flag CHAN_LOCAL c \<longrightarrow> set (msgs c) \<subseteq> {EOW})"
proof -
  have inv: "chan_inv2 c" using chan_reach_inv [OF assms(2)] assms(1) by simp
  then show ?thesis
    unfolding chan_inv2_def by (auto split: if_splits simp: count_list_0_iff)
qed

theorem channel_close_protocol2_witness:
  "\<exists>c. msgs c = [SSH2_MSG_CHANNEL_EOF, SSH2_MSG_CHANNEL_CLOSE] \<and> chan_reach demo2 c \<and>
     count_list (msgs c) SSH2_MSG_CHANNEL_CLOSE = 1 \<and> last (msgs c) = SSH2_MSG_CHANNEL_CLOSE"
proof -
  define c where "c = snd (chan_is_dead demo2 (chan_obuf_empty demo2 (chan_rcvd_oclose demo2
      (chan_ibuf_empty demo2 (chan_read_failed demo2 demo_chan)))) True)"
  have r: "chan_reach demo2 c"
    unfolding c_def using demo_fresh by (intro reach_steps chan_reach.fresh)
  have m: "msgs c = [SSH2_MSG_CHANNEL_EOF, SSH2_MSG_CHANNEL_CLOSE]"
    by (simp add: c_def demo2_def demo_chan_def chan_defs packet_send_def event_def chan_shutdown_read_def
        chan_shutdown_write_def close_rfd_def close_wfd_def) (simp add: msgs_def)
  have "compat20 demo2" by (simp add: demo2_def)
  note p = channel_close_protocol2 [OF this r]
  have "SSH2_MSG_CHANNEL_CLOSE \<in> set (msgs c)" by (simp add: m)
  then have "last (msgs c) = SSH2_MSG_CHANNEL_CLOSE" using p by blast
  with m r show ?thesis by auto
qed

text \<open>In protocol 1 a channel sends the input EOF exactly once on its way out of the input states open
  and drain, and the output close exactly once on its way out of the output states open and drain, so
  a channel that is dead has sent both.\<close>

lemma channel_close_protocol1:
  assumes "\<not> compat20 st" "chan_reach st c"
  shows "count_list (msgs c) SSH_MSG_CHANNEL_INPUT_EOF \<le> 1 \<and>
    count_list (msgs c) SSH_MSG_CHANNEL_OUTPUT_CLOSE \<le> 1 \<and>
    (ch_type c \<noteq> SSH_CHANNEL_ZOMBIE \<and> fst (chan_is_dead st c do_send) \<longrightarrow>
       {SSH_MSG_CHANNEL_INPUT_EOF, SSH_MSG_CHANNEL_OUTPUT_CLOSE} = set (msgs c))"
proof -
  have inv: "chan_inv1 c" using chan_reach_inv [OF assms(2)] assms(1) by simp
  have "ch_type c \<noteq> SSH_CHANNEL_ZOMBIE \<and> fst (chan_is_dead st c do_send) \<Longrightarrow>
      ch_istate c = CHAN_INPUT_CLOSED \<and> ch_ostate c = CHAN_OUTPUT_CLOSED"
    by (auto simp: chan_is_dead_def split: if_splits)
  moreover have "ch_istate c = CHAN_INPUT_CLOSED \<and> ch_ostate c = CHAN_OUTPUT_CLOSED \<Longrightarrow>
      {SSH_MSG_CHANNEL_INPUT_EOF, SSH_MSG_CHANNEL_OUTPUT_CLOSE} \<subseteq> set (msgs c)"
    using inv by (auto simp: chan_inv1_def) (metis One_nat_def count_notin zero_neq_one)+
  ultimately show ?thesis using inv by (auto simp: chan_inv1_def split: if_splits)
qed

text \<open>No event ever moves a half of a channel back, and the received and sent flags are never
  cleared, so a channel changes state at most six times.\<close>

lemma channel_states_advance:
  assumes "chan_step st c c'"
  shows "irank (ch_istate c) \<le> irank (ch_istate c') \<and> orank (ch_ostate c) \<le> orank (ch_ostate c') \<and>
    irank (ch_istate c') + orank (ch_ostate c') \<le> 6 \<and> ch_flags c AND ch_flags c' = ch_flags c"
proof -
  have keep: "f AND (f OR g) = f" for f g :: "32 word" by (rule bit_word_eqI) (auto simp: bit_simps)
  have "irank (ch_istate c) \<le> irank (ch_istate c') \<and> orank (ch_ostate c) \<le> orank (ch_ostate c') \<and>
      ch_flags c AND ch_flags c' = ch_flags c"
    using assms
  proof (cases rule: chan_step.cases)
    case rcvd_ieof
    then show ?thesis
      by (cases "ch_ostate c") (auto simp: chan_rcvd_ieof_def chan_rcvd_eof2_def chan_rcvd_ieof1_def chan_obuf_empty_def
          chan_set_ostate_def chan_send_oclose1_def Let_def keep)
  next
    case rcvd_oclose
    then show ?thesis
      by (cases "ch_istate c"; cases "ch_ostate c") (auto simp: chan_rcvd_oclose_def chan_rcvd_close2_def
          chan_rcvd_oclose1_def chan_set_ostate_def chan_set_istate_def chan_send_eof2_def chan_send_ieof1_def
          Let_def keep or.assoc)
  qed (auto simp: chan_read_failed_def chan_ibuf_empty_def chan_write_failed_def chan_write_failed1_def
      chan_write_failed2_def chan_obuf_empty_def chan_rcvd_eow_def chan_is_dead_def chan_mark_dead_def chan_send_ieof1_def
      chan_send_oclose1_def chan_send_eof2_def chan_send_close2_def chan_send_eow2_def chan_set_ostate_def
      chan_set_istate_def Let_def keep split: chan_istate.splits chan_ostate.splits)
  then show ?thesis using rank_bound(1) [of "ch_istate c'"] rank_bound(2) [of "ch_ostate c'"] by simp
qed

text \<open>Extended data that a peer with \<^verbatim>\<open>SSH_BUG_EXTEOF\<close> still waits for keeps a channel alive.\<close>

definition ext_pending :: "compat_state \<Rightarrow> channel \<Rightarrow> bool" where
  "ext_pending st c \<longleftrightarrow> datafellows st AND SSH_BUG_EXTEOF \<noteq> 0 \<and> ch_extended_usage c = CHAN_EXTENDED_WRITE \<and> ch_efd c \<noteq> -1 \<and> ch_extended c \<noteq> []"

text \<open>C27: a channel of protocol 2 goes away once the peer has closed: after \<open>chan_rcvd_oclose\<close>, as soon as the output has drained (\<open>chan_obuf_empty\<close> on an
  empty buffer), \<open>chan_is_dead\<close> reports the channel dead, unless the peer has \<^verbatim>\<open>SSH_BUG_EXTEOF\<close> and extended data is left for an open
  descriptor, and exactly then it does not.  Of a channel that is neither marked \<^verbatim>\<open>CHAN_LOCAL\<close> nor a zombie it sends the one CLOSE if that is
  still due, and the channel then has both sent and received CLOSE, which was sent once and last; of a local channel and of a zombie it
  sends nothing.\<close>

theorem channel_dies_after_close:
  assumes "compat20 st" "chan_reach st c" "c2 = chan_obuf_empty st ((chan_rcvd_oclose st c)\<lparr>ch_output := []\<rparr>)"
  shows "\<exists>c3. chan_is_dead st c2 True = (ch_type c2 = SSH_CHANNEL_ZOMBIE \<or> \<not> ext_pending st c2, c3) \<and>
    (ch_type c2 \<noteq> SSH_CHANNEL_ZOMBIE \<and> \<not> has_flag CHAN_LOCAL c2 \<and> \<not> ext_pending st c2 \<longrightarrow>
       count_list (msgs c3) SSH2_MSG_CHANNEL_CLOSE = 1 \<and> last (msgs c3) = SSH2_MSG_CHANNEL_CLOSE \<and>
       has_flag CHAN_CLOSE_SENT c3 \<and> has_flag CHAN_CLOSE_RCVD c3) \<and>
    (ch_type c2 = SSH_CHANNEL_ZOMBIE \<or> has_flag CHAN_LOCAL c2 \<or> ext_pending st c2 \<longrightarrow> c3 = c2)"
proof -
  define c1 where "c1 = (chan_rcvd_oclose st c)\<lparr>ch_output := []\<rparr>"
  have inv: "chan_inv2 c" using chan_reach_inv [OF assms(2)] assms(1) by simp
  have r1: "chan_reach st (chan_rcvd_oclose st c)" using assms(2) chan_step.rcvd_oclose by (rule chan_reach.step)
  have "chan_step st (chan_rcvd_oclose st c) c1"
    using chan_step.io [of st "chan_rcvd_oclose st c" "ch_efd (chan_rcvd_oclose st c)"
        "ch_extended (chan_rcvd_oclose st c)" "[]" "ch_input (chan_rcvd_oclose st c)"] by (simp add: c1_def)
  with r1 have "chan_reach st c1" by (rule chan_reach.step)
  then have r2: "chan_reach st c2" unfolding assms(3) c1_def [symmetric] by (rule chan_reach.step) (rule chan_step.obuf_empty)
  have c1: "ch_istate c1 = CHAN_INPUT_CLOSED" "ch_ostate c1 \<in> {CHAN_OUTPUT_WAIT_DRAIN, CHAN_OUTPUT_CLOSED}"
    "has_flag CHAN_LOCAL c1 \<or> has_flag CHAN_CLOSE_RCVD c1" "ch_output c1 = []"
    using assms(1) inv
    by (cases "ch_istate c"; cases "ch_ostate c"; auto simp: c1_def chan_rcvd_oclose_def chan_rcvd_close2_def
      chan_set_istate_def chan_set_ostate_def chan_send_eof2_def has_flag_def chan_flags flag_or Let_def chan_inv2_def)+
  have c2: "ch_istate c2 = CHAN_INPUT_CLOSED" "ch_ostate c2 = CHAN_OUTPUT_CLOSED" "has_flag CHAN_LOCAL c2 \<or> has_flag CHAN_CLOSE_RCVD c2"
    using c1 assms(1) by (auto simp: assms(3) chan_obuf_empty_def chan_set_ostate_def has_flag_def Let_def simp flip: c1_def)
  define c3 where "c3 = snd (chan_is_dead st c2 True)"
  have d: "chan_is_dead st c2 True = (ch_type c2 = SSH_CHANNEL_ZOMBIE \<or> \<not> ext_pending st c2, c3)"
    "ch_type c2 = SSH_CHANNEL_ZOMBIE \<or> has_flag CHAN_LOCAL c2 \<or> ext_pending st c2 \<longrightarrow> c3 = c2"
    "ch_type c2 \<noteq> SSH_CHANNEL_ZOMBIE \<and> \<not> has_flag CHAN_LOCAL c2 \<and> \<not> ext_pending st c2 \<longrightarrow> has_flag CHAN_CLOSE_SENT c3 \<and> has_flag CHAN_CLOSE_RCVD c3"
    using c2 assms(1) by (auto simp: c3_def chan_is_dead_def ext_pending_def chan_send_close2_def has_flag_def chan_flags flag_or Let_def)
  have "chan_reach st c3" unfolding c3_def using r2 chan_step.is_dead by (rule chan_reach.step)
  then have "chan_inv2 c3" using chan_reach_inv assms(1) by fastforce
  then have "has_flag CHAN_CLOSE_SENT c3 \<longrightarrow> count_list (msgs c3) SSH2_MSG_CHANNEL_CLOSE = 1 \<and> last (msgs c3) = SSH2_MSG_CHANNEL_CLOSE"
    by (auto simp: chan_inv2_def)
  with d show ?thesis by blast
qed

theorem channel_dies_after_close_witness:
  "\<exists>c3. chan_is_dead demo2 (chan_obuf_empty demo2 ((chan_rcvd_oclose demo2 demo_chan)\<lparr>ch_output := []\<rparr>)) True = (True, c3) \<and>
    count_list (msgs c3) SSH2_MSG_CHANNEL_CLOSE = 1"
proof -
  have "chan_reach demo2 demo_chan" using demo_fresh by (rule chan_reach.fresh)
  from channel_dies_after_close [OF _ this refl] show ?thesis
    by (auto simp: demo2_def demo_chan_def has_flag_def ext_pending_def chan_obuf_empty_def chan_rcvd_oclose_def chan_rcvd_close2_def chan_set_istate_def
      chan_set_ostate_def chan_send_eof2_def chan_flags flag_or Let_def)
qed

end
