(* ===== verification/Opacket.thy ===== *)
theory Opacket
  imports Kex
begin

text \<open>
  The functions of \<^verbatim>\<open>src/openssh-7.2p2/buffer.c\<close>, \<^verbatim>\<open>bufaux.c\<close> and \<^verbatim>\<open>opacket.c\<close> through which the code above the transport uses buffers
  and packets, on the contents of a buffer or on what is left of a packet.  They end the program, the result \<open>None\<close>, where
  the functions of \<open>Sshbuf\<close> return an error; memory does not run out.
\<close>

section \<open>Buffers\<close>

definition buffer_append :: "byte list \<Rightarrow> byte list \<Rightarrow> byte list option" where
  "buffer_append b data = (if length b + length data > SSHBUF_SIZE_MAX then None else Some (b @ data))"

definition buffer_put_string :: "byte list \<Rightarrow> byte list \<Rightarrow> byte list option" where
  "buffer_put_string b data = buffer_append b (string_enc data)"

definition buffer_consume :: "byte list \<Rightarrow> nat \<Rightarrow> byte list option" where
  "buffer_consume b n = (if n > length b then None else Some (drop n b))"

definition buffer_check_alloc :: "byte list \<Rightarrow> nat \<Rightarrow> bool" where
  "buffer_check_alloc b n \<longleftrightarrow> length b + n \<le> SSHBUF_SIZE_MAX"

section \<open>Packets\<close>

definition packet_get_char :: "byte list \<Rightarrow> (byte \<times> byte list) option" where
  "packet_get_char p = (case p of [] \<Rightarrow> None | c # p \<Rightarrow> Some (c, p))"

definition packet_get_int :: "byte list \<Rightarrow> (32 word \<times> byte list) option" where
  "packet_get_int p = (if length p < 4 then None else Some (peek_u32 p, drop 4 p))"

definition packet_get_string :: "byte list \<Rightarrow> (byte list \<times> byte list) option" where
  "packet_get_string p =
     (case packet_get_int p of None \<Rightarrow> None | Some (n, p) \<Rightarrow>
      if unat n > SSHBUF_SIZE_MAX - 4 \<or> length p < unat n then None else Some (take (unat n) p, drop (unat n) p))"

text \<open>A string without a null byte inside; one at its end is dropped.\<close>

definition packet_get_cstring :: "byte list \<Rightarrow> (string \<times> byte list) option" where
  "packet_get_cstring p =
     (case packet_get_string p of None \<Rightarrow> None | Some (s, p) \<Rightarrow> if 0 \<in> set (butlast s) then None else Some (cstr_of s, p))"

definition buffer_get_string :: "byte list \<Rightarrow> (byte list \<times> byte list) option" where
  "buffer_get_string b = packet_get_string b"

definition packet_check_eom :: "byte list \<Rightarrow> 'a \<Rightarrow> 'a option" where
  "packet_check_eom p x = (if p \<noteq> [] then None else Some x)"

section \<open>Reading what was written\<close>

lemma packet_get_int_enc [simp]: "packet_get_int (poke_u32 n @ p) = Some (n, p)"
  by (simp add: packet_get_int_def)

lemma packet_get_int_only [simp]: "packet_get_int (poke_u32 n) = Some (n, [])"
  using packet_get_int_enc [of n "[]"] by (simp del: packet_get_int_enc)

lemma packet_get_string_enc: "length d \<le> SSHBUF_SIZE_MAX - 4 \<Longrightarrow> packet_get_string (string_enc d) = Some (d, [])"
  by (simp add: packet_get_string_def string_enc_def unat_of_nat SSHBUF_SIZE_MAX_def)

lemma packet_get_char_Cons [simp]: "packet_get_char (c # p) = Some (c, p)"
  by (simp add: packet_get_char_def)

end
