(* ===== verification/Channels.thy ===== *)
theory Channels
  imports Nchan Opacket
begin

unbundle bit_operations_syntax

text \<open>
  Channels of \<^verbatim>\<open>src/openssh-7.2p2/channels.c\<close>: the table of channels, reading and writing of their descriptors, the messages
  that carry their data, and the windows that limit it.  The record \<open>chan\<close> adds to the channel of \<open>Nchan\<close> the members that
  only \<^verbatim>\<open>channels.c\<close> uses; packets sent and descriptors closed are appended to the trace of that channel.  A call of
  \<open>fatal\<close> or \<open>packet_disconnect\<close>, which do not return, is the result \<open>None\<close>.  The results of \<open>read\<close>, \<open>write\<close> and
  \<open>select\<close>, the filters and the callbacks of a channel are arguments.
\<close>

section \<open>State\<close>

definition CHAN_RBUF :: nat where "CHAN_RBUF = 16 * 1024"
definition SSH2_EXTENDED_DATA_STDERR :: "32 word" where "SSH2_EXTENDED_DATA_STDERR = 1"

record chan =
  cd :: channel
  cd_self :: int
  cd_isatty :: bool
  cd_force_drain :: bool
  cd_delayed :: bool
  cd_remote_window :: "32 word"
  cd_remote_maxpacket :: "32 word"
  cd_local_window :: "32 word"
  cd_local_window_max :: "32 word"
  cd_local_consumed :: "32 word"
  cd_local_maxpacket :: "32 word"
  cd_detach_user :: bool
  cd_detach_close :: bool
  cd_datagram :: bool

text \<open>The filters and the callback of a channel, null or not; a filter of input says whether it did not return -1.\<close>

record chan_env =
  ce_state :: compat_state
  ce_interactive :: bool
  ce_maxsize :: "32 word"
  ce_input_filter :: "(chan \<Rightarrow> byte list \<Rightarrow> bool \<times> chan) option"
  ce_output_filter :: "(chan \<Rightarrow> (byte list \<times> chan) option) option"
  ce_open_confirm :: "(bool \<Rightarrow> chan \<Rightarrow> chan) option"
  ce_detach_user :: "chan \<Rightarrow> chan"

text \<open>The results of system calls; \<open>Read []\<close> is the end of the file.\<close>

datatype io_read = Read "byte list" | Read_EINTR | Read_EAGAIN | Read_error
datatype io_write = Write nat | Write_again | Write_error

record chan_io =
  io_rfd_set :: bool
  io_read :: io_read
  io_wfd_set :: bool
  io_write :: io_write
  io_noecho :: bool  \<comment> \<open>\<open>tcgetattr\<close> succeeds and the terminal is in canonical mode without echo\<close>
  io_efd_rset :: bool
  io_efd_wset :: bool
  io_eread :: io_read
  io_ewrite :: io_write

datatype read_outcome = Again | Failed | Data "byte list"

definition outcome_of :: "io_read \<Rightarrow> bool \<Rightarrow> read_outcome" where
  "outcome_of r force =
     (case r of
        Read buf \<Rightarrow> if buf = [] then Failed else Data buf
      | Read_EINTR \<Rightarrow> Again
      | Read_EAGAIN \<Rightarrow> if force then Failed else Again
      | Read_error \<Rightarrow> Failed)"

definition on_base :: "(channel \<Rightarrow> channel) \<Rightarrow> chan \<Rightarrow> chan" where
  "on_base f c = c\<lparr>cd := f (cd c)\<rparr>"

definition set_input :: "byte list \<Rightarrow> chan \<Rightarrow> chan" where "set_input v = on_base (\<lambda>b. b\<lparr>ch_input := v\<rparr>)"
definition set_output :: "byte list \<Rightarrow> chan \<Rightarrow> chan" where "set_output v = on_base (\<lambda>b. b\<lparr>ch_output := v\<rparr>)"
definition set_extended :: "byte list \<Rightarrow> chan \<Rightarrow> chan" where "set_extended v = on_base (\<lambda>b. b\<lparr>ch_extended := v\<rparr>)"

section \<open>The table\<close>

type_synonym channels = "chan option list"

definition channel_by_id :: "channels \<Rightarrow> int \<Rightarrow> chan option" where
  "channel_by_id tab i = (if i < 0 \<or> nat i \<ge> length tab then None else tab ! nat i)"

definition public_type :: "chan_type \<Rightarrow> bool" where
  "public_type ty \<longleftrightarrow> ty \<in> {SSH_CHANNEL_X11_OPEN, SSH_CHANNEL_LARVAL, SSH_CHANNEL_CONNECTING, SSH_CHANNEL_DYNAMIC, SSH_CHANNEL_OPENING, SSH_CHANNEL_OPEN,
     SSH_CHANNEL_INPUT_DRAINING, SSH_CHANNEL_OUTPUT_DRAINING, SSH_CHANNEL_ABANDONED}"

definition channel_lookup :: "channels \<Rightarrow> int \<Rightarrow> chan option" where
  "channel_lookup tab i =
     (case channel_by_id tab i of None \<Rightarrow> None | Some c \<Rightarrow> if public_type (ch_type (cd c)) then Some c else None)"

definition channel_register_fds :: "chan \<Rightarrow> int \<Rightarrow> int \<Rightarrow> int \<Rightarrow> chan_extended \<Rightarrow> bool \<Rightarrow> chan" where
  "channel_register_fds c rfd wfd efd extusage is_tty =
     (on_base (\<lambda>b. b\<lparr>ch_rfd := rfd, ch_wfd := wfd, ch_sock := (if rfd = wfd then rfd else -1), ch_efd := efd, ch_extended_usage := extusage\<rparr>) c)
       \<lparr>cd_isatty := is_tty\<rparr>"

definition zero_channel :: channel where
  "zero_channel = \<lparr>ch_type = SSH_CHANNEL_OPEN, ch_remote_id = -1, ch_istate = CHAN_INPUT_OPEN, ch_ostate = CHAN_OUTPUT_OPEN, ch_flags = 0, ch_rfd = -1, ch_wfd = -1,
     ch_efd = -1, ch_sock = -1, ch_input = [], ch_output = [], ch_extended = [], ch_extended_usage = CHAN_EXTENDED_IGNORE, ch_ctype = [], ch_trace = []\<rparr>"

definition fresh_chan :: "string \<Rightarrow> chan_type \<Rightarrow> int \<Rightarrow> int \<Rightarrow> int \<Rightarrow> 32 word \<Rightarrow> 32 word \<Rightarrow> chan_extended \<Rightarrow> int \<Rightarrow> chan" where
  "fresh_chan ctype type rfd wfd efd window maxpack extusage self =
     channel_register_fds
       \<lparr>cd = zero_channel\<lparr>ch_type := type, ch_ctype := ctype\<rparr>, cd_self = self, cd_isatty = False, cd_force_drain = False, cd_delayed = True,
        cd_remote_window = 0, cd_remote_maxpacket = 0, cd_local_window = window, cd_local_window_max = window, cd_local_consumed = 0,
        cd_local_maxpacket = maxpack, cd_detach_user = False, cd_detach_close = False, cd_datagram = False\<rparr> rfd wfd efd extusage False"

text \<open>The first free slot, or ten more slots.\<close>

fun free_slot :: "channels \<Rightarrow> nat" where
  "free_slot [] = 0"
| "free_slot (None # tab) = 0"
| "free_slot (Some c # tab) = Suc (free_slot tab)"

definition channel_new ::
  "string \<Rightarrow> chan_type \<Rightarrow> int \<Rightarrow> int \<Rightarrow> int \<Rightarrow> 32 word \<Rightarrow> 32 word \<Rightarrow> chan_extended \<Rightarrow> channels \<Rightarrow> (chan \<times> channels) option" where
  "channel_new ctype type rfd wfd efd window maxpack extusage tab =
     (let tab = (if tab = [] then replicate 10 None else tab);
          found = free_slot tab
      in if found = length tab \<and> length tab > 10000 then None
         else let tab = (if found = length tab then tab @ replicate 10 None else tab);
                  c = fresh_chan ctype type rfd wfd efd window maxpack extusage (int found)
              in Some (c, tab[found := Some c]))"

definition channel_close_fd :: "int \<Rightarrow> channel \<Rightarrow> channel" where
  "channel_close_fd fd b = (if fd \<noteq> -1 then event (Close fd) b else b)"

definition close_efd :: "channel \<Rightarrow> channel" where
  "close_efd b = (channel_close_fd (ch_efd b) b)\<lparr>ch_efd := -1\<rparr>"

definition channel_close_fds :: "channel \<Rightarrow> channel" where
  "channel_close_fds b =
     (let b = (channel_close_fd (ch_sock b) b)\<lparr>ch_sock := -1\<rparr>; b = (channel_close_fd (ch_rfd b) b)\<lparr>ch_rfd := -1\<rparr>;
          b = (channel_close_fd (ch_wfd b) b)\<lparr>ch_wfd := -1\<rparr>
      in close_efd b)"

text \<open>The calls that \<open>channel_free\<close> makes on the descriptors, and the table without the channel.\<close>

definition channel_free :: "chan \<Rightarrow> channels \<Rightarrow> chan_event list \<times> channels" where
  "channel_free c tab =
     (let b = cd c; b = (if ch_sock b \<noteq> -1 then event (Shutdown_RDWR (ch_sock b)) b else b)
      in (drop (length (ch_trace (cd c))) (ch_trace (channel_close_fds b)), tab[nat (cd_self c) := None]))"

section \<open>Descriptors of an open channel\<close>

text \<open>What a failed \<open>read\<close> or \<open>write\<close> leads to.  The results that the functions return to their callers are not used and left out.\<close>

definition read_fails :: "chan_env \<Rightarrow> chan \<Rightarrow> chan" where
  "read_fails E c =
     (if ch_type (cd c) \<noteq> SSH_CHANNEL_OPEN then on_base chan_mark_dead c
      else if compat13 (ce_state E) then on_base (\<lambda>b. b\<lparr>ch_output := [], ch_type := SSH_CHANNEL_INPUT_DRAINING\<rparr>) c
      else on_base (chan_read_failed (ce_state E)) c)"

definition channel_handle_rfd :: "chan_env \<Rightarrow> chan_io \<Rightarrow> chan \<Rightarrow> chan option" where
  "channel_handle_rfd E io c =
     (let b = cd c; force = (cd_isatty c \<and> cd_detach_close c \<and> ch_istate b \<noteq> CHAN_INPUT_CLOSED)
      in if ch_rfd b \<noteq> -1 \<and> (force \<or> io_rfd_set io) then
           (case outcome_of (io_read io) force of
              Again \<Rightarrow> Some c
            | Failed \<Rightarrow> Some (read_fails E c)
            | Data buf \<Rightarrow>
                (case ce_input_filter E of
                   Some filt \<Rightarrow> (case filt c buf of (ok, c) \<Rightarrow> Some (if ok then c else on_base (chan_read_failed (ce_state E)) c))
                 | None \<Rightarrow> map_option (\<lambda>v. set_input v c) (if cd_datagram c then buffer_put_string (ch_input b) buf else buffer_append (ch_input b) buf)))
         else Some c)"

text \<open>What is to be written: the result of the filter, the first datagram, or the whole buffer; a filter that stops gives \<open>None\<close> inside.\<close>

definition write_data :: "chan_env \<Rightarrow> chan \<Rightarrow> (byte list option \<times> chan) option" where
  "write_data E c =
     (case ce_output_filter E of
        Some filt \<Rightarrow> Some (case filt c of None \<Rightarrow> (None, c) | Some (buf, c) \<Rightarrow> (Some buf, c))
      | None \<Rightarrow>
          if cd_datagram c then map_option (\<lambda>(buf, rest). (Some buf, set_output rest c)) (buffer_get_string (ch_output (cd c)))
          else Some (Some (ch_output (cd c)), c))"

definition write_fails :: "chan_env \<Rightarrow> chan \<Rightarrow> chan" where
  "write_fails E c = (if ch_type (cd c) \<noteq> SSH_CHANNEL_OPEN then on_base chan_mark_dead c else on_base (chan_write_failed (ce_state E)) c)"

definition stream_write_fails :: "chan_env \<Rightarrow> chan \<Rightarrow> chan" where
  "stream_write_fails E c =
     (if ch_type (cd c) = SSH_CHANNEL_OPEN \<and> compat13 (ce_state E)
      then on_base (\<lambda>b. b\<lparr>ch_output := [], ch_type := SSH_CHANNEL_INPUT_DRAINING\<rparr>) c
      else write_fails E c)"

definition count_consumed :: "chan_env \<Rightarrow> nat \<Rightarrow> chan \<Rightarrow> chan" where
  "count_consumed E olen c =
     (if compat20 (ce_state E) \<and> olen > 0
      then c\<lparr>cd_local_consumed := cd_local_consumed c + (of_nat olen - of_nat (length (ch_output (cd c))))\<rparr> else c)"

definition channel_handle_wfd :: "chan_env \<Rightarrow> chan_io \<Rightarrow> chan \<Rightarrow> chan option" where
  "channel_handle_wfd E io c =
     (if ch_wfd (cd c) \<noteq> -1 \<and> io_wfd_set io \<and> ch_output (cd c) \<noteq> [] then
        let olen = length (ch_output (cd c))
        in case write_data E c of
             None \<Rightarrow> None
           | Some (None, c) \<Rightarrow> Some (write_fails E c)
           | Some (Some buf, c) \<Rightarrow>
               if cd_datagram c then
                 (case io_write io of
                    Write_again \<Rightarrow> Some c
                  | Write_error \<Rightarrow> Some (write_fails E c)
                  | Write len \<Rightarrow> if len = 0 then Some (write_fails E c) else Some (count_consumed E olen c))
               else
                 (case io_write io of
                    Write_again \<Rightarrow> Some c
                  | Write_error \<Rightarrow> Some (stream_write_fails E c)
                  | Write len \<Rightarrow>
                      if len = 0 then Some (stream_write_fails E c)
                      else
                        let c = (if compat20 (ce_state E) \<and> cd_isatty c \<and> buf \<noteq> [] \<and> hd buf \<noteq> 13 \<and> io_noecho io
                                 then on_base (event (Sent_ignore (4 + len))) c else c)
                        in map_option (\<lambda>v. count_consumed E olen (set_output v c)) (buffer_consume (ch_output (cd c)) len))
      else Some c)"

definition channel_handle_efd :: "chan_env \<Rightarrow> chan_io \<Rightarrow> chan \<Rightarrow> chan option" where
  "channel_handle_efd E io c =
     (let b = cd c
      in if ch_efd b = -1 then Some c
         else if ch_extended_usage b = CHAN_EXTENDED_WRITE \<and> io_efd_wset io \<and> ch_extended b \<noteq> [] then
           (case io_ewrite io of
              Write_again \<Rightarrow> Some c
            | Write_error \<Rightarrow> Some (on_base close_efd c)
            | Write len \<Rightarrow>
                if len = 0 then Some (on_base close_efd c)
                else map_option (\<lambda>v. (set_extended v c)\<lparr>cd_local_consumed := cd_local_consumed c + of_nat len\<rparr>) (buffer_consume (ch_extended b) len))
         else if ch_extended_usage b \<in> {CHAN_EXTENDED_READ, CHAN_EXTENDED_IGNORE} \<and> (cd_detach_close c \<or> io_efd_rset io) then
           (case outcome_of (io_eread io) (cd_detach_close c) of
              Again \<Rightarrow> Some c
            | Failed \<Rightarrow> Some (on_base close_efd c)
            | Data buf \<Rightarrow>
                if ch_extended_usage b = CHAN_EXTENDED_IGNORE then Some c
                else map_option (\<lambda>v. set_extended v c) (buffer_append (ch_extended b) buf))
         else Some c)"

definition channel_check_window :: "chan \<Rightarrow> chan" where
  "channel_check_window c =
     (if ch_type (cd c) = SSH_CHANNEL_OPEN \<and> \<not> has_flag (CHAN_CLOSE_SENT OR CHAN_CLOSE_RCVD) (cd c) \<and>
         (cd_local_window_max c - cd_local_window c > cd_local_maxpacket c * 3 \<or> cd_local_window c < cd_local_window_max c div 2) \<and>
         cd_local_consumed c > 0
      then (on_base (packet_send (SSH2_MSG_CHANNEL_WINDOW_ADJUST (cd_local_consumed c))) c)
             \<lparr>cd_local_window := cd_local_window c + cd_local_consumed c, cd_local_consumed := 0\<rparr>
      else c)"

definition channel_post_open :: "chan_env \<Rightarrow> chan_io \<Rightarrow> chan \<Rightarrow> chan option" where
  "channel_post_open E io c =
     Option.bind (channel_handle_rfd E io c) (\<lambda>c. Option.bind (channel_handle_wfd E io c) (\<lambda>c.
       if \<not> compat20 (ce_state E) then Some c else map_option channel_check_window (channel_handle_efd E io c)))"

text \<open>The descriptors to wait for: reading and writing of the channel, writing and reading of the extended one.\<close>

definition channel_pre_open :: "chan_env \<Rightarrow> chan \<Rightarrow> (bool \<times> bool \<times> bool \<times> bool) \<times> chan" where
  "channel_pre_open E c =
     (let st = ce_state E; b = cd c; limit = (if compat20 st then cd_remote_window c else ce_maxsize E);
          rd = (ch_istate b = CHAN_INPUT_OPEN \<and> limit > 0 \<and> of_nat (length (ch_input b)) < limit \<and> buffer_check_alloc (ch_input b) CHAN_RBUF);
          out = (ch_ostate b \<in> {CHAN_OUTPUT_OPEN, CHAN_OUTPUT_WAIT_DRAIN});
          wr = (out \<and> ch_output b \<noteq> []);
          b = (if out \<and> ch_output b = [] \<and> ch_ostate b = CHAN_OUTPUT_WAIT_DRAIN \<and> \<not> CHANNEL_EFD_OUTPUT_ACTIVE st b then chan_obuf_empty st b else b);
          ext = (compat20 st \<and> ch_efd b \<noteq> -1 \<and> \<not> (ch_istate b = CHAN_INPUT_CLOSED \<and> ch_ostate b = CHAN_OUTPUT_CLOSED));
          ewr = (ext \<and> ch_extended_usage b = CHAN_EXTENDED_WRITE \<and> ch_extended b \<noteq> []);
          erd = (ext \<and> \<not> ewr \<and> \<not> has_flag CHAN_EOF_SENT b \<and> ch_extended_usage b \<in> {CHAN_EXTENDED_READ, CHAN_EXTENDED_IGNORE} \<and>
                 of_nat (length (ch_extended b)) < cd_remote_window c)
      in ((rd, wr, ewr, erd), c\<lparr>cd := b\<rparr>))"

section \<open>Sending\<close>

definition CHANNEL_EFD_INPUT_ACTIVE :: "compat_state \<Rightarrow> channel \<Rightarrow> bool" where
  "CHANNEL_EFD_INPUT_ACTIVE st b \<longleftrightarrow> compat20 st \<and> ch_extended_usage b = CHAN_EXTENDED_READ \<and> (ch_efd b \<noteq> -1 \<or> ch_extended b \<noteq> [])"

definition poll_active :: "chan_env \<Rightarrow> chan \<Rightarrow> bool" where
  "poll_active E c \<longleftrightarrow>
     (ch_type (cd c) = SSH_CHANNEL_OPEN \<or> (compat13 (ce_state E) \<and> ch_type (cd c) = SSH_CHANNEL_INPUT_DRAINING)) \<and>
     \<not> (compat20 (ce_state E) \<and> has_flag (CHAN_CLOSE_SENT OR CHAN_CLOSE_RCVD) (cd c))"

text \<open>The next datagram, which is dropped if it is too big; then the channel is done.\<close>

definition poll_datagram :: "chan \<Rightarrow> chan option" where
  "poll_datagram c =
     (case buffer_get_string (ch_input (cd c)) of None \<Rightarrow> None | Some (data, rest) \<Rightarrow>
      let dlen = of_nat (length data); c = set_input rest c
      in if dlen > cd_remote_window c \<or> dlen > cd_remote_maxpacket c then Some c
         else Some ((on_base (packet_send (SSH2_MSG_CHANNEL_DATA data)) c)\<lparr>cd_remote_window := cd_remote_window c - dlen\<rparr>))"

definition poll_len :: "chan_env \<Rightarrow> chan \<Rightarrow> 32 word" where
  "poll_len E c =
     (let len = of_nat (length (ch_input (cd c)))
      in if compat20 (ce_state E) then min (min len (cd_remote_window c)) (cd_remote_maxpacket c)
         else if ce_interactive E then (if len > 1024 then 512 else len)
         else if len > ce_maxsize E div 2 then ce_maxsize E div 2 else len)"

definition poll_stream :: "chan_env \<Rightarrow> chan \<Rightarrow> chan option" where
  "poll_stream E c =
     (let len = poll_len E c; data = take (unat len) (ch_input (cd c))
      in if len > 0 then
           map_option (\<lambda>v. (set_input v (on_base (packet_send (if compat20 (ce_state E) then SSH2_MSG_CHANNEL_DATA data else SSH_MSG_CHANNEL_DATA data)) c))
             \<lparr>cd_remote_window := cd_remote_window c - len\<rparr>) (buffer_consume (ch_input (cd c)) (unat len))
         else Some c)"

definition poll_extended :: "chan_env \<Rightarrow> chan \<Rightarrow> chan option" where
  "poll_extended E c =
     (let b = cd c
      in if compat20 (ce_state E) \<and> \<not> has_flag CHAN_EOF_SENT b \<and> cd_remote_window c > 0 \<and> ch_extended b \<noteq> [] \<and> ch_extended_usage b = CHAN_EXTENDED_READ then
           let len = min (min (of_nat (length (ch_extended b))) (cd_remote_window c)) (cd_remote_maxpacket c)
           in map_option (\<lambda>v. (set_extended v (on_base (packet_send (SSH2_MSG_CHANNEL_EXTENDED_DATA SSH2_EXTENDED_DATA_STDERR (take (unat len) (ch_extended b)))) c))
                \<lparr>cd_remote_window := cd_remote_window c - len\<rparr>) (buffer_consume (ch_extended b) (unat len))
         else Some c)"

definition poll_input :: "chan_env \<Rightarrow> chan \<Rightarrow> chan option" where
  "poll_input E c =
     (let b = cd c
      in if ch_istate b \<in> {CHAN_INPUT_OPEN, CHAN_INPUT_WAIT_DRAIN} \<and> ch_input b \<noteq> [] then poll_stream E c
         else if ch_istate b = CHAN_INPUT_WAIT_DRAIN then
           if compat13 (ce_state E) then None
           else Some (if CHANNEL_EFD_INPUT_ACTIVE (ce_state E) b then c else on_base (chan_ibuf_empty (ce_state E)) c)
         else Some c)"

definition output_poll_one :: "chan_env \<Rightarrow> chan \<Rightarrow> chan option" where
  "output_poll_one E c =
     (if \<not> poll_active E c then Some c
      else if ch_istate (cd c) \<in> {CHAN_INPUT_OPEN, CHAN_INPUT_WAIT_DRAIN} \<and> ch_input (cd c) \<noteq> [] \<and> cd_datagram c then poll_datagram c
      else Option.bind (poll_input E c) (poll_extended E))"

fun channel_output_poll :: "chan_env \<Rightarrow> channels \<Rightarrow> channels option" where
  "channel_output_poll E [] = Some []"
| "channel_output_poll E (slot # tab) =
     (case (case slot of None \<Rightarrow> Some None | Some c \<Rightarrow> map_option Some (output_poll_one E c)) of
        None \<Rightarrow> None
      | Some slot \<Rightarrow> map_option (\<lambda>tab. slot # tab) (channel_output_poll E tab))"

section \<open>Messages\<close>

text \<open>A handler for the channel that the packet names; \<open>missing\<close> is what happens if there is none.\<close>

definition for_channel :: "channels \<Rightarrow> byte list \<Rightarrow> channels option \<Rightarrow> (chan \<Rightarrow> byte list \<Rightarrow> chan option) \<Rightarrow> channels option" where
  "for_channel tab p missing f =
     (case packet_get_int p of None \<Rightarrow> None | Some (i, p) \<Rightarrow>
      case channel_lookup tab (sint i) of None \<Rightarrow> missing | Some c \<Rightarrow> map_option (\<lambda>c. tab[nat (sint i) := Some c]) (f c p))"

definition input_data :: "chan_env \<Rightarrow> chan \<Rightarrow> byte list \<Rightarrow> chan option" where
  "input_data E c p =
     (let st = ce_state E; b = cd c
      in if ch_type b \<notin> {SSH_CHANNEL_OPEN, SSH_CHANNEL_X11_OPEN} then Some c
         else case packet_get_string p of None \<Rightarrow> None | Some (data, p) \<Rightarrow>
           let win_len = of_nat (length data) + (if cd_datagram c then 4 else 0)
           in if \<not> compat13 st \<and> ch_ostate b \<noteq> CHAN_OUTPUT_OPEN then
                Some (if compat20 st then c\<lparr>cd_local_window := cd_local_window c - win_len, cd_local_consumed := cd_local_consumed c + win_len\<rparr> else c)
              else if compat20 st \<and> win_len > cd_local_window c then Some c
              else
                let c = (if compat20 st then c\<lparr>cd_local_window := cd_local_window c - win_len\<rparr> else c)
                in case (if cd_datagram c then buffer_put_string (ch_output b) data else buffer_append (ch_output b) data) of
                     None \<Rightarrow> None
                   | Some v \<Rightarrow> packet_check_eom p (set_output v c))"

definition channel_input_data :: "chan_env \<Rightarrow> channels \<Rightarrow> byte list \<Rightarrow> channels option" where
  "channel_input_data E tab p = for_channel tab p None (input_data E)"

definition input_extended_data :: "chan_env \<Rightarrow> chan \<Rightarrow> byte list \<Rightarrow> chan option" where
  "input_extended_data E c p =
     (let st = ce_state E; b = cd c
      in if ch_type b \<noteq> SSH_CHANNEL_OPEN then Some c
         else if has_flag CHAN_EOF_RCVD b \<and> datafellows st AND SSH_BUG_EXTEOF = 0 then None
         else case packet_get_int p of None \<Rightarrow> None | Some (tcode, p) \<Rightarrow>
           if ch_efd b = -1 \<or> ch_extended_usage b \<noteq> CHAN_EXTENDED_WRITE \<or> tcode \<noteq> SSH2_EXTENDED_DATA_STDERR then Some c
           else case packet_get_string p of None \<Rightarrow> None | Some (data, p) \<Rightarrow>
             if p \<noteq> [] then None
             else if of_nat (length data) > cd_local_window c then Some c
             else map_option (\<lambda>v. (set_extended v c)\<lparr>cd_local_window := cd_local_window c - of_nat (length data)\<rparr>) (buffer_append (ch_extended b) data))"

definition channel_input_extended_data :: "chan_env \<Rightarrow> channels \<Rightarrow> byte list \<Rightarrow> channels option" where
  "channel_input_extended_data E tab p = for_channel tab p None (input_extended_data E)"

definition input_ieof :: "chan_env \<Rightarrow> chan \<Rightarrow> chan" where
  "input_ieof E c =
     (let st = ce_state E; c = on_base (chan_rcvd_ieof st) c
      in if cd_force_drain c \<and> ch_istate (cd c) = CHAN_INPUT_OPEN then
           let c = on_base (\<lambda>b. b\<lparr>ch_istate := CHAN_INPUT_WAIT_DRAIN\<rparr>) c
           in if ch_input (cd c) = [] then on_base (chan_ibuf_empty st) c else c
         else c)"

definition channel_input_ieof :: "chan_env \<Rightarrow> channels \<Rightarrow> byte list \<Rightarrow> channels option" where
  "channel_input_ieof E tab p = for_channel tab p None (\<lambda>c p. packet_check_eom p (input_ieof E c))"

definition input_close :: "chan \<Rightarrow> chan" where
  "input_close c =
     (let c = on_base (packet_send SSH_MSG_CHANNEL_CLOSE_CONFIRMATION) c
      in if ch_type (cd c) \<noteq> SSH_CHANNEL_CLOSED then on_base (\<lambda>b. b\<lparr>ch_input := [], ch_type := SSH_CHANNEL_OUTPUT_DRAINING\<rparr>) c else c)"

definition channel_input_close :: "channels \<Rightarrow> byte list \<Rightarrow> channels option" where
  "channel_input_close tab p = for_channel tab p None (\<lambda>c p. packet_check_eom p (input_close c))"

definition channel_input_oclose :: "chan_env \<Rightarrow> channels \<Rightarrow> byte list \<Rightarrow> channels option" where
  "channel_input_oclose E tab p = for_channel tab p None (\<lambda>c p. packet_check_eom p (on_base (chan_rcvd_oclose (ce_state E)) c))"

definition channel_input_close_confirmation :: "channels \<Rightarrow> byte list \<Rightarrow> channels option" where
  "channel_input_close_confirmation tab p =
     (case packet_get_int p of None \<Rightarrow> None | Some (i, p) \<Rightarrow>
      if p \<noteq> [] then None
      else case channel_lookup tab (sint i) of None \<Rightarrow> None | Some c \<Rightarrow>
        if ch_type (cd c) \<notin> {SSH_CHANNEL_CLOSED, SSH_CHANNEL_ABANDONED} then None else Some (snd (channel_free c tab)))"

text \<open>The answers to the request for a channel; the callback is called in protocol 2 only.\<close>

definition confirm :: "chan_env \<Rightarrow> bool \<Rightarrow> chan \<Rightarrow> chan" where
  "confirm E ok c = (case ce_open_confirm E of None \<Rightarrow> c | Some f \<Rightarrow> f ok c)"

definition input_open_confirmation :: "chan_env \<Rightarrow> chan \<Rightarrow> byte list \<Rightarrow> chan option" where
  "input_open_confirmation E c p =
     (if ch_type (cd c) \<noteq> SSH_CHANNEL_OPENING then None
      else case packet_get_int p of None \<Rightarrow> None | Some (remote_id, p) \<Rightarrow>
        let c = on_base (\<lambda>b. b\<lparr>ch_remote_id := sint remote_id, ch_type := SSH_CHANNEL_OPEN\<rparr>) c
        in if compat20 (ce_state E) then
             (case packet_get_int p of None \<Rightarrow> None | Some (window, p) \<Rightarrow>
              case packet_get_int p of None \<Rightarrow> None | Some (maxpacket, p) \<Rightarrow>
                packet_check_eom p (confirm E True (c\<lparr>cd_remote_window := window, cd_remote_maxpacket := maxpacket\<rparr>)))
           else packet_check_eom p c)"

definition channel_input_open_confirmation :: "chan_env \<Rightarrow> channels \<Rightarrow> byte list \<Rightarrow> channels option" where
  "channel_input_open_confirmation E tab p = for_channel tab p None (input_open_confirmation E)"

definition input_open_failure :: "chan_env \<Rightarrow> chan \<Rightarrow> byte list \<Rightarrow> chan option" where
  "input_open_failure E c p =
     (if ch_type (cd c) \<noteq> SSH_CHANNEL_OPENING then None
      else
        let rest =
          (if compat20 (ce_state E) then
             case packet_get_int p of None \<Rightarrow> None | Some (reason, p) \<Rightarrow>
             if datafellows (ce_state E) AND SSH_BUG_OPENFAILURE \<noteq> 0 then Some p
             else case packet_get_string p of None \<Rightarrow> None | Some (msg, p) \<Rightarrow> map_option snd (packet_get_string p)
           else Some p)
        in case rest of None \<Rightarrow> None | Some p \<Rightarrow>
             let c = (if compat20 (ce_state E) then confirm E False c else c)
             in packet_check_eom p (on_base chan_mark_dead c))"

definition channel_input_open_failure :: "chan_env \<Rightarrow> channels \<Rightarrow> byte list \<Rightarrow> channels option" where
  "channel_input_open_failure E tab p = for_channel tab p None (input_open_failure E)"

definition input_window_adjust :: "chan \<Rightarrow> byte list \<Rightarrow> chan option" where
  "input_window_adjust c p =
     (case packet_get_int p of None \<Rightarrow> None | Some (adjust, p) \<Rightarrow>
      if p \<noteq> [] then None
      else if cd_remote_window c + adjust < cd_remote_window c then None
      else Some (c\<lparr>cd_remote_window := cd_remote_window c + adjust\<rparr>))"

definition channel_input_window_adjust :: "chan_env \<Rightarrow> channels \<Rightarrow> byte list \<Rightarrow> channels option" where
  "channel_input_window_adjust E tab p =
     (if \<not> compat20 (ce_state E) then Some tab else for_channel tab p (Some tab) input_window_adjust)"

section \<open>Life of a channel\<close>

text \<open>A larval channel gets its descriptors, and its peer the first window.\<close>

definition channel_set_fds :: "channels \<Rightarrow> int \<Rightarrow> int \<Rightarrow> int \<Rightarrow> int \<Rightarrow> chan_extended \<Rightarrow> bool \<Rightarrow> 32 word \<Rightarrow> channels option" where
  "channel_set_fds tab i rfd wfd efd extusage is_tty window_max =
     (case channel_lookup tab i of None \<Rightarrow> None | Some c \<Rightarrow>
      if ch_type (cd c) \<noteq> SSH_CHANNEL_LARVAL then None
      else
        let c = on_base (\<lambda>b. b\<lparr>ch_type := SSH_CHANNEL_OPEN\<rparr>) (channel_register_fds c rfd wfd efd extusage is_tty);
            c = c\<lparr>cd_local_window := window_max, cd_local_window_max := window_max\<rparr>
        in Some (tab[nat i := Some (on_base (packet_send (SSH2_MSG_CHANNEL_WINDOW_ADJUST window_max)) c)]))"

definition channel_send_open :: "channels \<Rightarrow> int \<Rightarrow> channels" where
  "channel_send_open tab i =
     (case channel_lookup tab i of None \<Rightarrow> tab | Some c \<Rightarrow>
      tab[nat i := Some (on_base (packet_send (SSH2_MSG_CHANNEL_OPEN (ch_ctype (cd c)) (of_int (cd_self c)) (cd_local_window c) (cd_local_maxpacket c))) c)])"

definition channel_pre_input_draining :: "chan \<Rightarrow> chan" where
  "channel_pre_input_draining c =
     (if ch_input (cd c) = [] then on_base (\<lambda>b. (packet_send SSH_MSG_CHANNEL_CLOSE b)\<lparr>ch_type := SSH_CHANNEL_CLOSED\<rparr>) c else c)"

text \<open>Whether the socket is to be waited for.\<close>

definition channel_pre_output_draining :: "chan \<Rightarrow> bool \<times> chan" where
  "channel_pre_output_draining c = (if ch_output (cd c) = [] then (False, on_base chan_mark_dead c) else (True, c))"

definition channel_post_output_drain_13 :: "chan_io \<Rightarrow> chan \<Rightarrow> chan option" where
  "channel_post_output_drain_13 io c =
     (if io_wfd_set io \<and> ch_output (cd c) \<noteq> [] then
        (case io_write io of
           Write len \<Rightarrow> if len = 0 then Some (set_output [] c) else map_option (\<lambda>v. set_output v c) (buffer_consume (ch_output (cd c)) len)
         | _ \<Rightarrow> Some (set_output [] c))
      else Some c)"

text \<open>What remains of a channel after garbage collection, if anything.\<close>

definition collect :: "chan_env \<Rightarrow> chan \<Rightarrow> chan option" where
  "collect E c = (case chan_is_dead (ce_state E) (cd c) True of (dead, b) \<Rightarrow> if dead then None else Some (c\<lparr>cd := b\<rparr>))"

definition channel_garbage_collect :: "chan_env \<Rightarrow> chan \<Rightarrow> chan option" where
  "channel_garbage_collect E c =
     (if cd_detach_user c then
        (case chan_is_dead (ce_state E) (cd c) (cd_detach_close c) of (dead, b) \<Rightarrow>
           let c = c\<lparr>cd := b\<rparr>
           in if \<not> dead then Some c
              else let c = ce_detach_user E c in if cd_detach_user c then Some c else collect E c)
      else collect E c)"

text \<open>Queries over the table; \<open>None\<close> is a channel that must not exist.\<close>

definition channel_not_very_much_buffered_data :: "chan_env \<Rightarrow> channels \<Rightarrow> bool" where
  "channel_not_very_much_buffered_data E tab \<longleftrightarrow>
     list_all (\<lambda>slot. case slot of None \<Rightarrow> True | Some c \<Rightarrow>
       ch_type (cd c) = SSH_CHANNEL_OPEN \<longrightarrow> of_nat (length (ch_output (cd c))) \<le> ce_maxsize E) tab"

fun channel_still_open :: "compat_state \<Rightarrow> channels \<Rightarrow> bool option" where
  "channel_still_open st [] = Some False"
| "channel_still_open st (None # tab) = channel_still_open st tab"
| "channel_still_open st (Some c # tab) =
     (if ch_type (cd c) \<in> {SSH_CHANNEL_OPENING, SSH_CHANNEL_OPEN, SSH_CHANNEL_X11_OPEN, SSH_CHANNEL_MUX_CLIENT} then Some True
      else if ch_type (cd c) \<in> {SSH_CHANNEL_INPUT_DRAINING, SSH_CHANNEL_OUTPUT_DRAINING} then (if compat13 st then Some True else None)
      else if ch_type (cd c) = SSH_CHANNEL_LARVAL \<and> \<not> compat20 st then None
      else channel_still_open st tab)"

fun find_open_from :: "compat_state \<Rightarrow> int \<Rightarrow> channels \<Rightarrow> int option" where
  "find_open_from st i [] = Some (-1)"
| "find_open_from st i (None # tab) = find_open_from st (i + 1) tab"
| "find_open_from st i (Some c # tab) =
     (if ch_remote_id (cd c) < 0 then find_open_from st (i + 1) tab
      else if ch_type (cd c) \<in> {SSH_CHANNEL_LARVAL, SSH_CHANNEL_AUTH_SOCKET, SSH_CHANNEL_OPEN, SSH_CHANNEL_X11_OPEN} then Some i
      else if ch_type (cd c) \<in> {SSH_CHANNEL_INPUT_DRAINING, SSH_CHANNEL_OUTPUT_DRAINING} then (if compat13 st then Some i else None)
      else find_open_from st (i + 1) tab)"

definition channel_find_open :: "compat_state \<Rightarrow> channels \<Rightarrow> int option" where
  "channel_find_open st tab = find_open_from st 0 tab"

end
