(* ===== verification/Chan_Flow.thy ===== *)
theory Chan_Flow
  imports Channels "HOL-Library.Sublist"
begin

unbundle bit_operations_syntax

text \<open>
  Flow control between the two ends of a channel of protocol 2: what one end reads from its descriptor is written by
  the other in order and without loss, buffers stay within the window that was announced, no message ends the
  connection, and the sender is not blocked for ever.
\<close>

section \<open>What the closing of a channel leaves alone\<close>

definition closing_msg :: "chan_msg \<Rightarrow> bool" where
  "closing_msg m \<longleftrightarrow> m \<in> {SSH2_MSG_CHANNEL_EOF, SSH2_MSG_CHANNEL_CLOSE, EOW}"

definition kept :: "channel \<Rightarrow> channel \<Rightarrow> bool" where
  "kept b b' \<longleftrightarrow>
     ch_input b' = ch_input b \<and> ch_extended b' = ch_extended b \<and> ch_extended_usage b' = ch_extended_usage b \<and> ch_type b' = ch_type b \<and>
     (has_flag CHAN_EOF_RCVD b' \<longleftrightarrow> has_flag CHAN_EOF_RCVD b)"

text \<open>The change by an event of \<open>Nchan\<close>.\<close>

definition closing :: "channel \<Rightarrow> channel \<Rightarrow> bool" where
  "closing b b' \<longleftrightarrow>
     kept b b' \<and> (ch_output b' = ch_output b \<or> ch_output b' = [] \<and> ch_ostate b' \<noteq> CHAN_OUTPUT_OPEN) \<and>
     (ch_ostate b' = CHAN_OUTPUT_OPEN \<longrightarrow> ch_ostate b = CHAN_OUTPUT_OPEN) \<and>
     (\<exists>ms. msgs b' = msgs b @ ms \<and> list_all closing_msg ms \<and>
        (has_flag CHAN_EOF_SENT b \<or> SSH2_MSG_CHANNEL_EOF \<in> set ms \<longrightarrow> has_flag CHAN_EOF_SENT b'))"

lemma closingI:
  assumes "kept b b'" "ch_output b' = ch_output b \<or> ch_output b' = [] \<and> ch_ostate b' \<noteq> CHAN_OUTPUT_OPEN"
    "ch_ostate b' = CHAN_OUTPUT_OPEN \<Longrightarrow> ch_ostate b = CHAN_OUTPUT_OPEN" "msgs b' = msgs b @ ms" "list_all closing_msg ms"
    "has_flag CHAN_EOF_SENT b \<or> SSH2_MSG_CHANNEL_EOF \<in> set ms \<Longrightarrow> has_flag CHAN_EOF_SENT b'"
  shows "closing b b'"
  unfolding closing_def using assms by (intro conjI impI exI [of _ ms]) simp_all

lemma closing_refl: "closing b b"
  by (rule closingI [of _ _ "[]"]) (simp_all add: kept_def)

lemma kept_trans: "kept b b1 \<Longrightarrow> kept b1 b2 \<Longrightarrow> kept b b2"
  by (simp add: kept_def)

lemma closing_trans:
  assumes 1: "closing b b1" and 2: "closing b1 b2"
  shows "closing b b2"
proof -
  from 1 obtain ms1 where m1: "msgs b1 = msgs b @ ms1" "list_all closing_msg ms1"
    "has_flag CHAN_EOF_SENT b \<or> SSH2_MSG_CHANNEL_EOF \<in> set ms1 \<longrightarrow> has_flag CHAN_EOF_SENT b1" unfolding closing_def by blast
  from 2 obtain ms2 where m2: "msgs b2 = msgs b1 @ ms2" "list_all closing_msg ms2"
    "has_flag CHAN_EOF_SENT b1 \<or> SSH2_MSG_CHANNEL_EOF \<in> set ms2 \<longrightarrow> has_flag CHAN_EOF_SENT b2" unfolding closing_def by blast
  show ?thesis
  proof (rule closingI [of _ _ "ms1 @ ms2"])
    show "kept b b2" using 1 2 kept_trans unfolding closing_def by blast
    show "ch_output b2 = ch_output b \<or> ch_output b2 = [] \<and> ch_ostate b2 \<noteq> CHAN_OUTPUT_OPEN" using 1 2 unfolding closing_def by metis
    show "ch_ostate b2 = CHAN_OUTPUT_OPEN \<Longrightarrow> ch_ostate b = CHAN_OUTPUT_OPEN" using 1 2 unfolding closing_def by blast
  qed (use m1 m2 in auto)
qed

lemma quiet_fields [simp]:
  "ch_input (packet_send m b) = ch_input b" "ch_extended (packet_send m b) = ch_extended b" "ch_extended_usage (packet_send m b) = ch_extended_usage b"
  "ch_ctype (packet_send m b) = ch_ctype b"
  "ch_input (chan_shutdown_read st b) = ch_input b" "ch_extended (chan_shutdown_read st b) = ch_extended b"
  "ch_extended_usage (chan_shutdown_read st b) = ch_extended_usage b" "ch_ctype (chan_shutdown_read st b) = ch_ctype b"
  "ch_input (chan_shutdown_write st b) = ch_input b" "ch_extended (chan_shutdown_write st b) = ch_extended b"
  "ch_extended_usage (chan_shutdown_write st b) = ch_extended_usage b"
  by (simp_all add: packet_send_def chan_shutdown_read_def chan_shutdown_write_def close_rfd_def close_wfd_def Let_def)

lemma flag_simps [simp]:
  "has_flag f (packet_send m b) = has_flag f b" "has_flag f (chan_shutdown_read st b) = has_flag f b" "has_flag f (chan_shutdown_write st b) = has_flag f b"
  "has_flag f (ch_istate_update g b) = has_flag f b" "has_flag f (ch_ostate_update h b) = has_flag f b" "has_flag f (ch_input_update k b) = has_flag f b"
  "has_flag f (ch_output_update k b) = has_flag f b" "has_flag f (ch_extended_update k b) = has_flag f b" "has_flag f (ch_efd_update l b) = has_flag f b"
  "has_flag f (b\<lparr>ch_flags := ch_flags b OR g'\<rparr>) = (has_flag f b \<or> g' AND f \<noteq> 0)"
  by (auto simp: has_flag_def flag_or)

lemma closing_set:
  "closing b (chan_set_istate b s)" "s' \<noteq> CHAN_OUTPUT_OPEN \<Longrightarrow> closing b (chan_set_ostate b s')"
  "f AND CHAN_EOF_RCVD = 0 \<Longrightarrow> closing b (b\<lparr>ch_flags := ch_flags b OR f\<rparr>)"
  by (auto intro!: closingI [of _ _ "[]"] simp: kept_def chan_set_istate_def chan_set_ostate_def)

lemma closing_shutdown:
  "closing b (chan_shutdown_read st b)" "s \<noteq> CHAN_OUTPUT_OPEN \<Longrightarrow> closing b (chan_set_ostate (chan_shutdown_write st b) s)"
  by (auto intro!: closingI [of _ _ "[]"] simp: kept_def chan_set_ostate_def)

lemma closing_send:
  "closing b (chan_send_eof2 b)" "closing b (chan_send_close2 b)" "closing b (chan_send_eow2 st b)"
proof -
  show "closing b (chan_send_eof2 b)"
    by (cases "ch_istate b = CHAN_INPUT_WAIT_DRAIN")
      (auto intro!: closingI [of _ _ "[SSH2_MSG_CHANNEL_EOF]"] simp: chan_send_eof2_def closing_refl kept_def closing_msg_def chan_flags has_flag_def flag_or
        split: chan_istate.split)
  show "closing b (chan_send_close2 b)"
    by (auto intro!: closingI [of _ _ "[SSH2_MSG_CHANNEL_CLOSE]"] simp: chan_send_close2_def closing_refl kept_def closing_msg_def chan_flags has_flag_def flag_or)
  show "closing b (chan_send_eow2 st b)"
    by (auto intro!: closingI [of _ _ "[EOW]"] simp: chan_send_eow2_def closing_refl kept_def closing_msg_def EOW_def)
qed

lemmas closing_sets [intro] = closing_refl closing_set(1) closing_trans [OF _ closing_set(1)] closing_trans [OF _ closing_set(2)]
  closing_shutdown closing_send

lemma closing_read_failed: "closing b (chan_read_failed st b)"
  by (auto simp: chan_read_failed_def split: chan_istate.split)

lemma closing_ibuf_empty: "compat20 st \<Longrightarrow> closing b (chan_ibuf_empty st b)"
  by (auto simp: chan_ibuf_empty_def split: chan_istate.split)

lemma closing_obuf_empty: "compat20 st \<Longrightarrow> closing b (chan_obuf_empty st b)"
  by (auto simp: chan_obuf_empty_def Let_def split: chan_ostate.split)

lemma closing_write_failed: "compat20 st \<Longrightarrow> closing b (chan_write_failed st b)"
proof -
  assume st: "compat20 st"
  have "closing b (chan_set_ostate (chan_send_eow2 st (chan_shutdown_write st b)) CHAN_OUTPUT_CLOSED)"
    by (auto intro!: closingI [of _ _ "if ch_ostate b = CHAN_OUTPUT_CLOSED \<or> datafellows st AND SSH_NEW_OPENSSH = 0 then [] else [EOW]"]
        simp: chan_send_eow2_def kept_def closing_msg_def EOW_def chan_set_ostate_def)
  with st show ?thesis by (auto simp: chan_write_failed_def chan_write_failed2_def Let_def)
qed

text \<open>The receipt of EOF is a closing event once its flag is set.\<close>

lemma closing_rcvd_eof: "compat20 st \<Longrightarrow> closing (b\<lparr>ch_flags := ch_flags b OR CHAN_EOF_RCVD\<rparr>) (chan_rcvd_ieof st b)"
proof -
  assume st: "compat20 st"
  let ?b = "b\<lparr>ch_flags := ch_flags b OR CHAN_EOF_RCVD\<rparr>"
  have "closing ?b (chan_rcvd_eof2 b)" using closing_set(2) [of CHAN_OUTPUT_WAIT_DRAIN ?b] by (auto simp: chan_rcvd_eof2_def Let_def)
  with closing_trans [OF this closing_obuf_empty [OF st]] st show ?thesis by (simp add: chan_rcvd_ieof_def Let_def)
qed

lemma closing_rcvd_close: "compat20 st \<Longrightarrow> closing b (chan_rcvd_oclose st b)"
proof -
  assume st: "compat20 st"
  define b1 where "b1 = (if \<not> has_flag CHAN_LOCAL b then b\<lparr>ch_flags := ch_flags b OR CHAN_CLOSE_RCVD\<rparr> else b)"
  define b2 where "b2 = (if ch_ostate b1 = CHAN_OUTPUT_OPEN then chan_set_ostate b1 CHAN_OUTPUT_WAIT_DRAIN else b1)"
  have 1: "closing b b1" using closing_set(3) [of CHAN_CLOSE_RCVD b] by (auto simp: b1_def chan_flags)
  then have 2: "closing b b2" using closing_trans [OF 1 closing_set(2)] by (simp add: b2_def)
  note 3 = closing_trans [OF 2 closing_shutdown(1)] closing_trans [OF 2 closing_send(1)]
  have "chan_rcvd_oclose st b = (if ch_type b1 = SSH_CHANNEL_LARVAL then chan_set_istate (chan_set_ostate b1 CHAN_OUTPUT_CLOSED) CHAN_INPUT_CLOSED
     else case ch_istate b2 of CHAN_INPUT_OPEN \<Rightarrow> chan_set_istate (chan_shutdown_read st b2) CHAN_INPUT_CLOSED
       | CHAN_INPUT_WAIT_DRAIN \<Rightarrow> chan_set_istate (if \<not> has_flag CHAN_LOCAL b2 then chan_send_eof2 b2 else b2) CHAN_INPUT_CLOSED | _ \<Rightarrow> b2)"
    using st unfolding chan_rcvd_oclose_def chan_rcvd_close2_def Let_def b1_def [symmetric] b2_def [symmetric] by simp
  then show ?thesis using 1 2 3 by (auto split: chan_istate.split)
qed

lemma closing_rcvd_eow: "closing b (chan_rcvd_eow st b)"
  by (auto simp: chan_rcvd_eow_def split: chan_istate.split)

lemma closing_is_dead: "closing b (snd (chan_is_dead st b do_send))"
  by (auto simp: chan_is_dead_def Let_def)

lemmas closing_events = closing_read_failed closing_ibuf_empty closing_obuf_empty closing_write_failed closing_rcvd_close closing_rcvd_eow closing_is_dead

section \<open>What a step does to the streams and windows\<close>

text \<open>Data, cost in window and grant of window of a message.\<close>

fun data_of :: "chan_msg \<Rightarrow> byte list" where
  "data_of (SSH2_MSG_CHANNEL_DATA d) = d"
| "data_of _ = []"

fun cost :: "chan_msg \<Rightarrow> nat" where
  "cost (SSH2_MSG_CHANNEL_DATA d) = length d"
| "cost (SSH2_MSG_CHANNEL_EXTENDED_DATA t d) = length d"
| "cost _ = 0"

fun grant :: "chan_msg \<Rightarrow> nat" where
  "grant (SSH2_MSG_CHANNEL_WINDOW_ADJUST n) = unat n"
| "grant _ = 0"

fun is_ext :: "chan_msg \<Rightarrow> bool" where
  "is_ext (SSH2_MSG_CHANNEL_EXTENDED_DATA t d) = True"
| "is_ext _ = False"

abbreviation stream :: "chan_msg list \<Rightarrow> byte list" where "stream ms \<equiv> concat (map data_of ms)"
abbreviation costs :: "chan_msg list \<Rightarrow> nat" where "costs ms \<equiv> sum_list (map cost ms)"
abbreviation grants :: "chan_msg list \<Rightarrow> nat" where "grants ms \<equiv> sum_list (map grant ms)"

text \<open>The messages of an open channel.\<close>

fun known :: "chan_msg \<Rightarrow> bool" where
  "known (SSH2_MSG_CHANNEL_DATA d) = True" | "known (SSH2_MSG_CHANNEL_EXTENDED_DATA t d) = True" | "known (SSH2_MSG_CHANNEL_WINDOW_ADJUST n) = True"
| "known m = closing_msg m"

text \<open>No extended data after EOF; \<open>f\<close> says whether EOF was sent before.\<close>

fun ext_ok :: "bool \<Rightarrow> chan_msg list \<Rightarrow> bool" where
  "ext_ok f [] = True"
| "ext_ok f (m # ms) = ((is_ext m \<longrightarrow> \<not> f) \<and> ext_ok (f \<or> SSH2_MSG_CHANNEL_EOF = m) ms)"

lemma ext_ok_append: "ext_ok f (xs @ ys) \<longleftrightarrow> ext_ok f xs \<and> ext_ok (f \<or> SSH2_MSG_CHANNEL_EOF \<in> set xs) ys"
  by (induction xs arbitrary: f) (auto simp: disj_ac)

lemma ext_ok_mono: "ext_ok f ms \<Longrightarrow> (g \<longrightarrow> f) \<Longrightarrow> ext_ok g ms"
proof (induction ms arbitrary: f g)
  case (Cons m ms)
  have "ext_ok (g \<or> SSH2_MSG_CHANNEL_EOF = m) ms"
    by (rule Cons.IH [of "f \<or> SSH2_MSG_CHANNEL_EOF = m"]) (use Cons.prems in simp_all)
  with Cons.prems show ?case unfolding ext_ok.simps by blast
qed simp

lemma closing_msgs:
  "list_all closing_msg ms \<Longrightarrow> stream ms = [] \<and> costs ms = 0 \<and> grants ms = 0 \<and> ext_ok f ms \<and> list_all (\<lambda>m. \<not> is_ext m) ms \<and> list_all known ms"
  by (induction ms arbitrary: f) (auto simp: closing_msg_def EOW_def)

text \<open>The part of the window that an end accounts for: still open to the peer, consumed, or waiting to be written.\<close>

definition held :: "chan \<Rightarrow> nat" where
  "held c = unat (cd_local_window c) + unat (cd_local_consumed c) + length (ch_output (cd c)) +
     (if ch_extended_usage (cd c) = CHAN_EXTENDED_WRITE then length (ch_extended (cd c)) else 0)"

text \<open>An open channel of a stream, within its window.\<close>

definition chan_ok :: "chan \<Rightarrow> bool" where
  "chan_ok c \<longleftrightarrow> ch_type (cd c) = SSH_CHANNEL_OPEN \<and> \<not> cd_datagram c \<and> held c \<le> unat (cd_local_window_max c)"

definition stream_env :: "chan_env \<Rightarrow> bool" where
  "stream_env E \<longleftrightarrow> compat20 (ce_state E) \<and> \<not> compat13 (ce_state E) \<and> ce_input_filter E = None \<and> ce_output_filter E = None"

definition same_setup :: "chan \<Rightarrow> chan \<Rightarrow> bool" where
  "same_setup c c' \<longleftrightarrow>
     ch_type (cd c') = ch_type (cd c) \<and> cd_datagram c' = cd_datagram c \<and> cd_local_window_max c' = cd_local_window_max c \<and>
     cd_remote_maxpacket c' = cd_remote_maxpacket c \<and> ch_extended_usage (cd c') = ch_extended_usage (cd c) \<and>
     (has_flag CHAN_EOF_RCVD (cd c') \<longleftrightarrow> has_flag CHAN_EOF_RCVD (cd c))"

text \<open>As a sender: bytes read are sent or kept, the window of the peer pays for what is sent.\<close>

definition sends :: "chan \<Rightarrow> byte list \<Rightarrow> chan_msg list \<Rightarrow> chan \<Rightarrow> bool" where
  "sends c r ms c' \<longleftrightarrow>
     msgs (cd c') = msgs (cd c) @ ms \<and> list_all known ms \<and>
     ch_input (cd c) @ r = stream ms @ ch_input (cd c') \<and>
     unat (cd_remote_window c) = unat (cd_remote_window c') + costs ms \<and>
     ext_ok (has_flag CHAN_EOF_SENT (cd c)) ms \<and>
     (has_flag CHAN_EOF_SENT (cd c) \<or> SSH2_MSG_CHANNEL_EOF \<in> set ms \<longrightarrow> has_flag CHAN_EOF_SENT (cd c')) \<and>
     (ch_extended_usage (cd c) \<noteq> CHAN_EXTENDED_READ \<longrightarrow> list_all (\<lambda>m. \<not> is_ext m) ms)"

text \<open>As a receiver: the window grows by what is granted, bytes leave the buffer only to be written, unless output is closed.\<close>

definition drains :: "chan \<Rightarrow> byte list \<Rightarrow> chan_msg list \<Rightarrow> chan \<Rightarrow> bool" where
  "drains c w ms c' \<longleftrightarrow>
     unat (cd_local_window c') = unat (cd_local_window c) + grants ms \<and>
     held c' \<le> held c \<and>
     prefix (w @ ch_output (cd c')) (ch_output (cd c)) \<and>
     (ch_ostate (cd c') = CHAN_OUTPUT_OPEN \<longrightarrow>
        ch_ostate (cd c) = CHAN_OUTPUT_OPEN \<and> held c' = held c \<and> ch_output (cd c) = w @ ch_output (cd c'))"

definition effect :: "chan \<Rightarrow> byte list \<Rightarrow> byte list \<Rightarrow> chan_msg list \<Rightarrow> chan \<Rightarrow> bool" where
  "effect c r w ms c' \<longleftrightarrow> same_setup c c' \<and> sends c r ms c' \<and> drains c w ms c'"

lemma effect_refl: "effect c [] [] [] c"
  by (simp add: effect_def same_setup_def sends_def drains_def)

lemma sends_trans:
  assumes "same_setup c c1" "sends c r1 ms1 c1" "sends c1 r2 ms2 c2"
  shows "sends c (r1 @ r2) (ms1 @ ms2) c2"
  unfolding sends_def
proof (intro conjI)
  have "ch_input (cd c) @ r1 @ r2 = (ch_input (cd c) @ r1) @ r2" by simp
  also have "\<dots> = stream ms1 @ (ch_input (cd c1) @ r2)" using assms(2) by (simp add: sends_def)
  also have "\<dots> = stream (ms1 @ ms2) @ ch_input (cd c2)" using assms(3) by (simp add: sends_def)
  finally show "ch_input (cd c) @ r1 @ r2 = stream (ms1 @ ms2) @ ch_input (cd c2)" .
  show "ext_ok (has_flag CHAN_EOF_SENT (cd c)) (ms1 @ ms2)"
    using assms(2,3) by (auto simp: sends_def ext_ok_append intro: ext_ok_mono)
qed (use assms in \<open>auto simp: sends_def same_setup_def\<close>)

lemma drains_trans:
  assumes "drains c w1 ms1 c1" "drains c1 w2 ms2 c2"
  shows "drains c (w1 @ w2) (ms1 @ ms2) c2"
  unfolding drains_def
proof (intro conjI)
  from assms(2) have "prefix (w1 @ w2 @ ch_output (cd c2)) (w1 @ ch_output (cd c1))" by (simp add: drains_def)
  also from assms(1) have "prefix (w1 @ ch_output (cd c1)) (ch_output (cd c))" by (simp add: drains_def)
  finally show "prefix ((w1 @ w2) @ ch_output (cd c2)) (ch_output (cd c))" by simp
qed (use assms in \<open>auto simp: drains_def\<close>)

lemma effect_trans:
  "effect c r1 w1 ms1 c1 \<Longrightarrow> effect c1 r2 w2 ms2 c2 \<Longrightarrow> effect c (r1 @ r2) (w1 @ w2) (ms1 @ ms2) c2"
  unfolding effect_def using sends_trans drains_trans by (auto simp: same_setup_def)

lemma effect_ok: "effect c r w ms c' \<Longrightarrow> chan_ok c \<Longrightarrow> chan_ok c'"
  by (auto simp: effect_def chan_ok_def same_setup_def drains_def)

lemma effect_closing:
  assumes "closing (cd c) b"
  shows "\<exists>ms. list_all closing_msg ms \<and> effect c [] [] ms (c\<lparr>cd := b\<rparr>)"
proof -
  from assms obtain ms where ms: "msgs b = msgs (cd c) @ ms" "list_all closing_msg ms"
    "has_flag CHAN_EOF_SENT (cd c) \<or> SSH2_MSG_CHANNEL_EOF \<in> set ms \<longrightarrow> has_flag CHAN_EOF_SENT b" unfolding closing_def by blast
  have "sends c [] ms (c\<lparr>cd := b\<rparr>)"
    using assms ms closing_msgs [OF ms(2)] by (simp add: sends_def closing_def kept_def)
  moreover have "drains c [] ms (c\<lparr>cd := b\<rparr>)"
    using assms closing_msgs [OF ms(2)] by (auto simp: drains_def closing_def kept_def held_def)
  moreover have "same_setup c (c\<lparr>cd := b\<rparr>)" using assms by (simp add: same_setup_def closing_def kept_def)
  ultimately show ?thesis using ms(2) by (auto simp: effect_def)
qed

section \<open>The operations of an end\<close>

text \<open>The bytes that the system calls of a step read and write.\<close>

definition bytes_read :: "chan_io \<Rightarrow> chan \<Rightarrow> byte list" where
  "bytes_read io c =
     (let force = (cd_isatty c \<and> cd_detach_close c \<and> ch_istate (cd c) \<noteq> CHAN_INPUT_CLOSED)
      in if ch_rfd (cd c) \<noteq> -1 \<and> (force \<or> io_rfd_set io) then (case outcome_of (io_read io) force of Data buf \<Rightarrow> buf | _ \<Rightarrow> []) else [])"

definition bytes_written :: "chan_io \<Rightarrow> chan \<Rightarrow> byte list" where
  "bytes_written io c =
     (if ch_wfd (cd c) \<noteq> -1 \<and> io_wfd_set io \<and> ch_output (cd c) \<noteq> [] then (case io_write io of Write len \<Rightarrow> take len (ch_output (cd c)) | _ \<Rightarrow> []) else [])"

lemma effect_on_base: "closing (cd c) (f (cd c)) \<Longrightarrow> \<exists>ms. effect c [] [] ms (on_base f c)"
  using effect_closing [of c "f (cd c)"] by (auto simp: on_base_def)

lemma set_buffer [simp]:
  "cd (set_input v c) = (cd c)\<lparr>ch_input := v\<rparr>" "cd (set_output v c) = (cd c)\<lparr>ch_output := v\<rparr>" "cd (set_extended v c) = (cd c)\<lparr>ch_extended := v\<rparr>"
  "cd_datagram (set_input v c) = cd_datagram c" "cd_datagram (set_output v c) = cd_datagram c" "cd_datagram (set_extended v c) = cd_datagram c"
  "cd_local_window_max (set_input v c) = cd_local_window_max c" "cd_local_window_max (set_output v c) = cd_local_window_max c"
  "cd_local_window_max (set_extended v c) = cd_local_window_max c" "cd_local_window (set_input v c) = cd_local_window c"
  "cd_local_window (set_output v c) = cd_local_window c" "cd_local_window (set_extended v c) = cd_local_window c"
  "cd_local_consumed (set_input v c) = cd_local_consumed c" "cd_local_consumed (set_output v c) = cd_local_consumed c"
  "cd_local_consumed (set_extended v c) = cd_local_consumed c" "cd_remote_window (set_input v c) = cd_remote_window c"
  "cd_remote_window (set_output v c) = cd_remote_window c" "cd_remote_window (set_extended v c) = cd_remote_window c"
  "cd_remote_maxpacket (set_input v c) = cd_remote_maxpacket c" "cd_remote_maxpacket (set_output v c) = cd_remote_maxpacket c"
  "cd_remote_maxpacket (set_extended v c) = cd_remote_maxpacket c"
  by (simp_all add: set_input_def set_output_def set_extended_def on_base_def)

lemma on_base_simps [simp]:
  "cd (on_base f c) = f (cd c)" "cd_datagram (on_base f c) = cd_datagram c" "cd_local_window_max (on_base f c) = cd_local_window_max c"
  "cd_local_window (on_base f c) = cd_local_window c" "cd_local_consumed (on_base f c) = cd_local_consumed c"
  "cd_remote_window (on_base f c) = cd_remote_window c" "cd_remote_maxpacket (on_base f c) = cd_remote_maxpacket c"
  by (simp_all add: on_base_def)

lemma event_flag [simp]: "has_flag f (event x b) = has_flag f b"
  by (simp add: has_flag_def)

lemmas effect_defs = effect_def same_setup_def sends_def drains_def

lemma effect_input: "effect c r [] [] (set_input (ch_input (cd c) @ r) c)"
  by (simp add: effect_defs held_def)

lemma effect_rfd:
  assumes E: "stream_env E" and c: "chan_ok c" and "channel_handle_rfd E io c = Some c'"
  shows "\<exists>ms. effect c (bytes_read io c) [] ms c'"
proof -
  have f: "\<exists>ms. effect c [] [] ms (read_fails E c)"
    using c E effect_on_base [of c "chan_read_failed (ce_state E)"] closing_read_failed by (simp add: read_fails_def chan_ok_def stream_env_def)
  show ?thesis using assms f effect_refl [of c] effect_input
    by (auto simp: channel_handle_rfd_def bytes_read_def Let_def stream_env_def chan_ok_def buffer_append_def
        split: if_splits read_outcome.splits)
qed

lemma held_words:
  assumes "chan_ok c"
  shows "unat (cd_local_window c) + unat (cd_local_consumed c) + length (ch_output (cd c)) < 2 ^ 32"
    "ch_extended_usage (cd c) = CHAN_EXTENDED_WRITE \<Longrightarrow>
       unat (cd_local_window c) + unat (cd_local_consumed c) + length (ch_output (cd c)) + length (ch_extended (cd c)) < 2 ^ 32"
  using assms unsigned_less [of "cd_local_window_max c", where ?'a = nat] by (auto simp: chan_ok_def held_def)

lemma unat_plus_of_nat: "unat w + n < 2 ^ 32 \<Longrightarrow> unat (w + of_nat n :: 32 word) = unat w + n"
  by (simp add: unat_word_ariths unat_of_nat)

lemma effect_wfd:
  assumes E: "stream_env E" and c: "chan_ok c" and r: "channel_handle_wfd E io c = Some c'"
  shows "\<exists>ms. effect c [] (bytes_written io c) ms c'"
proof (cases "ch_wfd (cd c) \<noteq> -1 \<and> io_wfd_set io \<and> ch_output (cd c) \<noteq> []")
  case out: True
  have f: "\<exists>ms. effect c [] [] ms (stream_write_fails E c)"
    using c E effect_on_base [of c "chan_write_failed (ce_state E)"] closing_write_failed by (simp add: stream_write_fails_def write_fails_def chan_ok_def stream_env_def)
  show ?thesis
  proof (cases "io_write io")
    case (Write len)
    define c1 where "c1 = (if cd_isatty c \<and> hd (ch_output (cd c)) \<noteq> 13 \<and> io_noecho io then on_base (event (Sent_ignore (4 + len))) c else c)"
    have "c' = count_consumed E (length (ch_output (cd c))) (set_output (drop len (ch_output (cd c))) c1) \<and> len \<le> length (ch_output (cd c))" if "len \<noteq> 0"
      using r out E c that Write unfolding channel_handle_wfd_def write_data_def c1_def
      by (auto simp: stream_env_def chan_ok_def buffer_consume_def Let_def split: if_splits)
    then have c': "len \<noteq> 0 \<Longrightarrow> c' = count_consumed E (length (ch_output (cd c))) (set_output (drop len (ch_output (cd c))) c1)"
      and len: "len \<noteq> 0 \<Longrightarrow> len \<le> length (ch_output (cd c))" by simp_all
    show ?thesis
    proof (cases "len = 0")
      case True
      with r out E c Write f show ?thesis
        by (simp add: channel_handle_wfd_def write_data_def stream_env_def chan_ok_def bytes_written_def)
    next
      case False
      have "unat (cd_local_consumed c + of_nat len) = unat (cd_local_consumed c) + len"
        using held_words(1) [OF c] len [OF False] by (intro unat_plus_of_nat) simp
      then have "effect c [] (take len (ch_output (cd c))) [] c'"
        using len [OF False] out E unfolding c' [OF False] c1_def
        by (auto simp: effect_defs held_def count_consumed_def stream_env_def)
      with Write out show ?thesis by (auto simp: bytes_written_def)
    qed
  next
    case Write_again
    with r out E c effect_refl [of c] show ?thesis
      by (auto simp: channel_handle_wfd_def write_data_def stream_env_def chan_ok_def bytes_written_def)
  next
    case Write_error
    with r out E c f show ?thesis
      by (simp add: channel_handle_wfd_def write_data_def stream_env_def chan_ok_def bytes_written_def)
  qed
next
  case False
  with r effect_refl [of c] show ?thesis by (auto simp: channel_handle_wfd_def bytes_written_def)
qed

lemma close_efd_simps [simp]:
  "ch_type (close_efd b) = ch_type b" "ch_input (close_efd b) = ch_input b" "ch_output (close_efd b) = ch_output b" "ch_extended (close_efd b) = ch_extended b"
  "ch_extended_usage (close_efd b) = ch_extended_usage b" "ch_ostate (close_efd b) = ch_ostate b" "msgs (close_efd b) = msgs b" "has_flag f (close_efd b) = has_flag f b"
  by (simp_all add: close_efd_def channel_close_fd_def)

lemma effect_efd:
  assumes c: "chan_ok c" and r: "channel_handle_efd E io c = Some c'"
  shows "effect c [] [] [] c'"
proof -
  have f: "effect c [] [] [] (on_base close_efd c)" by (simp add: effect_defs held_def)
  have x: "effect c [] [] [] (set_extended v c)" if "ch_extended_usage (cd c) \<noteq> CHAN_EXTENDED_WRITE" for v
    using that by (simp add: effect_defs held_def)
  have wr: "effect c [] [] [] ((set_extended (drop len (ch_extended (cd c))) c)\<lparr>cd_local_consumed := cd_local_consumed c + of_nat len\<rparr>)"
    if "ch_extended_usage (cd c) = CHAN_EXTENDED_WRITE" "len \<le> length (ch_extended (cd c))" for len
  proof -
    have "unat (cd_local_consumed c + of_nat len) = unat (cd_local_consumed c) + len"
      using held_words(2) [OF c that(1)] that(2) by (intro unat_plus_of_nat) simp
    with that show ?thesis by (simp add: effect_defs held_def)
  qed
  show ?thesis
    using r effect_refl [of c] f x wr unfolding channel_handle_efd_def
    by (auto simp: Let_def buffer_append_def buffer_consume_def split: if_splits io_write.splits read_outcome.splits)
qed

lemma effect_check_window:
  assumes "chan_ok c"
  shows "\<exists>ms. effect c [] [] ms (channel_check_window c)"
proof (cases "channel_check_window c = c")
  case False
  then have c': "channel_check_window c = (on_base (packet_send (SSH2_MSG_CHANNEL_WINDOW_ADJUST (cd_local_consumed c))) c)
      \<lparr>cd_local_window := cd_local_window c + cd_local_consumed c, cd_local_consumed := 0\<rparr>"
    unfolding channel_check_window_def by argo
  have "unat (cd_local_window c + cd_local_consumed c) = unat (cd_local_window c) + unat (cd_local_consumed c)"
    using held_words(1) [OF assms] by (simp add: unat_word_ariths)
  then have "effect c [] [] [SSH2_MSG_CHANNEL_WINDOW_ADJUST (cd_local_consumed c)] (channel_check_window c)"
    unfolding c' by (simp add: effect_defs held_def)
  then show ?thesis by blast
qed (use effect_refl in metis)

lemma effect_pre_open:
  assumes "stream_env E"
  shows "\<exists>ms. effect c [] [] ms (snd (channel_pre_open E c))"
  using assms effect_refl [of c] effect_closing [OF closing_obuf_empty, of "ce_state E" c]
  by (auto simp: channel_pre_open_def Let_def stream_env_def)

lemma unat_sub_le: "l \<le> w \<Longrightarrow> unat (w - l) + unat l = unat (w :: 32 word)"
  by (simp add: unat_sub word_le_nat_alt)

lemma unat_of_nat_le: "unat (of_nat n :: 32 word) \<le> n"
  by (simp add: unat_of_nat)

lemma unat_min_le: "l \<le> of_nat n \<Longrightarrow> unat (l :: 32 word) \<le> n"
  using unat_of_nat_le [of n] by (simp add: word_le_nat_alt)

lemma effect_poll_stream:
  assumes "stream_env E" "poll_stream E c = Some c'"
  shows "\<exists>ms. effect c [] [] ms c'"
proof -
  define len where "len = poll_len E c"
  have len: "len \<le> of_nat (length (ch_input (cd c)))" "len \<le> cd_remote_window c"
    using assms(1) by (simp_all add: len_def poll_len_def stream_env_def Let_def min.coboundedI1)
  let ?m = "SSH2_MSG_CHANNEL_DATA (take (unat len) (ch_input (cd c)))"
  have "effect c [] [] [?m]
      ((set_input (drop (unat len) (ch_input (cd c))) (on_base (packet_send ?m) c))\<lparr>cd_remote_window := cd_remote_window c - len\<rparr>)"
    using unat_sub_le [OF len(2)] unat_min_le [OF len(1)] by (simp add: effect_defs held_def)
  with assms effect_refl [of c] show ?thesis
    unfolding poll_stream_def Let_def len_def [symmetric] by (auto simp: buffer_consume_def stream_env_def split: if_splits)
qed

lemma effect_poll_extended:
  assumes "stream_env E" "poll_extended E c = Some c'"
  shows "\<exists>ms. effect c [] [] ms c'"
proof -
  define len where "len = min (min (of_nat (length (ch_extended (cd c)))) (cd_remote_window c)) (cd_remote_maxpacket c)"
  have len: "len \<le> of_nat (length (ch_extended (cd c)))" "len \<le> cd_remote_window c" by (simp_all add: len_def min.coboundedI1)
  let ?m = "SSH2_MSG_CHANNEL_EXTENDED_DATA SSH2_EXTENDED_DATA_STDERR (take (unat len) (ch_extended (cd c)))"
  have "effect c [] [] [?m]
      ((set_extended (drop (unat len) (ch_extended (cd c))) (on_base (packet_send ?m) c))\<lparr>cd_remote_window := cd_remote_window c - len\<rparr>)"
    if "ch_extended_usage (cd c) = CHAN_EXTENDED_READ" "\<not> has_flag CHAN_EOF_SENT (cd c)"
    using that unat_sub_le [OF len(2)] unat_min_le [OF len(1)] by (simp add: effect_defs held_def)
  with assms effect_refl [of c] show ?thesis
    unfolding poll_extended_def Let_def len_def [symmetric] by (auto simp: buffer_consume_def stream_env_def split: if_splits)
qed

lemma effect_poll_input:
  assumes "stream_env E" "poll_input E c = Some c'"
  shows "\<exists>ms. effect c [] [] ms c'"
  using assms effect_refl [of c] effect_poll_stream [OF assms(1)] effect_on_base [of c "chan_ibuf_empty (ce_state E)"] closing_ibuf_empty
  by (auto simp: poll_input_def Let_def stream_env_def split: if_splits)

text \<open>Two parts of one step.\<close>

lemma effect_seq: "\<exists>ms. effect c r1 w1 ms c1 \<Longrightarrow> \<exists>ms. effect c1 r2 w2 ms c2 \<Longrightarrow> \<exists>ms. effect c (r1 @ r2) (w1 @ w2) ms c2"
  using effect_trans by blast

lemma effect_poll:
  assumes "stream_env E" "chan_ok c" "output_poll_one E c = Some c'"
  shows "\<exists>ms. effect c [] [] ms c'"
proof (cases "poll_active E c")
  case True
  with assms obtain c1 where "poll_input E c = Some c1" "poll_extended E c1 = Some c'"
    by (auto simp: output_poll_one_def chan_ok_def bind_eq_Some_conv split: if_splits)
  with effect_seq [OF effect_poll_input effect_poll_extended] assms(1) show ?thesis by fastforce
qed (use assms effect_refl [of c] in \<open>auto simp: output_poll_one_def\<close>)

section \<open>The two ends\<close>

text \<open>The descriptors that \<open>select\<close> reports are among those that were asked for.\<close>

definition io_fits :: "bool \<times> bool \<times> bool \<times> bool \<Rightarrow> chan_io \<Rightarrow> bool" where
  "io_fits wants io \<longleftrightarrow>
     (case wants of (rd, wr, ewr, erd) \<Rightarrow>
        (io_rfd_set io \<longrightarrow> rd) \<and> (io_wfd_set io \<longrightarrow> wr) \<and> (io_efd_wset io \<longrightarrow> ewr) \<and> (io_efd_rset io \<longrightarrow> erd))"

text \<open>What an end does on its own, with the bytes it reads and writes: a round of \<open>select\<close>, sending, garbage collection, and the
  closing of a half by the session code.\<close>

inductive local_step :: "chan_env \<Rightarrow> chan \<Rightarrow> byte list \<Rightarrow> byte list \<Rightarrow> chan \<Rightarrow> bool" for E where
  select: "channel_pre_open E c = (wants, c0) \<Longrightarrow> io_fits wants io \<Longrightarrow> channel_handle_rfd E io c0 = Some c1 \<Longrightarrow>
    channel_post_open E io c0 = Some c' \<Longrightarrow> local_step E c (bytes_read io c0) (bytes_written io c1) c'"
| poll: "output_poll_one E c = Some c' \<Longrightarrow> local_step E c [] [] c'"
| collect: "channel_garbage_collect E c = Some c' \<Longrightarrow> \<not> cd_detach_user c \<Longrightarrow> local_step E c [] [] c'"
| read_failed: "local_step E c [] [] (on_base (chan_read_failed (ce_state E)) c)"
| write_failed: "local_step E c [] [] (on_base (chan_write_failed (ce_state E)) c)"

lemma effect_local:
  assumes "local_step E c r w c'" "stream_env E" "chan_ok c"
  shows "\<exists>ms. effect c r w ms c'"
  using assms(1)
proof cases
  case (select wants c0 io c1)
  obtain ms0 where e0: "effect c [] [] ms0 c0" using effect_pre_open [OF assms(2), of c] select(3) by auto
  obtain ms1 where e1: "effect c0 r [] ms1 c1" using effect_rfd [OF assms(2) effect_ok [OF e0 assms(3)] select(5)] select(1) by blast
  have ok: "chan_ok c1" using effect_ok [OF e1 effect_ok [OF e0 assms(3)]] .
  from select(5,6) assms(2) obtain c2 c3 where c2: "channel_handle_wfd E io c1 = Some c2" "channel_handle_efd E io c2 = Some c3" "c' = channel_check_window c3"
    by (auto simp: channel_post_open_def stream_env_def bind_eq_Some_conv)
  obtain ms2 where e2: "effect c1 [] w ms2 c2" using effect_wfd [OF assms(2) ok c2(1)] select(2) by blast
  have e3: "effect c2 [] [] [] c3" using effect_efd [OF effect_ok [OF e2 ok] c2(2)] .
  obtain ms4 where e4: "effect c3 [] [] ms4 c'" using effect_check_window [OF effect_ok [OF e3 effect_ok [OF e2 ok]]] c2(3) by blast
  show ?thesis using effect_trans [OF e0 effect_trans [OF e1 effect_trans [OF e2 effect_trans [OF e3 e4]]]] by auto
next
  case poll
  with effect_poll assms show ?thesis by blast
next
  case collect
  obtain d b where "chan_is_dead (ce_state E) (cd c) True = (d, b)" by fastforce
  moreover from this have "\<exists>ms. effect c [] [] ms (c\<lparr>cd := b\<rparr>)" using effect_closing [of c b] closing_is_dead [of "cd c" "ce_state E" True] by auto
  ultimately show ?thesis using collect by (auto simp: channel_garbage_collect_def collect_def split: if_splits)
next
  case read_failed
  with effect_on_base closing_read_failed show ?thesis by blast
next
  case write_failed
  with effect_on_base closing_write_failed assms(2) show ?thesis by (auto simp: stream_env_def)
qed

text \<open>The receipt of a message, \<open>payload\<close> being the packet after the number of the channel.\<close>

fun payload :: "chan_msg \<Rightarrow> byte list" where
  "payload (SSH2_MSG_CHANNEL_DATA d) = string_enc d"
| "payload (SSH2_MSG_CHANNEL_EXTENDED_DATA t d) = poke_u32 t @ string_enc d"
| "payload (SSH2_MSG_CHANNEL_WINDOW_ADJUST n) = poke_u32 n"
| "payload _ = []"

definition deliver :: "chan_env \<Rightarrow> chan \<Rightarrow> chan_msg \<Rightarrow> chan option" where
  "deliver E c m =
     (case m of
        SSH2_MSG_CHANNEL_DATA d \<Rightarrow> input_data E c (payload m)
      | SSH2_MSG_CHANNEL_EXTENDED_DATA t d \<Rightarrow> input_extended_data E c (payload m)
      | SSH2_MSG_CHANNEL_WINDOW_ADJUST n \<Rightarrow> input_window_adjust c (payload m)
      | SSH2_MSG_CHANNEL_EOF \<Rightarrow> Some (input_ieof E c)
      | SSH2_MSG_CHANNEL_CLOSE \<Rightarrow> Some (on_base (chan_rcvd_oclose (ce_state E)) c)
      | SSH2_MSG_CHANNEL_REQUEST s reply \<Rightarrow> if m = EOW then Some (on_base (chan_rcvd_eow (ce_state E)) c) else None
      | _ \<Rightarrow> None)"

text \<open>The handlers of the dispatch table do this to the channel that the packet names.\<close>

lemma deliver_dispatch:
  assumes "channel_lookup tab (int i) = Some c" "i < 2 ^ 31" "compat20 (ce_state E)"
  defines "result m \<equiv> map_option (\<lambda>c. tab[i := Some c]) (deliver E c m)" and "packet m \<equiv> poke_u32 (of_nat i) @ payload m"
  shows "channel_input_data E tab (packet (SSH2_MSG_CHANNEL_DATA d)) = result (SSH2_MSG_CHANNEL_DATA d)"
    "channel_input_extended_data E tab (packet (SSH2_MSG_CHANNEL_EXTENDED_DATA t d)) = result (SSH2_MSG_CHANNEL_EXTENDED_DATA t d)"
    "channel_input_window_adjust E tab (packet (SSH2_MSG_CHANNEL_WINDOW_ADJUST n)) = result (SSH2_MSG_CHANNEL_WINDOW_ADJUST n)"
    "channel_input_ieof E tab (packet SSH2_MSG_CHANNEL_EOF) = result SSH2_MSG_CHANNEL_EOF"
    "channel_input_oclose E tab (packet SSH2_MSG_CHANNEL_CLOSE) = result SSH2_MSG_CHANNEL_CLOSE"
proof -
  have "sint (of_nat i :: 32 word) = int i"
    using assms(2) by (simp add: signed_of_nat signed_take_bit_int_eq_self)
  then have "for_channel tab (poke_u32 (of_nat i) @ p) x f = map_option (\<lambda>c. tab[i := Some c]) (f c p)" for p x f
    using assms(1) by (simp add: for_channel_def)
  note h = this this [of "[]", simplified]
  show "channel_input_data E tab (packet (SSH2_MSG_CHANNEL_DATA d)) = result (SSH2_MSG_CHANNEL_DATA d)"
    "channel_input_extended_data E tab (packet (SSH2_MSG_CHANNEL_EXTENDED_DATA t d)) = result (SSH2_MSG_CHANNEL_EXTENDED_DATA t d)"
    "channel_input_window_adjust E tab (packet (SSH2_MSG_CHANNEL_WINDOW_ADJUST n)) = result (SSH2_MSG_CHANNEL_WINDOW_ADJUST n)"
    "channel_input_ieof E tab (packet SSH2_MSG_CHANNEL_EOF) = result SSH2_MSG_CHANNEL_EOF"
    "channel_input_oclose E tab (packet SSH2_MSG_CHANNEL_CLOSE) = result SSH2_MSG_CHANNEL_CLOSE"
    using assms(3) by (simp_all add: channel_input_data_def channel_input_extended_data_def channel_input_window_adjust_def channel_input_ieof_def
        channel_input_oclose_def packet_check_eom_def h packet_def result_def deliver_def)
qed

section \<open>Runs of the two ends\<close>

text \<open>An end, its messages on the way to the other, and all that it has read from and written to its descriptor.\<close>

record side =
  sd_env :: chan_env
  sd_chan :: chan
  sd_out :: "chan_msg list"
  sd_read :: "byte list"
  sd_written :: "byte list"

definition after :: "side \<Rightarrow> byte list \<Rightarrow> byte list \<Rightarrow> chan \<Rightarrow> side" where
  "after a r w c = a\<lparr>sd_chan := c, sd_out := sd_out a @ drop (length (msgs (cd (sd_chan a)))) (msgs (cd c)),
     sd_read := sd_read a @ r, sd_written := sd_written a @ w\<rparr>"

inductive chan_sys :: "side \<times> side \<Rightarrow> side \<times> side \<Rightarrow> bool" where
  act: "local_step (sd_env a) (sd_chan a) r w c \<Longrightarrow> chan_sys (a, b) (after a r w c, b)"
| receive: "sd_out b = m # q \<Longrightarrow> deliver (sd_env a) (sd_chan a) m = Some c \<Longrightarrow> chan_sys (a, b) (after a [] [] c, b\<lparr>sd_out := q\<rparr>)"
| other: "chan_sys (a, b) (a', b') \<Longrightarrow> chan_sys (b, a) (b', a')"

text \<open>Two ends of a channel that was just opened: each knows the window of the other, nothing is buffered or on the way.  Windows are
  such that a buffer can hold them.\<close>

definition new_end :: "side \<Rightarrow> bool" where
  "new_end a \<longleftrightarrow>
     (let c = sd_chan a; b = cd c
      in stream_env (sd_env a) \<and> ch_type b = SSH_CHANNEL_OPEN \<and> \<not> cd_datagram c \<and> ch_ostate b = CHAN_OUTPUT_OPEN \<and>
         \<not> has_flag CHAN_EOF_SENT b \<and> \<not> has_flag CHAN_EOF_RCVD b \<and> ch_input b = [] \<and> ch_output b = [] \<and> ch_extended b = [] \<and>
         cd_local_window c = cd_local_window_max c \<and> cd_local_consumed c = 0 \<and> unat (cd_local_window_max c) \<le> SSHBUF_SIZE_MAX - 4 \<and>
         sd_out a = [] \<and> sd_read a = [] \<and> sd_written a = [])"

definition opened :: "side \<times> side \<Rightarrow> bool" where
  "opened s \<longleftrightarrow> (case s of (a, b) \<Rightarrow> new_end a \<and> new_end b \<and>
     cd_remote_window (sd_chan a) = cd_local_window (sd_chan b) \<and> cd_remote_window (sd_chan b) = cd_local_window (sd_chan a))"

inductive chan_run :: "side \<times> side \<Rightarrow> side \<times> side \<Rightarrow> bool" for s where
  start: "opened s \<Longrightarrow> chan_run s s"
| step: "chan_run s s1 \<Longrightarrow> chan_sys s1 s2 \<Longrightarrow> chan_run s s2"

text \<open>The flow from one end to the other: windows and data on the way.\<close>

definition window_flow :: "side \<Rightarrow> side \<Rightarrow> bool" where
  "window_flow a b \<longleftrightarrow>
     unat (cd_remote_window (sd_chan a)) + costs (sd_out a) + grants (sd_out b) \<le> unat (cd_local_window (sd_chan b)) \<and>
     (ch_extended_usage (cd (sd_chan a)) \<noteq> CHAN_EXTENDED_READ \<longrightarrow> list_all (\<lambda>m. \<not> is_ext m) (sd_out a) \<and>
        unat (cd_remote_window (sd_chan a)) + costs (sd_out a) + grants (sd_out b) = unat (cd_local_window (sd_chan b))) \<and>
     (ch_ostate (cd (sd_chan b)) = CHAN_OUTPUT_OPEN \<longrightarrow> held (sd_chan b) = unat (cd_local_window_max (sd_chan b)))"

definition data_flow :: "side \<Rightarrow> side \<Rightarrow> bool" where
  "data_flow a b \<longleftrightarrow>
     list_all known (sd_out a) \<and>
     ext_ok (has_flag CHAN_EOF_RCVD (cd (sd_chan b))) (sd_out a) \<and>
     (has_flag CHAN_EOF_RCVD (cd (sd_chan b)) \<or> SSH2_MSG_CHANNEL_EOF \<in> set (sd_out a) \<longrightarrow> has_flag CHAN_EOF_SENT (cd (sd_chan a))) \<and>
     prefix (sd_written b @ ch_output (cd (sd_chan b))) (sd_read a) \<and>
     (ch_ostate (cd (sd_chan b)) = CHAN_OUTPUT_OPEN \<longrightarrow>
        sd_read a = sd_written b @ ch_output (cd (sd_chan b)) @ stream (sd_out a) @ ch_input (cd (sd_chan a)))"

definition end_ok :: "side \<Rightarrow> bool" where
  "end_ok a \<longleftrightarrow> stream_env (sd_env a) \<and> chan_ok (sd_chan a) \<and> unat (cd_local_window_max (sd_chan a)) \<le> SSHBUF_SIZE_MAX - 4"

definition sys_inv :: "side \<times> side \<Rightarrow> bool" where
  "sys_inv s \<longleftrightarrow> (case s of (a, b) \<Rightarrow>
     end_ok a \<and> end_ok b \<and> window_flow a b \<and> window_flow b a \<and> data_flow a b \<and> data_flow b a)"

lemma sys_inv_swap: "sys_inv (a, b) \<Longrightarrow> sys_inv (b, a)"
  by (simp add: sys_inv_def)

lemma opened_inv: "opened s \<Longrightarrow> sys_inv s"
  by (cases s) (auto simp: opened_def new_end_def sys_inv_def end_ok_def chan_ok_def window_flow_def data_flow_def held_def Let_def)

lemma after_fields [simp]:
  "sd_chan (after a r w c) = c" "sd_env (after a r w c) = sd_env a" "sd_read (after a r w c) = sd_read a @ r" "sd_written (after a r w c) = sd_written a @ w"
  by (simp_all add: after_def)

lemma after_out: "effect (sd_chan a) r w ms c \<Longrightarrow> sd_out (after a r w c) = sd_out a @ ms"
  by (simp add: after_def effect_def sends_def)

text \<open>A step of the sender, then one of the receiver.\<close>

lemma sender_flow:
  assumes e: "effect (sd_chan a) r w ms c" and "window_flow a b" "data_flow a b"
  shows "window_flow (after a r w c) b" "data_flow (after a r w c) b"
proof -
  note o = after_out [OF e]
  from e have s: "same_setup (sd_chan a) c" "sends (sd_chan a) r ms c" by (simp_all add: effect_def)
  show "window_flow (after a r w c) b"
    using assms(2) s unfolding window_flow_def o by (simp add: sends_def same_setup_def ac_simps)
  have "ext_ok (has_flag CHAN_EOF_RCVD (cd (sd_chan b)) \<or> SSH2_MSG_CHANNEL_EOF \<in> set (sd_out a)) ms"
    using assms(3) s(2) ext_ok_mono unfolding data_flow_def sends_def by blast
  moreover have "sd_read a @ r = sd_written b @ ch_output (cd (sd_chan b)) @ stream (sd_out a @ ms) @ ch_input (cd c)"
    if "ch_ostate (cd (sd_chan b)) = CHAN_OUTPUT_OPEN"
    using assms(3) s(2) that unfolding data_flow_def sends_def by simp
  ultimately show "data_flow (after a r w c) b"
    using assms(3) s(2) unfolding data_flow_def o sends_def by (simp add: ext_ok_append prefix_prefix)
qed

lemma receiver_flow:
  assumes e: "effect (sd_chan a) r w ms c" and "window_flow b a" "data_flow b a"
  shows "window_flow b (after a r w c)" "data_flow b (after a r w c)"
proof -
  note o = after_out [OF e]
  from e have s: "same_setup (sd_chan a) c" "drains (sd_chan a) w ms c" by (simp_all add: effect_def)
  show "window_flow b (after a r w c)"
    using assms(2) s unfolding window_flow_def o by (simp add: drains_def same_setup_def ac_simps)
  have "prefix (sd_written a @ w @ ch_output (cd c)) (sd_written a @ ch_output (cd (sd_chan a)))" using s(2) by (simp add: drains_def)
  also have "prefix \<dots> (sd_read b)" using assms(3) by (simp add: data_flow_def)
  finally show "data_flow b (after a r w c)"
    using assms(3) s unfolding data_flow_def drains_def same_setup_def by simp
qed

lemma inv_effect:
  assumes "effect (sd_chan a) r w ms c" "sys_inv (a, b)"
  shows "sys_inv (after a r w c, b)"
  using assms sender_flow [OF assms(1)] receiver_flow [OF assms(1)] effect_ok [OF assms(1)]
  by (simp add: sys_inv_def end_ok_def effect_def same_setup_def)

section \<open>Receipt of messages\<close>

lemma deliver_data:
  assumes "end_ok a" "length d \<le> unat (cd_local_window (sd_chan a))"
  defines "c \<equiv> (sd_chan a)\<lparr>cd_local_window := cd_local_window (sd_chan a) - of_nat (length d)\<rparr>"
  shows "deliver (sd_env a) (sd_chan a) (SSH2_MSG_CHANNEL_DATA d) =
     Some (if ch_ostate (cd c) = CHAN_OUTPUT_OPEN then set_output (ch_output (cd c) @ d) c
           else c\<lparr>cd_local_consumed := cd_local_consumed c + of_nat (length d)\<rparr>)"
proof -
  have "held (sd_chan a) \<le> SSHBUF_SIZE_MAX - 4" using assms(1) by (simp add: end_ok_def chan_ok_def)
  then have l: "length (ch_output (cd (sd_chan a))) + length d \<le> SSHBUF_SIZE_MAX - 4" using assms(2) by (simp add: held_def)
  then have "unat (of_nat (length d) :: 32 word) = length d" by (simp add: unat_of_nat SSHBUF_SIZE_MAX_def)
  then have "\<not> of_nat (length d) > cd_local_window (sd_chan a)" using assms(2) by (simp add: word_less_nat_alt)
  moreover have "\<not> SSHBUF_SIZE_MAX < length (ch_output (cd (sd_chan a))) + length d" using l by simp
  ultimately show ?thesis using l assms(1)
    by (simp add: deliver_def input_data_def packet_get_string_enc buffer_append_def packet_check_eom_def c_def Let_def end_ok_def stream_env_def chan_ok_def)
qed

lemma unat_of_length: "length d \<le> unat (w :: 32 word) \<Longrightarrow> unat (of_nat (length d) :: 32 word) = length d \<and> unat (w - of_nat (length d)) = unat w - length d"
proof -
  assume d: "length d \<le> unat w"
  with unsigned_less [of w, where ?'a = nat] have n: "unat (of_nat (length d) :: 32 word) = length d" by (simp add: unat_of_nat)
  with d have "of_nat (length d) \<le> w" by (simp add: word_le_nat_alt)
  with n show ?thesis by (simp add: unat_sub)
qed

lemma after_same: "msgs (cd c) = msgs (cd (sd_chan a)) \<Longrightarrow> after a [] [] c = a\<lparr>sd_chan := c\<rparr>"
  by (simp add: after_def)

text \<open>Data that takes \<open>k\<close> bytes of the window.\<close>

lemma receive_inv:
  assumes inv: "sys_inv (a, b)" and q: "sd_out b = m # q" "grant m = 0" "m \<noteq> SSH2_MSG_CHANNEL_EOF"
    and f: "msgs (cd c) = msgs (cd (sd_chan a))" "same_setup (sd_chan a) c" "cd_remote_window c = cd_remote_window (sd_chan a)"
      "ch_ostate (cd c) = ch_ostate (cd (sd_chan a))" "ch_input (cd c) = ch_input (cd (sd_chan a))"
      "has_flag CHAN_EOF_SENT (cd c) = has_flag CHAN_EOF_SENT (cd (sd_chan a))"
    and w: "unat (cd_local_window c) + k = unat (cd_local_window (sd_chan a))" "k \<le> cost m" "is_ext m \<or> k = cost m"
    and h: "held c = held (sd_chan a)"
    and out: "ch_output (cd c) = ch_output (cd (sd_chan a)) @ (if ch_ostate (cd (sd_chan a)) = CHAN_OUTPUT_OPEN then data_of m else [])"
  shows "sys_inv (after a [] [] c, b\<lparr>sd_out := q\<rparr>)"
proof -
  have i: "end_ok a" "end_ok b" "window_flow b a" "window_flow a b" "data_flow b a" "data_flow a b" using inv by (simp_all add: sys_inv_def)
  have s: "cd_local_window_max c = cd_local_window_max (sd_chan a)" "ch_extended_usage (cd c) = ch_extended_usage (cd (sd_chan a))"
    "has_flag CHAN_EOF_RCVD (cd c) = has_flag CHAN_EOF_RCVD (cd (sd_chan a))" using f(2) by (simp_all add: same_setup_def)
  have "window_flow (b\<lparr>sd_out := q\<rparr>) (a\<lparr>sd_chan := c\<rparr>)" using i(3) q w h f(4) s(1) unfolding window_flow_def by auto
  moreover have "window_flow (a\<lparr>sd_chan := c\<rparr>) (b\<lparr>sd_out := q\<rparr>)" using i(4) q f(3) s(2) unfolding window_flow_def by simp
  moreover have "data_flow (b\<lparr>sd_out := q\<rparr>) (a\<lparr>sd_chan := c\<rparr>)" using i(5) q f(4) s(3) out unfolding data_flow_def by (auto simp: prefix_def)
  moreover have "data_flow (a\<lparr>sd_chan := c\<rparr>) (b\<lparr>sd_out := q\<rparr>)" using i(6) f(5,6) unfolding data_flow_def by simp
  moreover have "end_ok (a\<lparr>sd_chan := c\<rparr>)" using i(1) h f(2) by (simp add: end_ok_def chan_ok_def same_setup_def)
  ultimately show ?thesis using i(2) after_same [OF f(1)] by (simp add: sys_inv_def end_ok_def)
qed

lemma receive_data:
  assumes inv: "sys_inv (a, b)" and q: "sd_out b = SSH2_MSG_CHANNEL_DATA d # q"
  shows "\<exists>c. deliver (sd_env a) (sd_chan a) (SSH2_MSG_CHANNEL_DATA d) = Some c \<and> sys_inv (after a [] [] c, b\<lparr>sd_out := q\<rparr>)"
proof -
  let ?c = "sd_chan a"
  have d: "length d \<le> unat (cd_local_window ?c)" using inv q by (simp add: sys_inv_def window_flow_def)
  have ok: "end_ok a" "chan_ok ?c" using inv by (simp_all add: sys_inv_def end_ok_def)
  have k: "unat (cd_local_consumed ?c + of_nat (length d)) = unat (cd_local_consumed ?c) + length d"
    using held_words(1) [OF ok(2)] d by (intro unat_plus_of_nat) simp
  show ?thesis unfolding deliver_data [OF ok(1) d]
    by (rule exI, rule conjI, rule refl, rule receive_inv [OF inv q, where k = "length d"])
      (use unat_of_length [OF d] k d in \<open>simp_all add: same_setup_def held_def\<close>)
qed

lemma receive_extended:
  assumes inv: "sys_inv (a, b)" and q: "sd_out b = SSH2_MSG_CHANNEL_EXTENDED_DATA t d # q"
  shows "\<exists>c. deliver (sd_env a) (sd_chan a) (SSH2_MSG_CHANNEL_EXTENDED_DATA t d) = Some c \<and> sys_inv (after a [] [] c, b\<lparr>sd_out := q\<rparr>)"
proof -
  let ?c = "sd_chan a" and ?x = "(\<lambda>c. (set_extended (ch_extended (cd c) @ d) c)\<lparr>cd_local_window := cd_local_window c - of_nat (length d)\<rparr>) (sd_chan a)"
  have d: "length d \<le> unat (cd_local_window ?c)" using inv q by (simp add: sys_inv_def window_flow_def)
  note u = unat_of_length [OF d]
  have ok: "stream_env (sd_env a)" "chan_ok ?c" "unat (cd_local_window_max ?c) \<le> SSHBUF_SIZE_MAX - 4" using inv by (simp_all add: sys_inv_def end_ok_def)
  have eof: "\<not> has_flag CHAN_EOF_RCVD (cd ?c)" using inv q by (simp add: sys_inv_def data_flow_def)
  have le: "\<not> cd_local_window ?c < of_nat (length d)" using u d by (simp add: word_less_nat_alt)
  have h: "held ?c \<le> SSHBUF_SIZE_MAX - 4" using ok by (simp add: chan_ok_def)
  then have "length d \<le> SSHBUF_SIZE_MAX - 4" using d by (simp add: held_def)
  note p = packet_get_string_enc [OF this]
  show ?thesis
  proof (cases "ch_efd (cd ?c) = -1 \<or> ch_extended_usage (cd ?c) \<noteq> CHAN_EXTENDED_WRITE \<or> t \<noteq> SSH2_EXTENDED_DATA_STDERR")
    case True
    have "deliver (sd_env a) ?c (SSH2_MSG_CHANNEL_EXTENDED_DATA t d) = Some ?c"
      using True ok eof by (simp add: deliver_def input_extended_data_def chan_ok_def Let_def)
    moreover have "sys_inv (after a [] [] ?c, b\<lparr>sd_out := q\<rparr>)"
      by (rule receive_inv [OF inv q, where k = 0]) (simp_all add: same_setup_def)
    ultimately show ?thesis by blast
  next
    case False
    then have "\<not> SSHBUF_SIZE_MAX < length (ch_extended (cd ?c)) + length d" using h d by (simp add: held_def)
    then have "deliver (sd_env a) ?c (SSH2_MSG_CHANNEL_EXTENDED_DATA t d) = Some ?x"
      using False ok eof le p by (simp add: deliver_def input_extended_data_def chan_ok_def Let_def buffer_append_def)
    moreover have "sys_inv (after a [] [] ?x, b\<lparr>sd_out := q\<rparr>)"
      by (rule receive_inv [OF inv q, where k = "length d"]) (use u d False in \<open>simp_all add: same_setup_def held_def\<close>)
    ultimately show ?thesis by blast
  qed
qed

lemma receive_adjust:
  assumes inv: "sys_inv (a, b)" and q: "sd_out b = SSH2_MSG_CHANNEL_WINDOW_ADJUST n # q"
  shows "\<exists>c. deliver (sd_env a) (sd_chan a) (SSH2_MSG_CHANNEL_WINDOW_ADJUST n) = Some c \<and> sys_inv (after a [] [] c, b\<lparr>sd_out := q\<rparr>)"
proof -
  let ?c = "(\<lambda>c. c\<lparr>cd_remote_window := cd_remote_window c + n\<rparr>) (sd_chan a)"
  have i: "end_ok a" "end_ok b" "window_flow b a" "window_flow a b" "data_flow b a" "data_flow a b" using inv by (simp_all add: sys_inv_def)
  have "unat (cd_remote_window (sd_chan a)) + unat n \<le> unat (cd_local_window (sd_chan b))" using i(4) q by (simp add: window_flow_def)
  then have u: "unat (cd_remote_window (sd_chan a) + n) = unat (cd_remote_window (sd_chan a)) + unat n"
    using unsigned_less [of "cd_local_window (sd_chan b)", where ?'a = nat] by (simp add: unat_word_ariths)
  then have "deliver (sd_env a) (sd_chan a) (SSH2_MSG_CHANNEL_WINDOW_ADJUST n) = Some ?c"
    by (simp add: deliver_def input_window_adjust_def word_less_nat_alt)
  moreover have h: "held ?c = held (sd_chan a)" by (simp add: held_def)
  moreover have "window_flow (b\<lparr>sd_out := q\<rparr>) (a\<lparr>sd_chan := ?c\<rparr>)" using i(3) q h unfolding window_flow_def by simp
  moreover have "window_flow (a\<lparr>sd_chan := ?c\<rparr>) (b\<lparr>sd_out := q\<rparr>)" using i(4) q u unfolding window_flow_def by (simp add: ac_simps)
  moreover have "data_flow (b\<lparr>sd_out := q\<rparr>) (a\<lparr>sd_chan := ?c\<rparr>)" using i(5) q unfolding data_flow_def by simp
  moreover have "data_flow (a\<lparr>sd_chan := ?c\<rparr>) (b\<lparr>sd_out := q\<rparr>)" using i(6) unfolding data_flow_def by simp
  moreover have "end_ok (a\<lparr>sd_chan := ?c\<rparr>)" using i(1) h by (simp add: end_ok_def chan_ok_def)
  moreover have "after a [] [] ?c = a\<lparr>sd_chan := ?c\<rparr>" by (rule after_same) simp
  ultimately show ?thesis using i(2) by (simp add: sys_inv_def end_ok_def)
qed

text \<open>A message that closes: taken off the queue, its flag set, then an event of \<open>Nchan\<close>.\<close>

lemma receive_closing:
  assumes inv: "sys_inv (a, b)" and q: "sd_out b = m # q" "closing_msg m"
    and c0: "c0 = (if m = SSH2_MSG_CHANNEL_EOF then on_base (\<lambda>b. b\<lparr>ch_flags := ch_flags b OR CHAN_EOF_RCVD\<rparr>) (sd_chan a) else sd_chan a)"
    and cl: "closing (cd c0) (cd c)" "c = c0\<lparr>cd := cd c\<rparr>"
  shows "sys_inv (after a [] [] c, b\<lparr>sd_out := q\<rparr>)"
proof -
  have i: "end_ok a" "end_ok b" "window_flow b a" "window_flow a b" "data_flow b a" "data_flow a b" using inv by (simp_all add: sys_inv_def)
  have m: "cost m = 0" "grant m = 0" "\<not> is_ext m" "data_of m = []" "known m" using q(2) by (auto simp: closing_msg_def EOW_def)
  define a0 where "a0 = a\<lparr>sd_chan := c0\<rparr>"
  have f: "msgs (cd c0) = msgs (cd (sd_chan a))" "ch_type (cd c0) = ch_type (cd (sd_chan a))" "cd_datagram c0 = cd_datagram (sd_chan a)"
    "cd_local_window_max c0 = cd_local_window_max (sd_chan a)" "cd_local_window c0 = cd_local_window (sd_chan a)"
    "cd_remote_window c0 = cd_remote_window (sd_chan a)" "held c0 = held (sd_chan a)" "ch_extended_usage (cd c0) = ch_extended_usage (cd (sd_chan a))"
    "ch_ostate (cd c0) = ch_ostate (cd (sd_chan a))" "ch_output (cd c0) = ch_output (cd (sd_chan a))" "ch_input (cd c0) = ch_input (cd (sd_chan a))"
    "has_flag CHAN_EOF_SENT (cd c0) = has_flag CHAN_EOF_SENT (cd (sd_chan a))"
    "has_flag CHAN_EOF_RCVD (cd c0) = (has_flag CHAN_EOF_RCVD (cd (sd_chan a)) \<or> SSH2_MSG_CHANNEL_EOF = m)"
    by (auto simp: c0 held_def chan_flags)
  have "window_flow (b\<lparr>sd_out := q\<rparr>) a0" using i(3) q m f unfolding window_flow_def a0_def by simp
  moreover have "window_flow a0 (b\<lparr>sd_out := q\<rparr>)" using i(4) q m f unfolding window_flow_def a0_def by simp
  moreover have "data_flow (b\<lparr>sd_out := q\<rparr>) a0" using i(5) q m f unfolding data_flow_def a0_def by auto
  moreover have "data_flow a0 (b\<lparr>sd_out := q\<rparr>)" using i(6) f unfolding data_flow_def a0_def by simp
  moreover have "end_ok a0" using i(1) f by (simp add: end_ok_def chan_ok_def a0_def)
  ultimately have inv0: "sys_inv (a0, b\<lparr>sd_out := q\<rparr>)" using i(2) by (simp add: sys_inv_def end_ok_def)
  obtain ms where e: "effect (sd_chan a0) [] [] ms c" using effect_closing [OF cl(1)] cl(2) by (auto simp: a0_def)
  have "after a0 [] [] c = after a [] [] c" using f(1) by (simp add: after_def a0_def)
  with inv_effect [OF e inv0] show ?thesis by simp
qed

lemma closing_input_ieof:
  fixes c :: chan
  assumes "compat20 (ce_state E)"
  defines "c0 \<equiv> on_base (\<lambda>b. b\<lparr>ch_flags := ch_flags b OR CHAN_EOF_RCVD\<rparr>) c"
  shows "closing (cd c0) (cd (input_ieof E c))" "input_ieof E c = c0\<lparr>cd := cd (input_ieof E c)\<rparr>"
proof -
  have 1: "closing (cd c0) (chan_rcvd_ieof (ce_state E) (cd c))" using closing_rcvd_eof [OF assms(1)] by (simp add: c0_def)
  have 2: "closing (cd c0) (chan_set_istate (chan_rcvd_ieof (ce_state E) (cd c)) CHAN_INPUT_WAIT_DRAIN)" using 1 by blast
  show "closing (cd c0) (cd (input_ieof E c))"
    using 1 2 closing_trans [OF 2 closing_ibuf_empty [OF assms(1)]] by (simp add: input_ieof_def Let_def chan_set_istate_def)
  show "input_ieof E c = c0\<lparr>cd := cd (input_ieof E c)\<rparr>" by (simp add: input_ieof_def Let_def on_base_def c0_def)
qed

lemma receive_any:
  assumes inv: "sys_inv (a, b)" and q: "sd_out b = m # q"
  shows "\<exists>c. deliver (sd_env a) (sd_chan a) m = Some c \<and> sys_inv (after a [] [] c, b\<lparr>sd_out := q\<rparr>)"
proof -
  have k: "known m" using inv q by (simp add: sys_inv_def data_flow_def)
  have st: "compat20 (ce_state (sd_env a))" using inv by (simp add: sys_inv_def end_ok_def stream_env_def)
  note r = receive_closing [OF inv q]
  consider (data) d where "m = SSH2_MSG_CHANNEL_DATA d" | (ext) t d where "m = SSH2_MSG_CHANNEL_EXTENDED_DATA t d" | (adj) n where "m = SSH2_MSG_CHANNEL_WINDOW_ADJUST n"
    | (eof) "m = SSH2_MSG_CHANNEL_EOF" | (close) "m = SSH2_MSG_CHANNEL_CLOSE" | (eow) "m = EOW"
    using k by (cases m) (auto simp: closing_msg_def)
  then show ?thesis
  proof cases
    case data with receive_data [OF inv] q show ?thesis by simp
  next
    case ext with receive_extended [OF inv] q show ?thesis by simp
  next
    case adj with receive_adjust [OF inv] q show ?thesis by simp
  next
    case eof with r [OF _ refl] closing_input_ieof [OF st, of "sd_chan a"] show ?thesis by (simp add: deliver_def closing_msg_def)
  next
    case close with r [OF _ refl, of "on_base (chan_rcvd_oclose (ce_state (sd_env a))) (sd_chan a)"] closing_rcvd_close [OF st] show ?thesis
      by (simp add: deliver_def closing_msg_def on_base_def)
  next
    case eow with r [OF _ refl, of "on_base (chan_rcvd_eow (ce_state (sd_env a))) (sd_chan a)"] closing_rcvd_eow show ?thesis
      by (simp add: deliver_def closing_msg_def on_base_def EOW_def)
  qed
qed

lemma sys_step_inv: "chan_sys s s' \<Longrightarrow> sys_inv s \<Longrightarrow> sys_inv s'"
proof (induction rule: chan_sys.induct)
  case (act a r w c b)
  from act(2) have "stream_env (sd_env a)" "chan_ok (sd_chan a)" by (simp_all add: sys_inv_def end_ok_def)
  with effect_local [OF act(1)] inv_effect [OF _ act(2)] show ?case by blast
next
  case (receive b m q a c)
  with receive_any [OF receive(3,1)] show ?case by simp
next
  case (other a b a' b')
  then show ?case using sys_inv_swap by blast
qed

lemma flow_run_inv: "chan_run s s' \<Longrightarrow> sys_inv s'"
  by (induction rule: chan_run.induct) (use opened_inv sys_step_inv in blast)+

section \<open>Progress\<close>

fun flow_msg :: "chan_msg \<Rightarrow> bool" where
  "flow_msg (SSH2_MSG_CHANNEL_DATA d) = True" | "flow_msg (SSH2_MSG_CHANNEL_EXTENDED_DATA t d) = True" | "flow_msg (SSH2_MSG_CHANNEL_WINDOW_ADJUST n) = True"
| "flow_msg m = False"

text \<open>What the receipt of data or window leaves alone.\<close>

definition steady :: "chan \<Rightarrow> chan \<Rightarrow> bool" where
  "steady c c' \<longleftrightarrow>
     ch_type (cd c') = ch_type (cd c) \<and> ch_istate (cd c') = ch_istate (cd c) \<and> ch_ostate (cd c') = ch_ostate (cd c) \<and> ch_flags (cd c') = ch_flags (cd c) \<and>
     ch_wfd (cd c') = ch_wfd (cd c) \<and> ch_extended_usage (cd c') = ch_extended_usage (cd c) \<and> cd_local_window_max c' = cd_local_window_max c \<and>
     cd_remote_maxpacket c' = cd_remote_maxpacket c \<and> cd_datagram c' = cd_datagram c"

lemma steady_simps: "steady c c" "steady c c1 \<Longrightarrow> steady c1 c2 \<Longrightarrow> steady c c2"
  by (simp_all add: steady_def)

lemma deliver_flow:
  assumes "flow_msg m" "deliver E c m = Some c'" "stream_env E"
  shows "steady c c'" "msgs (cd c') = msgs (cd c)" "ch_input (cd c') = ch_input (cd c)" "is_ext m \<or> ch_extended (cd c') = ch_extended (cd c)"
    "grant m = 0 \<or> c' = c\<lparr>cd_remote_window := cd_remote_window c'\<rparr>"
proof -
  consider (data) d where "m = SSH2_MSG_CHANNEL_DATA d" | (ext) t d where "m = SSH2_MSG_CHANNEL_EXTENDED_DATA t d" | (adj) n where "m = SSH2_MSG_CHANNEL_WINDOW_ADJUST n"
    using assms(1) by (cases m) auto
  then have "steady c c' \<and> msgs (cd c') = msgs (cd c) \<and> ch_input (cd c') = ch_input (cd c) \<and> (is_ext m \<or> ch_extended (cd c') = ch_extended (cd c)) \<and>
    (grant m = 0 \<or> c' = c\<lparr>cd_remote_window := cd_remote_window c'\<rparr>)"
  proof cases
    case data
    with assms(2,3) show ?thesis
      by (auto simp: deliver_def input_data_def steady_def stream_env_def packet_check_eom_def Let_def split: if_splits option.splits)
  next
    case ext
    with assms(2) show ?thesis
      by (auto simp: deliver_def input_extended_data_def steady_def Let_def split: if_splits option.splits)
  next
    case adj
    with assms(2) show ?thesis by (auto simp: deliver_def input_window_adjust_def steady_def split: if_splits)
  qed
  then show "steady c c'" "msgs (cd c') = msgs (cd c)" "ch_input (cd c') = ch_input (cd c)" "is_ext m \<or> ch_extended (cd c') = ch_extended (cd c)"
    "grant m = 0 \<or> c' = c\<lparr>cd_remote_window := cd_remote_window c'\<rparr>" by simp_all
qed

text \<open>A flow that nobody has begun to close: the sender may send, the receiver has a descriptor to write to, a window of two bytes or more and
  no extended data in its way.\<close>

definition may_send :: "chan \<Rightarrow> bool" where
  "may_send c \<longleftrightarrow>
     ch_istate (cd c) \<in> {CHAN_INPUT_OPEN, CHAN_INPUT_WAIT_DRAIN} \<and> \<not> has_flag (CHAN_CLOSE_SENT OR CHAN_CLOSE_RCVD) (cd c) \<and>
     cd_remote_maxpacket c > 0 \<and> ch_extended_usage (cd c) \<noteq> CHAN_EXTENDED_READ"

definition may_write :: "chan \<Rightarrow> bool" where
  "may_write c \<longleftrightarrow>
     ch_ostate (cd c) = CHAN_OUTPUT_OPEN \<and> \<not> has_flag (CHAN_CLOSE_SENT OR CHAN_CLOSE_RCVD) (cd c) \<and> ch_wfd (cd c) \<noteq> -1 \<and> cd_local_window_max c \<ge> 2"

text \<open>The states from which the flow of data is shown to complete: nothing is being closed in this direction, and no extended data takes part.\<close>

definition flowing :: "side \<times> side \<Rightarrow> bool" where
  "flowing s \<longleftrightarrow> (case s of (a, b) \<Rightarrow>
     may_send (sd_chan a) \<and> may_write (sd_chan b) \<and> length (ch_input (cd (sd_chan a))) < 2 ^ 32 \<and>
     (ch_extended_usage (cd (sd_chan b)) = CHAN_EXTENDED_WRITE \<longrightarrow> ch_extended (cd (sd_chan b)) = []) \<and>
     list_all flow_msg (sd_out a) \<and> list_all flow_msg (sd_out b))"

lemma steady_may: "steady c c' \<Longrightarrow> may_send c' = may_send c" "steady c c' \<Longrightarrow> may_write c' = may_write c"
  by (simp_all add: steady_def may_send_def may_write_def has_flag_def)

lemma sys_steps_inv: "chan_sys\<^sup>*\<^sup>* s s' \<Longrightarrow> sys_inv s \<Longrightarrow> sys_inv s'"
  by (induction rule: rtranclp_induct) (use sys_step_inv in blast)+

text \<open>What is on the way arrives.\<close>

lemma arrive:
  assumes "sys_inv (a, b)" "flowing (a, b)"
  shows "\<exists>a' b'. chan_sys\<^sup>*\<^sup>* (a, b) (a', b') \<and> flowing (a', b') \<and> sd_out a' = [] \<and> sd_out b' = [] \<and>
     ch_input (cd (sd_chan a')) = ch_input (cd (sd_chan a)) \<and> sd_read a' = sd_read a \<and> sd_env a' = sd_env a \<and>
     (sd_out a = [] \<longrightarrow> sd_chan b' = sd_chan b)"
  using assms
proof (induction "length (sd_out a) + length (sd_out b)" arbitrary: a b)
  case 0
  then show ?case by (intro exI [of _ a] exI [of _ b]) simp
next
  case (Suc n)
  have i: "stream_env (sd_env a)" "stream_env (sd_env b)" using Suc.prems(1) by (simp_all add: sys_inv_def end_ok_def)
  show ?case
  proof (cases "sd_out b")
    case (Cons m q)
    with Suc.prems(1) obtain c where c: "deliver (sd_env a) (sd_chan a) m = Some c" "sys_inv (after a [] [] c, b\<lparr>sd_out := q\<rparr>)" using receive_any by blast
    have m: "flow_msg m" using Suc.prems(2) Cons by (simp add: flowing_def)
    note f = deliver_flow [OF m c(1) i(1)]
    have a: "after a [] [] c = a\<lparr>sd_chan := c\<rparr>" by (rule after_same [OF f(2)])
    have "flowing (a\<lparr>sd_chan := c\<rparr>, b\<lparr>sd_out := q\<rparr>)" using Suc.prems(2) Cons f(3) steady_may [OF f(1)] by (simp add: flowing_def)
    moreover have "n = length (sd_out (a\<lparr>sd_chan := c\<rparr>)) + length (sd_out (b\<lparr>sd_out := q\<rparr>))" using Suc.hyps(2) Cons by simp
    ultimately obtain a' b' where s: "chan_sys\<^sup>*\<^sup>* (a\<lparr>sd_chan := c\<rparr>, b\<lparr>sd_out := q\<rparr>) (a', b')" "flowing (a', b')" "sd_out a' = []" "sd_out b' = []"
      "ch_input (cd (sd_chan a')) = ch_input (cd c)" "sd_read a' = sd_read a" "sd_env a' = sd_env a" "sd_out a = [] \<longrightarrow> sd_chan b' = sd_chan b"
      using Suc.hyps(1) [of "a\<lparr>sd_chan := c\<rparr>" "b\<lparr>sd_out := q\<rparr>"] c(2) a by auto
    from chan_sys.receive [OF Cons c(1)] have "chan_sys (a, b) (a\<lparr>sd_chan := c\<rparr>, b\<lparr>sd_out := q\<rparr>)" unfolding a .
    from converse_rtranclp_into_rtranclp [of chan_sys, OF this s(1)] show ?thesis using s f(3) by (intro exI [of _ a'] exI [of _ b']) simp
  next
    case Nil
    then obtain m q where q: "sd_out a = m # q" using Suc.hyps(2) by (cases "sd_out a") auto
    with receive_any [OF sys_inv_swap [OF Suc.prems(1)] q] obtain c where
      c: "deliver (sd_env b) (sd_chan b) m = Some c" "sys_inv (after b [] [] c, a\<lparr>sd_out := q\<rparr>)" by blast
    have m: "flow_msg m" using Suc.prems(2) q by (simp add: flowing_def)
    have x: "\<not> is_ext m" using Suc.prems q by (simp add: sys_inv_def window_flow_def flowing_def may_send_def)
    note f = deliver_flow [OF m c(1) i(2)]
    have b: "after b [] [] c = b\<lparr>sd_chan := c\<rparr>" by (rule after_same [OF f(2)])
    have "flowing (a\<lparr>sd_out := q\<rparr>, b\<lparr>sd_chan := c\<rparr>)" using Suc.prems(2) q f(4) x steady_may [OF f(1)] f(1) by (simp add: flowing_def steady_def)
    moreover have "n = length (sd_out (a\<lparr>sd_out := q\<rparr>)) + length (sd_out (b\<lparr>sd_chan := c\<rparr>))" using Suc.hyps(2) q by simp
    ultimately obtain a' b' where s: "chan_sys\<^sup>*\<^sup>* (a\<lparr>sd_out := q\<rparr>, b\<lparr>sd_chan := c\<rparr>) (a', b')" "flowing (a', b')" "sd_out a' = []" "sd_out b' = []"
      "ch_input (cd (sd_chan a')) = ch_input (cd (sd_chan a))" "sd_read a' = sd_read a" "sd_env a' = sd_env a"
      using Suc.hyps(1) [of "a\<lparr>sd_out := q\<rparr>" "b\<lparr>sd_chan := c\<rparr>"] sys_inv_swap [OF c(2)] b by auto
    from chan_sys.other [OF chan_sys.receive [OF q c(1)]] have "chan_sys (a, b) (a\<lparr>sd_out := q\<rparr>, b\<lparr>sd_chan := c\<rparr>)" unfolding b .
    from converse_rtranclp_into_rtranclp [of chan_sys, OF this s(1)] show ?thesis using s q by (intro exI [of _ a'] exI [of _ b']) simp
  qed
qed

text \<open>The receiver writes all it has and checks its window, which is then at least half open.\<close>

definition idle_io :: "nat \<Rightarrow> chan_io" where
  "idle_io n = \<lparr>io_rfd_set = False, io_read = Read_EINTR, io_wfd_set = (n > 0), io_write = Write n, io_noecho = False,
     io_efd_rset = False, io_efd_wset = False, io_eread = Read_EINTR, io_ewrite = Write_again\<rparr>"

lemma check_window_half:
  assumes "chan_ok c" "held c = unat (cd_local_window_max c)" "may_write c" "ch_output (cd c) = []" "ch_type (cd c) = SSH_CHANNEL_OPEN"
    "ch_extended_usage (cd c) = CHAN_EXTENDED_WRITE \<longrightarrow> ch_extended (cd c) = []"
  shows "cd_local_window_max c div 2 \<le> cd_local_window (channel_check_window c)"
proof -
  have s: "unat (cd_local_window c) + unat (cd_local_consumed c) = unat (cd_local_window_max c)" using assms(2,4,6) by (simp add: held_def split: if_splits)
  then have "unat (cd_local_window c + cd_local_consumed c) = unat (cd_local_window_max c)"
    using unsigned_less [of "cd_local_window_max c", where ?'a = nat] by (simp add: unat_word_ariths)
  then have sum: "cd_local_window c + cd_local_consumed c = cd_local_window_max c" using word_unat_eq_iff by blast
  have half: "cd_local_window_max c div 2 \<le> cd_local_window_max c" by (simp add: word_le_nat_alt unat_div)
  show ?thesis
  proof (cases "cd_local_consumed c > 0 \<and> cd_local_window c < cd_local_window_max c div 2")
    case True
    with assms(3,5) sum half show ?thesis by (simp add: channel_check_window_def may_write_def)
  next
    case False
    then have "cd_local_window_max c div 2 \<le> cd_local_window c" using sum half by (cases "cd_local_consumed c = 0") (simp_all add: word_neq_0_conv)
    with sum half show ?thesis by (simp add: channel_check_window_def)
  qed
qed

lemma pre_open_open: "ch_ostate (cd c) = CHAN_OUTPUT_OPEN \<Longrightarrow> snd (channel_pre_open E c) = c \<and> fst (snd (fst (channel_pre_open E c))) = (ch_output (cd c) \<noteq> [])"
  by (simp add: channel_pre_open_def Let_def)

lemma flush_step:
  assumes "stream_env E" "chan_ok c" "may_write c"
  defines "io \<equiv> idle_io (length (ch_output (cd c)))" and "c1 \<equiv> count_consumed E (length (ch_output (cd c))) (set_output [] c)"
  shows "local_step E c [] (ch_output (cd c)) (channel_check_window c1)"
proof -
  obtain wants where p: "channel_pre_open E c = (wants, c)" "fst (snd wants) = (ch_output (cd c) \<noteq> [])"
    using pre_open_open [of c E] assms(3) by (cases "channel_pre_open E c") (auto simp: may_write_def)
  have fits: "io_fits wants io" using p(2) by (cases wants) (simp add: io_fits_def io_def idle_io_def)
  have 1: "channel_handle_rfd E io c = Some c" by (simp add: channel_handle_rfd_def io_def idle_io_def outcome_of_def Let_def)
  have 2: "channel_handle_wfd E io c = Some c1"
    using assms(1-3) by (auto simp: channel_handle_wfd_def write_data_def io_def idle_io_def c1_def count_consumed_def stream_env_def chan_ok_def may_write_def
        Let_def buffer_consume_def set_output_def on_base_def)
  have 3: "channel_handle_efd E io c1 = Some c1" by (simp add: channel_handle_efd_def io_def idle_io_def outcome_of_def Let_def)
  have "channel_post_open E io c = Some (channel_check_window c1)" using assms(1) 1 2 3 by (simp add: channel_post_open_def stream_env_def)
  from local_step.select [OF p(1) fits 1 this] have "local_step E c (bytes_read io c) (bytes_written io c) (channel_check_window c1)" .
  moreover have "bytes_read io c = []" by (simp add: bytes_read_def io_def idle_io_def outcome_of_def Let_def)
  moreover have "bytes_written io c = ch_output (cd c)" using assms(3) by (simp add: bytes_written_def io_def idle_io_def may_write_def)
  ultimately show ?thesis by simp
qed

lemma steady_check_window: "steady c (channel_check_window c)" "ch_input (cd (channel_check_window c)) = ch_input (cd c)"
  "ch_output (cd (channel_check_window c)) = ch_output (cd c)" "ch_extended (cd (channel_check_window c)) = ch_extended (cd c)"
  "\<exists>ms. msgs (cd (channel_check_window c)) = msgs (cd c) @ ms \<and> list_all flow_msg ms"
  by (simp_all add: steady_def channel_check_window_def packet_send_def event_def) (simp add: msgs_def)

lemma steady_consumed: "steady c (count_consumed E n (set_output v c))" "msgs (cd (count_consumed E n (set_output v c))) = msgs (cd c)"
  "ch_extended (cd (count_consumed E n (set_output v c))) = ch_extended (cd c)" "ch_output (cd (count_consumed E n (set_output v c))) = v"
  by (simp_all add: steady_def count_consumed_def)

lemma flush:
  assumes inv: "sys_inv (a, b)" and fl: "flowing (a, b)" "sd_out a = []"
  shows "\<exists>b'. chan_sys (a, b) (a, b') \<and> flowing (a, b') \<and> ch_output (cd (sd_chan b')) = [] \<and>
     cd_local_window_max (sd_chan b') div 2 \<le> cd_local_window (sd_chan b')"
proof -
  let ?c = "sd_chan b"
  define c1 where "c1 = count_consumed (sd_env b) (length (ch_output (cd ?c))) (set_output [] ?c)"
  define b' where "b' = after b [] (ch_output (cd ?c)) (channel_check_window c1)"
  have ok: "stream_env (sd_env b)" "chan_ok ?c" "may_write ?c" using inv fl by (simp_all add: sys_inv_def end_ok_def flowing_def)
  have step: "local_step (sd_env b) ?c [] (ch_output (cd ?c)) (channel_check_window c1)" using flush_step [OF ok] by (simp add: c1_def)
  have sys: "chan_sys (a, b) (a, b')" using chan_sys.other [OF chan_sys.act [OF step, of a]] by (simp add: b'_def)
  have inv': "sys_inv (a, b')" using sys_step_inv [OF sys inv] .
  have s: "steady ?c c1" "msgs (cd c1) = msgs (cd ?c)" "ch_extended (cd c1) = ch_extended (cd ?c)" "ch_output (cd c1) = []" by (simp_all add: c1_def steady_consumed)
  note w = steady_check_window [of c1]
  have st: "steady ?c (sd_chan b')" using steady_simps(2) [OF s(1) w(1)] by (simp add: b'_def)
  obtain ms where ms: "msgs (cd (channel_check_window c1)) = msgs (cd c1) @ ms" "list_all flow_msg ms" using w(5) by blast
  then have "sd_out b' = sd_out b @ ms" by (simp add: b'_def after_def s(2))
  then have fl': "flowing (a, b')"
    using fl st steady_may(2) [OF st] ms(2) w(4) s(3) by (simp add: flowing_def b'_def steady_def)
  have held1: "held c1 = held ?c"
  proof -
    have "unat (cd_local_consumed ?c + of_nat (length (ch_output (cd ?c)))) = unat (cd_local_consumed ?c) + length (ch_output (cd ?c))"
      using held_words(1) [OF ok(2)] by (intro unat_plus_of_nat) simp
    with ok(1) show ?thesis by (simp add: c1_def held_def count_consumed_def stream_env_def)
  qed
  have "cd_local_window_max c1 div 2 \<le> cd_local_window (channel_check_window c1)"
  proof (rule check_window_half)
    show "chan_ok c1" using ok(2) s(1) held1 by (simp add: chan_ok_def steady_def)
    show "held c1 = unat (cd_local_window_max c1)" using inv ok(3) held1 s(1) by (simp add: sys_inv_def window_flow_def may_write_def steady_def)
    show "may_write c1" using ok(3) steady_may(2) [OF s(1)] by simp
    show "ch_type (cd c1) = SSH_CHANNEL_OPEN" using ok(2) s(1) by (simp add: chan_ok_def steady_def)
    show "ch_extended_usage (cd c1) = CHAN_EXTENDED_WRITE \<longrightarrow> ch_extended (cd c1) = []" using fl s by (simp add: flowing_def steady_def)
  qed (rule s(4))
  then show ?thesis using sys fl' w(1,3) s(4) by (intro exI [of _ b']) (simp add: b'_def steady_def)
qed

text \<open>The sender sends when the window is not closed.\<close>

lemma sender_step:
  assumes inv: "sys_inv (a, b)" and fl: "flowing (a, b)" and c: "ch_input (cd (sd_chan a)) \<noteq> []" "cd_remote_window (sd_chan a) > 0"
  shows "\<exists>a'. chan_sys (a, b) (a', b) \<and> flowing (a', b) \<and> length (ch_input (cd (sd_chan a'))) < length (ch_input (cd (sd_chan a))) \<and> sd_read a' = sd_read a"
proof -
  let ?c = "sd_chan a" and ?E = "sd_env a"
  have ok: "stream_env ?E" "chan_ok ?c" "may_send ?c" "length (ch_input (cd ?c)) < 2 ^ 32" using inv fl by (simp_all add: sys_inv_def end_ok_def flowing_def)
  define len where "len = min (min (of_nat (length (ch_input (cd ?c)))) (cd_remote_window ?c)) (cd_remote_maxpacket ?c)"
  have nz: "(of_nat (length (ch_input (cd ?c))) :: 32 word) > 0" using c(1) ok(4) by (simp add: word_less_nat_alt unat_of_nat)
  have len: "len > 0" "unat len \<le> length (ch_input (cd ?c))"
    using nz c(2) ok(3) unat_min_le [of len "length (ch_input (cd ?c))"] by (auto simp: len_def may_send_def min.coboundedI1)
  define m where "m = SSH2_MSG_CHANNEL_DATA (take (unat len) (ch_input (cd ?c)))"
  define c' where "c' = (set_input (drop (unat len) (ch_input (cd ?c))) (on_base (packet_send m) ?c))\<lparr>cd_remote_window := cd_remote_window ?c - len\<rparr>"
  have st: "steady ?c c'" by (simp add: steady_def c'_def packet_send_def event_def)
  have "poll_stream ?E ?c = Some c'"
    using ok(1) len by (simp add: poll_stream_def poll_len_def stream_env_def Let_def c'_def m_def buffer_consume_def len_def [symmetric])
  then have "poll_input ?E ?c = Some c'" using ok(3) c(1) by (simp add: poll_input_def may_send_def Let_def)
  moreover have "poll_extended ?E c' = Some c'" using ok(3) st by (simp add: poll_extended_def may_send_def steady_def)
  moreover have "poll_active ?E ?c" using ok by (simp add: poll_active_def chan_ok_def may_send_def)
  ultimately have "output_poll_one ?E ?c = Some c'" using ok(2) by (simp add: output_poll_one_def chan_ok_def)
  then have sys: "chan_sys (a, b) (after a [] [] c', b)" by (intro chan_sys.act local_step.poll)
  have o: "sd_out (after a [] [] c') = sd_out a @ [m]" by (simp add: after_def c'_def)
  have i: "ch_input (cd c') = drop (unat len) (ch_input (cd ?c))" by (simp add: c'_def)
  then have "flowing (after a [] [] c', b)" using fl steady_may [OF st] ok(4) o by (simp add: flowing_def m_def less_imp_diff_less)
  moreover have "length (ch_input (cd c')) < length (ch_input (cd ?c))" using i len c(1) by (simp add: word_less_nat_alt)
  ultimately show ?thesis using sys by (intro exI [of _ "after a [] [] c'"]) simp
qed

lemma flow_completes:
  assumes "sys_inv (a, b)" "flowing (a, b)"
  shows "\<exists>a' b'. chan_sys\<^sup>*\<^sup>* (a, b) (a', b') \<and> sd_read a' = sd_read a \<and> sd_written b' = sd_read a"
  using assms
proof (induction "length (ch_input (cd (sd_chan a)))" arbitrary: a b rule: less_induct)
  case less
  from arrive [OF less.prems] obtain a1 b1 where 1: "chan_sys\<^sup>*\<^sup>* (a, b) (a1, b1)" "flowing (a1, b1)" "sd_out a1 = []"
    "ch_input (cd (sd_chan a1)) = ch_input (cd (sd_chan a))" "sd_read a1 = sd_read a" by blast
  note i1 = sys_steps_inv [OF 1(1) less.prems(1)]
  from flush [OF i1 1(2,3)] obtain b2 where 2: "chan_sys (a1, b1) (a1, b2)" "flowing (a1, b2)" "ch_output (cd (sd_chan b2)) = []"
    "cd_local_window_max (sd_chan b2) div 2 \<le> cd_local_window (sd_chan b2)" by blast
  note i2 = sys_step_inv [OF 2(1) i1]
  from arrive [OF i2 2(2)] 1(3) obtain a3 b3 where 3: "chan_sys\<^sup>*\<^sup>* (a1, b2) (a3, b3)" "flowing (a3, b3)" "sd_out a3 = []" "sd_out b3 = []"
    "ch_input (cd (sd_chan a3)) = ch_input (cd (sd_chan a1))" "sd_read a3 = sd_read a1" "sd_chan b3 = sd_chan b2" by blast
  note i3 = sys_steps_inv [OF 3(1) i2]
  have run: "chan_sys\<^sup>*\<^sup>* (a, b) (a3, b3)" using 1(1) 2(1) 3(1) by simp
  show ?case
  proof (cases "ch_input (cd (sd_chan a3)) = []")
    case True
    have "sd_read a3 = sd_written b3" using i3 3(2-4) 2(3) 3(7) True by (simp add: sys_inv_def data_flow_def flowing_def may_write_def)
    with run 3(6) 1(5) show ?thesis by (intro exI [of _ a3] exI [of _ b3]) simp
  next
    case False
    have "unat (cd_remote_window (sd_chan a3)) = unat (cd_local_window (sd_chan b2))"
      using i3 3(2-4,7) by (simp add: sys_inv_def window_flow_def flowing_def may_send_def)
    moreover have "unat (cd_local_window_max (sd_chan b2)) div 2 \<le> unat (cd_local_window (sd_chan b2))" "unat (cd_local_window_max (sd_chan b2)) \<ge> 2"
      using 2(2,4) by (simp_all add: word_le_nat_alt unat_div flowing_def may_write_def)
    ultimately have "cd_remote_window (sd_chan a3) > 0" by (simp add: word_less_nat_alt)
    from sender_step [OF i3 3(2) False this] obtain a4 where 4: "chan_sys (a3, b3) (a4, b3)" "flowing (a4, b3)"
      "length (ch_input (cd (sd_chan a4))) < length (ch_input (cd (sd_chan a3)))" "sd_read a4 = sd_read a3" by blast
    have "length (ch_input (cd (sd_chan a4))) < length (ch_input (cd (sd_chan a)))" using 4(3) 3(5) 1(4) by simp
    from less.hyps [OF this sys_step_inv [OF 4(1) i3] 4(2)] obtain a' b' where 5: "chan_sys\<^sup>*\<^sup>* (a4, b3) (a', b')" "sd_read a' = sd_read a4" "sd_written b' = sd_read a4" by blast
    then have "chan_sys\<^sup>*\<^sup>* (a, b) (a', b')" using run 4(1) by simp
    with 5 4(4) 3(6) 1(5) show ?thesis by (intro exI [of _ a'] exI [of _ b']) simp
  qed
qed

lemma run_steps: "chan_sys\<^sup>*\<^sup>* s1 s2 \<Longrightarrow> chan_run s s1 \<Longrightarrow> chan_run s s2"
  by (induction rule: rtranclp_induct) (auto intro: chan_run.step)

text \<open>The ends are interchangeable.\<close>

lemma run_swap: "chan_run s s' \<Longrightarrow> chan_run (prod.swap s) (prod.swap s')"
proof (induction rule: chan_run.induct)
  case start
  then show ?case by (intro chan_run.start) (auto simp: opened_def)
next
  case (step s1 s2)
  obtain a b a' b' where "s1 = (a, b)" "s2 = (a', b')" by (metis surj_pair)
  with step chan_sys.other [of a b a' b'] show ?case by (auto intro: chan_run.step)
qed

section \<open>A small run\<close>

definition demo_cenv :: chan_env where
  "demo_cenv = \<lparr>ce_state = demo2, ce_interactive = True, ce_maxsize = 32768, ce_input_filter = None, ce_output_filter = None, ce_open_confirm = None,
     ce_detach_user = (\<lambda>c. c)\<rparr>"

definition demo_end :: chan where
  "demo_end = (fresh_chan ''session'' SSH_CHANNEL_OPEN 5 6 7 64 32 CHAN_EXTENDED_WRITE 0)\<lparr>cd_remote_window := 64, cd_remote_maxpacket := 2\<rparr>"

definition demo_side :: side where
  "demo_side = \<lparr>sd_env = demo_cenv, sd_chan = demo_end, sd_out = [], sd_read = [], sd_written = []\<rparr>"

definition demo_read :: side where
  "demo_read = after demo_side [1, 2, 3] [] (set_input [1, 2, 3] demo_end)"

lemmas demo_flow = demo_cenv_def demo_end_def demo_side_def demo2_def fresh_chan_def channel_register_fds_def zero_channel_def on_base_def

lemma demo_opened: "opened (demo_side, demo_side)"
  by (simp add: opened_def new_end_def stream_env_def has_flag_def SSHBUF_SIZE_MAX_def demo_flow)

lemma demo_reads: "local_step demo_cenv demo_end [1, 2, 3] [] (set_input [1, 2, 3] demo_end)"
proof -
  define io where "io = (idle_io 0)\<lparr>io_rfd_set := True, io_read := Read [1, 2, 3]\<rparr>"
  let ?c = "set_input [1, 2, 3] demo_end"
  have 0: "channel_pre_open demo_cenv demo_end = ((True, False, False, False), demo_end)"
    by (simp add: channel_pre_open_def demo_flow buffer_check_alloc_def CHAN_RBUF_def SSHBUF_SIZE_MAX_def has_flag_def)
  have 1: "channel_handle_rfd demo_cenv io demo_end = Some ?c"
    by (simp add: channel_handle_rfd_def io_def idle_io_def demo_flow outcome_of_def buffer_append_def SSHBUF_SIZE_MAX_def)
  have "channel_post_open demo_cenv io demo_end = Some ?c"
    unfolding channel_post_open_def 1
    by (simp add: channel_handle_wfd_def channel_handle_efd_def channel_check_window_def io_def idle_io_def demo_flow set_input_def outcome_of_def)
  from local_step.select [OF 0 _ 1 this] show ?thesis
    by (simp add: io_fits_def io_def idle_io_def bytes_read_def bytes_written_def outcome_of_def demo_flow set_input_def)
qed

lemma demo_run: "chan_run (demo_side, demo_side) (demo_read, demo_side)"
proof -
  have "local_step (sd_env demo_side) (sd_chan demo_side) [1, 2, 3] [] (set_input [1, 2, 3] demo_end)" using demo_reads by (simp add: demo_side_def)
  from chan_run.step [OF chan_run.start [OF demo_opened] chan_sys.act [OF this]] show ?thesis unfolding demo_read_def .
qed

section \<open>Where windows go wrong\<close>

text \<open>A datagram costs its sender its length, and its receiver four bytes more, which come back with the next grant: the sender's idea of the window
  grows by four bytes with each datagram.\<close>

lemma datagram_window_mismatch:
  assumes "length d \<le> SSHBUF_SIZE_MAX - 4" "ch_input (cd c) = string_enc d"
    "of_nat (length d) \<le> cd_remote_window c" "of_nat (length d) \<le> cd_remote_maxpacket c"
    and "stream_env E" "cd_datagram r" "ch_type (cd r) = SSH_CHANNEL_OPEN" "ch_ostate (cd r) = CHAN_OUTPUT_OPEN" "ch_output (cd r) = []"
      "of_nat (length d) + 4 \<le> cd_local_window r"
  shows "\<exists>c'. poll_datagram c = Some c' \<and> msgs (cd c') = msgs (cd c) @ [SSH2_MSG_CHANNEL_DATA d] \<and> cd_remote_window c' = cd_remote_window c - of_nat (length d)"
    "\<exists>r'. deliver E r (SSH2_MSG_CHANNEL_DATA d) = Some r' \<and> cd_local_window r' = cd_local_window r - (of_nat (length d) + 4)"
proof -
  note g = packet_get_string_enc [OF assms(1)]
  show "\<exists>c'. poll_datagram c = Some c' \<and> msgs (cd c') = msgs (cd c) @ [SSH2_MSG_CHANNEL_DATA d] \<and> cd_remote_window c' = cd_remote_window c - of_nat (length d)"
    using assms(2-4) g by (simp add: poll_datagram_def buffer_get_string_def Let_def not_less [symmetric])
  have "\<not> SSHBUF_SIZE_MAX < length d + 4" using assms(1) by (simp add: SSHBUF_SIZE_MAX_def)
  then show "\<exists>r'. deliver E r (SSH2_MSG_CHANNEL_DATA d) = Some r' \<and> cd_local_window r' = cd_local_window r - (of_nat (length d) + 4)"
    using assms(5-) g by (simp add: deliver_def input_data_def stream_env_def buffer_put_string_def buffer_append_def packet_check_eom_def Let_def not_less [symmetric])
qed

text \<open>A datagram that cannot be written at once is gone, and so is its window: it is neither buffered nor counted as consumed.\<close>

lemma datagram_dropped:
  assumes "length d \<le> SSHBUF_SIZE_MAX - 4" "ch_output (cd c) = string_enc d" "stream_env E" "cd_datagram c" "ch_wfd (cd c) \<noteq> -1"
    "io_wfd_set io" "io_write io = Write_again"
  shows "channel_handle_wfd E io c = Some (set_output [] c)"
proof -
  have "string_enc d \<noteq> []" using length_string_enc [of d] by (metis add_is_0 list.size(3) zero_neq_numeral)
  with assms packet_get_string_enc [OF assms(1)] show ?thesis
    by (simp add: channel_handle_wfd_def write_data_def stream_env_def buffer_get_string_def set_output_def on_base_def)
qed

text \<open>Extended data that arrives after its descriptor was closed changes nothing, so the window it used is never given back.\<close>

lemma extended_data_leaks:
  assumes "ch_type (cd r) = SSH_CHANNEL_OPEN" "\<not> has_flag CHAN_EOF_RCVD (cd r)" "ch_efd (cd r) = -1"
  shows "deliver E r (SSH2_MSG_CHANNEL_EXTENDED_DATA t d) = Some r"
  using assms by (simp add: deliver_def input_extended_data_def)

section \<open>Properties\<close>

text \<open>C23: In every run of the two ends of an open stream channel (rounds of select, sending, receipt of messages, failures and closing in any
  order), what one end has written to its descriptor is a prefix of what the other has read, and as long as its output is open nothing is lost
  or reordered: what was read is what was written, followed by the output buffer, the data on the way and the input buffer of the sender.
  The next message on the way is always accepted: no window overflow, oversized packet or late extended data ends the connection.\<close>

theorem channel_stream_intact:
  assumes "chan_run s (a, b)"
  shows "prefix (sd_written b @ ch_output (cd (sd_chan b))) (sd_read a) \<and>
    (ch_ostate (cd (sd_chan b)) = CHAN_OUTPUT_OPEN \<longrightarrow>
       sd_read a = sd_written b @ ch_output (cd (sd_chan b)) @ stream (sd_out a) @ ch_input (cd (sd_chan a))) \<and>
    (\<forall>m q. sd_out a = m # q \<longrightarrow> deliver (sd_env b) (sd_chan b) m \<noteq> None)"
proof -
  have i: "sys_inv (a, b)" using flow_run_inv [OF assms] .
  then have "data_flow a b" by (simp add: sys_inv_def)
  moreover have "deliver (sd_env b) (sd_chan b) m \<noteq> None" if "sd_out a = m # q" for m q
    using receive_any [OF sys_inv_swap [OF i] that] by auto
  ultimately show ?thesis by (simp add: data_flow_def)
qed

theorem channel_stream_intact_witness:
  "ch_input (cd (sd_chan demo_read)) = [1, 2, 3] \<and>
   sd_read demo_read = sd_written demo_side @ ch_output (cd (sd_chan demo_side)) @ stream (sd_out demo_read) @ ch_input (cd (sd_chan demo_read))"
  using channel_stream_intact [OF demo_run] by (simp add: demo_side_def demo_end_def fresh_chan_def channel_register_fds_def zero_channel_def on_base_def
      demo_read_def)

text \<open>C24: In every run, what the sender may still send, what it has sent and what is granted to it on the way never exceed the window that the
  receiver has open (and are equal to it if the sender sends no extended data), and this window with the data that the receiver
  holds and has consumed stays within the window it announced.  The difference is lost only by closing the output.\<close>

theorem channel_windows_agree:
  assumes "chan_run s (a, b)"
  defines "sent \<equiv> unat (cd_remote_window (sd_chan a)) + costs (sd_out a) + grants (sd_out b)"
  shows "sent \<le> unat (cd_local_window (sd_chan b)) \<and>
    (ch_extended_usage (cd (sd_chan a)) \<noteq> CHAN_EXTENDED_READ \<longrightarrow> sent = unat (cd_local_window (sd_chan b))) \<and>
    held (sd_chan b) \<le> unat (cd_local_window_max (sd_chan b)) \<and>
    (ch_ostate (cd (sd_chan b)) = CHAN_OUTPUT_OPEN \<longrightarrow> held (sd_chan b) = unat (cd_local_window_max (sd_chan b)))"
  using flow_run_inv [OF assms(1)] by (simp add: sys_inv_def window_flow_def end_ok_def chan_ok_def sent_def)

theorem channel_windows_agree_witness:
  "unat (cd_remote_window (sd_chan demo_read)) + costs (sd_out demo_read) + grants (sd_out demo_side) = 64 \<and> held (sd_chan demo_side) = 64"
  using channel_windows_agree [OF demo_run] by (simp add: demo_read_def demo_flow set_input_def after_def)

text \<open>C25: Flow control alone cannot block a stream channel for ever.  Take any state of a run of its two ends in which
  the sender still reads or drains its input, has sent and received no CLOSE, may send packets of at least one byte, reads no extended
  data and holds less than four gigabytes; in which the receiver's output is open, it has sent and received no CLOSE, has a descriptor to
  write to, a window of at least two bytes and no extended data waiting to be written; and in which only data and window adjustments are on the
  way, no EOF, CLOSE or request.  Then, whatever the windows are and however much is buffered or on the way, the run can go on without a further
  byte being read until the receiver has written everything that the sender has read.  (With extended data this fails: see the lemma
  \<open>extended_data_leaks\<close>.)\<close>

theorem channel_flow_completes:
  assumes "chan_run s (a, b)" "flowing (a, b)"
  shows "\<exists>a' b'. chan_run s (a', b') \<and> sd_read a' = sd_read a \<and> sd_written b' = sd_read a"
  using flow_completes [OF flow_run_inv [OF assms(1)] assms(2)] run_steps assms(1) by blast

theorem channel_flow_completes_witness:
  "\<exists>a' b'. chan_run (demo_side, demo_side) (a', b') \<and> sd_read a' = [1, 2, 3] \<and> sd_written b' = [1, 2, 3]"
proof -
  have "flowing (demo_read, demo_side)"
    by (simp add: flowing_def may_send_def may_write_def has_flag_def demo_read_def demo_flow set_input_def after_def msgs_def)
  from channel_flow_completes [OF demo_run this] show ?thesis by (simp add: demo_read_def demo_side_def)
qed

end
