(* ===== verification/Auth2.thy ===== *)
theory Auth2
  imports Opacket
begin

unbundle bit_operations_syntax

text \<open>
  User authentication of the server: \<^verbatim>\<open>src/openssh-7.2p2/auth2.c\<close>, the methods of \<^verbatim>\<open>auth2-none.c\<close>, \<^verbatim>\<open>auth2-passwd.c\<close>, \<^verbatim>\<open>auth2-pubkey.c\<close>,
  \<^verbatim>\<open>auth2-hostbased.c\<close>, \<^verbatim>\<open>auth2-kbdint.c\<close>, and the devices of \<^verbatim>\<open>auth2-chall.c\<close>.  The record \<open>authctxt\<close> holds \<open>struct Authctxt\<close>, the static
  variables of these files, the handlers that are registered, and the packets sent.  A handler returns \<open>None\<close> where the code
  calls \<open>fatal\<close> or \<open>packet_disconnect\<close>.  What the account database, the files of keys, the signatures and the devices answer
  is in the record \<open>auth_io\<close> of a call.  Built without GSSAPI and audit events; logging and the process title are left out.
\<close>

section \<open>State\<close>

datatype root_login = PERMIT_NO | PERMIT_FORCED_ONLY | PERMIT_NO_PASSWD | PERMIT_YES

record passwd =
  pw_name :: string
  pw_uid :: nat

text \<open>A public key: its type, its curve, and its numbers in the encoding of the wire.\<close>

record sshkey =
  sk_type :: key_type
  sk_nid :: nid
  sk_numbers :: "byte list"

record server_options =
  so_auth_methods :: "string list"
  so_max_authtries :: int
  so_permit_root_login :: root_login
  so_permit_empty_passwd :: bool
  so_password_authentication :: bool
  so_pubkey_authentication :: bool
  so_hostbased_authentication :: bool
  so_kbd_interactive_authentication :: bool
  so_challenge_response_authentication :: bool
  so_pubkey_key_types :: string
  so_hostbased_key_types :: string
  so_banner :: bool
  so_use_pam :: bool

text \<open>\<open>ae_devices\<close> are the names of the devices of the build, \<open>ae_key_equal\<close> is \<open>sshkey_equal_public\<close>.  \<open>ae_getpwnamallow\<close> gives the account of a
  user who may log in; it is called once in a connection.\<close>

record auth_env =
  ae_options :: server_options
  ae_state :: compat_state
  ae_build :: build
  ae_session_id :: "byte list"
  ae_devices :: "string list"
  ae_getpwnamallow :: "string \<Rightarrow> passwd option"
  ae_fakepw :: passwd
  ae_key_from_blob :: "byte list \<Rightarrow> sshkey option"
  ae_key_equal :: "sshkey \<Rightarrow> sshkey \<Rightarrow> bool"
  ae_key_verify :: "sshkey \<Rightarrow> byte list \<Rightarrow> byte list \<Rightarrow> bool"

text \<open>\<open>ai_user_key_allowed\<close> also says whether the options of the key force a command; the last argument tells the two uses apart.  A device
  that is asked gives name, instruction and prompts, or fails; its answer to responses is 0 for success, 1 for another question.\<close>

record auth_io =
  ai_banner :: "string option"
  ai_sys_auth_passwd :: "passwd \<Rightarrow> string \<Rightarrow> bool"
  ai_user_key_allowed :: "passwd \<Rightarrow> sshkey \<Rightarrow> bool \<Rightarrow> bool \<times> bool"
  ai_hostbased_key_allowed :: "passwd \<Rightarrow> string \<Rightarrow> string \<Rightarrow> sshkey \<Rightarrow> bool"
  ai_init_ctx :: "string \<Rightarrow> bool"
  ai_query :: "string \<Rightarrow> (string \<times> string \<times> (string \<times> bool) list) option"
  ai_respond :: "string \<Rightarrow> byte list list \<Rightarrow> int"
  ai_pam_account :: bool

datatype auth_msg =
    SSH2_MSG_SERVICE_ACCEPT string
  | SSH2_MSG_USERAUTH_BANNER string
  | SSH2_MSG_USERAUTH_SUCCESS
  | SSH2_MSG_USERAUTH_FAILURE string bool
  | SSH2_MSG_USERAUTH_PK_OK "byte list" "byte list"
  | SSH2_MSG_USERAUTH_INFO_REQUEST string string "(string \<times> bool) list"

text \<open>The keyboard-interactive context: the device is an index into the table, \<open>kb_ctxt\<close> says whether its own context is there.\<close>

record kbdint =
  kb_devices :: "string option"
  kb_ctxt :: bool
  kb_device :: "nat option"
  kb_nreq :: "32 word"
  kb_devices_done :: "32 word"

datatype handler = Error | Handle | Ignore

text \<open>\<open>ac_passed\<close> is not in the code: the methods that succeeded, with their submethods, oldest first.\<close>

record authctxt =
  ac_success :: bool
  ac_postponed :: bool
  ac_valid :: bool
  ac_attempt :: int
  ac_failures :: int
  ac_server_caused_failure :: bool
  ac_user :: "string option"
  ac_service :: "string option"
  ac_pw :: "passwd option"
  ac_style :: "string option"
  ac_role :: "string option"
  ac_kbdintctxt :: "kbdint option"
  ac_auth_methods :: "string list"
  ac_prev_userkeys :: "sshkey list"
  ac_none_enabled :: bool
  ac_forced_command :: bool
  ac_userauth_request :: handler
  ac_info_response :: bool
  ac_sent :: "auth_msg list"
  ac_passed :: "(string \<times> string option) list"

definition send_msg :: "auth_msg \<Rightarrow> authctxt \<Rightarrow> authctxt" where
  "send_msg m a = a\<lparr>ac_sent := ac_sent a @ [m]\<rparr>"

section \<open>Methods and lists of methods\<close>

datatype auth_method = Method_none | Method_pubkey | Method_passwd | Method_kbdint | Method_hostbased

definition authmethods :: "(string \<times> auth_method) list" where
  "authmethods = [(''none'', Method_none), (''publickey'', Method_pubkey), (''password'', Method_passwd),
     (''keyboard-interactive'', Method_kbdint), (''hostbased'', Method_hostbased)]"

fun method_enabled :: "server_options \<Rightarrow> bool \<Rightarrow> auth_method \<Rightarrow> bool" where
  "method_enabled opt none Method_none = none"
| "method_enabled opt none Method_pubkey = so_pubkey_authentication opt"
| "method_enabled opt none Method_passwd = so_password_authentication opt"
| "method_enabled opt none Method_kbdint = so_kbd_interactive_authentication opt"
| "method_enabled opt none Method_hostbased = so_hostbased_authentication opt"

definition auth2_methods_valid :: "server_options \<Rightarrow> bool \<Rightarrow> string \<Rightarrow> bool \<Rightarrow> bool" where
  "auth2_methods_valid opt none methods need_enable \<longleftrightarrow>
     methods \<noteq> [] \<and>
     list_all (\<lambda>tok. case map_of authmethods (takeWhile (\<lambda>c. c \<noteq> CHR '':'') tok) of
         None \<Rightarrow> False
       | Some m \<Rightarrow> need_enable \<longrightarrow> method_enabled opt none m) (tokens is_comma (Some methods))"

text \<open>The lists that are left, or \<open>None\<close> if there are none although some were configured.\<close>

definition auth2_setup_methods_lists :: "server_options \<Rightarrow> authctxt \<Rightarrow> authctxt option" where
  "auth2_setup_methods_lists opt a =
     (if so_auth_methods opt = [] then Some a
      else let lists = filter (\<lambda>l. auth2_methods_valid opt (ac_none_enabled a) l True) (so_auth_methods opt)
           in if lists = [] then None else Some (a\<lparr>ac_auth_methods := lists\<rparr>))"

datatype list_match = MATCH_NONE | MATCH_METHOD | MATCH_BOTH | MATCH_PARTIAL

definition prefixed :: "string \<Rightarrow> string \<Rightarrow> bool" where
  "prefixed s t \<longleftrightarrow> take (length s) t = s"

definition list_starts_with :: "string \<Rightarrow> string \<Rightarrow> string option \<Rightarrow> list_match" where
  "list_starts_with methods method submethod =
     (if \<not> prefixed method methods then MATCH_NONE
      else
        let p = drop (length method) methods; at_end = (\<lambda>p. p = [] \<or> hd p = CHR '','')
        in if p \<noteq> [] \<and> hd p = CHR '':'' then
             (case submethod of
                None \<Rightarrow> MATCH_PARTIAL
              | Some sub \<Rightarrow>
                  if \<not> prefixed sub (tl p) then MATCH_NONE
                  else if at_end (drop (length sub) (tl p)) then MATCH_BOTH else MATCH_NONE)
           else if at_end p then MATCH_METHOD else MATCH_NONE)"

definition remove_method :: "string \<Rightarrow> string \<Rightarrow> string option \<Rightarrow> string option" where
  "remove_method methods method submethod =
     (let m = list_starts_with methods method submethod
      in if m \<noteq> MATCH_METHOD \<and> m \<noteq> MATCH_BOTH then None
         else
           let p = drop (length method) methods;
               p = (case submethod of Some sub \<Rightarrow> if m = MATCH_BOTH then drop (1 + length sub) p else p | None \<Rightarrow> p)
           in Some (if p \<noteq> [] \<and> hd p = CHR '','' then tl p else p))"

text \<open>Whether a list was completed, whether one started with the method, and the lists after it.\<close>

fun update_loop :: "string \<Rightarrow> string option \<Rightarrow> bool \<Rightarrow> string list \<Rightarrow> bool \<times> bool \<times> string list" where
  "update_loop method submethod found [] = (False, found, [])"
| "update_loop method submethod found (l # ls) =
     (case remove_method l method submethod of
        None \<Rightarrow> (case update_loop method submethod found ls of (done, found, ls) \<Rightarrow> (done, found, l # ls))
      | Some l \<Rightarrow>
          if l = [] then (True, True, l # ls)
          else case update_loop method submethod True ls of (done, found, ls) \<Rightarrow> (done, found, l # ls))"

definition auth2_update_methods_lists :: "authctxt \<Rightarrow> string \<Rightarrow> string option \<Rightarrow> (bool \<times> authctxt) option" where
  "auth2_update_methods_lists a method submethod =
     (case update_loop method submethod False (ac_auth_methods a) of (done, found, ls) \<Rightarrow>
        if \<not> done \<and> \<not> found then None else Some (done, a\<lparr>ac_auth_methods := ls\<rparr>))"

definition auth2_method_allowed :: "server_options \<Rightarrow> authctxt \<Rightarrow> string \<Rightarrow> string option \<Rightarrow> bool" where
  "auth2_method_allowed opt a method submethod \<longleftrightarrow>
     so_auth_methods opt = [] \<or> list_ex (\<lambda>l. list_starts_with l method submethod \<noteq> MATCH_NONE) (ac_auth_methods a)"

definition authmethods_get :: "server_options \<Rightarrow> authctxt \<Rightarrow> string" where
  "authmethods_get opt a =
     join_comma (map fst (filter (\<lambda>(name, m). name \<noteq> ''none'' \<and> method_enabled opt (ac_none_enabled a) m \<and> auth2_method_allowed opt a name None) authmethods))"

definition authmethod_lookup :: "server_options \<Rightarrow> authctxt \<Rightarrow> string \<Rightarrow> auth_method option" where
  "authmethod_lookup opt a name =
     map_option snd (find (\<lambda>(n, m). method_enabled opt (ac_none_enabled a) m \<and> name = n \<and> auth2_method_allowed opt a n None) authmethods)"

section \<open>The end of an attempt\<close>

definition auth_root_allowed :: "server_options \<Rightarrow> authctxt \<Rightarrow> string \<Rightarrow> bool" where
  "auth_root_allowed opt a method \<longleftrightarrow>
     (case so_permit_root_login opt of
        PERMIT_YES \<Rightarrow> True
      | PERMIT_NO_PASSWD \<Rightarrow> method \<in> {''publickey'', ''hostbased'', ''gssapi-with-mic'', ''gssapi-keyex''}
      | PERMIT_FORCED_ONLY \<Rightarrow> ac_forced_command a
      | PERMIT_NO \<Rightarrow> False)"

text \<open>The reply: success, or failure with the methods that can go on.\<close>

definition userauth_reply :: "auth_env \<Rightarrow> auth_io \<Rightarrow> authctxt \<Rightarrow> bool \<Rightarrow> bool \<Rightarrow> string \<Rightarrow> authctxt option" where
  "userauth_reply E io a authenticated partial method =
     (let opt = ae_options E
      in if so_use_pam opt \<and> authenticated \<and> \<not> ai_pam_account io then None
         else if authenticated then Some ((send_msg SSH2_MSG_USERAUTH_SUCCESS (a\<lparr>ac_userauth_request := Ignore\<rparr>))\<lparr>ac_success := True\<rparr>)
         else
           let a = (if \<not> partial \<and> \<not> ac_server_caused_failure a \<and> (ac_attempt a > 1 \<or> method \<noteq> ''none'')
                    then a\<lparr>ac_failures := ac_failures a + 1\<rparr> else a)
           in if ac_failures a \<ge> so_max_authtries opt then None
              else Some (send_msg (SSH2_MSG_USERAUTH_FAILURE (authmethods_get opt a) partial) a))"

definition userauth_finish :: "auth_env \<Rightarrow> auth_io \<Rightarrow> authctxt \<Rightarrow> bool \<Rightarrow> string \<Rightarrow> string option \<Rightarrow> authctxt option" where
  "userauth_finish E io a authenticated method submethod =
     (let opt = ae_options E
      in if \<not> ac_valid a \<and> authenticated then None
         else if authenticated \<and> ac_postponed a then None
         else
           let authenticated = (authenticated \<and> \<not> (map_option pw_uid (ac_pw a) = Some 0 \<and> \<not> auth_root_allowed opt a method));
               a = (if authenticated then a\<lparr>ac_passed := ac_passed a @ [(method, submethod)]\<rparr> else a)
           in case (if authenticated \<and> so_auth_methods opt \<noteq> [] then auth2_update_methods_lists a method submethod else Some (authenticated, a)) of
                None \<Rightarrow> None
              | Some (complete, a) \<Rightarrow>
                  if ac_postponed a then Some a
                  else userauth_reply E io a complete (authenticated \<and> \<not> complete) method)"

section \<open>Methods\<close>

definition MAX_PASSWORD_LEN :: nat where "MAX_PASSWORD_LEN = 1024"

text \<open>\<^verbatim>\<open>auth-passwd.c\<close>: the system (or PAM) checks the password; expiry is left out.\<close>

definition auth_password :: "auth_env \<Rightarrow> auth_io \<Rightarrow> authctxt \<Rightarrow> string \<Rightarrow> bool" where
  "auth_password E io a password =
     (case ac_pw a of None \<Rightarrow> False | Some pw \<Rightarrow>
      let opt = ae_options E; ok = (ac_valid a \<and> \<not> (pw_uid pw = 0 \<and> so_permit_root_login opt \<noteq> PERMIT_YES))
      in if length password > MAX_PASSWORD_LEN then False
         else if password = [] \<and> \<not> so_permit_empty_passwd opt then False
         else ai_sys_auth_passwd io pw password \<and> ok)"

definition userauth_none :: "auth_env \<Rightarrow> auth_io \<Rightarrow> authctxt \<Rightarrow> byte list \<Rightarrow> (bool \<times> authctxt) option" where
  "userauth_none E io a p =
     (let opt = ae_options E; a = a\<lparr>ac_none_enabled := False\<rparr>
      in packet_check_eom p (so_permit_empty_passwd opt \<and> so_password_authentication opt \<and> auth_password E io a [], a))"

definition userauth_passwd :: "auth_env \<Rightarrow> auth_io \<Rightarrow> authctxt \<Rightarrow> byte list \<Rightarrow> (bool \<times> authctxt) option" where
  "userauth_passwd E io a p =
     (case packet_get_char p of None \<Rightarrow> None | Some (change, p) \<Rightarrow>
      case packet_get_string p of None \<Rightarrow> None | Some (password, p) \<Rightarrow>
      case (if change \<noteq> 0 then map_option snd (packet_get_string p) else Some p) of None \<Rightarrow> None | Some p \<Rightarrow>
        packet_check_eom p (change = 0 \<and> auth_password E io a (cstr_of password), a))"

definition auth2_userkey_already_used :: "auth_env \<Rightarrow> authctxt \<Rightarrow> sshkey \<Rightarrow> bool" where
  "auth2_userkey_already_used E a key \<longleftrightarrow> list_ex (ae_key_equal E key) (ac_prev_userkeys a)"

definition auth2_record_userkey :: "authctxt \<Rightarrow> sshkey \<Rightarrow> authctxt" where
  "auth2_record_userkey a key = a\<lparr>ac_prev_userkeys := ac_prev_userkeys a @ [key]\<rparr>"

text \<open>Algorithm and blob of a request; old clients send the blob only, which starts with the algorithm.\<close>

definition pk_fields :: "auth_env \<Rightarrow> byte list \<Rightarrow> (byte list \<times> byte list \<times> byte list) option" where
  "pk_fields E p =
     (if datafellows (ae_state E) AND SSH_BUG_PKAUTH \<noteq> 0 then
        (case packet_get_string p of None \<Rightarrow> None | Some (blob, p) \<Rightarrow>
         case buffer_get_string blob of None \<Rightarrow> None | Some (alg, _) \<Rightarrow> Some (alg, blob, p))
      else
        (case packet_get_string p of None \<Rightarrow> None | Some (alg, p) \<Rightarrow>
         case packet_get_string p of None \<Rightarrow> None | Some (blob, p) \<Rightarrow> Some (alg, blob, p)))"

text \<open>The key of a request, if its algorithm is known, it can be decoded, and its type fits and is accepted.\<close>

definition decode_key :: "auth_env \<Rightarrow> string \<Rightarrow> byte list \<Rightarrow> byte list \<Rightarrow> sshkey option" where
  "decode_key E accepted alg blob =
     (let ty = sshkey_type_from_name (ae_build E) (cstr_of alg)
      in if ty = KEY_UNSPEC then None
         else case ae_key_from_blob E blob of None \<Rightarrow> None | Some key \<Rightarrow>
           if sk_type key \<noteq> ty then None
           else if sshkey_type_plain (sk_type key) = KEY_RSA \<and> datafellows (ae_state E) AND SSH_BUG_RSASIGMD5 \<noteq> 0 then None
           else case sshkey_ssh_name_from_type_nid (ae_build E) (sk_type key) (sk_nid key) of None \<Rightarrow> None | Some name \<Rightarrow>
             if match_pattern_list name accepted False \<noteq> 1 then None else Some key)"

definition put_cstring :: "string \<Rightarrow> byte list" where
  "put_cstring s = string_enc (bytes_of s)"

definition SSH2_MSG_USERAUTH_REQUEST :: byte where "SSH2_MSG_USERAUTH_REQUEST = 50"

text \<open>What the signature of a public key covers.\<close>

definition pubkey_signed :: "auth_env \<Rightarrow> authctxt \<Rightarrow> byte \<Rightarrow> byte list \<Rightarrow> byte list \<Rightarrow> byte list" where
  "pubkey_signed E a have_sig alg blob =
     (let st = datafellows (ae_state E); user = (case ac_user a of None \<Rightarrow> [] | Some u \<Rightarrow> u); service = (case ac_service a of None \<Rightarrow> [] | Some s \<Rightarrow> s)
      in (if st AND SSH_OLD_SESSIONID \<noteq> 0 then ae_session_id E else string_enc (ae_session_id E)) @
         [SSH2_MSG_USERAUTH_REQUEST] @
         put_cstring (user @ (case ac_style a of None \<Rightarrow> [] | Some style \<Rightarrow> CHR '':'' # style)) @
         put_cstring (if st AND SSH_BUG_PKSERVICE \<noteq> 0 then ''ssh-userauth'' else service) @
         (if st AND SSH_BUG_PKAUTH \<noteq> 0 then [have_sig] else put_cstring ''publickey'' @ [have_sig] @ put_cstring (cstr_of alg)) @
         string_enc blob)"

definition userauth_pubkey :: "auth_env \<Rightarrow> auth_io \<Rightarrow> authctxt \<Rightarrow> byte list \<Rightarrow> (bool \<times> authctxt) option" where
  "userauth_pubkey E io a p =
     (case ac_pw a of None \<Rightarrow> None | Some pw \<Rightarrow>
      if \<not> ac_valid a then Some (False, a)
      else case packet_get_char p of None \<Rightarrow> None | Some (have_sig, p) \<Rightarrow>
      case pk_fields E p of None \<Rightarrow> None | Some (alg, blob, p) \<Rightarrow>
      case decode_key E (so_pubkey_key_types (ae_options E)) alg blob of None \<Rightarrow> Some (False, a) | Some key \<Rightarrow>
      if auth2_userkey_already_used E a key then Some (False, a)
      else if have_sig \<noteq> 0 then
        (case packet_get_string p of None \<Rightarrow> None | Some (sig, p) \<Rightarrow>
         if p \<noteq> [] then None
         else
           let (allowed, forced) = ai_user_key_allowed io pw key True; a = a\<lparr>ac_forced_command := forced\<rparr>
           in if allowed \<and> ae_key_verify E key sig (pubkey_signed E a have_sig alg blob) then Some (True, auth2_record_userkey a key)
              else Some (False, a\<lparr>ac_forced_command := False\<rparr>))
      else if p \<noteq> [] then None
      else
        let a = (if fst (ai_user_key_allowed io pw key False) then (send_msg (SSH2_MSG_USERAUTH_PK_OK alg blob) a)\<lparr>ac_postponed := True\<rparr> else a)
        in Some (False, a\<lparr>ac_forced_command := False\<rparr>))"

definition hostbased_signed :: "auth_env \<Rightarrow> authctxt \<Rightarrow> byte list \<Rightarrow> byte list \<Rightarrow> byte list \<Rightarrow> byte list \<Rightarrow> byte list" where
  "hostbased_signed E a alg blob chost cuser =
     (let user = (case ac_user a of None \<Rightarrow> [] | Some u \<Rightarrow> u); service = (case ac_service a of None \<Rightarrow> [] | Some s \<Rightarrow> s)
      in string_enc (ae_session_id E) @ [SSH2_MSG_USERAUTH_REQUEST] @ put_cstring user @
         put_cstring (if datafellows (ae_state E) AND SSH_BUG_HBSERVICE \<noteq> 0 then ''ssh-userauth'' else service) @
         put_cstring ''hostbased'' @ string_enc alg @ string_enc blob @ put_cstring (cstr_of chost) @ put_cstring (cstr_of cuser))"

definition userauth_hostbased :: "auth_env \<Rightarrow> auth_io \<Rightarrow> authctxt \<Rightarrow> byte list \<Rightarrow> (bool \<times> authctxt) option" where
  "userauth_hostbased E io a p =
     (case ac_pw a of None \<Rightarrow> None | Some pw \<Rightarrow>
      if \<not> ac_valid a then Some (False, a)
      else case packet_get_string p of None \<Rightarrow> None | Some (alg, p) \<Rightarrow>
      case packet_get_string p of None \<Rightarrow> None | Some (blob, p) \<Rightarrow>
      case packet_get_string p of None \<Rightarrow> None | Some (chost, p) \<Rightarrow>
      case packet_get_string p of None \<Rightarrow> None | Some (cuser, p) \<Rightarrow>
      case packet_get_string p of None \<Rightarrow> None | Some (sig, p) \<Rightarrow>
      case decode_key E (so_hostbased_key_types (ae_options E)) alg blob of None \<Rightarrow> Some (False, a) | Some key \<Rightarrow>
        Some (ai_hostbased_key_allowed io pw (cstr_of cuser) (cstr_of chost) key \<and>
              ae_key_verify E key sig (hostbased_signed E a alg blob chost cuser), a))"

section \<open>Keyboard-interactive devices\<close>

definition kbdint_alloc :: "auth_env \<Rightarrow> string \<Rightarrow> kbdint" where
  "kbdint_alloc E devs =
     \<lparr>kb_devices = Some (if devs = [] then join_comma (ae_devices E) else devs), kb_ctxt = False, kb_device = None, kb_nreq = 0, kb_devices_done = 0\<rparr>"

definition kbdint_reset_device :: "kbdint \<Rightarrow> kbdint" where
  "kbdint_reset_device k = k\<lparr>kb_ctxt := False, kb_device := None\<rparr>"

text \<open>The pass over the table for one name that the client gave (or the start of a name): the last device that was not used yet wins.\<close>

fun pick_device :: "auth_env \<Rightarrow> authctxt \<Rightarrow> string \<Rightarrow> nat \<Rightarrow> string list \<Rightarrow> kbdint \<Rightarrow> kbdint" where
  "pick_device E a name i [] k = k"
| "pick_device E a name i (dev # devs) k =
     pick_device E a name (Suc i) devs
       (if bit (kb_devices_done k) i \<or> \<not> auth2_method_allowed (ae_options E) a ''keyboard-interactive'' (Some dev) then k
        else if prefixed name dev then k\<lparr>kb_device := Some i, kb_devices_done := kb_devices_done k OR push_bit i 1\<rparr> else k)"

function next_device_loop :: "auth_env \<Rightarrow> authctxt \<Rightarrow> kbdint \<Rightarrow> kbdint" where
  "next_device_loop E a k =
     (case kb_devices k of None \<Rightarrow> k | Some devs \<Rightarrow>
      let name = takeWhile (\<lambda>c. c \<noteq> CHR '','') devs; rest = drop (length name) devs
      in if name = [] then k
         else
           let k = (pick_device E a name 0 (ae_devices E) k)\<lparr>kb_devices := (if rest = [] then None else Some (tl rest))\<rparr>
           in if kb_devices k \<noteq> None \<and> kb_device k = None then next_device_loop E a k else k)"
  by pat_completeness auto
termination
proof (relation "measure (\<lambda>(E, a, k). case kb_devices k of None \<Rightarrow> 0 | Some devs \<Rightarrow> Suc (length devs))", goal_cases)
  case (2 E a k devs name rest k')
  then have "length (tl rest) < length devs" by (cases rest) (auto dest: arg_cong [of _ _ length])
  with 2 show ?case by (auto split: if_splits)
qed simp

definition kbdint_next_device :: "auth_env \<Rightarrow> authctxt \<Rightarrow> kbdint \<Rightarrow> bool \<times> kbdint" where
  "kbdint_next_device E a k =
     (let k = next_device_loop E a (if kb_device k \<noteq> None then kbdint_reset_device k else k) in (kb_device k \<noteq> None, k))"

definition auth2_challenge_stop :: "authctxt \<Rightarrow> authctxt" where
  "auth2_challenge_stop a = a\<lparr>ac_info_response := False, ac_kbdintctxt := None\<rparr>"

definition send_userauth_info_request :: "auth_io \<Rightarrow> string \<Rightarrow> kbdint \<Rightarrow> authctxt \<Rightarrow> bool \<times> authctxt" where
  "send_userauth_info_request io dev k a =
     (case ai_query io dev of
        None \<Rightarrow> (False, a)
      | Some (name, instr, prompts) \<Rightarrow>
          (True, send_msg (SSH2_MSG_USERAUTH_INFO_REQUEST name instr prompts) (a\<lparr>ac_kbdintctxt := Some (k\<lparr>kb_nreq := of_nat (length prompts)\<rparr>)\<rparr>)))"

definition auth2_challenge_start :: "auth_env \<Rightarrow> auth_io \<Rightarrow> kbdint \<Rightarrow> authctxt \<Rightarrow> authctxt" where
  "auth2_challenge_start E io k a =
     (case kbdint_next_device E a k of (found, k) \<Rightarrow>
      let a = a\<lparr>ac_kbdintctxt := Some k\<rparr>
      in case kb_device k of
           None \<Rightarrow> auth2_challenge_stop a
         | Some i \<Rightarrow>
             let dev = ae_devices E ! i
             in if \<not> ai_init_ctx io dev then auth2_challenge_stop a
                else case send_userauth_info_request io dev (k\<lparr>kb_ctxt := True\<rparr>) a of (ok, a) \<Rightarrow>
                  if \<not> ok then auth2_challenge_stop a else a\<lparr>ac_info_response := True, ac_postponed := True\<rparr>)"

definition auth2_challenge :: "auth_env \<Rightarrow> auth_io \<Rightarrow> authctxt \<Rightarrow> string \<Rightarrow> authctxt" where
  "auth2_challenge E io a devs =
     (if ac_user a = None then a
      else auth2_challenge_start E io (case ac_kbdintctxt a of None \<Rightarrow> kbdint_alloc E devs | Some k \<Rightarrow> k) a)"

definition userauth_kbdint :: "auth_env \<Rightarrow> auth_io \<Rightarrow> authctxt \<Rightarrow> byte list \<Rightarrow> (bool \<times> authctxt) option" where
  "userauth_kbdint E io a p =
     (case packet_get_string p of None \<Rightarrow> None | Some (lang, p) \<Rightarrow>
      case packet_get_string p of None \<Rightarrow> None | Some (devs, p) \<Rightarrow>
        packet_check_eom p
          (False, if so_challenge_response_authentication (ae_options E) then auth2_challenge E io a (cstr_of devs) else a))"

fun get_responses :: "nat \<Rightarrow> byte list \<Rightarrow> (byte list list \<times> byte list) option" where
  "get_responses 0 p = Some ([], p)"
| "get_responses (Suc n) p =
     (case packet_get_string p of None \<Rightarrow> None | Some (r, p) \<Rightarrow> map_option (\<lambda>(rs, p). (r # rs, p)) (get_responses n p))"

text \<open>What follows the answer of the device: success, another question, or the next device.\<close>

definition after_response :: "auth_env \<Rightarrow> auth_io \<Rightarrow> string \<Rightarrow> kbdint \<Rightarrow> int \<Rightarrow> authctxt \<Rightarrow> bool \<times> authctxt" where
  "after_response E io dev k res a =
     (let authenticated = (res = 0 \<and> ac_valid a);
          (again, a) = (if res = 1 then send_userauth_info_request io dev k a else (False, a));
          a = (if again then a\<lparr>ac_postponed := True\<rparr> else a)
      in (authenticated,
          if ac_postponed a then a
          else if authenticated then auth2_challenge_stop a
          else auth2_challenge_start E io (case ac_kbdintctxt a of None \<Rightarrow> k | Some k \<Rightarrow> k) a))"

definition input_userauth_info_response :: "auth_env \<Rightarrow> auth_io \<Rightarrow> authctxt \<Rightarrow> byte list \<Rightarrow> authctxt option" where
  "input_userauth_info_response E io a p =
     (case ac_kbdintctxt a of None \<Rightarrow> None | Some k \<Rightarrow>
      if \<not> kb_ctxt k then None
      else case kb_device k of None \<Rightarrow> None | Some i \<Rightarrow>
      let dev = ae_devices E ! i; a = a\<lparr>ac_postponed := False\<rparr>
      in case packet_get_int p of None \<Rightarrow> None | Some (nresp, p) \<Rightarrow>
         if nresp \<noteq> kb_nreq k \<or> nresp > 100 then None
         else case get_responses (unat nresp) p of None \<Rightarrow> None | Some (responses, p) \<Rightarrow>
         if p \<noteq> [] then None
         else case after_response E io dev k (ai_respond io dev responses) a of (authenticated, a) \<Rightarrow>
           userauth_finish E io a authenticated ''keyboard-interactive'' (Some dev))"

section \<open>Requests\<close>

fun call_method :: "auth_method \<Rightarrow> auth_env \<Rightarrow> auth_io \<Rightarrow> authctxt \<Rightarrow> byte list \<Rightarrow> (bool \<times> authctxt) option" where
  "call_method Method_none = userauth_none"
| "call_method Method_pubkey = userauth_pubkey"
| "call_method Method_passwd = userauth_passwd"
| "call_method Method_kbdint = userauth_kbdint"
| "call_method Method_hostbased = userauth_hostbased"

text \<open>A user name may carry a role and a style, \<open>user/role:style\<close> or \<open>user:style\<close>.\<close>

definition cut_at :: "char \<Rightarrow> string \<Rightarrow> string \<times> string option" where
  "cut_at c s = (takeWhile (\<lambda>x. x \<noteq> c) s, if c \<in> set s then Some (tl (dropWhile (\<lambda>x. x \<noteq> c) s)) else None)"

definition split_user :: "string \<Rightarrow> string \<times> string option \<times> string option" where
  "split_user s =
     (let (user, role) = cut_at (CHR ''/'') s; (user, style) = cut_at (CHR '':'') user
      in case style of
           Some st \<Rightarrow> (user, style, role)
         | None \<Rightarrow> (case role of None \<Rightarrow> (user, None, None)
                    | Some r \<Rightarrow> (case cut_at (CHR '':'') r of (r, style) \<Rightarrow> (user, style, Some r))))"

definition userauth_banner :: "auth_env \<Rightarrow> auth_io \<Rightarrow> authctxt \<Rightarrow> authctxt" where
  "userauth_banner E io a =
     (if \<not> so_banner (ae_options E) \<or> datafellows (ae_state E) AND SSH_BUG_BANNER \<noteq> 0 then a
      else case ai_banner io of None \<Rightarrow> a | Some b \<Rightarrow> send_msg (SSH2_MSG_USERAUTH_BANNER b) a)"

text \<open>The first request fixes the user and the service; a later one must name the same.\<close>

definition setup_authctxt ::
  "auth_env \<Rightarrow> auth_io \<Rightarrow> string \<Rightarrow> string option \<Rightarrow> string option \<Rightarrow> string \<Rightarrow> authctxt \<Rightarrow> authctxt option" where
  "setup_authctxt E io user style role service a =
     (let pw = ae_getpwnamallow E user; valid = (pw \<noteq> None \<and> service = ''ssh-connection'');
          a = a\<lparr>ac_user := Some user, ac_pw := (if valid then pw else Some (ae_fakepw E)), ac_valid := (if valid then True else ac_valid a),
            ac_service := Some service, ac_style := style, ac_role := role\<rparr>
      in auth2_setup_methods_lists (ae_options E) (userauth_banner E io a))"

definition begin_attempt :: "auth_env \<Rightarrow> auth_io \<Rightarrow> string \<Rightarrow> string option \<Rightarrow> string option \<Rightarrow> string \<Rightarrow> authctxt \<Rightarrow> authctxt option" where
  "begin_attempt E io user style role service a =
     (let first = (ac_attempt a = 0); a = a\<lparr>ac_attempt := ac_attempt a + 1\<rparr>
      in if first then setup_authctxt E io user style role service a
         else if ac_user a \<noteq> Some user \<or> ac_service a \<noteq> Some service then None
         else Some a)"

definition input_userauth_request :: "auth_env \<Rightarrow> auth_io \<Rightarrow> authctxt \<Rightarrow> byte list \<Rightarrow> authctxt option" where
  "input_userauth_request E io a p =
     (case packet_get_cstring p of None \<Rightarrow> None | Some (name, p) \<Rightarrow>
      case packet_get_cstring p of None \<Rightarrow> None | Some (service, p) \<Rightarrow>
      case packet_get_cstring p of None \<Rightarrow> None | Some (method, p) \<Rightarrow>
      case split_user name of (user, style, role) \<Rightarrow>
      case begin_attempt E io user style role service a of None \<Rightarrow> None | Some a \<Rightarrow>
      let a = (auth2_challenge_stop a)\<lparr>ac_postponed := False, ac_server_caused_failure := False\<rparr>
      in case (case authmethod_lookup (ae_options E) a method of
                 Some m \<Rightarrow> if ac_failures a < so_max_authtries (ae_options E) then call_method m E io a p else Some (False, a)
               | None \<Rightarrow> Some (False, a)) of
           None \<Rightarrow> None
         | Some (authenticated, a) \<Rightarrow> userauth_finish E io a authenticated method None)"

definition input_service_request :: "authctxt \<Rightarrow> byte list \<Rightarrow> authctxt option" where
  "input_service_request a p =
     (case packet_get_cstring p of None \<Rightarrow> None | Some (service, p) \<Rightarrow>
      if p \<noteq> [] then None
      else if service = ''ssh-userauth'' \<and> \<not> ac_success a
      then Some (send_msg (SSH2_MSG_SERVICE_ACCEPT service) (a\<lparr>ac_userauth_request := Handle\<rparr>))
      else None)"

text \<open>The server before the first request.\<close>

definition new_authctxt :: authctxt where
  "new_authctxt = \<lparr>ac_success = False, ac_postponed = False, ac_valid = False, ac_attempt = 0, ac_failures = 0, ac_server_caused_failure = False,
     ac_user = None, ac_service = None, ac_pw = None, ac_style = None, ac_role = None, ac_kbdintctxt = None, ac_auth_methods = [], ac_prev_userkeys = [],
     ac_none_enabled = True, ac_forced_command = False, ac_userauth_request = Error, ac_info_response = False, ac_sent = [], ac_passed = []\<rparr>"

text \<open>The loop of \<open>do_authentication2\<close>: packets are dispatched to the registered handlers until authentication succeeds; other packets leave the
  state alone or end the connection.\<close>

inductive auth_run :: "auth_env \<Rightarrow> authctxt \<Rightarrow> bool" for E where
  start: "auth_run E new_authctxt"
| service: "auth_run E a \<Longrightarrow> \<not> ac_success a \<Longrightarrow> input_service_request a p = Some a' \<Longrightarrow> auth_run E a'"
| request: "auth_run E a \<Longrightarrow> \<not> ac_success a \<Longrightarrow> ac_userauth_request a = Handle \<Longrightarrow> input_userauth_request E io a p = Some a' \<Longrightarrow> auth_run E a'"
| info: "auth_run E a \<Longrightarrow> \<not> ac_success a \<Longrightarrow> ac_info_response a \<Longrightarrow> input_userauth_info_response E io a p = Some a' \<Longrightarrow> auth_run E a'"

end
