(* ===== verification/Auth_Spec.thy ===== *)
theory Auth_Spec
  imports Auth2 "HOL-Library.Sublist"
begin

unbundle bit_operations_syntax

text \<open>
  What authentication guarantees: who is let in has passed all methods of a configured list in order, as the user of the first
  request; a public key counts only with a signature over the session and the request; failures are limited.
\<close>

section \<open>Lists of methods\<close>

text \<open>The items of a list, and what the success of a method (with a submethod) does for an item.\<close>

definition items :: "string \<Rightarrow> string list" where
  "items l = (if l = [] then [] else tokens is_comma (Some l))"

definition passes :: "string \<times> string option \<Rightarrow> string \<Rightarrow> bool" where
  "passes h it \<longleftrightarrow> (case h of (m, s) \<Rightarrow> it = m \<or> (\<exists>sub. s = Some sub \<and> it = m @ CHR '':'' # sub))"

definition plain_names :: "string \<times> string option \<Rightarrow> bool" where
  "plain_names h \<longleftrightarrow> (case h of (m, s) \<Rightarrow> m \<noteq> [] \<and> CHR '','' \<notin> set m \<and> (\<forall>sub. s = Some sub \<longrightarrow> CHR '','' \<notin> set sub))"

lemma prefixed_iff: "prefixed s t \<longleftrightarrow> t = s @ drop (length s) t"
  by (metis append_take_drop_id append_eq_conv_conj prefixed_def)

lemma remove_method_item:
  assumes "remove_method l m s = Some l'" "plain_names (m, s)"
  shows "\<exists>it. passes (m, s) it \<and> CHR '','' \<notin> set it \<and> (l = it \<and> l' = [] \<or> l = it @ CHR '','' # l')"
proof -
  define p where "p = drop (length m) l"
  have l: "l = m @ p" using assms(1) by (auto simp: remove_method_def list_starts_with_def p_def prefixed_iff Let_def split: if_splits)
  then have pm: "prefixed m l" by (simp add: prefixed_def)
  show ?thesis
  proof (cases "list_starts_with l m s")
    case MATCH_METHOD
    then have p: "p = [] \<or> hd p = CHR '',''" "\<not> (p \<noteq> [] \<and> hd p = CHR '':'')"
      unfolding list_starts_with_def p_def [symmetric] using pm by (auto simp: Let_def split: if_splits option.splits)
    have "l' = (if p \<noteq> [] \<and> hd p = CHR '','' then tl p else p)"
      using assms(1) MATCH_METHOD by (auto simp: remove_method_def p_def Let_def split: option.splits)
    with p(1) l have "l = m \<and> l' = [] \<or> l = m @ CHR '','' # l'" by (cases p) auto
    with assms(2) show ?thesis by (intro exI [of _ m]) (auto simp: passes_def plain_names_def)
  next
    case MATCH_BOTH
    then obtain sub where sub: "s = Some sub" "p \<noteq> []" "hd p = CHR '':''" "prefixed sub (tl p)"
      "drop (length sub) (tl p) = [] \<or> hd (drop (length sub) (tl p)) = CHR '',''"
      unfolding list_starts_with_def p_def [symmetric] using pm by (auto simp: Let_def split: if_splits option.splits)
    define q where "q = drop (length sub) (tl p)"
    have "tl p = sub @ q" using sub(4) by (simp add: prefixed_iff q_def)
    with sub(2,3) have p: "p = CHR '':'' # sub @ q" by (cases p) auto
    have dq: "drop (Suc (length sub)) p = q" using p by simp
    have "remove_method l m s = Some (if q \<noteq> [] \<and> hd q = CHR '','' then tl q else q)"
      using MATCH_BOTH sub(1) unfolding remove_method_def p_def [symmetric] Let_def by (simp add: dq del: drop_eq_Nil)
    then have "l' = (if q \<noteq> [] \<and> hd q = CHR '','' then tl q else q)" using assms(1) by simp
    with sub(5) l p have "l = m @ CHR '':'' # sub \<and> l' = [] \<or> l = (m @ CHR '':'' # sub) @ CHR '','' # l'"
      unfolding q_def [symmetric] by (cases q) auto
    with assms(2) sub(1) show ?thesis by (intro exI [of _ "m @ CHR '':'' # sub"]) (auto simp: passes_def plain_names_def)
  qed (use assms(1) in \<open>simp_all add: remove_method_def\<close>)
qed

lemma items_remove:
  assumes "remove_method l m s = Some l'" "plain_names (m, s)" "[] \<notin> set (items l)"
  shows "\<exists>it. passes (m, s) it \<and> items l = it # items l'"
proof -
  from remove_method_item [OF assms(1,2)] obtain it where it: "passes (m, s) it" "CHR '','' \<notin> set it"
    "l = it \<and> l' = [] \<or> l = it @ CHR '','' # l'" by blast
  have nn: "\<forall>c \<in> set it. \<not> is_comma c" using it(2) by auto
  from it(3) show ?thesis
  proof
    assume l: "l = it \<and> l' = []"
    show ?thesis
    proof (cases "l = []")
      case True
      with assms(1) it(1) l show ?thesis using assms by (auto simp: items_def passes_def plain_names_def)
    next
      case False
      with l it(1) tokens_no_delim [OF nn] show ?thesis by (intro exI [of _ it]) (simp add: items_def)
    qed
  next
    assume l: "l = it @ CHR '','' # l'"
    have t: "tokens is_comma (Some l) = it # tokens is_comma (Some l')" using tokens_append [OF nn, of "CHR '',''" l'] l by simp
    have "l' \<noteq> []" using assms(3) t l tokens_no_delim [of "[]" is_comma] by (auto simp: items_def)
    with t it(1) l show ?thesis by (intro exI [of _ it]) (simp add: items_def)
  qed
qed

text \<open>How far a configured list is: the items that are gone were passed, in order, by successes.\<close>

definition progress :: "(string \<times> string option) list \<Rightarrow> string \<Rightarrow> string \<Rightarrow> bool" where
  "progress passed conf rem \<longleftrightarrow>
     (\<exists>hs gone. subseq hs passed \<and> list_all2 passes hs gone \<and> items conf = gone @ items rem) \<and> [] \<notin> set (items conf)"

definition completed :: "(string \<times> string option) list \<Rightarrow> string \<Rightarrow> bool" where
  "completed passed conf \<longleftrightarrow> (\<exists>hs. subseq hs passed \<and> list_all2 passes hs (items conf) \<and> hs \<noteq> [] \<and> last hs = last passed)"

lemma progress_more: "progress passed conf rem \<Longrightarrow> progress (passed @ [h]) conf rem"
  unfolding progress_def by (meson subseq_rev_drop_many)

lemma progress_remove:
  assumes "progress passed conf rem" "remove_method rem m s = Some rem'" "plain_names (m, s)"
  shows "progress (passed @ [(m, s)]) conf rem'" "rem' = [] \<Longrightarrow> completed (passed @ [(m, s)]) conf"
proof -
  from assms(1) obtain hs gone where h: "subseq hs passed" "list_all2 passes hs gone" "items conf = gone @ items rem" "[] \<notin> set (items conf)"
    by (auto simp: progress_def)
  then have "[] \<notin> set (items rem)" by simp
  from items_remove [OF assms(2,3) this] obtain it where it: "passes (m, s) it" "items rem = it # items rem'" by blast
  have s: "subseq (hs @ [(m, s)]) (passed @ [(m, s)])" using h(1) by simp
  have a: "list_all2 passes (hs @ [(m, s)]) (gone @ [it])" using h(2) it(1) by (simp add: list_all2_appendI)
  have i: "items conf = (gone @ [it]) @ items rem'" using h(3) it(2) by simp
  show "progress (passed @ [(m, s)]) conf rem'" unfolding progress_def using s a i h(4) by blast
  show "completed (passed @ [(m, s)]) conf" if "rem' = []"
    unfolding completed_def using s a i that by (intro exI [of _ "hs @ [(m, s)]"]) (simp add: items_def)
qed

lemma update_loop_progress:
  assumes "list_all2 (progress passed) confs ls" "update_loop m s f ls = (d, f', ls')" "plain_names (m, s)"
  shows "list_all2 (progress (passed @ [(m, s)])) confs ls' \<and> (d \<longrightarrow> (\<exists>conf \<in> set confs. completed (passed @ [(m, s)]) conf))"
  using assms(1,2)
proof (induction ls arbitrary: confs f d f' ls' rule: list.induct)
  case Nil
  then show ?case by simp
next
  case (Cons l ls)
  from Cons.prems(1) obtain conf confs' where c: "confs = conf # confs'" "progress passed conf l" "list_all2 (progress passed) confs' ls"
    by (auto simp: list_all2_Cons2)
  have rest: "list_all2 (progress (passed @ [(m, s)])) confs' ls" using c(3) by (rule list_all2_mono) (rule progress_more)
  show ?case
  proof (cases "remove_method l m s")
    case None
    obtain d1 f1 ls1 where u: "update_loop m s f ls = (d1, f1, ls1)" by (metis prod_cases3)
    with None Cons.prems(2) Cons.IH [OF c(3) u] progress_more [OF c(2)] show ?thesis by (auto simp: c(1))
  next
    case (Some l1)
    note p = progress_remove [OF c(2) Some assms(3)]
    obtain d1 f1 ls1 where u: "update_loop m s True ls = (d1, f1, ls1)" by (metis prod_cases3)
    with Some Cons.prems(2) Cons.IH [OF c(3) u] p rest show ?thesis by (auto simp: c(1) split: if_splits)
  qed
qed

section \<open>What the methods leave alone\<close>

fun is_failure :: "auth_msg \<Rightarrow> bool" where
  "is_failure (SSH2_MSG_USERAUTH_FAILURE l partial) = (\<not> partial)"
| "is_failure _ = False"

definition same_auth :: "authctxt \<Rightarrow> authctxt \<Rightarrow> bool" where
  "same_auth a a' \<longleftrightarrow>
     ac_success a' = ac_success a \<and> ac_valid a' = ac_valid a \<and> ac_attempt a' = ac_attempt a \<and> ac_failures a' = ac_failures a \<and>
     ac_server_caused_failure a' = ac_server_caused_failure a \<and> ac_user a' = ac_user a \<and> ac_service a' = ac_service a \<and> ac_pw a' = ac_pw a \<and>
     ac_auth_methods a' = ac_auth_methods a \<and> ac_passed a' = ac_passed a \<and>
     (\<exists>ms. ac_sent a' = ac_sent a @ ms \<and> list_all (\<lambda>m. \<not> is_failure m) ms)"

lemma same_auth_refl: "same_auth a a"
  by (simp add: same_auth_def)

lemma same_auth_trans: "same_auth a b \<Longrightarrow> same_auth b c \<Longrightarrow> same_auth a c"
  unfolding same_auth_def by auto

lemma same_auth_set:
  "same_auth a (a\<lparr>ac_postponed := b\<rparr>)" "same_auth a (a\<lparr>ac_none_enabled := b\<rparr>)" "same_auth a (a\<lparr>ac_forced_command := b\<rparr>)" "same_auth a (a\<lparr>ac_kbdintctxt := k\<rparr>)"
  "same_auth a (a\<lparr>ac_info_response := b\<rparr>)" "same_auth a (a\<lparr>ac_prev_userkeys := ks\<rparr>)" "\<not> is_failure m \<Longrightarrow> same_auth a (send_msg m a)"
  by (simp_all add: same_auth_def send_msg_def)

lemma same_challenge_stop: "same_auth a (auth2_challenge_stop a)"
  by (simp add: auth2_challenge_stop_def same_auth_def)

lemma same_info_request: "send_userauth_info_request io dev k a = (ok, a') \<Longrightarrow> same_auth a a'"
  by (auto simp: send_userauth_info_request_def send_msg_def same_auth_def split: option.splits)

lemma same_challenge_start: "same_auth a (auth2_challenge_start E io k a)"
proof -
  obtain f k1 where k: "kbdint_next_device E a k = (f, k1)" by fastforce
  define a1 where "a1 = a\<lparr>ac_kbdintctxt := Some k1\<rparr>"
  have 1: "same_auth a a1" by (simp add: a1_def same_auth_set)
  show ?thesis
  proof (cases "kb_device k1")
    case None
    with k same_auth_trans [OF 1 same_challenge_stop] show ?thesis by (simp add: auth2_challenge_start_def a1_def)
  next
    case (Some i)
    obtain ok a2 where r: "send_userauth_info_request io (ae_devices E ! i) (k1\<lparr>kb_ctxt := True\<rparr>) a1 = (ok, a2)" by fastforce
    have 2: "same_auth a a2" using same_auth_trans [OF 1 same_info_request [OF r]] .
    have 3: "same_auth a (a2\<lparr>ac_info_response := True, ac_postponed := True\<rparr>)" using 2 by (simp add: same_auth_def)
    show ?thesis using k Some r 3 same_auth_trans [OF 1 same_challenge_stop] same_auth_trans [OF 2 same_challenge_stop]
      by (simp add: auth2_challenge_start_def a1_def Let_def)
  qed
qed

lemma password_valid: "auth_password E io a p \<Longrightarrow> ac_valid a"
  by (auto simp: auth_password_def Let_def split: option.splits if_splits)

text \<open>A method that succeeds does so for a valid user and has not postponed its decision.\<close>

definition method_ok :: "authctxt \<Rightarrow> bool \<Rightarrow> authctxt \<Rightarrow> bool" where
  "method_ok a r a' \<longleftrightarrow> same_auth a a' \<and> (r \<longrightarrow> ac_valid a \<and> ac_postponed a' = ac_postponed a)"

lemma refused_ok: "method_ok a False a"
  by (simp add: method_ok_def same_auth_refl)

lemma none_ok: "userauth_none E io a p = Some (r, a') \<Longrightarrow> method_ok a r a'"
  by (auto simp: userauth_none_def method_ok_def packet_check_eom_def same_auth_set Let_def dest: password_valid split: if_splits)

lemma passwd_ok: "userauth_passwd E io a p = Some (r, a') \<Longrightarrow> method_ok a r a'"
  by (auto simp: userauth_passwd_def method_ok_def packet_check_eom_def same_auth_refl split: if_splits option.splits) (metis password_valid)

lemma hostbased_ok: "userauth_hostbased E io a p = Some (r, a') \<Longrightarrow> method_ok a r a'"
  by (auto simp: userauth_hostbased_def method_ok_def same_auth_refl split: if_splits option.splits)

lemma kbdint_ok: "userauth_kbdint E io a p = Some (r, a') \<Longrightarrow> method_ok a r a'"
  by (auto simp: userauth_kbdint_def method_ok_def packet_check_eom_def auth2_challenge_def same_auth_refl same_challenge_start split: if_splits option.splits)

lemma pubkey_ok:
  assumes "userauth_pubkey E io a p = Some (r, a')" shows "method_ok a r a'"
proof -
  have 1: "same_auth a (auth2_record_userkey (a\<lparr>ac_forced_command := f\<rparr>) key)" "same_auth a (a\<lparr>ac_forced_command := f, ac_forced_command := g\<rparr>)"
    "same_auth a ((send_msg (SSH2_MSG_USERAUTH_PK_OK alg blob) a)\<lparr>ac_postponed := True, ac_forced_command := g\<rparr>)" for f g key alg blob
    by (simp_all add: same_auth_def auth2_record_userkey_def send_msg_def)
  then show ?thesis using assms same_auth_refl [of a] same_auth_set(3) [of a]
    by (auto simp: userauth_pubkey_def method_ok_def auth2_record_userkey_def Let_def split: if_splits option.splits prod.splits)
qed

lemma after_response_ok:
  assumes "after_response E io dev k res a = (r, a')" "\<not> ac_postponed a"
  shows "same_auth a a'" "r \<Longrightarrow> ac_valid a \<and> \<not> ac_postponed a'"
proof -
  obtain again a1 where a1: "(if res = 1 then send_userauth_info_request io dev k a else (False, a)) = (again, a1)" by fastforce
  define a2 where "a2 = (if again then a1\<lparr>ac_postponed := True\<rparr> else a1)"
  have "same_auth a a1" using a1 same_info_request [of io dev k a] same_auth_refl by (auto split: if_splits)
  then have 2: "same_auth a a2" by (simp add: a2_def same_auth_def)
  have e: "a' = (if ac_postponed a2 then a2 else if res = 0 \<and> ac_valid a2 then auth2_challenge_stop a2
      else auth2_challenge_start E io (case ac_kbdintctxt a2 of None \<Rightarrow> k | Some k \<Rightarrow> k) a2)" "r = (res = 0 \<and> ac_valid a)"
    using assms(1) a1 2 unfolding after_response_def Let_def a2_def by (auto simp: same_auth_def split: prod.splits)
  show "same_auth a a'"
    unfolding e(1) using 2 same_auth_trans [OF 2 same_challenge_stop] same_auth_trans [OF 2 same_challenge_start] by simp
  show "ac_valid a \<and> \<not> ac_postponed a'" if r
  proof -
    have "res = 0" "ac_valid a" using that e(2) by simp_all
    then have "a2 = a" using a1 by (simp add: a2_def)
    with \<open>res = 0\<close> \<open>ac_valid a\<close> e(1) assms(2) show ?thesis by (simp add: auth2_challenge_stop_def)
  qed
qed

section \<open>Invariants of a run\<close>

text \<open>The lists that count: those of the configuration whose methods are all enabled.\<close>

definition method_lists :: "auth_env \<Rightarrow> string list" where
  "method_lists E = filter (\<lambda>l. auth2_methods_valid (ae_options E) True l True) (so_auth_methods (ae_options E))"

text \<open>Methods that root may pass; that a command must be forced, where only such logins are permitted, is \<open>forced_inv\<close> below.\<close>

definition root_method :: "server_options \<Rightarrow> string \<Rightarrow> bool" where
  "root_method opt m \<longleftrightarrow>
     (case so_permit_root_login opt of
        PERMIT_NO \<Rightarrow> False
      | PERMIT_NO_PASSWD \<Rightarrow> m \<in> {''publickey'', ''hostbased'', ''gssapi-with-mic'', ''gssapi-keyex''}
      | _ \<Rightarrow> True)"

definition auth_inv :: "auth_env \<Rightarrow> authctxt \<Rightarrow> bool" where
  "auth_inv E a \<longleftrightarrow>
     (ac_attempt a = 0 \<longrightarrow> ac_passed a = [] \<and> \<not> ac_valid a \<and> ac_none_enabled a) \<and>
     (ac_valid a \<longrightarrow> ac_service a = Some ''ssh-connection'' \<and>
        (\<exists>user pw. ac_user a = Some user \<and> ae_getpwnamallow E user = Some pw \<and> ac_pw a = Some pw)) \<and>
     (ac_passed a \<noteq> [] \<longrightarrow> ac_valid a) \<and>
     (map_option pw_uid (ac_pw a) = Some 0 \<longrightarrow> (\<forall>h \<in> set (ac_passed a). root_method (ae_options E) (fst h))) \<and>
     (so_auth_methods (ae_options E) \<noteq> [] \<and> ac_attempt a \<noteq> 0 \<longrightarrow> list_all2 (progress (ac_passed a)) (method_lists E) (ac_auth_methods a)) \<and>
     (ac_success a \<longrightarrow> ac_passed a \<noteq> [] \<and> (so_auth_methods (ae_options E) \<noteq> [] \<longrightarrow> list_ex (completed (ac_passed a)) (method_lists E)))"

definition count_failures :: "authctxt \<Rightarrow> int" where
  "count_failures a = int (length (filter is_failure (ac_sent a)))"

definition tries_inv :: "auth_env \<Rightarrow> authctxt \<Rightarrow> bool" where
  "tries_inv E a \<longleftrightarrow>
     ac_attempt a \<ge> 0 \<and> \<not> ac_server_caused_failure a \<and> ac_failures a < so_max_authtries (ae_options E) \<and>
     count_failures a \<le> ac_failures a + (if ac_attempt a = 0 then 0 else 1)"

lemma same_count: "same_auth a a' \<Longrightarrow> count_failures a' = count_failures a"
  by (auto simp: same_auth_def count_failures_def list_all_iff)

lemma same_inv: "same_auth a a' \<Longrightarrow> auth_inv E a \<Longrightarrow> ac_attempt a \<noteq> 0 \<Longrightarrow> auth_inv E a'"
  by (simp add: auth_inv_def same_auth_def)

lemma root_allowed_method: "auth_root_allowed opt a m \<Longrightarrow> root_method opt m"
  by (auto simp: auth_root_allowed_def root_method_def split: root_login.splits)

lemma completed_def_ex: "list_ex (completed p) ls \<longleftrightarrow> (\<exists>conf \<in> set ls. completed p conf)"
  by (simp add: list_ex_iff)

text \<open>The reply to an attempt.\<close>

lemma reply_inv:
  assumes "userauth_reply E io a authenticated partial m = Some a'"
    and "auth_inv E a" "ac_attempt a \<noteq> 0"
    and "authenticated \<Longrightarrow> ac_passed a \<noteq> [] \<and> (so_auth_methods (ae_options E) \<noteq> [] \<longrightarrow> list_ex (completed (ac_passed a)) (method_lists E))"
  shows "auth_inv E a'"
proof (cases authenticated)
  case True
  with assms(1) have "a' = (send_msg SSH2_MSG_USERAUTH_SUCCESS (a\<lparr>ac_userauth_request := Ignore\<rparr>))\<lparr>ac_success := True\<rparr>"
    by (simp add: userauth_reply_def Let_def split: if_splits)
  with assms(2-4) True show ?thesis by (simp add: auth_inv_def send_msg_def)
next
  case False
  with assms(1) have "ac_attempt a' = ac_attempt a \<and> ac_passed a' = ac_passed a \<and> ac_valid a' = ac_valid a \<and> ac_service a' = ac_service a \<and> ac_pw a' = ac_pw a \<and>
      ac_user a' = ac_user a \<and> ac_auth_methods a' = ac_auth_methods a \<and> ac_success a' = ac_success a \<and> ac_none_enabled a' = ac_none_enabled a"
    by (simp add: userauth_reply_def send_msg_def Let_def split: if_splits) auto
  with assms(2) show ?thesis by (simp add: auth_inv_def)
qed

lemma finish_cases:
  assumes "userauth_finish E io a authenticated m s = Some a'"
  obtains auth complete a1 a2 where "auth = (authenticated \<and> \<not> (map_option pw_uid (ac_pw a) = Some 0 \<and> \<not> auth_root_allowed (ae_options E) a m))"
    "authenticated \<longrightarrow> ac_valid a \<and> \<not> ac_postponed a" "a1 = (if auth then a\<lparr>ac_passed := ac_passed a @ [(m, s)]\<rparr> else a)"
    "(if auth \<and> so_auth_methods (ae_options E) \<noteq> [] then auth2_update_methods_lists a1 m s else Some (auth, a1)) = Some (complete, a2)"
    "(if ac_postponed a2 then Some a2 else userauth_reply E io a2 complete (auth \<and> \<not> complete) m) = Some a'"
    "a2 = a\<lparr>ac_passed := ac_passed a1, ac_auth_methods := ac_auth_methods a2\<rparr>"
proof -
  define opt where "opt = ae_options E"
  define auth where "auth = (authenticated \<and> \<not> (map_option pw_uid (ac_pw a) = Some 0 \<and> \<not> auth_root_allowed opt a m))"
  define a1 where "a1 = (if auth then a\<lparr>ac_passed := ac_passed a @ [(m, s)]\<rparr> else a)"
  from assms obtain complete a2 where u: "(if auth \<and> so_auth_methods opt \<noteq> [] then auth2_update_methods_lists a1 m s else Some (auth, a1)) = Some (complete, a2)"
    and f: "(if ac_postponed a2 then Some a2 else userauth_reply E io a2 complete (auth \<and> \<not> complete) m) = Some a'"
    and v: "authenticated \<longrightarrow> ac_valid a \<and> \<not> ac_postponed a"
    unfolding userauth_finish_def Let_def opt_def [symmetric] auth_def [symmetric] a1_def [symmetric] by (auto split: if_splits option.splits)
  have "a2 = a\<lparr>ac_passed := ac_passed a1, ac_auth_methods := ac_auth_methods a2\<rparr>"
    using u by (auto simp: auth2_update_methods_lists_def a1_def split: if_splits prod.splits)
  with that [OF _ v a1_def] u f show ?thesis by (simp add: opt_def auth_def)
qed

lemma finish_inv:
  assumes "userauth_finish E io a authenticated m s = Some a'" "auth_inv E a" "ac_attempt a \<noteq> 0" "plain_names (m, s)" "\<not> ac_success a"
  shows "auth_inv E a'"
proof (rule finish_cases [OF assms(1)])
  define opt where "opt = ae_options E"
  fix auth complete a1 a2
  assume "auth = (authenticated \<and> \<not> (map_option pw_uid (ac_pw a) = Some 0 \<and> \<not> auth_root_allowed (ae_options E) a m))"
    and vp: "authenticated \<longrightarrow> ac_valid a \<and> \<not> ac_postponed a" and a1_def: "a1 = (if auth then a\<lparr>ac_passed := ac_passed a @ [(m, s)]\<rparr> else a)"
    and u0: "(if auth \<and> so_auth_methods (ae_options E) \<noteq> [] then auth2_update_methods_lists a1 m s else Some (auth, a1)) = Some (complete, a2)"
    and f: "(if ac_postponed a2 then Some a2 else userauth_reply E io a2 complete (auth \<and> \<not> complete) m) = Some a'"
  then have auth_def: "auth = (authenticated \<and> \<not> (map_option pw_uid (ac_pw a) = Some 0 \<and> \<not> auth_root_allowed opt a m))" by (simp add: opt_def)
  have v: "authenticated \<longrightarrow> ac_valid a" using vp by simp
  have u: "(if auth \<and> so_auth_methods opt \<noteq> [] then auth2_update_methods_lists a1 m s else Some (auth, a1)) = Some (complete, a2)" using u0 by (simp add: opt_def)
  have r: "auth \<Longrightarrow> map_option pw_uid (ac_pw a) = Some 0 \<Longrightarrow> root_method opt m" using root_allowed_method [of opt a m] by (auto simp: auth_def)
  have "auth_inv E a2 \<and> ac_attempt a2 \<noteq> 0 \<and> (complete \<longrightarrow> ac_passed a2 \<noteq> [] \<and> (so_auth_methods opt \<noteq> [] \<longrightarrow> list_ex (completed (ac_passed a2)) (method_lists E)))"
  proof (cases "auth \<and> so_auth_methods opt \<noteq> []")
    case False
    with u have a2: "a2 = a1" "complete = auth" by auto
    have "auth \<longrightarrow> ac_valid a" using v by (simp add: auth_def)
    then show ?thesis unfolding a2 using assms(2,3,5) r False by (cases auth) (simp_all add: a1_def auth_inv_def opt_def)
  next
    case True
    then have a1: "ac_auth_methods a1 = ac_auth_methods a" "ac_passed a1 = ac_passed a @ [(m, s)]" by (simp_all add: a1_def)
    obtain d fo ls where l: "update_loop m s False (ac_auth_methods a) = (d, fo, ls)" by (metis prod_cases3)
    with True u a1 have a2: "complete = d" "a2 = a1\<lparr>ac_auth_methods := ls\<rparr>" by (auto simp: auth2_update_methods_lists_def split: if_splits)
    have "list_all2 (progress (ac_passed a)) (method_lists E) (ac_auth_methods a)" using assms(2,3) True by (simp add: auth_inv_def opt_def)
    from update_loop_progress [OF this l assms(4)]
    have p: "list_all2 (progress (ac_passed a @ [(m, s)])) (method_lists E) ls" "d \<longrightarrow> list_ex (completed (ac_passed a @ [(m, s)])) (method_lists E)"
      by (simp_all add: list_ex_iff)
    have q: "d \<longrightarrow> list_ex (completed (ac_passed a2)) (method_lists E)" using p(2) by (simp add: a2(2) a1(2))
    have v': "ac_valid a" using v True by (simp add: auth_def)
    then show ?thesis using assms(2,3,5) r p(1) q True a2(1) unfolding a2(2) a1_def by (simp add: auth_inv_def opt_def)
  qed
  then have i: "auth_inv E a2" "ac_attempt a2 \<noteq> 0" "complete \<Longrightarrow> ac_passed a2 \<noteq> [] \<and> (so_auth_methods opt \<noteq> [] \<longrightarrow> list_ex (completed (ac_passed a2)) (method_lists E))" by simp_all
  show ?thesis
  proof (cases "ac_postponed a2")
    case False
    with f have "userauth_reply E io a2 complete (auth \<and> \<not> complete) m = Some a'" by simp
    from reply_inv [OF this i(1,2)] i(3) show ?thesis by (simp add: opt_def)
  qed (use f i in simp)
qed

lemma finish_fails_inv:
  assumes "userauth_finish E io a False m s = Some a'" "auth_inv E a" "ac_attempt a \<noteq> 0" "\<not> ac_success a"
  shows "auth_inv E a'"
  using assms reply_inv [of E io a False False m a'] by (simp add: userauth_finish_def Let_def split: if_splits)

lemma finish_tries:
  assumes "userauth_finish E io a authenticated m s = Some a'"
    and "ac_attempt a \<ge> 1" "\<not> ac_server_caused_failure a" "ac_failures a < so_max_authtries (ae_options E)"
    and "count_failures a \<le> ac_failures a + (if ac_attempt a = 1 \<and> m = ''none'' then 0 else 1)"
  shows "tries_inv E a'"
proof -
  have r: "tries_inv E b'" if b: "userauth_reply E io b c d m = Some b'" "ac_attempt b = ac_attempt a" "ac_failures b = ac_failures a" "ac_sent b = ac_sent a"
      "ac_server_caused_failure b = ac_server_caused_failure a" for b c d b'
  proof -
    have "count_failures b = count_failures a" using b(4) by (simp add: count_failures_def)
    with b assms(2-5) show ?thesis
      by (auto simp: userauth_reply_def tries_inv_def send_msg_def count_failures_def Let_def split: if_splits)
  qed
  have p: "tries_inv E b" if "ac_attempt b = ac_attempt a" "ac_failures b = ac_failures a" "ac_sent b = ac_sent a"
      "ac_server_caused_failure b = ac_server_caused_failure a" for b
    using that assms(2-5) by (auto simp: tries_inv_def count_failures_def split: if_splits)
  show ?thesis
  proof (rule finish_cases [OF assms(1)])
  fix auth complete a1 a2
  assume f: "(if ac_postponed a2 then Some a2 else userauth_reply E io a2 complete (auth \<and> \<not> complete) m) = Some a'"
      "a2 = a\<lparr>ac_passed := ac_passed a1, ac_auth_methods := ac_auth_methods a2\<rparr>"
  have s: "ac_attempt a2 = ac_attempt a" "ac_failures a2 = ac_failures a" "ac_sent a2 = ac_sent a" "ac_server_caused_failure a2 = ac_server_caused_failure a"
    by (subst f(2), simp)+
  show ?thesis
  proof (cases "ac_postponed a2")
    case True
    with f(1) p [OF s] show ?thesis by simp
  next
    case False
    with f(1) have "userauth_reply E io a2 complete (auth \<and> \<not> complete) m = Some a'" by simp
    from r [OF this s] show ?thesis .
  qed
  qed
qed

text \<open>What a reply adds to the count of failures, and to the refusals sent.\<close>

lemma finish_counts:
  assumes "userauth_finish E io a r m s = Some a'" "\<not> ac_server_caused_failure a" "ac_attempt a \<ge> 1"
  shows "ac_failures a' - ac_failures a = (if ac_attempt a = 1 \<and> m = ''none'' then 0 else count_failures a' - count_failures a)"
proof (rule finish_cases [OF assms(1)])
  fix auth complete a1 a2
  assume f: "(if ac_postponed a2 then Some a2 else userauth_reply E io a2 complete (auth \<and> \<not> complete) m) = Some a'"
      "a2 = a\<lparr>ac_passed := ac_passed a1, ac_auth_methods := ac_auth_methods a2\<rparr>"
  have s: "ac_attempt a2 = ac_attempt a" "ac_failures a2 = ac_failures a" "ac_sent a2 = ac_sent a" "ac_server_caused_failure a2 = ac_server_caused_failure a"
    by (subst f(2), simp)+
  have c: "count_failures a2 = count_failures a" using s(3) by (simp add: count_failures_def)
  show ?thesis
  proof (cases "ac_postponed a2")
    case True
    with f(1) s(2) c show ?thesis by simp
  next
    case False
    with f(1) have "userauth_reply E io a2 complete (auth \<and> \<not> complete) m = Some a'" by simp
    with s assms(2,3) show ?thesis
      by (auto simp: userauth_reply_def send_msg_def count_failures_def Let_def split: if_splits)
  qed
qed

lemma items_valid: "auth2_methods_valid opt none l need \<Longrightarrow> [] \<notin> set (items l)"
  by (auto simp: auth2_methods_valid_def items_def list_all_iff authmethods_def)

lemma begin_inv:
  assumes "begin_attempt E io user style role service a = Some a'" "auth_inv E a" "\<not> ac_success a" "ac_attempt a \<ge> 0"
  shows "auth_inv E a'" "ac_attempt a' = ac_attempt a + 1" "\<not> ac_success a'" "count_failures a' = count_failures a" "ac_failures a' = ac_failures a"
    "ac_user a' = Some user" "ac_service a' = Some service" "ac_passed a' = ac_passed a"
proof -
  have "auth_inv E a' \<and> ac_attempt a' = ac_attempt a + 1 \<and> \<not> ac_success a' \<and> count_failures a' = count_failures a \<and> ac_failures a' = ac_failures a \<and>
      ac_user a' = Some user \<and> ac_service a' = Some service \<and> ac_passed a' = ac_passed a"
  proof (cases "ac_attempt a = 0")
    case False
    with assms(1) have "a' = a\<lparr>ac_attempt := ac_attempt a + 1\<rparr>" "ac_user a = Some user" "ac_service a = Some service"
      by (simp_all add: begin_attempt_def Let_def split: if_splits)
    with False assms(2-4) show ?thesis by (simp add: auth_inv_def count_failures_def)
  next
    case True
    define pw where "pw = ae_getpwnamallow E user"
    define valid where "valid = (pw \<noteq> None \<and> service = ''ssh-connection'')"
    define b where "b = a\<lparr>ac_attempt := 1, ac_user := Some user, ac_pw := (if valid then pw else Some (ae_fakepw E)), ac_valid := (if valid then True else ac_valid a),
            ac_service := Some service, ac_style := style, ac_role := role\<rparr>"
    define c where "c = userauth_banner E io b"
    have ban: "\<exists>ms. c = b\<lparr>ac_sent := ac_sent b @ ms\<rparr> \<and> filter is_failure ms = []"
      by (auto simp: c_def userauth_banner_def send_msg_def split: option.splits intro: exI [of _ "[]"])
    then obtain ms where ms: "c = b\<lparr>ac_sent := ac_sent b @ ms\<rparr>" "filter is_failure ms = []" by blast
    have "setup_authctxt E io user style role service (a\<lparr>ac_attempt := 1\<rparr>) = Some a'" using assms(1) True by (simp add: begin_attempt_def)
    moreover have "(a\<lparr>ac_attempt := 1\<rparr>)\<lparr>ac_user := Some user, ac_pw := (if valid then pw else Some (ae_fakepw E)),
        ac_valid := (if valid then True else ac_valid (a\<lparr>ac_attempt := 1\<rparr>)), ac_service := Some service, ac_style := style, ac_role := role\<rparr> = b"
      by (cases valid) (simp_all add: b_def)
    ultimately have set: "auth2_setup_methods_lists (ae_options E) c = Some a'"
      unfolding setup_authctxt_def Let_def pw_def [symmetric] valid_def [symmetric] c_def by simp
    have none: "ac_none_enabled c" "ac_passed a = []" "\<not> ac_valid a" using assms(2) True ms(1) by (simp_all add: auth_inv_def b_def)
    have "list_all2 (progress []) (method_lists E) (method_lists E)"
      using items_valid by (auto simp: list_all2_same method_lists_def progress_def)
    moreover have "a' = (if so_auth_methods (ae_options E) = [] then c else c\<lparr>ac_auth_methods := method_lists E\<rparr>)"
      using set none(1) by (simp add: auth2_setup_methods_lists_def method_lists_def Let_def split: if_splits)
    moreover have "ac_valid c = valid" "ac_service c = Some service" "ac_passed c = []" "ac_success c = ac_success a" "ac_attempt c = 1" "ac_failures c = ac_failures a"
        "ac_user c = Some user" "ac_pw c = (if valid then pw else Some (ae_fakepw E))" "count_failures c = count_failures a"
      using none ms by (simp_all add: b_def count_failures_def)
    ultimately show ?thesis using none(2) assms(3) True
      by (cases "so_auth_methods (ae_options E) = []") (auto simp: auth_inv_def valid_def pw_def count_failures_def)
  qed
  then show "auth_inv E a'" "ac_attempt a' = ac_attempt a + 1" "\<not> ac_success a'" "count_failures a' = count_failures a" "ac_failures a' = ac_failures a"
    "ac_user a' = Some user" "ac_service a' = Some service" "ac_passed a' = ac_passed a" by simp_all
qed

lemma lookup_plain: "authmethod_lookup opt a name = Some m \<Longrightarrow> plain_names (name, None)"
proof -
  assume "authmethod_lookup opt a name = Some m"
  then obtain n k where "find (\<lambda>(n, m). method_enabled opt (ac_none_enabled a) m \<and> name = n \<and> auth2_method_allowed opt a n None) authmethods = Some (n, k)"
    by (auto simp: authmethod_lookup_def)
  then have "(n, k) \<in> set authmethods" "name = n" by (auto simp: find_Some_iff) (metis nth_mem)
  then show ?thesis by (auto simp: authmethods_def plain_names_def)
qed

section \<open>Devices\<close>

text \<open>The devices that were used before are not used again.\<close>

definition fresh_device :: "auth_env \<Rightarrow> kbdint \<Rightarrow> kbdint \<Rightarrow> bool" where
  "fresh_device E k k' \<longleftrightarrow>
     (\<forall>n. bit (kb_devices_done k) n \<longrightarrow> bit (kb_devices_done k') n) \<and>
     (\<forall>i. kb_device k' = Some i \<longrightarrow> i < length (ae_devices E) \<and> \<not> bit (kb_devices_done k) i \<and> (i < 32 \<longrightarrow> bit (kb_devices_done k') i))"

lemma pick_device_spec:
  assumes "length (ae_devices E) = i + length devs"
  shows "(\<forall>n. bit (kb_devices_done k) n \<longrightarrow> bit (kb_devices_done (pick_device E a name i devs k)) n) \<and>
    (kb_device (pick_device E a name i devs k) = kb_device k \<or>
     (\<exists>j < length (ae_devices E). kb_device (pick_device E a name i devs k) = Some j \<and> \<not> bit (kb_devices_done k) j \<and>
       (j < 32 \<longrightarrow> bit (kb_devices_done (pick_device E a name i devs k)) j)))"
  using assms
proof (induction devs arbitrary: i k)
  case Nil
  then show ?case by simp
next
  case (Cons dev devs)
  define k1 where "k1 = (if bit (kb_devices_done k) i \<or> \<not> auth2_method_allowed (ae_options E) a ''keyboard-interactive'' (Some dev) then k
        else if prefixed name dev then k\<lparr>kb_device := Some i, kb_devices_done := kb_devices_done k OR push_bit i 1\<rparr> else k)"
  have p: "pick_device E a name i (dev # devs) k = pick_device E a name (Suc i) devs k1" by (simp add: k1_def)
  have m: "bit (kb_devices_done k) n \<Longrightarrow> bit (kb_devices_done k1) n" for n by (simp add: k1_def bit_simps)
  have c: "k1 = k \<or> kb_device k1 = Some i \<and> \<not> bit (kb_devices_done k) i \<and> (i < 32 \<longrightarrow> bit (kb_devices_done k1) i)"
    by (simp add: k1_def bit_simps)
  have "length (ae_devices E) = Suc i + length devs" using Cons.prems by simp
  note IH = Cons.IH [OF this, of k1]
  show ?case unfolding p using IH m c Cons.prems by auto
qed

lemma next_device_fresh:
  assumes "kb_device k = None"
  shows "fresh_device E k (next_device_loop E a k)"
  using assms
proof (induction E a k rule: next_device_loop.induct)
  case (1 E a k)
  show ?case
  proof (cases "kb_devices k")
    case None
    with 1 show ?thesis by (subst next_device_loop.simps) (simp add: fresh_device_def)
  next
    case (Some devs)
    define name where "name = takeWhile (\<lambda>c. c \<noteq> CHR '','') devs"
    define rest where "rest = drop (length name) devs"
    define k1 where "k1 = (pick_device E a name 0 (ae_devices E) k)\<lparr>kb_devices := (if rest = [] then None else Some (tl rest))\<rparr>"
    have l: "next_device_loop E a k = (if name = [] then k else if kb_devices k1 \<noteq> None \<and> kb_device k1 = None then next_device_loop E a k1 else k1)"
      by (subst next_device_loop.simps) (simp only: Some Let_def name_def rest_def k1_def option.case)
    have f: "fresh_device E k k1" using pick_device_spec [of E 0 "ae_devices E" k a name] 1(2) by (auto simp: fresh_device_def k1_def)
    show ?thesis
    proof (cases "name \<noteq> [] \<and> kb_devices k1 \<noteq> None \<and> kb_device k1 = None")
      case True
      with 1(1) [OF Some name_def rest_def _ k1_def] have "fresh_device E k1 (next_device_loop E a k1)" by simp
      with f l True show ?thesis by (auto simp: fresh_device_def)
    qed (use l f 1(2) in \<open>auto simp: fresh_device_def\<close>)
  qed
qed

lemma kbdint_next_fresh: "kbdint_next_device E a k = (found, k') \<Longrightarrow> fresh_device E k k' \<and> found = (kb_device k' \<noteq> None)"
  using next_device_fresh [of "if kb_device k \<noteq> None then kbdint_reset_device k else k" E a]
  by (auto simp: kbdint_next_device_def kbdint_reset_device_def fresh_device_def Let_def split: if_splits)

text \<open>While responses are awaited, there is a device that waits for them.\<close>

definition device_inv :: "auth_env \<Rightarrow> authctxt \<Rightarrow> bool" where
  "device_inv E a \<longleftrightarrow>
     (ac_info_response a \<longrightarrow> (\<exists>k i. ac_kbdintctxt a = Some k \<and> kb_ctxt k \<and> kb_device k = Some i \<and> i < length (ae_devices E) \<and>
        (i < 32 \<longrightarrow> bit (kb_devices_done k) i)))"

lemma stop_device_inv: "device_inv E (auth2_challenge_stop a)"
  by (simp add: device_inv_def auth2_challenge_stop_def)

lemma start_device_inv: "device_inv E (auth2_challenge_start E io k a)"
proof -
  obtain f k1 where k: "kbdint_next_device E a k = (f, k1)" by fastforce
  show ?thesis
  proof (cases "kb_device k1")
    case None
    with k stop_device_inv show ?thesis by (simp add: auth2_challenge_start_def)
  next
    case (Some i)
    have "i < length (ae_devices E)" "i < 32 \<longrightarrow> bit (kb_devices_done k1) i" using kbdint_next_fresh [OF k] Some by (simp_all add: fresh_device_def)
    with k Some stop_device_inv show ?thesis
      by (auto simp: auth2_challenge_start_def send_userauth_info_request_def send_msg_def device_inv_def Let_def split: option.splits)
  qed
qed

text \<open>Where root may log in only with a forced command, there is one, which came with a public key that passed.\<close>

definition forced_inv :: "auth_env \<Rightarrow> authctxt \<Rightarrow> bool" where
  "forced_inv E a \<longleftrightarrow> so_permit_root_login (ae_options E) = PERMIT_FORCED_ONLY \<longrightarrow>
     (ac_forced_command a \<longrightarrow> (''publickey'', None) \<in> set (ac_passed a)) \<and>
     (ac_success a \<and> map_option pw_uid (ac_pw a) = Some 0 \<longrightarrow> ac_forced_command a)"

lemma challenge_forced [simp]:
  "ac_forced_command (auth2_challenge_stop a) = ac_forced_command a"
  "ac_forced_command (auth2_challenge_start E io k a) = ac_forced_command a"
  by (auto simp: auth2_challenge_stop_def auth2_challenge_start_def send_userauth_info_request_def send_msg_def Let_def split: option.splits prod.splits)

lemma method_forced:
  "call_method m E io a p = Some (r, a') \<Longrightarrow> ac_forced_command a' \<Longrightarrow> ac_forced_command a \<or> r \<and> m = Method_pubkey"
proof (cases m)
  case Method_pubkey
  then show "call_method m E io a p = Some (r, a') \<Longrightarrow> ac_forced_command a' \<Longrightarrow> ac_forced_command a \<or> r \<and> m = Method_pubkey"
    by (auto simp: userauth_pubkey_def Let_def split: option.splits if_splits prod.splits)
qed (auto simp: userauth_none_def userauth_passwd_def userauth_hostbased_def userauth_kbdint_def auth2_challenge_def packet_check_eom_def Let_def
  split: option.splits if_splits)

lemma response_forced: "after_response E io dev k res a = (r, a') \<Longrightarrow> ac_forced_command a' = ac_forced_command a"
  by (auto simp: after_response_def send_userauth_info_request_def send_msg_def Let_def split: option.splits if_splits)

lemma reply_forced: "userauth_reply E io a c d m = Some a' \<Longrightarrow>
    ac_forced_command a' = ac_forced_command a \<and> ac_passed a' = ac_passed a \<and> ac_pw a' = ac_pw a \<and> (ac_success a' \<longrightarrow> ac_success a \<or> c)"
  by (auto simp: userauth_reply_def send_msg_def Let_def split: if_splits)

lemma finish_forced:
  assumes "userauth_finish E io a r m s = Some a'" "\<not> ac_success a"
    and "so_permit_root_login (ae_options E) = PERMIT_FORCED_ONLY \<Longrightarrow> ac_forced_command a \<Longrightarrow>
      (''publickey'', None) \<in> set (ac_passed a) \<or> r \<and> m = ''publickey'' \<and> s = None"
  shows "forced_inv E a'"
proof (rule finish_cases [OF assms(1)])
  fix auth complete a1 a2
  assume auth: "auth = (r \<and> \<not> (map_option pw_uid (ac_pw a) = Some 0 \<and> \<not> auth_root_allowed (ae_options E) a m))"
    and a1: "a1 = (if auth then a\<lparr>ac_passed := ac_passed a @ [(m, s)]\<rparr> else a)"
    and u: "(if auth \<and> so_auth_methods (ae_options E) \<noteq> [] then auth2_update_methods_lists a1 m s else Some (auth, a1)) = Some (complete, a2)"
    and f: "(if ac_postponed a2 then Some a2 else userauth_reply E io a2 complete (auth \<and> \<not> complete) m) = Some a'"
      "a2 = a\<lparr>ac_passed := ac_passed a1, ac_auth_methods := ac_auth_methods a2\<rparr>"
  have s: "ac_forced_command a2 = ac_forced_command a" "ac_pw a2 = ac_pw a" "ac_success a2 = ac_success a" "ac_passed a2 = ac_passed a1" by (subst f(2), simp)+
  have "complete \<longrightarrow> auth" using u by (auto split: if_splits)
  moreover have "ac_forced_command a' = ac_forced_command a2 \<and> ac_passed a' = ac_passed a2 \<and> ac_pw a' = ac_pw a2 \<and> (ac_success a' \<longrightarrow> ac_success a2 \<or> complete)"
    using f(1) reply_forced [of E io a2 complete "auth \<and> \<not> complete" m a'] by (auto split: if_splits)
  ultimately show ?thesis using s assms(2,3) auth a1
    by (auto simp: forced_inv_def auth_root_allowed_def)
qed

text \<open>What the handler of requests relies on in a method of the table: the contract of \<open>Authmethod.userauth\<close>.  The handler calls a method only while
  attempts are left, and the lemmas of the locale are about such a call.\<close>

locale userauth_method =
  fixes userauth :: "auth_env \<Rightarrow> auth_io \<Rightarrow> authctxt \<Rightarrow> byte list \<Rightarrow> (bool \<times> authctxt) option"
  assumes keeps: "userauth E io a p = Some (r, a') \<Longrightarrow> method_ok a r a'"
    and device: "userauth E io a p = Some (r, a') \<Longrightarrow> \<not> ac_info_response a \<Longrightarrow> device_inv E a'"
begin

lemma attempt_keeps:
  assumes "(if guard then userauth E io a p else Some (False, a)) = Some (r, a')"
  shows "method_ok a r a'"
  using assms keeps by (auto simp: method_ok_def same_auth_refl split: if_splits)

lemma attempt_device:
  assumes "(if guard then userauth E io a p else Some (False, a)) = Some (r, a')" "\<not> ac_info_response a"
  shows "device_inv E a'"
  using assms device by (auto simp: device_inv_def split: if_splits)

end

interpretation none: userauth_method userauth_none
  by unfold_locales (rule none_ok, assumption, auto simp: userauth_none_def packet_check_eom_def device_inv_def Let_def split: if_splits)

interpretation passwd: userauth_method userauth_passwd
  by unfold_locales (rule passwd_ok, assumption, auto simp: userauth_passwd_def packet_check_eom_def device_inv_def split: if_splits option.splits)

interpretation hostbased: userauth_method userauth_hostbased
  by unfold_locales (rule hostbased_ok, assumption, auto simp: userauth_hostbased_def device_inv_def split: if_splits option.splits)

lemma kbdint_device:
  assumes "userauth_kbdint E io a p = Some (r, a')" "\<not> ac_info_response a"
  shows "device_inv E a'"
  using assms start_device_inv
  by (auto simp: userauth_kbdint_def packet_check_eom_def auth2_challenge_def device_inv_def split: if_splits option.splits)

interpretation kbdint: userauth_method userauth_kbdint
  by unfold_locales (fact kbdint_ok kbdint_device)+

lemma pubkey_device:
  assumes "userauth_pubkey E io a p = Some (r, a')" "\<not> ac_info_response a"
  shows "device_inv E a'"
proof -
  from assms have "\<not> ac_info_response a'"
    by (auto simp: userauth_pubkey_def auth2_record_userkey_def send_msg_def Let_def split: if_splits option.splits prod.splits)
  then show ?thesis by (simp add: device_inv_def)
qed

interpretation pubkey: userauth_method userauth_pubkey
  by unfold_locales (fact pubkey_ok pubkey_device)+

text \<open>So every entry of the table fulfils the contract.\<close>

interpretation called: userauth_method "call_method m" for m
  by (cases m) (simp_all add: none.userauth_method_axioms passwd.userauth_method_axioms hostbased.userauth_method_axioms
    kbdint.userauth_method_axioms pubkey.userauth_method_axioms)

lemma response_device_inv:
  assumes "after_response E io dev k res a = (r, a')" "\<not> ac_postponed a" "device_inv E a" "kb_ctxt k" "kb_device k = Some i" "i < length (ae_devices E)"
    "i < 32 \<longrightarrow> bit (kb_devices_done k) i"
  shows "device_inv E a'"
  using assms start_device_inv stop_device_inv
  by (auto simp: after_response_def send_userauth_info_request_def send_msg_def device_inv_def Let_def split: if_splits option.splits)

lemma reply_device:
  "userauth_reply E io a c d m = Some a' \<Longrightarrow> ac_info_response a' = ac_info_response a \<and> ac_kbdintctxt a' = ac_kbdintctxt a \<and> ac_attempt a' = ac_attempt a"
  by (auto simp: userauth_reply_def send_msg_def Let_def split: if_splits)

lemma finish_device:
  assumes "userauth_finish E io a authenticated m s = Some a'"
  shows "ac_info_response a' = ac_info_response a \<and> ac_kbdintctxt a' = ac_kbdintctxt a \<and> ac_attempt a' = ac_attempt a"
proof (rule finish_cases [OF assms])
  fix auth complete a1 a2
  assume f: "(if ac_postponed a2 then Some a2 else userauth_reply E io a2 complete (auth \<and> \<not> complete) m) = Some a'"
      "a2 = a\<lparr>ac_passed := ac_passed a1, ac_auth_methods := ac_auth_methods a2\<rparr>"
  have "ac_info_response a2 = ac_info_response a" "ac_kbdintctxt a2 = ac_kbdintctxt a" "ac_attempt a2 = ac_attempt a" by (subst f(2), simp)+
  with f(1) reply_device [of E io a2 complete "auth \<and> \<not> complete" m a'] show ?thesis by (auto split: if_splits)
qed

section \<open>Steps\<close>

text \<open>The method that a request names.\<close>

definition request_method :: "byte list \<Rightarrow> string option" where
  "request_method p =
     (case packet_get_cstring p of None \<Rightarrow> None | Some (user, p) \<Rightarrow>
      case packet_get_cstring p of None \<Rightarrow> None | Some (service, p) \<Rightarrow> map_option fst (packet_get_cstring p))"

lemma lookup_pubkey: "authmethod_lookup opt a name = Some Method_pubkey \<Longrightarrow> name = ''publickey''"
  by (auto simp: authmethod_lookup_def authmethods_def split: if_splits)

lemma begin_forced: "begin_attempt E io user style role service a = Some b \<Longrightarrow> ac_forced_command b = ac_forced_command a"
proof -
  have l: "auth2_setup_methods_lists opt x = Some y \<Longrightarrow> ac_forced_command y = ac_forced_command x" for opt x y
    by (auto simp: auth2_setup_methods_lists_def Let_def split: if_splits)
  have n: "ac_forced_command (userauth_banner E io x) = ac_forced_command x" for x by (simp add: userauth_banner_def send_msg_def split: option.split)
  show "begin_attempt E io user style role service a = Some b \<Longrightarrow> ac_forced_command b = ac_forced_command a"
    using l [of "ae_options E" _ b] n by (fastforce simp: begin_attempt_def setup_authctxt_def Let_def split: if_splits)
qed

text \<open>The state in which a request is finished.\<close>

lemma request_steps:
  assumes "input_userauth_request E io a p = Some a'" "auth_inv E a" "\<not> ac_success a" "ac_attempt a \<ge> 0"
  obtains mth r b where "userauth_finish E io b r mth None = Some a'" "auth_inv E b" "ac_attempt b = ac_attempt a + 1" "\<not> ac_success b"
    "\<not> ac_server_caused_failure b" "ac_failures b = ac_failures a" "count_failures b = count_failures a"
    "r \<longrightarrow> ac_valid b \<and> \<not> ac_postponed b \<and> plain_names (mth, None)" "ac_attempt a \<noteq> 0 \<Longrightarrow> ac_user b = ac_user a" "device_inv E b"
    "request_method p = Some mth" "ac_passed b = ac_passed a" "ac_forced_command b \<longrightarrow> ac_forced_command a \<or> r \<and> mth = ''publickey''"
proof -
  from assms(1) obtain name p1 service p2 mth p3 where p: "packet_get_cstring p = Some (name, p1)" "packet_get_cstring p1 = Some (service, p2)"
    "packet_get_cstring p2 = Some (mth, p3)" by (auto simp: input_userauth_request_def split: option.splits)
  obtain user style role where u: "split_user name = (user, style, role)" by (metis prod_cases3)
  from assms(1) p u obtain b where b: "begin_attempt E io user style role service a = Some b" by (auto simp: input_userauth_request_def split: option.splits)
  note i = begin_inv [OF b assms(2-4)]
  define c where "c = (auth2_challenge_stop b)\<lparr>ac_postponed := False, ac_server_caused_failure := False\<rparr>"
  have at: "ac_attempt b \<noteq> 0" using i(2) assms(4) by simp
  have c: "auth_inv E c" "ac_attempt c = ac_attempt a + 1" "\<not> ac_success c" "count_failures c = count_failures a" "ac_failures c = ac_failures a"
    "\<not> ac_server_caused_failure c" "\<not> ac_postponed c" "ac_user c = Some user"
    using i at by (simp_all add: c_def auth2_challenge_stop_def auth_inv_def count_failures_def)
  define call where "call = (case authmethod_lookup (ae_options E) c mth of
                 Some m \<Rightarrow> if ac_failures c < so_max_authtries (ae_options E) then call_method m E io c p3 else Some (False, c)
               | None \<Rightarrow> Some (False, c))"
  from assms(1) p u b obtain r d where d: "call = Some (r, d)" "userauth_finish E io d r mth None = Some a'"
    unfolding input_userauth_request_def by (auto simp: c_def [symmetric] call_def [symmetric] split: option.splits)
  have m: "method_ok c r d" using d(1) refused_ok by (auto simp: call_def dest: called.attempt_keeps split: option.splits)
  have n: "r \<longrightarrow> plain_names (mth, None)"
    using d(1) lookup_plain [of "ae_options E" c mth] by (auto simp: call_def split: option.splits)
  have s: "same_auth c d" using m by (simp add: method_ok_def)
  have "\<not> ac_info_response c" by (simp add: c_def auth2_challenge_stop_def)
  then have dev: "device_inv E d" using d(1) by (auto simp: call_def device_inv_def [of E d] dest: called.attempt_device [unfolded device_inv_def] split: option.splits)
  have fc: "ac_forced_command d \<longrightarrow> ac_forced_command c \<or> r \<and> mth = ''publickey''"
    using d(1) method_forced [of _ E io c p3 r d] lookup_pubkey [of "ae_options E" c mth] by (auto simp: call_def split: option.splits if_splits)
  have "ac_forced_command c = ac_forced_command a" using begin_forced [OF b] by (simp add: c_def)
  with fc have fd: "ac_forced_command d \<longrightarrow> ac_forced_command a \<or> r \<and> mth = ''publickey''" by simp
  show ?thesis
  proof (rule that [OF d(2) _ _ _ _ _ _ _ _ dev _ _ fd])
    show "request_method p = Some mth" using p by (simp add: request_method_def)
    show "ac_passed d = ac_passed a" using s i(8) by (simp add: same_auth_def c_def auth2_challenge_stop_def)
    show "auth_inv E d" using same_inv [OF s c(1)] c(2) assms(4) by simp
    show "ac_attempt d = ac_attempt a + 1" "\<not> ac_success d" "\<not> ac_server_caused_failure d" "ac_failures d = ac_failures a"
      using s c by (simp_all add: same_auth_def)
    show "count_failures d = count_failures a" using same_count [OF s] c(4) by simp
    show "r \<longrightarrow> ac_valid d \<and> \<not> ac_postponed d \<and> plain_names (mth, None)" using m n c(7) by (auto simp: method_ok_def same_auth_def)
    show "ac_user d = ac_user a" if "ac_attempt a \<noteq> 0"
      using that b s c(8) by (auto simp: begin_attempt_def same_auth_def Let_def split: if_splits)
  qed
qed

text \<open>The state in which a response is finished.\<close>

lemma info_steps:
  assumes "input_userauth_info_response E io a p = Some a'" "auth_inv E a" "\<not> ac_success a" "ac_attempt a \<noteq> 0" "device_inv E a" "ac_info_response a"
  obtains dev r b where "userauth_finish E io b r ''keyboard-interactive'' (Some dev) = Some a'" "auth_inv E b" "same_auth a b" "device_inv E b" "dev \<in> set (ae_devices E)"
    "r \<longrightarrow> ac_valid b \<and> \<not> ac_postponed b" "ac_forced_command b = ac_forced_command a"
proof -
  from assms(5,6) obtain k i where k: "ac_kbdintctxt a = Some k" "kb_ctxt k" "kb_device k = Some i" "i < length (ae_devices E)" "i < 32 \<longrightarrow> bit (kb_devices_done k) i"
    by (auto simp: device_inv_def)
  define a1 where "a1 = a\<lparr>ac_postponed := False\<rparr>"
  from assms(1) k obtain rs r b where b: "after_response E io (ae_devices E ! i) k (ai_respond io (ae_devices E ! i) rs) a1 = (r, b)"
    "userauth_finish E io b r ''keyboard-interactive'' (Some (ae_devices E ! i)) = Some a'"
    by (auto simp: input_userauth_info_response_def a1_def Let_def split: option.splits if_splits prod.splits)
  have p: "\<not> ac_postponed a1" "device_inv E a1" "same_auth a a1" using assms(5) by (simp_all add: a1_def device_inv_def same_auth_set)
  note r = after_response_ok [OF b(1) p(1)]
  have s: "same_auth a b" using same_auth_trans [OF p(3) r(1)] .
  show ?thesis
  proof (rule that [OF b(2) _ s])
    show "auth_inv E b" using same_inv [OF s assms(2,4)] .
    show "device_inv E b" using response_device_inv [OF b(1) p(1,2) k(2-5)] .
    show "ae_devices E ! i \<in> set (ae_devices E)" using k(4) by simp
    show "r \<longrightarrow> ac_valid b \<and> \<not> ac_postponed b" using r by (auto simp: same_auth_def)
    show "ac_forced_command b = ac_forced_command a" using response_forced [OF b(1)] by (simp add: a1_def)
  qed
qed

definition plain_devices :: "auth_env \<Rightarrow> bool" where
  "plain_devices E \<longleftrightarrow> list_all (\<lambda>dev. CHR '','' \<notin> set dev) (ae_devices E)"

lemma run_auth_inv:
  assumes "auth_run E a" "plain_devices E"
  shows "auth_inv E a \<and> device_inv E a \<and> ac_attempt a \<ge> 0 \<and> (ac_info_response a \<longrightarrow> ac_attempt a \<noteq> 0)"
  using assms(1)
proof (induction rule: auth_run.induct)
  case start
  then show ?case by (simp add: new_authctxt_def auth_inv_def device_inv_def)
next
  case (service a p a')
  then obtain m where a': "a' = send_msg m (a\<lparr>ac_userauth_request := Handle\<rparr>)" by (auto simp: input_service_request_def split: option.splits if_splits)
  show ?case using service.IH unfolding a' by (simp add: send_msg_def auth_inv_def device_inv_def)
next
  case (request a io p a')
  then have i: "auth_inv E a" "ac_attempt a \<ge> 0" by simp_all
  show ?case
  proof (rule request_steps [OF request(4) i(1) request(2) i(2)])
    fix mth r b
    assume b: "userauth_finish E io b r mth None = Some a'" "auth_inv E b" "ac_attempt b = ac_attempt a + 1" "\<not> ac_success b" "device_inv E b"
      "r \<longrightarrow> ac_valid b \<and> \<not> ac_postponed b \<and> plain_names (mth, None)"
    have n: "ac_attempt b \<noteq> 0" using b(3) i(2) by simp
    have "auth_inv E a'"
    proof (cases r)
      case True
      with b n finish_inv [OF b(1,2) n] show ?thesis by simp
    next
      case False
      with b(1) finish_fails_inv [OF _ b(2) n b(4)] show ?thesis by simp
    qed
    with finish_device [OF b(1)] b(3,5) i(2) show ?thesis by (simp add: device_inv_def)
  qed
next
  case (info a io p a')
  then have i: "auth_inv E a" "device_inv E a" "ac_attempt a \<noteq> 0" "ac_attempt a \<ge> 0" by simp_all
  show ?case
  proof (rule info_steps [OF info(4) i(1) info(2) i(3,2) info(3)])
    fix dev r b
    assume b: "userauth_finish E io b r ''keyboard-interactive'' (Some dev) = Some a'" "auth_inv E b" "same_auth a b" "device_inv E b" "dev \<in> set (ae_devices E)"
    have "plain_names (''keyboard-interactive'', Some dev)" using b(5) assms(2) by (simp add: plain_names_def plain_devices_def list_all_iff)
    with finish_inv [OF b(1,2)] b(3) i(3) info(2) have "auth_inv E a'" by (simp add: same_auth_def)
    with finish_device [OF b(1)] b(3,4) i(4) i(3) show ?thesis by (simp add: device_inv_def same_auth_def)
  qed
qed

lemma run_forced:
  assumes "auth_run E a" "plain_devices E"
  shows "forced_inv E a"
  using assms(1)
proof (induction rule: auth_run.induct)
  case start
  then show ?case by (simp add: new_authctxt_def forced_inv_def)
next
  case (service a p a')
  then obtain m where a': "a' = send_msg m (a\<lparr>ac_userauth_request := Handle\<rparr>)" by (auto simp: input_service_request_def split: option.splits if_splits)
  show ?case using service.IH unfolding a' by (simp add: send_msg_def forced_inv_def)
next
  case (request a io p a')
  have i: "auth_inv E a" "ac_attempt a \<ge> 0" using run_auth_inv [OF request(1) assms(2)] by simp_all
  show ?case
  proof (rule request_steps [OF request(4) i(1) request(2) i(2)])
    fix mth r b
    assume b: "userauth_finish E io b r mth None = Some a'" "\<not> ac_success b" "ac_passed b = ac_passed a"
      "ac_forced_command b \<longrightarrow> ac_forced_command a \<or> r \<and> mth = ''publickey''"
    show ?thesis using finish_forced [OF b(1,2)] b(3,4) request.IH by (auto simp: forced_inv_def)
  qed
next
  case (info a io p a')
  have i: "auth_inv E a" "device_inv E a" "ac_attempt a \<noteq> 0" using run_auth_inv [OF info(1) assms(2)] info(3) by simp_all
  show ?case
  proof (rule info_steps [OF info(4) i(1) info(2) i(3,2) info(3)])
    fix dev r b
    assume b: "userauth_finish E io b r ''keyboard-interactive'' (Some dev) = Some a'" "same_auth a b" "ac_forced_command b = ac_forced_command a"
    have s: "\<not> ac_success b" "ac_passed b = ac_passed a" using b(2) info(2) by (simp_all add: same_auth_def)
    show ?thesis using finish_forced [OF b(1) s(1)] b(3) s(2) info.IH by (auto simp: forced_inv_def)
  qed
qed

text \<open>What one step adds to the count of failures.\<close>

lemma request_counts:
  assumes "auth_run E a" "plain_devices E" "\<not> ac_success a" "input_userauth_request E io a p = Some a'"
  shows "ac_failures a' - ac_failures a = (if ac_attempt a = 0 \<and> request_method p = Some ''none'' then 0 else count_failures a' - count_failures a)"
proof -
  have i: "auth_inv E a" "ac_attempt a \<ge> 0" using run_auth_inv [OF assms(1,2)] by simp_all
  show ?thesis
  proof (rule request_steps [OF assms(4) i(1) assms(3) i(2)])
    fix mth r b
    assume b: "userauth_finish E io b r mth None = Some a'" "ac_attempt b = ac_attempt a + 1" "\<not> ac_server_caused_failure b" "ac_failures b = ac_failures a"
      "count_failures b = count_failures a" "request_method p = Some mth"
    show ?thesis using finish_counts [OF b(1,3)] b(2,4-6) i(2) by simp
  qed
qed

lemma info_counts:
  assumes "auth_run E a" "plain_devices E" "\<not> ac_server_caused_failure a" "\<not> ac_success a" "ac_info_response a"
    and "input_userauth_info_response E io a p = Some a'"
  shows "ac_failures a' - ac_failures a = count_failures a' - count_failures a"
proof -
  have i: "auth_inv E a" "device_inv E a" "ac_attempt a \<noteq> 0" "ac_attempt a \<ge> 0" using run_auth_inv [OF assms(1,2)] assms(5) by simp_all
  show ?thesis
  proof (rule info_steps [OF assms(6) i(1) assms(4) i(3,2) assms(5)])
    fix dev r b
    assume b: "userauth_finish E io b r ''keyboard-interactive'' (Some dev) = Some a'" "same_auth a b"
    show ?thesis using finish_counts [OF b(1)] same_count [OF b(2)] b(2) assms(3) i(3,4) by (simp add: same_auth_def)
  qed
qed

lemma run_tries:
  assumes "auth_run E a" "plain_devices E" "0 < so_max_authtries (ae_options E)"
  shows "tries_inv E a"
  using assms(1)
proof (induction rule: auth_run.induct)
  case start
  then show ?case using assms(3) by (simp add: new_authctxt_def tries_inv_def count_failures_def)
next
  case (service a p a')
  then obtain s where a': "a' = send_msg (SSH2_MSG_SERVICE_ACCEPT s) (a\<lparr>ac_userauth_request := Handle\<rparr>)"
    by (auto simp: input_service_request_def split: option.splits if_splits)
  show ?case using service.IH unfolding a' by (simp add: send_msg_def tries_inv_def count_failures_def)
next
  case (request a io p a')
  have i: "auth_inv E a" "ac_attempt a \<ge> 0" using run_auth_inv [OF request(1) assms(2)] by simp_all
  show ?case
  proof (rule request_steps [OF request(4) i(1) request(2) i(2)])
    fix mth r b
    assume b: "userauth_finish E io b r mth None = Some a'" "ac_attempt b = ac_attempt a + 1" "\<not> ac_server_caused_failure b" "ac_failures b = ac_failures a"
      "count_failures b = count_failures a"
    show "tries_inv E a'" by (rule finish_tries [OF b(1)]) (use b request.IH i(2) in \<open>auto simp: tries_inv_def split: if_splits\<close>)
  qed
next
  case (info a io p a')
  have i: "auth_inv E a" "device_inv E a" "ac_attempt a \<noteq> 0" "ac_attempt a \<ge> 0" using run_auth_inv [OF info(1) assms(2)] info(3) by simp_all
  show ?case
  proof (rule info_steps [OF info(4) i(1) info(2) i(3,2) info(3)])
    fix dev r b
    assume b: "userauth_finish E io b r ''keyboard-interactive'' (Some dev) = Some a'" "same_auth a b"
    show "tries_inv E a'"
      by (rule finish_tries [OF b(1)]) (use b(2) same_count [OF b(2)] info.IH i(3,4) in \<open>auto simp: tries_inv_def same_auth_def\<close>)
  qed
qed

section \<open>Public keys\<close>

lemma packet_get_string_inv: "packet_get_string p = Some (s, q) \<Longrightarrow> p = string_enc s @ q"
proof -
  assume g: "packet_get_string p = Some (s, q)"
  define n where "n = peek_u32 p"
  from g have l: "length p \<ge> 4" "unat n \<le> length (drop 4 p)" "s = take (unat n) (drop 4 p)" "q = drop (unat n) (drop 4 p)"
    by (auto simp: packet_get_string_def packet_get_int_def n_def split: if_splits)
  have "poke_u32 n = take 4 p" using poke_peek_u32 [of p] l(1) by (simp add: n_def)
  moreover have "length s = unat n" using l(2,3) by simp
  then have "(of_nat (length s) :: 32 word) = n" by simp
  ultimately have "string_enc s @ q = take 4 p @ (s @ q)" by (simp add: string_enc_def)
  moreover have "s @ q = drop 4 p" unfolding l(3,4) by (rule append_take_drop_id)
  ultimately show ?thesis by simp
qed

lemma packet_get_cstring_inv: "packet_get_cstring p = Some (s, q) \<Longrightarrow> \<exists>b. p = string_enc b @ q \<and> cstr_of b = s"
proof -
  assume "packet_get_cstring p = Some (s, q)"
  then obtain b where b: "packet_get_string p = Some (b, q)" "cstr_of b = s" by (auto simp: packet_get_cstring_def split: option.splits if_splits)
  with packet_get_string_inv [OF b(1)] show ?thesis by blast
qed

lemma reply_fields:
  "userauth_reply E io a c d m = Some a' \<Longrightarrow> ac_passed a' = ac_passed a \<and> ac_user a' = ac_user a \<and> ac_service a' = ac_service a \<and> ac_style a' = ac_style a \<and>
    ac_pw a' = ac_pw a \<and> ac_prev_userkeys a' = ac_prev_userkeys a"
  by (auto simp: userauth_reply_def send_msg_def Let_def split: if_splits)

lemma finish_fields:
  assumes "userauth_finish E io a r m s = Some a'"
  shows "ac_user a' = ac_user a" "ac_service a' = ac_service a" "ac_style a' = ac_style a" "ac_pw a' = ac_pw a" "ac_prev_userkeys a' = ac_prev_userkeys a"
    "ac_passed a' = ac_passed a \<or> r \<and> ac_passed a' = ac_passed a @ [(m, s)]"
proof -
  have "ac_user a' = ac_user a \<and> ac_service a' = ac_service a \<and> ac_style a' = ac_style a \<and> ac_pw a' = ac_pw a \<and> ac_prev_userkeys a' = ac_prev_userkeys a \<and>
    (ac_passed a' = ac_passed a \<or> r \<and> ac_passed a' = ac_passed a @ [(m, s)])"
  proof (rule finish_cases [OF assms])
    fix auth complete a1 a2
    assume f: "(if ac_postponed a2 then Some a2 else userauth_reply E io a2 complete (auth \<and> \<not> complete) m) = Some a'"
        "a2 = a\<lparr>ac_passed := ac_passed a1, ac_auth_methods := ac_auth_methods a2\<rparr>" "a1 = (if auth then a\<lparr>ac_passed := ac_passed a @ [(m, s)]\<rparr> else a)"
        "auth = (r \<and> \<not> (map_option pw_uid (ac_pw a) = Some 0 \<and> \<not> auth_root_allowed (ae_options E) a m))"
    have s: "ac_user a2 = ac_user a" "ac_service a2 = ac_service a" "ac_style a2 = ac_style a" "ac_pw a2 = ac_pw a" "ac_prev_userkeys a2 = ac_prev_userkeys a"
      "ac_passed a2 = ac_passed a1" by (subst f(2), simp)+
    have "a' = a2 \<or> userauth_reply E io a2 complete (auth \<and> \<not> complete) m = Some a'" using f(1) by (auto split: if_splits)
    then have "ac_passed a' = ac_passed a2 \<and> ac_user a' = ac_user a2 \<and> ac_service a' = ac_service a2 \<and> ac_style a' = ac_style a2 \<and>
      ac_pw a' = ac_pw a2 \<and> ac_prev_userkeys a' = ac_prev_userkeys a2" using reply_fields by blast
    with s f(3,4) show ?thesis by (simp split: if_splits)
  qed
  then show "ac_user a' = ac_user a" "ac_service a' = ac_service a" "ac_style a' = ac_style a" "ac_pw a' = ac_pw a" "ac_prev_userkeys a' = ac_prev_userkeys a"
    "ac_passed a' = ac_passed a \<or> r \<and> ac_passed a' = ac_passed a @ [(m, s)]" by simp_all
qed

lemma decode_key_Some:
  "decode_key E accepted alg blob = Some key \<Longrightarrow>
     ae_key_from_blob E blob = Some key \<and> sk_type key = sshkey_type_from_name (ae_build E) (cstr_of alg) \<and> sk_type key \<noteq> KEY_UNSPEC \<and>
     (\<exists>name. sshkey_ssh_name_from_type_nid (ae_build E) (sk_type key) (sk_nid key) = Some name \<and> match_pattern_list name accepted False = 1)"
  by (auto simp: decode_key_def Let_def split: if_splits option.splits)

text \<open>Clients with old quirks send no algorithm, which is then the first string of the key, and sign other data.\<close>

definition quirk :: "auth_env \<Rightarrow> 32 word \<Rightarrow> bool" where
  "quirk E q \<longleftrightarrow> datafellows (ae_state E) AND q \<noteq> 0"

definition key_fields :: "auth_env \<Rightarrow> byte list \<Rightarrow> byte list \<Rightarrow> byte list" where
  "key_fields E alg blob = (if quirk E SSH_BUG_PKAUTH then [] else string_enc alg) @ string_enc blob"

lemma pk_fields_Some:
  assumes "pk_fields E p = Some (alg, blob, q)"
  shows "p = key_fields E alg blob @ q" "quirk E SSH_BUG_PKAUTH \<Longrightarrow> \<exists>rest. blob = string_enc alg @ rest"
proof -
  show "p = key_fields E alg blob @ q"
    using assms packet_get_string_inv by (fastforce simp: pk_fields_def key_fields_def quirk_def split: if_splits option.splits)
  show "\<exists>rest. blob = string_enc alg @ rest" if "quirk E SSH_BUG_PKAUTH"
  proof -
    from assms that obtain rest where "packet_get_string blob = Some (alg, rest)"
      by (auto simp: pk_fields_def quirk_def buffer_get_string_def split: option.splits)
    from packet_get_string_inv [OF this] show ?thesis by blast
  qed
qed

lemma pubkey_success:
  assumes "userauth_pubkey E io a p = Some (True, a')"
  shows "\<exists>pw h alg blob sig key. ac_pw a = Some pw \<and> p = h # key_fields E alg blob @ string_enc sig \<and> h \<noteq> 0 \<and>
     (quirk E SSH_BUG_PKAUTH \<longrightarrow> (\<exists>rest. blob = string_enc alg @ rest)) \<and>
     decode_key E (so_pubkey_key_types (ae_options E)) alg blob = Some key \<and> \<not> auth2_userkey_already_used E a key \<and>
     fst (ai_user_key_allowed io pw key True) \<and> ae_key_verify E key sig (pubkey_signed E a h alg blob) \<and>
     ac_prev_userkeys a' = ac_prev_userkeys a @ [key] \<and> ac_passed a' = ac_passed a \<and> ac_user a' = ac_user a \<and> ac_service a' = ac_service a \<and>
     ac_style a' = ac_style a \<and> ac_pw a' = ac_pw a"
proof -
  from assms(1) obtain pw h p1 alg blob p2 key sig where f: "ac_pw a = Some pw" "packet_get_char p = Some (h, p1)" "pk_fields E p1 = Some (alg, blob, p2)"
    "decode_key E (so_pubkey_key_types (ae_options E)) alg blob = Some key" "\<not> auth2_userkey_already_used E a key" "h \<noteq> 0" "packet_get_string p2 = Some (sig, [])"
    and v: "fst (ai_user_key_allowed io pw key True)" "ae_key_verify E key sig (pubkey_signed E (a\<lparr>ac_forced_command := snd (ai_user_key_allowed io pw key True)\<rparr>) h alg blob)"
      "a' = auth2_record_userkey (a\<lparr>ac_forced_command := snd (ai_user_key_allowed io pw key True)\<rparr>) key"
    by (auto simp: userauth_pubkey_def Let_def split: option.splits if_splits prod.splits)
  have "p = h # p1" using f(2) by (simp add: packet_get_char_def split: list.splits)
  then have "p = h # key_fields E alg blob @ string_enc sig"
    using pk_fields_Some(1) [OF f(3)] packet_get_string_inv [OF f(7)] by simp
  moreover have "pubkey_signed E (a\<lparr>ac_forced_command := x\<rparr>) h alg blob = pubkey_signed E a h alg blob" for x by (simp add: pubkey_signed_def)
  ultimately show ?thesis using f v pk_fields_Some(2) [OF f(3)]
    by (intro exI [of _ pw] exI [of _ h] exI [of _ alg] exI [of _ blob] exI [of _ sig] exI [of _ key]) (simp add: auth2_record_userkey_def)
qed

lemma begin_keeps:
  assumes "begin_attempt E io user style role service a = Some b"
  shows "ac_prev_userkeys b = ac_prev_userkeys a" "ac_passed b = ac_passed a" "ac_user b = Some user" "ac_service b = Some service"
proof -
  have l: "auth2_setup_methods_lists opt x = Some y \<Longrightarrow> \<exists>ls. y = x\<lparr>ac_auth_methods := ls\<rparr>" for opt x y
    by (auto simp: auth2_setup_methods_lists_def Let_def split: if_splits intro: exI [of _ "ac_auth_methods x"])
  have n: "\<exists>ms. userauth_banner E io x = x\<lparr>ac_sent := ms\<rparr>" for x
    by (auto simp: userauth_banner_def send_msg_def split: option.splits intro: exI [of _ "ac_sent x"])
  have s: "setup_authctxt E io user style role service x = Some y \<Longrightarrow>
      ac_prev_userkeys y = ac_prev_userkeys x \<and> ac_passed y = ac_passed x \<and> ac_user y = Some user \<and> ac_service y = Some service" for x y
  proof -
    assume y: "setup_authctxt E io user style role service x = Some y"
    define pw where "pw = ae_getpwnamallow E user"
    define valid where "valid = (pw \<noteq> None \<and> service = ''ssh-connection'')"
    define z where "z = x\<lparr>ac_user := Some user, ac_pw := (if valid then pw else Some (ae_fakepw E)), ac_valid := (if valid then True else ac_valid x),
        ac_service := Some service, ac_style := style, ac_role := role\<rparr>"
    from y have "auth2_setup_methods_lists (ae_options E) (userauth_banner E io z) = Some y"
      unfolding setup_authctxt_def Let_def pw_def [symmetric] valid_def [symmetric] z_def .
    with l n [of z] obtain ls ms where "y = z\<lparr>ac_sent := ms, ac_auth_methods := ls\<rparr>" by metis
    then show ?thesis by (simp add: z_def)
  qed
  show "ac_prev_userkeys b = ac_prev_userkeys a" "ac_passed b = ac_passed a" "ac_user b = Some user" "ac_service b = Some service"
    using assms s [of "a\<lparr>ac_attempt := ac_attempt a + 1\<rparr>" b] by (auto simp: begin_attempt_def Let_def split: if_splits)
qed

text \<open>The method that passed in a request.\<close>

lemma request_passed:
  assumes "input_userauth_request E io a p = Some a'" "ac_passed a' = ac_passed a @ [(m, s)]"
  obtains n sv mt p' user style role c d am where "p = string_enc n @ string_enc sv @ string_enc mt @ p'" "split_user (cstr_of n) = (user, style, role)" "cstr_of mt = m"
    "authmethod_lookup (ae_options E) c m = Some am" "call_method am E io c p' = Some (True, d)" "userauth_finish E io d True m None = Some a'"
    "ac_prev_userkeys c = ac_prev_userkeys a" "ac_user c = Some user" "ac_service c = Some (cstr_of sv)"
proof -
  from assms(1) obtain name p1 service p2 mth p3 where p: "packet_get_cstring p = Some (name, p1)" "packet_get_cstring p1 = Some (service, p2)"
    "packet_get_cstring p2 = Some (mth, p3)" by (auto simp: input_userauth_request_def split: option.splits)
  from packet_get_cstring_inv [OF p(1)] packet_get_cstring_inv [OF p(2)] packet_get_cstring_inv [OF p(3)] obtain n sv mt where
    w: "p = string_enc n @ string_enc sv @ string_enc mt @ p3" "cstr_of n = name" "cstr_of sv = service" "cstr_of mt = mth" by auto
  obtain user style role where u: "split_user name = (user, style, role)" by (metis prod_cases3)
  from assms(1) p u obtain b where b: "begin_attempt E io user style role service a = Some b" by (auto simp: input_userauth_request_def split: option.splits)
  note k = begin_keeps [OF b]
  define c where "c = (auth2_challenge_stop b)\<lparr>ac_postponed := False, ac_server_caused_failure := False\<rparr>"
  have c: "ac_prev_userkeys c = ac_prev_userkeys a" "ac_user c = Some user" "ac_service c = Some service" "ac_passed c = ac_passed a"
    using k by (simp_all add: c_def auth2_challenge_stop_def)
  define call where "call = (case authmethod_lookup (ae_options E) c mth of
                 Some m \<Rightarrow> if ac_failures c < so_max_authtries (ae_options E) then call_method m E io c p3 else Some (False, c)
               | None \<Rightarrow> Some (False, c))"
  from assms(1) p u b obtain r d where d: "call = Some (r, d)" "userauth_finish E io d r mth None = Some a'"
    unfolding input_userauth_request_def by (auto simp: c_def [symmetric] call_def [symmetric] split: option.splits)
  have "method_ok c r d" using d(1) refused_ok by (auto simp: call_def dest: called.attempt_keeps split: option.splits)
  then have "ac_passed d = ac_passed a" using c(4) by (simp add: method_ok_def same_auth_def)
  with finish_fields(6) [OF d(2)] assms(2) have r: "r" "mth = m" by auto
  with d(1) obtain am where "authmethod_lookup (ae_options E) c m = Some am" "call_method am E io c p3 = Some (True, d)"
    by (auto simp: call_def split: option.splits if_splits)
  with that [OF w(1)] w u r d(2) c show ?thesis by simp
qed

text \<open>Equal signed data means the same session, user, service, algorithm and key.\<close>

lemma string_enc_inj:
  assumes "string_enc x @ p = string_enc y @ q" "length x < 2 ^ 32" "length y < 2 ^ 32"
  shows "x = y \<and> p = q"
proof -
  have "peek_u32 (string_enc x @ p) = peek_u32 (string_enc y @ q)" using assms(1) by simp
  then have "(of_nat (length x) :: 32 word) = of_nat (length y)" by (simp add: string_enc_def)
  then have "length x = length y" using assms(2,3) by (simp add: word_unat_eq_iff unat_of_nat)
  with assms(1) show ?thesis by (simp add: string_enc_def)
qed

definition signed_user :: "authctxt \<Rightarrow> string" where
  "signed_user a = (case ac_user a of None \<Rightarrow> [] | Some u \<Rightarrow> u) @ (case ac_style a of None \<Rightarrow> [] | Some style \<Rightarrow> CHR '':'' # style)"

definition modern :: "auth_env \<Rightarrow> bool" where
  "modern E \<longleftrightarrow> \<not> quirk E SSH_BUG_PKAUTH \<and> \<not> quirk E SSH_OLD_SESSIONID \<and> \<not> quirk E SSH_BUG_PKSERVICE"

lemma pubkey_signed_quirks:
  assumes "ac_service a = Some service"
  shows "pubkey_signed E a h alg blob =
    (if quirk E SSH_OLD_SESSIONID then ae_session_id E else string_enc (ae_session_id E)) @ SSH2_MSG_USERAUTH_REQUEST # put_cstring (signed_user a) @
      put_cstring (if quirk E SSH_BUG_PKSERVICE then ''ssh-userauth'' else service) @
      (if quirk E SSH_BUG_PKAUTH then [h] else put_cstring ''publickey'' @ h # put_cstring (cstr_of alg)) @ string_enc blob"
  using assms by (simp add: pubkey_signed_def quirk_def signed_user_def Let_def)

lemma pubkey_signed_modern:
  assumes "modern E" "ac_service a = Some service"
  shows "pubkey_signed E a h alg blob = string_enc (ae_session_id E) @ SSH2_MSG_USERAUTH_REQUEST # put_cstring (signed_user a) @ put_cstring service @
      put_cstring ''publickey'' @ h # put_cstring (cstr_of alg) @ string_enc blob"
  using assms by (simp add: pubkey_signed_quirks modern_def)

lemma put_cstring_inj:
  assumes "put_cstring x @ p = put_cstring y @ q" "length x < 2 ^ 32" "length y < 2 ^ 32"
  shows "bytes_of x = bytes_of y" "p = q"
  using string_enc_inj [OF assms(1) [unfolded put_cstring_def]] assms(2,3) by (simp_all add: bytes_of_def)

lemma pubkey_signed_inj:
  assumes "pubkey_signed E a h alg blob = pubkey_signed E' a' h' alg' blob'" "modern E" "modern E'" "ac_service a = Some sv" "ac_service a' = Some sv'"
    and len: "length (pubkey_signed E a h alg blob) < 2 ^ 32"
  shows "ae_session_id E = ae_session_id E'" "bytes_of (signed_user a) = bytes_of (signed_user a')" "bytes_of sv = bytes_of sv'" "blob = blob'"
proof -
  note e = pubkey_signed_modern [OF assms(2,4), of h alg blob] pubkey_signed_modern [OF assms(3,5), of h' alg' blob']
  have l: "length (ae_session_id E) < 2 ^ 32" "length (signed_user a) < 2 ^ 32" "length sv < 2 ^ 32" "length (cstr_of alg) < 2 ^ 32" "length blob < 2 ^ 32"
    using len unfolding e(1) by (simp_all add: put_cstring_def bytes_of_def)
  have l': "length (ae_session_id E') < 2 ^ 32" "length (signed_user a') < 2 ^ 32" "length sv' < 2 ^ 32" "length (cstr_of alg') < 2 ^ 32" "length blob' < 2 ^ 32"
    using len unfolding assms(1) e(2) by (simp_all add: put_cstring_def bytes_of_def)
  from string_enc_inj [OF assms(1) [unfolded e] l(1) l'(1)] have 1: "ae_session_id E = ae_session_id E'"
    "put_cstring (signed_user a) @ put_cstring sv @ put_cstring ''publickey'' @ h # put_cstring (cstr_of alg) @ string_enc blob =
     put_cstring (signed_user a') @ put_cstring sv' @ put_cstring ''publickey'' @ h' # put_cstring (cstr_of alg') @ string_enc blob'" by simp_all
  note 2 = put_cstring_inj [OF 1(2) l(2) l'(2)]
  note 3 = put_cstring_inj [OF 2(2) l(3) l'(3)]
  from put_cstring_inj(2) [OF 3(2)] have "put_cstring (cstr_of alg) @ string_enc blob = put_cstring (cstr_of alg') @ string_enc blob'" by simp
  from put_cstring_inj(2) [OF this l(4) l'(4)] have "string_enc blob @ [] = string_enc blob' @ []" by simp
  from string_enc_inj [OF this l(5) l'(5)] show "blob = blob'" by simp
  show "ae_session_id E = ae_session_id E'" "bytes_of (signed_user a) = bytes_of (signed_user a')" "bytes_of sv = bytes_of sv'" using 1(1) 2(1) 3(1) by simp_all
qed

section \<open>A small run\<close>

definition demo_options :: server_options where
  "demo_options = \<lparr>so_auth_methods = [''hostbased'', ''publickey,password''], so_max_authtries = 6, so_permit_root_login = PERMIT_NO, so_permit_empty_passwd = False,
     so_password_authentication = True, so_pubkey_authentication = True, so_hostbased_authentication = False, so_kbd_interactive_authentication = True,
     so_challenge_response_authentication = True, so_pubkey_key_types = ''*'', so_hostbased_key_types = ''*'', so_banner = False, so_use_pam = False\<rparr>"

definition demo_auth :: auth_env where
  "demo_auth = \<lparr>ae_options = demo_options, ae_state = \<lparr>compat13 = False, compat20 = True, datafellows = 0\<rparr>, ae_build = full_build, ae_session_id = [9, 9], ae_devices = [''pam''],
     ae_getpwnamallow = (\<lambda>u. if u = ''al'' then Some \<lparr>pw_name = u, pw_uid = 1000\<rparr> else None), ae_fakepw = \<lparr>pw_name = ''NOUSER'', pw_uid = 65535\<rparr>, ae_key_from_blob = (\<lambda>b. Some \<lparr>sk_type = KEY_ED25519, sk_nid = NID_0, sk_numbers = b\<rparr>),
     ae_key_equal = (=), ae_key_verify = (\<lambda>key sig data. sig = [7])\<rparr>"

definition demo_auth_io :: auth_io where
  "demo_auth_io = \<lparr>ai_banner = None, ai_sys_auth_passwd = (\<lambda>pw p. p = ''x''),
     ai_user_key_allowed = (\<lambda>pw key sig. (True, False)), ai_hostbased_key_allowed = (\<lambda>pw u h key. False), ai_init_ctx = (\<lambda>d. True),
     ai_query = (\<lambda>d. Some (''pam'', [], [(''Password'', False)])), ai_respond = (\<lambda>d rs. 2), ai_pam_account = True\<rparr>"

definition demo_request :: "string \<Rightarrow> byte list \<Rightarrow> byte list" where
  "demo_request m rest = put_cstring ''al'' @ put_cstring ''ssh-connection'' @ put_cstring m @ rest"

definition demo_pk :: "byte list" where
  "demo_pk = demo_request ''publickey'' (1 # put_cstring ''ssh-ed25519'' @ string_enc [5] @ string_enc [7])"

definition demo_pass :: "byte list" where
  "demo_pass = demo_request ''password'' (0 # put_cstring ''x'')"

definition demo_key :: sshkey where "demo_key = \<lparr>sk_type = KEY_ED25519, sk_nid = NID_0, sk_numbers = [5]\<rparr>"

definition demo_auth1 :: authctxt where
  "demo_auth1 = new_authctxt\<lparr>ac_userauth_request := Handle, ac_sent := [SSH2_MSG_SERVICE_ACCEPT ''ssh-userauth'']\<rparr>"

definition demo_auth2 :: authctxt where
  "demo_auth2 = demo_auth1\<lparr>ac_attempt := 1, ac_valid := True, ac_user := Some ''al'', ac_service := Some ''ssh-connection'', ac_pw := Some \<lparr>pw_name = ''al'', pw_uid = 1000\<rparr>,
     ac_auth_methods := [''password''], ac_prev_userkeys := [demo_key], ac_passed := [(''publickey'', None)],
     ac_sent := [SSH2_MSG_SERVICE_ACCEPT ''ssh-userauth'', SSH2_MSG_USERAUTH_FAILURE ''password'' True]\<rparr>"

definition demo_auth3 :: authctxt where
  "demo_auth3 = demo_auth2\<lparr>ac_attempt := 2, ac_auth_methods := [[]], ac_passed := [(''publickey'', None), (''password'', None)], ac_success := True,
     ac_userauth_request := Ignore,
     ac_sent := [SSH2_MSG_SERVICE_ACCEPT ''ssh-userauth'', SSH2_MSG_USERAUTH_FAILURE ''password'' True, SSH2_MSG_USERAUTH_SUCCESS]\<rparr>"

lemma get_string_put: "length d \<le> SSHBUF_SIZE_MAX - 4 \<Longrightarrow> packet_get_string (string_enc d @ p) = Some (d, p)"
  by (simp add: packet_get_string_def string_enc_def unat_of_nat SSHBUF_SIZE_MAX_def)

lemma get_cstring_put:
  assumes "CHR 0x00 \<notin> set s" "length s \<le> SSHBUF_SIZE_MAX - 4"
  shows "packet_get_cstring (put_cstring s @ p) = Some (s, p)" "packet_get_cstring (put_cstring s) = Some (s, [])"
    "packet_get_string (put_cstring s @ p) = Some (bytes_of s, p)" "packet_get_string (put_cstring s) = Some (bytes_of s, [])"
  using get_string_put [of "bytes_of s"] packet_get_string_enc [of "bytes_of s"] cstr_of_bytes_of [OF assms(1)] assms(2)
  by (auto simp: packet_get_cstring_def put_cstring_def bytes_of_def dest: in_set_butlastD)

lemma demo_evals:
  "auth2_methods_valid demo_options True ''publickey,password'' True" "\<not> auth2_methods_valid demo_options True ''hostbased'' True"
  "sshkey_type_from_name full_build ''ssh-ed25519'' = KEY_ED25519" "match_pattern_list ''ssh-ed25519'' ''*'' False = 1"
  "sshkey_ssh_name_from_type_nid full_build KEY_ED25519 NID_0 = Some ''ssh-ed25519''"
  "split_user ''al'' = (''al'', None, None)"
  "update_loop ''publickey'' None False [''publickey,password''] = (False, True, [''password''])" "update_loop ''password'' None False [''password''] = (True, True, [[]])"
  "list_starts_with ''publickey,password'' ''publickey'' None = MATCH_METHOD" "list_starts_with ''password'' ''password'' None = MATCH_METHOD"
  "list_starts_with ''password'' ''publickey'' None = MATCH_NONE" "list_starts_with ''password'' ''keyboard-interactive'' None = MATCH_NONE"
  by code_simp+

lemma demo_step1: "input_service_request new_authctxt (put_cstring ''ssh-userauth'') = Some demo_auth1"
  by (simp add: input_service_request_def get_cstring_put SSHBUF_SIZE_MAX_def demo_auth1_def new_authctxt_def send_msg_def)

lemma demo_decode: "decode_key demo_auth ''*'' (bytes_of ''ssh-ed25519'') [5] = Some demo_key"
  by (simp add: decode_key_def demo_auth_def demo_key_def cstr_of_bytes_of demo_evals)

lemma demo_begin: "begin_attempt demo_auth demo_auth_io ''al'' None None ''ssh-connection'' demo_auth1 =
    Some (demo_auth1\<lparr>ac_attempt := 1, ac_valid := True, ac_user := Some ''al'', ac_service := Some ''ssh-connection'', ac_pw := Some \<lparr>pw_name = ''al'', pw_uid = 1000\<rparr>,
     ac_auth_methods := [''publickey,password'']\<rparr>)"
  using demo_evals(1,2)
  by (simp add: begin_attempt_def setup_authctxt_def auth2_setup_methods_lists_def userauth_banner_def demo_auth_def demo_auth_io_def demo_auth1_def new_authctxt_def
      demo_options_def)

lemma demo_step2: "input_userauth_request demo_auth demo_auth_io demo_auth1 demo_pk = Some demo_auth2"
proof -
  let ?b = "demo_auth1\<lparr>ac_attempt := 1, ac_valid := True, ac_user := Some ''al'', ac_service := Some ''ssh-connection'', ac_pw := Some \<lparr>pw_name = ''al'', pw_uid = 1000\<rparr>,
     ac_auth_methods := [''publickey,password'']\<rparr>"
  let ?c = "(auth2_challenge_stop ?b)\<lparr>ac_postponed := False, ac_server_caused_failure := False\<rparr>"
  let ?rest = "1 # put_cstring ''ssh-ed25519'' @ string_enc [5] @ string_enc [7]"
  have c: "?c = ?b" by (simp add: auth2_challenge_stop_def demo_auth1_def new_authctxt_def)
  have l: "authmethod_lookup demo_options ?b ''publickey'' = Some Method_pubkey"
    by (simp add: authmethod_lookup_def authmethods_def auth2_method_allowed_def demo_options_def demo_evals)
  have k: "userauth_pubkey demo_auth demo_auth_io ?b ?rest = Some (True, ?b\<lparr>ac_prev_userkeys := [demo_key]\<rparr>)"
    using demo_decode
    by (simp add: userauth_pubkey_def pk_fields_def get_cstring_put get_string_put packet_get_string_enc SSHBUF_SIZE_MAX_def demo_auth_def demo_options_def
        auth2_userkey_already_used_def auth2_record_userkey_def demo_auth_io_def demo_auth1_def new_authctxt_def)
  have f: "userauth_finish demo_auth demo_auth_io (?b\<lparr>ac_prev_userkeys := [demo_key]\<rparr>) True ''publickey'' None = Some demo_auth2"
    by (simp add: userauth_finish_def auth2_update_methods_lists_def demo_auth_def demo_options_def demo_evals userauth_reply_def authmethods_get_def authmethods_def
        auth2_method_allowed_def send_msg_def demo_auth1_def demo_auth2_def new_authctxt_def del: update_loop.simps)
  have o: "ae_options demo_auth = demo_options" "ac_failures ?b < so_max_authtries demo_options"
    by (simp_all add: demo_auth_def demo_options_def demo_auth1_def new_authctxt_def)
  show ?thesis unfolding input_userauth_request_def demo_pk_def demo_request_def
    using l k f o by (simp add: get_cstring_put SSHBUF_SIZE_MAX_def demo_evals(6) demo_begin c)
qed

lemma demo_step3: "input_userauth_request demo_auth demo_auth_io demo_auth2 demo_pass = Some demo_auth3"
proof -
  let ?b = "demo_auth2\<lparr>ac_attempt := 2\<rparr>"
  let ?c = "(auth2_challenge_stop ?b)\<lparr>ac_postponed := False, ac_server_caused_failure := False\<rparr>"
  have b: "begin_attempt demo_auth demo_auth_io ''al'' None None ''ssh-connection'' demo_auth2 = Some ?b"
    by (simp add: begin_attempt_def demo_auth2_def)
  have c: "?c = ?b" by (simp add: auth2_challenge_stop_def demo_auth2_def demo_auth1_def new_authctxt_def)
  have l: "authmethod_lookup demo_options ?b ''password'' = Some Method_passwd"
    by (simp add: authmethod_lookup_def authmethods_def auth2_method_allowed_def demo_options_def demo_auth2_def demo_evals)
  have k: "userauth_passwd demo_auth demo_auth_io ?b (0 # put_cstring ''x'') = Some (True, ?b)"
    by (simp add: userauth_passwd_def get_cstring_put SSHBUF_SIZE_MAX_def packet_check_eom_def auth_password_def cstr_of_bytes_of demo_auth_def demo_options_def
        demo_auth_io_def demo_auth2_def MAX_PASSWORD_LEN_def)
  have f: "userauth_finish demo_auth demo_auth_io ?b True ''password'' None = Some demo_auth3"
    by (simp add: userauth_finish_def auth2_update_methods_lists_def demo_auth_def demo_options_def demo_evals userauth_reply_def send_msg_def demo_auth1_def demo_auth2_def
        demo_auth3_def new_authctxt_def del: update_loop.simps)
  have o: "ae_options demo_auth = demo_options" "ac_failures ?b < so_max_authtries demo_options"
    by (simp_all add: demo_auth_def demo_options_def demo_auth2_def demo_auth1_def new_authctxt_def)
  show ?thesis unfolding input_userauth_request_def demo_pass_def demo_request_def
    using l k f o b by (simp add: get_cstring_put SSHBUF_SIZE_MAX_def demo_evals(6) c)
qed

lemma demo_auth_run: "auth_run demo_auth demo_auth1" "auth_run demo_auth demo_auth2" "auth_run demo_auth demo_auth3"
proof -
  show r1: "auth_run demo_auth demo_auth1" by (rule auth_run.service [OF auth_run.start _ demo_step1]) (simp add: new_authctxt_def)
  show r2: "auth_run demo_auth demo_auth2"
    by (rule auth_run.request [OF r1 _ _ demo_step2]) (simp_all add: demo_auth1_def new_authctxt_def)
  show "auth_run demo_auth demo_auth3"
    by (rule auth_run.request [OF r2 _ _ demo_step3]) (simp_all add: demo_auth2_def demo_auth1_def new_authctxt_def)
qed

lemma demo_plain: "plain_devices demo_auth"
  by (simp add: plain_devices_def demo_auth_def)

text \<open>The same server without lists, where a device is asked.\<close>

definition demo_kbd :: auth_env where "demo_kbd = demo_auth\<lparr>ae_options := demo_options\<lparr>so_auth_methods := []\<rparr>\<rparr>"

definition demo_device :: kbdint where
  "demo_device = \<lparr>kb_devices = None, kb_ctxt = False, kb_device = Some 0, kb_nreq = 0, kb_devices_done = 1\<rparr>"

definition demo_asked :: authctxt where
  "demo_asked = demo_auth1\<lparr>ac_attempt := 1, ac_valid := True, ac_user := Some ''al'', ac_service := Some ''ssh-connection'', ac_pw := Some \<lparr>pw_name = ''al'', pw_uid = 1000\<rparr>,
     ac_kbdintctxt := Some (demo_device\<lparr>kb_ctxt := True, kb_nreq := 1\<rparr>), ac_info_response := True, ac_postponed := True,
     ac_sent := [SSH2_MSG_SERVICE_ACCEPT ''ssh-userauth'', SSH2_MSG_USERAUTH_INFO_REQUEST ''pam'' [] [(''Password'', False)]]\<rparr>"

lemma demo_next: "kbdint_next_device demo_kbd a (kbdint_alloc demo_kbd []) = (True, demo_device)"
  by (simp add: kbdint_next_device_def kbdint_alloc_def demo_kbd_def demo_auth_def next_device_loop.simps auth2_method_allowed_def prefixed_def demo_device_def)

lemma demo_step_kbd:
  "input_userauth_request demo_kbd demo_auth_io demo_auth1 (demo_request ''keyboard-interactive'' (put_cstring [] @ put_cstring [])) = Some demo_asked"
proof -
  let ?b = "demo_auth1\<lparr>ac_attempt := 1, ac_valid := True, ac_user := Some ''al'', ac_service := Some ''ssh-connection'', ac_pw := Some \<lparr>pw_name = ''al'', pw_uid = 1000\<rparr>\<rparr>"
  let ?c = "(auth2_challenge_stop ?b)\<lparr>ac_postponed := False, ac_server_caused_failure := False\<rparr>"
  have b: "begin_attempt demo_kbd demo_auth_io ''al'' None None ''ssh-connection'' demo_auth1 = Some ?b"
    by (simp add: begin_attempt_def setup_authctxt_def auth2_setup_methods_lists_def userauth_banner_def demo_kbd_def demo_auth_def demo_options_def demo_auth_io_def
        demo_auth1_def new_authctxt_def)
  have c: "?c = ?b" by (simp add: auth2_challenge_stop_def demo_auth1_def new_authctxt_def)
  have l: "authmethod_lookup (ae_options demo_kbd) ?b ''keyboard-interactive'' = Some Method_kbdint" "ac_failures ?b < so_max_authtries (ae_options demo_kbd)"
    by (simp_all add: authmethod_lookup_def authmethods_def auth2_method_allowed_def demo_kbd_def demo_options_def demo_auth1_def new_authctxt_def)
  have e: "ae_devices demo_kbd = [''pam'']" "so_challenge_response_authentication (ae_options demo_kbd)" by (simp_all add: demo_kbd_def demo_auth_def demo_options_def)
  have s: "auth2_challenge_start demo_kbd demo_auth_io (kbdint_alloc demo_kbd []) ?b = demo_asked"
    unfolding auth2_challenge_start_def demo_next
    by (simp add: e demo_device_def send_userauth_info_request_def demo_auth_io_def send_msg_def demo_asked_def demo_auth1_def new_authctxt_def)
  have k: "userauth_kbdint demo_kbd demo_auth_io ?b (put_cstring [] @ put_cstring []) = Some (False, demo_asked)"
    using s by (simp add: userauth_kbdint_def get_cstring_put SSHBUF_SIZE_MAX_def packet_check_eom_def auth2_challenge_def cstr_of_bytes_of e
        demo_auth1_def new_authctxt_def)
  have f: "userauth_finish demo_kbd demo_auth_io demo_asked False ''keyboard-interactive'' None = Some demo_asked"
    by (simp add: userauth_finish_def demo_asked_def)
  show ?thesis unfolding input_userauth_request_def demo_request_def
    using l k f b by (simp add: get_cstring_put SSHBUF_SIZE_MAX_def demo_evals(6) c)
qed

lemma demo_kbd_run: "auth_run demo_kbd demo_asked"
proof -
  have "auth_run demo_kbd demo_auth1" by (rule auth_run.service [OF auth_run.start _ demo_step1]) (simp add: new_authctxt_def)
  then show ?thesis by (rule auth_run.request [OF _ _ _ demo_step_kbd]) (simp_all add: demo_auth1_def new_authctxt_def)
qed

section \<open>Odd corners\<close>

text \<open>A list that gives a submethod to a method that has none is accepted and offered, but the success of the method ends the connection.\<close>

lemma submethod_never_passes:
  assumes "so_pubkey_authentication opt" "so_auth_methods opt = [''publickey:x'']" "ac_auth_methods a = [''publickey:x'']"
  shows "auth2_methods_valid opt none ''publickey:x'' True" "auth2_method_allowed opt a ''publickey'' None" "auth2_update_methods_lists a ''publickey'' None = None"
proof -
  have t: "tokens is_comma (Some ''publickey:x'') = [''publickey:x'']" by code_simp
  show "auth2_methods_valid opt none ''publickey:x'' True" using assms(1) by (simp add: auth2_methods_valid_def t authmethods_def)
  have "list_starts_with ''publickey:x'' ''publickey'' None = MATCH_PARTIAL" by code_simp
  then show "auth2_method_allowed opt a ''publickey'' None" using assms(3) by (simp add: auth2_method_allowed_def)
  have "update_loop ''publickey'' None False [''publickey:x''] = (False, False, [''publickey:x''])" by code_simp
  then show "auth2_update_methods_lists a ''publickey'' None = None" using assms(3) by (simp add: auth2_update_methods_lists_def del: update_loop.simps)
qed

text \<open>The style of a user is signed by public key authentication but not by host based authentication, the role by neither.\<close>

lemma style_not_signed:
  "hostbased_signed E (a\<lparr>ac_style := st\<rparr>) alg blob chost cuser = hostbased_signed E a alg blob chost cuser"
  "pubkey_signed E (a\<lparr>ac_role := r\<rparr>) h alg blob = pubkey_signed E a h alg blob"
  by (simp_all add: hostbased_signed_def pubkey_signed_def)

text \<open>Host based authentication does not look at what follows the signature.\<close>

lemma hostbased_trailing:
  assumes "list_all (\<lambda>x. length x \<le> SSHBUF_SIZE_MAX - 4) [alg, blob, chost, cuser, sig]"
  shows "userauth_hostbased E io a (string_enc alg @ string_enc blob @ string_enc chost @ string_enc cuser @ string_enc sig @ x) =
    userauth_hostbased E io a (string_enc alg @ string_enc blob @ string_enc chost @ string_enc cuser @ string_enc sig)"
  using assms by (cases "ac_pw a"; cases "ac_valid a") (simp_all add: userauth_hostbased_def get_string_put packet_get_string_enc)

section \<open>Properties\<close>

text \<open>C19: whoever the server lets in was entitled to it.  In every run of the handlers of user authentication, whatever requests and responses a client
  sends, success means that the account database has an account, which may log in, for the user of the first request, that the service is
  ssh-connection, and that at least one method succeeded; if lists of methods are configured, the methods that succeeded contain, in order, all
  items of one of the lists whose methods are enabled.  If the account is that of root, the configuration permits it: not at all with
  PermitRootLogin no; only by public keys and host keys (and GSSAPI) with prohibit-password; and with forced-commands-only a command is forced, and a
  public key is among the methods that succeeded.  (The names of devices contain no comma.)\<close>

theorem login_is_entitled:
  assumes "auth_run E a" "plain_devices E" "ac_success a"
  shows "(\<exists>user pw. ac_user a = Some user \<and> ae_getpwnamallow E user = Some pw \<and> ac_pw a = Some pw) \<and>
    ac_service a = Some ''ssh-connection'' \<and> ac_passed a \<noteq> [] \<and>
    (so_auth_methods (ae_options E) \<noteq> [] \<longrightarrow>
       (\<exists>l hs. l \<in> set (so_auth_methods (ae_options E)) \<and> auth2_methods_valid (ae_options E) True l True \<and>
          subseq hs (ac_passed a) \<and> list_all2 passes hs (tokens is_comma (Some l)))) \<and>
    (map_option pw_uid (ac_pw a) = Some 0 \<longrightarrow>
       (case so_permit_root_login (ae_options E) of
          PERMIT_NO \<Rightarrow> False
        | PERMIT_FORCED_ONLY \<Rightarrow> ac_forced_command a \<and> (''publickey'', None) \<in> set (ac_passed a)
        | PERMIT_NO_PASSWD \<Rightarrow> list_all (\<lambda>h. fst h \<in> {''publickey'', ''hostbased'', ''gssapi-with-mic'', ''gssapi-keyex''}) (ac_passed a)
        | PERMIT_YES \<Rightarrow> True))"
proof -
  have i: "auth_inv E a" using run_auth_inv [OF assms(1,2)] by simp
  have "\<exists>l hs. l \<in> set (so_auth_methods (ae_options E)) \<and> auth2_methods_valid (ae_options E) True l True \<and> subseq hs (ac_passed a) \<and>
      list_all2 passes hs (tokens is_comma (Some l))" if "so_auth_methods (ae_options E) \<noteq> []"
  proof -
    from i assms(3) that obtain l where l: "l \<in> set (method_lists E)" "completed (ac_passed a) l" by (auto simp: auth_inv_def list_ex_iff)
    from l(2) obtain hs where "subseq hs (ac_passed a)" "list_all2 passes hs (items l)" by (auto simp: completed_def)
    moreover have "auth2_methods_valid (ae_options E) True l True" "l \<in> set (so_auth_methods (ae_options E))" using l(1) by (simp_all add: method_lists_def)
    moreover from this have "items l = tokens is_comma (Some l)" by (simp add: items_def auth2_methods_valid_def)
    ultimately show ?thesis by auto
  qed
  moreover have "case so_permit_root_login (ae_options E) of PERMIT_NO \<Rightarrow> False
      | PERMIT_FORCED_ONLY \<Rightarrow> ac_forced_command a \<and> (''publickey'', None) \<in> set (ac_passed a)
      | PERMIT_NO_PASSWD \<Rightarrow> list_all (\<lambda>h. fst h \<in> {''publickey'', ''hostbased'', ''gssapi-with-mic'', ''gssapi-keyex''}) (ac_passed a)
      | PERMIT_YES \<Rightarrow> True" if "map_option pw_uid (ac_pw a) = Some 0"
  proof -
    have "ac_passed a \<noteq> []" "\<forall>h \<in> set (ac_passed a). root_method (ae_options E) (fst h)" using i assms(3) that by (simp_all add: auth_inv_def)
    moreover from this have "root_method (ae_options E) (fst (last (ac_passed a)))" by simp
    ultimately show ?thesis using run_forced [OF assms(1,2)] assms(3) that
      by (cases "so_permit_root_login (ae_options E)") (auto simp: root_method_def forced_inv_def list_all_iff)
  qed
  moreover have "ac_passed a \<noteq> []" "ac_service a = Some ''ssh-connection''"
    "\<exists>user pw. ac_user a = Some user \<and> ae_getpwnamallow E user = Some pw \<and> ac_pw a = Some pw" using i assms(3) by (simp_all add: auth_inv_def)
  ultimately show ?thesis by blast
qed

theorem login_is_entitled_witness:
  "ac_success demo_auth3 \<and> (\<exists>l hs. l \<in> set (so_auth_methods demo_options) \<and> subseq hs [(''publickey'', None), (''password'', None)] \<and>
     list_all2 passes hs (tokens is_comma (Some l)))"
proof -
  have s: "ac_success demo_auth3" "ac_passed demo_auth3 = [(''publickey'', None), (''password'', None)]" by (simp_all add: demo_auth3_def)
  have o: "ae_options demo_auth = demo_options" "so_auth_methods demo_options \<noteq> []" by (simp_all add: demo_auth_def demo_options_def)
  from login_is_entitled [OF demo_auth_run(3) demo_plain s(1)] s o show ?thesis by auto
qed

text \<open>C20: a public key lets a user pass only with a signature for this very login.  When a request makes the method publickey pass, the packet
  consists of user, service, method, a nonzero byte, algorithm, key and signature; the key is of an accepted type, allowed for the account, and
  was not used before; and the signature was verified with it over the identifier of the session, the user and style, the service, the
  method, the algorithm and the key itself.  Clients whose version has old quirks differ as follows: with SSH_BUG_PKAUTH neither the packet nor the
  signed data has the algorithm, which is the first string of the key, nor the signed data the method; with SSH_OLD_SESSIONID the identifier
  is signed without its length; with SSH_BUG_PKSERVICE the service that is signed is always ssh-userauth.\<close>

theorem publickey_login_signed:
  assumes "input_userauth_request E io a p = Some a'" "ac_passed a' = ac_passed a @ [(''publickey'', s)]"
  shows "\<exists>n sv mt h alg blob sig key pw.
    p = string_enc n @ string_enc sv @ string_enc mt @ h # (if quirk E SSH_BUG_PKAUTH then [] else string_enc alg) @ string_enc blob @ string_enc sig \<and>
    (quirk E SSH_BUG_PKAUTH \<longrightarrow> (\<exists>rest. blob = string_enc alg @ rest)) \<and> h \<noteq> 0 \<and>
    ac_user a' = Some (fst (split_user (cstr_of n))) \<and> ac_service a' = Some (cstr_of sv) \<and> cstr_of mt = ''publickey'' \<and>
    decode_key E (so_pubkey_key_types (ae_options E)) alg blob = Some key \<and> ac_pw a' = Some pw \<and> fst (ai_user_key_allowed io pw key True) \<and>
    list_all (\<lambda>k. \<not> ae_key_equal E key k) (ac_prev_userkeys a) \<and> ac_prev_userkeys a' = ac_prev_userkeys a @ [key] \<and>
    ae_key_verify E key sig
      ((if quirk E SSH_OLD_SESSIONID then ae_session_id E else string_enc (ae_session_id E)) @ SSH2_MSG_USERAUTH_REQUEST # put_cstring (signed_user a') @
       put_cstring (if quirk E SSH_BUG_PKSERVICE then ''ssh-userauth'' else cstr_of sv) @
       (if quirk E SSH_BUG_PKAUTH then [h] else put_cstring ''publickey'' @ h # put_cstring (cstr_of alg)) @ string_enc blob)"
proof (rule request_passed [OF assms(1,2)])
  fix n sv mt p' user style role c d am
  assume w: "p = string_enc n @ string_enc sv @ string_enc mt @ p'" "split_user (cstr_of n) = (user, style, role)" "cstr_of mt = ''publickey''"
    and m: "authmethod_lookup (ae_options E) c ''publickey'' = Some am" "call_method am E io c p' = Some (True, d)" "userauth_finish E io d True ''publickey'' None = Some a'"
    and c: "ac_prev_userkeys c = ac_prev_userkeys a" "ac_user c = Some user" "ac_service c = Some (cstr_of sv)"
  have "am = Method_pubkey" using m(1) by (auto simp: authmethod_lookup_def authmethods_def split: if_splits)
  with m(2) have k: "userauth_pubkey E io c p' = Some (True, d)" by simp
  from pubkey_success [OF k] obtain pw h alg blob sig key where s: "ac_pw c = Some pw" "p' = h # key_fields E alg blob @ string_enc sig" "h \<noteq> 0"
    "decode_key E (so_pubkey_key_types (ae_options E)) alg blob = Some key" "\<not> auth2_userkey_already_used E c key"
    "fst (ai_user_key_allowed io pw key True)" "ae_key_verify E key sig (pubkey_signed E c h alg blob)"
    "ac_prev_userkeys d = ac_prev_userkeys c @ [key]" "ac_user d = ac_user c" "ac_service d = ac_service c" "ac_style d = ac_style c" "ac_pw d = ac_pw c"
    "quirk E SSH_BUG_PKAUTH \<longrightarrow> (\<exists>rest. blob = string_enc alg @ rest)"
    by blast
  note f = finish_fields [OF m(3)]
  have u: "signed_user a' = signed_user c" using s(9,11) f(1,3) by (simp add: signed_user_def)
  have v: "list_all (\<lambda>k. \<not> ae_key_equal E key k) (ac_prev_userkeys a)" using s(5) c(1) by (simp add: auth2_userkey_already_used_def list_ex_iff list_all_iff)
  note q = s(7) [unfolded pubkey_signed_quirks [OF c(3)] u [symmetric]]
  have x: "p = string_enc n @ string_enc sv @ string_enc mt @ h # (if quirk E SSH_BUG_PKAUTH then [] else string_enc alg) @ string_enc blob @ string_enc sig"
    using w(1) s(2) by (simp add: key_fields_def)
  have y: "ac_user a' = Some (fst (split_user (cstr_of n)))" "ac_service a' = Some (cstr_of sv)" "ac_pw a' = Some pw" "ac_prev_userkeys a' = ac_prev_userkeys a @ [key]"
    using w(2) s c f by simp_all
  from x s(13,3) y(1,2) w(3) s(4) y(3) s(6) v y(4) q show ?thesis by blast
qed

theorem publickey_login_signed_witness:
  "ac_passed demo_auth2 = [(''publickey'', None)] \<and>
   (\<exists>n sv mt h alg blob sig. demo_pk = string_enc n @ string_enc sv @ string_enc mt @ h # string_enc alg @ string_enc blob @ string_enc sig \<and> h \<noteq> 0 \<and> cstr_of mt = ''publickey'')"
proof -
  have p: "ac_passed demo_auth2 = ac_passed demo_auth1 @ [(''publickey'', None)]" by (simp add: demo_auth2_def demo_auth1_def new_authctxt_def)
  have q: "\<not> quirk demo_auth SSH_BUG_PKAUTH" by (simp add: quirk_def demo_auth_def)
  have "ac_passed demo_auth2 = [(''publickey'', None)]" by (simp add: demo_auth2_def)
  with publickey_login_signed [OF demo_step2 p] q show ?thesis by (simp only: if_False simp_thms) blast
qed

text \<open>C21: guesses are limited.  In every run, the server refuses at most as many attempts as MaxAuthTries says before it ends the connection, counting
  every failure that is not the partial success of a list.  Every request and every response that is refused so raises the count of
  failures by one, except that a first request for the method none does not; one that is not refused leaves the count alone.  MaxAuthTries
  is at least one, and the names of devices contain no comma.\<close>

theorem failures_limited:
  assumes "auth_run E a" "plain_devices E" "0 < so_max_authtries (ae_options E)"
  shows "ac_failures a < so_max_authtries (ae_options E) \<and> count_failures a \<le> ac_failures a + 1 \<and> count_failures a \<le> so_max_authtries (ae_options E) \<and>
    (\<forall>io p a'. \<not> ac_success a \<and> input_userauth_request E io a p = Some a' \<longrightarrow>
       ac_failures a' - ac_failures a = (if ac_attempt a = 0 \<and> request_method p = Some ''none'' then 0 else count_failures a' - count_failures a)) \<and>
    (\<forall>io p a'. \<not> ac_success a \<and> ac_info_response a \<and> input_userauth_info_response E io a p = Some a' \<longrightarrow>
       ac_failures a' - ac_failures a = count_failures a' - count_failures a)"
proof -
  have t: "tries_inv E a" using run_tries [OF assms] .
  then have "\<not> ac_server_caused_failure a" by (simp add: tries_inv_def)
  note c = request_counts [OF assms(1,2)] info_counts [OF assms(1,2) this]
  have "ac_failures a < so_max_authtries (ae_options E)" "count_failures a \<le> ac_failures a + 1" "count_failures a \<le> so_max_authtries (ae_options E)"
    using t by (auto simp: tries_inv_def split: if_splits)
  with c show ?thesis by blast
qed

theorem failures_limited_witness:
  "auth_run demo_auth demo_auth2 \<and> count_failures demo_auth2 \<le> 6"
  using failures_limited [OF demo_auth_run(2) demo_plain] demo_auth_run(2) by (simp add: demo_auth_def demo_options_def)

text \<open>C22: a keyboard-interactive device is asked once per request.  In every run in which responses are accepted, there is a device with a context
  that waits for them, so the handler never meets its internal errors; and the device that a wrong response leads to is none
  that was started before in this request, so wrong responses come to an end.\<close>

theorem devices_asked_once:
  assumes "auth_run E a" "plain_devices E" "ac_info_response a" "length (ae_devices E) \<le> 32"
  shows "\<exists>k i. ac_kbdintctxt a = Some k \<and> kb_ctxt k \<and> kb_device k = Some i \<and> i < length (ae_devices E) \<and> bit (kb_devices_done k) i \<and>
    (\<forall>found k' j. kbdint_next_device E a k = (found, k') \<and> kb_device k' = Some j \<longrightarrow>
       j < length (ae_devices E) \<and> j \<noteq> i \<and> \<not> bit (kb_devices_done k) j \<and> bit (kb_devices_done k') j \<and>
       (\<forall>n. bit (kb_devices_done k) n \<longrightarrow> bit (kb_devices_done k') n))"
proof -
  from run_auth_inv [OF assms(1,2)] assms(3,4) obtain k i where k: "ac_kbdintctxt a = Some k" "kb_ctxt k" "kb_device k = Some i" "i < length (ae_devices E)"
    "bit (kb_devices_done k) i" by (auto simp: device_inv_def)
  have "j < length (ae_devices E) \<and> j \<noteq> i \<and> \<not> bit (kb_devices_done k) j \<and> bit (kb_devices_done k') j \<and> (\<forall>n. bit (kb_devices_done k) n \<longrightarrow> bit (kb_devices_done k') n)"
    if "kbdint_next_device E a k = (found, k')" "kb_device k' = Some j" for found k' j
    using kbdint_next_fresh [OF that(1)] that(2) k(5) assms(4) by (auto simp: fresh_device_def)
  with k show ?thesis by blast
qed

theorem devices_asked_once_witness:
  "\<exists>k i. ac_kbdintctxt demo_asked = Some k \<and> kb_device k = Some i \<and> i < 1 \<and> bit (kb_devices_done k) i"
proof -
  have "plain_devices demo_kbd" "ac_info_response demo_asked" "length (ae_devices demo_kbd) = 1"
    by (simp_all add: plain_devices_def demo_kbd_def demo_auth_def demo_asked_def)
  with devices_asked_once [OF demo_kbd_run] show ?thesis by auto
qed

end
