(* ===== verification/Fvd_List.thy ===== *)
theory Fvd_List
  imports SSH_Base
begin

text \<open>
  The doubly linked list of the video detector, \<^verbatim>\<open>src/fvd-new/common.c\<close>.  The nodes live in a heap, a map from
  addresses to nodes in which a released node is \<^term>\<open>None\<close>; the data of a node is kept in the node.
  Reading or writing through a null pointer or a released node is undefined behaviour of the C code and
  the result \<^term>\<open>None\<close>.  The address that \<open>malloc\<close> returns is an argument (it may be one that was released
  before); each operation is one step, as they hold the lock of the list.
\<close>

section \<open>Operations\<close>

record 'a m_node =
  nd_data :: 'a
  nd_pre :: "nat option"
  nd_next :: "nat option"

record 'a m_list_info =
  li_heap :: "nat \<Rightarrow> 'a m_node option"
  li_head :: "nat option"
  li_tail :: "nat option"
  li_cur :: "nat option"
  li_number :: int

text \<open>Access to a node through a pointer, and the allocation, update and release of one.\<close>

definition nd_get :: "'a m_list_info \<Rightarrow> nat option \<Rightarrow> 'a m_node option" where
  "nd_get l p = (case p of None \<Rightarrow> None | Some a \<Rightarrow> li_heap l a)"

definition nd_put :: "nat \<Rightarrow> 'a m_node \<Rightarrow> 'a m_list_info \<Rightarrow> 'a m_list_info" where
  "nd_put a n l = l\<lparr>li_heap := (li_heap l)(a := Some n)\<rparr>"

definition nd_free :: "nat \<Rightarrow> 'a m_list_info \<Rightarrow> 'a m_list_info" where
  "nd_free a l = l\<lparr>li_heap := (li_heap l)(a := None)\<rparr>"

definition new_list :: "'a m_list_info" where
  "new_list = \<lparr>li_heap = Map.empty, li_head = None, li_tail = None, li_cur = None, li_number = 0\<rparr>"

text \<open>The loop of \<open>delete_list\<close>; it does not end when \<open>number\<close> is positive and \<open>head\<close> is null.\<close>

partial_function (option) delete_loop :: "'a m_list_info \<Rightarrow> 'a m_list_info option" where
  "delete_loop l =
     (if li_number l \<noteq> 0 then
        (if li_head l \<noteq> None then
           (case li_tail l of None \<Rightarrow> None | Some tmp \<Rightarrow>
            case nd_get l (Some tmp) of None \<Rightarrow> None | Some t \<Rightarrow>
            (case nd_pre t of
               Some p \<Rightarrow>
                 (case nd_get l (Some p) of None \<Rightarrow> None | Some n \<Rightarrow>
                    delete_loop ((nd_free tmp (nd_put p (n\<lparr>nd_next := None\<rparr>) l))
                      \<lparr>li_tail := Some p, li_number := li_number l - 1\<rparr>))
             | None \<Rightarrow> delete_loop ((nd_free tmp l)\<lparr>li_number := li_number l - 1\<rparr>)))
         else delete_loop l)
      else Some l)"

text \<open>What is done to the list structure itself at the end of \<open>delete_list\<close>.\<close>

datatype list_event = Free_list_info | Destroy_list_lock

definition delete_list :: "'a m_list_info \<Rightarrow> ('a m_list_info \<times> list_event list) option" where
  "delete_list l = map_option (\<lambda>l. (l, [Free_list_info, Destroy_list_lock])) (delete_loop l)"

text \<open>\<open>zero\<close> is the data of \<open>data_size\<close> zero bytes, \<open>a\<close> the address of the new node.\<close>

definition list_node_alloc_tail :: "'a \<Rightarrow> nat \<Rightarrow> 'a m_list_info \<Rightarrow> 'a m_list_info option" where
  "list_node_alloc_tail zero a l =
     (if li_head l \<noteq> None then
        (case li_tail l of None \<Rightarrow> None | Some t \<Rightarrow>
         case nd_get l (Some t) of None \<Rightarrow> None | Some n \<Rightarrow>
           Some ((nd_put t (n\<lparr>nd_next := Some a\<rparr>)
                   (nd_put a \<lparr>nd_data = zero, nd_pre = Some t, nd_next = None\<rparr> l))
                 \<lparr>li_tail := Some a, li_number := li_number l + 1\<rparr>))
      else Some ((nd_put a \<lparr>nd_data = zero, nd_pre = None, nd_next = None\<rparr> l)
                 \<lparr>li_head := Some a, li_tail := Some a, li_number := li_number l + 1\<rparr>))"

text \<open>\<open>f\<close> is \<open>data_match_function\<close>.\<close>

partial_function (option) seek_loop :: "('a \<Rightarrow> 'b \<Rightarrow> int) \<Rightarrow> 'b \<Rightarrow> 'a m_list_info \<Rightarrow> (int \<times> 'a m_list_info) option" where
  "seek_loop f d l =
     (case li_cur l of
        None \<Rightarrow> Some (-1, l)
      | Some p \<Rightarrow>
          (case nd_get l (Some p) of None \<Rightarrow> None | Some n \<Rightarrow>
             if f (nd_data n) d \<ge> 0 then Some (f (nd_data n) d, l)
             else seek_loop f d (l\<lparr>li_cur := nd_next n\<rparr>)))"

definition list_node_seek :: "('a \<Rightarrow> 'b \<Rightarrow> int) \<Rightarrow> 'b \<Rightarrow> 'a m_list_info \<Rightarrow> (int \<times> 'a m_list_info) option" where
  "list_node_seek f d l = seek_loop f d (l\<lparr>li_cur := li_head l\<rparr>)"

text \<open>The three cases of \<open>list_node_del_cur\<close>: the current node is the tail, the head, or neither.\<close>

definition del_tail :: "nat \<Rightarrow> 'a m_list_info \<Rightarrow> 'a m_list_info option" where
  "del_tail tmp l =
     (case nd_get l (Some tmp) of None \<Rightarrow> None | Some t \<Rightarrow>
      map_option (\<lambda>l. (nd_free tmp l)\<lparr>li_number := li_number l - 1\<rparr>)
        (case nd_pre t of
           Some p \<Rightarrow>
             (case nd_get l (Some p) of None \<Rightarrow> None
              | Some n \<Rightarrow> Some ((nd_put p (n\<lparr>nd_next := None\<rparr>) l)\<lparr>li_tail := Some p\<rparr>))
         | None \<Rightarrow> Some (l\<lparr>li_head := None, li_tail := None\<rparr>)))"

definition del_head :: "nat \<Rightarrow> 'a m_list_info \<Rightarrow> 'a m_list_info option" where
  "del_head tmp l =
     (case nd_get l (Some tmp) of None \<Rightarrow> None | Some t \<Rightarrow>
      map_option (\<lambda>l. (nd_free tmp l)\<lparr>li_number := li_number l - 1\<rparr>)
        (case nd_next t of
           Some q \<Rightarrow>
             (case nd_get l (Some q) of None \<Rightarrow> None
              | Some n \<Rightarrow> Some ((nd_put q (n\<lparr>nd_pre := None\<rparr>) l)\<lparr>li_head := Some q\<rparr>))
         | None \<Rightarrow> Some (l\<lparr>li_head := None, li_tail := None\<rparr>)))"

definition del_middle :: "nat \<Rightarrow> 'a m_list_info \<Rightarrow> 'a m_list_info option" where
  "del_middle c l =
     (case nd_get l (Some c) of None \<Rightarrow> None | Some n \<Rightarrow>
      case nd_pre n of None \<Rightarrow> None | Some p \<Rightarrow>
      case nd_get l (Some p) of None \<Rightarrow> None | Some np \<Rightarrow>
      let l = nd_put p (np\<lparr>nd_next := nd_next n\<rparr>) l
      in case nd_get l (Some c) of None \<Rightarrow> None | Some n \<Rightarrow>
         case nd_next n of None \<Rightarrow> None | Some q \<Rightarrow>
         case nd_get l (Some q) of None \<Rightarrow> None | Some nq \<Rightarrow>
         let l = nd_put q (nq\<lparr>nd_pre := nd_pre n\<rparr>) l
         in Some ((nd_free c l)\<lparr>li_cur := None, li_number := li_number l - 1\<rparr>))"

definition list_node_del_cur :: "'a m_list_info \<Rightarrow> (int \<times> 'a m_list_info) option" where
  "list_node_del_cur l =
     (if li_number l \<le> 0 then Some (1, l)
      else case li_cur l of None \<Rightarrow> Some (1, l) | Some c \<Rightarrow>
        map_option (Pair 0)
          (if li_cur l = li_tail l then del_tail c l
           else if li_cur l = li_head l then del_head c l
           else del_middle c l))"

definition list_get_current_data :: "'a m_list_info \<Rightarrow> 'a option" where
  "list_get_current_data l = map_option nd_data (nd_get l (li_cur l))"

definition list_overwirte_current_data :: "'a \<Rightarrow> 'a m_list_info \<Rightarrow> 'a m_list_info option" where
  "list_overwirte_current_data d l =
     (case li_cur l of None \<Rightarrow> None | Some c \<Rightarrow>
      map_option (\<lambda>n. nd_put c (n\<lparr>nd_data := d\<rparr>) l) (nd_get l (Some c)))"

text \<open>\<open>f\<close> is the function applied to every node, which may change the data of the node and what \<open>arg\<close>
  points to.\<close>

partial_function (option) operate_loop ::
  "('a \<Rightarrow> 's \<Rightarrow> 'a \<times> 's) \<Rightarrow> nat option \<Rightarrow> 's \<Rightarrow> 'a m_list_info \<Rightarrow> ('s \<times> 'a m_list_info) option" where
  "operate_loop f tmp arg l =
     (case tmp of
        None \<Rightarrow> Some (arg, l)
      | Some p \<Rightarrow>
          (case nd_get l (Some p) of None \<Rightarrow> None | Some n \<Rightarrow>
             operate_loop f (nd_next n) (snd (f (nd_data n) arg))
               (nd_put p (n\<lparr>nd_data := fst (f (nd_data n) arg)\<rparr>) l)))"

definition list_operate_node_all :: "('a \<Rightarrow> 's \<Rightarrow> 'a \<times> 's) \<Rightarrow> 's \<Rightarrow> 'a m_list_info \<Rightarrow> ('s \<times> 'a m_list_info) option" where
  "list_operate_node_all f arg l = operate_loop f (li_head l) arg l"

section \<open>Representation\<close>

text \<open>\<open>dseg h pre p xs q\<close>: from \<open>p\<close> the heap has the nodes \<open>xs\<close>, address and data, linked in both directions up to
  the pointer \<open>q\<close>; \<open>pre\<close> is the backward link of the first.\<close>

fun dseg :: "(nat \<Rightarrow> 'a m_node option) \<Rightarrow> nat option \<Rightarrow> nat option \<Rightarrow> (nat \<times> 'a) list \<Rightarrow> nat option \<Rightarrow> bool" where
  "dseg h pre p [] q \<longleftrightarrow> p = q"
| "dseg h pre p ((a, x) # xs) q \<longleftrightarrow>
     p = Some a \<and> (\<exists>nx. h a = Some \<lparr>nd_data = x, nd_pre = pre, nd_next = nx\<rparr> \<and> dseg h (Some a) nx xs q)"

definition last_ptr :: "nat option \<Rightarrow> (nat \<times> 'a) list \<Rightarrow> nat option" where
  "last_ptr pre xs = (if xs = [] then pre else Some (fst (last xs)))"

definition list_rep :: "'a m_list_info \<Rightarrow> (nat \<times> 'a) list \<Rightarrow> bool" where
  "list_rep l xs \<longleftrightarrow> dseg (li_heap l) None (li_head l) xs None \<and> distinct (map fst xs) \<and>
     li_tail l = last_ptr None xs \<and> li_number l = int (length xs) \<and> dom (li_heap l) = fst ` set xs"

lemma last_ptr_simps [simp]:
  "last_ptr pre [] = pre" "last_ptr pre ((a, x) # xs) = last_ptr (Some a) xs" "last_ptr pre (xs @ [(a, x)]) = Some a"
  by (auto simp: last_ptr_def)

lemma last_ptr_map: "last_ptr pre xs = (if map fst xs = [] then pre else Some (last (map fst xs)))"
  by (auto simp: last_ptr_def last_map)

lemma dseg_append:
  "dseg h pre p (xs @ ys) q \<longleftrightarrow> (\<exists>m. dseg h pre p xs m \<and> dseg h (last_ptr pre xs) m ys q)"
  by (induction h pre p xs q rule: dseg.induct) auto

lemma dseg_upd: "a \<notin> fst ` set xs \<Longrightarrow> dseg (h(a := v)) pre p xs q \<longleftrightarrow> dseg h pre p xs q"
  by (induction h pre p xs q rule: dseg.induct) auto

lemma dseg_empty: "dseg h pre None xs None \<longleftrightarrow> xs = []"
  by (cases xs) auto

lemma dseg_Nil_iff: "dseg h pre p xs None \<Longrightarrow> xs = [] \<longleftrightarrow> p = None"
  by (cases xs) auto

lemmas node_defs = nd_get_def nd_put_def nd_free_def

section \<open>The operations on represented lists\<close>

lemma new_list_rep: "list_rep new_list []"
  by (simp add: list_rep_def new_list_def)

lemma rep_split:
  assumes "list_rep l (xs @ (a, x) # ys)"
  obtains nx where "li_heap l a = Some \<lparr>nd_data = x, nd_pre = last_ptr None xs, nd_next = nx\<rparr>"
    "dseg (li_heap l) None (li_head l) xs (Some a)" "dseg (li_heap l) (Some a) nx ys None"
    "a \<notin> fst ` set xs" "a \<notin> fst ` set ys" "distinct (map fst xs)" "distinct (map fst ys)"
    "fst ` set xs \<inter> fst ` set ys = {}"
  using assms by (fastforce simp: list_rep_def dseg_append)

lemma alloc_tail_rep:
  assumes "list_rep l xs" "a \<notin> fst ` set xs"
  shows "\<exists>l'. list_node_alloc_tail zero a l = Some l' \<and> list_rep l' (xs @ [(a, zero)]) \<and>
    li_cur l' = li_cur l \<and> li_tail l' = Some a"
proof (cases xs rule: rev_cases)
  case Nil
  with assms show ?thesis by (auto simp: list_rep_def list_node_alloc_tail_def node_defs)
next
  case (snoc ys y)
  obtain t x where y: "y = (t, x)" by fastforce
  from assms(1) snoc y obtain nx where
    h: "li_heap l t = Some \<lparr>nd_data = x, nd_pre = last_ptr None ys, nd_next = nx\<rparr>"
      "dseg (li_heap l) None (li_head l) ys (Some t)" "t \<notin> fst ` set ys"
    by (auto elim: rep_split)
  have head: "li_head l \<noteq> None" using h(2) by (cases ys) auto
  have "a \<noteq> t" "a \<notin> fst ` set ys" using assms(2) snoc y by auto
  with h have "dseg ((li_heap l)(a := Some \<lparr>nd_data = zero, nd_pre = Some t, nd_next = None\<rparr>,
      t := Some \<lparr>nd_data = x, nd_pre = last_ptr None ys, nd_next = Some a\<rparr>)) None (li_head l) (xs @ [(a, zero)]) None"
    unfolding snoc y by (simp add: dseg_append dseg_upd)
  moreover have "li_tail l = Some t" "li_number l = int (length xs)" "dom (li_heap l) = fst ` set xs" "distinct (map fst xs)"
    using assms(1) snoc y by (auto simp: list_rep_def)
  ultimately show ?thesis using head h(1) assms(2)
    by (auto simp: list_rep_def list_node_alloc_tail_def node_defs)
qed

definition hits :: "('a \<Rightarrow> 'b \<Rightarrow> int) \<Rightarrow> 'b \<Rightarrow> nat \<times> 'a \<Rightarrow> bool" where
  "hits f d z \<longleftrightarrow> f (snd z) d \<ge> 0"

lemma hits_pair [simp]: "hits f d (a, x) \<longleftrightarrow> f x d \<ge> 0"
  by (simp add: hits_def)

lemma seek_loop_rep:
  assumes "dseg (li_heap l) pre (li_cur l) xs None"
  shows "seek_loop f d l =
    (case find (hits f d) xs of
       None \<Rightarrow> Some (-1, l\<lparr>li_cur := None\<rparr>)
     | Some (a, x) \<Rightarrow> Some (f x d, l\<lparr>li_cur := Some a\<rparr>))"
  using assms
proof (induction xs arbitrary: l pre)
  case Nil
  then show ?case by (subst seek_loop.simps) simp
next
  case (Cons y xs)
  obtain a x where y: "y = (a, x)" by fastforce
  from Cons.prems y obtain nx where
    h: "li_cur l = Some a" "li_heap l a = Some \<lparr>nd_data = x, nd_pre = pre, nd_next = nx\<rparr>" "dseg (li_heap l) (Some a) nx xs None"
    by auto
  have "l\<lparr>li_cur := Some a\<rparr> = l" using h(1) by simp
  with h Cons.IH [of "l\<lparr>li_cur := nx\<rparr>" "Some a"] y show ?case
    by (subst seek_loop.simps) (simp add: nd_get_def split: option.split)
qed

lemma seek_rep:
  assumes "list_rep l xs"
  shows "list_node_seek f d l =
    (case find (hits f d) xs of
       None \<Rightarrow> Some (-1, l\<lparr>li_cur := None\<rparr>)
     | Some (a, x) \<Rightarrow> Some (f x d, l\<lparr>li_cur := Some a\<rparr>))"
  using seek_loop_rep [of "l\<lparr>li_cur := li_head l\<rparr>" None xs f d] assms
  by (simp add: list_node_seek_def list_rep_def split: option.split)

lemma rep_cur [simp]: "list_rep (l\<lparr>li_cur := c\<rparr>) xs \<longleftrightarrow> list_rep l xs"
  by (simp add: list_rep_def)

lemma dseg_first:
  assumes "dseg h pre p ((b, y) # ys) q" "b \<notin> fst ` set ys"
  obtains nx where "h b = Some \<lparr>nd_data = y, nd_pre = pre, nd_next = nx\<rparr>"
    "dseg (h(b := Some \<lparr>nd_data = y, nd_pre = pre', nd_next = nx\<rparr>)) pre' p ((b, y) # ys) q"
  using assms by (auto simp: dseg_upd)

lemma dseg_last:
  assumes "dseg h pre p (xs @ [(b, y)]) q" "b \<notin> fst ` set xs"
  shows "h b = Some \<lparr>nd_data = y, nd_pre = last_ptr pre xs, nd_next = q\<rparr>"
    "dseg (h(b := Some \<lparr>nd_data = y, nd_pre = last_ptr pre xs, nd_next = q'\<rparr>)) pre p (xs @ [(b, y)]) q'"
  using assms by (auto simp: dseg_append dseg_upd)

lemma del_tail_rep:
  assumes "list_rep l (xs @ [(a, x)])"
  shows "\<exists>l'. del_tail a l = Some l' \<and> list_rep l' xs \<and> li_cur l' = li_cur l"
proof (cases xs rule: rev_cases)
  case Nil
  with assms have "li_heap l b = None" if "b \<noteq> a" for b using that by (auto simp: list_rep_def dom_def)
  then have "(li_heap l)(a := None) = Map.empty" by auto
  with assms Nil show ?thesis by (auto simp: list_rep_def del_tail_def node_defs)
next
  case (snoc zs z)
  obtain b y where z: "z = (b, y)" by fastforce
  from assms obtain nx where "li_heap l a = Some \<lparr>nd_data = x, nd_pre = last_ptr None xs, nd_next = nx\<rparr>"
    "dseg (li_heap l) None (li_head l) xs (Some a)" and d: "a \<notin> fst ` set xs" "distinct (map fst xs)"
    by (elim rep_split)
  then have h: "li_heap l a = Some \<lparr>nd_data = x, nd_pre = Some b, nd_next = nx\<rparr>"
    "dseg (li_heap l) None (li_head l) (zs @ [(b, y)]) (Some a)" "a \<notin> fst ` set xs" "distinct (map fst xs)"
    by (simp_all add: snoc z)
  have ab: "a \<noteq> b" "b \<notin> fst ` set zs" using h(3,4) by (auto simp: snoc z)
  note lst = dseg_last(1) [OF h(2) ab(2)] dseg_last(2) [OF h(2) ab(2), of None]
  let ?h = "(li_heap l)(b := Some \<lparr>nd_data = y, nd_pre = last_ptr None zs, nd_next = None\<rparr>, a := None)"
  have "dseg ?h None (li_head l) xs None" using lst(2) h(3) by (simp add: dseg_upd snoc z)
  moreover have "dom ?h = fst ` set xs" "li_number l - 1 = int (length xs)"
    using assms h(3) by (auto simp: list_rep_def snoc z)
  ultimately have "list_rep (l\<lparr>li_tail := Some b, li_heap := ?h, li_number := li_number l - 1\<rparr>) xs"
    using h(4) by (simp add: list_rep_def) (simp add: snoc z)
  then show ?thesis using h(1) lst(1) ab(1) by (simp add: del_tail_def node_defs)
qed

lemma del_head_rep:
  assumes "list_rep l ((a, x) # (b, y) # ys)"
  shows "\<exists>l'. del_head a l = Some l' \<and> list_rep l' ((b, y) # ys) \<and> li_cur l' = li_cur l"
proof -
  from assms obtain nx where h: "li_heap l a = Some \<lparr>nd_data = x, nd_pre = None, nd_next = Some b\<rparr>"
    "li_heap l b = Some \<lparr>nd_data = y, nd_pre = Some a, nd_next = nx\<rparr>"
    "dseg (li_heap l) (Some b) nx ys None" "a \<noteq> b" "a \<notin> fst ` set ys" "b \<notin> fst ` set ys" "distinct (map fst ys)"
    by (auto simp: list_rep_def)
  let ?h = "(li_heap l)(b := Some \<lparr>nd_data = y, nd_pre = None, nd_next = nx\<rparr>, a := None)"
  have "dom ?h = fst ` set ((b, y) # ys)" "li_tail l = last_ptr None ((b, y) # ys)" "li_number l - 1 = int (length ((b, y) # ys))"
    using assms h(4,5) by (auto simp: list_rep_def)
  then have "list_rep (l\<lparr>li_heap := ?h, li_head := Some b, li_number := li_number l - 1\<rparr>) ((b, y) # ys)"
    using h by (simp add: list_rep_def dseg_upd)
  then show ?thesis using h by (simp add: del_head_def node_defs list_rep_def)
qed

lemma del_middle_rep:
  assumes "list_rep l (xs @ (p, u) # (a, x) # (b, y) # ys)"
  shows "\<exists>l'. del_middle a l = Some l' \<and> list_rep l' (xs @ (p, u) # (b, y) # ys) \<and> li_cur l' = None"
proof -
  let ?np = "\<lambda>nx. \<lparr>nd_data = u, nd_pre = last_ptr None xs, nd_next = nx\<rparr>"
  from assms obtain nx where h: "dseg (li_heap l) None (li_head l) xs (Some p)"
    "li_heap l p = Some (?np (Some a))"
    "li_heap l a = Some \<lparr>nd_data = x, nd_pre = Some p, nd_next = Some b\<rparr>"
    "li_heap l b = Some \<lparr>nd_data = y, nd_pre = Some a, nd_next = nx\<rparr>" "dseg (li_heap l) (Some b) nx ys None"
    by (auto simp: list_rep_def dseg_append)
  from assms have d: "distinct (map fst (xs @ (p, u) # (a, x) # (b, y) # ys))" by (simp add: list_rep_def)
  let ?h = "(li_heap l)(p := Some (?np (Some b)), b := Some \<lparr>nd_data = y, nd_pre = Some p, nd_next = nx\<rparr>, a := None)"
  have "dseg ?h None (li_head l) (xs @ (p, u) # (b, y) # ys) None" using h d by (auto simp: dseg_append dseg_upd)
  moreover have "dom ?h = fst ` set (xs @ (p, u) # (b, y) # ys)" "li_tail l = last_ptr None (xs @ (p, u) # (b, y) # ys)"
    "li_number l - 1 = int (length (xs @ (p, u) # (b, y) # ys))"
    using assms d by (auto simp: list_rep_def last_ptr_def)
  ultimately have "list_rep (l\<lparr>li_heap := ?h, li_cur := None, li_number := li_number l - 1\<rparr>) (xs @ (p, u) # (b, y) # ys)"
    using d by (simp add: list_rep_def)
  moreover have "a \<noteq> p" "a \<noteq> b" "p \<noteq> b" using d by auto
  ultimately show ?thesis using h by (simp add: del_middle_def node_defs Let_def)
qed

lemma del_cur_rep:
  assumes "list_rep l (xs @ (a, x) # ys)" "li_cur l = Some a"
  shows "\<exists>l'. list_node_del_cur l = Some (0, l') \<and> list_rep l' (xs @ ys) \<and>
    li_cur l' = (if xs \<noteq> [] \<and> ys \<noteq> [] then None else Some a)"
proof -
  have n: "li_number l > 0" and tail: "li_tail l = last_ptr (Some a) ys" and d: "distinct (map fst (xs @ (a, x) # ys))"
    using assms(1) by (auto simp: list_rep_def last_ptr_def)
  have head: "xs \<noteq> [] \<Longrightarrow> li_head l \<noteq> Some a" "xs = [] \<Longrightarrow> li_head l = Some a"
    using assms(1) d by (cases xs; force simp: list_rep_def)+
  show ?thesis
  proof (cases "ys = []")
    case True
    with del_tail_rep [of l xs a x] assms n tail show ?thesis by (auto simp: list_node_del_cur_def)
  next
    case False
    then obtain b y zs where ys: "ys = (b, y) # zs" by (cases ys) auto
    have "li_tail l \<noteq> Some a"
      using d False unfolding tail last_ptr_def by (auto simp: image_iff dest: last_in_set)
    then have nt: "li_cur l \<noteq> li_tail l" using assms(2) by simp
    show ?thesis
    proof (cases xs rule: rev_cases)
      case Nil
      with del_head_rep [of l a x b y zs] assms n nt head(2) ys show ?thesis by (auto simp: list_node_del_cur_def)
    next
      case (snoc ws w)
      obtain p u where w: "w = (p, u)" by fastforce
      have "li_cur l \<noteq> li_head l" using head(1) snoc assms(2) by simp
      with del_middle_rep [of l ws p u a x b y zs] assms n nt ys show ?thesis
        by (auto simp: list_node_del_cur_def snoc w)
    qed
  qed
qed

lemma overwrite_rep:
  assumes "list_rep l (xs @ (a, x) # ys)" "li_cur l = Some a"
  shows "\<exists>l'. list_overwirte_current_data d l = Some l' \<and> list_rep l' (xs @ (a, d) # ys) \<and> li_cur l' = Some a"
proof -
  from assms(1) obtain nx where h: "li_heap l a = Some \<lparr>nd_data = x, nd_pre = last_ptr None xs, nd_next = nx\<rparr>"
    "dseg (li_heap l) None (li_head l) xs (Some a)" "dseg (li_heap l) (Some a) nx ys None"
    "a \<notin> fst ` set xs" "a \<notin> fst ` set ys" by (rule rep_split)
  let ?h = "(li_heap l)(a := Some \<lparr>nd_data = d, nd_pre = last_ptr None xs, nd_next = nx\<rparr>)"
  have "dseg ?h None (li_head l) (xs @ (a, d) # ys) None" using h by (simp add: dseg_append dseg_upd)
  moreover have "dom ?h = fst ` set (xs @ (a, d) # ys)" "li_tail l = last_ptr None (xs @ (a, d) # ys)"
    using assms(1) by (auto simp: list_rep_def last_ptr_def)
  ultimately have "list_rep (l\<lparr>li_heap := ?h\<rparr>) (xs @ (a, d) # ys)" using assms(1) by (simp add: list_rep_def)
  then show ?thesis using h(1) assms(2) by (simp add: list_overwirte_current_data_def node_defs)
qed

lemma put_data_rep:
  assumes "list_rep l (xs @ (a, x) # ys)"
  shows "\<exists>n. nd_get l (Some a) = Some n \<and> nd_data n = x \<and> list_rep (nd_put a (n\<lparr>nd_data := d\<rparr>) l) (xs @ (a, d) # ys)"
proof -
  from assms obtain nx where h: "li_heap l a = Some \<lparr>nd_data = x, nd_pre = last_ptr None xs, nd_next = nx\<rparr>" by (rule rep_split)
  from overwrite_rep [of "l\<lparr>li_cur := Some a\<rparr>" xs a x ys d] assms obtain l' where
    l': "list_overwirte_current_data d (l\<lparr>li_cur := Some a\<rparr>) = Some l'" "list_rep l' (xs @ (a, d) # ys)" by auto
  have "list_rep (nd_put a (\<lparr>nd_data = x, nd_pre = last_ptr None xs, nd_next = nx\<rparr>\<lparr>nd_data := d\<rparr>) l) (xs @ (a, d) # ys)"
    using l' h by (auto simp: list_overwirte_current_data_def node_defs list_rep_def)
  with h show ?thesis by (simp add: nd_get_def)
qed

lemma get_current_rep: "list_rep l (xs @ (a, x) # ys) \<Longrightarrow> li_cur l = Some a \<Longrightarrow> list_get_current_data l = Some x"
  by (erule rep_split) (simp add: list_get_current_data_def nd_get_def)

lemma operate_loop_rep:
  assumes "dseg (li_heap l) pre p xs None" "distinct (map fst xs)"
  shows "\<exists>h. operate_loop f p arg l = Some (snd (run_ops f arg (map snd xs)), l\<lparr>li_heap := h\<rparr>) \<and>
    dseg h pre p (zip (map fst xs) (fst (run_ops f arg (map snd xs)))) None \<and>
    (\<forall>a. a \<notin> fst ` set xs \<longrightarrow> h a = li_heap l a) \<and> dom h = dom (li_heap l)"
  using assms
proof (induction xs arbitrary: l pre p arg)
  case Nil
  have "l = l\<lparr>li_heap := li_heap l\<rparr>" by simp
  with Nil show ?case by (subst operate_loop.simps) (auto intro!: exI [of _ "li_heap l"])
next
  case (Cons z xs)
  obtain a x where z: "z = (a, x)" by fastforce
  from Cons.prems z obtain nx where
    h: "p = Some a" "li_heap l a = Some \<lparr>nd_data = x, nd_pre = pre, nd_next = nx\<rparr>" "dseg (li_heap l) (Some a) nx xs None"
    by auto
  have a: "a \<notin> fst ` set xs" using Cons.prems(2) z by simp
  let ?n = "\<lparr>nd_data = fst (f x arg), nd_pre = pre, nd_next = nx\<rparr>"
  let ?l = "l\<lparr>li_heap := (li_heap l)(a := Some ?n)\<rparr>" and ?r = "run_ops f (snd (f x arg)) (map snd xs)"
  have "dseg (li_heap ?l) (Some a) nx xs None" using h(3) a by (simp add: dseg_upd)
  moreover have "distinct (map fst xs)" using Cons.prems(2) z by simp
  ultimately obtain h' where
    i: "operate_loop f nx (snd (f x arg)) ?l = Some (snd ?r, ?l\<lparr>li_heap := h'\<rparr>)"
      "dseg h' (Some a) nx (zip (map fst xs) (fst ?r)) None"
      "\<forall>b. b \<notin> fst ` set xs \<longrightarrow> h' b = li_heap ?l b" "dom h' = dom (li_heap ?l)"
    using Cons.IH [of ?l "Some a" nx "snd (f x arg)"] by blast
  have "h' a = Some ?n" "dom h' = dom (li_heap l)" using i(3,4) a h(2) by auto
  moreover have "operate_loop f p arg l = Some (snd ?r, l\<lparr>li_heap := h'\<rparr>)"
    using h(1,2) i(1) by (subst operate_loop.simps) (simp add: node_defs)
  ultimately show ?case using i(2,3) h(1) z by (auto simp: Let_def split_beta)
qed

lemma length_run_ops [simp]: "length (fst (run_ops f s xs)) = length xs"
  by (induction xs arbitrary: s) (auto simp: Let_def split_beta)

lemma operate_rep:
  assumes "list_rep l xs"
  shows "\<exists>l'. list_operate_node_all f arg l = Some (snd (run_ops f arg (map snd xs)), l') \<and>
    list_rep l' (zip (map fst xs) (fst (run_ops f arg (map snd xs)))) \<and> li_cur l' = li_cur l"
proof -
  let ?ys = "zip (map fst xs) (fst (run_ops f arg (map snd xs)))"
  have ys: "map fst ?ys = map fst xs" by simp
  have "last_ptr None ?ys = last_ptr None xs" unfolding last_ptr_map ys ..
  moreover have "fst ` set ?ys = fst ` set xs" unfolding set_map [symmetric] ys ..
  moreover have "length ?ys = length xs" by simp
  moreover from assms obtain h where "operate_loop f (li_head l) arg l = Some (snd (run_ops f arg (map snd xs)), l\<lparr>li_heap := h\<rparr>)"
    "dseg h None (li_head l) ?ys None" "dom h = dom (li_heap l)"
    using operate_loop_rep [of l None "li_head l" xs f arg] by (auto simp: list_rep_def)
  ultimately show ?thesis using assms unfolding list_rep_def list_operate_node_all_def ys by simp
qed

lemma delete_loop_rep:
  assumes "list_rep l xs"
  shows "\<exists>l'. delete_loop l = Some l' \<and> li_heap l' = Map.empty"
  using assms
proof (induction xs arbitrary: l rule: rev_induct)
  case Nil
  then show ?case by (subst delete_loop.simps) (simp add: list_rep_def)
next
  case (snoc z xs)
  obtain a x where z: "z = (a, x)" by fastforce
  from snoc.prems z obtain l1 where d: "del_tail a l = Some l1" "list_rep l1 xs" using del_tail_rep [of l xs a x] by blast
  have l: "li_head l \<noteq> None" "li_tail l = Some a" "li_number l \<noteq> 0"
    using snoc.prems z dseg_Nil_iff [of "li_heap l" None "li_head l" "xs @ [z]"] by (auto simp: list_rep_def)
  show ?case
  proof (cases xs rule: rev_cases)
    case Nil
    with snoc.prems z have "(li_heap l)(a := None) = Map.empty" by (fastforce simp: list_rep_def dom_def)
    moreover have "li_heap l a = Some \<lparr>nd_data = x, nd_pre = None, nd_next = None\<rparr>" "li_number l = 1"
      using snoc.prems z Nil by (auto simp: list_rep_def)
    ultimately show ?thesis using l
      by (subst delete_loop.simps) (simp add: node_defs, subst delete_loop.simps, simp)
  next
    case (snoc ws w)
    then have "li_tail l1 \<noteq> None" using d(2) by (simp add: list_rep_def last_ptr_def)
    with d(1) obtain t p n where h: "li_heap l a = Some t" "nd_pre t = Some p" "li_heap l p = Some n"
      "l1 = (nd_free a (nd_put p (n\<lparr>nd_next := None\<rparr>) l))\<lparr>li_tail := Some p, li_number := li_number l - 1\<rparr>"
      by (auto simp: del_tail_def node_defs split: option.splits)
    with l have "delete_loop l = delete_loop l1" by (subst delete_loop.simps) (simp add: nd_get_def)
    with snoc.IH [OF d(2)] show ?thesis by simp
  qed
qed

section \<open>The interface of the list\<close>

definition remove_first :: "('x \<Rightarrow> bool) \<Rightarrow> 'x list \<Rightarrow> 'x list" where
  "remove_first P xs = takeWhile (\<lambda>x. \<not> P x) xs @ tl (dropWhile (\<lambda>x. \<not> P x) xs)"

definition update_first :: "('x \<Rightarrow> bool) \<Rightarrow> ('x \<Rightarrow> 'x) \<Rightarrow> 'x list \<Rightarrow> 'x list" where
  "update_first P g xs =
     (case dropWhile (\<lambda>x. \<not> P x) xs of [] \<Rightarrow> xs | x # ys \<Rightarrow> takeWhile (\<lambda>x. \<not> P x) xs @ g x # ys)"

lemma find_split:
  assumes "find P xs = Some x"
  shows "P x \<and> xs = takeWhile (\<lambda>x. \<not> P x) xs @ x # tl (dropWhile (\<lambda>x. \<not> P x) xs)"
  using assms by (induction xs) (auto split: if_splits)

lemma remove_first_none: "find P xs = None \<Longrightarrow> remove_first P xs = xs"
  by (induction xs) (auto simp: remove_first_def split: if_splits)

lemma update_first_none: "find P xs = None \<Longrightarrow> update_first P g xs = xs"
  by (simp add: update_first_def find_None_iff split: list.split)
    (metis dropWhile_eq_Nil_conv list.distinct(1))

text \<open>What a client relies on: the operations keep a sequence of nodes; a search sets the current node, which
  may be read, overwritten and deleted.\<close>

locale node_list =
  fixes rep :: "'l \<Rightarrow> (nat \<times> 'a) list \<Rightarrow> bool" and cur :: "'l \<Rightarrow> nat option"
    and alloc :: "'a \<Rightarrow> nat \<Rightarrow> 'l \<Rightarrow> 'l option" and seek :: "('a \<Rightarrow> 'b \<Rightarrow> int) \<Rightarrow> 'b \<Rightarrow> 'l \<Rightarrow> (int \<times> 'l) option"
    and del :: "'l \<Rightarrow> (int \<times> 'l) option" and get :: "'l \<Rightarrow> 'a option" and put :: "'a \<Rightarrow> 'l \<Rightarrow> 'l option"
  assumes alloc_law: "rep l xs \<Longrightarrow> a \<notin> fst ` set xs \<Longrightarrow> \<exists>l'. alloc z a l = Some l' \<and> rep l' (xs @ [(a, z)])"
    and seek_found: "rep l xs \<Longrightarrow> find (hits f d) xs = Some (a, x) \<Longrightarrow>
      \<exists>l'. seek f d l = Some (f x d, l') \<and> rep l' xs \<and> cur l' = Some a"
    and seek_none: "rep l xs \<Longrightarrow> find (hits f d) xs = None \<Longrightarrow>
      \<exists>l'. seek f d l = Some (-1, l') \<and> rep l' xs \<and> cur l' = None"
    and del_law: "rep l (xs @ (a, x) # ys) \<Longrightarrow> cur l = Some a \<Longrightarrow> \<exists>l'. del l = Some (0, l') \<and> rep l' (xs @ ys)"
    and del_none: "cur l = None \<Longrightarrow> del l = Some (1, l)"
    and get_law: "rep l (xs @ (a, x) # ys) \<Longrightarrow> cur l = Some a \<Longrightarrow> get l = Some x"
    and put_law: "rep l (xs @ (a, x) # ys) \<Longrightarrow> cur l = Some a \<Longrightarrow>
      \<exists>l'. put y l = Some l' \<and> rep l' (xs @ (a, y) # ys) \<and> cur l' = Some a"
begin

lemma seek_del:
  assumes "rep l xs"
  shows "\<exists>r l1 l2. seek f d l = Some (r, l1) \<and> del l1 = Some (if r < 0 then 1 else 0, l2) \<and>
    rep l2 (remove_first (hits f d) xs) \<and> (r < 0 \<longleftrightarrow> find (hits f d) xs = None)"
proof (cases "find (hits f d) xs")
  case None
  with seek_none [OF assms None] del_none show ?thesis by (auto simp: remove_first_none)
next
  case (Some y)
  obtain a x where y: "y = (a, x)" by fastforce
  note sp = find_split [OF Some]
  obtain l1 where l1: "seek f d l = Some (f x d, l1)" "rep l1 xs" "cur l1 = Some a"
    using seek_found [OF assms] Some y by blast
  let ?t = "takeWhile (\<lambda>z. \<not> hits f d z) xs" and ?d = "tl (dropWhile (\<lambda>z. \<not> hits f d z) xs)"
  have "rep l1 (?t @ (a, x) # ?d)" using l1(2) sp y by simp
  from del_law [OF this l1(3)] obtain l2 where "del l1 = Some (0, l2)" "rep l2 (?t @ ?d)" by blast
  with l1(1) Some sp y show ?thesis by (auto simp: remove_first_def hits_def)
qed

lemma seek_put:
  assumes "rep l xs" "find (hits f d) xs = Some (a, x)"
  shows "\<exists>l1 l2. seek f d l = Some (f x d, l1) \<and> rep l1 xs \<and> get l1 = Some x \<and> put y l1 = Some l2 \<and>
    rep l2 (update_first (hits f d) (\<lambda>(a, x). (a, y)) xs) \<and> cur l2 = Some a"
proof -
  let ?t = "takeWhile (\<lambda>z. \<not> hits f d z) xs" and ?d = "tl (dropWhile (\<lambda>z. \<not> hits f d z) xs)"
  note sp = find_split [OF assms(2)]
  obtain l1 where l1: "seek f d l = Some (f x d, l1)" "rep l1 xs" "cur l1 = Some a"
    using seek_found [OF assms] by blast
  have r: "rep l1 (?t @ (a, x) # ?d)" using l1(2) sp by simp
  from put_law [OF this l1(3), of y] obtain l2 where
    "put y l1 = Some l2" "rep l2 (?t @ (a, y) # ?d)" "cur l2 = Some a" by blast
  moreover have "update_first (hits f d) (\<lambda>(a, x). (a, y)) xs = ?t @ (a, y) # ?d"
  proof (cases "dropWhile (\<lambda>z. \<not> hits f d z) xs")
    case Nil
    then have "?t = xs" by (metis append_Nil2 takeWhile_dropWhile_id)
    with sp show ?thesis by (metis append_self_conv list.distinct(1))
  next
    case (Cons w ws)
    then have "?t @ w # ws = ?t @ (a, x) # ?d" using sp takeWhile_dropWhile_id [of "\<lambda>z. \<not> hits f d z" xs] by simp
    with Cons show ?thesis by (simp add: update_first_def)
  qed
  ultimately show ?thesis using l1 get_law [OF r l1(3)] by auto
qed

end

interpretation dl: node_list list_rep li_cur list_node_alloc_tail list_node_seek list_node_del_cur
    list_get_current_data list_overwirte_current_data
proof unfold_locales
  fix l :: "'a m_list_info" and xs a x and f :: "'a \<Rightarrow> 'b \<Rightarrow> int" and d
  assume "list_rep l xs" "find (hits f d) xs = Some (a, x)"
  then show "\<exists>l'. list_node_seek f d l = Some (f x d, l') \<and> list_rep l' xs \<and> li_cur l' = Some a"
    using seek_rep [of l xs f d] by simp
next
  fix l :: "'a m_list_info" and xs and f :: "'a \<Rightarrow> 'b \<Rightarrow> int" and d
  assume "list_rep l xs" "find (hits f d) xs = None"
  then show "\<exists>l'. list_node_seek f d l = Some (-1, l') \<and> list_rep l' xs \<and> li_cur l' = None"
    using seek_rep [of l xs f d] by simp
next
  fix l :: "'a m_list_info"
  assume "li_cur l = None"
  then show "list_node_del_cur l = Some (1, l)" by (simp add: list_node_del_cur_def)
qed (metis alloc_tail_rep, metis del_cur_rep, metis get_current_rep, metis overwrite_rep)

section \<open>Sequences of operations\<close>

datatype ('a, 'b) list_op = L_add nat 'a | L_find 'b | L_remove 'b

fun list_step :: "('a \<Rightarrow> 'b \<Rightarrow> int) \<Rightarrow> ('a, 'b) list_op \<Rightarrow> 'a m_list_info \<Rightarrow> (int \<times> 'a m_list_info) option" where
  "list_step f (L_add a z) l = map_option (Pair 0) (list_node_alloc_tail z a l)"
| "list_step f (L_find d) l = list_node_seek f d l"
| "list_step f (L_remove d) l = Option.bind (list_node_seek f d l) (\<lambda>(r, l). list_node_del_cur l)"

fun list_run :: "('a \<Rightarrow> 'b \<Rightarrow> int) \<Rightarrow> 'a m_list_info \<Rightarrow> ('a, 'b) list_op list \<Rightarrow> (int list \<times> 'a m_list_info) option" where
  "list_run f l [] = Some ([], l)"
| "list_run f l (x # xs) =
     Option.bind (list_step f x l) (\<lambda>(r, l). map_option (\<lambda>(rs, l). (r # rs, l)) (list_run f l xs))"

text \<open>The same on a sequence of pairs of address and data.\<close>

fun seq_step :: "('a \<Rightarrow> 'b \<Rightarrow> int) \<Rightarrow> ('a, 'b) list_op \<Rightarrow> (nat \<times> 'a) list \<Rightarrow> int \<times> (nat \<times> 'a) list" where
  "seq_step f (L_add a z) s = (0, s @ [(a, z)])"
| "seq_step f (L_find d) s = (case find (hits f d) s of None \<Rightarrow> -1 | Some (a, x) \<Rightarrow> f x d, s)"
| "seq_step f (L_remove d) s = (if find (hits f d) s = None then 1 else 0, remove_first (hits f d) s)"

text \<open>\<open>malloc\<close> returns an address that is not in use.\<close>

fun adds_fresh :: "('a \<Rightarrow> 'b \<Rightarrow> int) \<Rightarrow> (nat \<times> 'a) list \<Rightarrow> ('a, 'b) list_op list \<Rightarrow> bool" where
  "adds_fresh f s [] = True"
| "adds_fresh f s (x # xs) =
     ((case x of L_add a z \<Rightarrow> a \<notin> fst ` set s | _ \<Rightarrow> True) \<and> adds_fresh f (snd (seq_step f x s)) xs)"

lemma list_step_rep:
  assumes "list_rep l s" "case x of L_add a z \<Rightarrow> a \<notin> fst ` set s | _ \<Rightarrow> True"
  shows "\<exists>l'. list_step f x l = Some (fst (seq_step f x s), l') \<and> list_rep l' (snd (seq_step f x s))"
proof (cases x)
  case (L_add a z)
  with dl.alloc_law [OF assms(1), of a z] assms(2) show ?thesis by auto
next
  case (L_find d)
  with seek_rep [OF assms(1), of f d] assms(1) show ?thesis by (auto split: option.split)
next
  case (L_remove d)
  with dl.seek_del [OF assms(1), of f d] show ?thesis by auto
qed

lemma list_run_rep:
  "list_rep l s \<Longrightarrow> adds_fresh f s xs \<Longrightarrow>
     \<exists>l'. list_run f l xs = Some (fst (run_ops (seq_step f) s xs), l') \<and> list_rep l' (snd (run_ops (seq_step f) s xs))"
proof (induction xs arbitrary: l s)
  case (Cons x xs)
  from list_step_rep [OF Cons.prems(1), of x f] Cons.prems(2) obtain l1 where
    "list_step f x l = Some (fst (seq_step f x s), l1)" "list_rep l1 (snd (seq_step f x s))" by auto
  with Cons.IH [of l1 "snd (seq_step f x s)"] Cons.prems(2) show ?case by (auto simp: Let_def split_beta)
qed simp

text \<open>After the last or the first node was deleted, the current pointer still has its address: without a
  new search it reads a released node.\<close>

lemma current_dangles:
  assumes "list_rep l (xs @ [(a, x)])" "li_cur l = Some a"
  shows "\<exists>l'. list_node_del_cur l = Some (0, l') \<and> li_cur l' = Some a \<and> list_get_current_data l' = None"
proof -
  from del_cur_rep [of l xs a x "[]"] assms obtain l' where
    l': "list_node_del_cur l = Some (0, l')" "list_rep l' xs" "li_cur l' = Some a" by auto
  moreover have "li_heap l' a = None"
    using l'(2) assms(1) by (auto simp: list_rep_def dom_def)
  ultimately show ?thesis by (simp add: list_get_current_data_def nd_get_def)
qed

section \<open>Properties\<close>

text \<open>C33: every sequence of insertions at the tail, searches and searches followed by a deletion runs without
  touching a released node, returns what the same operations on a sequence return, and leaves a
  list linked in both directions that holds exactly the nodes of that sequence: no other node is
  allocated.  Deleting that list then releases every node.\<close>

theorem list_is_sequence:
  assumes "adds_fresh f [] xs"
  shows "\<exists>l l'. list_run f new_list xs = Some (fst (run_ops (seq_step f) [] xs), l) \<and>
    list_rep l (snd (run_ops (seq_step f) [] xs)) \<and>
    delete_list l = Some (l', [Free_list_info, Destroy_list_lock]) \<and> li_heap l' = Map.empty"
  using list_run_rep [OF new_list_rep assms] delete_loop_rep by (fastforce simp: delete_list_def)

theorem list_is_sequence_witness:
  "\<exists>l. list_run (\<lambda>x y. if x = y then 0 else -1) new_list
       [L_add 5 (10 :: nat), L_add 7 20, L_add 9 30, L_remove (20 :: nat), L_find 30, L_remove 20, L_add 7 40] =
     Some ([0, 0, 0, 0, 0, 1, 0], l) \<and> list_rep l [(5, 10), (9, 30), (7, 40)]"
  using list_is_sequence [of "\<lambda>x y. if x = y then 0 else -1"
      "[L_add 5 (10 :: nat), L_add 7 20, L_add 9 30, L_remove (20 :: nat), L_find 30, L_remove 20, L_add 7 40]"]
  by (auto simp: remove_first_def hits_def)

end
