(* ===== verification/Fvd_Obj.thy ===== *)
theory Fvd_Obj
  imports SSH_Base
begin

text \<open>
  The configuration objects that clients exchange with the video detector and their conversion between
  host and network byte order, \<^verbatim>\<open>src/fvd-new/client_obj.c\<close> and \<^verbatim>\<open>client_obj.h\<close>.  An object is the bytes of its
  packed C structure; the conversion works in place on a buffer, a byte list of the size of the array, and
  an access beyond it is \<^term>\<open>None\<close>.  \<open>le\<close> says whether the host is little-endian.
\<close>

section \<open>Operations\<close>

datatype obj_class =
    CLASS_NULL | CLASS_char | CLASS_short | CLASS_int | CLASS_mCommand | CLASS_mDetectDeviceConfig
  | CLASS_mCamParam | CLASS_mCamDetectParam | CLASS_mChannelVirtualcoil | CLASS_mCamAttributes
  | CLASS_mCamDemarcateParam | CLASS_mCamDetectLane | CLASS_mChannelCoil | CLASS_mPoint | CLASS_mLine
  | CLASS_mVirtualLaneLine | CLASS_mStandardPoint | CLASS_mDemDetectArea | CLASS_mDetectParam

fun get_obj_len :: "obj_class \<Rightarrow> nat" where
  "get_obj_len CLASS_NULL = 0"
| "get_obj_len CLASS_char = 0"
| "get_obj_len CLASS_short = 2"
| "get_obj_len CLASS_int = 4"
| "get_obj_len CLASS_mCommand = 10"
| "get_obj_len CLASS_mDetectDeviceConfig = 219"
| "get_obj_len CLASS_mCamParam = 164"
| "get_obj_len CLASS_mCamAttributes = 125"
| "get_obj_len CLASS_mCamDemarcateParam = 14"
| "get_obj_len CLASS_mChannelVirtualcoil = 6"
| "get_obj_len CLASS_mCamDetectParam = 370"
| "get_obj_len CLASS_mCamDetectLane = 129"
| "get_obj_len CLASS_mChannelCoil = 32"
| "get_obj_len CLASS_mPoint = 4"
| "get_obj_len CLASS_mLine = 8"
| "get_obj_len CLASS_mVirtualLaneLine = 65"
| "get_obj_len CLASS_mStandardPoint = 6"
| "get_obj_len CLASS_mDemDetectArea = 64"
| "get_obj_len CLASS_mDetectParam = 36"

text \<open>The calls that \<open>net_decode_obj\<close> makes for a structure, in their order: offset of the member and its
  class, for arrays with the number of elements and their size.\<close>

datatype obj_call = Call nat obj_class | Call_n nat obj_class nat nat

fun obj_calls :: "obj_class \<Rightarrow> obj_call list" where
  "obj_calls CLASS_mCommand =
     [Call 0 CLASS_char, Call 1 CLASS_char, Call 2 CLASS_short, Call 4 CLASS_short, Call 6 CLASS_int]"
| "obj_calls CLASS_mDetectDeviceConfig = [Call 0 CLASS_int, Call 4 CLASS_int]"
| "obj_calls CLASS_mCamParam =
     [Call 1 CLASS_mCamAttributes, Call 126 CLASS_mCamDemarcateParam, Call_n 140 CLASS_mChannelVirtualcoil 4 6]"
| "obj_calls CLASS_mCamAttributes = [Call 1 CLASS_int, Call 5 CLASS_int, Call 9 CLASS_int, Call 13 CLASS_int]"
| "obj_calls CLASS_mCamDemarcateParam =
     [Call 0 CLASS_short, Call 2 CLASS_short, Call 4 CLASS_short, Call 6 CLASS_short, Call 8 CLASS_short,
      Call 10 CLASS_short, Call 12 CLASS_short]"
| "obj_calls CLASS_mChannelVirtualcoil = [Call 2 CLASS_short, Call 4 CLASS_short, Call 0 CLASS_short]"
| "obj_calls CLASS_mCamDetectParam =
     [Call_n 0 CLASS_int 4 4, Call 16 CLASS_mCamDetectLane, Call 145 CLASS_mVirtualLaneLine,
      Call_n 210 CLASS_mStandardPoint 4 6, Call 234 CLASS_mDemDetectArea, Call_n 298 CLASS_mDetectParam 2 36]"
| "obj_calls CLASS_mCamDetectLane = [Call 0 CLASS_char, Call_n 1 CLASS_mChannelCoil 4 32]"
| "obj_calls CLASS_mChannelCoil = [Call_n 0 CLASS_mPoint 4 4, Call_n 16 CLASS_mPoint 4 4]"
| "obj_calls CLASS_mPoint = [Call 0 CLASS_short, Call 2 CLASS_short]"
| "obj_calls CLASS_mLine = [Call 0 CLASS_short, Call 2 CLASS_short, Call 4 CLASS_short, Call 6 CLASS_short]"
| "obj_calls CLASS_mVirtualLaneLine = [Call 0 CLASS_char, Call_n 1 CLASS_mLine 8 8]"
| "obj_calls CLASS_mStandardPoint = [Call 0 CLASS_mPoint, Call 4 CLASS_short]"
| "obj_calls CLASS_mDemDetectArea = [Call_n 0 CLASS_mPoint 8 4, Call_n 32 CLASS_mPoint 8 4]"
| "obj_calls CLASS_mDetectParam =
     [Call 0 CLASS_short, Call 2 CLASS_int, Call 6 CLASS_int, Call 10 CLASS_int, Call 14 CLASS_int,
      Call 18 CLASS_short, Call 20 CLASS_short, Call 22 CLASS_short, Call 24 CLASS_short, Call 26 CLASS_short,
      Call 28 CLASS_short, Call 30 CLASS_short, Call 32 CLASS_short, Call 34 CLASS_short]"
| "obj_calls _ = []"

text \<open>\<open>htons\<close>, \<open>htonl\<close>, \<open>ntohs\<close> and \<open>ntohl\<close> on the \<open>w\<close> bytes at \<open>p\<close>.\<close>

definition swap_bytes :: "bool \<Rightarrow> nat \<Rightarrow> nat \<Rightarrow> byte list \<Rightarrow> byte list option" where
  "swap_bytes le w p m =
     (if p + w \<le> length m then Some (if le then mem_write p (rev (take w (drop p m))) m else m) else None)"

definition ntoh :: "bool \<Rightarrow> nat \<Rightarrow> nat \<Rightarrow> byte list \<Rightarrow> byte list option" where
  "ntoh = swap_bytes"

definition hton :: "bool \<Rightarrow> nat \<Rightarrow> nat \<Rightarrow> byte list \<Rightarrow> byte list option" where
  "hton = swap_bytes"

fun class_depth :: "obj_class \<Rightarrow> nat" where
  "class_depth CLASS_NULL = 0"
| "class_depth CLASS_char = 0"
| "class_depth CLASS_short = 0"
| "class_depth CLASS_int = 0"
| "class_depth CLASS_mCamParam = 2"
| "class_depth CLASS_mCamDetectParam = 4"
| "class_depth CLASS_mCamDetectLane = 3"
| "class_depth CLASS_mChannelCoil = 2"
| "class_depth CLASS_mVirtualLaneLine = 2"
| "class_depth CLASS_mStandardPoint = 2"
| "class_depth CLASS_mDemDetectArea = 2"
| "class_depth _ = 1"

fun call_class :: "obj_call \<Rightarrow> obj_class" where
  "call_class (Call off t) = t"
| "call_class (Call_n off t n sz) = t"

definition calls_depth :: "obj_call list \<Rightarrow> nat" where
  "calls_depth cs = foldr (\<lambda>c. max (class_depth (call_class c))) cs 0"

lemma calls_depth_simps [simp]:
  "calls_depth [] = 0" "calls_depth (c # cs) = max (class_depth (call_class c)) (calls_depth cs)"
  by (simp_all add: calls_depth_def)

text \<open>The base classes are converted, the others make their calls.\<close>

definition is_base :: "obj_class \<Rightarrow> bool" where
  "is_base t \<longleftrightarrow> t \<in> {CLASS_NULL, CLASS_char, CLASS_short, CLASS_int}"

lemma obj_calls_depth: "\<not> is_base t \<Longrightarrow> 3 * calls_depth (obj_calls t) + 2 < 3 * class_depth t"
  by (cases t) (simp_all add: is_base_def)

function (sequential) net_decode_obj :: "bool \<Rightarrow> bool \<Rightarrow> obj_class \<Rightarrow> nat \<Rightarrow> byte list \<Rightarrow> byte list option"
  and net_decode_obj_n :: "bool \<Rightarrow> bool \<Rightarrow> obj_class \<Rightarrow> nat \<Rightarrow> nat \<Rightarrow> nat \<Rightarrow> byte list \<Rightarrow> byte list option"
  and net_decode_calls :: "bool \<Rightarrow> bool \<Rightarrow> nat \<Rightarrow> obj_call list \<Rightarrow> byte list \<Rightarrow> byte list option" where
  "net_decode_obj le encode t bf m =
     (if is_base t then
        (if t = CLASS_short then (if \<not> encode then ntoh le 2 bf m else hton le 2 bf m)
         else if t = CLASS_int then (if \<not> encode then ntoh le 4 bf m else hton le 4 bf m)
         else Some m)
      else net_decode_calls le encode bf (obj_calls t) m)"
| "net_decode_obj_n le encode t addr 0 sz m = Some m"
| "net_decode_obj_n le encode t addr (Suc num) sz m =
     (case net_decode_obj le encode t addr m of None \<Rightarrow> None
      | Some m \<Rightarrow> net_decode_obj_n le encode t (addr + sz) num sz m)"
| "net_decode_calls le encode bf [] m = Some m"
| "net_decode_calls le encode bf (Call off t # cs) m =
     (case net_decode_obj le encode t (bf + off) m of None \<Rightarrow> None | Some m \<Rightarrow> net_decode_calls le encode bf cs m)"
| "net_decode_calls le encode bf (Call_n off t num sz # cs) m =
     (case net_decode_obj_n le encode t (bf + off) num sz m of None \<Rightarrow> None
      | Some m \<Rightarrow> net_decode_calls le encode bf cs m)"
  by pat_completeness auto
termination
  by (relation "measures
      [\<lambda>x. case x of Inl (le, e, t, bf, m) \<Rightarrow> 3 * class_depth t
             | Inr (Inl (le, e, t, a, n, sz, m)) \<Rightarrow> 3 * class_depth t + 1
             | Inr (Inr (le, e, bf, cs, m)) \<Rightarrow> 3 * calls_depth cs + 2,
       \<lambda>x. case x of Inl _ \<Rightarrow> 0 | Inr (Inl (le, e, t, a, n, sz, m)) \<Rightarrow> n | Inr (Inr (le, e, bf, cs, m)) \<Rightarrow> length cs]")
    (auto dest: obj_calls_depth)

text \<open>The reply type is stored in host order in the header before the object is copied behind it.\<close>

definition host_u16 :: "bool \<Rightarrow> 16 word \<Rightarrow> byte list" where
  "host_u16 le v = (if le then [ucast v, ucast (drop_bit 8 v)] else [ucast (drop_bit 8 v), ucast v])"

definition host_read_u16 :: "bool \<Rightarrow> nat \<Rightarrow> byte list \<Rightarrow> 16 word" where
  "host_read_u16 le p m = (if le then peek_u16 (rev (take 2 (drop p m))) else peek_u16 (take 2 (drop p m)))"

definition prepare_pkt ::
  "bool \<Rightarrow> nat \<Rightarrow> 16 word \<Rightarrow> obj_class \<Rightarrow> nat \<Rightarrow> byte list \<Rightarrow> byte list \<Rightarrow> (nat \<times> byte list) option" where
  "prepare_pkt le head_length reply_type class_type class_length p_obj m =
     (if 6 > length m \<or> head_length + class_length > length m \<or> class_length > length p_obj then None
      else map_option (Pair (head_length + class_length))
        (net_decode_obj le True class_type head_length
          (mem_write head_length (take class_length p_obj) (mem_write 4 (host_u16 le reply_type) m))))"

definition handle_pkt :: "bool \<Rightarrow> nat \<Rightarrow> obj_class \<Rightarrow> nat \<Rightarrow> byte list \<Rightarrow> (nat \<times> byte list) option" where
  "handle_pkt le head_length class_type class_length m =
     map_option (Pair 0) (net_decode_obj le False class_type head_length m)"

definition get_pkt ::
  "bool \<Rightarrow> nat \<Rightarrow> 16 word \<Rightarrow> obj_class \<Rightarrow> nat \<Rightarrow> byte list \<Rightarrow> byte list \<Rightarrow> (nat \<times> byte list) option" where
  "get_pkt le head_length reply_type class_type class_length p_obj m =
     (if 6 > length m \<or> head_length + class_length > length m \<or> class_length > length p_obj then None
      else map_option (Pair (head_length + class_length))
        (net_decode_obj le True class_type head_length
          (mem_write head_length (take class_length p_obj) (mem_write 4 (host_u16 le reply_type) m))))"

section \<open>Layout\<close>

text \<open>The numbers of a structure: offset and width of every member of a base class that is converted.\<close>

definition shift_fields :: "nat \<Rightarrow> (nat \<times> nat) list \<Rightarrow> (nat \<times> nat) list" where
  "shift_fields k fs = map (\<lambda>(p, w). (p + k, w)) fs"

fun rep_fields :: "nat \<Rightarrow> nat \<Rightarrow> nat \<Rightarrow> (nat \<times> nat) list \<Rightarrow> (nat \<times> nat) list" where
  "rep_fields 0 sz k fs = []"
| "rep_fields (Suc n) sz k fs = shift_fields k fs @ rep_fields n sz (k + sz) fs"

function obj_fields :: "obj_class \<Rightarrow> (nat \<times> nat) list" and call_fields :: "obj_call list \<Rightarrow> (nat \<times> nat) list" where
  "obj_fields t =
     (if is_base t then (if t = CLASS_short then [(0, 2)] else if t = CLASS_int then [(0, 4)] else [])
      else call_fields (obj_calls t))"
| "call_fields [] = []"
| "call_fields (Call off t # cs) = shift_fields off (obj_fields t) @ call_fields cs"
| "call_fields (Call_n off t n sz # cs) = rep_fields n sz off (obj_fields t) @ call_fields cs"
  by pat_completeness auto
termination
  by (relation "measures
      [\<lambda>x. case x of Inl t \<Rightarrow> 3 * class_depth t | Inr cs \<Rightarrow> 3 * calls_depth cs + 2,
       \<lambda>x. case x of Inl _ \<Rightarrow> 0 | Inr cs \<Rightarrow> length cs]")
    (auto dest: obj_calls_depth)

declare obj_fields.simps [simp del] net_decode_obj.simps [simp del]

text \<open>The bytes of some fields reversed, one field after the other.\<close>

fun swap_fields :: "bool \<Rightarrow> (nat \<times> nat) list \<Rightarrow> byte list \<Rightarrow> byte list option" where
  "swap_fields le [] m = Some m"
| "swap_fields le ((p, w) # fs) m =
     (case swap_bytes le w p m of None \<Rightarrow> None | Some m \<Rightarrow> swap_fields le fs m)"

lemma shift_shift: "shift_fields a (shift_fields b fs) = shift_fields (a + b) fs"
  by (simp add: shift_fields_def split_beta ac_simps)

lemma shift_append: "shift_fields a (fs @ gs) = shift_fields a fs @ shift_fields a gs"
  by (simp add: shift_fields_def)

lemma shift_rep: "shift_fields a (rep_fields n sz k fs) = rep_fields n sz (a + k) fs"
  by (induction n arbitrary: k) (simp_all add: shift_append shift_shift add.assoc, simp add: shift_fields_def)

lemma swap_append:
  "swap_fields le (fs @ gs) m = (case swap_fields le fs m of None \<Rightarrow> None | Some m \<Rightarrow> swap_fields le gs m)"
  by (induction le fs m rule: swap_fields.induct) (auto split: option.split)

text \<open>The conversion reverses the bytes of the fields.\<close>

lemma net_decode_fields:
  "net_decode_obj le encode t bf m = swap_fields le (shift_fields bf (obj_fields t)) m"
  "net_decode_obj_n le encode t addr num sz m = swap_fields le (rep_fields num sz addr (obj_fields t)) m"
  "net_decode_calls le encode bf cs m = swap_fields le (shift_fields bf (call_fields cs)) m"
proof (induction le encode t bf m and le encode t addr num sz m and le encode bf cs m
    rule: net_decode_obj_net_decode_obj_n_net_decode_calls.induct)
  case (1 le encode t bf m)
  then show ?case
    by (auto simp: net_decode_obj.simps [of le] obj_fields.simps [of t] is_base_def ntoh_def hton_def shift_fields_def split: option.split)
next
  case (3 le encode t addr num sz m)
  then show ?case by (simp add: swap_append split: option.split)
next
  case (5 le encode bf off t cs m)
  then show ?case by (simp add: swap_append shift_append shift_shift split: option.split)
next
  case (6 le encode bf off t num sz cs m)
  then show ?case by (simp add: swap_append shift_append shift_rep split: option.split)
qed (simp_all add: shift_fields_def)

text \<open>Fields between \<open>lo\<close> and \<open>hi\<close> that do not overlap.\<close>

definition apart :: "nat \<times> nat \<Rightarrow> nat \<times> nat \<Rightarrow> bool" where
  "apart f g \<longleftrightarrow> fst f + snd f \<le> fst g \<or> fst g + snd g \<le> fst f"

definition fits :: "nat \<Rightarrow> nat \<Rightarrow> (nat \<times> nat) list \<Rightarrow> bool" where
  "fits lo hi fs \<longleftrightarrow> (\<forall>(p, w) \<in> set fs. lo \<le> p \<and> p + w \<le> hi) \<and> sorted_wrt apart fs"

lemma fits_Nil [simp]: "fits lo hi []"
  by (simp add: fits_def)

lemma fits_mono: "fits lo hi fs \<Longrightarrow> lo' \<le> lo \<Longrightarrow> hi \<le> hi' \<Longrightarrow> fits lo' hi' fs"
  by (fastforce simp: fits_def)

lemma fits_append: "fits lo mid fs \<Longrightarrow> fits mid hi gs \<Longrightarrow> lo \<le> mid \<Longrightarrow> mid \<le> hi \<Longrightarrow> fits lo hi (fs @ gs)"
  by (fastforce simp: fits_def sorted_wrt_append apart_def)

lemma fits_shift: "fits lo hi fs \<Longrightarrow> fits (lo + k) (hi + k) (shift_fields k fs)"
  by (fastforce simp: fits_def shift_fields_def sorted_wrt_map apart_def split_beta elim: sorted_wrt_mono_rel [rotated])

lemma fits_rep: "fits 0 sz fs \<Longrightarrow> fits k (k + n * sz) (rep_fields n sz k fs)"
proof (induction n arbitrary: k)
  case (Suc n)
  from fits_shift [OF Suc.prems, of k] Suc.IH [OF Suc.prems, of "k + sz"] show ?case
    using fits_append [of k "k + sz" "shift_fields k fs" "k + (sz + n * sz)" "rep_fields n sz (k + sz) fs"]
    by (simp add: ac_simps)
qed simp

text \<open>Calls whose members follow one another between \<open>lo\<close> and \<open>hi\<close>.\<close>

fun calls_fit :: "nat \<Rightarrow> nat \<Rightarrow> obj_call list \<Rightarrow> bool" where
  "calls_fit lo hi [] \<longleftrightarrow> lo \<le> hi"
| "calls_fit lo hi (Call off t # cs) \<longleftrightarrow> lo \<le> off \<and> calls_fit (off + get_obj_len t) hi cs"
| "calls_fit lo hi (Call_n off t n sz # cs) \<longleftrightarrow>
     lo \<le> off \<and> sz = get_obj_len t \<and> calls_fit (off + n * sz) hi cs"

lemma calls_fit_le: "calls_fit lo hi cs \<Longrightarrow> lo \<le> hi"
  by (induction lo hi cs rule: calls_fit.induct) auto

lemma calls_fits:
  "calls_fit lo hi cs \<Longrightarrow> \<forall>c \<in> set cs. fits 0 (get_obj_len (call_class c)) (obj_fields (call_class c)) \<Longrightarrow>
     fits lo hi (call_fields cs)"
proof (induction lo hi cs rule: calls_fit.induct)
  case (2 lo hi off t cs)
  have "fits (0 + off) (get_obj_len t + off) (shift_fields off (obj_fields t))" using 2 by (intro fits_shift) simp
  then have "fits lo (off + get_obj_len t) (shift_fields off (obj_fields t))"
    using 2(2) by (auto intro: fits_mono simp: add.commute)
  moreover have "fits (off + get_obj_len t) hi (call_fields cs)" using 2 by simp
  ultimately show ?case using 2(2) calls_fit_le [of "off + get_obj_len t" hi cs] by (auto intro: fits_append)
next
  case (3 lo hi off t n sz cs)
  have "fits off (off + n * sz) (rep_fields n sz off (obj_fields t))" using 3 by (intro fits_rep) simp
  then have "fits lo (off + n * sz) (rep_fields n sz off (obj_fields t))" using 3(2) by (auto intro: fits_mono)
  moreover have "fits (off + n * sz) hi (call_fields cs)" using 3 by auto
  ultimately show ?case using 3(2) calls_fit_le [of "off + n * sz" hi cs] by (auto intro: fits_append)
qed simp

lemma calls_depth_ge: "c \<in> set cs \<Longrightarrow> class_depth (call_class c) \<le> calls_depth cs"
  by (induction cs) auto

text \<open>Every structure keeps its numbers within its size, one apart from the other.\<close>

lemma obj_fits: "fits 0 (get_obj_len t) (obj_fields t)"
proof (induction t rule: measure_induct_rule [of class_depth])
  case (less t)
  show ?case
  proof (cases "is_base t \<or> t = CLASS_mChannelVirtualcoil")
    case True
    then show ?thesis by (auto simp: obj_fields.simps is_base_def fits_def shift_fields_def apart_def)
  next
    case False
    then have "calls_fit 0 (get_obj_len t) (obj_calls t)" by (cases t) (simp_all add: is_base_def)
    moreover have "class_depth (call_class c) < class_depth t" if "c \<in> set (obj_calls t)" for c
      using calls_depth_ge [OF that] obj_calls_depth [of t] False by auto
    ultimately have "fits 0 (get_obj_len t) (call_fields (obj_calls t))" using less calls_fits by blast
    with False show ?thesis by (simp add: obj_fields.simps)
  qed
qed

section \<open>Reversal of fields\<close>

lemma nth_swap:
  assumes "p + w \<le> length m" "j < length m"
  shows "mem_write p (rev (take w (drop p m))) m ! j = (if p \<le> j \<and> j < p + w then m ! (p + (w - 1 - (j - p))) else m ! j)"
proof -
  have "min (length m - p) w = w" using assms(1) by simp
  then show ?thesis using assms by (auto simp: mem_write_def nth_append rev_nth)
qed

lemma swap_Some: "p + w \<le> length m \<Longrightarrow> \<exists>m'. swap_bytes le w p m = Some m' \<and> length m' = length m"
  by (simp add: swap_bytes_def)

lemma swap_swap:
  assumes "swap_bytes le w p m = Some m'"
  shows "swap_bytes le w p m' = Some m"
proof (cases le)
  case True
  let ?s = "\<lambda>m. mem_write p (rev (take w (drop p m))) m"
  have le: "p + w \<le> length m" and m': "m' = ?s m" using assms True by (auto simp: swap_bytes_def split: if_splits)
  have len: "length (?s x) = length x" if "p + w \<le> length x" for x using that by simp
  have "?s (?s m) = m"
    using le by (intro nth_equalityI) (auto simp: len nth_swap)
  then show ?thesis using True le m' len by (simp add: swap_bytes_def)
qed (use assms in \<open>auto simp: swap_bytes_def split: if_splits\<close>)

lemma swap_commute:
  assumes "apart (p, w) (q, v)" "p + w \<le> length m" "q + v \<le> length m"
  shows "Option.bind (swap_bytes le w p m) (swap_bytes le v q) = Option.bind (swap_bytes le v q m) (swap_bytes le w p)"
proof (cases le)
  case True
  let ?s = "\<lambda>p w m. mem_write p (rev (take w (drop p m))) m"
  have len: "length (?s p w x) = length x" if "p + w \<le> length x" for p w and x :: "byte list" using that by simp
  have "?s q v (?s p w m) = ?s p w (?s q v m)"
    using assms by (intro nth_equalityI) (auto simp: len nth_swap apart_def)
  with True assms(2,3) show ?thesis by (simp add: swap_bytes_def len)
qed (simp add: swap_bytes_def)

definition in_mem :: "(nat \<times> nat) list \<Rightarrow> byte list \<Rightarrow> bool" where
  "in_mem fs m \<longleftrightarrow> (\<forall>(p, w) \<in> set fs. p + w \<le> length m) \<and> sorted_wrt apart fs"

lemma in_mem_Cons: "in_mem ((p, w) # fs) m \<longleftrightarrow> p + w \<le> length m \<and> (\<forall>g \<in> set fs. apart (p, w) g) \<and> in_mem fs m"
  by (auto simp: in_mem_def)

lemma in_mem_length: "length m' = length m \<Longrightarrow> in_mem fs m' \<longleftrightarrow> in_mem fs m"
  by (simp add: in_mem_def)

lemma swap_fields_Some: "in_mem fs m \<Longrightarrow> \<exists>m'. swap_fields le fs m = Some m' \<and> length m' = length m"
proof (induction fs arbitrary: m)
  case (Cons f fs)
  obtain p w where f: "f = (p, w)" by fastforce
  with Cons.prems obtain m1 where "swap_bytes le w p m = Some m1" "length m1 = length m"
    using swap_Some [of p w m le] by (auto simp: in_mem_Cons)
  with Cons.IH [of m1] Cons.prems f in_mem_length [of m1 m fs] show ?case by (auto simp: in_mem_Cons)
qed simp

lemma swap_fields_commute:
  assumes "in_mem ((p, w) # fs) m"
  shows "Option.bind (swap_bytes le w p m) (swap_fields le fs) = Option.bind (swap_fields le fs m) (swap_bytes le w p)"
  using assms
proof (induction fs arbitrary: m)
  case Nil
  then show ?case using swap_Some [of p w m le] by (auto simp: in_mem_Cons)
next
  case (Cons g fs)
  obtain q v where g: "g = (q, v)" by fastforce
  from Cons.prems g have b: "apart (p, w) (q, v)" "p + w \<le> length m" "q + v \<le> length m" by (auto simp: in_mem_Cons)
  obtain mp mq where m: "swap_bytes le w p m = Some mp" "swap_bytes le v q m = Some mq" "length mq = length m"
    using swap_Some [OF b(2), of le] swap_Some [OF b(3), of le] by auto
  have "swap_bytes le v q mp = swap_bytes le w p mq" using swap_commute [OF b, of le] m by simp
  moreover have "in_mem ((p, w) # fs) mq"
    using Cons.prems in_mem_length [OF m(3), of "(p, w) # fs"] by (auto simp: in_mem_Cons g)
  ultimately show ?case using Cons.IH [of mq] m g by (cases "swap_bytes le w p mq") auto
qed

lemma swap_fields_twice: "in_mem fs m \<Longrightarrow> swap_fields le fs m = Some m' \<Longrightarrow> swap_fields le fs m' = Some m"
proof (induction fs arbitrary: m m')
  case (Cons f fs)
  obtain p w where f: "f = (p, w)" by fastforce
  with Cons.prems obtain m1 where
    m1: "swap_bytes le w p m = Some m1" "swap_fields le fs m1 = Some m'" "length m1 = length m"
    using swap_Some [of p w m le] by (auto simp: in_mem_Cons)
  then have l: "length m' = length m" "in_mem fs m1"
    using swap_fields_Some [of fs m1 le] Cons.prems f in_mem_length [of m1 m fs] by (auto simp: in_mem_Cons)
  then have "in_mem ((p, w) # fs) m'" using Cons.prems f in_mem_length by blast
  from swap_fields_commute [OF this, of le] Cons.IH [OF l(2) m1(2)] swap_swap [OF m1(1)] have
    "Option.bind (swap_bytes le w p m') (swap_fields le fs) = Some m" by simp
  then show ?case using f by (cases "swap_bytes le w p m'") auto
qed simp

lemma slice_eq:
  "length a = length b \<Longrightarrow> p + w \<le> length b \<Longrightarrow> \<forall>j. p \<le> j \<and> j < p + w \<longrightarrow> a ! j = b ! j \<Longrightarrow>
     take w (drop p a) = take w (drop p b)"
  by (intro nth_equalityI) auto

definition host_order :: "bool \<Rightarrow> byte list \<Rightarrow> byte list" where
  "host_order le bs = (if le then rev bs else bs)"

lemma swap_bytes_nth:
  assumes "p + w \<le> length m" "swap_bytes le w p m = Some m'"
  shows "length m' = length m" "take w (drop p m') = host_order le (take w (drop p m))"
    "\<forall>j < length m. \<not> (p \<le> j \<and> j < p + w) \<longrightarrow> m' ! j = m ! j"
  using assms nth_swap [OF assms(1)]
  by (auto simp: swap_bytes_def host_order_def mem_write_def split: if_splits)

lemma swap_fields_nth:
  assumes "in_mem fs m" "swap_fields le fs m = Some m'"
  shows "length m' = length m \<and> (\<forall>(p, w) \<in> set fs. take w (drop p m') = host_order le (take w (drop p m))) \<and>
    (\<forall>j < length m. (\<forall>(p, w) \<in> set fs. \<not> (p \<le> j \<and> j < p + w)) \<longrightarrow> m' ! j = m ! j)"
  using assms
proof (induction fs arbitrary: m)
  case (Cons f fs)
  obtain p w where f: "f = (p, w)" by fastforce
  from Cons.prems f obtain m1 where m1: "swap_bytes le w p m = Some m1" "swap_fields le fs m1 = Some m'"
    by (auto split: option.splits)
  have b: "p + w \<le> length m" "\<forall>g \<in> set fs. apart (p, w) g" "in_mem fs m" using Cons.prems(1) f by (auto simp: in_mem_Cons)
  note s = swap_bytes_nth [OF b(1) m1(1)]
  have ih: "length m' = length m1" "\<forall>(q, v) \<in> set fs. take v (drop q m') = host_order le (take v (drop q m1))"
    "\<forall>j < length m1. (\<forall>(q, v) \<in> set fs. \<not> (q \<le> j \<and> j < q + v)) \<longrightarrow> m' ! j = m1 ! j"
    using Cons.IH [OF _ m1(2)] b(3) in_mem_length [OF s(1)] by auto
  have "take w (drop p m') = take w (drop p m1)"
  proof (intro slice_eq allI impI)
    fix j
    assume j: "p \<le> j \<and> j < p + w"
    have "\<forall>(q, v) \<in> set fs. \<not> (q \<le> j \<and> j < q + v)"
    proof clarify
      fix q v
      assume "(q, v) \<in> set fs" "q \<le> j" "j < q + v"
      with j b(2) show False by (fastforce simp: apart_def)
    qed
    with ih(3) s(1) b(1) j show "m' ! j = m1 ! j" by auto
  qed (use ih(1) s(1) b(1) in simp_all)
  moreover have "take v (drop q m1) = take v (drop q m)" if "(q, v) \<in> set fs" for q v
    using that s(1,3) b by (intro slice_eq) (fastforce simp: apart_def in_mem_def)+
  ultimately show ?case using ih s f by fastforce
qed simp

text \<open>The fields of an object at \<open>bf\<close> lie in a buffer that has room for it.\<close>

lemma obj_in_mem:
  assumes "bf + get_obj_len t \<le> length m"
  shows "in_mem (shift_fields bf (obj_fields t)) m"
  using fits_shift [OF obj_fits [of t], of bf] assms by (fastforce simp: fits_def in_mem_def)

lemma obj_field_bound:
  "(p, w) \<in> set (shift_fields bf (obj_fields t)) \<Longrightarrow> bf \<le> p \<and> p + w \<le> bf + get_obj_len t"
  using fits_shift [OF obj_fits [of t], of bf] by (fastforce simp: fits_def)

lemma obj_decode_Some:
  assumes "bf + get_obj_len t \<le> length m"
  obtains m' where "net_decode_obj le encode t bf m = Some m'" "length m' = length m"
    "take bf m' = take bf m" "drop (bf + get_obj_len t) m' = drop (bf + get_obj_len t) m"
    "\<forall>encode. net_decode_obj le encode t bf m' = Some m"
proof -
  let ?fs = "shift_fields bf (obj_fields t)"
  note im = obj_in_mem [OF assms]
  obtain m' where m': "swap_fields le ?fs m = Some m'" using swap_fields_Some [OF im, of le] by blast
  note n = swap_fields_nth [OF im m']
  have out: "m' ! j = m ! j" if "j < length m" "j < bf \<or> bf + get_obj_len t \<le> j" for j
  proof -
    have "\<forall>(p, w) \<in> set ?fs. \<not> (p \<le> j \<and> j < p + w)" using that(2) obj_field_bound by fastforce
    then show ?thesis using n that(1) by blast
  qed
  have "take bf m' = take bf m" using n assms out by (intro nth_equalityI) auto
  moreover have "drop (bf + get_obj_len t) m' = drop (bf + get_obj_len t) m"
    using n assms out by (intro nth_equalityI) auto
  ultimately show thesis using that m' n swap_fields_twice [OF im m'] by (simp add: net_decode_fields)
qed

text \<open>The conversion of an object alone; in a buffer it changes the object only.\<close>

definition convert :: "bool \<Rightarrow> obj_class \<Rightarrow> byte list \<Rightarrow> byte list" where
  "convert le t s = the (net_decode_obj le True t 0 s)"

lemma swap_bytes_slice:
  "length a = k \<Longrightarrow> p + w \<le> length s \<Longrightarrow>
     swap_bytes le w (p + k) (a @ s @ c) = map_option (\<lambda>s. a @ s @ c) (swap_bytes le w p s)"
  by (simp add: swap_bytes_def mem_write_def)

lemma swap_fields_slice:
  "length a = k \<Longrightarrow> in_mem fs s \<Longrightarrow>
     swap_fields le (shift_fields k fs) (a @ s @ c) = map_option (\<lambda>s. a @ s @ c) (swap_fields le fs s)"
proof (induction fs arbitrary: s)
  case (Cons f fs)
  obtain p w where f: "f = (p, w)" by fastforce
  with Cons.prems obtain s1 where s1: "swap_bytes le w p s = Some s1" "length s1 = length s"
    using swap_Some [of p w s le] by (auto simp: in_mem_Cons)
  moreover have "in_mem fs s1" using Cons.prems f in_mem_length [OF s1(2)] by (simp add: in_mem_Cons)
  ultimately show ?case using Cons f swap_bytes_slice [of a k p w s le c]
    by (simp add: in_mem_Cons) (simp add: shift_fields_def)
qed (simp add: shift_fields_def)

lemma shift_zero: "shift_fields 0 fs = fs"
  by (simp add: shift_fields_def split_beta)

lemma convert_props:
  assumes "length s = get_obj_len t"
  shows "net_decode_obj le encode t 0 s = Some (convert le t s)" "length (convert le t s) = get_obj_len t"
    "convert le t (convert le t s) = s"
proof -
  obtain s' where s': "net_decode_obj le True t 0 s = Some s'" "length s' = length s"
    "\<forall>encode. net_decode_obj le encode t 0 s' = Some s"
    using obj_decode_Some [of 0 t s le True] assms by auto
  then show "net_decode_obj le encode t 0 s = Some (convert le t s)" "length (convert le t s) = get_obj_len t"
    "convert le t (convert le t s) = s"
    using assms by (simp_all add: convert_def) (simp add: net_decode_fields)
qed

lemma decode_slice:
  assumes "length a = k" "length s = get_obj_len t"
  shows "net_decode_obj le encode t k (a @ s @ c) = Some (a @ convert le t s @ c)"
proof -
  have "in_mem (obj_fields t) s" using obj_in_mem [of 0 t s] assms(2) by (simp add: shift_zero)
  from swap_fields_slice [OF assms(1) this, of le c] convert_props(1) [OF assms(2), of le encode]
  show ?thesis by (simp add: net_decode_fields shift_zero)
qed

section \<open>Properties\<close>

text \<open>The conversion of an object of any class, in a buffer that has room for it, gives every number of the
  structure (the fields of its layout) the bytes of the other byte order and leaves every other byte
  of the buffer as it is; converting the result once more, in either direction, gives back the
  buffer.  In particular no call of the recursion leaves the object.\<close>

lemma net_decode_obj_spec:
  assumes "bf + get_obj_len t \<le> length m"
  shows "\<exists>m'. net_decode_obj le encode t bf m = Some m' \<and> net_decode_obj le encode' t bf m' = Some m \<and>
    length m' = length m \<and>
    (\<forall>(p, w) \<in> set (obj_fields t). take w (drop (bf + p) m') = host_order le (take w (drop (bf + p) m))) \<and>
    (\<forall>j < length m. (\<forall>(p, w) \<in> set (obj_fields t). \<not> (bf + p \<le> j \<and> j < bf + p + w)) \<longrightarrow> m' ! j = m ! j)"
proof -
  let ?fs = "shift_fields bf (obj_fields t)"
  note im = obj_in_mem [OF assms]
  obtain m' where m': "swap_fields le ?fs m = Some m'" using swap_fields_Some [OF im, of le] by blast
  have "net_decode_obj le encode t bf m = Some m'" "net_decode_obj le encode' t bf m' = Some m"
    using m' swap_fields_twice [OF im m'] by (simp_all add: net_decode_fields)
  moreover note swap_fields_nth [OF im m']
  ultimately show ?thesis by (auto simp: shift_fields_def split_beta add.commute)
qed

text \<open>A packet that \<open>prepare_pkt\<close> builds behind a header is the header with the reply type, the converted
  object and the rest of the buffer; a receiver that applies \<open>handle_pkt\<close> to it, on a host of the
  same byte order, reads back the object.\<close>

lemma packet_roundtrip:
  assumes "6 \<le> head_length" "head_length + get_obj_len t \<le> length m" "length obj = get_obj_len t"
  shows "\<exists>m1 m2. prepare_pkt le head_length reply t (get_obj_len t) obj m = Some (head_length + get_obj_len t, m1) \<and>
    length m1 = length m \<and> take head_length m1 = take head_length (mem_write 4 (host_u16 le reply) m) \<and>
    drop (head_length + get_obj_len t) m1 = drop (head_length + get_obj_len t) m \<and>
    handle_pkt le head_length t (get_obj_len t) m1 = Some (0, m2) \<and>
    take (get_obj_len t) (drop head_length m2) = obj"
proof -
  let ?h = "mem_write 4 (host_u16 le reply) m"
  let ?m = "mem_write head_length obj ?h"
  have h: "length ?h = length m" using assms(1,2) by (simp add: host_u16_def)
  have len: "length ?m = length m" using assms h by simp
  obtain m1 where m1: "net_decode_obj le True t head_length ?m = Some m1" "length m1 = length ?m"
    "take head_length m1 = take head_length ?m"
    "drop (head_length + get_obj_len t) m1 = drop (head_length + get_obj_len t) ?m"
    "\<forall>encode. net_decode_obj le encode t head_length m1 = Some ?m"
    using obj_decode_Some [of head_length t ?m le True] assms(2) len by auto
  have "take head_length ?m = take head_length ?h" using assms h by (intro take_mem_write) simp_all
  moreover have "drop (head_length + get_obj_len t) ?m = drop (head_length + get_obj_len t) m"
    using assms by (simp add: mem_write_def host_u16_def)
  moreover have "take (get_obj_len t) (drop head_length ?m) = obj" using assms h by (simp add: mem_write_def)
  ultimately show ?thesis using assms m1 len by (auto simp: prepare_pkt_def handle_pkt_def)
qed

end
