(* ===== verification/Fvd_Camera.thy ===== *)
theory Fvd_Camera
  imports SSH_Base
begin

text \<open>
  The camera service of the video detector, \<^verbatim>\<open>src/fvd-new/camera_service.c\<close>, in the build of the makefile
  (cameras on the network, no playback).  The decoder, the detection library and the network library of
  the camera are recorded by the calls made to them; what \<open>net_open_camera\<close> and \<open>run_alg\<close> return are
  arguments.  What a function does while it holds \<open>cmd_lock\<close> is one step; \<open>camera_open\<close> and \<open>camera_close\<close>, which do
  not hold it, are sequences of steps between which frames, timers and commands may come.
\<close>

section \<open>Operations\<close>

datatype cam_call =
    Open_alg | Release_alg | Reset_alg | Open_h264_decoder | Close_h264_decoder
  | Net_open_camera "byte list" "32 word" "byte list" "byte list" | Net_close_camera
  | H264_decode | Cam_set_shutter nat | Client_output

datatype cam_cmd =
    CAMERA_CONTROL_NULL | CAMERA_CONTROL_OPEN | CAMERA_CONTROL_CLOSE | CAMERA_CONTROL_RESET
  | CAMERA_CONTROL_SET_NTP | CAMERA_CONTROL_RESET_ALG

datatype cam_state = CAM_RUNNING | CAM_STOPED

datatype dog_state = DOG_HUNGRY_STATE | DOG_FULL_STATE

text \<open>The three character arrays have sixteen bytes each; \<open>ci_calls\<close> are the calls made, the last one first.\<close>

record camera_info =
  ci_open_flg :: bool
  ci_running :: cam_state
  ci_cmd :: cam_cmd
  ci_ip :: "byte list"
  ci_name :: "byte list"
  ci_passwd :: "byte list"
  ci_port :: "32 word"
  ci_watchdog :: dog_state
  ci_calls :: "cam_call list"

definition called :: "cam_call \<Rightarrow> camera_info \<Rightarrow> camera_info" where
  "called e c = c\<lparr>ci_calls := e # ci_calls c\<rparr>"

text \<open>A C string in an array, and the copy of a string into sixteen cleared bytes.  The copy leaves out the
  terminator, and the array is read as a string by \<open>net_open_camera\<close>: a string of sixteen characters is
  read on into the next member, a longer one is written there as well (\<^term>\<open>None\<close> for both).\<close>

definition c_str :: "byte list \<Rightarrow> byte list" where
  "c_str a = takeWhile (\<lambda>b. b \<noteq> 0) a"

definition copy16 :: "byte list \<Rightarrow> byte list option" where
  "copy16 s = (if length s \<le> 15 then Some (s @ replicate (16 - length s) 0) else None)"

definition process_fun :: "nat \<Rightarrow> camera_info \<Rightarrow> camera_info" where
  "process_fun alg_ret c =
     (let c = called H264_decode (c\<lparr>ci_watchdog := DOG_FULL_STATE\<rparr>);
          c = (if alg_ret > 0 then called Reset_alg (called (Cam_set_shutter (alg_ret - 1)) c) else c)
      in called Client_output c)"

definition set_cmd :: "cam_cmd \<Rightarrow> camera_info \<Rightarrow> camera_info" where
  "set_cmd cmd c = c\<lparr>ci_cmd := cmd\<rparr>"

definition camera_ctrl :: "cam_cmd \<Rightarrow> camera_info \<Rightarrow> camera_info" where
  "camera_ctrl cmd c = set_cmd cmd c"

text \<open>\<open>ret\<close> is what \<open>net_open_camera\<close> returns.\<close>

definition camera_open ::
  "int \<Rightarrow> byte list \<Rightarrow> 32 word \<Rightarrow> byte list \<Rightarrow> byte list \<Rightarrow> camera_info \<Rightarrow> camera_info option" where
  "camera_open ret ip port username passwd c =
     (if ci_open_flg c then Some (camera_ctrl CAMERA_CONTROL_RESET c)
      else
        let c = called Open_h264_decoder (called Open_alg c)
        in case copy16 ip of None \<Rightarrow> None | Some ip' \<Rightarrow>
           case copy16 username of None \<Rightarrow> None | Some name' \<Rightarrow>
           case copy16 passwd of None \<Rightarrow> None | Some passwd' \<Rightarrow>
           let c = c\<lparr>ci_ip := ip', ci_name := name', ci_passwd := passwd', ci_port := port\<rparr>;
               c = called (Net_open_camera (c_str ip') port (c_str name') (c_str passwd')) c
           in Some (c\<lparr>ci_running := (if ret = 0 then CAM_RUNNING else CAM_STOPED), ci_open_flg := True\<rparr>))"

definition camera_close :: "camera_info \<Rightarrow> camera_info" where
  "camera_close c =
     (called Release_alg (called Close_h264_decoder (called Net_close_camera c)))
       \<lparr>ci_open_flg := False, ci_running := CAM_STOPED\<rparr>"

definition watchdog_func :: "camera_info \<Rightarrow> camera_info" where
  "watchdog_func c =
     (let c = (if ci_watchdog c = DOG_HUNGRY_STATE \<and> ci_open_flg c
               then (camera_ctrl CAMERA_CONTROL_RESET c)\<lparr>ci_running := CAM_STOPED\<rparr>
               else c\<lparr>ci_running := CAM_RUNNING\<rparr>)
      in c\<lparr>ci_watchdog := DOG_HUNGRY_STATE\<rparr>)"

definition camera_main :: "camera_info \<Rightarrow> camera_info" where
  "camera_main c =
     (let c = (case ci_cmd c of
          CAMERA_CONTROL_RESET \<Rightarrow>
            called Reset_alg
              (called (Net_open_camera (c_str (ci_ip c)) (ci_port c) (c_str (ci_name c)) (c_str (ci_passwd c)))
                (called Net_close_camera c))
        | CAMERA_CONTROL_RESET_ALG \<Rightarrow> called Reset_alg c
        | _ \<Rightarrow> c)
      in if ci_cmd c \<noteq> CAMERA_CONTROL_NULL then set_cmd CAMERA_CONTROL_NULL c else c)"

text \<open>One entry of the table as \<open>camera_service_init\<close> leaves it.\<close>

definition camera_init :: "camera_info \<Rightarrow> camera_info" where
  "camera_init c =
     (set_cmd CAMERA_CONTROL_NULL (c\<lparr>ci_open_flg := False, ci_running := CAM_STOPED\<rparr>))
       \<lparr>ci_watchdog := DOG_HUNGRY_STATE\<rparr>"

section \<open>Steps\<close>

text \<open>The statements of \<open>camera_open\<close> on a closed camera and those of \<open>camera_close\<close>, one by one.  Requests are
  handled one after the other, so no two such sequences overlap.\<close>

definition net_open_stored :: "camera_info \<Rightarrow> cam_call" where
  "net_open_stored c = Net_open_camera (c_str (ci_ip c)) (ci_port c) (c_str (ci_name c)) (c_str (ci_passwd c))"

definition open_acts ::
  "int \<Rightarrow> byte list \<Rightarrow> 32 word \<Rightarrow> byte list \<Rightarrow> byte list \<Rightarrow> (camera_info \<Rightarrow> camera_info) list" where
  "open_acts ret ip' port name' passwd' =
     [called Open_alg, called Open_h264_decoder,
      ci_ip_update (\<lambda>_. replicate 16 0), ci_name_update (\<lambda>_. replicate 16 0), ci_passwd_update (\<lambda>_. replicate 16 0),
      ci_ip_update (\<lambda>_. ip'), ci_name_update (\<lambda>_. name'), ci_passwd_update (\<lambda>_. passwd'), ci_port_update (\<lambda>_. port),
      \<lambda>c. called (net_open_stored c) c,
      ci_running_update (\<lambda>_. if ret = 0 then CAM_RUNNING else CAM_STOPED), ci_open_flg_update (\<lambda>_. True)]"

definition close_acts :: "(camera_info \<Rightarrow> camera_info) list" where
  "close_acts =
     [called Net_close_camera, called Close_h264_decoder, called Release_alg,
      ci_open_flg_update (\<lambda>_. False), ci_running_update (\<lambda>_. CAM_STOPED)]"

text \<open>What happens to a camera, beside what is left of an opening or closing under way: frames, turns of the main
  function, commands, and the single accesses of the watchdog, in any order.\<close>

inductive cam_step :: "camera_info \<times> (camera_info \<Rightarrow> camera_info) list \<Rightarrow> camera_info \<times> (camera_info \<Rightarrow> camera_info) list \<Rightarrow> bool" where
  frame: "cam_step (c, fs) (process_fun ret c, fs)"
| main: "cam_step (c, fs) (camera_main c, fs)"
| ctrl: "cam_step (c, fs) (camera_ctrl cmd c, fs)"
| running: "cam_step (c, fs) (c\<lparr>ci_running := r\<rparr>, fs)"
| dog: "cam_step (c, fs) (c\<lparr>ci_watchdog := w\<rparr>, fs)"
| opens: "\<not> ci_open_flg c \<Longrightarrow> copy16 ip = Some ip' \<Longrightarrow> copy16 name = Some name' \<Longrightarrow> copy16 passwd = Some passwd' \<Longrightarrow>
    cam_step (c, []) (c, open_acts ret ip' port name' passwd')"
| closes: "ci_open_flg c \<Longrightarrow> cam_step (c, []) (c, close_acts)"
| act: "cam_step (c, f # fs) (f c, fs)"

inductive cam_reach :: "camera_info \<times> (camera_info \<Rightarrow> camera_info) list \<Rightarrow> bool" where
  start: "ci_calls c = [] \<Longrightarrow> cam_reach (camera_init c, [])"
| step: "cam_reach s \<Longrightarrow> cam_step s s' \<Longrightarrow> cam_reach s'"

text \<open>How often the decoder was opened and not closed again, from the calls.\<close>

definition decoders :: "camera_info \<Rightarrow> int" where
  "decoders c = int (count_list (ci_calls c) Open_h264_decoder) - int (count_list (ci_calls c) Close_h264_decoder)"

definition algs :: "camera_info \<Rightarrow> int" where
  "algs c = int (count_list (ci_calls c) Open_alg) - int (count_list (ci_calls c) Release_alg)"

text \<open>The last call for the connection to the camera.\<close>

fun is_net :: "cam_call \<Rightarrow> bool" where
  "is_net (Net_open_camera ip port name passwd) \<longleftrightarrow> True"
| "is_net Net_close_camera \<longleftrightarrow> True"
| "is_net _ \<longleftrightarrow> False"

definition net_last :: "camera_info \<Rightarrow> cam_call option" where
  "net_last c = find is_net (ci_calls c)"

definition cam_inv :: "camera_info \<Rightarrow> bool" where
  "cam_inv c \<longleftrightarrow> decoders c = (if ci_open_flg c then 1 else 0) \<and> algs c = (if ci_open_flg c then 1 else 0) \<and>
     (ci_open_flg c \<longrightarrow> net_last c = Some (net_open_stored c))"

text \<open>The invariant after \<open>k\<close> statements of an opening or closing.\<close>

definition opening_inv :: "nat \<Rightarrow> camera_info \<Rightarrow> bool" where
  "opening_inv k c \<longleftrightarrow> \<not> ci_open_flg c \<and> algs c = (if k \<ge> 1 then 1 else 0) \<and> decoders c = (if k \<ge> 2 then 1 else 0) \<and>
     (k \<ge> 10 \<longrightarrow> net_last c = Some (net_open_stored c))"

definition closing_inv :: "nat \<Rightarrow> camera_info \<Rightarrow> bool" where
  "closing_inv k c \<longleftrightarrow> (ci_open_flg c \<longleftrightarrow> k < 4) \<and> decoders c = (if k \<ge> 2 then 0 else 1) \<and> algs c = (if k \<ge> 3 then 0 else 1)"

definition cam_run_inv :: "camera_info \<times> (camera_info \<Rightarrow> camera_info) list \<Rightarrow> bool" where
  "cam_run_inv = (\<lambda>(c, fs). (fs = [] \<and> cam_inv c) \<or>
     (\<exists>k < 12. (\<exists>ret ip port name passwd. fs = drop k (open_acts ret ip port name passwd)) \<and> opening_inv k c) \<or>
     (\<exists>k < 5. fs = drop k close_acts \<and> closing_inv k c))"

lemmas cam_defs = process_fun_def camera_main_def watchdog_func_def camera_ctrl_def set_cmd_def
  camera_close_def camera_init_def called_def decoders_def algs_def cam_inv_def Let_def

lemmas cam_inv_defs = cam_inv_def opening_inv_def closing_inv_def net_open_stored_def net_last_def

text \<open>The two sequences are what the functions do, and the accesses of the watchdog are steps.\<close>

lemma camera_open_acts:
  "camera_open ret ip port name passwd c =
     (if ci_open_flg c then Some (camera_ctrl CAMERA_CONTROL_RESET c)
      else case (copy16 ip, copy16 name, copy16 passwd) of
        (Some ip', Some name', Some passwd') \<Rightarrow> Some (foldl (\<lambda>c f. f c) c (open_acts ret ip' port name' passwd'))
      | _ \<Rightarrow> None)"
  by (auto simp: camera_open_def open_acts_def net_open_stored_def called_def Let_def split: option.split)

lemma camera_close_acts: "camera_close c = foldl (\<lambda>c f. f c) c close_acts"
  by (simp add: camera_close_def close_acts_def called_def)

lemma watchdog_steps: "cam_step\<^sup>*\<^sup>* (c, fs) (watchdog_func c, fs)"
proof -
  have "cam_step\<^sup>*\<^sup>* (d, fs) (d\<lparr>ci_running := r, ci_watchdog := w\<rparr>, fs)" for d r w
    using cam_step.running [of d fs r] cam_step.dog [of "d\<lparr>ci_running := r\<rparr>" fs w] by (meson r_into_rtranclp rtranclp_trans)
  moreover have "cam_step\<^sup>*\<^sup>* (c, fs) (camera_ctrl cmd c, fs)" for cmd using cam_step.ctrl by blast
  ultimately have "cam_step\<^sup>*\<^sup>* (c, fs) ((camera_ctrl cmd c)\<lparr>ci_running := r, ci_watchdog := w\<rparr>, fs)"
    "cam_step\<^sup>*\<^sup>* (c, fs) (c\<lparr>ci_running := r, ci_watchdog := w\<rparr>, fs)" for cmd r w by (blast intro: rtranclp_trans)+
  then show ?thesis by (simp add: watchdog_func_def Let_def)
qed

text \<open>What frames, turns of the main function, commands and the watchdog keep.\<close>

definition keeps :: "camera_info \<Rightarrow> camera_info \<Rightarrow> bool" where
  "keeps c d \<longleftrightarrow> ci_open_flg d = ci_open_flg c \<and> decoders d = decoders c \<and> algs d = algs c \<and>
     (net_last c = Some (net_open_stored c) \<longrightarrow> net_last d = Some (net_open_stored d))"

lemma keeps_inv:
  assumes "keeps c d" "cam_run_inv (c, fs)"
  shows "cam_run_inv (d, fs)"
proof -
  have "cam_inv c \<Longrightarrow> cam_inv d" "opening_inv k c \<Longrightarrow> opening_inv k d" "closing_inv k c \<Longrightarrow> closing_inv k d" for k
    using assms(1) by (auto simp: cam_inv_def opening_inv_def closing_inv_def keeps_def)
  with assms(2) show ?thesis unfolding cam_run_inv_def prod.case by blast
qed

lemma steps_keep:
  "keeps c (process_fun ret c)" "keeps c (camera_main c)" "keeps c (camera_ctrl cmd c)"
  "keeps c (c\<lparr>ci_running := r\<rparr>)" "keeps c (c\<lparr>ci_watchdog := w\<rparr>)"
proof -
  show "keeps c (camera_main c)" by (cases "ci_cmd c") (auto simp: keeps_def cam_defs net_last_def net_open_stored_def)
qed (auto simp: keeps_def cam_defs net_last_def net_open_stored_def)

lemma opening_act:
  assumes "opening_inv k c" "k < 12"
  shows "if k = 11 then cam_inv ((open_acts ret ip port name passwd ! k) c)
    else opening_inv (Suc k) ((open_acts ret ip port name passwd ! k) c)"
proof -
  have "k = 0 \<or> k = 1 \<or> k = 2 \<or> k = 3 \<or> k = 4 \<or> k = 5 \<or> k = 6 \<or> k = 7 \<or> k = 8 \<or> k = 9 \<or> k = 10 \<or> k = 11"
    using assms(2) by presburger
  then show ?thesis using assms(1)
    by (elim disjE) (simp_all add: open_acts_def cam_inv_defs called_def decoders_def algs_def)
qed

lemma closing_act:
  assumes "closing_inv k c" "k < 5"
  shows "if k = 4 then cam_inv ((close_acts ! k) c) else closing_inv (Suc k) ((close_acts ! k) c)"
proof -
  have "k = 0 \<or> k = 1 \<or> k = 2 \<or> k = 3 \<or> k = 4" using assms(2) by presburger
  then show ?thesis using assms(1)
    by (elim disjE) (simp_all add: close_acts_def cam_inv_defs called_def decoders_def algs_def)
qed

lemma drop_Cons_D: "drop k xs = f # fs \<Longrightarrow> f = xs ! k \<and> fs = drop (Suc k) xs"
  by (metis drop_Suc_Cons drop_drop drop_0 hd_drop_conv_nth list.sel(1) list.sel(3) not_less drop_all list.distinct(1) drop_Suc tl_drop)

lemma act_inv:
  assumes "cam_run_inv (c, f # fs)"
  shows "cam_run_inv (f c, fs)"
proof -
  consider k ret ip port name passwd where "k < 12" "drop k (open_acts ret ip port name passwd) = f # fs" "opening_inv k c"
    | k where "k < 5" "drop k close_acts = f # fs" "closing_inv k c"
    using assms unfolding cam_run_inv_def prod.case by (metis list.distinct(1))
  then show ?thesis
  proof cases
    case 1
    have e: "f = open_acts ret ip port name passwd ! k" "fs = drop (Suc k) (open_acts ret ip port name passwd)"
      using drop_Cons_D [OF 1(2)] by simp_all
    show ?thesis
    proof (cases "k = 11")
      case True
      then have "fs = []" using e(2) by (simp add: open_acts_def)
      with True opening_act [OF 1(3,1), of ret ip port name passwd] e(1) show ?thesis by (simp add: cam_run_inv_def)
    next
      case False
      with opening_act [OF 1(3,1), of ret ip port name passwd] e(1) have "opening_inv (Suc k) (f c)" "Suc k < 12" using 1(1) by simp_all
      with e(2) show ?thesis unfolding cam_run_inv_def by blast
    qed
  next
    case 2
    have e: "f = close_acts ! k" "fs = drop (Suc k) close_acts" using drop_Cons_D [OF 2(2)] by simp_all
    show ?thesis
    proof (cases "k = 4")
      case True
      then have "fs = []" using e(2) by (simp add: close_acts_def)
      with True closing_act [OF 2(3,1)] e(1) show ?thesis by (simp add: cam_run_inv_def)
    next
      case False
      with closing_act [OF 2(3,1)] e(1) have "closing_inv (Suc k) (f c)" "Suc k < 5" using 2(1) by simp_all
      with e(2) show ?thesis unfolding cam_run_inv_def by blast
    qed
  qed
qed

lemma run_inv_idle: "cam_run_inv (c, []) \<longleftrightarrow> cam_inv c"
  by (auto simp: cam_run_inv_def open_acts_def close_acts_def)

lemma cam_step_inv: "cam_step s s' \<Longrightarrow> cam_run_inv s \<Longrightarrow> cam_run_inv s'"
proof (induction rule: cam_step.induct)
  case (opens c ip ip' name name' passwd passwd' ret port)
  then have "cam_inv c" by (simp add: run_inv_idle)
  with opens(1) have "opening_inv 0 c" by (simp add: cam_inv_def opening_inv_def)
  moreover have "open_acts ret ip' port name' passwd' = drop 0 (open_acts ret ip' port name' passwd')" "(0 :: nat) < 12" by simp_all
  ultimately show ?case unfolding cam_run_inv_def by blast
next
  case (closes c)
  then have "cam_inv c" by (simp add: run_inv_idle)
  with closes(1) have "closing_inv 0 c" by (simp add: cam_inv_def closing_inv_def)
  moreover have "close_acts = drop 0 close_acts" "(0 :: nat) < 5" by simp_all
  ultimately show ?case unfolding cam_run_inv_def by blast
next
  case (act c f fs)
  then show ?case by (rule act_inv)
qed (blast intro: keeps_inv steps_keep)+

lemma cam_reach_inv: "cam_reach s \<Longrightarrow> cam_run_inv s"
proof (induction rule: cam_reach.induct)
  case (step s s')
  then show ?case using cam_step_inv by blast
qed (simp add: cam_run_inv_def cam_defs)

lemma cam_reach_idle: "cam_reach (c, []) \<Longrightarrow> cam_inv c"
  using cam_reach_inv run_inv_idle by blast

lemma cam_reach_acts: "cam_reach (c, fs) \<Longrightarrow> cam_reach (foldl (\<lambda>c f. f c) c fs, [])"
proof (induction fs arbitrary: c)
  case (Cons f fs)
  then show ?case using cam_reach.step cam_step.act by fastforce
qed simp

text \<open>So what \<open>camera_open\<close>, \<open>camera_close\<close> and \<open>watchdog_func\<close> leave when nothing comes in between is reached too.\<close>

lemma cam_reach_functions:
  assumes "cam_reach (c, [])"
  shows "camera_open ret ip port name passwd c = Some c' \<Longrightarrow> cam_reach (c', [])"
    "ci_open_flg c \<Longrightarrow> cam_reach (camera_close c, [])" "cam_reach (watchdog_func c, [])"
proof -
  have st: "cam_step\<^sup>*\<^sup>* s s' \<Longrightarrow> cam_reach s \<Longrightarrow> cam_reach s'" for s s' by (induction rule: rtranclp_induct) (blast intro: cam_reach.step)+
  show "cam_reach (watchdog_func c, [])" using st watchdog_steps assms by blast
  show "cam_reach (camera_close c, [])" if "ci_open_flg c"
    unfolding camera_close_acts by (rule cam_reach_acts) (rule cam_reach.step [OF assms cam_step.closes [OF that]])
  show "cam_reach (c', [])" if o: "camera_open ret ip port name passwd c = Some c'"
  proof (cases "ci_open_flg c")
    case True
    with o assms show ?thesis using cam_reach.step cam_step.ctrl by (fastforce simp: camera_open_acts)
  next
    case False
    with o obtain ip' name' passwd' where k: "copy16 ip = Some ip'" "copy16 name = Some name'" "copy16 passwd = Some passwd'"
      "c' = foldl (\<lambda>c f. f c) c (open_acts ret ip' port name' passwd')" by (auto simp: camera_open_acts split: option.splits)
    show ?thesis unfolding k(4) by (rule cam_reach_acts) (rule cam_reach.step [OF assms cam_step.opens [OF False k(1-3)]])
  qed
qed

text \<open>Closing a camera that is not open, as a client does by changing the address of a closed camera, closes
  the decoder once more than it was opened.\<close>

lemma close_unopened:
  "cam_reach (c, []) \<Longrightarrow> \<not> ci_open_flg c \<Longrightarrow> decoders (camera_close c) = -1 \<and> algs (camera_close c) = -1"
  using cam_reach_idle [of c] by (auto simp: cam_defs)

text \<open>A reset that was not carried out yet when its camera is closed connects the closed camera again.\<close>

lemma reset_after_close:
  "net_last (camera_main (camera_close (camera_ctrl CAMERA_CONTROL_RESET c))) = Some (net_open_stored c) \<and>
   \<not> ci_open_flg (camera_main (camera_close (camera_ctrl CAMERA_CONTROL_RESET c)))"
  by (simp add: cam_defs net_last_def net_open_stored_def)

text \<open>The watchdog marks a closed camera as running.\<close>

lemma watchdog_closed: "\<not> ci_open_flg c \<Longrightarrow> ci_running (watchdog_func c) = CAM_RUNNING"
  by (simp add: cam_defs)

text \<open>A command that was not carried out yet is lost when another one arrives.\<close>

lemma ctrl_overwrites: "camera_ctrl CAMERA_CONTROL_RESET_ALG (camera_ctrl CAMERA_CONTROL_RESET c) = camera_ctrl CAMERA_CONTROL_RESET_ALG c"
  by (simp add: cam_defs)

text \<open>Steps without a frame: the main function and the commands of clients.\<close>

inductive quiet :: "camera_info \<Rightarrow> camera_info \<Rightarrow> bool" where
  quiet_main: "quiet c (camera_main c)"
| quiet_ctrl: "quiet c (camera_ctrl cmd c)"

lemma quiet_keeps:
  assumes "quiet\<^sup>*\<^sup>* (watchdog_func c) d"
  shows "ci_watchdog d = DOG_HUNGRY_STATE \<and> ci_open_flg d = ci_open_flg c \<and> ci_ip d = ci_ip c \<and>
    ci_port d = ci_port c \<and> ci_name d = ci_name c \<and> ci_passwd d = ci_passwd c"
  using assms
proof (induction rule: rtranclp_induct)
  case (step d e)
  from step.hyps(2) have "ci_watchdog e = ci_watchdog d \<and> ci_open_flg e = ci_open_flg d \<and> ci_ip e = ci_ip d \<and>
    ci_port e = ci_port d \<and> ci_name e = ci_name d \<and> ci_passwd e = ci_passwd d"
    by (cases rule: quiet.cases) (auto simp: cam_defs split: cam_cmd.split)
  with step.IH show ?case by simp
qed (simp add: cam_defs)

section \<open>Properties\<close>

text \<open>C34: as long as only open cameras are closed and cameras are opened with an address, a name and a password
  of at most fifteen characters each (the code writes and reads beyond its arrays for longer ones),
  the decoder and the detection library of a camera are open exactly once while the camera is open and not
  at all while it is closed, and an open camera is connected: the last call for its connection opened it
  with the address and names that are stored.  This holds whenever no opening or closing is under way,
  whatever frames, turns of the main function, commands and accesses of the watchdog came, also between the
  single statements of an opening or closing, which hold no lock.\<close>

theorem camera_resources:
  assumes "cam_reach (c, [])"
  shows "decoders c = (if ci_open_flg c then 1 else 0) \<and> algs c = (if ci_open_flg c then 1 else 0) \<and>
    (ci_open_flg c \<longrightarrow> net_last c = Some (Net_open_camera (c_str (ci_ip c)) (ci_port c) (c_str (ci_name c)) (c_str (ci_passwd c))))"
  using cam_reach_idle [OF assms] by (simp add: cam_inv_def net_open_stored_def)

definition demo_camera :: camera_info where
  "demo_camera = \<lparr>ci_open_flg = False, ci_running = CAM_STOPED, ci_cmd = CAMERA_CONTROL_NULL, ci_ip = [], ci_name = [],
     ci_passwd = [], ci_port = 0, ci_watchdog = DOG_HUNGRY_STATE, ci_calls = []\<rparr>"

definition demo_open :: camera_info where
  "demo_open = the (camera_open 0 [49, 50] 5000 [97] [98] (camera_init demo_camera))"

lemma demo_open_eq: "camera_open 0 [49, 50] 5000 [97] [98] (camera_init demo_camera) = Some demo_open" "ci_open_flg demo_open"
  by (simp_all add: demo_open_def camera_open_def copy16_def demo_camera_def cam_defs)

lemma demo_reach: "cam_reach (demo_open, [])"
proof -
  have "cam_reach (camera_init demo_camera, [])" by (rule cam_reach.start) (simp add: demo_camera_def)
  from cam_reach_functions(1) [OF this demo_open_eq(1)] show ?thesis .
qed

theorem camera_resources_witness:
  "cam_reach (demo_open, []) \<and> decoders demo_open = 1 \<and> net_last demo_open = Some (Net_open_camera [49, 50] 5000 [97] [98])"
proof -
  have "c_str (ci_ip demo_open) = [49, 50]" "ci_port demo_open = 5000" "c_str (ci_name demo_open) = [97]" "c_str (ci_passwd demo_open) = [98]"
    by (simp_all add: demo_open_def camera_open_def copy16_def demo_camera_def cam_defs c_str_def)
  with camera_resources [OF demo_reach] demo_reach demo_open_eq(2) show ?thesis by simp
qed

text \<open>C35: an open camera that delivers no frame from one tick of its watchdog to the next, whatever commands and
  turns of the main function come in between, is marked stopped and connected anew by the next turn
  of its main function: the old connection is closed, a new one is opened with the stored address
  and names, the detection is reset and no command is left.  After a frame the next tick marks it
  running and gives no command.\<close>

theorem watchdog_reconnects:
  assumes "ci_open_flg c" "quiet\<^sup>*\<^sup>* (watchdog_func c) d"
  shows "ci_running (watchdog_func d) = CAM_STOPED \<and>
    ci_calls (camera_main (watchdog_func d)) =
      [Reset_alg, Net_open_camera (c_str (ci_ip c)) (ci_port c) (c_str (ci_name c)) (c_str (ci_passwd c)),
        Net_close_camera] @ ci_calls d \<and>
    ci_cmd (camera_main (watchdog_func d)) = CAMERA_CONTROL_NULL \<and> ci_open_flg (camera_main (watchdog_func d)) \<and>
    ci_running (watchdog_func (process_fun ret d)) = CAM_RUNNING \<and> ci_cmd (watchdog_func (process_fun ret d)) = ci_cmd d"
  using quiet_keeps [OF assms(2)] assms(1) by (auto simp: cam_defs)

theorem watchdog_reconnects_witness:
  "take 3 (ci_calls (camera_main (watchdog_func (camera_main (watchdog_func demo_open))))) =
     [Reset_alg, Net_open_camera [49, 50] 5000 [97] [98], Net_close_camera]"
proof -
  have "c_str (ci_ip demo_open) = [49, 50]" "ci_port demo_open = 5000" "c_str (ci_name demo_open) = [97]" "c_str (ci_passwd demo_open) = [98]"
    by (simp_all add: demo_open_def camera_open_def copy16_def demo_camera_def cam_defs c_str_def)
  moreover have "quiet\<^sup>*\<^sup>* (watchdog_func demo_open) (camera_main (watchdog_func demo_open))"
    by (blast intro: quiet.intros)
  ultimately show ?thesis using watchdog_reconnects [OF demo_open_eq(2), of "camera_main (watchdog_func demo_open)" 0] by simp
qed

end
