(* ===== verification/Fvd_Frame.thy ===== *)
theory Fvd_Frame
  imports SSH_Base
begin

unbundle bit_operations_syntax

text \<open>
  The frames that the video detector exchanges with the traffic signal machine,
  \<^verbatim>\<open>src/fvd-new/sig_service.c\<close>: escaping, the xor check byte and the delimiters.  The functions work
  in place on a caller's array: a buffer is a byte list of the size of the array, and an access
  beyond it (undefined behaviour of the C code) is the result \<^term>\<open>None\<close>.  \<open>*size\<close> is the argument \<open>sz\<close> and
  the second component of the result.
\<close>

section \<open>Operations\<close>

definition externalProtocolAddHeader :: "byte list \<Rightarrow> nat \<Rightarrow> (byte list \<times> nat) option" where
  "externalProtocolAddHeader buff sz =
     (if sz + 1 < length buff then Some ((buff[0 := 0xC0])[sz + 1 := 0xC0], sz + 2) else None)"

text \<open>\<^verbatim>\<open>for(j=hi;j>lo;j--) buff[j]=buff[j-1]\<close>\<close>

fun shift_up :: "nat \<Rightarrow> nat \<Rightarrow> byte list \<Rightarrow> byte list" where
  "shift_up lo 0 buff = buff"
| "shift_up lo (Suc j) buff = (if Suc j > lo then shift_up lo j (buff[Suc j := buff ! j]) else buff)"

text \<open>One escaped byte: the array must have room for one more byte.\<close>

definition encode_byte :: "byte list \<Rightarrow> nat \<Rightarrow> nat \<Rightarrow> byte \<Rightarrow> (byte list \<times> nat) option" where
  "encode_byte buff sz i second =
     (if sz < length buff then
        let buff = buff[i := 0xDB]; sz = sz + 1;
            buff = shift_up (i + 1) (sz - 1) buff
        in Some (buff[i + 1 := second], sz)
      else None)"

text \<open>The loop over \<open>i\<close>.  Every pass leaves one byte less to look at, or the same number after an
  escape; \<open>n\<close> bounds the number of passes, and the caller starts with one more than enough.\<close>

fun encode_loop :: "nat \<Rightarrow> byte list \<Rightarrow> nat \<Rightarrow> nat \<Rightarrow> (byte list \<times> nat) option" where
  "encode_loop 0 buff sz i = None"
| "encode_loop (Suc n) buff sz i =
     (if i < sz then
        (if i \<ge> length buff then None
         else if buff ! i = 0xC0 then
           (case encode_byte buff sz i 0xDC of None \<Rightarrow> None | Some (buff, sz) \<Rightarrow> encode_loop n buff sz (i + 1))
         else if buff ! i = 0xDB then
           (case encode_byte buff sz i 0xDD of None \<Rightarrow> None | Some (buff, sz) \<Rightarrow> encode_loop n buff sz (i + 1))
         else encode_loop n buff sz (i + 1))
      else Some (buff, sz))"

definition externalProtocolEncode :: "byte list \<Rightarrow> nat \<Rightarrow> (byte list \<times> nat) option" where
  "externalProtocolEncode buff sz = encode_loop (2 * sz + 1) buff sz 0"

text \<open>\<^verbatim>\<open>for(j=i+1;j<*size;j++) buff[j]=buff[j+1]\<close>: \<open>k\<close> is the number of passes.\<close>

fun shift_down :: "nat \<Rightarrow> nat \<Rightarrow> byte list \<Rightarrow> byte list" where
  "shift_down j 0 buff = buff"
| "shift_down j (Suc k) buff = shift_down (Suc j) k (buff[j := buff ! Suc j])"

definition decode_byte :: "byte list \<Rightarrow> nat \<Rightarrow> nat \<Rightarrow> byte \<Rightarrow> (byte list \<times> nat) option" where
  "decode_byte buff sz i first =
     (if sz < length buff then Some (shift_down (i + 1) (sz - (i + 1)) (buff[i := first]), sz - 1) else None)"

fun decode_loop :: "nat \<Rightarrow> byte list \<Rightarrow> nat \<Rightarrow> nat \<Rightarrow> (byte list \<times> nat) option" where
  "decode_loop 0 buff sz i = None"
| "decode_loop (Suc n) buff sz i =
     (if i < sz then
        (if i + 1 \<ge> length buff then None
         else if buff ! i = 0xDB \<and> buff ! (i + 1) = 0xDC then
           (case decode_byte buff sz i 0xC0 of None \<Rightarrow> None | Some (buff, sz) \<Rightarrow> decode_loop n buff sz (i + 1))
         else if buff ! i = 0xDB \<and> buff ! (i + 1) = 0xDD then
           (case decode_byte buff sz i 0xDB of None \<Rightarrow> None | Some (buff, sz) \<Rightarrow> decode_loop n buff sz (i + 1))
         else decode_loop n buff sz (i + 1))
      else Some (buff, sz))"

definition externalProtocolDecode :: "byte list \<Rightarrow> nat \<Rightarrow> (byte list \<times> nat) option" where
  "externalProtocolDecode buff sz = decode_loop (sz + 1) buff sz 0"

definition xor_bytes :: "byte list \<Rightarrow> byte" where
  "xor_bytes bs = foldl (XOR) 0 bs"

definition externalProtocolAddCrcCode :: "byte list \<Rightarrow> nat \<Rightarrow> (byte list \<times> nat) option" where
  "externalProtocolAddCrcCode buff sz =
     (if sz < length buff then Some (buff[sz := xor_bytes (take sz buff)], sz + 1) else None)"

text \<open>\<open>xor_crc\<close> has the type \<open>char\<close>, which is signed or not as the compiler chooses (\<open>sc\<close>), and is
  compared as an \<open>int\<close> with an \<open>unsigned char\<close>.\<close>

definition char_value :: "bool \<Rightarrow> byte \<Rightarrow> int" where
  "char_value sc b = (if sc then sint b else uint b)"

definition externalProtocolCheckCrc :: "bool \<Rightarrow> byte list \<Rightarrow> nat \<Rightarrow> bool option" where
  "externalProtocolCheckCrc sc buff sz =
     (if sz < length buff
      then Some (char_value sc (xor_bytes (take sz buff)) = uint (buff ! sz)) else None)"

text \<open>The common end of \<open>ReportedCammerStatus\<close>, \<open>ReportedEvent\<close> and \<open>ReportedRealStatic\<close>: check byte and
  escaping on \<open>sendbuff+1\<close>, delimiters on \<open>sendbuff\<close>.\<close>

definition finish_frame :: "byte list \<Rightarrow> nat \<Rightarrow> (byte list \<times> nat) option" where
  "finish_frame sendbuff sz =
     (case sendbuff of [] \<Rightarrow> None | x # body \<Rightarrow>
      case externalProtocolAddCrcCode body sz of None \<Rightarrow> None | Some (body, sz) \<Rightarrow>
      case externalProtocolEncode body sz of None \<Rightarrow> None | Some (body, sz) \<Rightarrow>
      externalProtocolAddHeader (x # body) sz)"

section \<open>Requests\<close>

definition LINKID_UART_BETWEEN_COMBOARD_AND_MAINCONTLBOARD :: byte where
  "LINKID_UART_BETWEEN_COMBOARD_AND_MAINCONTLBOARD = 9"
definition LINKID_BROARDCAST :: byte where "LINKID_BROARDCAST = 0xFF"
definition PROTOCOTYPE_VIDEO_DETECTOR :: byte where "PROTOCOTYPE_VIDEO_DETECTOR = 1"

text \<open>The packed \<open>FrameHeader\<close> has nine bytes: tag, sender link, receiver link, protocol type, protocol
  version, sender device, receiver device, session, data type.\<close>

definition sizeof_FrameHeader :: nat where "sizeof_FrameHeader = 9"

datatype request =
    Req_ignored
  | Req_set_time "byte list"  \<comment> \<open>the four bytes of the time, in the order of the machine\<close>
  | Req_report_status byte  \<comment> \<open>session\<close>

text \<open>\<open>RequestPro\<close> on a buffer of which \<open>len\<close> bytes were received.  With a single byte \<open>size\<close> is -1: nothing
  is decoded, and the check compares 0 with the byte before \<open>buffer+1\<close>.\<close>

definition request_body :: "byte list \<Rightarrow> nat \<Rightarrow> (byte list \<times> nat) option" where
  "request_body buffer len = (if len < 2 then Some (tl buffer, 0) else externalProtocolDecode (tl buffer) (len - 2))"

definition request_check :: "bool \<Rightarrow> byte list \<Rightarrow> nat \<Rightarrow> byte list \<Rightarrow> nat \<Rightarrow> bool option" where
  "request_check sc buffer len body sz =
     (if len < 2 then Some (char_value sc 0 = uint (buffer ! 0)) else externalProtocolCheckCrc sc body sz)"

definition RequestPro :: "bool \<Rightarrow> byte list \<Rightarrow> nat \<Rightarrow> request option" where
  "RequestPro sc buffer len =
     (if len = 0 \<or> len > length buffer then None
      else if buffer ! 0 \<noteq> 0xC0 \<or> buffer ! (len - 1) \<noteq> 0xC0 then Some Req_ignored
      else case request_body buffer len of None \<Rightarrow> None | Some (body, sz) \<Rightarrow>
      case request_check sc buffer len body sz of None \<Rightarrow> None
      | Some True \<Rightarrow> Some Req_ignored
      | Some False \<Rightarrow>
          let buffer = hd buffer # body
          in if length buffer < sizeof_FrameHeader then None
             else if buffer ! 1 \<noteq> LINKID_UART_BETWEEN_COMBOARD_AND_MAINCONTLBOARD \<or>
                buffer ! 2 \<noteq> LINKID_BROARDCAST \<or> buffer ! 3 \<noteq> PROTOCOTYPE_VIDEO_DETECTOR \<or>
                buffer ! 4 \<noteq> 0x12 then Some Req_ignored
             else if buffer ! 8 = 0x05 then
               (if length buffer < sizeof_FrameHeader + 4 then None
                else Some (Req_set_time (take 4 (drop sizeof_FrameHeader buffer))))
             else if buffer ! 8 = 0x03 then Some (Req_report_status (buffer ! 7))
             else Some Req_ignored)"

section \<open>Escaping\<close>

fun esc :: "byte \<Rightarrow> byte list" where
  "esc x = (if x = 0xC0 then [0xDB, 0xDC] else if x = 0xDB then [0xDB, 0xDD] else [x])"

fun unesc :: "byte list \<Rightarrow> byte list" where
  "unesc (x # y # r) =
     (if x = 0xDB \<and> y = 0xDC then 0xC0 # unesc r
      else if x = 0xDB \<and> y = 0xDD then 0xDB # unesc r
      else x # unesc (y # r))"
| "unesc r = r"

definition escaped :: "byte list \<Rightarrow> byte list" where "escaped s = concat (map esc s)"

lemma escaped_simps: "escaped [] = []" "escaped (x # s) = esc x @ escaped s"
  by (simp_all add: escaped_def)

lemma unesc_plain: "x \<noteq> 0xDB \<Longrightarrow> unesc (x # r) = x # unesc r"
  by (cases r) auto

lemma unesc_escaped: "unesc (escaped s) = s"
  by (induction s) (auto simp: escaped_simps unesc_plain)

lemma escaped_no_delimiter: "0xC0 \<notin> set (escaped s)"
  by (induction s) (auto simp: escaped_simps)

lemma length_escaped: "length (escaped s) \<le> 2 * length s"
  by (induction s) (auto simp: escaped_simps)

lemma escaped_longer: "length s \<le> length (escaped s)"
  by (induction s) (auto simp: escaped_simps)

text \<open>The inner loop inserts a gap: with \<open>buff = a @ b @ y # c\<close>, \<open>b\<close> moves up by one and \<open>y\<close> is lost.\<close>

lemma shift_up_insert:
  assumes "length a = lo" "buff = a @ x # b @ y # c"
  shows "shift_up lo (lo + Suc (length b)) buff = a @ x # (x # b) @ c"
  using assms
proof (induction b arbitrary: buff y c rule: rev_induct)
  case Nil
  then have "buff[Suc lo := buff ! lo] = a @ x # x # c" by (simp add: nth_append list_update_append)
  moreover have "shift_up lo lo zs = zs" for zs by (cases lo) auto
  ultimately show ?case by simp
next
  case (snoc z b)
  let ?j = "lo + Suc (length b)"
  have "buff ! ?j = z" "buff[Suc ?j := z] = a @ x # b @ z # (z # c)"
    using snoc.prems by (simp_all add: nth_append list_update_append nth_Cons')
  then have "shift_up lo (Suc ?j) buff = shift_up lo ?j (a @ x # b @ z # (z # c))" by simp
  also have "\<dots> = a @ x # (x # b) @ (z # c)" using snoc.IH snoc.prems(1) by simp
  finally show ?case by simp
qed

lemma encode_byte_eq:
  assumes "buff = pre @ x # s @ rest"
  shows "encode_byte buff (length pre + Suc (length s)) (length pre) second =
    (case rest of [] \<Rightarrow> None | _ # c \<Rightarrow> Some (pre @ 0xDB # second # s @ c, length pre + Suc (Suc (length s))))"
proof (cases rest)
  case Nil
  with assms show ?thesis by (simp add: encode_byte_def)
next
  case (Cons y c)
  show ?thesis
  proof (cases s)
    case Nil
    have "shift_up (Suc n) (Suc n) zs = zs" for n zs by simp
    with assms Cons Nil show ?thesis by (simp add: encode_byte_def Let_def list_update_append)
  next
    case (Cons z b)
    have "shift_up (length (pre @ [0xDB])) (length (pre @ [0xDB]) + Suc (length b)) ((pre @ [0xDB]) @ z # b @ y # c) =
        (pre @ [0xDB]) @ z # (z # b) @ c" by (rule shift_up_insert) simp_all
    with assms \<open>rest = y # c\<close> Cons show ?thesis
      by (simp add: encode_byte_def Let_def list_update_append del: shift_up.simps)
  qed
qed

lemma encode_loop_eq:
  assumes "n > length (escaped s)"
  shows "encode_loop n (pre @ s @ rest) (length pre + length s) (length pre) =
    (if length (escaped s) \<le> length s + length rest
     then Some (pre @ escaped s @ drop (length (escaped s) - length s) rest, length pre + length (escaped s))
     else None)"
  using assms
proof (induction s arbitrary: n pre rest)
  case Nil
  then show ?case by (cases n) (simp_all add: escaped_simps)
next
  case (Cons x s)
  from Cons.prems obtain m where n: "n = Suc m" by (cases n) auto
  show ?case
  proof (cases "x = 0xC0 \<or> x = 0xDB")
    case False
    then have "encode_loop n (pre @ (x # s) @ rest) (length pre + length (x # s)) (length pre) =
        encode_loop m ((pre @ [x]) @ s @ rest) (length (pre @ [x]) + length s) (length (pre @ [x]))"
      by (simp add: n nth_append)
    moreover have "m > length (escaped s)" using Cons.prems False by (simp add: n escaped_simps)
    ultimately show ?thesis using Cons.IH [of m "pre @ [x]" rest] False by (simp add: escaped_simps)
  next
    case True
    define sec where "sec = (if x = 0xC0 then 0xDC else 0xDD :: byte)"
    have es: "escaped (x # s) = 0xDB # sec # escaped s" using True by (auto simp: escaped_simps sec_def)
    from Cons.prems es obtain k where m: "m = Suc k" and k: "k > length (escaped s)" by (cases m) (auto simp: n)
    have step: "encode_loop n (pre @ (x # s) @ rest) (length pre + length (x # s)) (length pre) =
        (case encode_byte (pre @ x # s @ rest) (length pre + Suc (length s)) (length pre) sec of
           None \<Rightarrow> None | Some (b, z) \<Rightarrow> encode_loop m b z (length pre + 1))"
      using True by (auto simp: n sec_def nth_append)
    show ?thesis
    proof (cases rest)
      case Nil
      then show ?thesis using step encode_byte_eq [OF refl, of pre x s rest sec] es escaped_longer [of s] by simp
    next
      case (Cons y c)
      have "encode_loop n (pre @ (x # s) @ rest) (length pre + length (x # s)) (length pre) =
          encode_loop m (pre @ 0xDB # sec # s @ c) (length pre + Suc (Suc (length s))) (Suc (length pre))"
        using step encode_byte_eq [OF refl, of pre x s rest sec] Cons by simp
      also have "\<dots> = encode_loop k ((pre @ [0xDB, sec]) @ s @ c) (length (pre @ [0xDB, sec]) + length s)
          (length (pre @ [0xDB, sec]))"
        by (simp add: m nth_append nth_Cons' sec_def)
      also note Cons.IH [OF k, of "pre @ [0xDB, sec]" c]
      finally show ?thesis using \<open>rest = y # c\<close> es escaped_longer [of s] by (simp add: Suc_diff_le)
    qed
  qed
qed

lemma encode_eq:
  "sz \<le> length buff \<Longrightarrow> externalProtocolEncode buff sz =
    (let e = escaped (take sz buff) in
     if length e \<le> length buff then Some (e @ drop (length e) buff, length e) else None)"
proof -
  assume sz: "sz \<le> length buff"
  let ?s = "take sz buff"
  have "2 * sz + 1 > length (escaped ?s)" using length_escaped [of ?s] sz by simp
  from encode_loop_eq [OF this, of "[]" "drop sz buff"] show ?thesis
    using sz escaped_longer [of ?s] by (auto simp: externalProtocolEncode_def Let_def)
qed

section \<open>Unescaping\<close>

lemma shift_down_eq: "length b = k \<Longrightarrow> shift_down (length a) k (a @ z # b @ c) = a @ b @ last (z # b) # c"
proof (induction k arbitrary: a z b)
  case (Suc k)
  then obtain x b' where b: "b = x # b'" by (cases b) auto
  have "(a @ z # b @ c)[length a := (a @ z # b @ c) ! Suc (length a)] = (a @ [x]) @ x # b' @ c"
    by (simp add: b nth_append)
  then have "shift_down (length a) (Suc k) (a @ z # b @ c) = shift_down (length (a @ [x])) k ((a @ [x]) @ x # b' @ c)"
    unfolding shift_down.simps by (simp only:) simp
  also have "\<dots> = (a @ [x]) @ b' @ last (x # b') # c" using Suc b by (intro Suc.IH) simp
  finally show ?case by (simp add: b)
qed simp

lemma decode_byte_eq:
  assumes "buff = pre @ x # z # s @ t # rest"
  shows "decode_byte buff (length pre + Suc (Suc (length s))) (length pre) first =
    Some (pre @ first # s @ t # t # rest, length pre + Suc (length s))"
proof -
  have "shift_down (length (pre @ [first])) (Suc (length s)) ((pre @ [first]) @ z # (s @ [t]) @ rest) =
      (pre @ [first]) @ (s @ [t]) @ last (z # s @ [t]) # rest" by (rule shift_down_eq) simp
  then show ?thesis by (simp add: decode_byte_def assms)
qed

text \<open>The byte after the last one is looked at too; here it is no second half of an escape.\<close>

lemma decode_loop_eq:
  assumes "n > length s" "t \<notin> {0xDC, 0xDD}"
  shows "\<exists>rest'. decode_loop n (pre @ s @ t # rest) (length pre + length s) (length pre) =
    Some (pre @ unesc s @ t # rest', length pre + length (unesc s)) \<and> length (pre @ s @ rest) = length (pre @ unesc s @ rest')"
  using assms
proof (induction s arbitrary: n pre rest rule: unesc.induct)
  case (1 x y r)
  from 1(4) obtain m where n: "n = Suc m" by (cases n) auto
  show ?case
  proof (cases "x = 0xDB \<and> (y = 0xDC \<or> y = 0xDD)")
    case True
    define f where "f = (if y = 0xDC then 0xC0 else 0xDB :: byte)"
    have u: "unesc (x # y # r) = f # unesc r" using True by (auto simp: f_def)
    have "decode_loop n (pre @ (x # y # r) @ t # rest) (length pre + length (x # y # r)) (length pre) =
        decode_loop m ((pre @ [f]) @ r @ t # (t # rest)) (length (pre @ [f]) + length r) (length (pre @ [f]))"
      using True decode_byte_eq [OF refl, of pre x y r t rest f]
      by (auto simp: n f_def nth_append)
    moreover have "m > length r" using 1(4) by (simp add: n)
    ultimately show ?thesis using 1(1,2) [of m "pre @ [f]" "t # rest"] 1(5) True u by (auto simp: f_def)
  next
    case False
    then have "decode_loop n (pre @ (x # y # r) @ t # rest) (length pre + length (x # y # r)) (length pre) =
        decode_loop m ((pre @ [x]) @ (y # r) @ t # rest) (length (pre @ [x]) + length (y # r)) (length (pre @ [x]))"
      by (auto simp: n nth_append)
    moreover have "unesc (x # y # r) = x # unesc (y # r)" using False by auto
    moreover have "m > length (y # r)" using 1(4) by (simp add: n)
    ultimately show ?thesis using 1(3) [of m "pre @ [x]" rest] 1(5) False by auto
  qed
next
  case "2_1"
  then show ?case by (cases n) auto
next
  case "2_2"
  then obtain m k where "n = Suc m" "m = Suc k" by (cases n; cases "n - 1") auto
  with "2_2" show ?case by (auto simp: nth_append)
qed

lemma decode_eq:
  assumes "sz < length buff" "buff ! sz \<notin> {0xDC, 0xDD}"
  shows "\<exists>rest. externalProtocolDecode buff sz = Some (unesc (take sz buff) @ buff ! sz # rest, length (unesc (take sz buff)))
    \<and> length buff = length (unesc (take sz buff)) + Suc (length rest)"
proof -
  let ?s = "take sz buff" and ?r = "drop (Suc sz) buff"
  have b: "?s @ buff ! sz # ?r = buff" using assms(1) by (simp add: id_take_nth_drop [symmetric])
  have l: "length ?s = sz" using assms(1) by simp
  have "sz + 1 > length ?s" by simp
  from decode_loop_eq [OF this assms(2), of "[]" ?r] obtain rest where
    "decode_loop (sz + 1) (?s @ buff ! sz # ?r) (length ?s) 0 = Some (unesc ?s @ buff ! sz # rest, length (unesc ?s))"
    "length (?s @ ?r) = length (unesc ?s @ rest)" by auto
  with assms(1) show ?thesis unfolding b l by (intro exI [of _ rest]) (simp add: externalProtocolDecode_def)
qed

section \<open>Frames\<close>

lemma foldl_xor: "foldl (XOR) a bs = a XOR foldl (XOR) (0 :: byte) bs"
proof (induction bs arbitrary: a)
  case (Cons b bs)
  show ?case using Cons [of "a XOR b"] Cons [of b] by (simp add: xor.assoc)
qed simp

lemma xor_bytes_append: "xor_bytes (a @ b) = xor_bytes a XOR xor_bytes b"
  unfolding xor_bytes_def foldl_append by (rule foldl_xor)

lemma xor_checked: "xor_bytes (p @ [xor_bytes p]) = 0"
  unfolding xor_bytes_append by (simp add: xor_bytes_def)

definition frame_of :: "byte list \<Rightarrow> byte list" where
  "frame_of p = 0xC0 # escaped (p @ [xor_bytes p]) @ [0xC0]"

lemma finish_frame_eq:
  assumes "p = take sz body" "sz < length body"
  shows "finish_frame (x # body) sz =
    (if length (frame_of p) \<le> length body + 1
     then Some (frame_of p @ drop (length (frame_of p)) (x # body), length (frame_of p)) else None)"
proof -
  let ?b = "body[sz := xor_bytes p]" and ?e = "escaped (p @ [xor_bytes p])"
  have len: "length ?b = length body" "Suc sz \<le> length ?b" using assms(2) by simp_all
  have tk: "take (Suc sz) ?b = p @ [xor_bytes p]" using assms by (simp add: take_Suc_conv_app_nth)
  have long: "Suc sz \<le> length ?e" using escaped_longer [of "p @ [xor_bytes p]"] assms by simp
  have enc: "externalProtocolEncode ?b (Suc sz) = (if length ?e \<le> length body then Some (?e @ drop (length ?e) ?b, length ?e) else None)"
    using encode_eq [OF len(2)] by (simp add: Let_def tk len(1))
  have dr: "drop (length ?e) ?b = drop (length ?e) body" using long by simp
  have f: "finish_frame (x # body) sz =
      (if length ?e \<le> length body then externalProtocolAddHeader (x # ?e @ drop (length ?e) body) (length ?e) else None)"
    using assms(1,2) enc dr by (simp add: finish_frame_def externalProtocolAddCrcCode_def)
  show ?thesis
  proof (cases "length ?e < length body")
    case True
    then obtain y r where r: "drop (length ?e) body = y # r" by (metis Cons_nth_drop_Suc)
    then have "drop (Suc (length ?e)) body = r" by (metis drop_Suc tl_drop list.sel(3))
    with True f r show ?thesis by (simp add: externalProtocolAddHeader_def frame_of_def list_update_append)
  next
    case False
    with f show ?thesis by (auto simp: externalProtocolAddHeader_def frame_of_def)
  qed
qed

text \<open>What \<open>RequestPro\<close> sees after decoding a delimited buffer: the delimiter stands behind the data.\<close>

lemma request_decoded:
  assumes "2 \<le> len" "len \<le> length buffer" "buffer ! (len - 1) = 0xC0"
  shows "\<exists>rest. request_body buffer len =
    Some (unesc (take (len - 2) (tl buffer)) @ 0xC0 # rest, length (unesc (take (len - 2) (tl buffer)))) \<and>
    length (tl buffer) = length (unesc (take (len - 2) (tl buffer))) + Suc (length rest)"
proof -
  have "len - 2 < length (tl buffer)" "tl buffer ! (len - 2) = 0xC0"
    using assms by (auto simp: nth_tl numeral_2_eq_2 Suc_diff_Suc)
  from decode_eq [OF this(1)] this show ?thesis using assms(1) by (simp add: request_body_def)
qed

section \<open>Properties\<close>

text \<open>C29: finishing a frame of \<open>sz\<close> payload bytes writes exactly the delimiter, the escaped payload with
  its xor byte and the delimiter, and returns its length, if that fits into the caller's array, and
  writes beyond the array otherwise; the delimiter occurs nowhere inside.\<close>

theorem frame_written:
  assumes "sz < length body" "p = take sz body"
  shows "finish_frame (x # body) sz =
      (if length (frame_of p) \<le> length (x # body)
       then Some (frame_of p @ drop (length (frame_of p)) (x # body), length (frame_of p)) else None) \<and>
    0xC0 \<notin> set (butlast (tl (frame_of p))) \<and> length (frame_of p) \<le> 2 * sz + 4"
proof -
  have "butlast (tl (frame_of p)) = escaped (p @ [xor_bytes p])" by (simp add: frame_of_def)
  moreover have "length (frame_of p) \<le> 2 * sz + 4"
    using length_escaped [of "p @ [xor_bytes p]"] assms by (simp add: frame_of_def)
  ultimately show ?thesis using finish_frame_eq [OF assms(2,1)] escaped_no_delimiter by simp
qed

theorem frame_written_witness:
  "finish_frame [0, 0xC0, 0xDB, 1, 2, 3, 4, 5] 2 = Some ([0xC0, 0xDB, 0xDC, 0xDB, 0xDD, 0x1B, 0xC0, 5], 7) \<and>
   finish_frame [0, 0xC0, 0xDB, 1, 2, 3] 2 = None"
proof -
  have f: "frame_of [0xC0, 0xDB] = [0xC0, 0xDB, 0xDC, 0xDB, 0xDD, 0x1B, 0xC0]"
    by (simp add: frame_of_def escaped_def xor_bytes_def)
  from frame_written [of 2 "[0xC0, 0xDB, 1, 2, 3, 4, 5]" "[0xC0, 0xDB]" 0]
    frame_written [of 2 "[0xC0, 0xDB, 1, 2, 3]" "[0xC0, 0xDB]" 0]
  show ?thesis by (simp add: f)
qed

text \<open>The receiver's decoding of a frame gives back the payload followed by its xor byte, with the
  closing delimiter behind it, whatever the payload and whatever follows in the receive buffer.\<close>

lemma frame_roundtrip:
  "\<exists>rest. request_body (frame_of p @ tail) (length (frame_of p)) =
     Some (p @ [xor_bytes p] @ 0xC0 # rest, length p + 1)"
proof -
  let ?f = "frame_of p" and ?e = "escaped (p @ [xor_bytes p])"
  have "2 \<le> length ?f" "length ?f \<le> length (?f @ tail)" "(?f @ tail) ! (length ?f - 1) = 0xC0"
    by (simp_all add: frame_of_def nth_append nth_Cons')
  moreover have "take (length ?f - 2) (tl (?f @ tail)) = ?e" by (simp add: frame_of_def)
  ultimately show ?thesis using request_decoded [of "length ?f" "?f @ tail"] by (auto simp: unesc_escaped)
qed

text \<open>C30: where \<open>char\<close> is signed, the check in \<open>RequestPro\<close> rejects no delimited buffer at all: the test sums
  over the check byte too and compares with the delimiter, 0xC0, which a signed \<open>char\<close> never equals.
  So a frame of the right form with any check byte is acted upon.\<close>

theorem request_check_never_rejects:
  assumes "1 \<le> len" "len \<le> length buffer" "buffer ! 0 = 0xC0" "buffer ! (len - 1) = 0xC0"
  shows "\<exists>body sz. request_body buffer len = Some (body, sz) \<and> request_check True buffer len body sz = Some False"
proof -
  have neq: "sint b \<noteq> uint (0xC0 :: byte)" for b :: byte
    using sint_lt [of b] by simp
  show ?thesis
  proof (cases "len < 2")
    case True
    with neq [of 0] show ?thesis by (simp add: request_body_def request_check_def char_value_def assms(3))
  next
    case False
    with request_decoded [of len buffer] assms obtain rest where
      "request_body buffer len =
       Some (unesc (take (len - 2) (tl buffer)) @ 0xC0 # rest, length (unesc (take (len - 2) (tl buffer))))" by auto
    with False show ?thesis using neq by (simp add: request_check_def externalProtocolCheckCrc_def char_value_def)
  qed
qed

theorem request_check_never_rejects_witness:
  "\<exists>body sz. request_body [0xC0, 9, 0xFF, 1, 0x12, 0, 0, 7, 3, 0x55, 0xC0] 11 = Some (body, sz) \<and>
     request_check True [0xC0, 9, 0xFF, 1, 0x12, 0, 0, 7, 3, 0x55, 0xC0] 11 body sz = Some False \<and>
     xor_bytes [9, 0xFF, 1, 0x12, 0, 0, 7, 3] \<noteq> 0x55"
proof -
  have "xor_bytes [9, 0xFF, 1, 0x12, 0, 0, 7, 3] \<noteq> 0x55" by (simp add: xor_bytes_def)
  with request_check_never_rejects [of 11 "[0xC0, 9, 0xFF, 1, 0x12, 0, 0, 7, 3, 0x55, 0xC0]"] show ?thesis by simp
qed

end
