(* ===== verification/Fvd_Sig.thy ===== *)
theory Fvd_Sig
  imports Fvd_Frame
begin

unbundle bit_operations_syntax

text \<open>
  The reports of the video detector to the signal machine and the connection they are sent over,
  \<^verbatim>\<open>src/fvd-new/sig_service.c\<close>.  What the service reads from the configuration and from the detection
  results of a camera is the record \<open>sig_cam\<close>; bit fields are laid out from the low bit, as gcc does.
  The results of socket calls are arguments.
\<close>

section \<open>Data\<close>

definition CHANNELMAXNUM :: nat where "CHANNELMAXNUM = 4"
definition SENDBUFF :: nat where "SENDBUFF = 100"
definition DEVICECLASS_IPCAMERAL :: byte where "DEVICECLASS_IPCAMERAL = 2"

record sig_cam =
  sc_camstatus :: byte  \<comment> \<open>\<open>get_cam_status\<close>\<close>
  sc_cam_id :: "32 word"  \<comment> \<open>\<open>get_cam_id\<close>\<close>
  sc_direction :: byte  \<comment> \<open>\<open>get_cam_direction\<close>\<close>
  sc_cfg_lanes :: byte  \<comment> \<open>\<open>get_lane_num\<close>\<close>
  sc_running_state :: nat  \<comment> \<open>\<open>get_cam_running_state\<close>: 0 running, 1 stopped\<close>
  sc_status :: byte  \<comment> \<open>\<open>traffic_rst.status\<close>\<close>
  sc_each_status :: byte  \<comment> \<open>\<open>traffic_rst.EachStatus.mCameralStatus\<close>\<close>
  sc_channels :: "byte list list"  \<comment> \<open>\<open>traffic_rst.Eachchannel\<close>, ten bytes each\<close>
  sc_lane_num :: byte  \<comment> \<open>\<open>traffic_rst.lane_num\<close>\<close>
  sc_state_change :: bool

definition device_byte :: "32 word \<Rightarrow> byte \<Rightarrow> byte" where
  "device_byte index cls = (ucast index AND 0x0F) OR push_bit 4 cls"

text \<open>The nine bytes of \<open>FrameHeader\<close>; the tag is overwritten by the delimiter.\<close>

definition frame_header :: "32 word \<Rightarrow> byte \<Rightarrow> byte \<Rightarrow> byte list" where
  "frame_header dev session dtype =
     [0, 0, LINKID_UART_BETWEEN_COMBOARD_AND_MAINCONTLBOARD, PROTOCOTYPE_VIDEO_DETECTOR, 0x12,
      device_byte dev 1, device_byte 0 4, session, dtype]"

definition zero_buff :: "byte list" where "zero_buff = replicate SENDBUFF 0"

section \<open>Events and camera status\<close>

definition time_bytes :: "32 word \<Rightarrow> byte list" where
  "time_bytes t = [ucast t, ucast (drop_bit 8 t), ucast (drop_bit 16 t), ucast (drop_bit 24 t)]"

definition ReportedEvent :: "32 word \<Rightarrow> byte \<Rightarrow> 32 word \<Rightarrow> (byte list \<times> nat) option" where
  "ReportedEvent dev event now =
     (let mysbuf = mem_write 0 (frame_header 0 0xFF 0x10) zero_buff;
          mysbuf = mem_write sizeof_FrameHeader ([device_byte dev 1, 0, event, 0] @ time_bytes now) mysbuf
      in finish_frame mysbuf (sizeof_FrameHeader - 1 + 8))"

definition position_byte :: "byte \<Rightarrow> byte" where
  "position_byte d = (if d \<in> {1..8} then push_bit (unat d - 1) 1 else 1)"

definition status_byte :: "sig_cam \<Rightarrow> byte" where
  "status_byte c =
     (sc_each_status c AND NOT 0x10) OR (if sc_status c = 1 \<or> sc_status c = 2 then 0x10 else 0)"

definition status_entry :: "sig_cam \<Rightarrow> byte list" where
  "status_entry c = [device_byte (sc_cam_id c) DEVICECLASS_IPCAMERAL, position_byte (sc_direction c), status_byte c]"

text \<open>The loop over the cameras: \<open>n\<close> is \<open>mCameralCount\<close>.\<close>

fun status_loop :: "sig_cam list \<Rightarrow> nat \<Rightarrow> byte list \<Rightarrow> nat \<Rightarrow> (byte list \<times> nat \<times> nat) option" where
  "status_loop [] n buf sz = Some (buf, n, sz)"
| "status_loop (c # cs) n buf sz =
     (if sc_camstatus c \<noteq> 0 then
        (let at = sizeof_FrameHeader + 3 + n * 3
         in if at + 3 > length buf then None
            else status_loop cs (n + 1) (mem_write at (status_entry c) buf) (sz + 3))
      else status_loop cs n buf sz)"

definition ReportedCammerStatus :: "32 word \<Rightarrow> sig_cam list \<Rightarrow> byte \<Rightarrow> (byte list \<times> nat) option" where
  "ReportedCammerStatus dev cams session =
     (let sendbuff = mem_write 0 (frame_header 1 session 0x04) zero_buff;
          sendbuff = mem_write sizeof_FrameHeader [device_byte dev 1, 3] sendbuff
      in case status_loop cams 0 sendbuff (sizeof_FrameHeader - 1 + 3) of None \<Rightarrow> None
         | Some (sendbuff, n, sz) \<Rightarrow> finish_frame (sendbuff[sizeof_FrameHeader + 2 := of_nat n]) sz)"

section \<open>Traffic data\<close>

definition valid_pack :: "nat \<Rightarrow> byte list \<Rightarrow> byte list" where
  "valid_pack running p = p[9 := (p ! 9 AND 0x7F) OR (if odd running then 0x80 else 0)]"

text \<open>One lane after the other: the valid bit in the detection result, then the copy of ten bytes.\<close>

fun lanes_loop :: "nat \<Rightarrow> nat list \<Rightarrow> byte list list \<Rightarrow> byte list \<Rightarrow> nat \<Rightarrow> (byte list list \<times> byte list \<times> nat) option" where
  "lanes_loop running [] chans buf sz = Some (chans, buf, sz)"
| "lanes_loop running (j # js) chans buf sz =
     (let at = sizeof_FrameHeader + 1 + j * 10
      in if j \<ge> length chans \<or> at + 10 > length buf then None
         else let p = valid_pack running (chans ! j)
              in lanes_loop running js (chans[j := p]) (mem_write at p buf) (sz + 10))"

text \<open>The body of the loop over the cameras in \<open>ReportedRealStatic\<close>, up to \<open>SendDataByTcp\<close>.\<close>

definition real_static_frame :: "byte list \<Rightarrow> sig_cam \<Rightarrow> (sig_cam \<times> byte list \<times> nat) option" where
  "real_static_frame mysbuf c =
     (let n = sc_cfg_lanes c; c = c\<lparr>sc_lane_num := n\<rparr>;
          mysbuf = mem_write sizeof_FrameHeader [n] mysbuf
      in case lanes_loop (sc_running_state c) [0..<unat n] (sc_channels c) mysbuf (sizeof_FrameHeader - 1 + 1) of
           None \<Rightarrow> None
         | Some (chans, mysbuf, sz) \<Rightarrow>
             (case finish_frame mysbuf sz of None \<Rightarrow> None
              | Some (mysbuf, sz) \<Rightarrow> Some (c\<lparr>sc_channels := chans\<rparr>, mysbuf, sz)))"

text \<open>\<open>send i\<close> is \<open>SendDataByTcp\<close> on the connection for camera \<open>i\<close>; the result is the return value, the frames
  given to it and the camera data.  The array \<open>mysbuf\<close> is not cleared between cameras.\<close>

fun real_static_loop ::
  "(nat \<Rightarrow> byte list \<Rightarrow> int) \<Rightarrow> byte list \<Rightarrow> int \<Rightarrow> nat \<Rightarrow> sig_cam list \<Rightarrow> (int \<times> byte list list \<times> sig_cam list) option" where
  "real_static_loop send mysbuf len i [] = Some (len, [], [])"
| "real_static_loop send mysbuf len i (c # cs) =
     (if sc_camstatus c = 0
      then map_option (\<lambda>(r, fs, cs). (r, fs, c # cs)) (real_static_loop send mysbuf len (Suc i) cs)
      else case real_static_frame mysbuf c of None \<Rightarrow> None | Some (c, mysbuf, sz) \<Rightarrow>
        let frame = take sz mysbuf; len = send i frame
        in if len \<le> 0 then Some (len, [frame], c # cs)
           else map_option (\<lambda>(r, fs, cs). (r, frame # fs, c # cs)) (real_static_loop send mysbuf len (Suc i) cs))"

definition ReportedRealStatic ::
  "(nat \<Rightarrow> byte list \<Rightarrow> int) \<Rightarrow> 32 word \<Rightarrow> sig_cam list \<Rightarrow> (int \<times> byte list list \<times> sig_cam list) option" where
  "ReportedRealStatic send dev cams =
     real_static_loop send (mem_write 0 (frame_header dev 0xFF 0x01) zero_buff) (-1) 0 cams"

section \<open>The connection\<close>

datatype sig_mode = SIG_PRE_CONNECT | SIG_CONNECTED | SIG_NULL

record sig_conn =
  sg_state :: sig_mode
  sg_fd :: int

definition sig_set_state :: "sig_mode \<Rightarrow> sig_conn \<Rightarrow> sig_conn" where
  "sig_set_state m s = s\<lparr>sg_state := m\<rparr>"

definition close_socket :: "sig_conn \<Rightarrow> sig_conn" where
  "close_socket s = s\<lparr>sg_fd := -1\<rparr>"

text \<open>What the system calls of one call return: \<open>CreateTcpClientSock\<close>, \<open>ConnectTcpClient\<close> (1 or -1), \<open>time\<close>, and
  \<open>SendDataByTcp\<close> for the \<open>k\<close>-th frame of the call (the number of bytes or -1).  \<open>io_junk\<close> is the value of the
  uninitialised \<open>retlen\<close> of \<open>connect_sig\<close>.\<close>

record sig_io =
  io_sock :: int
  io_conn :: int
  io_junk :: int
  io_now :: "nat \<Rightarrow> 32 word"
  io_send :: "nat \<Rightarrow> byte list \<Rightarrow> int"

definition reset_sig_machine :: "sig_conn \<Rightarrow> sig_conn" where
  "reset_sig_machine s = sig_set_state SIG_PRE_CONNECT (close_socket (sig_set_state SIG_NULL s))"

definition report_data_callback_fun ::
  "sig_io \<Rightarrow> 32 word \<Rightarrow> sig_conn \<times> sig_cam list \<Rightarrow> (sig_conn \<times> sig_cam list) option" where
  "report_data_callback_fun io dev = (\<lambda>(s, cams).
     if sg_state s = SIG_CONNECTED then
       (case ReportedRealStatic (io_send io) dev cams of None \<Rightarrow> None
        | Some (r, _, cams) \<Rightarrow>
            Some (if r \<le> 0 then sig_set_state SIG_PRE_CONNECT (close_socket s) else s, cams))
     else Some (s, cams))"

text \<open>\<open>check_event_callback_fun\<close>: every camera whose state changed has the whole status reported.\<close>

fun check_event_loop :: "sig_io \<Rightarrow> 32 word \<Rightarrow> sig_conn \<Rightarrow> nat list \<Rightarrow> sig_cam list \<Rightarrow> sig_cam list option" where
  "check_event_loop io dev s [] cams = Some cams"
| "check_event_loop io dev s (i # js) cams =
     (if sc_state_change (cams ! i) \<and> sg_state s = SIG_CONNECTED then
        (case ReportedCammerStatus dev cams 0xFF of None \<Rightarrow> None
         | Some (buf, sz) \<Rightarrow>
             check_event_loop io dev s js
               (if io_send io i (take sz buf) > 0 then cams[i := (cams ! i)\<lparr>sc_state_change := False\<rparr>] else cams))
      else check_event_loop io dev s js cams)"

definition check_event_callback_fun ::
  "sig_io \<Rightarrow> 32 word \<Rightarrow> sig_conn \<times> sig_cam list \<Rightarrow> (sig_conn \<times> sig_cam list) option" where
  "check_event_callback_fun io dev = (\<lambda>(s, cams).
     map_option (Pair s) (check_event_loop io dev s [0..<length cams] cams))"

text \<open>Reports in a row, each closing the socket when it fails.  \<open>reboot_cmd\<close> goes on after a failure.\<close>

fun reboot_reports :: "sig_io \<Rightarrow> nat \<Rightarrow> (byte list \<times> nat) option list \<Rightarrow> sig_conn \<Rightarrow> sig_conn option" where
  "reboot_reports io k [] s = Some s"
| "reboot_reports io k (None # rs) s = None"
| "reboot_reports io k (Some (buf, sz) # rs) s =
     reboot_reports io (Suc k) rs (if io_send io k (take sz buf) < 0 then close_socket s else s)"

text \<open>\<open>reboot_cmd\<close> up to the reboot.\<close>

definition reboot_cmd :: "sig_io \<Rightarrow> 32 word \<Rightarrow> sig_conn \<Rightarrow> sig_conn option" where
  "reboot_cmd io dev s =
     reboot_reports io 0 [ReportedEvent dev 1 (io_now io 0), ReportedEvent dev 4 (io_now io 1)] s"

definition connect_sig :: "sig_io \<Rightarrow> sig_conn \<Rightarrow> int \<times> sig_conn" where
  "connect_sig io s =
     (if sg_fd s > 0 then (io_conn io, if io_conn io = -1 then close_socket s else s) else (io_junk io, s))"

text \<open>The three greeting reports: a negative result closes the socket and ends the pass.\<close>

fun greet :: "sig_io \<Rightarrow> nat \<Rightarrow> (byte list \<times> nat) option list \<Rightarrow> sig_conn \<Rightarrow> sig_conn option" where
  "greet io k [] s = Some (sig_set_state SIG_CONNECTED s)"
| "greet io k (None # rs) s = None"
| "greet io k (Some (buf, sz) # rs) s =
     (if io_send io k (take sz buf) < 0 then Some (close_socket s) else greet io (Suc k) rs s)"

definition greetings :: "sig_io \<Rightarrow> 32 word \<Rightarrow> sig_cam list \<Rightarrow> (byte list \<times> nat) option list" where
  "greetings io dev cams =
     [ReportedEvent dev 2 (io_now io 0), ReportedEvent dev 3 (io_now io 1), ReportedCammerStatus dev cams 0xFF]"

text \<open>One pass of the loop of \<open>sig_service_thread\<close>.\<close>

definition sig_service_pass ::
  "sig_io \<Rightarrow> 32 word \<Rightarrow> sig_conn \<times> sig_cam list \<Rightarrow> (sig_conn \<times> sig_cam list) option" where
  "sig_service_pass io dev = (\<lambda>(s, cams).
     case sg_state s of
       SIG_PRE_CONNECT \<Rightarrow>
         if sg_fd s \<le> 0 then
           let s = s\<lparr>sg_fd := io_sock io\<rparr>
           in if sg_fd s < 0 then Some (s, cams)
              else case connect_sig io s of (r, s) \<Rightarrow>
                if r \<le> 0 then Some (s, cams)
                else map_option (\<lambda>s. (s, cams)) (greet io 0 (greetings io dev cams) s)
         else map_option (\<lambda>s. (s, cams)) (greet io 0 (greetings io dev cams) s)
     | _ \<Rightarrow> Some (s, cams))"

definition init_data :: "sig_conn \<Rightarrow> sig_conn" where
  "init_data s = (sig_set_state SIG_NULL s)\<lparr>sg_fd := -1\<rparr>"

text \<open>\<open>init_sig_service\<close>: \<open>ip0\<close> is the first character of the configured address.\<close>

definition init_sig_service :: "char \<Rightarrow> sig_conn \<Rightarrow> sig_conn" where
  "init_sig_service ip0 s =
     (let s = init_data s in if ip0 \<noteq> CHR ''0'' then sig_set_state SIG_PRE_CONNECT s else s)"

section \<open>Contents of the reports\<close>

lemmas sig_consts = sizeof_FrameHeader_def SENDBUFF_def CHANNELMAXNUM_def

lemma mem_write_adjacent:
  "k + length xs + length ys \<le> length m \<Longrightarrow> mem_write (k + length xs) ys (mem_write k xs m) = mem_write k (xs @ ys) m"
  by (simp add: mem_write_append)

lemma mem_write_Cons: "mem_write (Suc k) xs (x # m) = x # mem_write k xs m"
  by (simp add: mem_write_def)

lemma length_frame_header [simp]: "length (frame_header dev session dtype) = 9"
  by (simp add: frame_header_def)

definition plain :: "byte list \<Rightarrow> bool" where "plain s \<longleftrightarrow> 0xC0 \<notin> set s \<and> 0xDB \<notin> set s"

lemma escaped_plain: "plain s \<Longrightarrow> escaped (s @ u) = s @ escaped u"
  by (induction s) (auto simp: plain_def escaped_simps)

lemma device_byte_plain: "device_byte dev 1 \<noteq> 0xC0" "device_byte dev 1 \<noteq> 0xDB" "device_byte dev 4 \<noteq> 0xC0" "device_byte dev 4 \<noteq> 0xDB"
proof -
  have "\<not> bit (device_byte dev c) 7" if "c = 1 \<or> c = 4" for c
    using that by (auto simp: device_byte_def bit_simps)
  moreover have "bit (0xC0 :: byte) 7" "bit (0xDB :: byte) 7" by simp_all
  ultimately show "device_byte dev 1 \<noteq> 0xC0" "device_byte dev 1 \<noteq> 0xDB" "device_byte dev 4 \<noteq> 0xC0" "device_byte dev 4 \<noteq> 0xDB"
    by metis+
qed

lemma header_plain:
  "session \<noteq> 0xC0 \<Longrightarrow> session \<noteq> 0xDB \<Longrightarrow> dtype \<noteq> 0xC0 \<Longrightarrow> dtype \<noteq> 0xDB \<Longrightarrow> plain (tl (frame_header dev session dtype))"
  using device_byte_plain [of dev] device_byte_plain [of 0]
  by (auto simp: plain_def frame_header_def LINKID_UART_BETWEEN_COMBOARD_AND_MAINCONTLBOARD_def PROTOCOTYPE_VIDEO_DETECTOR_def)

subsection \<open>Traffic data\<close>

definition lanes_bytes :: "nat \<Rightarrow> byte list list \<Rightarrow> byte list" where
  "lanes_bytes running chans = concat (map (valid_pack running) chans)"

lemma length_valid_pack [simp]: "length (valid_pack r p) = length p"
  by (simp add: valid_pack_def)

lemma length_lanes_bytes: "\<forall>p \<in> set chans. length p = 10 \<Longrightarrow> length (lanes_bytes r chans) = 10 * length chans"
  by (induction chans) (auto simp: lanes_bytes_def)

lemma lanes_loop_append:
  "lanes_loop r (xs @ ys) chans buf sz =
    (case lanes_loop r xs chans buf sz of None \<Rightarrow> None | Some (chans, buf, sz) \<Rightarrow> lanes_loop r ys chans buf sz)"
  by (induction r xs chans buf sz rule: lanes_loop.induct) (auto simp: Let_def)

lemma lanes_loop_eq:
  assumes "n \<le> length chans" "10 + 10 * n \<le> length buf" "\<forall>p \<in> set chans. length p = 10"
  shows "lanes_loop r [0..<n] chans buf sz =
    Some (map (valid_pack r) (take n chans) @ drop n chans, mem_write 10 (lanes_bytes r (take n chans)) buf, sz + 10 * n)"
  using assms
proof (induction n)
  case 0
  then show ?case by (simp add: lanes_bytes_def mem_write_def)
next
  case (Suc n)
  let ?L = "lanes_bytes r (take n chans)" and ?p = "valid_pack r (chans ! n)"
  have n: "n < length chans" using Suc.prems(1) by simp
  have len: "length ?L = 10 * n" using length_lanes_bytes [of "take n chans" r] Suc.prems(1,3) by (auto dest: in_set_takeD)
  have p: "length ?p = 10" using Suc.prems(3) n by simp
  have tk: "take (Suc n) chans = take n chans @ [chans ! n]" using n by (rule take_Suc_conv_app_nth)
  have mw: "mem_write (10 + 10 * n) ?p (mem_write 10 ?L buf) = mem_write 10 (?L @ ?p) buf"
    using mem_write_adjacent [of 10 ?L ?p buf] len p Suc.prems(2) by simp
  have dr: "drop n chans = chans ! n # drop (Suc n) chans" using n by (simp add: Cons_nth_drop_Suc)
  have up: "(map (valid_pack r) (take n chans) @ drop n chans)[n := ?p] = map (valid_pack r) (take (Suc n) chans) @ drop (Suc n) chans"
    "(map (valid_pack r) (take n chans) @ drop n chans) ! n = chans ! n"
    using n unfolding tk dr by (simp_all add: list_update_append nth_append)
  have "lanes_loop r [0..<Suc n] chans buf sz = lanes_loop r [n] (map (valid_pack r) (take n chans) @ drop n chans) (mem_write 10 ?L buf) (sz + 10 * n)"
    using Suc by (simp add: lanes_loop_append)
  also have "\<dots> = Some (map (valid_pack r) (take (Suc n) chans) @ drop (Suc n) chans, mem_write 10 (?L @ ?p) buf, sz + 10 * n + 10)"
    using up mw n len Suc.prems(2) by (simp add: Let_def sig_consts mult.commute)
  also have "?L @ ?p = lanes_bytes r (take (Suc n) chans)" by (simp add: lanes_bytes_def tk)
  finally show ?case by simp
qed

lemma lanes_loop_overrun: "length chans < n \<Longrightarrow> lanes_loop r [0..<n] chans buf sz = None"
proof -
  have len: "length chans' = length chans" if "lanes_loop r xs chans buf sz = Some (chans', buf', sz')" for xs chans' buf' sz'
    using that by (induction r xs chans buf sz rule: lanes_loop.induct) (auto simp: Let_def split: if_splits)
  assume "length chans < n"
  then have "[0..<n] = [0..<length chans] @ length chans # [Suc (length chans)..<n]"
    using upt_add_eq_append [of 0 "length chans" "n - length chans"] by (simp add: upt_conv_Cons)
  then show ?thesis using len by (auto simp: lanes_loop_append Let_def split: option.split)
qed

definition traffic_payload :: "32 word \<Rightarrow> sig_cam \<Rightarrow> byte list" where
  "traffic_payload dev c =
     tl (frame_header dev 0xFF 0x01) @ [sc_cfg_lanes c] @
     lanes_bytes (sc_running_state c) (take (unat (sc_cfg_lanes c)) (sc_channels c))"

definition cam_ok :: "sig_cam \<Rightarrow> bool" where
  "cam_ok c \<longleftrightarrow> unat (sc_cfg_lanes c) \<le> length (sc_channels c) \<and> length (sc_channels c) \<le> CHANNELMAXNUM \<and>
     (\<forall>p \<in> set (sc_channels c). length p = 10)"

definition buff_ok :: "32 word \<Rightarrow> byte list \<Rightarrow> bool" where
  "buff_ok dev buf \<longleftrightarrow> length buf = SENDBUFF \<and> take 8 (tl buf) = tl (frame_header dev 0xFF 0x01)"

lemma traffic_frame_fits:
  assumes "cam_ok c"
  shows "length (frame_of (traffic_payload dev c)) \<le> SENDBUFF" "take 8 (tl (frame_of (traffic_payload dev c))) = tl (frame_header dev 0xFF 0x01)"
proof -
  let ?n = "sc_cfg_lanes c" and ?h = "tl (frame_header dev 0xFF 0x01)"
  let ?L = "lanes_bytes (sc_running_state c) (take (unat ?n) (sc_channels c))"
  have u: "unat ?n \<le> 4" using assms by (simp add: cam_ok_def CHANNELMAXNUM_def)
  have "?n \<noteq> 0xC0" "?n \<noteq> 0xDB" using u by auto
  then have pl: "plain (?h @ [?n])" using header_plain [of "0xFF" "0x01" dev] by (auto simp: plain_def)
  have len: "length ?L \<le> 40"
  proof -
    have "\<forall>p \<in> set (take (unat ?n) (sc_channels c)). length p = 10"
      using assms by (auto simp: cam_ok_def dest: in_set_takeD)
    then show ?thesis using length_lanes_bytes u by (simp add: min_le_iff_disj)
  qed
  have f: "frame_of (traffic_payload dev c) =
      0xC0 # (?h @ [?n]) @ escaped (?L @ [xor_bytes (traffic_payload dev c)]) @ [0xC0]"
    using escaped_plain [OF pl, of "?L @ [xor_bytes (traffic_payload dev c)]"] by (simp add: frame_of_def traffic_payload_def)
  show "length (frame_of (traffic_payload dev c)) \<le> SENDBUFF"
    using length_escaped [of "?L @ [xor_bytes (traffic_payload dev c)]"] len unfolding f by (simp add: SENDBUFF_def)
  show "take 8 (tl (frame_of (traffic_payload dev c))) = ?h" unfolding f by simp
qed

lemma real_static_frame_eq:
  assumes "buff_ok dev buf" "cam_ok c"
  shows "\<exists>c' buf'. real_static_frame buf c = Some (c', buf', length (frame_of (traffic_payload dev c))) \<and>
    take (length (frame_of (traffic_payload dev c))) buf' = frame_of (traffic_payload dev c) \<and> buff_ok dev buf' \<and> cam_ok c'"
proof -
  let ?n = "sc_cfg_lanes c" and ?p = "traffic_payload dev c"
  let ?L = "lanes_bytes (sc_running_state c) (take (unat ?n) (sc_channels c))"
  have ok: "unat ?n \<le> length (sc_channels c)" "unat ?n \<le> 4" "\<forall>p \<in> set (sc_channels c). length p = 10"
    using assms(2) by (auto simp: cam_ok_def CHANNELMAXNUM_def)
  have L: "length ?L = 10 * unat ?n"
    using length_lanes_bytes [of "take (unat ?n) (sc_channels c)"] ok by (auto dest: in_set_takeD)
  obtain x body where buf: "buf = x # body" "length body = 99" "take 8 body = tl (frame_header dev 0xFF 0x01)"
    using assms(1) by (cases buf) (auto simp: buff_ok_def SENDBUFF_def)
  let ?w = "mem_write 8 ([?n] @ ?L) body"
  have w: "mem_write 10 ?L (mem_write 9 [?n] buf) = x # ?w"
    using mem_write_adjacent [of 9 "[?n]" ?L buf] buf L ok(2) mem_write_Cons [of 8 "?n # ?L" x body] by simp
  have tk: "take (9 + 10 * unat ?n) ?w = ?p" "9 + 10 * unat ?n < length ?w"
    using take_mem_write_end [of 8 "[?n] @ ?L" body] buf L ok(2) by (simp_all add: traffic_payload_def)
  have "lanes_loop (sc_running_state c) [0..<unat ?n] (sc_channels c) (mem_write 9 [?n] buf) 9 =
      Some (map (valid_pack (sc_running_state c)) (take (unat ?n) (sc_channels c)) @ drop (unat ?n) (sc_channels c),
        x # ?w, 9 + 10 * unat ?n)"
    using lanes_loop_eq [OF ok(1) _ ok(3), of "mem_write 9 [?n] buf"] w buf ok(2) by simp
  moreover note finish_frame_eq [OF tk(1) [symmetric] tk(2), of x]
  moreover have "length ?w + 1 = 100" using buf L ok(2) by simp
  moreover note fits = traffic_frame_fits [OF assms(2), of dev]
  moreover have "cam_ok (c\<lparr>sc_lane_num := ?n, sc_channels :=
      map (valid_pack (sc_running_state c)) (take (unat ?n) (sc_channels c)) @ drop (unat ?n) (sc_channels c)\<rparr>)"
    using assms(2) by (auto simp: cam_ok_def dest: in_set_takeD in_set_dropD)
  ultimately have "\<exists>c'. real_static_frame buf c = Some (c', frame_of ?p @ drop (length (frame_of ?p)) (x # ?w), length (frame_of ?p)) \<and> cam_ok c'"
    by (simp add: real_static_frame_def sig_consts Let_def)
  moreover have "buff_ok dev (frame_of ?p @ drop (length (frame_of ?p)) (x # ?w))"
    using fits \<open>length ?w + 1 = 100\<close> escaped_longer [of "?p @ [xor_bytes ?p]"]
    by (simp add: buff_ok_def SENDBUFF_def frame_of_def traffic_payload_def)
  ultimately show ?thesis by fastforce
qed

lemma real_static_loop_eq:
  assumes "buff_ok dev buf" "\<forall>c \<in> set cams. cam_ok c" "\<forall>k f. send k f > 0"
  shows "\<exists>r cams'. real_static_loop send buf len i cams =
      Some (r, map (\<lambda>c. frame_of (traffic_payload dev c)) (filter (\<lambda>c. sc_camstatus c \<noteq> 0) cams), cams') \<and>
    (if \<forall>c \<in> set cams. sc_camstatus c = 0 then r = len else r > 0)"
  using assms(1,2)
proof (induction cams arbitrary: buf len i)
  case (Cons c cs)
  show ?case
  proof (cases "sc_camstatus c = 0")
    case True
    obtain r cams' where "real_static_loop send buf len (Suc i) cs =
        Some (r, map (\<lambda>c. frame_of (traffic_payload dev c)) (filter (\<lambda>c. sc_camstatus c \<noteq> 0) cs), cams')"
      "if \<forall>c \<in> set cs. sc_camstatus c = 0 then r = len else r > 0" using Cons by fastforce
    with True show ?thesis by auto
  next
    case False
    let ?f = "frame_of (traffic_payload dev c)"
    have "cam_ok c" using Cons.prems(2) by simp
    from real_static_frame_eq [OF Cons.prems(1) this] obtain c' buf' where
      b: "real_static_frame buf c = Some (c', buf', length ?f)" "take (length ?f) buf' = ?f" "buff_ok dev buf'" by blast
    from Cons.IH [OF b(3), of "send i ?f" "Suc i"] Cons.prems(2) obtain r cams' where
      "real_static_loop send buf' (send i ?f) (Suc i) cs =
        Some (r, map (\<lambda>c. frame_of (traffic_payload dev c)) (filter (\<lambda>c. sc_camstatus c \<noteq> 0) cs), cams')"
      "if \<forall>c \<in> set cs. sc_camstatus c = 0 then r = send i ?f else r > 0" by auto
    moreover have "\<not> send i ?f \<le> 0" "send i ?f > 0" using assms(3) by (simp_all add: not_le)
    ultimately show ?thesis using False b by (auto split: if_splits)
  qed
qed simp

lemma real_static_loop_total:
  assumes "buff_ok dev buf" "\<forall>c \<in> set cams. cam_ok c"
  shows "\<exists>r fs cams'. real_static_loop send buf len i cams = Some (r, fs, cams') \<and>
    length cams' = length cams \<and> (\<forall>c \<in> set cams'. cam_ok c)"
  using assms
proof (induction cams arbitrary: buf len i)
  case (Cons c cs)
  show ?case
  proof (cases "sc_camstatus c = 0")
    case True
    with Cons.IH [OF Cons.prems(1), of len "Suc i"] Cons.prems(2) show ?thesis by fastforce
  next
    case False
    let ?f = "frame_of (traffic_payload dev c)"
    have "cam_ok c" using Cons.prems(2) by simp
    from real_static_frame_eq [OF Cons.prems(1) this] obtain c' buf' where
      b: "real_static_frame buf c = Some (c', buf', length ?f)" "take (length ?f) buf' = ?f" "buff_ok dev buf'" "cam_ok c'" by blast
    from Cons.IH [OF b(3), of "send i ?f" "Suc i"] Cons.prems(2) obtain r fs cams' where
      "real_static_loop send buf' (send i ?f) (Suc i) cs = Some (r, fs, cams')" "length cams' = length cs"
      "\<forall>c \<in> set cams'. cam_ok c" by auto
    with False b Cons.prems(2) show ?thesis by (auto simp: Let_def)
  qed
qed simp

lemma real_static_loop_fails:
  "\<forall>k f. send k f \<le> 0 \<Longrightarrow> len \<le> 0 \<Longrightarrow> real_static_loop send buf len i cams = Some (r, fs, cams') \<Longrightarrow> r \<le> 0"
  by (induction send buf len i cams arbitrary: r fs cams' rule: real_static_loop.induct)
    (auto simp: Let_def split: if_splits option.splits)

lemma header_buff_ok: "buff_ok dev (mem_write 0 (frame_header dev 0xFF 0x01) zero_buff)"
  by (simp add: buff_ok_def zero_buff_def SENDBUFF_def mem_write_def frame_header_def)

subsection \<open>Events and camera status\<close>

lemma status_loop_eq:
  assumes "9 + 3 + 3 * (n + length (filter (\<lambda>c. sc_camstatus c \<noteq> 0) cams)) \<le> length buf"
  shows "status_loop cams n buf sz =
    (let act = filter (\<lambda>c. sc_camstatus c \<noteq> 0) cams in
     Some (mem_write (12 + 3 * n) (concat (map status_entry act)) buf, n + length act, sz + 3 * length act))"
  using assms
proof (induction cams arbitrary: n buf sz)
  case Nil
  then show ?case by (simp add: mem_write_def)
next
  case (Cons c cs)
  show ?case
  proof (cases "sc_camstatus c = 0")
    case True
    with Cons show ?thesis by simp
  next
    case False
    let ?e = "status_entry c" and ?act = "filter (\<lambda>c. sc_camstatus c \<noteq> 0) cs"
    have e: "length ?e = 3" by (simp add: status_entry_def)
    have l: "length (concat (map status_entry xs)) = 3 * length xs" for xs
      by (induction xs) (simp_all add: status_entry_def)
    have "mem_write (12 + 3 * n + length ?e) (concat (map status_entry ?act)) (mem_write (12 + 3 * n) ?e buf) =
        mem_write (12 + 3 * n) (?e @ concat (map status_entry ?act)) buf"
      using Cons.prems False e l [of ?act] by (intro mem_write_adjacent) simp
    with False Cons.prems e Cons.IH [of "Suc n" "mem_write (12 + 3 * n) ?e buf" "sz + 3"] show ?thesis
      by (simp add: Let_def sig_consts mult.commute add.commute)
  qed
qed

definition status_payload :: "32 word \<Rightarrow> sig_cam list \<Rightarrow> byte \<Rightarrow> byte list" where
  "status_payload dev cams session =
     (let act = filter (\<lambda>c. sc_camstatus c \<noteq> 0) cams in
      tl (frame_header 1 session 0x04) @ [device_byte dev 1, 3, of_nat (length act)] @ concat (map status_entry act))"

definition event_payload :: "32 word \<Rightarrow> byte \<Rightarrow> 32 word \<Rightarrow> byte list" where
  "event_payload dev event now = tl (frame_header 0 0xFF 0x10) @ [device_byte dev 1, 0, event, 0] @ time_bytes now"

text \<open>A report whose payload \<open>p\<close> was laid out behind the tag is finished as \<open>frame_of p\<close>.\<close>

definition sends :: "(byte list \<times> nat) option \<Rightarrow> byte list \<Rightarrow> bool" where
  "sends rep frame \<longleftrightarrow> (\<exists>buf. rep = Some (buf, length frame) \<and> take (length frame) buf = frame \<and> length buf = SENDBUFF)"

lemma frame_sends:
  assumes "length m = SENDBUFF" "take (length p) (tl m) = p" "2 * length p + 4 \<le> SENDBUFF"
  shows "sends (finish_frame m (length p)) (frame_of p)"
proof -
  obtain x body where m: "m = x # body" using assms(1) by (cases m) (simp_all add: SENDBUFF_def)
  have "length (frame_of p) \<le> SENDBUFF"
    using length_escaped [of "p @ [xor_bytes p]"] assms(3) by (simp add: frame_of_def)
  then show ?thesis
    using finish_frame_eq [of p "length p" body x] assms unfolding m sends_def by (simp add: SENDBUFF_def)
qed

lemma event_sends: "sends (ReportedEvent dev event now) (frame_of (event_payload dev event now))"
proof -
  let ?b = "[device_byte dev 1, 0, event, 0] @ time_bytes now" and ?h = "frame_header 0 0xFF 0x10"
  have b: "length ?b = 8" by (simp add: time_bytes_def)
  have l: "length (event_payload dev event now) = 16" using b by (simp add: event_payload_def)
  have "mem_write 9 ?b (mem_write 0 ?h zero_buff) = mem_write 0 (?h @ ?b) zero_buff"
    using mem_write_adjacent [of 0 ?h ?b zero_buff] b by (simp add: zero_buff_def SENDBUFF_def)
  also have "\<dots> = ?h @ ?b @ drop 17 zero_buff" using b by (simp add: mem_write_def)
  finally have m: "mem_write 9 ?b (mem_write 0 ?h zero_buff) = ?h @ ?b @ drop 17 zero_buff" .
  have h: "tl (?h @ ?b @ drop 17 zero_buff) = event_payload dev event now @ drop 17 zero_buff"
    by (simp add: event_payload_def frame_header_def)
  have "sends (finish_frame (?h @ ?b @ drop 17 zero_buff) (length (event_payload dev event now))) (frame_of (event_payload dev event now))"
    by (rule frame_sends) (simp_all only: h l, simp_all add: b l zero_buff_def SENDBUFF_def time_bytes_def)
  then show ?thesis using m l by (simp add: ReportedEvent_def sizeof_FrameHeader_def)
qed

lemma status_sends:
  assumes "length cams \<le> 12"
  shows "sends (ReportedCammerStatus dev cams session) (frame_of (status_payload dev cams session))"
proof -
  let ?act = "filter (\<lambda>c. sc_camstatus c \<noteq> 0) cams"
  let ?h = "frame_header 1 session 0x04" and ?d = "[device_byte dev 1, 3]" and ?e = "concat (map status_entry ?act)"
  let ?z = "drop (12 + 3 * length ?act) zero_buff" and ?p = "status_payload dev cams session"
  have act: "length ?act \<le> 12" using le_trans [OF length_filter_le assms] .
  have e: "length (concat (map status_entry xs)) = 3 * length xs" for xs
    by (induction xs) (simp_all add: status_entry_def)
  have z: "length zero_buff = 100" by (simp add: zero_buff_def SENDBUFF_def)
  have z0: "drop 11 zero_buff = 0 # drop 12 zero_buff"
    using Cons_nth_drop_Suc [of 11 zero_buff] by (simp add: zero_buff_def SENDBUFF_def)
  let ?m = "mem_write 9 ?d (mem_write 0 ?h zero_buff)"
  have m: "?m = (?h @ ?d) @ 0 # drop 12 zero_buff"
    using mem_write_adjacent [of 0 ?h ?d zero_buff] z z0 by (simp add: mem_write_def)
  have loop: "status_loop cams 0 ?m 11 = Some (mem_write 12 ?e ?m, length ?act, 11 + 3 * length ?act)"
    using status_loop_eq [of 0 cams ?m 11] act z by (simp add: Let_def)
  have "mem_write 12 ?e ?m = (?h @ ?d) @ 0 # ?e @ ?z"
    unfolding m using drop_drop [of "3 * length ?act" 12 zero_buff]
    by (simp add: mem_write_def e ac_simps drop_Cons')
  then have w: "(mem_write 12 ?e ?m)[11 := of_nat (length ?act)] = ?h @ ?d @ of_nat (length ?act) # ?e @ ?z"
    by (simp add: list_update_append)
  have l: "length ?p = 11 + 3 * length ?act" by (simp add: status_payload_def e Let_def)
  have h: "tl (?h @ ?d @ of_nat (length ?act) # ?e @ ?z) = ?p @ ?z"
    by (simp add: status_payload_def frame_header_def Let_def)
  have "sends (finish_frame (?h @ ?d @ of_nat (length ?act) # ?e @ ?z) (length ?p)) (frame_of ?p)"
    by (rule frame_sends) (simp_all only: h l, use act in \<open>simp_all add: e z l SENDBUFF_def\<close>)
  then show ?thesis using loop w l by (simp add: ReportedCammerStatus_def sizeof_FrameHeader_def)
qed

section \<open>The states of the connection\<close>

text \<open>The handlers run one after the other, each as one step, although the code holds no lock over a handler; between them the detector and the
  clients replace the data of the cameras, with any number of lanes.  A step that leaves an array has no result (\<^term>\<open>None\<close>).  The calls
  return what the functions of \<open>csocket.c\<close> return, and descriptor 0 is in use.\<close>

definition io_ok :: "sig_io \<Rightarrow> bool" where
  "io_ok io \<longleftrightarrow> io_sock io \<noteq> 0 \<and> io_sock io \<ge> -1 \<and> (io_conn io = 1 \<or> io_conn io = -1)"

text \<open>Cameras for which the reports stay within their arrays: at most four lanes each.\<close>

definition cams_ok :: "sig_cam list \<Rightarrow> bool" where
  "cams_ok cams \<longleftrightarrow> length cams \<le> 12 \<and> (\<forall>c \<in> set cams. cam_ok c)"

inductive sig_step :: "32 word \<Rightarrow> sig_conn \<times> sig_cam list \<Rightarrow> (sig_conn \<times> sig_cam list) option \<Rightarrow> bool" for dev where
  service: "io_ok io \<Longrightarrow> sig_step dev st (sig_service_pass io dev st)"
| report: "sig_step dev st (report_data_callback_fun io dev st)"
| check: "sig_step dev st (check_event_callback_fun io dev st)"
| reset: "sig_step dev (s, cams) (Some (reset_sig_machine s, cams))"
| detect: "sig_step dev (s, cams) (Some (s, cams'))"

text \<open>The flag says whether a client has asked for a reboot; the handlers go on until the machine is down.\<close>

inductive sig_reach :: "32 word \<Rightarrow> bool \<Rightarrow> sig_conn \<times> sig_cam list \<Rightarrow> bool" for dev where
  start: "sig_reach dev False (init_sig_service ip0 s0, cams)"
| step: "sig_reach dev rb st \<Longrightarrow> sig_step dev st (Some st') \<Longrightarrow> sig_reach dev rb st'"
| reboot: "sig_reach dev rb (s, cams) \<Longrightarrow> reboot_cmd io dev s = Some s' \<Longrightarrow> sig_reach dev True (s', cams)"

definition sig_inv :: "bool \<Rightarrow> sig_conn \<Rightarrow> bool" where
  "sig_inv rb s \<longleftrightarrow> (sg_fd s > 0 \<longrightarrow> sg_state s = SIG_CONNECTED) \<and> (sg_state s = SIG_CONNECTED \<and> \<not> rb \<longrightarrow> sg_fd s > 0)"

lemmas sig_conn_defs = sig_set_state_def close_socket_def reset_sig_machine_def init_data_def init_sig_service_def
  connect_sig_def

lemma greet_cases:
  assumes "length cams \<le> 12"
  shows "\<exists>s'. greet io 0 (greetings io dev cams) s = Some s' \<and>
    s' \<in> {close_socket s, sig_set_state SIG_CONNECTED s} \<and>
    ((\<forall>k f. io_send io k f \<ge> 0) \<longrightarrow> s' = sig_set_state SIG_CONNECTED s)"
  using event_sends [of dev 2 "io_now io 0"] event_sends [of dev 3 "io_now io 1"] status_sends [OF assms, of dev "0xFF"]
  by (auto simp: greetings_def sends_def not_le [symmetric])

lemma cam_ok_state_change [simp]: "cam_ok (c\<lparr>sc_state_change := b\<rparr>) = cam_ok c"
  by (simp add: cam_ok_def)

lemma check_event_loop_total:
  "cams_ok cams \<Longrightarrow> set js \<subseteq> {..<length cams} \<Longrightarrow> \<exists>cams'. check_event_loop io dev s js cams = Some cams' \<and> cams_ok cams'"
proof (induction js arbitrary: cams)
  case (Cons i js)
  let ?c = "(cams ! i)\<lparr>sc_state_change := False\<rparr>"
  have "cams_ok (cams[i := ?c])"
    using Cons.prems by (auto simp: cams_ok_def dest!: set_update_subset_insert [THEN subsetD])
  moreover obtain buf where "ReportedCammerStatus dev cams 0xFF = Some (buf, length (frame_of (status_payload dev cams 0xFF)))"
    using status_sends [of cams dev "0xFF"] Cons.prems(1) by (auto simp: sends_def cams_ok_def)
  ultimately show ?case using Cons.IH [of cams] Cons.IH [of "cams[i := ?c]"] Cons.prems by auto
qed simp

lemma greet_outcomes: "greet io k rs s = Some s' \<Longrightarrow> s' = close_socket s \<or> s' = sig_set_state SIG_CONNECTED s"
  by (induction io k rs s rule: greet.induct) (auto split: if_splits)

lemma sig_step_inv: "sig_step dev st (Some st') \<Longrightarrow> sig_inv rb (fst st) \<Longrightarrow> sig_inv rb (fst st')"
proof (induction st "Some st'" rule: sig_step.induct)
  case (service io st)
  obtain s cams where st: "st = (s, cams)" by (cases st)
  show ?case
  proof (cases "sg_state s = SIG_PRE_CONNECT \<and> io_sock io > 0 \<and> io_conn io = 1")
    case True
    with service st have "greet io 0 (greetings io dev cams) (s\<lparr>sg_fd := io_sock io\<rparr>) = Some (fst st')"
      by (auto simp: sig_service_pass_def sig_inv_def sig_conn_defs)
    from greet_outcomes [OF this] True show ?thesis by (auto simp: sig_inv_def sig_conn_defs)
  next
    case False
    with st service show ?thesis
      by (auto simp: sig_service_pass_def sig_inv_def sig_conn_defs io_ok_def Let_def split: sig_mode.splits if_splits prod.splits)
  qed
next
  case (report st io)
  then show ?case by (cases st) (auto simp: report_data_callback_fun_def sig_inv_def sig_conn_defs split: if_splits option.splits)
next
  case (check st io)
  then show ?case by (cases st) (auto simp: check_event_callback_fun_def)
qed (auto simp: sig_inv_def sig_conn_defs)

lemma reboot_outcomes: "reboot_reports io k rs s = Some s' \<Longrightarrow> sg_state s' = sg_state s \<and> (sg_fd s' = sg_fd s \<or> sg_fd s' = -1)"
  by (induction io k rs s rule: reboot_reports.induct) (auto simp: close_socket_def split: if_splits)

lemma sig_reach_inv: "sig_reach dev rb st \<Longrightarrow> sig_inv rb (fst st)"
proof (induction rule: sig_reach.induct)
  case (step rb st st')
  then show ?case using sig_step_inv by blast
next
  case (reboot rb s cams io s')
  from reboot_outcomes [OF reboot.hyps(2) [unfolded reboot_cmd_def]] reboot.IH show ?case by (auto simp: sig_inv_def)
qed (simp add: sig_inv_def sig_conn_defs Let_def)

text \<open>No handler leaves its arrays as long as the cameras have at most four lanes.\<close>

lemma report_total:
  assumes "cams_ok cams"
  shows "\<exists>s' cams'. report_data_callback_fun io dev (s, cams) = Some (s', cams') \<and> cams_ok cams'"
proof -
  from assms obtain r fs cams' where "ReportedRealStatic (io_send io) dev cams = Some (r, fs, cams')" "cams_ok cams'"
    using real_static_loop_total [OF header_buff_ok, of cams "io_send io" dev "-1" 0]
    by (auto simp: ReportedRealStatic_def cams_ok_def)
  with assms show ?thesis by (auto simp: report_data_callback_fun_def)
qed

lemma handlers_total:
  assumes "cams_ok cams"
  shows "check_event_callback_fun io dev (s, cams) \<noteq> None" "sig_service_pass io dev (s, cams) \<noteq> None"
proof -
  show "check_event_callback_fun io dev (s, cams) \<noteq> None"
    using check_event_loop_total [OF assms, of "[0..<length cams]" io dev s] by (force simp: check_event_callback_fun_def)
  have "greet io 0 (greetings io dev cams) s0 \<noteq> None" for s0
    using greet_cases [of cams io dev s0] assms by (auto simp: cams_ok_def)
  then show "sig_service_pass io dev (s, cams) \<noteq> None"
    by (simp add: sig_service_pass_def Let_def split: sig_mode.split prod.split)
qed

text \<open>When the machine of the signals does not answer any more, \<open>reboot_cmd\<close> closes the socket and leaves the state connected.\<close>

lemma reboot_stays_connected:
  assumes "\<forall>k f. io_send io k f < 0" "sg_state s = SIG_CONNECTED"
  shows "reboot_cmd io dev s = Some (s\<lparr>sg_fd := -1\<rparr>) \<and> sg_state (s\<lparr>sg_fd := -1\<rparr>) = SIG_CONNECTED"
  using assms event_sends [of dev 1 "io_now io 0"] event_sends [of dev 4 "io_now io 1"]
  by (auto simp: reboot_cmd_def sends_def close_socket_def)

section \<open>Properties\<close>

text \<open>As long as no camera is configured with more lanes than the result array has, the traffic report
  sends one frame per enabled camera, each with the header, the lane count and the lanes of that
  camera, although the array is reused and was escaped in place for the camera before; every frame
  fits into the array of 100 bytes.  The result is positive exactly when some camera is enabled.\<close>

lemma traffic_report_frames:
  assumes "\<forall>c \<in> set cams. cam_ok c" "\<forall>k f. send k f > 0"
  shows "\<exists>r cams'. ReportedRealStatic send dev cams =
      Some (r, map (\<lambda>c. frame_of (traffic_payload dev c)) (filter (\<lambda>c. sc_camstatus c \<noteq> 0) cams), cams') \<and>
    (r > 0 \<longleftrightarrow> (\<exists>c \<in> set cams. sc_camstatus c \<noteq> 0)) \<and>
    (\<forall>c \<in> set cams. length (frame_of (traffic_payload dev c)) \<le> SENDBUFF)"
  proof -
  from real_static_loop_eq [OF header_buff_ok assms, of dev "-1" 0] obtain r cams' where
    "ReportedRealStatic send dev cams =
      Some (r, map (\<lambda>c. frame_of (traffic_payload dev c)) (filter (\<lambda>c. sc_camstatus c \<noteq> 0) cams), cams')"
    "if \<forall>c \<in> set cams. sc_camstatus c = 0 then r = -1 else r > 0"
    unfolding ReportedRealStatic_def by blast
  moreover have "r > 0 \<longleftrightarrow> (\<exists>c \<in> set cams. sc_camstatus c \<noteq> 0)" using calculation(2) by (auto split: if_splits)
  moreover have "\<forall>c \<in> set cams. length (frame_of (traffic_payload dev c)) \<le> SENDBUFF"
    using traffic_frame_fits(1) assms(1) by blast
  ultimately show ?thesis by blast
qed

text \<open>Cameras for concrete instances.\<close>

definition demo_cam :: "byte \<Rightarrow> byte \<Rightarrow> sig_cam" where
  "demo_cam camstatus lanes = \<lparr>sc_camstatus = camstatus, sc_cam_id = 5, sc_direction = 3, sc_cfg_lanes = lanes,
     sc_running_state = 0, sc_status = 1, sc_each_status = 0, sc_channels = replicate 4 (replicate 10 0),
     sc_lane_num = 0, sc_state_change = True\<rparr>"

lemma demo_cam_ok: "unat n \<le> 4 \<Longrightarrow> cam_ok (demo_cam s n)"
  by (simp add: cam_ok_def demo_cam_def CHANNELMAXNUM_def)

text \<open>The reports of an event and of the status of up to twelve cameras (the detector has six) never
  overrun their array, and what is sent is the frame of the event, respectively of the status of
  the enabled cameras, whatever bytes have to be escaped.\<close>

lemma status_report_frames:
  assumes "length cams \<le> 12"
  shows "\<exists>ev st. ReportedEvent dev event now = Some (ev, length (frame_of (event_payload dev event now))) \<and>
    take (length (frame_of (event_payload dev event now))) ev = frame_of (event_payload dev event now) \<and>
    ReportedCammerStatus dev cams session = Some (st, length (frame_of (status_payload dev cams session))) \<and>
    take (length (frame_of (status_payload dev cams session))) st = frame_of (status_payload dev cams session)"
  using event_sends [of dev event now] status_sends [OF assms, of dev session] unfolding sends_def by blast

text \<open>C31: taking each handler as one step, in every state that the service reaches a socket is held only while it is marked connected, so no socket is
  left open or overwritten; and until a client asks for a reboot it is marked connected only while it holds a socket, so nothing is sent on
  a closed one.  Whenever there are at most twelve cameras with at most four lanes each, every handler runs without leaving its arrays.\<close>

theorem sig_link_invariant:
  assumes "sig_reach dev rb (s, cams)"
  shows "(sg_fd s > 0 \<longrightarrow> sg_state s = SIG_CONNECTED) \<and> (sg_state s = SIG_CONNECTED \<and> \<not> rb \<longrightarrow> sg_fd s > 0) \<and>
    (cams_ok cams \<longrightarrow> report_data_callback_fun io dev (s, cams) \<noteq> None \<and> check_event_callback_fun io dev (s, cams) \<noteq> None \<and>
       sig_service_pass io dev (s, cams) \<noteq> None)"
proof -
  have "sig_inv rb s" using sig_reach_inv [OF assms] by simp
  moreover have "report_data_callback_fun io dev (s, cams) \<noteq> None" if "cams_ok cams"
    using report_total [OF that, of io dev s] by auto
  ultimately show ?thesis using handlers_total [of cams io dev s] by (auto simp: sig_inv_def)
qed

definition demo_io :: sig_io where
  "demo_io = \<lparr>io_sock = 5, io_conn = 1, io_junk = 0, io_now = (\<lambda>k. 0), io_send = (\<lambda>k f. int (length f))\<rparr>"

lemma demo_io_calls: "io_sock demo_io = 5" "io_conn demo_io = 1"
  by (simp_all add: demo_io_def)

definition demo_conn :: "sig_mode \<Rightarrow> int \<Rightarrow> sig_conn" where
  "demo_conn m fd = \<lparr>sg_state = m, sg_fd = fd\<rparr>"

lemma demo_cams_ok: "cams_ok [demo_cam 1 4]"
  by (simp add: cams_ok_def demo_cam_ok)

lemma demo_link:
  "sig_reach dev False (demo_conn SIG_PRE_CONNECT (-1), [demo_cam 1 4])"
  "sig_reach dev False (demo_conn SIG_CONNECTED 5, [demo_cam 1 4])"
proof -
  let ?c = "[demo_cam 1 4]"
  show start: "sig_reach dev False (demo_conn SIG_PRE_CONNECT (-1), ?c)"
    using sig_reach.start [of dev "CHR ''1''" "demo_conn SIG_NULL 0"]
    by (simp add: sig_conn_defs demo_conn_def Let_def)
  obtain s' where "greet demo_io 0 (greetings demo_io dev ?c) (demo_conn SIG_PRE_CONNECT 5) = Some s'"
      "s' = sig_set_state SIG_CONNECTED (demo_conn SIG_PRE_CONNECT 5)"
    using greet_cases [of ?c demo_io dev "demo_conn SIG_PRE_CONNECT 5"] by (auto simp: demo_io_def)
  then have "sig_service_pass demo_io dev (demo_conn SIG_PRE_CONNECT (-1), ?c) = Some (demo_conn SIG_CONNECTED 5, ?c)"
    by (auto simp: sig_service_pass_def demo_conn_def connect_sig_def sig_set_state_def demo_io_calls)
  moreover have "io_ok demo_io" by (simp add: io_ok_def demo_io_def)
  ultimately show "sig_reach dev False (demo_conn SIG_CONNECTED 5, ?c)"
    using sig_reach.step [OF start] sig_step.service by metis
qed

theorem sig_link_invariant_witness:
  "sig_reach 1 False (demo_conn SIG_CONNECTED 5, [demo_cam 1 4]) \<and>
   report_data_callback_fun demo_io 1 (demo_conn SIG_CONNECTED 5, [demo_cam 1 4]) \<noteq> None"
  using sig_link_invariant [OF demo_link(2) [of 1], of demo_io] demo_link(2) demo_cams_ok by blast

text \<open>C32: the link recovers.  From a reachable state that is not shut off, with cameras of at most four lanes, when the traffic report fails the
  socket is closed, and the next pass of the service that obtains a socket, connects and sends
  its greetings is connected again over the new socket.\<close>

theorem sig_link_recovers:
  assumes "sig_reach dev rb (s, cams)" "cams_ok cams" "sg_state s \<noteq> SIG_NULL"
    and "io_sock io > 0" "io_conn io = 1" "\<forall>k f. io_send io k f \<ge> 0"
    and "\<forall>k f. io_send bad k f \<le> 0"
  shows "\<exists>s' cams' s''. report_data_callback_fun bad dev (s, cams) = Some (s', cams') \<and>
    sg_state s' = SIG_PRE_CONNECT \<and> sg_fd s' \<le> 0 \<and> sig_service_pass io dev (s', cams') = Some (s'', cams') \<and>
    sg_state s'' = SIG_CONNECTED \<and> sg_fd s'' = io_sock io"
proof -
  obtain s' cams' where r: "report_data_callback_fun bad dev (s, cams) = Some (s', cams')" "cams_ok cams'"
    using report_total [OF assms(2), of bad dev s] by blast
  have "sig_reach dev rb (s', cams')" using sig_reach.step [OF assms(1)] sig_step.report r(1) by metis
  from sig_reach_inv [OF this] have inv: "sig_inv rb s'" by simp
  from r(1) have s': "sg_state s' = SIG_PRE_CONNECT"
    using assms(3,7) real_static_loop_fails [of "io_send bad" "-1"]
    by (cases "sg_state s")
      (auto simp: report_data_callback_fun_def ReportedRealStatic_def sig_set_state_def split: option.splits if_splits)
  moreover have "sg_fd s' \<le> 0" "length cams' \<le> 12" using r(2) inv s' by (auto simp: sig_inv_def cams_ok_def)
  moreover obtain s'' where "greet io 0 (greetings io dev cams') (s'\<lparr>sg_fd := io_sock io\<rparr>) = Some s''"
    "s'' = sig_set_state SIG_CONNECTED (s'\<lparr>sg_fd := io_sock io\<rparr>)"
    using greet_cases [OF \<open>length cams' \<le> 12\<close>] assms(6) by blast
  ultimately show ?thesis
    using r(1) assms(4,5) by (auto simp: sig_service_pass_def connect_sig_def sig_set_state_def)
qed

theorem sig_link_recovers_witness:
  "\<exists>s' cams' s''. report_data_callback_fun (demo_io\<lparr>io_send := (\<lambda>k f. -1)\<rparr>) 1 (demo_conn SIG_CONNECTED 5, [demo_cam 1 4]) = Some (s', cams') \<and>
    sg_fd s' \<le> 0 \<and> sig_service_pass demo_io 1 (s', cams') = Some (s'', cams') \<and> sg_state s'' = SIG_CONNECTED \<and> sg_fd s'' = 5"
  using sig_link_recovers [OF demo_link(2) [of 1] demo_cams_ok, of demo_io "demo_io\<lparr>io_send := (\<lambda>k f. -1)\<rparr>"]
  by (fastforce simp: demo_conn_def demo_io_def)

text \<open>With no camera enabled the traffic report returns -1 without having sent anything, and a healthy
  connection is closed.\<close>

lemma no_camera_drops_link:
  assumes "\<forall>c \<in> set cams. sc_camstatus c = 0" "sg_state s = SIG_CONNECTED"
  shows "ReportedRealStatic (io_send io) dev cams = Some (-1, [], cams) \<and>
    report_data_callback_fun io dev (s, cams) = Some (\<lparr>sg_state = SIG_PRE_CONNECT, sg_fd = -1\<rparr>, cams)"
proof -
  have "real_static_loop send buf len i cams = Some (len, [], cams)" for send buf len i
    using assms(1) by (induction cams arbitrary: i) auto
  then have "ReportedRealStatic (io_send io) dev cams = Some (-1, [], cams)" by (simp add: ReportedRealStatic_def)
  with assms(2) show ?thesis by (simp add: report_data_callback_fun_def sig_conn_defs)
qed

end
