(* ===== verification/Fvd_Client.thy ===== *)
theory Fvd_Client
  imports Fvd_List Fvd_Obj Fvd_Camera Fvd_Sig
begin

text \<open>
  The requests of clients to the video detector: the list of clients that receive detection results, the
  configuration in memory and in files, and the commands that change it, \<^verbatim>\<open>src/fvd-new/client_net.c\<close>,
  \<^verbatim>\<open>client_file.c\<close>, \<^verbatim>\<open>file_op.c\<close> and \<open>recv_buf\<close> of \<^verbatim>\<open>tcp_server.c\<close>.  Configuration objects are the bytes of their
  packed structures.  An access outside of an array or to a released node is \<^term>\<open>None\<close>.
\<close>

section \<open>State\<close>

definition ACTIVE_CAM_NUM :: nat where "ACTIVE_CAM_NUM = 6"
definition BUFFER_MAX :: nat where "BUFFER_MAX = 1000"
definition CHECK_TIMES :: int where "CHECK_TIMES = 15 * 60"

definition SETCAMPARAM :: "16 word" where "SETCAMPARAM = 0x0001"
definition GETCAMPARAM :: "16 word" where "GETCAMPARAM = 0x0002"
definition REPCAMPARAM :: "16 word" where "REPCAMPARAM = 0x0003"
definition SETDETECTDEVICE :: "16 word" where "SETDETECTDEVICE = 0x0004"
definition GETDETECTDEVICE :: "16 word" where "GETDETECTDEVICE = 0x0005"
definition REPDETECTDEVICE :: "16 word" where "REPDETECTDEVICE = 0x0006"
definition SETCHECHPARAM :: "16 word" where "SETCHECHPARAM = 0x0007"
definition GETCHECHPARAM :: "16 word" where "GETCHECHPARAM = 0x0008"
definition REPCHECHPARAM :: "16 word" where "REPCHECHPARAM = 0x0009"
definition HEART :: "16 word" where "HEART = 0x1000"
definition SHUTDOWN :: "16 word" where "SHUTDOWN = 0x1001"
definition REBOOTZEN :: "16 word" where "REBOOTZEN = 0x2001"

record client_ip_data =
  cd_ip :: "byte list"
  cd_camera_index :: nat
  cd_fd :: int
  cd_times :: int

datatype client_change = CHANGE_NOTHING | CHANGE_ALG | CHANGE_SIG_IP

text \<open>The member \<open>time\<close> of a client is never used.  The globals: \<open>ip_list\<close>, \<open>g_cam_cfg\<close> as two tables, \<open>g_dev_cfg\<close>, \<open>client_cmd_flag\<close>, the cameras, the connection
  to the signal machine and the files.\<close>

record fvd =
  fv_list :: "client_ip_data m_list_info"
  fv_cam_param :: "byte list list"
  fv_det_param :: "byte list list"
  fv_dev_cfg :: "byte list"
  fv_flag :: client_change
  fv_cams :: "camera_info list"
  fv_sig :: sig_conn
  fv_files :: "string \<Rightarrow> byte list option"

text \<open>What the calls of one request return: the address of \<open>malloc\<close>, \<open>UdpCreateSocket\<close> time after time,
  \<open>net_open_camera\<close> for each camera, and the calls of the signal service.\<close>

record client_io =
  co_addr :: nat
  co_udp :: "nat \<Rightarrow> int"
  co_open :: "nat \<Rightarrow> int"
  co_sig :: sig_io

section \<open>The list of clients\<close>

definition client_info_match :: "client_ip_data \<Rightarrow> client_ip_data \<Rightarrow> int" where
  "client_info_match p1 p2 =
     (if cd_ip p1 = cd_ip p2 then (if cd_camera_index p1 = cd_camera_index p2 then 1 else 0) else -1)"

text \<open>\<open>client_send_udp\<close> on one node; the datagrams are collected as pairs of socket and address.\<close>

definition client_send_udp ::
  "nat \<Rightarrow> client_ip_data \<Rightarrow> (int \<times> byte list) list \<Rightarrow> client_ip_data \<times> (int \<times> byte list) list" where
  "client_send_udp index p out =
     (if cd_camera_index p = index then
        (p\<lparr>cd_times := (if cd_times p = CHECK_TIMES then 0 else cd_times p + 1)\<rparr>, out @ [(cd_fd p, cd_ip p)])
      else (p, out))"

definition client_output :: "nat \<Rightarrow> fvd \<Rightarrow> ((int \<times> byte list) list \<times> fvd) option" where
  "client_output index fv =
     map_option (\<lambda>(out, l). (out, fv\<lparr>fv_list := l\<rparr>)) (list_operate_node_all (client_send_udp index) [] (fv_list fv))"

text \<open>\<^verbatim>\<open>while(p_tmp->fd<=0) p_tmp->fd = UdpCreateSocket(...)\<close>\<close>

partial_function (option) udp_loop :: "(nat \<Rightarrow> int) \<Rightarrow> nat \<Rightarrow> int option" where
  "udp_loop udp k = (if udp k > 0 then Some (udp k) else udp_loop udp (Suc k))"

definition zero_client :: client_ip_data where
  "zero_client = \<lparr>cd_ip = replicate 16 0, cd_camera_index = 0, cd_fd = 0, cd_times = 0\<rparr>"

definition add_client :: "client_io \<Rightarrow> byte list \<Rightarrow> nat \<Rightarrow> fvd \<Rightarrow> fvd option" where
  "add_client io ip index fv =
     (case list_node_alloc_tail zero_client (co_addr io) (fv_list fv) of None \<Rightarrow> None | Some l \<Rightarrow>
      case li_tail l of None \<Rightarrow> None | Some t \<Rightarrow>
      case nd_get l (Some t) of None \<Rightarrow> None | Some n \<Rightarrow>
      case udp_loop (co_udp io) 0 of None \<Rightarrow> None | Some fd \<Rightarrow>
        Some (fv\<lparr>fv_list := nd_put t (n\<lparr>nd_data := (nd_data n)\<lparr>cd_camera_index := index, cd_ip := ip, cd_fd := fd\<rparr>\<rparr>) l\<rparr>))"

definition del_client :: "fvd \<Rightarrow> fvd option" where
  "del_client fv = map_option (\<lambda>(r, l). fv\<lparr>fv_list := l\<rparr>) (list_node_del_cur (fv_list fv))"

text \<open>The first part of \<open>handle_buffer\<close>: the client is looked up, moved to another camera, or added.  The assignment
  through the pointer that \<open>list_get_current_data\<close> returns is the write that
  \<open>list_overwirte_current_data\<close> makes.\<close>

definition register_client :: "client_io \<Rightarrow> byte list \<Rightarrow> nat \<Rightarrow> fvd \<Rightarrow> fvd option" where
  "register_client io ip index fv =
     (case list_node_seek client_info_match (zero_client\<lparr>cd_ip := ip, cd_camera_index := index\<rparr>) (fv_list fv) of
        None \<Rightarrow> None
      | Some (match_ret, l) \<Rightarrow>
          if match_ret \<ge> 0 then
            (if match_ret \<noteq> 1 then
               (case list_get_current_data l of None \<Rightarrow> None | Some d \<Rightarrow>
                  map_option (\<lambda>l. fv\<lparr>fv_list := l\<rparr>) (list_overwirte_current_data (d\<lparr>cd_camera_index := index\<rparr>) l))
             else Some (fv\<lparr>fv_list := l\<rparr>))
          else add_client io ip index (fv\<lparr>fv_list := l\<rparr>))"

section \<open>Configuration objects\<close>

definition host_read_u32 :: "bool \<Rightarrow> nat \<Rightarrow> byte list \<Rightarrow> 32 word" where
  "host_read_u32 le p m = (if le then peek_u32 (rev (take 4 (drop p m))) else peek_u32 (take 4 (drop p m)))"

text \<open>The string at an offset of an object; one without its terminator is read beyond the object.\<close>

definition str_at :: "nat \<Rightarrow> byte list \<Rightarrow> byte list option" where
  "str_at p m = (if 0 \<in> set (drop p m) then Some (c_str (drop p m)) else None)"

text \<open>Offsets in the packed structures.\<close>

definition signalport_off :: nat where "signalport_off = 14"
definition signalIp_off :: nat where "signalIp_off = 110"
definition cammerport_off :: nat where "cammerport_off = 6"
definition username_off :: nat where "username_off = 38"
definition passwd_off :: nat where "passwd_off = 58"
definition camstatus_off :: "nat \<Rightarrow> nat" where "camstatus_off i = 75 + 18 * i"
definition cammerIp_off :: "nat \<Rightarrow> nat" where "cammerIp_off i = 77 + 18 * i"

section \<open>Files\<close>

text \<open>\<open>fseek\<close> and \<open>fwrite\<close>: a gap between the end of the file and the position is filled with zeros.\<close>

definition file_write :: "nat \<Rightarrow> byte list \<Rightarrow> byte list \<Rightarrow> byte list" where
  "file_write pos bs f =
     (let f = f @ replicate (pos - length f) 0 in take pos f @ bs @ drop (pos + length bs) f)"

definition save_buf :: "string \<Rightarrow> byte list \<Rightarrow> nat \<Rightarrow> nat \<Rightarrow> (string \<Rightarrow> byte list option) \<Rightarrow> (string \<Rightarrow> byte list option)" where
  "save_buf name bf pos len files =
     (case files name of None \<Rightarrow> files | Some f \<Rightarrow> files(name \<mapsto> file_write pos (take len bf) f))"

definition load_buf :: "string \<Rightarrow> byte list \<Rightarrow> nat \<Rightarrow> nat \<Rightarrow> (string \<Rightarrow> byte list option) \<Rightarrow> byte list" where
  "load_buf name bf pos len files =
     (case files name of None \<Rightarrow> bf | Some f \<Rightarrow>
      let got = take len (drop pos f) in got @ drop (length got) bf)"

definition cfg_file_name :: "obj_class \<Rightarrow> string" where
  "cfg_file_name t =
     (if t = CLASS_mCamParam then ''./cfg/cam_param''
      else if t = CLASS_mDetectDeviceConfig then ''./cfg/dev_config''
      else if t = CLASS_mCamDetectParam then ''./cfg/det_param'' else [])"

definition obj_pos :: "obj_class \<Rightarrow> nat \<Rightarrow> nat" where
  "obj_pos t index = (if t = CLASS_mDetectDeviceConfig then 0 else index * get_obj_len t)"

definition save_obj :: "byte list \<Rightarrow> obj_class \<Rightarrow> nat \<Rightarrow> fvd \<Rightarrow> fvd" where
  "save_obj p_obj t index fv =
     fv\<lparr>fv_files := save_buf (cfg_file_name t) p_obj (obj_pos t index) (get_obj_len t) (fv_files fv)\<rparr>"

definition load_obj :: "byte list \<Rightarrow> obj_class \<Rightarrow> nat \<Rightarrow> fvd \<Rightarrow> byte list" where
  "load_obj p_obj t index fv =
     load_buf (cfg_file_name t) p_obj (obj_pos t index) (get_obj_len t) (fv_files fv)"

section \<open>Commands\<close>

definition sync_obj :: "byte list \<Rightarrow> obj_class \<Rightarrow> nat \<Rightarrow> fvd \<Rightarrow> fvd option" where
  "sync_obj p_obj t index fv =
     (let bs = take (get_obj_len t) p_obj
      in if t = CLASS_mCamParam then
           (if index < length (fv_cam_param fv) then Some (fv\<lparr>fv_cam_param := (fv_cam_param fv)[index := bs]\<rparr>) else None)
         else if t = CLASS_mDetectDeviceConfig then Some (fv\<lparr>fv_dev_cfg := bs\<rparr>)
         else if t = CLASS_mCamDetectParam then
           (if index < length (fv_det_param fv) then Some (fv\<lparr>fv_det_param := (fv_det_param fv)[index := bs]\<rparr>) else None)
         else None)"

text \<open>One camera in the loop of \<open>handle_change\<close> over a new device configuration: a camera with a new address is
  closed; cameras that are to be open are opened, the others closed.  The comparison of the names of
  the device before the loop only prints.\<close>

definition change_camera :: "bool \<Rightarrow> client_io \<Rightarrow> byte list \<Rightarrow> nat \<Rightarrow> fvd \<Rightarrow> fvd option" where
  "change_camera le io p_obj i fv =
     (if i \<ge> length (fv_cams fv) \<or> i \<ge> length (fv_cam_param fv) \<or> camstatus_off i \<ge> length (fv_dev_cfg fv) then None
      else
       (case str_at (cammerIp_off i) (fv_dev_cfg fv) of None \<Rightarrow> None | Some old_ip \<Rightarrow>
        case str_at (cammerIp_off i) p_obj of None \<Rightarrow> None | Some new_ip \<Rightarrow>
        let fv = (if old_ip \<noteq> new_ip
                  then fv\<lparr>fv_cams := (fv_cams fv)[i := camera_close (fv_cams fv ! i)],
                          fv_dev_cfg := (fv_dev_cfg fv)[camstatus_off i := 0]\<rparr>
                  else fv);
            opened = (if fv_dev_cfg fv ! camstatus_off i = 0 \<and> p_obj ! camstatus_off i = 1 then
                        (case str_at username_off (fv_cam_param fv ! i) of None \<Rightarrow> None | Some name \<Rightarrow>
                         case str_at passwd_off (fv_cam_param fv ! i) of None \<Rightarrow> None | Some passwd \<Rightarrow>
                         map_option (\<lambda>c. fv\<lparr>fv_cams := (fv_cams fv)[i := c]\<rparr>)
                           (camera_open (co_open io i) new_ip (host_read_u32 le cammerport_off (fv_cam_param fv ! i))
                              name passwd (fv_cams fv ! i)))
                      else Some fv)
        in case opened of None \<Rightarrow> None | Some fv \<Rightarrow>
           if fv_dev_cfg fv ! camstatus_off i = 1 \<and> p_obj ! camstatus_off i = 0
           then Some (fv\<lparr>fv_cams := (fv_cams fv)[i := camera_close (fv_cams fv ! i)]\<rparr>)
           else Some fv))"

fun change_cameras :: "bool \<Rightarrow> client_io \<Rightarrow> byte list \<Rightarrow> nat list \<Rightarrow> fvd \<Rightarrow> fvd option" where
  "change_cameras le io p_obj [] fv = Some fv"
| "change_cameras le io p_obj (i # js) fv =
     (case change_camera le io p_obj i fv of None \<Rightarrow> None | Some fv \<Rightarrow> change_cameras le io p_obj js fv)"

text \<open>\<open>index==0 && (strcmp(signalIp) || signalport differs)\<close>\<close>

definition signal_changed :: "bool \<Rightarrow> byte list \<Rightarrow> nat \<Rightarrow> fvd \<Rightarrow> bool option" where
  "signal_changed le p_obj index fv =
     (if index \<noteq> 0 then Some False
      else if fv_cam_param fv = [] then None
      else
        (case str_at signalIp_off (fv_cam_param fv ! 0) of None \<Rightarrow> None | Some old_ip \<Rightarrow>
         case str_at signalIp_off p_obj of None \<Rightarrow> None | Some new_ip \<Rightarrow>
         Some (old_ip \<noteq> new_ip \<or>
               host_read_u32 le signalport_off (fv_cam_param fv ! 0) \<noteq> host_read_u32 le signalport_off p_obj)))"

definition handle_change :: "bool \<Rightarrow> client_io \<Rightarrow> byte list \<Rightarrow> obj_class \<Rightarrow> nat \<Rightarrow> fvd \<Rightarrow> fvd option" where
  "handle_change le io p_obj t index fv =
     (if t = CLASS_mCamParam then
        map_option (\<lambda>ch. if ch then fv\<lparr>fv_flag := CHANGE_SIG_IP\<rparr> else fv) (signal_changed le p_obj index fv)
      else if t = CLASS_mDetectDeviceConfig then change_cameras le io p_obj [0..<ACTIVE_CAM_NUM] fv
      else if t = CLASS_mCamDetectParam then Some (fv\<lparr>fv_flag := CHANGE_ALG\<rparr>)
      else Some fv)"

text \<open>The first switch of \<open>handle_buffer\<close>: the flag with the class, and the reply type of a query.\<close>

datatype cmd_kind = NOOP_FLAG | SET_FLAG obj_class | GET_FLAG "16 word" obj_class

definition cmd_flag :: "16 word \<Rightarrow> cmd_kind" where
  "cmd_flag type =
     (if type = SETCAMPARAM then SET_FLAG CLASS_mCamParam
      else if type = SETDETECTDEVICE then SET_FLAG CLASS_mDetectDeviceConfig
      else if type = SETCHECHPARAM then SET_FLAG CLASS_mCamDetectParam
      else if type = GETCAMPARAM then GET_FLAG REPCAMPARAM CLASS_mCamParam
      else if type = GETDETECTDEVICE then GET_FLAG REPDETECTDEVICE CLASS_mDetectDeviceConfig
      else if type = GETCHECHPARAM then GET_FLAG REPCHECHPARAM CLASS_mCamDetectParam
      else NOOP_FLAG)"

definition cfg_obj :: "obj_class \<Rightarrow> nat \<Rightarrow> fvd \<Rightarrow> byte list option" where
  "cfg_obj t index fv =
     (if t = CLASS_mDetectDeviceConfig then Some (fv_dev_cfg fv)
      else if t = CLASS_mCamParam \<and> index < length (fv_cam_param fv) then Some (fv_cam_param fv ! index)
      else if t = CLASS_mCamDetectParam \<and> index < length (fv_det_param fv) then Some (fv_det_param fv ! index)
      else None)"

definition sizeof_mCommand :: nat where "sizeof_mCommand = 10"

definition get_mCamParam :: "nat \<Rightarrow> fvd \<Rightarrow> byte list option" where
  "get_mCamParam index fv = (if index < length (fv_cam_param fv) then Some (fv_cam_param fv ! index) else None)"

text \<open>\<open>get_sig_ip\<close> copies the address of the signal machine with \<open>strcpy\<close> into \<open>sig_ip\<close>, an array of \<open>IP_LEN\<close> bytes.\<close>

definition IP_LEN :: nat where "IP_LEN = 16"

definition get_sig_ip :: "fvd \<Rightarrow> byte list option" where
  "get_sig_ip fv =
     (case get_mCamParam 0 fv of None \<Rightarrow> None | Some c \<Rightarrow>
      case str_at signalIp_off c of None \<Rightarrow> None | Some s \<Rightarrow> if length s < IP_LEN then Some s else None)"

text \<open>The part for \<open>GET_FLAG\<close> and the part for \<open>SET_FLAG\<close>.\<close>

definition handle_get ::
  "bool \<Rightarrow> 16 word \<Rightarrow> obj_class \<Rightarrow> nat \<Rightarrow> byte list \<Rightarrow> fvd \<Rightarrow> (int \<times> byte list \<times> fvd) option" where
  "handle_get le reply t index buf fv =
     (case cfg_obj t index fv of None \<Rightarrow> None | Some p_obj \<Rightarrow>
      case prepare_pkt le sizeof_mCommand reply t (get_obj_len t) p_obj buf of None \<Rightarrow> None | Some (ret, buf) \<Rightarrow>
      map_option (\<lambda>buf. (int ret, buf, fv)) (net_decode_obj le True CLASS_mCommand 0 buf))"

definition handle_set ::
  "bool \<Rightarrow> client_io \<Rightarrow> obj_class \<Rightarrow> nat \<Rightarrow> byte list \<Rightarrow> fvd \<Rightarrow> (int \<times> byte list \<times> fvd) option" where
  "handle_set le io t index buf fv =
     (case net_decode_obj le False t sizeof_mCommand buf of None \<Rightarrow> None | Some buf \<Rightarrow>
      let p_obj = drop sizeof_mCommand buf
      in case handle_change le io p_obj t index (fv\<lparr>fv_flag := CHANGE_NOTHING\<rparr>) of None \<Rightarrow> None | Some fv \<Rightarrow>
         case sync_obj p_obj t index fv of None \<Rightarrow> None | Some fv \<Rightarrow>
         let fv = save_obj p_obj t index fv
         in case fv_flag fv of
              CHANGE_NOTHING \<Rightarrow> Some (-1, buf, fv)
            | CHANGE_SIG_IP \<Rightarrow>
                (case get_sig_ip fv of None \<Rightarrow> None
                 | Some ip \<Rightarrow> Some (-1, buf, fv\<lparr>fv_sig := reset_sig_machine (fv_sig fv)\<rparr>))
            | CHANGE_ALG \<Rightarrow>
                if index < length (fv_cams fv)
                then Some (-1, buf, fv\<lparr>fv_cams := (fv_cams fv)[index := camera_ctrl CAMERA_CONTROL_RESET_ALG (fv_cams fv ! index)]\<rparr>)
                else None)"

definition handle_buffer ::
  "bool \<Rightarrow> client_io \<Rightarrow> byte list \<Rightarrow> byte list \<Rightarrow> fvd \<Rightarrow> (int \<times> byte list \<times> fvd) option" where
  "handle_buffer le io ip buf fv =
     (case net_decode_obj le False CLASS_mCommand 0 buf of None \<Rightarrow> None | Some buf \<Rightarrow>
      let type = host_read_u16 le 4 buf;
          index = unat (host_read_u16 le 2 buf)
      in case (if type = GETCAMPARAM \<or> type = HEART \<or> type = SHUTDOWN then register_client io ip index fv else Some fv) of
           None \<Rightarrow> None
         | Some fv \<Rightarrow>
         case (if type = SHUTDOWN then del_client fv
               else if type = REBOOTZEN then
                 map_option (\<lambda>s. fv\<lparr>fv_sig := s\<rparr>) (reboot_cmd (co_sig io) (host_read_u32 le 0 (fv_dev_cfg fv)) (fv_sig fv))
               else Some fv) of
           None \<Rightarrow> None
         | Some fv \<Rightarrow>
         (case cmd_flag type of
            NOOP_FLAG \<Rightarrow> Some (-1, buf, fv)
          | GET_FLAG reply t \<Rightarrow> handle_get le reply t index buf fv
          | SET_FLAG t \<Rightarrow> handle_set le io t index buf fv))"

text \<open>The array \<open>ip[16]\<close> of \<open>recv_buf\<close> after \<open>WaitTcpConnect\<close>, for a client given by what the array, which is not
  initialised, held before, and by the address that \<open>inet_ntoa\<close> writes, at most fifteen characters:
  \<open>strcpy\<close> leaves the bytes behind the terminator as they were.\<close>

definition ip_array :: "byte list \<times> byte list \<Rightarrow> byte list" where
  "ip_array client = mem_write 0 (snd client @ [0]) (fst client)"

text \<open>\<open>recv_buf\<close> on a client and the bytes of a request: the bytes of the reply.\<close>

definition recv_buf :: "bool \<Rightarrow> client_io \<Rightarrow> byte list \<times> byte list \<Rightarrow> byte list \<Rightarrow> fvd \<Rightarrow> (byte list \<times> fvd) option" where
  "recv_buf le io client data fv =
     (let data = take BUFFER_MAX data;
          buf = data @ replicate (BUFFER_MAX - length data) 0
      in case handle_buffer le io (ip_array client) buf fv of None \<Rightarrow> None
         | Some (send_len, buf, fv) \<Rightarrow> Some (if send_len > 0 then take (nat send_len) buf else [], fv))"

text \<open>\<open>init_config\<close>: the configuration is loaded, camera by camera, and the enabled cameras are opened.\<close>

definition init_camera :: "bool \<Rightarrow> client_io \<Rightarrow> nat \<Rightarrow> fvd \<Rightarrow> fvd option" where
  "init_camera le io i fv =
     (if i \<ge> length (fv_cam_param fv) \<or> i \<ge> length (fv_det_param fv) \<or> i \<ge> length (fv_cams fv) then None
      else
       let fv = fv\<lparr>fv_cam_param := (fv_cam_param fv)[i := load_obj (fv_cam_param fv ! i) CLASS_mCamParam i fv]\<rparr>;
           fv = fv\<lparr>fv_det_param := (fv_det_param fv)[i := load_obj (fv_det_param fv ! i) CLASS_mCamDetectParam i fv]\<rparr>
       in if fv_dev_cfg fv ! camstatus_off i = 1 then
            (case str_at (cammerIp_off i) (fv_dev_cfg fv) of None \<Rightarrow> None | Some ip \<Rightarrow>
             case str_at username_off (fv_cam_param fv ! i) of None \<Rightarrow> None | Some name \<Rightarrow>
             case str_at passwd_off (fv_cam_param fv ! i) of None \<Rightarrow> None | Some passwd \<Rightarrow>
             map_option (\<lambda>c. fv\<lparr>fv_cams := (fv_cams fv)[i := c]\<rparr>)
               (camera_open (co_open io i) ip (host_read_u32 le cammerport_off (fv_cam_param fv ! i)) name passwd (fv_cams fv ! i)))
          else Some fv)"

fun init_cameras :: "bool \<Rightarrow> client_io \<Rightarrow> nat list \<Rightarrow> fvd \<Rightarrow> fvd option" where
  "init_cameras le io [] fv = Some fv"
| "init_cameras le io (i # js) fv = (case init_camera le io i fv of None \<Rightarrow> None | Some fv \<Rightarrow> init_cameras le io js fv)"

definition init_config :: "bool \<Rightarrow> client_io \<Rightarrow> fvd \<Rightarrow> fvd option" where
  "init_config le io fv =
     (let fv = fv\<lparr>fv_list := new_list\<rparr>;
          fv = fv\<lparr>fv_dev_cfg := load_obj (fv_dev_cfg fv) CLASS_mDetectDeviceConfig 0 fv\<rparr>
      in init_cameras le io [0..<ACTIVE_CAM_NUM] fv)"

section \<open>The header of a request\<close>

text \<open>A request as it is sent: version, protocol, index, type and length in network order, then the object.\<close>

definition request_bytes :: "byte \<Rightarrow> byte \<Rightarrow> 16 word \<Rightarrow> 16 word \<Rightarrow> 32 word \<Rightarrow> byte list \<Rightarrow> byte list" where
  "request_bytes version prottype index type objlen obj =
     [version, prottype] @ poke_u16 index @ poke_u16 type @ poke_u32 objlen @ obj"

definition host_header :: "bool \<Rightarrow> byte \<Rightarrow> byte \<Rightarrow> 16 word \<Rightarrow> 16 word \<Rightarrow> 32 word \<Rightarrow> byte list" where
  "host_header le version prottype index type objlen =
     [version, prottype] @ host_order le (poke_u16 index) @ host_order le (poke_u16 type) @ host_order le (poke_u32 objlen)"

lemmas poke_defs = poke_u16_def poke_u32_def

lemma length_host_header [simp]: "length (host_header le v p i ty n) = 10"
  by (simp add: host_header_def host_order_def poke_defs)

lemma command_fields: "obj_fields CLASS_mCommand = [(2, 2), (4, 2), (6, 4)]"
  by (simp add: obj_fields.simps is_base_def shift_fields_def)

lemma header_decode:
  "net_decode_obj le encode CLASS_mCommand 0 (request_bytes v p i ty n obj) = Some (host_header le v p i ty n @ obj)"
  "net_decode_obj le encode CLASS_mCommand 0 (host_header le v p i ty n @ obj) = Some (request_bytes v p i ty n obj)"
  by (cases le; simp add: net_decode_fields command_fields shift_zero swap_bytes_def mem_write_def request_bytes_def
      host_header_def host_order_def poke_defs)+

lemma header_read:
  "host_read_u16 le 4 (host_header le v p i ty n @ obj) = ty" "host_read_u16 le 2 (host_header le v p i ty n @ obj) = i"
  using peek_poke_u16 [of ty] peek_poke_u16 [of i]
  by (simp_all add: host_read_u16_def host_header_def host_order_def poke_defs)

lemma and_255_byte: "(ucast ((w :: 16 word) AND 255) :: byte) = ucast w"
  by (rule bit_word_eqI) (auto simp: bit_simps mask_255)

text \<open>The header of a reply: the reply type is written in host order over the type.\<close>

lemma header_reply: "mem_write 4 (host_u16 le r) (host_header le v p i ty n @ obj) = host_header le v p i r n @ obj"
  by (simp add: host_u16_def host_header_def host_order_def poke_defs mem_write_def and_255_byte)

section \<open>Requests\<close>

lemma change_camera_frame:
  assumes "change_camera le io p_obj i fv = Some fv'"
  shows "fv_list fv' = fv_list fv \<and> fv_files fv' = fv_files fv \<and> fv_cam_param fv' = fv_cam_param fv \<and>
    fv_det_param fv' = fv_det_param fv \<and> fv_flag fv' = fv_flag fv \<and> length (fv_cams fv') = length (fv_cams fv) \<and>
    fv_sig fv' = fv_sig fv"
  using assms by (auto simp: change_camera_def Let_def split: if_splits option.splits)

lemma change_cameras_frame:
  "change_cameras le io p_obj js fv = Some fv' \<Longrightarrow>
    fv_list fv' = fv_list fv \<and> fv_files fv' = fv_files fv \<and> fv_cam_param fv' = fv_cam_param fv \<and>
    fv_det_param fv' = fv_det_param fv \<and> fv_flag fv' = fv_flag fv \<and> length (fv_cams fv') = length (fv_cams fv) \<and>
    fv_sig fv' = fv_sig fv"
proof (induction js arbitrary: fv)
  case (Cons i js)
  then obtain fv1 where "change_camera le io p_obj i fv = Some fv1" "change_cameras le io p_obj js fv1 = Some fv'"
    by (auto split: option.splits)
  with Cons.IH change_camera_frame show ?case by metis
qed simp

lemma handle_change_frame:
  assumes "handle_change le io p_obj t index fv = Some fv'"
  shows "fv_list fv' = fv_list fv \<and> fv_files fv' = fv_files fv \<and> fv_cam_param fv' = fv_cam_param fv \<and>
    fv_det_param fv' = fv_det_param fv"
  using assms change_cameras_frame [of le io p_obj "[0..<ACTIVE_CAM_NUM]" fv fv']
  by (auto simp: handle_change_def split: if_splits)

definition cfg_class :: "obj_class \<Rightarrow> bool" where
  "cfg_class t \<longleftrightarrow> t \<in> {CLASS_mCamParam, CLASS_mDetectDeviceConfig, CLASS_mCamDetectParam}"

lemma sync_stores:
  assumes "sync_obj p_obj t index fv = Some fv'" "cfg_class t"
  shows "cfg_obj t index fv' = Some (take (get_obj_len t) p_obj) \<and> fv_list fv' = fv_list fv \<and> fv_files fv' = fv_files fv"
  using assms by (auto simp: sync_obj_def cfg_obj_def cfg_class_def Let_def split: if_splits)

text \<open>A request that sets an object stores it in host order, in memory and in its file.\<close>

lemma handle_set_stores:
  assumes "handle_set le io t index (h @ obj @ c) fv = Some (r, buf, fv')" "cfg_class t"
    and "length h = 10" "length obj = get_obj_len t"
  shows "r = -1 \<and> cfg_obj t index fv' = Some (convert le t obj) \<and> fv_list fv' = fv_list fv \<and>
    fv_files fv' = save_buf (cfg_file_name t) (convert le t obj) (obj_pos t index) (get_obj_len t) (fv_files fv)"
proof -
  let ?o = "convert le t obj @ c"
  have d: "net_decode_obj le False t sizeof_mCommand (h @ obj @ c) = Some (h @ ?o)"
    using decode_slice [OF assms(3,4)] by (simp add: sizeof_mCommand_def)
  have tk: "take (get_obj_len t) ?o = convert le t obj" using convert_props(2) [OF assms(4)] by simp
  from assms(1) d obtain fv1 fv2 where
    s: "handle_change le io ?o t index (fv\<lparr>fv_flag := CHANGE_NOTHING\<rparr>) = Some fv1" "sync_obj ?o t index fv1 = Some fv2"
    and r: "r = -1" "fv_list fv' = fv_list fv2" "fv_files fv' = fv_files (save_obj ?o t index fv2)"
      "fv_cam_param fv' = fv_cam_param fv2" "fv_det_param fv' = fv_det_param fv2" "fv_dev_cfg fv' = fv_dev_cfg fv2"
    using assms(3)
    by (auto simp: handle_set_def sizeof_mCommand_def Let_def save_obj_def split: option.splits client_change.splits if_splits)
  note fr = handle_change_frame [OF s(1)] sync_stores [OF s(2) assms(2)]
  have "cfg_obj t index fv' = cfg_obj t index fv2" using r by (simp add: cfg_obj_def)
  moreover have "save_buf n ?o p (get_obj_len t) files = save_buf n (convert le t obj) p (get_obj_len t) files" for n p files
    using tk convert_props(2) [OF assms(4), of le] by (simp add: save_buf_def split: option.split)
  ultimately show ?thesis using r fr tk by (auto simp: save_obj_def)
qed

lemma handle_get_reply:
  assumes "cfg_obj t index fv = Some s" "length s = get_obj_len t"
    and "get_obj_len t \<le> length c"
  shows "handle_get le reply t index (host_header le v p i ty n @ c) fv =
    Some (int (10 + get_obj_len t), request_bytes v p i reply n (convert le t s @ drop (get_obj_len t) c), fv)"
proof -
  let ?h = "\<lambda>ty. host_header le v p i ty n"
  have "mem_write 10 s (?h reply @ c) = ?h reply @ s @ drop (get_obj_len t) c"
    using assms(2) by (simp add: mem_write_def)
  moreover have "net_decode_obj le True t 10 (?h reply @ s @ drop (get_obj_len t) c) =
      Some (?h reply @ convert le t s @ drop (get_obj_len t) c)"
    using decode_slice [of "?h reply" 10 s t le True "drop (get_obj_len t) c"] assms(2) by simp
  ultimately have "prepare_pkt le sizeof_mCommand reply t (get_obj_len t) s (?h ty @ c) =
      Some (10 + get_obj_len t, ?h reply @ convert le t s @ drop (get_obj_len t) c)"
    using assms(2,3) by (simp add: prepare_pkt_def sizeof_mCommand_def header_reply)
  then show ?thesis using assms(1) by (simp add: handle_get_def header_decode)
qed

section \<open>The registry\<close>

text \<open>The registry as a map from the sixteen bytes kept of a client to the camera it watches.\<close>

definition dests :: "(nat \<times> client_ip_data) list \<Rightarrow> byte list \<rightharpoonup> nat" where
  "dests xs = map_of (map (\<lambda>(a, x). (cd_ip x, cd_camera_index x)) xs)"

definition registry :: "fvd \<Rightarrow> (nat \<times> client_ip_data) list \<Rightarrow> bool" where
  "registry fv xs \<longleftrightarrow> list_rep (fv_list fv) xs \<and> distinct (map (cd_ip \<circ> snd) xs)"

definition io_fresh :: "client_io \<Rightarrow> (nat \<times> client_ip_data) list \<Rightarrow> bool" where
  "io_fresh io xs \<longleftrightarrow> co_addr io \<notin> fst ` set xs \<and> (\<exists>k. co_udp io k > 0)"

lemma udp_loop_ends: "udp (k + j) > 0 \<Longrightarrow> \<exists>fd. udp_loop udp k = Some fd \<and> fd > 0"
proof (induction j arbitrary: k)
  case 0
  then show ?case by (subst udp_loop.simps) simp
next
  case (Suc j)
  then show ?case by (subst udp_loop.simps) auto
qed

lemma hits_client: "hits client_info_match (zero_client\<lparr>cd_ip := ip, cd_camera_index := index\<rparr>) z \<longleftrightarrow> cd_ip (snd z) = ip"
  by (simp add: hits_def client_info_match_def)

lemma dests_in: "distinct (map (cd_ip \<circ> snd) xs) \<Longrightarrow> (a, x) \<in> set xs \<Longrightarrow> dests xs (cd_ip x) = Some (cd_camera_index x)"
  unfolding dests_def by (intro map_of_is_SomeI) (force simp: comp_def split_beta)+

lemma dests_append: "dests (xs @ ys) = dests ys ++ dests xs"
  by (simp add: dests_def)

lemma dests_Cons: "dests ((a, x) # xs) = (dests xs)(cd_ip x \<mapsto> cd_camera_index x)"
  by (simp add: dests_def)

lemma dests_None: "dests xs ip = None \<longleftrightarrow> (\<forall>z \<in> set xs. cd_ip (snd z) \<noteq> ip)"
  by (force simp: dests_def map_of_eq_None_iff)

lemma find_client_none: "find P xs = None \<Longrightarrow> (\<And>z. P z \<longleftrightarrow> cd_ip (snd z) = ip) \<Longrightarrow> dests xs ip = None"
  by (fastforce simp: find_None_iff dests_def map_of_eq_None_iff)

lemma find_client_some:
  assumes "find P xs = Some (a, x)" "\<And>z. P z \<longleftrightarrow> cd_ip (snd z) = ip" "distinct (map (cd_ip \<circ> snd) xs)"
  obtains ys zs where "xs = ys @ (a, x) # zs" "cd_ip x = ip" "\<forall>z \<in> set (ys @ zs). cd_ip (snd z) \<noteq> ip"
    "takeWhile (\<lambda>z. \<not> P z) xs = ys" "dropWhile (\<lambda>z. \<not> P z) xs = (a, x) # zs" "dests xs ip = Some (cd_camera_index x)"
proof -
  from find_split [OF assms(1)] have P: "P (a, x)"
    and xs: "xs = takeWhile (\<lambda>z. \<not> P z) xs @ (a, x) # tl (dropWhile (\<lambda>z. \<not> P z) xs)" by simp_all
  define ys where "ys = takeWhile (\<lambda>z. \<not> P z) xs"
  define zs where "zs = tl (dropWhile (\<lambda>z. \<not> P z) xs)"
  have e: "xs = ys @ (a, x) # zs" using xs by (simp add: ys_def zs_def)
  have ip: "cd_ip x = ip" using P assms(2) by simp
  have out: "\<forall>z \<in> set (ys @ zs). cd_ip (snd z) \<noteq> ip" using assms(3) ip unfolding e by (auto simp: image_iff)
  then have "dropWhile (\<lambda>z. \<not> P z) xs = (a, x) # zs" "takeWhile (\<lambda>z. \<not> P z) xs = ys"
    using assms(2) P unfolding e by (simp_all add: dropWhile_append2 takeWhile_append2)
  moreover have "dests xs ip = Some (cd_camera_index x)"
    using dests_in [OF assms(3), of a x] ip e by simp
  ultimately show thesis using that e ip out by blast
qed

lemma add_client_rep:
  assumes "list_rep (fv_list fv) xs" "io_fresh io xs"
  shows "\<exists>fd l. add_client io ip index fv = Some (fv\<lparr>fv_list := l\<rparr>) \<and> li_cur l = li_cur (fv_list fv) \<and> fd > 0 \<and>
    list_rep l (xs @ [(co_addr io, \<lparr>cd_ip = ip, cd_camera_index = index, cd_fd = fd, cd_times = 0\<rparr>)])"
proof -
  let ?x = "\<lambda>fd. \<lparr>cd_ip = ip, cd_camera_index = index, cd_fd = fd, cd_times = 0\<rparr>"
  obtain k where "co_udp io (0 + k) > 0" using assms(2) by (auto simp: io_fresh_def)
  from udp_loop_ends [of "co_udp io" 0 k, OF this] obtain fd where fd: "udp_loop (co_udp io) 0 = Some fd" "fd > 0" by blast
  from alloc_tail_rep [OF assms(1)] assms(2) obtain l where l: "list_node_alloc_tail zero_client (co_addr io) (fv_list fv) = Some l"
    "list_rep l (xs @ [(co_addr io, zero_client)])" "li_cur l = li_cur (fv_list fv)" "li_tail l = Some (co_addr io)"
    unfolding io_fresh_def by blast
  from put_data_rep [of l xs "co_addr io" zero_client "[]" "?x fd"] l(2) obtain n where
    n: "nd_get l (Some (co_addr io)) = Some n" "nd_data n = zero_client"
      "list_rep (nd_put (co_addr io) (n\<lparr>nd_data := ?x fd\<rparr>) l) (xs @ [(co_addr io, ?x fd)])" by auto
  moreover have "(nd_data n)\<lparr>cd_camera_index := index, cd_ip := ip, cd_fd := fd\<rparr> = ?x fd" by (simp add: n(2) zero_client_def)
  ultimately show ?thesis using l(1,3,4) fd
    by (intro exI [of _ fd] exI [of _ "nd_put (co_addr io) (n\<lparr>nd_data := ?x fd\<rparr>) l"]) (simp add: add_client_def nd_put_def)
qed

lemma register_rep:
  assumes "registry fv xs" "io_fresh io xs"
  shows "\<exists>l xs'. register_client io ip index fv = Some (fv\<lparr>fv_list := l\<rparr>) \<and> registry (fv\<lparr>fv_list := l\<rparr>) xs' \<and>
    dests xs' = (dests xs)(ip \<mapsto> index) \<and>
    (if dests xs ip = None then li_cur l = None
     else \<exists>ys a x zs. xs' = ys @ (a, x) # zs \<and> cd_ip x = ip \<and> li_cur l = Some a)"
proof -
  let ?tmp = "zero_client\<lparr>cd_ip := ip, cd_camera_index := index\<rparr>"
  let ?P = "hits client_info_match ?tmp"
  have rep: "list_rep (fv_list fv) xs" and d: "distinct (map (cd_ip \<circ> snd) xs)" using assms(1) by (auto simp: registry_def)
  show ?thesis
  proof (cases "find ?P xs")
    case None
    then have none: "dests xs ip = None" using find_client_none hits_client by blast
    obtain l where l: "list_node_seek client_info_match ?tmp (fv_list fv) = Some (-1, l)" "list_rep l xs" "li_cur l = None"
      using dl.seek_none [OF rep None] by blast
    from add_client_rep [of "fv\<lparr>fv_list := l\<rparr>" xs io ip index] l(2,3) assms(2) obtain fd l' where
      l': "add_client io ip index (fv\<lparr>fv_list := l\<rparr>) = Some (fv\<lparr>fv_list := l'\<rparr>)" "li_cur l' = None"
        "list_rep l' (xs @ [(co_addr io, \<lparr>cd_ip = ip, cd_camera_index = index, cd_fd = fd, cd_times = 0\<rparr>)])" by auto
    have "registry (fv\<lparr>fv_list := l'\<rparr>) (xs @ [(co_addr io, \<lparr>cd_ip = ip, cd_camera_index = index, cd_fd = fd, cd_times = 0\<rparr>)])"
      using l'(3) d none by (force simp: registry_def dests_None)
    moreover have "dests (xs @ [(co_addr io, \<lparr>cd_ip = ip, cd_camera_index = index, cd_fd = fd, cd_times = 0\<rparr>)]) = (dests xs)(ip \<mapsto> index)"
      using none by (auto simp: dests_append dests_Cons map_add_def fun_eq_iff dests_def split: option.split)
    ultimately show ?thesis using l l' none by (auto simp: register_client_def)
  next
    case (Some y)
    obtain a x where y: "y = (a, x)" by fastforce
    from find_client_some [OF Some [unfolded y] hits_client d] obtain ys zs where
      s: "xs = ys @ (a, x) # zs" "cd_ip x = ip" "\<forall>z \<in> set (ys @ zs). cd_ip (snd z) \<noteq> ip"
        "takeWhile (\<lambda>z. \<not> ?P z) xs = ys" "dropWhile (\<lambda>z. \<not> ?P z) xs = (a, x) # zs" "dests xs ip = Some (cd_camera_index x)"
      by blast
    let ?x = "x\<lparr>cd_camera_index := index\<rparr>"
    from dl.seek_put [OF rep Some [unfolded y], of ?x] obtain l1 l2 where
      l: "list_node_seek client_info_match ?tmp (fv_list fv) = Some (client_info_match x ?tmp, l1)" "list_rep l1 xs"
        "list_get_current_data l1 = Some x" "list_overwirte_current_data ?x l1 = Some l2" "li_cur l2 = Some a"
        "list_rep l2 (ys @ (a, ?x) # zs)" using s(4,5) by (auto simp: update_first_def)
    show ?thesis
    proof (cases "cd_camera_index x = index")
      case True
      obtain l0 where l0: "list_node_seek client_info_match ?tmp (fv_list fv) = Some (client_info_match x ?tmp, l0)"
        "list_rep l0 xs" "li_cur l0 = Some a" using dl.seek_found [OF rep Some [unfolded y]] by blast
      have "register_client io ip index fv = Some (fv\<lparr>fv_list := l0\<rparr>)"
        using l0(1) True s(2) by (simp add: register_client_def client_info_match_def)
      moreover have "registry (fv\<lparr>fv_list := l0\<rparr>) xs" using l0(2) d by (simp add: registry_def)
      moreover have "dests xs = (dests xs)(ip \<mapsto> index)" using s(6) True by auto
      ultimately show ?thesis using l0(3) s(1,2,6) by (intro exI [of _ l0] exI [of _ xs]) auto
    next
      case False
      have "distinct (map (cd_ip \<circ> snd) (ys @ (a, ?x) # zs))" using d s(1) by simp
      moreover have "dests (ys @ (a, ?x) # zs) = (dests xs)(ip \<mapsto> index)"
      proof -
        have "dests ys ip = None" using s(3) by (simp add: dests_None)
        then have "(m(ip \<mapsto> v)) ++ dests ys = (m ++ dests ys)(ip \<mapsto> v)" for m and v :: nat
          by (auto simp: map_add_def fun_eq_iff split: option.split)
        then show ?thesis using s(2) by (simp add: s(1) dests_append dests_Cons)
      qed
      moreover have "register_client io ip index fv = Some (fv\<lparr>fv_list := l2\<rparr>)"
        using l(1,3,4) False s(2) by (simp add: register_client_def client_info_match_def)
      moreover have "cd_ip ?x = ip" using s(2) by simp
      ultimately show ?thesis using l(5,6) s(6) unfolding registry_def by fastforce
    qed
  qed
qed

lemma shutdown_rep:
  assumes "registry fv xs" "io_fresh io xs"
  shows "\<exists>l xs' fv1. register_client io ip index fv = Some fv1 \<and> del_client fv1 = Some (fv\<lparr>fv_list := l\<rparr>) \<and>
    registry (fv\<lparr>fv_list := l\<rparr>) xs' \<and>
    dests xs' = (if dests xs ip = None then (dests xs)(ip \<mapsto> index) else (dests xs)(ip := None))"
proof -
  from register_rep [OF assms, of ip index] obtain l1 xs1 where
    r: "register_client io ip index fv = Some (fv\<lparr>fv_list := l1\<rparr>)" "registry (fv\<lparr>fv_list := l1\<rparr>) xs1"
      "dests xs1 = (dests xs)(ip \<mapsto> index)"
      "if dests xs ip = None then li_cur l1 = None
       else \<exists>ys a x zs. xs1 = ys @ (a, x) # zs \<and> cd_ip x = ip \<and> li_cur l1 = Some a" by blast
  show ?thesis
  proof (cases "dests xs ip = None")
    case True
    with r show ?thesis using dl.del_none [of l1] by (auto simp: del_client_def)
  next
    case False
    with r(4) obtain ys a x zs where s: "xs1 = ys @ (a, x) # zs" "cd_ip x = ip" "li_cur l1 = Some a" by auto
    have rep: "list_rep l1 (ys @ (a, x) # zs)" and d: "distinct (map (cd_ip \<circ> snd) (ys @ (a, x) # zs))"
      using r(2) s(1) by (auto simp: registry_def)
    obtain l2 where l2: "list_node_del_cur l1 = Some (0, l2)" "list_rep l2 (ys @ zs)" using dl.del_law [OF rep s(3)] by blast
    have out: "dests ys ip = None" "dests zs ip = None" using d s(2) by (auto simp: dests_None image_iff)
    have "dests (ys @ zs) = (dests xs1)(ip := None)"
      using out s(2) by (auto simp: s(1) dests_append dests_Cons map_add_def fun_eq_iff split: option.split)
    then have "dests (ys @ zs) = (dests xs)(ip := None)" by (simp add: r(3))
    moreover have "registry (fv\<lparr>fv_list := l2\<rparr>) (ys @ zs)" using l2(2) d by (simp add: registry_def)
    ultimately show ?thesis using r(1) l2(1) False by (auto simp: del_client_def)
  qed
qed

text \<open>The buffer of \<open>recv_buf\<close>: the request followed by zeros.\<close>

definition filled :: "byte list \<Rightarrow> byte list" where
  "filled obj = obj @ replicate (990 - length obj) 0"

lemma request_split:
  "request_bytes v p i ty n (obj @ rest) = request_bytes v p i ty n obj @ rest"
  "length (request_bytes v p i ty n obj) = 10 + length obj"
  by (simp_all add: request_bytes_def poke_defs)

lemma recv_request:
  assumes "length obj \<le> 990"
  shows "recv_buf le io ip (request_bytes v p i ty n obj) fv =
    (case handle_buffer le io (ip_array ip) (request_bytes v p i ty n (filled obj)) fv of None \<Rightarrow> None
     | Some (r, buf, fv) \<Rightarrow> Some (if r > 0 then take (nat r) buf else [], fv))"
  using assms by (simp add: recv_buf_def BUFFER_MAX_def filled_def request_split Let_def)

lemma handle_request:
  "handle_buffer le io ip (request_bytes v p i ty n obj) fv =
     (let buf = host_header le v p i ty n @ obj
      in case (if ty = GETCAMPARAM \<or> ty = HEART \<or> ty = SHUTDOWN then register_client io ip (unat i) fv else Some fv) of
           None \<Rightarrow> None
         | Some fv \<Rightarrow>
         case (if ty = SHUTDOWN then del_client fv
               else if ty = REBOOTZEN then
                 map_option (\<lambda>s. fv\<lparr>fv_sig := s\<rparr>) (reboot_cmd (co_sig io) (host_read_u32 le 0 (fv_dev_cfg fv)) (fv_sig fv))
               else Some fv) of
           None \<Rightarrow> None
         | Some fv \<Rightarrow>
         (case cmd_flag ty of
            NOOP_FLAG \<Rightarrow> Some (-1, buf, fv)
          | GET_FLAG reply t \<Rightarrow> handle_get le reply t (unat i) buf fv
          | SET_FLAG t \<Rightarrow> handle_set le io t (unat i) buf fv))"
  by (simp add: handle_buffer_def header_decode header_read Let_def)

text \<open>The request types that set, query and answer a class.\<close>

definition set_type :: "obj_class \<Rightarrow> 16 word" where
  "set_type t = (if t = CLASS_mCamParam then SETCAMPARAM
     else if t = CLASS_mDetectDeviceConfig then SETDETECTDEVICE else SETCHECHPARAM)"

definition get_type :: "obj_class \<Rightarrow> 16 word" where
  "get_type t = (if t = CLASS_mCamParam then GETCAMPARAM
     else if t = CLASS_mDetectDeviceConfig then GETDETECTDEVICE else GETCHECHPARAM)"

definition rep_type :: "obj_class \<Rightarrow> 16 word" where
  "rep_type t = (if t = CLASS_mCamParam then REPCAMPARAM
     else if t = CLASS_mDetectDeviceConfig then REPDETECTDEVICE else REPCHECHPARAM)"

lemmas type_defs = SETCAMPARAM_def GETCAMPARAM_def SETDETECTDEVICE_def GETDETECTDEVICE_def SETCHECHPARAM_def
  GETCHECHPARAM_def HEART_def SHUTDOWN_def REBOOTZEN_def

lemma recv_set:
  assumes "cfg_class t" "length obj = get_obj_len t"
  shows "recv_buf le io ip (request_bytes v p i (set_type t) n obj) fv =
    (case handle_set le io t (unat i) (host_header le v p i (set_type t) n @ obj @ replicate (990 - length obj) 0) fv of None \<Rightarrow> None
     | Some (r, buf, fv) \<Rightarrow> Some (if r > 0 then take (nat r) buf else [], fv))"
proof -
  have "length obj \<le> 990" using assms by (auto simp: cfg_class_def)
  moreover have "cmd_flag (set_type t) = SET_FLAG t" "set_type t \<notin> {GETCAMPARAM, HEART, SHUTDOWN, REBOOTZEN}"
    using assms(1) by (auto simp: cfg_class_def cmd_flag_def set_type_def type_defs)
  ultimately show ?thesis by (simp add: recv_request handle_request filled_def Let_def)
qed

lemma set_request:
  assumes "cfg_class t" "length obj = get_obj_len t"
    and "recv_buf le io ip (request_bytes v p i (set_type t) n obj) fv = Some (out, fv')"
  shows "out = [] \<and> cfg_obj t (unat i) fv' = Some (convert le t obj) \<and> fv_list fv' = fv_list fv \<and>
    fv_files fv' = save_buf (cfg_file_name t) (convert le t obj) (obj_pos t (unat i)) (get_obj_len t) (fv_files fv)"
proof -
  let ?h = "host_header le v p i (set_type t) n"
  from assms(3) obtain r buf where
    "handle_set le io t (unat i) (?h @ obj @ replicate (990 - length obj) 0) fv = Some (r, buf, fv')" "out = (if r > 0 then take (nat r) buf else [])"
    by (auto simp: recv_set [OF assms(1,2)] split: option.splits)
  with handle_set_stores [OF this(1) assms(1) _ assms(2)] show ?thesis by simp
qed

lemma cfg_obj_list [simp]: "cfg_obj t i (fv\<lparr>fv_list := l\<rparr>) = cfg_obj t i fv"
  by (simp add: cfg_obj_def)

lemma get_request:
  assumes "cfg_class t" "cfg_obj t (unat i) fv = Some s" "length s = get_obj_len t" "registry fv xs" "io_fresh io xs"
  shows "\<exists>fv'. recv_buf le io ip (request_bytes v p i (get_type t) n []) fv =
    Some (request_bytes v p i (rep_type t) n (convert le t s), fv')"
proof -
  have f: "cmd_flag (get_type t) = GET_FLAG (rep_type t) t" "get_type t \<notin> {HEART, SHUTDOWN, REBOOTZEN}"
    "get_obj_len t \<le> 990" using assms(1) by (auto simp: cfg_class_def cmd_flag_def get_type_def rep_type_def type_defs)
  let ?c = "filled []"
  have c: "length ?c = 990" by (simp add: filled_def)
  obtain l where "register_client io (ip_array ip) (unat i) fv = Some (fv\<lparr>fv_list := l\<rparr>)" using register_rep [OF assms(4,5), of "ip_array ip" "unat i"] by blast
  moreover have "cfg_obj t (unat i) (fv\<lparr>fv_list := l\<rparr>) = Some s" using assms(2) by simp
  ultimately obtain fv1 where fv1: "(if get_type t = GETCAMPARAM \<or> get_type t = HEART \<or> get_type t = SHUTDOWN
      then register_client io (ip_array ip) (unat i) fv else Some fv) = Some fv1" "cfg_obj t (unat i) fv1 = Some s"
    using assms(2) by (cases "get_type t = GETCAMPARAM \<or> get_type t = HEART \<or> get_type t = SHUTDOWN") auto
  have "handle_buffer le io (ip_array ip) (request_bytes v p i (get_type t) n ?c) fv =
      handle_get le (rep_type t) t (unat i) (host_header le v p i (get_type t) n @ ?c) fv1"
    unfolding handle_request Let_def fv1(1) using f(1,2) by simp
  also have "\<dots> = Some (int (10 + get_obj_len t), request_bytes v p i (rep_type t) n (convert le t s @ drop (get_obj_len t) ?c), fv1)"
    using handle_get_reply [OF fv1(2) assms(3), of ?c] f(3) c by simp
  finally have h: "handle_buffer le io (ip_array ip) (request_bytes v p i (get_type t) n ?c) fv =
      Some (int (10 + get_obj_len t), request_bytes v p i (rep_type t) n (convert le t s @ drop (get_obj_len t) ?c), fv1)" .
  have "take (10 + get_obj_len t) (request_bytes v p i (rep_type t) n (convert le t s @ rest)) =
      request_bytes v p i (rep_type t) n (convert le t s)" for rest
    using convert_props(2) [OF assms(3), of le] by (simp add: request_split)
  moreover have "nat (int (10 + get_obj_len t)) = 10 + get_obj_len t" "int (10 + get_obj_len t) > 0" by simp_all
  ultimately show ?thesis using recv_request [of "[]" le io ip v p i "get_type t" n fv] h by simp
qed

section \<open>Requests that stay within their arrays\<close>

text \<open>A string that ends within the object and fits, with its terminator, an array of sixteen bytes.\<close>

definition short_str :: "nat \<Rightarrow> byte list \<Rightarrow> bool" where
  "short_str p m \<longleftrightarrow> (case str_at p m of None \<Rightarrow> False | Some s \<Rightarrow> length s \<le> 15)"

text \<open>What the objects must hold for the cameras of a new device configuration.\<close>

definition device_safe :: "byte list \<Rightarrow> nat list \<Rightarrow> fvd \<Rightarrow> bool" where
  "device_safe p_obj js fv \<longleftrightarrow> (\<forall>j \<in> set js. j < ACTIVE_CAM_NUM \<and> str_at (cammerIp_off j) (fv_dev_cfg fv) \<noteq> None \<and>
     short_str (cammerIp_off j) p_obj \<and> short_str username_off (fv_cam_param fv ! j) \<and>
     short_str passwd_off (fv_cam_param fv ! j))"

definition set_safe :: "obj_class \<Rightarrow> byte list \<Rightarrow> nat \<Rightarrow> fvd \<Rightarrow> bool" where
  "set_safe t p_obj index fv \<longleftrightarrow>
     (t = CLASS_mCamParam \<longrightarrow> str_at signalIp_off (fv_cam_param fv ! 0) \<noteq> None \<and>
        (index = 0 \<longrightarrow> short_str signalIp_off (take (get_obj_len t) p_obj))) \<and>
     (t = CLASS_mDetectDeviceConfig \<longrightarrow> device_safe p_obj [0..<ACTIVE_CAM_NUM] fv)"

text \<open>The tables have the sizes of their structures, with any contents.\<close>

definition tables_ok :: "fvd \<Rightarrow> bool" where
  "tables_ok fv \<longleftrightarrow> length (fv_cam_param fv) = ACTIVE_CAM_NUM \<and> length (fv_det_param fv) = ACTIVE_CAM_NUM \<and>
     length (fv_cams fv) = ACTIVE_CAM_NUM \<and>
     (\<forall>s \<in> set (fv_cam_param fv). length s = get_obj_len CLASS_mCamParam) \<and>
     (\<forall>s \<in> set (fv_det_param fv). length s = get_obj_len CLASS_mCamDetectParam) \<and>
     length (fv_dev_cfg fv) = get_obj_len CLASS_mDetectDeviceConfig"

lemma camera_open_Some:
  "length ip \<le> 15 \<Longrightarrow> length name \<le> 15 \<Longrightarrow> length passwd \<le> 15 \<Longrightarrow> \<exists>c'. camera_open ret ip port name passwd c = Some c'"
  by (simp add: camera_open_def copy16_def Let_def)

lemma camstatus_in_cfg: "i < ACTIVE_CAM_NUM \<Longrightarrow> camstatus_off i < get_obj_len CLASS_mDetectDeviceConfig"
  by (simp add: camstatus_off_def ACTIVE_CAM_NUM_def)

lemma change_camera_Some:
  assumes "device_safe p_obj (i # js) fv" "tables_ok fv" "distinct (i # js)"
  shows "\<exists>fv'. change_camera le io p_obj i fv = Some fv' \<and> length (fv_dev_cfg fv') = length (fv_dev_cfg fv) \<and>
    (\<forall>j > i. drop (cammerIp_off j) (fv_dev_cfg fv') = drop (cammerIp_off j) (fv_dev_cfg fv))"
proof -
  from assms(1) obtain old new name passwd where
    s: "str_at (cammerIp_off i) (fv_dev_cfg fv) = Some old" "str_at (cammerIp_off i) p_obj = Some new"
      "str_at username_off (fv_cam_param fv ! i) = Some name" "str_at passwd_off (fv_cam_param fv ! i) = Some passwd"
      "length new \<le> 15" "length name \<le> 15" "length passwd \<le> 15" "i < ACTIVE_CAM_NUM"
    by (auto simp: device_safe_def short_str_def split: option.splits)
  have b: "i < length (fv_cams fv)" "i < length (fv_cam_param fv)" "camstatus_off i < length (fv_dev_cfg fv)"
    using assms(2) s(8) camstatus_in_cfg by (auto simp: tables_ok_def)
  have d: "j > i \<Longrightarrow> drop (cammerIp_off j) (xs[camstatus_off i := v]) = drop (cammerIp_off j) xs" for j xs and v :: byte
    by (simp add: camstatus_off_def cammerIp_off_def drop_update_cancel)
  let ?o = "\<lambda>c. camera_open (co_open io i) new (host_read_u32 le cammerport_off (fv_cam_param fv ! i)) name passwd c"
  obtain f where "\<And>c. ?o c = Some (f c)" using camera_open_Some [OF s(5-7)] by metis
  with s b d show ?thesis by (auto simp: change_camera_def Let_def)
qed

lemma change_cameras_Some:
  "device_safe p_obj js fv \<Longrightarrow> tables_ok fv \<Longrightarrow> sorted_wrt (<) js \<Longrightarrow> \<exists>fv'. change_cameras le io p_obj js fv = Some fv'"
proof (induction js arbitrary: fv)
  case (Cons i js)
  from Cons.prems(3) have "distinct (i # js)" by (auto simp: strict_sorted_iff)
  from change_camera_Some [OF Cons.prems(1,2) this] obtain fv1 where
    fv1: "change_camera le io p_obj i fv = Some fv1" "length (fv_dev_cfg fv1) = length (fv_dev_cfg fv)"
      "\<forall>j > i. drop (cammerIp_off j) (fv_dev_cfg fv1) = drop (cammerIp_off j) (fv_dev_cfg fv)" by blast
  note fr = change_camera_frame [OF fv1(1)]
  have "tables_ok fv1" using fr fv1(2) Cons.prems(2) by (simp add: tables_ok_def)
  moreover have "\<forall>j \<in> set js. str_at (cammerIp_off j) (fv_dev_cfg fv1) = str_at (cammerIp_off j) (fv_dev_cfg fv)"
    using fv1(3) Cons.prems(3) by (simp add: str_at_def)
  then have "device_safe p_obj js fv1" using fr Cons.prems(1) by (simp add: device_safe_def)
  ultimately show ?case using Cons.IH [of fv1] Cons.prems(3) fv1(1) by simp
qed simp

lemma handle_change_Some:
  assumes "set_safe t p_obj index fv" "tables_ok fv" "t = CLASS_mCamParam \<longrightarrow> 0 \<in> set (drop signalIp_off p_obj)"
  shows "\<exists>fv'. handle_change le io p_obj t index fv = Some fv' \<and> length (fv_cams fv') = length (fv_cams fv)"
proof -
  consider "t = CLASS_mDetectDeviceConfig" | "t = CLASS_mCamParam" | "t \<noteq> CLASS_mDetectDeviceConfig" "t \<noteq> CLASS_mCamParam"
    by blast
  then show ?thesis
  proof cases
    case 1
    with assms(1) have "device_safe p_obj [0..<ACTIVE_CAM_NUM] fv" by (simp add: set_safe_def)
    from change_cameras_Some [OF this assms(2), of le io] obtain fv' where
      fv': "change_cameras le io p_obj [0..<ACTIVE_CAM_NUM] fv = Some fv'" by auto
    with change_cameras_frame [OF fv'] 1 show ?thesis by (simp add: handle_change_def)
  next
    case 2
    have "fv_cam_param fv \<noteq> []" using assms(2) by (auto simp: tables_ok_def ACTIVE_CAM_NUM_def)
    with 2 assms(1,3) have "signal_changed le p_obj index fv \<noteq> None"
      by (auto simp: signal_changed_def set_safe_def str_at_def split: if_splits)
    then obtain b where "signal_changed le p_obj index fv = Some b" by blast
    with 2 show ?thesis by (simp add: handle_change_def)
  next
    case 3
    then show ?thesis by (simp add: handle_change_def)
  qed
qed

lemma sig_flag:
  assumes "handle_change le io p_obj t index fv = Some fv'" "fv_flag fv = CHANGE_NOTHING" "fv_flag fv' = CHANGE_SIG_IP"
  shows "t = CLASS_mCamParam \<and> index = 0"
  using assms change_cameras_frame [of le io p_obj "[0..<ACTIVE_CAM_NUM]" fv fv']
  by (auto simp: handle_change_def signal_changed_def split: if_splits)

lemma sync_flag: "sync_obj p_obj t index fv = Some fv' \<Longrightarrow> fv_flag fv' = fv_flag fv"
  by (auto simp: sync_obj_def Let_def split: if_splits)

lemma sig_ip_fits:
  assumes "short_str signalIp_off (take (get_obj_len CLASS_mCamParam) p_obj)" "sync_obj p_obj CLASS_mCamParam 0 fv = Some fv'"
  shows "\<exists>ip. get_sig_ip (save_obj o' t index fv') = Some ip"
  using assms
  by (auto simp: short_str_def get_sig_ip_def get_mCamParam_def sync_obj_def save_obj_def IP_LEN_def Let_def split: option.splits if_splits)

text \<open>A request that sets an object of a camera that exists ends, when the strings it uses fit their arrays.\<close>

lemma set_accepted:
  assumes "cfg_class t" "length obj = get_obj_len t" "tables_ok fv" "unat i < ACTIVE_CAM_NUM"
    and "set_safe t (filled (convert le t obj)) (unat i) fv"
  shows "\<exists>fv'. recv_buf le io ip (request_bytes v p i (set_type t) n obj) fv = Some ([], fv')"
proof -
  let ?h = "host_header le v p i (set_type t) n"
  let ?fv = "fv\<lparr>fv_flag := CHANGE_NOTHING\<rparr>"
  define o' where "o' = filled (convert le t obj)"
  have o': "o' = convert le t obj @ replicate (990 - length obj) 0" "length (convert le t obj) = get_obj_len t"
    using assms(1,2) convert_props(2) [OF assms(2), of le] by (simp_all add: o'_def filled_def)
  have z: "t = CLASS_mCamParam \<longrightarrow> 0 \<in> set (drop signalIp_off o')" using o' assms(2) by (auto simp: signalIp_off_def)
  have d: "net_decode_obj le False t sizeof_mCommand (?h @ obj @ replicate (990 - length obj) 0) = Some (?h @ o')"
    using decode_slice [of ?h 10 obj t le False "replicate (990 - length obj) 0"] assms(2) o'
    by (simp add: sizeof_mCommand_def)
  have "set_safe t o' (unat i) ?fv" "tables_ok ?fv"
    using assms(3,5) by (simp_all add: o'_def set_safe_def device_safe_def tables_ok_def)
  from handle_change_Some [OF this z, of le io] obtain fv1 where
    fv1: "handle_change le io o' t (unat i) ?fv = Some fv1" "length (fv_cams fv1) = ACTIVE_CAM_NUM"
    using assms(3) by (auto simp: tables_ok_def)
  have "length (fv_cam_param fv1) = ACTIVE_CAM_NUM" "length (fv_det_param fv1) = ACTIVE_CAM_NUM"
    using handle_change_frame [OF fv1(1)] assms(3) by (simp_all add: tables_ok_def)
  then obtain fv2 where fv2: "sync_obj o' t (unat i) fv1 = Some fv2" "length (fv_cams fv2) = ACTIVE_CAM_NUM"
    using assms(1,4) fv1(2) by (auto simp: sync_obj_def cfg_class_def Let_def)
  obtain buf fv3 where "handle_set le io t (unat i) (?h @ obj @ replicate (990 - length obj) 0) fv = Some (-1, buf, fv3)"
  proof -
    have "\<exists>ip. get_sig_ip (save_obj o' t (unat i) fv2) = Some ip" if "fv_flag fv2 = CHANGE_SIG_IP"
    proof -
      have "t = CLASS_mCamParam" "unat i = 0" using sig_flag [OF fv1(1)] sync_flag [OF fv2(1)] that by simp_all
      with sig_ip_fits [of o' fv1 fv2] fv2(1) assms(5) show ?thesis by (simp add: set_safe_def o'_def)
    qed
    with d fv1(1) fv2 assms(4) that show ?thesis
      by (cases "fv_flag fv2") (auto simp: handle_set_def sizeof_mCommand_def Let_def save_obj_def)
  qed
  then show ?thesis by (simp add: recv_set [OF assms(1,2)])
qed

lemma set_tables:
  assumes "cfg_class t" "length obj = get_obj_len t" "tables_ok fv"
    and "recv_buf le io ip (request_bytes v p i (set_type t) n obj) fv = Some (out, fv')"
  shows "tables_ok fv' \<and> (t = CLASS_mDetectDeviceConfig \<longrightarrow> fv_cam_param fv' = fv_cam_param fv \<and> fv_det_param fv' = fv_det_param fv)"
proof -
  let ?h = "host_header le v p i (set_type t) n"
  define o' where "o' = convert le t obj @ replicate (990 - length obj) 0"
  have o': "length (take (get_obj_len t) o') = get_obj_len t" using convert_props(2) [OF assms(2), of le] by (simp add: o'_def)
  have d: "net_decode_obj le False t sizeof_mCommand (?h @ obj @ replicate (990 - length obj) 0) = Some (?h @ o')"
    using decode_slice [of ?h 10 obj t le False] assms(2) by (simp add: sizeof_mCommand_def o'_def)
  from assms(4) obtain r buf where
    "handle_set le io t (unat i) (?h @ obj @ replicate (990 - length obj) 0) fv = Some (r, buf, fv')"
    by (auto simp: recv_set [OF assms(1,2)] split: option.splits)
  with d obtain fv1 fv2 where
    s: "handle_change le io o' t (unat i) (fv\<lparr>fv_flag := CHANGE_NOTHING\<rparr>) = Some fv1" "sync_obj o' t (unat i) fv1 = Some fv2"
    and r: "fv_cam_param fv' = fv_cam_param fv2" "fv_det_param fv' = fv_det_param fv2" "fv_dev_cfg fv' = fv_dev_cfg fv2"
      "length (fv_cams fv') = length (fv_cams fv2)"
    by (auto simp: handle_set_def sizeof_mCommand_def Let_def save_obj_def split: option.splits client_change.splits if_splits)
  have c: "length (fv_cams fv1) = length (fv_cams fv)" "t \<noteq> CLASS_mDetectDeviceConfig \<Longrightarrow> fv_dev_cfg fv1 = fv_dev_cfg fv"
    using s(1) change_cameras_frame by (fastforce simp: handle_change_def split: if_splits)+
  note fr = handle_change_frame [OF s(1)]
  have u: "s \<in> set (xs[k := b]) \<Longrightarrow> s = b \<or> s \<in> set xs" for s b :: "byte list" and xs k using set_update_subset_insert by fastforce
  show ?thesis using s(2) r c fr assms(1,3) o'
    by (auto simp: sync_obj_def tables_ok_def cfg_class_def Let_def dest!: u split: if_splits)
qed

section \<open>Restart\<close>

text \<open>An object is at its place in its file.\<close>

definition in_file :: "obj_class \<Rightarrow> nat \<Rightarrow> byte list \<Rightarrow> (string \<Rightarrow> byte list option) \<Rightarrow> bool" where
  "in_file t index bs files \<longleftrightarrow>
     (case files (cfg_file_name t) of None \<Rightarrow> False | Some f \<Rightarrow> take (get_obj_len t) (drop (obj_pos t index) f) = bs)"

text \<open>The device configuration has one place, whatever index a request names.\<close>

definition slot :: "obj_class \<Rightarrow> nat \<Rightarrow> obj_class \<times> nat" where
  "slot t index = (t, if t = CLASS_mDetectDeviceConfig then 0 else index)"

lemma load_saved:
  assumes "in_file t index bs files" "length bs = get_obj_len t" "length bf = get_obj_len t"
  shows "load_buf (cfg_file_name t) bf (obj_pos t index) (get_obj_len t) files = bs"
  using assms by (auto simp: load_buf_def in_file_def Let_def split: option.splits)

lemma file_write_same: "length bs = n \<Longrightarrow> take n (drop p (file_write p bs f)) = bs"
  by (simp add: file_write_def)

lemma file_write_other:
  assumes "length (take n (drop p f)) = n" "p + n \<le> q \<or> q + length bs \<le> p"
  shows "take n (drop p (file_write q bs f)) = take n (drop p f)"
proof (rule nth_equalityI)
  have l: "p + n \<le> length f" if "n > 0" using assms(1) that by simp
  have w: "length (file_write q bs f) = max (length f) (q + length bs)" by (simp add: file_write_def)
  then show "length (take n (drop p (file_write q bs f))) = length (take n (drop p f))" using l by (cases "n = 0") auto
  fix k assume "k < length (take n (drop p (file_write q bs f)))"
  then have "k < n" "p + n \<le> length f" using l by auto
  with assms(2) w show "take n (drop p (file_write q bs f)) ! k = take n (drop p f) ! k"
    by (auto simp: file_write_def nth_append)
qed

lemma in_file_saved:
  assumes "files (cfg_file_name t) \<noteq> None" "length bs = get_obj_len t"
  shows "in_file t index bs (save_buf (cfg_file_name t) bs (obj_pos t index) (get_obj_len t) files)"
  using assms by (auto simp: in_file_def save_buf_def file_write_same)

lemma slot_apart:
  assumes "slot t i \<noteq> slot t' j" "t = t'" "cfg_class t"
  shows "obj_pos t i + get_obj_len t \<le> obj_pos t' j \<or> obj_pos t' j + get_obj_len t' \<le> obj_pos t i"
proof -
  have ne: "t \<noteq> CLASS_mDetectDeviceConfig" "i \<noteq> j" using assms(1,2) by (auto simp: slot_def split: if_splits)
  then have "Suc i * get_obj_len t \<le> j * get_obj_len t \<or> Suc j * get_obj_len t \<le> i * get_obj_len t"
    by (metis Suc_leI mult_le_mono1 nat_neq_iff)
  with ne assms(2) show ?thesis by (simp add: obj_pos_def add.commute)
qed

lemma cfg_file_name_eq: "cfg_class t \<Longrightarrow> cfg_class t' \<Longrightarrow> cfg_file_name t = cfg_file_name t' \<longleftrightarrow> t = t'"
  by (auto simp: cfg_class_def cfg_file_name_def)

lemma in_file_other:
  assumes "in_file t i bs files" "length bs = get_obj_len t" "length bs' = get_obj_len t'" "cfg_class t" "cfg_class t'"
    and "slot t i \<noteq> slot t' j"
  shows "in_file t i bs (save_buf (cfg_file_name t') bs' (obj_pos t' j) (get_obj_len t') files)"
proof (cases "t = t'")
  case True
  obtain f where f: "files (cfg_file_name t) = Some f" "take (get_obj_len t) (drop (obj_pos t i) f) = bs"
    using assms(1) by (auto simp: in_file_def split: option.splits)
  have "take (get_obj_len t) (drop (obj_pos t i) (file_write (obj_pos t' j) bs' f)) = take (get_obj_len t) (drop (obj_pos t i) f)"
    using slot_apart [OF assms(6) True assms(4)] assms(2,3) f(2) by (intro file_write_other) auto
  with f assms(3) show ?thesis by (simp add: in_file_def save_buf_def True)
next
  case False
  then have "cfg_file_name t \<noteq> cfg_file_name t'" using cfg_file_name_eq assms(4,5) by blast
  with assms(1) show ?thesis by (auto simp: in_file_def save_buf_def split: option.splits)
qed

lemma init_camera_frame:
  assumes "init_camera le io i fv = Some fv'"
  shows "fv_files fv' = fv_files fv \<and> fv_dev_cfg fv' = fv_dev_cfg fv \<and> fv_list fv' = fv_list fv \<and>
    length (fv_cam_param fv') = length (fv_cam_param fv) \<and> length (fv_det_param fv') = length (fv_det_param fv) \<and>
    (\<forall>j. j \<noteq> i \<longrightarrow> fv_cam_param fv' ! j = fv_cam_param fv ! j \<and> fv_det_param fv' ! j = fv_det_param fv ! j) \<and>
    fv_cam_param fv' ! i = load_obj (fv_cam_param fv ! i) CLASS_mCamParam i fv \<and>
    fv_det_param fv' ! i = load_obj (fv_det_param fv ! i) CLASS_mCamDetectParam i fv"
  using assms by (auto simp: init_camera_def Let_def load_obj_def split: if_splits option.splits)

lemma init_cameras_loaded:
  "init_cameras le io js fv = Some fv' \<Longrightarrow> distinct js \<Longrightarrow>
    fv_files fv' = fv_files fv \<and> fv_dev_cfg fv' = fv_dev_cfg fv \<and> fv_list fv' = fv_list fv \<and>
    length (fv_cam_param fv') = length (fv_cam_param fv) \<and> length (fv_det_param fv') = length (fv_det_param fv) \<and>
    (\<forall>j. fv_cam_param fv' ! j = (if j \<in> set js then load_obj (fv_cam_param fv ! j) CLASS_mCamParam j fv else fv_cam_param fv ! j) \<and>
      fv_det_param fv' ! j = (if j \<in> set js then load_obj (fv_det_param fv ! j) CLASS_mCamDetectParam j fv else fv_det_param fv ! j))"
proof (induction js arbitrary: fv)
  case (Cons i js)
  from Cons.prems obtain fv1 where fv1: "init_camera le io i fv = Some fv1" "init_cameras le io js fv1 = Some fv'"
    by (auto split: option.splits)
  have lo: "load_obj s t j fv1 = load_obj s t j fv" for s t j using init_camera_frame [OF fv1(1)] by (simp add: load_obj_def)
  from init_camera_frame [OF fv1(1)] Cons.IH [OF fv1(2)] Cons.prems(2) show ?case by (auto simp: lo)
qed simp

lemma init_config_loaded:
  assumes "init_config le io fv = Some fv'" "tables_ok fv" "cfg_class t" "index < ACTIVE_CAM_NUM"
    and "in_file t index bs (fv_files fv)" "length bs = get_obj_len t"
  shows "cfg_obj t index fv' = Some bs \<and> registry fv' []"
proof -
  let ?fv = "fv\<lparr>fv_list := new_list\<rparr>"
  let ?fv1 = "?fv\<lparr>fv_dev_cfg := load_obj (fv_dev_cfg fv) CLASS_mDetectDeviceConfig 0 ?fv\<rparr>"
  have i: "init_cameras le io [0..<ACTIVE_CAM_NUM] ?fv1 = Some fv'" using assms(1) by (simp add: init_config_def Let_def)
  have ld: "load_obj s t index fv2 = bs" if "length s = get_obj_len t" "fv_files fv2 = fv_files fv" for s fv2
    using load_saved [OF assms(5,6), of s] that by (simp add: load_obj_def)
  note l = init_cameras_loaded [OF i distinct_upt]
  have reg: "registry fv' []" using l new_list_rep by (simp add: registry_def)
  consider "t = CLASS_mCamParam" | "t = CLASS_mDetectDeviceConfig" | "t = CLASS_mCamDetectParam"
    using assms(3) by (auto simp: cfg_class_def)
  then show ?thesis
  proof cases
    case 1
    with assms(2,4) l ld [of "fv_cam_param fv ! index"] reg show ?thesis by (simp add: cfg_obj_def tables_ok_def)
  next
    case 2
    have "load_obj (fv_dev_cfg fv) CLASS_mDetectDeviceConfig 0 ?fv = load_obj (fv_dev_cfg fv) t index ?fv"
      using 2 by (simp add: load_obj_def obj_pos_def)
    with 2 assms(2) l ld [of "fv_dev_cfg fv" ?fv] reg show ?thesis by (simp add: cfg_obj_def tables_ok_def)
  next
    case 3
    with assms(2,4) l ld [of "fv_det_param fv ! index"] reg show ?thesis by (simp add: cfg_obj_def tables_ok_def)
  qed
qed

text \<open>A sequence of requests that set objects, and the objects it leaves.\<close>

fun run_sets :: "bool \<Rightarrow> (client_io \<times> (byte list \<times> byte list) \<times> obj_class \<times> 16 word \<times> byte list) list \<Rightarrow> fvd \<Rightarrow> fvd option" where
  "run_sets le [] fv = Some fv"
| "run_sets le ((io, ip, t, i, obj) # rs) fv =
     (case recv_buf le io ip (request_bytes 1 2 i (set_type t) (of_nat (length obj)) obj) fv of None \<Rightarrow> None
      | Some (out, fv) \<Rightarrow> run_sets le rs fv)"

fun objs_set :: "(client_io \<times> (byte list \<times> byte list) \<times> obj_class \<times> 16 word \<times> byte list) list \<Rightarrow> (obj_class \<times> nat \<rightharpoonup> byte list) \<Rightarrow>
    (obj_class \<times> nat \<rightharpoonup> byte list)" where
  "objs_set [] m = m"
| "objs_set ((io, ip, t, i, obj) # rs) m = objs_set rs (m(slot t (unat i) \<mapsto> obj))"

definition set_ok :: "client_io \<times> (byte list \<times> byte list) \<times> obj_class \<times> 16 word \<times> byte list \<Rightarrow> bool" where
  "set_ok = (\<lambda>(io, ip, t, i, obj). cfg_class t \<and> length obj = get_obj_len t)"

definition files_hold :: "bool \<Rightarrow> (obj_class \<times> nat \<rightharpoonup> byte list) \<Rightarrow> (string \<Rightarrow> byte list option) \<Rightarrow> bool" where
  "files_hold le m files \<longleftrightarrow> (\<forall>t i obj. m (slot t i) = Some obj \<longrightarrow>
     cfg_class t \<and> length obj = get_obj_len t \<and> in_file t i (convert le t obj) files)"

definition files_exist :: "(string \<Rightarrow> byte list option) \<Rightarrow> bool" where
  "files_exist files \<longleftrightarrow> (\<forall>t \<in> {CLASS_mCamParam, CLASS_mDetectDeviceConfig, CLASS_mCamDetectParam}. files (cfg_file_name t) \<noteq> None)"

lemma in_file_slot: "slot t i = slot t' j \<Longrightarrow> in_file t i bs files \<longleftrightarrow> in_file t' j bs files"
proof -
  assume "slot t i = slot t' j"
  then have "t = t'" "obj_pos t i = obj_pos t' j" by (auto simp: slot_def obj_pos_def)
  then show ?thesis by (simp add: in_file_def split: option.split)
qed

lemma run_sets_files:
  "run_sets le rs fv = Some fv' \<Longrightarrow> \<forall>r \<in> set rs. set_ok r \<Longrightarrow> files_hold le m (fv_files fv) \<Longrightarrow> files_exist (fv_files fv) \<Longrightarrow>
    files_hold le (objs_set rs m) (fv_files fv')"
proof (induction rs arbitrary: fv m)
  case (Cons r rs)
  obtain io ip t i obj where r: "r = (io, ip, t, i, obj)" by (cases r)
  then have ok: "cfg_class t" "length obj = get_obj_len t" using Cons.prems(2) by (auto simp: set_ok_def)
  from Cons.prems(1) r obtain out fv1 where
    fv1: "recv_buf le io ip (request_bytes 1 2 i (set_type t) (of_nat (length obj)) obj) fv = Some (out, fv1)" "run_sets le rs fv1 = Some fv'"
    by (auto split: option.splits)
  let ?bs = "convert le t obj"
  have bs: "length ?bs = get_obj_len t" using convert_props(2) [OF ok(2)] .
  have files: "fv_files fv1 = save_buf (cfg_file_name t) ?bs (obj_pos t (unat i)) (get_obj_len t) (fv_files fv)"
    using set_request [OF ok fv1(1)] by simp
  have ex: "files_exist (fv_files fv1)"
    using Cons.prems(4) by (simp add: files files_exist_def save_buf_def Let_def split: option.split)
  have "fv_files fv (cfg_file_name t) \<noteq> None" using Cons.prems(4) ok(1) by (auto simp: files_exist_def cfg_class_def)
  from in_file_saved [of "fv_files fv" t ?bs "unat i", OF this bs]
  have new: "in_file t (unat i) ?bs (fv_files fv1)" unfolding files .
  have "files_hold le (m(slot t (unat i) \<mapsto> obj)) (fv_files fv1)"
    unfolding files_hold_def
  proof (intro allI impI)
    fix t' j o' assume a: "(m(slot t (unat i) \<mapsto> obj)) (slot t' j) = Some o'"
    show "cfg_class t' \<and> length o' = get_obj_len t' \<and> in_file t' j (convert le t' o') (fv_files fv1)"
    proof (cases "slot t' j = slot t (unat i)")
      case True
      then have "t' = t" by (simp add: slot_def)
      with True a ok new in_file_slot [OF True] show ?thesis by simp
    next
      case False
      with a Cons.prems(3) have h: "cfg_class t'" "length o' = get_obj_len t'" "in_file t' j (convert le t' o') (fv_files fv)"
        by (auto simp: files_hold_def)
      with in_file_other [OF h(3) convert_props(2) [OF h(2)] bs h(1) ok(1) False] show ?thesis by (simp add: files)
    qed
  qed
  from Cons.IH [OF fv1(2) _ this ex] Cons.prems(2) have "files_hold le (objs_set rs (m(slot t (unat i) \<mapsto> obj))) (fv_files fv')"
    by (meson list.set_intros(2))
  then show ?case by (simp only: r objs_set.simps)
qed simp

text \<open>The strings of the cameras that a start opens, as they are read from the files.\<close>

definition boot_safe :: "nat list \<Rightarrow> fvd \<Rightarrow> bool" where
  "boot_safe js fv \<longleftrightarrow> (\<forall>j \<in> set js. j < ACTIVE_CAM_NUM \<and>
     (fv_dev_cfg fv ! camstatus_off j = 1 \<longrightarrow> short_str (cammerIp_off j) (fv_dev_cfg fv) \<and>
        short_str username_off (load_obj (fv_cam_param fv ! j) CLASS_mCamParam j fv) \<and>
        short_str passwd_off (load_obj (fv_cam_param fv ! j) CLASS_mCamParam j fv)))"

lemma init_camera_Some:
  assumes "boot_safe (i # js) fv" "length (fv_cam_param fv) = ACTIVE_CAM_NUM" "length (fv_det_param fv) = ACTIVE_CAM_NUM"
    and "length (fv_cams fv) = ACTIVE_CAM_NUM"
  shows "\<exists>fv'. init_camera le io i fv = Some fv' \<and> length (fv_cams fv') = ACTIVE_CAM_NUM"
proof (cases "fv_dev_cfg fv ! camstatus_off i = 1")
  case True
  let ?c = "load_obj (fv_cam_param fv ! i) CLASS_mCamParam i fv"
  from True assms(1) obtain new name passwd where
    s: "str_at (cammerIp_off i) (fv_dev_cfg fv) = Some new" "str_at username_off ?c = Some name" "str_at passwd_off ?c = Some passwd"
      "length new \<le> 15" "length name \<le> 15" "length passwd \<le> 15" "i < ACTIVE_CAM_NUM"
    by (auto simp: boot_safe_def short_str_def split: option.splits)
  obtain c' where "camera_open (co_open io i) new (host_read_u32 le cammerport_off ?c) name passwd (fv_cams fv ! i) = Some c'"
    using camera_open_Some [OF s(4-6)] by blast
  with s(1-3,7) assms(2-4) True show ?thesis by (simp add: init_camera_def Let_def)
next
  case False
  with assms show ?thesis by (simp add: init_camera_def Let_def boot_safe_def)
qed

lemma init_cameras_Some:
  "boot_safe js fv \<Longrightarrow> length (fv_cam_param fv) = ACTIVE_CAM_NUM \<Longrightarrow> length (fv_det_param fv) = ACTIVE_CAM_NUM \<Longrightarrow>
    length (fv_cams fv) = ACTIVE_CAM_NUM \<Longrightarrow> distinct js \<Longrightarrow> \<exists>fv'. init_cameras le io js fv = Some fv'"
proof (induction js arbitrary: fv)
  case (Cons i js)
  from init_camera_Some [OF Cons.prems(1-4)] obtain fv1 where
    fv1: "init_camera le io i fv = Some fv1" "length (fv_cams fv1) = ACTIVE_CAM_NUM" by blast
  note fr = init_camera_frame [OF fv1(1)]
  have "\<forall>j \<in> set js. fv_cam_param fv1 ! j = fv_cam_param fv ! j" using fr Cons.prems(5) by auto
  moreover have "load_obj o' t j fv1 = load_obj o' t j fv" for o' t j using fr by (simp add: load_obj_def)
  ultimately have "boot_safe js fv1" using Cons.prems(1) fr by (simp add: boot_safe_def)
  with Cons.IH [of fv1] Cons.prems fr fv1 show ?case by simp
qed simp

text \<open>The device configuration of a start is the one of the files.\<close>

definition boot_state :: "fvd \<Rightarrow> fvd" where
  "boot_state fv = fv\<lparr>fv_dev_cfg := load_obj (fv_dev_cfg fv) CLASS_mDetectDeviceConfig 0 fv\<rparr>"

lemma init_config_Some:
  assumes "boot_safe [0..<ACTIVE_CAM_NUM] (boot_state fv)" "tables_ok fv"
  shows "\<exists>fv'. init_config le io fv = Some fv'"
proof -
  have "load_obj o' t j (fv\<lparr>fv_list := l, fv_dev_cfg := d\<rparr>) = load_obj o' t j fv" 
    "load_obj o' t j (fv\<lparr>fv_dev_cfg := d\<rparr>) = load_obj o' t j fv" "load_obj o' t j (fv\<lparr>fv_list := l\<rparr>) = load_obj o' t j fv"
    for o' t j l d by (simp_all add: load_obj_def)
  then show ?thesis using assms unfolding init_config_def Let_def
    by (intro init_cameras_Some) (simp_all add: boot_safe_def boot_state_def tables_ok_def)
qed

section \<open>Detection results\<close>

lemma send_udp_run:
  "run_ops (client_send_udp k) out ps =
    (map (\<lambda>p. fst (client_send_udp k p [])) ps,
     out @ map (\<lambda>p. (cd_fd p, cd_ip p)) (filter (\<lambda>p. cd_camera_index p = k) ps))"
  by (induction ps arbitrary: out) (auto simp: client_send_udp_def Let_def)

lemma client_output_rep:
  assumes "registry fv xs"
  shows "\<exists>fv' xs'. client_output k fv = Some (map (\<lambda>z. (cd_fd (snd z), cd_ip (snd z))) (filter (\<lambda>z. cd_camera_index (snd z) = k) xs), fv') \<and>
    registry fv' xs' \<and> dests xs' = dests xs"
proof -
  let ?xs = "zip (map fst xs) (map (\<lambda>p. fst (client_send_udp k p [])) (map snd xs))"
  have u: "cd_ip (fst (client_send_udp k p [])) = cd_ip p" "cd_camera_index (fst (client_send_udp k p [])) = cd_camera_index p" for p
    by (simp_all add: client_send_udp_def)
  have xs: "?xs = map (\<lambda>z. (fst z, fst (client_send_udp k (snd z) []))) xs" by (simp add: zip_map_map zip_same_conv_map)
  from operate_rep [of "fv_list fv" xs "client_send_udp k" "[]"] assms obtain l where
    l: "list_operate_node_all (client_send_udp k) [] (fv_list fv) =
        Some (map (\<lambda>p. (cd_fd p, cd_ip p)) (filter (\<lambda>p. cd_camera_index p = k) (map snd xs)), l)" "list_rep l ?xs"
    by (auto simp: registry_def send_udp_run)
  moreover have "registry (fv\<lparr>fv_list := l\<rparr>) ?xs" using l(2) assms unfolding registry_def xs by (simp add: comp_def u)
  moreover have "dests ?xs = dests xs" unfolding xs by (simp add: dests_def comp_def u case_prod_beta')
  moreover have "map (\<lambda>p. (cd_fd p, cd_ip p)) (filter (\<lambda>p. cd_camera_index p = k) (map snd xs)) =
      map (\<lambda>z. (cd_fd (snd z), cd_ip (snd z))) (filter (\<lambda>z. cd_camera_index (snd z) = k) xs)"
    by (simp add: filter_map comp_def)
  ultimately show ?thesis by (auto simp: client_output_def)
qed

lemma dests_eq_Some: "distinct (map (cd_ip \<circ> snd) xs) \<Longrightarrow> dests xs ip = Some k \<longleftrightarrow> (\<exists>z \<in> set xs. cd_ip (snd z) = ip \<and> cd_camera_index (snd z) = k)"
  unfolding dests_def by (subst map_of_eq_Some_iff) (auto simp: comp_def split_beta image_iff)

section \<open>Properties\<close>

text \<open>A heartbeat registers the sixteen bytes kept of its client.\<close>

lemma heart_request:
  assumes "registry fv xs" "io_fresh io xs"
  shows "\<exists>fv1 xs1. recv_buf le io ip (request_bytes v p i HEART n []) fv = Some ([], fv1) \<and>
    registry fv1 xs1 \<and> dests xs1 = (dests xs)(ip_array ip \<mapsto> unat i)"
proof -
  from register_rep [OF assms, of "ip_array ip" "unat i"] obtain l xs1 where
    r: "register_client io (ip_array ip) (unat i) fv = Some (fv\<lparr>fv_list := l\<rparr>)" "registry (fv\<lparr>fv_list := l\<rparr>) xs1"
      "dests xs1 = (dests xs)(ip_array ip \<mapsto> unat i)" by blast
  have "recv_buf le io ip (request_bytes v p i HEART n []) fv = Some ([], fv\<lparr>fv_list := l\<rparr>)"
    using r(1) by (simp add: recv_request handle_request Let_def cmd_flag_def type_defs)
  with r(2,3) show ?thesis by blast
qed

text \<open>The bytes kept are those of the address only up to the terminator: a client whose array held something
  else when it called before gets a second entry, and the results twice.\<close>

lemma ip_array_str: "0 \<notin> set addr \<Longrightarrow> c_str (ip_array (residue, addr)) = addr"
  by (auto simp: ip_array_def mem_write_def c_str_def takeWhile_append)

lemma ip_array_addr: "0 \<notin> set a \<Longrightarrow> 0 \<notin> set b \<Longrightarrow> ip_array (residue, a) = ip_array (residue, b) \<longleftrightarrow> a = b"
  by (metis ip_array_str)

lemma residue_registers_twice:
  assumes "registry fv xs" "io_fresh io xs" "dests xs (ip_array (residue1, addr)) = Some (unat i)"
    and "ip_array (residue1, addr) \<noteq> ip_array (residue2, addr)"
  shows "\<exists>fv1 xs1. recv_buf le io (residue2, addr) (request_bytes v p i HEART n []) fv = Some ([], fv1) \<and> registry fv1 xs1 \<and>
    dests xs1 (ip_array (residue1, addr)) = Some (unat i) \<and> dests xs1 (ip_array (residue2, addr)) = Some (unat i)"
proof -
  from heart_request [OF assms(1,2), of le "(residue2, addr)" v p i n] obtain fv1 xs1 where
    "recv_buf le io (residue2, addr) (request_bytes v p i HEART n []) fv = Some ([], fv1)" "registry fv1 xs1"
    "dests xs1 = (dests xs)(ip_array (residue2, addr) \<mapsto> unat i)" by blast
  with assms(3,4) show ?thesis by (intro exI [of _ fv1] exI [of _ xs1]) simp
qed

text \<open>C36: the list of clients is keyed by the sixteen bytes of the array in which \<open>recv_buf\<close> has the address of the
  client, the string with its terminator and behind it what the array held before.  A heartbeat puts these
  bytes on the list for the camera it names, moving their entry there when it stood for another camera, and
  changes no other entry; the list keeps one entry per contents of the array.  The results of a camera are
  then sent to exactly the entries for that camera, once each.  (One address with different bytes behind its
  terminator has several entries.)  \<open>malloc\<close> returns a block that is not in use, and a datagram socket is obtained at some
  attempt, for which the code waits.\<close>

theorem client_registry:
  assumes "registry fv xs" "io_fresh io xs"
  shows "\<exists>fv1 xs1 out fv2. recv_buf le io ip (request_bytes v p i HEART n []) fv = Some ([], fv1) \<and>
    registry fv1 xs1 \<and> dests xs1 = (dests xs)(ip_array ip \<mapsto> unat i) \<and>
    client_output k fv1 = Some (out, fv2) \<and> distinct (map snd out) \<and>
    set (map snd out) = {a. ((dests xs)(ip_array ip \<mapsto> unat i)) a = Some k}"
proof -
  from heart_request [OF assms, of le ip v p i n] obtain fv1 xs1 where
    r: "recv_buf le io ip (request_bytes v p i HEART n []) fv = Some ([], fv1)" "registry fv1 xs1"
      "dests xs1 = (dests xs)(ip_array ip \<mapsto> unat i)" by blast
  define out where "out = map (\<lambda>z. (cd_fd (snd z), cd_ip (snd z))) (filter (\<lambda>z. cd_camera_index (snd z) = k) xs1)"
  from client_output_rep [OF r(2), of k] obtain fv2 where "client_output k fv1 = Some (out, fv2)"
    unfolding out_def by blast
  moreover have d: "distinct (map (cd_ip \<circ> snd) xs1)" using r(2) by (simp add: registry_def)
  moreover have "distinct (map snd out)"
    using distinct_map_filter [OF d, of "\<lambda>z. cd_camera_index (snd z) = k"] by (simp add: out_def comp_def)
  moreover have "set (map snd out) = {a. ((dests xs)(ip_array ip \<mapsto> unat i)) a = Some k}"
    unfolding r(3) [symmetric] by (auto simp: out_def dests_eq_Some [OF d])
  ultimately show ?thesis using r by blast
qed

text \<open>A detector without clients, with empty tables, closed cameras and one configuration file.\<close>

definition demo_files :: "string \<Rightarrow> byte list option" where
  "demo_files = [''./cfg/det_param'' \<mapsto> [], ''./cfg/cam_param'' \<mapsto> [], ''./cfg/dev_config'' \<mapsto> []]"

definition demo_fvd :: "(string \<Rightarrow> byte list option) \<Rightarrow> fvd" where
  "demo_fvd files = \<lparr>fv_list = new_list, fv_cam_param = replicate 6 (replicate 164 0), fv_det_param = replicate 6 (replicate 370 0),
     fv_dev_cfg = replicate 219 0, fv_flag = CHANGE_NOTHING, fv_cams = replicate 6 demo_camera, fv_sig = demo_conn SIG_NULL 0,
     fv_files = files\<rparr>"

definition demo_client :: "byte \<Rightarrow> byte list \<times> byte list" where
  "demo_client b = (replicate 16 0, [b])"

definition demo_client_io :: client_io where
  "demo_client_io = \<lparr>co_addr = 100, co_udp = (\<lambda>k. 7), co_open = (\<lambda>k. 0), co_sig = demo_io\<rparr>"

lemma demo_fvd_ok: "registry (demo_fvd files) []" "tables_ok (demo_fvd files)" "io_fresh demo_client_io []"
  using new_list_rep
  by (simp_all add: demo_fvd_def registry_def tables_ok_def ACTIVE_CAM_NUM_def demo_client_io_def io_fresh_def)

lemma demo_boot:
  assumes "files ''./cfg/dev_config'' = Some []"
  shows "boot_safe [0..<ACTIVE_CAM_NUM] (boot_state (demo_fvd files))"
proof -
  have "fv_dev_cfg (boot_state (demo_fvd files)) = replicate 219 0"
    using assms by (simp add: boot_state_def demo_fvd_def load_obj_def cfg_file_name_def load_buf_def)
  moreover have "replicate 219 (0 :: byte) ! camstatus_off j = 0" if "j < ACTIVE_CAM_NUM" for j
    using camstatus_in_cfg [OF that] by simp
  ultimately show ?thesis by (simp add: boot_safe_def)
qed

theorem client_registry_witness:
  "\<exists>fv1 out fv2. recv_buf True demo_client_io (demo_client 49) (request_bytes 1 1 2 HEART 0 []) (demo_fvd demo_files) = Some ([], fv1) \<and>
     client_output 2 fv1 = Some (out, fv2) \<and> set (map snd out) = {49 # replicate 15 0}"
proof -
  have a: "ip_array (demo_client 49) = 49 # replicate 15 0" by (simp add: ip_array_def demo_client_def mem_write_def eval_nat_numeral)
  from client_registry [OF demo_fvd_ok(1,3), where le = True and ip = "demo_client 49" and v = 1 and p = 1 and i = 2 and n = 0 and k = 2]
  obtain fv1 out fv2 where "recv_buf True demo_client_io (demo_client 49) (request_bytes 1 1 2 HEART 0 []) (demo_fvd demo_files) = Some ([], fv1)"
    "client_output 2 fv1 = Some (out, fv2)"
    "set (map snd out) = {x. ((dests [])(ip_array (demo_client 49) \<mapsto> unat (2 :: 16 word))) x = Some 2}" by blast
  moreover have "{x. ((dests [])(ip_array (demo_client 49) \<mapsto> unat (2 :: 16 word))) x = Some 2} = {49 # replicate 15 0}"
    unfolding a by (auto simp: dests_def split: if_splits)
  ultimately show ?thesis by auto
qed

text \<open>C39: a request to end that comes from a client on the list takes it off the list and changes no other entry.
  One from an unknown client puts it on the list, where it stays.  A client is known by the sixteen bytes of the
  array in which \<open>recv_buf\<close> has its address.  \<open>malloc\<close> and the datagram socket are as for a heartbeat.\<close>

theorem client_shutdown:
  assumes "registry fv xs" "io_fresh io xs"
  shows "\<exists>fv' xs'. recv_buf le io ip (request_bytes v p i SHUTDOWN n []) fv = Some ([], fv') \<and> registry fv' xs' \<and>
    dests xs' = (if dests xs (ip_array ip) = None then (dests xs)(ip_array ip \<mapsto> unat i) else (dests xs)(ip_array ip := None))"
proof -
  from shutdown_rep [OF assms, of "ip_array ip" "unat i"] obtain l xs' fv1 where
    s: "register_client io (ip_array ip) (unat i) fv = Some fv1" "del_client fv1 = Some (fv\<lparr>fv_list := l\<rparr>)"
      "registry (fv\<lparr>fv_list := l\<rparr>) xs'"
      "dests xs' = (if dests xs (ip_array ip) = None then (dests xs)(ip_array ip \<mapsto> unat i) else (dests xs)(ip_array ip := None))" by blast
  have "recv_buf le io ip (request_bytes v p i SHUTDOWN n []) fv = Some ([], fv\<lparr>fv_list := l\<rparr>)"
    using s(1,2) by (simp add: recv_request handle_request Let_def cmd_flag_def type_defs)
  with s(3,4) show ?thesis by blast
qed

theorem client_shutdown_witness:
  "\<exists>fv' xs'. recv_buf True demo_client_io (demo_client 49) (request_bytes 1 1 2 SHUTDOWN 0 []) (demo_fvd demo_files) = Some ([], fv') \<and>
     registry fv' xs' \<and> dests xs' (ip_array (demo_client 49)) = Some 2"
proof -
  from client_shutdown [OF demo_fvd_ok(1,3), where le = True and ip = "demo_client 49" and v = 1 and p = 1 and i = 2 and n = 0]
  obtain fv' xs' where "recv_buf True demo_client_io (demo_client 49) (request_bytes 1 1 2 SHUTDOWN 0 []) (demo_fvd demo_files) = Some ([], fv')"
    "registry fv' xs'" "dests xs' = (if dests [] (ip_array (demo_client 49)) = None
      then (dests [])(ip_array (demo_client 49) \<mapsto> unat (2 :: 16 word)) else (dests [])(ip_array (demo_client 49) := None))"
    by blast
  then show ?thesis by (auto simp: dests_def)
qed

text \<open>C37: a request that sets the parameters of a camera, the device configuration or the detection parameters is
  carried out without an access outside of an array or object, when the camera exists and the strings that
  the request makes the code use end and have at most fifteen characters: the address of the signal
  machine in the parameters of the first camera, and for the device configuration the addresses of all its
  cameras with the names and passwords that are stored for them; the addresses stored before must end.
  Longer strings, which the code does not check for, are excluded.  A later query, from any client, is
  answered with the same bytes.  The object has its full length, the tables have the sizes that the code declares, and for the
  registration of the client that asks \<open>malloc\<close> and the datagram socket succeed.\<close>

theorem set_get_roundtrip:
  assumes "cfg_class t" "length obj = get_obj_len t" "tables_ok fv" "unat i < ACTIVE_CAM_NUM"
    and "set_safe t (filled (convert le t obj)) (unat i) fv" "registry fv xs" "io_fresh io2 xs"
  shows "\<exists>fv1 fv2. recv_buf le io ip (request_bytes v p i (set_type t) n obj) fv = Some ([], fv1) \<and>
    recv_buf le io2 ip2 (request_bytes v2 p2 i (get_type t) n2 []) fv1 = Some (request_bytes v2 p2 i (rep_type t) n2 obj, fv2)"
proof -
  from set_accepted [OF assms(1-5)] obtain fv1 where
    fv1: "recv_buf le io ip (request_bytes v p i (set_type t) n obj) fv = Some ([], fv1)" by blast
  note st = set_request [OF assms(1,2) fv1]
  have "registry fv1 xs" using st assms(6) by (simp add: registry_def)
  with get_request [OF assms(1), of i fv1 "convert le t obj" xs io2 le ip2 v2 p2 n2] st assms(2,7) convert_props(2,3) [OF assms(2), of le]
  obtain fv2 where "recv_buf le io2 ip2 (request_bytes v2 p2 i (get_type t) n2 []) fv1 = Some (request_bytes v2 p2 i (rep_type t) n2 obj, fv2)"
    by auto
  with fv1 show ?thesis by blast
qed

text \<open>The detection parameters hold no strings.\<close>

lemma demo_set:
  "cfg_class CLASS_mCamDetectParam" "length (replicate 370 (b :: byte)) = get_obj_len CLASS_mCamDetectParam"
  "unat (2 :: 16 word) < ACTIVE_CAM_NUM" "unat (1 :: 16 word) < ACTIVE_CAM_NUM" "set_safe CLASS_mCamDetectParam o' k fv"
  by (simp_all add: cfg_class_def ACTIVE_CAM_NUM_def set_safe_def)

theorem set_get_roundtrip_witness:
  "\<exists>fv1 fv2. recv_buf True demo_client_io (demo_client 49) (request_bytes 1 1 2 SETCHECHPARAM 0 (replicate 370 7)) (demo_fvd demo_files) = Some ([], fv1) \<and>
     recv_buf True demo_client_io (demo_client 50) (request_bytes 1 1 2 GETCHECHPARAM 0 []) fv1 =
       Some (request_bytes 1 1 2 REPCHECHPARAM 0 (replicate 370 7), fv2)"
  using set_get_roundtrip [OF demo_set(1,2) demo_fvd_ok(2) demo_set(3,5) demo_fvd_ok(1,3), where le = True and v = 1 and p = 1
      and n = 0 and io = demo_client_io and ip = "demo_client 49" and ?ip2.0 = "demo_client 50" and ?v2.0 = 1 and ?p2.0 = 1 and ?n2.0 = 0]
  by (simp add: set_type_def get_type_def rep_type_def)

text \<open>C38: objects that were set survive a restart, when the configuration files exist: after any sequence of requests
  that set objects and were carried out, a detector that starts with the files as the requests left them
  opens its cameras and answers a query for an object with the bytes that were set last for it;
  objects of other cameras and other classes do not disturb it.  The start assumes of the configuration that
  it loads (from the files, and from the tables where a file is too short) that the address, the name
  and the password of every camera it enables end and have at most fifteen characters; the code copies longer
  ones, which a client can set, beyond their arrays.  Objects have their full lengths, the query names a camera that
  exists, and for the registration of the client that asks \<open>malloc\<close> and the datagram socket succeed.\<close>

theorem config_survives_restart:
  assumes "run_sets le rs fv = Some fv1" "\<forall>r \<in> set rs. set_ok r" "files_exist (fv_files fv)"
    and "objs_set rs Map.empty (slot t (unat i)) = Some obj" "unat i < ACTIVE_CAM_NUM"
    and "fv_files fv2 = fv_files fv1" "tables_ok fv2" "boot_safe [0..<ACTIVE_CAM_NUM] (boot_state fv2)" "io_fresh io3 []"
  shows "\<exists>fv3 fv4. init_config le io2 fv2 = Some fv3 \<and>
    recv_buf le io3 ip3 (request_bytes v3 p3 i (get_type t) n3 []) fv3 = Some (request_bytes v3 p3 i (rep_type t) n3 obj, fv4)"
proof -
  from init_config_Some [OF assms(8,7)] obtain fv3 where fv3: "init_config le io2 fv2 = Some fv3" by blast
  have "files_hold le (objs_set rs Map.empty) (fv_files fv1)"
    using run_sets_files [OF assms(1,2) _ assms(3), of Map.empty] by (simp add: files_hold_def)
  with assms(4,6) have h: "cfg_class t" "length obj = get_obj_len t" "in_file t (unat i) (convert le t obj) (fv_files fv2)"
    by (auto simp: files_hold_def)
  note ld = init_config_loaded [OF fv3 assms(7) h(1) assms(5) h(3) convert_props(2) [OF h(2)]]
  with get_request [OF h(1), of i fv3 "convert le t obj" "[]" io3 le ip3 v3 p3 n3] assms(9) convert_props(2,3) [OF h(2), of le]
  obtain fv4 where "recv_buf le io3 ip3 (request_bytes v3 p3 i (get_type t) n3 []) fv3 = Some (request_bytes v3 p3 i (rep_type t) n3 obj, fv4)"
    by auto
  with fv3 show ?thesis by blast
qed

theorem config_survives_restart_witness:
  "\<exists>fv1 fv3 fv4. run_sets True [(demo_client_io, demo_client 49, CLASS_mCamDetectParam, 2, replicate 370 7),
       (demo_client_io, demo_client 49, CLASS_mCamDetectParam, 1, replicate 370 8)] (demo_fvd demo_files) = Some fv1 \<and>
     init_config True demo_client_io (demo_fvd (fv_files fv1)) = Some fv3 \<and>
     recv_buf True demo_client_io (demo_client 50) (request_bytes 1 2 2 GETCHECHPARAM 0 []) fv3 =
       Some (request_bytes 1 2 2 REPCHECHPARAM 0 (replicate 370 7), fv4)"
proof -
  let ?t = CLASS_mCamDetectParam
  let ?rs = "[(demo_client_io, demo_client 49, ?t, 2, replicate 370 7), (demo_client_io, demo_client 49, ?t, 1, replicate 370 8)]"
  have ty: "set_type ?t = SETCHECHPARAM" "get_type ?t = GETCHECHPARAM" "rep_type ?t = REPCHECHPARAM"
    by (simp_all add: set_type_def get_type_def rep_type_def)
  from set_accepted [OF demo_set(1) demo_set(2) [of 7] demo_fvd_ok(2) [of demo_files] demo_set(3,5), where le = True and io = demo_client_io and ip = "demo_client 49" and v = 1 and p = 2
      and n = "of_nat (length (replicate 370 (7 :: byte)))"]
  obtain fv0 where fv0: "recv_buf True demo_client_io (demo_client 49) (request_bytes 1 2 2 (set_type ?t) (of_nat (length (replicate 370 (7 :: byte)))) (replicate 370 7)) (demo_fvd demo_files) = Some ([], fv0)"
    by auto
  note t0 = set_tables [OF demo_set(1,2) demo_fvd_ok(2) fv0] set_request [OF demo_set(1,2) fv0]
  from set_accepted [OF demo_set(1) demo_set(2) [of 8] _ demo_set(4,5), where fv = fv0 and le = True and io = demo_client_io and ip = "demo_client 49" and v = 1 and p = 2
      and n = "of_nat (length (replicate 370 (8 :: byte)))"] t0
  obtain fv1 where fv1: "recv_buf True demo_client_io (demo_client 49) (request_bytes 1 2 1 (set_type ?t) (of_nat (length (replicate 370 (8 :: byte)))) (replicate 370 8)) fv0 = Some ([], fv1)"
    by auto
  have run: "run_sets True ?rs (demo_fvd demo_files) = Some fv1" using fv0 fv1 by simp
  have "fv_files fv1 ''./cfg/dev_config'' = Some []"
    using set_request [OF demo_set(1,2) fv1] t0
    by (simp add: save_buf_def demo_fvd_def demo_files_def cfg_file_name_def Let_def)
  then have boot: "boot_safe [0..<ACTIVE_CAM_NUM] (boot_state (demo_fvd (fv_files fv1)))" by (rule demo_boot)
  have files: "files_exist (fv_files (demo_fvd demo_files))" "fv_files (demo_fvd (fv_files fv1)) = fv_files fv1"
    by (simp_all add: demo_fvd_def demo_files_def cfg_file_name_def files_exist_def)
  have ok: "\<forall>r \<in> set ?rs. set_ok r" by (simp add: set_ok_def cfg_class_def)
  have sl: "objs_set ?rs Map.empty (slot ?t (unat (2 :: 16 word))) = Some (replicate 370 7)" by (simp add: slot_def)
  from config_survives_restart [OF run ok files(1) sl demo_set(3) files(2) demo_fvd_ok(2) boot demo_fvd_ok(3)]
  show ?thesis using run unfolding ty by blast
qed

end
