(* ===== verification/Fvd_System.thy ===== *)
theory Fvd_System
  imports Fvd_Client
begin

text \<open>
  What the service for the signal machine reads of the configuration that clients set: the accessors of
  \<^verbatim>\<open>src/fvd-new/client_net.c\<close> and \<open>get_cam_running_state\<close> of \<^verbatim>\<open>camera_service.c\<close>, and the cameras as the reports
  see them.  An access outside of a table is \<^term>\<open>None\<close>.
\<close>

section \<open>Accessors\<close>

definition camdirect_off :: "nat \<Rightarrow> nat" where "camdirect_off i = 76 + 18 * i"
definition camID_off :: nat where "camID_off = 2"
definition lanenum_off :: nat where "lanenum_off = 16"

definition byte_at :: "nat \<Rightarrow> byte list \<Rightarrow> byte option" where
  "byte_at p m = (if p < length m then Some (m ! p) else None)"

definition get_mCamDetectParam :: "nat \<Rightarrow> fvd \<Rightarrow> byte list option" where
  "get_mCamDetectParam index fv = (if index < length (fv_det_param fv) then Some (fv_det_param fv ! index) else None)"

definition get_cam_status :: "nat \<Rightarrow> fvd \<Rightarrow> byte option" where
  "get_cam_status index fv = byte_at (camstatus_off index) (fv_dev_cfg fv)"

definition get_cam_id :: "bool \<Rightarrow> nat \<Rightarrow> fvd \<Rightarrow> 32 word option" where
  "get_cam_id le index fv = map_option (host_read_u32 le camID_off) (get_mCamParam index fv)"

definition get_cam_direction :: "nat \<Rightarrow> fvd \<Rightarrow> byte option" where
  "get_cam_direction index fv = byte_at (camdirect_off index) (fv_dev_cfg fv)"

definition get_dev_id :: "bool \<Rightarrow> fvd \<Rightarrow> 32 word" where
  "get_dev_id le fv = host_read_u32 le 0 (fv_dev_cfg fv)"

definition get_sig_port :: "bool \<Rightarrow> fvd \<Rightarrow> 32 word option" where
  "get_sig_port le fv = map_option (host_read_u32 le signalport_off) (get_mCamParam 0 fv)"

definition get_lane_num :: "nat \<Rightarrow> fvd \<Rightarrow> byte option" where
  "get_lane_num index fv = (case get_mCamDetectParam index fv of None \<Rightarrow> None | Some d \<Rightarrow> byte_at lanenum_off d)"

definition get_cam_running_state :: "nat \<Rightarrow> fvd \<Rightarrow> cam_state option" where
  "get_cam_running_state index fv = (if index < length (fv_cams fv) then Some (ci_running (fv_cams fv ! index)) else None)"

section \<open>The cameras of the reports\<close>

text \<open>The part of \<open>holder\<close> that the detection writes.\<close>

record holder =
  ho_status :: byte
  ho_each_status :: byte
  ho_channels :: "byte list list"
  ho_lane_num :: byte
  ho_state_change :: bool

definition state_value :: "cam_state \<Rightarrow> nat" where
  "state_value s = (case s of CAM_RUNNING \<Rightarrow> 0 | CAM_STOPED \<Rightarrow> 1)"

definition sig_cam_of :: "bool \<Rightarrow> fvd \<Rightarrow> nat \<Rightarrow> holder \<Rightarrow> sig_cam option" where
  "sig_cam_of le fv i h =
     (case get_cam_status i fv of None \<Rightarrow> None | Some st \<Rightarrow>
      case get_cam_id le i fv of None \<Rightarrow> None | Some cid \<Rightarrow>
      case get_cam_direction i fv of None \<Rightarrow> None | Some d \<Rightarrow>
      case get_lane_num i fv of None \<Rightarrow> None | Some n \<Rightarrow>
      case get_cam_running_state i fv of None \<Rightarrow> None | Some r \<Rightarrow>
        Some \<lparr>sc_camstatus = st, sc_cam_id = cid, sc_direction = d, sc_cfg_lanes = n, sc_running_state = state_value r,
           sc_status = ho_status h, sc_each_status = ho_each_status h, sc_channels = ho_channels h,
           sc_lane_num = ho_lane_num h, sc_state_change = ho_state_change h\<rparr>)"

fun sig_cams_from :: "bool \<Rightarrow> fvd \<Rightarrow> nat \<Rightarrow> holder list \<Rightarrow> sig_cam list option" where
  "sig_cams_from le fv i [] = Some []"
| "sig_cams_from le fv i (h # hs) =
     (case sig_cam_of le fv i h of None \<Rightarrow> None | Some c \<Rightarrow> map_option (\<lambda>cs. c # cs) (sig_cams_from le fv (Suc i) hs))"

text \<open>The two reports as the timers of the service call them, on the configuration in use.\<close>

definition report_traffic ::
  "bool \<Rightarrow> (nat \<Rightarrow> byte list \<Rightarrow> int) \<Rightarrow> holder list \<Rightarrow> fvd \<Rightarrow> (int \<times> byte list list \<times> sig_cam list) option" where
  "report_traffic le send hs fv =
     (case sig_cams_from le fv 0 hs of None \<Rightarrow> None | Some cams \<Rightarrow> ReportedRealStatic send (get_dev_id le fv) cams)"

section \<open>Lemmas\<close>

lemma sig_cam_of_Some:
  assumes "tables_ok fv" "i < ACTIVE_CAM_NUM"
  shows "\<exists>c. sig_cam_of le fv i h = Some c \<and> sc_camstatus c = fv_dev_cfg fv ! camstatus_off i \<and>
    sc_cam_id c = host_read_u32 le camID_off (fv_cam_param fv ! i) \<and>
    sc_direction c = fv_dev_cfg fv ! camdirect_off i \<and> sc_cfg_lanes c = fv_det_param fv ! i ! lanenum_off \<and>
    sc_running_state c = state_value (ci_running (fv_cams fv ! i)) \<and> sc_channels c = ho_channels h"
proof -
  have "i < 6" using assms(2) by (simp add: ACTIVE_CAM_NUM_def)
  then have "camstatus_off i < 219" "camdirect_off i < 219" "lanenum_off < length (fv_det_param fv ! i)"
    using assms by (auto simp: camstatus_off_def camdirect_off_def lanenum_off_def tables_ok_def)
  with assms show ?thesis
    by (simp add: sig_cam_of_def get_cam_status_def get_cam_id_def get_cam_direction_def get_lane_num_def
        get_mCamParam_def get_mCamDetectParam_def get_cam_running_state_def byte_at_def tables_ok_def)
qed

lemma sig_cams_from_Some:
  "tables_ok fv \<Longrightarrow> i + length hs \<le> ACTIVE_CAM_NUM \<Longrightarrow>
    \<exists>cs. sig_cams_from le fv i hs = Some cs \<and> length cs = length hs \<and>
      (\<forall>j < length hs. sig_cam_of le fv (i + j) (hs ! j) = Some (cs ! j))"
proof (induction hs arbitrary: i)
  case (Cons h hs)
  then obtain c where c: "sig_cam_of le fv i h = Some c" using sig_cam_of_Some [of fv i le h] by auto
  from Cons.IH [of "Suc i"] Cons.prems obtain cs where
    cs: "sig_cams_from le fv (Suc i) hs = Some cs" "length cs = length hs"
      "\<forall>j < length hs. sig_cam_of le fv (Suc i + j) (hs ! j) = Some (cs ! j)" by auto
  with c show ?case by (auto simp: nth_Cons split: nat.split)
qed simp

text \<open>A device configuration in host order: the number of the device is converted, the cameras are not.\<close>

lemma device_fields: "obj_fields CLASS_mDetectDeviceConfig = [(0, 4), (4, 4)]"
  by (simp add: obj_fields.simps is_base_def shift_fields_def)

lemma read_host_order: "length bs = 4 \<Longrightarrow> take 4 (drop p m) = host_order le bs \<Longrightarrow> host_read_u32 le p m = peek_u32 bs"
  by (simp add: host_read_u32_def host_order_def)

lemma convert_device:
  assumes "length obj = get_obj_len CLASS_mDetectDeviceConfig"
  shows "host_read_u32 le 0 (convert le CLASS_mDetectDeviceConfig obj) = peek_u32 obj"
    "8 \<le> j \<Longrightarrow> j < get_obj_len CLASS_mDetectDeviceConfig \<Longrightarrow> convert le CLASS_mDetectDeviceConfig obj ! j = obj ! j"
proof -
  let ?t = CLASS_mDetectDeviceConfig
  have im: "in_mem (obj_fields ?t) obj" using obj_in_mem [of 0 ?t obj] assms by (simp add: shift_zero)
  have "swap_fields le (obj_fields ?t) obj = Some (convert le ?t obj)"
    using convert_props(1) [OF assms, of le True] by (simp add: net_decode_fields shift_zero)
  note n = swap_fields_nth [OF im this]
  have "take 4 (drop 0 (convert le ?t obj)) = host_order le (take 4 obj)" using n by (auto simp: device_fields)
  from read_host_order [OF _ this] assms show "host_read_u32 le 0 (convert le ?t obj) = peek_u32 obj" by simp
  show "8 \<le> j \<Longrightarrow> j < get_obj_len ?t \<Longrightarrow> convert le ?t obj ! j = obj ! j"
    using n assms by (auto simp: device_fields)
qed

end
