(* ===== verification/Spec2Isabelle.thy ===== *)
theory Spec2Isabelle
  imports Sshbuf_Heap Addrmatch Receive Handshake Bitmap Chan_Flow Auth_Spec Fvd_System
begin

text \<open>
  This development verifies two programs of the repository: the core data structures, the transport,
  the key exchange, the channels and the user authentication of the secure shell package in \<^verbatim>\<open>src/openssh-7.2p2\<close>, and the traffic video detector in
  \<^verbatim>\<open>src/fvd-new\<close>.  The other directories hold a daemon of a third party, a user interface, C++ programs and a
  tool around raw sockets; they are listed at the end.

  \<^bold>\<open>How C is read.\<close>  A structure is a record with the members the code uses, an enumeration a datatype, a
  buffer a list of bytes (words of length 8) and a C string the list of the characters before its
  terminator.  Integers have their width as words where they can wrap or are sent; sizes and indices that
  are bounded before they are used are natural numbers.  A function that returns an error code returns a
  sum with the error on the left (\<open>rc\<close>); a read or write outside of an array, of a released block or through
  a null pointer is the result \<open>None\<close>, so a theorem that gives \<open>Some\<close> says that the code makes no such access.
  Loops are recursive functions; those that end only for well-formed data are partial functions whose
  result \<open>None\<close> covers that they do not end, and the lemmas prove that they do.  No definition counts fuel.
  What other libraries and the kernel return (allocation, sockets, time, digests, \<open>getaddrinfo\<close>, the camera
  library) is an argument.  A function that holds a lock is one step; threads are sequences of steps.

  \<^bold>\<open>Prelude.\<close>  \<open>SSH_Base\<close> has bytes, the access macros for numbers in network order, memory writes, and the
  locale \<open>simulation\<close> (a state with an invariant and an abstraction whose steps agree with an abstract step),
  which the buffers and the bit sets interpret.  \<open>C_String\<close> has the functions of the C library on strings.

  \<^bold>\<open>Secure shell.\<close>
  \<^item> \<open>Sshbuf\<close> (\<^verbatim>\<open>sshbuf.c\<close>) and \<open>Sshbuf_Getput\<close> (\<^verbatim>\<open>sshbuf-getput-basic.c\<close>) model the growable buffer with its limit,
    packing and reallocation, and the typed accessors; the locale \<open>wire_codec\<close> states what a put followed by a
    get promises.  \<open>Sshbuf_Spec\<close> shows that a buffer refines a queue of bytes with a limit, that sequences of
    fields are read back as written, and the behaviour of each operation on every error.  \<open>Sshbuf_Heap\<close> puts
    buffers on a heap with reference counts: buffers made and freed in any order never dangle and are all
    released, unless a child has children of its own.
  \<^item> \<open>Match\<close> (\<^verbatim>\<open>match.c\<close>) and \<open>Addrmatch\<close> (\<^verbatim>\<open>addrmatch.c\<close>): patterns are equivalent to a declarative notion of matching,
    negation in lists has priority, and a network in CIDR notation contains exactly the addresses with its
    prefix.
  \<^item> \<open>Compat\<close> (\<^verbatim>\<open>compat.c\<close>), \<open>Algs\<close> (tables of \<^verbatim>\<open>digest-openssl.c\<close>, \<^verbatim>\<open>cipher.c\<close>, \<^verbatim>\<open>mac.c\<close>, \<^verbatim>\<open>sshkey.c\<close>, \<^verbatim>\<open>kex.c\<close>) and
    \<open>Kex\<close> (\<^verbatim>\<open>kex.c\<close>): client and server that exchange proposals choose the same algorithms, or both fail; the keys
    they derive agree per direction and follow RFC 4253.
  \<^item> \<open>Cipher\<close> (\<^verbatim>\<open>cipher.c\<close>, \<^verbatim>\<open>cipher-chachapoly.c\<close>, \<^verbatim>\<open>mac.c\<close>): the use of ciphers and MACs over the primitives of the record
    \<open>crypto\<close>; decrypting undoes encrypting for every kind of cipher.
  \<^item> \<open>Packet\<close> (\<^verbatim>\<open>packet.c\<close>, and \<^verbatim>\<open>kex.c\<close> where it sends the first message of a key exchange) models the transport of
    protocol 2 with the state \<open>ssh\<close>: compression, padding, encryption and MAC of a packet, the queue around a key
    exchange, the installation of keys, and the reassembly and verification of incoming packets.  \<open>Transport\<close> shows
    that packets sent by one end are delivered by the other in order, for every cipher and however the bytes are cut
    into pieces; \<open>linked\<close> is what the two ends have in common between two packets.  \<open>Rekey\<close> shows that both ends
    change keys at the same place of the stream and that packets sent meanwhile follow the new keys in order.
    \<open>Packet_Frame\<close> has locales for the parts of the state that an operation does not write and concludes that sending
    leaves the receiving side alone.  \<open>Receive\<close> takes the view of a receiver whose peer sends anything: only packets
    with a right MAC are delivered, discarding ends after a number of bytes that differs by one block between a bad length and
    a bad MAC, and the loop over messages of the transport terminates.
  \<^item> \<open>Kex_Proto\<close> (\<^verbatim>\<open>kex.c\<close>, \<^verbatim>\<open>kexc25519.c\<close>, \<^verbatim>\<open>kexc25519c.c\<close>, \<^verbatim>\<open>kexc25519s.c\<close>, \<^verbatim>\<open>dispatch.c\<close>) models the handlers of a key
    exchange on a connection \<open>conn\<close>, which adds to \<open>ssh\<close> the table of handlers and the key pair of the client; the
    record \<open>kex_env\<close> has host keys, digests and the curve.  \<open>Handshake\<close> shows what a client has checked when it goes on,
    that the hash covers the fields of RFC 4253, and that an honest run gives both sides the same keys.
  \<^item> \<open>Nchan\<close> (\<^verbatim>\<open>nchan.c\<close>): the closing of a channel as a state machine, for both versions of the protocol: each
    message is sent at most once and in order, and a channel that both sides close becomes dead, once extended data
    is gone where that is waited for.
  \<^item> \<open>Opacket\<close> (\<^verbatim>\<open>buffer.c\<close>, \<^verbatim>\<open>bufaux.c\<close>, \<^verbatim>\<open>opacket.c\<close>) has the old calls on buffers and on the packet being read, which end the process
    where the calls they wrap return an error; channels and authentication use them.
  \<^item> \<open>Channels\<close> (\<^verbatim>\<open>channels.c\<close>) adds to the channel of \<open>Nchan\<close> its buffers' traffic and its windows (record \<open>chan\<close>): reading and
    writing of descriptors, the messages of a channel, the table, opening and garbage collection.  \<open>Chan_Flow\<close> puts two
    ends together with the messages on the way between them (\<open>chan_sys\<close>): the bytes read at one end are those written at
    the other, in order; windows never disagree to the harm of data; flow control cannot block a channel on which only data and
    window adjustments are under way (the conditions are in \<open>flowing\<close>).  A datagram
    channel and extended data for a closed descriptor do lose window, as lemmas show.
  \<^item> \<open>Auth2\<close> (\<^verbatim>\<open>auth2.c\<close>, the methods \<^verbatim>\<open>auth2-none.c\<close>, \<^verbatim>\<open>auth2-passwd.c\<close>, \<^verbatim>\<open>auth2-pubkey.c\<close>, \<^verbatim>\<open>auth2-hostbased.c\<close>, \<^verbatim>\<open>auth2-kbdint.c\<close>, and
    \<^verbatim>\<open>auth2-chall.c\<close>) models the authentication of a user by the server: the state \<open>authctxt\<close>, the handlers of requests and of answers
    to questions, and the step relation \<open>auth_run\<close> of \<open>do_authentication2\<close>, in which the client sends any packets.  The accounts, the
    permitted keys, the signatures and the devices answer through \<open>auth_env\<close> and \<open>auth_io\<close>.  In \<open>Auth_Spec\<close> the locale \<open>userauth_method\<close> is what
    the handler relies on in a method, interpreted for each; the theory shows that whoever is let in
    has an account that may log in and has passed the methods of a configured list in its order, root only as configured (with a forced
    command where one is required), that a public key counts only with a signature over
    the session, the user, the service and the key, in the forms that old clients use too, that every refusal but that of a first
    request for none is counted and the count stays below the limit, and that no device is asked twice in a request.  Lemmas show three odd corners: a submethod of a method without submethods can never be passed, and
    the signature of a host leaves out the style of the user and need not end the packet.
  \<^item> \<open>Bitmap\<close> (\<^verbatim>\<open>bitmap.c\<close>) refines sets of numbers and is read back from its serialised form.

  \<^bold>\<open>Video detector.\<close>  Clients on the network read and set the configuration, register for results, and shut
  down; the detector opens cameras as configured, watches them, and reports to a traffic signal machine.
  \<^item> \<open>Fvd_List\<close> (\<^verbatim>\<open>common.c\<close>): the doubly linked list on a heap of nodes represents a sequence; the locale \<open>node_list\<close>
    is the contract that the registry of clients uses.
  \<^item> \<open>Fvd_Obj\<close> (\<^verbatim>\<open>client_obj.c\<close>): the conversion of configuration objects touches exactly the numbers of their
    layout and undoes itself.
  \<^item> \<open>Fvd_Camera\<close> (\<^verbatim>\<open>camera_service.c\<close>): resources of a camera are opened and closed in pairs and an open camera is connected, also when
    frames, timers and commands come between the statements of an opening or closing; the watchdog reconnects a camera that
    delivers nothing.
  \<^item> \<open>Fvd_Frame\<close> and \<open>Fvd_Sig\<close> (\<^verbatim>\<open>sig_service.c\<close>): frames are escaped, checked and read back; the reports of cameras with at most
    four lanes fit their array of 100 bytes; the connection is closed before it is replaced and comes back after a failure.  A
    failed report of a reboot closes the socket and leaves the state connected, which the steps keep apart.
  \<^item> \<open>Fvd_Client\<close> (\<^verbatim>\<open>client_net.c\<close>, \<^verbatim>\<open>client_file.c\<close>, \<^verbatim>\<open>file_op.c\<close>, \<^verbatim>\<open>tcp_server.c\<close>) composes list, objects, cameras and signal
    service into the handler of requests: the registry is a map from the sixteen bytes kept of a client to cameras, a
    configuration that is set is read back by every client, also after a restart.
  \<^item> \<open>Fvd_System\<close> has the accessors through which the signal service reads the configuration; this theory
    connects the two ends: what a client configures is what the next report sends.

  \<^bold>\<open>Bounds.\<close>  A request is at most 1000 bytes, the size of the array of \<open>recv_buf\<close>, and every object fits into the 990
  bytes behind the header.  The detector has six cameras of at most four lanes; more lanes overrun the
  report, which a lemma of \<open>Fvd_Sig\<close> shows.  The addresses, names and passwords that a camera or the signal machine
  is opened with have at most fifteen characters: the code copies them into arrays of sixteen bytes without a check, and
  longer ones are \<open>None\<close>; the theorems about configuration assume the bound.

  \<^bold>\<open>Not modelled.\<close>  Of the secure shell: packets of protocol 1, listeners and forwardings, event loops, GSSAPI, the files of permitted keys,
  privilege separation, the programs, key files, and the cryptographic primitives; of the key exchange the methods other
  than Curve25519.  Of the detector: the image processing, decoding and display, which call closed or
  foreign libraries, the accepting of connections, the timers themselves, and the statistics of traffic
  over a minute.  Not at all: the FTP daemon, the address tools, the sticky notes window and the C++
  servers.
\<close>

section \<open>From the client to the signal machine\<close>

lemma filter_index: "filter P cs = map (\<lambda>i. cs ! i) (filter (\<lambda>i. P (cs ! i)) [0..<length cs])"
  by (subst (1) map_nth [symmetric]) (simp add: filter_map comp_def)

text \<open>What the detection fills in for every camera: four lanes of ten bytes.\<close>

definition holders_ok :: "holder list \<Rightarrow> bool" where
  "holders_ok hs \<longleftrightarrow> length hs = ACTIVE_CAM_NUM \<and>
     (\<forall>h \<in> set hs. length (ho_channels h) = CHANNELMAXNUM \<and> (\<forall>p \<in> set (ho_channels h). length p = 10))"

definition lanes_ok :: "fvd \<Rightarrow> bool" where
  "lanes_ok fv \<longleftrightarrow> (\<forall>d \<in> set (fv_det_param fv). unat (d ! lanenum_off) \<le> CHANNELMAXNUM)"

lemma report_traffic_frames:
  assumes "tables_ok fv" "holders_ok hs" "lanes_ok fv" "\<forall>k f. send k f > 0"
  shows "\<exists>cams r cams'. sig_cams_from le fv 0 hs = Some cams \<and> length cams = ACTIVE_CAM_NUM \<and>
    (\<forall>i < ACTIVE_CAM_NUM. sc_camstatus (cams ! i) = fv_dev_cfg fv ! camstatus_off i \<and>
       sc_cfg_lanes (cams ! i) = fv_det_param fv ! i ! lanenum_off \<and> sc_channels (cams ! i) = ho_channels (hs ! i)) \<and>
    report_traffic le send hs fv = Some (r, map (\<lambda>i. frame_of (traffic_payload (get_dev_id le fv) (cams ! i)))
      (filter (\<lambda>i. fv_dev_cfg fv ! camstatus_off i \<noteq> 0) [0..<ACTIVE_CAM_NUM]), cams')"
proof -
  from sig_cams_from_Some [OF assms(1), of 0 hs le] assms(2) obtain cams where
    c: "sig_cams_from le fv 0 hs = Some cams" "length cams = ACTIVE_CAM_NUM"
      "\<forall>j < ACTIVE_CAM_NUM. sig_cam_of le fv j (hs ! j) = Some (cams ! j)" by (auto simp: holders_ok_def)
  have f: "sc_camstatus (cams ! i) = fv_dev_cfg fv ! camstatus_off i" "sc_cfg_lanes (cams ! i) = fv_det_param fv ! i ! lanenum_off"
    "sc_channels (cams ! i) = ho_channels (hs ! i)" if "i < ACTIVE_CAM_NUM" for i
    using sig_cam_of_Some [OF assms(1) that, of le "hs ! i"] c(3) that by auto
  have "cam_ok (cams ! i)" if "i < ACTIVE_CAM_NUM" for i
  proof -
    have "fv_det_param fv ! i \<in> set (fv_det_param fv)" "hs ! i \<in> set hs"
      using assms(1,2) that by (simp_all add: tables_ok_def holders_ok_def)
    with assms(2,3) f [OF that] show ?thesis by (auto simp: cam_ok_def holders_ok_def lanes_ok_def)
  qed
  then have "\<forall>c \<in> set cams. cam_ok c" using c(2) by (auto simp: in_set_conv_nth)
  from real_static_loop_eq [OF header_buff_ok this assms(4), of "get_dev_id le fv" "-1" 0] obtain r cams' where
    "ReportedRealStatic send (get_dev_id le fv) cams = Some (r, map (\<lambda>c. frame_of (traffic_payload (get_dev_id le fv) c))
       (filter (\<lambda>c. sc_camstatus c \<noteq> 0) cams), cams')" unfolding ReportedRealStatic_def by blast
  moreover have "filter (\<lambda>c. sc_camstatus c \<noteq> 0) cams =
      map (\<lambda>i. cams ! i) (filter (\<lambda>i. fv_dev_cfg fv ! camstatus_off i \<noteq> 0) [0..<ACTIVE_CAM_NUM])"
    unfolding filter_index [of "\<lambda>c. sc_camstatus c \<noteq> 0" cams] c(2)
    using f by (intro arg_cong [where f = "map ((!) cams)"] filter_cong) auto
  ultimately show ?thesis using c(1,2) f by (auto simp: report_traffic_def comp_def)
qed

text \<open>A frame has only the low four bits of the number of the device.\<close>

lemma traffic_payload_low: "traffic_payload dev c = traffic_payload (take_bit 4 dev) c"
proof -
  have m: "(15 :: byte) = mask 4" by (simp add: mask_eq_exp_minus_1)
  have "device_byte dev 1 = device_byte (take_bit 4 dev) 1"
    unfolding device_byte_def m by (rule bit_word_eqI) (auto simp: bit_simps)
  then show ?thesis by (simp add: traffic_payload_def frame_header_def)
qed

text \<open>C40: when a client sets the device configuration, the next traffic report to the signal machine consists of one
  frame for each camera that the configuration enables, in the order of the cameras and with the low four
  bits of the number of the device that the client sent; each frame carries the lanes that the detection
  parameters of the camera name.  Assumed are a request with a whole object for a camera that exists, tables of the sizes the code declares, addresses
  in the configuration and stored names and passwords that end and have at most fifteen characters (the addresses stored before
  must end), at most four lanes in the detection parameters of every camera (the code does
  not check the number), four lanes of ten bytes from the detection of each of the six cameras, and that
  every send of the report succeeds.\<close>

theorem device_config_reported:
  assumes "tables_ok fv" "length obj = get_obj_len CLASS_mDetectDeviceConfig" "unat i < ACTIVE_CAM_NUM"
    and "set_safe CLASS_mDetectDeviceConfig (filled (convert le CLASS_mDetectDeviceConfig obj)) (unat i) fv"
    and "holders_ok hs" "lanes_ok fv" "\<forall>k f. send k f > 0"
  shows "\<exists>fv1 cams r cams'. recv_buf le io ip (request_bytes v p i SETDETECTDEVICE n obj) fv = Some ([], fv1) \<and>
    sig_cams_from le fv1 0 hs = Some cams \<and> length cams = ACTIVE_CAM_NUM \<and>
    (\<forall>j < ACTIVE_CAM_NUM. sc_camstatus (cams ! j) = obj ! camstatus_off j \<and>
       sc_cfg_lanes (cams ! j) = fv_det_param fv ! j ! lanenum_off \<and> sc_channels (cams ! j) = ho_channels (hs ! j)) \<and>
    report_traffic le send hs fv1 = Some (r, map (\<lambda>j. frame_of (traffic_payload (take_bit 4 (peek_u32 obj)) (cams ! j)))
      (filter (\<lambda>j. obj ! camstatus_off j \<noteq> 0) [0..<ACTIVE_CAM_NUM]), cams')"
proof -
  let ?t = CLASS_mDetectDeviceConfig
  have t: "cfg_class ?t" "set_type ?t = SETDETECTDEVICE" by (simp_all add: cfg_class_def set_type_def)
  from set_accepted [OF t(1) assms(2,1,3,4), of io ip v p n] obtain fv1 where
    fv1: "recv_buf le io ip (request_bytes v p i (set_type ?t) n obj) fv = Some ([], fv1)" by blast
  have dev: "fv_dev_cfg fv1 = convert le ?t obj" using set_request [OF t(1) assms(2) fv1] by (simp add: cfg_obj_def)
  from set_tables [OF t(1) assms(2,1) fv1] have tb: "tables_ok fv1" "fv_det_param fv1 = fv_det_param fv" by simp_all
  have st: "fv_dev_cfg fv1 ! camstatus_off j = obj ! camstatus_off j" if "j < ACTIVE_CAM_NUM" for j
    using convert_device(2) [OF assms(2), of "camstatus_off j" le] camstatus_in_cfg [OF that] dev by (simp add: camstatus_off_def)
  have num: "get_dev_id le fv1 = peek_u32 obj" using convert_device(1) [OF assms(2)] dev by (simp add: get_dev_id_def)
  have fl: "filter (\<lambda>j. fv_dev_cfg fv1 ! camstatus_off j \<noteq> 0) [0..<ACTIVE_CAM_NUM] =
      filter (\<lambda>j. obj ! camstatus_off j \<noteq> 0) [0..<ACTIVE_CAM_NUM]" using st by (auto intro: filter_cong)
  have "lanes_ok fv1" using assms(6) tb(2) by (simp add: lanes_ok_def)
  from report_traffic_frames [OF tb(1) assms(5) this assms(7), of le] obtain cams r cams' where
    "sig_cams_from le fv1 0 hs = Some cams" "length cams = ACTIVE_CAM_NUM"
    "\<forall>j < ACTIVE_CAM_NUM. sc_camstatus (cams ! j) = fv_dev_cfg fv1 ! camstatus_off j \<and>
       sc_cfg_lanes (cams ! j) = fv_det_param fv1 ! j ! lanenum_off \<and> sc_channels (cams ! j) = ho_channels (hs ! j)"
    "report_traffic le send hs fv1 = Some (r, map (\<lambda>i. frame_of (traffic_payload (get_dev_id le fv1) (cams ! i)))
      (filter (\<lambda>i. fv_dev_cfg fv1 ! camstatus_off i \<noteq> 0) [0..<ACTIVE_CAM_NUM]), cams')" by blast
  with fv1 t(2) st show ?thesis unfolding num fl tb(2) traffic_payload_low [of "peek_u32 obj"] by auto
qed

definition demo_holder :: holder where
  "demo_holder = \<lparr>ho_status = 1, ho_each_status = 0, ho_channels = replicate 4 (replicate 10 0), ho_lane_num = 0, ho_state_change = False\<rparr>"

text \<open>Device 9 with the second camera enabled.\<close>

definition demo_device :: "byte list" where
  "demo_device = [0, 0, 0, 9] @ replicate 89 0 @ [1] @ replicate 125 0"

lemma zero_str: "p < length m \<Longrightarrow> m ! p = 0 \<Longrightarrow> str_at p m = Some []"
  by (simp add: str_at_def c_str_def Cons_nth_drop_Suc [symmetric])

lemma demo_device_ok:
  "length demo_device = get_obj_len CLASS_mDetectDeviceConfig"
  "set_safe CLASS_mDetectDeviceConfig (filled (convert False CLASS_mDetectDeviceConfig demo_device)) (unat (0 :: 16 word)) (demo_fvd files)"
proof -
  show len: "length demo_device = get_obj_len CLASS_mDetectDeviceConfig" by (simp add: demo_device_def)
  have conv: "convert False CLASS_mDetectDeviceConfig demo_device = demo_device"
    using len by (simp add: convert_def net_decode_fields device_fields shift_fields_def swap_bytes_def)
  have "str_at (cammerIp_off j) (filled demo_device) = Some []" "str_at (cammerIp_off j) (replicate 219 0) = Some []"
    "str_at username_off (replicate 164 0) = Some []" "str_at passwd_off (replicate 164 0) = Some []" if "j < 6" for j
    using that by - (auto intro!: zero_str simp: filled_def demo_device_def cammerIp_off_def username_off_def passwd_off_def nth_append nth_Cons', presburger)
  then show "set_safe CLASS_mDetectDeviceConfig (filled (convert False CLASS_mDetectDeviceConfig demo_device)) (unat (0 :: 16 word)) (demo_fvd files)"
    unfolding conv by (simp add: set_safe_def device_safe_def ACTIVE_CAM_NUM_def demo_fvd_def short_str_def)
qed

theorem device_config_reported_witness:
  "\<exists>fv1 r c cams'. recv_buf False demo_client_io (demo_client 49) (request_bytes 1 1 0 SETDETECTDEVICE 0 demo_device) (demo_fvd demo_files) = Some ([], fv1) \<and>
     report_traffic False (\<lambda>k f. 1) (replicate 6 demo_holder) fv1 = Some (r, [frame_of (traffic_payload 9 c)], cams')"
proof -
  have u: "unat (0 :: 16 word) < ACTIVE_CAM_NUM" by (simp add: ACTIVE_CAM_NUM_def)
  have h: "holders_ok (replicate 6 demo_holder)"
    by (simp add: holders_ok_def demo_holder_def ACTIVE_CAM_NUM_def CHANNELMAXNUM_def)
  have l: "lanes_ok (demo_fvd demo_files)" by (simp add: lanes_ok_def demo_fvd_def lanenum_off_def)
  have "take_bit 4 (peek_u32 demo_device) = 9" by (simp add: demo_device_def peek_u32_def)
  moreover have "filter (\<lambda>j. demo_device ! camstatus_off j \<noteq> 0) [0..<ACTIVE_CAM_NUM] = [1]"
    by (simp add: ACTIVE_CAM_NUM_def upt_rec demo_device_def camstatus_off_def nth_append)
  ultimately show ?thesis
    using device_config_reported [OF demo_fvd_ok(2) demo_device_ok(1) u demo_device_ok(2) h l, of "\<lambda>k f. 1" demo_client_io "demo_client 49" 1 1 0]
    by auto
qed

end
